(* ===== verification/Prelude.thy ===== *)
theory Prelude imports Main "HOL-Library.Word" "HOL-Library.While_Combinator" begin

text \<open>
  Shared vocabulary of the development: the machine types the C++ code uses, the two
  ways a C++ operation can end, the buffer interface that several components implement,
  and the generic list lemmas their proofs share.
\<close>

unbundle bit_operations_syntax

type_synonym u8 = "8 word"
type_synonym u16 = "16 word"
type_synonym u32 = "32 word"
type_synonym u64 = "64 word"

text \<open>
  The collection \<open>inv_intros\<close> holds the preservation lemma of every operation for its
  component's invariant; \<open>abs_simps\<close> the equations that say what an operation does to the
  abstract value of its component.
\<close>

named_theorems inv_intros
named_theorems abs_simps

subsection \<open>Lists\<close>

lemma take_drop_nth_Suc: "i < length xs \<Longrightarrow> take (Suc i) xs = take i xs @ [xs ! i]"
  by (rule take_Suc_conv_app_nth)

lemma drop_take_append_update:
  "i \<le> j \<Longrightarrow> j < length xs \<Longrightarrow> drop i (take (Suc j) (xs[j := v])) = drop i (take j xs) @ [v]"
  by (simp add: take_drop_nth_Suc)

lemma map_nth_shift: "a + n \<le> length xs \<Longrightarrow> map (\<lambda>i. xs ! (a + i)) [0..<n] = take n (drop a xs)"
  by (rule nth_equalityI) auto

text \<open>A write of \<open>bs\<close> at position \<open>w\<close> of an array, seen from position \<open>r\<close>.\<close>

lemma write_slice:
  assumes "r \<le> w" and "w + length bs \<le> length buf"
  shows "take (w + length bs - r) (drop r (take w buf @ bs @ drop (w + length bs) buf)) =
         take (w - r) (drop r buf) @ bs"
proof -
  let ?A = "take (w - r) (drop r buf)"
  have "drop r (take w buf @ bs @ drop (w + length bs) buf) = ?A @ bs @ drop (w + length bs) buf"
    using assms by (simp add: drop_take)
  moreover have "w + length bs - r = length ?A + length bs" using assms by simp
  ultimately show ?thesis by (simp del: length_take length_drop)
qed

lemma distinct_filter_remove1 [simp]:
  "distinct xs \<Longrightarrow> filter (\<lambda>y. y \<noteq> x) xs = remove1 x xs"
  by (induction xs) (auto simp: filter_id_conv)

subsection \<open>Options as results\<close>

text \<open>
  \<open>None\<close> as the result of an operation stands for a C++ execution with undefined
  behaviour (an out of range access, a null dereference) or for a loop that never returns;
  each theory says which.
\<close>

lemma bind_eq_Some_conv': "(Option.bind m f = Some y) = (\<exists>x. m = Some x \<and> f x = Some y)"
  by (cases m) auto

lemma fold_invariant:
  "P s \<Longrightarrow> (\<And>x s. x \<in> set xs \<Longrightarrow> P s \<Longrightarrow> P (f x s)) \<Longrightarrow> P (fold f xs s)"
  by (induction xs arbitrary: s) auto

text \<open>A loop with an invariant and a measure ends, in a state of the invariant.\<close>

lemma while_ends:
  fixes f :: "'s \<Rightarrow> nat"
  assumes "P s" and "\<And>s. P s \<Longrightarrow> b s \<Longrightarrow> P (c s) \<and> f (c s) < f s"
  shows "\<exists>t. while_option b c s = Some t \<and> P t \<and> \<not> b t"
proof -
  obtain t where t: "while_option b c s = Some t"
    using measure_while_option_Some [where P = P and b = b and c = c and f = f and s = s] assms
    by blast
  have "P t" by (rule while_option_rule [where P = P and b = b and c = c, OF _ t]) (use assms in blast)+
  with t while_option_stop [OF t] show ?thesis by blast
qed

subsection \<open>The byte-stream interface\<close>

text \<open>
  The receive buffer, the send buffer and the circular queue are all used as a stream: a
  producer appends, a consumer looks at the front and drops what it has taken. The client
  relies on the laws below only; \<open>stream_order\<close> is what the client gets from them, whatever
  the interleaving of the two sides.
\<close>

datatype 'a stream_op = Push "'a list" | Pop nat

fun stream_run :: "('a list \<Rightarrow> 'q \<Rightarrow> 'q) \<Rightarrow> (nat \<Rightarrow> 'q \<Rightarrow> 'q) \<Rightarrow> ('q \<Rightarrow> nat) \<Rightarrow>
    ('q \<Rightarrow> 'a list) \<Rightarrow> ('a list \<Rightarrow> 'q \<Rightarrow> bool) \<Rightarrow> 'a stream_op list \<Rightarrow> 'q \<Rightarrow>
    ('a list \<times> 'a list \<times> 'q) option" where
  "stream_run push pop avail content can_push [] q = Some ([], [], q)"
| "stream_run push pop avail content can_push (Push xs # ops) q =
     (if can_push xs q then
        map_option (\<lambda>(i, out, q'). (xs @ i, out, q'))
          (stream_run push pop avail content can_push ops (push xs q))
      else None)"
| "stream_run push pop avail content can_push (Pop n # ops) q =
     (if n \<le> avail q then
        map_option (\<lambda>(i, out, q'). (i, take n (content q) @ out, q'))
          (stream_run push pop avail content can_push ops (pop n q))
      else None)"

locale stream =
  fixes push :: "'a list \<Rightarrow> 'q \<Rightarrow> 'q"
    and pop :: "nat \<Rightarrow> 'q \<Rightarrow> 'q"
    and avail :: "'q \<Rightarrow> nat"
    and content :: "'q \<Rightarrow> 'a list"
    and inv :: "'q \<Rightarrow> bool"
    and can_push :: "'a list \<Rightarrow> 'q \<Rightarrow> bool"
  assumes push_inv: "inv q \<Longrightarrow> can_push xs q \<Longrightarrow> inv (push xs q)"
    and pop_inv: "inv q \<Longrightarrow> n \<le> avail q \<Longrightarrow> inv (pop n q)"
    and push_content: "inv q \<Longrightarrow> can_push xs q \<Longrightarrow> content (push xs q) = content q @ xs"
    and pop_content: "inv q \<Longrightarrow> n \<le> avail q \<Longrightarrow> content (pop n q) = drop n (content q)"
    and avail_content: "inv q \<Longrightarrow> avail q \<le> length (content q)"
begin

abbreviation run :: "'a stream_op list \<Rightarrow> 'q \<Rightarrow> ('a list \<times> 'a list \<times> 'q) option" where
  "run \<equiv> stream_run push pop avail content can_push"

lemma stream_order:
  "inv q \<Longrightarrow> run ops q = Some (i, out, q') \<Longrightarrow>
     inv q' \<and> out @ content q' = content q @ i"
proof (induction ops arbitrary: q i out q')
  case (Cons op ops)
  show ?case
  proof (cases op)
    case (Push xs)
    with Cons.prems obtain i' where r: "run ops (push xs q) = Some (i', out, q')" "can_push xs q"
      and i: "i = xs @ i'"
      by (auto split: if_splits)
    have "inv q' \<and> out @ content q' = content (push xs q) @ i'"
      using Cons.IH [OF _ r(1)] Cons.prems(1) r(2) by (simp add: push_inv)
    with Cons.prems(1) r(2) i show ?thesis by (simp add: push_content)
  next
    case (Pop n)
    with Cons.prems obtain out' where r: "run ops (pop n q) = Some (i, out', q')" "n \<le> avail q"
      and out: "out = take n (content q) @ out'"
      by (auto split: if_splits)
    have "inv q' \<and> out' @ content q' = content (pop n q) @ i"
      using Cons.IH [OF _ r(1)] Cons.prems(1) r(2) by (simp add: pop_inv)
    with Cons.prems(1) r(2) out show ?thesis by (simp add: pop_content)
  qed
qed simp

lemma avail_take: "inv q \<Longrightarrow> n \<le> avail q \<Longrightarrow> length (take n (content q)) = n"
  using avail_content [of q] by simp

end

end
