(* ===== verification/Circle_Queue.thy ===== *)
theory Circle_Queue imports Prelude begin

text \<open>
  The circular queue \<open>CCircleQueue<T, FIX>\<close> of
  \<open>engine/inc/libBaseCommon/circle_queue.inl\<close>. The state is the array with its begin and end
  indices and its capacity; the template flag \<open>FIX\<close> is an argument of \<open>cq_send\<close>. A cell that
  was never written holds the default value of \<open>T\<close>, the argument \<open>d\<close>. Every queue of
  positive capacity refines a list: \<open>cq_list\<close> is the abstraction function.
\<close>

record 'a circle_queue =
  cq_queue :: "'a list"    \<comment> \<open>m_pQueue\<close>
  cq_begin :: nat          \<comment> \<open>m_nQueueBegin\<close>
  cq_end :: nat            \<comment> \<open>m_nQueueEnd\<close>
  cq_cap :: nat            \<comment> \<open>m_nQueueCapacity\<close>

definition cq_new :: "'a \<Rightarrow> nat \<Rightarrow> 'a circle_queue" where
  "cq_new d nCap = \<lparr>cq_queue = replicate nCap d, cq_begin = 0, cq_end = 0, cq_cap = nCap\<rparr>"

definition cq_size :: "'a circle_queue \<Rightarrow> nat" where
  "cq_size q =
     (if cq_end q \<ge> cq_begin q then cq_end q - cq_begin q
      else cq_cap q - (cq_begin q - cq_end q))"

definition cq_empty :: "'a circle_queue \<Rightarrow> bool" where
  "cq_empty q = (int (cq_end q) - int (cq_begin q) = 0)"

text \<open>
  The body of \<open>send\<close>: write at the end index, advance it with wrap-around, and when it meets
  the begin index copy the elements in order into an array of twice the size.
\<close>

definition cq_grow :: "'a \<Rightarrow> 'a circle_queue \<Rightarrow> 'a circle_queue" where
  "cq_grow d q =
     \<lparr>cq_queue = map (\<lambda>i. cq_queue q ! ((cq_begin q + i) mod cq_cap q)) [0..<cq_cap q]
                   @ replicate (cq_cap q) d,
      cq_begin = 0, cq_end = cq_cap q, cq_cap = cq_cap q * 2\<rparr>"

definition cq_put :: "'a \<Rightarrow> 'a circle_queue \<Rightarrow> 'a circle_queue" where
  "cq_put v q =
     q\<lparr>cq_queue := (cq_queue q)[cq_end q := v],
       cq_end := (if Suc (cq_end q) \<ge> cq_cap q then 0 else Suc (cq_end q))\<rparr>"

text \<open>\<open>None\<close> is a write outside the array.\<close>

definition cq_send :: "bool \<Rightarrow> 'a \<Rightarrow> 'a \<Rightarrow> 'a circle_queue \<Rightarrow> (bool \<times> 'a circle_queue) option" where
  "cq_send FIX d v q =
     (if FIX \<and> cq_size q = cq_cap q then Some (False, q)
      else if cq_end q \<ge> length (cq_queue q) then None
      else let q' = cq_put v q
           in Some (True, if cq_begin q' = cq_end q' then cq_grow d q' else q'))"

text \<open>The received value, if any, and the queue after the call.\<close>

definition cq_recv :: "'a circle_queue \<Rightarrow> 'a option \<times> 'a circle_queue" where
  "cq_recv q =
     (if cq_empty q then (None, q)
      else (Some (cq_queue q ! cq_begin q),
            q\<lparr>cq_begin := (if Suc (cq_begin q) \<ge> cq_cap q then 0 else Suc (cq_begin q))\<rparr>))"

subsection \<open>Invariant and abstraction\<close>

definition cq_inv :: "'a circle_queue \<Rightarrow> bool" where
  "cq_inv q = (length (cq_queue q) = cq_cap q \<and> cq_begin q < cq_cap q \<and> cq_end q < cq_cap q)"

definition cq_list :: "'a circle_queue \<Rightarrow> 'a list" where
  "cq_list q = map (\<lambda>i. cq_queue q ! ((cq_begin q + i) mod cq_cap q)) [0..<cq_size q]"

lemma cq_new_inv [inv_intros]: "0 < nCap \<Longrightarrow> cq_inv (cq_new d nCap)"
  by (simp add: cq_inv_def cq_new_def)

lemma cq_new_list [abs_simps]: "cq_list (cq_new d nCap) = []"
  by (simp add: cq_list_def cq_new_def cq_size_def)

lemma length_cq_list [simp]: "length (cq_list q) = cq_size q"
  by (simp add: cq_list_def)

lemma cq_size_less: "cq_inv q \<Longrightarrow> cq_size q < cq_cap q"
  by (auto simp: cq_inv_def cq_size_def)

lemma cq_empty_list: "cq_inv q \<Longrightarrow> cq_empty q = (cq_list q = [])"
  by (auto simp: cq_inv_def cq_empty_def cq_size_def length_0_conv [symmetric] simp del: length_0_conv)

text \<open>Where the cells of a queue lie, without the modulus.\<close>

lemma cq_index:
  "b < c \<Longrightarrow> i < c \<Longrightarrow> (b + i) mod c = (if b + i < c then b + i else b + i - c)" for b i c :: nat
  by (auto simp: le_mod_geq)

lemma cq_put_nth:
  assumes "cq_inv q" and "i < cq_size q"
  shows "(cq_queue q)[cq_end q := v] ! ((cq_begin q + i) mod cq_cap q) =
         cq_queue q ! ((cq_begin q + i) mod cq_cap q)"
  using assms cq_size_less [OF assms(1)]
  by (auto simp: cq_inv_def cq_index cq_size_def split: if_splits)

lemma cq_end_index: "cq_inv q \<Longrightarrow> (cq_begin q + cq_size q) mod cq_cap q = cq_end q"
  by (auto simp: cq_inv_def cq_index cq_size_def)

text \<open>The cells from the begin index on, after the write: the old elements and then the new one.\<close>

lemma cq_put_cells:
  assumes "cq_inv q"
  shows "map (\<lambda>i. (cq_queue q)[cq_end q := v] ! ((cq_begin q + i) mod cq_cap q))
           [0..<Suc (cq_size q)] = cq_list q @ [v]"
  using assms cq_put_nth [OF assms] cq_end_index [OF assms]
  by (auto simp: cq_list_def cq_inv_def)

lemma cq_put_room:
  assumes "cq_inv q" and "cq_begin (cq_put v q) \<noteq> cq_end (cq_put v q)"
  shows "cq_inv (cq_put v q)" and "cq_list (cq_put v q) = cq_list q @ [v]"
proof -
  show "cq_inv (cq_put v q)" using assms(1) by (auto simp: cq_inv_def cq_put_def)
  have "cq_size (cq_put v q) = Suc (cq_size q)"
    using assms by (auto simp: cq_inv_def cq_put_def cq_size_def split: if_splits)
  then show "cq_list (cq_put v q) = cq_list q @ [v]"
    using cq_put_cells [OF assms(1), of v] by (simp add: cq_list_def [of "cq_put v q"]) (simp add: cq_put_def)
qed

lemma cq_put_full:
  assumes "cq_inv q" and "cq_begin (cq_put v q) = cq_end (cq_put v q)"
  shows "cq_inv (cq_grow d (cq_put v q))" and "cq_list (cq_grow d (cq_put v q)) = cq_list q @ [v]"
    and "cq_size (cq_grow d (cq_put v q)) = cq_cap q"
proof -
  let ?g = "cq_grow d (cq_put v q)"
  show "cq_inv ?g" using assms(1) by (auto simp: cq_inv_def cq_put_def cq_grow_def)
  show sz: "cq_size ?g = cq_cap q" by (simp add: cq_grow_def cq_size_def cq_put_def)
  have "Suc (cq_size q) = cq_cap q"
    using assms by (auto simp: cq_inv_def cq_put_def cq_size_def split: if_splits)
  moreover have "cq_list ?g = map (\<lambda>i. (cq_queue q)[cq_end q := v] ! ((cq_begin q + i) mod cq_cap q)) [0..<cq_cap q]"
    unfolding cq_list_def sz by (rule map_cong [OF refl]) (auto simp: cq_grow_def cq_put_def nth_append)
  ultimately show "cq_list ?g = cq_list q @ [v]"
    using cq_put_cells [OF assms(1), of v] by simp
qed

subsection \<open>Every operation refines its list counterpart\<close>

lemma cq_send_refines:
  assumes "cq_inv q"
  shows "\<exists>q'. cq_send FIX d v q = Some (True, q') \<and> cq_inv q' \<and> cq_list q' = cq_list q @ [v]"
  using assms cq_size_less [OF assms] cq_put_room [OF assms, of v] cq_put_full [OF assms, of v d]
  by (auto simp: cq_send_def Let_def cq_inv_def [of q])

lemma cq_recv_empty: "cq_inv q \<Longrightarrow> cq_list q = [] \<Longrightarrow> cq_recv q = (None, q)"
  by (simp add: cq_recv_def cq_empty_list)

lemma cq_recv_refines:
  assumes "cq_inv q" and "cq_list q = x # xs"
  shows "\<exists>q'. cq_recv q = (Some x, q') \<and> cq_inv q' \<and> cq_list q' = xs"
proof -
  define b where "b = (if Suc (cq_begin q) \<ge> cq_cap q then 0 else Suc (cq_begin q))"
  let ?q = "q\<lparr>cq_begin := b\<rparr>"
  have ne: "\<not> cq_empty q" using assms by (simp add: cq_empty_list)
  have inv: "cq_inv ?q" using assms(1) by (auto simp: cq_inv_def b_def)
  have sz: "cq_size q = Suc (cq_size ?q)"
    using assms(1) ne by (auto simp: cq_inv_def cq_size_def cq_empty_def b_def)
  have idx: "Suc (cq_begin q + i) mod cq_cap q = (b + i) mod cq_cap q" for i
  proof (cases "Suc (cq_begin q) \<ge> cq_cap q")
    case True
    with assms(1) have eq: "Suc (cq_begin q + i) = cq_cap q + i" by (auto simp: cq_inv_def)
    show ?thesis unfolding eq using True by (simp add: b_def)
  qed (simp add: b_def)
  have "[0..<cq_size q] = 0 # map Suc [0..<cq_size ?q]"
    by (simp add: sz upt_conv_Cons map_Suc_upt del: upt_Suc)
  then have "cq_list q = cq_queue q ! cq_begin q # cq_list ?q"
    using assms(1) by (simp add: cq_list_def idx cq_inv_def comp_def)
  with assms(2) ne inv show ?thesis by (simp add: cq_recv_def b_def)
qed

subsection \<open>The queue as a stream\<close>

text \<open>
  What a producer and a consumer do with the queue: send a batch of values, receive up to
  \<open>n\<close> of them. The queue is an instance of the stream interface, so every interleaving
  delivers the values in the order they were sent.
\<close>

definition cq_send_all :: "bool \<Rightarrow> 'a \<Rightarrow> 'a list \<Rightarrow> 'a circle_queue \<Rightarrow> 'a circle_queue" where
  "cq_send_all FIX d vs q =
     fold (\<lambda>v q. case cq_send FIX d v q of None \<Rightarrow> q | Some (_, q') \<Rightarrow> q') vs q"

fun cq_recv_all :: "nat \<Rightarrow> 'a circle_queue \<Rightarrow> 'a circle_queue" where
  "cq_recv_all 0 q = q"
| "cq_recv_all (Suc n) q = cq_recv_all n (snd (cq_recv q))"

lemma cq_send_all_refines:
  "cq_inv q \<Longrightarrow> cq_inv (cq_send_all FIX d vs q) \<and> cq_list (cq_send_all FIX d vs q) = cq_list q @ vs"
proof (induction vs arbitrary: q)
  case (Cons v vs)
  from cq_send_refines [OF Cons.prems] obtain q' where
    "cq_send FIX d v q = Some (True, q')" "cq_inv q'" "cq_list q' = cq_list q @ [v]" by blast
  with Cons.IH [of q'] show ?case by (simp add: cq_send_all_def)
qed (simp add: cq_send_all_def)

lemma cq_recv_all_refines:
  "cq_inv q \<Longrightarrow> cq_inv (cq_recv_all n q) \<and> cq_list (cq_recv_all n q) = drop n (cq_list q)"
proof (induction n arbitrary: q)
  case (Suc n)
  show ?case
  proof (cases "cq_list q")
    case Nil
    with Suc cq_recv_empty [OF Suc.prems] show ?thesis by simp
  next
    case (Cons x xs)
    with cq_recv_refines [OF Suc.prems] obtain q' where
      "cq_recv q = (Some x, q')" "cq_inv q'" "cq_list q' = xs" by blast
    with Cons Suc.IH [of q'] show ?thesis by simp
  qed
qed simp

interpretation cq: stream "cq_send_all FIX d" cq_recv_all cq_size cq_list cq_inv "\<lambda>_ _. True"
  for FIX :: bool and d :: 'a
  by unfold_locales (simp_all add: cq_send_all_refines cq_recv_all_refines)

text \<open>
  C4: a queue created with a positive capacity delivers what was sent, in order and without
  loss, however sends and receives are interleaved and however often it grows: what came out,
  followed by what is still in it, is what went in.
\<close>

theorem circle_queue_fifo:
  assumes "0 < nCap"
    and "stream_run (cq_send_all FIX d) cq_recv_all cq_size cq_list (\<lambda>_ _. True) ops (cq_new d nCap)
           = Some (sent, received, q)"
  shows "received @ cq_list q = sent"
  using cq.stream_order [OF cq_new_inv [OF assms(1)] assms(2)] by (simp add: cq_new_list)

lemma circle_queue_fifo_witness:
  "\<exists>q. stream_run (cq_send_all False 0) cq_recv_all cq_size cq_list (\<lambda>_ _. True)
      [Push [1, 2], Pop 1, Push [3]] (cq_new (0::int) 2) = Some ([1, 2, 3], [1], q) \<and>
    cq_list q = [2, 3]"
proof -
  have "stream_run (cq_send_all False 0) cq_recv_all cq_size cq_list (\<lambda>_ _. True)
      [Push [1, 2], Pop 1, Push [3]] (cq_new (0::int) 2) =
      Some ([1, 2, 3], [1], \<lparr>cq_queue = [1, 2, 3, 0], cq_begin = 1, cq_end = 3, cq_cap = 4\<rparr>)"
    by code_simp
  then show ?thesis using circle_queue_fifo [of 2 False "0::int"] by fastforce
qed

text \<open>
  a queue declared with \<open>FIX\<close> is not fixed: its test for a full queue never holds,
  because the queue doubles its array as soon as one cell is left. Sending always succeeds, and
  the send that leaves no free cell doubles the capacity.
\<close>

theorem fixed_queue_never_full:
  assumes "cq_inv q"
  shows "\<exists>q'. cq_send True d v q = Some (True, q') \<and> cq_list q' = cq_list q @ [v] \<and>
           cq_cap q' = (if Suc (cq_size q) = cq_cap q then 2 * cq_cap q else cq_cap q)"
proof -
  from cq_send_refines [OF assms, of True d v] obtain q' where q': "cq_send True d v q = Some (True, q')"
    "cq_list q' = cq_list q @ [v]" by blast
  have "cq_begin (cq_put v q) = cq_end (cq_put v q) \<longleftrightarrow> Suc (cq_size q) = cq_cap q"
    using assms by (auto simp: cq_inv_def cq_put_def cq_size_def split: if_splits)
  then have "cq_cap q' = (if Suc (cq_size q) = cq_cap q then 2 * cq_cap q else cq_cap q)"
    using q'(1) by (auto simp: cq_send_def Let_def cq_put_def cq_grow_def split: if_splits)
  with q' show ?thesis by blast
qed

lemma fixed_queue_never_full_witness:
  "\<exists>q'. cq_send True (0::int) 7 (cq_new 0 1) = Some (True, q') \<and> cq_list q' = [7] \<and> cq_cap q' = 2"
  using fixed_queue_never_full [of "cq_new (0::int) 1" 0 7]
  by (simp add: cq_new_inv cq_new_list) (simp add: cq_new_def cq_size_def)

end
