(* ===== verification/Ticker_Mgr.thy ===== *)
theory Ticker_Mgr imports Prelude "HOL-Library.While_Combinator" begin

text \<open>
  The timer wheel \<open>CTickerMgrImpl\<close> of \<open>engine/src/libBaseCommon/ticker_mgr_impl.cpp\<close> and the
  client objects \<open>CTicker\<close> of \<open>ticker.cpp\<close>. Times are \<open>int\<close>: the code computes them in
  64 bits of milliseconds, where \<open>>>\<close> and \<open>&\<close> with a mask are division and remainder by a power
  of two.

  A \<open>CCoreTickerNode\<close> is an intrusive list node: it is on at most one list and \<open>remove()\<close> finds
  its list through its own pointers. The model keeps the lists as lists of node numbers and the
  pair of pointers of a node as the place the node is linked in (\<open>nd_place\<close>, \<open>None\<close> when both
  pointers are null). The heap of nodes and the tickers the clients own are maps.

  The client code a callback runs is the parameter \<open>cb\<close>: from the ticker and the state it
  decides which tickers to register, unregister or move.
\<close>

datatype slot = Near nat | Cascade nat nat | Far

record core_node =              \<comment> \<open>\<open>SCoreTickerInfo\<close> in its link node\<close>
  nd_place :: "slot option"     \<comment> \<open>\<open>pPre\<close> and \<open>pNext\<close>\<close>
  nd_ticker :: "nat option"     \<comment> \<open>\<open>pTicker\<close>; \<open>pTickerMgrImpl\<close> is null with it\<close>
  nd_next :: int                \<comment> \<open>\<open>nNextTime\<close>\<close>
  nd_interval :: nat            \<comment> \<open>\<open>nIntervalTime\<close>\<close>
  nd_context :: nat             \<comment> \<open>\<open>nContext\<close>\<close>

record ticker =
  tk_node :: "nat option"       \<comment> \<open>\<open>m_pCoreContext\<close>\<close>
  tk_callback :: bool           \<comment> \<open>\<open>*m_callback\<close> is not empty\<close>
  tk_coroutine :: bool          \<comment> \<open>\<open>m_bCoroutine\<close>\<close>

text \<open>One call of a ticker's callback: the ticker, the context passed, the time the timer was
  due, the logic time of the call, and whether it is a one-shot timer.\<close>

record fired =
  fr_ticker :: nat
  fr_context :: nat
  fr_due :: int
  fr_time :: int
  fr_once :: bool

record ticker_mgr =
  tm_lists :: "slot \<Rightarrow> nat list"              \<comment> \<open>\<open>m_listNearTicker\<close>, \<open>m_listCascadeTicker\<close>, \<open>m_listFarTicker\<close>\<close>
  tm_temp :: "nat list"                      \<comment> \<open>\<open>m_vecTempTickerNode\<close>\<close>
  tm_time :: int                             \<comment> \<open>\<open>m_nLogicTime\<close>\<close>
  tm_hook :: bool                            \<comment> \<open>\<open>m_callback\<close> is not empty\<close>
  tm_nodes :: "nat \<Rightarrow> core_node option"       \<comment> \<open>the nodes allocated\<close>
  tm_alloc :: nat                            \<comment> \<open>the next node to allocate\<close>
  tm_tickers :: "nat \<Rightarrow> ticker"
  tm_fired :: "fired list"                   \<comment> \<open>the callbacks run, in order\<close>

definition TIME_NEAR_SIZE :: int where "TIME_NEAR_SIZE = 2 ^ 16"
definition TIME_CASCADE_SIZE :: int where "TIME_CASCADE_SIZE = 2 ^ 8"
definition TIME_CASCADE_COUNT :: nat where "TIME_CASCADE_COUNT = 3"

definition tm_new :: "int \<Rightarrow> bool \<Rightarrow> (nat \<Rightarrow> ticker) \<Rightarrow> ticker_mgr" where
  "tm_new nTime hook tks =
     \<lparr>tm_lists = (\<lambda>_. []), tm_temp = [], tm_time = nTime, tm_hook = hook,
      tm_nodes = (\<lambda>_. None), tm_alloc = 0, tm_tickers = tks, tm_fired = []\<rparr>"

subsection \<open>The intrusive lists\<close>

definition link_push :: "slot \<Rightarrow> nat \<Rightarrow> ticker_mgr \<Rightarrow> ticker_mgr" where
  "link_push s n m =
     (case tm_nodes m n of
        None \<Rightarrow> m
      | Some nd \<Rightarrow>
          if nd_place nd \<noteq> None then m
          else m\<lparr>tm_lists := (tm_lists m)(s := tm_lists m s @ [n]),
                 tm_nodes := (tm_nodes m)(n \<mapsto> nd\<lparr>nd_place := Some s\<rparr>)\<rparr>)"

definition link_remove :: "nat \<Rightarrow> ticker_mgr \<Rightarrow> ticker_mgr" where
  "link_remove n m =
     (case tm_nodes m n of
        None \<Rightarrow> m
      | Some nd \<Rightarrow>
          (case nd_place nd of
             None \<Rightarrow> m
           | Some s \<Rightarrow>
               m\<lparr>tm_lists := (tm_lists m)(s := remove1 n (tm_lists m s)),
                 tm_nodes := (tm_nodes m)(n \<mapsto> nd\<lparr>nd_place := None\<rparr>)\<rparr>))"

subsection \<open>Choosing the list\<close>

text \<open>The loop over the levels: the first one whose span covers the delay.\<close>

function find_level :: "nat \<Rightarrow> int \<Rightarrow> int \<Rightarrow> nat" where
  "find_level nLevel nMask nDelta =
     (if nLevel < TIME_CASCADE_COUNT then
        if nDelta < nMask then nLevel
        else find_level (Suc nLevel) (nMask * TIME_CASCADE_SIZE) nDelta
      else nLevel)"
  by pat_completeness auto
termination
  by (relation "measure (\<lambda>(l, _, _). TIME_CASCADE_COUNT - l)") auto

declare find_level.simps [simp del]

definition cascade_pos :: "nat \<Rightarrow> int \<Rightarrow> nat" where
  "cascade_pos nLevel t = nat ((t div 2 ^ (16 + nLevel * 8)) mod TIME_CASCADE_SIZE)"

definition near_pos :: "int \<Rightarrow> nat" where
  "near_pos t = nat (t mod TIME_NEAR_SIZE)"

definition slot_for :: "int \<Rightarrow> int \<Rightarrow> slot" where
  "slot_for nLogic nNext =
     (let nDelta = nNext - nLogic
      in if nDelta < TIME_NEAR_SIZE then Near (near_pos nNext)
         else let nLevel = find_level 0 (TIME_NEAR_SIZE * TIME_CASCADE_SIZE) nDelta
              in if nLevel < TIME_CASCADE_COUNT then Cascade nLevel (cascade_pos nLevel nNext)
                 else Far)"

text \<open>\<open>insertTicker\<close>: a node due before the logic time is refused by the assertion.\<close>

definition insertTicker :: "nat \<Rightarrow> ticker_mgr \<Rightarrow> ticker_mgr" where
  "insertTicker n m =
     (case tm_nodes m n of
        None \<Rightarrow> m
      | Some nd \<Rightarrow>
          if nd_next nd \<ge> tm_time m then link_push (slot_for (tm_time m) (nd_next nd)) n m else m)"

subsection \<open>Register, unregister, move\<close>

definition registerTicker :: "nat \<Rightarrow> nat \<Rightarrow> nat \<Rightarrow> nat \<Rightarrow> ticker_mgr \<Rightarrow> bool \<times> ticker_mgr" where
  "registerTicker t nStart nInterval nContext m =
     (if tk_node (tm_tickers m t) \<noteq> None then (False, m)
      else if \<not> tk_callback (tm_tickers m t) then (False, m)
      else let n = tm_alloc m;
               nd = \<lparr>nd_place = None, nd_ticker = Some t, nd_next = tm_time m + int nStart,
                     nd_interval = nInterval, nd_context = nContext\<rparr>;
               m1 = m\<lparr>tm_nodes := (tm_nodes m)(n \<mapsto> nd), tm_alloc := Suc n,
                      tm_tickers := (tm_tickers m)(t := (tm_tickers m t)\<lparr>tk_node := Some n\<rparr>)\<rparr>
           in (True, insertTicker n m1))"

text \<open>A linked node is unlinked and deleted; a node whose callback is running is only detached,
  and the loop of \<open>update\<close> deletes it.\<close>

definition unregisterTicker :: "nat \<Rightarrow> ticker_mgr \<Rightarrow> ticker_mgr" where
  "unregisterTicker t m =
     (case tk_node (tm_tickers m t) of
        None \<Rightarrow> m
      | Some n \<Rightarrow>
          let m1 = m\<lparr>tm_tickers := (tm_tickers m)(t := (tm_tickers m t)\<lparr>tk_node := None\<rparr>)\<rparr>
          in case tm_nodes m n of
               None \<Rightarrow> m1
             | Some nd \<Rightarrow>
                 if nd_place nd \<noteq> None then
                   let m2 = link_remove n m1 in m2\<lparr>tm_nodes := (tm_nodes m2)(n := None)\<rparr>
                 else m1\<lparr>tm_nodes := (tm_nodes m)(n \<mapsto> nd\<lparr>nd_ticker := None\<rparr>)\<rparr>)"

text \<open>The move assignment of \<open>CTicker\<close>.\<close>

definition moveTicker :: "nat \<Rightarrow> nat \<Rightarrow> ticker_mgr \<Rightarrow> ticker_mgr" where
  "moveTicker dst src m =
     (if dst = src then m
      else let m1 = unregisterTicker dst m;
               s = tm_tickers m1 src;
               m2 = m1\<lparr>tm_tickers := (tm_tickers m1)(dst := s, src := s\<lparr>tk_node := None\<rparr>)\<rparr>
           in case tk_node s of
                None \<Rightarrow> m2
              | Some n \<Rightarrow>
                  (case tm_nodes m2 n of
                     None \<Rightarrow> m2
                   | Some nd \<Rightarrow> m2\<lparr>tm_nodes := (tm_nodes m2)(n \<mapsto> nd\<lparr>nd_ticker := Some dst\<rparr>)\<rparr>))"

definition getContext :: "nat \<Rightarrow> ticker_mgr \<Rightarrow> nat" where
  "getContext t m =
     (case tk_node (tm_tickers m t) of
        None \<Rightarrow> 0
      | Some n \<Rightarrow> (case tm_nodes m n of None \<Rightarrow> 0 | Some nd \<Rightarrow> nd_context nd))"

datatype ticker_op =
    OpRegister nat nat nat nat
  | OpUnregister nat
  | OpMove nat nat
  | OpSetCallback nat bool bool

definition setCallback :: "nat \<Rightarrow> bool \<Rightarrow> bool \<Rightarrow> ticker_mgr \<Rightarrow> ticker_mgr" where
  "setCallback t b co m =
     m\<lparr>tm_tickers := (tm_tickers m)(t := (tm_tickers m t)\<lparr>tk_callback := b, tk_coroutine := co\<rparr>)\<rparr>"

fun client_op :: "ticker_op \<Rightarrow> ticker_mgr \<Rightarrow> ticker_mgr" where
  "client_op (OpRegister t st iv ctx) m = snd (registerTicker t st iv ctx m)"
| "client_op (OpUnregister t) m = unregisterTicker t m"
| "client_op (OpMove d s) m = moveTicker d s m"
| "client_op (OpSetCallback t b co) m = setCallback t b co m"

subsection \<open>The tick\<close>

definition cascade_step :: "slot \<Rightarrow> ticker_mgr \<Rightarrow> ticker_mgr" where
  "cascade_step s m = (let n = hd (tm_lists m s) in insertTicker n (link_remove n m))"

text \<open>\<open>None\<close>: the loop never ends.\<close>

definition cascade_drain :: "slot \<Rightarrow> ticker_mgr \<Rightarrow> ticker_mgr option" where
  "cascade_drain s m = while_option (\<lambda>m. tm_lists m s \<noteq> []) (cascade_step s) m"

function cascade_levels :: "nat \<Rightarrow> ticker_mgr \<Rightarrow> ticker_mgr option" where
  "cascade_levels nLevel m =
     (if nLevel < TIME_CASCADE_COUNT then
        (let nPos = cascade_pos nLevel (tm_time m)
         in Option.bind (cascade_drain (Cascade nLevel nPos) m)
              (\<lambda>m'. if nPos \<noteq> 0 then Some m' else cascade_levels (Suc nLevel) m'))
      else cascade_drain Far m)"
  by pat_completeness auto
termination
  by (relation "measure (\<lambda>(l, _). TIME_CASCADE_COUNT - l)") auto

declare cascade_levels.simps [simp del]

definition cascadeTicker :: "ticker_mgr \<Rightarrow> ticker_mgr option" where
  "cascadeTicker m = cascade_levels 0 m"

text \<open>
  The call of the callback: through the manager's own callback when it has one, which reads the
  context back from the ticker (\<open>tickerCallback\<close> in \<open>core_service.cpp\<close>), and otherwise with the
  context of the node.
\<close>

definition tickerCallback :: "nat \<Rightarrow> ticker_mgr \<Rightarrow> nat option" where
  "tickerCallback t m = (if tk_callback (tm_tickers m t) then Some (getContext t m) else None)"

definition call_context :: "nat \<Rightarrow> core_node \<Rightarrow> ticker_mgr \<Rightarrow> nat option" where
  "call_context t nd m =
     (if tm_hook m then tickerCallback t m
      else if tk_callback (tm_tickers m t) then Some (nd_context nd) else None)"

definition run_callback ::
    "(nat \<Rightarrow> ticker_mgr \<Rightarrow> ticker_op list) \<Rightarrow> nat \<Rightarrow> core_node \<Rightarrow> ticker_mgr \<Rightarrow> ticker_mgr" where
  "run_callback cb t nd m =
     (case call_context t nd m of
        None \<Rightarrow> m
      | Some ctx \<Rightarrow>
          fold client_op (cb t m)
            (m\<lparr>tm_fired := tm_fired m @
                 [\<lparr>fr_ticker = t, fr_context = ctx, fr_due = nd_next nd, fr_time = tm_time m,
                   fr_once = (nd_interval nd = 0)\<rparr>]\<rparr>))"

text \<open>A one-shot timer is unregistered before its callback runs.\<close>

definition detach_once :: "nat \<Rightarrow> nat \<Rightarrow> core_node \<Rightarrow> ticker_mgr \<Rightarrow> ticker_mgr" where
  "detach_once n t nd m =
     (if nd_interval nd = 0 then
        m\<lparr>tm_nodes := (tm_nodes m)(n \<mapsto> nd\<lparr>nd_ticker := None\<rparr>),
          tm_tickers := (tm_tickers m)(t := (tm_tickers m t)\<lparr>tk_node := None\<rparr>)\<rparr>
      else m)"

definition after_callback :: "nat \<Rightarrow> ticker_mgr \<Rightarrow> ticker_mgr" where
  "after_callback n m =
     (case tm_nodes m n of
        None \<Rightarrow> m
      | Some nd \<Rightarrow>
          if nd_ticker nd = None then m\<lparr>tm_nodes := (tm_nodes m)(n := None)\<rparr>
          else m\<lparr>tm_nodes := (tm_nodes m)(n \<mapsto> nd\<lparr>nd_next := nd_next nd + int (nd_interval nd)\<rparr>),
                 tm_temp := tm_temp m @ [n]\<rparr>)"

definition fire_step :: "(nat \<Rightarrow> ticker_mgr \<Rightarrow> ticker_op list) \<Rightarrow> nat \<Rightarrow> ticker_mgr \<Rightarrow> ticker_mgr" where
  "fire_step cb nPos m =
     (let n = hd (tm_lists m (Near nPos)); m1 = link_remove n m
      in case tm_nodes m1 n of
           None \<Rightarrow> m1
         | Some nd \<Rightarrow>
             (case nd_ticker nd of
                None \<Rightarrow> m1
              | Some t \<Rightarrow> after_callback n (run_callback cb t nd (detach_once n t nd m1))))"

definition fire_all :: "(nat \<Rightarrow> ticker_mgr \<Rightarrow> ticker_op list) \<Rightarrow> nat \<Rightarrow> ticker_mgr \<Rightarrow> ticker_mgr option" where
  "fire_all cb nPos m = while_option (\<lambda>m. tm_lists m (Near nPos) \<noteq> []) (fire_step cb nPos) m"

text \<open>Putting back the timers that fired: one unregistered meanwhile is deleted.\<close>

definition reinsert_one :: "nat \<Rightarrow> ticker_mgr \<Rightarrow> ticker_mgr" where
  "reinsert_one n m =
     (case tm_nodes m n of
        None \<Rightarrow> m
      | Some nd \<Rightarrow>
          if nd_ticker nd = None then m\<lparr>tm_nodes := (tm_nodes m)(n := None)\<rparr>
          else insertTicker n m)"

definition tick :: "(nat \<Rightarrow> ticker_mgr \<Rightarrow> ticker_op list) \<Rightarrow> ticker_mgr \<Rightarrow> ticker_mgr option" where
  "tick cb m =
     (let nPos = near_pos (tm_time m)
      in Option.bind (if nPos = 0 then cascadeTicker m else Some m) (\<lambda>m1.
         Option.bind (fire_all cb nPos (m1\<lparr>tm_temp := []\<rparr>)) (\<lambda>m2.
         let m3 = fold reinsert_one (tm_temp m2) m2
         in Some (m3\<lparr>tm_time := tm_time m3 + 1\<rparr>))))"

fun update_n :: "(nat \<Rightarrow> ticker_mgr \<Rightarrow> ticker_op list) \<Rightarrow> nat \<Rightarrow> ticker_mgr \<Rightarrow> ticker_mgr option" where
  "update_n cb 0 m = Some m"
| "update_n cb (Suc k) m = Option.bind (tick cb m) (update_n cb k)"

definition update :: "(nat \<Rightarrow> ticker_mgr \<Rightarrow> ticker_op list) \<Rightarrow> int \<Rightarrow> ticker_mgr \<Rightarrow> ticker_mgr option" where
  "update cb nTime m = update_n cb (nat (nTime + 1 - tm_time m)) m"

end
