(* ===== verification/Ticker_Wheel.thy ===== *)
theory Ticker_Wheel imports Ticker_Mgr begin

text \<open>
  Correctness of the timer wheel: the linking invariant of nodes, lists and tickers, the
  placement invariant that says which list a due time may be on at a given logic time, their
  preservation by every operation and by the tick, and what follows: a timer fires exactly at
  its due time and none is lost.
\<close>

subsection \<open>Levels and positions\<close>

definition lev_span :: "nat \<Rightarrow> int" where
  "lev_span L = 2 ^ (16 + L * 8)"

lemma lev_span_pos [simp]: "0 < lev_span L"
  by (simp add: lev_span_def)

lemma lev_span_0: "lev_span 0 = TIME_NEAR_SIZE"
  by (simp add: lev_span_def TIME_NEAR_SIZE_def)

lemma lev_span_Suc: "lev_span (Suc L) = 256 * lev_span L"
  by (simp add: lev_span_def power_add)

lemma lev_span_dvd_Suc: "lev_span L dvd lev_span (Suc L)"
  by (simp add: lev_span_Suc)

lemma cascade_pos_eq: "int (cascade_pos L t) = (t div lev_span L) mod 256"
  by (simp add: cascade_pos_def lev_span_def TIME_CASCADE_SIZE_def)

lemma near_pos_eq: "int (near_pos t) = t mod 2 ^ 16"
  by (simp add: near_pos_def TIME_NEAR_SIZE_def)

lemma find_level_spec:
  "find_level 0 (TIME_NEAR_SIZE * TIME_CASCADE_SIZE) d =
     (if d < lev_span 1 then 0 else if d < lev_span 2 then 1 else if d < lev_span 3 then 2 else 3)"
  by (simp add: find_level.simps TIME_NEAR_SIZE_def TIME_CASCADE_SIZE_def TIME_CASCADE_COUNT_def
      lev_span_def numeral_2_eq_2 numeral_3_eq_3)

text \<open>
  Where a timer due at \<open>x\<close> may be linked, at logic time \<open>T\<close>. The threshold \<open>c L\<close> is \<open>T\<close> while
  the list of level \<open>L\<close> for the time \<open>T\<close> has not been cascaded, and \<open>T + 1\<close> after.
\<close>

definition placed :: "int \<Rightarrow> (nat \<Rightarrow> int) \<Rightarrow> slot \<Rightarrow> int \<Rightarrow> bool" where
  "placed T c s x =
     (case s of
        Near p \<Rightarrow> T \<le> x \<and> x < T + 2 ^ 16 \<and> int p = x mod 2 ^ 16
      | Cascade L p \<Rightarrow>
          L < 3 \<and> int p = (x div lev_span L) mod 256 \<and>
          c L \<le> (x div lev_span L) * lev_span L \<and>
          (x div lev_span L - 256) * lev_span L < c L
      | Far \<Rightarrow> c 3 \<le> (x div lev_span 3) * lev_span 3)"

lemma div_mult_bounds:
  fixes x b :: int
  assumes "0 < b"
  shows "x div b * b \<le> x" and "x - b < x div b * b"
proof -
  have "x = x div b * b + x mod b" by simp
  moreover have "0 \<le> x mod b" "x mod b < b" using assms by simp_all
  ultimately show "x div b * b \<le> x" "x - b < x div b * b" by linarith+
qed

lemma placed_le: "placed T c s x \<Longrightarrow> (\<forall>L. T \<le> c L) \<Longrightarrow> T \<le> x"
  using div_mult_bounds(1) [of "lev_span 3" x]
  by (cases s) (auto simp: placed_def intro: order_trans [OF _ div_mult_bounds(1)] dest!: spec
      elim!: order_trans order_trans [OF order_trans])

text \<open>The list \<open>insertTicker\<close> chooses is a right place, before and after the cascade.\<close>

lemma placed_cascade:
  assumes "lev_span L \<le> x - T" and "x - T < lev_span (Suc L)" and "L < 3"
    and "T \<le> c L" and "c L \<le> T + 1"
  shows "placed T c (Cascade L (cascade_pos L x)) x"
  using assms div_mult_bounds [of "lev_span L" x]
  by (simp add: placed_def cascade_pos_eq lev_span_Suc algebra_simps)

lemma slot_for_cases:
  "slot_for T x =
     (if x - T < lev_span 0 then Near (near_pos x)
      else if x - T < lev_span 1 then Cascade 0 (cascade_pos 0 x)
      else if x - T < lev_span 2 then Cascade 1 (cascade_pos 1 x)
      else if x - T < lev_span 3 then Cascade 2 (cascade_pos 2 x)
      else Far)"
  unfolding slot_for_def Let_def find_level_spec lev_span_0 by (simp add: TIME_CASCADE_COUNT_def)

lemma slot_for_placed:
  assumes "T \<le> x" and c: "\<forall>L. T \<le> c L \<and> c L \<le> T + 1"
  shows "placed T c (slot_for T x) x"
proof -
  have lev: "placed T c (Cascade L (cascade_pos L x)) x"
    if "\<not> x - T < lev_span L" "x - T < lev_span (Suc L)" "L < 3" for L
    using placed_cascade [of L x T c] that c by simp
  consider "x - T < lev_span 0" | "\<not> x - T < lev_span 0" "x - T < lev_span 1"
    | "\<not> x - T < lev_span 1" "x - T < lev_span 2" | "\<not> x - T < lev_span 2" "x - T < lev_span 3"
    | "\<not> x - T < lev_span 3" by blast
  then show ?thesis
  proof cases
    case 1
    with assms show ?thesis by (simp add: slot_for_cases placed_def near_pos_eq lev_span_def)
  next
    case 2
    with lev [of 0] show ?thesis by (simp add: slot_for_cases)
  next
    case 3
    with lev [of 1] show ?thesis by (simp add: slot_for_cases numeral_2_eq_2 lev_span_Suc)
  next
    case 4
    with lev [of 2] show ?thesis by (simp add: slot_for_cases lev_span_Suc numeral_3_eq_3 numeral_2_eq_2)
  next
    case 5
    then have "slot_for T x = Far" by (simp add: slot_for_cases lev_span_def)
    moreover have "c 3 \<le> x div lev_span 3 * lev_span 3"
      using 5 c [rule_format, of 3] div_mult_bounds(2) [OF lev_span_pos, of x 3] by linarith
    ultimately show ?thesis by (simp add: placed_def)
  qed
qed

text \<open>A delay shorter than the span of a level is never put on that level or above.\<close>

lemma slot_for_below:
  assumes "x - T < lev_span K" and "K \<le> 3"
  shows "slot_for T x \<noteq> Far" and "slot_for T x = Cascade L p \<Longrightarrow> L < K"
proof -
  have "K = 0 \<or> K = 1 \<or> K = 2 \<or> K = 3" using assms(2) by linarith
  with assms(1) show "slot_for T x \<noteq> Far" "slot_for T x = Cascade L p \<Longrightarrow> L < K"
    by (auto simp: slot_for_cases lev_span_def split: if_splits)
qed


subsection \<open>The linking invariant\<close>

text \<open>
  Every list holds exactly the nodes linked in it, tickers and nodes point at each other, a
  linked node has a ticker, and the nodes that are linked nowhere are those of \<open>U\<close>: the ones
  \<open>update\<close> holds in its hands.
\<close>

definition wf_links :: "nat set \<Rightarrow> ticker_mgr \<Rightarrow> bool" where
  "wf_links U m \<longleftrightarrow>
     (\<forall>s. distinct (tm_lists m s)) \<and>
     (\<forall>n s. n \<in> set (tm_lists m s) \<longleftrightarrow> (\<exists>nd. tm_nodes m n = Some nd \<and> nd_place nd = Some s)) \<and>
     (\<forall>t n. tk_node (tm_tickers m t) = Some n \<longleftrightarrow>
        (\<exists>nd. tm_nodes m n = Some nd \<and> nd_ticker nd = Some t)) \<and>
     (\<forall>n nd. tm_nodes m n = Some nd \<longrightarrow> nd_ticker nd = None \<longrightarrow> nd_place nd = None) \<and>
     (\<forall>n nd. tm_nodes m n = Some nd \<longrightarrow> (nd_place nd = None \<longleftrightarrow> n \<in> U)) \<and>
     (\<forall>n\<in>U. tm_nodes m n \<noteq> None) \<and>
     (\<forall>n. tm_alloc m \<le> n \<longrightarrow> tm_nodes m n = None)"

definition wf_times :: "(nat \<Rightarrow> int) \<Rightarrow> ticker_mgr \<Rightarrow> bool" where
  "wf_times c m \<longleftrightarrow>
     (\<forall>L. tm_time m \<le> c L \<and> c L \<le> tm_time m + 1) \<and>
     (\<forall>n nd. tm_nodes m n = Some nd \<longrightarrow>
        (case nd_place nd of None \<Rightarrow> tm_time m \<le> nd_next nd
         | Some s \<Rightarrow> placed (tm_time m) c s (nd_next nd)))"

definition wf :: "nat set \<Rightarrow> (nat \<Rightarrow> int) \<Rightarrow> ticker_mgr \<Rightarrow> bool" where
  "wf U c m \<longleftrightarrow> wf_links U m \<and> wf_times c m"

text \<open>What an operation leaves alone: the clock, the hook, and the nodes in \<open>U\<close>, up to their
  ticker; a node that has lost its ticker never gets one again.\<close>

definition frame :: "nat set \<Rightarrow> ticker_mgr \<Rightarrow> ticker_mgr \<Rightarrow> bool" where
  "frame U m m' \<longleftrightarrow>
     tm_time m' = tm_time m \<and> tm_temp m' = tm_temp m \<and> tm_hook m' = tm_hook m \<and>
     tm_fired m' = tm_fired m \<and>
     (\<forall>n\<in>U. \<forall>nd. tm_nodes m n = Some nd \<longrightarrow>
        (\<exists>tk. tm_nodes m' n = Some (nd\<lparr>nd_ticker := tk\<rparr>) \<and> (nd_ticker nd = None \<longrightarrow> tk = None)))"

lemma node_same_ticker: "nd\<lparr>nd_ticker := nd_ticker nd\<rparr> = (nd :: core_node)"
  by (cases nd) simp

lemma same_ticker_ex [simp]:
  "\<exists>tk. (nd :: core_node) = nd\<lparr>nd_ticker := tk\<rparr> \<and> (nd_ticker nd = None \<longrightarrow> tk = None)"
  by (rule exI [of _ "nd_ticker nd"]) (simp add: node_same_ticker)

lemma frame_same:
  "tm_time m' = tm_time m \<Longrightarrow> tm_temp m' = tm_temp m \<Longrightarrow> tm_hook m' = tm_hook m \<Longrightarrow>
   tm_fired m' = tm_fired m \<Longrightarrow> (\<And>n. n \<in> U \<Longrightarrow> tm_nodes m' n = tm_nodes m n) \<Longrightarrow> frame U m m'"
  unfolding frame_def by (metis node_same_ticker)

lemma frame_refl [simp, intro]: "frame U m m"
  by (rule frame_same) simp_all

lemma frame_trans: "frame U m1 m2 \<Longrightarrow> frame U m2 m3 \<Longrightarrow> frame U m1 m3"
  by (fastforce simp: frame_def)

lemma frame_node:
  "frame U m m' \<Longrightarrow> n \<in> U \<Longrightarrow> tm_nodes m n = Some nd \<Longrightarrow>
   \<exists>tk. tm_nodes m' n = Some (nd\<lparr>nd_ticker := tk\<rparr>) \<and> (nd_ticker nd = None \<longrightarrow> tk = None)"
  by (simp add: frame_def)

lemma wf_linksI:
  assumes "\<And>s. distinct (tm_lists m s)"
    and "\<And>n s. n \<in> set (tm_lists m s) \<longleftrightarrow> (\<exists>nd. tm_nodes m n = Some nd \<and> nd_place nd = Some s)"
    and "\<And>t n. tk_node (tm_tickers m t) = Some n \<longleftrightarrow>
        (\<exists>nd. tm_nodes m n = Some nd \<and> nd_ticker nd = Some t)"
    and "\<And>n nd s. tm_nodes m n = Some nd \<Longrightarrow> nd_place nd = Some s \<Longrightarrow> nd_ticker nd \<noteq> None"
    and "\<And>n nd. tm_nodes m n = Some nd \<Longrightarrow> nd_place nd = None \<longleftrightarrow> n \<in> U"
    and "\<And>n. n \<in> U \<Longrightarrow> tm_nodes m n \<noteq> None"
    and "\<And>n. tm_alloc m \<le> n \<Longrightarrow> tm_nodes m n = None"
  shows "wf_links U m"
  unfolding wf_links_def using assms by (intro conjI allI impI ballI) (blast | metis not_Some_eq)+

lemma wf_distinct: "wf_links U m \<Longrightarrow> distinct (tm_lists m s)"
  by (simp add: wf_links_def)

lemma wf_mem: "wf_links U m \<Longrightarrow> n \<in> set (tm_lists m s) \<longleftrightarrow>
    (\<exists>nd. tm_nodes m n = Some nd \<and> nd_place nd = Some s)"
  by (simp add: wf_links_def)

lemma wf_ticker: "wf_links U m \<Longrightarrow> tk_node (tm_tickers m t) = Some n \<longleftrightarrow>
    (\<exists>nd. tm_nodes m n = Some nd \<and> nd_ticker nd = Some t)"
  by (simp add: wf_links_def)

lemma wf_unlinked: "wf_links U m \<Longrightarrow> tm_nodes m n = Some nd \<Longrightarrow> nd_place nd = None \<longleftrightarrow> n \<in> U"
  by (simp add: wf_links_def)

lemma wf_held: "wf_links U m \<Longrightarrow> n \<in> U \<Longrightarrow> tm_nodes m n \<noteq> None"
  by (simp add: wf_links_def)

lemma wf_fresh: "wf_links U m \<Longrightarrow> tm_alloc m \<le> n \<Longrightarrow> tm_nodes m n = None"
  by (simp add: wf_links_def)

lemma wf_has_ticker: "wf_links U m \<Longrightarrow> tm_nodes m n = Some nd \<Longrightarrow> nd_place nd = Some s \<Longrightarrow>
    nd_ticker nd \<noteq> None"
  unfolding wf_links_def by (metis option.distinct(1))

lemmas wf_facts = wf_distinct wf_mem wf_ticker wf_unlinked wf_held wf_fresh

lemma link_push_links:
  assumes wf: "wf_links U m" and n: "n \<in> U" "tm_nodes m n = Some nd" "nd_ticker nd \<noteq> None"
  shows "wf_links (U - {n}) (link_push s n m)"
proof -
  have pl: "nd_place nd = None" using wf_unlinked [OF wf n(2)] n(1) by simp
  then have eq: "link_push s n m = m\<lparr>tm_lists := (tm_lists m)(s := tm_lists m s @ [n]),
                 tm_nodes := (tm_nodes m)(n \<mapsto> nd\<lparr>nd_place := Some s\<rparr>)\<rparr>"
    using n(2) by (simp add: link_push_def)
  have new: "n \<notin> set (tm_lists m s')" for s'
    using n(2) pl by (simp add: wf_mem [OF wf])
  show ?thesis unfolding eq
    by (rule wf_linksI)
       (use n new wf_facts [OF wf] wf_has_ticker [OF wf] in \<open>auto split: if_splits\<close>)
qed

lemma link_remove_links:
  assumes wf: "wf_links U m" and n: "n \<in> set (tm_lists m s)"
  shows "wf_links (insert n U) (link_remove n m)"
proof -
  obtain nd where nd: "tm_nodes m n = Some nd" "nd_place nd = Some s"
    using n by (auto simp: wf_mem [OF wf])
  then have eq: "link_remove n m = m\<lparr>tm_lists := (tm_lists m)(s := remove1 n (tm_lists m s)),
                 tm_nodes := (tm_nodes m)(n \<mapsto> nd\<lparr>nd_place := None\<rparr>)\<rparr>"
    by (simp add: link_remove_def)
  show ?thesis unfolding eq
    by (rule wf_linksI)
       (use nd wf_facts [OF wf] wf_has_ticker [OF wf] in \<open>auto split: if_splits\<close>)
qed


subsection \<open>Placement\<close>

lemma wf_timesI:
  assumes "\<And>L. tm_time m \<le> c L \<and> c L \<le> tm_time m + 1"
    and "\<And>n nd s. tm_nodes m n = Some nd \<Longrightarrow> nd_place nd = Some s \<Longrightarrow> placed (tm_time m) c s (nd_next nd)"
    and "\<And>n nd. tm_nodes m n = Some nd \<Longrightarrow> nd_place nd = None \<Longrightarrow> tm_time m \<le> nd_next nd"
  shows "wf_times c m"
  using assms by (auto simp: wf_times_def split: option.splits)

lemma wf_placed: "wf_times c m \<Longrightarrow> tm_nodes m n = Some nd \<Longrightarrow> nd_place nd = Some s \<Longrightarrow>
    placed (tm_time m) c s (nd_next nd)"
  unfolding wf_times_def by fastforce

lemma wf_bound: "wf_times c m \<Longrightarrow> tm_time m \<le> c L \<and> c L \<le> tm_time m + 1"
  by (simp add: wf_times_def)

lemma wf_due:
  assumes "wf_times c m" and "tm_nodes m n = Some nd"
  shows "tm_time m \<le> nd_next nd"
proof (cases "nd_place nd")
  case None
  with assms show ?thesis unfolding wf_times_def by fastforce
next
  case (Some s)
  then show ?thesis
    using placed_le [OF wf_placed [OF assms]] wf_bound [OF assms(1)] by blast
qed

lemma insertTicker_eq:
  assumes "wf_links U m" and "n \<in> U" and "tm_nodes m n = Some nd" and "tm_time m \<le> nd_next nd"
  shows "insertTicker n m =
     m\<lparr>tm_lists := (tm_lists m)(slot_for (tm_time m) (nd_next nd) :=
          tm_lists m (slot_for (tm_time m) (nd_next nd)) @ [n]),
       tm_nodes := (tm_nodes m)(n \<mapsto> nd\<lparr>nd_place := Some (slot_for (tm_time m) (nd_next nd))\<rparr>)\<rparr>"
  using assms wf_unlinked [OF assms(1,3)] by (simp add: insertTicker_def link_push_def)

lemma insertTicker_wf:
  assumes wf: "wf U c m" and n: "n \<in> U" "tm_nodes m n = Some nd" "nd_ticker nd \<noteq> None"
  shows "wf (U - {n}) c (insertTicker n m)"
proof -
  from wf have l: "wf_links U m" and t: "wf_times c m" by (simp_all add: wf_def)
  have due: "tm_time m \<le> nd_next nd" by (rule wf_due [OF t n(2)])
  have "wf_links (U - {n}) (insertTicker n m)"
    using link_push_links [OF l n] n(2) due by (simp add: insertTicker_def)
  moreover have "wf_times c (insertTicker n m)"
    unfolding insertTicker_eq [OF l n(1,2) due]
    by (rule wf_timesI)
       (use wf_bound [OF t] wf_placed [OF t] wf_due [OF t] slot_for_placed [OF due] in
         \<open>auto split: if_splits\<close>)
  ultimately show ?thesis by (simp add: wf_def)
qed

lemma link_remove_wf:
  assumes wf: "wf U c m" and n: "n \<in> set (tm_lists m s)"
  shows "wf (insert n U) c (link_remove n m)"
proof -
  from wf have l: "wf_links U m" and t: "wf_times c m" by (simp_all add: wf_def)
  obtain nd where nd: "tm_nodes m n = Some nd" "nd_place nd = Some s"
    using n by (auto simp: wf_mem [OF l])
  have "wf_times c (link_remove n m)"
    by (rule wf_timesI)
       (use nd wf_bound [OF t] wf_placed [OF t] wf_due [OF t] in
         \<open>auto simp: link_remove_def split: if_splits\<close>)
  with link_remove_links [OF l n] show ?thesis by (simp add: wf_def)
qed

lemma wf_not_alloc: "wf_links U m \<Longrightarrow> tm_alloc m \<notin> U"
  using wf_held wf_fresh by blast

lemma registerTicker_wf:
  assumes wf: "wf U c m"
  shows "wf U c (snd (registerTicker t st iv ctx m))"
proof (cases "tk_node (tm_tickers m t) \<noteq> None \<or> \<not> tk_callback (tm_tickers m t)")
  case True
  with wf show ?thesis by (auto simp: registerTicker_def)
next
  case False
  from wf have l: "wf_links U m" and ti: "wf_times c m" by (simp_all add: wf_def)
  let ?n = "tm_alloc m"
  let ?nd = "\<lparr>nd_place = None, nd_ticker = Some t, nd_next = tm_time m + int st,
                nd_interval = iv, nd_context = ctx\<rparr>"
  let ?m = "m\<lparr>tm_nodes := (tm_nodes m)(?n \<mapsto> ?nd), tm_alloc := Suc ?n,
              tm_tickers := (tm_tickers m)(t := (tm_tickers m t)\<lparr>tk_node := Some ?n\<rparr>)\<rparr>"
  have fresh: "tm_nodes m ?n = None" using wf_fresh [OF l] by simp
  have no: "tm_nodes m n = Some nd \<Longrightarrow> nd_ticker nd \<noteq> Some t" for n nd
    using False wf_ticker [OF l, of t n] by auto
  have "wf_links (insert ?n U) ?m"
    by (rule wf_linksI)
       (use fresh no wf_facts [OF l] wf_has_ticker [OF l] in \<open>auto split: if_splits\<close>)
  moreover have "wf_times c ?m"
    by (rule wf_timesI)
       (use wf_bound [OF ti] wf_placed [OF ti] wf_due [OF ti] in \<open>auto split: if_splits\<close>)
  ultimately have "wf (insert ?n U) c ?m" by (simp add: wf_def)
  from insertTicker_wf [OF this, of ?n ?nd] have "wf (insert ?n U - {?n}) c (insertTicker ?n ?m)"
    by simp
  moreover have "insert ?n U - {?n} = U" using wf_not_alloc [OF l] by simp
  ultimately show ?thesis using False by (simp add: registerTicker_def Let_def)
qed

lemma unregisterTicker_wf:
  assumes wf: "wf U c m"
  shows "wf U c (unregisterTicker t m)"
proof (cases "tk_node (tm_tickers m t)")
  case None
  with wf show ?thesis by (simp add: unregisterTicker_def)
next
  case (Some n)
  from wf have l: "wf_links U m" and ti: "wf_times c m" by (simp_all add: wf_def)
  from Some obtain nd where nd: "tm_nodes m n = Some nd" "nd_ticker nd = Some t"
    by (auto simp: wf_ticker [OF l])
  have uniq: "k \<noteq> n \<Longrightarrow> tm_nodes m k = Some kd \<Longrightarrow> nd_ticker kd \<noteq> Some t" for k kd
    using Some wf_ticker [OF l, of t k] by auto
  show ?thesis
  proof (cases "nd_place nd")
    case None
    let ?m = "m\<lparr>tm_nodes := (tm_nodes m)(n \<mapsto> nd\<lparr>nd_ticker := None\<rparr>),
               tm_tickers := (tm_tickers m)(t := (tm_tickers m t)\<lparr>tk_node := None\<rparr>)\<rparr>"
    have eq: "unregisterTicker t m = ?m"
      using Some nd None by (simp add: unregisterTicker_def)
    have nU: "n \<in> U" using wf_unlinked [OF l nd(1)] None by simp
    have "wf_links U ?m"
    proof (rule wf_linksI, goal_cases)
      case (2 k s')
      then show ?case using nd None by (auto simp: wf_mem [OF l])
    next
      case (3 t' k)
      then show ?case using nd uniq [of k]
        by (cases "t' = t"; cases "k = n") (simp_all add: wf_ticker [OF l], blast?)
    next
      case (4 k kd s')
      then show ?case using None wf_has_ticker [OF l, of k kd s'] by (auto split: if_splits)
    next
      case (5 k kd)
      then show ?case using None nU wf_unlinked [OF l, of k kd] by (auto split: if_splits)
    next
      case (6 k)
      then show ?case using wf_held [OF l] by simp
    next
      case (7 k)
      then show ?case using wf_fresh [OF l] nd by auto
    qed (simp add: wf_distinct [OF l])
    moreover have "wf_times c ?m"
      by (rule wf_timesI)
         (use nd None wf_bound [OF ti] wf_placed [OF ti] wf_due [OF ti] in \<open>auto split: if_splits\<close>)
    ultimately show ?thesis by (simp add: wf_def eq)
  next
    case (Some s)
    let ?m = "m\<lparr>tm_lists := (tm_lists m)(s := remove1 n (tm_lists m s)),
               tm_nodes := (tm_nodes m)(n := None),
               tm_tickers := (tm_tickers m)(t := (tm_tickers m t)\<lparr>tk_node := None\<rparr>)\<rparr>"
    have eq: "unregisterTicker t m = ?m"
      using \<open>tk_node (tm_tickers m t) = Some n\<close> nd Some
      by (simp add: unregisterTicker_def link_remove_def)
    have nU: "n \<notin> U" using wf_unlinked [OF l nd(1)] Some by simp
    have mem: "k \<in> set (remove1 n (tm_lists m s')) \<longleftrightarrow> k \<noteq> n \<and> k \<in> set (tm_lists m s')" for k s'
      using wf_distinct [OF l] by (simp add: set_remove1_eq conj_commute)
    have other: "n \<in> set (tm_lists m s') \<longleftrightarrow> s' = s" for s'
      using nd Some by (auto simp: wf_mem [OF l])
    have "wf_links U ?m"
    proof (rule wf_linksI, goal_cases)
      case (2 k s')
      then show ?case using other [of s'] by (auto simp: mem wf_mem [OF l])
    next
      case (3 t' k)
      then show ?case using nd uniq [of k]
        by (cases "t' = t"; cases "k = n") (simp_all add: wf_ticker [OF l], blast?)
    next
      case (4 k kd s')
      then show ?case using wf_has_ticker [OF l, of k kd s'] by (auto split: if_splits)
    next
      case (5 k kd)
      then show ?case using wf_unlinked [OF l, of k kd] by (auto split: if_splits)
    next
      case (6 k)
      then show ?case using wf_held [OF l, of k] nU by auto
    next
      case (7 k)
      then show ?case using wf_fresh [OF l, of k] by simp
    qed (simp add: wf_distinct [OF l])
    moreover have "wf_times c ?m"
      by (rule wf_timesI)
         (use wf_bound [OF ti] wf_placed [OF ti] wf_due [OF ti] in \<open>auto split: if_splits\<close>)
    ultimately show ?thesis by (simp add: wf_def eq)
  qed
qed

lemma wf_cong:
  assumes "tm_lists m' = tm_lists m" "tm_nodes m' = tm_nodes m" "tm_alloc m' = tm_alloc m"
    "tm_time m' = tm_time m" "\<And>t. tk_node (tm_tickers m' t) = tk_node (tm_tickers m t)"
  shows "wf U c m' = wf U c m"
  unfolding wf_def wf_links_def wf_times_def assms ..

lemma setCallback_wf: "wf U c m \<Longrightarrow> wf U c (setCallback t b co m)"
  by (subst wf_cong [of _ m]) (simp_all add: setCallback_def)

lemma fired_wf [simp]: "wf U c (m\<lparr>tm_fired := f\<rparr>) = wf U c m"
  by (rule wf_cong) simp_all

lemma temp_wf [simp]: "wf U c (m\<lparr>tm_temp := f\<rparr>) = wf U c m"
  by (rule wf_cong) simp_all

text \<open>Handing a node over from one ticker to another that has none.\<close>

lemma handover_links:
  assumes l: "wf_links U m" and s: "tk_node (tm_tickers m src) = Some n"
    and nd: "tm_nodes m n = Some nd" and d: "tk_node (tm_tickers m dst) = None"
    and tk: "tk_node s = Some n" "tk_node s' = None"
  shows "wf_links U (m\<lparr>tm_tickers := (tm_tickers m)(dst := s, src := s'),
                       tm_nodes := (tm_nodes m)(n \<mapsto> nd\<lparr>nd_ticker := Some dst\<rparr>)\<rparr>)"
proof -
  have ndt: "nd_ticker nd = Some src" using s nd by (simp add: wf_ticker [OF l])
  have ds: "dst \<noteq> src" using s d by auto
  have nod: "tm_nodes m k = Some kd \<Longrightarrow> nd_ticker kd \<noteq> Some dst" for k kd
    using d wf_ticker [OF l, of dst k] by auto
  have nos: "k \<noteq> n \<Longrightarrow> tm_nodes m k = Some kd \<Longrightarrow> nd_ticker kd \<noteq> Some src" for k kd
    using s wf_ticker [OF l, of src k] by auto
  show ?thesis
  proof (rule wf_linksI, goal_cases)
    case (2 k s')
    then show ?case using nd by (auto simp: wf_mem [OF l])
  next
    case (3 t k)
    then show ?case using nd nod [of k] nos [of k] ndt tk ds
      by (cases "k = n"; cases "t = dst"; cases "t = src") (auto simp add: wf_ticker [OF l])
  next
    case (4 k kd s')
    then show ?case using wf_has_ticker [OF l, of k kd s'] by (auto split: if_splits)
  next
    case (5 k kd)
    then show ?case using nd wf_unlinked [OF l, of k] by (auto split: if_splits)
  next
    case (6 k)
    then show ?case using wf_held [OF l] by simp
  next
    case (7 k)
    then show ?case using wf_fresh [OF l] nd by auto
  qed (simp add: wf_distinct [OF l])
qed

lemma unregisterTicker_none:
  assumes wf: "wf U c m"
  shows "tk_node (tm_tickers (unregisterTicker t m) t) = None"
    and "t' \<noteq> t \<Longrightarrow> tm_tickers (unregisterTicker t m) t' = tm_tickers m t'"
  by (auto simp: unregisterTicker_def link_remove_def Let_def split: option.splits)

lemma moveTicker_wf:
  assumes wf: "wf U c m"
  shows "wf U c (moveTicker dst src m)"
proof (cases "dst = src")
  case True
  with wf show ?thesis by (simp add: moveTicker_def)
next
  case False
  let ?m = "unregisterTicker dst m"
  have wf1: "wf U c ?m" by (rule unregisterTicker_wf [OF wf])
  then have l: "wf_links U ?m" and ti: "wf_times c ?m" by (simp_all add: wf_def)
  have none: "tk_node (tm_tickers ?m dst) = None" by (rule unregisterTicker_none(1) [OF wf])
  show ?thesis
  proof (cases "tk_node (tm_tickers ?m src)")
    case None
    have "wf U c (?m\<lparr>tm_tickers := (tm_tickers ?m)(dst := tm_tickers ?m src,
        src := tm_tickers ?m src\<lparr>tk_node := None\<rparr>)\<rparr>)"
      by (subst wf_cong [of _ ?m]) (use wf1 None none in simp_all)
    then show ?thesis using False None by (simp add: moveTicker_def Let_def)
  next
    case (Some n)
    then obtain nd where nd: "tm_nodes ?m n = Some nd" by (auto simp: wf_ticker [OF l])
    let ?m2 = "?m\<lparr>tm_tickers := (tm_tickers ?m)(dst := tm_tickers ?m src,
        src := tm_tickers ?m src\<lparr>tk_node := None\<rparr>),
        tm_nodes := (tm_nodes ?m)(n \<mapsto> nd\<lparr>nd_ticker := Some dst\<rparr>)\<rparr>"
    have "wf_links U ?m2" by (rule handover_links [OF l Some nd none]) (simp_all add: Some)
    moreover have "wf_times c ?m2"
      by (rule wf_timesI)
         (use nd wf_bound [OF ti] wf_placed [OF ti] wf_due [OF ti] in \<open>auto split: if_splits\<close>)
    ultimately have "wf U c ?m2" by (simp add: wf_def)
    then show ?thesis using False Some nd by (simp add: moveTicker_def Let_def)
  qed
qed

lemma client_op_wf: "wf U c m \<Longrightarrow> wf U c (client_op op m)"
  by (cases op) (simp_all add: registerTicker_wf unregisterTicker_wf moveTicker_wf setCallback_wf)

subsection \<open>Frames\<close>

lemma insertTicker_frame: "n \<notin> U \<Longrightarrow> frame U m (insertTicker n m)"
  by (rule frame_same) (auto simp: insertTicker_def link_push_def split: option.splits)

lemma registerTicker_frame:
  assumes "wf U c m"
  shows "frame U m (snd (registerTicker t st iv ctx m))"
proof (cases "tk_node (tm_tickers m t) \<noteq> None \<or> \<not> tk_callback (tm_tickers m t)")
  case False
  let ?n = "tm_alloc m"
  have "?n \<notin> U" using assms wf_not_alloc by (simp add: wf_def)
  then show ?thesis using False
    by (auto simp: registerTicker_def Let_def intro!: frame_trans [OF frame_same insertTicker_frame])
qed (auto simp: registerTicker_def)

lemma unregisterTicker_frame:
  assumes "wf U c m"
  shows "frame U m (unregisterTicker t m)"
proof (cases "tk_node (tm_tickers m t)")
  case (Some n)
  from assms have l: "wf_links U m" by (simp add: wf_def)
  from Some obtain nd where nd: "tm_nodes m n = Some nd" "nd_ticker nd = Some t"
    by (auto simp: wf_ticker [OF l])
  show ?thesis
  proof (cases "nd_place nd")
    case None
    then show ?thesis using Some nd frame_refl [of U m]
      by (auto simp: unregisterTicker_def frame_def)
  next
    case (Some s)
    then have "n \<notin> U" using wf_unlinked [OF l nd(1)] by simp
    then show ?thesis using \<open>tk_node (tm_tickers m t) = Some n\<close> nd Some
      by (intro frame_same) (auto simp: unregisterTicker_def link_remove_def)
  qed
qed (simp add: unregisterTicker_def)

lemma moveTicker_frame:
  assumes wf: "wf U c m"
  shows "frame U m (moveTicker dst src m)"
proof (cases "dst = src")
  case False
  let ?m = "unregisterTicker dst m"
  have l: "wf_links U ?m" using unregisterTicker_wf [OF wf] by (simp add: wf_def)
  have "frame U ?m (moveTicker dst src m)"
  proof (cases "tk_node (tm_tickers ?m src)")
    case None
    then show ?thesis using False by (intro frame_same) (simp_all add: moveTicker_def Let_def)
  next
    case (Some n)
    then obtain nd where nd: "tm_nodes ?m n = Some nd" "nd_ticker nd = Some src"
      by (auto simp: wf_ticker [OF l])
    then show ?thesis using False Some frame_refl [of U ?m]
      by (auto simp: moveTicker_def Let_def frame_def)
  qed
  then show ?thesis by (rule frame_trans [OF unregisterTicker_frame [OF wf]])
qed (simp add: moveTicker_def)

lemma client_op_frame: "wf U c m \<Longrightarrow> frame U m (client_op op m)"
  by (cases op)
     (simp_all add: registerTicker_frame unregisterTicker_frame moveTicker_frame frame_same
        setCallback_def)

lemma client_ops_wf_frame:
  "wf U c m \<Longrightarrow> wf U c (fold client_op ops m) \<and> frame U m (fold client_op ops m)"
proof (induction ops arbitrary: m)
  case (Cons op ops)
  then show ?case
    using Cons.IH [OF client_op_wf [OF Cons.prems, of op]]
      frame_trans [OF client_op_frame [OF Cons.prems, of op]]
    by simp
qed simp

end
