(* ===== verification/Ticker_Tick.thy ===== *)
theory Ticker_Tick imports Ticker_Wheel begin

text \<open>
  One tick of the timer wheel, and the whole of \<open>update\<close>: the cascade ends and moves every timer
  to a list of the new turn, the loop over the near list runs the callbacks of exactly the
  timers that are due, and the invariant holds again at the next logic time.
\<close>

subsection \<open>The cascade\<close>

lemma hd_linked:
  assumes "wf U c m" and "tm_lists m s \<noteq> []"
  obtains nd where "tm_nodes m (hd (tm_lists m s)) = Some nd" "nd_place nd = Some s"
    "nd_ticker nd \<noteq> None" "hd (tm_lists m s) \<notin> U"
proof -
  from assms(1) have l: "wf_links U m" by (simp add: wf_def)
  have "hd (tm_lists m s) \<in> set (tm_lists m s)" using assms(2) by simp
  then obtain nd where "tm_nodes m (hd (tm_lists m s)) = Some nd" "nd_place nd = Some s"
    using wf_mem [OF l] by blast
  with that show ?thesis using wf_has_ticker [OF l] wf_unlinked [OF l] by fastforce
qed

lemma cascade_step_eq:
  assumes wf: "wf U c m" and ne: "tm_lists m s = n # ns" and nd: "tm_nodes m n = Some nd"
  shows "cascade_step s m =
     m\<lparr>tm_lists := (let f = (tm_lists m)(s := ns); s' = slot_for (tm_time m) (nd_next nd)
                     in f(s' := f s' @ [n])),
       tm_nodes := (tm_nodes m)(n \<mapsto> nd\<lparr>nd_place := Some (slot_for (tm_time m) (nd_next nd))\<rparr>)\<rparr>"
proof -
  have "nd_place nd = Some s" using hd_linked [OF wf, of s] ne nd by auto
  moreover have "tm_time m \<le> nd_next nd" using wf nd wf_due by (auto simp: wf_def)
  ultimately show ?thesis
    using ne nd by (simp add: cascade_step_def link_remove_def insertTicker_def link_push_def Let_def)
qed

lemma cascade_step_wf:
  assumes wf: "wf U c m" and ne: "tm_lists m s \<noteq> []"
  shows "wf U c (cascade_step s m)"
proof -
  let ?n = "hd (tm_lists m s)"
  obtain nd where nd: "tm_nodes m ?n = Some nd" "nd_place nd = Some s" "nd_ticker nd \<noteq> None" "?n \<notin> U"
    using hd_linked [OF wf ne] .
  have w: "wf (insert ?n U) c (link_remove ?n m)" using link_remove_wf [OF wf, of ?n s] ne by simp
  have "tm_nodes (link_remove ?n m) ?n = Some (nd\<lparr>nd_place := None\<rparr>)"
    using nd by (simp add: link_remove_def)
  from insertTicker_wf [OF w _ this] show ?thesis
    using nd by (simp add: cascade_step_def Let_def)
qed

text \<open>What the cascade leaves alone: everything but the lists and the links of the nodes.\<close>

definition same_timers :: "ticker_mgr \<Rightarrow> ticker_mgr \<Rightarrow> bool" where
  "same_timers m m' \<longleftrightarrow>
     m'\<lparr>tm_lists := tm_lists m, tm_nodes := tm_nodes m\<rparr> = m \<and>
     (\<forall>k. map_option (nd_place_update (\<lambda>_. None)) (tm_nodes m' k) =
          map_option (nd_place_update (\<lambda>_. None)) (tm_nodes m k))"

lemma same_timers_refl [simp]: "same_timers m m"
  by (simp add: same_timers_def)

lemma same_timers_fields:
  assumes "same_timers m m'"
  shows "tm_time m' = tm_time m" "tm_temp m' = tm_temp m" "tm_hook m' = tm_hook m"
    "tm_fired m' = tm_fired m" "tm_tickers m' = tm_tickers m" "tm_alloc m' = tm_alloc m"
  using assms by (cases m; cases m'; simp add: same_timers_def)+

lemma same_timers_trans:
  assumes a: "same_timers m1 m2" and b: "same_timers m2 m3"
  shows "same_timers m1 m3"
  using a b same_timers_fields [OF a] same_timers_fields [OF b]
  by (cases m1; cases m2; cases m3) (simp add: same_timers_def)

lemma same_place:
  "nd\<lparr>nd_place := None\<rparr> = nd0\<lparr>nd_place := None\<rparr> \<Longrightarrow> nd = nd0\<lparr>nd_place := nd_place (nd :: core_node)\<rparr>"
  by (cases nd; cases nd0) simp

lemma same_timers_node:
  assumes "same_timers m m'"
  shows "tm_nodes m' n = Some nd \<Longrightarrow> \<exists>nd0. tm_nodes m n = Some nd0 \<and> nd = nd0\<lparr>nd_place := nd_place nd\<rparr>"
    and "tm_nodes m n = Some nd0 \<Longrightarrow> \<exists>s. tm_nodes m' n = Some (nd0\<lparr>nd_place := s\<rparr>)"
proof -
  have e: "map_option (nd_place_update (\<lambda>_. None)) (tm_nodes m' n) =
      map_option (nd_place_update (\<lambda>_. None)) (tm_nodes m n)"
    using assms by (simp add: same_timers_def)
  show "tm_nodes m' n = Some nd \<Longrightarrow> \<exists>nd0. tm_nodes m n = Some nd0 \<and> nd = nd0\<lparr>nd_place := nd_place nd\<rparr>"
    using e by (cases "tm_nodes m n") (auto intro: same_place)
  show "tm_nodes m n = Some nd0 \<Longrightarrow> \<exists>s. tm_nodes m' n = Some (nd0\<lparr>nd_place := s\<rparr>)"
    using e by (cases "tm_nodes m' n") (auto dest!: same_place)
qed

lemma cascade_step_same:
  assumes wf: "wf U c m" and ne: "tm_lists m s \<noteq> []"
  shows "same_timers m (cascade_step s m)"
proof -
  obtain n ns where l: "tm_lists m s = n # ns" using ne by (cases "tm_lists m s") auto
  obtain nd where nd: "tm_nodes m n = Some nd" using hd_linked [OF wf ne] l by auto
  show ?thesis unfolding cascade_step_eq [OF wf l nd] by (simp add: same_timers_def nd)
qed

text \<open>A list whose timers all go elsewhere is emptied by the loop.\<close>

lemma cascade_drain_ends:
  assumes wf: "wf U c m"
    and away: "\<And>n nd. tm_nodes m n = Some nd \<Longrightarrow> nd_place nd = Some s \<Longrightarrow>
                 slot_for (tm_time m) (nd_next nd) \<noteq> s"
  shows "\<exists>m'. cascade_drain s m = Some m' \<and> wf U c m' \<and> tm_lists m' s = [] \<and> same_timers m m'"
proof -
  let ?P = "\<lambda>m'. wf U c m' \<and> same_timers m m' \<and>
      (\<forall>n nd. tm_nodes m' n = Some nd \<longrightarrow> nd_place nd = Some s \<longrightarrow>
                 slot_for (tm_time m) (nd_next nd) \<noteq> s)"
  have step: "?P (cascade_step s m') \<and>
      length (tm_lists (cascade_step s m') s) < length (tm_lists m' s)"
    if P: "?P m'" and ne: "tm_lists m' s \<noteq> []" for m'
  proof -
    obtain n ns where l: "tm_lists m' s = n # ns" using ne by (cases "tm_lists m' s") auto
    obtain nd where nd: "tm_nodes m' n = Some nd" "nd_place nd = Some s"
      using hd_linked [OF conjunct1 [OF P] ne] l by auto
    have T: "tm_time m' = tm_time m" using P same_timers_fields(1) by blast
    have go: "slot_for (tm_time m) (nd_next nd) \<noteq> s" using P nd by blast
    have same: "same_timers m (cascade_step s m')"
      using same_timers_trans [OF _ cascade_step_same] P ne by blast
    show ?thesis using cascade_step_wf [OF conjunct1 [OF P] ne] P go T same
      unfolding cascade_step_eq [OF conjunct1 [OF P] l nd(1)] by (auto simp: Let_def l)
  qed
  have "\<exists>m'. while_option (\<lambda>m. tm_lists m s \<noteq> []) (cascade_step s) m = Some m' \<and> ?P m' \<and>
      \<not> tm_lists m' s \<noteq> []"
  proof (rule while_ends [where f = "\<lambda>m. length (tm_lists m s)"])
    show "?P m" using wf away by simp
  qed (use step in blast)
  then show ?thesis unfolding cascade_drain_def by blast
qed

lemma cascade_drain_result:
  assumes wf: "wf U c m" and r: "cascade_drain s m = Some m'"
  shows "wf U c m' \<and> tm_lists m' s = [] \<and> same_timers m m'"
proof -
  have "wf U c m' \<and> same_timers m m'"
    by (rule while_option_rule [where P = "\<lambda>m'. wf U c m' \<and> same_timers m m'",
          OF _ r [unfolded cascade_drain_def]])
       (auto simp: wf intro: cascade_step_wf same_timers_trans [OF _ cascade_step_same])
  moreover have "tm_lists m' s = []"
    using while_option_stop [OF r [unfolded cascade_drain_def]] by simp
  ultimately show ?thesis by simp
qed

subsection \<open>The levels\<close>

text \<open>The thresholds once the first \<open>K\<close> levels are cascaded.\<close>

definition thr :: "nat \<Rightarrow> int \<Rightarrow> nat \<Rightarrow> int" where
  "thr K T L = (if L < K then T + 1 else T)"

lemma sum_zero_iff:
  fixes a b s :: int
  assumes "0 \<le> a" and "0 < s" and "0 \<le> b"
  shows "a + s * b = 0 \<longleftrightarrow> a = 0 \<and> b = 0"
proof -
  have "0 \<le> s * b" using assms by simp
  then have "a + s * b = 0 \<longleftrightarrow> a = 0 \<and> s * b = 0" using assms(1) by linarith
  with assms(2) show ?thesis by simp
qed

lemma turn_Suc: "T mod lev_span (Suc L) = 0 \<longleftrightarrow> T mod lev_span L = 0 \<and> cascade_pos L T = 0"
proof -
  have pos: "cascade_pos L T = 0 \<longleftrightarrow> (T div lev_span L) mod 256 = 0"
    using cascade_pos_eq [of L T] by linarith
  have span: "T mod lev_span (Suc L) = T mod lev_span L + lev_span L * (T div lev_span L mod 256)"
    using zmod_zmult2_eq [of 256 T "lev_span L"] by (simp only: lev_span_Suc mult.commute)
  show ?thesis unfolding span pos by (rule sum_zero_iff) simp_all
qed

lemma mod_256_eq:
  assumes "t \<le> q" and "q - 256 < t" and "q mod 256 = t mod 256"
  shows "q = (t :: int)"
proof -
  have "256 dvd q - t" using assms(3) by (simp only: mod_eq_dvd_iff)
  moreover have "\<not> 0 < q - t \<or> \<not> 256 dvd q - t" using assms(2) zdvd_not_zless [of "q - t" 256] by linarith
  ultimately show ?thesis using assms(1) by linarith
qed

lemma turn_quot:
  assumes T: "T mod b = 0" and "0 < (b :: int)" and "T \<le> q * b" and "(q - 256) * b < T"
    and "q mod 256 = (T div b) mod 256"
  shows "q = T div b"
proof -
  have Tb: "T = (T div b) * b" using T by (metis add.right_neutral div_mult_mod_eq)
  have "T div b \<le> q" using assms(2,3) Tb by (metis mult_le_cancel_right_pos)
  moreover have "q - 256 < T div b" using assms(2,4) Tb by (metis mult_less_cancel_right_pos)
  ultimately show ?thesis using mod_256_eq assms(5) by blast
qed

lemma turn_due:
  assumes T: "T mod lev_span L = 0" and p: "placed T c (Cascade L (cascade_pos L T)) x" and c: "c L = T"
  shows "x < T + lev_span L" and "slot_for T x \<noteq> Cascade L p" and "slot_for T x \<noteq> Far"
proof -
  from p have L: "L < 3" and q: "(x div lev_span L) mod 256 = (T div lev_span L) mod 256"
    and b: "T \<le> x div lev_span L * lev_span L" "(x div lev_span L - 256) * lev_span L < T"
    by (auto simp: placed_def c cascade_pos_eq)
  have "x div lev_span L = T div lev_span L"
    by (rule turn_quot [OF T lev_span_pos b(1,2) q])
  moreover have "T = T div lev_span L * lev_span L"
    using T by (metis add.right_neutral div_mult_mod_eq)
  ultimately show x: "x < T + lev_span L"
    using div_mult_bounds(2) [OF lev_span_pos, of x L] by simp
  then show "slot_for T x \<noteq> Cascade L p" "slot_for T x \<noteq> Far"
    using slot_for_below [of x T L] L by auto
qed

lemma placed_drained:
  assumes T: "T mod lev_span K = 0" and p: "placed T (thr K T) s x"
    and s: "s \<noteq> (if K < 3 then Cascade K (cascade_pos K T) else Far)" and K: "K \<le> 3"
  shows "placed T (thr (Suc K) T) s x"
proof (cases s)
  case (Near p')
  with p show ?thesis by (simp add: placed_def)
next
  case (Cascade L p')
  show ?thesis
  proof (cases "L = K")
    case True
    with p Cascade have K3: "K < 3" and b: "T \<le> x div lev_span K * lev_span K"
      "(x div lev_span K - 256) * lev_span K < T" and p': "int p' = x div lev_span K mod 256"
      by (auto simp: placed_def thr_def)
    have "p' \<noteq> cascade_pos K T" using s Cascade True K3 by simp
    then have "int p' \<noteq> int (cascade_pos K T)" by simp
    then have "x div lev_span K \<noteq> T div lev_span K" by (auto simp: p' cascade_pos_eq)
    moreover have "T = T div lev_span K * lev_span K"
      using T by (metis add.right_neutral div_mult_mod_eq)
    ultimately have "T \<noteq> x div lev_span K * lev_span K"
      using lev_span_pos [of K] by (metis mult_right_cancel order_less_irrefl)
    with b p' True Cascade K3 show ?thesis by (simp add: placed_def thr_def)
  next
    case False
    with p Cascade show ?thesis by (simp add: placed_def thr_def less_Suc_eq)
  qed
next
  case Far
  with s K have "K < 3" by (auto split: if_splits)
  with p Far show ?thesis by (simp add: placed_def thr_def)
qed

lemma wf_thr_Suc:
  assumes wf: "wf U (thr K (tm_time m)) m" and T: "tm_time m mod lev_span K = 0" and K: "K \<le> 3"
    and e: "tm_lists m (if K < 3 then Cascade K (cascade_pos K (tm_time m)) else Far) = []"
  shows "wf U (thr (Suc K) (tm_time m)) m"
proof -
  from wf have l: "wf_links U m" and ti: "wf_times (thr K (tm_time m)) m" by (simp_all add: wf_def)
  have "wf_times (thr (Suc K) (tm_time m)) m"
  proof (rule wf_timesI)
    fix n nd s assume nd: "tm_nodes m n = Some nd" "nd_place nd = Some s"
    have "n \<in> set (tm_lists m s)" using nd by (auto simp: wf_mem [OF l])
    then have "s \<noteq> (if K < 3 then Cascade K (cascade_pos K (tm_time m)) else Far)" using e by auto
    then show "placed (tm_time m) (thr (Suc K) (tm_time m)) s (nd_next nd)"
      using placed_drained [OF T wf_placed [OF ti nd]] K by blast
  qed (use wf_due [OF ti] in \<open>auto simp: thr_def\<close>)
  with l show ?thesis by (simp add: wf_def)
qed

lemma cascade_levels_result:
  assumes "cascade_levels L m = Some m'" and "wf U (thr L (tm_time m)) m"
    and "tm_time m mod lev_span L = 0" and "L \<le> 3"
  shows "same_timers m m' \<and> (\<exists>K\<le>4. wf U (thr K (tm_time m)) m' \<and> (K < 4 \<longrightarrow> tm_time m mod lev_span K \<noteq> 0))"
  using assms
proof (induction L m arbitrary: m' rule: cascade_levels.induct)
  case (1 L m)
  show ?case
  proof (cases "L < 3")
    case True
    let ?s = "Cascade L (cascade_pos L (tm_time m))"
    from 1(2) True obtain m1 where m1: "cascade_drain ?s m = Some m1"
      and r: "(if cascade_pos L (tm_time m) \<noteq> 0 then Some m1 else cascade_levels (Suc L) m1) = Some m'"
      by (subst (asm) cascade_levels.simps) (auto simp: TIME_CASCADE_COUNT_def bind_eq_Some_conv' Let_def)
    from cascade_drain_result [OF 1(3) m1] have w: "wf U (thr L (tm_time m)) m1"
      and e: "tm_lists m1 ?s = []" and same: "same_timers m m1" by auto
    have T: "tm_time m1 = tm_time m" using same_timers_fields [OF same] by simp
    have w1: "wf U (thr (Suc L) (tm_time m)) m1"
      using wf_thr_Suc [of U L m1] w e 1(4) True T by simp
    show ?thesis
    proof (cases "cascade_pos L (tm_time m) = 0")
      case p0: True
      have turn: "tm_time m1 mod lev_span (Suc L) = 0" using p0 1(4) by (simp add: turn_Suc T)
      have "same_timers m1 m' \<and> (\<exists>K\<le>4. wf U (thr K (tm_time m1)) m' \<and>
          (K < 4 \<longrightarrow> tm_time m1 mod lev_span K \<noteq> 0))"
        by (rule 1(1) [OF _ refl m1 _ _ _ turn])
           (use True p0 r w1 T m1 in \<open>auto simp: TIME_CASCADE_COUNT_def\<close>)
      then show ?thesis using same_timers_trans [OF same] T by auto
    next
      case False
      then have "tm_time m mod lev_span (Suc L) \<noteq> 0" by (simp add: turn_Suc)
      with False r w1 same True show ?thesis by (auto intro!: exI [of _ "Suc L"])
    qed
  next
    case False
    with 1(5) have L: "L = 3" by simp
    with 1(2) have "cascade_drain Far m = Some m'"
      by (subst (asm) cascade_levels.simps) (simp add: TIME_CASCADE_COUNT_def)
    from cascade_drain_result [OF 1(3) this] have w: "wf U (thr L (tm_time m)) m'"
      and e: "tm_lists m' Far = []" and same: "same_timers m m'" by auto
    have "wf U (thr 4 (tm_time m)) m'"
      using wf_thr_Suc [of U 3 m'] w e 1(4) same_timers_fields [OF same] L by simp
    with same show ?thesis by auto
  qed
qed

text \<open>With nothing on the far list the cascade always ends.\<close>

lemma drain_no_far:
  assumes wf: "wf U (thr L (tm_time m)) m" and T: "tm_time m mod lev_span L = 0"
    and far: "tm_lists m Far = []"
  shows "\<exists>m'. cascade_drain (Cascade L (cascade_pos L (tm_time m))) m = Some m' \<and> tm_lists m' Far = []"
proof -
  let ?s = "Cascade L (cascade_pos L (tm_time m))"
  from wf have ti: "wf_times (thr L (tm_time m)) m" by (simp add: wf_def)
  let ?P = "\<lambda>m'. wf U (thr L (tm_time m)) m' \<and> tm_time m' = tm_time m \<and> tm_lists m' Far = []"
  have step: "?P (cascade_step ?s m') \<and>
      length (tm_lists (cascade_step ?s m') ?s) < length (tm_lists m' ?s)"
    if P: "?P m'" and ne: "tm_lists m' ?s \<noteq> []" for m'
  proof -
    obtain n ns where l: "tm_lists m' ?s = n # ns" using ne by (cases "tm_lists m' ?s") auto
    from P have w: "wf U (thr L (tm_time m)) m'" and Tm: "tm_time m' = tm_time m" by auto
    obtain nd where nd: "tm_nodes m' n = Some nd" "nd_place nd = Some ?s"
      using hd_linked [OF w ne] l by auto
    have "placed (tm_time m) (thr L (tm_time m)) ?s (nd_next nd)"
      using w nd wf_placed Tm by (metis wf_def)
    from turn_due [OF T this] have "slot_for (tm_time m) (nd_next nd) \<noteq> ?s"
      "slot_for (tm_time m) (nd_next nd) \<noteq> Far" by (simp_all add: thr_def)
    then show ?thesis using cascade_step_wf [OF w ne] P
      unfolding cascade_step_eq [OF w l nd(1)] by (auto simp: Let_def l Tm)
  qed
  have "\<exists>m'. while_option (\<lambda>m. tm_lists m ?s \<noteq> []) (cascade_step ?s) m = Some m' \<and> ?P m' \<and>
      \<not> tm_lists m' ?s \<noteq> []"
  proof (rule while_ends [where f = "\<lambda>m. length (tm_lists m ?s)"])
    show "?P m" using wf far by simp
  qed (use step in blast)
  then show ?thesis unfolding cascade_drain_def by blast
qed

lemma cascade_levels_returns:
  assumes "wf U (thr L (tm_time m)) m" and "tm_time m mod lev_span L = 0" and "L \<le> 3"
    and "tm_lists m Far = []"
  shows "\<exists>m'. cascade_levels L m = Some m' \<and> tm_lists m' Far = []"
  using assms
proof (induction L m rule: cascade_levels.induct)
  case (1 L m)
  show ?case
  proof (cases "L < 3")
    case True
    let ?s = "Cascade L (cascade_pos L (tm_time m))"
    from drain_no_far [OF 1(2,3,5)] obtain m1 where m1: "cascade_drain ?s m = Some m1"
      and far: "tm_lists m1 Far = []" by auto
    from cascade_drain_result [OF 1(2) m1] have w: "wf U (thr L (tm_time m)) m1"
      and e: "tm_lists m1 ?s = []" and same: "same_timers m m1" by auto
    have T: "tm_time m1 = tm_time m" using same_timers_fields [OF same] by simp
    have w1: "wf U (thr (Suc L) (tm_time m1)) m1"
      using wf_thr_Suc [of U L m1] w e 1(3) True T by simp
    show ?thesis
    proof (cases "cascade_pos L (tm_time m) = 0")
      case p0: True
      have turn: "tm_time m1 mod lev_span (Suc L) = 0" using p0 1(3) by (simp add: turn_Suc T)
      have "\<exists>m'. cascade_levels (Suc L) m1 = Some m' \<and> tm_lists m' Far = []"
        by (rule 1(1) [OF _ refl m1 _ w1 turn _ far])
           (use True p0 m1 in \<open>auto simp: TIME_CASCADE_COUNT_def\<close>)
      then show ?thesis using True m1 p0
        by (subst cascade_levels.simps) (simp add: TIME_CASCADE_COUNT_def)
    next
      case False
      then show ?thesis using True m1 far
        by (subst cascade_levels.simps) (simp add: TIME_CASCADE_COUNT_def)
    qed
  next
    case False
    then show ?thesis using 1(5)
      by (subst cascade_levels.simps)
         (simp add: TIME_CASCADE_COUNT_def cascade_drain_def while_option_unfold)
  qed
qed

lemma wf_thr_0: "wf U (\<lambda>_. tm_time m) m = wf U (thr 0 (tm_time m)) m"
  by (simp add: thr_def [abs_def])

lemma cascadeTicker_result:
  assumes "cascadeTicker m = Some m'" and "wf U (\<lambda>_. tm_time m) m" and "tm_time m mod lev_span 0 = 0"
  shows "same_timers m m'"
    and "\<exists>K\<le>4. wf U (thr K (tm_time m)) m' \<and> (K < 4 \<longrightarrow> tm_time m mod lev_span K \<noteq> 0)"
  using cascade_levels_result [of 0 m m' U] assms by (auto simp: cascadeTicker_def wf_thr_0)

text \<open>A timer that stays on the far list is taken off and put back for ever.\<close>

lemma far_drain_stuck:
  assumes wf: "wf U c m" and n: "tm_nodes m n = Some nd" "nd_place nd = Some Far"
    and far: "tm_time m + lev_span 3 \<le> nd_next nd"
  shows "cascade_drain Far m = None"
proof (rule ccontr)
  assume "cascade_drain Far m \<noteq> None"
  then obtain m' where r: "cascade_drain Far m = Some m'" by auto
  let ?P = "\<lambda>m'. wf U c m' \<and> tm_time m' = tm_time m \<and>
      (\<exists>nd. tm_nodes m' n = Some nd \<and> nd_place nd = Some Far \<and> tm_time m + lev_span 3 \<le> nd_next nd)"
  have "?P m'"
  proof (rule while_option_rule [where P = ?P, OF _ r [unfolded cascade_drain_def]])
    fix m1 assume P: "?P m1" and ne: "tm_lists m1 Far \<noteq> []"
    obtain k ns where l: "tm_lists m1 Far = k # ns" using ne by (cases "tm_lists m1 Far") auto
    from P have w: "wf U c m1" by simp
    obtain kd where kd: "tm_nodes m1 k = Some kd" using hd_linked [OF w ne] l by auto
    have "slot_for (tm_time m) x = Far" if "tm_time m + lev_span 3 \<le> x" for x
      using that by (auto simp: slot_for_cases lev_span_def)
    then show "?P (cascade_step Far m1)" using P kd cascade_step_wf [OF w ne]
      unfolding cascade_step_eq [OF w l kd] by (cases "k = n") (auto simp: Let_def)
  qed (use wf n far in blast)
  then have "n \<in> set (tm_lists m' Far)" using wf_mem [of U m'] by (auto simp: wf_def)
  then show False using cascade_drain_result [OF wf r] by simp
qed

text \<open>Draining another list does not touch the far list's timers.\<close>

lemma far_stays:
  assumes wf: "wf U c m" and r: "cascade_drain (Cascade L p) m = Some m'"
    and n: "tm_nodes m n = Some nd" "nd_place nd = Some Far"
  shows "tm_nodes m' n = Some nd"
proof -
  let ?s = "Cascade L p"
  have "wf U c m' \<and> tm_nodes m' n = Some nd"
  proof (rule while_option_rule [where P = "\<lambda>m'. wf U c m' \<and> tm_nodes m' n = Some nd",
        OF _ r [unfolded cascade_drain_def]])
    fix m1 assume P: "wf U c m1 \<and> tm_nodes m1 n = Some nd" and ne: "tm_lists m1 ?s \<noteq> []"
    obtain k ns where l: "tm_lists m1 ?s = k # ns" using ne by (cases "tm_lists m1 ?s") auto
    from P have w: "wf U c m1" by simp
    obtain kd where kd: "tm_nodes m1 k = Some kd" "nd_place kd = Some ?s"
      using hd_linked [OF w ne] l by auto
    then have "k \<noteq> n" using P n(2) by auto
    then show "wf U c (cascade_step ?s m1) \<and> tm_nodes (cascade_step ?s m1) n = Some nd"
      using P cascade_step_wf [OF w ne] unfolding cascade_step_eq [OF w l kd(1)] by simp
  qed (use wf n in blast)
  then show ?thesis ..
qed

subsection \<open>The near list\<close>

lemma delete_links:
  assumes l: "wf_links U m" and n: "n \<in> U" "tm_nodes m n = Some nd" "nd_ticker nd = None"
  shows "wf_links (U - {n}) (m\<lparr>tm_nodes := (tm_nodes m)(n := None)\<rparr>)"
proof -
  have pl: "nd_place nd = None" using wf_unlinked [OF l n(2)] n(1) by simp
  show ?thesis
  proof (rule wf_linksI, goal_cases)
    case (2 k s')
    then show ?case using n pl by (auto simp: wf_mem [OF l])
  next
    case (3 t k)
    then show ?case using n by (auto simp: wf_ticker [OF l])
  next
    case (4 k kd s')
    then show ?case using wf_has_ticker [OF l, of k kd s'] by (auto split: if_splits)
  next
    case (5 k kd)
    then show ?case using wf_unlinked [OF l, of k] by (auto split: if_splits)
  next
    case (6 k)
    then show ?case using wf_held [OF l] by simp
  next
    case (7 k)
    then show ?case using wf_fresh [OF l, of k] by simp
  qed (simp add: wf_distinct [OF l])
qed

lemma delete_wf:
  assumes wf: "wf U c m" and n: "n \<in> U" "tm_nodes m n = Some nd" "nd_ticker nd = None"
  shows "wf (U - {n}) c (m\<lparr>tm_nodes := (tm_nodes m)(n := None)\<rparr>)"
proof -
  from wf have l: "wf_links U m" and ti: "wf_times c m" by (simp_all add: wf_def)
  have "wf_times c (m\<lparr>tm_nodes := (tm_nodes m)(n := None)\<rparr>)"
    by (rule wf_timesI)
       (use wf_bound [OF ti] wf_placed [OF ti] wf_due [OF ti] in \<open>auto split: if_splits\<close>)
  with delete_links [OF l n] show ?thesis by (simp add: wf_def)
qed

lemma advance_wf:
  assumes wf: "wf U c m" and n: "n \<in> U" "tm_nodes m n = Some nd"
  shows "wf U c (m\<lparr>tm_nodes := (tm_nodes m)(n \<mapsto> nd\<lparr>nd_next := nd_next nd + int iv\<rparr>)\<rparr>)"
proof -
  from wf have l: "wf_links U m" and ti: "wf_times c m" by (simp_all add: wf_def)
  let ?m = "m\<lparr>tm_nodes := (tm_nodes m)(n \<mapsto> nd\<lparr>nd_next := nd_next nd + int iv\<rparr>)\<rparr>"
  have pl: "nd_place nd = None" using wf_unlinked [OF l n(2)] n(1) by simp
  have due: "tm_time m \<le> nd_next nd + int iv" using wf_due [OF ti n(2)] by simp
  have "wf_links U ?m"
  proof (rule wf_linksI, goal_cases)
    case (2 k s')
    then show ?case using n pl by (auto simp: wf_mem [OF l])
  next
    case (3 t k)
    then show ?case using n by (auto simp: wf_ticker [OF l])
  next
    case (4 k kd s')
    then show ?case using wf_has_ticker [OF l, of k kd s'] pl by (auto split: if_splits)
  next
    case (5 k kd)
    then show ?case using wf_unlinked [OF l, of k] pl n by (auto split: if_splits)
  next
    case (6 k)
    then show ?case using wf_held [OF l] by simp
  next
    case (7 k)
    then show ?case using wf_fresh [OF l, of k] n by auto
  qed (simp add: wf_distinct [OF l])
  moreover have "wf_times c ?m"
    by (rule wf_timesI)
       (use n pl wf_bound [OF ti] wf_placed [OF ti] wf_due [OF ti] in
         \<open>auto split: if_splits simp: due\<close>)
  ultimately show ?thesis by (simp add: wf_def)
qed

lemma near_due:
  assumes "wf U c m" and "tm_nodes m n = Some nd" and "nd_place nd = Some (Near (near_pos (tm_time m)))"
  shows "nd_next nd = tm_time m"
proof -
  from assms have "placed (tm_time m) c (Near (near_pos (tm_time m))) (nd_next nd)"
    using wf_placed by (auto simp: wf_def)
  then have "tm_time m \<le> nd_next nd" "nd_next nd - tm_time m < 2 ^ 16"
    and "(nd_next nd) mod 2 ^ 16 = tm_time m mod 2 ^ 16"
    by (auto simp: placed_def near_pos_eq)
  moreover from this(3) have "2 ^ 16 dvd nd_next nd - tm_time m" by (simp only: mod_eq_dvd_iff)
  ultimately show ?thesis using zdvd_not_zless [of "nd_next nd - tm_time m" "2 ^ 16"] by linarith
qed

text \<open>The state of the loop over the near list.\<close>

definition fire_inv :: "int \<Rightarrow> (nat \<Rightarrow> int) \<Rightarrow> fired list \<Rightarrow> ticker_mgr \<Rightarrow> bool" where
  "fire_inv T c F m \<longleftrightarrow>
     wf (set (tm_temp m)) c m \<and> distinct (tm_temp m) \<and> tm_time m = T \<and>
     (\<forall>n\<in>set (tm_temp m). \<forall>nd. tm_nodes m n = Some nd \<longrightarrow> T < nd_next nd) \<and>
     (\<exists>new. tm_fired m = F @ new \<and> (\<forall>f\<in>set new. fr_due f = T \<and> fr_time f = T))"

lemma detach_once_eq:
  assumes "wf U c m" and "tm_nodes m n = Some nd" and "nd_ticker nd = Some t" and "nd_place nd = None"
  shows "detach_once n t nd m = (if nd_interval nd = 0 then unregisterTicker t m else m)"
proof -
  have "tk_node (tm_tickers m t) = Some n"
    using assms wf_ticker [of U m t n] by (auto simp: wf_def)
  with assms show ?thesis by (simp add: detach_once_def unregisterTicker_def)
qed

lemma detach_once_node:
  assumes "nd_interval nd = 0"
  shows "tm_nodes (detach_once n t nd m) n = Some (nd\<lparr>nd_ticker := None\<rparr>)"
  using assms by (simp add: detach_once_def)

definition new_fired :: "ticker_mgr \<Rightarrow> core_node \<Rightarrow> fired list \<Rightarrow> bool" where
  "new_fired m nd new \<longleftrightarrow> (\<forall>f\<in>set new. fr_due f = nd_next nd \<and> fr_time f = tm_time m)"

lemma run_callback_wf:
  assumes "wf U c m"
  shows "wf U c (run_callback cb t nd m)"
    and "tm_time (run_callback cb t nd m) = tm_time m"
    and "tm_temp (run_callback cb t nd m) = tm_temp m"
    and "\<exists>new. tm_fired (run_callback cb t nd m) = tm_fired m @ new \<and> new_fired m nd new"
    and "\<And>n kd. n \<in> U \<Longrightarrow> tm_nodes m n = Some kd \<Longrightarrow>
           \<exists>tk. tm_nodes (run_callback cb t nd m) n = Some (kd\<lparr>nd_ticker := tk\<rparr>) \<and>
                (nd_ticker kd = None \<longrightarrow> tk = None)"
proof -
  have "wf U c (run_callback cb t nd m) \<and> tm_time (run_callback cb t nd m) = tm_time m \<and>
      tm_temp (run_callback cb t nd m) = tm_temp m \<and>
      (\<exists>new. tm_fired (run_callback cb t nd m) = tm_fired m @ new \<and> new_fired m nd new) \<and>
      (\<forall>n\<in>U. \<forall>kd. tm_nodes m n = Some kd \<longrightarrow>
           (\<exists>tk. tm_nodes (run_callback cb t nd m) n = Some (kd\<lparr>nd_ticker := tk\<rparr>) \<and>
                (nd_ticker kd = None \<longrightarrow> tk = None)))"
  proof (cases "call_context t nd m")
    case None
    with assms show ?thesis by (simp add: run_callback_def new_fired_def)
  next
    case (Some ctx)
    let ?f = "\<lparr>fr_ticker = t, fr_context = ctx, fr_due = nd_next nd, fr_time = tm_time m,
                fr_once = (nd_interval nd = 0)\<rparr>"
    let ?m = "m\<lparr>tm_fired := tm_fired m @ [?f]\<rparr>"
    have e: "run_callback cb t nd m = fold client_op (cb t m) ?m"
      using Some by (simp add: run_callback_def)
    from client_ops_wf_frame [of U c ?m "cb t m"] assms
    have w: "wf U c (run_callback cb t nd m)" and f: "frame U ?m (run_callback cb t nd m)"
      by (simp_all add: e)
    have "tm_time (run_callback cb t nd m) = tm_time m"
      "tm_temp (run_callback cb t nd m) = tm_temp m"
      "tm_fired (run_callback cb t nd m) = tm_fired m @ [?f]"
      using f by (simp_all add: frame_def)
    then show ?thesis using w frame_node [OF f] by (simp add: new_fired_def)
  qed
  then show "wf U c (run_callback cb t nd m)"
    and "tm_time (run_callback cb t nd m) = tm_time m"
    and "tm_temp (run_callback cb t nd m) = tm_temp m"
    and "\<exists>new. tm_fired (run_callback cb t nd m) = tm_fired m @ new \<and> new_fired m nd new"
    and "\<And>n kd. n \<in> U \<Longrightarrow> tm_nodes m n = Some kd \<Longrightarrow>
           \<exists>tk. tm_nodes (run_callback cb t nd m) n = Some (kd\<lparr>nd_ticker := tk\<rparr>) \<and>
                (nd_ticker kd = None \<longrightarrow> tk = None)"
    by blast+
qed

text \<open>The node is taken off its list, and detached when it is a one-shot timer: the state in which
  its callback runs.\<close>

definition in_hand :: "nat \<Rightarrow> ticker_mgr \<Rightarrow> ticker_mgr" where
  "in_hand n m =
     (case tm_nodes m n of
        None \<Rightarrow> m
      | Some nd \<Rightarrow>
          (case nd_ticker nd of
             None \<Rightarrow> m
           | Some t \<Rightarrow> detach_once n t (nd\<lparr>nd_place := None\<rparr>) (link_remove n m)))"

lemma fire_step_in_hand:
  assumes wf: "wf U c m" and ne: "tm_lists m (Near p) = n # ns"
    and nd: "tm_nodes m n = Some nd" "nd_ticker nd = Some t"
  shows "fire_step cb p m = after_callback n (run_callback cb t (nd\<lparr>nd_place := None\<rparr>) (in_hand n m))"
proof -
  have "nd_place nd = Some (Near p)" using hd_linked [OF wf, of "Near p"] ne nd by auto
  then have "tm_nodes (link_remove n m) n = Some (nd\<lparr>nd_place := None\<rparr>)"
    using nd by (simp add: link_remove_def)
  then show ?thesis using ne nd by (simp add: fire_step_def in_hand_def)
qed

lemma link_remove_same: "same_timers m (link_remove n m)"
  by (auto simp: link_remove_def same_timers_def split: option.splits)

lemma in_hand_wf:
  assumes wf: "wf U c m" and n: "n \<in> set (tm_lists m s)"
    and nd: "tm_nodes m n = Some nd" "nd_ticker nd = Some t"
  shows "wf (insert n U) c (in_hand n m)"
    and "frame U m (in_hand n m)"
    and "tm_nodes (in_hand n m) n =
           Some (nd\<lparr>nd_place := None, nd_ticker := (if nd_interval nd = 0 then None else Some t)\<rparr>)"
proof -
  from wf have l: "wf_links U m" by (simp add: wf_def)
  let ?nd = "nd\<lparr>nd_place := None\<rparr>"
  let ?m = "link_remove n m"
  have pl: "nd_place nd = Some s" using n nd by (auto simp: wf_mem [OF l])
  have nU: "n \<notin> U" using wf_unlinked [OF l nd(1)] pl by simp
  have w: "wf (insert n U) c ?m" by (rule link_remove_wf [OF wf n])
  have nd': "tm_nodes ?m n = Some ?nd" using nd pl by (simp add: link_remove_def)
  have e: "in_hand n m = (if nd_interval nd = 0 then unregisterTicker t ?m else ?m)"
    using nd detach_once_eq [OF w nd'] by (simp add: in_hand_def)
  show "wf (insert n U) c (in_hand n m)" using w unregisterTicker_wf [OF w] by (simp add: e)
  have f: "frame U m ?m"
    using nU pl nd by (intro frame_same) (auto simp: link_remove_def)
  have "frame U ?m (unregisterTicker t ?m)"
    using unregisterTicker_frame [OF w, of t] by (simp add: frame_def)
  then show "frame U m (in_hand n m)" using f frame_trans by (simp add: e)
  show "tm_nodes (in_hand n m) n =
      Some (nd\<lparr>nd_place := None, nd_ticker := (if nd_interval nd = 0 then None else Some t)\<rparr>)"
    using nd nd' pl by (cases nd) (auto simp: in_hand_def detach_once_def)
qed

lemma after_callback_cases:
  assumes wf: "wf (insert n U) c m" and nU: "n \<notin> U" and nd: "tm_nodes m n = Some nd"
  shows "wf (if nd_ticker nd = None then U else insert n U) c (after_callback n m)"
    and "tm_temp (after_callback n m) = tm_temp m @ (if nd_ticker nd = None then [] else [n])"
    and "tm_time (after_callback n m) = tm_time m" and "tm_fired (after_callback n m) = tm_fired m"
    and "k \<noteq> n \<Longrightarrow> tm_nodes (after_callback n m) k = tm_nodes m k"
    and "nd_ticker nd \<noteq> None \<Longrightarrow>
           tm_nodes (after_callback n m) n = Some (nd\<lparr>nd_next := nd_next nd + int (nd_interval nd)\<rparr>)"
    and "tm_lists (after_callback n m) = tm_lists m"
    and "tm_tickers (after_callback n m) = tm_tickers m"
proof -
  show "wf (if nd_ticker nd = None then U else insert n U) c (after_callback n m)"
  proof (cases "nd_ticker nd")
    case None
    with delete_wf [OF wf _ nd None] nd nU show ?thesis by (simp add: after_callback_def)
  next
    case (Some t)
    let ?m = "m\<lparr>tm_nodes := (tm_nodes m)(n \<mapsto> nd\<lparr>nd_next := nd_next nd + int (nd_interval nd)\<rparr>)\<rparr>"
    have "wf (insert n U) c (?m\<lparr>tm_temp := tm_temp m @ [n]\<rparr>)"
      using advance_wf [OF wf _ nd, of "nd_interval nd"] by (simp only: temp_wf) simp
    with Some nd show ?thesis by (simp add: after_callback_def)
  qed
qed (use nd in \<open>auto simp: after_callback_def\<close>)

lemma fire_step_inv:
  assumes inv: "fire_inv T c F m" and ne: "tm_lists m (Near (near_pos T)) \<noteq> []"
  shows "fire_inv T c F (fire_step cb (near_pos T) m)"
proof -
  let ?U = "set (tm_temp m)"
  from inv have wf: "wf ?U c m" and T: "tm_time m = T" by (simp_all add: fire_inv_def)
  obtain n ns where l: "tm_lists m (Near (near_pos T)) = n # ns"
    using ne by (cases "tm_lists m (Near (near_pos T))") auto
  obtain nd where nd0: "tm_nodes m n = Some nd" "nd_place nd = Some (Near (near_pos T))"
    "nd_ticker nd \<noteq> None" and nU: "n \<notin> ?U"
    using hd_linked [OF wf ne] unfolding l list.sel .
  then obtain t where "nd_ticker nd = Some t" by auto
  note nd = nd0(1,2) this
  have due: "nd_next nd = T" using near_due [OF wf nd(1)] nd(2) T by simp
  have nl: "n \<in> set (tm_lists m (Near (near_pos T)))" by (simp add: l)
  let ?h = "in_hand n m" and ?nd = "nd\<lparr>nd_place := None\<rparr>"
  let ?r = "run_callback cb t ?nd ?h"
  note h = in_hand_wf [OF wf nl nd(1,3)]
  note r = run_callback_wf [OF h(1), where cb = cb and t = t and nd = ?nd]
  obtain tk where tk: "tm_nodes ?r n = Some (?nd\<lparr>nd_ticker := tk\<rparr>)"
    "nd_interval nd = 0 \<Longrightarrow> tk = None"
    using r(5) [OF _ h(3)] by (auto split: if_splits)
  note a = after_callback_cases [OF r(1) nU tk(1)]
  have hf: "tm_time ?h = T" "tm_temp ?h = tm_temp m" "tm_fired ?h = tm_fired m"
    using h(2) T by (simp_all add: frame_def)
  have e: "fire_step cb (near_pos T) m = after_callback n ?r"
    by (rule fire_step_in_hand [OF wf l nd(1,3)])
  have others: "T < nd_next kd"
    if k: "k \<in> ?U" and kd: "tm_nodes (after_callback n ?r) k = Some kd" for k kd
  proof -
    obtain k0 where k0: "tm_nodes m k = Some k0"
      using wf_held [of ?U m k] k wf by (auto simp: wf_def)
    obtain t1 where "tm_nodes ?h k = Some (k0\<lparr>nd_ticker := t1\<rparr>)"
      using frame_node [OF h(2) k k0] by auto
    then obtain t2 where "tm_nodes ?r k = Some (k0\<lparr>nd_ticker := t2\<rparr>)"
      using r(5) [of k] k by fastforce
    moreover have "k \<noteq> n" using k nU by blast
    ultimately have "nd_next kd = nd_next k0" using a(5) [of k] kd by simp
    then show ?thesis using inv k k0 by (simp add: fire_inv_def)
  qed
  have mine: "T < nd_next kd" if "tk \<noteq> None" "tm_nodes (after_callback n ?r) n = Some kd" for kd
    using a(6) that tk(2) due by auto
  obtain new where new: "tm_fired m = F @ new" "\<forall>f\<in>set new. fr_due f = T \<and> fr_time f = T"
    using inv by (auto simp: fire_inv_def)
  obtain new' where "tm_fired ?r = tm_fired ?h @ new'" "new_fired ?h ?nd new'" using r(4) by auto
  then have fired: "\<exists>new. tm_fired (after_callback n ?r) = F @ new \<and>
      (\<forall>f\<in>set new. fr_due f = T \<and> fr_time f = T)"
    using new hf due a(4) by (auto simp: new_fired_def intro!: exI [of _ "new @ new'"])
  have temp: "tm_temp (after_callback n ?r) = tm_temp m @ (if tk = None then [] else [n])"
    using a(2) r(3) hf by simp
  have "distinct (tm_temp (after_callback n ?r))"
    using temp nU inv by (simp add: fire_inv_def)
  moreover have "wf (set (tm_temp (after_callback n ?r))) c (after_callback n ?r)"
    using a(1) temp by (auto split: if_splits)
  moreover have "\<forall>k\<in>set (tm_temp (after_callback n ?r)). \<forall>kd.
      tm_nodes (after_callback n ?r) k = Some kd \<longrightarrow> T < nd_next kd"
    using temp others mine by (auto split: if_splits)
  ultimately show ?thesis using fired a(3) r(2) hf by (simp add: fire_inv_def e)
qed

lemma fire_all_result:
  assumes "fire_all cb (near_pos T) m = Some m'" and "fire_inv T c F m"
  shows "fire_inv T c F m' \<and> tm_lists m' (Near (near_pos T)) = []"
proof -
  have "fire_inv T c F m'"
    by (rule while_option_rule [where P = "fire_inv T c F", OF _ assms(1) [unfolded fire_all_def]])
       (use assms(2) fire_step_inv in blast)+
  with while_option_stop [OF assms(1) [unfolded fire_all_def]] show ?thesis by simp
qed

subsection \<open>Putting the timers back\<close>

definition back_inv :: "int \<Rightarrow> (nat \<Rightarrow> int) \<Rightarrow> nat set \<Rightarrow> ticker_mgr \<Rightarrow> bool" where
  "back_inv T c U m \<longleftrightarrow>
     wf U c m \<and> tm_time m = T \<and> (\<forall>n\<in>U. \<forall>nd. tm_nodes m n = Some nd \<longrightarrow> T < nd_next nd) \<and>
     tm_lists m (Near (near_pos T)) = []"

lemma not_now:
  assumes "T < x"
  shows "slot_for T x \<noteq> Near (near_pos T)"
proof
  assume a: "slot_for T x = Near (near_pos T)"
  then have x: "x - T < 2 ^ 16" "near_pos x = near_pos T"
    by (auto simp: slot_for_cases lev_span_def split: if_splits)
  then have "x mod 2 ^ 16 = T mod 2 ^ 16" using near_pos_eq [of x] near_pos_eq [of T] by simp
  then have "2 ^ 16 dvd x - T" by (simp only: mod_eq_dvd_iff)
  with x(1) assms show False using zdvd_not_zless [of "x - T" "2 ^ 16"] by linarith
qed

lemma reinsert_one_inv:
  assumes inv: "back_inv T c U m" and n: "n \<in> U"
  shows "back_inv T c (U - {n}) (reinsert_one n m)"
    and "k \<noteq> n \<Longrightarrow> tm_nodes (reinsert_one n m) k = tm_nodes m k"
    and "tm_fired (reinsert_one n m) = tm_fired m" and "tm_tickers (reinsert_one n m) = tm_tickers m"
    and "tm_nodes m n = Some nd \<Longrightarrow> nd_ticker nd \<noteq> None \<Longrightarrow>
           \<exists>s. tm_nodes (reinsert_one n m) n = Some (nd\<lparr>nd_place := Some s\<rparr>)"
    and "tm_hook (reinsert_one n m) = tm_hook m"
proof -
  from inv have wf: "wf U c m" by (simp add: back_inv_def)
  then have l: "wf_links U m" by (simp add: wf_def)
  obtain nd where nd: "tm_nodes m n = Some nd" using wf_held [OF l n] by auto
  have late: "T < nd_next nd" and T: "tm_time m = T" using inv n nd by (simp_all add: back_inv_def)
  have ins: "insertTicker n m = link_push (slot_for T (nd_next nd)) n m"
    using nd late T by (simp add: insertTicker_def)
  have pl: "nd_place nd = None" using wf_unlinked [OF l nd] n by simp
  show "back_inv T c (U - {n}) (reinsert_one n m)"
  proof (cases "nd_ticker nd")
    case None
    with delete_wf [OF wf n nd None] inv show ?thesis by (auto simp: back_inv_def reinsert_one_def nd)
  next
    case (Some t)
    have "tm_lists (insertTicker n m) (Near (near_pos T)) = []"
      using inv not_now [OF late] nd pl by (auto simp: ins link_push_def back_inv_def)
    with insertTicker_wf [OF wf n nd] Some inv nd pl show ?thesis
      by (auto simp: back_inv_def reinsert_one_def ins link_push_def)
  qed
  show "k \<noteq> n \<Longrightarrow> tm_nodes (reinsert_one n m) k = tm_nodes m k"
    and "tm_fired (reinsert_one n m) = tm_fired m" and "tm_tickers (reinsert_one n m) = tm_tickers m"
    and "tm_hook (reinsert_one n m) = tm_hook m"
    using nd pl by (auto simp: reinsert_one_def ins link_push_def)
  show "tm_nodes m n = Some nd \<Longrightarrow> nd_ticker nd \<noteq> None \<Longrightarrow>
           \<exists>s. tm_nodes (reinsert_one n m) n = Some (nd\<lparr>nd_place := Some s\<rparr>)" for nd
    using pl nd by (auto simp: reinsert_one_def ins link_push_def)
qed

lemma reinsert_all_inv:
  "back_inv T c (set ns) m \<Longrightarrow> distinct ns \<Longrightarrow> back_inv T c {} (fold reinsert_one ns m)"
proof (induction ns arbitrary: m)
  case (Cons n ns)
  then have "back_inv T c (set ns) (reinsert_one n m)"
    using reinsert_one_inv(1) [of T c "set (n # ns)" m n] by simp
  with Cons show ?case by simp
qed simp

lemma reinsert_fired: "tm_fired (fold reinsert_one ns m) = tm_fired m"
  by (induction ns arbitrary: m)
     (auto simp: reinsert_one_def insertTicker_def link_push_def split: option.splits)

subsection \<open>The tick\<close>

definition wheel_inv :: "ticker_mgr \<Rightarrow> bool" where
  "wheel_inv m \<longleftrightarrow> wf {} (\<lambda>_. tm_time m) m"

text \<open>A multiple of a span that is not before \<open>T\<close> is after it when \<open>T\<close> is no multiple.\<close>

lemma not_multiple:
  fixes q b T :: int
  assumes "T mod b \<noteq> 0" and "T \<le> q * b"
  shows "T + 1 \<le> q * b"
proof -
  have "T \<noteq> q * b" using assms(1) by auto
  with assms(2) show ?thesis by simp
qed

lemma not_turn_le:
  assumes "T mod lev_span K \<noteq> 0" and "K \<le> L"
  shows "T mod lev_span L \<noteq> 0"
  using assms(2,1) by (induction L rule: dec_induct) (auto simp: turn_Suc)

lemma placed_next:
  assumes p: "placed T (thr K T) s x" and K: "K \<le> 4" "K < 4 \<Longrightarrow> T mod lev_span K \<noteq> 0"
    and s: "s \<noteq> Near (near_pos T)"
  shows "placed (T + 1) (\<lambda>_. T + 1) s x"
proof (cases s)
  case (Near p')
  with p have b: "T \<le> x" "x < T + 2 ^ 16" "int p' = x mod 2 ^ 16" by (auto simp: placed_def)
  have "x \<noteq> T" using s Near b(3) near_pos_eq [of T] by auto
  with b Near show ?thesis by (simp add: placed_def)
next
  case (Cascade L p')
  with p have L: "L < 3" and b: "thr K T L \<le> x div lev_span L * lev_span L"
    "(x div lev_span L - 256) * lev_span L < thr K T L" "int p' = x div lev_span L mod 256"
    by (auto simp: placed_def)
  have "T + 1 \<le> x div lev_span L * lev_span L"
  proof (cases "L < K")
    case True
    with b(1) show ?thesis by (simp add: thr_def)
  next
    case False
    then have "T mod lev_span L \<noteq> 0" using K(2) not_turn_le [of T K L] L by simp
    with b(1) False show ?thesis by (simp add: thr_def not_multiple)
  qed
  moreover have "(x div lev_span L - 256) * lev_span L < T + 1"
    using b(2) by (simp add: thr_def split: if_splits)
  ultimately show ?thesis using Cascade L b(3) by (simp add: placed_def)
next
  case Far
  with p have b: "thr K T 3 \<le> x div lev_span 3 * lev_span 3" by (simp add: placed_def)
  have "T + 1 \<le> x div lev_span 3 * lev_span 3"
  proof (cases "3 < K")
    case True
    with b show ?thesis by (simp add: thr_def)
  next
    case False
    then have "T mod lev_span 3 \<noteq> 0" using K(2) not_turn_le [of T K 3] by simp
    with b False show ?thesis by (simp add: thr_def not_multiple)
  qed
  with Far show ?thesis by (simp add: placed_def)
qed

lemma wheel_next:
  assumes inv: "back_inv T (thr K T) {} m" and K: "K \<le> 4" "K < 4 \<Longrightarrow> T mod lev_span K \<noteq> 0"
  shows "wheel_inv (m\<lparr>tm_time := T + 1\<rparr>)"
proof -
  from inv have l: "wf_links {} m" and ti: "wf_times (thr K T) m" and T: "tm_time m = T"
    and e: "tm_lists m (Near (near_pos T)) = []"
    by (simp_all add: back_inv_def wf_def)
  have "wf_links {} (m\<lparr>tm_time := T + 1\<rparr>)" using l by (simp add: wf_links_def)
  moreover have "wf_times (\<lambda>_. T + 1) (m\<lparr>tm_time := T + 1\<rparr>)"
  proof (rule wf_timesI)
    fix n nd s assume nd: "tm_nodes (m\<lparr>tm_time := T + 1\<rparr>) n = Some nd" "nd_place nd = Some s"
    then have "n \<in> set (tm_lists m s)" by (auto simp: wf_mem [OF l])
    then have "s \<noteq> Near (near_pos T)" using e by auto
    then show "placed (tm_time (m\<lparr>tm_time := T + 1\<rparr>)) (\<lambda>_. T + 1) s (nd_next nd)"
      using placed_next [OF _ K, of s "nd_next nd"] wf_placed [OF ti, of n nd s] nd T by simp
  next
    fix n nd assume "tm_nodes (m\<lparr>tm_time := T + 1\<rparr>) n = Some nd" "nd_place nd = None"
    then show "tm_time (m\<lparr>tm_time := T + 1\<rparr>) \<le> nd_next nd" using wf_unlinked [OF l] by simp
  qed simp
  ultimately show ?thesis by (simp add: wheel_inv_def wf_def)
qed

text \<open>The three stages of a tick, with the state between them.\<close>

lemma tick_stages:
  assumes "tick cb m = Some m'" and "wheel_inv m"
  obtains m1 m2 K where
    "same_timers m m1" "wf {} (thr K (tm_time m)) m1" "K \<le> 4" "K < 4 \<Longrightarrow> tm_time m mod lev_span K \<noteq> 0"
    "fire_all cb (near_pos (tm_time m)) (m1\<lparr>tm_temp := []\<rparr>) = Some m2"
    "fire_inv (tm_time m) (thr K (tm_time m)) (tm_fired m) m2"
    "tm_lists m2 (Near (near_pos (tm_time m))) = []"
    "m' = (fold reinsert_one (tm_temp m2) m2)\<lparr>tm_time := tm_time m + 1\<rparr>"
    "back_inv (tm_time m) (thr K (tm_time m)) {} (fold reinsert_one (tm_temp m2) m2)"
proof -
  let ?T = "tm_time m"
  from assms(1) obtain m1 m2 where m1: "(if near_pos ?T = 0 then cascadeTicker m else Some m) = Some m1"
    and m2: "fire_all cb (near_pos ?T) (m1\<lparr>tm_temp := []\<rparr>) = Some m2"
    and m': "m' = (fold reinsert_one (tm_temp m2) m2)\<lparr>tm_time := tm_time (fold reinsert_one (tm_temp m2) m2) + 1\<rparr>"
    by (auto simp: tick_def Let_def bind_eq_Some_conv')
  from assms(2) have wf: "wf {} (\<lambda>_. ?T) m" by (simp add: wheel_inv_def)
  have np: "near_pos ?T = 0 \<longleftrightarrow> ?T mod lev_span 0 = 0"
    using near_pos_eq [of ?T] by (auto simp: lev_span_def)
  obtain K where same: "same_timers m m1" and w: "wf {} (thr K ?T) m1"
    and K: "K \<le> 4" "K < 4 \<longrightarrow> ?T mod lev_span K \<noteq> 0"
  proof (cases "near_pos ?T = 0")
    case True
    with m1 have c: "cascadeTicker m = Some m1" by simp
    from True np have t: "?T mod lev_span 0 = 0" by simp
    show ?thesis using that cascadeTicker_result [OF c wf t] by blast
  next
    case False
    with m1 np wf show ?thesis using that [of 0] by (simp add: wf_thr_0)
  qed
  note f = same_timers_fields [OF same]
  have "fire_inv ?T (thr K ?T) (tm_fired m) (m1\<lparr>tm_temp := []\<rparr>)"
    using w f by (simp add: fire_inv_def)
  from fire_all_result [OF m2 this] have inv: "fire_inv ?T (thr K ?T) (tm_fired m) m2"
    and e: "tm_lists m2 (Near (near_pos ?T)) = []" by simp_all
  then have "back_inv ?T (thr K ?T) (set (tm_temp m2)) m2"
    by (simp add: fire_inv_def back_inv_def)
  then have b: "back_inv ?T (thr K ?T) {} (fold reinsert_one (tm_temp m2) m2)"
    by (rule reinsert_all_inv) (use inv in \<open>simp add: fire_inv_def\<close>)
  show ?thesis
    by (rule that [OF same w K(1) _ m2 inv e _ b]) (use K(2) m' b in \<open>auto simp: back_inv_def\<close>)
qed

lemma tick_result:
  assumes t: "tick cb m = Some m'" and inv: "wheel_inv m"
  shows "wheel_inv m'" and "tm_time m' = tm_time m + 1"
    and "\<exists>new. tm_fired m' = tm_fired m @ new \<and>
           (\<forall>f\<in>set new. fr_due f = tm_time m \<and> fr_time f = tm_time m)"
proof -
  obtain m1 m2 K where K: "K \<le> 4" "K < 4 \<Longrightarrow> tm_time m mod lev_span K \<noteq> 0"
    and f: "fire_inv (tm_time m) (thr K (tm_time m)) (tm_fired m) m2"
    and m': "m' = (fold reinsert_one (tm_temp m2) m2)\<lparr>tm_time := tm_time m + 1\<rparr>"
    and b: "back_inv (tm_time m) (thr K (tm_time m)) {} (fold reinsert_one (tm_temp m2) m2)"
    using tick_stages [OF t inv] by metis
  show "wheel_inv m'" using wheel_next [OF b K] by (simp add: m')
  show "tm_time m' = tm_time m + 1" by (simp add: m')
  show "\<exists>new. tm_fired m' = tm_fired m @ new \<and>
           (\<forall>f\<in>set new. fr_due f = tm_time m \<and> fr_time f = tm_time m)"
    using f by (simp add: m' reinsert_fired fire_inv_def)
qed

lemma update_n_result:
  assumes "update_n cb k m = Some m'" and "wheel_inv m"
  shows "wheel_inv m' \<and> tm_time m' = tm_time m + int k \<and>
    (\<exists>new. tm_fired m' = tm_fired m @ new \<and>
       (\<forall>f\<in>set new. fr_due f = fr_time f \<and> tm_time m \<le> fr_time f \<and> fr_time f < tm_time m'))"
  using assms
proof (induction k arbitrary: m)
  case (Suc k)
  then obtain m1 where t: "tick cb m = Some m1" and u: "update_n cb k m1 = Some m'"
    by (auto simp: bind_eq_Some_conv')
  note r = tick_result [OF t Suc.prems(2)]
  from Suc.IH [OF u r(1)] obtain new where ih: "wheel_inv m'" "tm_time m' = tm_time m + 1 + int k"
    "tm_fired m' = tm_fired m1 @ new"
    "\<forall>f\<in>set new. fr_due f = fr_time f \<and> tm_time m + 1 \<le> fr_time f \<and> fr_time f < tm_time m'"
    using r(2) by auto
  obtain new1 where "tm_fired m1 = tm_fired m @ new1"
    "\<forall>f\<in>set new1. fr_due f = tm_time m \<and> fr_time f = tm_time m" using r(3) by auto
  with ih show ?case by (auto intro!: exI [of _ "new1 @ new"])
qed auto

end
