(* ===== verification/Ticker_Term.thy ===== *)
theory Ticker_Term imports Ticker_Tick begin

text \<open>
  The loops of \<open>update\<close> end when the callbacks register timers with a delay of at least one
  millisecond and no delay or interval reaches the span of the far list: the loop over the near
  list then only gets shorter, and the far list stays empty.
\<close>

fun short_op :: "ticker_op \<Rightarrow> bool" where
  "short_op (OpRegister t st iv ctx) = (1 \<le> st \<and> int st < lev_span 3 \<and> int iv < lev_span 3)"
| "short_op _ = True"

definition calm :: "ticker_mgr \<Rightarrow> bool" where
  "calm m \<longleftrightarrow>
     tm_lists m Far = [] \<and>
     (\<forall>n nd. tm_nodes m n = Some nd \<longrightarrow> int (nd_interval nd) < lev_span 3) \<and>
     (\<forall>n\<in>set (tm_temp m). \<forall>nd. tm_nodes m n = Some nd \<longrightarrow> nd_next nd < tm_time m + lev_span 3)"

definition now_list :: "ticker_mgr \<Rightarrow> nat list" where
  "now_list m = tm_lists m (Near (near_pos (tm_time m)))"

text \<open>What a client operation may do to a calm wheel.\<close>

definition calmer :: "ticker_mgr \<Rightarrow> ticker_mgr \<Rightarrow> bool" where
  "calmer m m' \<longleftrightarrow> (calm m \<longrightarrow> calm m') \<and> length (now_list m') \<le> length (now_list m)"

lemma calmer_refl [simp]: "calmer m m" by (simp add: calmer_def)

lemma calmer_trans: "calmer m1 m2 \<Longrightarrow> calmer m2 m3 \<Longrightarrow> calmer m1 m3"
  by (auto simp: calmer_def)

lemma registerTicker_calmer:
  assumes wf: "wf U c m" "set (tm_temp m) \<subseteq> U" and op: "short_op (OpRegister t st iv ctx)"
  shows "calmer m (snd (registerTicker t st iv ctx m))"
proof (cases "tk_node (tm_tickers m t) \<noteq> None \<or> \<not> tk_callback (tm_tickers m t)")
  case False
  have "tm_alloc m \<notin> set (tm_temp m)" using wf wf_not_alloc by (auto simp: wf_def)
  moreover have "slot_for (tm_time m) (tm_time m + int st) \<noteq> Near (near_pos (tm_time m))"
    using op by (intro not_now) simp
  moreover have "slot_for (tm_time m) (tm_time m + int st) \<noteq> Far"
    using op slot_for_below(1) [of "tm_time m + int st" "tm_time m" 3] by simp
  ultimately show ?thesis using False op
    by (auto simp: registerTicker_def Let_def insertTicker_def link_push_def calmer_def calm_def
        now_list_def)
qed (auto simp: registerTicker_def)

lemma unregisterTicker_calmer: "calmer m (unregisterTicker t m)"
proof -
  have "length (remove1 n xs) \<le> length xs" for n :: nat and xs
    by (simp add: length_remove1)
  then show ?thesis
    by (auto simp: unregisterTicker_def link_remove_def calmer_def calm_def now_list_def Let_def
        split: option.splits)
qed

lemma moveTicker_calmer: "calmer m (moveTicker dst src m)"
proof -
  have "calmer (unregisterTicker dst m) (moveTicker dst src m)" if "dst \<noteq> src"
    using that by (auto simp: moveTicker_def Let_def calmer_def calm_def now_list_def
        split: option.splits)
  then show ?thesis
    using calmer_trans [OF unregisterTicker_calmer] by (cases "dst = src") (auto simp: moveTicker_def)
qed

lemma client_op_calmer:
  "wf U c m \<Longrightarrow> set (tm_temp m) \<subseteq> U \<Longrightarrow> short_op op \<Longrightarrow> calmer m (client_op op m)"
  by (cases op)
     (simp_all add: registerTicker_calmer unregisterTicker_calmer moveTicker_calmer setCallback_def,
      simp add: calmer_def calm_def now_list_def)

lemma client_ops_calmer:
  "wf U c m \<Longrightarrow> set (tm_temp m) \<subseteq> U \<Longrightarrow> list_all short_op ops \<Longrightarrow> calmer m (fold client_op ops m)"
proof (induction ops arbitrary: m)
  case (Cons op ops)
  have "tm_temp (client_op op m) = tm_temp m"
    using client_op_frame [OF Cons.prems(1)] by (simp add: frame_def)
  then have "calmer (client_op op m) (fold client_op ops (client_op op m))"
    using Cons client_op_wf [OF Cons.prems(1), of op] by simp
  then show ?case using client_op_calmer [OF Cons.prems(1), of op] Cons.prems(2,3) calmer_trans
    by simp
qed simp

definition short_cb :: "(nat \<Rightarrow> ticker_mgr \<Rightarrow> ticker_op list) \<Rightarrow> bool" where
  "short_cb cb \<longleftrightarrow> (\<forall>t m. list_all short_op (cb t m))"

lemma run_callback_calmer:
  assumes "wf U c m" and "set (tm_temp m) \<subseteq> U" and "short_cb cb"
  shows "calmer m (run_callback cb t nd m)"
proof (cases "call_context t nd m")
  case (Some ctx)
  let ?m = "m\<lparr>tm_fired := tm_fired m @ [\<lparr>fr_ticker = t, fr_context = ctx, fr_due = nd_next nd,
              fr_time = tm_time m, fr_once = (nd_interval nd = 0)\<rparr>]\<rparr>"
  have "calmer ?m (fold client_op (cb t m) ?m)"
    using client_ops_calmer [of U c ?m "cb t m"] assms by (simp add: short_cb_def)
  moreover have "calmer m ?m" by (simp add: calmer_def calm_def now_list_def)
  ultimately show ?thesis using Some calmer_trans by (simp add: run_callback_def)
qed (simp add: run_callback_def)

lemma in_hand_calm:
  assumes wf: "wf U c m" and l: "now_list m = n # ns" and U: "set (tm_temp m) \<subseteq> U"
    and nd: "tm_nodes m n = Some nd" "nd_ticker nd = Some t"
  shows "calm m \<longrightarrow> calm (in_hand n m)" and "length (now_list (in_hand n m)) < length (now_list m)"
proof -
  have l': "tm_lists m (Near (near_pos (tm_time m))) = n # ns" using l by (simp add: now_list_def)
  have "nd_place nd = Some (Near (near_pos (tm_time m)))" and nU: "n \<notin> U"
    using hd_linked [OF wf, of "Near (near_pos (tm_time m))"] l' nd by auto
  moreover from this have "n \<notin> set (tm_temp m)" using U by auto
  ultimately show "calm m \<longrightarrow> calm (in_hand n m)"
    and "length (now_list (in_hand n m)) < length (now_list m)"
    using nd l' by (auto simp: in_hand_def link_remove_def detach_once_def calm_def now_list_def)
qed

lemma fire_step_calm:
  assumes inv: "fire_inv T c F m" and ne: "tm_lists m (Near (near_pos T)) \<noteq> []" and cb: "short_cb cb"
    and calm: "calm m"
  shows "calm (fire_step cb (near_pos T) m)"
    and "length (tm_lists (fire_step cb (near_pos T) m) (Near (near_pos T)))
           < length (tm_lists m (Near (near_pos T)))"
proof -
  let ?U = "set (tm_temp m)"
  from inv have wf: "wf ?U c m" and T: "tm_time m = T" by (simp_all add: fire_inv_def)
  obtain n ns where l: "tm_lists m (Near (near_pos T)) = n # ns"
    using ne by (cases "tm_lists m (Near (near_pos T))") auto
  obtain nd where nd0: "tm_nodes m n = Some nd" "nd_place nd = Some (Near (near_pos T))"
    "nd_ticker nd \<noteq> None" and nU: "n \<notin> ?U"
    using hd_linked [OF wf ne] unfolding l list.sel .
  then obtain t where "nd_ticker nd = Some t" by auto
  note nd = nd0(1,2) this
  have due: "nd_next nd = T" using near_due [OF wf nd(1)] nd(2) T by simp
  have nl: "n \<in> set (tm_lists m (Near (near_pos T)))" by (simp add: l)
  have nw: "now_list m = n # ns" by (simp add: now_list_def l T)
  let ?h = "in_hand n m" and ?nd = "nd\<lparr>nd_place := None\<rparr>"
  let ?r = "run_callback cb t ?nd ?h"
  note h = in_hand_wf [OF wf nl nd(1,3)]
  note r = run_callback_wf [OF h(1), where cb = cb and t = t and nd = ?nd]
  obtain tk where tk: "tm_nodes ?r n = Some (?nd\<lparr>nd_ticker := tk\<rparr>)"
    using r(5) [OF _ h(3)] by (auto split: if_splits)
  note a = after_callback_cases [OF r(1) nU tk]
  have temp: "tm_temp ?h = tm_temp m" and hT: "tm_time ?h = T" using h(2) T by (simp_all add: frame_def)
  have e: "fire_step cb (near_pos T) m = after_callback n ?r"
    by (rule fire_step_in_hand [OF wf l nd(1,3)])
  have "calmer ?h ?r" by (rule run_callback_calmer [OF h(1) _ cb]) (auto simp: temp)
  with in_hand_calm [OF wf nw _ nd(1,3)] calm
  have c: "calm ?r" and len: "length (now_list ?r) < length (now_list m)"
    by (auto simp: calmer_def)
  have iv: "int (nd_interval nd) < lev_span 3" using calm nd(1) by (simp add: calm_def)
  have "calm (after_callback n ?r)"
  proof (cases tk)
    case None
    with c tk show ?thesis by (auto simp: after_callback_def calm_def)
  next
    case (Some t')
    with c tk due iv r(2) hT show ?thesis by (auto simp: after_callback_def calm_def)
  qed
  then show "calm (fire_step cb (near_pos T) m)" by (simp add: e)
  show "length (tm_lists (fire_step cb (near_pos T) m) (Near (near_pos T)))
           < length (tm_lists m (Near (near_pos T)))"
    using len a(7) r(2) hT by (simp add: e now_list_def T)
qed

lemma fire_all_returns:
  assumes "fire_inv T c F m" and "short_cb cb" and "calm m"
  shows "\<exists>m'. fire_all cb (near_pos T) m = Some m' \<and> calm m'"
proof -
  have "\<exists>m'. fire_all cb (near_pos T) m = Some m' \<and> (fire_inv T c F m' \<and> calm m') \<and>
      \<not> tm_lists m' (Near (near_pos T)) \<noteq> []"
    unfolding fire_all_def
    by (rule while_ends [where P = "\<lambda>m. fire_inv T c F m \<and> calm m"
          and f = "\<lambda>m. length (tm_lists m (Near (near_pos T)))"])
       (use assms fire_step_inv fire_step_calm in auto)
  then show ?thesis by blast
qed

text \<open>Putting the timers back keeps the far list empty.\<close>

definition calm_rest :: "nat list \<Rightarrow> ticker_mgr \<Rightarrow> bool" where
  "calm_rest ns m \<longleftrightarrow>
     tm_lists m Far = [] \<and>
     (\<forall>n nd. tm_nodes m n = Some nd \<longrightarrow> int (nd_interval nd) < lev_span 3) \<and>
     (\<forall>n\<in>set ns. \<forall>nd. tm_nodes m n = Some nd \<longrightarrow> nd_next nd < tm_time m + lev_span 3)"

lemma reinsert_calm:
  "calm_rest ns m \<Longrightarrow> calm_rest [] (fold reinsert_one ns m)"
proof (induction ns arbitrary: m)
  case (Cons n ns)
  have "slot_for (tm_time m) (nd_next nd) \<noteq> Far" if "tm_nodes m n = Some nd" for nd
    using Cons.prems that slot_for_below(1) [of "nd_next nd" "tm_time m" 3] by (simp add: calm_rest_def)
  then have "calm_rest ns (reinsert_one n m)"
    using Cons.prems
    by (auto simp: reinsert_one_def insertTicker_def link_push_def calm_rest_def split: option.splits)
  with Cons.IH show ?case by simp
qed simp

lemma tick_returns:
  assumes inv: "wheel_inv m" and cb: "short_cb cb" and calm: "calm_rest [] m"
  shows "\<exists>m'. tick cb m = Some m' \<and> calm_rest [] m'"
proof -
  let ?T = "tm_time m"
  from inv have wf: "wf {} (\<lambda>_. ?T) m" by (simp add: wheel_inv_def)
  have np: "near_pos ?T = 0 \<longleftrightarrow> ?T mod lev_span 0 = 0"
    using near_pos_eq [of ?T] by (auto simp: lev_span_def)
  obtain m1 K where m1: "(if near_pos ?T = 0 then cascadeTicker m else Some m) = Some m1"
    and same: "same_timers m m1" and w: "wf {} (thr K ?T) m1" and far: "tm_lists m1 Far = []"
  proof (cases "near_pos ?T = 0")
    case True
    with np have t: "?T mod lev_span 0 = 0" by simp
    from cascade_levels_returns [of "{}" 0 m] t wf calm obtain m1 where
      c: "cascadeTicker m = Some m1" and far: "tm_lists m1 Far = []"
      by (auto simp: cascadeTicker_def wf_thr_0 calm_rest_def)
    with cascadeTicker_result [OF c wf t] show ?thesis using that True by auto
  next
    case False
    with wf show ?thesis using that [of m 0] calm by (simp add: wf_thr_0 calm_rest_def)
  qed
  note f = same_timers_fields [OF same]
  let ?m1 = "m1\<lparr>tm_temp := []\<rparr>"
  have ivs: "int (nd_interval nd) < lev_span 3" if nd: "tm_nodes m1 n = Some nd" for n nd
  proof -
    obtain nd0 where "tm_nodes m n = Some nd0" "nd = nd0\<lparr>nd_place := nd_place nd\<rparr>"
      using same_timers_node(1) [OF same nd] by auto
    moreover from this(2) have "nd_interval nd = nd_interval nd0"
      by (metis core_node.select_convs(4) core_node.surjective core_node.update_convs(1))
    ultimately show ?thesis using calm by (simp add: calm_rest_def)
  qed
  have fi: "fire_inv ?T (thr K ?T) (tm_fired m) ?m1" using w f by (simp add: fire_inv_def)
  have "calm ?m1" using far ivs by (simp add: calm_def)
  from fire_all_returns [OF fi cb this] obtain m2 where
    m2: "fire_all cb (near_pos ?T) ?m1 = Some m2" and c2: "calm m2" by auto
  have "calm_rest (tm_temp m2) m2" using c2 by (simp add: calm_rest_def calm_def)
  from reinsert_calm [OF this] show ?thesis using m1 m2 by (auto simp: tick_def Let_def calm_rest_def)
qed

lemma update_n_returns:
  assumes "wheel_inv m" and "short_cb cb" and "calm_rest [] m"
  shows "\<exists>m'. update_n cb k m = Some m' \<and> calm_rest [] m'"
  using assms
proof (induction k arbitrary: m)
  case (Suc k)
  from tick_returns [OF Suc.prems] obtain m1 where t: "tick cb m = Some m1" "calm_rest [] m1" by auto
  from tick_result(1) [OF t(1) Suc.prems(1)] have "wheel_inv m1" .
  with Suc.IH [OF this Suc.prems(2) t(2)] t(1) show ?case by simp
qed simp

subsection \<open>A timer the far list never lets go\<close>

lemma turn_below:
  assumes "T mod lev_span 3 = 0" and "L \<le> 3"
  shows "T mod lev_span L = 0 \<and> (L < 3 \<longrightarrow> cascade_pos L T = 0)"
  using assms(2,1) by (induction L rule: inc_induct) (auto simp: turn_Suc numeral_3_eq_3)

lemma cascade_stuck:
  assumes turn: "T mod lev_span 3 = 0"
    and "L \<le> 3" and "tm_time m = T" and "wf {} (thr L T) m"
    and "tm_nodes m n = Some nd" and "nd_place nd = Some Far" and "T + lev_span 3 \<le> nd_next nd"
  shows "cascade_levels L m = None"
  using assms(2-)
proof (induction "3 - L" arbitrary: L m)
  case 0
  then show ?case using far_drain_stuck [OF 0(4,5,6)]
    by (subst cascade_levels.simps) (simp add: TIME_CASCADE_COUNT_def)
next
  case (Suc d)
  then have L: "L < 3" by simp
  let ?s = "Cascade L (cascade_pos L (tm_time m))"
  show ?case
  proof (cases "cascade_drain ?s m")
    case None
    with L show ?thesis by (subst cascade_levels.simps) (simp add: TIME_CASCADE_COUNT_def Let_def)
  next
    case (Some m2)
    from cascade_drain_result [OF Suc(5) Some] have w: "wf {} (thr L T) m2"
      and e: "tm_lists m2 ?s = []" and same: "same_timers m m2" by auto
    have T2: "tm_time m2 = T" using same_timers_fields [OF same] Suc(4) by simp
    have w2: "wf {} (thr (Suc L) T) m2"
      using wf_thr_Suc [of "{}" L m2] w e turn_below [OF turn, of L] L Suc(4) T2 by simp
    have "cascade_levels (Suc L) m2 = None"
      by (rule Suc(1) [OF _ _ T2 w2 far_stays [OF Suc(5) Some Suc(6,7)] Suc(7,8)]) (use Suc(2) in auto)
    with Some L turn_below [OF turn, of L] Suc(4) show ?thesis
      by (subst cascade_levels.simps) (simp add: TIME_CASCADE_COUNT_def Let_def)
  qed
qed

end
