(* ===== verification/Ticker_Exact.thy ===== *)
theory Ticker_Exact imports Ticker_Term begin

text \<open>
  The life of one timer through \<open>update\<close>, as long as the callbacks leave its ticker alone: when
  it fires, with which context, and what is left of it afterwards.
\<close>

fun touches :: "nat \<Rightarrow> ticker_op \<Rightarrow> bool" where
  "touches t (OpRegister t' st iv ctx) = (t' = t)"
| "touches t (OpUnregister t') = (t' = t)"
| "touches t (OpMove d s) = (d = t \<or> s = t)"
| "touches t (OpSetCallback t' b co) = (t' = t)"

definition leaves_alone :: "(nat \<Rightarrow> ticker_mgr \<Rightarrow> ticker_op list) \<Rightarrow> nat \<Rightarrow> bool" where
  "leaves_alone cb t \<longleftrightarrow> (\<forall>t' m. list_all (\<lambda>op. \<not> touches t op) (cb t' m))"

definition recs :: "nat \<Rightarrow> ticker_mgr \<Rightarrow> fired list" where
  "recs t m = filter (\<lambda>f. fr_ticker f = t) (tm_fired m)"

text \<open>What an operation on other tickers keeps of the ticker \<open>t\<close>: the ticker and its node.\<close>

definition keeps :: "nat \<Rightarrow> ticker_mgr \<Rightarrow> ticker_mgr \<Rightarrow> bool" where
  "keeps t m m' \<longleftrightarrow>
     tm_tickers m' t = tm_tickers m t \<and>
     (\<forall>n. tk_node (tm_tickers m t) = Some n \<longrightarrow> tm_nodes m' n = tm_nodes m n)"

lemma keeps_refl [simp]: "keeps t m m" by (simp add: keeps_def)

lemma keeps_trans: "keeps t m1 m2 \<Longrightarrow> keeps t m2 m3 \<Longrightarrow> keeps t m1 m3"
  by (simp add: keeps_def)

lemma ticker_inj:
  "wf_links U m \<Longrightarrow> tk_node (tm_tickers m t) = Some n \<Longrightarrow> tk_node (tm_tickers m t') = Some n \<Longrightarrow> t = t'"
  by (auto simp: wf_ticker)

lemma unregisterTicker_keeps:
  assumes "wf U c m" and "t' \<noteq> t"
  shows "keeps t m (unregisterTicker t' m)"
proof -
  have "tk_node (tm_tickers m t') = Some n' \<Longrightarrow> tk_node (tm_tickers m t) \<noteq> Some n'" for n'
    using assms ticker_inj [of U m t n' t'] by (auto simp: wf_def)
  with assms(2) show ?thesis
    by (auto simp: keeps_def unregisterTicker_def link_remove_def Let_def split: option.splits)
qed

lemma registerTicker_keeps:
  assumes "wf U c m" and "t' \<noteq> t"
  shows "keeps t m (snd (registerTicker t' st iv ctx m))"
proof -
  have "tk_node (tm_tickers m t) \<noteq> Some (tm_alloc m)"
  proof
    assume "tk_node (tm_tickers m t) = Some (tm_alloc m)"
    then obtain nd where "tm_nodes m (tm_alloc m) = Some nd"
      using assms(1) wf_ticker [of U m t] by (auto simp: wf_def)
    then show False using wf_fresh [of U m "tm_alloc m"] assms(1) by (simp add: wf_def)
  qed
  with assms(2) show ?thesis
    by (auto simp: keeps_def registerTicker_def insertTicker_def link_push_def Let_def)
qed

lemma moveTicker_keeps:
  assumes wf: "wf U c m" and t: "dst \<noteq> t" "src \<noteq> t"
  shows "keeps t m (moveTicker dst src m)"
proof (cases "dst = src")
  case False
  let ?m = "unregisterTicker dst m"
  have l: "wf_links U ?m" using unregisterTicker_wf [OF wf] by (simp add: wf_def)
  have "tk_node (tm_tickers ?m src) = Some n \<Longrightarrow> tk_node (tm_tickers ?m t) \<noteq> Some n" for n
    using ticker_inj [OF l, of src n t] t by auto
  then have "keeps t ?m (moveTicker dst src m)"
    using t False by (auto simp: keeps_def moveTicker_def Let_def split: option.splits)
  then show ?thesis by (rule keeps_trans [OF unregisterTicker_keeps [OF wf t(1)]])
qed (simp add: moveTicker_def)

lemma client_op_keeps: "wf U c m \<Longrightarrow> \<not> touches t op \<Longrightarrow> keeps t m (client_op op m)"
  by (cases op)
     (auto simp: registerTicker_keeps unregisterTicker_keeps moveTicker_keeps,
      simp add: setCallback_def keeps_def)

lemma client_ops_keeps:
  "wf U c m \<Longrightarrow> list_all (\<lambda>op. \<not> touches t op) ops \<Longrightarrow> keeps t m (fold client_op ops m)"
proof (induction ops arbitrary: m)
  case (Cons op ops)
  then show ?case
    using keeps_trans [OF client_op_keeps [OF Cons.prems(1), of t op]]
      client_op_wf [OF Cons.prems(1), of op] by simp
qed simp

lemma run_callback_keeps:
  assumes "wf U c m" and "leaves_alone cb t"
  shows "keeps t m (run_callback cb t' nd m)"
    and "t' \<noteq> t \<Longrightarrow> recs t (run_callback cb t' nd m) = recs t m"
    and "call_context t nd m = Some ctx \<Longrightarrow> recs t (run_callback cb t nd m) = recs t m @
           [\<lparr>fr_ticker = t, fr_context = ctx, fr_due = nd_next nd, fr_time = tm_time m,
             fr_once = (nd_interval nd = 0)\<rparr>]"
    and "tm_hook (run_callback cb t' nd m) = tm_hook m"
proof -
  have main: "keeps t m (run_callback cb t' nd m) \<and> tm_hook (run_callback cb t' nd m) = tm_hook m \<and>
      tm_fired (run_callback cb t' nd m) = tm_fired m @
        (case call_context t' nd m of None \<Rightarrow> [] | Some ctx \<Rightarrow>
          [\<lparr>fr_ticker = t', fr_context = ctx, fr_due = nd_next nd, fr_time = tm_time m,
             fr_once = (nd_interval nd = 0)\<rparr>])" for t'
  proof (cases "call_context t' nd m")
    case (Some ctx)
    let ?m = "m\<lparr>tm_fired := tm_fired m @
        [\<lparr>fr_ticker = t', fr_context = ctx, fr_due = nd_next nd, fr_time = tm_time m,
             fr_once = (nd_interval nd = 0)\<rparr>]\<rparr>"
    have w: "wf U c ?m" using assms(1) by simp
    have "keeps t ?m (fold client_op (cb t' m) ?m)"
      using client_ops_keeps [OF w, of t "cb t' m"] assms(2) by (simp add: leaves_alone_def)
    moreover have "frame U ?m (fold client_op (cb t' m) ?m)" using client_ops_wf_frame [OF w] by blast
    ultimately show ?thesis using Some by (simp add: run_callback_def keeps_def frame_def)
  qed (simp add: run_callback_def)
  show "keeps t m (run_callback cb t' nd m)" "tm_hook (run_callback cb t' nd m) = tm_hook m"
    using main by simp_all
  show "t' \<noteq> t \<Longrightarrow> recs t (run_callback cb t' nd m) = recs t m"
    using main [of t'] by (auto simp: recs_def split: option.splits)
  show "call_context t nd m = Some ctx \<Longrightarrow> recs t (run_callback cb t nd m) = recs t m @
           [\<lparr>fr_ticker = t, fr_context = ctx, fr_due = nd_next nd, fr_time = tm_time m,
             fr_once = (nd_interval nd = 0)\<rparr>]"
    using main [of t] by (auto simp: recs_def)
qed

text \<open>The timer of \<open>t\<close> in state \<open>m\<close>, up to its place.\<close>

definition pending :: "nat \<Rightarrow> int \<Rightarrow> nat \<Rightarrow> nat \<Rightarrow> ticker_mgr \<Rightarrow> bool" where
  "pending t x iv ctx m \<longleftrightarrow>
     (\<exists>n nd. tk_node (tm_tickers m t) = Some n \<and> tm_nodes m n = Some nd \<and> nd_next nd = x \<and>
        nd_interval nd = iv \<and> nd_context nd = ctx) \<and> tk_callback (tm_tickers m t)"

definition idle :: "nat \<Rightarrow> ticker_mgr \<Rightarrow> bool" where
  "idle t m \<longleftrightarrow> tk_node (tm_tickers m t) = None"

lemma keeps_pending: "keeps t m m' \<Longrightarrow> pending t x iv ctx m \<Longrightarrow> pending t x iv ctx m'"
  by (auto simp: keeps_def pending_def)

lemma keeps_idle: "keeps t m m' \<Longrightarrow> idle t m \<Longrightarrow> idle t m'"
  by (simp add: keeps_def idle_def)

definition the_rec :: "bool \<Rightarrow> nat \<Rightarrow> int \<Rightarrow> nat \<Rightarrow> nat \<Rightarrow> fired" where
  "the_rec hook t x iv ctx =
     \<lparr>fr_ticker = t, fr_context = (if hook \<and> iv = 0 then 0 else ctx), fr_due = x, fr_time = x,
      fr_once = (iv = 0)\<rparr>"

lemma in_hand_keeps:
  assumes wf: "wf U c m" and n: "n \<in> set (tm_lists m s)"
    and nd: "tm_nodes m n = Some nd" "nd_ticker nd = Some t'" and t: "t' \<noteq> t"
  shows "keeps t m (in_hand n m)"
proof -
  from wf have l: "wf_links U m" by (simp add: wf_def)
  have "tk_node (tm_tickers m t) \<noteq> Some n"
  proof
    assume "tk_node (tm_tickers m t) = Some n"
    then have "nd_ticker nd = Some t" using nd by (simp add: wf_ticker [OF l])
    with nd t show False by simp
  qed
  with nd t show ?thesis by (auto simp: keeps_def in_hand_def detach_once_def link_remove_def
        split: option.splits)
qed

lemma in_hand_fields:
  "tm_hook (in_hand n m) = tm_hook m" "tm_fired (in_hand n m) = tm_fired m"
  "tm_time (in_hand n m) = tm_time m" "tm_temp (in_hand n m) = tm_temp m"
  by (auto simp: in_hand_def detach_once_def link_remove_def split: option.splits)

lemma after_callback_keeps:
  assumes "tk_node (tm_tickers m t) \<noteq> Some n"
  shows "keeps t m (after_callback n m)"
  using assms by (auto simp: keeps_def after_callback_def split: option.splits)

lemma after_callback_fields:
  "tm_hook (after_callback n m) = tm_hook m" "tm_fired (after_callback n m) = tm_fired m"
  by (auto simp: after_callback_def split: option.splits)

lemma fire_step_other:
  assumes inv: "fire_inv T c F m" and ne: "tm_lists m (Near (near_pos T)) = n # ns"
    and nd: "tm_nodes m n = Some nd" "nd_ticker nd = Some t'" and t: "t' \<noteq> t"
    and cb: "leaves_alone cb t"
  shows "keeps t m (fire_step cb (near_pos T) m)" "recs t (fire_step cb (near_pos T) m) = recs t m"
    "tm_hook (fire_step cb (near_pos T) m) = tm_hook m"
proof -
  from inv have wf: "wf (set (tm_temp m)) c m" by (simp add: fire_inv_def)
  have nl: "n \<in> set (tm_lists m (Near (near_pos T)))" by (simp add: ne)
  let ?h = "in_hand n m" and ?nd = "nd\<lparr>nd_place := None\<rparr>"
  let ?r = "run_callback cb t' ?nd ?h"
  note k1 = in_hand_keeps [OF wf nl nd t]
  note h = in_hand_wf [OF wf nl nd]
  note r = run_callback_keeps [OF h(1) cb]
  have k2: "keeps t m ?r" by (rule keeps_trans [OF k1 r(1)])
  have "tk_node (tm_tickers m t) \<noteq> Some n"
    using wf_ticker [of "set (tm_temp m)" m t n] wf nd t by (auto simp: wf_def)
  then have "tk_node (tm_tickers ?r t) \<noteq> Some n" using k2 by (simp add: keeps_def)
  from keeps_trans [OF k2 after_callback_keeps [OF this]]
  have "keeps t m (after_callback n ?r)" .
  then show "keeps t m (fire_step cb (near_pos T) m)"
    by (simp only: fire_step_in_hand [OF wf ne nd])
  show "recs t (fire_step cb (near_pos T) m) = recs t m"
    using r(2) [OF t] by (simp add: fire_step_in_hand [OF wf ne nd] recs_def after_callback_fields in_hand_fields)
  show "tm_hook (fire_step cb (near_pos T) m) = tm_hook m"
    by (simp add: fire_step_in_hand [OF wf ne nd] after_callback_fields in_hand_fields r(4))
qed

text \<open>The step that runs the callback of \<open>t\<close> itself.\<close>

lemma fire_step_mine:
  assumes inv: "fire_inv T c F m" and ne: "tm_lists m (Near (near_pos T)) = n # ns"
    and nd: "tm_nodes m n = Some nd" "nd_ticker nd = Some t" and cb: "leaves_alone cb t"
    and p: "pending t T iv ctx m"
  shows "recs t (fire_step cb (near_pos T) m) = recs t m @ [the_rec (tm_hook m) t T iv ctx]"
    and "tm_hook (fire_step cb (near_pos T) m) = tm_hook m"
    and "if iv = 0 then idle t (fire_step cb (near_pos T) m)
         else pending t (T + int iv) iv ctx (fire_step cb (near_pos T) m)"
proof -
  from inv have wf: "wf (set (tm_temp m)) c m" and T: "tm_time m = T" by (simp_all add: fire_inv_def)
  have nl: "n \<in> set (tm_lists m (Near (near_pos T)))" by (simp add: ne)
  have tn: "tk_node (tm_tickers m t) = Some n"
    using wf_ticker [of "set (tm_temp m)" m t n] wf nd by (auto simp: wf_def)
  with p nd have ndf: "nd_next nd = T" "nd_interval nd = iv" "nd_context nd = ctx"
    and tcb: "tk_callback (tm_tickers m t)" by (auto simp: pending_def)
  let ?h = "in_hand n m" and ?nd = "nd\<lparr>nd_place := None\<rparr>"
  let ?r = "run_callback cb t ?nd ?h"
  note h = in_hand_wf [OF wf nl nd]
  have htk: "tm_tickers ?h t = (if iv = 0 then (tm_tickers m t)\<lparr>tk_node := None\<rparr> else tm_tickers m t)"
    using nd ndf by (auto simp: in_hand_def detach_once_def link_remove_def split: option.splits)
  have "call_context t ?nd ?h = Some (if tm_hook m \<and> iv = 0 then 0 else ctx)"
    using htk tcb tn h(3) ndf
    by (auto simp: call_context_def tickerCallback_def getContext_def in_hand_fields)
  note r = run_callback_keeps(1,4) [OF h(1) cb, where t' = t and nd = ?nd]
    run_callback_keeps(3) [OF h(1) cb this]
  show "recs t (fire_step cb (near_pos T) m) = recs t m @ [the_rec (tm_hook m) t T iv ctx]"
    using r(3) ndf T
    by (simp add: fire_step_in_hand [OF wf ne nd] recs_def after_callback_fields in_hand_fields the_rec_def)
  show "tm_hook (fire_step cb (near_pos T) m) = tm_hook m"
    by (simp add: fire_step_in_hand [OF wf ne nd] after_callback_fields in_hand_fields r(2))
  have rtk: "tm_tickers ?r t = tm_tickers ?h t" using r(1) by (simp add: keeps_def)
  show "if iv = 0 then idle t (fire_step cb (near_pos T) m)
         else pending t (T + int iv) iv ctx (fire_step cb (near_pos T) m)"
  proof (cases "iv = 0")
    case True
    then show ?thesis using rtk htk
      by (auto simp: fire_step_in_hand [OF wf ne nd] idle_def after_callback_def split: option.splits)
  next
    case False
    then have "tm_nodes ?r n = Some (?nd\<lparr>nd_ticker := Some t\<rparr>)"
      using r(1) htk tn h(3) ndf by (simp add: keeps_def)
    with False rtk htk tn tcb ndf show ?thesis
      by (auto simp: fire_step_in_hand [OF wf ne nd] pending_def after_callback_def)
  qed
qed

definition settled :: "nat \<Rightarrow> int \<Rightarrow> nat \<Rightarrow> nat \<Rightarrow> ticker_mgr \<Rightarrow> bool" where
  "settled t x iv ctx m = (if iv = 0 then idle t m else pending t (x + int iv) iv ctx m)"

lemma fire_step_ticker:
  assumes inv: "fire_inv T c F m" and ne: "tm_lists m (Near (near_pos T)) \<noteq> []"
    and cb: "leaves_alone cb t"
  defines "m' \<equiv> fire_step cb (near_pos T) m"
  shows "tm_hook m' = tm_hook m"
    and "idle t m \<Longrightarrow> idle t m' \<and> recs t m' = recs t m"
    and "pending t x iv ctx m \<Longrightarrow> x \<noteq> T \<Longrightarrow> pending t x iv ctx m' \<and> recs t m' = recs t m"
    and "pending t T iv ctx m \<Longrightarrow> pending t T iv ctx m' \<and> recs t m' = recs t m \<or>
           settled t T iv ctx m' \<and> recs t m' = recs t m @ [the_rec (tm_hook m) t T iv ctx]"
proof -
  from inv have wf: "wf (set (tm_temp m)) c m" and T: "tm_time m = T" by (simp_all add: fire_inv_def)
  obtain n ns where l: "tm_lists m (Near (near_pos T)) = n # ns"
    using ne by (cases "tm_lists m (Near (near_pos T))") auto
  obtain nd where nd0: "tm_nodes m n = Some nd" "nd_place nd = Some (Near (near_pos T))"
    "nd_ticker nd \<noteq> None" using hd_linked [OF wf ne] unfolding l list.sel .
  then obtain t' where nd: "nd_ticker nd = Some t'" by auto
  have due: "nd_next nd = T" using near_due [OF wf nd0(1)] nd0(2) T by simp
  have tn: "tk_node (tm_tickers m t') = Some n"
    using wf_ticker [of "set (tm_temp m)" m t' n] wf nd0(1) nd by (auto simp: wf_def)
  have "tm_hook m' = tm_hook m \<and> (idle t m \<longrightarrow> idle t m' \<and> recs t m' = recs t m) \<and>
    (\<forall>x iv ctx. pending t x iv ctx m \<longrightarrow> x \<noteq> T \<longrightarrow> pending t x iv ctx m' \<and> recs t m' = recs t m) \<and>
    (\<forall>iv ctx. pending t T iv ctx m \<longrightarrow> pending t T iv ctx m' \<and> recs t m' = recs t m \<or>
       settled t T iv ctx m' \<and> recs t m' = recs t m @ [the_rec (tm_hook m) t T iv ctx])"
  proof (cases "t' = t")
    case True
    note nd' = nd [unfolded True]
    have p: "pending t x iv ctx m \<Longrightarrow> x = T" for x iv ctx
      using tn nd0(1) due True by (simp add: pending_def)
    have "\<not> idle t m" using tn True by (simp add: idle_def)
    moreover have "tm_hook m' = tm_hook m"
      unfolding m'_def fire_step_in_hand [OF wf l nd0(1) nd']
      using run_callback_keeps(4) [OF in_hand_wf(1) [OF wf _ nd0(1) nd', of "Near (near_pos T)"] cb]
      by (simp add: after_callback_fields in_hand_fields l)
    ultimately show ?thesis
      using p fire_step_mine [OF inv l nd0(1) nd' cb] unfolding m'_def settled_def by blast
  next
    case False
    note o = fire_step_other [OF inv l nd0(1) nd False cb]
    then show ?thesis using keeps_pending [OF o(1)] keeps_idle [OF o(1)] unfolding m'_def by blast
  qed
  then show "tm_hook m' = tm_hook m"
    and "idle t m \<Longrightarrow> idle t m' \<and> recs t m' = recs t m"
    and "pending t x iv ctx m \<Longrightarrow> x \<noteq> T \<Longrightarrow> pending t x iv ctx m' \<and> recs t m' = recs t m"
    and "pending t T iv ctx m \<Longrightarrow> pending t T iv ctx m' \<and> recs t m' = recs t m \<or>
           settled t T iv ctx m' \<and> recs t m' = recs t m @ [the_rec (tm_hook m) t T iv ctx]"
    by blast+
qed

text \<open>The whole loop.\<close>

lemma fire_all_ticker:
  assumes r: "fire_all cb (near_pos T) m = Some m'" and inv: "fire_inv T c F m" and cb: "leaves_alone cb t"
  shows "tm_hook m' = tm_hook m"
    and "idle t m \<Longrightarrow> idle t m' \<and> recs t m' = recs t m"
    and "pending t x iv ctx m \<Longrightarrow> x \<noteq> T \<Longrightarrow> pending t x iv ctx m' \<and> recs t m' = recs t m"
    and "pending t T iv ctx m \<Longrightarrow> pending t T iv ctx m' \<and> recs t m' = recs t m \<or>
           settled t T iv ctx m' \<and> recs t m' = recs t m @ [the_rec (tm_hook m) t T iv ctx]"
proof -
  note step = fire_step_inv fire_step_ticker [OF _ _ cb]
  have loop: "Q m'" if "Q m" and "\<And>s. fire_inv T c F s \<Longrightarrow> tm_lists s (Near (near_pos T)) \<noteq> [] \<Longrightarrow>
      Q s \<Longrightarrow> Q (fire_step cb (near_pos T) s)" for Q
  proof -
    have "fire_inv T c F m' \<and> Q m'"
      by (rule while_option_rule [where P = "\<lambda>s. fire_inv T c F s \<and> Q s", OF _ r [unfolded fire_all_def]])
         (use that inv fire_step_inv in blast)+
    then show ?thesis ..
  qed
  show "tm_hook m' = tm_hook m" by (rule loop) (simp_all add: step(2))
  show "idle t m' \<and> recs t m' = recs t m" if "idle t m"
    by (rule loop) (use that step(3) in auto)
  show "pending t x iv ctx m' \<and> recs t m' = recs t m" if "pending t x iv ctx m" "x \<noteq> T"
    by (rule loop) (use that step(4) in auto)
  show "pending t T iv ctx m' \<and> recs t m' = recs t m \<or>
           settled t T iv ctx m' \<and> recs t m' = recs t m @ [the_rec (tm_hook m) t T iv ctx]"
    if p: "pending t T iv ctx m"
  proof -
    let ?Q = "\<lambda>s. tm_hook s = tm_hook m \<and> (pending t T iv ctx s \<and> recs t s = recs t m \<or>
        settled t T iv ctx s \<and> recs t s = recs t m @ [the_rec (tm_hook m) t T iv ctx])"
    have "?Q m'"
    proof (rule loop)
      fix s assume fi: "fire_inv T c F s" and ne: "tm_lists s (Near (near_pos T)) \<noteq> []" and Q: "?Q s"
      note st = step(2-) [OF fi ne]
      from Q consider "pending t T iv ctx s" "recs t s = recs t m"
        | "settled t T iv ctx s" "recs t s = recs t m @ [the_rec (tm_hook m) t T iv ctx]" by blast
      then show "?Q (fire_step cb (near_pos T) s)"
      proof cases
        case 1
        then show ?thesis using st(1) st(4) [OF 1(1)] Q by auto
      next
        case 2
        show ?thesis
        proof (cases "iv = 0")
          case True
          with 2 st(1,2) Q show ?thesis by (simp add: settled_def)
        next
          case False
          with 2 st(1,3) Q show ?thesis by (simp add: settled_def)
        qed
      qed
    qed (use p in blast)
    then show ?thesis by blast
  qed
qed

subsection \<open>The tick, seen from one timer\<close>

lemma pending_same_timers:
  assumes "same_timers m m'"
  shows "pending t x iv ctx m \<Longrightarrow> pending t x iv ctx m'" and "idle t m \<Longrightarrow> idle t m'"
    and "recs t m' = recs t m"
proof -
  note f = same_timers_fields [OF assms]
  show "pending t x iv ctx m \<Longrightarrow> pending t x iv ctx m'"
    unfolding pending_def using same_timers_node(2) [OF assms] f by fastforce
  show "idle t m \<Longrightarrow> idle t m'" "recs t m' = recs t m" using f by (simp_all add: idle_def recs_def)
qed

lemma temp_pending [simp]:
  "pending t x iv ctx (m\<lparr>tm_temp := z\<rparr>) = pending t x iv ctx m" "idle t (m\<lparr>tm_temp := z\<rparr>) = idle t m"
  "recs t (m\<lparr>tm_temp := z\<rparr>) = recs t m" "pending t x iv ctx (m\<lparr>tm_time := u\<rparr>) = pending t x iv ctx m"
  "idle t (m\<lparr>tm_time := u\<rparr>) = idle t m" "recs t (m\<lparr>tm_time := u\<rparr>) = recs t m"
  by (simp_all add: pending_def idle_def recs_def)

lemma reinsert_pending:
  assumes "back_inv T c U m" and "n \<in> U"
  shows "pending t x iv ctx m \<Longrightarrow> pending t x iv ctx (reinsert_one n m)"
    and "idle t m \<Longrightarrow> idle t (reinsert_one n m)" and "recs t (reinsert_one n m) = recs t m"
proof -
  note r = reinsert_one_inv [OF assms]
  show "pending t x iv ctx (reinsert_one n m)" if p: "pending t x iv ctx m"
  proof -
    from p obtain k nd where k: "tk_node (tm_tickers m t) = Some k" "tm_nodes m k = Some nd"
      by (auto simp: pending_def)
    then have "nd_ticker nd \<noteq> None"
      using wf_ticker [of U m t k] assms(1) by (auto simp: back_inv_def wf_def)
    then have "\<exists>s. tm_nodes (reinsert_one n m) k = Some (nd\<lparr>nd_place := s\<rparr>)"
    proof (cases "k = n")
      case True
      with r(5) [of nd] k \<open>nd_ticker nd \<noteq> None\<close> show ?thesis by auto
    next
      case False
      with r(2) [OF False] k show ?thesis by (auto intro!: exI [of _ "nd_place nd"])
    qed
    with p k r(4) show ?thesis by (auto simp: pending_def)
  qed
qed (use reinsert_one_inv [OF assms] in \<open>simp_all add: idle_def recs_def\<close>)

lemma reinsert_all_pending:
  "back_inv T c (set ns) m \<Longrightarrow> distinct ns \<Longrightarrow>
     (pending t x iv ctx m \<longrightarrow> pending t x iv ctx (fold reinsert_one ns m)) \<and>
     (idle t m \<longrightarrow> idle t (fold reinsert_one ns m)) \<and>
     recs t (fold reinsert_one ns m) = recs t m \<and> tm_hook (fold reinsert_one ns m) = tm_hook m"
proof (induction ns arbitrary: m)
  case (Cons n ns)
  have b: "back_inv T c (set ns) (reinsert_one n m)"
    using reinsert_one_inv(1) [of T c "set (n # ns)" m n] Cons.prems by simp
  have n: "n \<in> set (n # ns)" by simp
  show ?case
    using Cons.IH [OF b] Cons.prems(2) reinsert_pending [OF Cons.prems(1) n]
      reinsert_one_inv(6) [OF Cons.prems(1) n] by simp
qed simp

lemma tick_ticker:
  assumes tk: "tick cb m = Some m'" and inv: "wheel_inv m" and cb: "leaves_alone cb t"
  shows "tm_hook m' = tm_hook m"
    and "idle t m \<Longrightarrow> idle t m' \<and> recs t m' = recs t m"
    and "pending t x iv ctx m \<Longrightarrow> x \<noteq> tm_time m \<Longrightarrow> pending t x iv ctx m' \<and> recs t m' = recs t m"
    and "pending t (tm_time m) iv ctx m \<Longrightarrow> settled t (tm_time m) iv ctx m' \<and>
           recs t m' = recs t m @ [the_rec (tm_hook m) t (tm_time m) iv ctx]"
proof -
  let ?T = "tm_time m"
  obtain m1 m2 K where same: "same_timers m m1"
    and w: "wf {} (thr K ?T) m1"
    and m2: "fire_all cb (near_pos ?T) (m1\<lparr>tm_temp := []\<rparr>) = Some m2"
    and fi: "fire_inv ?T (thr K ?T) (tm_fired m) m2"
    and e: "tm_lists m2 (Near (near_pos ?T)) = []"
    and m': "m' = (fold reinsert_one (tm_temp m2) m2)\<lparr>tm_time := ?T + 1\<rparr>"
    using tick_stages [OF tk inv] by metis
  note f = same_timers_fields [OF same]
  have fi0: "fire_inv ?T (thr K ?T) (tm_fired m) (m1\<lparr>tm_temp := []\<rparr>)"
    using w f by (simp add: fire_inv_def)
  note a = fire_all_ticker [OF m2 fi0 cb] and p = pending_same_timers [OF same]
  have b: "back_inv ?T (thr K ?T) (set (tm_temp m2)) m2" and d: "distinct (tm_temp m2)"
    using fi e by (simp_all add: fire_inv_def back_inv_def)
  note r = reinsert_all_pending [OF b d]
  show "tm_hook m' = tm_hook m" using r a(1) f m' by simp
  show "idle t m \<Longrightarrow> idle t m' \<and> recs t m' = recs t m"
    using r p(2,3) a(2) m' by simp
  show "pending t x iv ctx m' \<and> recs t m' = recs t m" if pd: "pending t x iv ctx m" "x \<noteq> ?T"
  proof -
    have "pending t x iv ctx (m1\<lparr>tm_temp := []\<rparr>)" using p(1) pd(1) by simp
    from a(3) [OF this pd(2)] show ?thesis using r p(3) m' by simp
  qed
  have notnow: "\<not> pending t ?T iv ctx m'" for iv ctx
  proof
    assume "pending t ?T iv ctx m'"
    then obtain n nd where nd: "tm_nodes m' n = Some nd" "nd_next nd = ?T" by (auto simp: pending_def)
    have "tm_time m' \<le> nd_next nd"
      using tick_result(1) [OF tk inv] wf_due [OF _ nd(1), of "\<lambda>_. tm_time m'"]
      by (simp add: wheel_inv_def wf_def)
    then show False using nd tick_result(2) [OF tk inv] by simp
  qed
  show "settled t ?T iv ctx m' \<and> recs t m' = recs t m @ [the_rec (tm_hook m) t ?T iv ctx]"
    if pd: "pending t ?T iv ctx m"
  proof -
    have "pending t ?T iv ctx (m1\<lparr>tm_temp := []\<rparr>)" using p(1) pd by simp
    from a(4) [OF this] consider "pending t ?T iv ctx m2"
      | "settled t ?T iv ctx m2" "recs t m2 = recs t m @ [the_rec (tm_hook m) t ?T iv ctx]"
      using p(3) f by auto
    then show ?thesis
    proof cases
      case 1
      with r m' have "pending t ?T iv ctx m'" by simp
      with notnow show ?thesis by blast
    next
      case 2
      with r m' show ?thesis by (simp add: settled_def split: if_splits)
    qed
  qed
qed

text \<open>A run of ticks.\<close>

lemma update_n_idle:
  assumes "update_n cb k m = Some m'" "wheel_inv m" "leaves_alone cb t" "idle t m"
  shows "idle t m' \<and> recs t m' = recs t m"
  using assms
proof (induction k arbitrary: m)
  case (Suc k)
  then obtain m1 where t: "tick cb m = Some m1" and u: "update_n cb k m1 = Some m'"
    by (auto simp: bind_eq_Some_conv')
  from tick_ticker(2) [OF t Suc.prems(2,3,4)] tick_result(1) [OF t Suc.prems(2)]
  show ?case using Suc.IH [OF u] Suc.prems(3) by simp
qed simp

lemma pending_due: "wheel_inv m \<Longrightarrow> pending t x iv ctx m \<Longrightarrow> tm_time m \<le> x"
  using wf_due by (auto simp: wheel_inv_def wf_def pending_def)

text \<open>The instants at which a timer due at \<open>x\<close> with interval \<open>iv\<close> fires in a span of time.\<close>

definition instants :: "int \<Rightarrow> nat \<Rightarrow> int \<Rightarrow> int \<Rightarrow> int list" where
  "instants x iv from till = filter (\<lambda>u. x \<le> u \<and> int iv dvd u - x) [from..till]"

lemma instants_step:
  assumes "from \<le> x" and "from \<le> till"
  shows "instants x iv from till =
     (if x = from then from # instants (x + int iv) iv (from + 1) till else instants x iv (from + 1) till)"
    (is "_ = ?rhs")
proof -
  have head: "[from..till] = from # [from + 1..till]" using assms(2) by (rule upto_rec1)
  have shift: "filter (\<lambda>u. x \<le> u \<and> int iv dvd u - x) [x + 1..till] =
      filter (\<lambda>u. x + int iv \<le> u \<and> int iv dvd u - (x + int iv)) [x + 1..till]"
  proof (rule filter_cong [OF refl])
    fix u assume "u \<in> set [x + 1..till]"
    then have u: "0 < u - x" by simp
    have "int iv dvd u - x \<longleftrightarrow> int iv dvd u - (x + int iv)"
      by (metis diff_diff_eq dvd_add_triv_right_iff diff_add_cancel)
    moreover have "int iv \<le> u - x" if "int iv dvd u - x" using zdvd_imp_le [OF that u] .
    ultimately show "(x \<le> u \<and> int iv dvd u - x) = (x + int iv \<le> u \<and> int iv dvd u - (x + int iv))"
      using u by auto
  qed
  show ?thesis using assms shift unfolding instants_def head by auto
qed

lemma update_n_periodic:
  assumes "update_n cb k m = Some m'" "wheel_inv m" "leaves_alone cb t" "pending t x iv ctx m" "0 < iv"
  shows "recs t m' = recs t m @
     map (\<lambda>u. the_rec (tm_hook m) t u iv ctx) (instants x iv (tm_time m) (tm_time m + int k - 1))"
  using assms
proof (induction k arbitrary: m x)
  case 0
  then show ?case by (simp add: instants_def)
next
  case (Suc k)
  then obtain m1 where t: "tick cb m = Some m1" and u: "update_n cb k m1 = Some m'"
    by (auto simp: bind_eq_Some_conv')
  note r = tick_result [OF t Suc.prems(2)] and p = tick_ticker [OF t Suc.prems(2,3)]
  note ih = Suc.IH [OF u r(1) Suc.prems(3) _ Suc.prems(5)]
  have st: "instants x iv (tm_time m) (tm_time m + int (Suc k) - 1) =
     (if x = tm_time m then tm_time m # instants (x + int iv) iv (tm_time m + 1) (tm_time m + int k)
      else instants x iv (tm_time m + 1) (tm_time m + int k))"
    using instants_step [of "tm_time m" x "tm_time m + int k" iv] pending_due [OF Suc.prems(2,4)] by simp
  show ?case
  proof (cases "x = tm_time m")
    case True
    with p(4) Suc.prems(4,5) have "pending t (x + int iv) iv ctx m1"
      "recs t m1 = recs t m @ [the_rec (tm_hook m) t x iv ctx]" by (auto simp: settled_def)
    with ih [of "x + int iv"] True show ?thesis using st r(2) p(1) by simp
  next
    case False
    with p(3) Suc.prems(4) have "pending t x iv ctx m1" "recs t m1 = recs t m" by auto
    with ih [of x] False show ?thesis using st r(2) p(1) by simp
  qed
qed

lemma update_n_oneshot:
  assumes "update_n cb k m = Some m'" "wheel_inv m" "leaves_alone cb t" "pending t x 0 ctx m"
  shows "if x < tm_time m + int k
         then idle t m' \<and> recs t m' = recs t m @ [the_rec (tm_hook m) t x 0 ctx]
         else pending t x 0 ctx m' \<and> recs t m' = recs t m"
  using assms
proof (induction k arbitrary: m)
  case 0
  then show ?case using pending_due [OF 0(2,4)] by auto
next
  case (Suc k)
  then obtain m1 where t: "tick cb m = Some m1" and u: "update_n cb k m1 = Some m'"
    by (auto simp: bind_eq_Some_conv')
  note r = tick_result [OF t Suc.prems(2)] and p = tick_ticker [OF t Suc.prems(2,3)]
  show ?case
  proof (cases "x = tm_time m")
    case True
    with p(4) Suc.prems(4) have "idle t m1"
      "recs t m1 = recs t m @ [the_rec (tm_hook m) t x 0 ctx]" by (auto simp: settled_def)
    with update_n_idle [OF u r(1) Suc.prems(3)] True show ?thesis by simp
  next
    case False
    with p(3) Suc.prems(4) have "pending t x 0 ctx m1" "recs t m1 = recs t m" by auto
    with Suc.IH [OF u r(1) Suc.prems(3)] r(2) p(1) show ?thesis by (simp add: algebra_simps)
  qed
qed

end
