(* ===== verification/Ticker_Props.thy ===== *)
theory Ticker_Props imports Ticker_Exact begin

text \<open>
  What a client of the timer wheel may rely on, stated over the operations of
  \<open>Ticker_Mgr\<close> only: the states the manager can be in, when timers fire, that \<open>update\<close>
  returns, and the one situation in which it does not.
\<close>

text \<open>A manager in use: created without timers, then client calls and updates in any order.\<close>

inductive in_use :: "ticker_mgr \<Rightarrow> bool" where
  created: "\<forall>t. tk_node (tks t) = None \<Longrightarrow> in_use (tm_new nTime hook tks)"
| called: "in_use m \<Longrightarrow> in_use (client_op op m)"
| updated: "in_use m \<Longrightarrow> update cb nTime m = Some m' \<Longrightarrow> in_use m'"

lemma client_op_wheel_inv [inv_intros]: "wheel_inv m \<Longrightarrow> wheel_inv (client_op op m)"
  using client_op_wf client_op_frame unfolding wheel_inv_def frame_def by metis

lemma tm_new_wheel_inv [inv_intros]: "\<forall>t. tk_node (tks t) = None \<Longrightarrow> wheel_inv (tm_new nTime hook tks)"
  by (simp add: wheel_inv_def wf_def wf_links_def wf_times_def tm_new_def)

lemma update_wheel_inv [inv_intros]: "wheel_inv m \<Longrightarrow> update cb nTime m = Some m' \<Longrightarrow> wheel_inv m'"
  using update_n_result by (auto simp: update_def)

lemma in_use_wheel_inv: "in_use m \<Longrightarrow> wheel_inv m"
  by (induction rule: in_use.induct) (auto intro: inv_intros)


definition plain_ticker :: ticker where
  "plain_ticker = \<lparr>tk_node = None, tk_callback = True, tk_coroutine = False\<rparr>"


text \<open>
  C1: an update that returns has advanced the logic time past the given time, in a
  consistent wheel, and every callback it ran was run exactly at the time its timer was due.
\<close>

theorem update_fires_on_time:
  assumes "in_use m" and "update cb nTime m = Some m'" and "tm_time m \<le> nTime"
  shows "in_use m' \<and> tm_time m' = nTime + 1 \<and>
    (\<exists>new. tm_fired m' = tm_fired m @ new \<and>
       (\<forall>f\<in>set new. fr_due f = fr_time f \<and> tm_time m \<le> fr_time f \<and> fr_time f \<le> nTime))"
proof -
  from assms(2) have "update_n cb (nat (nTime + 1 - tm_time m)) m = Some m'" by (simp add: update_def)
  from update_n_result [OF this in_use_wheel_inv [OF assms(1)]] assms(3)
  have u: "tm_time m' = nTime + 1" "\<exists>new. tm_fired m' = tm_fired m @ new \<and>
     (\<forall>f\<in>set new. fr_due f = fr_time f \<and> tm_time m \<le> fr_time f \<and> fr_time f < tm_time m')"
    by auto
  have "\<exists>new. tm_fired m' = tm_fired m @ new \<and>
     (\<forall>f\<in>set new. fr_due f = fr_time f \<and> tm_time m \<le> fr_time f \<and> fr_time f \<le> nTime)"
    using u(2) unfolding u(1) zle_add1_eq_le [symmetric] .
  with u(1) in_use.updated [OF assms(1,2)] show ?thesis by blast
qed

text \<open>
  as long as the callbacks leave it alone, a periodic timer due at \<open>x\<close> fires, in an
  update to \<open>nTime\<close>, at the instants \<open>x\<close>, \<open>x + iv\<close>, \<open>x + 2 * iv\<close>, \<open>\<dots>\<close> up to \<open>nTime\<close>, once each, in
  this order, with the context it was registered with, and at no other time.
\<close>

theorem periodic_timer_exact:
  assumes "in_use m" and "update cb nTime m = Some m'" and "leaves_alone cb t"
    and "pending t x iv ctx m" and "0 < iv" and "tm_time m \<le> nTime"
  shows "filter (\<lambda>f. fr_ticker f = t) (tm_fired m') =
     filter (\<lambda>f. fr_ticker f = t) (tm_fired m) @
     map (\<lambda>u. \<lparr>fr_ticker = t, fr_context = ctx, fr_due = u, fr_time = u, fr_once = False\<rparr>)
       (filter (\<lambda>u. x \<le> u \<and> int iv dvd u - x) [tm_time m..nTime])"
proof -
  from assms(2) have "update_n cb (nat (nTime + 1 - tm_time m)) m = Some m'" by (simp add: update_def)
  from update_n_periodic [OF this in_use_wheel_inv [OF assms(1)] assms(3,4,5)] assms(5,6)
  show ?thesis by (simp add: recs_def instants_def the_rec_def)
qed

text \<open>
  a one-shot timer fires exactly once, at its due time, and is then unregistered; an
  update that does not reach its due time leaves it pending. With a manager callback (the way
  \<open>CCoreService\<close> uses the wheel) the context passed is 0, whatever it was registered with.
\<close>

theorem oneshot_timer_exact:
  assumes "in_use m" and "update cb nTime m = Some m'" and "leaves_alone cb t"
    and "pending t x 0 ctx m" and "tm_time m \<le> nTime"
  shows "filter (\<lambda>f. fr_ticker f = t) (tm_fired m') =
     filter (\<lambda>f. fr_ticker f = t) (tm_fired m) @
     (if x \<le> nTime then [\<lparr>fr_ticker = t, fr_context = (if tm_hook m then 0 else ctx),
        fr_due = x, fr_time = x, fr_once = True\<rparr>] else []) \<and>
    (if x \<le> nTime then idle t m' else pending t x 0 ctx m')"
proof -
  from assms(2) have "update_n cb (nat (nTime + 1 - tm_time m)) m = Some m'" by (simp add: update_def)
  from update_n_oneshot [OF this in_use_wheel_inv [OF assms(1)] assms(3,4)] assms(5)
  show ?thesis
    by (auto simp: recs_def the_rec_def split: if_splits)
qed

text \<open>
  C2: \<open>update\<close> returns when the callbacks register timers with delays of at least one
  millisecond and all delays and intervals are below \<open>2 ^ 40\<close> milliseconds (35 years); the far
  list is then never used.
\<close>

theorem update_terminates:
  assumes "in_use m" and "\<forall>t m. list_all short_op (cb t m)" and "tm_lists m Far = []"
    and "\<forall>n nd. tm_nodes m n = Some nd \<longrightarrow> int (nd_interval nd) < 2 ^ 40"
  shows "\<exists>m'. update cb nTime m = Some m' \<and> tm_lists m' Far = []"
proof -
  have "calm_rest [] m" using assms(3,4) by (simp add: calm_rest_def lev_span_def)
  moreover have "short_cb cb" using assms(2) by (simp add: short_cb_def)
  ultimately show ?thesis
    using update_n_returns [OF in_use_wheel_inv [OF assms(1)]] unfolding update_def calm_rest_def
    by blast
qed

text \<open>A manager with the two kinds of timers, and a client that registers a timer from a callback.\<close>

definition demo_mgr :: "bool \<Rightarrow> ticker_mgr" where
  "demo_mgr hook = client_op (OpRegister 2 5 0 8) (client_op (OpRegister 1 3 2 7)
     (tm_new 65530 hook (\<lambda>_. plain_ticker)))"

definition demo_cb :: "nat \<Rightarrow> ticker_mgr \<Rightarrow> ticker_op list" where
  "demo_cb t m = (if t = 1 then [OpRegister 3 1 0 6, OpUnregister 4] else [])"

lemmas demo_simps = demo_mgr_def tm_new_def registerTicker_def plain_ticker_def insertTicker_def
  link_push_def slot_for_cases lev_span_def near_pos_def TIME_NEAR_SIZE_def Let_def

lemma demo_in_use: "in_use (demo_mgr hook)"
  unfolding demo_mgr_def by (intro in_use.intros) (simp add: plain_ticker_def)

lemma demo_alone: "leaves_alone demo_cb 1" "leaves_alone demo_cb 2"
  by (simp_all add: leaves_alone_def demo_cb_def)

lemma demo_short: "\<forall>t m. list_all short_op (demo_cb t m)"
  by (simp add: demo_cb_def lev_span_def)

lemma demo_time: "tm_time (demo_mgr hook) = 65530"
  by (simp add: demo_simps)

lemma demo_far: "tm_lists (demo_mgr hook) Far = []"
  by (simp add: demo_simps)

lemma demo_intervals: "\<forall>n nd. tm_nodes (demo_mgr hook) n = Some nd \<longrightarrow> int (nd_interval nd) < 2 ^ 40"
  by (simp add: demo_simps)

lemma demo_pending: "pending 1 65533 2 7 (demo_mgr hook)" "pending 2 65535 0 8 (demo_mgr hook)"
  by (simp_all add: demo_simps pending_def)

lemma demo_fired: "tm_fired (demo_mgr hook) = []"
  by (simp add: demo_simps)

lemma demo_returns: "\<exists>m'. update demo_cb nTime (demo_mgr hook) = Some m'"
proof -
  have "calm_rest [] (demo_mgr hook)"
    using demo_far demo_intervals by (simp add: calm_rest_def lev_span_def)
  moreover have "short_cb demo_cb" using demo_short by (simp add: short_cb_def)
  ultimately show ?thesis
    using update_n_returns [OF in_use_wheel_inv [OF demo_in_use]] unfolding update_def by blast
qed

lemma update_terminates_witness:
  "\<exists>m'. update demo_cb 65540 (demo_mgr True) = Some m' \<and> tm_lists m' Far = []"
  by (rule update_terminates [OF demo_in_use demo_short demo_far demo_intervals])

lemma update_fires_on_time_witness:
  "\<exists>m'. update demo_cb 65540 (demo_mgr True) = Some m' \<and> tm_time m' = 65541 \<and>
     (\<forall>f\<in>set (tm_fired m'). fr_due f = fr_time f)"
proof -
  obtain m' where u: "update demo_cb 65540 (demo_mgr True) = Some m'" using demo_returns by blast
  from update_fires_on_time [OF demo_in_use u] u show ?thesis by (auto simp: demo_time demo_fired)
qed

lemma periodic_timer_exact_witness:
  "\<exists>m'. update demo_cb 65538 (demo_mgr True) = Some m' \<and>
     map fr_time (filter (\<lambda>f. fr_ticker f = 1) (tm_fired m')) = [65533, 65535, 65537]"
proof -
  obtain m' where u: "update demo_cb 65538 (demo_mgr True) = Some m'" using demo_returns by blast
  have i: "filter (\<lambda>u. 65533 \<le> u \<and> int 2 dvd u - 65533) [65530..65538::int] = [65533, 65535, 65537]"
    by (simp add: upto_rec1)
  show ?thesis
    using periodic_timer_exact [OF demo_in_use u demo_alone(1) demo_pending(1)] u
    by (simp add: demo_time demo_fired i)
qed

lemma oneshot_timer_exact_witness:
  "\<exists>m'. update demo_cb 65538 (demo_mgr True) = Some m' \<and>
     map (\<lambda>f. (fr_time f, fr_context f)) (filter (\<lambda>f. fr_ticker f = 2) (tm_fired m')) = [(65535, 0)]"
proof -
  obtain m' where u: "update demo_cb 65538 (demo_mgr True) = Some m'" using demo_returns by blast
  have "tm_hook (demo_mgr True)" by (simp add: demo_simps)
  with oneshot_timer_exact [OF demo_in_use u demo_alone(2) demo_pending(2)] u
  show ?thesis by (simp add: demo_time demo_fired)
qed

text \<open>
  at a logic time that is a multiple of \<open>2 ^ 40\<close>, a timer still \<open>2 ^ 40\<close>
  milliseconds or more away keeps the cascade busy for ever: the loop over the far list puts it
  back on the list it is emptying, and the update does not return.
\<close>

theorem far_timer_hangs_update:
  assumes "in_use m" and "tm_time m mod 2 ^ 40 = 0" and "tm_time m \<le> nTime"
    and "tm_nodes m n = Some nd" and "nd_place nd = Some Far" and "tm_time m + 2 ^ 40 \<le> nd_next nd"
  shows "update cb nTime m = None"
proof -
  let ?T = "tm_time m"
  have turn: "?T mod lev_span 3 = 0" using assms(2) by (simp add: lev_span_def)
  have "cascadeTicker m = None"
    unfolding cascadeTicker_def
    by (rule cascade_stuck [OF turn, of 0 m n])
       (use assms in_use_wheel_inv [OF assms(1)] in \<open>auto simp: wheel_inv_def wf_thr_0 lev_span_def\<close>)
  moreover have "near_pos ?T = 0" using turn_below [OF turn, of 0] near_pos_eq [of ?T] by (simp add: lev_span_def)
  ultimately have "tick cb m = None" by (simp add: tick_def Let_def)
  moreover have "nat (nTime + 1 - ?T) = Suc (nat (nTime - ?T))" using assms(3) by linarith
  ultimately show ?thesis by (simp add: update_def)
qed

lemma far_timer_hangs_update_witness:
  "update demo_cb 3 (client_op (OpRegister 1 2199023255552 0 9) (tm_new 0 False (\<lambda>_. plain_ticker))) = None"
proof -
  let ?m = "client_op (OpRegister 1 2199023255552 0 9) (tm_new 0 False (\<lambda>_. plain_ticker))"
  let ?nd = "\<lparr>nd_place = Some Far, nd_ticker = Some 1, nd_next = 2199023255552, nd_interval = 0,
      nd_context = 9\<rparr>"
  have "in_use ?m" by (intro in_use.intros) (simp add: plain_ticker_def)
  moreover have "tm_nodes ?m 0 = Some ?nd" by (simp add: demo_simps)
  moreover have "tm_time ?m = 0" by (simp add: demo_simps)
  ultimately show ?thesis using far_timer_hangs_update [of ?m 3 0 ?nd demo_cb] by simp
qed

end
