(* ===== verification/Net_Buffer.thy ===== *)
theory Net_Buffer imports Prelude begin

text \<open>
  The buffers of a connection, \<open>engine/src/libBaseNetwork/net_buffer.cpp\<close>: the receive buffer
  \<open>CNetRecvBuffer\<close> (one array with a read and a write position), and the send buffer
  \<open>CNetSendBuffer\<close>, a chain of blocks with a list of blocks kept for reuse. Both are shown to be
  streams; the send buffer also keeps its block chain within its block size.

  An array is the list of its bytes. A chain of blocks linked by \<open>m_pNext\<close> is the list of the
  blocks, the head (the block being written) first, so \<open>m_pTail\<close> (the block being sent) is the
  last element and both pointers are null for the empty list.
\<close>

subsection \<open>The receive buffer\<close>

record recv_buffer =
  rb_buf :: "u8 list"      \<comment> \<open>\<open>m_pBuf\<close>, empty before \<open>init\<close>\<close>
  rb_read :: nat           \<comment> \<open>\<open>m_nReadPos\<close>\<close>
  rb_write :: nat          \<comment> \<open>\<open>m_nWritePos\<close>\<close>
  rb_size :: nat           \<comment> \<open>\<open>m_nBufSize\<close>\<close>
  rb_alive :: bool         \<comment> \<open>\<open>m_pBuf\<close> is not null\<close>

definition rb_new :: recv_buffer where
  "rb_new = \<lparr>rb_buf = [], rb_read = 0, rb_write = 0, rb_size = 0, rb_alive = False\<rparr>"

definition rb_init :: "nat \<Rightarrow> recv_buffer \<Rightarrow> bool \<times> recv_buffer" where
  "rb_init nBufSize b =
     (if rb_alive b then (False, b)
      else (True, b\<lparr>rb_size := nBufSize, rb_buf := replicate nBufSize 0, rb_alive := True\<rparr>))"

definition rb_readable :: "recv_buffer \<Rightarrow> nat" where
  "rb_readable b = rb_write b - rb_read b"

definition rb_writable :: "recv_buffer \<Rightarrow> nat" where
  "rb_writable b = rb_size b - rb_write b"

text \<open>The bytes from \<open>getReadableBuffer\<close> on.\<close>

definition rb_data :: "recv_buffer \<Rightarrow> u8 list" where
  "rb_data b = take (rb_readable b) (drop (rb_read b) (rb_buf b))"

definition rb_resize :: "nat \<Rightarrow> recv_buffer \<Rightarrow> recv_buffer" where
  "rb_resize nSize b =
     (if nSize > rb_size b then
        b\<lparr>rb_buf := rb_data b @ replicate (nSize - rb_readable b) 0, rb_size := nSize,
          rb_write := rb_write b - rb_read b, rb_read := 0\<rparr>
      else b)"

definition rb_push :: "nat \<Rightarrow> recv_buffer \<Rightarrow> recv_buffer" where
  "rb_push nSize b =
     (if nSize \<le> rb_writable b then b\<lparr>rb_write := rb_write b + nSize\<rparr> else b)"

text \<open>Once the read position has passed the middle, the rest is moved to the front.\<close>

definition rb_pop :: "nat \<Rightarrow> recv_buffer \<Rightarrow> recv_buffer" where
  "rb_pop nSize b =
     (if nSize \<le> rb_readable b then
        (let b1 = b\<lparr>rb_read := rb_read b + nSize\<rparr>
         in if rb_read b1 > rb_size b div 2 then
              b1\<lparr>rb_buf := rb_data b1 @ drop (rb_readable b1) (rb_buf b1),
                 rb_write := rb_write b1 - rb_read b1, rb_read := 0\<rparr>
            else b1)
      else b)"

text \<open>What the socket does: it writes at \<open>getWritableBuffer\<close>, then the bytes are pushed.\<close>

definition rb_recv :: "u8 list \<Rightarrow> recv_buffer \<Rightarrow> recv_buffer" where
  "rb_recv bs b =
     rb_push (length bs)
       (b\<lparr>rb_buf := take (rb_write b) (rb_buf b) @ bs @ drop (rb_write b + length bs) (rb_buf b)\<rparr>)"

definition rb_inv :: "recv_buffer \<Rightarrow> bool" where
  "rb_inv b \<longleftrightarrow> rb_read b \<le> rb_write b \<and> rb_write b \<le> rb_size b \<and> length (rb_buf b) = rb_size b"

lemma rb_init_inv [inv_intros]: "rb_inv (snd (rb_init n rb_new))"
  by (simp add: rb_init_def rb_new_def rb_inv_def)

lemma length_rb_data [simp]: "rb_inv b \<Longrightarrow> length (rb_data b) = rb_readable b"
  by (auto simp: rb_inv_def rb_data_def rb_readable_def)

lemma rb_recv_inv [inv_intros]: "rb_inv b \<Longrightarrow> length bs \<le> rb_writable b \<Longrightarrow> rb_inv (rb_recv bs b)"
  by (auto simp: rb_inv_def rb_recv_def rb_push_def rb_writable_def)

lemma rb_recv_data [abs_simps]:
  "rb_inv b \<Longrightarrow> length bs \<le> rb_writable b \<Longrightarrow> rb_data (rb_recv bs b) = rb_data b @ bs"
proof -
  assume inv: "rb_inv b" and room: "length bs \<le> rb_writable b"
  then have le: "rb_read b \<le> rb_write b" "rb_write b + length bs \<le> length (rb_buf b)"
    by (auto simp: rb_inv_def rb_writable_def)
  have eq: "rb_recv bs b = b\<lparr>rb_buf := take (rb_write b) (rb_buf b) @ bs @ drop (rb_write b + length bs) (rb_buf b),
      rb_write := rb_write b + length bs\<rparr>"
    using room by (simp add: rb_recv_def rb_push_def rb_writable_def)
  have "rb_data (rb_recv bs b) = take (rb_write b + length bs - rb_read b) (drop (rb_read b)
      (take (rb_write b) (rb_buf b) @ bs @ drop (rb_write b + length bs) (rb_buf b)))"
    by (simp add: eq rb_data_def rb_readable_def)
  also have "\<dots> = rb_data b @ bs" unfolding rb_data_def rb_readable_def by (rule write_slice [OF le])
  finally show ?thesis .
qed

lemma rb_pop_inv [inv_intros]: "rb_inv b \<Longrightarrow> rb_inv (rb_pop n b)"
  by (auto simp: rb_inv_def rb_pop_def rb_readable_def rb_data_def Let_def)

lemma rb_pop_data [abs_simps]:
  "rb_inv b \<Longrightarrow> n \<le> rb_readable b \<Longrightarrow> rb_data (rb_pop n b) = drop n (rb_data b)"
  by (auto simp: rb_inv_def rb_pop_def rb_readable_def rb_data_def Let_def drop_take add.commute)

lemma rb_resize_inv [inv_intros]: "rb_inv b \<Longrightarrow> rb_inv (rb_resize n b)"
  by (auto simp: rb_inv_def rb_resize_def rb_readable_def rb_data_def)

lemma rb_resize_data [abs_simps]: "rb_inv b \<Longrightarrow> rb_data (rb_resize n b) = rb_data b"
  by (auto simp: rb_inv_def rb_resize_def rb_readable_def rb_data_def)

interpretation rb: stream rb_recv rb_pop rb_readable rb_data rb_inv
  "\<lambda>bs b. length bs \<le> rb_writable b"
  by unfold_locales (simp_all add: rb_recv_inv rb_pop_inv rb_recv_data rb_pop_data)

subsection \<open>The blocks of the send buffer\<close>

record send_block =
  bl_buf :: "u8 list"
  bl_read :: nat
  bl_write :: nat
  bl_size :: nat

definition bl_init :: "nat \<Rightarrow> send_block" where
  "bl_init nBufSize = \<lparr>bl_buf = replicate nBufSize 0, bl_read = 0, bl_write = 0, bl_size = nBufSize\<rparr>"

definition bl_reset :: "send_block \<Rightarrow> send_block" where
  "bl_reset b = b\<lparr>bl_write := 0, bl_read := 0\<rparr>"

definition bl_readable :: "send_block \<Rightarrow> nat" where
  "bl_readable b = bl_write b - bl_read b"

definition bl_writable :: "send_block \<Rightarrow> nat" where
  "bl_writable b = bl_size b - bl_write b"

definition bl_data :: "send_block \<Rightarrow> u8 list" where
  "bl_data b = take (bl_readable b) (drop (bl_read b) (bl_buf b))"

definition bl_push :: "u8 list \<Rightarrow> send_block \<Rightarrow> send_block" where
  "bl_push bs b =
     (if length bs \<le> bl_writable b then
        b\<lparr>bl_buf := take (bl_write b) (bl_buf b) @ bs @ drop (bl_write b + length bs) (bl_buf b),
          bl_write := bl_write b + length bs\<rparr>
      else b)"

definition bl_pop :: "nat \<Rightarrow> send_block \<Rightarrow> send_block" where
  "bl_pop nSize b = (if nSize \<le> bl_readable b then b\<lparr>bl_read := bl_read b + nSize\<rparr> else b)"

definition bl_inv :: "send_block \<Rightarrow> bool" where
  "bl_inv b \<longleftrightarrow> bl_read b \<le> bl_write b \<and> bl_write b \<le> bl_size b \<and> length (bl_buf b) = bl_size b"

lemma bl_init_inv [simp]: "bl_inv (bl_init n)" by (simp add: bl_inv_def bl_init_def)

lemma bl_reset_inv [simp]: "bl_inv b \<Longrightarrow> bl_inv (bl_reset b)" by (simp add: bl_inv_def bl_reset_def)

lemma bl_fresh_data [simp]: "bl_data (bl_init n) = []" "bl_data (bl_reset b) = []"
  by (simp_all add: bl_data_def bl_readable_def bl_init_def bl_reset_def)

lemma bl_size_simps [simp]: "bl_size (bl_init n) = n" "bl_size (bl_reset b) = bl_size b"
  "bl_size (bl_push bs b) = bl_size b" "bl_size (bl_pop k b) = bl_size b"
  by (simp_all add: bl_init_def bl_reset_def bl_push_def bl_pop_def)

lemma length_bl_data [simp]: "bl_inv b \<Longrightarrow> length (bl_data b) = bl_readable b"
  by (auto simp: bl_inv_def bl_data_def bl_readable_def)

lemma bl_push_inv [simp]: "bl_inv b \<Longrightarrow> bl_inv (bl_push bs b)"
  by (auto simp: bl_inv_def bl_push_def bl_writable_def)

lemma bl_push_data [simp]:
  "bl_inv b \<Longrightarrow> length bs \<le> bl_writable b \<Longrightarrow> bl_data (bl_push bs b) = bl_data b @ bs"
proof -
  assume inv: "bl_inv b" and room: "length bs \<le> bl_writable b"
  then have le: "bl_read b \<le> bl_write b" "bl_write b + length bs \<le> length (bl_buf b)"
    by (auto simp: bl_inv_def bl_writable_def)
  have eq: "bl_push bs b = b\<lparr>bl_buf := take (bl_write b) (bl_buf b) @ bs @ drop (bl_write b + length bs) (bl_buf b),
      bl_write := bl_write b + length bs\<rparr>"
    using room by (simp add: bl_push_def bl_writable_def)
  have "bl_data (bl_push bs b) = take (bl_write b + length bs - bl_read b) (drop (bl_read b)
      (take (bl_write b) (bl_buf b) @ bs @ drop (bl_write b + length bs) (bl_buf b)))"
    by (simp add: eq bl_data_def bl_readable_def)
  also have "\<dots> = bl_data b @ bs" unfolding bl_data_def bl_readable_def by (rule write_slice [OF le])
  finally show ?thesis .
qed

lemma bl_pop_inv [simp]: "bl_inv b \<Longrightarrow> bl_inv (bl_pop n b)"
  by (auto simp: bl_inv_def bl_pop_def bl_readable_def)

lemma bl_pop_data [simp]:
  "bl_inv b \<Longrightarrow> n \<le> bl_readable b \<Longrightarrow> bl_data (bl_pop n b) = drop n (bl_data b)"
  by (auto simp: bl_inv_def bl_pop_def bl_data_def bl_readable_def drop_take add.commute)

subsection \<open>The send buffer\<close>

record send_buffer =
  sb_block :: nat                  \<comment> \<open>\<open>m_nBuffBlockSize\<close>\<close>
  sb_chain :: "send_block list"    \<comment> \<open>from \<open>m_pHead\<close> to \<open>m_pTail\<close>\<close>
  sb_nouse :: "send_block list"    \<comment> \<open>from \<open>m_pNoUse\<close> on\<close>

definition sb_init :: "nat \<Rightarrow> send_buffer" where
  "sb_init nBufSize = \<lparr>sb_block = nBufSize, sb_chain = [], sb_nouse = [bl_init nBufSize]\<rparr>"

definition getBufferBlock :: "send_buffer \<Rightarrow> send_block \<times> send_buffer" where
  "getBufferBlock s =
     (case sb_nouse s of
        [] \<Rightarrow> (bl_init (sb_block s), s)
      | b # bs \<Rightarrow> (bl_reset b, s\<lparr>sb_nouse := bs\<rparr>))"

definition putBufferBlock :: "send_block \<Rightarrow> send_buffer \<Rightarrow> send_buffer" where
  "putBufferBlock b s = s\<lparr>sb_nouse := b # sb_nouse s\<rparr>"

text \<open>
  The loop of \<open>push\<close>: fill the head block, put a new one before it, go on with the rest. With
  a block size of 0 it would never end.
\<close>

partial_function (option) sb_fill :: "u8 list \<Rightarrow> send_buffer \<Rightarrow> send_buffer option" where
  "sb_fill bs s =
     (case sb_chain s of
        [] \<Rightarrow> Some s
      | h # t \<Rightarrow>
          if bl_writable h \<ge> length bs then Some (s\<lparr>sb_chain := bl_push bs h # t\<rparr>)
          else (let nFreeSize = bl_writable h;
                    h' = bl_push (take nFreeSize bs) h;
                    (b, s') = getBufferBlock (s\<lparr>sb_chain := h' # t\<rparr>)
                in sb_fill (drop nFreeSize bs) (s'\<lparr>sb_chain := b # h' # t\<rparr>)))"

definition sb_push :: "u8 list \<Rightarrow> send_buffer \<Rightarrow> send_buffer option" where
  "sb_push bs s =
     (if sb_chain s = [] then
        (let (b, s') = getBufferBlock s in sb_fill bs (s'\<lparr>sb_chain := [b]\<rparr>))
      else sb_fill bs s)"

text \<open>\<open>None\<close>: the null tail is dereferenced.\<close>

definition sb_pop :: "nat \<Rightarrow> send_buffer \<Rightarrow> send_buffer option" where
  "sb_pop nSize s =
     (if sb_chain s = [] then None
      else let t = last (sb_chain s)
           in if nSize \<le> bl_readable t then
                (let t' = bl_pop nSize t
                 in if bl_readable t' = 0
                    then Some (putBufferBlock t' (s\<lparr>sb_chain := butlast (sb_chain s)\<rparr>))
                    else Some (s\<lparr>sb_chain := butlast (sb_chain s) @ [t']\<rparr>))
              else Some s)"

definition getTailData :: "send_buffer \<Rightarrow> u8 list" where
  "getTailData s = (if sb_chain s = [] then [] else bl_data (last (sb_chain s)))"

definition getTailDataSize :: "send_buffer \<Rightarrow> nat" where
  "getTailDataSize s = (if sb_chain s = [] then 0 else bl_readable (last (sb_chain s)))"

definition getTotalReadableSize :: "send_buffer \<Rightarrow> nat" where
  "getTotalReadableSize s = fold (\<lambda>b n. n + bl_readable b) (sb_chain s) 0"

subsection \<open>Invariant and abstraction\<close>

definition sb_inv :: "send_buffer \<Rightarrow> bool" where
  "sb_inv s \<longleftrightarrow> 0 < sb_block s \<and>
     list_all (\<lambda>b. bl_inv b \<and> bl_size b = sb_block s) (sb_chain s) \<and>
     list_all (\<lambda>b. bl_inv b \<and> bl_size b = sb_block s) (sb_nouse s)"

definition sb_data :: "send_buffer \<Rightarrow> u8 list" where
  "sb_data s = concat (map bl_data (rev (sb_chain s)))"

definition sb_push_or :: "u8 list \<Rightarrow> send_buffer \<Rightarrow> send_buffer" where
  "sb_push_or bs s = (case sb_push bs s of None \<Rightarrow> s | Some s' \<Rightarrow> s')"

definition sb_pop_or :: "nat \<Rightarrow> send_buffer \<Rightarrow> send_buffer" where
  "sb_pop_or n s = (case sb_pop n s of None \<Rightarrow> s | Some s' \<Rightarrow> s')"

lemma sb_init_inv [inv_intros]: "0 < n \<Longrightarrow> sb_inv (sb_init n)"
  by (simp add: sb_inv_def sb_init_def)

lemma getBufferBlock_inv:
  assumes "sb_inv s" and "getBufferBlock s = (b, s')"
  shows "bl_inv b" "bl_size b = sb_block s" "bl_data b = []" "bl_writable b = sb_block s"
    "sb_chain s' = sb_chain s" "sb_inv s'" "sb_block s' = sb_block s"
  using assms by (auto simp: getBufferBlock_def sb_inv_def bl_writable_def bl_reset_def bl_init_def
      bl_inv_def bl_data_def bl_readable_def split: list.splits)

text \<open>
  Every block but the head one holds data, and a block without data is fresh; so an empty tail
  means an empty buffer.
\<close>

definition sb_packed :: "send_buffer \<Rightarrow> bool" where
  "sb_packed s \<longleftrightarrow>
     list_all (\<lambda>b. 0 < bl_readable b) (tl (sb_chain s)) \<and>
     list_all (\<lambda>b. 0 < bl_readable b \<or> bl_write b = 0) (sb_chain s)"

lemma packed_empty:
  assumes "sb_packed s" and "getTailDataSize s = 0"
  shows "sb_data s = []"
proof (cases "sb_chain s" rule: rev_cases)
  case (snoc bs b)
  with assms(2) have b: "bl_readable b = 0" by (simp add: getTailDataSize_def)
  have "bs = []"
  proof (rule ccontr)
    assume "bs \<noteq> []"
    then have "b \<in> set (tl (sb_chain s))" using snoc by (cases bs) auto
    with assms(1) b show False by (auto simp: sb_packed_def list_all_iff)
  qed
  with snoc b show ?thesis by (simp add: sb_data_def bl_data_def)
qed (simp add: sb_data_def)

lemma fresh_block:
  "getBufferBlock s = (b, s') \<Longrightarrow> bl_write b = 0 \<and> bl_read b = 0"
  by (auto simp: getBufferBlock_def bl_init_def bl_reset_def split: list.splits)

lemma bl_push_pos:
  assumes "bl_inv b" and "length bs \<le> bl_writable b" and "0 < bl_readable b \<or> bl_write b = 0"
  shows "0 < bl_readable (bl_push bs b) \<or> bl_write (bl_push bs b) = 0"
    and "bl_size b = length bs + bl_write b \<Longrightarrow> 0 < bl_size b \<Longrightarrow> 0 < bl_readable (bl_push bs b)"
  using assms by (auto simp: bl_inv_def bl_push_def bl_writable_def bl_readable_def)

text \<open>The loop ends and appends: each new block is empty, so every turn takes its size of bytes.\<close>

lemma sb_fill_spec:
  assumes "sb_inv s" and "sb_chain s \<noteq> []"
  shows "\<exists>s'. sb_fill bs s = Some s' \<and> sb_inv s' \<and> sb_data s' = sb_data s @ bs \<and>
           (sb_packed s \<longrightarrow> sb_packed s')"
  using assms
proof (induction "length bs + length bs + (if bl_writable (hd (sb_chain s)) = 0 then 1 else 0)"
    arbitrary: bs s rule: less_induct)
  case less
  obtain h t where c: "sb_chain s = h # t" using less.prems(2) by (cases "sb_chain s") auto
  from less.prems(1) c have h: "bl_inv h" "bl_size h = sb_block s" by (simp_all add: sb_inv_def)
  show ?case
  proof (cases "bl_writable h \<ge> length bs")
    case True
    have "sb_inv (s\<lparr>sb_chain := bl_push bs h # t\<rparr>)" using less.prems(1) c by (simp add: sb_inv_def)
    moreover have "sb_data (s\<lparr>sb_chain := bl_push bs h # t\<rparr>) = sb_data s @ bs"
      using h True c by (simp add: sb_data_def)
    moreover have "sb_packed s \<longrightarrow> sb_packed (s\<lparr>sb_chain := bl_push bs h # t\<rparr>)"
      using bl_push_pos(1) [OF h(1) True] c by (auto simp: sb_packed_def)
    ultimately show ?thesis using True c by (subst sb_fill.simps) simp
  next
    case False
    let ?n = "bl_writable h"
    let ?h = "bl_push (take ?n bs) h"
    let ?s = "s\<lparr>sb_chain := ?h # t\<rparr>"
    obtain b s1 where g: "getBufferBlock ?s = (b, s1)" by fastforce
    have inv: "sb_inv ?s" using less.prems(1) c by (simp add: sb_inv_def)
    note f = getBufferBlock_inv [OF inv g]
    let ?s1 = "s1\<lparr>sb_chain := b # ?h # t\<rparr>"
    have i1: "sb_inv ?s1" using f inv by (simp add: sb_inv_def)
    have pos: "0 < sb_block s" using less.prems(1) by (simp add: sb_inv_def)
    have "length (drop ?n bs) + length (drop ?n bs) + (if bl_writable (hd (sb_chain ?s1)) = 0 then 1 else 0)
        < length bs + length bs + (if bl_writable (hd (sb_chain s)) = 0 then 1 else 0)"
      using f(4) pos c False by auto
    from less.hyps [OF this i1] obtain s' where s': "sb_fill (drop ?n bs) ?s1 = Some s'" "sb_inv s'"
      "sb_data s' = sb_data ?s1 @ drop ?n bs" "sb_packed ?s1 \<longrightarrow> sb_packed s'" by auto
    have pk: "sb_packed s \<longrightarrow> sb_packed ?s1"
    proof
      assume p: "sb_packed s"
      then have ph: "0 < bl_readable h \<or> bl_write h = 0" using c by (simp add: sb_packed_def)
      have "0 < bl_readable ?h"
        by (rule bl_push_pos(2) [OF h(1) _ ph])
           (use h False pos in \<open>auto simp: bl_writable_def bl_inv_def\<close>)
      then show "sb_packed ?s1" using p fresh_block [OF g] c by (auto simp: sb_packed_def list_all_iff)
    qed
    have "sb_data ?s1 = sb_data s @ take ?n bs" using f(3) h c by (simp add: sb_data_def)
    then show ?thesis using s' pk False c g by (subst sb_fill.simps) (auto simp: Let_def)
  qed
qed

lemma sb_push_spec:
  assumes "sb_inv s"
  shows "\<exists>s'. sb_push bs s = Some s' \<and> sb_inv s' \<and> sb_data s' = sb_data s @ bs \<and>
           (sb_packed s \<longrightarrow> sb_packed s')"
proof (cases "sb_chain s = []")
  case True
  obtain b s1 where g: "getBufferBlock s = (b, s1)" by fastforce
  note f = getBufferBlock_inv [OF assms g]
  have "sb_inv (s1\<lparr>sb_chain := [b]\<rparr>)" using f by (simp add: sb_inv_def)
  moreover have "sb_data (s1\<lparr>sb_chain := [b]\<rparr>) = sb_data s" using f(3) True by (simp add: sb_data_def)
  moreover have "sb_packed (s1\<lparr>sb_chain := [b]\<rparr>)" using fresh_block [OF g] by (simp add: sb_packed_def)
  ultimately show ?thesis using sb_fill_spec [of "s1\<lparr>sb_chain := [b]\<rparr>" bs] g True
    by (auto simp: sb_push_def)
next
  case False
  then show ?thesis using sb_fill_spec [OF assms] by (simp add: sb_push_def)
qed

lemma sb_pop_spec:
  assumes "sb_inv s" and "n \<le> getTailDataSize s" and "sb_chain s \<noteq> []"
  shows "\<exists>s'. sb_pop n s = Some s' \<and> sb_inv s' \<and> sb_data s' = drop n (sb_data s)"
proof -
  obtain c t where c: "sb_chain s = c @ [t]" using assms(3) by (metis rev_exhaust)
  from assms(1,2) c have t: "bl_inv t" "bl_size t = sb_block s" "n \<le> bl_readable t"
    by (simp_all add: sb_inv_def getTailDataSize_def)
  have d: "sb_data s = bl_data t @ concat (map bl_data (rev c))" by (simp add: sb_data_def c)
  have l: "length (bl_data t) = bl_readable t" using t(1) by simp
  show ?thesis
  proof (cases "bl_readable (bl_pop n t) = 0")
    case True
    then have "bl_data (bl_pop n t) = []" using t by (simp add: bl_data_def)
    then have "drop n (bl_data t) = []" using t by simp
    with True t(3) l have "sb_data (s\<lparr>sb_chain := c\<rparr>) = drop n (sb_data s)"
      unfolding d by (simp add: sb_data_def)
    then show ?thesis using assms(1) c t True
      by (simp add: sb_pop_def Let_def putBufferBlock_def sb_inv_def sb_data_def)
  next
    case False
    have "sb_data (s\<lparr>sb_chain := c @ [bl_pop n t]\<rparr>) = drop n (sb_data s)"
      unfolding d using t l by (simp add: sb_data_def)
    then show ?thesis using assms(1) c t False
      by (simp add: sb_pop_def Let_def sb_inv_def)
  qed
qed

lemma sb_pop_or_spec:
  assumes "sb_inv s" and "n \<le> getTailDataSize s"
  shows "sb_inv (sb_pop_or n s)" and "sb_data (sb_pop_or n s) = drop n (sb_data s)"
proof -
  have "sb_inv (sb_pop_or n s) \<and> sb_data (sb_pop_or n s) = drop n (sb_data s)"
  proof (cases "sb_chain s = []")
    case True
    with assms show ?thesis by (simp add: sb_pop_or_def sb_pop_def getTailDataSize_def)
  next
    case False
    then show ?thesis using sb_pop_spec [OF assms False] by (auto simp: sb_pop_or_def)
  qed
  then show "sb_inv (sb_pop_or n s)" "sb_data (sb_pop_or n s) = drop n (sb_data s)" by simp_all
qed

lemma sb_pop_or_packed: "sb_packed s \<Longrightarrow> sb_packed (sb_pop_or n s)"
proof (cases "sb_chain s" rule: rev_cases)
  case (snoc bs b)
  assume p: "sb_packed s"
  have t: "set (tl bs) \<subseteq> set (tl (bs @ [b]))" by (cases bs) auto
  show ?thesis
  proof (cases "bl_readable (bl_pop n b) = 0")
    case True
    with p snoc t show ?thesis
      by (auto simp: sb_pop_or_def sb_pop_def Let_def putBufferBlock_def sb_packed_def list_all_iff)
  next
    case False
    have "set (tl (bs @ [bl_pop n b])) \<subseteq> insert (bl_pop n b) (set (tl (bs @ [b])))" by (cases bs) auto
    with False p snoc t show ?thesis
      by (auto simp: sb_pop_or_def sb_pop_def Let_def sb_packed_def list_all_iff)
  qed
qed (simp add: sb_pop_or_def sb_pop_def)

lemma sb_push_or_packed: "sb_inv s \<Longrightarrow> sb_packed s \<Longrightarrow> sb_packed (sb_push_or bs s)"
  using sb_push_spec [of s bs] by (auto simp: sb_push_or_def)

lemma sb_tail_le: "sb_inv s \<Longrightarrow> getTailDataSize s \<le> length (sb_data s)"
  by (cases "sb_chain s" rule: rev_cases)
     (auto simp: getTailDataSize_def sb_data_def sb_inv_def)

lemma getTotalReadableSize_eq: "sb_inv s \<Longrightarrow> getTotalReadableSize s = length (sb_data s)"
proof -
  have f: "fold (\<lambda>b n. n + bl_readable b) bs k = k + sum_list (map bl_readable bs)" for bs k
    by (induction bs arbitrary: k) auto
  have r: "length (concat (map bl_data (rev bs))) = sum_list (map bl_readable bs)"
    if "list_all bl_inv bs" for bs
    using that by (induction bs) auto
  assume "sb_inv s"
  then have "list_all bl_inv (sb_chain s)" by (auto simp: sb_inv_def list_all_iff)
  then show ?thesis by (simp add: getTotalReadableSize_def f sb_data_def r)
qed

interpretation sb: stream sb_push_or sb_pop_or getTailDataSize sb_data sb_inv "\<lambda>_ _. True"
proof unfold_locales
  fix s bs assume "sb_inv s"
  from sb_push_spec [OF this, of bs]
  show "sb_inv (sb_push_or bs s)" "sb_data (sb_push_or bs s) = sb_data s @ bs"
    by (auto simp: sb_push_or_def)
qed (simp_all add: sb_pop_or_spec sb_tail_le)

subsection \<open>What a connection gets from its buffers\<close>

text \<open>
  C5: the receive buffer hands the bytes of the socket on in the order they arrived and without
  loss, whatever the interleaving of arrivals and pops and however often the rest is moved to the
  front: what was popped, followed by what is readable, is what arrived.
\<close>

theorem recv_buffer_in_order:
  assumes "stream_run rb_recv rb_pop rb_readable rb_data (\<lambda>bs b. length bs \<le> rb_writable b) ops
             (snd (rb_init n rb_new)) = Some (arrived, popped, b)"
  shows "popped @ rb_data b = arrived \<and> rb_write b \<le> rb_size b \<and> length (rb_buf b) = rb_size b"
proof -
  have "rb_data (snd (rb_init n rb_new)) = []" by (simp add: rb_init_def rb_new_def rb_data_def rb_readable_def)
  with rb.stream_order [OF rb_init_inv assms] show ?thesis by (simp add: rb_inv_def)
qed

lemma recv_buffer_in_order_witness:
  "\<exists>b. stream_run rb_recv rb_pop rb_readable rb_data (\<lambda>bs b. length bs \<le> rb_writable b)
      [Push [1, 2, 3], Pop 3, Push [4, 5]] (snd (rb_init 4 rb_new)) = Some ([1, 2, 3, 4, 5], [1, 2, 3], b) \<and>
    rb_data b = [4, 5]"
proof -
  have "stream_run rb_recv rb_pop rb_readable rb_data (\<lambda>bs b. length bs \<le> rb_writable b)
      [Push [1, 2, 3], Pop 3, Push [4, 5]] (snd (rb_init 4 rb_new)) = Some ([1, 2, 3, 4, 5], [1, 2, 3],
        \<lparr>rb_buf = [4, 5, 3, 0], rb_read = 0, rb_write = 2, rb_size = 4, rb_alive = True\<rparr>)"
    by code_simp
  from recv_buffer_in_order [OF this] this show ?thesis by auto
qed

text \<open>
  the send buffer, with blocks of any positive size, sends the bytes in the order they were
  pushed and without loss, however the pushes are cut into blocks and whatever part of the tail
  block each send takes; the total readable size is what is left to send.
\<close>

theorem send_buffer_in_order:
  assumes "0 < n"
    and "stream_run sb_push_or sb_pop_or getTailDataSize sb_data (\<lambda>_ _. True) ops (sb_init n)
           = Some (pushed, taken, s)"
  shows "taken @ sb_data s = pushed \<and> getTotalReadableSize s + length taken = length pushed"
proof -
  have "sb_data (sb_init n) = []" by (simp add: sb_init_def sb_data_def)
  with sb.stream_order [OF sb_init_inv [OF assms(1)] assms(2)]
  have "sb_inv s" and d: "taken @ sb_data s = pushed" by simp_all
  then show ?thesis using getTotalReadableSize_eq [of s] d by auto
qed

lemma send_buffer_in_order_witness:
  "\<exists>s. stream_run sb_push_or sb_pop_or getTailDataSize sb_data (\<lambda>_ _. True)
      [Push [1, 2, 3], Pop 1] (sb_init 2) = Some ([1, 2, 3], [1], s) \<and> sb_data s = [2, 3]"
proof -
  have "sb_fill [3] \<lparr>sb_block = 2, sb_chain = [\<lparr>bl_buf = [0, 0], bl_read = 0, bl_write = 0, bl_size = 2\<rparr>,
      \<lparr>bl_buf = [1, 2], bl_read = 0, bl_write = 2, bl_size = 2\<rparr>], sb_nouse = []\<rparr> =
    Some \<lparr>sb_block = 2, sb_chain = [\<lparr>bl_buf = [3, 0], bl_read = 0, bl_write = 1, bl_size = 2\<rparr>,
      \<lparr>bl_buf = [1, 2], bl_read = 0, bl_write = 2, bl_size = 2\<rparr>], sb_nouse = []\<rparr>"
    by (subst sb_fill.simps) (simp add: bl_push_def bl_writable_def numeral_2_eq_2)
  then have "sb_push_or [1, 2, 3] (sb_init 2) =
    \<lparr>sb_block = 2, sb_chain = [\<lparr>bl_buf = [3, 0], bl_read = 0, bl_write = 1, bl_size = 2\<rparr>,
      \<lparr>bl_buf = [1, 2], bl_read = 0, bl_write = 2, bl_size = 2\<rparr>], sb_nouse = []\<rparr>"
    by (simp add: sb_push_or_def sb_push_def sb_init_def getBufferBlock_def bl_reset_def bl_init_def)
       (subst sb_fill.simps, simp add: bl_push_def bl_writable_def numeral_2_eq_2 Let_def
          getBufferBlock_def bl_init_def)
  then have "stream_run sb_push_or sb_pop_or getTailDataSize sb_data (\<lambda>_ _. True)
      [Push [1, 2, 3], Pop 1] (sb_init 2) = Some ([1, 2, 3], [1],
      \<lparr>sb_block = 2, sb_chain = [\<lparr>bl_buf = [3, 0], bl_read = 0, bl_write = 1, bl_size = 2\<rparr>,
      \<lparr>bl_buf = [1, 2], bl_read = 1, bl_write = 2, bl_size = 2\<rparr>], sb_nouse = []\<rparr>)"
    by (simp add: sb_pop_or_def sb_pop_def getTailDataSize_def sb_data_def bl_data_def bl_readable_def
        bl_pop_def Let_def)
  from send_buffer_in_order [OF _ this] this show ?thesis by auto
qed

text \<open>
  pushing to the send buffer always returns, with any positive block size: the loop that
  fills block after block takes bytes at every turn, and the bytes are appended.
\<close>

theorem send_push_returns:
  assumes "0 < n"
    and "stream_run sb_push_or sb_pop_or getTailDataSize sb_data (\<lambda>_ _. True) ops (sb_init n)
           = Some (pushed, taken, s)"
  shows "\<exists>s'. sb_push bs s = Some s' \<and> sb_data s' = sb_data s @ bs"
  using sb_push_spec sb.stream_order [OF sb_init_inv [OF assms(1)] assms(2)] by blast

lemma send_push_returns_witness: "\<exists>s'. sb_push [1, 2, 3, 4, 5] (sb_init 2) = Some s' \<and> sb_data s' = [1, 2, 3, 4, 5]"
  using send_push_returns [of 2 "[]" "[]" "[]" "sb_init 2" "[1, 2, 3, 4, 5]"]
  by (simp add: sb_init_def sb_data_def)

end
