(* ===== verification/Net_Connecter.thy ===== *)
theory Net_Connecter imports Net_Buffer begin

text \<open>
  The connection \<open>CNetConnecter\<close> of \<open>engine/src/libBaseNetwork/net_connecter.cpp\<close> with the
  closing protocol of \<open>net_socket.cpp\<close>: its state machine, the receive and send loops, and the
  direct, cached and flushed ways of sending.

  The kernel is an argument: a call of \<open>read\<close> or \<open>write\<close> takes its result from a list of results
  (an exhausted list means \<open>EAGAIN\<close>), and the outcomes of \<open>connect\<close>, \<open>getsockopt\<close> and of the
  address comparison are arguments of the operation. The handler of the connection is the record
  \<open>nc_handler\<close> of its callbacks: each may use the connection again, so it is a function on the
  whole state, which carries the handler's own data in \<open>nc_h\<close>. The fields \<open>nc_wire\<close>,
  \<open>nc_accepted\<close>, \<open>nc_arrived\<close> and \<open>nc_consumed\<close> record what the two sides have exchanged; the
  code does not have them.
\<close>

datatype nc_state = NCS_Connecting | NCS_Connected | NCS_Disconnecting | NCS_Disconnected
datatype nc_mode = NCM_Initiative | NCM_Passive | NCM_Unknown

record 'h connecter =
  nc_mode :: nc_mode
  nc_state :: nc_state
  nc_closeRecv :: bool         \<comment> \<open>\<open>eNCF_CloseRecv\<close> of \<open>m_nFlag\<close>\<close>
  nc_closeSend :: bool         \<comment> \<open>\<open>eNCF_CloseSend\<close>\<close>
  nc_disableWrite :: bool      \<comment> \<open>\<open>eNCF_DisableWrite\<close>\<close>
  nc_connectFail :: bool       \<comment> \<open>\<open>eNCF_ConnectFail\<close>\<close>
  nc_recv :: recv_buffer
  nc_send :: send_buffer
  nc_handler :: bool           \<comment> \<open>\<open>m_pHandler\<close> is not null\<close>
  nc_queued :: bool            \<comment> \<open>\<open>m_nSendConnecterIndex\<close> is valid: in the loop's send list\<close>
  nc_waitClose :: bool         \<comment> \<open>\<open>m_bWaitClose\<close>\<close>
  nc_closes :: nat             \<comment> \<open>how often it is in \<open>m_listCloseSocket\<close>\<close>
  nc_sndbuf :: nat             \<comment> \<open>\<open>m_nSendBufferSize\<close>\<close>
  nc_h :: 'h
  nc_wire :: "u8 list"
  nc_accepted :: "u8 list"
  nc_arrived :: "u8 list"
  nc_consumed :: "u8 list"

datatype read_result = RData "u8 list" | RAgain | RIntr | RError
datatype write_result = WTaken nat | WAgain | WIntr | WError

record 'h handler =
  h_onRecv :: "u8 list \<Rightarrow> 'h connecter \<Rightarrow> nat \<times> 'h connecter"
  h_onSendComplete :: "nat \<Rightarrow> 'h connecter \<Rightarrow> 'h connecter"
  h_onConnect :: "'h connecter \<Rightarrow> 'h connecter"
  h_onDisconnect :: "'h connecter \<Rightarrow> 'h connecter"
  h_onConnectFail :: "'h connecter \<Rightarrow> 'h connecter"

definition RECV_BUF_SIZE :: nat where "RECV_BUF_SIZE = 2048"
definition SEND_BUF_SIZE :: nat where "SEND_BUF_SIZE = 2048"

definition nc_new :: "nat \<Rightarrow> 'h \<Rightarrow> bool \<Rightarrow> 'h connecter" where
  "nc_new nSendBufferSize h hasHandler =
     \<lparr>nc_mode = NCM_Unknown, nc_state = NCS_Disconnected, nc_closeRecv = False, nc_closeSend = False,
      nc_disableWrite = True, nc_connectFail = False,
      nc_recv = snd (rb_init RECV_BUF_SIZE rb_new), nc_send = sb_init SEND_BUF_SIZE,
      nc_handler = hasHandler, nc_queued = False, nc_waitClose = False, nc_closes = 0,
      nc_sndbuf = nSendBufferSize, nc_h = h, nc_wire = [], nc_accepted = [], nc_arrived = [],
      nc_consumed = []\<rparr>"

subsection \<open>Closing\<close>

definition nc_close :: "'h connecter \<Rightarrow> 'h connecter" where
  "nc_close c =
     (if nc_waitClose c then c else c\<lparr>nc_closes := Suc (nc_closes c), nc_waitClose := True\<rparr>)"

definition nc_shutdown :: "bool \<Rightarrow> 'h connecter \<Rightarrow> 'h connecter" where
  "nc_shutdown bForce c =
     (if nc_state c = NCS_Disconnected then c
      else let c1 = c\<lparr>nc_state := NCS_Disconnecting, nc_closeSend := True\<rparr>
           in if bForce \<or> getTailDataSize (nc_send c1) = 0 then nc_close c1 else c1)"

subsection \<open>Sending\<close>

fun send_loop :: "write_result list \<Rightarrow> 'h connecter \<Rightarrow> 'h connecter" where
  "send_loop ws c =
     (let nDataSize = getTailDataSize (nc_send c); pData = getTailData (nc_send c)
      in if nDataSize = 0 then c
         else let c1 = c\<lparr>nc_disableWrite := False\<rparr>
              in case ws of
                   [] \<Rightarrow> c1\<lparr>nc_disableWrite := True\<rparr>
                 | WAgain # _ \<Rightarrow> c1\<lparr>nc_disableWrite := True\<rparr>
                 | WIntr # ws' \<Rightarrow> send_loop ws' c1
                 | WError # _ \<Rightarrow> nc_shutdown True c1
                 | WTaken k # ws' \<Rightarrow>
                     let nRet = min k nDataSize;
                         c2 = c1\<lparr>nc_send := sb_pop_or nRet (nc_send c1),
                                 nc_wire := nc_wire c1 @ take nRet pData\<rparr>
                     in if nRet \<noteq> nDataSize then c2 else send_loop ws' c2)"

declare send_loop.simps [simp del]

definition onSend :: "'h handler \<Rightarrow> write_result list \<Rightarrow> 'h connecter \<Rightarrow> 'h connecter" where
  "onSend h ws c =
     (let nTotalDataSize = getTotalReadableSize (nc_send c);
          c1 = send_loop ws c;
          c2 = (if nTotalDataSize \<noteq> 0 \<and> getTailDataSize (nc_send c1) = 0 \<and> nc_handler c1
                then h_onSendComplete h nTotalDataSize c1 else c1)
      in if nc_state c2 = NCS_Disconnecting \<and> getTailDataSize (nc_send c2) = 0
         then nc_close c2 else c2)"

text \<open>The \<open>do .. while\<close> on \<open>EINTR\<close> before a direct write.\<close>

fun skip_intr :: "write_result list \<Rightarrow> write_result list" where
  "skip_intr (WIntr # ws) = skip_intr ws"
| "skip_intr ws = ws"

definition nc_buffer :: "u8 list \<Rightarrow> 'h connecter \<Rightarrow> 'h connecter" where
  "nc_buffer bs c = c\<lparr>nc_send := sb_push_or bs (nc_send c), nc_accepted := nc_accepted c @ bs\<rparr>"

definition nc_write :: "u8 list \<Rightarrow> 'h connecter \<Rightarrow> 'h connecter" where
  "nc_write bs c = c\<lparr>nc_wire := nc_wire c @ bs, nc_accepted := nc_accepted c @ bs\<rparr>"

text \<open>\<open>send\<close> with \<open>bCache\<close> false, after the test of the state.\<close>

definition send_direct ::
    "'h handler \<Rightarrow> u8 list \<Rightarrow> write_result list \<Rightarrow> 'h connecter \<Rightarrow> bool \<times> 'h connecter" where
  "send_direct h bs ws c =
     (if getTailDataSize (nc_send c) = 0 then
        (case skip_intr ws of
           WError # _ \<Rightarrow> (False, nc_shutdown True c)
         | WTaken k # _ \<Rightarrow>
             let nRet = min k (length bs); c1 = nc_write (take nRet bs) c
             in (True, if nRet \<noteq> length bs then nc_buffer (drop nRet bs) c1
                       else if nc_handler c1 then h_onSendComplete h (length bs) c1 else c1)
         | _ \<Rightarrow>
             let c1 = c\<lparr>nc_disableWrite := True\<rparr>
             in (True, if bs \<noteq> [] then nc_buffer bs c1
                       else if nc_handler c1 then h_onSendComplete h 0 c1 else c1))
      else let c1 = nc_buffer bs c
           in (True, if \<not> nc_disableWrite c1 then onSend h ws c1 else c1))"

definition nc_send_data ::
    "'h handler \<Rightarrow> u8 list \<Rightarrow> bool \<Rightarrow> write_result list \<Rightarrow> 'h connecter \<Rightarrow> bool \<times> 'h connecter" where
  "nc_send_data h bs bCache ws c =
     (if nc_state c = NCS_Connecting \<or> nc_state c = NCS_Disconnected \<or>
         (nc_state c = NCS_Disconnecting \<and> nc_closeSend c)
      then (False, c)
      else if \<not> bCache then send_direct h bs ws c
      else if getTailDataSize (nc_send c) = 0 \<and> length bs \<ge> nc_sndbuf c then send_direct h bs ws c
      else let c1 = nc_buffer bs c
           in (True, if getTotalReadableSize (nc_send c1) \<ge> nc_sndbuf c1 \<and> \<not> nc_disableWrite c1
                     then onSend h ws c1 else c1\<lparr>nc_queued := True\<rparr>))"

text \<open>The flush of one connection of the send list in \<open>CNetEventLoop::update\<close>.\<close>

definition flush_queued :: "'h handler \<Rightarrow> write_result list \<Rightarrow> 'h connecter \<Rightarrow> 'h connecter" where
  "flush_queued h ws c = (if nc_queued c then (onSend h ws c)\<lparr>nc_queued := False\<rparr> else c)"

subsection \<open>Receiving\<close>

definition make_room :: "'h connecter \<Rightarrow> 'h connecter" where
  "make_room c =
     (if rb_writable (nc_recv c) = 0
      then c\<lparr>nc_recv := rb_resize (rb_size (nc_recv c) * 2) (nc_recv c)\<rparr> else c)"

definition peer_closed :: "'h connecter \<Rightarrow> 'h connecter" where
  "peer_closed c =
     (let c1 = c\<lparr>nc_closeRecv := True, nc_state := NCS_Disconnecting\<rparr>
      in if getTailDataSize (nc_send c1) = 0 then nc_close c1 else c1)"

definition take_in :: "u8 list \<Rightarrow> 'h connecter \<Rightarrow> 'h connecter" where
  "take_in bs c = c\<lparr>nc_recv := rb_recv bs (nc_recv c), nc_arrived := nc_arrived c @ bs\<rparr>"

definition hand_over :: "'h handler \<Rightarrow> 'h connecter \<Rightarrow> 'h connecter" where
  "hand_over h c =
     (if nc_handler c then
        (let (nSize, c1) = h_onRecv h (rb_data (nc_recv c)) c
         in c1\<lparr>nc_recv := rb_pop nSize (nc_recv c1),
               nc_consumed := nc_consumed c1 @
                 (if nSize \<le> rb_readable (nc_recv c1) then take nSize (rb_data (nc_recv c1)) else [])\<rparr>)
      else c)"

fun onRecv :: "'h handler \<Rightarrow> read_result list \<Rightarrow> 'h connecter \<Rightarrow> 'h connecter" where
  "onRecv h [] c = make_room c"
| "onRecv h (r # rs) c =
     (let c1 = make_room c
      in case r of
           RAgain \<Rightarrow> c1
         | RIntr \<Rightarrow> onRecv h rs c1
         | RError \<Rightarrow> nc_shutdown True c1
         | RData bs \<Rightarrow>
             (let d = take (rb_writable (nc_recv c1)) bs
              in if d = [] then peer_closed c1 else onRecv h rs (hand_over h (take_in d c1))))"

subsection \<open>Connecting and the event handler\<close>

text \<open>\<open>sockErr\<close>: \<open>None\<close> when \<open>getsockopt\<close> fails; \<open>self\<close>: the two addresses are the same.\<close>

definition onConnect :: "'h handler \<Rightarrow> int option \<Rightarrow> bool \<Rightarrow> 'h connecter \<Rightarrow> 'h connecter" where
  "onConnect h sockErr self c =
     (if nc_state c \<noteq> NCS_Connecting then c
      else let c1 = c\<lparr>nc_disableWrite := False\<rparr>
           in if (nc_mode c1 = NCM_Initiative \<and> sockErr \<noteq> Some 0) \<or> self
              then nc_shutdown True (c1\<lparr>nc_connectFail := True\<rparr>)
              else let c2 = c1\<lparr>nc_state := NCS_Connected\<rparr>
                   in if nc_handler c2 then h_onConnect h c2 else c2)"

datatype connect_result = ConnectNow | ConnectPending | ConnectError

text \<open>\<open>usable\<close>: the socket could be opened and configured.\<close>

definition nc_connect ::
    "'h handler \<Rightarrow> bool \<Rightarrow> connect_result \<Rightarrow> int option \<Rightarrow> bool \<Rightarrow> 'h connecter \<Rightarrow> bool \<times> 'h connecter" where
  "nc_connect h usable res sockErr self c =
     (if \<not> usable then (False, c)
      else case res of
             ConnectError \<Rightarrow> (False, c)
           | ConnectPending \<Rightarrow> (True, c\<lparr>nc_mode := NCM_Initiative, nc_state := NCS_Connecting\<rparr>)
           | ConnectNow \<Rightarrow>
               (True, onConnect h sockErr self (c\<lparr>nc_mode := NCM_Initiative, nc_state := NCS_Connected\<rparr>)))"

text \<open>A connection accepted by \<open>CNetAccepter::onEvent\<close>.\<close>

definition nc_accept :: "'h connecter \<Rightarrow> 'h connecter" where
  "nc_accept c = c\<lparr>nc_mode := NCM_Passive, nc_state := NCS_Connecting\<rparr>"

record net_event =
  ev_recv :: bool
  ev_send :: bool
  ev_error :: bool

definition onEvent ::
    "'h handler \<Rightarrow> net_event \<Rightarrow> read_result list \<Rightarrow> write_result list \<Rightarrow> int option \<Rightarrow> bool \<Rightarrow>
     'h connecter \<Rightarrow> 'h connecter" where
  "onEvent h ev rs ws sockErr self c =
     (case nc_state c of
        NCS_Connecting \<Rightarrow>
          let c1 = (if ev_send ev \<or> ev_error ev then onConnect h sockErr self c else c)
          in if nc_state c1 = NCS_Connected \<and> ev_recv ev then onRecv h rs c1 else c1
      | NCS_Disconnected \<Rightarrow> c
      | _ \<Rightarrow>
          if ev_error ev then nc_shutdown True c
          else let c1 = (if ev_recv ev \<and> \<not> nc_closeRecv c then onRecv h rs c else c)
               in if ev_send ev then onSend h ws c1 else c1)"

text \<open>The end of the connection; the object is deleted afterwards.\<close>

definition nc_release :: "'h handler \<Rightarrow> 'h connecter \<Rightarrow> 'h connecter" where
  "nc_release h c =
     (let bConnecting = (nc_state c = NCS_Connecting);
          c1 = c\<lparr>nc_state := NCS_Disconnected\<rparr>;
          c2 = (if nc_handler c1 then
                  (if \<not> nc_connectFail c1 \<and> \<not> bConnecting then h_onDisconnect h c1
                   else h_onConnectFail h c1)\<lparr>nc_handler := False\<rparr>
                else c1)
      in c2\<lparr>nc_queued := False\<rparr>)"

subsection \<open>The invariant of a connection\<close>

definition conn_ok :: "'h connecter \<Rightarrow> bool" where
  "conn_ok c \<longleftrightarrow>
     rb_inv (nc_recv c) \<and> 0 < rb_size (nc_recv c) \<and>
     sb_inv (nc_send c) \<and> sb_packed (nc_send c) \<and>
     nc_wire c @ sb_data (nc_send c) = nc_accepted c \<and>
     nc_consumed c @ rb_data (nc_recv c) = nc_arrived c \<and>
     nc_closes c = (if nc_waitClose c then 1 else 0)"

fun state_rank :: "nc_state \<Rightarrow> nat" where
  "state_rank NCS_Connecting = 0"
| "state_rank NCS_Connected = 1"
| "state_rank NCS_Disconnecting = 2"
| "state_rank NCS_Disconnected = 3"

text \<open>What a connection may do from one moment to the next.\<close>

definition evolves :: "'h connecter \<Rightarrow> 'h connecter \<Rightarrow> bool" where
  "evolves c c' \<longleftrightarrow>
     conn_ok c' \<and> state_rank (nc_state c) \<le> state_rank (nc_state c') \<and>
     (nc_state c' = NCS_Disconnected \<longrightarrow> nc_state c = NCS_Disconnected) \<and>
     (\<exists>bs. nc_wire c' = nc_wire c @ bs) \<and> (\<exists>bs. nc_accepted c' = nc_accepted c @ bs) \<and>
     (nc_waitClose c \<longrightarrow> nc_waitClose c') \<and> (nc_closeSend c \<longrightarrow> nc_closeSend c')"

lemma evolves_refl [simp]: "conn_ok c \<Longrightarrow> evolves c c"
  by (simp add: evolves_def)

lemma evolves_trans: "evolves c1 c2 \<Longrightarrow> evolves c2 c3 \<Longrightarrow> evolves c1 c3"
  by (fastforce simp: evolves_def)

lemma evolves_ok: "evolves c c' \<Longrightarrow> conn_ok c'"
  by (simp add: evolves_def)

lemma nc_close_evolves: "conn_ok c \<Longrightarrow> evolves c (nc_close c)"
  by (simp add: evolves_def conn_ok_def nc_close_def)

lemma disconnecting_evolves:
  "conn_ok c \<Longrightarrow> nc_state c \<noteq> NCS_Disconnected \<Longrightarrow> evolves c (c\<lparr>nc_state := NCS_Disconnecting\<rparr>)"
  by (cases "nc_state c") (simp_all add: evolves_def conn_ok_def)

lemma nc_shutdown_evolves:
  assumes "conn_ok c"
  shows "evolves c (nc_shutdown bForce c)"
proof (cases "nc_state c = NCS_Disconnected")
  case False
  let ?c = "c\<lparr>nc_state := NCS_Disconnecting, nc_closeSend := True\<rparr>"
  have "evolves c ?c"
    using assms False by (cases "nc_state c") (simp_all add: evolves_def conn_ok_def)
  then show ?thesis
    using evolves_trans [OF _ nc_close_evolves] evolves_ok False
    by (auto simp: nc_shutdown_def Let_def)
qed (simp add: nc_shutdown_def assms)

lemma flags_evolve [simp]:
  "conn_ok c \<Longrightarrow> evolves c (c\<lparr>nc_disableWrite := b\<rparr>)" "conn_ok c \<Longrightarrow> evolves c (c\<lparr>nc_queued := b\<rparr>)"
  "conn_ok c \<Longrightarrow> evolves c (c\<lparr>nc_connectFail := b\<rparr>)" "conn_ok c \<Longrightarrow> evolves c (c\<lparr>nc_handler := b\<rparr>)"
  by (simp_all add: evolves_def conn_ok_def)

lemma flags_ok [simp]:
  "conn_ok (c\<lparr>nc_disableWrite := b\<rparr>) = conn_ok c" "conn_ok (c\<lparr>nc_queued := b\<rparr>) = conn_ok c"
  "conn_ok (c\<lparr>nc_connectFail := b\<rparr>) = conn_ok c" "conn_ok (c\<lparr>nc_handler := b\<rparr>) = conn_ok c"
  "conn_ok (c\<lparr>nc_state := st\<rparr>) = conn_ok c" "conn_ok (c\<lparr>nc_mode := md\<rparr>) = conn_ok c"
  "conn_ok (c\<lparr>nc_h := hh\<rparr>) = conn_ok c"
  by (simp_all add: conn_ok_def)

lemma tail_data_prefix: "sb_inv s \<Longrightarrow> take n (getTailData s) @ drop n (sb_data s) = sb_data s"
  if "n \<le> getTailDataSize s"
proof -
  assume "sb_inv s"
  show ?thesis
  proof (cases "sb_chain s" rule: rev_cases)
    case Nil
    with that show ?thesis by (simp add: getTailData_def sb_data_def getTailDataSize_def)
  next
    case (snoc bs b)
    with that \<open>sb_inv s\<close> have "n \<le> length (bl_data b)" by (simp add: getTailDataSize_def sb_inv_def)
    with snoc show ?thesis by (simp add: getTailData_def sb_data_def flip: append_assoc)
  qed
qed

lemma send_some_evolves:
  assumes ok: "conn_ok c" and n: "n \<le> getTailDataSize (nc_send c)"
  shows "evolves c (c\<lparr>nc_send := sb_pop_or n (nc_send c),
                       nc_wire := nc_wire c @ take n (getTailData (nc_send c))\<rparr>)"
proof -
  from ok have i: "sb_inv (nc_send c)" "sb_packed (nc_send c)"
    "nc_wire c @ sb_data (nc_send c) = nc_accepted c" by (simp_all add: conn_ok_def)
  have "(nc_wire c @ take n (getTailData (nc_send c))) @ drop n (sb_data (nc_send c)) = nc_accepted c"
    using tail_data_prefix [OF n i(1)] i(3) by simp
  then show ?thesis
    using ok sb_pop_or_spec [OF i(1) n] sb_pop_or_packed [OF i(2)] by (simp add: evolves_def conn_ok_def)
qed

lemma nc_buffer_evolves:
  assumes ok: "conn_ok c"
  shows "evolves c (nc_buffer bs c)"
proof -
  from ok have i: "sb_inv (nc_send c)" "sb_packed (nc_send c)" by (simp_all add: conn_ok_def)
  have "sb_inv (sb_push_or bs (nc_send c))" "sb_data (sb_push_or bs (nc_send c)) = sb_data (nc_send c) @ bs"
    using sb_push_spec [OF i(1), of bs] by (auto simp: sb_push_or_def)
  with ok sb_push_or_packed [OF i] show ?thesis
    by (auto simp: evolves_def conn_ok_def nc_buffer_def simp flip: append_assoc)
qed

lemma nc_write_evolves:
  assumes ok: "conn_ok c" and "getTailDataSize (nc_send c) = 0"
  shows "evolves c (nc_write bs c)"
  using assms packed_empty [of "nc_send c"] by (auto simp: evolves_def conn_ok_def nc_write_def)

text \<open>
  A relation between states that holds for the steps of the send loop holds for the loop.
\<close>

lemma send_loop_rel:
  assumes refl: "\<And>c. R c c" and trans: "\<And>c1 c2 c3. R c1 c2 \<Longrightarrow> R c2 c3 \<Longrightarrow> R c1 c3"
    and flag: "\<And>c b. R c (c\<lparr>nc_disableWrite := b\<rparr>)"
    and pop: "\<And>c n. n \<le> getTailDataSize (nc_send c) \<Longrightarrow>
       R c (c\<lparr>nc_send := sb_pop_or n (nc_send c), nc_wire := nc_wire c @ take n (getTailData (nc_send c))\<rparr>)"
    and shut: "\<And>c. R c (nc_shutdown True c)"
  shows "R c (send_loop ws c)"
proof (induction ws c rule: send_loop.induct)
  case (1 ws c)
  let ?n = "getTailDataSize (nc_send c)" and ?c1 = "c\<lparr>nc_disableWrite := False\<rparr>"
  show ?case
  proof (cases "?n = 0")
    case True
    then show ?thesis using refl by (subst send_loop.simps) simp
  next
    case ne: False
    show ?thesis
    proof (cases ws)
      case Nil
      then show ?thesis using ne flag by (subst send_loop.simps) (simp add: Let_def)
    next
      case (Cons w ws')
      show ?thesis
      proof (cases w)
        case (WTaken k)
        let ?r = "min k ?n"
        let ?c2 = "?c1\<lparr>nc_send := sb_pop_or ?r (nc_send ?c1),
                       nc_wire := nc_wire ?c1 @ take ?r (getTailData (nc_send c))\<rparr>"
        have e2: "R c ?c2" using trans [OF flag pop [of ?r ?c1]] by simp
        have "?r = ?n \<Longrightarrow> R ?c2 (send_loop ws' ?c2)"
          using 1(1) [OF HOL.refl HOL.refl ne HOL.refl Cons WTaken HOL.refl HOL.refl] by simp
        then have "R c (if ?r \<noteq> ?n then ?c2 else send_loop ws' ?c2)"
          using trans [OF e2] e2 by presburger
        moreover have "send_loop ws c = (if ?r \<noteq> ?n then ?c2 else send_loop ws' ?c2)"
          using ne Cons WTaken by (subst send_loop.simps) (simp only: Let_def if_False
            list.case write_result.case)
        ultimately show ?thesis by (rule ssubst [rotated])
      next
        case WAgain
        then show ?thesis using ne Cons flag by (subst send_loop.simps) (simp add: Let_def)
      next
        case WIntr
        from trans [OF flag 1(2) [OF HOL.refl HOL.refl ne HOL.refl Cons WIntr]] show ?thesis
          using ne Cons WIntr by (subst send_loop.simps) (simp add: Let_def)
      next
        case WError
        then show ?thesis using ne Cons trans [OF flag shut]
          by (subst send_loop.simps) (simp add: Let_def)
      qed
    qed
  qed
qed

lemma send_loop_evolves: "conn_ok c \<Longrightarrow> evolves c (send_loop ws c)"
proof -
  have "conn_ok c \<longrightarrow> evolves c (send_loop ws c)"
    by (rule send_loop_rel [where R = "\<lambda>c c'. conn_ok c \<longrightarrow> evolves c c'"])
       (auto simp: send_some_evolves nc_shutdown_evolves dest: evolves_ok intro: evolves_trans)
  then show "conn_ok c \<Longrightarrow> evolves c (send_loop ws c)" ..
qed

subsection \<open>The handler's contract\<close>

text \<open>
  What the connection relies on: a callback may use the connection as it likes (send, shut down,
  any number of times), so that the connection evolves, and it leaves the receive buffer alone,
  which holds the bytes it is being shown.
\<close>

locale connecter_handler =
  fixes h :: "'h handler"
  assumes recv_evolves: "conn_ok c \<Longrightarrow> evolves c (snd (h_onRecv h bs c))"
    and recv_keeps: "nc_recv (snd (h_onRecv h bs c)) = nc_recv c"
      "nc_consumed (snd (h_onRecv h bs c)) = nc_consumed c"
      "nc_arrived (snd (h_onRecv h bs c)) = nc_arrived c"
    and complete_evolves: "conn_ok c \<Longrightarrow> evolves c (h_onSendComplete h n c)"
    and connect_evolves: "conn_ok c \<Longrightarrow> evolves c (h_onConnect h c)"
    and disconnect_evolves: "conn_ok c \<Longrightarrow> evolves c (h_onDisconnect h c)"
    and fail_evolves: "conn_ok c \<Longrightarrow> evolves c (h_onConnectFail h c)"
begin

lemma onSend_evolves:
  assumes ok: "conn_ok c"
  shows "evolves c (onSend h ws c)"
proof -
  let ?c1 = "send_loop ws c"
  have e1: "evolves c ?c1" by (rule send_loop_evolves [OF ok])
  note ok1 = evolves_ok [OF e1]
  let ?c2 = "if getTotalReadableSize (nc_send c) \<noteq> 0 \<and> getTailDataSize (nc_send ?c1) = 0 \<and> nc_handler ?c1
     then h_onSendComplete h (getTotalReadableSize (nc_send c)) ?c1 else ?c1"
  have e2: "evolves c ?c2" using e1 evolves_trans [OF e1 complete_evolves [OF ok1]] by simp
  have "evolves c (if nc_state ?c2 = NCS_Disconnecting \<and> getTailDataSize (nc_send ?c2) = 0
      then nc_close ?c2 else ?c2)"
    using e2 evolves_trans [OF e2 nc_close_evolves [OF evolves_ok [OF e2]]] by presburger
  then show ?thesis unfolding onSend_def Let_def .
qed

lemma send_direct_evolves:
  assumes ok: "conn_ok c"
  shows "evolves c (snd (send_direct h bs ws c))"
proof (cases "getTailDataSize (nc_send c) = 0")
  case True
  have w: "evolves c (nc_write xs c)" for xs by (rule nc_write_evolves [OF ok True])
  have wb: "evolves c (nc_buffer ys (nc_write xs c))" for xs ys
    by (rule evolves_trans [OF w nc_buffer_evolves [OF evolves_ok [OF w]]])
  have wc: "evolves c (h_onSendComplete h n (nc_write xs c))" for n xs
    by (rule evolves_trans [OF w complete_evolves [OF evolves_ok [OF w]]])
  have d: "evolves c (c\<lparr>nc_disableWrite := True\<rparr>)" "conn_ok (c\<lparr>nc_disableWrite := True\<rparr>)"
    using ok by simp_all
  have db: "evolves c (nc_buffer xs (c\<lparr>nc_disableWrite := True\<rparr>))" for xs
    by (rule evolves_trans [OF d(1) nc_buffer_evolves [OF d(2)]])
  have dc: "evolves c (h_onSendComplete h n (c\<lparr>nc_disableWrite := True\<rparr>))" for n
    by (rule evolves_trans [OF d(1) complete_evolves [OF d(2)]])
  show ?thesis
    using True w wb wc d db dc nc_shutdown_evolves [OF ok]
    by (simp add: send_direct_def Let_def split: list.split write_result.split)
next
  case False
  have b: "evolves c (nc_buffer bs c)" by (rule nc_buffer_evolves [OF ok])
  from evolves_trans [OF b onSend_evolves [OF evolves_ok [OF b]]] b False
  show ?thesis by (simp add: send_direct_def Let_def)
qed

lemma nc_send_data_evolves:
  assumes ok: "conn_ok c"
  shows "evolves c (snd (nc_send_data h bs bCache ws c))"
proof -
  have b: "evolves c (nc_buffer bs c)" by (rule nc_buffer_evolves [OF ok])
  note okb = evolves_ok [OF b]
  have "evolves c (onSend h ws (nc_buffer bs c))" by (rule evolves_trans [OF b onSend_evolves [OF okb]])
  moreover have "evolves c ((nc_buffer bs c)\<lparr>nc_queued := True\<rparr>)"
    by (rule evolves_trans [OF b]) (simp add: okb)
  ultimately show ?thesis
    using ok send_direct_evolves [OF ok] by (auto simp: nc_send_data_def Let_def)
qed

lemma flush_queued_evolves:
  assumes ok: "conn_ok c"
  shows "evolves c (flush_queued h ws c)"
proof -
  have e: "evolves c (onSend h ws c)" by (rule onSend_evolves [OF ok])
  have "evolves c ((onSend h ws c)\<lparr>nc_queued := False\<rparr>)"
    by (rule evolves_trans [OF e]) (simp add: evolves_ok [OF e])
  with ok show ?thesis by (simp add: flush_queued_def)
qed

lemma make_room_evolves:
  assumes ok: "conn_ok c"
  shows "evolves c (make_room c)" and "0 < rb_writable (nc_recv (make_room c))"
proof -
  have "0 < rb_size (rb_resize (rb_size (nc_recv c) * 2) (nc_recv c))"
    using ok by (simp add: conn_ok_def rb_resize_def)
  then show "evolves c (make_room c)"
    using ok by (auto simp: evolves_def conn_ok_def make_room_def rb_resize_inv rb_resize_data)
  show "0 < rb_writable (nc_recv (make_room c))"
    using ok by (auto simp: make_room_def conn_ok_def rb_writable_def rb_resize_def rb_inv_def)
qed

lemma peer_closed_evolves:
  assumes ok: "conn_ok c" and "nc_state c \<noteq> NCS_Disconnected"
  shows "evolves c (peer_closed c)"
proof -
  let ?c = "c\<lparr>nc_closeRecv := True, nc_state := NCS_Disconnecting\<rparr>"
  have "evolves c ?c"
    using assms by (cases "nc_state c") (simp_all add: evolves_def conn_ok_def)
  then show ?thesis
    using evolves_trans [OF _ nc_close_evolves] evolves_ok by (auto simp: peer_closed_def Let_def)
qed

lemma take_in_evolves:
  assumes "conn_ok c" and "length bs \<le> rb_writable (nc_recv c)"
  shows "evolves c (take_in bs c)"
  using assms rb_recv_data [of "nc_recv c" bs] rb_recv_inv [of "nc_recv c" bs]
  by (auto simp: evolves_def conn_ok_def take_in_def rb_recv_def rb_push_def)

lemma rb_pop_keeps:
  assumes "rb_inv b"
  shows "(if n \<le> rb_readable b then take n (rb_data b) else []) @ rb_data (rb_pop n b) = rb_data b"
    and "rb_size (rb_pop n b) = rb_size b"
  using rb_pop_data [OF assms, of n] by (auto simp: rb_pop_def Let_def)

lemma hand_over_evolves:
  assumes ok: "conn_ok c"
  shows "evolves c (hand_over h c)"
proof -
  obtain n c1 where r: "h_onRecv h (rb_data (nc_recv c)) c = (n, c1)" by fastforce
  have e: "evolves c c1" using recv_evolves [OF ok, of "rb_data (nc_recv c)"] r by simp
  let ?c2 = "c1\<lparr>nc_recv := rb_pop n (nc_recv c1), nc_consumed := nc_consumed c1 @
      (if n \<le> rb_readable (nc_recv c1) then take n (rb_data (nc_recv c1)) else [])\<rparr>"
  from evolves_ok [OF e] have ok1: "conn_ok c1" .
  then have i: "rb_inv (nc_recv c1)" by (simp add: conn_ok_def)
  have "evolves c1 ?c2"
    using ok1 rb_pop_keeps [OF i, of n] rb_pop_inv [OF i, of n]
    by (simp add: evolves_def conn_ok_def)
  then show ?thesis using ok e evolves_trans [OF e] r by (simp add: hand_over_def)
qed

lemma onRecv_evolves: "conn_ok c \<Longrightarrow> nc_state c \<noteq> NCS_Disconnected \<Longrightarrow> evolves c (onRecv h rs c)"
proof (induction rs arbitrary: c)
  case Nil
  then show ?case using make_room_evolves by simp
next
  case (Cons r rs)
  let ?c1 = "make_room c"
  have e1: "evolves c ?c1" by (rule make_room_evolves(1) [OF Cons.prems(1)])
  note ok1 = evolves_ok [OF e1]
  have st: "nc_state ?c1 \<noteq> NCS_Disconnected" using e1 Cons.prems(2) by (auto simp: evolves_def)
  show ?case
  proof (cases r)
    case (RData bs)
    let ?d = "take (rb_writable (nc_recv ?c1)) bs"
    have e2: "evolves ?c1 (take_in ?d ?c1)" by (rule take_in_evolves [OF ok1]) simp
    have e3: "evolves ?c1 (hand_over h (take_in ?d ?c1))"
      by (rule evolves_trans [OF e2 hand_over_evolves [OF evolves_ok [OF e2]]])
    have st3: "nc_state (hand_over h (take_in ?d ?c1)) \<noteq> NCS_Disconnected"
      using e3 st by (auto simp: evolves_def)
    have "evolves c (onRecv h rs (hand_over h (take_in ?d ?c1)))"
      by (rule evolves_trans [OF e1 evolves_trans [OF e3 Cons.IH [OF evolves_ok [OF e3] st3]]])
    moreover have "evolves c (peer_closed ?c1)"
      by (rule evolves_trans [OF e1 peer_closed_evolves [OF ok1 st]])
    ultimately show ?thesis using RData by (simp add: Let_def)
  next
    case RIntr
    from evolves_trans [OF e1 Cons.IH [OF ok1 st]] show ?thesis using RIntr by (simp add: Let_def)
  qed (use e1 evolves_trans [OF e1 nc_shutdown_evolves [OF ok1]] in \<open>simp_all add: Let_def\<close>)
qed

lemma onConnect_evolves:
  assumes ok: "conn_ok c"
  shows "evolves c (onConnect h sockErr self c)"
proof (cases "nc_state c = NCS_Connecting")
  case True
  let ?c1 = "c\<lparr>nc_disableWrite := False\<rparr>"
  have f: "evolves c (?c1\<lparr>nc_connectFail := True\<rparr>)" "conn_ok (?c1\<lparr>nc_connectFail := True\<rparr>)"
    using ok by (simp_all add: evolves_def conn_ok_def)
  have s: "evolves c (?c1\<lparr>nc_state := NCS_Connected\<rparr>)" "conn_ok (?c1\<lparr>nc_state := NCS_Connected\<rparr>)"
    using ok True by (simp_all add: evolves_def conn_ok_def)
  show ?thesis
    using True s evolves_trans [OF s(1) connect_evolves [OF s(2)]]
      evolves_trans [OF f(1) nc_shutdown_evolves [OF f(2)]]
    by (simp add: onConnect_def Let_def)
qed (simp add: onConnect_def ok)

lemma onEvent_evolves:
  assumes ok: "conn_ok c"
  shows "evolves c (onEvent h ev rs ws sockErr self c)"
proof -
  have c: "evolves c (onConnect h sockErr self c)" by (rule onConnect_evolves [OF ok])
  have cr: "evolves c (onRecv h rs (onConnect h sockErr self c))"
    if "nc_state (onConnect h sockErr self c) = NCS_Connected"
    by (rule evolves_trans [OF c onRecv_evolves [OF evolves_ok [OF c]]]) (simp add: that)
  have r: "evolves c (onRecv h rs c)" if "nc_state c \<noteq> NCS_Disconnected"
    by (rule onRecv_evolves [OF ok that])
  have rs: "evolves c (onSend h ws (onRecv h rs c))" if "nc_state c \<noteq> NCS_Disconnected"
    by (rule evolves_trans [OF r [OF that] onSend_evolves [OF evolves_ok [OF r [OF that]]]])
  show ?thesis
    using ok c cr r rs onSend_evolves [OF ok] nc_shutdown_evolves [OF ok]
    by (cases "nc_state c") (simp_all add: onEvent_def Let_def)
qed

lemma nc_release_ok:
  assumes ok: "conn_ok c"
  shows "conn_ok (nc_release h c)"
proof -
  have c: "conn_ok (c\<lparr>nc_state := NCS_Disconnected\<rparr>)" using ok by simp
  show ?thesis
    using c evolves_ok [OF disconnect_evolves [OF c]] evolves_ok [OF fail_evolves [OF c]]
    by (simp add: nc_release_def Let_def)
qed

lemma nc_connect_ok:
  assumes ok: "conn_ok c"
  shows "conn_ok (snd (nc_connect h usable res sockErr self c))"
  using ok evolves_ok [OF onConnect_evolves]
  by (auto simp: nc_connect_def split: connect_result.split)

end

lemma nc_new_ok [inv_intros]: "conn_ok (nc_new n hh has)"
proof -
  have "sb_data (sb_init SEND_BUF_SIZE) = []" "sb_packed (sb_init SEND_BUF_SIZE)"
    "sb_inv (sb_init SEND_BUF_SIZE)" "rb_data (snd (rb_init RECV_BUF_SIZE rb_new)) = []"
    by (simp_all add: sb_data_def sb_init_def sb_packed_def sb_inv_def SEND_BUF_SIZE_def
        rb_data_def rb_init_def rb_new_def rb_readable_def)
  moreover have "rb_inv (snd (rb_init RECV_BUF_SIZE rb_new))" by (rule rb_init_inv)
  ultimately show ?thesis
    by (simp add: conn_ok_def nc_new_def) (simp add: rb_init_def rb_new_def RECV_BUF_SIZE_def)
qed

text \<open>A connection in use by a handler \<open>h\<close>, whatever the kernel and the peer do.\<close>

inductive conn_reach :: "'h handler \<Rightarrow> 'h \<Rightarrow> 'h connecter \<Rightarrow> bool" for h hh where
  opened: "conn_reach h hh (nc_new n hh has)"
| connected: "conn_reach h hh c \<Longrightarrow> conn_reach h hh (snd (nc_connect h usable res sockErr self c))"
| accepted: "conn_reach h hh c \<Longrightarrow> conn_reach h hh (nc_accept c)"
| sent: "conn_reach h hh c \<Longrightarrow> conn_reach h hh (snd (nc_send_data h bs bCache ws c))"
| flushed: "conn_reach h hh c \<Longrightarrow> conn_reach h hh (flush_queued h ws c)"
| event: "conn_reach h hh c \<Longrightarrow> conn_reach h hh (onEvent h ev rs ws sockErr self c)"
| stopped: "conn_reach h hh c \<Longrightarrow> conn_reach h hh (nc_shutdown bForce c)"
| released: "conn_reach h hh c \<Longrightarrow> conn_reach h hh (nc_release h c)"

context connecter_handler begin

lemma conn_reach_ok: "conn_reach h hh c \<Longrightarrow> conn_ok c"
  by (induction rule: conn_reach.induct)
     (auto simp: nc_accept_def nc_new_ok intro: nc_connect_ok nc_release_ok evolves_ok nc_send_data_evolves
        flush_queued_evolves onEvent_evolves nc_shutdown_evolves)

end

subsection \<open>Two ways to be forgotten\<close>

text \<open>
  when \<open>connect\<close> succeeds at once, the connection is marked connected before
  \<open>onConnect\<close> is called, which only acts on a connecting one: the handler is never told, no
  address is checked, and writing stays disabled.
\<close>

theorem connect_at_once_is_silent:
  "nc_connect h True ConnectNow sockErr self c =
     (True, c\<lparr>nc_mode := NCM_Initiative, nc_state := NCS_Connected\<rparr>)"
  by (simp add: nc_connect_def onConnect_def)

lemma send_all_tail:
  assumes ok: "conn_ok c" and n: "0 < getTailDataSize (nc_send c)" "getTailDataSize (nc_send c) \<le> k"
    and one: "getTotalReadableSize (nc_send c) = getTailDataSize (nc_send c)"
  defines "c' \<equiv> send_loop [WTaken k] c"
  shows "sb_data (nc_send c') = []" and "getTailDataSize (nc_send c') = 0" and "conn_ok c'"
    and "nc_disableWrite c' = False" and "nc_state c' = nc_state c" and "nc_closeSend c' = nc_closeSend c"
    and "nc_sndbuf c' = nc_sndbuf c" and "nc_handler c' = nc_handler c"
proof -
  let ?s = "sb_pop_or (getTailDataSize (nc_send c)) (nc_send c)"
  let ?c2 = "c\<lparr>nc_disableWrite := False, nc_send := ?s,
      nc_wire := nc_wire c @ take (getTailDataSize (nc_send c)) (getTailData (nc_send c))\<rparr>"
  from ok have i: "sb_inv (nc_send c)" by (simp add: conn_ok_def)
  have "length (sb_data (nc_send c)) = getTailDataSize (nc_send c)"
    using getTotalReadableSize_eq [OF i] one by simp
  then have d: "sb_data ?s = []" using sb_pop_or_spec(2) [OF i, of "getTailDataSize (nc_send c)"] by simp
  then have t: "getTailDataSize ?s = 0"
    using sb_tail_le [OF sb_pop_or_spec(1) [OF i, of "getTailDataSize (nc_send c)"]] by simp
  have "send_loop [] ?c2 = ?c2" using t by (subst send_loop.simps) simp
  then have e: "c' = ?c2" using n unfolding c'_def
    by (subst send_loop.simps) (simp add: Let_def min_absorb2)
  show "sb_data (nc_send c') = []" "getTailDataSize (nc_send c') = 0" using d t by (simp_all add: e)
  show "conn_ok c'" unfolding c'_def by (rule evolves_ok [OF send_loop_evolves [OF ok]])
  show "nc_disableWrite c' = False" "nc_state c' = nc_state c" "nc_closeSend c' = nc_closeSend c"
    "nc_sndbuf c' = nc_sndbuf c" "nc_handler c' = nc_handler c"
    by (simp_all add: e)
qed

text \<open>
  data a handler sends with caching from its completion callback, while the event
  loop is flushing the connection, is forgotten: the connection is still marked as queued, so it
  is not queued again, and the flush then clears the mark. The bytes stay in the buffer with
  nothing left that would write them (writing is not disabled, so no write event is due).
\<close>

theorem completion_send_is_stuck:
  assumes "conn_ok c" and "nc_state c = NCS_Connected" and "nc_queued c" and "nc_handler c"
    and "0 < getTailDataSize (nc_send c)" and "getTailDataSize (nc_send c) \<le> k"
    and "getTotalReadableSize (nc_send c) = getTailDataSize (nc_send c)"
    and "\<And>n c. h_onSendComplete h n c = snd (nc_send_data h' bs True [] c)"
    and "bs \<noteq> []" and "length bs < nc_sndbuf c"
  shows "sb_data (nc_send (flush_queued h [WTaken k] c)) = bs \<and>
         \<not> nc_queued (flush_queued h [WTaken k] c) \<and> \<not> nc_disableWrite (flush_queued h [WTaken k] c)"
proof -
  let ?c1 = "send_loop [WTaken k] c"
  note s = send_all_tail [OF assms(1,5,6,7)]
  from s(3) have i: "sb_inv (nc_send ?c1)" by (simp add: conn_ok_def)
  have b: "sb_inv (sb_push_or bs (nc_send ?c1))" "sb_data (sb_push_or bs (nc_send ?c1)) = bs"
    using sb_push_spec [OF i, of bs] s(1) by (auto simp: sb_push_or_def)
  have "nc_send_data h' bs True [] ?c1 = (True, (nc_buffer bs ?c1)\<lparr>nc_queued := True\<rparr>)"
    using s assms(2,9,10) getTotalReadableSize_eq [OF b(1)] b(2)
    by (simp add: nc_send_data_def Let_def nc_buffer_def)
  then have "onSend h [WTaken k] c = (nc_buffer bs ?c1)\<lparr>nc_queued := True\<rparr>"
    using assms s by (simp add: onSend_def Let_def nc_buffer_def)
  then show ?thesis using assms(3) b(2) s(4) by (simp add: flush_queued_def nc_buffer_def)
qed

lemma completion_send_is_stuck_witness:
  "\<exists>(c :: unit connecter) h. nc_queued c \<and> sb_data (nc_send c) = [1] \<and>
     sb_data (nc_send (flush_queued h [WTaken 1] c)) = [9] \<and> \<not> nc_queued (flush_queued h [WTaken 1] c)"
proof -
  let ?quiet = "\<lparr>h_onRecv = \<lambda>_ c. (0, c), h_onSendComplete = \<lambda>_ c. c, h_onConnect = id, h_onDisconnect = id,
      h_onConnectFail = id\<rparr> :: unit handler"
  let ?h = "?quiet\<lparr>h_onSendComplete := \<lambda>_ c. snd (nc_send_data ?quiet [9] True [] c)\<rparr>"
  let ?n = "(nc_new 10 () True)\<lparr>nc_state := NCS_Connected, nc_queued := True\<rparr>"
  let ?c = "nc_buffer [1] ?n"
  have "conn_ok ?n" using nc_new_ok [of 10 "()" True] by simp
  then have ok: "conn_ok ?c" by (rule evolves_ok [OF nc_buffer_evolves])
  have f: "nc_state ?c = NCS_Connected" "nc_queued ?c" "nc_handler ?c" "nc_sndbuf ?c = 10"
    by (simp_all add: nc_buffer_def nc_new_def)
  from ok have i: "sb_inv (nc_send ?c)" "sb_packed (nc_send ?c)" and
    w: "nc_wire ?c @ sb_data (nc_send ?c) = nc_accepted ?c" by (simp_all add: conn_ok_def)
  have d: "sb_data (nc_send ?c) = [1]" using w by (simp add: nc_buffer_def nc_new_def)
  then have t: "getTailDataSize (nc_send ?c) = 1"
    using sb_tail_le [OF i(1)] packed_empty [OF i(2)] by (cases "getTailDataSize (nc_send ?c)") auto
  have o: "getTotalReadableSize (nc_send ?c) = getTailDataSize (nc_send ?c)"
    using getTotalReadableSize_eq [OF i(1)] d t by simp
  have "sb_data (nc_send (flush_queued ?h [WTaken 1] ?c)) = [9] \<and>
      \<not> nc_queued (flush_queued ?h [WTaken 1] ?c) \<and> \<not> nc_disableWrite (flush_queued ?h [WTaken 1] ?c)"
    by (rule completion_send_is_stuck [where c = ?c and h = ?h and h' = ?quiet and bs = "[9]" and k = 1, OF ok f(1,2,3) _ _ o]) (simp_all add: t f(4))
  with f(2) d show ?thesis by blast
qed

end
