(* ===== verification/Bytes.thy ===== *)
theory Bytes imports Prelude begin

text \<open>
  The memory image of integers and of zero-terminated strings, as the packed structures of the
  engine put them on the wire: little endian, as on the x86 machines it is built for.
\<close>

text \<open>A text of the program as the bytes it stands for.\<close>

definition ascii :: "string \<Rightarrow> u8 list" where
  "ascii s = map of_char s"

lemma of_char_byte_eq [simp]: "(of_char c :: u8) = of_char d \<longleftrightarrow> c = d"
proof
  have u: "unat (of_char c :: u8) = of_char c" for c :: char
  proof -
    have "(of_char c :: u8) = word_of_nat (of_char c)" by (simp add: of_nat_of_char)
    moreover have "(of_char c :: nat) < 256" by (cases c) simp
    ultimately show ?thesis by (simp add: unat_of_nat)
  qed
  assume "(of_char c :: u8) = of_char d"
  then have "(of_char c :: nat) = of_char d" using u by metis
  then show "c = d" by simp
qed simp

lemma ascii_eq [simp]: "ascii s = ascii t \<longleftrightarrow> s = t"
proof -
  have "inj (of_char :: char \<Rightarrow> u8)" by (rule injI) simp
  then show ?thesis unfolding ascii_def by (rule inj_map_eq_map)
qed

fun le_bytes :: "nat \<Rightarrow> nat \<Rightarrow> u8 list" where
  "le_bytes 0 x = []"
| "le_bytes (Suc n) x = word_of_nat (x mod 256) # le_bytes n (x div 256)"

fun le_nat :: "u8 list \<Rightarrow> nat" where
  "le_nat [] = 0"
| "le_nat (b # bs) = unat b + 256 * le_nat bs"

lemma length_le_bytes [simp]: "length (le_bytes n x) = n"
  by (induction n arbitrary: x) auto

lemma unat_byte [simp]: "unat (word_of_nat (x mod 256) :: u8) = x mod 256"
  by (simp add: unat_of_nat)

lemma le_nat_bytes: "le_nat (le_bytes n x) = x mod 256 ^ n"
proof (induction n arbitrary: x)
  case (Suc n)
  have "x mod 256 + 256 * (x div 256 mod 256 ^ n) = x mod (256 * 256 ^ n)"
    by (simp add: mod_mult2_eq)
  then show ?case by (simp add: Suc)
qed simp

lemma le_nat_less: "le_nat bs < 256 ^ length bs"
proof (induction bs)
  case (Cons b bs)
  have "unat b < 256" using unsigned_less [of b] by simp
  then have "unat b + 256 * le_nat bs < 256 * (le_nat bs + 1)" by simp
  also have "\<dots> \<le> 256 * 256 ^ length bs" using Cons by (simp del: mult_Suc_right)
  finally show ?case by simp
qed simp

lemma le_bytes_nat: "le_bytes (length bs) (le_nat bs) = bs"
proof (induction bs)
  case (Cons b bs)
  have "unat b < 256" using unsigned_less [of b] by simp
  with Cons show ?case by simp
qed simp

lemma le_bytes_nat': "length bs = n \<Longrightarrow> le_bytes n (le_nat bs) = bs"
  using le_bytes_nat by blast

text \<open>The fields of a packed structure: a slice read as a number.\<close>

definition field :: "nat \<Rightarrow> nat \<Rightarrow> u8 list \<Rightarrow> nat" where
  "field off n bs = le_nat (take n (drop off bs))"

lemma field_less: "field off n bs < 256 ^ n"
proof -
  have "le_nat (take n (drop off bs)) < 256 ^ length (take n (drop off bs))" by (rule le_nat_less)
  also have "\<dots> \<le> 256 ^ n" by (rule power_increasing) auto
  finally show ?thesis by (simp add: field_def)
qed

lemma field_here: "field 0 n (le_bytes n x @ rest) = x mod 256 ^ n"
  by (simp add: field_def le_nat_bytes)

lemma field_skip: "length xs \<le> off \<Longrightarrow> field off n (xs @ rest) = field (off - length xs) n rest"
  by (simp add: field_def)

text \<open>A C string: the bytes before the first zero.\<close>

definition cstr :: "u8 list \<Rightarrow> u8 list" where
  "cstr bs = takeWhile (\<lambda>b. b \<noteq> 0) bs"

lemma cstr_id: "0 \<notin> set bs \<Longrightarrow> cstr bs = bs"
  by (auto simp: cstr_def takeWhile_eq_all_conv)

lemma cstr_stop: "0 \<notin> set bs \<Longrightarrow> cstr (bs @ 0 # rest) = bs"
  by (auto simp: cstr_def takeWhile_append takeWhile_eq_all_conv)

end
