(* ===== verification/Message_Types.thy ===== *)
theory Message_Types imports Bytes begin

text \<open>
  The types of the messages between nodes (\<open>EMessageType\<close> of
  \<open>engine/inc/libCoreCommon/core_common.h\<close>) and the sizes of the packed structures that start
  their data (\<open>engine/src/libCoreCommon/core_common_define.h\<close>).
\<close>

definition MT_HEARTBEAT :: nat where "MT_HEARTBEAT = 1"
definition MT_SYSTEM :: nat where "MT_SYSTEM = 2"
definition MT_REQUEST :: nat where "MT_REQUEST = 3"
definition MT_RESPONSE :: nat where "MT_RESPONSE = 4"
definition MT_GATE_FORWARD :: nat where "MT_GATE_FORWARD = 5"
definition MT_TO_GATE :: nat where "MT_TO_GATE = 6"
definition MT_TO_GATE_BROADCAST :: nat where "MT_TO_GATE_BROADCAST = 7"
definition MT_CLIENT :: nat where "MT_CLIENT = 8"

lemmas mt_defs = MT_HEARTBEAT_def MT_SYSTEM_def MT_REQUEST_def MT_RESPONSE_def MT_GATE_FORWARD_def
  MT_TO_GATE_def MT_TO_GATE_BROADCAST_def MT_CLIENT_def

text \<open>Sizes of the packed structures.\<close>

definition message_header_size :: nat where "message_header_size = 2 + 4"
definition request_cookice_size :: nat where "request_cookice_size = 8 + 4 + 4 + 1 + 2 + 1"
definition response_cookice_size :: nat where "response_cookice_size = 8 + 4 + 4 + 4 + 1 + 2 + 1"
definition gate_forward_cookice_size :: nat where "gate_forward_cookice_size = 8 + 4 + 4"
definition gate_send_cookice_size :: nat where "gate_send_cookice_size = 8 + 4"
definition gate_broadcast_cookice_size :: nat where "gate_broadcast_cookice_size = 4 + 2"

lemmas cookice_sizes = message_header_size_def request_cookice_size_def response_cookice_size_def
  gate_forward_cookice_size_def gate_send_cookice_size_def gate_broadcast_cookice_size_def

end
