(* ===== verification/Core_Connection.thy ===== *)
theory Core_Connection imports Net_Connecter Message_Types begin

text \<open>
  The connection between two nodes, \<open>CCoreConnection\<close> of
  \<open>engine/src/libCoreCommon/core_connection.cpp\<close>: it is the handler of a \<open>CNetConnecter\<close>, cuts
  the byte stream into messages (\<open>onRecv\<close>), turns each into a packet for the message queue of a
  service (\<open>onDispatch\<close>), and frames the messages it sends. The packed structures of
  \<open>core_common.h\<close> and \<open>core_common_define.h\<close> are read field by field at their offsets.

  The services of the node are the argument \<open>svc\<close> (the ids \<open>getCoreService\<close> finds), and the
  optional message parser is the argument \<open>parser\<close>: from the bytes it returns a size and a type.
  \<open>None\<close> as a result stands for an access outside the received bytes.
\<close>

datatype cc_state = CCS_None | CCS_Connectting | CCS_Connected | CCS_Disconnecting

text \<open>The packets sent to the message queues (\<open>message_command.h\<close>).\<close>

datatype packet =
    PRequest (pk_to: nat) nat nat nat "u8 list" "u8 list"
      \<comment> \<open>to service, session, from service, serializer, name, data\<close>
  | PResponse (pk_to: nat) nat nat nat nat "u8 list" "u8 list"
      \<comment> \<open>to service, session, from service, serializer, result, name, data\<close>
  | PGateForward (pk_to: nat) nat nat "u8 list"   \<comment> \<open>to, session, from, message\<close>
  | PToGate (pk_to: nat) nat "u8 list"            \<comment> \<open>to, session, message\<close>
  | PToGateBroadcast (pk_to: nat) nat nat "u8 list"   \<comment> \<open>to, session count, size, sessions and message\<close>
  | PRecvData nat u8 "u8 list"                    \<comment> \<open>socket, message type, data\<close>
  | PNotifyConnect nat
  | PNotifyDisconnect nat

record core_conn =
  cc_id :: nat
  cc_ccs :: cc_state
  cc_heartbeats :: nat                  \<comment> \<open>\<open>m_nSendHeartbeatCount\<close>\<close>
  cc_live :: bool                       \<comment> \<open>\<open>m_pNetConnecter\<close> is not null\<close>
  cc_queue :: "packet list"             \<comment> \<open>the packets queued, in order\<close>
  cc_frames :: "(nat \<times> u8 list) list"   \<comment> \<open>the messages cut from the stream, not in the code\<close>

type_synonym cconn = "core_conn connecter"
type_synonym msg_parser = "u8 list \<Rightarrow> int \<times> u8"

subsection \<open>Dispatching one message\<close>

definition enqueue :: "packet \<Rightarrow> cconn \<Rightarrow> cconn" where
  "enqueue p c = c\<lparr>nc_h := (nc_h c)\<lparr>cc_queue := cc_queue (nc_h c) @ [p]\<rparr>\<rparr>"

text \<open>The branches of \<open>onDispatch\<close>: the packet queued for the message, if any.\<close>

definition dispatch_request :: "(nat \<Rightarrow> bool) \<Rightarrow> u8 list \<Rightarrow> packet option" where
  "dispatch_request svc d =
     (let nSize = length d; nNameLen = field 17 2 d; nTo = field 12 4 d
      in if \<not> nSize > request_cookice_size then None
         else if \<not> nSize \<ge> request_cookice_size + nNameLen then None
         else if d ! (19 + nNameLen) \<noteq> 0 then None
         else if \<not> svc nTo then None
         else Some (PRequest nTo (field 0 8 d) (field 8 4 d) (field 16 1 d)
                (cstr (take nNameLen (drop 19 d)))
                (drop (request_cookice_size + nNameLen) d)))"

definition dispatch_response :: "(nat \<Rightarrow> bool) \<Rightarrow> u8 list \<Rightarrow> packet option" where
  "dispatch_response svc d =
     (let nSize = length d; nNameLen = field 21 2 d; nTo = field 12 4 d
      in if \<not> nSize \<ge> response_cookice_size then None
         else if \<not> nSize \<ge> response_cookice_size + nNameLen then None
         else if d ! (23 + nNameLen) \<noteq> 0 then None
         else if \<not> svc nTo then None
         else Some (PResponse nTo (field 0 8 d) (field 8 4 d) (field 20 1 d) (field 16 4 d)
                (cstr (take nNameLen (drop 23 d)))
                (drop (response_cookice_size + nNameLen) d)))"

definition dispatch_gate_forward :: "(nat \<Rightarrow> bool) \<Rightarrow> u8 list \<Rightarrow> packet option" where
  "dispatch_gate_forward svc d =
     (let nSize = length d; nTo = field 12 4 d
      in if \<not> nSize > gate_forward_cookice_size then None
         else if \<not> svc nTo then None
         else if gate_forward_cookice_size + field 16 2 d \<noteq> nSize then None
         else Some (PGateForward nTo (field 0 8 d) (field 8 4 d) (drop gate_forward_cookice_size d)))"

definition dispatch_to_gate :: "(nat \<Rightarrow> bool) \<Rightarrow> u8 list \<Rightarrow> packet option" where
  "dispatch_to_gate svc d =
     (let nTo = field 8 4 d
      in if \<not> length d > gate_send_cookice_size then None
         else if \<not> svc nTo then None
         else Some (PToGate nTo (field 0 8 d) (drop gate_send_cookice_size d)))"

definition dispatch_broadcast :: "(nat \<Rightarrow> bool) \<Rightarrow> u8 list \<Rightarrow> packet option" where
  "dispatch_broadcast svc d =
     (let nTo = field 0 4 d
      in if \<not> svc nTo then None
         else Some (PToGateBroadcast nTo (field 4 2 d) ((length d - gate_broadcast_cookice_size) mod 2 ^ 16)
                (drop gate_broadcast_cookice_size d)))"

text \<open>
  \<open>onDispatch\<close>. The broadcast branch has no test of the size, and the forward branch reads the
  inner header before it has tested that there is one, so shorter messages are read past their
  end: the outer \<open>None\<close>.
\<close>

definition cc_onDispatch ::
    "(nat \<Rightarrow> bool) \<Rightarrow> nat \<Rightarrow> u8 list \<Rightarrow> cconn \<Rightarrow> cconn option" where
  "cc_onDispatch svc nMessageType d c =
     (let put = (\<lambda>p. case p of None \<Rightarrow> c | Some pk \<Rightarrow> enqueue pk c)
      in if nMessageType = MT_HEARTBEAT then Some c
         else if nMessageType = MT_REQUEST then Some (put (dispatch_request svc d))
         else if nMessageType = MT_RESPONSE then Some (put (dispatch_response svc d))
         else if nMessageType = MT_GATE_FORWARD then
           (if length d = Suc gate_forward_cookice_size \<and> svc (field 12 4 d) then None
            else Some (put (dispatch_gate_forward svc d)))
         else if nMessageType = MT_TO_GATE then Some (put (dispatch_to_gate svc d))
         else if nMessageType = MT_TO_GATE_BROADCAST then
           (if length d < gate_broadcast_cookice_size then None
            else Some (put (dispatch_broadcast svc d)))
         else Some (enqueue (PRecvData (cc_id (nc_h c)) (word_of_nat nMessageType) d) c))"

subsection \<open>Cutting the stream into messages\<close>

datatype frame_result = FWait | FBad | FMessage nat nat "u8 list"   \<comment> \<open>size, message id, data\<close>

definition frame_next :: "msg_parser option \<Rightarrow> u8 list \<Rightarrow> frame_result" where
  "frame_next parser bs =
     (case parser of
        Some p \<Rightarrow>
          (let (nParserSize, nMessageType) = p bs
           in if nParserSize = 0 then FWait
              else if nParserSize < 0 \<or> nParserSize > 65535 then FBad
              else FMessage (nat nParserSize) (unat nMessageType) (take (nat nParserSize) bs))
      | None \<Rightarrow>
          if length bs < message_header_size then FWait
          else let nMessageSize = field 0 2 bs
               in if nMessageSize < message_header_size then FBad
                  else if length bs < nMessageSize then FWait
                  else FMessage nMessageSize (field 2 4 bs)
                         (drop message_header_size (take nMessageSize bs)))"

definition cc_shutdown :: "cconn \<Rightarrow> cconn" where
  "cc_shutdown c = (if cc_live (nc_h c) then nc_shutdown True c else c)"

definition log_frame :: "nat \<Rightarrow> u8 list \<Rightarrow> cconn \<Rightarrow> cconn" where
  "log_frame ty d c = c\<lparr>nc_h := (nc_h c)\<lparr>cc_frames := cc_frames (nc_h c) @ [(ty, d)]\<rparr>\<rparr>"

function cc_loop :: "msg_parser option \<Rightarrow> (nat \<Rightarrow> bool) \<Rightarrow> u8 list \<Rightarrow> nat \<Rightarrow> cconn \<Rightarrow> (nat \<times> cconn) option" where
  "cc_loop parser svc bs nRecvSize c =
     (case frame_next parser bs of
        FWait \<Rightarrow> Some (nRecvSize, c)
      | FBad \<Rightarrow> Some (nRecvSize, cc_shutdown c)
      | FMessage sz ty d \<Rightarrow>
          if sz = 0 \<or> sz > length bs then None
          else (case cc_onDispatch svc (ty mod 256) d (log_frame ty d c) of
                  None \<Rightarrow> None
                | Some c' \<Rightarrow> cc_loop parser svc (drop sz bs) (nRecvSize + sz) c'))"
  by pat_completeness auto
termination
  by (relation "measure (\<lambda>(_, _, bs, _, _). length bs)") auto

declare cc_loop.simps [simp del]

definition cc_onRecv :: "msg_parser option \<Rightarrow> (nat \<Rightarrow> bool) \<Rightarrow> u8 list \<Rightarrow> cconn \<Rightarrow> nat \<times> cconn" where
  "cc_onRecv parser svc bs c =
     (case cc_loop parser svc bs 0 (c\<lparr>nc_h := (nc_h c)\<lparr>cc_heartbeats := 0\<rparr>\<rparr>) of
        None \<Rightarrow> (0, c)
      | Some r \<Rightarrow> r)"

definition cc_onConnect :: "cconn \<Rightarrow> cconn" where
  "cc_onConnect c =
     (if cc_live (nc_h c) then
        (let c1 = enqueue (PNotifyConnect (cc_id (nc_h c))) c
         in c1\<lparr>nc_h := (nc_h c1)\<lparr>cc_ccs := CCS_Connectting\<rparr>\<rparr>)
      else c)"

definition cc_onDisconnect :: "cconn \<Rightarrow> cconn" where
  "cc_onDisconnect c =
     (let c1 = enqueue (PNotifyDisconnect (cc_id (nc_h c))) c
      in c1\<lparr>nc_h := (nc_h c1)\<lparr>cc_ccs := CCS_Disconnecting, cc_live := False\<rparr>\<rparr>)"

definition cc_onConnectAck :: "cconn \<Rightarrow> cconn" where
  "cc_onConnectAck c =
     (if cc_ccs (nc_h c) \<noteq> CCS_Connectting then cc_shutdown c
      else c\<lparr>nc_h := (nc_h c)\<lparr>cc_ccs := CCS_Connected\<rparr>\<rparr>)"

definition cc_new :: "nat \<Rightarrow> core_conn" where
  "cc_new nID = \<lparr>cc_id = nID, cc_ccs = CCS_None, cc_heartbeats = 0, cc_live = True, cc_queue = [],
     cc_frames = []\<rparr>"

definition cc_handler :: "msg_parser option \<Rightarrow> (nat \<Rightarrow> bool) \<Rightarrow> core_conn handler" where
  "cc_handler parser svc =
     \<lparr>h_onRecv = cc_onRecv parser svc, h_onSendComplete = (\<lambda>_ c. c), h_onConnect = cc_onConnect,
      h_onDisconnect = cc_onDisconnect, h_onConnectFail = (\<lambda>c. c)\<rparr>"

subsection \<open>Sending\<close>

definition framed_type :: "nat \<Rightarrow> bool" where
  "framed_type ty \<longleftrightarrow> ty \<in> {MT_REQUEST, MT_RESPONSE, MT_SYSTEM, MT_GATE_FORWARD, MT_TO_GATE, MT_TO_GATE_BROADCAST}"

text \<open>The header in memory: the size is computed in 16 bits.\<close>

definition header_bytes :: "nat \<Rightarrow> nat \<Rightarrow> u8 list" where
  "header_bytes ty n = le_bytes 2 (message_header_size + n) @ le_bytes 4 ty"

definition cc_write :: "core_conn handler \<Rightarrow> u8 list \<Rightarrow> write_result list \<Rightarrow> cconn \<Rightarrow> cconn" where
  "cc_write h bs ws c = snd (nc_send_data h bs True ws c)"

definition cc_send ::
    "core_conn handler \<Rightarrow> nat \<Rightarrow> u8 list \<Rightarrow> (nat \<Rightarrow> write_result list) \<Rightarrow> cconn \<Rightarrow> cconn" where
  "cc_send h ty d ws c =
     (if d = [] then c
      else if \<not> cc_live (nc_h c) then c
      else if ty = MT_CLIENT then cc_write h d (ws 0) c
      else if framed_type ty \<or> ty = MT_HEARTBEAT
      then cc_write h d (ws 1) (cc_write h (header_bytes ty (length d)) (ws 0) c)
      else c)"

definition cc_send2 ::
    "core_conn handler \<Rightarrow> nat \<Rightarrow> u8 list \<Rightarrow> u8 list \<Rightarrow> (nat \<Rightarrow> write_result list) \<Rightarrow> cconn \<Rightarrow> cconn" where
  "cc_send2 h ty d extra ws c =
     (if \<not> length d + length extra < 65535 then c
      else if \<not> cc_live (nc_h c) then c
      else if ty = MT_CLIENT \<or> ty = MT_HEARTBEAT then cc_write h extra (ws 1) (cc_write h d (ws 0) c)
      else if framed_type ty
      then cc_write h extra (ws 2) (cc_write h d (ws 1)
             (cc_write h (header_bytes ty (length d + length extra)) (ws 0) c))
      else c)"

subsection \<open>The connection as a handler\<close>

lemma nc_h_evolves [simp]: "conn_ok c \<Longrightarrow> evolves c (c\<lparr>nc_h := x\<rparr>)"
  by (simp add: evolves_def conn_ok_def)

text \<open>What handling a message leaves alone.\<close>

definition same_net :: "cconn \<Rightarrow> cconn \<Rightarrow> bool" where
  "same_net c c' \<longleftrightarrow> (\<exists>x. c' = c\<lparr>nc_h := x\<rparr>)"

lemma same_net_refl [simp]: "same_net c c"
  unfolding same_net_def by (rule exI [of _ "nc_h c"]) simp

lemma same_net_set [simp]: "same_net c (c\<lparr>nc_h := x\<rparr>)"
  by (auto simp: same_net_def)

lemma same_net_trans: "same_net c1 c2 \<Longrightarrow> same_net c2 c3 \<Longrightarrow> same_net c1 c3"
  by (auto simp: same_net_def)

lemma same_net_enqueue [simp]: "same_net c (enqueue p c)" "same_net c (log_frame ty d c)"
  by (simp_all add: enqueue_def log_frame_def)

lemma cc_onDispatch_net: "cc_onDispatch svc ty d c = Some c' \<Longrightarrow> same_net c c'"
  by (auto simp: cc_onDispatch_def Let_def split: if_splits option.splits)

lemma cc_onDispatch_frames: "cc_onDispatch svc ty d c = Some c' \<Longrightarrow> cc_frames (nc_h c') = cc_frames (nc_h c)"
  by (auto simp: cc_onDispatch_def Let_def enqueue_def split: if_splits option.splits)

lemma cc_loop_net:
  "cc_loop parser svc bs n c = Some (n', c') \<Longrightarrow> \<exists>c1. same_net c c1 \<and> (c' = c1 \<or> c' = cc_shutdown c1)"
proof (induction parser svc bs n c arbitrary: n' c' rule: cc_loop.induct)
  case (1 parser svc bs n c)
  show ?case
  proof (cases "frame_next parser bs")
    case FWait
    with 1(2) show ?thesis by (subst (asm) cc_loop.simps) (auto intro: exI [of _ c])
  next
    case FBad
    with 1(2) show ?thesis by (subst (asm) cc_loop.simps) (auto intro: exI [of _ c])
  next
    case (FMessage sz ty d)
    with 1(2) obtain c2 where s: "\<not> (sz = 0 \<or> sz > length bs)"
      and d: "cc_onDispatch svc (ty mod 256) d (log_frame ty d c) = Some c2"
      and r: "cc_loop parser svc (drop sz bs) (n + sz) c2 = Some (n', c')"
      by (subst (asm) cc_loop.simps) (auto split: if_splits option.splits)
    from 1(1) [OF FMessage s d r] obtain c1 where "same_net c2 c1" "c' = c1 \<or> c' = cc_shutdown c1" by blast
    moreover have "same_net c c2"
      by (rule same_net_trans [OF _ cc_onDispatch_net [OF d]]) simp
    ultimately show ?thesis using same_net_trans by blast
  qed
qed

lemma cc_shutdown_evolves: "conn_ok c \<Longrightarrow> evolves c (cc_shutdown c)"
  by (simp add: cc_shutdown_def nc_shutdown_evolves)

lemma cc_shutdown_keeps [simp]:
  "nc_recv (cc_shutdown c) = nc_recv c" "nc_consumed (cc_shutdown c) = nc_consumed c"
  "nc_arrived (cc_shutdown c) = nc_arrived c" "nc_h (cc_shutdown c) = nc_h c"
  by (simp_all add: cc_shutdown_def nc_shutdown_def nc_close_def Let_def)

lemma cc_onRecv_net:
  "\<exists>c1. same_net c c1 \<and> (snd (cc_onRecv parser svc bs c) = c1 \<or> snd (cc_onRecv parser svc bs c) = cc_shutdown c1)"
proof (cases "cc_loop parser svc bs 0 (c\<lparr>nc_h := (nc_h c)\<lparr>cc_heartbeats := 0\<rparr>\<rparr>)")
  case None
  then show ?thesis by (auto simp: cc_onRecv_def intro: exI [of _ c])
next
  case (Some r)
  obtain n' c' where r: "r = (n', c')" by fastforce
  from cc_loop_net [OF Some [unfolded r]] same_net_trans [OF same_net_set] show ?thesis
    by (auto simp: cc_onRecv_def Some r)
qed

interpretation cch: connecter_handler "cc_handler parser svc" for parser svc
proof unfold_locales
  fix c :: cconn and bs n
  obtain c1 where c1: "same_net c c1"
    "snd (cc_onRecv parser svc bs c) = c1 \<or> snd (cc_onRecv parser svc bs c) = cc_shutdown c1"
    using cc_onRecv_net by blast
  then obtain x where x: "c1 = c\<lparr>nc_h := x\<rparr>" by (auto simp: same_net_def)
  show "nc_recv (snd (h_onRecv (cc_handler parser svc) bs c)) = nc_recv c"
    "nc_consumed (snd (h_onRecv (cc_handler parser svc) bs c)) = nc_consumed c"
    "nc_arrived (snd (h_onRecv (cc_handler parser svc) bs c)) = nc_arrived c"
    using c1(2) by (auto simp: cc_handler_def x)
  assume ok: "conn_ok c"
  have "evolves c c1" using ok by (simp add: x)
  then show "evolves c (snd (h_onRecv (cc_handler parser svc) bs c))"
    using c1(2) evolves_trans [OF _ cc_shutdown_evolves [OF evolves_ok]] by (auto simp: cc_handler_def)
  show "evolves c (h_onSendComplete (cc_handler parser svc) n c)"
    "evolves c (h_onConnectFail (cc_handler parser svc) c)"
    using ok by (simp_all add: cc_handler_def)
  show "evolves c (h_onConnect (cc_handler parser svc) c)"
    "evolves c (h_onDisconnect (cc_handler parser svc) c)"
    using ok by (simp_all add: cc_handler_def cc_onConnect_def cc_onDisconnect_def enqueue_def Let_def)
qed


text \<open>
  The state of a connection only moves forward, from connecting over connected and
  disconnecting to disconnected, under every event, send, flush and shutdown; once sending is
  closed it stays closed, and what was accepted or handed to the kernel is never taken back.
\<close>

theorem connection_moves_forward:
  assumes "conn_reach (cc_handler parser svc) (cc_new nID) c"
    and "c' \<in> {onEvent (cc_handler parser svc) ev rs ws sockErr self c,
               snd (nc_send_data (cc_handler parser svc) bs bCache ws c),
               flush_queued (cc_handler parser svc) ws c, nc_shutdown bForce c}"
  shows "state_rank (nc_state c) \<le> state_rank (nc_state c') \<and>
         (nc_closeSend c \<longrightarrow> nc_closeSend c') \<and>
         (\<exists>bs. nc_wire c' = nc_wire c @ bs) \<and> (\<exists>bs. nc_accepted c' = nc_accepted c @ bs)"
proof -
  have ok: "conn_ok c" by (rule cch.conn_reach_ok [OF assms(1)])
  have "evolves c c'"
    using assms(2) cch.onEvent_evolves [OF ok] cch.nc_send_data_evolves [OF ok]
      cch.flush_queued_evolves [OF ok] nc_shutdown_evolves [OF ok] by auto
  then show ?thesis by (simp add: evolves_def)
qed

subsection \<open>Framing\<close>

definition frame_of :: "nat \<times> u8 list \<Rightarrow> u8 list" where
  "frame_of m = header_bytes (fst m) (length (snd m)) @ snd m"

definition frameable :: "nat \<times> u8 list \<Rightarrow> bool" where
  "frameable m \<longleftrightarrow> fst m < 2 ^ 32 \<and> message_header_size + length (snd m) < 2 ^ 16"

lemma length_header [simp]: "length (header_bytes ty n) = message_header_size"
  by (simp add: header_bytes_def message_header_size_def)

lemma length_frame [simp]: "length (frame_of m) = message_header_size + length (snd m)"
  by (simp add: frame_of_def)

lemma frame_of_size: "field 0 2 (frame_of m @ rest) = (message_header_size + length (snd m)) mod 2 ^ 16"
  using field_here [of 2 "message_header_size + length (snd m)"]
  by (simp add: frame_of_def header_bytes_def)

lemma frame_of_type: "field 2 4 (frame_of m @ rest) = fst m mod 2 ^ 32"
proof -
  have "field 2 4 (frame_of m @ rest) = field 0 4 (le_bytes 4 (fst m) @ snd m @ rest)"
    by (simp add: frame_of_def header_bytes_def field_skip)
  then show ?thesis by (simp add: field_here)
qed

lemma frame_next_frame:
  assumes "frameable m"
  shows "frame_next None (frame_of m @ rest) = FMessage (length (frame_of m)) (fst m) (snd m)"
  using assms frame_of_size [of m rest] frame_of_type [of m rest]
  by (simp add: frame_next_def frameable_def Let_def) (simp add: frame_of_def)

text \<open>What a message found by the parser says about the bytes before it.\<close>

lemma frame_next_inv:
  assumes "frame_next None bs = FMessage sz ty d"
  shows "sz = message_header_size + length d" and "sz \<le> length bs" and "take sz bs = frame_of (ty, d)"
    and "frameable (ty, d)"
proof -
  from assms have s: "message_header_size \<le> length bs" "sz = field 0 2 bs" "message_header_size \<le> sz"
    "sz \<le> length bs" "ty = field 2 4 bs" "d = drop message_header_size (take sz bs)"
    by (auto simp: frame_next_def Let_def split: if_splits)
  then show sz: "sz = message_header_size + length d" by simp
  show "sz \<le> length bs" by (rule s(4))
  have "le_bytes 2 sz = take 2 bs"
    unfolding s(2) field_def by (subst drop_0) (rule le_bytes_nat', use s(1) in \<open>simp add: message_header_size_def\<close>)
  moreover have "le_bytes 4 ty = take 4 (drop 2 bs)"
    unfolding s(5) field_def by (rule le_bytes_nat') (use s(1) in \<open>simp add: message_header_size_def\<close>)
  ultimately have "header_bytes ty (length d) = take 6 bs"
    by (simp add: header_bytes_def flip: sz) (simp add: take_add [symmetric] flip: take_add)
  moreover have "take 6 bs = take 6 (take sz bs)"
    using s(3) by (simp add: message_header_size_def min_absorb1)
  moreover have "d = drop 6 (take sz bs)" using s(6) by (simp add: message_header_size_def)
  ultimately have "frame_of (ty, d) = take 6 (take sz bs) @ drop 6 (take sz bs)"
    by (simp only: frame_of_def fst_conv snd_conv)
  then show "take sz bs = frame_of (ty, d)" by (simp only: append_take_drop_id)
  show "frameable (ty, d)"
    using field_less [of 0 2 bs] field_less [of 2 4 bs] sz by (simp add: frameable_def s(2,5))
qed

lemma cc_loop_frames:
  "cc_loop None svc bs n c = Some (n', c') \<Longrightarrow>
     \<exists>fs k. cc_frames (nc_h c') = cc_frames (nc_h c) @ fs \<and> n' = n + k \<and> k \<le> length bs \<and>
       take k bs = concat (map frame_of fs) \<and> list_all frameable fs"
proof (induction "None :: msg_parser option" svc bs n c arbitrary: n' c' rule: cc_loop.induct)
  case (1 svc bs n c)
  show ?case
  proof (cases "frame_next None bs")
    case (FMessage sz ty d)
    with 1(2) obtain c2 where s: "\<not> (sz = 0 \<or> sz > length bs)"
      and d: "cc_onDispatch svc (ty mod 256) d (log_frame ty d c) = Some c2"
      and r: "cc_loop None svc (drop sz bs) (n + sz) c2 = Some (n', c')"
      by (subst (asm) cc_loop.simps) (auto split: if_splits option.splits)
    from 1(1) [OF FMessage s d r] obtain fs k where
      f: "cc_frames (nc_h c') = cc_frames (nc_h c2) @ fs" "n' = n + sz + k" "k \<le> length (drop sz bs)"
         "take k (drop sz bs) = concat (map frame_of fs)" "list_all frameable fs" by blast
    have "cc_frames (nc_h c2) = cc_frames (nc_h c) @ [(ty, d)]"
      using cc_onDispatch_frames [OF d] by (simp add: log_frame_def)
    moreover have "take (sz + k) bs = frame_of (ty, d) @ concat (map frame_of fs)"
      using frame_next_inv(3) [OF FMessage] f(4) by (simp add: take_add)
    ultimately show ?thesis using f s frame_next_inv(4) [OF FMessage]
      by (intro exI [of _ "(ty, d) # fs"] exI [of _ "sz + k"]) auto
  qed (use 1(2) in \<open>subst (asm) cc_loop.simps, auto intro!: exI [of _ "[]"]\<close>)+
qed

text \<open>Complete frames are all taken off, and what follows them is looked at next.\<close>

lemma cc_loop_takes:
  assumes "list_all frameable ms"
    and "\<And>m c. m \<in> set ms \<Longrightarrow> cc_onDispatch svc (fst m mod 256) (snd m) c \<noteq> None"
  shows "\<exists>c'. cc_loop None svc (concat (map frame_of ms) @ rest) n c =
                cc_loop None svc rest (n + length (concat (map frame_of ms))) c' \<and>
              cc_frames (nc_h c') = cc_frames (nc_h c) @ ms"
  using assms
proof (induction ms arbitrary: n c)
  case (Cons m ms)
  let ?bs = "concat (map frame_of ms) @ rest"
  have fm: "frame_next None (frame_of m @ ?bs) = FMessage (length (frame_of m)) (fst m) (snd m)"
    using Cons.prems(1) by (intro frame_next_frame) simp
  obtain c2 where d: "cc_onDispatch svc (fst m mod 256) (snd m) (log_frame (fst m) (snd m) c) = Some c2"
    using Cons.prems(2) [of m] by fastforce
  have step: "cc_loop None svc (frame_of m @ ?bs) n c = cc_loop None svc ?bs (n + length (frame_of m)) c2"
    by (subst cc_loop.simps) (simp add: fm d message_header_size_def)
  obtain c' where "cc_loop None svc ?bs (n + length (frame_of m)) c2 =
      cc_loop None svc rest (n + length (frame_of m) + length (concat (map frame_of ms))) c'"
    "cc_frames (nc_h c') = cc_frames (nc_h c2) @ ms"
    using Cons.IH [of "n + length (frame_of m)" c2] Cons.prems by auto
  moreover have "cc_frames (nc_h c2) = cc_frames (nc_h c) @ [m]"
    using cc_onDispatch_frames [OF d] by (simp add: log_frame_def)
  ultimately show ?case using step by (auto simp: add.assoc)
qed (auto intro: exI [of _ c for c])

subsection \<open>What arrived is what was dispatched\<close>

definition hist :: "cconn \<Rightarrow> bool" where
  "hist c \<longleftrightarrow> nc_consumed c = concat (map frame_of (cc_frames (nc_h c))) \<and>
              list_all frameable (cc_frames (nc_h c))"

definition same_hist :: "cconn \<Rightarrow> cconn \<Rightarrow> bool" where
  "same_hist c c' \<longleftrightarrow> nc_consumed c' = nc_consumed c \<and> cc_frames (nc_h c') = cc_frames (nc_h c)"

lemma same_hist_refl [simp]: "same_hist c c" by (simp add: same_hist_def)

lemma same_hist_hist: "same_hist c c' \<Longrightarrow> hist c \<Longrightarrow> hist c'"
  by (simp add: same_hist_def hist_def)

lemma same_hist_close [simp]: "same_hist c (nc_close c)" "same_hist c (nc_shutdown b c)"
  by (simp_all add: same_hist_def nc_shutdown_def nc_close_def Let_def)

lemma same_hist_trans: "same_hist c1 c2 \<Longrightarrow> same_hist c2 c3 \<Longrightarrow> same_hist c1 c3"
  by (simp add: same_hist_def)

lemma same_hist_fields:
  "same_hist c (c'\<lparr>nc_disableWrite := b\<rparr>) = same_hist c c'" "same_hist c (c'\<lparr>nc_queued := b\<rparr>) = same_hist c c'"
  "same_hist c (c'\<lparr>nc_connectFail := b\<rparr>) = same_hist c c'" "same_hist c (c'\<lparr>nc_handler := b\<rparr>) = same_hist c c'"
  "same_hist c (c'\<lparr>nc_state := st\<rparr>) = same_hist c c'" "same_hist c (c'\<lparr>nc_mode := md\<rparr>) = same_hist c c'"
  "same_hist c (c'\<lparr>nc_send := sd\<rparr>) = same_hist c c'" "same_hist c (c'\<lparr>nc_wire := w\<rparr>) = same_hist c c'"
  "same_hist c (c'\<lparr>nc_recv := rv\<rparr>) = same_hist c c'" "same_hist c (c'\<lparr>nc_closeRecv := b\<rparr>) = same_hist c c'"
  "same_hist c (c'\<lparr>nc_arrived := a\<rparr>) = same_hist c c'" "same_hist c (c'\<lparr>nc_accepted := a\<rparr>) = same_hist c c'"
  "same_hist c (c'\<lparr>nc_h := (nc_h c')\<lparr>cc_ccs := s\<rparr>\<rparr>) = same_hist c c'"
  "same_hist c (c'\<lparr>nc_h := (nc_h c')\<lparr>cc_ccs := s, cc_live := l\<rparr>\<rparr>) = same_hist c c'"
  "same_hist c (enqueue p c') = same_hist c c'"
  "same_hist c (nc_buffer bs c') = same_hist c c'" "same_hist c (nc_write bs c') = same_hist c c'"
  by (simp_all add: same_hist_def enqueue_def nc_buffer_def nc_write_def)

lemma send_loop_hist: "same_hist c (send_loop ws c)"
  by (rule send_loop_rel [where R = same_hist])
     (auto simp: same_hist_fields intro: same_hist_trans)

lemma onSend_hist: "same_hist c (onSend (cc_handler parser svc) ws c)"
  using send_loop_hist [of c ws] same_hist_trans [OF send_loop_hist same_hist_close(1), of c ws]
  by (simp add: onSend_def Let_def cc_handler_def)

lemma nc_send_data_hist: "same_hist c (snd (nc_send_data (cc_handler parser svc) bs bCache ws c))"
proof -
  have b: "same_hist c (onSend (cc_handler parser svc) ws (nc_buffer bs c))"
    by (rule same_hist_trans [OF _ onSend_hist]) (simp add: same_hist_fields)
  then have "same_hist c (snd (send_direct (cc_handler parser svc) bs ws c))"
    by (auto simp: send_direct_def Let_def same_hist_fields cc_handler_def
        split: list.split write_result.split)
  with b show ?thesis by (auto simp: nc_send_data_def Let_def same_hist_fields)
qed

lemma hand_over_hist:
  assumes ok: "conn_ok c" and h: "hist c"
  shows "hist (hand_over (cc_handler None svc) c)"
proof (cases "nc_handler c")
  case True
  obtain n c1 where r: "cc_onRecv None svc (rb_data (nc_recv c)) c = (n, c1)" by fastforce
  have keep: "nc_recv c1 = nc_recv c" "nc_consumed c1 = nc_consumed c"
    using cch.recv_keeps [of None svc "rb_data (nc_recv c)" c] r by (simp_all add: cc_handler_def)
  have len: "length (rb_data (nc_recv c)) = rb_readable (nc_recv c)"
    using ok by (simp add: conn_ok_def)
  have "\<exists>fs. cc_frames (nc_h c1) = cc_frames (nc_h c) @ fs \<and> n \<le> rb_readable (nc_recv c) \<and>
      take n (rb_data (nc_recv c)) = concat (map frame_of fs) \<and> list_all frameable fs"
  proof (cases "cc_loop None svc (rb_data (nc_recv c)) 0 (c\<lparr>nc_h := (nc_h c)\<lparr>cc_heartbeats := 0\<rparr>\<rparr>)")
    case None
    with r show ?thesis by (auto simp: cc_onRecv_def)
  next
    case (Some p)
    with r have "cc_loop None svc (rb_data (nc_recv c)) 0 (c\<lparr>nc_h := (nc_h c)\<lparr>cc_heartbeats := 0\<rparr>\<rparr>) = Some (n, c1)"
      by (simp add: cc_onRecv_def)
    from cc_loop_frames [OF this] len show ?thesis by auto
  qed
  with h keep True r show ?thesis by (auto simp: hand_over_def hist_def cc_handler_def)
qed (simp add: hand_over_def h)

lemma onRecv_hist:
  "conn_ok c \<Longrightarrow> hist c \<Longrightarrow> hist (onRecv (cc_handler None svc) rs c)"
proof (induction rs arbitrary: c)
  case Nil
  have "same_hist c (make_room c)" by (simp add: make_room_def same_hist_fields)
  with Nil show ?case using same_hist_hist by simp
next
  case (Cons r rs)
  let ?c1 = "make_room c"
  have ok1: "conn_ok ?c1" using evolves_ok [OF cch.make_room_evolves(1) [OF Cons.prems(1)]] .
  have h1: "hist ?c1"
    using Cons.prems(2) same_hist_hist [of c ?c1] by (simp add: make_room_def same_hist_fields)
  show ?case
  proof (cases r)
    case (RData bs)
    let ?d = "take (rb_writable (nc_recv ?c1)) bs"
    let ?c2 = "take_in ?d ?c1"
    have ok2: "conn_ok ?c2" by (rule evolves_ok [OF cch.take_in_evolves [OF ok1]]) simp
    have h2: "hist ?c2"
      by (rule same_hist_hist [OF _ h1]) (simp add: take_in_def same_hist_fields)
    have "hist (onRecv (cc_handler None svc) rs (hand_over (cc_handler None svc) ?c2))"
      by (rule Cons.IH [OF evolves_ok [OF cch.hand_over_evolves [OF ok2]] hand_over_hist [OF ok2 h2]])
    moreover have "hist (peer_closed ?c1)"
      by (rule same_hist_hist [OF _ h1])
         (simp add: peer_closed_def Let_def same_hist_fields same_hist_trans [OF _ same_hist_close(1)])
    ultimately show ?thesis using RData by (simp add: Let_def)
  next
    case RError
    have "hist (nc_shutdown True ?c1)" by (rule same_hist_hist [OF same_hist_close(2) h1])
    then show ?thesis using RError by (simp add: Let_def)
  qed (use Cons.IH [OF ok1 h1] h1 in \<open>simp_all add: Let_def\<close>)
qed

lemma onConnect_hist: "same_hist c (onConnect (cc_handler parser svc) e s c)"
proof -
  have "same_hist c (nc_shutdown True (c\<lparr>nc_disableWrite := False, nc_connectFail := True\<rparr>))"
    by (rule same_hist_trans [OF _ same_hist_close(2)]) (simp add: same_hist_fields)
  then show ?thesis
    by (simp add: onConnect_def Let_def cc_handler_def cc_onConnect_def same_hist_fields)
qed

lemma onEvent_hist:
  assumes ok: "conn_ok c" and h: "hist c"
  shows "hist (onEvent (cc_handler None svc) ev rs ws e s c)"
proof -
  let ?h = "cc_handler None svc"
  have c: "hist (onConnect ?h e s c)" "conn_ok (onConnect ?h e s c)"
    using same_hist_hist [OF onConnect_hist h] evolves_ok [OF cch.onConnect_evolves [OF ok]] by blast+
  have r: "hist (onRecv ?h rs c)" by (rule onRecv_hist [OF ok h])
  have cr: "hist (onRecv ?h rs (onConnect ?h e s c))" by (rule onRecv_hist [OF c(2,1)])
  have s: "hist c' \<Longrightarrow> hist (onSend ?h ws c')" "hist c' \<Longrightarrow> hist (nc_shutdown True c')" for c'
    using same_hist_hist [OF onSend_hist] same_hist_hist [OF same_hist_close(2)] by blast+
  show ?thesis using h c r cr s by (cases "nc_state c") (simp_all add: onEvent_def Let_def)
qed

lemma conn_reach_hist: "conn_reach (cc_handler None svc) (cc_new nID) c \<Longrightarrow> hist c"
proof (induction rule: conn_reach.induct)
  case (opened n has)
  then show ?case by (simp add: hist_def nc_new_def cc_new_def)
next
  case (connected c usable res e s)
  have "same_hist c (onConnect (cc_handler None svc) e s (c\<lparr>nc_mode := NCM_Initiative, nc_state := NCS_Connected\<rparr>))"
    by (rule same_hist_trans [OF _ onConnect_hist]) (simp add: same_hist_fields)
  then have "same_hist c (snd (nc_connect (cc_handler None svc) usable res e s c))"
    by (simp add: nc_connect_def same_hist_fields split: connect_result.split)
  then show ?case by (rule same_hist_hist [OF _ connected(2)])
next
  case (accepted c)
  then show ?case by (simp add: hist_def nc_accept_def)
next
  case (sent c bs bCache ws)
  show ?case by (rule same_hist_hist [OF nc_send_data_hist sent(2)])
next
  case (flushed c ws)
  have "same_hist c (flush_queued (cc_handler None svc) ws c)"
    using onSend_hist by (simp add: flush_queued_def same_hist_fields)
  then show ?case by (rule same_hist_hist [OF _ flushed(2)])
next
  case (event c ev rs ws e s)
  show ?case by (rule onEvent_hist [OF cch.conn_reach_ok [OF event(1)] event(2)])
next
  case (stopped c b)
  show ?case by (rule same_hist_hist [OF same_hist_close(2) stopped(2)])
next
  case (released c)
  have "same_hist c (nc_release (cc_handler None svc) c)"
    by (simp add: nc_release_def Let_def cc_handler_def cc_onDisconnect_def same_hist_fields)
  then show ?case by (rule same_hist_hist [OF _ released(2)])
qed

lemma frames_prefix:
  assumes "list_all frameable ms" and "concat (map frame_of fs) @ rest = concat (map frame_of ms)"
    and "list_all frameable fs"
  shows "\<exists>ms'. ms = fs @ ms' \<and> rest = concat (map frame_of ms')"
  using assms
proof (induction fs arbitrary: ms)
  case (Cons f fs)
  show ?case
  proof (cases ms)
    case Nil
    with Cons.prems(2) have "length (frame_of f) = 0" by simp
    then show ?thesis by (simp add: message_header_size_def)
  next
    case (Cons m ms')
    have "frame_next None (frame_of f @ concat (map frame_of fs) @ rest) =
        frame_next None (frame_of m @ concat (map frame_of ms'))"
      using Cons.prems(2) Cons by simp
    then have "f = m"
      using frame_next_frame Cons.prems(1,3) Cons by (simp add: prod_eq_iff)
    with Cons.prems Cons Cons.IH [of ms'] show ?thesis by auto
  qed
qed simp


text \<open>
  one call of \<open>onRecv\<close> cuts off every complete message there is and leaves an incomplete
  one for the next call: it consumes exactly the complete frames, and logs their messages in order.
\<close>

theorem onRecv_takes_all:
  assumes "list_all frameable ms" and "length rest < message_header_size"
    and "\<And>m c. m \<in> set ms \<Longrightarrow> cc_onDispatch svc (fst m mod 256) (snd m) c \<noteq> None"
  shows "\<exists>c'. cc_onRecv None svc (concat (map frame_of ms) @ rest) c = (length (concat (map frame_of ms)), c') \<and>
              cc_frames (nc_h c') = cc_frames (nc_h c) @ ms"
proof -
  let ?c = "c\<lparr>nc_h := (nc_h c)\<lparr>cc_heartbeats := 0\<rparr>\<rparr>"
  obtain c' where "cc_loop None svc (concat (map frame_of ms) @ rest) 0 ?c =
      cc_loop None svc rest (0 + length (concat (map frame_of ms))) c'"
    "cc_frames (nc_h c') = cc_frames (nc_h ?c) @ ms"
    using cc_loop_takes [OF assms(1,3), where rest = rest and n = 0 and c = ?c] by blast
  moreover have "cc_loop None svc rest k c' = Some (k, c')" for k
    using assms(2) by (subst cc_loop.simps) (simp add: frame_next_def)
  ultimately show ?thesis by (simp add: cc_onRecv_def)
qed

text \<open>
  the header computes the size of a message in 16 bits. A message of 65530 bytes or more,
  which \<open>send\<close> accepts, gets a size below the header size, and the receiving side shuts the
  connection down instead of delivering it.
\<close>

theorem oversized_message_kills:
  assumes "65530 \<le> length d" and "length d < 65536" and "cc_live (nc_h c)"
  shows "cc_onRecv None svc (frame_of (ty, d) @ rest) c =
     (0, nc_shutdown True (c\<lparr>nc_h := (nc_h c)\<lparr>cc_heartbeats := 0\<rparr>\<rparr>))"
proof -
  have "field 0 2 (frame_of (ty, d) @ rest) = message_header_size + length d - 65536"
    using frame_of_size [of "(ty, d)" rest] assms(1,2) by (simp add: message_header_size_def mod_if)
  then have "frame_next None (frame_of (ty, d) @ rest) = FBad"
    using assms(1,2) by (simp add: frame_next_def message_header_size_def Let_def)
  then show ?thesis using assms(3) by (simp add: cc_onRecv_def cc_shutdown_def cc_loop.simps)
qed

subsection \<open>Sending a message\<close>

text \<open>What sending does to a connection that is not closing.\<close>

definition sends :: "u8 list \<Rightarrow> cconn \<Rightarrow> cconn \<Rightarrow> bool" where
  "sends bs c c' \<longleftrightarrow>
     (nc_closeSend c \<longrightarrow> nc_closeSend c') \<and> (nc_closeSend c' \<or> nc_state c' = nc_state c) \<and>
     nc_accepted c' = nc_accepted c @ bs \<and> nc_h c' = nc_h c"

lemma sends_trans: "sends [] c1 c2 \<Longrightarrow> sends [] c2 c3 \<Longrightarrow> sends [] c1 c3"
  by (auto simp: sends_def)

lemma sends_shutdown: "sends [] c (nc_shutdown b c)"
  by (simp add: sends_def nc_shutdown_def nc_close_def Let_def)

lemma send_loop_sends: "sends [] c (send_loop ws c)"
  by (rule send_loop_rel [where R = "sends []"])
     (auto simp: sends_shutdown intro: sends_trans, auto simp: sends_def)

lemma onSend_sends: "sends [] c (onSend (cc_handler parser svc) ws c)"
  using send_loop_sends [of c ws]
  by (auto simp: onSend_def Let_def cc_handler_def sends_def nc_close_def)

lemma closeSend_simps:
  "nc_closeSend (nc_buffer bs c) = nc_closeSend c" "nc_closeSend (nc_write bs c) = nc_closeSend c"
  "nc_closeSend c \<Longrightarrow> nc_closeSend (nc_shutdown b c)"
  "nc_closeSend c \<Longrightarrow> nc_closeSend (onSend (cc_handler parser svc) ws c)"
  "h_onSendComplete (cc_handler parser svc) n c = c"
  using onSend_sends [of c parser svc ws]
  by (simp_all add: nc_buffer_def nc_write_def nc_shutdown_def nc_close_def Let_def sends_def cc_handler_def)

lemma send_direct_closed:
  assumes "nc_closeSend c"
  shows "nc_closeSend (snd (send_direct (cc_handler parser svc) bs ws c))"
  using assms unfolding send_direct_def Let_def
  by (simp add: closeSend_simps split: list.split write_result.split)

lemma send_closed:
  assumes "nc_closeSend c"
  shows "nc_closeSend (snd (nc_send_data (cc_handler parser svc) bs b ws c))"
  using assms send_direct_closed [OF assms] unfolding nc_send_data_def Let_def
  by (simp add: closeSend_simps)

lemma send_connected:
  assumes "nc_state c = NCS_Connected" and "\<not> nc_closeSend (snd (nc_send_data (cc_handler parser svc) bs b ws c))"
  shows "sends bs c (snd (nc_send_data (cc_handler parser svc) bs b ws c))"
proof -
  let ?h = "cc_handler parser svc"
  have s: "sends bs c (onSend ?h ws (nc_buffer bs c))"
    using onSend_sends [of "nc_buffer bs c" parser svc ws] by (auto simp: sends_def nc_buffer_def)
  have d: "sends bs c (snd (send_direct ?h bs ws c))" if "\<not> nc_closeSend (snd (send_direct ?h bs ws c))"
    using that s assms(1)
    by (auto simp: send_direct_def Let_def cc_handler_def nc_shutdown_def nc_close_def nc_write_def
        nc_buffer_def sends_def split: list.splits write_result.splits if_splits)
  show ?thesis
    using assms s d by (auto simp: nc_send_data_def Let_def nc_buffer_def sends_def split: if_splits)
qed

text \<open>
  sending a message between nodes on a connection that stays open puts exactly one frame
  behind what was accepted before: the header with the size and the type, and the data.
\<close>

theorem send_frames_message:
  assumes "nc_state c = NCS_Connected" and "cc_live (nc_h c)" and "framed_type ty" and "d \<noteq> []"
    and "\<not> nc_closeSend (cc_send (cc_handler parser svc) ty d ws c)"
  shows "nc_accepted (cc_send (cc_handler parser svc) ty d ws c) = nc_accepted c @ frame_of (ty, d)"
proof -
  let ?h = "cc_handler parser svc"
  let ?c1 = "snd (nc_send_data ?h (header_bytes ty (length d)) True (ws 0) c)"
  let ?c2 = "snd (nc_send_data ?h d True (ws 1) ?c1)"
  have e: "cc_send ?h ty d ws c = ?c2"
    using assms(2,3,4) by (auto simp: cc_send_def cc_write_def framed_type_def mt_defs)
  have "nc_closeSend ?c1 \<Longrightarrow> nc_closeSend ?c2" by (rule send_closed)
  with assms(5) e have o1: "\<not> nc_closeSend ?c1" by auto
  from send_connected [OF assms(1) o1] o1 assms(1)
  have a1: "nc_accepted ?c1 = nc_accepted c @ header_bytes ty (length d)" and st: "nc_state ?c1 = NCS_Connected"
    by (auto simp: sends_def)
  from send_connected [OF st] assms(5) e have "nc_accepted ?c2 = nc_accepted ?c1 @ d"
    by (auto simp: sends_def)
  with a1 e show ?thesis by (simp add: frame_of_def)
qed

subsection \<open>A connection that receives\<close>

text \<open>An accepted connection whose first event brings the bytes \<open>bs\<close>.\<close>

definition demo_accepted :: cconn where
  "demo_accepted = nc_accept (nc_new 4096 (cc_new 7) True)"

definition demo_conn :: "u8 list \<Rightarrow> cconn" where
  "demo_conn bs = onEvent (cc_handler None (\<lambda>n. n = 5)) \<lparr>ev_recv = True, ev_send = True, ev_error = False\<rparr>
     [RData bs] [] None False demo_accepted"

lemma demo_reach: "conn_reach (cc_handler None (\<lambda>n. n = 5)) (cc_new 7) (demo_conn bs)"
  unfolding demo_conn_def demo_accepted_def by (intro conn_reach.intros)

lemma hand_over_arrived: "nc_arrived (hand_over (cc_handler parser svc) c) = nc_arrived c"
  using cch.recv_keeps(3) [of parser svc "rb_data (nc_recv c)" c]
  by (cases "h_onRecv (cc_handler parser svc) (rb_data (nc_recv c)) c") (simp add: hand_over_def)

lemma demo_arrived:
  assumes "bs \<noteq> []" and "length bs \<le> 2048"
  shows "nc_arrived (demo_conn bs) = bs"
proof -
  let ?h = "cc_handler None (\<lambda>n. n = 5)"
  let ?c = "onConnect ?h None False demo_accepted"
  have c: "nc_state ?c = NCS_Connected" "nc_recv ?c = snd (rb_init RECV_BUF_SIZE rb_new)" "nc_arrived ?c = []"
    by (simp_all add: onConnect_def demo_accepted_def nc_accept_def nc_new_def cc_handler_def Let_def
        cc_onConnect_def cc_new_def enqueue_def)
  have w: "rb_writable (nc_recv ?c) = 2048"
    unfolding c(2) by (simp add: rb_init_def rb_new_def rb_writable_def RECV_BUF_SIZE_def)
  have m: "make_room ?c = ?c" using w by (simp add: make_room_def)
  have "nc_arrived (make_room x) = nc_arrived x" for x :: cconn by (simp add: make_room_def)
  then have "nc_arrived (onRecv ?h [RData bs] ?c) = bs"
    using assms by (simp add: m w hand_over_arrived take_in_def c(3) Let_def)
  moreover have "nc_state demo_accepted = NCS_Connecting" by (simp add: demo_accepted_def nc_accept_def)
  ultimately show ?thesis using c(1) by (simp add: demo_conn_def onEvent_def)
qed

definition demo_messages :: "(nat \<times> u8 list) list" where
  "demo_messages = [(MT_HEARTBEAT, [1]), (MT_CLIENT, [2, 3])]"

lemma demo_bytes: "concat (map frame_of demo_messages) = [7, 0, 1, 0, 0, 0, 1, 8, 0, 8, 0, 0, 0, 2, 3]"
  by code_simp

lemma demo_frameable: "list_all frameable demo_messages"
  by (simp add: demo_messages_def frameable_def message_header_size_def mt_defs)


lemma connection_moves_forward_witness:
  "state_rank (nc_state (demo_conn [])) \<le> state_rank (nc_state (nc_shutdown True (demo_conn [])))"
  using connection_moves_forward [OF demo_reach, where bForce = True and c' = "nc_shutdown True (demo_conn [])"]
  by blast


lemma onRecv_takes_all_witness:
  "\<exists>c'. cc_onRecv None (\<lambda>n. n = 5) (concat (map frame_of demo_messages) @ [9]) demo_accepted =
     (length (concat (map frame_of demo_messages)), c') \<and> cc_frames (nc_h c') = demo_messages"
proof -
  have ok: "cc_onDispatch (\<lambda>n. n = 5) (fst m mod 256) (snd m) c \<noteq> None" if "m \<in> set demo_messages" for m c
    using that by (auto simp: demo_messages_def cc_onDispatch_def mt_defs)
  have "length ([9] :: u8 list) < message_header_size" by (simp add: message_header_size_def)
  moreover have "cc_frames (nc_h demo_accepted) = []"
    by (simp add: demo_accepted_def nc_accept_def nc_new_def cc_new_def)
  ultimately show ?thesis
    using onRecv_takes_all [OF demo_frameable _ ok, of "[9]" demo_accepted] by simp
qed

lemma oversized_message_kills_witness:
  "\<exists>d. length d = 65530 \<and>
     fst (cc_onRecv None (\<lambda>n. n = 5) (frame_of (MT_REQUEST, d) @ []) demo_accepted) = 0"
proof -
  obtain d :: "u8 list" where d: "length d = 65530" using Ex_list_of_length by blast
  have "cc_live (nc_h demo_accepted)" by (simp add: demo_accepted_def nc_accept_def nc_new_def cc_new_def)
  with oversized_message_kills [of d demo_accepted "\<lambda>n. n = 5" MT_REQUEST "[]"] d show ?thesis by auto
qed

lemma send_frames_message_witness:
  "nc_accepted (cc_send (cc_handler None (\<lambda>n. n = 5)) MT_REQUEST [1, 2] (\<lambda>_. []) (demo_accepted\<lparr>nc_state := NCS_Connected\<rparr>))
     = frame_of (MT_REQUEST, [1, 2])"
proof -
  let ?c = "demo_accepted\<lparr>nc_state := NCS_Connected\<rparr>"
  let ?s = "cc_send (cc_handler None (\<lambda>n. n = 5)) MT_REQUEST [1, 2] (\<lambda>_. []) ?c"
  have live: "cc_live (nc_h ?c)" "nc_accepted ?c = []" "nc_disableWrite ?c" "nc_sndbuf ?c = 4096"
    by (simp_all add: demo_accepted_def nc_accept_def nc_new_def cc_new_def)
  have "\<not> nc_closeSend ?c" by (simp add: demo_accepted_def nc_accept_def nc_new_def)
  then have "\<not> nc_closeSend ?s"
    using live by (simp add: cc_send_def framed_type_def mt_defs cc_write_def nc_send_data_def nc_buffer_def
        message_header_size_def Let_def)
  from send_frames_message [OF _ live(1) _ _ this] show ?thesis
    using live by (simp add: framed_type_def)
qed

end
