(* ===== verification/Message_Queue.thy ===== *)
theory Message_Queue imports Prelude begin

text \<open>
  The message queue of a service and the scheduling of the services over the logic threads:
  \<open>CLogicMessageQueue\<close> (\<open>logic_message_queue.cpp\<close>), \<open>CLogicMessageQueueMgr\<close>
  (\<open>logic_message_queue_mgr.cpp\<close>) and the loop \<open>CLogicRunnable::onProcess\<close>
  (\<open>logic_runnable.cpp\<close>) of \<open>engine/src/libCoreCommon\<close>. Every operation runs under the lock of
  its object, so each is one atomic step; the steps of the threads interleave in any order. Queues
  and threads are named by numbers.
\<close>

subsection \<open>The queue\<close>

datatype queue_flag = InList | NotInList | Dispatch

record 'm lqueue =
  lq_packets :: "'m list"      \<comment> \<open>\<open>m_vecMessagePacket\<close>\<close>
  lq_flag :: queue_flag        \<comment> \<open>\<open>m_nFlag\<close>\<close>

definition lq_new :: "'m lqueue" where
  "lq_new = \<lparr>lq_packets = [], lq_flag = NotInList\<rparr>"

text \<open>The boolean says whether the operation calls \<open>putMessageQueue(this)\<close>.\<close>

definition lq_send :: "'m \<Rightarrow> 'm lqueue \<Rightarrow> bool \<times> 'm lqueue" where
  "lq_send m q =
     (let q1 = q\<lparr>lq_packets := lq_packets q @ [m]\<rparr>
      in if lq_flag q = NotInList then (True, q1\<lparr>lq_flag := InList\<rparr>) else (False, q1))"

definition lq_recv :: "'m lqueue \<Rightarrow> 'm list \<times> 'm lqueue" where
  "lq_recv q =
     (if lq_flag q = InList then (lq_packets q, \<lparr>lq_packets = [], lq_flag = Dispatch\<rparr>) else ([], q))"

definition lq_dispatchEnd :: "'m lqueue \<Rightarrow> bool \<times> 'm lqueue" where
  "lq_dispatchEnd q =
     (if lq_flag q = Dispatch then
        if lq_packets q \<noteq> [] then (True, q\<lparr>lq_flag := InList\<rparr>) else (False, q\<lparr>lq_flag := NotInList\<rparr>)
      else (False, q))"

subsection \<open>The manager and the logic threads\<close>

text \<open>Where a thread is in \<open>onProcess\<close>, with the packets it has yet to dispatch.\<close>

datatype 'm logic_thread = Waiting | Took nat | Dispatching nat "'m list"

record 'm lsys =
  ls_queue :: "nat \<Rightarrow> 'm lqueue"
  ls_list :: "nat list"                   \<comment> \<open>\<open>m_listMessageQueue\<close>\<close>
  ls_thread :: "nat \<Rightarrow> 'm logic_thread"
  ls_sent :: "nat \<Rightarrow> 'm list"             \<comment> \<open>what was sent to each queue so far\<close>
  ls_done :: "nat \<Rightarrow> 'm list"             \<comment> \<open>what was dispatched so far\<close>

definition lsys_new :: "'m lsys" where
  "lsys_new = \<lparr>ls_queue = (\<lambda>_. lq_new), ls_list = [], ls_thread = (\<lambda>_. Waiting),
     ls_sent = (\<lambda>_. []), ls_done = (\<lambda>_. [])\<rparr>"

definition putMessageQueue :: "nat \<Rightarrow> 'm lsys \<Rightarrow> 'm lsys" where
  "putMessageQueue q s = s\<lparr>ls_list := ls_list s @ [q]\<rparr>"

text \<open>\<open>None\<close>: the thread goes on waiting for the condition.\<close>

definition getMessageQueue :: "'m lsys \<Rightarrow> (nat \<times> 'm lsys) option" where
  "getMessageQueue s = (case ls_list s of [] \<Rightarrow> None | q # qs \<Rightarrow> Some (q, s\<lparr>ls_list := qs\<rparr>))"

text \<open>An operation of queue \<open>q\<close> that may put the queue into the list.\<close>

definition on_queue :: "nat \<Rightarrow> bool \<times> 'm lqueue \<Rightarrow> 'm lsys \<Rightarrow> 'm lsys" where
  "on_queue q r s =
     (let s1 = s\<lparr>ls_queue := (ls_queue s)(q := snd r)\<rparr>
      in if fst r then putMessageQueue q s1 else s1)"

definition mq_send :: "nat \<Rightarrow> 'm \<Rightarrow> 'm lsys \<Rightarrow> 'm lsys" where
  "mq_send q m s =
     on_queue q (lq_send m (ls_queue s q)) (s\<lparr>ls_sent := (ls_sent s)(q := ls_sent s q @ [m])\<rparr>)"

text \<open>\<open>onProcess\<close>, one step at a time: take a queue, receive, dispatch each packet, end.\<close>

definition onProcess :: "nat \<Rightarrow> 'm lsys \<Rightarrow> 'm lsys option" where
  "onProcess t s =
     (case ls_thread s t of
        Waiting \<Rightarrow>
          (case getMessageQueue s of
             None \<Rightarrow> None
           | Some (q, s') \<Rightarrow> Some (s'\<lparr>ls_thread := (ls_thread s')(t := Took q)\<rparr>))
      | Took q \<Rightarrow>
          (let (ms, q') = lq_recv (ls_queue s q)
           in Some (on_queue q (False, q') (s\<lparr>ls_thread := (ls_thread s)(t := Dispatching q ms)\<rparr>)))
      | Dispatching q (m # ms) \<Rightarrow>
          Some (s\<lparr>ls_done := (ls_done s)(q := ls_done s q @ [m]),
                  ls_thread := (ls_thread s)(t := Dispatching q ms)\<rparr>)
      | Dispatching q [] \<Rightarrow>
          Some (on_queue q (lq_dispatchEnd (ls_queue s q)) (s\<lparr>ls_thread := (ls_thread s)(t := Waiting)\<rparr>)))"

text \<open>Anyone may send at any time; only the threads of \<open>T\<close> run.\<close>

inductive mq_reach :: "nat set \<Rightarrow> 'm lsys \<Rightarrow> bool" for T where
  start: "mq_reach T lsys_new"
| send: "mq_reach T s \<Longrightarrow> mq_reach T (mq_send q m s)"
| run: "mq_reach T s \<Longrightarrow> t \<in> T \<Longrightarrow> onProcess t s = Some s' \<Longrightarrow> mq_reach T s'"

subsection \<open>The invariant\<close>

fun held :: "'m logic_thread \<Rightarrow> nat option" where
  "held Waiting = None"
| "held (Took q) = Some q"
| "held (Dispatching q _) = Some q"

definition only_holder :: "nat \<Rightarrow> nat \<Rightarrow> 'm lsys \<Rightarrow> bool" where
  "only_holder t q s \<longleftrightarrow> (\<forall>t'. held (ls_thread s t') = Some q \<longrightarrow> t' = t)"

text \<open>
  The flag of a queue says where the queue is: in the list or on its way to one thread, being
  dispatched by one thread, or nowhere, and then it is empty.
\<close>

definition queue_ok :: "'m lsys \<Rightarrow> nat \<Rightarrow> bool" where
  "queue_ok s q \<longleftrightarrow>
     (case lq_flag (ls_queue s q) of
        NotInList \<Rightarrow> q \<notin> set (ls_list s) \<and> (\<forall>t. held (ls_thread s t) \<noteq> Some q) \<and>
          lq_packets (ls_queue s q) = [] \<and> ls_sent s q = ls_done s q
      | InList \<Rightarrow> ls_sent s q = ls_done s q @ lq_packets (ls_queue s q) \<and>
          (if q \<in> set (ls_list s) then \<forall>t. held (ls_thread s t) \<noteq> Some q
           else \<exists>t. ls_thread s t = Took q \<and> only_holder t q s)
      | Dispatch \<Rightarrow> q \<notin> set (ls_list s) \<and>
          (\<exists>t ms. ls_thread s t = Dispatching q ms \<and> only_holder t q s \<and>
             ls_sent s q = ls_done s q @ ms @ lq_packets (ls_queue s q)))"

definition lsys_ok :: "nat set \<Rightarrow> 'm lsys \<Rightarrow> bool" where
  "lsys_ok T s \<longleftrightarrow> distinct (ls_list s) \<and> (\<forall>q. queue_ok s q) \<and> (\<forall>t. t \<notin> T \<longrightarrow> ls_thread s t = Waiting)"

lemma queue_ok_frame:
  assumes "queue_ok s q" and "ls_queue s' q = ls_queue s q" and "q \<in> set (ls_list s') \<longleftrightarrow> q \<in> set (ls_list s)"
    and "ls_sent s' q = ls_sent s q" and "ls_done s' q = ls_done s q"
    and "\<And>t. ls_thread s' t \<noteq> ls_thread s t \<Longrightarrow> held (ls_thread s t) \<noteq> Some q \<and> held (ls_thread s' t) \<noteq> Some q"
  shows "queue_ok s' q"
proof -
  have h: "held (ls_thread s' t) = Some q \<longleftrightarrow> held (ls_thread s t) = Some q" for t
    using assms(6) [of t] by (cases "ls_thread s' t = ls_thread s t") auto
  have e: "ls_thread s' t = x \<longleftrightarrow> ls_thread s t = x" if "held x = Some q" for t x
    using assms(6) [of t] that by (cases "ls_thread s' t = ls_thread s t") auto
  have "only_holder t q s' = only_holder t q s" for t using h by (simp add: only_holder_def)
  then show ?thesis using assms(1-5) h e unfolding queue_ok_def by (simp split: queue_flag.splits if_splits)
qed

lemma queue_ok_cases:
  assumes "queue_ok s q"
  obtains (idle) "lq_flag (ls_queue s q) = NotInList" "q \<notin> set (ls_list s)"
      "\<And>t. held (ls_thread s t) \<noteq> Some q" "lq_packets (ls_queue s q) = []" "ls_sent s q = ls_done s q"
  | (listed) "lq_flag (ls_queue s q) = InList" "q \<in> set (ls_list s)"
      "\<And>t. held (ls_thread s t) \<noteq> Some q" "ls_sent s q = ls_done s q @ lq_packets (ls_queue s q)"
  | (taken) t where "lq_flag (ls_queue s q) = InList" "q \<notin> set (ls_list s)" "ls_thread s t = Took q"
      "only_holder t q s" "ls_sent s q = ls_done s q @ lq_packets (ls_queue s q)"
  | (busy) t ms where "lq_flag (ls_queue s q) = Dispatch" "q \<notin> set (ls_list s)"
      "ls_thread s t = Dispatching q ms" "only_holder t q s"
      "ls_sent s q = ls_done s q @ ms @ lq_packets (ls_queue s q)"
  using assms unfolding queue_ok_def by (auto split: queue_flag.splits if_splits)

lemma queue_okI:
  "lq_flag (ls_queue s q) = NotInList \<Longrightarrow> q \<notin> set (ls_list s) \<Longrightarrow> (\<And>t. held (ls_thread s t) \<noteq> Some q) \<Longrightarrow>
     lq_packets (ls_queue s q) = [] \<Longrightarrow> ls_sent s q = ls_done s q \<Longrightarrow> queue_ok s q"
  "lq_flag (ls_queue s q) = InList \<Longrightarrow> q \<in> set (ls_list s) \<Longrightarrow> (\<And>t. held (ls_thread s t) \<noteq> Some q) \<Longrightarrow>
     ls_sent s q = ls_done s q @ lq_packets (ls_queue s q) \<Longrightarrow> queue_ok s q"
  "lq_flag (ls_queue s q) = InList \<Longrightarrow> q \<notin> set (ls_list s) \<Longrightarrow> ls_thread s t = Took q \<Longrightarrow>
     only_holder t q s \<Longrightarrow> ls_sent s q = ls_done s q @ lq_packets (ls_queue s q) \<Longrightarrow> queue_ok s q"
  "lq_flag (ls_queue s q) = Dispatch \<Longrightarrow> q \<notin> set (ls_list s) \<Longrightarrow> ls_thread s t = Dispatching q ms \<Longrightarrow>
     only_holder t q s \<Longrightarrow> ls_sent s q = ls_done s q @ ms @ lq_packets (ls_queue s q) \<Longrightarrow> queue_ok s q"
  unfolding queue_ok_def by auto

text \<open>A thread that holds a queue is the one its flag speaks of.\<close>

lemma queue_ok_took:
  assumes "queue_ok s q" and "ls_thread s t = Took q"
  shows "lq_flag (ls_queue s q) = InList \<and> q \<notin> set (ls_list s) \<and> only_holder t q s \<and>
     ls_sent s q = ls_done s q @ lq_packets (ls_queue s q)"
proof -
  have h: "held (ls_thread s t) = Some q" using assms(2) by simp
  from assms(1) show ?thesis
  proof (cases rule: queue_ok_cases)
    case (taken t')
    moreover have "t' = t" using taken(4) h by (simp add: only_holder_def)
    ultimately show ?thesis by simp
  next
    case (busy t' ms)
    have "t' = t" using busy(4) h by (simp add: only_holder_def)
    with busy(3) assms(2) show ?thesis by simp
  qed (use h in blast)+
qed

lemma queue_ok_dispatching:
  assumes "queue_ok s q" and "ls_thread s t = Dispatching q ms"
  shows "lq_flag (ls_queue s q) = Dispatch \<and> q \<notin> set (ls_list s) \<and> only_holder t q s \<and>
     ls_sent s q = ls_done s q @ ms @ lq_packets (ls_queue s q)"
proof -
  have h: "held (ls_thread s t) = Some q" using assms(2) by simp
  from assms(1) show ?thesis
  proof (cases rule: queue_ok_cases)
    case (taken t')
    have "t' = t" using taken(4) h by (simp add: only_holder_def)
    with taken(3) assms(2) show ?thesis by simp
  next
    case (busy t' ms')
    moreover have "t' = t" using busy(4) h by (simp add: only_holder_def)
    ultimately show ?thesis using assms(2) by simp
  qed (use h in blast)+
qed

subsection \<open>Every step keeps the invariant\<close>

lemma on_queue_simps [simp]:
  "ls_queue (on_queue q r s) = (ls_queue s)(q := snd r)"
  "ls_list (on_queue q r s) = (if fst r then ls_list s @ [q] else ls_list s)"
  "ls_thread (on_queue q r s) = ls_thread s" "ls_sent (on_queue q r s) = ls_sent s"
  "ls_done (on_queue q r s) = ls_done s"
  by (simp_all add: on_queue_def putMessageQueue_def Let_def)

lemma mq_send_ok:
  assumes "lsys_ok T s"
  shows "lsys_ok T (mq_send q m s)"
proof -
  let ?s = "mq_send q m s"
  have q: "queue_ok s q" and d: "distinct (ls_list s)" using assms by (simp_all add: lsys_ok_def)
  have other: "queue_ok ?s q'" if "q' \<noteq> q" for q'
  proof (rule queue_ok_frame [of s])
    show "queue_ok s q'" using assms by (simp add: lsys_ok_def)
  qed (use that in \<open>simp_all add: mq_send_def\<close>)
  from q have "queue_ok ?s q \<and> distinct (ls_list ?s)"
  proof (cases rule: queue_ok_cases)
    case idle
    have "queue_ok ?s q"
      by (rule queue_okI(2)) (simp_all add: mq_send_def lq_send_def idle)
    with idle(1,2) d show ?thesis by (simp add: mq_send_def lq_send_def)
  next
    case listed
    have "queue_ok ?s q"
      by (rule queue_okI(2)) (simp_all add: mq_send_def lq_send_def listed)
    with listed(1,2) d show ?thesis by (simp add: mq_send_def lq_send_def)
  next
    case (taken t)
    then have "queue_ok ?s q"
      by (intro queue_okI(3) [of _ _ t]) (simp_all add: mq_send_def lq_send_def only_holder_def)
    with taken(1) d show ?thesis by (simp add: mq_send_def lq_send_def)
  next
    case (busy t ms)
    then have "queue_ok ?s q"
      by (intro queue_okI(4) [of _ _ t ms]) (simp_all add: mq_send_def lq_send_def only_holder_def)
    with busy(1) d show ?thesis by (simp add: mq_send_def lq_send_def)
  qed
  moreover have "ls_thread ?s = ls_thread s" by (simp add: mq_send_def)
  ultimately show ?thesis using other assms unfolding lsys_ok_def by metis
qed

text \<open>The four kinds of step of a thread.\<close>

lemma onProcess_cases:
  assumes "onProcess t s = Some s'"
  obtains (take) q qs where "ls_thread s t = Waiting" "ls_list s = q # qs"
      "s' = s\<lparr>ls_list := qs, ls_thread := (ls_thread s)(t := Took q)\<rparr>"
  | (recv) q where "ls_thread s t = Took q"
      "s' = on_queue q (False, snd (lq_recv (ls_queue s q)))
         (s\<lparr>ls_thread := (ls_thread s)(t := Dispatching q (fst (lq_recv (ls_queue s q))))\<rparr>)"
  | (packet) q m ms where "ls_thread s t = Dispatching q (m # ms)"
      "s' = s\<lparr>ls_done := (ls_done s)(q := ls_done s q @ [m]), ls_thread := (ls_thread s)(t := Dispatching q ms)\<rparr>"
  | (finish) q where "ls_thread s t = Dispatching q []"
      "s' = on_queue q (lq_dispatchEnd (ls_queue s q)) (s\<lparr>ls_thread := (ls_thread s)(t := Waiting)\<rparr>)"
  using assms unfolding onProcess_def getMessageQueue_def
  by (auto split: logic_thread.splits list.splits prod.splits)

text \<open>A step of a thread concerns one queue only.\<close>

lemma onProcess_other:
  assumes "onProcess t s = Some s'" and "q' \<noteq> q"
    and "\<And>x. x \<in> {ls_thread s t, ls_thread s' t} \<Longrightarrow> held x = None \<or> held x = Some q"
    and "queue_ok s q'"
  shows "queue_ok s' q'"
  using assms(1)
proof (cases rule: onProcess_cases)
  case (take p qs)
  then have "p = q" using assms(3) [of "ls_thread s' t"] by simp
  with take assms(2) show ?thesis by (intro queue_ok_frame [OF assms(4)]) auto
next
  case (recv p)
  then have "p = q" using assms(3) [of "ls_thread s t"] by simp
  with recv assms(2) show ?thesis by (intro queue_ok_frame [OF assms(4)]) auto
next
  case (packet p m ms)
  then have "p = q" using assms(3) [of "ls_thread s t"] by simp
  with packet assms(2) show ?thesis by (intro queue_ok_frame [OF assms(4)]) auto
next
  case (finish p)
  then have "p = q" using assms(3) [of "ls_thread s t"] by simp
  with finish assms(2) show ?thesis by (intro queue_ok_frame [OF assms(4)]) auto
qed

lemma onProcess_ok:
  assumes "lsys_ok T s" and "t \<in> T" and "onProcess t s = Some s'"
  shows "lsys_ok T s'"
proof -
  have ok: "queue_ok s q" for q using assms(1) by (simp add: lsys_ok_def)
  have d: "distinct (ls_list s)" using assms(1) by (simp add: lsys_ok_def)
  have T: "\<forall>t'. t' \<notin> T \<longrightarrow> ls_thread s' t' = Waiting"
    using assms(3) by (cases rule: onProcess_cases) (use assms(1,2) in \<open>auto simp: lsys_ok_def\<close>)
  have "\<exists>q. queue_ok s' q \<and> distinct (ls_list s') \<and>
      (\<forall>x \<in> {ls_thread s t, ls_thread s' t}. held x = None \<or> held x = Some q)"
    using assms(3)
  proof (cases rule: onProcess_cases)
    case (take q qs)
    from ok [of q] have "queue_ok s' q"
    proof (cases rule: queue_ok_cases)
      case listed
      have "held (ls_thread s t') \<noteq> Some q" for t' by (rule listed(3))
      then have "only_holder t q s'" using take by (auto simp: only_holder_def)
      then show ?thesis using take d listed(1,4) by (intro queue_okI(3) [of _ _ t]) auto
    qed (use take in simp_all)
    with take d show ?thesis by (intro exI [of _ q]) simp
  next
    case (recv q)
    note k = queue_ok_took [OF ok recv(1)]
    then have "queue_ok s' q"
      by (intro queue_okI(4) [of _ _ t "lq_packets (ls_queue s q)"])
        (use recv in \<open>auto simp: lq_recv_def only_holder_def split: if_splits\<close>)
    with recv d show ?thesis by (intro exI [of _ q]) simp
  next
    case (packet q m ms)
    note k = queue_ok_dispatching [OF ok packet(1)]
    then have "queue_ok s' q"
      by (intro queue_okI(4) [of _ _ t ms]) (use packet in \<open>auto simp: only_holder_def split: if_splits\<close>)
    with packet d show ?thesis by (intro exI [of _ q]) simp
  next
    case (finish q)
    note k = queue_ok_dispatching [OF ok finish(1)]
    have free: "held (ls_thread s' t') \<noteq> Some q" for t'
      using k finish by (auto simp: only_holder_def split: if_splits)
    have "queue_ok s' q"
    proof (cases "lq_packets (ls_queue s q) = []")
      case True
      with k finish free show ?thesis by (intro queue_okI(1)) (simp_all add: lq_dispatchEnd_def)
    next
      case False
      with k finish free show ?thesis by (intro queue_okI(2)) (simp_all add: lq_dispatchEnd_def)
    qed
    with finish d k show ?thesis by (intro exI [of _ q]) simp
  qed
  then obtain q where q: "queue_ok s' q" "distinct (ls_list s')"
    and h: "\<And>x. x \<in> {ls_thread s t, ls_thread s' t} \<Longrightarrow> held x = None \<or> held x = Some q" by blast
  have "queue_ok s' q'" for q'
    using q(1) onProcess_other [OF assms(3) _ h ok] by (cases "q' = q") auto
  with q(2) T show ?thesis by (simp add: lsys_ok_def)
qed

lemma lsys_new_ok: "lsys_ok T lsys_new"
  by (auto simp: lsys_ok_def lsys_new_def lq_new_def intro!: queue_okI(1))

lemma mq_reach_ok: "mq_reach T s \<Longrightarrow> lsys_ok T s"
  by (induction rule: mq_reach.induct) (auto intro: lsys_new_ok mq_send_ok onProcess_ok)

lemma one_holder:
  assumes "queue_ok s q" and "held (ls_thread s t) = Some q" and "held (ls_thread s t') = Some q"
  shows "t = t'"
  using assms(1)
proof (cases rule: queue_ok_cases)
  case (taken u)
  show ?thesis using assms(2,3) taken(4) unfolding only_holder_def by metis
next
  case (busy u ms)
  show ?thesis using assms(2,3) busy(4) unfolding only_holder_def by metis
qed (use assms(2) in blast)+

lemma queue_ok_facts:
  assumes "queue_ok s q"
  shows "q \<in> set (ls_list s) \<longrightarrow> held (ls_thread s t) \<noteq> Some q" and "\<exists>rest. ls_sent s q = ls_done s q @ rest"
  using assms by (cases rule: queue_ok_cases; simp)+

text \<open>
  C10: however sends and the steps of the logic threads interleave, no two threads ever have the
  same service at once, a queue is in the manager's list at most once, and the messages dispatched
  by a service are those sent to it, in the order sent, each once: the first ones of them.
\<close>

theorem one_thread_per_service:
  assumes "mq_reach T s"
  shows "(held (ls_thread s t) = Some q \<and> held (ls_thread s t') = Some q \<longrightarrow> t = t') \<and>
     distinct (ls_list s) \<and> (q \<in> set (ls_list s) \<longrightarrow> held (ls_thread s t) \<noteq> Some q) \<and>
     (\<exists>rest. ls_sent s q = ls_done s q @ rest)"
proof -
  note ok = mq_reach_ok [OF assms, unfolded lsys_ok_def]
  then have q: "queue_ok s q" by simp
  with ok show ?thesis using one_holder [OF q, of t t'] queue_ok_facts [OF q] by blast
qed

subsection \<open>Progress\<close>

text \<open>How many steps of the threads are left when nothing more is sent.\<close>

definition queue_work :: "'m lsys \<Rightarrow> nat \<Rightarrow> nat" where
  "queue_work s q = 3 + length (lq_packets (ls_queue s q))"

fun thread_work :: "'m lsys \<Rightarrow> 'm logic_thread \<Rightarrow> nat" where
  "thread_work s Waiting = 0"
| "thread_work s (Took q) = 2 + length (lq_packets (ls_queue s q))"
| "thread_work s (Dispatching q ms) =
     1 + length ms + (if lq_packets (ls_queue s q) = [] then 0 else queue_work s q)"

definition work :: "nat set \<Rightarrow> 'm lsys \<Rightarrow> nat" where
  "work T s = sum_list (map (queue_work s) (ls_list s)) + (\<Sum>t\<in>T. thread_work s (ls_thread s t))"

lemma thread_work_frame:
  "held x \<noteq> Some q \<Longrightarrow> (\<And>p. p \<noteq> q \<Longrightarrow> ls_queue s' p = ls_queue s p) \<Longrightarrow> thread_work s' x = thread_work s x"
  by (cases x) (auto simp: queue_work_def)

lemma work_split:
  assumes "finite T" and "t \<in> T" and "q \<notin> set (ls_list s)"
    and "\<And>t'. t' \<noteq> t \<Longrightarrow> ls_thread s' t' = ls_thread s t' \<and> held (ls_thread s t') \<noteq> Some q"
    and "\<And>p. p \<noteq> q \<Longrightarrow> ls_queue s' p = ls_queue s p"
  shows "sum_list (map (queue_work s') (ls_list s)) = sum_list (map (queue_work s) (ls_list s))"
    and "(\<Sum>t'\<in>T. thread_work s' (ls_thread s' t')) + thread_work s (ls_thread s t) =
      (\<Sum>t'\<in>T. thread_work s (ls_thread s t')) + thread_work s' (ls_thread s' t)"
proof -
  show "sum_list (map (queue_work s') (ls_list s)) = sum_list (map (queue_work s) (ls_list s))"
  proof (intro arg_cong [where f = sum_list] map_cong refl)
    fix p assume "p \<in> set (ls_list s)"
    then have "p \<noteq> q" using assms(3) by auto
    from assms(5) [OF this] show "queue_work s' p = queue_work s p" by (simp add: queue_work_def)
  qed
  have "(\<Sum>t'\<in>T - {t}. thread_work s' (ls_thread s' t')) = (\<Sum>t'\<in>T - {t}. thread_work s (ls_thread s t'))"
  proof (rule sum.cong [OF refl])
    fix t' assume "t' \<in> T - {t}"
    then have "ls_thread s' t' = ls_thread s t'" "held (ls_thread s t') \<noteq> Some q" using assms(4) by auto
    then show "thread_work s' (ls_thread s' t') = thread_work s (ls_thread s t')"
      using thread_work_frame [OF _ assms(5)] by simp
  qed
  then show "(\<Sum>t'\<in>T. thread_work s' (ls_thread s' t')) + thread_work s (ls_thread s t) =
      (\<Sum>t'\<in>T. thread_work s (ls_thread s t')) + thread_work s' (ls_thread s' t)"
    using sum.remove [OF assms(1,2), of "\<lambda>t'. thread_work s' (ls_thread s' t')"]
      sum.remove [OF assms(1,2), of "\<lambda>t'. thread_work s (ls_thread s t')"] by simp
qed

lemma onProcess_work:
  assumes "lsys_ok T s" and "finite T" and "t \<in> T" and "onProcess t s = Some s'"
  shows "work T s = Suc (work T s')"
proof -
  have ok: "queue_ok s q" for q using assms(1) by (simp add: lsys_ok_def)
  have d: "distinct (ls_list s)" using assms(1) by (simp add: lsys_ok_def)
  show ?thesis using assms(4)
  proof (cases rule: onProcess_cases)
    case (take q qs)
    let ?s = "s\<lparr>ls_list := qs\<rparr>"
    have "held (ls_thread s t') \<noteq> Some q" for t' using queue_ok_facts(1) [OF ok] take(2) by simp
    then have "q \<notin> set (ls_list ?s)" and "\<And>t'. t' \<noteq> t \<Longrightarrow> ls_thread s' t' = ls_thread ?s t' \<and> held (ls_thread ?s t') \<noteq> Some q"
      and "\<And>p. p \<noteq> q \<Longrightarrow> ls_queue s' p = ls_queue ?s p"
      using take d by simp_all
    note w = work_split [OF assms(2,3) this]
    have q: "queue_work ?s = queue_work s" by (simp add: fun_eq_iff queue_work_def)
    have t: "thread_work ?s x = thread_work s x" for x by (cases x) (simp_all add: queue_work_def)
    from w(1) have 1: "sum_list (map (queue_work s') qs) = sum_list (map (queue_work s) qs)" using q by simp
    from w(2) have 2: "(\<Sum>t'\<in>T. thread_work s' (ls_thread s' t')) =
        (\<Sum>t'\<in>T. thread_work s (ls_thread s t')) + thread_work s' (ls_thread s' t)"
      unfolding t using take(1) by simp
    have "thread_work s' (ls_thread s' t) + 1 = queue_work s q" using take by (simp add: queue_work_def)
    with 1 2 take show ?thesis by (simp add: work_def)
  next
    case (recv q)
    note k = queue_ok_took [OF ok recv(1)]
    then have "\<And>t'. t' \<noteq> t \<Longrightarrow> ls_thread s' t' = ls_thread s t' \<and> held (ls_thread s t') \<noteq> Some q"
      and "\<And>p. p \<noteq> q \<Longrightarrow> ls_queue s' p = ls_queue s p"
      using recv by (auto simp: only_holder_def)
    note w = work_split [OF assms(2,3) _ this]
    with k recv show ?thesis by (simp add: work_def lq_recv_def)
  next
    case (packet q m ms)
    note k = queue_ok_dispatching [OF ok packet(1)]
    then have "\<And>t'. t' \<noteq> t \<Longrightarrow> ls_thread s' t' = ls_thread s t' \<and> held (ls_thread s t') \<noteq> Some q"
      and "\<And>p. p \<noteq> q \<Longrightarrow> ls_queue s' p = ls_queue s p"
      using packet by (auto simp: only_holder_def)
    note w = work_split [OF assms(2,3) _ this]
    have "queue_work s' q = queue_work s q" using packet by (simp add: queue_work_def)
    moreover have "thread_work s (ls_thread s t) = Suc (thread_work s' (ls_thread s' t))"
      using packet by (simp add: queue_work_def)
    moreover have "ls_list s' = ls_list s" using packet by simp
    ultimately show ?thesis using w k by (simp add: work_def)
  next
    case (finish q)
    note k = queue_ok_dispatching [OF ok finish(1)]
    then have "\<And>t'. t' \<noteq> t \<Longrightarrow> ls_thread s' t' = ls_thread s t' \<and> held (ls_thread s t') \<noteq> Some q"
      and "\<And>p. p \<noteq> q \<Longrightarrow> ls_queue s' p = ls_queue s p"
      using finish by (auto simp: only_holder_def)
    note w = work_split [OF assms(2,3) _ this]
    have "queue_work s' q = queue_work s q" using k finish by (simp add: queue_work_def lq_dispatchEnd_def)
    with w k finish show ?thesis by (auto simp: work_def lq_dispatchEnd_def)
  qed
qed

lemma work_zero:
  assumes "lsys_ok T s" and "finite T" and "work T s = 0"
  shows "ls_done s = ls_sent s"
proof
  fix q
  have idle: "ls_list s = []" using assms(3) by (cases "ls_list s") (simp_all add: work_def queue_work_def)
  have "thread_work s (ls_thread s t) = 0" if "t \<in> T" for t using assms(2,3) that by (simp add: work_def)
  then have "ls_thread s t = Waiting" for t
    using assms(1) by (cases "t \<in> T"; cases "ls_thread s t") (force simp: lsys_ok_def)+
  then have w: "ls_thread s t = Waiting" for t .
  have "queue_ok s q" using assms(1) by (simp add: lsys_ok_def)
  then show "ls_done s q = ls_sent s q"
    by (cases rule: queue_ok_cases) (use idle w in simp_all)
qed

lemma onProcess_None:
  assumes "\<forall>t\<in>T. onProcess t s = None" and "T \<noteq> {}" and "lsys_ok T s" and "finite T"
  shows "work T s = 0"
proof -
  have w: "ls_thread s t = Waiting \<and> ls_list s = []" if "t \<in> T" for t
    using bspec [OF assms(1) that]
    by (auto simp: onProcess_def getMessageQueue_def split: logic_thread.splits list.splits prod.splits)
  then show ?thesis using assms(2) by (auto simp: work_def)
qed

inductive mq_steps :: "nat set \<Rightarrow> nat \<Rightarrow> 'm lsys \<Rightarrow> 'm lsys \<Rightarrow> bool" for T where
  "mq_steps T 0 s s"
| "onProcess t s = Some s1 \<Longrightarrow> t \<in> T \<Longrightarrow> mq_steps T n s1 s' \<Longrightarrow> mq_steps T (Suc n) s s'"

lemma mq_steps_work:
  "mq_steps T n s s' \<Longrightarrow> lsys_ok T s \<Longrightarrow> finite T \<Longrightarrow> work T s = n + work T s' \<and> lsys_ok T s' \<and> ls_sent s' = ls_sent s"
proof (induction rule: mq_steps.induct)
  case (2 t s s1 n s')
  have "ls_sent s1 = ls_sent s" using 2(1) by (cases rule: onProcess_cases) simp_all
  with 2 onProcess_ok [OF 2(5) 2(2,1)] onProcess_work [OF 2(5,6) 2(2,1)] show ?case by simp
qed simp

lemma mq_steps_exist:
  "lsys_ok T s \<Longrightarrow> finite T \<Longrightarrow> T \<noteq> {} \<Longrightarrow> \<exists>s'. mq_steps T (work T s) s s'"
proof (induction "work T s" arbitrary: s)
  case 0
  then show ?case by (metis mq_steps.intros(1))
next
  case (Suc n)
  then obtain t s1 where t: "t \<in> T" "onProcess t s = Some s1"
    using onProcess_None [OF _ Suc(5,3,4)] by fastforce
  then have "n = work T s1" using onProcess_work [OF Suc(3,4) t] Suc(2) by simp
  with Suc(1) onProcess_ok [OF Suc(3) t] Suc(4,5) obtain s' where "mq_steps T n s1 s'" by blast
  with t Suc(2) show ?case by (metis mq_steps.intros(2))
qed

text \<open>
  C11: when nothing more is sent, the threads come to rest after a number of steps that the state
  fixes, in whatever order they run: they can run that long, never longer, and when no thread can
  go on all of them have been taken and every message sent to any service has been dispatched.
  No message is left behind in a queue that no thread will look at.
\<close>

theorem every_message_dispatched:
  assumes "mq_reach T s" and "finite T" and "T \<noteq> {}"
  shows "(\<exists>s'. mq_steps T (work T s) s s') \<and>
     (\<forall>n s'. mq_steps T n s s' \<longrightarrow> n \<le> work T s \<and>
        ((\<forall>t\<in>T. onProcess t s' = None) \<longrightarrow> n = work T s \<and> ls_done s' = ls_sent s))"
proof (intro conjI allI impI)
  note ok = mq_reach_ok [OF assms(1)]
  show "\<exists>s'. mq_steps T (work T s) s s'" by (rule mq_steps_exist [OF ok assms(2,3)])
  fix n and s' :: "'a lsys" assume st: "mq_steps T n s s'"
  note w = mq_steps_work [OF st ok assms(2)]
  then show "n \<le> work T s" by simp
  assume "\<forall>t\<in>T. onProcess t s' = None"
  then have "work T s' = 0" using onProcess_None assms(2,3) w by blast
  with w work_zero [OF _ assms(2), of s'] show "n = work T s" "ls_done s' = ls_sent s" by simp_all
qed

text \<open>Two services, two threads: each thread has one, and a second message comes in meanwhile.\<close>

definition demo_mq :: "nat lsys" where
  "demo_mq = mq_send 5 30 (the (onProcess 0 (the (onProcess 1 (the (onProcess 0
     (mq_send 6 20 (mq_send 5 10 lsys_new))))))))"

lemma demo_mq_run:
  "onProcess 0 (mq_send 6 20 (mq_send 5 (10::nat) lsys_new)) \<noteq> None"
  "onProcess 1 (the (onProcess 0 (mq_send 6 20 (mq_send 5 (10::nat) lsys_new)))) \<noteq> None"
  "onProcess 0 (the (onProcess 1 (the (onProcess 0 (mq_send 6 20 (mq_send 5 (10::nat) lsys_new)))))) \<noteq> None"
  by (simp_all add: onProcess_def getMessageQueue_def mq_send_def lsys_new_def lq_new_def lq_send_def
      lq_recv_def on_queue_def putMessageQueue_def)

lemma demo_mq_reach: "mq_reach {0, 1} demo_mq"
proof -
  have run: "mq_reach {0, 1} (the (onProcess t s))"
    if "mq_reach {0, 1} s" "onProcess t s \<noteq> None" "t \<in> {0, 1}" for t and s :: "nat lsys"
    using mq_reach.run [OF that(1,3)] that(2) by auto
  show ?thesis unfolding demo_mq_def
    by (intro mq_reach.send run mq_reach.start demo_mq_run) simp_all
qed

lemma demo_mq_state:
  "ls_thread demo_mq 0 = Dispatching 5 [10]" "ls_thread demo_mq 1 = Took 6" "ls_sent demo_mq 5 = [10, 30]"
  "work {0, 1} demo_mq = 9"
  by (simp_all add: demo_mq_def onProcess_def getMessageQueue_def mq_send_def lsys_new_def lq_new_def lq_send_def
      lq_recv_def on_queue_def putMessageQueue_def work_def queue_work_def)

theorem one_thread_per_service_witness:
  "held (ls_thread demo_mq 0) = Some 5 \<and> held (ls_thread demo_mq 1) \<noteq> Some 5 \<and>
   (\<exists>rest. [10, 30] = ls_done demo_mq 5 @ rest)"
  using one_thread_per_service [OF demo_mq_reach, of 0 5 1] demo_mq_state by simp

theorem every_message_dispatched_witness:
  "\<exists>s'. mq_steps {0, 1} 9 demo_mq s'"
  using every_message_dispatched [OF demo_mq_reach] demo_mq_state(4) by simp

end
