(* ===== verification/Ordered_Map.thy ===== *)
theory Ordered_Map imports Prelude "HOL-Library.List_Lexorder" begin

text \<open>
  \<open>std::map\<close> as the list of its entries in the order of the keys, the order in which the code
  iterates over it, and \<open>std::set\<close> iterated in order. Keys of type \<open>std::string\<close> are byte lists
  in lexicographic order.
\<close>

type_synonym bstr = "u8 list"

type_synonym ('k, 'v) omap = "('k \<times> 'v) list"

definition om_ok :: "('k::linorder, 'v) omap \<Rightarrow> bool" where
  "om_ok m \<longleftrightarrow> sorted (map fst m) \<and> distinct (map fst m)"

fun om_put :: "'k::linorder \<Rightarrow> 'v \<Rightarrow> ('k, 'v) omap \<Rightarrow> ('k, 'v) omap" where
  "om_put k v [] = [(k, v)]"
| "om_put k v ((k', v') # m) =
     (if k < k' then (k, v) # (k', v') # m
      else if k = k' then (k, v) # m
      else (k', v') # om_put k v m)"

definition om_del :: "'k \<Rightarrow> ('k, 'v) omap \<Rightarrow> ('k, 'v) omap" where
  "om_del k m = filter (\<lambda>(k', _). k' \<noteq> k) m"

abbreviation om_get :: "('k, 'v) omap \<Rightarrow> 'k \<Rightarrow> 'v option" where
  "om_get \<equiv> map_of"

lemma om_ok_Nil [simp]: "om_ok []"
  by (simp add: om_ok_def)

lemma om_ok_Cons: "om_ok ((k, v) # m) \<longleftrightarrow> (\<forall>k' \<in> fst ` set m. k < k') \<and> om_ok m"
  unfolding om_ok_def by (auto simp: less_le image_iff)

lemma om_put_keys: "fst ` set (om_put k v m) = insert k (fst ` set m)"
  by (induction k v m rule: om_put.induct) auto

lemma om_put_ok [simp]: "om_ok m \<Longrightarrow> om_ok (om_put k v m)"
proof (induction k v m rule: om_put.induct)
  case (2 k v k' v' m)
  then show ?case using om_put_keys [of k v m] by (auto simp: om_ok_Cons)
qed (simp add: om_ok_def)

lemma om_get_less: "om_ok ((k', v') # m) \<Longrightarrow> k < k' \<Longrightarrow> map_of m k = None"
  by (force simp: om_ok_Cons map_of_eq_None_iff)

lemma om_get_put [simp]: "om_ok m \<Longrightarrow> om_get (om_put k v m) = (om_get m)(k \<mapsto> v)"
proof (induction k v m rule: om_put.induct)
  case (2 k v k' v' m)
  have "om_ok m" using 2(2) by (simp add: om_ok_Cons)
  with 2 show ?case by (auto simp: fun_eq_iff)
qed simp

lemma om_del_ok [simp]: "om_ok m \<Longrightarrow> om_ok (om_del k m)"
  by (induction m) (auto simp: om_del_def om_ok_Cons)

lemma om_get_del [simp]: "om_get (om_del k m) = (om_get m)(k := None)"
  by (induction m) (auto simp: om_del_def fun_eq_iff)

lemma om_del_put: "om_ok m \<Longrightarrow> om_del k (om_put k v m) = om_del k m"
proof (induction k v m rule: om_put.induct)
  case (2 k v k' v' m)
  then have "om_ok m" by (simp add: om_ok_Cons)
  with 2 show ?case by (auto simp: om_del_def)
qed (simp add: om_del_def)

text \<open>Inserting at the end, in the order of the keys, is appending.\<close>

lemma om_put_snoc: "(\<forall>k' \<in> fst ` set m. k' < k) \<Longrightarrow> om_put k v m = m @ [(k, v)]"
proof (induction m)
  case (Cons p m)
  then have "fst p < k" by simp
  with Cons show ?case by (cases p) auto
qed simp

lemma om_rebuild:
  "om_ok (m0 @ m) \<Longrightarrow> fold (\<lambda>(k, v). om_put k v) m m0 = m0 @ m"
proof (induction m arbitrary: m0)
  case (Cons p m)
  obtain k v where p: "p = (k, v)" by fastforce
  have "\<forall>k' \<in> fst ` set m0. k' \<le> k \<and> k' \<noteq> k"
    using Cons.prems p unfolding om_ok_def by (auto simp: sorted_append image_iff)
  then have "\<forall>k' \<in> fst ` set m0. k' < k" by (simp add: less_le)
  then have "om_put k v m0 = m0 @ [(k, v)]" by (rule om_put_snoc)
  with Cons.IH [of "m0 @ [(k, v)]"] Cons.prems p show ?case by simp
qed simp

lemma om_get_in: "om_get m k = Some v \<Longrightarrow> (k, v) \<in> set m"
  by (rule map_of_SomeD)

lemma om_in_get: "om_ok m \<Longrightarrow> (k, v) \<in> set m \<longleftrightarrow> om_get m k = Some v"
  by (simp add: om_ok_def)

text \<open>The entry of a map, made with a default value when it is missing, as \<open>operator []\<close> does.\<close>

definition om_at :: "'v \<Rightarrow> ('k, 'v) omap \<Rightarrow> 'k \<Rightarrow> 'v" where
  "om_at d m k = (case om_get m k of None \<Rightarrow> d | Some v \<Rightarrow> v)"

end
