(* ===== verification/Core_Service.thy ===== *)
theory Core_Service imports Ticker_Props Core_Connection Ordered_Map begin

text \<open>
  The state of a service, \<open>CCoreService\<close> of \<open>engine/src/libCoreCommon/core_service.cpp\<close>: the
  session ids and the requests waiting for a response, with their timers in the wheel of
  \<open>Ticker_Mgr\<close> and the lists of the holders they belong to; the health of the other services; the
  handlers and the serializers registered. Callbacks are named by numbers, serializers are of a
  type \<open>'s\<close>. A \<open>SPendingResponseInfo\<close> holds its ticker by value: the model gives each new object
  a ticker number of its own (\<open>cs_new\<close> counts the objects), never used again. These tickers have
  the even numbers, all other tickers of the service the odd ones.
\<close>

subsection \<open>State\<close>

record pending_info =
  pi_session :: nat
  pi_coroutine :: nat
  pi_holder :: nat
  pi_begin :: int
  pi_to :: nat
  pi_callback :: nat
  pi_ticker :: nat       \<comment> \<open>\<open>tickTimeout\<close>\<close>

datatype run_state = SRS_Start | SRS_Normal | SRS_Quitting | SRS_Quit

record 's core_service =
  cs_id :: nat
  cs_run :: run_state
  cs_nextSession :: u64                         \<comment> \<open>\<open>m_nNextSessionID\<close>\<close>
  cs_pending :: "(nat, pending_info) omap"      \<comment> \<open>\<open>m_mapPendingResponseInfo\<close>\<close>
  cs_holders :: "(nat, nat list) omap"          \<comment> \<open>\<open>m_mapHolderSessionIDList\<close>\<close>
  cs_health :: "(nat, int) omap"                \<comment> \<open>\<open>m_mapServiceHealth\<close>\<close>
  cs_messageHandler :: "(bstr, nat) omap"
  cs_forwardHandler :: "(nat, nat \<times> bstr) omap"
  cs_serializer :: "(nat, 's) omap"             \<comment> \<open>\<open>m_mapMessageSerializer\<close>\<close>
  cs_serializerType :: "(bstr, nat) omap"
  cs_defaultType :: nat
  cs_forwardType :: nat
  cs_qps :: u32
  cs_curQPS :: u32
  cs_tm :: ticker_mgr                           \<comment> \<open>\<open>m_pTickerMgr\<close>\<close>
  cs_new :: nat                                 \<comment> \<open>the \<open>SPendingResponseInfo\<close> made so far\<close>
  cs_queue :: "packet list"                     \<comment> \<open>what the service sent to its own queue\<close>

definition cs_start :: "nat \<Rightarrow> int \<Rightarrow> 's core_service" where
  "cs_start nID nTime =
     \<lparr>cs_id = nID, cs_run = SRS_Start, cs_nextSession = 0, cs_pending = [], cs_holders = [], cs_health = [],
      cs_messageHandler = [], cs_forwardHandler = [], cs_serializer = [], cs_serializerType = [],
      cs_defaultType = 0, cs_forwardType = 0, cs_qps = 0, cs_curQPS = 0,
      cs_tm = tm_new nTime True (\<lambda>_. \<lparr>tk_node = None, tk_callback = False, tk_coroutine = False\<rparr>),
      cs_new = 0, cs_queue = []\<rparr>"

definition RRT_OK :: nat where "RRT_OK = 1"
definition RRT_TIME_OUT :: nat where "RRT_TIME_OUT = 2"
definition RRT_ERROR :: nat where "RRT_ERROR = 3"

subsection \<open>Requests that wait for a response\<close>

definition genSessionID :: "'s core_service \<Rightarrow> u64 \<times> 's core_service" where
  "genSessionID cs =
     (let n = cs_nextSession cs + 1; n' = (if n = 0 then 1 else n)
      in (n', cs\<lparr>cs_nextSession := n'\<rparr>))"

text \<open>The time-out message goes to the service's own queue.\<close>

definition onRequestMessageTimeout :: "nat \<Rightarrow> 's core_service \<Rightarrow> 's core_service" where
  "onRequestMessageTimeout nContext cs =
     (case om_get (cs_pending cs) nContext of
        None \<Rightarrow> cs
      | Some p \<Rightarrow> cs\<lparr>cs_queue := cs_queue cs @ [PResponse (cs_id cs) (pi_session p) (pi_to p) 0 RRT_TIME_OUT [] []]\<rparr>)"

text \<open>
  \<open>iterHolder\<close> points at the list element with the session's id; a list has no id twice
  (\<open>cs_ok\<close> below), so erasing the element is \<open>remove1\<close>.
\<close>

definition getPendingResponseInfo :: "nat \<Rightarrow> 's core_service \<Rightarrow> pending_info option \<times> 's core_service" where
  "getPendingResponseInfo nSessionID cs =
     (case om_get (cs_pending cs) nSessionID of
        None \<Rightarrow> (None, cs)
      | Some p \<Rightarrow>
          (let cs1 = cs\<lparr>cs_pending := om_del nSessionID (cs_pending cs)\<rparr>
           in if pi_holder p \<noteq> 0 then
                (case om_get (cs_holders cs1) (pi_holder p) of
                   None \<Rightarrow> (Some p, cs1)
                 | Some l \<Rightarrow> (Some p, cs1\<lparr>cs_holders := om_put (pi_holder p) (remove1 nSessionID l) (cs_holders cs1)\<rparr>))
              else (Some p, cs1)))"

text \<open>The destructor of a \<open>SPendingResponseInfo\<close>, which is that of its ticker.\<close>

definition destroy_pending :: "pending_info \<Rightarrow> 's core_service \<Rightarrow> 's core_service" where
  "destroy_pending p cs = cs\<lparr>cs_tm := unregisterTicker (pi_ticker p) (cs_tm cs)\<rparr>"

text \<open>\<open>dflt\<close>: \<open>getDefaultServiceInvokeTimeout()\<close>; \<open>now\<close>: \<open>getGmtTime()\<close>.\<close>

definition addPendingResponseInfo ::
    "nat \<Rightarrow> int \<Rightarrow> nat \<Rightarrow> nat \<Rightarrow> nat \<Rightarrow> nat \<Rightarrow> nat \<Rightarrow> nat \<Rightarrow> 's core_service \<Rightarrow> pending_info option \<times> 's core_service" where
  "addPendingResponseInfo dflt now nToServiceID nSessionID nCoroutineID callback nTimeout nHolderID cs =
     (if om_get (cs_pending cs) nSessionID \<noteq> None then (None, cs)
      else
        (let t = 2 * cs_new cs;
             p = \<lparr>pi_session = nSessionID, pi_coroutine = nCoroutineID, pi_holder = nHolderID, pi_begin = now,
                  pi_to = nToServiceID, pi_callback = callback, pi_ticker = t\<rparr>;
             nTimeout = (if nTimeout = 0 then dflt else nTimeout);
             cs1 = cs\<lparr>cs_new := Suc (cs_new cs),
                      cs_tm := snd (registerTicker t nTimeout 0 nSessionID (setCallback t True False (cs_tm cs))),
                      cs_pending := om_put nSessionID p (cs_pending cs)\<rparr>
         in if nHolderID \<noteq> 0 then
              (Some p, cs1\<lparr>cs_holders := om_put nHolderID (om_at [] (cs_holders cs1) nHolderID @ [nSessionID]) (cs_holders cs1)\<rparr>)
            else (Some p, cs1)))"

definition del_one :: "nat \<Rightarrow> 's core_service \<Rightarrow> 's core_service" where
  "del_one nSessionID cs =
     (case om_get (cs_pending cs) nSessionID of
        None \<Rightarrow> cs
      | Some p \<Rightarrow> destroy_pending p (cs\<lparr>cs_pending := om_del nSessionID (cs_pending cs)\<rparr>))"

definition delPendingResponseInfo :: "nat \<Rightarrow> 's core_service \<Rightarrow> 's core_service" where
  "delPendingResponseInfo nHolderID cs =
     (case om_get (cs_holders cs) nHolderID of
        None \<Rightarrow> cs
      | Some l \<Rightarrow> (let cs1 = fold del_one l cs in cs1\<lparr>cs_holders := om_del nHolderID (cs_holders cs1)\<rparr>))"

subsection \<open>Health\<close>

definition MAX_SERVICE_HEALTH :: int where "MAX_SERVICE_HEALTH = 100"
definition HIGH_SERVICE_HEALTH :: int where "HIGH_SERVICE_HEALTH = 80"
definition LOW_SERVICE_HEALTH :: int where "LOW_SERVICE_HEALTH = 20"
definition SUCCESS_HEALTH :: int where "SUCCESS_HEALTH = 1"
definition TIMEOUT_HEALTH :: int where "TIMEOUT_HEALTH = 2"

text \<open>\<open>valid\<close>: \<open>isValidService\<close> of the registry proxy; \<open>nRand\<close>: the random number drawn.\<close>

definition isServiceHealth :: "(nat \<Rightarrow> bool) \<Rightarrow> nat \<Rightarrow> nat \<Rightarrow> 's core_service \<Rightarrow> bool" where
  "isServiceHealth valid nRand nServiceID cs =
     (if \<not> valid nServiceID then False
      else case om_get (cs_health cs) nServiceID of
             None \<Rightarrow> True
           | Some h \<Rightarrow> if h \<ge> HIGH_SERVICE_HEALTH then True else int nRand \<le> h)"

definition updateServiceHealth :: "nat \<Rightarrow> bool \<Rightarrow> 's core_service \<Rightarrow> 's core_service" where
  "updateServiceHealth nServiceID bTimeout cs =
     (let h = om_at MAX_SERVICE_HEALTH (cs_health cs) nServiceID;
          h' = (if bTimeout then max (h - TIMEOUT_HEALTH) 0 else min (h + SUCCESS_HEALTH) MAX_SERVICE_HEALTH)
      in cs\<lparr>cs_health := om_put nServiceID h' (cs_health cs)\<rparr>)"

text \<open>\<open>invoke\<close>: the result of the transporter's \<open>invoke\<close> of a health request, by service and session.\<close>

definition check_one :: "nat \<Rightarrow> int \<Rightarrow> (nat \<Rightarrow> u64 \<Rightarrow> bool) \<Rightarrow> nat \<times> int \<Rightarrow> 's core_service \<Rightarrow> 's core_service" where
  "check_one dflt now invoke e cs =
     (case e of (nToServiceID, nHealth) \<Rightarrow>
        if nHealth > LOW_SERVICE_HEALTH then cs
        else let (nSessionID, cs1) = genSessionID cs
             in if \<not> invoke nToServiceID nSessionID then cs1
                else snd (addPendingResponseInfo dflt now nToServiceID (unat nSessionID) 0 0 0 0 cs1))"

definition onCheckServiceHealth :: "nat \<Rightarrow> int \<Rightarrow> (nat \<Rightarrow> u64 \<Rightarrow> bool) \<Rightarrow> 's core_service \<Rightarrow> 's core_service" where
  "onCheckServiceHealth dflt now invoke cs = fold (check_one dflt now invoke) (cs_health cs) cs"

subsection \<open>Handlers and serializers\<close>

definition registerServiceMessageHandler :: "bstr \<Rightarrow> nat \<Rightarrow> 's core_service \<Rightarrow> 's core_service" where
  "registerServiceMessageHandler szMessageName callback cs =
     (if om_get (cs_messageHandler cs) szMessageName \<noteq> None then cs
      else cs\<lparr>cs_messageHandler := om_put szMessageName callback (cs_messageHandler cs)\<rparr>)"

text \<open>\<open>hash\<close>: \<open>function_util::hash\<close>, the id of a message name.\<close>

definition registerServiceForwardHandler :: "(bstr \<Rightarrow> nat) \<Rightarrow> bstr \<Rightarrow> nat \<Rightarrow> 's core_service \<Rightarrow> 's core_service" where
  "registerServiceForwardHandler hash szMessageName callback cs =
     (let nMessageID = hash szMessageName
      in case om_get (cs_forwardHandler cs) nMessageID of
           Some (_, old) \<Rightarrow>
             if szMessageName \<noteq> old then cs
             else cs\<lparr>cs_forwardHandler := om_put nMessageID (callback, szMessageName) (cs_forwardHandler cs)\<rparr>
         | None \<Rightarrow> cs\<lparr>cs_forwardHandler := om_put nMessageID (callback, szMessageName) (cs_forwardHandler cs)\<rparr>)"

definition getServiceMessageHandler :: "bstr \<Rightarrow> 's core_service \<Rightarrow> nat option" where
  "getServiceMessageHandler szMessageName cs = om_get (cs_messageHandler cs) szMessageName"

definition getServiceForwardHandler :: "nat \<Rightarrow> 's core_service \<Rightarrow> (nat \<times> bstr) option" where
  "getServiceForwardHandler nMessageID cs = om_get (cs_forwardHandler cs) nMessageID"

definition addServiceMessageSerializer :: "nat \<Rightarrow> 's \<Rightarrow> 's core_service \<Rightarrow> 's core_service" where
  "addServiceMessageSerializer nType ser cs = cs\<lparr>cs_serializer := om_put nType ser (cs_serializer cs)\<rparr>"

definition setServiceMessageSerializer :: "bstr \<Rightarrow> nat \<Rightarrow> 's core_service \<Rightarrow> 's core_service" where
  "setServiceMessageSerializer szServiceType nType cs =
     (if szServiceType = [] then cs\<lparr>cs_defaultType := nType\<rparr>
      else cs\<lparr>cs_serializerType := om_put szServiceType nType (cs_serializerType cs)\<rparr>)"

definition setForwardMessageSerializer :: "nat \<Rightarrow> 's core_service \<Rightarrow> 's core_service" where
  "setForwardMessageSerializer nType cs = cs\<lparr>cs_forwardType := nType\<rparr>"

definition getServiceMessageSerializerByType :: "nat \<Rightarrow> 's core_service \<Rightarrow> 's option" where
  "getServiceMessageSerializerByType nType cs = om_get (cs_serializer cs) nType"

definition getServiceMessageSerializer :: "bstr \<Rightarrow> 's core_service \<Rightarrow> 's option" where
  "getServiceMessageSerializer szServiceType cs =
     om_get (cs_serializer cs) (om_at (cs_defaultType cs) (cs_serializerType cs) szServiceType)"

definition getForwardMessageSerializer :: "'s core_service \<Rightarrow> 's option" where
  "getForwardMessageSerializer cs = om_get (cs_serializer cs) (cs_forwardType cs)"

subsection \<open>Load and quitting\<close>

definition incQPS :: "'s core_service \<Rightarrow> 's core_service" where
  "incQPS cs = cs\<lparr>cs_curQPS := cs_curQPS cs + 1\<rparr>"

definition onQPS :: "'s core_service \<Rightarrow> 's core_service" where
  "onQPS cs = cs\<lparr>cs_qps := cs_curQPS cs, cs_curQPS := 0\<rparr>"

definition cs_quit :: "'s core_service \<Rightarrow> 's core_service" where
  "cs_quit cs = (if cs_run cs = SRS_Normal then cs\<lparr>cs_run := SRS_Quitting\<rparr> else cs)"

definition cs_doQuit :: "'s core_service \<Rightarrow> 's core_service" where
  "cs_doQuit cs = (if cs_run cs = SRS_Quitting then cs\<lparr>cs_run := SRS_Quit\<rparr> else cs)"

subsection \<open>A frame\<close>

text \<open>
  \<open>onFrame\<close> updates the wheel, which calls the callbacks of the tickers that are due; for the
  timer of a request that is \<open>onRequestMessageTimeout\<close> with the context the wheel passes. \<open>cb\<close>:
  what the other callbacks do with tickers.
\<close>

definition cs_onFrame :: "(nat \<Rightarrow> ticker_mgr \<Rightarrow> ticker_op list) \<Rightarrow> int \<Rightarrow> 's core_service \<Rightarrow> 's core_service option" where
  "cs_onFrame cb nCurTime cs =
     map_option
       (\<lambda>m. fold (\<lambda>f. onRequestMessageTimeout (fr_context f))
          (filter (\<lambda>f. even (fr_ticker f)) (drop (length (tm_fired (cs_tm cs))) (tm_fired m)))
          (cs\<lparr>cs_tm := m\<rparr>))
       (update cb nCurTime (cs_tm cs))"

subsection \<open>The invariant of the requests\<close>

definition requests_ok :: "'s core_service \<Rightarrow> bool" where
  "requests_ok cs \<longleftrightarrow>
     om_ok (cs_pending cs) \<and> om_ok (cs_holders cs) \<and>
     (\<forall>s p. om_get (cs_pending cs) s = Some p \<longrightarrow> pi_session p = s \<and> s \<noteq> 0) \<and>
     (\<forall>h. distinct (om_at [] (cs_holders cs) h) \<and>
        set (om_at [] (cs_holders cs) h) =
          {s. h \<noteq> 0 \<and> (\<exists>p. om_get (cs_pending cs) s = Some p \<and> pi_holder p = h)})"

lemma requests_okD:
  assumes "requests_ok cs"
  shows "om_ok (cs_pending cs)" and "om_ok (cs_holders cs)"
    and "om_get (cs_pending cs) s = Some p \<Longrightarrow> pi_session p = s \<and> s \<noteq> 0"
    and "distinct (om_at [] (cs_holders cs) h)"
    and "s \<in> set (om_at [] (cs_holders cs) h) \<longleftrightarrow>
      h \<noteq> 0 \<and> (\<exists>p. om_get (cs_pending cs) s = Some p \<and> pi_holder p = h)"
  using assms unfolding requests_ok_def by blast+

lemma requests_okI:
  assumes "om_ok (cs_pending cs)" and "om_ok (cs_holders cs)"
    and "\<And>s p. om_get (cs_pending cs) s = Some p \<Longrightarrow> pi_session p = s \<and> s \<noteq> 0"
    and "\<And>h. distinct (om_at [] (cs_holders cs) h)"
    and "\<And>h s. s \<in> set (om_at [] (cs_holders cs) h) \<longleftrightarrow>
      h \<noteq> 0 \<and> (\<exists>p. om_get (cs_pending cs) s = Some p \<and> pi_holder p = h)"
  shows "requests_ok cs"
  using assms unfolding requests_ok_def by blast

lemma requests_ok_cong:
  "cs_pending cs' = cs_pending cs \<Longrightarrow> cs_holders cs' = cs_holders cs \<Longrightarrow> requests_ok cs' = requests_ok cs"
  by (simp add: requests_ok_def)

lemma om_at_put: "om_ok m \<Longrightarrow> om_at d (om_put k v m) k' = (if k' = k then v else om_at d m k')"
  by (simp add: om_at_def)

lemma om_at_del: "om_at d (om_del k m) k' = (if k' = k then d else om_at d m k')"
  by (simp add: om_at_def)

lemma add_requests:
  assumes "requests_ok cs" and "nSessionID \<noteq> 0"
  shows "requests_ok (snd (addPendingResponseInfo dflt now to nSessionID co cb tmo h cs))"
proof (cases "om_get (cs_pending cs) nSessionID")
  case None
  let ?cs = "snd (addPendingResponseInfo dflt now to nSessionID co cb tmo h cs)"
  note k = requests_okD [OF assms(1)]
  have p: "om_get (cs_pending ?cs) = (om_get (cs_pending cs))(nSessionID \<mapsto>
      \<lparr>pi_session = nSessionID, pi_coroutine = co, pi_holder = h, pi_begin = now, pi_to = to,
       pi_callback = cb, pi_ticker = 2 * cs_new cs\<rparr>)"
    using None k(1) by (simp add: addPendingResponseInfo_def Let_def)
  have l: "om_at [] (cs_holders ?cs) h' =
      om_at [] (cs_holders cs) h' @ (if h' = h \<and> h \<noteq> 0 then [nSessionID] else [])" for h'
    using None k(2) by (simp add: addPendingResponseInfo_def Let_def om_at_put)
  have new: "nSessionID \<notin> set (om_at [] (cs_holders cs) h')" for h' using k(5) None by simp
  show ?thesis
  proof (rule requests_okI)
    show "om_ok (cs_pending ?cs)" "om_ok (cs_holders ?cs)"
      using None k(1,2) by (simp_all add: addPendingResponseInfo_def Let_def)
    show "pi_session p' = s \<and> s \<noteq> 0" if "om_get (cs_pending ?cs) s = Some p'" for s p'
      using that p k(3) assms(2) by (auto split: if_splits)
    show "distinct (om_at [] (cs_holders ?cs) h')" for h'
      unfolding l using k(4) [of h'] new [of h'] by auto
    show "s \<in> set (om_at [] (cs_holders ?cs) h') \<longleftrightarrow>
        h' \<noteq> 0 \<and> (\<exists>p. om_get (cs_pending ?cs) s = Some p \<and> pi_holder p = h')" for s h'
      using l k(5) [of s h'] p new by auto
  qed
qed (use assms in \<open>simp add: addPendingResponseInfo_def\<close>)

lemma get_requests:
  assumes "requests_ok cs"
  shows "requests_ok (snd (getPendingResponseInfo s cs))"
    and "om_get (cs_pending (snd (getPendingResponseInfo s cs))) = (om_get (cs_pending cs))(s := None)"
proof -
  let ?cs = "snd (getPendingResponseInfo s cs)"
  note k = requests_okD [OF assms]
  show p: "om_get (cs_pending ?cs) = (om_get (cs_pending cs))(s := None)"
    by (simp add: getPendingResponseInfo_def Let_def fun_eq_iff split: option.splits)
  have l: "om_at [] (cs_holders ?cs) h = remove1 s (om_at [] (cs_holders cs) h)" for h
  proof (cases "s \<in> set (om_at [] (cs_holders cs) h)")
    case True
    then obtain p where "om_get (cs_pending cs) s = Some p" "pi_holder p = h" "h \<noteq> 0" using k(5) by blast
    moreover have "\<exists>l. om_get (cs_holders cs) h = Some l"
      using True by (cases "om_get (cs_holders cs) h") (simp_all add: om_at_def)
    ultimately show ?thesis using k(2) by (auto simp: getPendingResponseInfo_def Let_def om_at_put) (simp add: om_at_def)
  next
    case False
    have "om_at [] (cs_holders ?cs) h = om_at [] (cs_holders cs) h"
    proof (cases "om_get (cs_pending cs) s")
      case (Some p)
      with False k(5) have "pi_holder p \<noteq> h \<or> h = 0" by blast
      with Some k(2) show ?thesis
        by (auto simp: getPendingResponseInfo_def Let_def om_at_put split: option.splits)
    qed (simp add: getPendingResponseInfo_def)
    with False show ?thesis by (simp add: remove1_idem)
  qed
  show "requests_ok ?cs"
  proof (rule requests_okI)
    show "om_ok (cs_pending ?cs)" "om_ok (cs_holders ?cs)"
      using k(1,2) by (simp_all add: getPendingResponseInfo_def Let_def split: option.splits)
    show "pi_session p' = s' \<and> s' \<noteq> 0" if "om_get (cs_pending ?cs) s' = Some p'" for s' p'
      using that p k(3) by (auto split: if_splits)
    show "distinct (om_at [] (cs_holders ?cs) h)" for h using l k(4) by simp
    show "s' \<in> set (om_at [] (cs_holders ?cs) h) \<longleftrightarrow>
        h \<noteq> 0 \<and> (\<exists>p. om_get (cs_pending ?cs) s' = Some p \<and> pi_holder p = h)" for s' h
      using l k(4,5) [of h] k(5) [of s' h] p by (auto simp: set_remove1_eq)
  qed
qed

lemma del_one_requests:
  assumes "om_ok (cs_pending cs)"
  shows "om_ok (cs_pending (del_one s cs))" and "cs_holders (del_one s cs) = cs_holders cs"
    and "om_get (cs_pending (del_one s cs)) = (om_get (cs_pending cs))(s := None)"
  using assms by (auto simp: del_one_def destroy_pending_def split: option.splits)

lemma del_all_requests:
  assumes "om_ok (cs_pending cs)"
  shows "om_ok (cs_pending (fold del_one l cs)) \<and> cs_holders (fold del_one l cs) = cs_holders cs \<and>
    om_get (cs_pending (fold del_one l cs)) = (\<lambda>s. if s \<in> set l then None else om_get (cs_pending cs) s)"
  using assms
proof (induction l arbitrary: cs)
  case (Cons s l)
  from Cons.IH [OF del_one_requests(1) [OF Cons.prems, of s]] del_one_requests(2,3) [OF Cons.prems, of s]
  show ?case by (auto simp: fun_eq_iff)
qed simp

text \<open>The requests of the holder are gone, the others are as they were.\<close>

lemma del_pending_get:
  assumes "requests_ok cs"
  shows "om_get (cs_pending (delPendingResponseInfo h cs)) s =
    (case om_get (cs_pending cs) s of
       None \<Rightarrow> None | Some p \<Rightarrow> if h \<noteq> 0 \<and> pi_holder p = h then None else Some p)"
proof -
  note k = requests_okD [OF assms]
  have "om_get (cs_pending (delPendingResponseInfo h cs)) s =
      (if s \<in> set (om_at [] (cs_holders cs) h) then None else om_get (cs_pending cs) s)"
    using del_all_requests [OF k(1)]
    by (simp add: delPendingResponseInfo_def Let_def om_at_def split: option.splits)
  then show ?thesis unfolding k(5) by (auto split: option.splits)
qed

lemma del_pending_requests:
  assumes "requests_ok cs"
  shows "requests_ok (delPendingResponseInfo h cs)"
proof -
  let ?cs = "delPendingResponseInfo h cs"
  note k = requests_okD [OF assms]
  note p = del_pending_get [OF assms, of h]
  have l: "om_at [] (cs_holders ?cs) h' = (if h' = h then [] else om_at [] (cs_holders cs) h')" for h'
    using del_all_requests [OF k(1)]
    by (simp add: delPendingResponseInfo_def Let_def om_at_del split: option.splits) (simp add: om_at_def)
  show ?thesis
  proof (rule requests_okI)
    show "om_ok (cs_pending ?cs)" "om_ok (cs_holders ?cs)"
      using del_all_requests [OF k(1)] k(1,2) by (simp_all add: delPendingResponseInfo_def Let_def split: option.splits)
    show "pi_session p' = s \<and> s \<noteq> 0" if "om_get (cs_pending ?cs) s = Some p'" for s p'
      using that k(3) by (auto simp: p split: option.splits if_splits)
    show "distinct (om_at [] (cs_holders ?cs) h')" for h' unfolding l using k(4) by simp
    show "s \<in> set (om_at [] (cs_holders ?cs) h') \<longleftrightarrow>
        h' \<noteq> 0 \<and> (\<exists>p. om_get (cs_pending ?cs) s = Some p \<and> pi_holder p = h')" for s h'
    proof (cases "h' = h")
      case True
      then show ?thesis unfolding l p by (auto split: option.splits)
    next
      case False
      then show ?thesis unfolding l using k(5) [of s h'] by (auto simp: p split: option.splits)
    qed
  qed
qed

subsection \<open>The timers of the requests\<close>

text \<open>A ticker of a request is idle or waits for one shot.\<close>

definition armed :: "nat \<Rightarrow> ticker_mgr \<Rightarrow> bool" where
  "armed t m \<longleftrightarrow> idle t m \<or> (\<exists>x ctx. pending t x 0 ctx m)"

definition timers_ok :: "'s core_service \<Rightarrow> bool" where
  "timers_ok cs \<longleftrightarrow> wheel_inv (cs_tm cs) \<and> tm_hook (cs_tm cs) \<and>
     (\<forall>t. even t \<longrightarrow> armed t (cs_tm cs)) \<and> (\<forall>t. even t \<and> 2 * cs_new cs \<le> t \<longrightarrow> idle t (cs_tm cs))"

lemma timers_okD:
  assumes "timers_ok cs"
  shows "wheel_inv (cs_tm cs)" and "tm_hook (cs_tm cs)" and "even t \<Longrightarrow> armed t (cs_tm cs)"
    and "even t \<Longrightarrow> 2 * cs_new cs \<le> t \<Longrightarrow> idle t (cs_tm cs)"
  using assms unfolding timers_ok_def by blast+

lemma timers_ok_cong: "cs_tm cs' = cs_tm cs \<Longrightarrow> cs_new cs' = cs_new cs \<Longrightarrow> timers_ok cs' = timers_ok cs"
  by (simp add: timers_ok_def)

lemma client_op_hook: "tm_hook (client_op op m) = tm_hook m"
  by (cases op) (auto simp: registerTicker_def unregisterTicker_def moveTicker_def setCallback_def
      insertTicker_def link_push_def link_remove_def Let_def split: option.splits)

lemma op_keeps:
  assumes "wheel_inv m" and "\<not> touches t op"
  shows "armed t m \<Longrightarrow> armed t (client_op op m)" and "idle t m \<Longrightarrow> idle t (client_op op m)"
proof -
  from client_op_keeps [OF assms(1) [unfolded wheel_inv_def] assms(2)]
  have k: "keeps t m (client_op op m)" .
  show "armed t m \<Longrightarrow> armed t (client_op op m)" and i: "idle t m \<Longrightarrow> idle t (client_op op m)"
    using keeps_pending [OF k] keeps_idle [OF k] unfolding armed_def by blast+
qed

lemma op_timers:
  assumes "timers_ok cs" and "\<And>t. even t \<Longrightarrow> \<not> touches t op"
  shows "timers_ok (cs\<lparr>cs_tm := client_op op (cs_tm cs)\<rparr>)"
proof -
  note k = timers_okD [OF assms(1)]
  show ?thesis unfolding timers_ok_def
    using k(2) client_op_wheel_inv [OF k(1)] op_keeps [OF k(1) assms(2)] k(3,4) by (auto simp: client_op_hook)
qed

lemma unregister_idle: "idle t (unregisterTicker t m)"
  by (auto simp: idle_def unregisterTicker_def link_remove_def Let_def split: option.splits)

lemma unregister_timers:
  assumes "timers_ok cs"
  shows "timers_ok (destroy_pending p cs)"
proof -
  let ?op = "OpUnregister (pi_ticker p)"
  note k = timers_okD [OF assms]
  have m: "cs_tm (destroy_pending p cs) = client_op ?op (cs_tm cs)" "cs_new (destroy_pending p cs) = cs_new cs"
    by (simp_all add: destroy_pending_def)
  have "armed t (client_op ?op (cs_tm cs))" if "even t" for t
  proof (cases "t = pi_ticker p")
    case True
    then show ?thesis using unregister_idle by (simp add: armed_def)
  next
    case False
    then show ?thesis using op_keeps(1) [OF k(1) _ k(3) [OF that], of ?op] by simp
  qed
  moreover have "idle t (client_op ?op (cs_tm cs))" if "even t" "2 * cs_new cs \<le> t" for t
  proof (cases "t = pi_ticker p")
    case True
    then show ?thesis using unregister_idle by simp
  next
    case False
    then show ?thesis using op_keeps(2) [OF k(1) _ k(4) [OF that], of ?op] by simp
  qed
  ultimately show ?thesis unfolding timers_ok_def m
    using k(2) client_op_wheel_inv [OF k(1), of ?op] by (simp add: client_op_hook del: client_op.simps)
qed

lemma register_pending:
  assumes "idle t m" and "tk_callback (tm_tickers m t)"
  shows "pending t (tm_time m + int st) 0 ctx (snd (registerTicker t st 0 ctx m))"
  using assms by (simp add: pending_def idle_def registerTicker_def insertTicker_def link_push_def Let_def)

lemma add_timers:
  assumes "timers_ok cs"
  shows "timers_ok (snd (addPendingResponseInfo dflt now to s co cb tmo h cs))"
proof (cases "om_get (cs_pending cs) s")
  case None
  let ?cs = "snd (addPendingResponseInfo dflt now to s co cb tmo h cs)" and ?t = "2 * cs_new cs"
  define st where "st = (if tmo = 0 then dflt else tmo)"
  define m1 where "m1 = client_op (OpSetCallback ?t True False) (cs_tm cs)"
  let ?op = "OpRegister ?t st 0 s"
  note k = timers_okD [OF assms]
  have m: "cs_tm ?cs = client_op ?op m1" "cs_new ?cs = Suc (cs_new cs)"
    using None by (simp_all add: addPendingResponseInfo_def Let_def m1_def st_def)
  have w1: "wheel_inv m1" "tm_hook m1" unfolding m1_def using client_op_wheel_inv [OF k(1)] k(2) by (simp_all only: client_op_hook)
  have "idle ?t m1" "tk_callback (tm_tickers m1 ?t)"
    using k(4) [of ?t] by (simp_all add: m1_def setCallback_def idle_def)
  then have new: "armed ?t (client_op ?op m1)" using register_pending [of ?t m1 st s] by (auto simp: armed_def)
  have other: "armed t (client_op ?op m1)" "2 * cs_new cs \<le> t \<Longrightarrow> idle t (client_op ?op m1)" if "even t" "t \<noteq> ?t" for t
  proof -
    have t: "\<not> touches t (OpSetCallback ?t True False)" "\<not> touches t ?op" using that(2) by simp_all
    show "armed t (client_op ?op m1)"
      by (intro op_keeps(1) [OF w1(1) t(2)]) (unfold m1_def, intro op_keeps(1) [OF k(1) t(1)] k(3) that(1))
    show "2 * cs_new cs \<le> t \<Longrightarrow> idle t (client_op ?op m1)"
      by (intro op_keeps(2) [OF w1(1) t(2)]) (unfold m1_def, intro op_keeps(2) [OF k(1) t(1)] k(4) that(1))
  qed
  have "armed t (client_op ?op m1)" if "even t" for t using new other(1) [OF that] by (cases "t = ?t") simp_all
  moreover have "idle t (client_op ?op m1)" if "even t" "2 * Suc (cs_new cs) \<le> t" for t
    using other(2) [OF that(1)] that(2) by simp
  ultimately show ?thesis unfolding timers_ok_def m
    using client_op_wheel_inv [OF w1(1), of ?op] w1(2) by (simp add: client_op_hook del: client_op.simps)
qed (use assms in \<open>simp add: addPendingResponseInfo_def\<close>)

text \<open>What a frame does to the ticker of a request: if it fires, then with the context 0.\<close>

lemma update_armed:
  assumes u: "update cb nTime m = Some m'" and inv: "wheel_inv m" "tm_hook m" and cb: "leaves_alone cb t"
    and a: "armed t m"
  shows "armed t m' \<and> (idle t m \<longrightarrow> idle t m') \<and>
    (\<exists>new. recs t m' = recs t m @ new \<and> (\<forall>f\<in>set new. fr_context f = 0))"
proof -
  let ?k = "nat (nTime + 1 - tm_time m)"
  have u': "update_n cb ?k m = Some m'" using u by (simp add: update_def)
  show ?thesis
  proof (cases "idle t m")
    case True
    with update_n_idle [OF u' inv(1) cb True] show ?thesis by (simp add: armed_def)
  next
    case False
    then obtain x ctx where p: "pending t x 0 ctx m" using a by (auto simp: armed_def)
    have "fr_context (the_rec (tm_hook m) t x 0 ctx) = 0" using inv(2) by (simp add: the_rec_def)
    with update_n_oneshot [OF u' inv(1) cb p] False show ?thesis
      unfolding armed_def by (cases "x < tm_time m + int ?k") auto
  qed
qed

lemma update_hook:
  assumes "update cb nTime m = Some m'" and "wheel_inv m" and "leaves_alone cb t"
  shows "tm_hook m' = tm_hook m"
proof -
  have "update_n cb k m = Some m' \<Longrightarrow> wheel_inv m \<Longrightarrow> tm_hook m' = tm_hook m" for k
  proof (induction k arbitrary: m)
    case (Suc k)
    then obtain m1 where t: "tick cb m = Some m1" and u: "update_n cb k m1 = Some m'"
      by (auto simp: bind_eq_Some_conv')
    from Suc.IH [OF u tick_result(1) [OF t Suc.prems(2)]] tick_ticker(1) [OF t Suc.prems(2) assms(3)]
    show ?case by simp
  qed simp
  with assms(1,2) show ?thesis by (simp add: update_def)
qed

lemma update_fired:
  assumes u: "update cb nTime m = Some m'" and inv: "wheel_inv m" "tm_hook m"
    and a: "\<And>t. even t \<Longrightarrow> leaves_alone cb t \<and> armed t m"
    and f: "f \<in> set (drop (length (tm_fired m)) (tm_fired m'))" "even (fr_ticker f)"
  shows "fr_context f = 0"
proof -
  let ?t = "fr_ticker f"
  obtain new where n: "tm_fired m' = tm_fired m @ new"
    using update_n_result [of cb _ m m', OF _ inv(1)] u unfolding update_def by blast
  obtain new' where r: "recs ?t m' = recs ?t m @ new'" "\<forall>f\<in>set new'. fr_context f = 0"
    using update_armed [OF u inv] a [OF f(2)] by blast
  then have "filter (\<lambda>g. fr_ticker g = ?t) new = new'" using n by (simp add: recs_def)
  moreover have "f \<in> set (filter (\<lambda>g. fr_ticker g = ?t) new)" using f(1) n by simp
  ultimately show ?thesis using r(2) by blast
qed

lemma frame_step:
  assumes r: "requests_ok cs" and t: "timers_ok cs" and cb: "\<And>t. even t \<Longrightarrow> leaves_alone cb t"
    and f: "cs_onFrame cb nTime cs = Some cs'"
  shows "\<exists>m. cs' = cs\<lparr>cs_tm := m\<rparr> \<and> timers_ok cs'"
proof -
  note k = timers_okD [OF t]
  obtain m where u: "update cb nTime (cs_tm cs) = Some m" and cs': "cs' = fold (\<lambda>f. onRequestMessageTimeout (fr_context f))
      (filter (\<lambda>f. even (fr_ticker f)) (drop (length (tm_fired (cs_tm cs))) (tm_fired m))) (cs\<lparr>cs_tm := m\<rparr>)"
    using f by (auto simp: cs_onFrame_def)
  have none: "onRequestMessageTimeout 0 (cs\<lparr>cs_tm := m\<rparr>) = cs\<lparr>cs_tm := m\<rparr>"
    using requests_okD(3) [OF r, of 0] by (cases "om_get (cs_pending cs) 0") (auto simp: onRequestMessageTimeout_def)
  have "fold (\<lambda>f. onRequestMessageTimeout (fr_context f)) fs (cs\<lparr>cs_tm := m\<rparr>) = cs\<lparr>cs_tm := m\<rparr>"
    if "\<forall>f\<in>set fs. fr_context f = 0" for fs
    using that none by (induction fs) simp_all
  moreover have "\<forall>f\<in>set (filter (\<lambda>f. even (fr_ticker f)) (drop (length (tm_fired (cs_tm cs))) (tm_fired m))). fr_context f = 0"
    using update_fired [OF u k(1,2)] cb k(3) by simp
  ultimately have e: "cs' = cs\<lparr>cs_tm := m\<rparr>" unfolding cs' by blast
  have "armed t m \<and> (idle t (cs_tm cs) \<longrightarrow> idle t m)" if "even t" for t
    using update_armed [OF u k(1,2) cb [OF that] k(3) [OF that]] by blast
  then have "timers_ok cs'"
    using update_wheel_inv [OF k(1) u] update_hook [OF u k(1) cb [of 0]] k(2,4) e by (simp add: timers_ok_def)
  with e show ?thesis by blast
qed

subsection \<open>Histories\<close>

definition health_ok :: "'s core_service \<Rightarrow> bool" where
  "health_ok cs \<longleftrightarrow> om_ok (cs_health cs) \<and>
     (\<forall>k h. om_get (cs_health cs) k = Some h \<longrightarrow> 0 \<le> h \<and> h \<le> MAX_SERVICE_HEALTH)"

text \<open>
  What a service goes through: requests are added, with ids of \<open>genSessionID\<close> or others that are
  not 0, and taken by their response, whose handling ends with destroying the object; holders go
  away; health is updated and checked; frames pass; other tickers are used. The callbacks of one
  frame leave the tickers of the requests alone.
\<close>

inductive cs_reach :: "'s core_service \<Rightarrow> bool" where
  start: "cs_reach (cs_start nID nTime)"
| gen: "cs_reach cs \<Longrightarrow> cs_reach (snd (genSessionID cs))"
| add: "cs_reach cs \<Longrightarrow> s \<noteq> 0 \<Longrightarrow> cs_reach (snd (addPendingResponseInfo dflt now to s co cb tmo h cs))"
| got: "cs_reach cs \<Longrightarrow> cs_reach (snd (getPendingResponseInfo s cs))"
| destroyed: "cs_reach cs \<Longrightarrow> (\<And>s q. om_get (cs_pending cs) s = Some q \<Longrightarrow> pi_ticker q \<noteq> pi_ticker p) \<Longrightarrow>
    cs_reach (destroy_pending p cs)"
| holder_gone: "cs_reach cs \<Longrightarrow> cs_reach (delPendingResponseInfo h cs)"
| health: "cs_reach cs \<Longrightarrow> cs_reach (updateServiceHealth i b cs)"
| check: "cs_reach cs \<Longrightarrow> cs_reach (onCheckServiceHealth dflt now invoke cs)"
| ticker: "cs_reach cs \<Longrightarrow> (\<And>t. even t \<Longrightarrow> \<not> touches t op) \<Longrightarrow> cs_reach (cs\<lparr>cs_tm := client_op op (cs_tm cs)\<rparr>)"
| frame: "cs_reach cs \<Longrightarrow> (\<And>t. even t \<Longrightarrow> leaves_alone cb t) \<Longrightarrow> cs_onFrame cb nTime cs = Some cs' \<Longrightarrow> cs_reach cs'"

definition cs_ok :: "'s core_service \<Rightarrow> bool" where
  "cs_ok cs \<longleftrightarrow> requests_ok cs \<and> timers_ok cs \<and> health_ok cs \<and> cs_queue cs = []"

lemma genSessionID_fields [simp]:
  "cs_pending (snd (genSessionID cs)) = cs_pending cs" "cs_holders (snd (genSessionID cs)) = cs_holders cs"
  "cs_tm (snd (genSessionID cs)) = cs_tm cs" "cs_new (snd (genSessionID cs)) = cs_new cs"
  "cs_health (snd (genSessionID cs)) = cs_health cs" "cs_queue (snd (genSessionID cs)) = cs_queue cs"
  "fst (genSessionID cs) \<noteq> 0"
  by (simp_all add: genSessionID_def Let_def)

lemma add_fields [simp]:
  "cs_health (snd (addPendingResponseInfo dflt now to s co cb tmo h cs)) = cs_health cs"
  "cs_queue (snd (addPendingResponseInfo dflt now to s co cb tmo h cs)) = cs_queue cs"
  by (simp_all add: addPendingResponseInfo_def Let_def)

lemma get_fields [simp]:
  "cs_health (snd (getPendingResponseInfo s cs)) = cs_health cs" "cs_queue (snd (getPendingResponseInfo s cs)) = cs_queue cs"
  "cs_tm (snd (getPendingResponseInfo s cs)) = cs_tm cs" "cs_new (snd (getPendingResponseInfo s cs)) = cs_new cs"
  by (simp_all add: getPendingResponseInfo_def Let_def split: option.splits)

lemma destroy_fields [simp]:
  "cs_pending (destroy_pending p cs) = cs_pending cs" "cs_holders (destroy_pending p cs) = cs_holders cs"
  "cs_health (destroy_pending p cs) = cs_health cs" "cs_queue (destroy_pending p cs) = cs_queue cs"
  by (simp_all add: destroy_pending_def)

lemma gen_ok: "cs_ok cs \<Longrightarrow> cs_ok (snd (genSessionID cs))"
  by (simp add: cs_ok_def requests_ok_def timers_ok_def health_ok_def)

lemma add_ok:
  "cs_ok cs \<Longrightarrow> s \<noteq> 0 \<Longrightarrow> cs_ok (snd (addPendingResponseInfo dflt now to s co cb tmo h cs))"
  by (simp add: cs_ok_def add_requests add_timers health_ok_def)

lemma check_one_ok:
  assumes "cs_ok cs"
  shows "cs_ok (check_one dflt now invoke e cs)"
proof -
  let ?g = "genSessionID cs"
  have "cs_ok (snd ?g)" by (rule gen_ok [OF assms])
  moreover have "unat (fst ?g) \<noteq> 0" by (simp add: unat_eq_zero)
  ultimately show ?thesis
    using assms by (cases e; cases ?g) (auto simp: check_one_def intro: add_ok)
qed

lemma check_all_ok: "cs_ok cs \<Longrightarrow> cs_ok (fold (check_one dflt now invoke) es cs)"
  by (induction es arbitrary: cs) (simp_all add: check_one_ok)

lemma del_one_timers:
  assumes "timers_ok cs"
  shows "timers_ok (del_one s cs)" and "cs_health (del_one s cs) = cs_health cs" and "cs_queue (del_one s cs) = cs_queue cs"
proof -
  show "timers_ok (del_one s cs)"
  proof (cases "om_get (cs_pending cs) s")
    case (Some p)
    have "timers_ok (cs\<lparr>cs_pending := om_del s (cs_pending cs)\<rparr>)" using assms by (simp add: timers_ok_def)
    with Some show ?thesis using unregister_timers by (simp add: del_one_def)
  qed (use assms in \<open>simp add: del_one_def\<close>)
  show "cs_health (del_one s cs) = cs_health cs" "cs_queue (del_one s cs) = cs_queue cs"
    by (simp_all add: del_one_def destroy_pending_def split: option.splits)
qed

lemma del_pending_timers:
  assumes "timers_ok cs"
  shows "timers_ok (delPendingResponseInfo h cs) \<and> cs_health (delPendingResponseInfo h cs) = cs_health cs \<and>
    cs_queue (delPendingResponseInfo h cs) = cs_queue cs"
proof -
  have "timers_ok (fold del_one l cs) \<and> cs_health (fold del_one l cs) = cs_health cs \<and>
      cs_queue (fold del_one l cs) = cs_queue cs" for l
    using assms by (induction l arbitrary: cs) (simp_all add: del_one_timers)
  then show ?thesis using assms
    by (simp add: delPendingResponseInfo_def Let_def timers_ok_def split: option.splits)
qed

lemma health_ok_update:
  assumes "health_ok cs"
  shows "health_ok (updateServiceHealth i b cs)"
proof -
  have "0 \<le> om_at MAX_SERVICE_HEALTH (cs_health cs) i \<and> om_at MAX_SERVICE_HEALTH (cs_health cs) i \<le> MAX_SERVICE_HEALTH"
    using assms by (auto simp: om_at_def health_ok_def MAX_SERVICE_HEALTH_def split: option.splits)
  then show ?thesis using assms
    by (auto simp: health_ok_def updateServiceHealth_def Let_def MAX_SERVICE_HEALTH_def TIMEOUT_HEALTH_def SUCCESS_HEALTH_def)
qed

lemma start_ok: "cs_ok (cs_start nID nTime)"
proof -
  have "wheel_inv (cs_tm (cs_start nID nTime))" by (simp add: cs_start_def tm_new_wheel_inv)
  then show ?thesis
    by (simp add: cs_ok_def requests_ok_def timers_ok_def health_ok_def armed_def idle_def om_at_def)
      (simp add: cs_start_def tm_new_def)
qed

lemma cs_reach_ok: "cs_reach cs \<Longrightarrow> cs_ok cs"
proof (induction rule: cs_reach.induct)
  case (got cs s)
  then show ?case using get_requests(1) [of cs s] by (simp add: cs_ok_def health_ok_def timers_ok_def)
next
  case (destroyed cs p)
  then have "timers_ok (destroy_pending p cs)" by (intro unregister_timers) (simp add: cs_ok_def)
  with destroyed.IH show ?case by (simp add: cs_ok_def requests_ok_def health_ok_def)
next
  case (holder_gone cs h)
  then show ?case using del_pending_requests [of cs h] del_pending_timers [of cs h]
    by (simp add: cs_ok_def health_ok_def)
next
  case (health cs i b)
  then show ?case using health_ok_update [of cs i b]
    by (simp add: cs_ok_def) (simp add: requests_ok_def timers_ok_def updateServiceHealth_def Let_def)
next
  case (check cs dflt now invoke)
  then show ?case by (simp add: onCheckServiceHealth_def check_all_ok)
next
  case (ticker cs op)
  then show ?case using op_timers [of cs op]
    by (simp add: cs_ok_def requests_ok_def health_ok_def del: client_op.simps)
next
  case (frame cs cb nTime cs')
  then obtain m where "cs' = cs\<lparr>cs_tm := m\<rparr>" "timers_ok cs'"
    using frame_step [of cs cb nTime cs'] by (auto simp: cs_ok_def)
  with frame.IH show ?case by (simp add: cs_ok_def requests_ok_def health_ok_def)
qed (simp_all add: start_ok gen_ok add_ok)

text \<open>
  C12: in every state a service can get into, the list of a holder has exactly the sessions of the
  requests that wait with this holder, once each; no session is 0; when the holder goes away just
  its requests are dropped, and a response to one of them finds nothing; and the health of every
  service is between 0 and 100.
\<close>

theorem holder_lists_exact:
  assumes "cs_reach cs"
  shows "distinct (om_at [] (cs_holders cs) h) \<and>
     (s \<in> set (om_at [] (cs_holders cs) h) \<longleftrightarrow>
        h \<noteq> 0 \<and> (\<exists>p. om_get (cs_pending cs) s = Some p \<and> pi_holder p = h)) \<and>
     om_get (cs_pending cs) 0 = None \<and>
     fst (getPendingResponseInfo s (delPendingResponseInfo h cs)) =
       (case om_get (cs_pending cs) s of
          None \<Rightarrow> None | Some p \<Rightarrow> if h \<noteq> 0 \<and> pi_holder p = h then None else Some p) \<and>
     (case om_get (cs_health cs) i of None \<Rightarrow> True | Some k \<Rightarrow> 0 \<le> k \<and> k \<le> 100)"
proof -
  have ok: "requests_ok cs" "health_ok cs" using cs_reach_ok [OF assms] by (simp_all add: cs_ok_def)
  note k = requests_okD [OF ok(1)]
  have "om_get (cs_pending cs) 0 = None" using k(3) [of 0] by (cases "om_get (cs_pending cs) 0") auto
  moreover have "fst (getPendingResponseInfo s (delPendingResponseInfo h cs)) =
      om_get (cs_pending (delPendingResponseInfo h cs)) s"
    by (simp add: getPendingResponseInfo_def Let_def split: option.splits)
  moreover have "case om_get (cs_health cs) i of None \<Rightarrow> True | Some k \<Rightarrow> 0 \<le> k \<and> k \<le> 100"
    using ok(2) by (auto simp: health_ok_def MAX_SERVICE_HEALTH_def split: option.splits)
  ultimately show ?thesis using k(4,5) del_pending_get [OF ok(1)] by simp
qed

text \<open>
  C13: a request whose response never comes waits for ever: whatever time passes, the timer of the
  request calls back with the context 0 (the wheel reads the context back from a ticker it has
  already unregistered), no request has the session 0, so the service never sends itself a
  time-out, and a frame leaves the waiting requests as they are.
\<close>

theorem requests_never_time_out:
  assumes "cs_reach cs"
  shows "cs_queue cs = [] \<and>
     (\<forall>cb nTime cs'. (\<forall>t. even t \<longrightarrow> leaves_alone cb t) \<and> cs_onFrame cb nTime cs = Some cs' \<longrightarrow>
        cs_pending cs' = cs_pending cs \<and> cs_queue cs' = [])"
proof (intro conjI allI impI)
  have ok: "cs_ok cs" by (rule cs_reach_ok [OF assms])
  then show q: "cs_queue cs = []" by (simp add: cs_ok_def)
  fix cb nTime cs' assume a: "(\<forall>t. even t \<longrightarrow> leaves_alone cb t) \<and> cs_onFrame cb nTime cs = Some cs'"
  then obtain m where "cs' = cs\<lparr>cs_tm := m\<rparr>"
    using frame_step [of cs cb nTime cs'] ok by (auto simp: cs_ok_def)
  with q show "cs_pending cs' = cs_pending cs" "cs_queue cs' = []" by simp_all
qed

subsection \<open>Session ids\<close>

text \<open>The id the service gives out after \<open>n\<close> others.\<close>

definition nth_session :: "nat \<Rightarrow> 's core_service \<Rightarrow> u64" where
  "nth_session n cs = fst (genSessionID (((\<lambda>cs. snd (genSessionID cs)) ^^ n) cs))"

lemma nth_session_Suc: "nth_session (Suc n) cs =
    (let k = nth_session n cs + 1 in if k = 0 then 1 else k)"
  by (simp add: nth_session_def genSessionID_def Let_def)

lemma next_session:
  fixes w :: u64
  assumes "w \<noteq> 0"
  shows "unat (let k = w + 1 in if k = 0 then 1 else k) = unat w mod (2 ^ 64 - 1) + 1"
proof (cases "w + 1 = 0")
  case True
  then have "w = - 1" by (simp add: eq_neg_iff_add_eq_0)
  then have "unat w = 2 ^ 64 - 1" by (simp add: unsigned_minus_1_eq_mask mask_eq_exp_minus_1)
  with True show ?thesis by simp
next
  case False
  then have s: "unat (w + 1) = unat w + 1" by (simp add: unatSuc add.commute)
  have "unat (w + 1) < 2 ^ 64" using unsigned_less [of "w + 1", where 'a = nat] by simp
  with s have "unat w < 2 ^ 64 - 1" by simp
  with False s show ?thesis by simp
qed

lemma nth_session_nonzero: "nth_session n cs \<noteq> 0"
  by (simp add: nth_session_def)

lemma nth_session_eq:
  "unat (nth_session n cs) = (unat (nth_session 0 cs) - 1 + n) mod (2 ^ 64 - 1) + 1"
proof (induction n)
  case 0
  have "unat (nth_session 0 cs) \<noteq> 0" using nth_session_nonzero by (simp add: unat_eq_zero)
  moreover have "unat (nth_session 0 cs) < 2 ^ 64" using unsigned_less [of "nth_session 0 cs", where 'a = nat] by simp
  ultimately show ?case by simp
next
  case (Suc n)
  have "unat (nth_session (Suc n) cs) = unat (nth_session n cs) mod (2 ^ 64 - 1) + 1"
    using next_session [OF nth_session_nonzero [of n cs]] by (simp add: nth_session_Suc)
  also have "\<dots> = (unat (nth_session 0 cs) - 1 + Suc n) mod (2 ^ 64 - 1) + 1"
    unfolding Suc.IH by (simp add: mod_Suc_eq del: mod_Suc)
  finally show ?case .
qed

text \<open>
  C14: of any \<open>2 ^ 64 - 1\<close> session ids given out in a row no two are equal, although the counter
  wraps around, and none is 0, the id that stands for a message without a response.
\<close>

theorem session_ids_distinct:
  assumes "i < j" and "j < i + (2 ^ 64 - 1)"
  shows "nth_session i cs \<noteq> nth_session j cs \<and> nth_session i cs \<noteq> 0"
proof -
  let ?M = "2 ^ 64 - 1 :: nat" and ?c = "unat (nth_session 0 cs) - 1"
  have "(?c + i) mod ?M \<noteq> (?c + j) mod ?M"
  proof
    assume "(?c + i) mod ?M = (?c + j) mod ?M"
    then have "?M dvd (?c + j) - (?c + i)" using assms(1) by (metis mod_eq_dvd_iff_nat nat_add_left_cancel_le order_less_imp_le)
    then have "?M dvd j - i" by simp
    then have "?M \<le> j - i" using assms(1) by (intro dvd_imp_le) simp_all
    with assms(2) show False by simp
  qed
  then have "unat (nth_session i cs) \<noteq> unat (nth_session j cs)"
    unfolding nth_session_eq [of i] nth_session_eq [of j] by simp
  then show ?thesis using nth_session_nonzero by auto
qed

subsection \<open>Examples\<close>

text \<open>Three requests are sent at time 0, two of them by holder 9, each to wait for 100 milliseconds.\<close>

definition demo_cs :: "unit core_service" where
  "demo_cs = snd (addPendingResponseInfo 100 0 7 3 0 1 0 0
     (snd (addPendingResponseInfo 100 0 7 2 0 1 0 9
     (snd (addPendingResponseInfo 100 0 7 1 0 1 0 9 (cs_start 5 0))))))"

lemma demo_cs_reach: "cs_reach demo_cs"
  unfolding demo_cs_def by (intro cs_reach.add cs_reach.start) simp_all

lemma demo_cs_requests:
  "map fst (cs_pending demo_cs) = [1, 2, 3]" "cs_holders demo_cs = [(9, [1, 2])]"
  "map_option pi_holder (om_get (cs_pending demo_cs) 2) = Some 9"
  "map_option pi_holder (om_get (cs_pending demo_cs) 3) = Some 0"
  by (simp_all add: demo_cs_def addPendingResponseInfo_def cs_start_def om_at_def Let_def)

theorem holder_lists_exact_witness:
  "fst (getPendingResponseInfo 2 (delPendingResponseInfo 9 demo_cs)) = None \<and>
   fst (getPendingResponseInfo 3 (delPendingResponseInfo 9 demo_cs)) \<noteq> None"
  using holder_lists_exact [OF demo_cs_reach, of 9 2] holder_lists_exact [OF demo_cs_reach, of 9 3] demo_cs_requests(3,4)
  by (auto split: option.splits)

lemma demo_cs_wheel: "tm_time (cs_tm demo_cs) = 0" "calm_rest [] (cs_tm demo_cs)"
  by (auto simp: demo_cs_def addPendingResponseInfo_def cs_start_def calm_rest_def lev_span_def demo_simps setCallback_def
      split: if_splits)

theorem requests_never_time_out_witness:
  "\<exists>cs'. cs_onFrame (\<lambda>_ _. []) 500 demo_cs = Some cs' \<and> cs_pending cs' = cs_pending demo_cs \<and> cs_queue cs' = []"
proof -
  have "wheel_inv (cs_tm demo_cs)" using cs_reach_ok [OF demo_cs_reach] by (simp add: cs_ok_def timers_ok_def)
  then obtain m where "update (\<lambda>_ _. []) 500 (cs_tm demo_cs) = Some m"
    using update_n_returns [OF _ _ demo_cs_wheel(2), of "\<lambda>_ _. []"] unfolding update_def
    by (fastforce simp: short_cb_def)
  then obtain cs' where "cs_onFrame (\<lambda>_ _. []) 500 demo_cs = Some cs'" by (simp add: cs_onFrame_def)
  moreover have "leaves_alone (\<lambda>_ _. []) t" for t by (simp add: leaves_alone_def)
  ultimately show ?thesis using requests_never_time_out [OF demo_cs_reach] by blast
qed

text \<open>The counter at its end: the next ids are the largest one and then 1.\<close>

theorem session_ids_distinct_witness:
  "nth_session 0 ((cs_start 5 0 :: unit core_service)\<lparr>cs_nextSession := - 2\<rparr>) \<noteq>
     nth_session 1 ((cs_start 5 0)\<lparr>cs_nextSession := - 2\<rparr>) \<and>
   nth_session 1 ((cs_start 5 0 :: unit core_service)\<lparr>cs_nextSession := - 2\<rparr>) = 1"
  using session_ids_distinct [of 0 1 "(cs_start 5 0 :: unit core_service)\<lparr>cs_nextSession := - 2\<rparr>"]
  by (simp add: nth_session_def genSessionID_def Let_def)

end
