(* ===== verification/Buf_File.thy ===== *)
theory Buf_File imports Ordered_Map Bytes "HOL-Library.State_Monad" begin

text \<open>
  The buffers messages are packed into and unpacked from, \<open>CWriteBuf\<close> and \<open>CReadBuf\<close> of
  \<open>engine/src/libBaseCommon/buf_file.cpp\<close>. Positions are \<open>int32_t\<close> in the code; they are
  unbounded here, the engine's buffers hold at most some hundred kilobytes. Bytes of a grown
  buffer that were never written are 0 here. The operations are actions of the state monad, so
  that the packing routines read as in the code.
\<close>

datatype seek_type = BST_Cur | BST_Begin | BST_End

record wbuf =
  wb_buf :: "u8 list"     \<comment> \<open>\<open>m_szBuf\<close>, of length \<open>m_nBufSize\<close>\<close>
  wb_pos :: int           \<comment> \<open>\<open>m_nCurPos\<close>\<close>

record rbuf =
  rd_buf :: "u8 list"
  rd_pos :: int

abbreviation wb_size :: "wbuf \<Rightarrow> int" where "wb_size b \<equiv> int (length (wb_buf b))"
abbreviation rd_size :: "rbuf \<Rightarrow> int" where "rd_size b \<equiv> int (length (rd_buf b))"

subsection \<open>Writing\<close>

definition wb_new :: "nat \<Rightarrow> wbuf" where
  "wb_new nBufSize = \<lparr>wb_buf = replicate nBufSize 0, wb_pos = 0\<rparr>"

text \<open>Where a \<open>seek\<close> goes in a buffer of a given size, the same code in both classes.\<close>

definition seek_pos :: "seek_type \<Rightarrow> int \<Rightarrow> int \<Rightarrow> int \<Rightarrow> int" where
  "seek_pos eType nOffset nSize nCurPos =
     (case eType of
        BST_Cur \<Rightarrow> if nCurPos + nOffset \<ge> nSize then nSize - 1 else nCurPos + nOffset
      | BST_Begin \<Rightarrow> if nOffset \<ge> nSize then nSize - 1 else nOffset
      | BST_End \<Rightarrow> if nOffset \<ge> nSize then 0 else nSize - nOffset)"

definition wb_clear :: "(wbuf, unit) state" where
  "wb_clear = State (\<lambda>b. ((), b\<lparr>wb_pos := 0\<rparr>))"

definition wb_seek :: "seek_type \<Rightarrow> int \<Rightarrow> (wbuf, unit) state" where
  "wb_seek eType nOffset = State (\<lambda>b. ((), b\<lparr>wb_pos := seek_pos eType nOffset (wb_size b) (wb_pos b)\<rparr>))"

definition resizeWriteBuf :: "int \<Rightarrow> wbuf \<Rightarrow> wbuf" where
  "resizeWriteBuf nSize b =
     (if wb_size b < nSize then b\<lparr>wb_buf := wb_buf b @ replicate (nat (nSize - wb_size b)) 0\<rparr> else b)"

text \<open>The common part of the writes: make room, copy the bytes, advance.\<close>

definition wb_put :: "u8 list \<Rightarrow> wbuf \<Rightarrow> wbuf" where
  "wb_put bs b =
     (let nRemainSize = wb_size b - wb_pos b; n = int (length bs);
          b1 = (if nRemainSize < n then resizeWriteBuf (wb_size b + n - nRemainSize) b else b);
          p = nat (wb_pos b)
      in b1\<lparr>wb_buf := take p (wb_buf b1) @ bs @ drop (p + length bs) (wb_buf b1), wb_pos := wb_pos b + n\<rparr>)"

definition wr_raw :: "u8 list \<Rightarrow> (wbuf, unit) state" where
  "wr_raw bs = State (\<lambda>b. ((), if bs = [] \<or> wb_size b < wb_pos b then b else wb_put bs b))"

definition wr_num :: "nat \<Rightarrow> nat \<Rightarrow> (wbuf, unit) state" where
  "wr_num n x = State (\<lambda>b. ((), if wb_size b < wb_pos b then b else wb_put (le_bytes n x) b))"

definition wr_str :: "bstr \<Rightarrow> (wbuf, unit) state" where
  "wr_str s = State (\<lambda>b. ((),
     if \<not> length s < 65535 \<or> wb_size b < wb_pos b then b else wb_put (le_bytes 2 (length s) @ s) b))"

definition getCurSize :: "wbuf \<Rightarrow> nat" where
  "getCurSize b = nat (wb_pos b)"

text \<open>The bytes that are sent: \<open>getCurSize()\<close> bytes from \<open>getBuf()\<close>.\<close>

definition wb_out :: "wbuf \<Rightarrow> u8 list" where
  "wb_out b = take (getCurSize b) (wb_buf b)"

subsection \<open>Reading\<close>

definition rd_init :: "u8 list \<Rightarrow> rbuf" where
  "rd_init bs = \<lparr>rd_buf = bs, rd_pos = 0\<rparr>"

definition rd_seek :: "seek_type \<Rightarrow> int \<Rightarrow> (rbuf, unit) state" where
  "rd_seek eType nOffset = State (\<lambda>b. ((), b\<lparr>rd_pos := seek_pos eType nOffset (rd_size b) (rd_pos b)\<rparr>))"

definition rd_left :: "rbuf \<Rightarrow> nat" where
  "rd_left b = (if rd_pos b \<ge> rd_size b then 0 else nat (rd_size b - rd_pos b))"

text \<open>A read past the end fails and leaves the variable with its old value.\<close>

definition rd_num :: "nat \<Rightarrow> nat \<Rightarrow> (rbuf, nat) state" where
  "rd_num n old = State (\<lambda>b.
     if rd_pos b + int n > rd_size b then (old, b)
     else (field (nat (rd_pos b)) n (rd_buf b), b\<lparr>rd_pos := rd_pos b + int n\<rparr>))"

definition rd_str :: "bstr \<Rightarrow> (rbuf, bstr) state" where
  "rd_str old = State (\<lambda>b.
     if rd_pos b + 2 > rd_size b then (old, b)
     else let nLen = field (nat (rd_pos b)) 2 (rd_buf b)
          in if rd_pos b + 2 + int nLen > rd_size b then (old, b)
             else (take nLen (drop (nat (rd_pos b) + 2) (rd_buf b)), b\<lparr>rd_pos := rd_pos b + int nLen + 2\<rparr>))"

subsection \<open>What a write appends and what a read takes\<close>

definition wb_ok :: "wbuf \<Rightarrow> bool" where
  "wb_ok b \<longleftrightarrow> 0 \<le> wb_pos b \<and> wb_pos b \<le> wb_size b"

text \<open>The action appends the bytes \<open>bs\<close>, growing the buffer to the exact size when it must.\<close>

definition emits :: "(wbuf, 'a) state \<Rightarrow> u8 list \<Rightarrow> bool" where
  "emits m bs \<longleftrightarrow> (\<forall>b. wb_ok b \<longrightarrow>
     (let b' = snd (run_state m b)
      in wb_ok b' \<and> wb_out b' = wb_out b @ bs \<and> wb_size b' = max (wb_size b) (wb_pos b')))"

text \<open>The action reads the bytes \<open>bs\<close> at the position and returns \<open>x\<close>.\<close>

definition reads :: "(rbuf, 'a) state \<Rightarrow> u8 list \<Rightarrow> 'a \<Rightarrow> bool" where
  "reads m bs x \<longleftrightarrow> (\<forall>b pre post. rd_buf b = pre @ bs @ post \<and> rd_pos b = int (length pre) \<longrightarrow>
     run_state m b = (x, b\<lparr>rd_pos := int (length (pre @ bs))\<rparr>))"

lemma wb_out_pos: "wb_ok b \<Longrightarrow> int (length (wb_out b)) = wb_pos b"
  by (auto simp: wb_ok_def wb_out_def getCurSize_def min_def)

lemma wb_put_room:
  fixes bs :: "u8 list"
  assumes "wb_ok b"
  defines "b1 \<equiv> (if wb_size b - wb_pos b < int (length bs)
      then resizeWriteBuf (wb_size b + int (length bs) - (wb_size b - wb_pos b)) b else b)"
  shows "wb_size b1 = max (wb_size b) (wb_pos b + int (length bs))" and "wb_pos b1 = wb_pos b"
    and "take (nat (wb_pos b)) (wb_buf b1) = take (nat (wb_pos b)) (wb_buf b)"
  using assms by (auto simp: resizeWriteBuf_def wb_ok_def)

lemma wb_put_ok:
  assumes "wb_ok b"
  shows "wb_ok (wb_put bs b)" and "wb_out (wb_put bs b) = wb_out b @ bs"
    and "wb_size (wb_put bs b) = max (wb_size b) (wb_pos (wb_put bs b))"
proof -
  obtain b1 where b1: "wb_put bs b = b1\<lparr>wb_buf := take (nat (wb_pos b)) (wb_buf b1) @ bs @
        drop (nat (wb_pos b) + length bs) (wb_buf b1), wb_pos := wb_pos b + int (length bs)\<rparr>"
    and s: "wb_size b1 = max (wb_size b) (wb_pos b + int (length bs))"
    and t: "take (nat (wb_pos b)) (wb_buf b1) = take (nat (wb_pos b)) (wb_buf b)"
    using wb_put_room [OF assms, of bs] unfolding wb_put_def Let_def by blast
  from assms have p: "0 \<le> wb_pos b" "wb_pos b \<le> wb_size b" by (simp_all add: wb_ok_def)
  have z: "wb_size (wb_put bs b) = wb_size b1" using p s by (simp add: b1)
  show "wb_size (wb_put bs b) = max (wb_size b) (wb_pos (wb_put bs b))" using z s by (simp add: b1)
  show "wb_ok (wb_put bs b)" using z s p by (simp add: wb_ok_def b1)
  have l: "length (take (nat (wb_pos b)) (wb_buf b)) = nat (wb_pos b)" using p by simp
  have n: "nat (wb_pos b + int (length bs)) = nat (wb_pos b) + length bs" using p by (simp add: nat_add_distrib)
  show "wb_out (wb_put bs b) = wb_out b @ bs"
    using l by (simp add: wb_out_def getCurSize_def b1 t n)
qed

lemma emits_put: "emits (State (\<lambda>b. ((), if P \<or> wb_size b < wb_pos b then b else wb_put bs b))) bs" if "\<not> P"
  using that wb_put_ok by (auto simp: emits_def Let_def wb_ok_def)

lemma emits_num [intro]: "emits (wr_num n x) (le_bytes n x)"
  using emits_put [of False "le_bytes n x"] by (simp add: wr_num_def)

lemma emits_str [intro]: "length s < 65535 \<Longrightarrow> emits (wr_str s) (le_bytes 2 (length s) @ s)"
  using emits_put [of "\<not> length s < 65535" "le_bytes 2 (length s) @ s"] by (simp add: wr_str_def)

lemma emits_raw [intro]: "bs \<noteq> [] \<Longrightarrow> emits (wr_raw bs) bs"
  using emits_put [of "bs = []" bs] by (simp add: wr_raw_def)

lemma emits_return [intro]: "emits (State_Monad.return x) []"
  by (simp add: emits_def wb_ok_def)

lemma emitsI:
  assumes "\<And>b x b'. wb_ok b \<Longrightarrow> run_state m b = (x, b') \<Longrightarrow>
    wb_ok b' \<and> wb_out b' = wb_out b @ bs \<and> wb_size b' = max (wb_size b) (wb_pos b')"
  shows "emits m bs"
  unfolding emits_def Let_def
proof (intro allI impI)
  fix b assume "wb_ok b"
  from assms [OF this, of "fst (run_state m b)" "snd (run_state m b)"]
  show "wb_ok (snd (run_state m b)) \<and> wb_out (snd (run_state m b)) = wb_out b @ bs \<and>
      wb_size (snd (run_state m b)) = max (wb_size b) (wb_pos (snd (run_state m b)))" by simp
qed

lemma emitsD:
  assumes "emits m bs" and "wb_ok b" and "run_state m b = (x, b')"
  shows "wb_ok b'" and "wb_out b' = wb_out b @ bs" and "wb_size b' = max (wb_size b) (wb_pos b')"
proof -
  have "snd (run_state m b) = b'" using assms(3) by simp
  with assms(1,2) show "wb_ok b'" and "wb_out b' = wb_out b @ bs" and "wb_size b' = max (wb_size b) (wb_pos b')"
    unfolding emits_def Let_def by metis+
qed

lemma emits_bind [intro]:
  assumes "emits m bs" and "\<And>x. emits (f x) cs"
  shows "emits (m \<bind> f) (bs @ cs)"
proof (rule emitsI)
  fix b y b2 assume b: "wb_ok b" and r: "run_state (m \<bind> f) b = (y, b2)"
  obtain x b1 where 1: "run_state m b = (x, b1)" by fastforce
  with r have 2: "run_state (f x) b1 = (y, b2)" by (simp add: State_Monad.bind_def)
  note e1 = emitsD [OF assms(1) b 1]
  note e2 = emitsD [OF assms(2) e1(1) 2]
  have "wb_pos b1 \<le> wb_pos b2" using wb_out_pos [OF e1(1)] wb_out_pos [OF e2(1)] e2(2) by simp
  with e1 e2 show "wb_ok b2 \<and> wb_out b2 = wb_out b @ bs @ cs \<and> wb_size b2 = max (wb_size b) (wb_pos b2)"
    by simp
qed

lemma reads_num [intro]: "x < 256 ^ n \<Longrightarrow> reads (rd_num n old) (le_bytes n x) x"
  by (auto simp: reads_def rd_num_def field_skip field_here)

lemma reads_str [intro]: "length s < 65536 \<Longrightarrow> reads (rd_str old) (le_bytes 2 (length s) @ s) s"
  by (auto simp: reads_def rd_str_def field_skip field_here Let_def)

lemma reads_return [intro]: "reads (State_Monad.return x) [] x"
  by (auto simp: reads_def)

lemma reads_bind [intro]:
  assumes "reads m bs x" and "reads (f x) cs y"
  shows "reads (m \<bind> f) (bs @ cs) y"
  unfolding reads_def
proof (intro allI impI)
  fix b :: rbuf and pre post
  assume b: "rd_buf b = pre @ (bs @ cs) @ post \<and> rd_pos b = int (length pre)"
  let ?b1 = "b\<lparr>rd_pos := int (length (pre @ bs))\<rparr>"
  have 1: "run_state m b = (x, ?b1)" using assms(1) b unfolding reads_def by (metis append_assoc)
  have "rd_buf ?b1 = (pre @ bs) @ cs @ post \<and> rd_pos ?b1 = int (length (pre @ bs))" using b by simp
  then have 2: "run_state (f x) ?b1 = (y, ?b1\<lparr>rd_pos := int (length ((pre @ bs) @ cs))\<rparr>)"
    using assms(2) unfolding reads_def by blast
  show "run_state (m \<bind> f) b = (y, b\<lparr>rd_pos := int (length (pre @ bs @ cs))\<rparr>)"
    using 2 by (simp add: State_Monad.bind_def 1)
qed

lemma reads_end [intro]: "reads m bs x \<Longrightarrow> reads (m \<bind> (\<lambda>x. State_Monad.return (f x))) bs (f x)"
  using reads_bind [of m bs x "\<lambda>x. State_Monad.return (f x)" "[]" "f x"] by auto

lemma readsD:
  assumes "reads m bs x" and "rd_buf b = pre @ bs @ post" and "rd_pos b = int (length pre)"
  shows "run_state m b = (x, b\<lparr>rd_pos := int (length (pre @ bs))\<rparr>)"
  using assms unfolding reads_def by blast

lemma reads_last: "reads m bs x \<Longrightarrow> f x = y \<Longrightarrow> reads (m \<bind> (\<lambda>x. State_Monad.return (f x))) bs y"
  using reads_end by blast

subsection \<open>The interface of a field that can be packed\<close>

text \<open>
  The packing code writes vectors, sets and maps alike: a 16-bit count, then each element; and
  reads them back the same way. What is needed of an element is the contract below.
\<close>

fun wr_each :: "('a \<Rightarrow> (wbuf, unit) state) \<Rightarrow> 'a list \<Rightarrow> (wbuf, unit) state" where
  "wr_each w [] = State_Monad.return ()"
| "wr_each w (x # xs) = do { w x; wr_each w xs }"

definition wr_list :: "('a \<Rightarrow> (wbuf, unit) state) \<Rightarrow> 'a list \<Rightarrow> (wbuf, unit) state" where
  "wr_list w xs =
     (let nCount = length xs mod 65536
      in do { wr_num 2 nCount; wr_each w (take nCount xs) })"

fun rd_each :: "(rbuf, 'a) state \<Rightarrow> nat \<Rightarrow> (rbuf, 'a list) state" where
  "rd_each r 0 = State_Monad.return []"
| "rd_each r (Suc n) = do { x \<leftarrow> r; xs \<leftarrow> rd_each r n; State_Monad.return (x # xs) }"

definition rd_list :: "(rbuf, 'a) state \<Rightarrow> (rbuf, 'a list) state" where
  "rd_list r = do { nCount \<leftarrow> rd_num 2 0; rd_each r nCount }"

definition enc_list :: "('a \<Rightarrow> u8 list) \<Rightarrow> 'a list \<Rightarrow> u8 list" where
  "enc_list enc xs = le_bytes 2 (length xs) @ concat (map enc xs)"

locale codec =
  fixes wr :: "'a \<Rightarrow> (wbuf, unit) state"
    and rd :: "'a \<Rightarrow> (rbuf, 'a) state"
    and enc :: "'a \<Rightarrow> u8 list"
    and fits :: "'a \<Rightarrow> bool"
  assumes wr_emits: "fits x \<Longrightarrow> emits (wr x) (enc x)"
    and rd_reads: "fits x \<Longrightarrow> reads (rd old) (enc x) x"
begin

lemma each_emits: "list_all fits xs \<Longrightarrow> emits (wr_each wr xs) (concat (map enc xs))"
  by (induction xs) (auto intro: wr_emits)

lemma list_emits:
  assumes "list_all fits xs" and "length xs < 65536"
  shows "emits (wr_list wr xs) (enc_list enc xs)"
  using assms each_emits by (auto simp: wr_list_def enc_list_def Let_def)

lemma each_reads: "list_all fits xs \<Longrightarrow> reads (rd_each (rd old) (length xs)) (concat (map enc xs)) xs"
proof (induction xs)
  case (Cons x xs)
  then show ?case by (auto intro!: reads_bind rd_reads)
qed auto

lemma list_reads:
  assumes "list_all fits xs" and "length xs < 65536"
  shows "reads (rd_list (rd old)) (enc_list enc xs) xs"
  using assms each_reads unfolding rd_list_def enc_list_def by (auto intro!: reads_bind)

end

interpretation str: codec wr_str rd_str "\<lambda>s. le_bytes 2 (length s) @ s" "\<lambda>s. length s < 65535"
  by unfold_locales auto

interpretation u32: codec "wr_num 4" "rd_num 4" "le_bytes 4" "\<lambda>x. x < 2 ^ 32"
  by unfold_locales auto

end
