(* ===== verification/Proto_System.thy ===== *)
theory Proto_System imports Buf_File begin

text \<open>
  The messages between nodes and the master, \<open>engine/inc/libCoreCommon/proto_system.h\<close>: the
  registration of a node, the node lists the master sends out, and the handshake between nodes.
  Every message is packed behind a \<open>message_header\<close> whose size field is patched at the end
  (\<open>system_pack_begin\<close>, \<open>system_pack_end\<close>) and is unpacked field by field with the results of
  the reads ignored. Also here: the descriptions of nodes and services of \<open>core_common.h\<close>.

  The argument \<open>sz\<close> stands for \<open>sizeof\<close> of the message class, which the header holds until it is
  patched. The contents of a default-constructed variable before it is read into is an argument.
\<close>

subsection \<open>Descriptions\<close>

record node_base_info =
  nb_id :: nat
  nb_name :: bstr
  nb_group :: bstr
  nb_host :: bstr
  nb_port :: nat
  nb_recvBuf :: nat
  nb_sendBuf :: nat

record service_base_info =
  sb_id :: nat
  sb_name :: bstr
  sb_type :: bstr

record node_info =
  ni_base :: node_base_info
  ni_services :: "service_base_info list"

definition fresh_service :: service_base_info where
  "fresh_service = \<lparr>sb_id = 0, sb_name = [], sb_type = []\<rparr>"

subsection \<open>The parts of a message\<close>

definition wr_service :: "service_base_info \<Rightarrow> (wbuf, unit) state" where
  "wr_service s = do { wr_num 4 (sb_id s); wr_str (sb_name s); wr_str (sb_type s) }"

definition rd_service :: "service_base_info \<Rightarrow> (rbuf, service_base_info) state" where
  "rd_service old = do {
     nID \<leftarrow> rd_num 4 (sb_id old); szName \<leftarrow> rd_str (sb_name old); szType \<leftarrow> rd_str (sb_type old);
     State_Monad.return \<lparr>sb_id = nID, sb_name = szName, sb_type = szType\<rparr> }"

definition wr_node :: "node_base_info \<Rightarrow> (wbuf, unit) state" where
  "wr_node n = do {
     wr_num 4 (nb_id n); wr_str (nb_name n); wr_str (nb_group n); wr_str (nb_host n);
     wr_num 2 (nb_port n); wr_num 4 (nb_recvBuf n); wr_num 4 (nb_sendBuf n) }"

definition rd_node :: "node_base_info \<Rightarrow> (rbuf, node_base_info) state" where
  "rd_node old = do {
     nID \<leftarrow> rd_num 4 (nb_id old); szName \<leftarrow> rd_str (nb_name old); szGroup \<leftarrow> rd_str (nb_group old);
     szHost \<leftarrow> rd_str (nb_host old); nPort \<leftarrow> rd_num 2 (nb_port old);
     nRecvBufSize \<leftarrow> rd_num 4 (nb_recvBuf old); nSendBufSize \<leftarrow> rd_num 4 (nb_sendBuf old);
     State_Monad.return \<lparr>nb_id = nID, nb_name = szName, nb_group = szGroup, nb_host = szHost,
       nb_port = nPort, nb_recvBuf = nRecvBufSize, nb_sendBuf = nSendBufSize\<rparr> }"

definition wr_node_info :: "node_info \<Rightarrow> (wbuf, unit) state" where
  "wr_node_info i = do { wr_node (ni_base i); wr_list wr_service (ni_services i) }"

definition rd_node_info :: "node_base_info \<Rightarrow> (rbuf, node_info) state" where
  "rd_node_info old = do {
     sNodeBaseInfo \<leftarrow> rd_node old; vecServiceBaseInfo \<leftarrow> rd_list (rd_service fresh_service);
     State_Monad.return \<lparr>ni_base = sNodeBaseInfo, ni_services = vecServiceBaseInfo\<rparr> }"

text \<open>A set is written in order and read by inserting.\<close>

definition wr_set :: "('a::linorder \<Rightarrow> (wbuf, unit) state) \<Rightarrow> 'a set \<Rightarrow> (wbuf, unit) state" where
  "wr_set w A = wr_list w (sorted_list_of_set A)"

definition rd_set :: "(rbuf, 'a) state \<Rightarrow> 'a set \<Rightarrow> (rbuf, 'a set) state" where
  "rd_set r A = do { xs \<leftarrow> rd_list r; State_Monad.return (fold insert xs A) }"

subsection \<open>Packing behind a header\<close>

definition system_pack :: "nat \<Rightarrow> nat \<Rightarrow> (wbuf, unit) state \<Rightarrow> wbuf \<Rightarrow> wbuf" where
  "system_pack sz nMessageID body b =
     snd (run_state (do {
       wb_clear;
       wr_raw (le_bytes 2 sz @ le_bytes 4 nMessageID);
       body;
       nPos \<leftarrow> State (\<lambda>b. (getCurSize b mod 65536, b));
       wb_seek BST_Begin 0;
       wr_num 2 nPos;
       wb_seek BST_Begin (int nPos) }) b)"

definition system_unpack :: "(rbuf, 'a) state \<Rightarrow> u8 list \<Rightarrow> 'a" where
  "system_unpack body bs =
     fst (run_state (do { rd_num 2 0; rd_num 4 0; body }) (rd_init bs))"

definition SMT_register :: nat where "SMT_register = 1"
definition SMT_unregister :: nat where "SMT_unregister = 2"
definition SMT_sync_master :: nat where "SMT_sync_master = 3"
definition SMT_sync_node :: nat where "SMT_sync_node = 4"
definition SMT_sync_all :: nat where "SMT_sync_all = 5"
definition SMT_remove :: nat where "SMT_remove = 6"
definition SMT_handshake_request :: nat where "SMT_handshake_request = 7"
definition SMT_handshake_response :: nat where "SMT_handshake_response = 8"

subsection \<open>The messages\<close>

record register_msg =
  rg_node :: node_base_info
  rg_services :: "service_base_info list"
  rg_names :: "bstr set"       \<comment> \<open>\<open>setConnectServiceName\<close>\<close>
  rg_types :: "bstr set"       \<comment> \<open>\<open>setConnectServiceType\<close>\<close>

definition pack_register :: "nat \<Rightarrow> register_msg \<Rightarrow> wbuf \<Rightarrow> wbuf" where
  "pack_register sz m = system_pack sz SMT_register (do {
     wr_node (rg_node m); wr_list wr_service (rg_services m);
     wr_set wr_str (rg_names m); wr_set wr_str (rg_types m) })"

text \<open>The second loop inserts into \<open>setConnectServiceName\<close> too.\<close>

definition unpack_register :: "node_base_info \<Rightarrow> u8 list \<Rightarrow> register_msg" where
  "unpack_register old = system_unpack (do {
     sNodeBaseInfo \<leftarrow> rd_node old; vecServiceBaseInfo \<leftarrow> rd_list (rd_service fresh_service);
     setConnectServiceName \<leftarrow> rd_set (rd_str []) {};
     setConnectServiceName \<leftarrow> rd_set (rd_str []) setConnectServiceName;
     State_Monad.return \<lparr>rg_node = sNodeBaseInfo, rg_services = vecServiceBaseInfo,
       rg_names = setConnectServiceName, rg_types = {}\<rparr> })"

record sync_node_msg =
  sn_node :: node_base_info
  sn_services :: "service_base_info list"
  sn_exclude :: nat            \<comment> \<open>\<open>bExcludeConnect\<close>, a byte\<close>

definition pack_sync_node :: "nat \<Rightarrow> sync_node_msg \<Rightarrow> wbuf \<Rightarrow> wbuf" where
  "pack_sync_node sz m = system_pack sz SMT_sync_node (do {
     wr_node (sn_node m); wr_list wr_service (sn_services m); wr_num 1 (sn_exclude m) })"

definition unpack_sync_node :: "node_base_info \<Rightarrow> nat \<Rightarrow> u8 list \<Rightarrow> sync_node_msg" where
  "unpack_sync_node old oldExclude = system_unpack (do {
     sNodeBaseInfo \<leftarrow> rd_node old; vecServiceBaseInfo \<leftarrow> rd_list (rd_service fresh_service);
     bExcludeConnect \<leftarrow> rd_num 1 oldExclude;
     State_Monad.return \<lparr>sn_node = sNodeBaseInfo, sn_services = vecServiceBaseInfo,
       sn_exclude = bExcludeConnect\<rparr> })"

record sync_all_msg =
  sa_nodes :: "(nat, node_info) omap"    \<comment> \<open>\<open>mapNodeInfo\<close>\<close>
  sa_exclude :: "nat set"                \<comment> \<open>\<open>setExcludeConnectNodeID\<close>\<close>

definition pack_sync_all :: "nat \<Rightarrow> sync_all_msg \<Rightarrow> wbuf \<Rightarrow> wbuf" where
  "pack_sync_all sz m = system_pack sz SMT_sync_all (do {
     wr_list wr_node_info (map snd (sa_nodes m)); wr_set (wr_num 4) (sa_exclude m) })"

definition unpack_sync_all :: "node_base_info \<Rightarrow> u8 list \<Rightarrow> sync_all_msg" where
  "unpack_sync_all old = system_unpack (do {
     vecNodeInfo \<leftarrow> rd_list (rd_node_info old);
     setExclude \<leftarrow> rd_set (rd_num 4 0) {};
     State_Monad.return \<lparr>sa_nodes = fold (\<lambda>i. om_put (nb_id (ni_base i)) i) vecNodeInfo [],
       sa_exclude = setExclude\<rparr> })"

text \<open>The messages that hold one number: the master's id, and the id of a node.\<close>

definition pack_id :: "nat \<Rightarrow> nat \<Rightarrow> nat \<Rightarrow> wbuf \<Rightarrow> wbuf" where
  "pack_id nMessageID sz nNodeID = system_pack sz nMessageID (wr_num 4 nNodeID)"

definition unpack_id :: "nat \<Rightarrow> u8 list \<Rightarrow> nat" where
  "unpack_id old = system_unpack (rd_num 4 old)"

definition pack_sync_master :: "nat \<Rightarrow> nat \<Rightarrow> wbuf \<Rightarrow> wbuf" where
  "pack_sync_master = pack_id SMT_sync_master"

definition unpack_sync_master :: "nat \<Rightarrow> u8 list \<Rightarrow> nat" where
  "unpack_sync_master = unpack_id"

definition pack_remove :: "nat \<Rightarrow> nat \<Rightarrow> wbuf \<Rightarrow> wbuf" where
  "pack_remove = pack_id SMT_remove"

definition unpack_remove :: "nat \<Rightarrow> u8 list \<Rightarrow> nat" where
  "unpack_remove = unpack_id"

definition pack_handshake_request :: "nat \<Rightarrow> nat \<Rightarrow> wbuf \<Rightarrow> wbuf" where
  "pack_handshake_request = pack_id SMT_handshake_request"

definition unpack_handshake_request :: "nat \<Rightarrow> u8 list \<Rightarrow> nat" where
  "unpack_handshake_request = unpack_id"

definition pack_handshake_response :: "nat \<Rightarrow> nat \<Rightarrow> wbuf \<Rightarrow> wbuf" where
  "pack_handshake_response = pack_id SMT_handshake_response"

definition unpack_handshake_response :: "nat \<Rightarrow> u8 list \<Rightarrow> nat" where
  "unpack_handshake_response = unpack_id"

definition pack_unregister :: "nat \<Rightarrow> bstr \<Rightarrow> wbuf \<Rightarrow> wbuf" where
  "pack_unregister sz szName = system_pack sz SMT_unregister (wr_str szName)"

definition unpack_unregister :: "u8 list \<Rightarrow> bstr" where
  "unpack_unregister = system_unpack (rd_str [])"

subsection \<open>Encodings and their interfaces\<close>

abbreviation enc_str :: "bstr \<Rightarrow> u8 list" where
  "enc_str s \<equiv> le_bytes 2 (length s) @ s"

abbreviation fits_str :: "bstr \<Rightarrow> bool" where
  "fits_str s \<equiv> length s < 65535"

definition enc_service :: "service_base_info \<Rightarrow> u8 list" where
  "enc_service s = le_bytes 4 (sb_id s) @ enc_str (sb_name s) @ enc_str (sb_type s)"

definition fits_service :: "service_base_info \<Rightarrow> bool" where
  "fits_service s \<longleftrightarrow> sb_id s < 2 ^ 32 \<and> fits_str (sb_name s) \<and> fits_str (sb_type s)"

definition enc_node :: "node_base_info \<Rightarrow> u8 list" where
  "enc_node n = le_bytes 4 (nb_id n) @ enc_str (nb_name n) @ enc_str (nb_group n) @ enc_str (nb_host n) @
     le_bytes 2 (nb_port n) @ le_bytes 4 (nb_recvBuf n) @ le_bytes 4 (nb_sendBuf n)"

definition fits_node :: "node_base_info \<Rightarrow> bool" where
  "fits_node n \<longleftrightarrow> nb_id n < 2 ^ 32 \<and> fits_str (nb_name n) \<and> fits_str (nb_group n) \<and> fits_str (nb_host n) \<and>
     nb_port n < 2 ^ 16 \<and> nb_recvBuf n < 2 ^ 32 \<and> nb_sendBuf n < 2 ^ 32"

interpretation svc: codec wr_service rd_service enc_service fits_service
proof
  fix s :: service_base_info and old assume f: "fits_service s"
  show "emits (wr_service s) (enc_service s)"
    using f unfolding wr_service_def enc_service_def fits_service_def
    by (intro emits_bind emits_num emits_str) auto
  show "reads (rd_service old) (enc_service s) s"
    using f unfolding rd_service_def enc_service_def fits_service_def
    by (intro reads_bind reads_num reads_str reads_last) auto
qed

interpretation node: codec wr_node rd_node enc_node fits_node
proof
  fix n :: node_base_info and old assume f: "fits_node n"
  show "emits (wr_node n) (enc_node n)"
    using f unfolding wr_node_def enc_node_def fits_node_def
    by (intro emits_bind emits_num emits_str) auto
  show "reads (rd_node old) (enc_node n) n"
    using f unfolding rd_node_def enc_node_def fits_node_def
    by (intro reads_bind reads_num reads_str reads_last) auto
qed

definition enc_node_info :: "node_info \<Rightarrow> u8 list" where
  "enc_node_info i = enc_node (ni_base i) @ enc_list enc_service (ni_services i)"

definition fits_node_info :: "node_info \<Rightarrow> bool" where
  "fits_node_info i \<longleftrightarrow> fits_node (ni_base i) \<and> list_all fits_service (ni_services i) \<and>
     length (ni_services i) < 65536"

text \<open>The node lists are lists of lists: the contract of the elements gives that of the whole.\<close>

interpretation ninfo: codec wr_node_info "\<lambda>i. rd_node_info (ni_base i)" enc_node_info fits_node_info
proof
  fix i :: node_info and old assume f: "fits_node_info i"
  show "emits (wr_node_info i) (enc_node_info i)"
    using f unfolding wr_node_info_def enc_node_info_def fits_node_info_def
    by (intro emits_bind node.wr_emits svc.list_emits) auto
  show "reads (rd_node_info (ni_base old)) (enc_node_info i) i"
    using f unfolding rd_node_info_def enc_node_info_def fits_node_info_def
    by (intro reads_bind [OF node.rd_reads] reads_last [OF svc.list_reads]) auto
qed

definition enc_set :: "('a::linorder \<Rightarrow> u8 list) \<Rightarrow> 'a set \<Rightarrow> u8 list" where
  "enc_set enc A = enc_list enc (sorted_list_of_set A)"

lemma fold_insert: "fold insert xs A = A \<union> set xs"
  by (induction xs arbitrary: A) auto

context codec begin

lemma set_reads:
  assumes "list_all fits xs" and "length xs < 65536"
  shows "reads (rd_set (rd old) B) (enc_list enc xs) (B \<union> set xs)"
  using list_reads [OF assms] unfolding rd_set_def
  by (intro reads_last) (auto simp: fold_insert)

end

text \<open>The layout of a packed message: it is right unless it fills the buffer to the last byte.\<close>

lemma system_pack_out:
  fixes b :: wbuf
  assumes "emits body bs"
  defines "nPos \<equiv> (6 + length bs) mod 65536"
  defines "nEnd \<equiv> (if int nPos \<ge> max (wb_size b) (int (6 + length bs))
      then max (wb_size b) (int (6 + length bs)) - 1 else int nPos)"
  shows "wb_out (system_pack sz nMessageID body b) =
     take (nat nEnd) (le_bytes 2 nPos @ le_bytes 4 nMessageID @ bs)"
proof -
  let ?hd = "le_bytes 2 sz @ le_bytes 4 nMessageID"
  let ?b0 = "b\<lparr>wb_pos := 0\<rparr>"
  have ok0: "wb_ok ?b0" "wb_out ?b0 = []" by (simp_all add: wb_ok_def wb_out_def getCurSize_def)
  define r where "r = run_state (wr_raw ?hd \<bind> (\<lambda>_. body)) ?b0"
  obtain u b1 where "r = (u, b1)" by (cases r)
  then have 1: "run_state (wr_raw ?hd \<bind> (\<lambda>_. body)) ?b0 = (u, b1)" by (simp only: r_def)
  have "?hd \<noteq> []" using length_le_bytes [of 2 sz] by (auto simp del: length_le_bytes)
  then have e: "emits (wr_raw ?hd \<bind> (\<lambda>_. body)) (?hd @ bs)" using assms(1) by blast
  note e1 = emitsD [OF e ok0(1) 1]
  have out1: "wb_out b1 = ?hd @ bs" using e1(2) ok0(2) by simp
  have pos1: "wb_pos b1 = int (6 + length bs)" using wb_out_pos [OF e1(1)] out1 by simp
  have size1: "wb_size b1 = max (wb_size b) (int (6 + length bs))" using e1(3) pos1 by simp
  have seek0: "seek_pos BST_Begin 0 (wb_size b1) p = 0" for p
    using size1 by (simp add: seek_pos_def)
  let ?b2 = "b1\<lparr>wb_buf := le_bytes 2 nPos @ drop 2 (wb_buf b1), wb_pos := 2\<rparr>"
  have room: "\<not> wb_size b1 < 2" using size1 by simp
  have put: "wb_put (le_bytes 2 nPos) (b1\<lparr>wb_pos := 0\<rparr>) = ?b2"
    using room by (simp add: wb_put_def Let_def numeral_2_eq_2)
  have size2: "wb_size ?b2 = wb_size b1" using room by simp
  have pk: "system_pack sz nMessageID body b = ?b2\<lparr>wb_pos := seek_pos BST_Begin (int nPos) (wb_size b1) 2\<rparr>"
  proof -
    define q where "q = run_state (wr_raw ?hd) ?b0"
    obtain x b' where "q = (x, b')" by (cases q)
    then have x: "run_state (wr_raw ?hd) ?b0 = (x, b')" by (simp only: q_def)
    with 1 have y: "run_state body b' = (u, b1)" by (simp add: State_Monad.bind_def)
    have n: "getCurSize b1 mod 65536 = nPos" using pos1 by (simp add: getCurSize_def nPos_def nat_add_distrib)
    have w: "run_state (wr_num 2 nPos) (b1\<lparr>wb_pos := 0\<rparr>) = ((), ?b2)" using put by (simp add: wr_num_def)
    show ?thesis
      using x y w size2 by (simp add: system_pack_def State_Monad.bind_def wb_clear_def wb_seek_def seek0 n)
  qed
  have end_pos: "seek_pos BST_Begin (int nPos) (wb_size b1) 2 = nEnd"
    by (simp add: seek_pos_def nEnd_def size1)
  have "nPos \<le> 6 + length bs" by (simp add: nPos_def)
  then have le: "nat nEnd \<le> 6 + length bs" by (auto simp: nEnd_def)
  have t1: "take (6 + length bs) (wb_buf b1) = ?hd @ bs"
    using out1 pos1 by (simp add: wb_out_def getCurSize_def nat_add_distrib)
  have "take (6 + length bs) (le_bytes 2 nPos @ drop 2 (wb_buf b1)) =
      le_bytes 2 nPos @ drop 2 (take (6 + length bs) (wb_buf b1))"
    by (simp add: drop_take)
  also have "\<dots> = le_bytes 2 nPos @ le_bytes 4 nMessageID @ bs" by (simp add: t1)
  finally have "take (6 + length bs) (le_bytes 2 nPos @ drop 2 (wb_buf b1)) = le_bytes 2 nPos @ le_bytes 4 nMessageID @ bs" .
  then have "take (nat nEnd) (take (6 + length bs) (le_bytes 2 nPos @ drop 2 (wb_buf b1))) =
      take (nat nEnd) (le_bytes 2 nPos @ le_bytes 4 nMessageID @ bs)" by (rule arg_cong)
  then have "take (nat nEnd) (le_bytes 2 nPos @ drop 2 (wb_buf b1)) =
      take (nat nEnd) (le_bytes 2 nPos @ le_bytes 4 nMessageID @ bs)"
    unfolding take_take min_absorb1 [OF le] .
  then show ?thesis by (simp add: pk wb_out_def getCurSize_def end_pos)
qed

lemma system_pack_fits:
  assumes "emits body bs" and "6 + length bs < 65536" and "6 + length bs < length (wb_buf b)"
  shows "wb_out (system_pack sz nMessageID body b) = le_bytes 2 (6 + length bs) @ le_bytes 4 nMessageID @ bs"
  using system_pack_out [OF assms(1), of sz nMessageID b] assms(2,3) by simp

lemma system_unpack_reads:
  assumes "reads body bs x" and "n < 65536" and "nMessageID < 2 ^ 32"
  shows "system_unpack body (le_bytes 2 n @ le_bytes 4 nMessageID @ bs) = x"
proof -
  have "reads (do { rd_num 2 0; rd_num 4 0; body }) (le_bytes 2 n @ le_bytes 4 nMessageID @ bs) x"
    using assms by (intro reads_bind reads_num) auto
  from readsD [OF this, of "rd_init (le_bytes 2 n @ le_bytes 4 nMessageID @ bs)" "[]" "[]"]
  show ?thesis by (simp add: system_unpack_def rd_init_def)
qed

lemma system_roundtrip:
  assumes "emits w bs" and "reads r bs x" and "6 + length bs < 65536" and "6 + length bs < length (wb_buf b)"
    and "nMessageID < 2 ^ 32"
  shows "system_unpack r (wb_out (system_pack sz nMessageID w b)) = x"
  using system_pack_fits [OF assms(1,3,4)] system_unpack_reads [OF assms(2,3,5)] by simp

subsection \<open>Round trips\<close>

definition enc_register :: "register_msg \<Rightarrow> u8 list" where
  "enc_register m = enc_node (rg_node m) @ enc_list enc_service (rg_services m) @
     enc_set enc_str (rg_names m) @ enc_set enc_str (rg_types m)"

definition fits_set :: "('a \<Rightarrow> bool) \<Rightarrow> 'a set \<Rightarrow> bool" where
  "fits_set fits A \<longleftrightarrow> finite A \<and> card A < 65536 \<and> (\<forall>x\<in>A. fits x)"

definition fits_register :: "register_msg \<Rightarrow> bool" where
  "fits_register m \<longleftrightarrow> fits_node (rg_node m) \<and> list_all fits_service (rg_services m) \<and>
     length (rg_services m) < 65536 \<and> fits_set fits_str (rg_names m) \<and> fits_set fits_str (rg_types m)"

lemma fits_set_list:
  "fits_set fits A \<Longrightarrow> list_all fits (sorted_list_of_set A) \<and> length (sorted_list_of_set A) < 65536 \<and>
     set (sorted_list_of_set A) = A"
  by (simp add: fits_set_def list_all_iff)

lemma set_str_io:
  assumes "fits_set fits_str A"
  shows "emits (wr_set wr_str A) (enc_set enc_str A)" and "reads (rd_set (rd_str old) B) (enc_set enc_str A) (B \<union> A)"
  using fits_set_list [OF assms] str.list_emits [of "sorted_list_of_set A"] str.set_reads [of "sorted_list_of_set A" old B]
  by (simp_all add: wr_set_def enc_set_def)

lemma set_num_io:
  assumes "fits_set (\<lambda>x. x < 2 ^ 32) A"
  shows "emits (wr_set (wr_num 4) A) (enc_set (le_bytes 4) A)"
    and "reads (rd_set (rd_num 4 old) B) (enc_set (le_bytes 4) A) (B \<union> A)"
  using fits_set_list [OF assms] u32.list_emits [of "sorted_list_of_set A"] u32.set_reads [of "sorted_list_of_set A" old B]
  by (simp_all add: wr_set_def enc_set_def)

lemma register_emits:
  assumes "fits_register m"
  shows "emits (do { wr_node (rg_node m); wr_list wr_service (rg_services m);
      wr_set wr_str (rg_names m); wr_set wr_str (rg_types m) }) (enc_register m)"
  using assms unfolding enc_register_def fits_register_def
  by (intro emits_bind node.wr_emits svc.list_emits set_str_io(1)) auto

text \<open>
  a node's registration arrives at the master with its description, its services and both
  sets of wanted services, but the wanted types are put among the wanted names, and the set of
  types arrives empty.
\<close>

theorem register_roundtrip:
  assumes "fits_register m" and "6 + length (enc_register m) < 65536"
    and "6 + length (enc_register m) < length (wb_buf b)"
  shows "unpack_register old (wb_out (pack_register sz m b)) =
     m\<lparr>rg_names := rg_names m \<union> rg_types m, rg_types := {}\<rparr>"
  unfolding unpack_register_def pack_register_def
proof (rule system_roundtrip [OF _ _ assms(2,3)])
  note f = assms(1) [unfolded fits_register_def]
  show "emits (do { wr_node (rg_node m); wr_list wr_service (rg_services m);
      wr_set wr_str (rg_names m); wr_set wr_str (rg_types m) }) (enc_register m)"
    by (rule register_emits [OF assms(1)])
  show "reads (do { sNodeBaseInfo \<leftarrow> rd_node old; vecServiceBaseInfo \<leftarrow> rd_list (rd_service fresh_service);
      setConnectServiceName \<leftarrow> rd_set (rd_str []) {};
      setConnectServiceName \<leftarrow> rd_set (rd_str []) setConnectServiceName;
      State_Monad.return \<lparr>rg_node = sNodeBaseInfo, rg_services = vecServiceBaseInfo,
        rg_names = setConnectServiceName, rg_types = {}\<rparr> }) (enc_register m)
      (m\<lparr>rg_names := rg_names m \<union> rg_types m, rg_types := {}\<rparr>)"
    using f unfolding enc_register_def
    by (intro reads_bind [OF node.rd_reads] reads_bind [OF svc.list_reads] reads_bind [OF set_str_io(2)]
        reads_last [OF set_str_io(2)]) auto
qed (simp add: SMT_register_def)

definition enc_sync_all :: "sync_all_msg \<Rightarrow> u8 list" where
  "enc_sync_all m = enc_list enc_node_info (map snd (sa_nodes m)) @ enc_set (le_bytes 4) (sa_exclude m)"

definition fits_sync_all :: "sync_all_msg \<Rightarrow> bool" where
  "fits_sync_all m \<longleftrightarrow> om_ok (sa_nodes m) \<and> length (sa_nodes m) < 65536 \<and>
     (\<forall>(k, i) \<in> set (sa_nodes m). k = nb_id (ni_base i) \<and> fits_node_info i) \<and>
     fits_set (\<lambda>x. x < 2 ^ 32) (sa_exclude m)"

text \<open>
  the list of all nodes and of the nodes not to connect to, as the master sends it to a new
  node, arrives unchanged.
\<close>

theorem sync_all_roundtrip:
  assumes "fits_sync_all m" and "6 + length (enc_sync_all m) < 65536"
    and "6 + length (enc_sync_all m) < length (wb_buf b)"
  shows "unpack_sync_all old (wb_out (pack_sync_all sz m b)) = m"
  unfolding unpack_sync_all_def pack_sync_all_def
proof (rule system_roundtrip [OF _ _ assms(2,3)])
  note f = assms(1) [unfolded fits_sync_all_def]
  let ?is = "map snd (sa_nodes m)"
  have ok: "list_all fits_node_info ?is" "length ?is < 65536" using f by (auto simp: list_all_iff)
  show "emits (do { wr_list wr_node_info ?is; wr_set (wr_num 4) (sa_exclude m) }) (enc_sync_all m)"
    using f ok unfolding enc_sync_all_def
    by (intro emits_bind ninfo.list_emits set_num_io(1)) auto
  have r: "reads (rd_list (rd_node_info old)) (enc_list enc_node_info ?is) ?is"
    using ninfo.list_reads [OF ok, of "\<lparr>ni_base = old, ni_services = []\<rparr>"] by simp
  have "fold (\<lambda>i. om_put (nb_id (ni_base i)) i) ?is [] = fold (\<lambda>(k, i). om_put k i) (sa_nodes m) []"
    using f by (auto simp: fold_map intro!: List.fold_cong)
  then have "fold (\<lambda>i. om_put (nb_id (ni_base i)) i) ?is [] = sa_nodes m"
    using om_rebuild [of "[]" "sa_nodes m"] f by simp
  then show "reads (do { vecNodeInfo \<leftarrow> rd_list (rd_node_info old); setExclude \<leftarrow> rd_set (rd_num 4 0) {};
      State_Monad.return \<lparr>sa_nodes = fold (\<lambda>i. om_put (nb_id (ni_base i)) i) vecNodeInfo [],
        sa_exclude = setExclude\<rparr> }) (enc_sync_all m) m"
    using f unfolding enc_sync_all_def
    by (intro reads_bind [OF r] reads_last [OF set_num_io(2)]) auto
qed (simp add: SMT_sync_all_def)

text \<open>The node list of one node, and the messages of one number.\<close>

definition enc_sync_node :: "sync_node_msg \<Rightarrow> u8 list" where
  "enc_sync_node m = enc_node (sn_node m) @ enc_list enc_service (sn_services m) @ le_bytes 1 (sn_exclude m)"

definition fits_sync_node :: "sync_node_msg \<Rightarrow> bool" where
  "fits_sync_node m \<longleftrightarrow> fits_node (sn_node m) \<and> list_all fits_service (sn_services m) \<and>
     length (sn_services m) < 65536 \<and> sn_exclude m < 256"

lemma sync_node_roundtrip:
  assumes "fits_sync_node m" and "6 + length (enc_sync_node m) < 65536"
    and "6 + length (enc_sync_node m) < length (wb_buf b)"
  shows "unpack_sync_node old oldExclude (wb_out (pack_sync_node sz m b)) = m"
  unfolding unpack_sync_node_def pack_sync_node_def
proof (rule system_roundtrip [OF _ _ assms(2,3)])
  note f = assms(1) [unfolded fits_sync_node_def]
  show "emits (do { wr_node (sn_node m); wr_list wr_service (sn_services m); wr_num 1 (sn_exclude m) })
      (enc_sync_node m)"
    using f unfolding enc_sync_node_def by (intro emits_bind node.wr_emits svc.list_emits emits_num) simp_all
  show "reads (do { sNodeBaseInfo \<leftarrow> rd_node old; vecServiceBaseInfo \<leftarrow> rd_list (rd_service fresh_service);
      bExcludeConnect \<leftarrow> rd_num 1 oldExclude;
      State_Monad.return \<lparr>sn_node = sNodeBaseInfo, sn_services = vecServiceBaseInfo,
        sn_exclude = bExcludeConnect\<rparr> }) (enc_sync_node m) m"
    using f unfolding enc_sync_node_def
    by (intro reads_bind [OF node.rd_reads] reads_bind [OF svc.list_reads] reads_last [OF reads_num]) auto
qed (simp add: SMT_sync_node_def)

lemma id_roundtrip:
  assumes "nNodeID < 2 ^ 32" and "nMessageID < 2 ^ 32" and "10 < length (wb_buf b)"
  shows "unpack_id old (wb_out (pack_id nMessageID sz nNodeID b)) = nNodeID"
  unfolding unpack_id_def pack_id_def
  by (rule system_roundtrip [OF u32.wr_emits u32.rd_reads]) (use assms in auto)

text \<open>
  what the master tells about a node that joined, and the messages that hold one number (the
  master's id, a node that left, the two handshakes), arrive as they were sent, whatever the
  receiving variables held.
\<close>

theorem other_messages_roundtrip:
  assumes "fits_sync_node m" and "6 + length (enc_sync_node m) < min 65536 (length (wb_buf b))"
    and "nID < 2 ^ 32"
  shows "unpack_sync_node old oldExclude (wb_out (pack_sync_node sz m b)) = m \<and>
     unpack_sync_master oldID (wb_out (pack_sync_master sz nID b)) = nID \<and>
     unpack_remove oldID (wb_out (pack_remove sz nID b)) = nID \<and>
     unpack_handshake_request oldID (wb_out (pack_handshake_request sz nID b)) = nID \<and>
     unpack_handshake_response oldID (wb_out (pack_handshake_response sz nID b)) = nID"
proof -
  have "6 \<le> length (enc_sync_node m)" by (simp add: enc_sync_node_def enc_node_def)
  with assms(2) have "10 < length (wb_buf b)" by simp
  then show ?thesis
    using sync_node_roundtrip [OF assms(1)] assms(2)
    by (simp add: unpack_sync_master_def pack_sync_master_def unpack_remove_def pack_remove_def
        unpack_handshake_request_def pack_handshake_request_def unpack_handshake_response_def
        pack_handshake_response_def SMT_sync_master_def SMT_remove_def SMT_handshake_request_def
        SMT_handshake_response_def id_roundtrip [OF assms(3)])
qed

text \<open>
  a message that fills the buffer to its last byte, as one does that made the buffer grow,
  is sent without its last byte, although its header counts it: the final \<open>seek\<close> stops one short.
\<close>

theorem full_buffer_drops_byte:
  assumes "fits_register m" and "6 + length (enc_register m) < 65536"
    and "length (wb_buf b) \<le> 6 + length (enc_register m)"
  shows "wb_out (pack_register sz m b) =
     butlast (le_bytes 2 (6 + length (enc_register m)) @ le_bytes 4 SMT_register @ enc_register m)"
proof -
  let ?L = "length (enc_register m)"
  have n: "nat (5 + int ?L) = 5 + ?L" by simp
  have "wb_out (pack_register sz m b) = take (5 + ?L) (le_bytes 2 (6 + ?L) @ le_bytes 4 SMT_register @ enc_register m)"
    using system_pack_out [OF register_emits [OF assms(1)], of sz SMT_register b] assms(2,3)
    by (simp add: pack_register_def max_def n del: take_append)
  then show ?thesis by (simp add: butlast_conv_take del: take_append)
qed

subsection \<open>Examples\<close>

definition demo_node :: node_base_info where
  "demo_node = \<lparr>nb_id = 3, nb_name = [110], nb_group = [], nb_host = [104, 49], nb_port = 8000,
     nb_recvBuf = 10240, nb_sendBuf = 10240\<rparr>"

definition demo_service :: service_base_info where
  "demo_service = \<lparr>sb_id = 5, sb_name = [115, 49], sb_type = [115]\<rparr>"

definition demo_register :: register_msg where
  "demo_register = \<lparr>rg_node = demo_node, rg_services = [demo_service], rg_names = {[103]}, rg_types = {[100, 98]}\<rparr>"

lemma demo_register_ok: "fits_register demo_register" "length (enc_register demo_register) = 47"
  by (simp_all add: fits_register_def demo_register_def fits_node_def demo_node_def fits_service_def
      demo_service_def fits_set_def enc_register_def enc_node_def enc_list_def enc_set_def enc_service_def)

lemma register_roundtrip_witness:
  "unpack_register demo_node (wb_out (pack_register 200 demo_register (wb_new 65535))) =
     demo_register\<lparr>rg_names := {[103], [100, 98]}, rg_types := {}\<rparr>"
  using register_roundtrip [of demo_register "wb_new 65535" demo_node 200] demo_register_ok
  by (simp add: wb_new_def demo_register_def insert_commute)

definition demo_sync :: sync_all_msg where
  "demo_sync = \<lparr>sa_nodes = [(3, \<lparr>ni_base = demo_node, ni_services = [demo_service]\<rparr>)], sa_exclude = {3}\<rparr>"

lemma demo_sync_ok: "fits_sync_all demo_sync" "length (enc_sync_all demo_sync) = 44"
  by (simp_all add: fits_sync_all_def demo_sync_def fits_node_info_def fits_node_def demo_node_def
      fits_service_def demo_service_def fits_set_def om_ok_def enc_sync_all_def enc_node_info_def
      enc_node_def enc_list_def enc_set_def enc_service_def)

lemma sync_all_roundtrip_witness:
  "unpack_sync_all demo_node (wb_out (pack_sync_all 200 demo_sync (wb_new 65535))) = demo_sync"
  using sync_all_roundtrip [of demo_sync "wb_new 65535" demo_node 200] demo_sync_ok
  by (simp add: wb_new_def)

lemma full_buffer_drops_byte_witness:
  "length (wb_out (pack_register 200 demo_register (wb_new 16))) = 52"
  using full_buffer_drops_byte [of demo_register "wb_new 16" 200] demo_register_ok
  by (simp add: wb_new_def)

definition demo_sync_node :: sync_node_msg where
  "demo_sync_node = \<lparr>sn_node = demo_node, sn_services = [demo_service], sn_exclude = 1\<rparr>"

lemma other_messages_roundtrip_witness:
  "unpack_sync_node demo_node 0 (wb_out (pack_sync_node 200 demo_sync_node (wb_new 65535))) = demo_sync_node"
proof -
  have "fits_sync_node demo_sync_node \<and> length (enc_sync_node demo_sync_node) = 37"
    by (simp add: fits_sync_node_def demo_sync_node_def fits_node_def demo_node_def fits_service_def
        demo_service_def enc_sync_node_def enc_node_def enc_list_def enc_service_def)
  then show ?thesis
    using other_messages_roundtrip [of demo_sync_node "wb_new 65535" 7 demo_node 0 200] by (simp add: wb_new_def)
qed

end
