(* ===== verification/Service_Registry.thy ===== *)
theory Service_Registry imports Proto_System Message_Types begin

text \<open>
  The registry of the master, \<open>CServiceRegistry\<close> of \<open>service/master/service_registry.cpp\<close>, and
  the connection a node registers on, \<open>CConnectionFromNode\<close> of
  \<open>service/master/connection_from_node.cpp\<close>. A message the registry sends is recorded in
  \<open>sr_sent\<close> with the socket it goes to, before packing (\<open>Proto_System\<close> packs it).
\<close>

record reg_node =
  rn_base :: node_base_info
  rn_byID :: "(nat, service_base_info) omap"    \<comment> \<open>\<open>mapServiceBaseInfo\<close>, never filled\<close>
  rn_services :: "service_base_info list"
  rn_names :: "bstr set"
  rn_types :: "bstr set"
  rn_socket :: nat                              \<comment> \<open>0: not connected\<close>

datatype sys_msg = SyncAll sync_all_msg | SyncNode sync_node_msg | RemoveNode nat

record registry =
  sr_nodes :: "(nat, reg_node) omap"            \<comment> \<open>\<open>m_mapNodeProxyInfo\<close>\<close>
  sr_serviceName :: "(bstr, nat) omap"          \<comment> \<open>\<open>m_mapServiceName\<close>: name to node\<close>
  sr_serviceType :: "(bstr, nat set) omap"      \<comment> \<open>\<open>m_mapServiceType\<close>: type to nodes\<close>
  sr_serviceIDs :: "nat set"                    \<comment> \<open>\<open>m_setServiceID\<close>\<close>
  sr_sent :: "(nat \<times> sys_msg) list"

definition reg_new :: registry where
  "reg_new = \<lparr>sr_nodes = [], sr_serviceName = [], sr_serviceType = [], sr_serviceIDs = {}, sr_sent = []\<rparr>"

text \<open>
  \<open>isExcludeConnectNode\<close>. Its callback: does the first node want a service of the second? The
  second loop also goes through \<open>setConnectServiceName\<close>, where unpacking has put the types.
\<close>

definition wants :: "(bstr, nat) omap \<Rightarrow> (bstr, nat set) omap \<Rightarrow> reg_node \<Rightarrow> reg_node \<Rightarrow> bool" where
  "wants mapServiceName mapServiceType src dst \<longleftrightarrow>
     (\<exists>n \<in> rn_names src. om_get mapServiceName n = Some (nb_id (rn_base dst))) \<or>
     (\<exists>n \<in> rn_names src. nb_id (rn_base dst) \<in> om_at {} mapServiceType n)"

definition isExcludeConnectNode :: "(bstr, nat) omap \<Rightarrow> (bstr, nat set) omap \<Rightarrow> reg_node \<Rightarrow> reg_node \<Rightarrow> bool" where
  "isExcludeConnectNode mapServiceName mapServiceType src dst \<longleftrightarrow>
     (if \<not> wants mapServiceName mapServiceType src dst then False
      else if \<not> wants mapServiceName mapServiceType dst src then False
      else nb_id (rn_base src) \<ge> nb_id (rn_base dst))"

text \<open>
  The test for duplicates. The two maps of the node's own services are never filled, so a name or
  an id that occurs twice in one registration passes.
\<close>

definition dup_service :: "registry \<Rightarrow> service_base_info list \<Rightarrow> bool" where
  "dup_service r vecServiceBaseInfo \<longleftrightarrow>
     (let mapServiceBaseInfoByID = ([] :: (nat, service_base_info) omap);
          mapServiceBaseInfoByName = ([] :: (bstr, service_base_info) omap)
      in list_ex (\<lambda>s. om_get (sr_serviceName r) (sb_name s) \<noteq> None \<or> sb_id s \<in> sr_serviceIDs r \<or>
           om_get mapServiceBaseInfoByID (sb_id s) \<noteq> None \<or>
           om_get mapServiceBaseInfoByName (sb_name s) \<noteq> None) vecServiceBaseInfo)"

definition enter_service :: "nat \<Rightarrow> service_base_info \<Rightarrow> registry \<Rightarrow> registry" where
  "enter_service nNodeID s r = r\<lparr>
     sr_serviceIDs := insert (sb_id s) (sr_serviceIDs r),
     sr_serviceName := om_put (sb_name s) nNodeID (sr_serviceName r),
     sr_serviceType := om_put (sb_type s) (insert nNodeID (om_at {} (sr_serviceType r) (sb_type s)))
       (sr_serviceType r)\<rparr>"

definition reg_send :: "nat \<Rightarrow> sys_msg \<Rightarrow> registry \<Rightarrow> registry" where
  "reg_send nSocketID m r = r\<lparr>sr_sent := sr_sent r @ [(nSocketID, m)]\<rparr>"

definition info_of :: "reg_node \<Rightarrow> node_info" where
  "info_of n = \<lparr>ni_base = rn_base n, ni_services = rn_services n\<rparr>"

abbreviation rn_id :: "reg_node \<Rightarrow> nat" where "rn_id n \<equiv> nb_id (rn_base n)"

text \<open>The nodes other than the new one, in the order of the map.\<close>

definition others :: "nat \<Rightarrow> registry \<Rightarrow> reg_node list" where
  "others nNodeID r = filter (\<lambda>n. rn_id n \<noteq> nNodeID) (map snd (sr_nodes r))"

definition sync_all_of :: "reg_node \<Rightarrow> registry \<Rightarrow> sync_all_msg" where
  "sync_all_of n r =
     (let excl = isExcludeConnectNode (sr_serviceName r) (sr_serviceType r)
      in \<lparr>sa_nodes = fold (\<lambda>p. om_put (rn_id p) (info_of p)) (others (rn_id n) r) [],
          sa_exclude = set (map rn_id (filter (excl n) (others (rn_id n) r)))\<rparr>)"

definition sync_node_of :: "reg_node \<Rightarrow> node_base_info \<Rightarrow> service_base_info list \<Rightarrow> registry \<Rightarrow> reg_node \<Rightarrow> sync_node_msg" where
  "sync_node_of n base services r p =
     \<lparr>sn_node = base, sn_services = services,
      sn_exclude = (if isExcludeConnectNode (sr_serviceName r) (sr_serviceType r) p n then 1 else 0)\<rparr>"

definition announce :: "nat \<Rightarrow> node_base_info \<Rightarrow> service_base_info list \<Rightarrow> reg_node \<Rightarrow> registry \<Rightarrow> registry" where
  "announce nSocketID base services n r =
     (let r1 = reg_send nSocketID (SyncAll (sync_all_of n r)) r
      in fold (\<lambda>p. reg_send (rn_socket p) (SyncNode (sync_node_of n base services r p)))
           (filter (\<lambda>p. rn_socket p \<noteq> 0) (others (nb_id base) r1)) r1)"

definition addNode ::
    "nat \<Rightarrow> node_base_info \<Rightarrow> service_base_info list \<Rightarrow> bstr set \<Rightarrow> bstr set \<Rightarrow> registry \<Rightarrow> bool \<times> registry" where
  "addNode nSocketID base services names types r =
     (let nID = nb_id base;
          finish = (\<lambda>n. let r1 = r\<lparr>sr_nodes := om_put nID n (sr_nodes r)\<rparr>;
                            r2 = fold (enter_service nID) services r1
                        in (True, announce nSocketID base services n r2))
      in case om_get (sr_nodes r) nID of
           Some n \<Rightarrow> if rn_socket n \<noteq> 0 then (False, r) else finish (n\<lparr>rn_socket := nSocketID\<rparr>)
         | None \<Rightarrow>
             if dup_service r services then (False, r)
             else finish \<lparr>rn_base = base, rn_byID = [], rn_services = services, rn_names = names,
                          rn_types = types, rn_socket = nSocketID\<rparr>)"

text \<open>The service id, not the node id, is erased from the nodes of the type.\<close>

definition leave_service :: "service_base_info \<Rightarrow> registry \<Rightarrow> registry" where
  "leave_service s r = r\<lparr>
     sr_serviceIDs := sr_serviceIDs r - {sb_id s},
     sr_serviceName := om_del (sb_name s) (sr_serviceName r),
     sr_serviceType := om_put (sb_type s) (om_at {} (sr_serviceType r) (sb_type s) - {sb_id s})
       (sr_serviceType r)\<rparr>"

definition delNode :: "nat \<Rightarrow> registry \<Rightarrow> registry" where
  "delNode nNodeID r =
     (case om_get (sr_nodes r) nNodeID of
        None \<Rightarrow> r
      | Some n \<Rightarrow>
          (let r1 = fold leave_service (rn_services n) r;
               r2 = r1\<lparr>sr_nodes := om_del nNodeID (sr_nodes r1)\<rparr>
           in fold (\<lambda>p. reg_send (rn_socket p) (RemoveNode nNodeID))
                (filter (\<lambda>p. rn_socket p \<noteq> 0) (map snd (sr_nodes r2))) r2))"

definition disconnectNode :: "nat \<Rightarrow> registry \<Rightarrow> registry" where
  "disconnectNode nNodeID r =
     (case om_get (sr_nodes r) nNodeID of
        None \<Rightarrow> r
      | Some n \<Rightarrow> r\<lparr>sr_nodes := om_put nNodeID (n\<lparr>rn_socket := 0\<rparr>) (sr_nodes r)\<rparr>)"

subsection \<open>The connection of a node\<close>

record from_node =
  fn_socket :: nat
  fn_node :: nat          \<comment> \<open>\<open>m_nNodeID\<close>, 0 before the registration\<close>
  fn_shut :: bool         \<comment> \<open>the master has shut it down\<close>

definition fn_onDispatch ::
    "node_base_info \<Rightarrow> nat \<Rightarrow> u8 list \<Rightarrow> from_node \<Rightarrow> registry \<Rightarrow> from_node \<times> registry" where
  "fn_onDispatch old nMessageType d c r =
     (if nMessageType \<noteq> MT_SYSTEM then (c, r)
      else if \<not> length d > message_header_size then (c, r)
      else if field 2 4 d = SMT_register then
        (let m = unpack_register old d;
             (ok, r') = addNode (fn_socket c) (rg_node m) (rg_services m) (rg_names m) (rg_types m) r
         in if \<not> ok then (c\<lparr>fn_shut := True\<rparr>, r')
            else (c\<lparr>fn_node := nb_id (rg_node m)\<rparr>, r'))
      else if field 2 4 d = SMT_unregister then (c, delNode (fn_node c) r)
      else (c, r))"

definition fn_onDisconnect :: "from_node \<Rightarrow> registry \<Rightarrow> registry" where
  "fn_onDisconnect c r = (if fn_node c \<noteq> 0 then disconnectNode (fn_node c) r else r)"

subsection \<open>What entering and leaving services do to the indexes\<close>

definition indexes_ok :: "registry \<Rightarrow> bool" where
  "indexes_ok r \<longleftrightarrow> om_ok (sr_nodes r) \<and> om_ok (sr_serviceName r) \<and> om_ok (sr_serviceType r)"

lemma enter_all:
  fixes ss :: "service_base_info list" and k :: nat
  assumes "indexes_ok r"
  defines "r' \<equiv> fold (enter_service k) ss r"
  shows "indexes_ok r'" and "sr_nodes r' = sr_nodes r" and "sr_sent r' = sr_sent r"
    and "sr_serviceIDs r' = sr_serviceIDs r \<union> sb_id ` set ss"
    and "om_get (sr_serviceName r') x = (if x \<in> sb_name ` set ss then Some k else om_get (sr_serviceName r) x)"
    and "om_at {} (sr_serviceType r') t =
      om_at {} (sr_serviceType r) t \<union> (if t \<in> sb_type ` set ss then {k} else {})"
  using assms(1) unfolding r'_def
  by (induction ss arbitrary: r) (auto simp: enter_service_def indexes_ok_def om_at_def)

lemma leave_all:
  fixes ss :: "service_base_info list"
  assumes "indexes_ok r"
  defines "r' \<equiv> fold leave_service ss r"
  shows "indexes_ok r'" and "sr_nodes r' = sr_nodes r" and "sr_sent r' = sr_sent r"
    and "sr_serviceIDs r' = sr_serviceIDs r - sb_id ` set ss"
    and "om_get (sr_serviceName r') x = (if x \<in> sb_name ` set ss then None else om_get (sr_serviceName r) x)"
    and "om_at {} (sr_serviceType r') t = om_at {} (sr_serviceType r) t - sb_id ` {s \<in> set ss. sb_type s = t}"
  using assms(1) unfolding r'_def
  by (induction ss arbitrary: r) (auto simp: leave_service_def indexes_ok_def om_at_def)

lemma send_all:
  fixes f :: "'p \<Rightarrow> nat" and g :: "'p \<Rightarrow> sys_msg"
  defines "r' \<equiv> \<lambda>ps r. fold (\<lambda>p. reg_send (f p) (g p)) ps r"
  shows "sr_sent (r' ps r) = sr_sent r @ map (\<lambda>p. (f p, g p)) ps"
    and "sr_nodes (r' ps r) = sr_nodes r" and "sr_serviceName (r' ps r) = sr_serviceName r"
    and "sr_serviceType (r' ps r) = sr_serviceType r" and "sr_serviceIDs (r' ps r) = sr_serviceIDs r"
  unfolding r'_def by (induction ps arbitrary: r) (auto simp: reg_send_def)

subsection \<open>Which of two nodes opens the connection\<close>

abbreviation wants_in :: "registry \<Rightarrow> reg_node \<Rightarrow> reg_node \<Rightarrow> bool" where
  "wants_in r \<equiv> wants (sr_serviceName r) (sr_serviceType r)"

definition opens :: "registry \<Rightarrow> reg_node \<Rightarrow> reg_node \<Rightarrow> bool" where
  "opens r p q \<longleftrightarrow> wants_in r p q \<and> \<not> isExcludeConnectNode (sr_serviceName r) (sr_serviceType r) p q"

text \<open>
  whatever the registry holds, of two different nodes the master tells one, and only one, not
  to connect when each wants a service of the other: the one with the larger id. When only one of
  them wants the other, neither is told so. So exactly one of the two ends will open a connection
  if any of them wants it.
\<close>

theorem one_side_connects:
  assumes "rn_id a \<noteq> rn_id b"
  shows "(opens r a b \<or> opens r b a) = (wants_in r a b \<or> wants_in r b a) \<and> \<not> (opens r a b \<and> opens r b a)"
  using assms by (auto simp: opens_def isExcludeConnectNode_def)

subsection \<open>Consistency of the registry\<close>

definition names_of :: "reg_node \<Rightarrow> bstr set" where
  "names_of n = sb_name ` set (rn_services n)"

definition ids_of :: "reg_node \<Rightarrow> nat set" where
  "ids_of n = sb_id ` set (rn_services n)"

text \<open>
  What the registry means: the service names and ids are those of the registered nodes, each
  belonging to one node.
\<close>

definition reg_ok :: "registry \<Rightarrow> bool" where
  "reg_ok r \<longleftrightarrow> indexes_ok r \<and>
     (\<forall>k n. om_get (sr_nodes r) k = Some n \<longrightarrow> rn_id n = k) \<and>
     (\<forall>x k. om_get (sr_serviceName r) x = Some k \<longleftrightarrow>
        (\<exists>n. om_get (sr_nodes r) k = Some n \<and> x \<in> names_of n)) \<and>
     (\<forall>i. i \<in> sr_serviceIDs r \<longleftrightarrow> (\<exists>k n. om_get (sr_nodes r) k = Some n \<and> i \<in> ids_of n)) \<and>
     (\<forall>k n k' n'. om_get (sr_nodes r) k = Some n \<and> om_get (sr_nodes r) k' = Some n' \<and> k \<noteq> k' \<longrightarrow>
        ids_of n \<inter> ids_of n' = {})"

text \<open>
  The histories considered: a node registers on a new socket, and one that comes back describes
  itself as it did before.
\<close>

inductive reg_reach :: "registry \<Rightarrow> bool" where
  start: "reg_reach reg_new"
| add: "reg_reach r \<Longrightarrow> s \<noteq> 0 \<Longrightarrow> s \<notin> fst ` set (sr_sent r) \<Longrightarrow>
    (\<And>n. om_get (sr_nodes r) (nb_id base) = Some n \<Longrightarrow> rn_base n = base \<and> rn_services n = services) \<Longrightarrow>
    reg_reach (snd (addNode s base services names types r))"
| del: "reg_reach r \<Longrightarrow> reg_reach (delNode k r)"
| disconnect: "reg_reach r \<Longrightarrow> reg_reach (disconnectNode k r)"

lemma announce_keeps:
  "sr_nodes (announce s base services n r) = sr_nodes r"
  "sr_serviceName (announce s base services n r) = sr_serviceName r"
  "sr_serviceType (announce s base services n r) = sr_serviceType r"
  "sr_serviceIDs (announce s base services n r) = sr_serviceIDs r"
  by (simp_all add: announce_def Let_def send_all) (simp_all add: reg_send_def)

text \<open>The part of \<open>addNode\<close> both branches share, for a node that is new or came back.\<close>

definition admit :: "nat \<Rightarrow> node_base_info \<Rightarrow> service_base_info list \<Rightarrow> reg_node \<Rightarrow> registry \<Rightarrow> registry" where
  "admit s base services n r =
     announce s base services n
       (fold (enter_service (nb_id base)) services (r\<lparr>sr_nodes := om_put (nb_id base) n (sr_nodes r)\<rparr>))"

lemma addNode_cases:
  obtains (refused) "addNode s base services names types r = (False, r)"
  | (returning) n where "om_get (sr_nodes r) (nb_id base) = Some n" "rn_socket n = 0"
      "addNode s base services names types r = (True, admit s base services (n\<lparr>rn_socket := s\<rparr>) r)"
  | (fresh) "om_get (sr_nodes r) (nb_id base) = None" "\<not> dup_service r services"
      "addNode s base services names types r = (True, admit s base services
         \<lparr>rn_base = base, rn_byID = [], rn_services = services, rn_names = names, rn_types = types, rn_socket = s\<rparr> r)"
proof (cases "om_get (sr_nodes r) (nb_id base)")
  case None
  show thesis
  proof (cases "dup_service r services")
    case True
    with None show thesis by (intro refused) (simp add: addNode_def)
  next
    case False
    with None show thesis by (intro fresh) (simp_all add: addNode_def admit_def Let_def)
  qed
next
  case (Some n)
  show thesis
  proof (cases "rn_socket n = 0")
    case True
    with Some show thesis by (intro returning [of n]) (simp_all add: addNode_def admit_def Let_def)
  next
    case False
    with Some show thesis by (intro refused) (simp add: addNode_def)
  qed
qed

lemma admit_index:
  fixes s :: nat and base :: node_base_info and services :: "service_base_info list" and n :: reg_node
  assumes "indexes_ok r"
  defines "r' \<equiv> admit s base services n r"
  shows "indexes_ok r'" and "sr_nodes r' = om_put (nb_id base) n (sr_nodes r)"
    and "sr_serviceIDs r' = sr_serviceIDs r \<union> sb_id ` set services"
    and "om_get (sr_serviceName r') x =
      (if x \<in> sb_name ` set services then Some (nb_id base) else om_get (sr_serviceName r) x)"
proof -
  let ?r1 = "r\<lparr>sr_nodes := om_put (nb_id base) n (sr_nodes r)\<rparr>"
  have i: "indexes_ok ?r1" using assms(1) by (simp add: indexes_ok_def)
  note e = enter_all [OF i, of "nb_id base" services]
  show "indexes_ok r'" using e(1) by (simp add: r'_def admit_def indexes_ok_def announce_keeps)
  show "sr_nodes r' = om_put (nb_id base) n (sr_nodes r)" using e(2) by (simp add: r'_def admit_def announce_keeps)
  show "sr_serviceIDs r' = sr_serviceIDs r \<union> sb_id ` set services"
    using e(4) by (simp add: r'_def admit_def announce_keeps)
  show "om_get (sr_serviceName r') x =
      (if x \<in> sb_name ` set services then Some (nb_id base) else om_get (sr_serviceName r) x)"
    using e(5) by (simp add: r'_def admit_def announce_keeps)
qed

lemma dup_service_False:
  "\<not> dup_service r services \<Longrightarrow> s \<in> set services \<Longrightarrow>
     om_get (sr_serviceName r) (sb_name s) = None \<and> sb_id s \<notin> sr_serviceIDs r"
  by (auto simp: dup_service_def list_ex_iff Let_def)

lemma reg_okD:
  assumes "reg_ok r"
  shows "indexes_ok r" and "om_get (sr_nodes r) k = Some n \<Longrightarrow> rn_id n = k"
    and "om_get (sr_serviceName r) x = Some k \<longleftrightarrow>
      (\<exists>n. om_get (sr_nodes r) k = Some n \<and> x \<in> names_of n)"
    and "i \<in> sr_serviceIDs r \<longleftrightarrow> (\<exists>k n. om_get (sr_nodes r) k = Some n \<and> i \<in> ids_of n)"
    and "om_get (sr_nodes r) k = Some n \<Longrightarrow> om_get (sr_nodes r) k' = Some n' \<Longrightarrow> k \<noteq> k' \<Longrightarrow>
      ids_of n \<inter> ids_of n' = {}"
proof -
  note a = assms [unfolded reg_ok_def]
  show "indexes_ok r" using a by (rule conjunct1)
  show "om_get (sr_nodes r) k = Some n \<Longrightarrow> rn_id n = k"
    using a [THEN conjunct2, THEN conjunct1] by simp
  show "om_get (sr_serviceName r) x = Some k \<longleftrightarrow>
      (\<exists>n. om_get (sr_nodes r) k = Some n \<and> x \<in> names_of n)"
    using a [THEN conjunct2, THEN conjunct2, THEN conjunct1] by simp
  show "i \<in> sr_serviceIDs r \<longleftrightarrow> (\<exists>k n. om_get (sr_nodes r) k = Some n \<and> i \<in> ids_of n)"
    using a [THEN conjunct2, THEN conjunct2, THEN conjunct2, THEN conjunct1] by simp
  show "om_get (sr_nodes r) k = Some n \<Longrightarrow> om_get (sr_nodes r) k' = Some n' \<Longrightarrow> k \<noteq> k' \<Longrightarrow>
      ids_of n \<inter> ids_of n' = {}"
    using a [THEN conjunct2, THEN conjunct2, THEN conjunct2, THEN conjunct2, rule_format, of k n k' n'] by blast
qed

lemma reg_okI:
  assumes "indexes_ok r" and "\<And>k n. om_get (sr_nodes r) k = Some n \<Longrightarrow> rn_id n = k"
    and "\<And>x k. om_get (sr_serviceName r) x = Some k \<longleftrightarrow>
      (\<exists>n. om_get (sr_nodes r) k = Some n \<and> x \<in> names_of n)"
    and "\<And>i. i \<in> sr_serviceIDs r \<longleftrightarrow> (\<exists>k n. om_get (sr_nodes r) k = Some n \<and> i \<in> ids_of n)"
    and "\<And>k n k' n'. om_get (sr_nodes r) k = Some n \<Longrightarrow> om_get (sr_nodes r) k' = Some n' \<Longrightarrow> k \<noteq> k' \<Longrightarrow>
      ids_of n \<inter> ids_of n' = {}"
  shows "reg_ok r"
  unfolding reg_ok_def using assms(1,2,5) by (simp add: assms(3,4)) blast

text \<open>A node that is new, or known with the same services, keeps the registry consistent.\<close>

definition may_join :: "registry \<Rightarrow> reg_node \<Rightarrow> bool" where
  "may_join r n \<longleftrightarrow>
     (case om_get (sr_nodes r) (rn_id n) of
        None \<Rightarrow> \<not> dup_service r (rn_services n)
      | Some n0 \<Rightarrow> rn_base n0 = rn_base n \<and> rn_services n0 = rn_services n)"

lemma may_join_new:
  assumes "may_join r n" and "om_get (sr_nodes r) (rn_id n) = None"
  shows "x \<in> names_of n \<Longrightarrow> om_get (sr_serviceName r) x = None" and "i \<in> ids_of n \<Longrightarrow> i \<notin> sr_serviceIDs r"
  using assms dup_service_False [of r "rn_services n"]
  by (auto simp: may_join_def names_of_def ids_of_def)

lemma may_join_old:
  assumes "may_join r n" and "om_get (sr_nodes r) (rn_id n) = Some n0"
  shows "names_of n0 = names_of n" and "ids_of n0 = ids_of n"
  using assms by (auto simp: may_join_def names_of_def ids_of_def)

lemma may_join_name:
  assumes "reg_ok r" and "may_join r n" and "x \<in> names_of n"
    and "om_get (sr_nodes r) k = Some n'" and "x \<in> names_of n'"
  shows "k = rn_id n"
proof -
  have k: "om_get (sr_serviceName r) x = Some k" using assms(4,5) reg_okD(3) [OF assms(1)] by blast
  show ?thesis
  proof (cases "om_get (sr_nodes r) (rn_id n)")
    case None
    with may_join_new(1) [OF assms(2) None assms(3)] k show ?thesis by simp
  next
    case (Some n0)
    then have "x \<in> names_of n0" using may_join_old(1) [OF assms(2)] assms(3) by simp
    with Some have "om_get (sr_serviceName r) x = Some (rn_id n)" using reg_okD(3) [OF assms(1)] by blast
    with k show ?thesis by simp
  qed
qed

lemma may_join_id:
  assumes "reg_ok r" and "may_join r n" and "i \<in> ids_of n"
    and "om_get (sr_nodes r) k = Some n'" and "i \<in> ids_of n'"
  shows "k = rn_id n"
proof (cases "om_get (sr_nodes r) (rn_id n)")
  case None
  have "i \<in> sr_serviceIDs r" using assms(4,5) reg_okD(4) [OF assms(1)] by blast
  with may_join_new(2) [OF assms(2) None assms(3)] show ?thesis by simp
next
  case (Some n0)
  then have i0: "i \<in> ids_of n0" using may_join_old(2) [OF assms(2)] assms(3) by simp
  show ?thesis
  proof (rule ccontr)
    assume "k \<noteq> rn_id n"
    then have "ids_of n' \<inter> ids_of n0 = {}" by (rule reg_okD(5) [OF assms(1,4) Some])
    with i0 assms(5) show False by blast
  qed
qed

lemma admit_ok:
  assumes "reg_ok r" and "may_join r n" and "base = rn_base n" and "services = rn_services n"
  shows "reg_ok (admit s base services n r)"
proof -
  let ?r = "admit s base services n r" and ?k = "rn_id n"
  note i = admit_index [OF reg_okD(1) [OF assms(1)], of s base services n,
      unfolded assms(3,4) names_of_def [symmetric] ids_of_def [symmetric]]
  have o: "om_ok (sr_nodes r)" using reg_okD(1) [OF assms(1)] by (simp add: indexes_ok_def)
  have nodes: "om_get (sr_nodes ?r) = (om_get (sr_nodes r))(?k \<mapsto> n)" using i(2) o assms(3,4) by simp
  have ids: "j \<in> sr_serviceIDs ?r \<longleftrightarrow>
      (\<exists>k n'. om_get (sr_nodes ?r) k = Some n' \<and> j \<in> ids_of n')" for j
  proof (cases "j \<in> ids_of n")
    case True
    then have "om_get (sr_nodes ?r) ?k = Some n \<and> j \<in> ids_of n" using nodes by simp
    with True i(3) assms(3,4) show ?thesis by blast
  next
    case False
    have "(\<exists>k n'. om_get (sr_nodes ?r) k = Some n' \<and> j \<in> ids_of n') \<longleftrightarrow>
        (\<exists>k n'. k \<noteq> ?k \<and> om_get (sr_nodes r) k = Some n' \<and> j \<in> ids_of n')"
      using False nodes by auto
    also have "\<dots> \<longleftrightarrow> (\<exists>k n'. om_get (sr_nodes r) k = Some n' \<and> j \<in> ids_of n')"
    proof -
      have "j \<notin> ids_of n'" if "om_get (sr_nodes r) ?k = Some n'" for n'
        using may_join_old(2) [OF assms(2) that] False by simp
      then show ?thesis by metis
    qed
    finally show ?thesis using False i(3) assms(3,4) reg_okD(4) [OF assms(1), of j] by simp
  qed
  have names: "om_get (sr_serviceName ?r) x = Some k \<longleftrightarrow>
      (\<exists>n'. om_get (sr_nodes ?r) k = Some n' \<and> x \<in> names_of n')" for x k
  proof (cases "x \<in> names_of n")
    case True
    then have l: "om_get (sr_serviceName ?r) x = Some ?k" using i(4) assms(3,4) by simp
    have "k = ?k" if e: "om_get (sr_nodes ?r) k = Some n'" "x \<in> names_of n'" for n'
    proof (cases "k = ?k")
      case False
      with e nodes have "om_get (sr_nodes r) k = Some n'" by simp
      then show ?thesis by (rule may_join_name [OF assms(1,2) True _ e(2)])
    qed
    moreover have "om_get (sr_nodes ?r) ?k = Some n" using nodes by simp
    ultimately show ?thesis unfolding l using True by blast
  next
    case False
    then have "om_get (sr_serviceName ?r) x = om_get (sr_serviceName r) x" using i(4) assms(3,4) by simp
    moreover have "x \<notin> names_of n'" if "om_get (sr_nodes r) ?k = Some n'" for n'
      using may_join_old(1) [OF assms(2) that] False by simp
    ultimately show ?thesis using False nodes reg_okD(3) [OF assms(1), of x k] by auto
  qed
  have disj: "ids_of n1 \<inter> ids_of n2 = {}"
    if "om_get (sr_nodes ?r) k1 = Some n1" "om_get (sr_nodes ?r) k2 = Some n2" "k1 \<noteq> k2" for k1 n1 k2 n2
  proof -
    have "ids_of n \<inter> ids_of n' = {}" if "om_get (sr_nodes r) k = Some n'" "k \<noteq> ?k" for k n'
      using may_join_id [OF assms(1,2) _ that(1)] that(2) by blast
    with that nodes reg_okD(5) [OF assms(1) _ _ that(3)] show ?thesis
      by (cases "k1 = ?k"; cases "k2 = ?k") (auto simp: Int_commute)
  qed
  have own: "rn_id m = k" if "om_get (sr_nodes ?r) k = Some m" for k m
    using that nodes reg_okD(2) [OF assms(1)] by (cases "k = ?k") auto
  have "indexes_ok ?r" using i(1) assms(3,4) by simp
  from reg_okI [OF this own names ids disj] show ?thesis .
qed

lemma delNode_index:
  assumes "reg_ok r" and "om_get (sr_nodes r) k = Some n"
  shows "indexes_ok (delNode k r)" and "om_get (sr_nodes (delNode k r)) = (om_get (sr_nodes r))(k := None)"
    and "sr_serviceIDs (delNode k r) = sr_serviceIDs r - ids_of n"
    and "om_get (sr_serviceName (delNode k r)) x = (if x \<in> names_of n then None else om_get (sr_serviceName r) x)"
    and "om_at {} (sr_serviceType (delNode k r)) t =
      om_at {} (sr_serviceType r) t - sb_id ` {s \<in> set (rn_services n). sb_type s = t}"
proof -
  note l = leave_all [OF reg_okD(1) [OF assms(1)], of "rn_services n"]
  note d = assms(2) send_all [where f = "rn_socket :: reg_node \<Rightarrow> nat" and g = "\<lambda>_. RemoveNode k"]
  show "indexes_ok (delNode k r)" using l(1) d by (simp add: delNode_def Let_def indexes_ok_def)
  show "om_get (sr_nodes (delNode k r)) = (om_get (sr_nodes r))(k := None)"
    using l(2) d by (simp add: delNode_def Let_def)
  show "sr_serviceIDs (delNode k r) = sr_serviceIDs r - ids_of n"
    using l(4) d by (simp add: delNode_def Let_def ids_of_def)
  show "om_get (sr_serviceName (delNode k r)) x = (if x \<in> names_of n then None else om_get (sr_serviceName r) x)"
    using l(5) [of x] d by (simp add: delNode_def Let_def names_of_def)
  show "om_at {} (sr_serviceType (delNode k r)) t =
      om_at {} (sr_serviceType r) t - sb_id ` {s \<in> set (rn_services n). sb_type s = t}"
    using l(6) [of t] d by (simp add: delNode_def Let_def)
qed

lemma delNode_ok:
  assumes "reg_ok r"
  shows "reg_ok (delNode k r)"
proof (cases "om_get (sr_nodes r) k")
  case None
  then show ?thesis using assms by (simp add: delNode_def)
next
  case (Some n)
  note i = delNode_index [OF assms Some]
  have old: "om_get (sr_nodes r) k' = Some m \<and> k' \<noteq> k" if "om_get (sr_nodes (delNode k r)) k' = Some m" for k' m
    using that i(2) by (simp split: if_splits)
  have new: "om_get (sr_nodes (delNode k r)) k' = Some m" if "om_get (sr_nodes r) k' = Some m" "k' \<noteq> k" for k' m
    using that i(2) by simp
  have names: "om_get (sr_serviceName (delNode k r)) x = Some k' \<longleftrightarrow>
      (\<exists>m. om_get (sr_nodes (delNode k r)) k' = Some m \<and> x \<in> names_of m)" for x k'
  proof (cases "x \<in> names_of n")
    case True
    then have "om_get (sr_serviceName r) x = Some k" using reg_okD(3) [OF assms] Some by blast
    moreover have "om_get (sr_serviceName (delNode k r)) x = None" using i(4) True by simp
    ultimately show ?thesis using old reg_okD(3) [OF assms, of x k'] by auto
  next
    case False
    then have "om_get (sr_serviceName (delNode k r)) x = om_get (sr_serviceName r) x" using i(4) by simp
    moreover have "k' \<noteq> k" if "om_get (sr_nodes r) k' = Some m" "x \<in> names_of m" for m
      using that Some False by auto
    ultimately show ?thesis using old new reg_okD(3) [OF assms, of x k'] by metis
  qed
  have ids: "j \<in> sr_serviceIDs (delNode k r) \<longleftrightarrow>
      (\<exists>k' m. om_get (sr_nodes (delNode k r)) k' = Some m \<and> j \<in> ids_of m)" for j
  proof (cases "j \<in> ids_of n")
    case True
    have False if "om_get (sr_nodes (delNode k r)) k' = Some m" "j \<in> ids_of m" for k' m
      using old [OF that(1)] reg_okD(5) [OF assms _ Some] True that(2) by blast
    then show ?thesis using True i(3) by blast
  next
    case False
    then have "j \<in> sr_serviceIDs (delNode k r) \<longleftrightarrow> j \<in> sr_serviceIDs r" using i(3) by simp
    moreover have "k' \<noteq> k" if "om_get (sr_nodes r) k' = Some m" "j \<in> ids_of m" for k' m
      using that Some False by auto
    ultimately show ?thesis using old new reg_okD(4) [OF assms, of j] by metis
  qed
  show ?thesis
    by (rule reg_okI [OF i(1) _ names ids]) (use old reg_okD(2,5) [OF assms] in blast)+
qed

lemma disconnectNode_nodes:
  assumes "om_get (sr_nodes r) k = Some n" and "om_ok (sr_nodes r)"
  shows "om_get (sr_nodes (disconnectNode k r)) = (om_get (sr_nodes r))(k \<mapsto> n\<lparr>rn_socket := 0\<rparr>)"
    and "sr_sent (disconnectNode k r) = sr_sent r"
  using assms by (simp_all add: disconnectNode_def)

lemma disconnectNode_ok:
  assumes "reg_ok r"
  shows "reg_ok (disconnectNode k r)"
proof (cases "om_get (sr_nodes r) k")
  case None
  then show ?thesis using assms by (simp add: disconnectNode_def)
next
  case (Some n)
  let ?r = "disconnectNode k r" and ?n = "n\<lparr>rn_socket := 0\<rparr>"
  have ok: "om_ok (sr_nodes r)" using reg_okD(1) [OF assms] by (simp add: indexes_ok_def)
  note nodes = disconnectNode_nodes(1) [OF Some ok]
  have same: "names_of ?n = names_of n" "ids_of ?n = ids_of n" by (simp_all add: names_of_def ids_of_def)
  have iff: "(\<exists>m. om_get (sr_nodes ?r) k' = Some m \<and> P m) \<longleftrightarrow> (\<exists>m. om_get (sr_nodes r) k' = Some m \<and> P m)"
    if "P ?n = P n" for P k'
    using that Some nodes by (cases "k' = k") auto
  have "reg_ok r \<Longrightarrow> sr_serviceName ?r = sr_serviceName r \<and> sr_serviceIDs ?r = sr_serviceIDs r \<and> indexes_ok ?r"
    using Some reg_okD(1) [OF assms] by (simp add: disconnectNode_def indexes_ok_def)
  note f = this [OF assms]
  have down: "\<exists>m0. om_get (sr_nodes r) k' = Some m0 \<and> rn_id m = rn_id m0 \<and> ids_of m = ids_of m0"
    if "om_get (sr_nodes ?r) k' = Some m" for k' m
    using that nodes Some same by (cases "k' = k") auto
  show ?thesis
  proof (rule reg_okI)
    show "indexes_ok ?r" using f by simp
    show "rn_id m = k'" if "om_get (sr_nodes ?r) k' = Some m" for k' m
      using down [OF that] reg_okD(2) [OF assms] by auto
    show "om_get (sr_serviceName ?r) x = Some k' \<longleftrightarrow>
        (\<exists>m. om_get (sr_nodes ?r) k' = Some m \<and> x \<in> names_of m)" for x k'
      using f reg_okD(3) [OF assms, of x k'] iff [of "\<lambda>m. x \<in> names_of m" k'] same by simp
    show "j \<in> sr_serviceIDs ?r \<longleftrightarrow> (\<exists>k' m. om_get (sr_nodes ?r) k' = Some m \<and> j \<in> ids_of m)" for j
      using f reg_okD(4) [OF assms, of j] iff [of "\<lambda>m. j \<in> ids_of m"] same by simp
    show "ids_of m \<inter> ids_of m' = {}"
      if "om_get (sr_nodes ?r) k1 = Some m" "om_get (sr_nodes ?r) k2 = Some m'" "k1 \<noteq> k2" for k1 m k2 m'
      using down [OF that(1)] down [OF that(2)] reg_okD(5) [OF assms _ _ that(3)] by metis
  qed
qed

lemma reg_new_ok: "reg_ok reg_new"
  by (rule reg_okI) (auto simp: reg_new_def indexes_ok_def)

lemma addNode_ok:
  assumes "reg_ok r" and "\<And>n. om_get (sr_nodes r) (nb_id base) = Some n \<Longrightarrow> rn_base n = base \<and> rn_services n = services"
  shows "reg_ok (snd (addNode s base services names types r))"
proof (cases rule: addNode_cases [of s base services names types r])
  case refused
  then show ?thesis using assms by simp
next
  case (returning n)
  from assms(2) [OF returning(1)] have "may_join r (n\<lparr>rn_socket := s\<rparr>)"
    using returning(1) by (auto simp: may_join_def)
  with assms(2) [OF returning(1)] returning(3) show ?thesis by (auto intro: admit_ok [OF assms(1)])
next
  case fresh
  then have "may_join r \<lparr>rn_base = base, rn_byID = [], rn_services = services, rn_names = names,
      rn_types = types, rn_socket = s\<rparr>" by (simp add: may_join_def)
  with fresh(3) show ?thesis by (auto intro: admit_ok [OF assms(1)])
qed

lemma reg_reach_ok: "reg_reach r \<Longrightarrow> reg_ok r"
  by (induction rule: reg_reach.induct) (simp_all add: reg_new_ok addNode_ok delNode_ok disconnectNode_ok)


text \<open>
  a node that leaves stays in the index of its service types, which loses the service's id
  instead (the id of some node, perhaps): unless a service of that type has the id of the node,
  the registry goes on taking the node for a provider of the type.
\<close>

theorem delNode_keeps_type:
  assumes "reg_reach r" and "om_get (sr_nodes r) k = Some n"
    and "k \<in> om_at {} (sr_serviceType r) t" and "k \<notin> ids_of n"
  shows "om_get (sr_nodes (delNode k r)) k = None \<and> k \<in> om_at {} (sr_serviceType (delNode k r)) t"
  using delNode_index(2,5) [OF reg_reach_ok [OF assms(1)] assms(2)] assms(3,4) by (auto simp: ids_of_def)

subsection \<open>What a node learns from the messages\<close>

text \<open>
  The abstract effect of the messages on the receiving node's map of the other nodes: the full
  list replaces it (known nodes are kept as they are), a new node is added unless it is known.
\<close>

definition view_add :: "nat \<Rightarrow> node_info \<Rightarrow> (nat, node_info) omap \<Rightarrow> (nat, node_info) omap" where
  "view_add k i v = (if om_get v k = None then om_put k i v else v)"

fun view_step :: "sys_msg \<Rightarrow> (nat, node_info) omap \<Rightarrow> (nat, node_info) omap" where
  "view_step (SyncAll m) v =
     fold (\<lambda>(k, i). view_add k i) (sa_nodes m) (filter (\<lambda>(k, _). om_get (sa_nodes m) k \<noteq> None) v)"
| "view_step (SyncNode m) v =
     view_add (nb_id (sn_node m)) \<lparr>ni_base = sn_node m, ni_services = sn_services m\<rparr> v"
| "view_step (RemoveNode k) v = om_del k v"

definition msgs_to :: "nat \<Rightarrow> registry \<Rightarrow> sys_msg list" where
  "msgs_to s r = map snd (filter (\<lambda>(s', _). s' = s) (sr_sent r))"

definition view :: "nat \<Rightarrow> registry \<Rightarrow> (nat, node_info) omap" where
  "view s r = fold view_step (msgs_to s r) []"

lemma msgs_to_Nil: "s \<notin> fst ` set (sr_sent r) \<Longrightarrow> msgs_to s r = []"
  by (force simp: msgs_to_def filter_empty_conv)

lemma msgs_to_send: "sr_sent r' = sr_sent r @ xs \<Longrightarrow> msgs_to s r' = msgs_to s r @ map snd (filter (\<lambda>(s', _). s' = s) xs)"
  by (simp add: msgs_to_def)

lemma filter_unique:
  "distinct (map f ps) \<Longrightarrow> p \<in> set ps \<Longrightarrow> f p = s \<Longrightarrow>
     map snd (filter (\<lambda>(s', _). s' = s) (map (\<lambda>p. (f p, g p)) ps)) = [g p]"
proof (induction ps)
  case (Cons q ps)
  have none: "map snd (filter (\<lambda>(s', _). s' = s) (map (\<lambda>p. (f p, g p)) qs)) = []" if "s \<notin> f ` set qs" for qs
    using that by (induction qs) auto
  show ?case
  proof (cases "q = p")
    case True
    with Cons.prems none [of ps] show ?thesis by auto
  next
    case False
    with Cons.prems have "f q \<noteq> s" "p \<in> set ps" by (auto simp: image_iff)
    with Cons show ?thesis by simp
  qed
qed simp

lemma filter_nobody:
  "s \<notin> f ` set ps \<Longrightarrow> map snd (filter (\<lambda>(s', _). s' = s) (map (\<lambda>p. (f p, g p)) ps)) = []"
  by (induction ps) auto

lemma view_ok: "om_ok (view s r)"
proof -
  have add: "om_ok v \<Longrightarrow> om_ok (view_add k i v)" for k i v by (simp add: view_add_def)
  have "om_ok v \<Longrightarrow> om_ok (view_step m v)" for m v
  proof (cases m)
    case (SyncAll x)
    assume "om_ok v"
    then have "om_ok (filter (\<lambda>(k, _). om_get (sa_nodes x) k \<noteq> None) v)"
      by (induction v) (auto simp: om_ok_Cons)
    then show ?thesis using SyncAll add by (auto intro!: fold_invariant [where P = om_ok] split: prod.splits)
  qed (simp_all add: add)
  then show ?thesis unfolding view_def by (intro fold_invariant [where P = om_ok]) auto
qed

lemma view_add_get: "om_ok v \<Longrightarrow> om_get (view_add k i v) = (\<lambda>k'. if k' = k \<and> om_get v k = None then Some i else om_get v k')"
  by (auto simp: view_add_def fun_eq_iff)

lemma view_sync_all: "om_ok (sa_nodes m) \<Longrightarrow> om_get (view_step (SyncAll m) []) = om_get (sa_nodes m)"
proof -
  have "om_get (fold (\<lambda>(k, i). view_add k i) xs v) k' =
      (case om_get v k' of None \<Rightarrow> om_get xs k' | Some i \<Rightarrow> Some i)" if "om_ok v" for xs v k'
    using that
  proof (induction xs arbitrary: v)
    case (Cons x xs)
    obtain k i where x: "x = (k, i)" by fastforce
    have "om_ok (view_add k i v)" using Cons.prems by (simp add: view_add_def)
    from Cons.IH [OF this] show ?case by (auto simp: x view_add_get [OF Cons.prems] split: option.splits)
  qed (simp split: option.splits)
  then show ?thesis by (simp add: fun_eq_iff)
qed

text \<open>
  What holds of the view of every connected node, whose socket is its own.
\<close>

definition views_ok :: "registry \<Rightarrow> bool" where
  "views_ok r \<longleftrightarrow>
     (\<forall>k n. om_get (sr_nodes r) k = Some n \<and> rn_socket n \<noteq> 0 \<longrightarrow>
        rn_socket n \<in> fst ` set (sr_sent r) \<and>
        (\<forall>k' n'. om_get (sr_nodes r) k' = Some n' \<and> rn_socket n' = rn_socket n \<longrightarrow> k' = k) \<and>
        om_get (view (rn_socket n) r) =
          (\<lambda>k'. if k' = k then None else map_option info_of (om_get (sr_nodes r) k')))"

lemma views_okD:
  assumes "views_ok r" and "om_get (sr_nodes r) k = Some n" and "rn_socket n \<noteq> 0"
  shows "rn_socket n \<in> fst ` set (sr_sent r)"
    and "om_get (sr_nodes r) k' = Some n' \<Longrightarrow> rn_socket n' = rn_socket n \<Longrightarrow> k' = k"
    and "om_get (view (rn_socket n) r) =
          (\<lambda>k'. if k' = k then None else map_option info_of (om_get (sr_nodes r) k'))"
  using assms unfolding views_ok_def by blast+

text \<open>The connected nodes have different sockets, so each gets what is sent to it once.\<close>

lemma connected_sockets:
  assumes ok: "om_ok (sr_nodes r)" and v: "views_ok r" and sub: "set N \<subseteq> set (sr_nodes r)" and "distinct N"
  shows "distinct (map rn_socket (filter (\<lambda>n. rn_socket n \<noteq> 0) (map snd N)))"
proof -
  let ?C = "filter (\<lambda>(k, n). rn_socket n \<noteq> 0) N"
  have "inj_on (rn_socket \<circ> snd) (set ?C)"
  proof (rule inj_onI)
    fix p q assume p: "p \<in> set ?C" and q: "q \<in> set ?C" and e: "(rn_socket \<circ> snd) p = (rn_socket \<circ> snd) q"
    obtain k n k' n' where pq: "p = (k, n)" "q = (k', n')" by fastforce
    have g: "om_get (sr_nodes r) k = Some n" "om_get (sr_nodes r) k' = Some n'" "rn_socket n' = rn_socket n" "rn_socket n \<noteq> 0"
      using p q e pq sub om_in_get [OF ok] by auto
    have "k' = k" by (rule views_okD(2) [OF v g(1,4,2,3)])
    with g pq show "p = q" by simp
  qed
  then have "distinct (map (rn_socket \<circ> snd) ?C)" using assms(4) by (simp add: distinct_map)
  moreover have "map (rn_socket \<circ> snd) ?C = map rn_socket (filter (\<lambda>n. rn_socket n \<noteq> 0) (map snd N))"
    by (simp add: filter_map comp_def case_prod_unfold)
  ultimately show ?thesis by simp
qed

text \<open>The nodes told about the new one: the connected others.\<close>

abbreviation listeners :: "nat \<Rightarrow> registry \<Rightarrow> reg_node list" where
  "listeners k r \<equiv> filter (\<lambda>n. rn_socket n \<noteq> 0) (map snd (om_del k (sr_nodes r)))"

lemma listeners_distinct:
  assumes "om_ok (sr_nodes r)" and "views_ok r"
  shows "distinct (map rn_socket (listeners k r))"
proof (rule connected_sockets [OF assms])
  show "set (om_del k (sr_nodes r)) \<subseteq> set (sr_nodes r)" by (auto simp: om_del_def)
  show "distinct (om_del k (sr_nodes r))" using assms(1) by (auto simp: om_ok_def om_del_def distinct_map)
qed

lemma listener:
  assumes "om_ok (sr_nodes r)" and "om_get (sr_nodes r) k' = Some n" and "k' \<noteq> k" and "rn_socket n \<noteq> 0"
  shows "n \<in> set (listeners k r)"
proof -
  have "(k', n) \<in> set (om_del k (sr_nodes r))" using assms(2,3) om_in_get [OF assms(1)] by (auto simp: om_del_def)
  then show ?thesis using assms(4) by force
qed

lemma listener_socket:
  assumes "om_ok (sr_nodes r)" and "views_ok r" and "n \<in> set (listeners k r)"
  shows "rn_socket n \<in> fst ` set (sr_sent r)"
proof -
  obtain k' where "om_get (sr_nodes r) k' = Some n" using assms(3) om_in_get [OF assms(1)] by (auto simp: om_del_def)
  with views_okD(1) [OF assms(2) this] assms(3) show ?thesis by simp
qed

lemma others_eq:
  assumes "\<And>k n. (k, n) \<in> set (sr_nodes r) \<Longrightarrow> rn_id n = k"
  shows "others k r = map snd (om_del k (sr_nodes r))"
proof -
  have "filter (\<lambda>n. rn_id n \<noteq> k) (map snd N) = map snd (om_del k N)"
    if "\<And>k n. (k, n) \<in> set N \<Longrightarrow> rn_id n = k" for N
    using that
  proof (induction N)
    case (Cons p N)
    obtain k' n where p: "p = (k', n)" by fastforce
    then have "rn_id n = k'" using Cons.prems by simp
    moreover have "filter (\<lambda>n. rn_id n \<noteq> k) (map snd N) = map snd (om_del k N)"
      using Cons.IH Cons.prems by (meson list.set_intros(2))
    ultimately show ?case by (simp add: p om_del_def)
  qed (simp add: om_del_def)
  from this [OF assms] show ?thesis by (simp add: others_def)
qed

lemma sync_nodes:
  assumes "om_ok N" and "\<And>k n. (k, n) \<in> set N \<Longrightarrow> rn_id n = k"
  shows "fold (\<lambda>p. om_put (rn_id p) (info_of p)) (map snd N) [] = map (\<lambda>(k, n). (k, info_of n)) N"
proof -
  have "fold (\<lambda>p. om_put (rn_id p) (info_of p)) (map snd N) [] =
      fold (\<lambda>(k, i). om_put k i) (map (\<lambda>(k, n). (k, info_of n)) N) []"
    unfolding fold_map by (rule List.fold_cong) (use assms(2) in auto)
  moreover have "om_ok (map (\<lambda>(k, n). (k, info_of n)) N)"
    using assms(1) by (simp add: om_ok_def comp_def case_prod_unfold)
  ultimately show ?thesis using om_rebuild [of "[]" "map (\<lambda>(k, n). (k, info_of n)) N"] by simp
qed

lemma announce_sent:
  "sr_sent (announce s base services n r) = sr_sent r @ (s, SyncAll (sync_all_of n r)) #
     map (\<lambda>p. (rn_socket p, SyncNode (sync_node_of n base services r p)))
       (filter (\<lambda>p. rn_socket p \<noteq> 0) (others (nb_id base) r))"
proof -
  have "others k (reg_send s m r) = others k r" for k m by (simp add: others_def reg_send_def)
  moreover have "sr_sent (reg_send s m r) = sr_sent r @ [(s, m)]" for m by (simp add: reg_send_def)
  ultimately show ?thesis unfolding announce_def Let_def send_all(1) by simp
qed

lemma admit_sent:
  assumes "reg_ok r" and "rn_base n = base"
  obtains x g where "sr_sent (admit s base services n r) = sr_sent r @ (s, SyncAll x) #
      map (\<lambda>p. (rn_socket p, SyncNode (g p))) (listeners (nb_id base) r)"
    and "sa_nodes x = map (\<lambda>(k, p). (k, info_of p)) (om_del (nb_id base) (sr_nodes r))"
    and "\<And>p. sn_node (g p) = base \<and> sn_services (g p) = services"
proof -
  let ?k = "nb_id base"
  let ?r1 = "r\<lparr>sr_nodes := om_put ?k n (sr_nodes r)\<rparr>"
  let ?r2 = "fold (enter_service ?k) services ?r1"
  let ?x = "sync_all_of n ?r2"
  let ?g = "sync_node_of n base services ?r2"
  have ok: "om_ok (sr_nodes r)" using reg_okD(1) [OF assms(1)] by (simp add: indexes_ok_def)
  have i1: "indexes_ok ?r1" using reg_okD(1) [OF assms(1)] by (simp add: indexes_ok_def)
  have n2: "sr_nodes ?r2 = om_put ?k n (sr_nodes r)" "sr_sent ?r2 = sr_sent r"
    using enter_all(2,3) [OF i1, of ?k services] by simp_all
  have id: "rn_id p = k'" if "(k', p) \<in> set (om_put ?k n (sr_nodes r))" for k' p
    using that om_in_get [OF om_put_ok [OF ok]] ok reg_okD(2) [OF assms(1)] assms(2) by (auto split: if_splits)
  have o2: "others ?k ?r2 = map snd (om_del ?k (sr_nodes r))"
    using others_eq [of ?r2 ?k] id n2 om_del_put [OF ok] by simp
  have sent: "sr_sent (admit s base services n r) = sr_sent r @ (s, SyncAll ?x) #
      map (\<lambda>p. (rn_socket p, SyncNode (?g p))) (listeners ?k r)"
    unfolding admit_def announce_sent o2 n2(2) ..
  have nodes: "sa_nodes ?x = map (\<lambda>(k, p). (k, info_of p)) (om_del ?k (sr_nodes r))"
  proof -
    have "rn_id p = k'" if "(k', p) \<in> set (om_del ?k (sr_nodes r))" for k' p
      using that om_in_get [OF ok] reg_okD(2) [OF assms(1)] by (auto simp: om_del_def)
    from sync_nodes [OF om_del_ok [OF ok] this] show ?thesis
      using o2 assms(2) by (simp add: sync_all_of_def Let_def)
  qed
  have "sn_node (?g p) = base \<and> sn_services (?g p) = services" for p by (simp add: sync_node_of_def)
  from that [OF sent nodes this] show ?thesis .
qed

lemma view_send: "sr_sent r' = sr_sent r @ xs \<Longrightarrow>
    view s r' = fold view_step (map snd (filter (\<lambda>(s', _). s' = s) xs)) (view s r)"
  by (simp add: view_def msgs_to_send)

text \<open>A node joins: the full list for it, one message more for every other connected node.\<close>

lemma admit_views:
  assumes ok: "reg_ok r" and v: "views_ok r" and s: "s \<noteq> 0" "s \<notin> fst ` set (sr_sent r)"
    and n: "rn_base n = base" "rn_services n = services" "rn_socket n = s"
    and was: "om_get (sr_nodes r) (nb_id base) = None \<or>
      (\<exists>n0. om_get (sr_nodes r) (nb_id base) = Some n0 \<and> rn_socket n0 = 0 \<and> info_of n0 = info_of n)"
  shows "views_ok (admit s base services n r)"
proof -
  let ?k = "nb_id base" and ?r = "admit s base services n r"
  have oko: "om_ok (sr_nodes r)" using reg_okD(1) [OF ok] by (simp add: indexes_ok_def)
  obtain x g where sent: "sr_sent ?r = sr_sent r @ (s, SyncAll x) #
      map (\<lambda>p. (rn_socket p, SyncNode (g p))) (listeners ?k r)"
    and x: "sa_nodes x = map (\<lambda>(k, p). (k, info_of p)) (om_del ?k (sr_nodes r))"
    and g: "\<And>p. sn_node (g p) = base \<and> sn_services (g p) = services"
    using admit_sent [OF ok n(1)] by blast
  have nodes: "om_get (sr_nodes ?r) = (om_get (sr_nodes r))(?k \<mapsto> n)"
    using admit_index(2) [OF reg_okD(1) [OF ok]] oko by simp
  have info: "info_of n = \<lparr>ni_base = base, ni_services = services\<rparr>" using n by (simp add: info_of_def)
  have new: "om_get (view s ?r) = (\<lambda>k'. if k' = ?k then None else map_option info_of (om_get (sr_nodes ?r) k'))"
  proof -
    have "s \<notin> rn_socket ` set (listeners ?k r)" using listener_socket [OF oko v] s(2) by blast
    then have "map snd (filter (\<lambda>(s', _). s' = s)
        (map (\<lambda>p. (rn_socket p, SyncNode (g p))) (listeners ?k r))) = []" by (rule filter_nobody)
    then have "view s ?r = view_step (SyncAll x) (view s r)"
      unfolding view_send [OF sent, of s] by (simp del: view_step.simps filter_map)
    moreover have "view s r = []" using msgs_to_Nil [OF s(2)] by (simp add: view_def)
    moreover have "om_ok (sa_nodes x)"
      using om_del_ok [OF oko, of ?k] x by (simp add: om_ok_def comp_def case_prod_unfold)
    ultimately have "om_get (view s ?r) = om_get (sa_nodes x)" using view_sync_all by simp
    then show ?thesis using x nodes by (auto simp: map_of_map fun_eq_iff)
  qed
  have told: "om_get (view (rn_socket p) ?r) =
      (\<lambda>k'. if k' = k then None else map_option info_of (om_get (sr_nodes ?r) k'))"
    if p: "om_get (sr_nodes r) k = Some p" "k \<noteq> ?k" "rn_socket p \<noteq> 0" for k p
  proof -
    have "rn_socket p \<noteq> s" using views_okD(1) [OF v p(1,3)] s(2) by auto
    moreover have "map snd (filter (\<lambda>(s', _). s' = rn_socket p)
        (map (\<lambda>p. (rn_socket p, SyncNode (g p))) (listeners ?k r))) = [SyncNode (g p)]"
      using filter_unique [OF listeners_distinct [OF oko v] listener [OF oko p] refl] by simp
    ultimately have "view (rn_socket p) ?r = view_add ?k (info_of n) (view (rn_socket p) r)"
      using view_send [OF sent] g info by auto
    moreover have "om_get (view (rn_socket p) r) = (\<lambda>k'. if k' = k then None else map_option info_of (om_get (sr_nodes r) k'))"
      by (rule views_okD(3) [OF v p(1,3)])
    ultimately show ?thesis using view_add_get [OF view_ok] was nodes p(2) by (auto simp: fun_eq_iff)
  qed
  show ?thesis unfolding views_ok_def
  proof (intro allI impI)
    fix k p assume a: "om_get (sr_nodes ?r) k = Some p \<and> rn_socket p \<noteq> 0"
    have old: "rn_socket p' \<in> fst ` set (sr_sent r)" if "om_get (sr_nodes r) k' = Some p'" "rn_socket p' \<noteq> 0" for k' p'
      by (rule views_okD(1) [OF v that])
    show "rn_socket p \<in> fst ` set (sr_sent ?r) \<and>
        (\<forall>k' n'. om_get (sr_nodes ?r) k' = Some n' \<and> rn_socket n' = rn_socket p \<longrightarrow> k' = k) \<and>
        om_get (view (rn_socket p) ?r) =
          (\<lambda>k'. if k' = k then None else map_option info_of (om_get (sr_nodes ?r) k'))"
    proof (cases "k = ?k")
      case True
      then have p: "p = n" using a nodes by simp
      have "k' = ?k" if "om_get (sr_nodes ?r) k' = Some n'" "rn_socket n' = s" for k' n'
        using that nodes old [of k' n'] s by (auto split: if_splits)
      moreover have "s \<in> fst ` set (sr_sent ?r)" using sent by simp
      ultimately show ?thesis unfolding p True n(3) using new by blast
    next
      case False
      then have p: "om_get (sr_nodes r) k = Some p" "rn_socket p \<noteq> 0" using a nodes by auto
      have "k' = k" if e: "om_get (sr_nodes ?r) k' = Some n'" "rn_socket n' = rn_socket p" for k' n'
      proof (cases "k' = ?k")
        case True
        then have "rn_socket p = s" using e nodes n(3) by simp
        with old [OF p] s(2) show ?thesis by simp
      next
        case False
        then show ?thesis using e nodes views_okD(2) [OF v p] by simp
      qed
      moreover have "rn_socket p \<in> fst ` set (sr_sent ?r)" using old [OF p] sent by auto
      ultimately show ?thesis using told [OF p(1) False p(2)] by blast
    qed
  qed
qed

lemma delNode_views:
  assumes ok: "reg_ok r" and v: "views_ok r"
  shows "views_ok (delNode k r)"
proof (cases "om_get (sr_nodes r) k")
  case None
  then show ?thesis using v by (simp add: delNode_def)
next
  case (Some n)
  let ?r = "delNode k r"
  have oko: "om_ok (sr_nodes r)" using reg_okD(1) [OF ok] by (simp add: indexes_ok_def)
  note nodes = delNode_index(2) [OF ok Some]
  have sent: "sr_sent ?r = sr_sent r @ map (\<lambda>p. (rn_socket p, RemoveNode k)) (listeners k r)"
    using Some leave_all(2,3) [OF reg_okD(1) [OF ok], of "rn_services n"]
    by (simp add: delNode_def Let_def send_all(1))
  have told: "om_get (view (rn_socket p) ?r) =
      (\<lambda>k''. if k'' = k' then None else map_option info_of (om_get (sr_nodes ?r) k''))"
    if p: "om_get (sr_nodes r) k' = Some p" "k' \<noteq> k" "rn_socket p \<noteq> 0" for k' p
  proof -
    have "view (rn_socket p) ?r = om_del k (view (rn_socket p) r)"
      using view_send [OF sent] filter_unique [OF listeners_distinct [OF oko v] listener [OF oko p] refl, of "\<lambda>_. RemoveNode k"]
      by simp
    then show ?thesis using views_okD(3) [OF v p(1,3)] nodes by (auto simp: fun_eq_iff)
  qed
  show ?thesis unfolding views_ok_def
  proof (intro allI impI)
    fix k' p assume a: "om_get (sr_nodes ?r) k' = Some p \<and> rn_socket p \<noteq> 0"
    then have p: "om_get (sr_nodes r) k' = Some p" "k' \<noteq> k" "rn_socket p \<noteq> 0" using nodes by (auto split: if_splits)
    have "k'' = k'" if "om_get (sr_nodes ?r) k'' = Some n'" "rn_socket n' = rn_socket p" for k'' n'
      using that nodes views_okD(2) [OF v p(1,3)] by (simp split: if_splits)
    moreover have "rn_socket p \<in> fst ` set (sr_sent ?r)" using views_okD(1) [OF v p(1,3)] sent by auto
    ultimately show "rn_socket p \<in> fst ` set (sr_sent ?r) \<and>
        (\<forall>k'' n'. om_get (sr_nodes ?r) k'' = Some n' \<and> rn_socket n' = rn_socket p \<longrightarrow> k'' = k') \<and>
        om_get (view (rn_socket p) ?r) =
          (\<lambda>k''. if k'' = k' then None else map_option info_of (om_get (sr_nodes ?r) k''))"
      using told [OF p] by blast
  qed
qed

lemma disconnectNode_views:
  assumes ok: "reg_ok r" and v: "views_ok r"
  shows "views_ok (disconnectNode k r)"
proof (cases "om_get (sr_nodes r) k")
  case None
  then show ?thesis using v by (simp add: disconnectNode_def)
next
  case (Some n)
  let ?r = "disconnectNode k r"
  have oko: "om_ok (sr_nodes r)" using reg_okD(1) [OF ok] by (simp add: indexes_ok_def)
  note nodes = disconnectNode_nodes(1) [OF Some oko]
  have info: "map_option info_of (om_get (sr_nodes ?r) k') = map_option info_of (om_get (sr_nodes r) k')" for k'
    using nodes Some by (simp add: info_of_def)
  have view: "view s ?r = view s r" for s
    using disconnectNode_nodes(2) [OF Some oko] by (simp add: view_def msgs_to_def)
  show ?thesis unfolding views_ok_def
  proof (intro allI impI)
    fix k' p assume a: "om_get (sr_nodes ?r) k' = Some p \<and> rn_socket p \<noteq> 0"
    then have p: "om_get (sr_nodes r) k' = Some p" "rn_socket p \<noteq> 0" using nodes by (auto split: if_splits)
    have "k'' = k'" if e: "om_get (sr_nodes ?r) k'' = Some n'" "rn_socket n' = rn_socket p" for k'' n'
    proof (cases "k'' = k")
      case True
      then have "rn_socket n' = 0" using e(1) nodes by auto
      then show ?thesis using e(2) p(2) by simp
    next
      case False
      then have "om_get (sr_nodes r) k'' = Some n'" using e(1) nodes by simp
      then show ?thesis using e(2) by (rule views_okD(2) [OF v p])
    qed
    moreover have "rn_socket p \<in> fst ` set (sr_sent ?r)"
      using views_okD(1) [OF v p] disconnectNode_nodes(2) [OF Some oko] by simp
    ultimately show "rn_socket p \<in> fst ` set (sr_sent ?r) \<and>
        (\<forall>k'' n'. om_get (sr_nodes ?r) k'' = Some n' \<and> rn_socket n' = rn_socket p \<longrightarrow> k'' = k') \<and>
        om_get (view (rn_socket p) ?r) =
          (\<lambda>k''. if k'' = k' then None else map_option info_of (om_get (sr_nodes ?r) k''))"
      using views_okD(3) [OF v p] unfolding view info by blast
  qed
qed

lemma reg_reach_views: "reg_reach r \<Longrightarrow> views_ok r"
proof (induction rule: reg_reach.induct)
  case start
  then show ?case by (simp add: views_ok_def reg_new_def)
next
  case (add r s base services names types)
  show ?case
  proof (cases rule: addNode_cases [of s base services names types r])
    case refused
    then show ?thesis using add.IH by simp
  next
    case (returning n)
    with add(4) [OF returning(1)] show ?thesis
      by (auto intro!: admit_views [OF reg_reach_ok [OF add(1)] add.IH add(2,3)] simp: info_of_def)
  next
    case fresh
    then show ?thesis
      by (auto intro!: admit_views [OF reg_reach_ok [OF add(1)] add.IH add(2,3)])
  qed
qed (simp_all add: delNode_views disconnectNode_views reg_reach_ok)


subsection \<open>A history of two nodes that want each other's services\<close>

definition demo_node2 :: node_base_info where
  "demo_node2 = demo_node\<lparr>nb_id := 4, nb_name := [109]\<rparr>"

definition demo_service2 :: service_base_info where
  "demo_service2 = \<lparr>sb_id = 6, sb_name = [115, 50], sb_type = [116]\<rparr>"

definition demo_reg1 :: registry where
  "demo_reg1 = snd (addNode 1 demo_node [demo_service] {[116]} {} reg_new)"

definition demo_reg2 :: registry where
  "demo_reg2 = snd (addNode 2 demo_node2 [demo_service2] {[115, 49]} {} demo_reg1)"

lemmas demo_defs = demo_node2_def demo_service2_def demo_node_def demo_service_def

lemma demo_reg1_eval:
  "demo_reg1 = \<lparr>sr_nodes = [(3, \<lparr>rn_base = demo_node, rn_byID = [], rn_services = [demo_service],
       rn_names = {[116]}, rn_types = {}, rn_socket = 1\<rparr>)],
     sr_serviceName = [([115, 49], 3)], sr_serviceType = [([115], {3})], sr_serviceIDs = {5},
     sr_sent = [(1, SyncAll \<lparr>sa_nodes = [], sa_exclude = {}\<rparr>)]\<rparr>"
  by (simp add: demo_reg1_def addNode_def reg_new_def demo_node_def demo_service_def dup_service_def
      enter_service_def announce_def sync_all_of_def others_def reg_send_def om_at_def)

lemma demo_reg1_reach: "reg_reach demo_reg1"
  unfolding demo_reg1_def by (rule reg_reach.add [OF reg_reach.start]) (simp_all add: reg_new_def)

lemma demo_reg2_reach: "reg_reach demo_reg2"
  unfolding demo_reg2_def
  by (rule reg_reach.add [OF demo_reg1_reach]) (simp_all add: demo_reg1_eval demo_node2_def demo_node_def)

lemma demo_dup: "\<not> dup_service demo_reg1 [demo_service2]"
  by (simp add: dup_service_def demo_reg1_eval demo_service2_def)

lemma demo_reg2_eval:
  "sr_nodes demo_reg2 = [(3, \<lparr>rn_base = demo_node, rn_byID = [], rn_services = [demo_service],
       rn_names = {[116]}, rn_types = {}, rn_socket = 1\<rparr>),
     (4, \<lparr>rn_base = demo_node2, rn_byID = [], rn_services = [demo_service2],
       rn_names = {[115, 49]}, rn_types = {}, rn_socket = 2\<rparr>)]"
  "sr_serviceName demo_reg2 = [([115, 49], 3), ([115, 50], 4)]"
  "sr_serviceType demo_reg2 = [([115], {3}), ([116], {4})]"
  using demo_dup
  by (simp_all add: demo_reg2_def addNode_def demo_reg1_eval demo_defs
      enter_service_def announce_keeps om_at_def)

theorem one_side_connects_witness:
  "\<exists>a b. om_get (sr_nodes demo_reg2) 3 = Some a \<and> om_get (sr_nodes demo_reg2) 4 = Some b \<and>
     wants_in demo_reg2 a b \<and> wants_in demo_reg2 b a \<and>
     (opens demo_reg2 a b \<or> opens demo_reg2 b a) \<and> \<not> (opens demo_reg2 a b \<and> opens demo_reg2 b a)"
proof -
  define a b where "a = the (om_get (sr_nodes demo_reg2) 3)" and "b = the (om_get (sr_nodes demo_reg2) 4)"
  have g: "om_get (sr_nodes demo_reg2) 3 = Some a" "om_get (sr_nodes demo_reg2) 4 = Some b"
    and ne: "rn_id a \<noteq> rn_id b" and w: "wants_in demo_reg2 a b" "wants_in demo_reg2 b a"
    by (simp_all add: a_def b_def demo_reg2_eval demo_defs wants_def om_at_def)
  from one_side_connects [OF ne, of demo_reg2] g w show ?thesis by blast
qed


theorem delNode_keeps_type_witness:
  "om_get (sr_nodes (delNode 3 demo_reg2)) 3 = None \<and> 3 \<in> om_at {} (sr_serviceType (delNode 3 demo_reg2)) [115]"
  by (rule delNode_keeps_type [OF demo_reg2_reach, where n = "the (om_get (sr_nodes demo_reg2) 3)"])
    (simp_all add: demo_reg2_eval om_at_def ids_of_def demo_service_def)


end
