(* ===== verification/Registry_Proxy.thy ===== *)
theory Registry_Proxy imports Service_Registry begin

text \<open>
  What a node knows of the other nodes: \<open>CGlobalServiceRegistryProxy\<close>
  (\<open>global_service_registry_proxy.cpp\<close>), the copy each service looks services up in,
  \<open>CLocalServiceRegistryProxy\<close> (\<open>local_service_registry_proxy.cpp\<close>), the connection to the
  master that feeds it (\<open>base_connection_to_master.cpp\<close>) and the connections to other nodes
  (\<open>base_connection_other_node.cpp\<close>), all of \<open>engine/src/libCoreCommon\<close>. Everything runs on the
  global message queue, so operations do not interleave.

  A connection is its socket id; \<open>rp_conns\<close> holds the live \<open>CBaseConnectionOtherNode\<close> objects
  with their \<open>m_nNodeID\<close>. What the operations send out is recorded: \<open>rp_out\<close> the packets to the
  queues of the node's own services, \<open>rp_net\<close> what goes to connections.
\<close>

subsection \<open>State\<close>

record node_proxy =
  np_base :: node_base_info
  np_services :: "service_base_info list"
  np_socket :: nat
  np_connecting :: bool          \<comment> \<open>\<open>pTicker\<close> is registered: the node tries to connect\<close>

record service_proxy =
  vp_base :: service_base_info
  vp_socket :: nat

record service_ids =
  si_all :: "nat set"
  si_active :: "nat set"
  si_vec :: "nat list"           \<comment> \<open>\<open>vecActiveServiceID\<close>\<close>

definition no_ids :: service_ids where
  "no_ids = \<lparr>si_all = {}, si_active = {}, si_vec = []\<rparr>"

record local_proxy =
  lp_services :: "(nat, service_proxy) omap"      \<comment> \<open>\<open>m_mapServiceProxyInfo\<close>\<close>
  lp_ids :: "(bstr, service_ids) omap"            \<comment> \<open>\<open>m_mapServiceIDInfoByType\<close>\<close>
  lp_nameToID :: "(bstr, nat) omap"               \<comment> \<open>\<open>m_mapServiceNameByID\<close>\<close>
  lp_idToName :: "(nat, bstr) omap"               \<comment> \<open>\<open>m_mapServiceIDByName\<close>\<close>

datatype service_packet = UpdateProxy local_proxy | ServiceConnect bstr nat | ServiceDisconnect bstr nat

datatype net_packet = HandshakeRequest nat | HandshakeResponse nat | RegisterNode register_msg
  | ShutDown | ConnectMaster bstr nat nat | ConnectNode bstr nat nat nat

record master_info =
  mi_host :: bstr
  mi_port :: nat
  mi_active :: bool
  mi_connected :: bool           \<comment> \<open>\<open>pBaseConnectionToMaster\<close> is not null\<close>

record reg_proxy = local_proxy +
  rp_self :: node_base_info
  rp_local :: "service_base_info list"            \<comment> \<open>the node's own services\<close>
  rp_wantNames :: "bstr set"
  rp_wantTypes :: "bstr set"
  rp_nodes :: "(nat, node_proxy) omap"            \<comment> \<open>\<open>m_mapNodeProxyInfo\<close>\<close>
  rp_masters :: "(nat, master_info) omap"
  rp_conns :: "(nat, nat) omap"
  rp_out :: "(nat \<times> service_packet) list"
  rp_net :: "(nat \<times> net_packet) list"

definition net_send :: "nat \<Rightarrow> net_packet \<Rightarrow> reg_proxy \<Rightarrow> reg_proxy" where
  "net_send nSocketID m rp = rp\<lparr>rp_net := rp_net rp @ [(nSocketID, m)]\<rparr>"

text \<open>A packet to the queue of every service of the node.\<close>

definition to_services :: "service_packet list \<Rightarrow> reg_proxy \<Rightarrow> reg_proxy" where
  "to_services ps rp =
     rp\<lparr>rp_out := rp_out rp @ concat (map (\<lambda>l. map (\<lambda>p. (sb_id l, p)) ps) (rp_local rp))\<rparr>"

definition fillLocalServiceRegistryProxy :: "reg_proxy \<Rightarrow> local_proxy" where
  "fillLocalServiceRegistryProxy rp =
     \<lparr>lp_services = lp_services rp, lp_ids = lp_ids rp, lp_nameToID = lp_nameToID rp, lp_idToName = lp_idToName rp\<rparr>"

definition updateLocalServiceRegistryProxy :: "reg_proxy \<Rightarrow> reg_proxy" where
  "updateLocalServiceRegistryProxy rp = to_services [UpdateProxy (fillLocalServiceRegistryProxy rp)] rp"

subsection \<open>The tables\<close>

text \<open>An update of the entry of a type, made when it is missing.\<close>

definition ids_update :: "bstr \<Rightarrow> (service_ids \<Rightarrow> service_ids) \<Rightarrow> reg_proxy \<Rightarrow> reg_proxy" where
  "ids_update t f rp = rp\<lparr>lp_ids := om_put t (f (om_at no_ids (lp_ids rp) t)) (lp_ids rp)\<rparr>"

text \<open>\<open>updateActiveServiceID\<close>; the types come in the order of the set.\<close>

definition updateActiveServiceID :: "bstr set \<Rightarrow> reg_proxy \<Rightarrow> reg_proxy" where
  "updateActiveServiceID setType =
     fold (\<lambda>t. ids_update t (\<lambda>e. e\<lparr>si_vec := sorted_list_of_set (si_active e)\<rparr>)) (sorted_list_of_set setType)"

definition types_of :: "service_base_info list \<Rightarrow> bstr set" where
  "types_of ss = sb_type ` set ss"

definition enter_ids :: "service_base_info \<Rightarrow> reg_proxy \<Rightarrow> reg_proxy" where
  "enter_ids s rp =
     ids_update (sb_type s) (\<lambda>e. e\<lparr>si_all := insert (sb_id s) (si_all e), si_active := insert (sb_id s) (si_active e)\<rparr>)
       (rp\<lparr>lp_nameToID := om_put (sb_name s) (sb_id s) (lp_nameToID rp),
           lp_idToName := om_put (sb_id s) (sb_name s) (lp_idToName rp)\<rparr>)"

text \<open>
  \<open>init\<close>, from the values of the XML attributes (the parser is a library): the wanted services as
  pairs of name and type, and the masters as id, host and port.
\<close>

definition rp_init ::
    "node_base_info \<Rightarrow> service_base_info list \<Rightarrow> (bstr \<times> bstr) list \<Rightarrow> (nat \<times> bstr \<times> nat) list \<Rightarrow> reg_proxy" where
  "rp_init self local wanted masters =
     (let star = [42];
          rp = \<lparr>lp_services = [], lp_ids = [], lp_nameToID = [], lp_idToName = [], rp_self = self, rp_local = local,
             rp_wantNames = fst ` set (filter (\<lambda>(n, _). n \<noteq> star) wanted),
             rp_wantTypes = snd ` set (filter (\<lambda>(n, _). n = star) wanted),
             rp_nodes = [],
             rp_masters = fold (\<lambda>(i, h, p). om_put i \<lparr>mi_host = h, mi_port = p, mi_active = False, mi_connected = False\<rparr>) masters [],
             rp_conns = [], rp_out = [], rp_net = []\<rparr>
      in updateActiveServiceID (types_of local) (fold enter_ids local rp))"

subsection \<open>Nodes\<close>

definition enter_proxy :: "service_base_info \<Rightarrow> reg_proxy \<Rightarrow> reg_proxy" where
  "enter_proxy s rp =
     enter_ids s (rp\<lparr>lp_services := om_put (sb_id s) \<lparr>vp_base = s, vp_socket = 0\<rparr> (lp_services rp)\<rparr>)"

definition known :: "service_base_info \<Rightarrow> reg_proxy \<Rightarrow> bool" where
  "known s rp \<longleftrightarrow> om_get (lp_nameToID rp) (sb_name s) \<noteq> None \<or> om_get (lp_idToName rp) (sb_id s) \<noteq> None \<or>
     om_get (lp_services rp) (sb_id s) \<noteq> None"

text \<open>The last assertion fails after the entries are made, so the services are not told of them.\<close>

definition addNodeProxyInfo :: "node_base_info \<Rightarrow> service_base_info list \<Rightarrow> bool \<Rightarrow> reg_proxy \<Rightarrow> reg_proxy" where
  "addNodeProxyInfo base services bExcludeConnect rp =
     (if om_get (rp_nodes rp) (nb_id base) \<noteq> None then rp
      else if list_ex (\<lambda>s. known s rp) services then rp
      else
        (let node = \<lparr>np_base = base, np_services = services, np_socket = 0, np_connecting = False\<rparr>;
             rp1 = rp\<lparr>rp_nodes := om_put (nb_id base) node (rp_nodes rp)\<rparr>;
             rp2 = updateActiveServiceID (types_of services) (fold enter_proxy services rp1);
             bConnect = list_ex (\<lambda>s. sb_name s \<in> rp_wantNames rp \<or> sb_type s \<in> rp_wantTypes rp) services
         in if bConnect \<and> \<not> bExcludeConnect then
              if nb_host base = [] \<or> nb_port base = 0 then rp2
              else updateLocalServiceRegistryProxy
                (rp2\<lparr>rp_nodes := om_put (nb_id base) (node\<lparr>np_connecting := True\<rparr>) (rp_nodes rp2)\<rparr>)
            else updateLocalServiceRegistryProxy rp2))"

text \<open>The retry timer of a node: it asks for a connection while there is none.\<close>

definition retry_connect :: "nat \<Rightarrow> reg_proxy \<Rightarrow> reg_proxy" where
  "retry_connect nNodeID rp =
     (case om_get (rp_nodes rp) nNodeID of
        None \<Rightarrow> rp
      | Some n \<Rightarrow>
          if np_socket n \<noteq> 0 then rp
          else net_send 0 (ConnectNode (nb_host (np_base n)) (nb_port (np_base n)) (nb_sendBuf (np_base n)) (nb_recvBuf (np_base n))) rp)"

definition getServiceBaseInfoByNodeID :: "nat \<Rightarrow> reg_proxy \<Rightarrow> service_base_info list option" where
  "getServiceBaseInfoByNodeID nNodeID rp = map_option np_services (om_get (rp_nodes rp) nNodeID)"

definition onNodeConnect :: "nat \<Rightarrow> reg_proxy \<Rightarrow> reg_proxy" where
  "onNodeConnect nNodeID rp =
     (let ss = (case getServiceBaseInfoByNodeID nNodeID rp of None \<Rightarrow> [] | Some ss \<Rightarrow> ss)
      in to_services (map (\<lambda>s. ServiceConnect (sb_type s) (sb_id s)) ss) rp)"

definition onNodeDisconnect :: "nat \<Rightarrow> reg_proxy \<Rightarrow> reg_proxy" where
  "onNodeDisconnect nNodeID rp =
     (let ss = (case getServiceBaseInfoByNodeID nNodeID rp of None \<Rightarrow> [] | Some ss \<Rightarrow> ss)
      in to_services (map (\<lambda>s. ServiceDisconnect (sb_type s) (sb_id s)) ss) rp)"

text \<open>One service of a node that gets its socket, or loses it.\<close>

definition set_socket :: "nat \<Rightarrow> service_base_info \<Rightarrow> reg_proxy \<Rightarrow> reg_proxy" where
  "set_socket nSocketID s rp =
     (case om_get (lp_services rp) (sb_id s) of
        None \<Rightarrow> rp
      | Some v \<Rightarrow>
          (let b = vp_base v; rp1 = rp\<lparr>lp_services := om_put (sb_id s) (v\<lparr>vp_socket := nSocketID\<rparr>) (lp_services rp)\<rparr>
           in ids_update (sb_type b) (\<lambda>e. e\<lparr>si_active :=
                if nSocketID \<noteq> 0 then insert (sb_id b) (si_active e) else si_active e - {sb_id b}\<rparr>) rp1))"

text \<open>The types of the services found.\<close>

definition found_types :: "service_base_info list \<Rightarrow> reg_proxy \<Rightarrow> bstr set" where
  "found_types ss rp = (\<lambda>v. sb_type (vp_base v)) ` set (List.map_filter (\<lambda>s. om_get (lp_services rp) (sb_id s)) ss)"

definition setOtherNodeSocketIDByNodeID :: "nat \<Rightarrow> nat \<Rightarrow> reg_proxy \<Rightarrow> bool \<times> reg_proxy" where
  "setOtherNodeSocketIDByNodeID nNodeID nSocketID rp =
     (case om_get (rp_nodes rp) nNodeID of
        None \<Rightarrow> (False, rp)
      | Some n \<Rightarrow>
          if nSocketID \<noteq> 0 \<and> np_socket n \<noteq> 0 then (False, rp)
          else
            (let rp1 = fold (set_socket nSocketID) (np_services n) rp;
                 rp2 = rp1\<lparr>rp_nodes := om_put nNodeID (n\<lparr>np_socket := nSocketID\<rparr>) (rp_nodes rp1)\<rparr>
             in (True, updateLocalServiceRegistryProxy
                   (updateActiveServiceID (found_types (np_services n) rp) rp2))))"

definition leave_proxy :: "service_base_info \<Rightarrow> reg_proxy \<Rightarrow> reg_proxy" where
  "leave_proxy s rp =
     ids_update (sb_type s) (\<lambda>e. e\<lparr>si_all := si_all e - {sb_id s}, si_active := si_active e - {sb_id s}\<rparr>)
       (rp\<lparr>lp_nameToID := om_del (sb_name s) (lp_nameToID rp), lp_idToName := om_del (sb_id s) (lp_idToName rp),
           lp_services := om_del (sb_id s) (lp_services rp)\<rparr>)"

text \<open>
  \<open>None\<close>: the pointer to the connection is null, and the condition \<open>nullptr != p || !p->isClosing()\<close>
  then dereferences it. The node as found stays in use over the calls, which change its socket.
\<close>

definition delNodeProxyInfo :: "nat \<Rightarrow> reg_proxy \<Rightarrow> reg_proxy option" where
  "delNodeProxyInfo nNodeID rp =
     (case om_get (rp_nodes rp) nNodeID of
        None \<Rightarrow> Some rp
      | Some n \<Rightarrow>
          (let finish = (\<lambda>rp. let rp1 = fold leave_proxy (np_services n) rp;
                               rp2 = rp1\<lparr>rp_nodes := om_del nNodeID (rp_nodes rp1)\<rparr>
                           in updateLocalServiceRegistryProxy (updateActiveServiceID (types_of (np_services n)) rp2))
           in if np_socket n \<noteq> 0 then
                (case om_get (rp_conns rp) (np_socket n) of
                   None \<Rightarrow> None
                 | Some _ \<Rightarrow>
                     (let rp1 = rp\<lparr>rp_conns := om_put (np_socket n) 0 (rp_conns rp)\<rparr>;
                          rp2 = net_send (np_socket n) ShutDown rp1;
                          rp3 = snd (setOtherNodeSocketIDByNodeID nNodeID 0 rp2)
                      in Some (finish (onNodeDisconnect nNodeID rp3))))
              else Some (finish rp)))"

definition setNodeProxyInfo :: "(nat, node_info) omap \<Rightarrow> nat set \<Rightarrow> reg_proxy \<Rightarrow> reg_proxy option" where
  "setNodeProxyInfo mapNodeInfo setExclude rp =
     (let setDelNode = filter (\<lambda>k. om_get mapNodeInfo k = None) (map fst (rp_nodes rp))
      in map_option
           (fold (\<lambda>(k, i) rp. if om_get (rp_nodes rp) k \<noteq> None then rp
              else addNodeProxyInfo (ni_base i) (ni_services i) (nb_id (ni_base i) \<in> setExclude) rp) mapNodeInfo)
           (fold (\<lambda>k r. Option.bind r (delNodeProxyInfo k)) setDelNode (Some rp)))"

subsection \<open>Masters\<close>

definition addBaseConnectionToMaster :: "nat \<Rightarrow> reg_proxy \<Rightarrow> bool \<times> reg_proxy" where
  "addBaseConnectionToMaster nMasterID rp =
     (case om_get (rp_masters rp) nMasterID of
        None \<Rightarrow> (False, rp)
      | Some mi \<Rightarrow>
          if mi_connected mi then (False, rp)
          else (True, rp\<lparr>rp_masters := om_put nMasterID (mi\<lparr>mi_connected := True\<rparr>) (rp_masters rp)\<rparr>))"

definition delBaseConnectionToMaster :: "nat \<Rightarrow> reg_proxy \<Rightarrow> reg_proxy" where
  "delBaseConnectionToMaster nMasterID rp =
     (case om_get (rp_masters rp) nMasterID of
        None \<Rightarrow> rp
      | Some mi \<Rightarrow> rp\<lparr>rp_masters := om_put nMasterID (mi\<lparr>mi_connected := False, mi_active := False\<rparr>) (rp_masters rp)\<rparr>)"

definition check_master :: "nat \<Rightarrow> reg_proxy \<Rightarrow> reg_proxy" where
  "check_master k rp =
     (case om_get (rp_masters rp) k of
        None \<Rightarrow> rp
      | Some mi \<Rightarrow>
          if mi_active mi then rp
          else net_send 0 (ConnectMaster (mi_host mi) (mi_port mi) k)
            (rp\<lparr>rp_masters := om_put k (mi\<lparr>mi_active := True\<rparr>) (rp_masters rp)\<rparr>))"

definition onCheckConnectMaster :: "reg_proxy \<Rightarrow> reg_proxy" where
  "onCheckConnectMaster rp = fold check_master (map fst (rp_masters rp)) rp"

text \<open>\<open>nID\<close>: the number read from the context \<open>master<id>\<close>.\<close>

definition onConnectRefuse :: "nat \<Rightarrow> reg_proxy \<Rightarrow> reg_proxy" where
  "onConnectRefuse nID rp =
     (case om_get (rp_masters rp) nID of
        None \<Rightarrow> rp
      | Some mi \<Rightarrow> rp\<lparr>rp_masters := om_put nID (mi\<lparr>mi_active := False\<rparr>) (rp_masters rp)\<rparr>)"

subsection \<open>The connection to the master\<close>

text \<open>What the messages about nodes do, unpacked.\<close>

fun master_says :: "sys_msg \<Rightarrow> reg_proxy \<Rightarrow> reg_proxy option" where
  "master_says (SyncNode m) rp = Some (addNodeProxyInfo (sn_node m) (sn_services m) (sn_exclude m \<noteq> 0) rp)"
| "master_says (SyncAll m) rp = setNodeProxyInfo (sa_nodes m) (sa_exclude m) rp"
| "master_says (RemoveNode k) rp = delNodeProxyInfo k rp"

record to_master =
  tm_socket :: nat
  tm_id :: nat                  \<comment> \<open>\<open>m_nMasterID\<close>\<close>

definition tm_onDispatch ::
    "node_base_info \<Rightarrow> nat \<Rightarrow> nat \<Rightarrow> u8 list \<Rightarrow> to_master \<Rightarrow> reg_proxy \<Rightarrow> (to_master \<times> reg_proxy) option" where
  "tm_onDispatch old oldExclude nMessageType d c rp =
     (if nMessageType \<noteq> MT_SYSTEM \<or> \<not> length d > message_header_size then Some (c, rp)
      else if field 2 4 d = SMT_sync_master then
        (let c1 = c\<lparr>tm_id := unpack_sync_master 0 d\<rparr>; (ok, rp1) = addBaseConnectionToMaster (tm_id c1) rp
         in if \<not> ok then Some (c1, net_send (tm_socket c) ShutDown rp1)
            else Some (c1, net_send (tm_socket c) (RegisterNode \<lparr>rg_node = rp_self rp, rg_services = rp_local rp,
                   rg_names = rp_wantNames rp, rg_types = rp_wantTypes rp\<rparr>) rp1))
      else if field 2 4 d = SMT_sync_node then
        map_option (Pair c) (master_says (SyncNode (unpack_sync_node old oldExclude d)) rp)
      else if field 2 4 d = SMT_sync_all then map_option (Pair c) (master_says (SyncAll (unpack_sync_all old d)) rp)
      else if field 2 4 d = SMT_remove then map_option (Pair c) (master_says (RemoveNode (unpack_remove 0 d)) rp)
      else Some (c, rp))"

definition tm_onDisconnect :: "to_master \<Rightarrow> reg_proxy \<Rightarrow> reg_proxy" where
  "tm_onDisconnect c rp = (if tm_id c \<noteq> 0 then delBaseConnectionToMaster (tm_id c) rp else rp)"

subsection \<open>Connections to other nodes\<close>

definition on_onConnect :: "bool \<Rightarrow> nat \<Rightarrow> reg_proxy \<Rightarrow> reg_proxy" where
  "on_onConnect initiative nSocketID rp =
     (let rp1 = rp\<lparr>rp_conns := om_put nSocketID 0 (rp_conns rp)\<rparr>
      in if initiative then net_send nSocketID (HandshakeRequest (nb_id (rp_self rp))) rp1 else rp1)"

definition on_request :: "nat \<Rightarrow> nat \<Rightarrow> reg_proxy \<Rightarrow> reg_proxy" where
  "on_request nSocketID nNodeID rp =
     (if om_get (rp_conns rp) nSocketID \<noteq> Some 0 then rp
      else if getServiceBaseInfoByNodeID nNodeID rp = None then net_send nSocketID ShutDown rp
      else
        (let (ok, rp1) = setOtherNodeSocketIDByNodeID nNodeID nSocketID rp
         in if \<not> ok then net_send nSocketID ShutDown rp1
            else onNodeConnect nNodeID (net_send nSocketID (HandshakeResponse (nb_id (rp_self rp)))
                   (rp1\<lparr>rp_conns := om_put nSocketID nNodeID (rp_conns rp1)\<rparr>))))"

definition on_response :: "nat \<Rightarrow> nat \<Rightarrow> reg_proxy \<Rightarrow> reg_proxy" where
  "on_response nSocketID nNodeID rp =
     (if om_get (rp_conns rp) nSocketID = None then rp
      else
        (let (ok, rp1) = setOtherNodeSocketIDByNodeID nNodeID nSocketID rp
         in if \<not> ok then net_send nSocketID ShutDown rp1
            else onNodeConnect nNodeID (rp1\<lparr>rp_conns := om_put nSocketID nNodeID (rp_conns rp1)\<rparr>)))"

definition on_onDispatch :: "nat \<Rightarrow> nat \<Rightarrow> u8 list \<Rightarrow> reg_proxy \<Rightarrow> reg_proxy" where
  "on_onDispatch nSocketID nMessageType d rp =
     (if nMessageType \<noteq> MT_SYSTEM \<or> \<not> length d > message_header_size then rp
      else if field 2 4 d = SMT_handshake_request then on_request nSocketID (unpack_handshake_request 0 d) rp
      else if field 2 4 d = SMT_handshake_response then on_response nSocketID (unpack_handshake_response 0 d) rp
      else rp)"

text \<open>The connection manager has taken the object out of its map when it calls \<open>onDisconnect\<close>.\<close>

definition on_onDisconnect :: "nat \<Rightarrow> reg_proxy \<Rightarrow> reg_proxy" where
  "on_onDisconnect nSocketID rp =
     (case om_get (rp_conns rp) nSocketID of
        None \<Rightarrow> rp
      | Some nNodeID \<Rightarrow>
          (let rp1 = rp\<lparr>rp_conns := om_del nSocketID (rp_conns rp)\<rparr>
           in if nNodeID \<noteq> 0 then onNodeDisconnect nNodeID (snd (setOtherNodeSocketIDByNodeID nNodeID 0 rp1))
              else rp1))"

subsection \<open>Looking services up\<close>

definition getServiceID :: "bstr \<Rightarrow> local_proxy \<Rightarrow> nat" where
  "getServiceID szName lp = om_at 0 (lp_nameToID lp) szName"

text \<open>\<open>local\<close>: the type of a service of the node itself.\<close>

definition getServiceType :: "(nat \<Rightarrow> bstr option) \<Rightarrow> nat \<Rightarrow> local_proxy \<Rightarrow> bstr" where
  "getServiceType local nServiceID lp =
     (case om_get (lp_services lp) nServiceID of
        None \<Rightarrow> (case local nServiceID of None \<Rightarrow> [] | Some t \<Rightarrow> t)
      | Some v \<Rightarrow> sb_type (vp_base v))"

definition getServiceName :: "nat \<Rightarrow> local_proxy \<Rightarrow> bstr" where
  "getServiceName nServiceID lp = om_at [] (lp_idToName lp) nServiceID"

definition getServiceIDByType :: "bstr \<Rightarrow> local_proxy \<Rightarrow> nat set" where
  "getServiceIDByType t lp = si_all (om_at no_ids (lp_ids lp) t)"

definition getActiveServiceIDByType :: "bstr \<Rightarrow> local_proxy \<Rightarrow> nat list" where
  "getActiveServiceIDByType t lp = si_vec (om_at no_ids (lp_ids lp) t)"

definition getServiceBaseInfoByServiceID :: "nat \<Rightarrow> local_proxy \<Rightarrow> service_base_info option" where
  "getServiceBaseInfoByServiceID nServiceID lp = map_option vp_base (om_get (lp_services lp) nServiceID)"

definition getOtherNodeSocketIDByServiceID :: "nat \<Rightarrow> local_proxy \<Rightarrow> nat" where
  "getOtherNodeSocketIDByServiceID nServiceID lp =
     (case om_get (lp_services lp) nServiceID of None \<Rightarrow> 0 | Some v \<Rightarrow> vp_socket v)"

definition isValidService :: "nat \<Rightarrow> local_proxy \<Rightarrow> bool" where
  "isValidService nServiceID lp \<longleftrightarrow> om_get (lp_idToName lp) nServiceID \<noteq> None"

subsection \<open>Selectors\<close>

definition select_hash :: "nat \<Rightarrow> nat list \<Rightarrow> nat" where
  "select_hash nContext vecServiceID =
     (if vecServiceID = [] then 0 else vecServiceID ! (nContext mod length vecServiceID))"

text \<open>\<open>rands\<close>: the numbers \<open>getGlobalRand\<close> gives, one for each of the ten tries.\<close>

fun random_try :: "(nat \<Rightarrow> bool) \<Rightarrow> nat list \<Rightarrow> nat list \<Rightarrow> nat" where
  "random_try healthy [] vec = 0"
| "random_try healthy (nIndex # rands) vec =
     (if \<not> nIndex < length vec then 0
      else if \<not> healthy (vec ! nIndex) then random_try healthy rands vec
      else vec ! nIndex)"

definition select_random :: "(nat \<Rightarrow> bool) \<Rightarrow> nat list \<Rightarrow> nat list \<Rightarrow> nat" where
  "select_random healthy rands vecServiceID =
     (if vecServiceID = [] then 0 else random_try healthy (take 10 rands) vecServiceID)"

fun robin_try :: "(nat \<Rightarrow> bool) \<Rightarrow> nat \<Rightarrow> u32 \<Rightarrow> nat list \<Rightarrow> nat \<times> u32" where
  "robin_try healthy 0 nNext vec = (0, nNext)"
| "robin_try healthy (Suc i) nNext vec =
     (let nServiceID = vec ! (unat nNext mod length vec)
      in if \<not> healthy nServiceID then robin_try healthy i (nNext + 1) vec else (nServiceID, nNext + 1))"

definition select_robin :: "(nat \<Rightarrow> bool) \<Rightarrow> u32 \<Rightarrow> nat list \<Rightarrow> nat \<times> u32" where
  "select_robin healthy nNext vecServiceID =
     (if vecServiceID = [] then (0, nNext) else robin_try healthy 10 nNext vecServiceID)"

subsection \<open>What the table operations do\<close>

lemma fold_keeps: "(\<And>x r. sel (f x r) = sel r) \<Longrightarrow> sel (fold f xs r) = sel r"
  by (induction xs arbitrary: r) auto

text \<open>The fields other than the tables.\<close>

definition rest :: "reg_proxy \<Rightarrow> _" where
  "rest rp = (rp_self rp, rp_local rp, rp_wantNames rp, rp_wantTypes rp, rp_nodes rp, rp_masters rp,
     rp_conns rp, rp_out rp, rp_net rp)"

text \<open>The part the invariants look at.\<close>

definition core :: "reg_proxy \<Rightarrow> _" where
  "core rp = (lp_services rp, lp_ids rp, lp_nameToID rp, lp_idToName rp, rp_local rp, rp_nodes rp, rp_conns rp)"

lemma out_core [simp]:
  "core (net_send s m rp) = core rp" "core (to_services ps rp) = core rp"
  "core (updateLocalServiceRegistryProxy rp) = core rp" "core (onNodeConnect k rp) = core rp"
  "core (onNodeDisconnect k rp) = core rp"
  by (simp_all add: core_def net_send_def to_services_def updateLocalServiceRegistryProxy_def
      onNodeConnect_def onNodeDisconnect_def Let_def)

lemma coreD:
  assumes "core rp' = core rp"
  shows "lp_services rp' = lp_services rp" and "lp_ids rp' = lp_ids rp" and "lp_nameToID rp' = lp_nameToID rp"
    and "lp_idToName rp' = lp_idToName rp" and "rp_local rp' = rp_local rp" and "rp_nodes rp' = rp_nodes rp"
    and "rp_conns rp' = rp_conns rp"
  using assms by (simp_all add: core_def)

abbreviation ids_at :: "reg_proxy \<Rightarrow> bstr \<Rightarrow> service_ids" where
  "ids_at rp t \<equiv> om_at no_ids (lp_ids rp) t"

definition maps_ok :: "reg_proxy \<Rightarrow> bool" where
  "maps_ok rp \<longleftrightarrow> om_ok (lp_services rp) \<and> om_ok (lp_ids rp) \<and> om_ok (lp_nameToID rp) \<and> om_ok (lp_idToName rp) \<and>
     om_ok (rp_nodes rp) \<and> om_ok (rp_conns rp)"

lemma ids_update_simps [simp]:
  "lp_services (ids_update t f rp) = lp_services rp" "lp_nameToID (ids_update t f rp) = lp_nameToID rp"
  "lp_idToName (ids_update t f rp) = lp_idToName rp" "rest (ids_update t f rp) = rest rp"
  "om_ok (lp_ids rp) \<Longrightarrow> om_ok (lp_ids (ids_update t f rp))"
  "om_ok (lp_ids rp) \<Longrightarrow> ids_at (ids_update t f rp) t' = (if t' = t then f (ids_at rp t) else ids_at rp t')"
  by (simp_all add: ids_update_def rest_def om_at_def)

lemma restD:
  assumes "rest rp' = rest rp"
  shows "rp_nodes rp' = rp_nodes rp" and "rp_conns rp' = rp_conns rp" and "rp_local rp' = rp_local rp"
    and "rp_wantNames rp' = rp_wantNames rp" and "rp_wantTypes rp' = rp_wantTypes rp"
  using assms by (simp_all add: rest_def)

lemma update_active:
  assumes "finite ts" and "om_ok (lp_ids rp)"
  shows "lp_services (updateActiveServiceID ts rp) = lp_services rp"
    and "lp_nameToID (updateActiveServiceID ts rp) = lp_nameToID rp"
    and "lp_idToName (updateActiveServiceID ts rp) = lp_idToName rp"
    and "rest (updateActiveServiceID ts rp) = rest rp"
    and "om_ok (lp_ids (updateActiveServiceID ts rp))"
    and "ids_at (updateActiveServiceID ts rp) t =
      (if t \<in> ts then (ids_at rp t)\<lparr>si_vec := sorted_list_of_set (si_active (ids_at rp t))\<rparr> else ids_at rp t)"
proof -
  let ?f = "\<lambda>t. ids_update t (\<lambda>e. e\<lparr>si_vec := sorted_list_of_set (si_active e)\<rparr>)"
  have *: "om_ok (lp_ids (fold ?f xs rp)) \<and> ids_at (fold ?f xs rp) t =
      (if t \<in> set xs then (ids_at rp t)\<lparr>si_vec := sorted_list_of_set (si_active (ids_at rp t))\<rparr> else ids_at rp t)" for xs
    using assms(2) by (induction xs arbitrary: rp) (auto simp del: fun_upd_apply)
  show "om_ok (lp_ids (updateActiveServiceID ts rp))" "ids_at (updateActiveServiceID ts rp) t =
      (if t \<in> ts then (ids_at rp t)\<lparr>si_vec := sorted_list_of_set (si_active (ids_at rp t))\<rparr> else ids_at rp t)"
    using * [of "sorted_list_of_set ts"] assms(1) by (simp_all add: updateActiveServiceID_def)
  show "lp_services (updateActiveServiceID ts rp) = lp_services rp" "lp_nameToID (updateActiveServiceID ts rp) = lp_nameToID rp"
    "lp_idToName (updateActiveServiceID ts rp) = lp_idToName rp" "rest (updateActiveServiceID ts rp) = rest rp"
    unfolding updateActiveServiceID_def by (rule fold_keeps; simp)+
qed

text \<open>Tables are maps that agree with a relation: every entry is in it, every key of it has an entry.\<close>

definition covers :: "('k \<rightharpoonup> 'v) \<Rightarrow> ('k \<times> 'v) set \<Rightarrow> bool" where
  "covers m R \<longleftrightarrow> (\<forall>k v. m k = Some v \<longrightarrow> (k, v) \<in> R) \<and> fst ` R = dom m"

lemma covers_put: "covers m R \<Longrightarrow> covers (m(k \<mapsto> v)) (insert (k, v) R)"
  by (auto simp: covers_def)

lemma covers_del: "covers m R \<Longrightarrow> covers (m(k := None)) {p \<in> R. fst p \<noteq> k}"
proof -
  assume a: "covers m R"
  have "fst ` {p \<in> R. fst p \<noteq> k} = fst ` R - {k}" by auto
  then show ?thesis using a by (auto simp: covers_def)
qed

lemma covers_get: "covers m R \<Longrightarrow> m k = Some v \<Longrightarrow> (k, v) \<in> R"
  by (simp add: covers_def)

lemma covers_None: "covers m R \<Longrightarrow> m k = None \<longleftrightarrow> k \<notin> fst ` R"
  by (auto simp: covers_def)

lemma covers_cong: "covers m R \<Longrightarrow> R = R' \<Longrightarrow> covers m R'"
  by simp

definition name_pairs :: "service_base_info set \<Rightarrow> (bstr \<times> nat) set" where
  "name_pairs S = (\<lambda>s. (sb_name s, sb_id s)) ` S"

definition id_pairs :: "service_base_info set \<Rightarrow> (nat \<times> bstr) set" where
  "id_pairs S = (\<lambda>s. (sb_id s, sb_name s)) ` S"

definition proxy_pairs :: "nat \<Rightarrow> service_base_info set \<Rightarrow> (nat \<times> service_proxy) set" where
  "proxy_pairs sock S = (\<lambda>s. (sb_id s, \<lparr>vp_base = s, vp_socket = sock\<rparr>)) ` S"

text \<open>The three tables that are indexed by name or id, against what should be in them.\<close>

definition tables :: "reg_proxy \<Rightarrow> service_base_info set \<Rightarrow> (nat \<times> service_proxy) set \<Rightarrow> bool" where
  "tables rp S P \<longleftrightarrow> maps_ok rp \<and> covers (om_get (lp_nameToID rp)) (name_pairs S) \<and>
     covers (om_get (lp_idToName rp)) (id_pairs S) \<and> covers (om_get (lp_services rp)) P"

definition ids_of_type :: "bstr \<Rightarrow> service_base_info set \<Rightarrow> nat set" where
  "ids_of_type t S = sb_id ` {s \<in> S. sb_type s = t}"

lemma ids_of_type_insert: "ids_of_type t (insert s S) = (if sb_type s = t then insert (sb_id s) (ids_of_type t S) else ids_of_type t S)"
  by (auto simp: ids_of_type_def)

lemma tables_rest:
  "rest rp' = rest rp \<Longrightarrow> lp_services rp' = lp_services rp \<Longrightarrow> lp_nameToID rp' = lp_nameToID rp \<Longrightarrow>
     lp_idToName rp' = lp_idToName rp \<Longrightarrow> om_ok (lp_ids rp') \<Longrightarrow> tables rp S P \<Longrightarrow> tables rp' S P"
  by (simp add: tables_def maps_ok_def rest_def)

lemma enter_ids_step:
  assumes "tables rp S P"
  shows "tables (enter_ids s rp) (insert s S) P" and "rest (enter_ids s rp) = rest rp"
    and "lp_services (enter_ids s rp) = lp_services rp"
    and "si_all (ids_at (enter_ids s rp) t) = si_all (ids_at rp t) \<union> ids_of_type t {s}"
    and "si_active (ids_at (enter_ids s rp) t) = si_active (ids_at rp t) \<union> ids_of_type t {s}"
    and "si_vec (ids_at (enter_ids s rp) t) = si_vec (ids_at rp t)"
  using assms
  by (auto simp: enter_ids_def tables_def maps_ok_def name_pairs_def id_pairs_def rest_def covers_put ids_of_type_def)
    (auto simp: ids_update_def om_at_def)

lemma enter_proxy_step:
  assumes "tables rp S P"
  shows "tables (enter_proxy s rp) (insert s S) (insert (sb_id s, \<lparr>vp_base = s, vp_socket = 0\<rparr>) P)"
    and "rest (enter_proxy s rp) = rest rp"
    and "om_get (lp_services (enter_proxy s rp)) = (om_get (lp_services rp))(sb_id s \<mapsto> \<lparr>vp_base = s, vp_socket = 0\<rparr>)"
    and "si_all (ids_at (enter_proxy s rp) t) = si_all (ids_at rp t) \<union> ids_of_type t {s}"
    and "si_active (ids_at (enter_proxy s rp) t) = si_active (ids_at rp t) \<union> ids_of_type t {s}"
    and "si_vec (ids_at (enter_proxy s rp) t) = si_vec (ids_at rp t)"
proof -
  let ?rp = "rp\<lparr>lp_services := om_put (sb_id s) \<lparr>vp_base = s, vp_socket = 0\<rparr> (lp_services rp)\<rparr>"
  have "tables ?rp S (insert (sb_id s, \<lparr>vp_base = s, vp_socket = 0\<rparr>) P)"
    using assms by (auto simp: tables_def maps_ok_def covers_put)
  from enter_ids_step [OF this, of s]
  show "tables (enter_proxy s rp) (insert s S) (insert (sb_id s, \<lparr>vp_base = s, vp_socket = 0\<rparr>) P)"
    "rest (enter_proxy s rp) = rest rp"
    "om_get (lp_services (enter_proxy s rp)) = (om_get (lp_services rp))(sb_id s \<mapsto> \<lparr>vp_base = s, vp_socket = 0\<rparr>)"
    "si_all (ids_at (enter_proxy s rp) t) = si_all (ids_at rp t) \<union> ids_of_type t {s}"
    "si_active (ids_at (enter_proxy s rp) t) = si_active (ids_at rp t) \<union> ids_of_type t {s}"
    "si_vec (ids_at (enter_proxy s rp) t) = si_vec (ids_at rp t)"
    using assms by (simp_all add: enter_proxy_def rest_def tables_def maps_ok_def)
qed

lemma enter_all_proxies:
  "tables rp S P \<Longrightarrow> tables (fold enter_proxy ss rp) (S \<union> set ss) (P \<union> proxy_pairs 0 (set ss)) \<and>
     rest (fold enter_proxy ss rp) = rest rp \<and>
     (\<forall>i. i \<notin> sb_id ` set ss \<longrightarrow> om_get (lp_services (fold enter_proxy ss rp)) i = om_get (lp_services rp) i) \<and>
     (\<forall>t. si_all (ids_at (fold enter_proxy ss rp) t) = si_all (ids_at rp t) \<union> ids_of_type t (set ss) \<and>
        si_active (ids_at (fold enter_proxy ss rp) t) = si_active (ids_at rp t) \<union> ids_of_type t (set ss) \<and>
        si_vec (ids_at (fold enter_proxy ss rp) t) = si_vec (ids_at rp t))"
proof (induction ss arbitrary: rp S P)
  case (Cons s ss)
  note st = enter_proxy_step [OF Cons.prems, of s]
  from Cons.IH [OF st(1)] st(2-6) show ?case
    by (auto simp: proxy_pairs_def ids_of_type_def)
qed (simp add: proxy_pairs_def ids_of_type_def)

lemma enter_all_ids:
  "tables rp S P \<Longrightarrow> tables (fold enter_ids ss rp) (S \<union> set ss) P \<and>
     rest (fold enter_ids ss rp) = rest rp \<and> lp_services (fold enter_ids ss rp) = lp_services rp \<and>
     (\<forall>t. si_all (ids_at (fold enter_ids ss rp) t) = si_all (ids_at rp t) \<union> ids_of_type t (set ss) \<and>
        si_active (ids_at (fold enter_ids ss rp) t) = si_active (ids_at rp t) \<union> ids_of_type t (set ss) \<and>
        si_vec (ids_at (fold enter_ids ss rp) t) = si_vec (ids_at rp t))"
proof (induction ss arbitrary: rp S)
  case (Cons s ss)
  note st = enter_ids_step [OF Cons.prems, of s]
  from Cons.IH [OF st(1)] st(2-6) show ?case by (auto simp: ids_of_type_def)
qed (simp add: ids_of_type_def)

lemma leave_proxy_step:
  assumes "maps_ok rp"
  shows "maps_ok (leave_proxy s rp)" and "rest (leave_proxy s rp) = rest rp"
    and "om_get (lp_nameToID (leave_proxy s rp)) = (om_get (lp_nameToID rp))(sb_name s := None)"
    and "om_get (lp_idToName (leave_proxy s rp)) = (om_get (lp_idToName rp))(sb_id s := None)"
    and "om_get (lp_services (leave_proxy s rp)) = (om_get (lp_services rp))(sb_id s := None)"
    and "si_all (ids_at (leave_proxy s rp) t) = si_all (ids_at rp t) - ids_of_type t {s}"
    and "si_active (ids_at (leave_proxy s rp) t) = si_active (ids_at rp t) - ids_of_type t {s}"
    and "si_vec (ids_at (leave_proxy s rp) t) = si_vec (ids_at rp t)"
  using assms
  by (auto simp: leave_proxy_def maps_ok_def rest_def ids_of_type_def)
    (auto simp: ids_update_def om_at_def)

text \<open>All services of a node are taken out.\<close>

definition drop_keys :: "'k set \<Rightarrow> ('k \<rightharpoonup> 'v) \<Rightarrow> ('k \<rightharpoonup> 'v)" where
  "drop_keys K m = (\<lambda>k. if k \<in> K then None else m k)"

lemma leave_all_proxies:
  "maps_ok rp \<Longrightarrow> maps_ok (fold leave_proxy ss rp) \<and> rest (fold leave_proxy ss rp) = rest rp \<and>
     om_get (lp_nameToID (fold leave_proxy ss rp)) = drop_keys (sb_name ` set ss) (om_get (lp_nameToID rp)) \<and>
     om_get (lp_idToName (fold leave_proxy ss rp)) = drop_keys (sb_id ` set ss) (om_get (lp_idToName rp)) \<and>
     om_get (lp_services (fold leave_proxy ss rp)) = drop_keys (sb_id ` set ss) (om_get (lp_services rp)) \<and>
     (\<forall>t. si_all (ids_at (fold leave_proxy ss rp) t) = si_all (ids_at rp t) - ids_of_type t (set ss) \<and>
        si_active (ids_at (fold leave_proxy ss rp) t) = si_active (ids_at rp t) - ids_of_type t (set ss) \<and>
        si_vec (ids_at (fold leave_proxy ss rp) t) = si_vec (ids_at rp t))"
proof (induction ss arbitrary: rp)
  case (Cons s ss)
  note st = leave_proxy_step [OF Cons.prems, of s]
  from Cons.IH [OF st(1)] st(2-8) show ?case
    by (auto simp: drop_keys_def ids_of_type_def fun_eq_iff)
qed (simp add: drop_keys_def ids_of_type_def)

lemma covers_drop: "covers m R \<Longrightarrow> covers (drop_keys K m) {p \<in> R. fst p \<notin> K}"
proof -
  assume a: "covers m R"
  have "fst ` {p \<in> R. fst p \<notin> K} = fst ` R - K" by auto
  then show ?thesis using a by (auto simp: covers_def drop_keys_def split: if_splits)
qed

subsection \<open>The invariant\<close>

definition services_of :: "reg_proxy \<Rightarrow> nat option \<Rightarrow> service_base_info set" where
  "services_of rp w =
     (case w of
        None \<Rightarrow> set (rp_local rp)
      | Some k \<Rightarrow> (case om_get (rp_nodes rp) k of None \<Rightarrow> {} | Some n \<Rightarrow> set (np_services n)))"

definition all_services :: "reg_proxy \<Rightarrow> service_base_info set" where
  "all_services rp = (\<Union>w. services_of rp w)"

definition proxies :: "reg_proxy \<Rightarrow> (nat \<times> service_proxy) set" where
  "proxies rp = {(sb_id s, \<lparr>vp_base = s, vp_socket = np_socket n\<rparr>) |k n s.
     om_get (rp_nodes rp) k = Some n \<and> s \<in> set (np_services n)}"

text \<open>Two services alike in name or id are offered by one and the same node.\<close>

definition separate :: "(nat option \<Rightarrow> service_base_info set) \<Rightarrow> bool" where
  "separate f \<longleftrightarrow> (\<forall>w w' s s'. s \<in> f w \<and> s' \<in> f w' \<and> (sb_id s = sb_id s' \<or> sb_name s = sb_name s') \<longrightarrow> w = w')"

definition types_ok :: "reg_proxy \<Rightarrow> bool" where
  "types_ok rp \<longleftrightarrow> (\<forall>t.
     si_all (ids_at rp t) = ids_of_type t (all_services rp) \<and>
     si_active (ids_at rp t) \<subseteq> si_all (ids_at rp t) \<and>
     si_vec (ids_at rp t) = sorted_list_of_set (si_active (ids_at rp t)) \<and>
     ids_of_type t (set (rp_local rp)) \<subseteq> si_active (ids_at rp t)) \<and>
   (\<forall>i v. om_get (lp_services rp) i = Some v \<and> vp_socket v \<noteq> 0 \<longrightarrow> i \<in> si_active (ids_at rp (sb_type (vp_base v))))"

definition base_ok :: "reg_proxy \<Rightarrow> bool" where
  "base_ok rp \<longleftrightarrow> tables rp (all_services rp) (proxies rp) \<and> separate (services_of rp) \<and> types_ok rp \<and>
     (\<forall>k n. om_get (rp_nodes rp) k = Some n \<longrightarrow> nb_id (np_base n) = k)"

text \<open>The sockets of the nodes and the node ids of the connections point at each other.\<close>

definition socks_ok :: "reg_proxy \<Rightarrow> bool" where
  "socks_ok rp \<longleftrightarrow>
     (\<forall>k n. om_get (rp_nodes rp) k = Some n \<and> np_socket n \<noteq> 0 \<longrightarrow>
        k \<noteq> 0 \<and> om_get (rp_conns rp) (np_socket n) = Some k) \<and>
     (\<forall>s k. om_get (rp_conns rp) s = Some k \<and> k \<noteq> 0 \<longrightarrow>
        (\<exists>n. om_get (rp_nodes rp) k = Some n \<and> np_socket n = s)) \<and>
     om_get (rp_conns rp) 0 = None"

lemma base_okD:
  assumes "base_ok rp"
  shows "tables rp (all_services rp) (proxies rp)" and "separate (services_of rp)" and "types_ok rp"
    and "om_get (rp_nodes rp) k = Some n \<Longrightarrow> nb_id (np_base n) = k" and "maps_ok rp"
  using assms unfolding base_ok_def tables_def by blast+

lemma separateD: "separate f \<Longrightarrow> s \<in> f w \<Longrightarrow> s' \<in> f w' \<Longrightarrow> sb_id s = sb_id s' \<or> sb_name s = sb_name s' \<Longrightarrow> w = w'"
  unfolding separate_def by blast

lemma core_ok:
  assumes "core rp' = core rp"
  shows "base_ok rp' = base_ok rp" and "socks_ok rp' = socks_ok rp"
proof -
  note c = coreD [OF assms]
  have s: "services_of rp' = services_of rp" by (rule ext) (unfold services_of_def c, rule refl)
  then have "all_services rp' = all_services rp" by (simp add: all_services_def)
  moreover have "proxies rp' = proxies rp" using c by (simp add: proxies_def)
  ultimately show "base_ok rp' = base_ok rp" "socks_ok rp' = socks_ok rp"
    using c s by (simp_all add: base_ok_def socks_ok_def tables_def maps_ok_def types_ok_def)
qed

lemma tables_covers: "tables rp S P \<Longrightarrow> covers (om_get (lp_services rp)) P"
  by (simp add: tables_def)

lemma mem_services_of:
  "s \<in> services_of rp (Some k) \<longleftrightarrow> (\<exists>n. om_get (rp_nodes rp) k = Some n \<and> s \<in> set (np_services n))"
  by (simp add: services_of_def split: option.splits)

lemma mem_all_services:
  "s \<in> all_services rp \<longleftrightarrow> s \<in> set (rp_local rp) \<or>
     (\<exists>k n. om_get (rp_nodes rp) k = Some n \<and> s \<in> set (np_services n))"
proof -
  have "s \<in> services_of rp None \<longleftrightarrow> s \<in> set (rp_local rp)" by (simp add: services_of_def)
  then show ?thesis by (simp add: all_services_def split_option_ex mem_services_of Bex_def)
qed

lemma proxies_at:
  assumes "(i, v) \<in> proxies rp"
  obtains k n where "om_get (rp_nodes rp) k = Some n" "vp_base v \<in> set (np_services n)" "sb_id (vp_base v) = i"
    "vp_socket v = np_socket n"
  using assms by (auto simp: proxies_def)

lemma found_proxy:
  assumes "base_ok rp" and "om_get (lp_services rp) i = Some v"
  obtains k n where "om_get (rp_nodes rp) k = Some n" "vp_base v \<in> set (np_services n)" "sb_id (vp_base v) = i"
    "vp_socket v = np_socket n"
proof -
  have "(i, v) \<in> proxies rp" using base_okD(1) [OF assms(1)] assms(2) by (auto simp: tables_def intro: covers_get)
  then show thesis by (rule proxies_at) (rule that)
qed

lemma known_iff:
  assumes "base_ok rp"
  shows "known s rp \<longleftrightarrow> (\<exists>s' \<in> all_services rp. sb_name s' = sb_name s \<or> sb_id s' = sb_id s)"
proof -
  note t = base_okD(1) [OF assms, unfolded tables_def]
  have "om_get (lp_nameToID rp) (sb_name s) \<noteq> None \<longleftrightarrow> (\<exists>s' \<in> all_services rp. sb_name s' = sb_name s)"
    using covers_None [of "om_get (lp_nameToID rp)"] t by (force simp: name_pairs_def)
  moreover have "om_get (lp_idToName rp) (sb_id s) \<noteq> None \<longleftrightarrow> (\<exists>s' \<in> all_services rp. sb_id s' = sb_id s)"
    using covers_None [of "om_get (lp_idToName rp)"] t by (force simp: id_pairs_def)
  moreover have "om_get (lp_services rp) (sb_id s) \<noteq> None \<Longrightarrow> \<exists>s' \<in> all_services rp. sb_id s' = sb_id s"
    using found_proxy [OF assms] mem_all_services by (metis option.exhaust)
  ultimately show ?thesis unfolding known_def by blast
qed

subsection \<open>A node is added\<close>

lemma finite_types [simp]: "finite (types_of ss)"
  by (simp add: types_of_def)

lemma ids_of_type_empty: "t \<notin> types_of ss \<Longrightarrow> ids_of_type t (set ss) = {}"
  by (auto simp: ids_of_type_def types_of_def)

lemma ids_of_type_Un: "ids_of_type t (A \<union> B) = ids_of_type t A \<union> ids_of_type t B"
  by (auto simp: ids_of_type_def)

lemma maps_of_base: "base_ok rp \<Longrightarrow> om_ok (rp_nodes rp) \<and> om_ok (lp_services rp) \<and> om_ok (lp_ids rp)"
  using base_okD(5) by (auto simp: maps_ok_def)

text \<open>The entries of a new node, before its retry timer and the message to the services.\<close>

definition entered :: "node_proxy \<Rightarrow> reg_proxy \<Rightarrow> reg_proxy" where
  "entered n rp = updateActiveServiceID (types_of (np_services n))
     (fold enter_proxy (np_services n) (rp\<lparr>rp_nodes := om_put (nb_id (np_base n)) n (rp_nodes rp)\<rparr>))"

lemma entered_ok:
  assumes ok: "base_ok rp" and new: "om_get (rp_nodes rp) (nb_id (np_base n)) = None" and sock: "np_socket n = 0"
    and unk: "\<And>s. s \<in> set (np_services n) \<Longrightarrow> \<not> known s rp"
  shows "base_ok (entered n rp)" and "rp_nodes (entered n rp) = om_put (nb_id (np_base n)) n (rp_nodes rp)"
    and "rp_conns (entered n rp) = rp_conns rp" and "rp_local (entered n rp) = rp_local rp"
proof -
  let ?k = "nb_id (np_base n)" and ?ss = "np_services n"
  let ?r1 = "rp\<lparr>rp_nodes := om_put ?k n (rp_nodes rp)\<rparr>"
  let ?r2 = "fold enter_proxy ?ss ?r1" and ?r = "entered n rp"
  let ?S = "all_services rp \<union> set ?ss" and ?P = "proxies rp \<union> proxy_pairs 0 (set ?ss)"
  note k = base_okD [OF ok] and m = maps_of_base [OF ok]
  have nodes: "om_get (rp_nodes ?r1) = (om_get (rp_nodes rp))(?k \<mapsto> n)" using m by simp
  have "tables ?r1 (all_services rp) (proxies rp)" using k(1) m by (simp add: tables_def maps_ok_def)
  note e = enter_all_proxies [OF this, of ?ss]
  have oki: "om_ok (lp_ids ?r2)" using e by (simp add: tables_def maps_ok_def)
  note u = update_active [OF finite_types oki, of ?ss, folded entered_def]
  have rest: "rest ?r = rest ?r1" using u(4) e by simp
  show rn: "rp_nodes ?r = om_put ?k n (rp_nodes rp)" using restD(1) [OF rest] by simp
  show "rp_conns ?r = rp_conns rp" using restD(2) [OF rest] by simp
  show rl: "rp_local ?r = rp_local rp" using restD(3) [OF rest] by simp
  have nd: "om_get (rp_nodes ?r) = (om_get (rp_nodes rp))(?k \<mapsto> n)" using rn nodes by simp
  have so: "services_of ?r w = (if w = Some ?k then set ?ss else services_of rp w)" for w
    using nd rl by (cases w) (simp_all add: services_of_def)
  have old: "services_of rp (Some ?k) = {}" using new by (simp add: services_of_def)
  have "x \<in> all_services ?r \<longleftrightarrow> x \<in> ?S" for x
    unfolding all_services_def UN_iff Un_iff so using old by (metis UNIV_I empty_iff)
  then have S: "all_services ?r = ?S" by blast
  have P: "proxies ?r = ?P"
  proof -
    have "(i, v) \<in> proxies ?r \<longleftrightarrow> (i, v) \<in> ?P" for i v
      unfolding proxies_def proxy_pairs_def nd using new sock by (auto split: if_splits) (metis option.distinct(1))+
    then show ?thesis by auto
  qed
  have T: "tables ?r ?S ?P" using tables_rest [OF _ u(1-3)] u(4,5) e by simp
  have sep: "separate (services_of ?r)"
    unfolding separate_def
  proof (intro allI impI, elim conjE)
    fix w w' s s' assume a: "s \<in> services_of ?r w" "s' \<in> services_of ?r w'" "sb_id s = sb_id s' \<or> sb_name s = sb_name s'"
    have no: False if "x \<in> set ?ss" "y \<in> services_of rp v" "sb_id x = sb_id y \<or> sb_name x = sb_name y" for x y v
    proof -
      have "y \<in> all_services rp" using that(2) by (auto simp: all_services_def)
      with unk [OF that(1), unfolded known_iff [OF ok]] that(3) show False by metis
    qed
    show "w = w'"
    proof (cases "w = Some ?k"; cases "w' = Some ?k")
      assume "w \<noteq> Some ?k" "w' \<noteq> Some ?k"
      then show ?thesis using a so separateD [OF k(2)] by simp
    next
      assume "w = Some ?k" "w' \<noteq> Some ?k"
      then show ?thesis using a so no [of s s' w'] by simp
    next
      assume "w \<noteq> Some ?k" "w' = Some ?k"
      then show ?thesis using a so no [of s' s w] by auto
    qed simp
  qed
  have ty: "si_all (ids_at ?r t) = ids_of_type t (all_services ?r) \<and> si_active (ids_at ?r t) \<subseteq> si_all (ids_at ?r t) \<and>
     si_vec (ids_at ?r t) = sorted_list_of_set (si_active (ids_at ?r t)) \<and>
     ids_of_type t (set (rp_local ?r)) \<subseteq> si_active (ids_at ?r t) \<and>
     si_active (ids_at ?r t) = si_active (ids_at rp t) \<union> ids_of_type t (set ?ss)" for t
  proof -
    have old: "si_all (ids_at rp t) = ids_of_type t (all_services rp)" "si_active (ids_at rp t) \<subseteq> si_all (ids_at rp t)"
      "si_vec (ids_at rp t) = sorted_list_of_set (si_active (ids_at rp t))"
      "ids_of_type t (set (rp_local rp)) \<subseteq> si_active (ids_at rp t)"
      using k(3) unfolding types_ok_def by blast+
    have mid: "si_all (ids_at ?r2 t) = si_all (ids_at rp t) \<union> ids_of_type t (set ?ss)"
      "si_active (ids_at ?r2 t) = si_active (ids_at rp t) \<union> ids_of_type t (set ?ss)"
      "si_vec (ids_at ?r2 t) = si_vec (ids_at rp t)" using e by simp_all
    show ?thesis
    proof (cases "t \<in> types_of ?ss")
      case True
      then show ?thesis using old mid u(6) [of t] unfolding S ids_of_type_Un rl by auto
    next
      case False
      then show ?thesis using old mid u(6) [of t] ids_of_type_empty [OF False] unfolding S ids_of_type_Un rl by auto
    qed
  qed
  have live: "i \<in> si_active (ids_at ?r (sb_type (vp_base v)))"
    if v: "om_get (lp_services ?r) i = Some v" "vp_socket v \<noteq> 0" for i v
  proof -
    have "(i, v) \<in> ?P" by (rule covers_get [OF tables_covers [OF T] v(1)])
    with v(2) have p: "(i, v) \<in> proxies rp" by (auto simp: proxy_pairs_def)
    then obtain k' n' where n': "om_get (rp_nodes rp) k' = Some n'" "vp_base v \<in> set (np_services n')" "sb_id (vp_base v) = i"
      by (rule proxies_at)
    have "i \<notin> sb_id ` set ?ss"
    proof
      assume "i \<in> sb_id ` set ?ss"
      then obtain s where s: "s \<in> set ?ss" "sb_id s = i" by blast
      have "vp_base v \<in> all_services rp" using n' by (auto simp: mem_all_services)
      with unk [OF s(1)] s(2) n'(3) show False unfolding known_iff [OF ok] by auto
    qed
    then have "om_get (lp_services rp) i = Some v" using v(1) u(1) e by simp
    with k(3) v(2) have "i \<in> si_active (ids_at rp (sb_type (vp_base v)))" by (simp add: types_ok_def)
    then show ?thesis using ty by simp
  qed
  have "types_ok ?r" unfolding types_ok_def using ty live by blast
  moreover have "nb_id (np_base n') = k'" if "om_get (rp_nodes ?r) k' = Some n'" for k' n'
    using that nd k(4) by (auto split: if_splits)
  ultimately show "base_ok ?r" using T sep unfolding base_ok_def S P by blast
qed

subsection \<open>The socket of a node changes\<close>

lemma set_sockets:
  fixes sock :: nat and ss :: "service_base_info list"
  assumes "maps_ok rp" and "\<And>i v. om_get (lp_services rp) i = Some v \<Longrightarrow> sb_id (vp_base v) = i"
  defines "hit \<equiv> \<lambda>t. {i \<in> sb_id ` set ss. \<exists>v. om_get (lp_services rp) i = Some v \<and> sb_type (vp_base v) = t}"
  defines "rp' \<equiv> fold (set_socket sock) ss rp"
  shows "maps_ok rp'" and "rest rp' = rest rp" and "lp_nameToID rp' = lp_nameToID rp" and "lp_idToName rp' = lp_idToName rp"
    and "om_get (lp_services rp') = (\<lambda>i. if i \<in> sb_id ` set ss
      then map_option (\<lambda>v. v\<lparr>vp_socket := sock\<rparr>) (om_get (lp_services rp) i) else om_get (lp_services rp) i)"
    and "si_all (ids_at rp' t) = si_all (ids_at rp t)" and "si_vec (ids_at rp' t) = si_vec (ids_at rp t)"
    and "si_active (ids_at rp' t) = (if sock \<noteq> 0 then si_active (ids_at rp t) \<union> hit t else si_active (ids_at rp t) - hit t)"
proof -
  have "maps_ok rp' \<and> rest rp' = rest rp \<and> lp_nameToID rp' = lp_nameToID rp \<and> lp_idToName rp' = lp_idToName rp \<and>
    om_get (lp_services rp') = (\<lambda>i. if i \<in> sb_id ` set ss
      then map_option (\<lambda>v. v\<lparr>vp_socket := sock\<rparr>) (om_get (lp_services rp) i) else om_get (lp_services rp) i) \<and>
    si_all (ids_at rp' t) = si_all (ids_at rp t) \<and> si_vec (ids_at rp' t) = si_vec (ids_at rp t) \<and>
    si_active (ids_at rp' t) = (if sock \<noteq> 0 then si_active (ids_at rp t) \<union> hit t else si_active (ids_at rp t) - hit t)"
    using assms(1,2) unfolding rp'_def hit_def
  proof (induction ss arbitrary: rp)
    case (Cons s ss)
    show ?case
    proof (cases "om_get (lp_services rp) (sb_id s)")
      case None
      then have "set_socket sock s rp = rp" by (simp add: set_socket_def)
      moreover have "{i \<in> sb_id ` set (s # ss). \<exists>v. om_get (lp_services rp) i = Some v \<and> sb_type (vp_base v) = t} =
          {i \<in> sb_id ` set ss. \<exists>v. om_get (lp_services rp) i = Some v \<and> sb_type (vp_base v) = t}" for t
        using None by auto
      ultimately show ?thesis using Cons.IH [OF Cons.prems] None by (auto simp: fun_eq_iff)
    next
      case (Some v)
      let ?r = "set_socket sock s rp" and ?w = "v\<lparr>vp_socket := sock\<rparr>"
      have b: "sb_id (vp_base v) = sb_id s" using Cons.prems(2) [OF Some] .
      have T: "om_get (lp_services ?r) = (om_get (lp_services rp))(sb_id s \<mapsto> ?w)"
        using Some Cons.prems(1) by (simp add: set_socket_def Let_def maps_ok_def)
      have m: "maps_ok ?r" "rest ?r = rest rp" "lp_nameToID ?r = lp_nameToID rp" "lp_idToName ?r = lp_idToName rp"
        using Some Cons.prems(1) by (simp_all add: set_socket_def Let_def maps_ok_def rest_def ids_update_def)
      have A: "si_all (ids_at ?r t) = si_all (ids_at rp t)" "si_vec (ids_at ?r t) = si_vec (ids_at rp t)"
        "si_active (ids_at ?r t) = (if sb_type (vp_base v) = t
          then (if sock \<noteq> 0 then insert (sb_id s) (si_active (ids_at rp t)) else si_active (ids_at rp t) - {sb_id s})
          else si_active (ids_at rp t))" for t
        using Some Cons.prems(1) b by (auto simp: set_socket_def Let_def maps_ok_def ids_update_def om_at_def)
      have key: "sb_id (vp_base u) = i" if "om_get (lp_services ?r) i = Some u" for i u
        using that T b Cons.prems(2) by (auto split: if_splits)
      have hit: "{i \<in> sb_id ` set (s # ss). \<exists>v. om_get (lp_services rp) i = Some v \<and> sb_type (vp_base v) = t} =
          {i \<in> sb_id ` set ss. \<exists>v. om_get (lp_services ?r) i = Some v \<and> sb_type (vp_base v) = t} \<union>
          (if sb_type (vp_base v) = t then {sb_id s} else {})" for t
        using T Some by (auto split: if_splits)
      note IH = Cons.IH [OF m(1) key]
      have "om_get (lp_services (fold (set_socket sock) (s # ss) rp)) = (\<lambda>i. if i \<in> sb_id ` set (s # ss)
          then map_option (\<lambda>v. v\<lparr>vp_socket := sock\<rparr>) (om_get (lp_services rp) i) else om_get (lp_services rp) i)"
        using IH T Some by (auto simp: fun_eq_iff)
      moreover have "si_active (ids_at (fold (set_socket sock) (s # ss) rp) t) =
          (if sock \<noteq> 0 then si_active (ids_at rp t) \<union> {i \<in> sb_id ` set (s # ss). \<exists>v. om_get (lp_services rp) i = Some v \<and> sb_type (vp_base v) = t}
           else si_active (ids_at rp t) - {i \<in> sb_id ` set (s # ss). \<exists>v. om_get (lp_services rp) i = Some v \<and> sb_type (vp_base v) = t})"
        unfolding hit using IH A(3) [of t] by (cases "sock = 0"; cases "sb_type (vp_base v) = t") auto
      ultimately show ?thesis using IH m A(1,2) by simp
    qed
  qed auto
  then show "maps_ok rp'" "rest rp' = rest rp" "lp_nameToID rp' = lp_nameToID rp" "lp_idToName rp' = lp_idToName rp"
    "om_get (lp_services rp') = (\<lambda>i. if i \<in> sb_id ` set ss
      then map_option (\<lambda>v. v\<lparr>vp_socket := sock\<rparr>) (om_get (lp_services rp) i) else om_get (lp_services rp) i)"
    "si_all (ids_at rp' t) = si_all (ids_at rp t)" "si_vec (ids_at rp' t) = si_vec (ids_at rp t)"
    "si_active (ids_at rp' t) = (if sock \<noteq> 0 then si_active (ids_at rp t) \<union> hit t else si_active (ids_at rp t) - hit t)"
    by simp_all
qed

end
