(* ===== verification/Proxy_Steps.thy ===== *)
theory Proxy_Steps imports Registry_Proxy begin

text \<open>
  The steps of \<open>CGlobalServiceRegistryProxy\<close> keep its tables right.
\<close>

subsection \<open>The socket of a node\<close>

lemma found_types_iff:
  "t \<in> found_types ss rp \<longleftrightarrow> (\<exists>s \<in> set ss. \<exists>v. om_get (lp_services rp) (sb_id s) = Some v \<and> sb_type (vp_base v) = t)"
  by (auto simp: found_types_def map_filter_def image_iff) metis

lemma finite_found [simp]: "finite (found_types ss rp)"
  by (simp add: found_types_def)

text \<open>What a node that is there looks like after its socket is set.\<close>

definition socket_set :: "nat \<Rightarrow> node_proxy \<Rightarrow> nat \<Rightarrow> reg_proxy \<Rightarrow> reg_proxy" where
  "socket_set k n sock rp = updateActiveServiceID (found_types (np_services n) rp)
     ((fold (set_socket sock) (np_services n) rp)\<lparr>rp_nodes := om_put k (n\<lparr>np_socket := sock\<rparr>) (rp_nodes rp)\<rparr>)"

lemma set_socket_ok:
  assumes ok: "base_ok rp" and at: "om_get (rp_nodes rp) k = Some n"
  shows "base_ok (socket_set k n sock rp)"
    and "rp_nodes (socket_set k n sock rp) = om_put k (n\<lparr>np_socket := sock\<rparr>) (rp_nodes rp)"
    and "rp_conns (socket_set k n sock rp) = rp_conns rp" and "rp_local (socket_set k n sock rp) = rp_local rp"
    and "rp_out (socket_set k n sock rp) = rp_out rp" and "rp_net (socket_set k n sock rp) = rp_net rp"
    and "rp_self (socket_set k n sock rp) = rp_self rp" and "rp_masters (socket_set k n sock rp) = rp_masters rp"
    and "rp_wantNames (socket_set k n sock rp) = rp_wantNames rp" and "rp_wantTypes (socket_set k n sock rp) = rp_wantTypes rp"
proof -
  let ?ss = "np_services n" and ?r = "socket_set k n sock rp"
  let ?r1 = "fold (set_socket sock) ?ss rp"
  let ?r2 = "?r1\<lparr>rp_nodes := om_put k (n\<lparr>np_socket := sock\<rparr>) (rp_nodes rp)\<rparr>"
  note b = base_okD [OF ok] and m = maps_of_base [OF ok]
  have key: "sb_id (vp_base v) = i" if "om_get (lp_services rp) i = Some v" for i v
    using found_proxy [OF ok that] by metis
  note f = set_sockets [OF b(5) key, where sock = sock and ss = ?ss]
  have m1: "maps_ok ?r1" and rest1: "rest ?r1 = rest rp" and n1: "lp_nameToID ?r1 = lp_nameToID rp"
    and i1: "lp_idToName ?r1 = lp_idToName rp" using f(1-4) by blast+
  have m2: "maps_ok ?r2" using m1 m by (simp add: maps_ok_def)
  then have "om_ok (lp_ids ?r2)" by (simp add: maps_ok_def)
  note u = update_active [OF finite_found this, of ?ss rp, folded socket_set_def]
  have rest2: "rest ?r = rest ?r2" by (rule u(4))
  show rn: "rp_nodes ?r = om_put k (n\<lparr>np_socket := sock\<rparr>) (rp_nodes rp)" using restD(1) [OF rest2] by simp
  have r1: "rp_self ?r1 = rp_self rp" "rp_local ?r1 = rp_local rp" "rp_wantNames ?r1 = rp_wantNames rp"
    "rp_wantTypes ?r1 = rp_wantTypes rp" "rp_masters ?r1 = rp_masters rp" "rp_conns ?r1 = rp_conns rp"
    "rp_out ?r1 = rp_out rp" "rp_net ?r1 = rp_net rp" using rest1 by (simp_all add: rest_def)
  show rc: "rp_conns ?r = rp_conns rp" and rl: "rp_local ?r = rp_local rp"
    and "rp_out ?r = rp_out rp" "rp_net ?r = rp_net rp" "rp_self ?r = rp_self rp" "rp_masters ?r = rp_masters rp"
      "rp_wantNames ?r = rp_wantNames rp" "rp_wantTypes ?r = rp_wantTypes rp"
    using rest2 r1 by (simp_all add: rest_def)
  have nd: "om_get (rp_nodes ?r) = (om_get (rp_nodes rp))(k \<mapsto> n\<lparr>np_socket := sock\<rparr>)" using rn m by simp
  have so: "services_of ?r = services_of rp"
    by (rule ext) (use nd rl at in \<open>simp add: services_of_def split: option.splits\<close>)
  then have S: "all_services ?r = all_services rp" by (simp add: all_services_def)
  have sv: "om_get (lp_services ?r) = (\<lambda>i. if i \<in> sb_id ` set ?ss
      then map_option (\<lambda>v. v\<lparr>vp_socket := sock\<rparr>) (om_get (lp_services rp) i) else om_get (lp_services rp) i)"
    using f(5) u(1) by simp
  have mine: "k' = k" if "om_get (rp_nodes rp) k' = Some n'" "s \<in> set (np_services n')" "sb_id s \<in> sb_id ` set ?ss" for k' n' s
  proof -
    obtain s' where s': "s' \<in> set ?ss" "sb_id s' = sb_id s" using \<open>sb_id s \<in> _\<close> by auto
    have "s \<in> services_of rp (Some k')" "s' \<in> services_of rp (Some k)"
      using that(1,2) at s'(1) by (auto simp: services_of_def)
    from separateD [OF b(2) this] s'(2) show ?thesis by simp
  qed
  have "covers (om_get (lp_services ?r)) (proxies ?r)"
  proof -
    note c = tables_covers [OF b(1)]
    have "(i, v) \<in> proxies ?r" if "om_get (lp_services ?r) i = Some v" for i v
    proof (cases "i \<in> sb_id ` set ?ss")
      case True
      have "map_option (\<lambda>v. v\<lparr>vp_socket := sock\<rparr>) (om_get (lp_services rp) i) = Some v" using that True unfolding sv by simp
      then obtain u' where u': "om_get (lp_services rp) i = Some u'" "v = u'\<lparr>vp_socket := sock\<rparr>" by auto
      then obtain k' n' where n': "om_get (rp_nodes rp) k' = Some n'" "vp_base u' \<in> set (np_services n')" "sb_id (vp_base u') = i"
        using found_proxy [OF ok] by metis
      then have "k' = k" using mine True by metis
      then show ?thesis using n' at u'(2) unfolding proxies_def nd
        by (intro CollectI exI [of _ k] exI [of _ "n\<lparr>np_socket := sock\<rparr>"] exI [of _ "vp_base u'"]) simp
    next
      case False
      then have g: "om_get (lp_services rp) i = Some v" using that sv by simp
      then obtain k' n' where n': "om_get (rp_nodes rp) k' = Some n'" "vp_base v \<in> set (np_services n')" "sb_id (vp_base v) = i"
        "vp_socket v = np_socket n'" using found_proxy [OF ok] by metis
      then have "k' \<noteq> k" using False at by auto
      then show ?thesis using n' unfolding proxies_def nd
        by (intro CollectI exI [of _ k'] exI [of _ n'] exI [of _ "vp_base v"]) simp
    qed
    moreover have "fst ` proxies ?r = sb_id ` (\<Union>k \<in> dom (om_get (rp_nodes ?r)). set (np_services (the (om_get (rp_nodes ?r) k))))"
      by (force simp: proxies_def image_iff)
    moreover have "fst ` proxies rp = sb_id ` (\<Union>k \<in> dom (om_get (rp_nodes rp)). set (np_services (the (om_get (rp_nodes rp) k))))"
      by (force simp: proxies_def image_iff)
    moreover have "dom (om_get (rp_nodes ?r)) = dom (om_get (rp_nodes rp))" using nd at by auto
    moreover have "np_services (the (om_get (rp_nodes ?r) j)) = np_services (the (om_get (rp_nodes rp) j))" for j
      using nd at by simp
    moreover have "dom (om_get (lp_services ?r)) = dom (om_get (lp_services rp))" unfolding sv by (auto split: if_splits)
    ultimately show ?thesis using c unfolding covers_def by simp
  qed
  moreover have "maps_ok ?r" using m2 u(1-3,5) rn rc by (simp add: maps_ok_def r1)
  ultimately have T: "tables ?r (all_services ?r) (proxies ?r)"
    using b(1) u(2,3) n1 i1 unfolding tables_def S by simp
  let ?hit = "\<lambda>t. {i \<in> sb_id ` set ?ss. \<exists>v. om_get (lp_services rp) i = Some v \<and> sb_type (vp_base v) = t}"
  have act: "si_active (ids_at ?r t) = si_active (ids_at ?r1 t)" for t using u(6) [of t] by simp
  have ids: "si_all (ids_at ?r t) = si_all (ids_at rp t)"
    "si_active (ids_at ?r t) = (if sock \<noteq> 0 then si_active (ids_at rp t) \<union> ?hit t else si_active (ids_at rp t) - ?hit t)"
    "si_vec (ids_at ?r t) = (if t \<in> found_types ?ss rp then sorted_list_of_set (si_active (ids_at ?r t)) else si_vec (ids_at rp t))" for t
    using f(6,7) [of t] trans [OF act f(8) [of t]] u(6) [of t] act [of t] by simp_all
  have none: "?hit t = {}" if "t \<notin> found_types ?ss rp" for t
    using that unfolding found_types_iff by blast
  note old = b(3) [unfolded types_ok_def]
  have sub: "?hit t \<subseteq> ids_of_type t (all_services rp)" for t
  proof
    fix i assume "i \<in> ?hit t"
    then obtain v where v: "om_get (lp_services rp) i = Some v" "sb_type (vp_base v) = t" by blast
    obtain k' n' where "om_get (rp_nodes rp) k' = Some n'" "vp_base v \<in> set (np_services n')" "sb_id (vp_base v) = i"
      using found_proxy [OF ok v(1)] by metis
    then show "i \<in> ids_of_type t (all_services rp)" using v(2) by (auto simp: ids_of_type_def mem_all_services)
  qed
  have loc: "ids_of_type t (set (rp_local rp)) \<inter> ?hit t = {}" for t
  proof -
    have False if "l \<in> set (rp_local rp)" "s \<in> set ?ss" "sb_id l = sb_id s" for l s
    proof -
      have "l \<in> services_of rp None" "s \<in> services_of rp (Some k)" using that(1,2) at by (auto simp: services_of_def)
      from separateD [OF b(2) this] that(3) show False by simp
    qed
    then show ?thesis unfolding ids_of_type_def by blast
  qed
  have ty: "si_all (ids_at ?r t) = ids_of_type t (all_services ?r) \<and> si_active (ids_at ?r t) \<subseteq> si_all (ids_at ?r t) \<and>
     si_vec (ids_at ?r t) = sorted_list_of_set (si_active (ids_at ?r t)) \<and>
     ids_of_type t (set (rp_local ?r)) \<subseteq> si_active (ids_at ?r t)" for t
  proof (intro conjI)
    show "si_all (ids_at ?r t) = ids_of_type t (all_services ?r)" using ids(1) old S by simp
    show "si_active (ids_at ?r t) \<subseteq> si_all (ids_at ?r t)" using ids(1,2) [of t] old sub [of t] by (simp split: if_split) blast
    show "si_vec (ids_at ?r t) = sorted_list_of_set (si_active (ids_at ?r t))"
    proof (cases "t \<in> found_types ?ss rp")
      case False
      have "si_active (ids_at ?r t) = si_active (ids_at rp t)" using ids(2) [of t] unfolding none [OF False] by simp
      then show ?thesis using ids(3) [of t] False old by simp
    qed (use ids(3) in simp)
    show "ids_of_type t (set (rp_local ?r)) \<subseteq> si_active (ids_at ?r t)"
      using ids(2) [of t] old loc [of t] unfolding rl by (simp split: if_split) blast
  qed
  have "i \<in> si_active (ids_at ?r (sb_type (vp_base v)))" if v: "om_get (lp_services ?r) i = Some v" "vp_socket v \<noteq> 0" for i v
  proof (cases "i \<in> sb_id ` set ?ss")
    case True
    have "map_option (\<lambda>v. v\<lparr>vp_socket := sock\<rparr>) (om_get (lp_services rp) i) = Some v" using v(1) True unfolding sv by simp
    then obtain u' where u': "om_get (lp_services rp) i = Some u'" "v = u'\<lparr>vp_socket := sock\<rparr>" by auto
    then show ?thesis using ids(2) v(2) True by auto
  next
    case False
    then have "om_get (lp_services rp) i = Some v" using v(1) unfolding sv by simp
    then have "i \<in> si_active (ids_at rp (sb_type (vp_base v)))" using old v(2) by blast
    then show ?thesis using ids(2) False by auto
  qed
  then have "types_ok ?r" unfolding types_ok_def using ty by blast
  moreover have "nb_id (np_base n') = k'" if "om_get (rp_nodes ?r) k' = Some n'" for k' n'
    using that nd b(4) at by (auto split: if_splits)
  ultimately show "base_ok ?r" using T b(2) so unfolding base_ok_def by simp
qed

lemma setOther_eq:
  assumes ok: "base_ok rp"
  shows "setOtherNodeSocketIDByNodeID k sock rp =
    (case om_get (rp_nodes rp) k of
       None \<Rightarrow> (False, rp)
     | Some n \<Rightarrow> if sock \<noteq> 0 \<and> np_socket n \<noteq> 0 then (False, rp)
         else (True, updateLocalServiceRegistryProxy (socket_set k n sock rp)))"
proof (cases "om_get (rp_nodes rp) k")
  case None
  then show ?thesis by (simp add: setOtherNodeSocketIDByNodeID_def)
next
  case (Some n)
  have key: "sb_id (vp_base v) = i" if "om_get (lp_services rp) i = Some v" for i v
    using found_proxy [OF ok that] by metis
  have "rest (fold (set_socket sock) (np_services n) rp) = rest rp"
    using set_sockets(2) [OF base_okD(5) [OF ok] key] .
  note n = restD(1) [OF this]
  show ?thesis unfolding setOtherNodeSocketIDByNodeID_def socket_set_def Some Let_def option.case n by (rule refl)
qed

subsection \<open>A node is removed\<close>

definition erased :: "nat \<Rightarrow> service_base_info list \<Rightarrow> reg_proxy \<Rightarrow> reg_proxy" where
  "erased k ss rp = updateActiveServiceID (types_of ss)
     ((fold leave_proxy ss rp)\<lparr>rp_nodes := om_del k (rp_nodes rp)\<rparr>)"

lemma erased_ok:
  assumes ok: "base_ok rp" and at: "om_get (rp_nodes rp) k = Some n" and ss: "np_services n = ss"
  shows "base_ok (erased k ss rp)" and "rest (erased k ss rp) = rest (rp\<lparr>rp_nodes := om_del k (rp_nodes rp)\<rparr>)"
proof -
  let ?r = "erased k ss rp" and ?r1 = "fold leave_proxy ss rp"
  let ?r2 = "?r1\<lparr>rp_nodes := om_del k (rp_nodes rp)\<rparr>"
  note b = base_okD [OF ok] and m = maps_of_base [OF ok]
  note f = leave_all_proxies [OF b(5), of ss]
  have rest1: "rest ?r1 = rest rp" using f by blast
  have m2: "maps_ok ?r2" using f m by (simp add: maps_ok_def)
  then have "om_ok (lp_ids ?r2)" by (simp add: maps_ok_def)
  note u = update_active [OF finite_types this, of ss, folded erased_def]
  show rest: "rest ?r = rest (rp\<lparr>rp_nodes := om_del k (rp_nodes rp)\<rparr>)"
    using u(4) rest1 by (simp add: rest_def)
  have nd: "om_get (rp_nodes ?r) = (om_get (rp_nodes rp))(k := None)" using restD(1) [OF rest] m by simp
  have rl: "rp_local ?r = rp_local rp" using restD(3) [OF rest] by simp
  have so: "services_of ?r w = (if w = Some k then {} else services_of rp w)" for w
    using nd rl by (cases w) (simp_all add: services_of_def)
  have mine: "services_of rp (Some k) = set ss" using at ss by (simp add: services_of_def)
  have all: "all_services rp = all_services ?r \<union> set ss"
  proof -
    have "x \<in> all_services rp \<longleftrightarrow> x \<in> all_services ?r \<union> set ss" for x
      unfolding all_services_def UN_iff Un_iff so using mine by (metis UNIV_I empty_iff)
    then show ?thesis by blast
  qed
  have apart: "sb_id s \<noteq> sb_id s' \<and> sb_name s \<noteq> sb_name s'" if a: "s \<in> all_services ?r" "s' \<in> set ss" for s s'
  proof -
    obtain w where "s \<in> services_of ?r w" using a(1) unfolding all_services_def by blast
    then have w: "s \<in> services_of rp w" "w \<noteq> Some k" unfolding so by (auto split: if_splits)
    from a(2) have "s' \<in> services_of rp (Some k)" by (simp add: mine)
    from separateD [OF b(2) w(1) this] w(2) show ?thesis by blast
  qed
  have keep: "{p \<in> f ` (A \<union> B). fst p \<notin> g ` B} = f ` A" if "\<And>s. fst (f s) = g s" "\<And>s s'. s \<in> A \<Longrightarrow> s' \<in> B \<Longrightarrow> g s \<noteq> g s'"
    for f :: "service_base_info \<Rightarrow> 'a \<times> 'b" and g A B using that by fastforce
  have N: "name_pairs (all_services ?r) = {p \<in> name_pairs (all_services rp). fst p \<notin> sb_name ` set ss}"
    unfolding all name_pairs_def by (rule keep [symmetric]) (simp_all add: apart)
  have I: "id_pairs (all_services ?r) = {p \<in> id_pairs (all_services rp). fst p \<notin> sb_id ` set ss}"
    unfolding all id_pairs_def by (rule keep [symmetric]) (simp_all add: apart)
  have P: "proxies ?r = {p \<in> proxies rp. fst p \<notin> sb_id ` set ss}"
  proof -
    have "(i, v) \<in> proxies ?r \<longleftrightarrow> (i, v) \<in> proxies rp \<and> i \<notin> sb_id ` set ss" for i v
    proof
      assume "(i, v) \<in> proxies ?r"
      then obtain k' n' s where a: "(om_get (rp_nodes rp)) k' = Some n'" "k' \<noteq> k" "s \<in> set (np_services n')" "i = sb_id s"
        "v = \<lparr>vp_base = s, vp_socket = np_socket n'\<rparr>" unfolding proxies_def nd by (auto split: if_splits)
      have "s \<in> all_services ?r" using a nd by (auto simp: mem_all_services)
      then have "i \<notin> sb_id ` set ss" using a(4) apart by auto
      then show "(i, v) \<in> proxies rp \<and> i \<notin> sb_id ` set ss" using a(1,3-5) unfolding proxies_def by auto
    next
      assume a: "(i, v) \<in> proxies rp \<and> i \<notin> sb_id ` set ss"
      then obtain k' n' s where b: "om_get (rp_nodes rp) k' = Some n'" "s \<in> set (np_services n')" "i = sb_id s"
        "v = \<lparr>vp_base = s, vp_socket = np_socket n'\<rparr>" unfolding proxies_def by auto
      with a at ss have "k' \<noteq> k" by auto
      with b show "(i, v) \<in> proxies ?r" unfolding proxies_def nd by auto
    qed
    then show ?thesis by auto
  qed
  have "maps_ok ?r" using u(1-3,5) restD(1,2) [OF u(4)] m2 by (simp add: maps_ok_def)
  then have T: "tables ?r (all_services ?r) (proxies ?r)"
    using b(1) f u(1-3) unfolding tables_def N I P by (simp add: covers_drop)
  have sep: "separate (services_of ?r)" unfolding separate_def so using separateD [OF b(2)] by (auto split: if_splits)
  have ids: "si_all (ids_at ?r t) = si_all (ids_at rp t) - ids_of_type t (set ss)"
    "si_active (ids_at ?r t) = si_active (ids_at rp t) - ids_of_type t (set ss)"
    "si_vec (ids_at ?r t) = (if t \<in> types_of ss then sorted_list_of_set (si_active (ids_at ?r t)) else si_vec (ids_at rp t))" for t
    using f u(6) [of t] by simp_all
  note old = b(3) [unfolded types_ok_def]
  have A: "ids_of_type t (all_services rp) - ids_of_type t (set ss) = ids_of_type t (all_services ?r)" for t
    using all apart by (auto simp: ids_of_type_def)
  have loc: "ids_of_type t (set (rp_local rp)) \<inter> ids_of_type t (set ss) = {}" for t
  proof -
    have "set (rp_local rp) \<subseteq> all_services ?r" using rl by (auto simp: mem_all_services)
    then show ?thesis using apart by (force simp: ids_of_type_def)
  qed
  have ty: "si_all (ids_at ?r t) = ids_of_type t (all_services ?r) \<and> si_active (ids_at ?r t) \<subseteq> si_all (ids_at ?r t) \<and>
     si_vec (ids_at ?r t) = sorted_list_of_set (si_active (ids_at ?r t)) \<and>
     ids_of_type t (set (rp_local ?r)) \<subseteq> si_active (ids_at ?r t)" for t
  proof (intro conjI)
    show "si_all (ids_at ?r t) = ids_of_type t (all_services ?r)" using ids(1) old A by simp
    show "si_active (ids_at ?r t) \<subseteq> si_all (ids_at ?r t)" using ids(1,2) [of t] old by blast
    show "si_vec (ids_at ?r t) = sorted_list_of_set (si_active (ids_at ?r t))"
    proof (cases "t \<in> types_of ss")
      case False
      have "si_active (ids_at ?r t) = si_active (ids_at rp t)" using ids(2) [of t] unfolding ids_of_type_empty [OF False] by simp
      then show ?thesis using ids(3) [of t] False old by simp
    qed (use ids(3) in simp)
    show "ids_of_type t (set (rp_local ?r)) \<subseteq> si_active (ids_at ?r t)"
      using ids(2) [of t] old loc [of t] unfolding rl by blast
  qed
  have "i \<in> si_active (ids_at ?r (sb_type (vp_base v)))" if v: "om_get (lp_services ?r) i = Some v" "vp_socket v \<noteq> 0" for i v
  proof -
    have "om_get (lp_services ?r) i = drop_keys (sb_id ` set ss) (om_get (lp_services rp)) i" using f u(1) by simp
    with v(1) have "i \<notin> sb_id ` set ss" "om_get (lp_services rp) i = Some v" by (auto simp: drop_keys_def split: if_splits)
    moreover from this(2) have "i \<in> si_active (ids_at rp (sb_type (vp_base v)))" using old v(2) by blast
    ultimately show ?thesis using ids(2) by (auto simp: ids_of_type_def)
  qed
  then have "types_ok ?r" unfolding types_ok_def using ty by blast
  moreover have "nb_id (np_base n') = k'" if "om_get (rp_nodes ?r) k' = Some n'" for k' n'
    using that nd b(4) by (auto split: if_splits)
  ultimately show "base_ok ?r" using T sep unfolding base_ok_def by blast
qed

subsection \<open>The steps keep the invariant\<close>

definition proxy_ok :: "reg_proxy \<Rightarrow> bool" where
  "proxy_ok rp \<longleftrightarrow> base_ok rp \<and> socks_ok rp"

text \<open>The nodes known, with their services.\<close>

definition known_nodes :: "reg_proxy \<Rightarrow> nat \<Rightarrow> node_info option" where
  "known_nodes rp k = map_option (\<lambda>n. \<lparr>ni_base = np_base n, ni_services = np_services n\<rparr>) (om_get (rp_nodes rp) k)"

lemma core_proxy_ok: "core rp' = core rp \<Longrightarrow> proxy_ok rp' = proxy_ok rp"
  using core_ok [of rp' rp] by (simp add: proxy_ok_def)

lemma core_known: "core rp' = core rp \<Longrightarrow> known_nodes rp' = known_nodes rp \<and> rp_local rp' = rp_local rp"
  using coreD(5,6) [of rp' rp] by (simp add: known_nodes_def fun_eq_iff)

lemma base_conns: "om_ok cs \<Longrightarrow> base_ok rp \<Longrightarrow> base_ok (rp\<lparr>rp_conns := cs\<rparr>)"
proof -
  assume a: "om_ok cs" "base_ok rp"
  have "services_of (rp\<lparr>rp_conns := cs\<rparr>) = services_of rp"
    by (rule ext) (simp add: services_of_def split: option.split)
  then have s: "services_of (rp\<lparr>rp_conns := cs\<rparr>) = services_of rp"
    and S: "all_services (rp\<lparr>rp_conns := cs\<rparr>) = all_services rp" and P: "proxies (rp\<lparr>rp_conns := cs\<rparr>) = proxies rp"
    by (simp_all add: all_services_def proxies_def)
  have "types_ok (rp\<lparr>rp_conns := cs\<rparr>) = types_ok rp" by (simp add: types_ok_def S)
  moreover have "tables rp S' P' \<Longrightarrow> tables (rp\<lparr>rp_conns := cs\<rparr>) S' P'" for S' P'
    using a(1) by (simp add: tables_def maps_ok_def)
  ultimately show ?thesis using a(2) unfolding base_ok_def s S P by simp
qed

lemma socks_okD:
  assumes "socks_ok rp"
  shows "om_get (rp_nodes rp) k = Some n \<Longrightarrow> np_socket n \<noteq> 0 \<Longrightarrow> k \<noteq> 0 \<and> om_get (rp_conns rp) (np_socket n) = Some k"
    and "om_get (rp_conns rp) s = Some k \<Longrightarrow> k \<noteq> 0 \<Longrightarrow> \<exists>n. om_get (rp_nodes rp) k = Some n \<and> np_socket n = s"
    and "om_get (rp_conns rp) 0 = None"
  using assms unfolding socks_ok_def by blast+

lemma socks_okI:
  assumes "\<And>k n. om_get (rp_nodes rp) k = Some n \<Longrightarrow> np_socket n \<noteq> 0 \<Longrightarrow> k \<noteq> 0 \<and> om_get (rp_conns rp) (np_socket n) = Some k"
    and "\<And>s k. om_get (rp_conns rp) s = Some k \<Longrightarrow> k \<noteq> 0 \<Longrightarrow> \<exists>n. om_get (rp_nodes rp) k = Some n \<and> np_socket n = s"
    and "om_get (rp_conns rp) 0 = None"
  shows "socks_ok rp"
  using assms unfolding socks_ok_def by blast

lemma conns_ok: "base_ok rp \<Longrightarrow> om_ok (rp_conns rp)"
  using base_okD(5) by (simp add: maps_ok_def)

lemma set_socket_known:
  assumes "base_ok rp" and "om_get (rp_nodes rp) k = Some n"
  shows "known_nodes (socket_set k n sock rp) = known_nodes rp"
  using set_socket_ok(2) [OF assms] maps_of_base [OF assms(1)] assms(2) by (auto simp: known_nodes_def fun_eq_iff)

text \<open>A connection without a node gets one, that had no socket.\<close>

lemma join_ok:
  assumes ok: "proxy_ok rp" and c: "om_get (rp_conns rp) s = Some 0" and k: "k \<noteq> 0"
    and at: "om_get (rp_nodes rp) k = Some n" and free: "np_socket n = 0"
    and rp': "core rp' = core ((socket_set k n s rp)\<lparr>rp_conns := om_put s k (rp_conns rp)\<rparr>)"
  shows "proxy_ok rp'" and "known_nodes rp' = known_nodes rp" and "rp_local rp' = rp_local rp"
proof -
  let ?r = "(socket_set k n s rp)\<lparr>rp_conns := om_put s k (rp_conns rp)\<rparr>"
  have b: "base_ok rp" and so: "socks_ok rp" using ok by (simp_all add: proxy_ok_def)
  note st = set_socket_ok [OF b at, of s] and m = maps_of_base [OF b]
  have nd: "om_get (rp_nodes ?r) = (om_get (rp_nodes rp))(k \<mapsto> n\<lparr>np_socket := s\<rparr>)" using st(2) m by simp
  have cn: "om_get (rp_conns ?r) = (om_get (rp_conns rp))(s \<mapsto> k)" using conns_ok [OF b] by simp
  have s0: "s \<noteq> 0" using c socks_okD(3) [OF so] by (metis option.distinct(1))
  have "socks_ok ?r"
  proof (rule socks_okI, unfold nd cn)
    fix k' n' assume a: "((om_get (rp_nodes rp))(k \<mapsto> n\<lparr>np_socket := s\<rparr>)) k' = Some n'" "np_socket n' \<noteq> 0"
    show "k' \<noteq> 0 \<and> ((om_get (rp_conns rp))(s \<mapsto> k)) (np_socket n') = Some k'"
      using a k c socks_okD(1) [OF so, of k' n'] by (auto split: if_splits)
  next
    fix s' k' assume a: "((om_get (rp_conns rp))(s \<mapsto> k)) s' = Some k'" "k' \<noteq> 0"
    show "\<exists>n'. ((om_get (rp_nodes rp))(k \<mapsto> n\<lparr>np_socket := s\<rparr>)) k' = Some n' \<and> np_socket n' = s'"
    proof (cases "s' = s")
      case False
      then obtain n' where n': "om_get (rp_nodes rp) k' = Some n'" "np_socket n' = s'"
        using a socks_okD(2) [OF so] by auto
      have "s' \<noteq> 0" using a(1) False socks_okD(3) [OF so] by (metis fun_upd_apply option.distinct(1))
      then have "k' \<noteq> k" using n' at free by auto
      then show ?thesis using n' by simp
    qed (use a in simp)
  next
    show "((om_get (rp_conns rp))(s \<mapsto> k)) 0 = None" using s0 socks_okD(3) [OF so] by simp
  qed
  moreover have "base_ok ?r" using st(1) conns_ok [OF b] by (intro base_conns) simp_all
  ultimately show "proxy_ok rp'" using core_proxy_ok [OF rp'] by (simp add: proxy_ok_def)
  show "known_nodes rp' = known_nodes rp" using core_known [OF rp'] set_socket_known [OF b at, of s] by (simp add: known_nodes_def fun_eq_iff)
  show "rp_local rp' = rp_local rp" using core_known [OF rp'] st(4) by simp
qed

lemma core_conns: "core rp' = core rp \<Longrightarrow> core (rp'\<lparr>rp_conns := cs\<rparr>) = core (rp\<lparr>rp_conns := cs\<rparr>)"
  by (simp add: core_def)

abbreviation same_view :: "reg_proxy \<Rightarrow> reg_proxy \<Rightarrow> bool" where
  "same_view rp' rp \<equiv> proxy_ok rp' \<and> known_nodes rp' = known_nodes rp \<and> rp_local rp' = rp_local rp"

lemma core_same: "proxy_ok rp \<Longrightarrow> core rp' = core rp \<Longrightarrow> same_view rp' rp"
  using core_proxy_ok core_known by blast

lemma join_step:
  assumes ok: "proxy_ok rp" and c: "om_get (rp_conns rp) s = Some 0" and k: "k \<noteq> 0"
    and set: "setOtherNodeSocketIDByNodeID k s rp = (ok', rp1)"
    and rp': "core rp' = core (if ok' then rp1\<lparr>rp_conns := om_put s k (rp_conns rp1)\<rparr> else rp1)"
  shows "same_view rp' rp"
proof -
  have b: "base_ok rp" and so: "socks_ok rp" using ok by (simp_all add: proxy_ok_def)
  have s0: "s \<noteq> 0" using c socks_okD(3) [OF so] by (metis option.distinct(1))
  show ?thesis
  proof (cases ok')
    case False
    then have "rp1 = rp" using set unfolding setOther_eq [OF b] by (auto split: option.splits if_splits)
    then show ?thesis using rp' False by (intro core_same [OF ok]) simp
  next
    case True
    then obtain n where n: "om_get (rp_nodes rp) k = Some n" "np_socket n = 0"
      and rp1: "rp1 = updateLocalServiceRegistryProxy (socket_set k n s rp)"
      using set s0 unfolding setOther_eq [OF b] by (auto split: option.splits if_splits)
    have "rp_conns rp1 = rp_conns rp" using set_socket_ok(3) [OF b n(1)] coreD(7) [OF out_core(3)] rp1 by simp
    then have "core rp' = core ((socket_set k n s rp)\<lparr>rp_conns := om_put s k (rp_conns rp)\<rparr>)"
      using rp' True rp1 core_conns [OF out_core(3)] by simp
    from join_ok [OF ok c k n this] show ?thesis by simp
  qed
qed

lemma on_request_ok:
  assumes ok: "proxy_ok rp" and k: "k \<noteq> 0"
  shows "same_view (on_request s k rp) rp"
proof (cases "om_get (rp_conns rp) s = Some 0 \<and> getServiceBaseInfoByNodeID k rp \<noteq> None")
  case True
  then obtain ss where c: "om_get (rp_conns rp) s = Some 0" and g: "getServiceBaseInfoByNodeID k rp = Some ss" by blast
  obtain b rp1 where set: "setOtherNodeSocketIDByNodeID k s rp = (b, rp1)" by fastforce
  show ?thesis
    by (rule join_step [OF ok c k set]) (use c g set in \<open>simp add: on_request_def core_def net_send_def
        onNodeConnect_def to_services_def Let_def\<close>)
next
  case False
  then have "core (on_request s k rp) = core rp" by (auto simp: on_request_def)
  then show ?thesis by (rule core_same [OF ok])
qed

lemma on_response_ok:
  assumes ok: "proxy_ok rp" and k: "k \<noteq> 0" and c: "om_get (rp_conns rp) s = Some 0"
  shows "same_view (on_response s k rp) rp"
proof -
  obtain b rp1 where set: "setOtherNodeSocketIDByNodeID k s rp = (b, rp1)" by fastforce
  show ?thesis
    by (rule join_step [OF ok c k set]) (use c set in \<open>simp add: on_response_def core_def net_send_def
        onNodeConnect_def to_services_def Let_def\<close>)
qed

lemma on_onConnect_ok:
  assumes ok: "proxy_ok rp" and s: "s \<noteq> 0" "om_get (rp_conns rp) s = None"
  shows "same_view (on_onConnect i s rp) rp"
proof -
  let ?r = "rp\<lparr>rp_conns := om_put s 0 (rp_conns rp)\<rparr>"
  have b: "base_ok rp" and so: "socks_ok rp" using ok by (simp_all add: proxy_ok_def)
  have "socks_ok ?r" unfolding socks_ok_def using socks_okD [OF so] s conns_ok [OF b] by auto
  then have "proxy_ok ?r" using base_conns [OF _ b] conns_ok [OF b] by (simp add: proxy_ok_def)
  moreover have "core (on_onConnect i s rp) = core ?r" by (cases i) (simp_all add: on_onConnect_def Let_def)
  ultimately have "same_view (on_onConnect i s rp) ?r" by (rule core_same)
  then show ?thesis by (simp add: known_nodes_def fun_eq_iff)
qed

text \<open>A connection loses its node, which loses its socket.\<close>

lemma part_ok:
  assumes ok: "proxy_ok rp" and c: "om_get (rp_conns rp) s = Some k" and k: "k \<noteq> 0"
    and cs: "om_ok cs" "\<And>x. x \<noteq> s \<Longrightarrow> om_get cs x = om_get (rp_conns rp) x" "om_get cs s = None \<or> om_get cs s = Some 0"
    and rp1: "core rp1 = core (rp\<lparr>rp_conns := cs\<rparr>)"
  shows "same_view (snd (setOtherNodeSocketIDByNodeID k 0 rp1)) rp"
    and "\<exists>n. om_get (rp_nodes (snd (setOtherNodeSocketIDByNodeID k 0 rp1))) k = Some n \<and> np_socket n = 0"
proof -
  have b: "base_ok rp" and so: "socks_ok rp" using ok by (simp_all add: proxy_ok_def)
  have "base_ok (rp\<lparr>rp_conns := cs\<rparr>)" by (rule base_conns [OF cs(1) b])
  then have b1: "base_ok rp1" using core_ok(1) [OF rp1] by simp
  have f: "rp_nodes rp1 = rp_nodes rp" "rp_conns rp1 = cs" "rp_local rp1 = rp_local rp" using coreD [OF rp1] by simp_all
  obtain n where at: "om_get (rp_nodes rp) k = Some n" "np_socket n = s" using socks_okD(2) [OF so c k] by blast
  then have at1: "om_get (rp_nodes rp1) k = Some n" using f by simp
  let ?r = "socket_set k n 0 rp1"
  note st = set_socket_ok [OF b1 at1, of 0]
  have core: "core (snd (setOtherNodeSocketIDByNodeID k 0 rp1)) = core ?r"
    unfolding setOther_eq [OF b1] at1 by simp
  have nd: "om_get (rp_nodes ?r) = (om_get (rp_nodes rp))(k \<mapsto> n\<lparr>np_socket := 0\<rparr>)"
    using st(2) f maps_of_base [OF b] by simp
  have cn: "rp_conns ?r = cs" using st(3) f by simp
  have "socks_ok ?r"
  proof (rule socks_okI, unfold nd cn)
    fix k' n' assume a: "((om_get (rp_nodes rp))(k \<mapsto> n\<lparr>np_socket := 0\<rparr>)) k' = Some n'" "np_socket n' \<noteq> 0"
    have o: "om_get (rp_nodes rp) k' = Some n'" "k' \<noteq> k" using a by (auto split: if_splits)
    from socks_okD(1) [OF so this(1) a(2)] have d: "k' \<noteq> 0" "om_get (rp_conns rp) (np_socket n') = Some k'" by simp_all
    then have "np_socket n' \<noteq> s" using c o(2) by auto
    then show "k' \<noteq> 0 \<and> om_get cs (np_socket n') = Some k'" using cs(2) d by simp
  next
    fix s' k' assume a: "om_get cs s' = Some k'" "k' \<noteq> 0"
    then have "s' \<noteq> s" using cs(3) by auto
    with a cs(2) have o: "om_get (rp_conns rp) s' = Some k'" by simp
    obtain n' where n': "om_get (rp_nodes rp) k' = Some n'" "np_socket n' = s'" using socks_okD(2) [OF so o a(2)] by blast
    moreover have "k' \<noteq> k" using n' at \<open>s' \<noteq> s\<close> by auto
    ultimately show "\<exists>n'. ((om_get (rp_nodes rp))(k \<mapsto> n\<lparr>np_socket := 0\<rparr>)) k' = Some n' \<and> np_socket n' = s'" by simp
  next
    have "s \<noteq> 0" using c socks_okD(3) [OF so] by (metis option.distinct(1))
    then show "om_get cs 0 = None" using cs(2) [of 0] socks_okD(3) [OF so] by simp
  qed
  then have p: "proxy_ok ?r" using st(1) by (simp add: proxy_ok_def)
  have "known_nodes ?r = known_nodes rp1" by (rule set_socket_known [OF b1 at1])
  also have "\<dots> = known_nodes rp" using f by (simp add: known_nodes_def fun_eq_iff)
  finally have "known_nodes ?r = known_nodes rp" .
  moreover have "rp_local ?r = rp_local rp" using st(4) f by simp
  ultimately show "same_view (snd (setOtherNodeSocketIDByNodeID k 0 rp1)) rp" using core_same [OF p core] by simp
  show "\<exists>n. om_get (rp_nodes (snd (setOtherNodeSocketIDByNodeID k 0 rp1))) k = Some n \<and> np_socket n = 0"
    using coreD(6) [OF core] nd by simp
qed

lemma on_onDisconnect_ok:
  assumes ok: "proxy_ok rp"
  shows "same_view (on_onDisconnect s rp) rp"
proof (cases "om_get (rp_conns rp) s")
  case None
  then show ?thesis using ok by (simp add: on_onDisconnect_def)
next
  case (Some k)
  have b: "base_ok rp" and so: "socks_ok rp" using ok by (simp_all add: proxy_ok_def)
  let ?cs = "om_del s (rp_conns rp)"
  note cn = conns_ok [OF b]
  show ?thesis
  proof (cases "k = 0")
    case True
    have "socks_ok (rp\<lparr>rp_conns := ?cs\<rparr>)"
    proof (rule socks_okI)
      fix k n assume a: "om_get (rp_nodes (rp\<lparr>rp_conns := ?cs\<rparr>)) k = Some n" "np_socket n \<noteq> 0"
      then have "k \<noteq> 0 \<and> om_get (rp_conns rp) (np_socket n) = Some k" using socks_okD(1) [OF so] by simp
      then show "k \<noteq> 0 \<and> om_get (rp_conns (rp\<lparr>rp_conns := ?cs\<rparr>)) (np_socket n) = Some k" using cn Some True by auto
    qed (use cn socks_okD(2,3) [OF so] in \<open>auto split: if_splits\<close>)
    then have "proxy_ok (rp\<lparr>rp_conns := ?cs\<rparr>)" using base_conns [OF _ b] cn by (simp add: proxy_ok_def)
    then show ?thesis using Some True by (simp add: on_onDisconnect_def known_nodes_def fun_eq_iff)
  next
    case False
    let ?r = "snd (setOtherNodeSocketIDByNodeID k 0 (rp\<lparr>rp_conns := ?cs\<rparr>))"
    have v: "same_view ?r rp" by (rule part_ok(1) [OF ok Some False]) (use cn in simp_all)
    have "core (on_onDisconnect s rp) = core ?r" using Some False by (simp add: on_onDisconnect_def)
    with v core_same [OF _ this] show ?thesis by simp
  qed
qed

lemma erase_ok:
  assumes ok: "proxy_ok rp" and at: "om_get (rp_nodes rp) k = Some n" and s: "np_socket n = 0" and ss: "np_services n = ss"
  shows "proxy_ok (erased k ss rp)" and "known_nodes (erased k ss rp) = (known_nodes rp)(k := None)"
    and "rp_local (erased k ss rp) = rp_local rp"
proof -
  have b: "base_ok rp" and so: "socks_ok rp" using ok by (simp_all add: proxy_ok_def)
  note e = erased_ok [OF b at ss]
  have nd: "om_get (rp_nodes (erased k ss rp)) = (om_get (rp_nodes rp))(k := None)"
    using restD(1) [OF e(2)] maps_of_base [OF b] by simp
  have cn: "rp_conns (erased k ss rp) = rp_conns rp" using restD(2) [OF e(2)] by simp
  have "socks_ok (erased k ss rp)"
  proof (rule socks_okI, unfold nd cn)
    fix s' k' assume a: "om_get (rp_conns rp) s' = Some k'" "k' \<noteq> 0"
    then have "s' \<noteq> 0" using socks_okD(3) [OF so] by (metis option.distinct(1))
    with socks_okD(2) [OF so a] at s show "\<exists>n'. ((om_get (rp_nodes rp))(k := None)) k' = Some n' \<and> np_socket n' = s'" by auto
  qed (use socks_okD(1,3) [OF so] in \<open>auto split: if_splits\<close>)
  then show "proxy_ok (erased k ss rp)" using e(1) by (simp add: proxy_ok_def)
  show "known_nodes (erased k ss rp) = (known_nodes rp)(k := None)" using nd by (simp add: known_nodes_def fun_eq_iff)
  show "rp_local (erased k ss rp) = rp_local rp" using restD(3) [OF e(2)] by simp
qed

lemma delNodeProxyInfo_ok:
  assumes ok: "proxy_ok rp"
  obtains rp' where "delNodeProxyInfo k rp = Some rp'" "proxy_ok rp'" "known_nodes rp' = (known_nodes rp)(k := None)"
    "rp_local rp' = rp_local rp"
proof (cases "om_get (rp_nodes rp) k")
  case None
  then have "delNodeProxyInfo k rp = Some rp" "(known_nodes rp)(k := None) = known_nodes rp"
    by (auto simp: delNodeProxyInfo_def known_nodes_def)
  with ok show thesis by (intro that [of rp]) simp_all
next
  case (Some n)
  have b: "base_ok rp" and so: "socks_ok rp" using ok by (simp_all add: proxy_ok_def)
  let ?ss = "np_services n"
  have fin: "updateActiveServiceID (types_of ?ss) (r1\<lparr>rp_nodes := om_del k (rp_nodes r1)\<rparr>) = erased k ?ss r"
    if "r1 = fold leave_proxy ?ss r" "maps_ok r" for r r1
    using leave_all_proxies [OF that(2), of ?ss] restD(1) [of r1 r] that(1) by (simp add: erased_def)
  show thesis
  proof (cases "np_socket n = 0")
    case True
    have "delNodeProxyInfo k rp = Some (updateLocalServiceRegistryProxy (erased k ?ss rp))"
      using Some True fin [OF refl base_okD(5) [OF b]] by (simp add: delNodeProxyInfo_def Let_def)
    moreover note e = erase_ok [OF ok Some True refl] and c = core_same [OF erase_ok(1) [OF ok Some True refl] out_core(3)]
    ultimately show thesis by (intro that [of "updateLocalServiceRegistryProxy (erased k ?ss rp)"]) simp_all
  next
    case False
    let ?cs = "om_put (np_socket n) 0 (rp_conns rp)"
    let ?r1 = "net_send (np_socket n) ShutDown (rp\<lparr>rp_conns := ?cs\<rparr>)"
    let ?r2 = "snd (setOtherNodeSocketIDByNodeID k 0 ?r1)" and ?r3 = "onNodeDisconnect k (snd (setOtherNodeSocketIDByNodeID k 0 ?r1))"
    have c: "om_get (rp_conns rp) (np_socket n) = Some k" and k: "k \<noteq> 0" using socks_okD(1) [OF so Some False] by simp_all
    have cs: "om_ok ?cs" using conns_ok [OF b] by simp
    have p: "same_view ?r2 rp" "\<exists>n. om_get (rp_nodes ?r2) k = Some n \<and> np_socket n = 0"
      by (rule part_ok [OF ok c k cs]; use conns_ok [OF b] in simp)+
    have v: "same_view ?r3 ?r2" using core_same [OF _ out_core(5)] p(1) by simp
    obtain n3 where n3: "om_get (rp_nodes ?r3) k = Some n3" "np_socket n3 = 0" using p(2) coreD(6) [OF out_core(5)] by metis
    have "known_nodes ?r3 k = known_nodes rp k" using p(1) v by simp
    then have ss: "np_services n3 = ?ss" using n3(1) Some by (simp add: known_nodes_def)
    have ok3: "proxy_ok ?r3" using v by simp
    then have m3: "maps_ok ?r3" using base_okD(5) by (simp add: proxy_ok_def)
    have "delNodeProxyInfo k rp = Some (updateLocalServiceRegistryProxy (erased k ?ss ?r3))"
      using Some False c fin [OF refl m3] by (simp add: delNodeProxyInfo_def Let_def)
    moreover note e = erase_ok [OF ok3 n3 ss] and c = core_same [OF erase_ok(1) [OF ok3 n3 ss] out_core(3)]
    ultimately show thesis using p(1) v by (intro that [of "updateLocalServiceRegistryProxy (erased k ?ss ?r3)"]) simp_all
  qed
qed

end
