(* ===== verification/Proxy_Run.thy ===== *)
theory Proxy_Run imports Proxy_Steps begin

text \<open>
  The proxy of a node fed by the master: every history of messages and connection events keeps its
  tables right, and what the master of \<open>Service_Registry\<close> sends makes it know exactly the other
  registered nodes.
\<close>

subsection \<open>A node is added\<close>

text \<open>The services of the node itself and of the known nodes, by owner.\<close>

definition owners :: "service_base_info list \<Rightarrow> (nat \<Rightarrow> node_info option) \<Rightarrow> nat option \<Rightarrow> service_base_info set" where
  "owners local f w =
     (case w of
        None \<Rightarrow> set local
      | Some k \<Rightarrow> (case f k of None \<Rightarrow> {} | Some i \<Rightarrow> set (ni_services i)))"

definition consistent :: "service_base_info list \<Rightarrow> (nat \<Rightarrow> node_info option) \<Rightarrow> bool" where
  "consistent local f \<longleftrightarrow> separate (owners local f) \<and> (\<forall>k i. f k = Some i \<longrightarrow> nb_id (ni_base i) = k)"

lemma services_owners: "services_of rp = owners (rp_local rp) (known_nodes rp)"
  by (rule ext) (simp add: services_of_def owners_def known_nodes_def split: option.split)

lemma consistent_sub: "consistent local g \<Longrightarrow> (\<And>k i. f k = Some i \<Longrightarrow> g k = Some i) \<Longrightarrow> consistent local f"
proof -
  assume c: "consistent local g" and s: "\<And>k i. f k = Some i \<Longrightarrow> g k = Some i"
  have "owners local f w \<subseteq> owners local g w" for w
    using s by (auto simp: owners_def split: option.splits)
  then have "separate (owners local f)" using c unfolding consistent_def separate_def by blast
  then show ?thesis using c s by (simp add: consistent_def)
qed

lemma unknown_service:
  assumes ok: "base_ok rp" and c: "consistent (rp_local rp) ((known_nodes rp)(k \<mapsto> i))" and new: "known_nodes rp k = None"
    and s: "s \<in> set (ni_services i)"
  shows "\<not> known s rp"
proof
  assume "known s rp"
  then obtain s' where s': "s' \<in> all_services rp" "sb_name s' = sb_name s \<or> sb_id s' = sb_id s"
    unfolding known_iff [OF ok] by blast
  then obtain w where w: "s' \<in> owners (rp_local rp) (known_nodes rp) w" unfolding all_services_def services_owners by blast
  then have "w \<noteq> Some k" using new by (auto simp: owners_def)
  moreover have "s' \<in> owners (rp_local rp) ((known_nodes rp)(k \<mapsto> i)) w"
    using w \<open>w \<noteq> Some k\<close> by (auto simp: owners_def split: option.splits if_splits)
  moreover have "s \<in> owners (rp_local rp) ((known_nodes rp)(k \<mapsto> i)) (Some k)" using s by (simp add: owners_def)
  ultimately show False using separateD [of "owners (rp_local rp) ((known_nodes rp)(k \<mapsto> i))"] c s'(2)
    unfolding consistent_def by metis
qed

lemma proxies_I: "om_get (rp_nodes rp) k = Some n \<Longrightarrow> s \<in> set (np_services n) \<Longrightarrow>
    (sb_id s, \<lparr>vp_base = s, vp_socket = np_socket n\<rparr>) \<in> proxies rp"
  unfolding proxies_def by blast

lemma addNodeProxyInfo_ok:
  assumes ok: "proxy_ok rp"
  shows "proxy_ok (addNodeProxyInfo base ss x rp) \<and> rp_local (addNodeProxyInfo base ss x rp) = rp_local rp \<and>
    known_nodes (addNodeProxyInfo base ss x rp) =
      (if known_nodes rp (nb_id base) = None \<and> \<not> list_ex (\<lambda>s. known s rp) ss
       then (known_nodes rp)(nb_id base \<mapsto> \<lparr>ni_base = base, ni_services = ss\<rparr>) else known_nodes rp)"
proof (cases "om_get (rp_nodes rp) (nb_id base) = None \<and> \<not> list_ex (\<lambda>s. known s rp) ss")
  case False
  then have "addNodeProxyInfo base ss x rp = rp" by (auto simp: addNodeProxyInfo_def)
  then show ?thesis using ok False by (auto simp: known_nodes_def)
next
  case True
  have b: "base_ok rp" and so: "socks_ok rp" using ok by (simp_all add: proxy_ok_def)
  let ?k = "nb_id base" and ?r = "addNodeProxyInfo base ss x rp"
  let ?n = "\<lambda>c. \<lparr>np_base = base, np_services = ss, np_socket = 0, np_connecting = c\<rparr>"
  have new: "om_get (rp_nodes rp) (nb_id (np_base (?n c))) = None" for c using True by simp
  have unk: "\<not> known s rp" if "s \<in> set (np_services (?n c))" for s c using True that by (auto simp: list_ex_iff)
  let ?e = "entered (?n False) rp"
  note e = entered_ok [OF b new [of False] _ unk [of _ False], simplified]
  have e1: "base_ok ?e" "rp_nodes ?e = om_put ?k (?n False) (rp_nodes rp)" "rp_conns ?e = rp_conns rp"
    "rp_local ?e = rp_local rp" using e by blast+
  define c where "c = (\<exists>s \<in> set ss. sb_name s \<in> rp_wantNames rp \<or> sb_type s \<in> rp_wantTypes rp)"
  let ?f = "?e\<lparr>rp_nodes := om_put ?k (?n True) (rp_nodes ?e)\<rparr>"
  have r: "?r = ?e \<or> core ?r = core ?e \<or> core ?r = core ?f"
    using True by (simp add: addNodeProxyInfo_def entered_def Let_def)
  have ke: "known_nodes ?e = (known_nodes rp)(?k \<mapsto> \<lparr>ni_base = base, ni_services = ss\<rparr>)"
    using e1(2) maps_of_base [OF b] by (auto simp: known_nodes_def fun_eq_iff)
  have kf: "known_nodes ?f = known_nodes ?e" using maps_of_base [OF e1(1)] e1(2) maps_of_base [OF b] by (auto simp: known_nodes_def fun_eq_iff)
  have se: "socks_ok ?e"
  proof (rule socks_okI)
    fix s' k' assume a: "om_get (rp_conns ?e) s' = Some k'" "k' \<noteq> 0"
    then obtain n' where "om_get (rp_nodes rp) k' = Some n'" "np_socket n' = s'"
      using socks_okD(2) [OF so] e1(3) by auto
    then show "\<exists>n. om_get (rp_nodes ?e) k' = Some n \<and> np_socket n = s'"
      using e1(2) maps_of_base [OF b] new [of False] by (intro exI [of _ n']) auto
  qed (use e1(2,3) maps_of_base [OF b] socks_okD(1,3) [OF so] in \<open>auto split: if_splits\<close>)
  have pe: "proxy_ok ?e" using se e1(1) by (simp add: proxy_ok_def)
  have pf: "proxy_ok ?f"
  proof -
    have nd: "om_get (rp_nodes ?f) = (om_get (rp_nodes ?e))(?k \<mapsto> ?n True)" "om_get (rp_nodes ?e) ?k = Some (?n False)"
      using maps_of_base [OF e1(1)] e1(2) maps_of_base [OF b] by auto
    have s: "services_of ?f = services_of ?e" unfolding services_owners kf by simp
    then have S: "all_services ?f = all_services ?e" by (simp add: all_services_def)
    have P: "proxies ?f = proxies ?e"
    proof -
      have "(i, v) \<in> proxies ?f \<longleftrightarrow> (i, v) \<in> proxies ?e" for i v
      proof
        assume "(i, v) \<in> proxies ?f"
        then obtain k n s where a: "om_get (rp_nodes ?f) k = Some n" "s \<in> set (np_services n)" "i = sb_id s"
          "v = \<lparr>vp_base = s, vp_socket = np_socket n\<rparr>" unfolding proxies_def by blast
        then obtain n' where n': "om_get (rp_nodes ?e) k = Some n'" "np_services n' = np_services n" "np_socket n' = np_socket n"
          using nd by (cases "k = ?k") auto
        show "(i, v) \<in> proxies ?e" using proxies_I [OF n'(1), of s] n' a by simp
      next
        assume "(i, v) \<in> proxies ?e"
        then obtain k n s where a: "om_get (rp_nodes ?e) k = Some n" "s \<in> set (np_services n)" "i = sb_id s"
          "v = \<lparr>vp_base = s, vp_socket = np_socket n\<rparr>" unfolding proxies_def by blast
        then obtain n' where n': "om_get (rp_nodes ?f) k = Some n'" "np_services n' = np_services n" "np_socket n' = np_socket n"
          using nd by (cases "k = ?k") auto
        show "(i, v) \<in> proxies ?f" using proxies_I [OF n'(1), of s] n' a by simp
      qed
      then show ?thesis by auto
    qed
    have "types_ok ?f = types_ok ?e" by (simp add: types_ok_def S)
    moreover have "tables ?e S' P' \<Longrightarrow> tables ?f S' P'" for S' P' by (simp add: tables_def maps_ok_def)
    moreover have "nb_id (np_base n') = k'" if "om_get (rp_nodes ?f) k' = Some n'" for k' n'
      using that base_okD(4) [OF e1(1)] unfolding nd(1) by (auto split: if_splits)
    ultimately have "base_ok ?f" using base_okD(1-3) [OF e1(1)] unfolding base_ok_def s S P by simp
    moreover have "socks_ok ?f"
    proof (rule socks_okI)
      fix s' k' assume a: "om_get (rp_conns ?f) s' = Some k'" "k' \<noteq> 0"
      then obtain n' where "om_get (rp_nodes ?e) k' = Some n'" "np_socket n' = s'" using socks_okD(2) [OF se] by auto
      then show "\<exists>n. om_get (rp_nodes ?f) k' = Some n \<and> np_socket n = s'" unfolding nd(1) using nd(2) by auto
    qed (use nd socks_okD(1,3) [OF se] in \<open>auto split: if_splits\<close>)
    ultimately show ?thesis by (simp add: proxy_ok_def)
  qed
  have "same_view ?r ?e" using r pe core_same [OF pe, of ?r] core_same [OF pf, of ?r] kf by auto
  then show ?thesis using ke e1(4) True by (simp add: known_nodes_def)
qed

subsection \<open>What the master says\<close>

lemma fold_del:
  "proxy_ok rp \<Longrightarrow> \<exists>rp'. fold (\<lambda>k r. Option.bind r (delNodeProxyInfo k)) ks (Some rp) = Some rp' \<and> proxy_ok rp' \<and>
     rp_local rp' = rp_local rp \<and> known_nodes rp' = (\<lambda>k. if k \<in> set ks then None else known_nodes rp k)"
proof (induction ks arbitrary: rp)
  case (Cons k ks)
  obtain rp1 where 1: "delNodeProxyInfo k rp = Some rp1" "proxy_ok rp1" "known_nodes rp1 = (known_nodes rp)(k := None)"
    "rp_local rp1 = rp_local rp" by (rule delNodeProxyInfo_ok [OF Cons.prems])
  with Cons.IH [OF 1(2)] show ?case by (auto simp: fun_eq_iff)
qed auto

definition add_entry :: "nat set \<Rightarrow> nat \<times> node_info \<Rightarrow> reg_proxy \<Rightarrow> reg_proxy" where
  "add_entry X = (\<lambda>(k, i) rp. if om_get (rp_nodes rp) k \<noteq> None then rp
     else addNodeProxyInfo (ni_base i) (ni_services i) (nb_id (ni_base i) \<in> X) rp)"

lemma add_entry_ok: "proxy_ok rp \<Longrightarrow> proxy_ok (add_entry X e rp) \<and> rp_local (add_entry X e rp) = rp_local rp"
  using addNodeProxyInfo_ok by (cases e) (simp add: add_entry_def)

lemma add_entries_ok: "proxy_ok rp \<Longrightarrow> proxy_ok (fold (add_entry X) es rp) \<and> rp_local (fold (add_entry X) es rp) = rp_local rp"
proof (induction es arbitrary: rp)
  case (Cons e es)
  from Cons.IH [of "add_entry X e rp"] add_entry_ok [OF Cons.prems, of X e] show ?case by simp
qed simp

lemma view_add_ok: "om_ok v \<Longrightarrow> om_ok (view_add k i v)"
  by (simp add: view_add_def)

lemma view_add_keeps:
  "om_ok v \<Longrightarrow> om_get v k = Some i \<Longrightarrow> om_get (fold (\<lambda>(k, i). view_add k i) es v) k = Some i"
proof (induction es arbitrary: v)
  case (Cons e es)
  obtain k' i' where e: "e = (k', i')" by fastforce
  have "om_get (view_add k' i' v) k = Some i" using Cons.prems by (simp add: view_add_get) auto
  from Cons.IH [OF view_add_ok [OF Cons.prems(1)] this] show ?case by (simp add: e)
qed simp

lemma unknown_add:
  assumes ok: "proxy_ok rp" and k: "known_nodes rp k = None" and c: "consistent (rp_local rp) ((known_nodes rp)(k \<mapsto> i))"
  shows "known_nodes (addNodeProxyInfo (ni_base i) (ni_services i) x rp) = (known_nodes rp)(k \<mapsto> i)"
proof -
  have b: "base_ok rp" using ok by (simp add: proxy_ok_def)
  have id: "nb_id (ni_base i) = k" using c by (simp add: consistent_def)
  have "\<not> list_ex (\<lambda>s. known s rp) (ni_services i)"
    using unknown_service [OF b c k] by (auto simp: list_ex_iff)
  then show ?thesis using addNodeProxyInfo_ok [OF ok, of "ni_base i" "ni_services i" x] k id by (cases i) simp
qed

lemma add_entries_view:
  "proxy_ok rp \<Longrightarrow> om_ok v \<Longrightarrow> known_nodes rp = om_get v \<Longrightarrow>
     consistent (rp_local rp) (om_get (fold (\<lambda>(k, i). view_add k i) es v)) \<Longrightarrow>
     known_nodes (fold (add_entry X) es rp) = om_get (fold (\<lambda>(k, i). view_add k i) es v)"
proof (induction es arbitrary: rp v)
  case (Cons e es)
  obtain k i where e: "e = (k, i)" by fastforce
  have m: "om_ok (view_add k i v)" by (rule view_add_ok [OF Cons.prems(2)])
  note a = add_entry_ok [OF Cons.prems(1), of X e]
  have c: "consistent (rp_local rp) (om_get (fold (\<lambda>(k, i). view_add k i) es (view_add k i v)))"
    using Cons.prems(4) by (simp add: e)
  have "known_nodes (add_entry X e rp) = om_get (view_add k i v)"
  proof (cases "om_get v k")
    case None
    then have n: "known_nodes rp k = None" using Cons.prems(3) by simp
    then have n2: "om_get (rp_nodes rp) k = None" by (simp add: known_nodes_def)
    have g: "om_get (view_add k i v) = (known_nodes rp)(k \<mapsto> i)"
      using None Cons.prems(2,3) by (auto simp: view_add_get fun_eq_iff)
    have "consistent (rp_local rp) (om_get (view_add k i v))"
      by (rule consistent_sub [OF c]) (rule view_add_keeps [OF m])
    then show ?thesis using unknown_add [OF Cons.prems(1) n, of i] n2 unfolding g by (simp add: e add_entry_def)
  next
    case (Some j)
    then have "known_nodes rp k \<noteq> None" using Cons.prems(3) by simp
    then have "om_get (rp_nodes rp) k \<noteq> None" by (simp add: known_nodes_def)
    then show ?thesis using Some Cons.prems(2,3) by (auto simp: e add_entry_def view_add_get fun_eq_iff)
  qed
  from Cons.IH [OF _ m this] a c show ?case by (simp add: e)
qed simp

lemma setNode_eq:
  "setNodeProxyInfo m X rp = map_option (fold (add_entry X) m)
     (fold (\<lambda>k r. Option.bind r (delNodeProxyInfo k)) (filter (\<lambda>k. om_get m k = None) (map fst (rp_nodes rp))) (Some rp))"
  by (simp add: setNodeProxyInfo_def add_entry_def)

lemma master_says_ok:
  assumes ok: "proxy_ok rp"
  shows "\<exists>rp'. master_says m rp = Some rp' \<and> proxy_ok rp' \<and> rp_local rp' = rp_local rp"
proof (cases m)
  case (SyncAll a)
  show ?thesis using fold_del [OF ok] add_entries_ok SyncAll by (fastforce simp: setNode_eq)
next
  case (SyncNode a)
  then show ?thesis using addNodeProxyInfo_ok [OF ok] by simp
next
  case (RemoveNode k)
  then show ?thesis using delNodeProxyInfo_ok [OF ok, of k] by auto
qed

lemma om_ok_filter: "om_ok v \<Longrightarrow> om_ok (filter (\<lambda>(k, _). P k) v)"
  by (induction v) (auto simp: om_ok_Cons)

lemma om_get_filter: "om_get (filter (\<lambda>(k, _). P k) v) = (\<lambda>k. if P k then om_get v k else None)"
  by (induction v) (auto simp: fun_eq_iff)

lemma master_says_view:
  assumes ok: "proxy_ok rp" and v: "om_ok v" "known_nodes rp = om_get v"
    and c: "consistent (rp_local rp) (om_get (view_step m v))" and says: "master_says m rp = Some rp'"
  shows "known_nodes rp' = om_get (view_step m v)"
proof (cases m)
  case (RemoveNode k)
  then show ?thesis using delNodeProxyInfo_ok [OF ok, of k] says v by auto
next
  case (SyncNode a)
  let ?i = "\<lparr>ni_base = sn_node a, ni_services = sn_services a\<rparr>" and ?k = "nb_id (sn_node a)"
  have rp': "rp' = addNodeProxyInfo (sn_node a) (sn_services a) (sn_exclude a \<noteq> 0) rp" using says SyncNode by simp
  have g: "om_get (view_step m v) = (\<lambda>k'. if k' = ?k \<and> om_get v ?k = None then Some ?i else om_get v k')"
    using SyncNode v(1) by (simp add: view_add_get)
  show ?thesis
  proof (cases "om_get v ?k")
    case None
    then have n: "known_nodes rp ?k = None" using v(2) by simp
    have g': "om_get (view_step m v) = (known_nodes rp)(?k \<mapsto> ?i)" unfolding g using None v(2) by (auto simp: fun_eq_iff)
    show ?thesis using unknown_add [OF ok n, of ?i "sn_exclude a \<noteq> 0"] c unfolding g' rp' by simp
  next
    case (Some i)
    then show ?thesis using addNodeProxyInfo_ok [OF ok, of "sn_node a" "sn_services a" "sn_exclude a \<noteq> 0"] v(2)
      unfolding g rp' by (auto simp: fun_eq_iff)
  qed
next
  case (SyncAll a)
  let ?ks = "filter (\<lambda>k. om_get (sa_nodes a) k = None) (map fst (rp_nodes rp))"
  let ?w = "filter (\<lambda>(k, _). om_get (sa_nodes a) k \<noteq> None) v"
  obtain rp1 where 1: "fold (\<lambda>k r. Option.bind r (delNodeProxyInfo k)) ?ks (Some rp) = Some rp1" "proxy_ok rp1"
    "rp_local rp1 = rp_local rp" "known_nodes rp1 = (\<lambda>k. if k \<in> set ?ks then None else known_nodes rp k)"
    using fold_del [OF ok] by blast
  have m: "om_ok (rp_nodes rp)" using maps_of_base ok by (auto simp: proxy_ok_def)
  have "known_nodes rp k = None" if "k \<notin> fst ` set (rp_nodes rp)" for k
    using that by (simp add: known_nodes_def map_of_eq_None_iff)
  then have "known_nodes rp1 = om_get ?w" unfolding 1(4) om_get_filter v(2) by (auto simp: fun_eq_iff)
  from add_entries_view [OF 1(2) om_ok_filter [OF v(1)] this, of "sa_nodes a" "sa_exclude a"] c 1 says SyncAll
  show ?thesis by (auto simp: setNode_eq)
qed

subsection \<open>Histories\<close>

lemma rp_init_ok:
  "proxy_ok (rp_init self local wanted masters) \<and> known_nodes (rp_init self local wanted masters) = (\<lambda>_. None) \<and>
     rp_local (rp_init self local wanted masters) = local"
proof -
  define m0 where "m0 = fold (\<lambda>(i, h, p). om_put i \<lparr>mi_host = h, mi_port = p, mi_active = False, mi_connected = False\<rparr>) masters []"
  define r0 where "r0 = \<lparr>lp_services = [], lp_ids = [], lp_nameToID = [], lp_idToName = [], rp_self = self, rp_local = local,
     rp_wantNames = fst ` set (filter (\<lambda>(n, _). n \<noteq> [42]) wanted),
     rp_wantTypes = snd ` set (filter (\<lambda>(n, _). n = [42]) wanted),
     rp_nodes = [], rp_masters = m0, rp_conns = [], rp_out = [], rp_net = []\<rparr>"
  let ?r1 = "fold enter_ids local r0" and ?r = "rp_init self local wanted masters"
  have r: "?r = updateActiveServiceID (types_of local) ?r1" by (simp add: rp_init_def r0_def m0_def Let_def)
  have "tables r0 {} {}" by (simp add: tables_def maps_ok_def r0_def covers_def name_pairs_def id_pairs_def)
  note e = enter_all_ids [OF this, of local]
  have i0: "si_all (ids_at r0 t) = {}" "si_active (ids_at r0 t) = {}" "si_vec (ids_at r0 t) = []" for t
    by (simp_all add: r0_def om_at_def no_ids_def)
  have "om_ok (lp_ids ?r1)" using e by (simp add: tables_def maps_ok_def)
  note u = update_active [OF finite_types this, of local, folded r]
  have rest: "rest ?r = rest r0" using u(4) e by simp
  have f: "rp_nodes ?r = []" "rp_conns ?r = []" "rp_local ?r = local" using restD(1-3) [OF rest] by (simp_all add: r0_def)
  have sv: "lp_services ?r = []" using u(1) e by (simp add: r0_def)
  have so: "services_of ?r w = (if w = None then set local else {})" for w
    using f by (cases w) (simp_all add: services_of_def)
  have S: "all_services ?r = set local" unfolding all_services_def so by auto
  have P: "proxies ?r = {}" by (simp add: proxies_def f)
  have "tables ?r1 (set local) {}" using e by simp
  then have T: "tables ?r (set local) {}" using u(1-5) e by (intro tables_rest [of ?r ?r1]) simp_all
  have "si_all (ids_at ?r t) = ids_of_type t (set local) \<and> si_active (ids_at ?r t) = ids_of_type t (set local) \<and>
     si_vec (ids_at ?r t) = sorted_list_of_set (si_active (ids_at ?r t))" for t
    using e u(6) [of t] ids_of_type_empty [of t local] by (cases "t \<in> types_of local") (simp_all add: i0)
  then have "types_ok ?r" unfolding types_ok_def S f sv by simp
  then have "base_ok ?r" using T f by (simp add: base_ok_def S P separate_def so)
  moreover have "socks_ok ?r" by (simp add: socks_ok_def f)
  ultimately show ?thesis using f by (simp add: proxy_ok_def known_nodes_def fun_eq_iff)
qed

text \<open>
  What else happens at a node: sockets are opened and closed, handshakes arrive, connections to
  masters come and go. A handshake names a node other than 0, and the answer comes once.
\<close>

definition handshake_ok :: "nat \<Rightarrow> nat \<Rightarrow> u8 list \<Rightarrow> reg_proxy \<Rightarrow> bool" where
  "handshake_ok nSocketID nMessageType d rp \<longleftrightarrow>
     (nMessageType = MT_SYSTEM \<and> length d > message_header_size \<and> field 2 4 d = SMT_handshake_request \<longrightarrow>
        unpack_handshake_request 0 d \<noteq> 0) \<and>
     (nMessageType = MT_SYSTEM \<and> length d > message_header_size \<and> field 2 4 d = SMT_handshake_response \<longrightarrow>
        unpack_handshake_response 0 d \<noteq> 0 \<and> om_get (rp_conns rp) nSocketID = Some 0)"

inductive conn_step :: "reg_proxy \<Rightarrow> reg_proxy \<Rightarrow> bool" where
  opened: "s \<noteq> 0 \<Longrightarrow> om_get (rp_conns rp) s = None \<Longrightarrow> conn_step rp (on_onConnect i s rp)"
| packet: "handshake_ok s t d rp \<Longrightarrow> conn_step rp (on_onDispatch s t d rp)"
| closed: "conn_step rp (on_onDisconnect s rp)"
| retry: "om_get (rp_nodes rp) k = Some n \<Longrightarrow> np_connecting n \<Longrightarrow> conn_step rp (retry_connect k rp)"
| master_comes: "conn_step rp (snd (addBaseConnectionToMaster m rp))"
| master_goes: "conn_step rp (delBaseConnectionToMaster m rp)"
| master_refuses: "conn_step rp (onConnectRefuse m rp)"
| master_check: "conn_step rp (onCheckConnectMaster rp)"

inductive proxy_run :: "reg_proxy \<Rightarrow> sys_msg list \<Rightarrow> reg_proxy \<Rightarrow> bool" where
  start: "proxy_run rp0 [] rp0"
| message: "proxy_run rp0 ms rp \<Longrightarrow> master_says m rp = Some rp' \<Longrightarrow> proxy_run rp0 (ms @ [m]) rp'"
| event: "proxy_run rp0 ms rp \<Longrightarrow> conn_step rp rp' \<Longrightarrow> proxy_run rp0 ms rp'"

lemma master_core [simp]:
  "core (snd (addBaseConnectionToMaster m rp)) = core rp" "core (delBaseConnectionToMaster m rp) = core rp"
  "core (onConnectRefuse m rp) = core rp" "core (check_master m rp) = core rp" "core (retry_connect k rp) = core rp"
  by (auto simp: retry_connect_def addBaseConnectionToMaster_def delBaseConnectionToMaster_def onConnectRefuse_def check_master_def
      core_def net_send_def split: option.split)

lemma check_core [simp]: "core (onCheckConnectMaster rp) = core rp"
  unfolding onCheckConnectMaster_def by (rule fold_keeps [where sel = core]) simp

lemma conn_step_ok: "conn_step rp rp' \<Longrightarrow> proxy_ok rp \<Longrightarrow> same_view rp' rp"
proof (induction rule: conn_step.induct)
  case (opened s rp i)
  then show ?case by (intro on_onConnect_ok)
next
  case (packet s t d rp)
  show ?case
  proof (cases "t = MT_SYSTEM \<and> length d > message_header_size")
    case False
    then have "on_onDispatch s t d rp = rp" by (auto simp: on_onDispatch_def)
    then show ?thesis using packet(2) by simp
  next
    case True
    then have d: "on_onDispatch s t d rp =
        (if field 2 4 d = SMT_handshake_request then on_request s (unpack_handshake_request 0 d) rp
         else if field 2 4 d = SMT_handshake_response then on_response s (unpack_handshake_response 0 d) rp else rp)"
      by (simp add: on_onDispatch_def)
    show ?thesis unfolding d
      using True packet(1) on_request_ok [OF packet(2)] on_response_ok [OF packet(2)] packet(2)
      by (simp add: handshake_ok_def)
  qed
next
  case (closed rp s)
  then show ?case by (rule on_onDisconnect_ok)
qed (erule core_same, simp)+

lemma run_ok: "proxy_run rp0 ms rp \<Longrightarrow> proxy_ok rp0 \<Longrightarrow> proxy_ok rp \<and> rp_local rp = rp_local rp0"
proof (induction rule: proxy_run.induct)
  case (message rp0 ms rp m rp')
  then show ?case using master_says_ok [of rp m] by auto
next
  case (event rp0 ms rp rp')
  then show ?case using conn_step_ok [OF event(2)] by simp
qed simp

lemma view_steps_ok: "om_ok v \<Longrightarrow> om_ok (view_step m v)"
proof (cases m)
  case (SyncAll a)
  assume "om_ok v"
  then have "om_ok (filter (\<lambda>(k, _). om_get (sa_nodes a) k \<noteq> None) v)" by (rule om_ok_filter)
  then show ?thesis using SyncAll view_add_ok by (auto intro!: fold_invariant [where P = om_ok] split: prod.splits)
qed (simp_all add: view_add_ok)

lemma run_view:
  "proxy_run rp0 ms rp \<Longrightarrow> proxy_ok rp0 \<Longrightarrow> known_nodes rp0 = (\<lambda>_. None) \<Longrightarrow>
     (\<And>p q. ms = p @ q \<Longrightarrow> p \<noteq> [] \<Longrightarrow> consistent (rp_local rp0) (om_get (fold view_step p []))) \<Longrightarrow>
     known_nodes rp = om_get (fold view_step ms [])"
proof (induction rule: proxy_run.induct)
  case (start rp0)
  then show ?case by (simp add: fun_eq_iff)
next
  case (message rp0 ms rp m rp')
  have c: "consistent (rp_local rp0) (om_get (fold view_step p []))" if "ms = p @ q" "p \<noteq> []" for p q
    using message(6) [of p "q @ [m]"] that by simp
  note k = message(3) [OF message(4,5) c]
  note r = run_ok [OF message(1,4)]
  have "om_ok (fold view_step ms [])" by (rule fold_invariant [where P = om_ok]) (simp_all add: view_steps_ok)
  moreover have "consistent (rp_local rp0) (om_get (fold view_step (ms @ [m]) []))" using message(6) [of "ms @ [m]" "[]"] by simp
  ultimately show ?case using master_says_view [OF _ _ k _ message(2)] r by simp
next
  case (event rp0 ms rp rp')
  note r = run_ok [OF event(1,4)] and k = event(3) [OF event(4-6)]
  from conn_step_ok [OF event(2)] r k show ?case by simp
qed

end
