(* ===== verification/Proxy_Props.thy ===== *)
theory Proxy_Props imports Proxy_Run begin

text \<open>
  The master of \<open>Service_Registry\<close> and the proxies of the nodes it serves, put together; what the
  services of a node find in its tables; the selectors of \<open>hash_service_selector.cpp\<close>,
  \<open>random_service_selector.cpp\<close> and \<open>round_robin_service_selector.cpp\<close>.
\<close>

subsection \<open>The messages of the master are consistent at every point\<close>

lemma view_consistent:
  assumes reach: "reg_reach r" and n: "om_get (sr_nodes r) k = Some n" "rn_socket n \<noteq> 0"
  shows "consistent (rn_services n) (om_get (view (rn_socket n) r))"
proof -
  note ok = reg_okD [OF reg_reach_ok [OF reach]]
  let ?f = "\<lambda>k'. if k' = k then None else map_option info_of (om_get (sr_nodes r) k')"
  have v: "om_get (view (rn_socket n) r) = ?f" by (rule views_okD(3) [OF reg_reach_views [OF reach] n])
  define own where "own w = (case w of None \<Rightarrow> k | Some k' \<Rightarrow> k')" for w
  have at: "\<exists>n'. om_get (sr_nodes r) (own w) = Some n' \<and> s \<in> set (rn_services n') \<and> (own w = k \<longrightarrow> w = None)"
    if "s \<in> owners (rn_services n) ?f w" for s w
    using that n(1) by (auto simp: owners_def own_def info_of_def split: option.splits if_splits)
  have "w = w'" if s: "s \<in> owners (rn_services n) ?f w" "s' \<in> owners (rn_services n) ?f w'"
    and e: "sb_id s = sb_id s' \<or> sb_name s = sb_name s'" for w w' s s'
  proof -
    obtain a where a: "om_get (sr_nodes r) (own w) = Some a" "s \<in> set (rn_services a)" "own w = k \<longrightarrow> w = None"
      using at [OF s(1)] by blast
    obtain b where b: "om_get (sr_nodes r) (own w') = Some b" "s' \<in> set (rn_services b)" "own w' = k \<longrightarrow> w' = None"
      using at [OF s(2)] by blast
    have "own w = own w'"
    proof (rule ccontr)
      assume d: "own w \<noteq> own w'"
      have "sb_id s \<noteq> sb_id s'" using ok(5) [OF a(1) b(1) d] a(2) b(2) by (auto simp: ids_of_def)
      moreover have "sb_name s \<noteq> sb_name s'"
      proof
        assume x: "sb_name s = sb_name s'"
        have "om_get (sr_serviceName r) (sb_name s) = Some (own w)" "om_get (sr_serviceName r) (sb_name s) = Some (own w')"
          unfolding ok(3) names_of_def using a(1,2) b(1,2) x by (metis image_eqI)+
        with d show False by simp
      qed
      ultimately show False using e by simp
    qed
    then show ?thesis using a(3) b(3) by (cases w; cases w') (auto simp: own_def)
  qed
  moreover have "nb_id (ni_base i) = k'" if "?f k' = Some i" for k' i
    using that ok(2) by (auto simp: info_of_def split: if_splits)
  ultimately show ?thesis unfolding v consistent_def separate_def by blast
qed

text \<open>One step of the master sends at most one message to a connection.\<close>

definition extends :: "registry \<Rightarrow> registry \<Rightarrow> bool" where
  "extends r r' \<longleftrightarrow> (\<forall>k n'. om_get (sr_nodes r') k = Some n' \<and> rn_socket n' \<noteq> 0 \<longrightarrow>
     (\<exists>m. msgs_to (rn_socket n') r' = [m]) \<or>
     (\<exists>n ms. om_get (sr_nodes r) k = Some n \<and> rn_socket n = rn_socket n' \<and> rn_services n = rn_services n' \<and>
        length ms \<le> 1 \<and> msgs_to (rn_socket n') r' = msgs_to (rn_socket n') r @ ms))"

lemma extendsI:
  assumes "\<And>k n'. om_get (sr_nodes r') k = Some n' \<Longrightarrow> rn_socket n' \<noteq> 0 \<Longrightarrow>
     (\<exists>m. msgs_to (rn_socket n') r' = [m]) \<or>
     (\<exists>n ms. om_get (sr_nodes r) k = Some n \<and> rn_socket n = rn_socket n' \<and> rn_services n = rn_services n' \<and>
        length ms \<le> 1 \<and> msgs_to (rn_socket n') r' = msgs_to (rn_socket n') r @ ms)"
  shows "extends r r'"
  using assms unfolding extends_def by blast

lemma admit_extends:
  assumes ok: "reg_ok r" and v: "views_ok r" and s: "s \<noteq> 0" "s \<notin> fst ` set (sr_sent r)"
    and n: "rn_base n = base" "rn_socket n = s"
  shows "extends r (admit s base services n r)"
proof (rule extendsI)
  let ?k = "nb_id base" and ?r = "admit s base services n r"
  fix k n' assume a: "om_get (sr_nodes ?r) k = Some n'" "rn_socket n' \<noteq> 0"
  have oko: "om_ok (sr_nodes r)" using reg_okD(1) [OF ok] by (simp add: indexes_ok_def)
  obtain x g where sent: "sr_sent ?r = sr_sent r @ (s, SyncAll x) #
      map (\<lambda>p. (rn_socket p, SyncNode (g p))) (listeners ?k r)" using admit_sent [OF ok n(1)] by blast
  have nodes: "om_get (sr_nodes ?r) = (om_get (sr_nodes r))(?k \<mapsto> n)"
    using admit_index(2) [OF reg_okD(1) [OF ok]] oko by simp
  show "(\<exists>m. msgs_to (rn_socket n') ?r = [m]) \<or>
     (\<exists>n ms. om_get (sr_nodes r) k = Some n \<and> rn_socket n = rn_socket n' \<and> rn_services n = rn_services n' \<and>
        length ms \<le> 1 \<and> msgs_to (rn_socket n') ?r = msgs_to (rn_socket n') r @ ms)"
  proof (cases "k = ?k")
    case True
    then have n': "n' = n" using a nodes by simp
    have "s \<notin> rn_socket ` set (listeners ?k r)" using listener_socket [OF oko v] s(2) by blast
    then have "map snd (filter (\<lambda>(s', _). s' = s)
        (map (\<lambda>p. (rn_socket p, SyncNode (g p))) (listeners ?k r))) = []" by (rule filter_nobody)
    then have "msgs_to s ?r = [SyncAll x]"
      using msgs_to_send [OF sent, of s] msgs_to_Nil [OF s(2)] by (simp del: filter_map)
    then show ?thesis using n' n(2) by simp
  next
    case False
    then have p: "om_get (sr_nodes r) k = Some n'" using a nodes by simp
    have "rn_socket n' \<noteq> s" using views_okD(1) [OF v p a(2)] s(2) by auto
    moreover have "map snd (filter (\<lambda>(s', _). s' = rn_socket n')
        (map (\<lambda>p. (rn_socket p, SyncNode (g p))) (listeners ?k r))) = [SyncNode (g n')]"
      using filter_unique [OF listeners_distinct [OF oko v] listener [OF oko p False a(2)] refl] by simp
    ultimately have "msgs_to (rn_socket n') ?r = msgs_to (rn_socket n') r @ [SyncNode (g n')]"
      using msgs_to_send [OF sent] by auto
    then show ?thesis using p by (intro disjI2 exI [of _ n'] exI [of _ "[SyncNode (g n')]"]) simp
  qed
qed

lemma delNode_extends:
  assumes ok: "reg_ok r" and v: "views_ok r"
  shows "extends r (delNode k r)"
proof (rule extendsI)
  fix k' p assume a: "om_get (sr_nodes (delNode k r)) k' = Some p" "rn_socket p \<noteq> 0"
  let ?r = "delNode k r"
  show "(\<exists>m. msgs_to (rn_socket p) ?r = [m]) \<or>
     (\<exists>n ms. om_get (sr_nodes r) k' = Some n \<and> rn_socket n = rn_socket p \<and> rn_services n = rn_services p \<and>
        length ms \<le> 1 \<and> msgs_to (rn_socket p) ?r = msgs_to (rn_socket p) r @ ms)"
  proof (cases "om_get (sr_nodes r) k")
    case None
    then have "?r = r" by (simp add: delNode_def)
    then show ?thesis using a by (intro disjI2 exI [of _ p] exI [of _ "[]"]) simp
  next
    case (Some n)
    have oko: "om_ok (sr_nodes r)" using reg_okD(1) [OF ok] by (simp add: indexes_ok_def)
    have sent: "sr_sent ?r = sr_sent r @ map (\<lambda>p. (rn_socket p, RemoveNode k)) (listeners k r)"
      using Some leave_all(2,3) [OF reg_okD(1) [OF ok], of "rn_services n"]
      by (simp add: delNode_def Let_def send_all(1))
    have p: "om_get (sr_nodes r) k' = Some p" "k' \<noteq> k" using a(1) delNode_index(2) [OF ok Some] by (auto split: if_splits)
    have "msgs_to (rn_socket p) ?r = msgs_to (rn_socket p) r @ [RemoveNode k]"
      using msgs_to_send [OF sent] filter_unique [OF listeners_distinct [OF oko v] listener [OF oko p a(2)] refl, of "\<lambda>_. RemoveNode k"]
      by simp
    then show ?thesis using p by (intro disjI2 exI [of _ p] exI [of _ "[RemoveNode k]"]) simp
  qed
qed

lemma disconnectNode_extends:
  assumes ok: "reg_ok r"
  shows "extends r (disconnectNode k r)"
proof (rule extendsI)
  fix k' p assume a: "om_get (sr_nodes (disconnectNode k r)) k' = Some p" "rn_socket p \<noteq> 0"
  have oko: "om_ok (sr_nodes r)" using reg_okD(1) [OF ok] by (simp add: indexes_ok_def)
  have "om_get (sr_nodes r) k' = Some p \<and> sr_sent (disconnectNode k r) = sr_sent r"
  proof (cases "om_get (sr_nodes r) k")
    case None
    then show ?thesis using a by (simp add: disconnectNode_def)
  next
    case (Some n)
    then show ?thesis using a disconnectNode_nodes [OF Some oko] by (auto split: if_splits)
  qed
  then show "(\<exists>m. msgs_to (rn_socket p) (disconnectNode k r) = [m]) \<or>
     (\<exists>n ms. om_get (sr_nodes r) k' = Some n \<and> rn_socket n = rn_socket p \<and> rn_services n = rn_services p \<and>
        length ms \<le> 1 \<and> msgs_to (rn_socket p) (disconnectNode k r) = msgs_to (rn_socket p) r @ ms)"
    by (intro disjI2 exI [of _ p] exI [of _ "[]"]) (simp add: msgs_to_def)
qed

definition steady :: "registry \<Rightarrow> bool" where
  "steady r \<longleftrightarrow> (\<forall>k n p q. om_get (sr_nodes r) k = Some n \<and> rn_socket n \<noteq> 0 \<and>
     msgs_to (rn_socket n) r = p @ q \<and> p \<noteq> [] \<longrightarrow> consistent (rn_services n) (om_get (fold view_step p [])))"

lemma steady_step:
  assumes st: "steady r" and reach: "reg_reach r'" and ext: "extends r r'"
  shows "steady r'"
  unfolding steady_def
proof (intro allI impI, elim conjE)
  fix k n' p q assume a: "om_get (sr_nodes r') k = Some n'" "rn_socket n' \<noteq> 0" "msgs_to (rn_socket n') r' = p @ q" "p \<noteq> []"
  show "consistent (rn_services n') (om_get (fold view_step p []))"
  proof (cases "q = []")
    case True
    then show ?thesis using view_consistent [OF reach a(1,2)] a(3) by (simp add: view_def)
  next
    case False
    then have "\<nexists>m. msgs_to (rn_socket n') r' = [m]" using a(3,4) by (auto simp: append_eq_Cons_conv)
    then obtain n ms where n: "om_get (sr_nodes r) k = Some n" "rn_socket n = rn_socket n'" "rn_services n = rn_services n'"
      "length ms \<le> 1" "msgs_to (rn_socket n') r' = msgs_to (rn_socket n') r @ ms" using ext a(1,2) unfolding extends_def by blast
    have "\<exists>q'. msgs_to (rn_socket n') r = p @ q'"
    proof (cases ms)
      case (Cons m l)
      then have "ms = [m]" using n(4) by simp
      moreover obtain q0 y where "q = q0 @ [y]" using False by (metis rev_exhaust)
      ultimately have "msgs_to (rn_socket n') r = p @ q0" using n(5) a(3) by simp
      then show ?thesis ..
    next
      case Nil
      then show ?thesis using n(5) a(3) by (intro exI [of _ q]) simp
    qed
    then show ?thesis using st n(1-3) a(2,4) unfolding steady_def by metis
  qed
qed

lemma reg_reach_steady: "reg_reach r \<Longrightarrow> steady r"
proof (induction rule: reg_reach.induct)
  case start
  then show ?case by (simp add: steady_def reg_new_def)
next
  case (add r s base services names types)
  note r' = reg_reach.add [OF add(1-4)]
  show ?case
  proof (cases rule: addNode_cases [of s base services names types r])
    case refused
    then show ?thesis using add.IH by simp
  next
    case (returning n)
    show ?thesis
    proof (rule steady_step [OF add.IH r'])
      show "extends r (snd (addNode s base services names types r))"
        using returning add(4) [OF returning(1)]
        by (auto intro!: admit_extends [OF reg_reach_ok [OF add(1)] reg_reach_views [OF add(1)] add(2,3)])
    qed simp
  next
    case fresh
    show ?thesis
    proof (rule steady_step [OF add.IH r'])
      show "extends r (snd (addNode s base services names types r))"
        using fresh by (auto intro!: admit_extends [OF reg_reach_ok [OF add(1)] reg_reach_views [OF add(1)] add(2,3)])
    qed simp
  qed
next
  case (del r k)
  then show ?case
    by (intro steady_step [OF _ reg_reach.del delNode_extends] reg_reach_ok reg_reach_views)
next
  case (disconnect r k)
  then show ?case
    by (intro steady_step [OF _ reg_reach.disconnect disconnectNode_extends] reg_reach_ok)
qed


text \<open>
  the null pointer that \<open>delNodeProxyInfo\<close> would dereference never is one. In every state that
  any messages and connection events can bring the proxy to, the next message of the master is
  handled: the connection of a node that has one is there.
\<close>

theorem proxy_never_stuck:
  assumes "proxy_run (rp_init self local wanted masters) ms rp"
  shows "\<exists>rp'. master_says m rp = Some rp'"
  using run_ok [OF assms] rp_init_ok [of self local wanted masters] master_says_ok [of rp m] by blast

subsection \<open>What the services of a node find\<close>

lemma run_base:
  assumes "proxy_run (rp_init self local wanted masters) ms rp"
  shows "base_ok rp" and "rp_local rp = local" and "socks_ok rp"
  using run_ok [OF assms] rp_init_ok [of self local wanted masters] by (simp_all add: proxy_ok_def)

lemma finite_all: "finite (all_services rp)"
proof -
  have "all_services rp \<subseteq> set (rp_local rp) \<union> (\<Union>n \<in> snd ` set (rp_nodes rp). set (np_services n))"
    by (auto simp: mem_all_services) (metis map_of_SomeD snd_conv image_eqI)
  then show ?thesis by (rule finite_subset) simp
qed

lemma active_vec:
  assumes ok: "base_ok rp"
  shows "set (si_vec (ids_at rp t)) = si_active (ids_at rp t)" and "sorted (si_vec (ids_at rp t))"
    and "distinct (si_vec (ids_at rp t))"
proof -
  note ty = base_okD(3) [OF ok, unfolded types_ok_def]
  have "finite (ids_of_type t (all_services rp))" using finite_all by (simp add: ids_of_type_def)
  then have "finite (si_active (ids_at rp t))" using ty by (metis finite_subset)
  moreover have "si_vec (ids_at rp t) = sorted_list_of_set (si_active (ids_at rp t))" using ty by blast
  ultimately show "set (si_vec (ids_at rp t)) = si_active (ids_at rp t)" "sorted (si_vec (ids_at rp t))"
    "distinct (si_vec (ids_at rp t))" by simp_all
qed

text \<open>
  C16: at every point of every run, the lookups of the copy the services get answer for a service
  \<open>s\<close> of a known node \<open>n\<close>: its name gives the id of a service of that node with that name; its id is
  valid and gives a description from that node and the socket of that node; and when the node is
  connected the id is among the active ones of its type.
\<close>

theorem services_resolve:
  assumes "proxy_run (rp_init self local wanted masters) ms rp"
    and "om_get (rp_nodes rp) k = Some n" and "s \<in> set (np_services n)"
  shows "(\<exists>s' \<in> set (np_services n). sb_name s' = sb_name s \<and>
       getServiceID (sb_name s) (fillLocalServiceRegistryProxy rp) = sb_id s') \<and>
     isValidService (sb_id s) (fillLocalServiceRegistryProxy rp) \<and>
     getOtherNodeSocketIDByServiceID (sb_id s) (fillLocalServiceRegistryProxy rp) = np_socket n \<and>
     (\<exists>s' \<in> set (np_services n). sb_id s' = sb_id s \<and>
       getServiceBaseInfoByServiceID (sb_id s) (fillLocalServiceRegistryProxy rp) = Some s' \<and>
       getServiceType own (sb_id s) (fillLocalServiceRegistryProxy rp) = sb_type s' \<and>
       (np_socket n \<noteq> 0 \<longrightarrow>
         sb_id s \<in> set (getActiveServiceIDByType (sb_type s') (fillLocalServiceRegistryProxy rp))))"
proof -
  note ok = run_base(1) [OF assms(1)]
  note b = base_okD [OF ok] and t = base_okD(1) [OF ok, unfolded tables_def]
  have mine: "x \<in> set (np_services n)" if "x \<in> all_services rp" "sb_id x = sb_id s \<or> sb_name x = sb_name s" for x
  proof -
    have "\<exists>w. x \<in> services_of rp w" using that(1) by (simp add: all_services_def)
    then obtain w where w: "x \<in> services_of rp w" by blast
    have "s \<in> services_of rp (Some k)" using assms(2,3) by (simp add: services_of_def)
    from separateD [OF b(2) w this that(2)] w assms(2) show ?thesis by (simp add: services_of_def)
  qed
  have s: "s \<in> all_services rp" using assms(2,3) by (auto simp: mem_all_services)
  have "om_get (lp_nameToID rp) (sb_name s) \<noteq> None"
    using covers_None [of "om_get (lp_nameToID rp)"] t s by (force simp: name_pairs_def)
  then obtain i where i: "om_get (lp_nameToID rp) (sb_name s) = Some i" by blast
  have "covers (om_get (lp_nameToID rp)) (name_pairs (all_services rp))" using t by simp
  from covers_get [OF this i] have "(sb_name s, i) \<in> name_pairs (all_services rp)" .
  then have name: "\<exists>s' \<in> set (np_services n). sb_name s' = sb_name s \<and> i = sb_id s'"
    using mine unfolding name_pairs_def by auto
  have valid: "om_get (lp_idToName rp) (sb_id s) \<noteq> None"
    using covers_None [of "om_get (lp_idToName rp)"] t s by (force simp: id_pairs_def)
  have "sb_id s \<in> fst ` proxies rp" using proxies_I [OF assms(2,3)] by force
  then have "om_get (lp_services rp) (sb_id s) \<noteq> None" using covers_None [OF tables_covers [OF b(1)]] by blast
  then obtain v where v: "om_get (lp_services rp) (sb_id s) = Some v" by blast
  obtain k' n' where n': "om_get (rp_nodes rp) k' = Some n'" "vp_base v \<in> set (np_services n')" "sb_id (vp_base v) = sb_id s"
    "vp_socket v = np_socket n'" using found_proxy [OF ok v] by metis
  have "vp_base v \<in> services_of rp (Some k')" "s \<in> services_of rp (Some k)"
    using n' assms(2,3) by (simp_all add: services_of_def)
  from separateD [OF b(2) this] n'(1,3) assms(2) have n: "n' = n" by simp
  have act: "np_socket n \<noteq> 0 \<longrightarrow> sb_id s \<in> si_active (ids_at rp (sb_type (vp_base v)))"
    using b(3) v n'(4) n unfolding types_ok_def by metis
  show ?thesis
    using name valid v n' n act i active_vec(1) [OF ok]
    by (auto simp: fillLocalServiceRegistryProxy_def getServiceID_def isValidService_def om_at_def
        getOtherNodeSocketIDByServiceID_def getServiceBaseInfoByServiceID_def getServiceType_def getActiveServiceIDByType_def)
qed

text \<open>
  the ids listed for a type are those of the node's own services and of the known nodes' services
  of that type, no more and no less; the active ones are some of them in ascending order, each
  once, with all the node's own among them; and only ids of such services are valid.
\<close>

theorem type_lists_exact:
  assumes "proxy_run (rp_init self local wanted masters) ms rp"
  shows "(\<forall>t. getServiceIDByType t (fillLocalServiceRegistryProxy rp) = ids_of_type t (all_services rp)) \<and>
     (\<forall>t. sorted (getActiveServiceIDByType t (fillLocalServiceRegistryProxy rp)) \<and>
        distinct (getActiveServiceIDByType t (fillLocalServiceRegistryProxy rp)) \<and>
        ids_of_type t (set local) \<subseteq> set (getActiveServiceIDByType t (fillLocalServiceRegistryProxy rp)) \<and>
        set (getActiveServiceIDByType t (fillLocalServiceRegistryProxy rp)) \<subseteq>
          getServiceIDByType t (fillLocalServiceRegistryProxy rp)) \<and>
     (\<forall>i. isValidService i (fillLocalServiceRegistryProxy rp) \<longleftrightarrow> i \<in> sb_id ` all_services rp)"
proof -
  note ok = run_base(1) [OF assms] and l = run_base(2) [OF assms]
  note ty = base_okD(3) [OF ok, unfolded types_ok_def] and act = active_vec [OF ok]
  have all: "getServiceIDByType t (fillLocalServiceRegistryProxy rp) = ids_of_type t (all_services rp)" for t
    using ty by (simp add: getServiceIDByType_def fillLocalServiceRegistryProxy_def)
  have vec: "getActiveServiceIDByType t (fillLocalServiceRegistryProxy rp) = si_vec (ids_at rp t)" for t
    by (simp add: getActiveServiceIDByType_def fillLocalServiceRegistryProxy_def)
  have ids: "ids_of_type t (set local) \<subseteq> si_active (ids_at rp t)" "si_active (ids_at rp t) \<subseteq> ids_of_type t (all_services rp)" for t
    using ty l by (metis, metis)
  have "isValidService i (fillLocalServiceRegistryProxy rp) \<longleftrightarrow> i \<in> sb_id ` all_services rp" for i
  proof -
    have "covers (om_get (lp_idToName rp)) (id_pairs (all_services rp))" using base_okD(1) [OF ok] by (simp add: tables_def)
    from covers_None [OF this, of i] show ?thesis
      by (simp add: isValidService_def fillLocalServiceRegistryProxy_def id_pairs_def image_image)
  qed
  then show ?thesis unfolding all vec act(1) using act(2,3) ids by simp
qed

subsection \<open>Selectors\<close>

text \<open>\<open>m\<close> selections of the round robin in a row, with the list unchanged.\<close>

fun robin_run :: "(nat \<Rightarrow> bool) \<Rightarrow> nat \<Rightarrow> u32 \<Rightarrow> nat list \<Rightarrow> nat list" where
  "robin_run healthy 0 nNext vec = []"
| "robin_run healthy (Suc m) nNext vec =
     (let (nServiceID, nNext') = select_robin healthy nNext vec in nServiceID # robin_run healthy m nNext' vec)"

lemma robin_healthy:
  assumes "\<forall>s \<in> set vec. healthy s" and "vec \<noteq> []"
  shows "select_robin healthy nNext vec = (vec ! (unat nNext mod length vec), nNext + 1)"
proof -
  have "healthy (vec ! (unat nNext mod length vec))" using assms by simp
  then show ?thesis using assms(2) robin_try.simps(2) [of healthy 9 nNext vec]
    by (simp add: select_robin_def eval_nat_numeral Let_def)
qed

lemma robin_run_healthy:
  assumes "\<forall>s \<in> set vec. healthy s" and "vec \<noteq> []"
  shows "unat nNext + m \<le> 2 ^ 32 \<Longrightarrow>
    robin_run healthy m nNext vec = map (\<lambda>i. vec ! ((unat nNext + i) mod length vec)) [0..<m]"
proof (induction m arbitrary: nNext)
  case (Suc m)
  have n: "unat (nNext + 1) = unat nNext + 1" if "m \<noteq> 0"
    using Suc.prems that by (simp add: unat_word_ariths)
  have tail: "robin_run healthy m (nNext + 1) vec = map (\<lambda>i. vec ! ((unat nNext + Suc i) mod length vec)) [0..<m]"
  proof (cases "m = 0")
    case False
    with n Suc show ?thesis by simp
  qed simp
  have "[0..<Suc m] = 0 # map Suc [0..<m]" by (simp add: map_Suc_upt upt_conv_Cons)
  then show ?case unfolding robin_run.simps robin_healthy [OF assms] by (simp add: tail)
qed simp

text \<open>
  when all services of a type are healthy, one selection of the round robin for each of them in
  a row picks each exactly once: the picks are the list, rotated, unless the counter wraps around
  on the way.
\<close>

theorem round_robin_fair:
  assumes "\<forall>s \<in> set vecServiceID. healthy s" and "vecServiceID \<noteq> []" and "unat nNext + length vecServiceID \<le> 2 ^ 32"
  shows "robin_run healthy (length vecServiceID) nNext vecServiceID = rotate (unat nNext) vecServiceID"
proof -
  have "robin_run healthy (length vecServiceID) nNext vecServiceID =
      map (\<lambda>i. vecServiceID ! ((unat nNext + i) mod length vecServiceID)) [0..<length vecServiceID]"
    by (rule robin_run_healthy) (use assms in auto)
  also have "\<dots> = rotate (unat nNext) vecServiceID"
    by (rule nth_equalityI) (simp_all add: nth_rotate)
  finally show ?thesis .
qed

lemma robin_try_member: "vec \<noteq> [] \<Longrightarrow> fst (robin_try healthy i nNext vec) = 0 \<or>
    fst (robin_try healthy i nNext vec) \<in> set vec \<and> healthy (fst (robin_try healthy i nNext vec))"
proof (induction i arbitrary: nNext)
  case (Suc i)
  have "vec ! (unat nNext mod length vec) \<in> set vec" using Suc.prems by (intro nth_mem) simp
  then show ?case using Suc by (simp add: Let_def)
qed simp

lemma random_try_member: "random_try healthy rands vec = 0 \<or>
    random_try healthy rands vec \<in> set vec \<and> healthy (random_try healthy rands vec)"
  by (induction healthy rands vec rule: random_try.induct) auto

text \<open>
  Whatever the numbers drawn and wherever the counter stands, what the random and the round robin
  selector pick is a healthy service of the list, or 0; the hash selector picks the same service
  for the same context, from the list.
\<close>

theorem selectors_pick_members:
  assumes "vecServiceID \<noteq> []"
  shows "(select_random healthy rands vecServiceID = 0 \<or>
       select_random healthy rands vecServiceID \<in> set vecServiceID \<and> healthy (select_random healthy rands vecServiceID)) \<and>
     (fst (select_robin healthy nNext vecServiceID) = 0 \<or>
       fst (select_robin healthy nNext vecServiceID) \<in> set vecServiceID \<and> healthy (fst (select_robin healthy nNext vecServiceID))) \<and>
     select_hash nContext vecServiceID \<in> set vecServiceID"
  using assms robin_try_member [OF assms] random_try_member by (simp add: select_random_def select_robin_def select_hash_def)

subsection \<open>A node that learns of another, and a connection between them\<close>

lemma run_total:
  assumes "proxy_ok rp0"
  shows "\<exists>rp. proxy_run rp0 ms rp"
proof (induction ms rule: rev_induct)
  case (snoc m ms)
  then obtain rp where "proxy_run rp0 ms rp" by blast
  moreover from run_ok [OF this assms] master_says_ok obtain rp' where "master_says m rp = Some rp'" by blast
  ultimately show ?case by (blast intro: proxy_run.message)
qed (blast intro: proxy_run.start)


definition demo_rp0 :: reg_proxy where
  "demo_rp0 = rp_init demo_node [] [] []"

definition demo_rp1 :: reg_proxy where
  "demo_rp1 = addNodeProxyInfo demo_node2 [demo_service2] False demo_rp0"

abbreviation demo_sync4 :: sys_msg where
  "demo_sync4 \<equiv> SyncNode \<lparr>sn_node = demo_node2, sn_services = [demo_service2], sn_exclude = 0\<rparr>"

theorem proxy_never_stuck_witness:
  "\<exists>rp'. master_says (RemoveNode 4) (rp_init demo_node [demo_service] [] []) = Some rp'"
  by (rule proxy_never_stuck [OF proxy_run.start])

lemma demo_rp0_eval:
  "demo_rp0 = \<lparr>lp_services = [], lp_ids = [], lp_nameToID = [], lp_idToName = [], rp_self = demo_node, rp_local = [],
     rp_wantNames = {}, rp_wantTypes = {}, rp_nodes = [], rp_masters = [], rp_conns = [], rp_out = [], rp_net = []\<rparr>"
  by (simp add: demo_rp0_def rp_init_def types_of_def updateActiveServiceID_def)

lemmas demo_proxy_defs = addNodeProxyInfo_def known_def enter_proxy_def enter_ids_def ids_update_def om_at_def no_ids_def
  types_of_def updateActiveServiceID_def updateLocalServiceRegistryProxy_def to_services_def Let_def

lemma demo_rp1_eval:
  "demo_rp1 = demo_rp0\<lparr>lp_services := [(6, \<lparr>vp_base = demo_service2, vp_socket = 0\<rparr>)],
     lp_ids := [([116], \<lparr>si_all = {6}, si_active = {6}, si_vec = [6]\<rparr>)],
     lp_nameToID := [([115, 50], 6)], lp_idToName := [(6, [115, 50])],
     rp_nodes := [(4, \<lparr>np_base = demo_node2, np_services = [demo_service2], np_socket = 0, np_connecting = False\<rparr>)]\<rparr>"
  by (simp add: demo_rp1_def demo_rp0_eval demo_defs demo_proxy_defs)

text \<open>The other node connects, and asks for the handshake.\<close>

definition demo_hand4 :: "u8 list" where
  "demo_hand4 = [10, 0, 7, 0, 0, 0, 4, 0, 0, 0]"

definition demo_rp2 :: reg_proxy where
  "demo_rp2 = on_onDispatch 9 MT_SYSTEM demo_hand4 (on_onConnect False 9 demo_rp1)"

lemma demo_hand4_eval: "field 2 4 demo_hand4 = SMT_handshake_request" "unpack_handshake_request 0 demo_hand4 = 4"
  "length demo_hand4 = 10"
  by code_simp+

lemma demo_rp2_run: "proxy_run (rp_init demo_node [] [] []) [demo_sync4] demo_rp2"
proof -
  have 1: "proxy_run demo_rp0 [demo_sync4] demo_rp1"
    using proxy_run.message [OF proxy_run.start, of demo_sync4 demo_rp0 demo_rp1] by (simp add: demo_rp1_def)
  have 2: "conn_step demo_rp1 (on_onConnect False 9 demo_rp1)"
    by (rule conn_step.opened) (simp_all add: demo_rp1_eval demo_rp0_eval)
  have 3: "conn_step (on_onConnect False 9 demo_rp1) demo_rp2"
    unfolding demo_rp2_def
    by (rule conn_step.packet)
      (simp add: handshake_ok_def demo_hand4_eval SMT_handshake_request_def SMT_handshake_response_def)
  show ?thesis using proxy_run.event [OF proxy_run.event [OF 1 2] 3] by (simp add: demo_rp0_def)
qed

lemma demo_rp2_nodes:
  "om_get (rp_nodes demo_rp2) 4 = Some \<lparr>np_base = demo_node2, np_services = [demo_service2], np_socket = 9, np_connecting = False\<rparr>"
  by (simp add: demo_rp2_def on_onDispatch_def demo_hand4_eval message_header_size_def on_request_def on_onConnect_def
      demo_rp1_eval demo_rp0_eval getServiceBaseInfoByNodeID_def setOtherNodeSocketIDByNodeID_def set_socket_def
      ids_update_def om_at_def found_types_def List.map_filter_def updateActiveServiceID_def demo_defs
      updateLocalServiceRegistryProxy_def to_services_def onNodeConnect_def net_send_def Let_def)

theorem services_resolve_witness:
  "getServiceID [115, 50] (fillLocalServiceRegistryProxy demo_rp2) = 6 \<and>
   getOtherNodeSocketIDByServiceID 6 (fillLocalServiceRegistryProxy demo_rp2) = 9 \<and>
   6 \<in> set (getActiveServiceIDByType [116] (fillLocalServiceRegistryProxy demo_rp2))"
  using services_resolve [OF demo_rp2_run demo_rp2_nodes, of demo_service2 "\<lambda>_. None"]
  by (simp add: demo_service2_def)

theorem type_lists_exact_witness:
  "distinct (getActiveServiceIDByType [116] (fillLocalServiceRegistryProxy demo_rp2)) \<and>
   (isValidService 7 (fillLocalServiceRegistryProxy demo_rp2) \<longleftrightarrow> 7 \<in> sb_id ` all_services demo_rp2)"
  using type_lists_exact [OF demo_rp2_run] by blast

theorem round_robin_fair_witness:
  "robin_run (\<lambda>_. True) 3 4 [10, 20, 30] = [20, 30, 10]"
proof -
  have a: "robin_run (\<lambda>_. True) (length [10, 20, 30 :: nat]) 4 [10, 20, 30] = rotate (unat (4 :: u32)) [10, 20, 30]"
    by (rule round_robin_fair) simp_all
  have b: "rotate (unat (4 :: u32)) [10, 20, 30 :: nat] = [20, 30, 10]" by code_simp
  have l: "length [10, 20, 30 :: nat] = 3" by simp
  show ?thesis by (rule trans [OF a [unfolded l] b])
qed

theorem selectors_pick_members_witness:
  "select_hash 7 [10, 20, 30] \<in> set [10, 20, 30] \<and>
   fst (select_robin (\<lambda>s. s \<noteq> 20) 1 [10, 20, 30]) \<in> {0, 10, 30}"
  using selectors_pick_members [of "[10, 20, 30]" "\<lambda>s. s \<noteq> 20" "[]" 1 7] by simp blast

end
