(* ===== verification/Transporter.thy ===== *)
theory Transporter imports Core_Service Registry_Proxy begin

unbundle bit_operations_syntax

text \<open>
  How a service reaches another one: \<open>CTransporter\<close> (\<open>transporter.cpp\<close>) encodes a message and puts
  it into the queue of a service of the same node or sends it over the connection to the node of
  the other service; \<open>CMessageDispatcher\<close> (\<open>message_dispatcher.cpp\<close>) decodes what arrives in the
  queue and calls the handler; \<open>CServiceInvoker\<close> (\<open>service_invoker.cpp\<close>) is what the services
  call. All of \<open>engine/src/libCoreCommon\<close>.

  Messages are of a type \<open>'m\<close>. A serializer is the record of its operations; the three kinds of
  the engine are here, with the libraries under them (the generated protobuf code, the JSON
  conversion, the pack functions of native messages) as parameters.
\<close>

subsection \<open>Serializers\<close>

record 'm serializer =
  sz_type :: nat                                    \<comment> \<open>\<open>getType\<close>\<close>
  sz_name :: "'m \<Rightarrow> bstr option"                    \<comment> \<open>\<open>getMessageName\<close>, the C string it leaves\<close>
  sz_encode :: "'m \<Rightarrow> nat \<Rightarrow> u8 list option"         \<comment> \<open>\<open>serializeMessageToBuf\<close>, \<open>None\<close> for a negative result\<close>
  sz_decode :: "bstr \<Rightarrow> u8 list \<Rightarrow> 'm option"         \<comment> \<open>\<open>unserializeMessageFromBuf\<close>\<close>

definition MAX_MESSAGE_NAME_LEN :: nat where "MAX_MESSAGE_NAME_LEN = 128"

definition message_name :: "('m \<Rightarrow> bstr) \<Rightarrow> 'm \<Rightarrow> bstr option" where
  "message_name typeName m =
     (if length (typeName m) \<ge> MAX_MESSAGE_NAME_LEN then None else Some (cstr (typeName m)))"

text \<open>\<open>typeName\<close>: \<open>GetTypeName\<close>; \<open>bytes\<close>: what \<open>SerializeToArray\<close> writes; \<open>parse\<close>: \<open>create_message\<close> and \<open>ParseFromArray\<close>.\<close>

definition protobuf_serializer ::
    "('m \<Rightarrow> bstr) \<Rightarrow> ('m \<Rightarrow> u8 list) \<Rightarrow> (bstr \<Rightarrow> u8 list \<Rightarrow> 'm option) \<Rightarrow> 'm serializer" where
  "protobuf_serializer typeName bytes parse =
     \<lparr>sz_type = 1, sz_name = message_name typeName,
      sz_encode = (\<lambda>m nSize. if length (bytes m) > nSize then None else Some (bytes m)),
      sz_decode = parse\<rparr>"

text \<open>\<open>json\<close>: \<open>MessageToJsonString\<close>, \<open>None\<close> when it fails.\<close>

definition json_serializer ::
    "('m \<Rightarrow> bstr) \<Rightarrow> ('m \<Rightarrow> u8 list option) \<Rightarrow> (bstr \<Rightarrow> u8 list \<Rightarrow> 'm option) \<Rightarrow> 'm serializer" where
  "json_serializer typeName json parse =
     \<lparr>sz_type = 2, sz_name = message_name typeName,
      sz_encode = (\<lambda>m nSize. case json m of
         None \<Rightarrow> None
       | Some szJson \<Rightarrow> if length szJson > nSize then None else Some szJson),
      sz_decode = parse\<rparr>"

text \<open>
  \<open>create\<close>: the registered message of that name, if any, as its \<open>unpack\<close>. The size is passed on as
  a \<open>uint16_t\<close>. A native message returns its name as a C string.
\<close>

definition native_serializer ::
    "('m \<Rightarrow> bstr option) \<Rightarrow> ('m \<Rightarrow> u8 list) \<Rightarrow> (bstr \<Rightarrow> (u8 list \<Rightarrow> 'm option) option) \<Rightarrow> 'm serializer" where
  "native_serializer getName pack create =
     \<lparr>sz_type = 3,
      sz_name = (\<lambda>m. case getName m of
         None \<Rightarrow> None
       | Some x \<Rightarrow> if length (cstr x) \<ge> MAX_MESSAGE_NAME_LEN then None else Some (cstr x)),
      sz_encode = (\<lambda>m nSize. if nSize < length (pack m) then None else Some (pack m)),
      sz_decode = (\<lambda>szMessageName d. case create szMessageName of
         None \<Rightarrow> None
       | Some unpack \<Rightarrow> unpack (take (length d mod 2 ^ 16) d))\<rparr>"

text \<open>The hash that numbers the messages of clients (\<open>function_util::hash\<close>); \<open>char\<close> is signed.\<close>

fun hash_from :: "u32 \<Rightarrow> u8 list \<Rightarrow> u32" where
  "hash_from nHash [] = nHash"
| "hash_from nHash (c # cs) =
     (if c = 0 then nHash
      else hash_from (nHash XOR (push_bit 5 nHash + word_of_int (sint c) + drop_bit 2 nHash)) cs)"

definition message_id :: "bstr \<Rightarrow> nat" where
  "message_id szMessageName = unat (hash_from 1315423911 szMessageName AND 0x7FFFFFFF)"

subsection \<open>The transporter\<close>

text \<open>What a service reaches: the other services of its node and the tables of services.\<close>

record 'm site =
  si_self :: "'m serializer core_service"                       \<comment> \<open>\<open>m_pCoreService\<close>\<close>
  si_local :: "nat \<Rightarrow> 'm serializer core_service option"         \<comment> \<open>\<open>CCoreServiceMgr::getCoreService\<close>\<close>
  si_types :: "nat \<Rightarrow> bstr option"                              \<comment> \<open>the types of the local services\<close>
  si_proxy :: local_proxy
  si_convert :: "(nat \<Rightarrow> nat) option"                           \<comment> \<open>\<open>getServiceIDConverter\<close>\<close>

datatype sent = ToQueue packet | ToSocket nat nat "u8 list"     \<comment> \<open>socket, message type, data\<close>

definition BUF_SIZE :: nat where "BUF_SIZE = 65535"             \<comment> \<open>\<open>m_szBuf\<close>\<close>

definition convert_id :: "'m site \<Rightarrow> nat \<Rightarrow> nat" where
  "convert_id S nToServiceID = (case si_convert S of None \<Rightarrow> nToServiceID | Some f \<Rightarrow> f nToServiceID)"

definition pick_serializer :: "'m site \<Rightarrow> nat \<Rightarrow> nat \<Rightarrow> 'm serializer option" where
  "pick_serializer S nToServiceID nSerializerType =
     (if nSerializerType = 0
      then getServiceMessageSerializer (getServiceType (si_types S) nToServiceID (si_proxy S)) (si_self S)
      else getServiceMessageSerializerByType nSerializerType (si_self S))"

text \<open>\<open>request_cookice\<close> and what follows it.\<close>

definition request_bytes :: "nat \<Rightarrow> nat \<Rightarrow> nat \<Rightarrow> nat \<Rightarrow> bstr \<Rightarrow> u8 list \<Rightarrow> u8 list" where
  "request_bytes nSessionID nFrom nTo nType name d =
     le_bytes 8 nSessionID @ le_bytes 4 nFrom @ le_bytes 4 nTo @ le_bytes 1 nType @ le_bytes 2 (length name) @
     name @ [0] @ d"

definition response_bytes :: "nat \<Rightarrow> nat \<Rightarrow> nat \<Rightarrow> nat \<Rightarrow> nat \<Rightarrow> bstr \<Rightarrow> u8 list \<Rightarrow> u8 list" where
  "response_bytes nSessionID nFrom nTo nResult nType name d =
     le_bytes 8 nSessionID @ le_bytes 4 nFrom @ le_bytes 4 nTo @ le_bytes 4 nResult @ le_bytes 1 nType @
     le_bytes 2 (length name) @ name @ [0] @ d"

text \<open>\<open>opt\<close>: the time-out and the serializer type of \<open>SInvokeOption\<close>.\<close>

definition transport_invoke ::
    "'m site \<Rightarrow> nat \<Rightarrow> nat \<Rightarrow> 'm option \<Rightarrow> (nat \<times> nat) option \<Rightarrow> bool \<times> sent list" where
  "transport_invoke S nToServiceID nSessionID pMessage opt =
     (case pMessage of None \<Rightarrow> (False, []) | Some m \<Rightarrow>
      let nTo = convert_id S nToServiceID
      in if si_convert S \<noteq> None \<and> nTo = 0 then (False, [])
      else case pick_serializer S nTo (case opt of None \<Rightarrow> 0 | Some (_, t) \<Rightarrow> t) of None \<Rightarrow> (False, []) | Some z \<Rightarrow>
      case sz_name z m of None \<Rightarrow> (False, []) | Some name \<Rightarrow>
      case si_local S nTo of
        None \<Rightarrow>
          let nSocketID = getOtherNodeSocketIDByServiceID nTo (si_proxy S);
              nCookiceLen = request_cookice_size + length name
          in if nSocketID = 0 then (False, [])
             else if \<not> nCookiceLen < BUF_SIZE then (False, [])
             else (case sz_encode z m (BUF_SIZE - nCookiceLen) of
                     None \<Rightarrow> (False, [])
                   | Some d \<Rightarrow> (True, [ToSocket nSocketID MT_REQUEST
                       (request_bytes nSessionID (cs_id (si_self S)) nTo (sz_type z) name d)]))
      | Some _ \<Rightarrow>
          (case sz_encode z m BUF_SIZE of
             None \<Rightarrow> (False, [])
           | Some d \<Rightarrow> (True, [ToQueue (PRequest nTo nSessionID (cs_id (si_self S)) (sz_type z) name d)])))"

text \<open>
  There is no test of the serializer, whose type is read even without a message: \<open>None\<close> stands for
  the null pointer. Without a message the name is empty.
\<close>

definition transport_response ::
    "'m site \<Rightarrow> nat \<Rightarrow> nat \<Rightarrow> nat \<Rightarrow> 'm option \<Rightarrow> nat \<Rightarrow> (bool \<times> sent list) option" where
  "transport_response S nToServiceID nSessionID nResult pMessage nSerializerType =
     (let nTo = convert_id S nToServiceID
      in if si_convert S \<noteq> None \<and> nTo = 0 then Some (False, [])
      else
        let pz = pick_serializer S nTo nSerializerType;
            from = cs_id (si_self S)
        in case (case pMessage of None \<Rightarrow> Some (Some []) | Some m \<Rightarrow> map_option (\<lambda>z. sz_name z m) pz) of
             None \<Rightarrow> None
           | Some None \<Rightarrow> Some (False, [])
           | Some (Some name) \<Rightarrow>
             (case si_local S nTo of
                None \<Rightarrow>
                  let nSocketID = getOtherNodeSocketIDByServiceID nTo (si_proxy S);
                      nCookiceLen = response_cookice_size + length name
                  in if nSocketID = 0 then Some (False, [])
                  else (case pz of None \<Rightarrow> None | Some z \<Rightarrow>
                    if \<not> nCookiceLen < BUF_SIZE then Some (False, [])
                    else (case (case pMessage of None \<Rightarrow> Some [] | Some m \<Rightarrow> sz_encode z m (BUF_SIZE - nCookiceLen)) of
                            None \<Rightarrow> Some (False, [])
                          | Some d \<Rightarrow> Some (True, [ToSocket nSocketID MT_RESPONSE
                              (response_bytes nSessionID from nTo nResult (sz_type z) name d)])))
              | Some _ \<Rightarrow>
                  (case pz of
                     None \<Rightarrow> None
                   | Some z \<Rightarrow>
                     (case (case pMessage of None \<Rightarrow> Some [] | Some m \<Rightarrow> sz_encode z m BUF_SIZE) of
                        None \<Rightarrow> Some (False, [])
                      | Some d \<Rightarrow> Some (True, [ToQueue (PResponse nTo nSessionID from (sz_type z) nResult name d)])))))"

text \<open>\<open>m\<close>: a message with its header, which says its size.\<close>

definition transport_gate_forward :: "'m site \<Rightarrow> nat \<Rightarrow> nat \<Rightarrow> u8 list \<Rightarrow> bool \<times> sent list" where
  "transport_gate_forward S nSessionID nToServiceID m =
     (let nSize = field 0 2 m; from = cs_id (si_self S)
      in case si_local S nToServiceID of
           None \<Rightarrow>
             let nSocketID = getOtherNodeSocketIDByServiceID nToServiceID (si_proxy S)
             in if nSocketID = 0 then (False, [])
                else (True, [ToSocket nSocketID MT_GATE_FORWARD
                       (le_bytes 8 nSessionID @ le_bytes 4 from @ le_bytes 4 nToServiceID @ take nSize m)])
         | Some _ \<Rightarrow> (True, [ToQueue (PGateForward nToServiceID nSessionID from (take nSize m))]))"

text \<open>The header and the bytes of a message to a client.\<close>

definition client_message :: "bstr \<Rightarrow> u8 list \<Rightarrow> u8 list" where
  "client_message name d = le_bytes 2 (message_header_size + length d) @ le_bytes 4 (message_id name) @ d"

definition transport_send :: "'m site \<Rightarrow> nat \<Rightarrow> nat \<Rightarrow> 'm option \<Rightarrow> bool \<times> sent list" where
  "transport_send S nSessionID nToServiceID pMessage =
     (case pMessage of None \<Rightarrow> (False, []) | Some m \<Rightarrow>
      case si_local S nToServiceID of
        None \<Rightarrow>
          (case getForwardMessageSerializer (si_self S) of None \<Rightarrow> (False, []) | Some z \<Rightarrow>
           case sz_name z m of None \<Rightarrow> (False, []) | Some name \<Rightarrow>
           let nSocketID = getOtherNodeSocketIDByServiceID nToServiceID (si_proxy S)
           in if nSocketID = 0 then (False, [])
              else (case sz_encode z m (BUF_SIZE - (gate_send_cookice_size + message_header_size)) of
                      None \<Rightarrow> (False, [])
                    | Some d \<Rightarrow> (True, [ToSocket nSocketID MT_TO_GATE
                        (le_bytes 8 nSessionID @ le_bytes 4 nToServiceID @ client_message name d)])))
      | Some to \<Rightarrow>
          (case getForwardMessageSerializer to of None \<Rightarrow> (False, []) | Some z \<Rightarrow>
           case sz_name z m of None \<Rightarrow> (False, []) | Some name \<Rightarrow>
           case sz_encode z m (BUF_SIZE - message_header_size) of
             None \<Rightarrow> (False, [])
           | Some d \<Rightarrow> (True, [ToQueue (PToGate nToServiceID nSessionID (client_message name d))])))"

text \<open>
  The session ids are copied into the buffer before the test that they fit: \<open>None\<close> stands for the
  write behind its end. The counters of the local packet are 16 bits wide.
\<close>

definition session_bytes :: "nat list \<Rightarrow> u8 list" where
  "session_bytes vecSessionID = concat (map (le_bytes 8) vecSessionID)"

definition transport_broadcast :: "'m site \<Rightarrow> nat list \<Rightarrow> nat \<Rightarrow> 'm option \<Rightarrow> (bool \<times> sent list) option" where
  "transport_broadcast S vecSessionID nToServiceID pMessage =
     (if vecSessionID = [] then Some (True, []) else
      case pMessage of None \<Rightarrow> Some (False, []) | Some m \<Rightarrow>
      let n = length vecSessionID
      in case si_local S nToServiceID of
        None \<Rightarrow>
          let nSocketID = getOtherNodeSocketIDByServiceID nToServiceID (si_proxy S);
              nLen = gate_broadcast_cookice_size + 8 * n;
              nCookiceLen = nLen + message_header_size
          in if nSocketID = 0 then Some (False, [])
          else (case getForwardMessageSerializer (si_self S) of None \<Rightarrow> Some (False, []) | Some z \<Rightarrow>
            case sz_name z m of None \<Rightarrow> Some (False, []) | Some name \<Rightarrow>
            if nLen > BUF_SIZE then None
            else if \<not> nCookiceLen < BUF_SIZE then Some (False, [])
            else (case sz_encode z m (BUF_SIZE - nCookiceLen) of
                    None \<Rightarrow> Some (False, [])
                  | Some d \<Rightarrow> Some (True, [ToSocket nSocketID MT_TO_GATE_BROADCAST
                      (le_bytes 4 nToServiceID @ le_bytes 2 n @ session_bytes vecSessionID @ client_message name d)])))
      | Some to \<Rightarrow>
          (case getForwardMessageSerializer to of None \<Rightarrow> Some (False, []) | Some z \<Rightarrow>
           case sz_name z m of None \<Rightarrow> Some (False, []) | Some name \<Rightarrow>
           case sz_encode z m BUF_SIZE of
             None \<Rightarrow> Some (False, [])
           | Some d \<Rightarrow> Some (True, [ToQueue (PToGateBroadcast nToServiceID (n mod 2 ^ 16)
               ((message_header_size + length d + 8 * n) mod 2 ^ 16)
               (session_bytes vecSessionID @ client_message name d))])))"

subsection \<open>The dispatcher\<close>

text \<open>
  The calls the dispatcher makes. Handlers of requests and forwarded messages run in a new
  coroutine each; the callback of a response in a new one when the request names none (0), or in
  the one of the dispatcher, which then resumes the caller.
\<close>

datatype 'm call =
    HandleRequest nat nat nat 'm            \<comment> \<open>handler, from service, session, message\<close>
  | HandleResponse nat nat "'m option" nat   \<comment> \<open>coroutine, callback, message, result\<close>
  | HandleForward nat nat nat 'm            \<comment> \<open>handler, gate service, session, message\<close>
  | HandleToGate nat nat "u8 list"          \<comment> \<open>callback, session, message\<close>
  | HandleToGateBroadcast nat "nat list" "u8 list"

definition dispatch_to_handler ::
    "nat \<Rightarrow> nat \<Rightarrow> nat \<Rightarrow> bstr \<Rightarrow> u8 list \<Rightarrow> 'm serializer core_service \<Rightarrow> 'm call option" where
  "dispatch_to_handler nSessionID nFrom nType name d cs =
     (case getServiceMessageHandler name cs of None \<Rightarrow> None | Some callback \<Rightarrow>
      case getServiceMessageSerializerByType nType cs of None \<Rightarrow> None | Some z \<Rightarrow>
      case sz_decode z name d of None \<Rightarrow> None | Some m \<Rightarrow>
      Some (HandleRequest callback nFrom nSessionID m))"

text \<open>
  A response that cannot be decoded leaves the request waiting. The entry is deleted after the
  callback has run. The callback 0 is the null one. A packet without a message has the empty name
  (the code tests the length of the name, which differs only when a node sends a name that starts
  with a zero byte).
\<close>

definition dispatch_to_caller ::
    "nat \<Rightarrow> nat \<Rightarrow> nat \<Rightarrow> bstr \<Rightarrow> u8 list \<Rightarrow> 'm serializer core_service \<Rightarrow> 'm call option \<times> 'm serializer core_service" where
  "dispatch_to_caller nSessionID nType nResult name d cs =
     (if nSessionID = 0 then (None, cs)
      else
        (let pMessage =
           (if name = [] then Some None
            else case getServiceMessageSerializerByType nType cs of None \<Rightarrow> None | Some z \<Rightarrow>
              map_option Some (sz_decode z name d))
         in case pMessage of None \<Rightarrow> (None, cs) | Some m \<Rightarrow>
            case getPendingResponseInfo nSessionID cs of
              (None, cs1) \<Rightarrow> (None, cs1)
            | (Some p, cs1) \<Rightarrow>
                if pi_callback p = 0 then (None, destroy_pending p cs1)
                else (Some (HandleResponse (pi_coroutine p) (pi_callback p) m nResult),
                      destroy_pending p (updateServiceHealth (pi_to p) (nResult = RRT_TIME_OUT) cs1))))"

definition dispatch_forward ::
    "nat \<Rightarrow> nat \<Rightarrow> u8 list \<Rightarrow> 'm serializer core_service \<Rightarrow> 'm call option" where
  "dispatch_forward nSessionID nFrom m cs =
     (case getForwardMessageSerializer cs of None \<Rightarrow> None | Some z \<Rightarrow>
      case getServiceForwardHandler (field 2 4 m) cs of None \<Rightarrow> None | Some (callback, szMessageName) \<Rightarrow>
      case sz_decode z szMessageName (take (field 0 2 m - message_header_size) (drop message_header_size m)) of
        None \<Rightarrow> None
      | Some x \<Rightarrow> Some (HandleForward callback nFrom nSessionID x))"

text \<open>The numbers in an array of \<open>uint64_t\<close>.\<close>

fun words8 :: "nat \<Rightarrow> u8 list \<Rightarrow> nat list" where
  "words8 0 d = []"
| "words8 (Suc n) d = field 0 8 d # words8 n (drop 8 d)"

text \<open>
  \<open>onToGate\<close>, \<open>onBroadcast\<close>: the callbacks the gate sets. The outer \<open>None\<close> stands for a read behind
  the packet: a forwarded message shorter than its header, more sessions announced than there are.
\<close>

definition md_dispatch ::
    "nat option \<Rightarrow> nat option \<Rightarrow> packet \<Rightarrow> 'm serializer core_service \<Rightarrow>
     ('m call option \<times> 'm serializer core_service) option" where
  "md_dispatch onToGate onBroadcast pk cs0 =
     (let cs = incQPS cs0
      in case pk of
           PRequest _ nSessionID nFrom nType name d \<Rightarrow> Some (dispatch_to_handler nSessionID nFrom nType name d cs, cs)
         | PResponse _ nSessionID _ nType nResult name d \<Rightarrow> Some (dispatch_to_caller nSessionID nType nResult name d cs)
         | PGateForward _ nSessionID nFrom m \<Rightarrow>
             if length m < message_header_size then None else Some (dispatch_forward nSessionID nFrom m cs, cs)
         | PToGate _ nSessionID m \<Rightarrow> Some (map_option (\<lambda>f. HandleToGate f nSessionID m) onToGate, cs)
         | PToGateBroadcast _ n nSize d \<Rightarrow>
             (case onBroadcast of None \<Rightarrow> Some (None, cs) | Some f \<Rightarrow>
              let nRest = nat ((int nSize - 8 * int n) mod 2 ^ 16)
              in if 8 * n + nRest > length d then None
                 else Some (Some (HandleToGateBroadcast f (words8 n d) (take nRest (drop (8 * n) d))), cs))
         | _ \<Rightarrow> Some (None, cs))"

subsection \<open>The invoker\<close>

definition self_healthy :: "nat \<Rightarrow> nat \<Rightarrow> 'm site \<Rightarrow> bool" where
  "self_healthy nRand nServiceID S = isServiceHealth (\<lambda>i. isValidService i (si_proxy S)) nRand nServiceID (si_self S)"

definition invoker_send ::
    "bool \<Rightarrow> nat \<Rightarrow> nat \<Rightarrow> 'm option \<Rightarrow> (nat \<times> nat) option \<Rightarrow> 'm site \<Rightarrow> bool \<times> sent list" where
  "invoker_send bCheckHealth nRand nServiceID pMessage opt S =
     (if pMessage = None then (False, [])
      else if bCheckHealth \<and> \<not> self_healthy nRand nServiceID S then (False, [])
      else transport_invoke S nServiceID 0 pMessage opt)"

text \<open>By type: \<open>sel\<close> is what the selector chose and its \<open>isCheckHealth\<close>, if there is such a selector.\<close>

definition invoker_send_type ::
    "(nat \<times> bool) option \<Rightarrow> nat \<Rightarrow> 'm option \<Rightarrow> (nat \<times> nat) option \<Rightarrow> 'm site \<Rightarrow> bool \<times> sent list" where
  "invoker_send_type sel nRand pMessage opt S =
     (case sel of
        None \<Rightarrow> (False, [])
      | Some (nServiceID, bCheckHealth) \<Rightarrow> invoker_send bCheckHealth nRand nServiceID pMessage opt S)"

text \<open>\<open>rnd\<close>: the numbers drawn for the checks of health, one for each service.\<close>

definition invoker_broadcast ::
    "(nat \<Rightarrow> nat) \<Rightarrow> bstr \<Rightarrow> 'm option \<Rightarrow> (nat \<times> nat) option \<Rightarrow> 'm site \<Rightarrow> sent list" where
  "invoker_broadcast rnd szServiceType pMessage opt S =
     (if pMessage = None then []
      else concat (map (\<lambda>(i, nServiceID). snd (invoker_send True (rnd i) nServiceID pMessage opt S))
             (enumerate 0 (getActiveServiceIDByType szServiceType (si_proxy S)))))"

text \<open>The request waits from here on, under the session drawn for it.\<close>

definition invoker_invoke ::
    "nat \<Rightarrow> int \<Rightarrow> bool \<Rightarrow> nat \<Rightarrow> nat \<Rightarrow> 'm option \<Rightarrow> nat \<Rightarrow> nat \<Rightarrow> (nat \<times> nat) option \<Rightarrow> nat \<Rightarrow> 'm site \<Rightarrow>
     bool \<times> sent list \<times> 'm site" where
  "invoker_invoke dflt now bCheckHealth nRand nServiceID pMessage nCoroutineID callback opt nHolderID S =
     (if bCheckHealth \<and> \<not> self_healthy nRand nServiceID S then (False, [], S)
      else
        (let (nSessionID, cs1) = genSessionID (si_self S); S1 = S\<lparr>si_self := cs1\<rparr>;
             (ok, out) = transport_invoke S1 nServiceID (unat nSessionID) pMessage opt
         in if \<not> ok then (False, out, S1)
            else
              (let (p, cs2) = addPendingResponseInfo dflt now nServiceID (unat nSessionID) nCoroutineID callback
                      (case opt of None \<Rightarrow> 0 | Some (nTimeout, _) \<Rightarrow> nTimeout) nHolderID cs1
               in (p \<noteq> None, out, S1\<lparr>si_self := cs2\<rparr>))))"

text \<open>When the request cannot be sent the callback is called at once, with \<open>eRRT_ERROR\<close>.\<close>

definition async_invoke ::
    "nat \<Rightarrow> int \<Rightarrow> bool \<Rightarrow> nat \<Rightarrow> nat \<Rightarrow> 'm option \<Rightarrow> nat \<Rightarrow> (nat \<times> nat) option \<Rightarrow> nat \<Rightarrow> 'm site \<Rightarrow>
     'm call option \<times> sent list \<times> 'm site" where
  "async_invoke dflt now bCheckHealth nRand nServiceID pMessage callback opt nHolderID S =
     (if pMessage = None \<or> callback = 0 then (None, [], S)
      else
        (let (ok, out, S1) = invoker_invoke dflt now bCheckHealth nRand nServiceID pMessage 0 callback opt nHolderID S
         in (if ok then None else Some (HandleResponse 0 callback None RRT_ERROR), out, S1)))"

text \<open>
  \<open>nCoroutineID\<close>: the coroutine that calls, 0 the root. The result is there at once when the request
  cannot be sent; otherwise (\<open>None\<close>) the coroutine yields, until its response is dispatched.
\<close>

definition sync_invoke ::
    "nat \<Rightarrow> int \<Rightarrow> nat \<Rightarrow> bool \<Rightarrow> nat \<Rightarrow> nat \<Rightarrow> 'm option \<Rightarrow> nat \<Rightarrow> (nat \<times> nat) option \<Rightarrow> nat \<Rightarrow> 'm site \<Rightarrow>
     nat option \<times> sent list \<times> 'm site" where
  "sync_invoke dflt now nCoroutineID bCheckHealth nRand nServiceID pMessage callback opt nHolderID S =
     (if pMessage = None \<or> nCoroutineID = 0 then (Some RRT_ERROR, [], S)
      else
        (let (ok, out, S1) = invoker_invoke dflt now bCheckHealth nRand nServiceID pMessage nCoroutineID callback opt nHolderID S
         in (if ok then None else Some RRT_ERROR, out, S1)))"

text \<open>The result of the transporter is only asserted. The session 0 is that of a message without response.\<close>

definition invoker_response :: "nat \<times> nat \<Rightarrow> 'm option \<Rightarrow> nat \<Rightarrow> nat \<Rightarrow> 'm site \<Rightarrow> sent list option" where
  "invoker_response sSessionInfo pMessage nErrorCode nSerializerType S =
     (case sSessionInfo of (nFromServiceID, nSessionID) \<Rightarrow>
        if nSessionID = 0 then Some []
        else map_option snd (transport_response S nFromServiceID nSessionID nErrorCode pMessage nSerializerType))"

text \<open>The sessions of the clients, by gate: pairs of gate service and session.\<close>

definition group_sessions :: "(nat \<times> nat) list \<Rightarrow> (nat, nat list) omap" where
  "group_sessions vecClientSessionInfo =
     fold (\<lambda>(g, s) m. om_put g (om_at [] m g @ [s]) m) vecClientSessionInfo []"

definition broadcast_step ::
    "'m option \<Rightarrow> 'm site \<Rightarrow> nat \<times> nat list \<Rightarrow> (bool \<times> sent list) option \<Rightarrow> (bool \<times> sent list) option" where
  "broadcast_step pMessage S e r =
     Option.bind r (\<lambda>(bRet, out).
       map_option (\<lambda>(ok, new). (bRet \<and> ok, out @ new)) (transport_broadcast S (snd e) (fst e) pMessage))"

definition invoker_broadcast_clients :: "(nat \<times> nat) list \<Rightarrow> 'm option \<Rightarrow> 'm site \<Rightarrow> (bool \<times> sent list) option" where
  "invoker_broadcast_clients vecClientSessionInfo pMessage S =
     (if pMessage = None then Some (False, [])
      else fold (broadcast_step pMessage S) (group_sessions vecClientSessionInfo) (Some (True, [])))"

end
