(* ===== verification/Transport_Props.thy ===== *)
theory Transport_Props imports Transporter begin

text \<open>
  What a serializer promises, as a locale that the three kinds of serializers interpret; the
  packets that arrive for what the transporter sends, whether the other service is on the same
  node or on another; and a call from one service to another and back.
\<close>

subsection \<open>The interface of the serializers\<close>

locale message_serializer =
  fixes z :: "'m serializer"
  assumes type_byte: "sz_type z < 256"
    and fits: "sz_encode z m n = Some d \<Longrightarrow> length d \<le> n"
    and room: "sz_encode z m n = Some d \<Longrightarrow> length d \<le> n' \<Longrightarrow> sz_encode z m n' = Some d"
    and name_ok: "sz_name z m = Some x \<Longrightarrow> length x < MAX_MESSAGE_NAME_LEN \<and> 0 \<notin> set x"
begin

lemma more_room: "sz_encode z m n = Some d \<Longrightarrow> n \<le> n' \<Longrightarrow> sz_encode z m n' = Some d"
  using fits [of m n d] room [of m n d n'] by simp

lemma name_short: "sz_name z m = Some x \<Longrightarrow> length x < 2 ^ 16"
  using name_ok [of m x] by (simp add: MAX_MESSAGE_NAME_LEN_def)

end

lemma cstr_no_zero [simp]: "0 \<notin> set (cstr bs)"
  by (auto simp: cstr_def dest: set_takeWhileD)

lemma cstr_length: "length (cstr bs) \<le> length bs"
  by (simp add: cstr_def length_takeWhile_le)

interpretation protobuf: message_serializer "protobuf_serializer typeName bytes parse" for typeName bytes parse
  by unfold_locales (auto simp: protobuf_serializer_def message_name_def not_le intro: le_less_trans [OF cstr_length] split: if_splits)

interpretation json: message_serializer "json_serializer typeName json parse" for typeName json parse
  by unfold_locales (auto simp: json_serializer_def message_name_def not_le intro: le_less_trans [OF cstr_length] split: if_splits option.splits)

interpretation native: message_serializer "native_serializer getName pack create" for getName pack create
  by unfold_locales (auto simp: native_serializer_def split: if_splits option.splits)

text \<open>The serializers a service has registered are of the three kinds.\<close>

inductive engine_serializer :: "'m serializer \<Rightarrow> bool" where
  "engine_serializer (protobuf_serializer typeName bytes parse)"
| "engine_serializer (json_serializer typeName json parse)"
| "engine_serializer (native_serializer getName pack create)"

lemma engine_lawful: "engine_serializer z \<Longrightarrow> message_serializer z"
  by (induction rule: engine_serializer.induct)
    (rule protobuf.message_serializer_axioms json.message_serializer_axioms native.message_serializer_axioms)+

subsection \<open>What arrives\<close>

lemma dispatch_request_bytes:
  assumes "nSessionID < 2 ^ 64" and "nFrom < 2 ^ 32" and "nTo < 2 ^ 32" and "nType < 256"
    and "length name < 2 ^ 16" and "0 \<notin> set name" and "name \<noteq> []" and "svc nTo"
  shows "dispatch_request svc (request_bytes nSessionID nFrom nTo nType name d) =
    Some (PRequest nTo nSessionID nFrom nType name d)"
proof -
  let ?b = "request_bytes nSessionID nFrom nTo nType name d"
  have f: "field 0 8 ?b = nSessionID" "field 8 4 ?b = nFrom" "field 12 4 ?b = nTo" "field 16 1 ?b = nType"
    "field 17 2 ?b = length name"
    using assms by (simp_all add: request_bytes_def field_skip field_here del: le_bytes.simps)
  have h: "length (le_bytes 8 nSessionID @ le_bytes 4 nFrom @ le_bytes 4 nTo @ le_bytes 1 nType @ le_bytes 2 (length name)) = 19"
    by simp
  have b: "?b = (le_bytes 8 nSessionID @ le_bytes 4 nFrom @ le_bytes 4 nTo @ le_bytes 1 nType @ le_bytes 2 (length name)) @
      name @ [0] @ d" by (simp add: request_bytes_def)
  have d19: "drop 19 ?b = name @ [0] @ d" unfolding b using h by simp
  have len: "length ?b = request_cookice_size + length name + length d"
    by (simp add: request_bytes_def request_cookice_size_def)
  have at: "?b ! (19 + length name) = 0"
  proof -
    have "?b ! (19 + length name) = drop 19 ?b ! length name" using len by (simp add: request_cookice_size_def)
    then show ?thesis unfolding d19 by (simp add: nth_append)
  qed
  have rest: "drop (request_cookice_size + length name) ?b = d"
  proof -
    have "drop (request_cookice_size + length name) ?b = drop (Suc (length name)) (drop 19 ?b)"
      by (simp add: request_cookice_size_def)
    then show ?thesis unfolding d19 by simp
  qed
  have nm: "cstr (take (length name) (drop 19 ?b)) = name" unfolding d19 using assms(6) by (simp add: cstr_id)
  show ?thesis using assms(7,8) at rest nm len f unfolding dispatch_request_def Let_def by simp
qed

lemma dispatch_response_bytes:
  assumes "nSessionID < 2 ^ 64" and "nFrom < 2 ^ 32" and "nTo < 2 ^ 32" and "nResult < 2 ^ 32" and "nType < 256"
    and "length name < 2 ^ 16" and "0 \<notin> set name" and "svc nTo"
  shows "dispatch_response svc (response_bytes nSessionID nFrom nTo nResult nType name d) =
    Some (PResponse nTo nSessionID nFrom nType nResult name d)"
proof -
  let ?b = "response_bytes nSessionID nFrom nTo nResult nType name d"
  have f: "field 0 8 ?b = nSessionID" "field 8 4 ?b = nFrom" "field 12 4 ?b = nTo" "field 16 4 ?b = nResult"
    "field 20 1 ?b = nType" "field 21 2 ?b = length name"
    using assms by (simp_all add: response_bytes_def field_skip field_here del: le_bytes.simps)
  have h: "length (le_bytes 8 nSessionID @ le_bytes 4 nFrom @ le_bytes 4 nTo @ le_bytes 4 nResult @ le_bytes 1 nType @
      le_bytes 2 (length name)) = 23" by simp
  have b: "?b = (le_bytes 8 nSessionID @ le_bytes 4 nFrom @ le_bytes 4 nTo @ le_bytes 4 nResult @ le_bytes 1 nType @
      le_bytes 2 (length name)) @ name @ [0] @ d" by (simp add: response_bytes_def)
  have d23: "drop 23 ?b = name @ [0] @ d" unfolding b using h by simp
  have len: "length ?b = response_cookice_size + length name + length d"
    by (simp add: response_bytes_def response_cookice_size_def)
  have at: "?b ! (23 + length name) = 0"
  proof -
    have "?b ! (23 + length name) = drop 23 ?b ! length name" using len by (simp add: response_cookice_size_def)
    then show ?thesis unfolding d23 by (simp add: nth_append)
  qed
  have rest: "drop (response_cookice_size + length name) ?b = d"
  proof -
    have "drop (response_cookice_size + length name) ?b = drop (Suc (length name)) (drop 23 ?b)"
      by (simp add: response_cookice_size_def)
    then show ?thesis unfolding d23 by simp
  qed
  have nm: "cstr (take (length name) (drop 23 ?b)) = name" unfolding d23 using assms(7) by (simp add: cstr_id)
  show ?thesis using assms(8) at rest nm len f unfolding dispatch_response_def Let_def by simp
qed

text \<open>
  The packet that ends up in the queue of the other service: at once for a service of the same
  node, else what the connection of the other node, whose services are \<open>svc\<close>, makes of the data.
\<close>

definition arrives :: "(nat \<Rightarrow> bool) \<Rightarrow> sent \<Rightarrow> packet option" where
  "arrives svc s =
     (case s of
        ToQueue pk \<Rightarrow> Some pk
      | ToSocket _ ty d \<Rightarrow>
          if ty = MT_REQUEST then dispatch_request svc d
          else if ty = MT_RESPONSE then dispatch_response svc d
          else if ty = MT_GATE_FORWARD then dispatch_gate_forward svc d
          else if ty = MT_TO_GATE then dispatch_to_gate svc d
          else dispatch_broadcast svc d)"

text \<open>What the arguments of a call must be to fit their fields on the wire.\<close>

definition site_ok :: "'m site \<Rightarrow> bool" where
  "site_ok S \<longleftrightarrow> cs_id (si_self S) < 2 ^ 32 \<and>
     (\<forall>t z. getServiceMessageSerializerByType t (si_self S) = Some z \<longrightarrow>
        engine_serializer z \<and> sz_type z = t \<and> (\<forall>m. sz_name z m \<noteq> Some []))"

lemma site_okD:
  assumes "site_ok S" and "pick_serializer S nTo nType = Some z"
  shows "message_serializer z" and "getServiceMessageSerializerByType (sz_type z) (si_self S) = Some z"
    and "sz_name z m = Some x \<Longrightarrow> x \<noteq> []"
proof -
  have "\<exists>t. getServiceMessageSerializerByType t (si_self S) = Some z"
    using assms(2) by (auto simp: pick_serializer_def getServiceMessageSerializer_def getServiceMessageSerializerByType_def
        split: if_splits)
  then obtain t where t: "getServiceMessageSerializerByType t (si_self S) = Some z" by blast
  with assms(1) show "message_serializer z" "getServiceMessageSerializerByType (sz_type z) (si_self S) = Some z"
    "sz_name z m = Some x \<Longrightarrow> x \<noteq> []" unfolding site_ok_def by (blast intro: engine_lawful, metis, metis)
qed

lemma invoke_arrives:
  assumes ok: "site_ok S" and inv: "transport_invoke S nTo nSessionID (Some m) opt = (True, out)"
    and b: "nSessionID < 2 ^ 64" "convert_id S nTo < 2 ^ 32" and svc: "svc (convert_id S nTo)"
  obtains z name d s where "pick_serializer S (convert_id S nTo) (case opt of None \<Rightarrow> 0 | Some (_, t) \<Rightarrow> t) = Some z"
    "sz_name z m = Some name" "sz_encode z m BUF_SIZE = Some d" "out = [s]"
    "arrives svc s = Some (PRequest (convert_id S nTo) nSessionID (cs_id (si_self S)) (sz_type z) name d)"
proof -
  let ?to = "convert_id S nTo" and ?t = "case opt of None \<Rightarrow> 0 | Some (_, t) \<Rightarrow> t"
  have ne: "\<not> (si_convert S \<noteq> None \<and> ?to = 0)"
    using inv by (auto simp: transport_invoke_def Let_def split: if_splits)
  obtain z where z: "pick_serializer S ?to ?t = Some z"
    using inv ne by (cases "pick_serializer S ?to ?t") (auto simp: transport_invoke_def Let_def)
  obtain name where name: "sz_name z m = Some name"
    using inv ne z by (cases "sz_name z m") (auto simp: transport_invoke_def Let_def)
  note law = site_okD(1) [OF ok z]
  have nm: "length name < 2 ^ 16" "0 \<notin> set name" "name \<noteq> []"
    using message_serializer.name_short [OF law name] message_serializer.name_ok [OF law name] site_okD(3) [OF ok z name] by auto
  have ty: "sz_type z < 256" by (rule message_serializer.type_byte [OF law])
  have id: "cs_id (si_self S) < 2 ^ 32" using ok by (simp add: site_ok_def)
  show thesis
  proof (cases "si_local S ?to")
    case None
    let ?k = "getOtherNodeSocketIDByServiceID ?to (si_proxy S)" and ?n = "request_cookice_size + length name"
    obtain d where d: "sz_encode z m (BUF_SIZE - ?n) = Some d"
      and out: "out = [ToSocket ?k MT_REQUEST (request_bytes nSessionID (cs_id (si_self S)) ?to (sz_type z) name d)]"
      using inv ne z name None by (auto simp: transport_invoke_def Let_def split: if_splits option.splits)
    have "sz_encode z m BUF_SIZE = Some d" by (rule message_serializer.more_room [OF law d]) simp
    moreover have "arrives svc (ToSocket ?k MT_REQUEST (request_bytes nSessionID (cs_id (si_self S)) ?to (sz_type z) name d)) =
        Some (PRequest ?to nSessionID (cs_id (si_self S)) (sz_type z) name d)"
      using dispatch_request_bytes [where svc = svc, OF b(1) id b(2) ty nm svc] by (simp add: arrives_def)
    ultimately show thesis using that z name out by blast
  next
    case (Some to)
    obtain d where d: "sz_encode z m BUF_SIZE = Some d"
      and out: "out = [ToQueue (PRequest ?to nSessionID (cs_id (si_self S)) (sz_type z) name d)]"
      using inv ne z name Some by (auto simp: transport_invoke_def Let_def split: if_splits option.splits)
    then show thesis using that z name by (simp add: arrives_def)
  qed
qed

lemma response_arrives:
  assumes ok: "site_ok S" and res: "transport_response S nTo nSessionID nResult (Some m) nType = Some (True, out)"
    and b: "nSessionID < 2 ^ 64" "convert_id S nTo < 2 ^ 32" "nResult < 2 ^ 32" and svc: "svc (convert_id S nTo)"
  obtains z name d s where "pick_serializer S (convert_id S nTo) nType = Some z"
    "sz_name z m = Some name" "name \<noteq> []" "sz_encode z m BUF_SIZE = Some d" "out = [s]"
    "arrives svc s = Some (PResponse (convert_id S nTo) nSessionID (cs_id (si_self S)) (sz_type z) nResult name d)"
proof -
  let ?to = "convert_id S nTo"
  have ne: "\<not> (si_convert S \<noteq> None \<and> ?to = 0)"
    using res by (auto simp: transport_response_def Let_def split: if_splits)
  obtain z where z: "pick_serializer S ?to nType = Some z"
    using res ne by (cases "pick_serializer S ?to nType") (auto simp: transport_response_def Let_def)
  obtain name where name: "sz_name z m = Some name"
    using res ne z by (cases "sz_name z m") (auto simp: transport_response_def Let_def)
  note law = site_okD(1) [OF ok z]
  have nm: "length name < 2 ^ 16" "0 \<notin> set name" "name \<noteq> []"
    using message_serializer.name_short [OF law name] message_serializer.name_ok [OF law name] site_okD(3) [OF ok z name] by auto
  have ty: "sz_type z < 256" by (rule message_serializer.type_byte [OF law])
  have id: "cs_id (si_self S) < 2 ^ 32" using ok by (simp add: site_ok_def)
  show thesis
  proof (cases "si_local S ?to")
    case None
    let ?k = "getOtherNodeSocketIDByServiceID ?to (si_proxy S)" and ?n = "response_cookice_size + length name"
    obtain d where d: "sz_encode z m (BUF_SIZE - ?n) = Some d"
      and out: "out = [ToSocket ?k MT_RESPONSE (response_bytes nSessionID (cs_id (si_self S)) ?to nResult (sz_type z) name d)]"
      using res ne z name None by (auto simp: transport_response_def Let_def split: if_splits option.splits)
    have "sz_encode z m BUF_SIZE = Some d" by (rule message_serializer.more_room [OF law d]) simp
    moreover have "arrives svc (ToSocket ?k MT_RESPONSE (response_bytes nSessionID (cs_id (si_self S)) ?to nResult (sz_type z) name d)) =
        Some (PResponse ?to nSessionID (cs_id (si_self S)) (sz_type z) nResult name d)"
      using dispatch_response_bytes [where svc = svc, OF b(1) id b(2,3) ty nm(1,2) svc] by (simp add: arrives_def MT_REQUEST_def MT_RESPONSE_def)
    ultimately show thesis using that z name nm(3) out by blast
  next
    case (Some to)
    obtain d where d: "sz_encode z m BUF_SIZE = Some d"
      and out: "out = [ToQueue (PResponse ?to nSessionID (cs_id (si_self S)) (sz_type z) nResult name d)]"
      using res ne z name Some by (auto simp: transport_response_def Let_def split: if_splits option.splits)
    then show thesis using that z name nm(3) by (simp add: arrives_def)
  qed
qed

subsection \<open>A service of the same node, or of another\<close>

lemma invoke_to_queue:
  assumes "transport_invoke S nTo nSessionID (Some m) opt = (True, out)"
    and "pick_serializer S (convert_id S nTo) (case opt of None \<Rightarrow> 0 | Some (_, t) \<Rightarrow> t) = Some z"
    and "sz_name z m = Some name" and "sz_encode z m BUF_SIZE = Some d"
  shows "transport_invoke (S\<lparr>si_local := (si_local S)(convert_id S nTo \<mapsto> cs)\<rparr>) nTo nSessionID (Some m) opt =
    (True, [ToQueue (PRequest (convert_id S nTo) nSessionID (cs_id (si_self S)) (sz_type z) name d)])"
proof -
  let ?L = "S\<lparr>si_local := (si_local S)(convert_id S nTo \<mapsto> cs)\<rparr>"
  have ne: "\<not> (si_convert S \<noteq> None \<and> convert_id S nTo = 0)"
    using assms(1) by (auto simp: transport_invoke_def Let_def split: if_splits)
  have c: "convert_id ?L nTo = convert_id S nTo" by (simp add: convert_id_def)
  have p: "pick_serializer ?L x t = pick_serializer S x t" for x t by (simp add: pick_serializer_def)
  have f: "si_convert ?L = si_convert S" "si_self ?L = si_self S" "si_local ?L (convert_id S nTo) = Some cs" by simp_all
  show ?thesis unfolding transport_invoke_def Let_def c p f option.case assms(2-4) using ne by simp
qed


subsection \<open>A call and its answer\<close>

text \<open>The serializers of a service carry \<open>x\<close> under the name: what they wrote they read back.\<close>

definition carries :: "'m serializer core_service \<Rightarrow> 'm \<Rightarrow> bstr \<Rightarrow> bool" where
  "carries cs x name \<longleftrightarrow>
     (\<forall>t z. getServiceMessageSerializerByType t cs = Some z \<longrightarrow> sz_name z x = Some name \<and>
        (\<forall>n d. sz_encode z x n = Some d \<longrightarrow> sz_decode z name d = Some x))"

definition same_serializers :: "'m serializer core_service \<Rightarrow> 'm serializer core_service \<Rightarrow> bool" where
  "same_serializers a b \<longleftrightarrow>
     (\<forall>t. getServiceMessageSerializerByType t a = getServiceMessageSerializerByType t b)"

text \<open>
  What a call needs of the serializer that is chosen for it: the other service has the same one, and it takes
  the message back from what it made of it.
\<close>

definition carried_by :: "'m serializer \<Rightarrow> 'm serializer core_service \<Rightarrow> 'm \<Rightarrow> bstr \<Rightarrow> bool" where
  "carried_by z cs x name \<longleftrightarrow> getServiceMessageSerializerByType (sz_type z) cs = Some z \<and>
     (\<forall>n. sz_name z x = Some n \<longrightarrow> n = name) \<and> (\<forall>d. sz_encode z x BUF_SIZE = Some d \<longrightarrow> sz_decode z name d = Some x)"

lemma carries_by:
  assumes "site_ok S" and "same_serializers (si_self S) cs" and "carries cs x name" and "pick_serializer S nTo t = Some z"
  shows "carried_by z cs x name"
proof -
  have t: "getServiceMessageSerializerByType (sz_type z) cs = Some z"
    using site_okD(2) [OF assms(1,4)] assms(2) by (simp add: same_serializers_def)
  with assms(3) have "sz_name z x = Some name" "\<forall>n d. sz_encode z x n = Some d \<longrightarrow> sz_decode z name d = Some x"
    unfolding carries_def by blast+
  then show ?thesis using t by (simp add: carried_by_def)
qed

lemma request_handled:
  assumes "site_ok A" and "transport_invoke A nTo nSessionID (Some m) opt = (True, out)"
    and "nSessionID < 2 ^ 64" and "convert_id A nTo < 2 ^ 32" and "svc (convert_id A nTo)"
    and "\<And>z. pick_serializer A (convert_id A nTo) (case opt of None \<Rightarrow> 0 | Some (_, t) \<Rightarrow> t) = Some z \<Longrightarrow> carried_by z cs m name"
    and "getServiceMessageHandler name cs = Some h"
  obtains s pk where "out = [s]" "arrives svc s = Some pk" "pk_to pk = convert_id A nTo"
    "md_dispatch tg bc pk cs = Some (Some (HandleRequest h (cs_id (si_self A)) nSessionID m), incQPS cs)"
proof -
  obtain z name' d s where z: "pick_serializer A (convert_id A nTo) (case opt of None \<Rightarrow> 0 | Some (_, t) \<Rightarrow> t) = Some z"
    "sz_name z m = Some name'" "sz_encode z m BUF_SIZE = Some d" "out = [s]"
    and a: "arrives svc s = Some (PRequest (convert_id A nTo) nSessionID (cs_id (si_self A)) (sz_type z) name' d)"
    by (rule invoke_arrives [where svc = svc, OF assms(1-5)])
  have t: "getServiceMessageSerializerByType (sz_type z) cs = Some z" and n: "name' = name" and dec: "sz_decode z name d = Some m"
    using assms(6) [OF z(1)] z(2,3) unfolding carried_by_def by blast+
  have g: "getServiceMessageSerializerByType ty (incQPS cs) = getServiceMessageSerializerByType ty cs"
    "getServiceMessageHandler x (incQPS cs) = getServiceMessageHandler x cs" for ty x
    by (simp_all add: incQPS_def getServiceMessageSerializerByType_def getServiceMessageHandler_def)
  show thesis
    by (rule that [OF z(4) a]) (simp_all add: md_dispatch_def dispatch_to_handler_def Let_def g t n dec assms(7))
qed

lemma response_handled:
  assumes "site_ok B" and "transport_response B nTo nSessionID nResult (Some x) nType = Some (True, out)"
    and "nSessionID < 2 ^ 64" and "convert_id B nTo < 2 ^ 32" and "nResult < 2 ^ 32" and "svc (convert_id B nTo)"
    and "\<And>z. pick_serializer B (convert_id B nTo) nType = Some z \<Longrightarrow> carried_by z cs x name"
    and "om_get (cs_pending cs) nSessionID = Some p" and "nSessionID \<noteq> 0" and "pi_callback p \<noteq> 0" and "om_ok (cs_pending cs)"
  obtains s pk cs' where "out = [s]" "arrives svc s = Some pk"
    "md_dispatch tg bc pk cs = Some (Some (HandleResponse (pi_coroutine p) (pi_callback p) (Some x) nResult), cs')"
    "om_get (cs_pending cs') = (om_get (cs_pending cs))(nSessionID := None)"
proof -
  obtain z name' d s where z: "pick_serializer B (convert_id B nTo) nType = Some z"
    "sz_name z x = Some name'" "name' \<noteq> []" "sz_encode z x BUF_SIZE = Some d" "out = [s]"
    and a: "arrives svc s = Some (PResponse (convert_id B nTo) nSessionID (cs_id (si_self B)) (sz_type z) nResult name' d)"
    by (rule response_arrives [where svc = svc, OF assms(1-6)])
  have t: "getServiceMessageSerializerByType (sz_type z) cs = Some z" and n: "name' = name" and dec: "sz_decode z name d = Some x"
    using assms(7) [OF z(1)] z(2,4) unfolding carried_by_def by blast+
  have g: "getServiceMessageSerializerByType ty (incQPS cs) = getServiceMessageSerializerByType ty cs" for ty
    by (simp add: incQPS_def getServiceMessageSerializerByType_def)
  define cs1 where "cs1 = snd (getPendingResponseInfo nSessionID (incQPS cs))"
  have get: "getPendingResponseInfo nSessionID (incQPS cs) = (Some p, cs1)"
    using assms(8) by (simp add: cs1_def getPendingResponseInfo_def incQPS_def Let_def split: option.split)
  have pend: "om_get (cs_pending cs1) = (om_get (cs_pending cs))(nSessionID := None)"
    using assms(8) by (simp add: cs1_def getPendingResponseInfo_def incQPS_def Let_def split: option.split)
  let ?cs' = "destroy_pending p (updateServiceHealth (pi_to p) (nResult = RRT_TIME_OUT) cs1)"
  have "md_dispatch tg bc (PResponse (convert_id B nTo) nSessionID (cs_id (si_self B)) (sz_type z) nResult name' d) cs =
      Some (Some (HandleResponse (pi_coroutine p) (pi_callback p) (Some x) nResult), ?cs')"
    using z(3) assms(9,10) by (simp add: md_dispatch_def dispatch_to_caller_def Let_def g t n dec get)
  moreover have "om_get (cs_pending ?cs') = (om_get (cs_pending cs))(nSessionID := None)"
    using pend by (simp add: destroy_pending_def updateServiceHealth_def Let_def)
  ultimately show thesis using that [OF z(5) a] by simp
qed

text \<open>A request that was sent waits at the caller under its session; nothing else of the caller that the rest needs has changed.\<close>

lemma invoke_waits:
  fixes A :: "'m site"
  defines "ses \<equiv> unat (fst (genSessionID (si_self A)))"
  assumes "invoker_invoke dflt now bCheckHealth nRand nTo (Some m) nCo cb opt nHolder A = (True, out, A')"
    and "om_ok (cs_pending (si_self A))"
  obtains A1 p where "transport_invoke A1 nTo ses (Some m) opt = (True, out)" and "site_ok A \<longrightarrow> site_ok A1"
    and "convert_id A1 = convert_id A" and "pick_serializer A1 = pick_serializer A" and "cs_id (si_self A1) = cs_id (si_self A)"
    and "\<forall>t. getServiceMessageSerializerByType t (si_self A1) = getServiceMessageSerializerByType t (si_self A)"
    and "\<forall>t. getServiceMessageSerializerByType t (si_self A') = getServiceMessageSerializerByType t (si_self A)"
    and "om_get (cs_pending (si_self A)) ses = None" and "om_get (cs_pending (si_self A')) = (om_get (cs_pending (si_self A)))(ses \<mapsto> p)"
    and "om_ok (cs_pending (si_self A'))" and "pi_coroutine p = nCo" and "pi_callback p = cb" and "ses \<noteq> 0" and "ses < 2 ^ 64"
proof -
  obtain n cs1 where gen: "genSessionID (si_self A) = (n, cs1)" by fastforce
  have ses: "ses = unat n" by (simp add: ses_def gen)
  have n0: "unat n \<noteq> 0" using gen by (auto simp: genSessionID_def Let_def unat_eq_0 split: if_splits)
  have n64: "unat n < 2 ^ 64" using unsigned_less [of n, where 'a = nat] by simp
  have cs1: "cs1 = (si_self A)\<lparr>cs_nextSession := n\<rparr>" using gen by (auto simp: genSessionID_def Let_def)
  let ?A1 = "A\<lparr>si_self := cs1\<rparr>"
  have same1: "getServiceMessageSerializerByType t cs1 = getServiceMessageSerializerByType t (si_self A)"
    "cs_id cs1 = cs_id (si_self A)" for t by (simp_all add: cs1 getServiceMessageSerializerByType_def)
  have conv: "convert_id ?A1 = convert_id A" by (simp add: convert_id_def fun_eq_iff)
  have pick: "pick_serializer ?A1 = pick_serializer A"
    by (simp add: pick_serializer_def fun_eq_iff same1 getServiceMessageSerializer_def cs1 getServiceMessageSerializerByType_def)
  have nc: "\<not> (bCheckHealth \<and> \<not> self_healthy nRand nTo A)"
    using assms(2) by (auto simp: invoker_invoke_def split: if_splits)
  obtain p cs2 where inv: "transport_invoke ?A1 nTo (unat n) (Some m) opt = (True, out)"
    and add: "addPendingResponseInfo dflt now nTo (unat n) nCo cb (case opt of None \<Rightarrow> 0 | Some (nTimeout, _) \<Rightarrow> nTimeout)
        nHolder cs1 = (Some p, cs2)" and A': "A' = ?A1\<lparr>si_self := cs2\<rparr>"
    using assms(2) nc by (auto simp: invoker_invoke_def gen Let_def split: prod.splits if_splits)
  have free: "om_get (cs_pending (si_self A)) (unat n) = None"
    using add by (auto simp: addPendingResponseInfo_def cs1 split: if_splits)
  have p: "pi_coroutine p = nCo" "pi_callback p = cb"
    and pend: "cs_pending cs2 = om_put (unat n) p (cs_pending (si_self A))"
    and ser: "getServiceMessageSerializerByType t cs2 = getServiceMessageSerializerByType t (si_self A)" for t
    using add free by (auto simp: addPendingResponseInfo_def Let_def cs1 getServiceMessageSerializerByType_def split: if_splits)
  show thesis
    by (rule that [of ?A1 p]) (use inv conv pick same1 ser free pend p assms(3) n0 n64 in \<open>simp_all add: ses A' site_ok_def\<close>)
qed


subsection \<open>A message for many clients\<close>

lemma length_session_bytes [simp]: "length (session_bytes ids) = 8 * length ids"
  by (induction ids) (simp_all add: session_bytes_def)

lemma words8_sessions: "\<forall>s \<in> set ids. s < 2 ^ 64 \<Longrightarrow> words8 (length ids) (session_bytes ids @ xs) = ids"
proof (induction ids)
  case (Cons s ids)
  have b: "session_bytes (s # ids) @ xs = le_bytes 8 s @ session_bytes ids @ xs" by (simp add: session_bytes_def)
  have "s mod 256 ^ 8 = s" using Cons.prems by simp
  moreover have "drop 8 (le_bytes 8 s @ session_bytes ids @ xs) = session_bytes ids @ xs" by simp
  ultimately show ?case using Cons unfolding b by (simp add: field_here del: le_bytes.simps)
qed simp

lemma length_client_message [simp]: "length (client_message name d) = message_header_size + length d"
  by (simp add: client_message_def message_header_size_def)

lemma broadcast_dispatched:
  assumes "\<forall>s \<in> set ids. s < 2 ^ 64" and "8 * length ids + message_header_size + length d < 2 ^ 16"
  shows "md_dispatch tg (Some f) (PToGateBroadcast nTo (length ids) (8 * length ids + message_header_size + length d)
      (session_bytes ids @ client_message name d)) cs =
    Some (Some (HandleToGateBroadcast f ids (client_message name d)), incQPS cs)"
proof -
  have "nat ((int (8 * length ids + message_header_size + length d) - 8 * int (length ids)) mod 2 ^ 16) = message_header_size + length d"
    using assms(2) by simp
  then show ?thesis using words8_sessions [OF assms(1)] by (simp add: md_dispatch_def Let_def)
qed

text \<open>
  a message for clients of one gate, which is on the same node or on another. As long as the
  session ids and the message fit into one packet, the gate's callback gets exactly the sessions
  given, in their order, and the message with its header: the size and the hash of the name.
\<close>

theorem broadcast_reaches_gate:
  assumes "site_ok S" and "getForwardMessageSerializer (si_self S) = Some z"
    and "\<And>to. si_local S nTo = Some to \<Longrightarrow> getForwardMessageSerializer to = Some z"
    and "si_local S nTo = None \<Longrightarrow> getOtherNodeSocketIDByServiceID nTo (si_proxy S) \<noteq> 0"
    and "sz_name z m = Some name" and "sz_encode z m BUF_SIZE = Some d"
    and "gate_broadcast_cookice_size + 8 * length ids + message_header_size + length d < BUF_SIZE"
    and "ids \<noteq> []" and "\<forall>s \<in> set ids. s < 2 ^ 64" and "nTo < 2 ^ 32" and "svc nTo"
  shows "\<exists>s pk. transport_broadcast S ids nTo (Some m) = Some (True, [s]) \<and> arrives svc s = Some pk \<and>
     md_dispatch tg (Some f) pk cs = Some (Some (HandleToGateBroadcast f ids (client_message name d)), incQPS cs)"
proof -
  have "getServiceMessageSerializerByType (cs_forwardType (si_self S)) (si_self S) = Some z"
    using assms(2) by (simp add: getForwardMessageSerializer_def getServiceMessageSerializerByType_def)
  then have law: "message_serializer z" using assms(1) by (auto simp: site_ok_def intro: engine_lawful)
  let ?n = "length ids" and ?m = "client_message name d"
  let ?size = "8 * length ids + message_header_size + length d"
  have size: "?size < 2 ^ 16" using assms(7) by (simp add: BUF_SIZE_def)
  note disp = broadcast_dispatched [where tg = tg and f = f and nTo = nTo and name = name and cs = cs, OF assms(9) size]
  show ?thesis
  proof (cases "si_local S nTo")
    case None
    let ?k = "getOtherNodeSocketIDByServiceID nTo (si_proxy S)"
    let ?b = "le_bytes 4 nTo @ le_bytes 2 ?n @ session_bytes ids @ ?m"
    have e: "sz_encode z m (BUF_SIZE - (gate_broadcast_cookice_size + 8 * ?n + message_header_size)) = Some d"
      by (rule message_serializer.room [OF law assms(6)]) (use assms(7) in simp)
    have "transport_broadcast S ids nTo (Some m) = Some (True, [ToSocket ?k MT_TO_GATE_BROADCAST ?b])"
      using assms(2,4,5,7,8) e None by (simp add: transport_broadcast_def Let_def)
    moreover have "arrives svc (ToSocket ?k MT_TO_GATE_BROADCAST ?b) = Some (PToGateBroadcast nTo ?n ?size (session_bytes ids @ ?m))"
    proof -
      have "field 0 4 ?b = nTo" "field 4 2 ?b = ?n"
        using assms(10) size by (simp_all add: field_skip field_here del: le_bytes.simps)
      moreover have "drop 6 ?b = session_bytes ids @ ?m" by simp
      moreover have "(length ?b - 6) mod 2 ^ 16 = ?size" using size by simp
      ultimately show ?thesis using assms(11)
        by (simp add: arrives_def dispatch_broadcast_def gate_broadcast_cookice_size_def mt_defs del: le_bytes.simps)
    qed
    ultimately show ?thesis using disp by blast
  next
    case (Some to)
    have "transport_broadcast S ids nTo (Some m) =
        Some (True, [ToQueue (PToGateBroadcast nTo ?n ?size (session_bytes ids @ ?m))])"
      using assms(3) [OF Some] assms(5,6,8) Some size by (simp add: transport_broadcast_def Let_def algebra_simps)
    moreover have "arrives svc (ToQueue pk) = Some pk" for pk by (simp add: arrives_def)
    ultimately show ?thesis using disp by blast
  qed
qed

lemma group_fold:
  "om_ok m \<Longrightarrow> om_ok (fold (\<lambda>(g, s) m. om_put g (om_at [] m g @ [s]) m) cl m) \<and>
     om_get (fold (\<lambda>(g, s) m. om_put g (om_at [] m g @ [s]) m) cl m) =
       (\<lambda>g. if g \<in> fst ` set cl then Some (om_at [] m g @ map snd (filter (\<lambda>c. fst c = g) cl)) else om_get m g)"
proof (induction cl arbitrary: m)
  case (Cons c cl)
  obtain g s where c: "c = (g, s)" by fastforce
  have "om_ok (om_put g (om_at [] m g @ [s]) m)" using Cons.prems by simp
  from Cons.IH [OF this] Cons.prems show ?case
    by (auto simp: c om_at_def fun_eq_iff image_iff filter_empty_conv split: option.splits)
qed (simp add: fun_eq_iff)

text \<open>
  the clients are grouped by gate: there is one list for each gate some client is on, and it
  has the sessions of exactly the clients on that gate, each as often as it was given and in order.
\<close>

theorem clients_grouped_by_gate:
  "om_ok (group_sessions cl) \<and>
   om_get (group_sessions cl) g =
     (if g \<in> fst ` set cl then Some (map snd (filter (\<lambda>c. fst c = g) cl)) else None)"
  using group_fold [OF om_ok_Nil, of cl] by (simp add: group_sessions_def om_at_def)

subsection \<open>Two services that call each other\<close>

text \<open>Messages are byte strings; their name is \<open>n\<close>.\<close>

definition demo_sz :: "u8 list serializer" where
  "demo_sz = protobuf_serializer (\<lambda>_. [110]) (\<lambda>m. m) (\<lambda>_ d. Some d)"

definition demo_cservice :: "nat \<Rightarrow> u8 list serializer core_service" where
  "demo_cservice i = setForwardMessageSerializer 1 (setServiceMessageSerializer [] 1
     (addServiceMessageSerializer 1 demo_sz (registerServiceMessageHandler [110] 77 (cs_start i 0))))"

definition demo_lp :: "nat \<Rightarrow> local_proxy" where
  "demo_lp i = \<lparr>lp_services = [(i, \<lparr>vp_base = \<lparr>sb_id = i, sb_name = [120], sb_type = [121]\<rparr>, vp_socket = 50\<rparr>)],
     lp_ids = [], lp_nameToID = [([120], i)], lp_idToName = [(i, [120])]\<rparr>"

definition demo_site :: "nat \<Rightarrow> nat \<Rightarrow> u8 list site" where
  "demo_site i j = \<lparr>si_self = demo_cservice i, si_local = (\<lambda>k. if k = i then Some (demo_cservice i) else None),
     si_types = (\<lambda>_. None), si_proxy = demo_lp j, si_convert = None\<rparr>"

lemmas demo_rpc_defs = demo_sz_def demo_cservice_def demo_lp_def demo_site_def protobuf_serializer_def message_name_def
  setForwardMessageSerializer_def setServiceMessageSerializer_def addServiceMessageSerializer_def
  registerServiceMessageHandler_def cs_start_def getServiceMessageSerializerByType_def getServiceMessageSerializer_def
  getForwardMessageSerializer_def getServiceMessageHandler_def

lemma demo_get: "getServiceMessageSerializerByType t (demo_cservice i) = (if t = 1 then Some demo_sz else None)"
  by (simp add: demo_rpc_defs)

lemma demo_name: "sz_name demo_sz m = Some [110]"
  by (simp add: demo_rpc_defs MAX_MESSAGE_NAME_LEN_def cstr_def)

lemma demo_sz_ok: "engine_serializer demo_sz" "sz_type demo_sz = 1"
  unfolding demo_sz_def by (rule engine_serializer.intros) (simp add: protobuf_serializer_def)

lemma demo_site_ok: "i < 2 ^ 32 \<Longrightarrow> site_ok (demo_site i j)"
  unfolding site_ok_def using demo_sz_ok demo_name by (simp add: demo_site_def demo_get) (simp add: demo_rpc_defs)

lemma demo_carries: "carries (demo_cservice i) x [110]"
  unfolding carries_def demo_get by (simp add: demo_name) (simp add: demo_sz_def protobuf_serializer_def)

lemma demo_call:
  "transport_invoke (demo_site 1 2) 2 s (Some [9]) None =
     (True, [ToSocket 50 MT_REQUEST (request_bytes s 1 2 1 [110] [9])])"
  by (simp add: transport_invoke_def convert_id_def pick_serializer_def getOtherNodeSocketIDByServiceID_def demo_rpc_defs
      getServiceType_def MAX_MESSAGE_NAME_LEN_def cstr_def BUF_SIZE_def request_cookice_size_def om_at_def Let_def)


lemma demo_answer:
  "transport_response (demo_site 2 1) 1 s 1 (Some [8]) 1 =
     Some (True, [ToSocket 50 MT_RESPONSE (response_bytes s 2 1 1 1 [110] [8])])"
  by (simp add: transport_response_def convert_id_def pick_serializer_def getOtherNodeSocketIDByServiceID_def demo_rpc_defs
      getServiceType_def MAX_MESSAGE_NAME_LEN_def cstr_def BUF_SIZE_def response_cookice_size_def om_at_def Let_def)

definition demo_out :: "bool \<times> sent list \<times> u8 list site" where
  "demo_out = invoker_invoke 500 0 False 0 2 (Some [9]) 0 33 None 0 (demo_site 1 2)"

lemma demo_gen: "genSessionID (demo_cservice i) = (1, (demo_cservice i)\<lparr>cs_nextSession := 1\<rparr>)"
  by (simp add: demo_rpc_defs genSessionID_def)

lemma demo_out_eval: "demo_out = (True, [ToSocket 50 MT_REQUEST (request_bytes 1 1 2 1 [110] [9])], snd (snd demo_out))"
proof -
  have i: "transport_invoke ((demo_site 1 2)\<lparr>si_self := (demo_cservice 1)\<lparr>cs_nextSession := 1\<rparr>\<rparr>) 2 (Suc 0) (Some [9]) None =
      (True, [ToSocket 50 MT_REQUEST (request_bytes (Suc 0) 1 2 1 [110] [9])])"
    by (simp add: transport_invoke_def convert_id_def pick_serializer_def getOtherNodeSocketIDByServiceID_def demo_rpc_defs
        getServiceType_def MAX_MESSAGE_NAME_LEN_def cstr_def BUF_SIZE_def request_cookice_size_def om_at_def Let_def)
  have s: "si_self (demo_site 1 2) = demo_cservice 1" by (simp add: demo_site_def)
  have p: "cs_pending (demo_cservice i) = []" for i by (simp add: demo_rpc_defs)
  show ?thesis unfolding demo_out_def invoker_invoke_def s demo_gen
    using i by (simp add: Let_def addPendingResponseInfo_def p)
qed


theorem broadcast_reaches_gate_witness:
  "\<exists>s pk. transport_broadcast (demo_site 1 2) [7, 8] 2 (Some [9]) = Some (True, [s]) \<and> arrives (\<lambda>i. i = 2) s = Some pk \<and>
     md_dispatch None (Some 5) pk (demo_cservice 2) =
       Some (Some (HandleToGateBroadcast 5 [7, 8] (client_message [110] [9])), incQPS (demo_cservice 2))"
proof (rule broadcast_reaches_gate [OF demo_site_ok, where z = demo_sz])
  show "getForwardMessageSerializer (si_self (demo_site 1 2)) = Some demo_sz" by (simp add: demo_rpc_defs)
  show "sz_encode demo_sz [9] BUF_SIZE = Some [9]" by (simp add: demo_rpc_defs BUF_SIZE_def)
  show "getOtherNodeSocketIDByServiceID 2 (si_proxy (demo_site 1 2)) \<noteq> 0"
    by (simp add: demo_rpc_defs getOtherNodeSocketIDByServiceID_def)
  show "gate_broadcast_cookice_size + 8 * length [7, 8 :: nat] + message_header_size + length [9 :: u8] < BUF_SIZE"
    by (simp add: cookice_sizes BUF_SIZE_def)
qed (simp_all add: demo_name demo_site_def)

end
