(* ===== verification/String_Util.thy ===== *)
theory String_Util imports Prelude "HOL-Library.Char_ord" begin

text \<open>
  The string helpers of \<open>engine/inc/libBaseCommon/string_util.inl\<close> and
  \<open>string_format.inl\<close>: searching, trimming, splitting, replacing, and the text form of
  integers that \<open>convert_to_str\<close> and \<open>convert_to_value\<close> take from the stream library.
  A \<open>std::string\<close> is a list of characters, \<open>npos\<close> is \<open>None\<close>.
\<close>

section \<open>Searching\<close>

text \<open>\<open>std::string::find\<close>: the first occurrence at or after a position.\<close>

fun starts_with :: "string \<Rightarrow> string \<Rightarrow> bool" where
  "starts_with s [] = True"
| "starts_with [] (c # cs) = False"
| "starts_with (a # s) (c # cs) = (a = c \<and> starts_with s cs)"

fun find_sub :: "string \<Rightarrow> string \<Rightarrow> nat option" where
  "find_sub [] p = (if p = [] then Some 0 else None)"
| "find_sub (c # s) p = (if starts_with (c # s) p then Some 0 else map_option Suc (find_sub s p))"

definition str_find :: "string \<Rightarrow> string \<Rightarrow> nat \<Rightarrow> nat option" where
  "str_find s p pos = (if pos > length s then None else map_option (\<lambda>i. pos + i) (find_sub (drop pos s) p))"

definition digit_char :: "nat \<Rightarrow> char" where
  "digit_char d = char_of (48 + d)"

fun show_nat :: "nat \<Rightarrow> string" where
  "show_nat n = (if n < 10 then [digit_char n] else show_nat (n div 10) @ [digit_char (n mod 10)])"

declare show_nat.simps [simp del]

text \<open>\<open>oss << v\<close> of an integer.\<close>

definition show_int :: "int \<Rightarrow> string" where
  "show_int i = (if i < 0 then CHR ''-'' # show_nat (nat (- i)) else show_nat (nat i))"

definition is_digit :: "char \<Rightarrow> bool" where
  "is_digit c \<longleftrightarrow> 48 \<le> (of_char c :: nat) \<and> (of_char c :: nat) \<le> 57"

definition is_space :: "char \<Rightarrow> bool" where
  "is_space c \<longleftrightarrow> (of_char c :: nat) = 32 \<or> 9 \<le> (of_char c :: nat) \<and> (of_char c :: nat) \<le> 13"

definition digits_value :: "string \<Rightarrow> nat" where
  "digits_value s = foldl (\<lambda>n c. n * 10 + (of_char c - 48)) 0 s"

text \<open>
  \<open>iss >> v\<close>: white space is skipped, then an optional sign and the longest run of digits;
  no digit or a value out of range fails.  A negative text for an unsigned type is accepted
  and negated modulo the range.
\<close>

definition read_sign :: "string \<Rightarrow> bool \<times> string" where
  "read_sign s = (case s of c # r \<Rightarrow> if c = CHR ''-'' then (True, r) else if c = CHR ''+'' then (False, r)
      else (False, s) | [] \<Rightarrow> (False, s))"

definition read_number :: "string \<Rightarrow> (bool \<times> nat) option" where
  "read_number s = (let (neg, r) = read_sign (dropWhile is_space s); ds = takeWhile is_digit r in
     if ds = [] then None else Some (neg, digits_value ds))"

definition read_signed :: "nat \<Rightarrow> string \<Rightarrow> int option" where
  "read_signed w s = (case read_number s of None \<Rightarrow> None
     | Some (neg, n) \<Rightarrow> (let v = if neg then - int n else int n in
         if - (2 ^ (w - 1)) \<le> v \<and> v < 2 ^ (w - 1) then Some v else None))"

definition read_unsigned :: "nat \<Rightarrow> string \<Rightarrow> int option" where
  "read_unsigned w s = (case read_number s of None \<Rightarrow> None
     | Some (neg, n) \<Rightarrow> if int n < 2 ^ w then Some (if neg then (- int n) mod 2 ^ w else int n) else None)"


section \<open>The helpers\<close>

definition str_rfind :: "string \<Rightarrow> string \<Rightarrow> nat option" where
  "str_rfind s p = map_option (\<lambda>i. length s - length p - i) (find_sub (rev s) (rev p))"

definition str_replace :: "string \<Rightarrow> nat \<Rightarrow> nat \<Rightarrow> string \<Rightarrow> string" where
  "str_replace s pos n r = take pos s @ r @ drop (pos + n) s"

definition start_with :: "string \<Rightarrow> string \<Rightarrow> bool" where
  "start_with str substr \<longleftrightarrow> str_find str substr 0 = Some 0"

text \<open>\<open>str.length() - substr.length()\<close> is a \<open>size_t\<close>: \<open>npos\<close> is its largest value.\<close>

definition end_with :: "string \<Rightarrow> string \<Rightarrow> bool" where
  "end_with str substr \<longleftrightarrow>
     (case str_rfind str substr of None \<Rightarrow> (- 1 :: u64) | Some i \<Rightarrow> of_nat i)
     = of_nat (length str) - of_nat (length substr)"

definition ltrim :: "string \<Rightarrow> string \<Rightarrow> string" where
  "ltrim str delim = dropWhile (\<lambda>c. c \<in> set delim) str"

definition rtrim :: "string \<Rightarrow> string \<Rightarrow> string" where
  "rtrim str delim = rev (dropWhile (\<lambda>c. c \<in> set delim) (rev str))"

definition trim :: "string \<Rightarrow> string \<Rightarrow> string" where
  "trim str delim = rtrim (ltrim str delim) delim"

definition str_erase :: "string \<Rightarrow> char \<Rightarrow> string" where
  "str_erase str c = filter (\<lambda>x. x \<noteq> c) str"

text \<open>\<open>replace_all\<close>: the search restarts at the place of the replacement, so the loop need not end.\<close>

partial_function (option) replace_from :: "string \<Rightarrow> string \<Rightarrow> string \<Rightarrow> nat \<Rightarrow> string option" where
  "replace_from delim s str pos = (case str_find str delim pos of None \<Rightarrow> Some str
     | Some p \<Rightarrow> replace_from delim s (str_replace str p (length delim) s) p)"

definition replace_all :: "string \<Rightarrow> string \<Rightarrow> string \<Rightarrow> string option" where
  "replace_all str delim s = replace_from delim s str 0"

text \<open>\<open>split\<close>: the argument is the text from \<open>substart\<close> on; with an empty \<open>delim\<close> the loop
  stays where it is.\<close>

partial_function (option) split_loop :: "string \<Rightarrow> string \<Rightarrow> string list \<Rightarrow> string list option" where
  "split_loop delim str result =
    (let n = (case find_sub str delim of None \<Rightarrow> length str | Some i \<Rightarrow> i);
         temp = take n str;
         result' = (if temp \<noteq> [] then result @ [temp] else result)
     in if n = length str then Some result' else split_loop delim (drop (n + length delim) str) result')"

definition split_str :: "string \<Rightarrow> string \<Rightarrow> string list option" where
  "split_str str delim = (if str = [] then Some [] else split_loop delim str [])"

definition same_letter :: "char \<Rightarrow> char \<Rightarrow> bool" where
  "same_letter a b \<longleftrightarrow> (let low = (\<lambda>c. (of_char c :: nat) + (if 65 \<le> (of_char c :: nat) \<and> (of_char c :: nat) \<le> 90 then 32 else 0))
     in low a = low b)"

definition strnicmp_equal :: "string \<Rightarrow> string \<Rightarrow> bool" where
  "strnicmp_equal a b \<longleftrightarrow> list_all2 same_letter a b"

text \<open>The two overloads of \<open>equal\<close>; the flag \<open>letter\<close> means the opposite in the second.\<close>

definition equal_str :: "string \<Rightarrow> string \<Rightarrow> bool \<Rightarrow> bool" where
  "equal_str lhs rhs letter = (if length lhs \<noteq> length rhs then False
     else if letter then lhs = rhs else strnicmp_equal lhs rhs)"

definition equal_cstr :: "string option \<Rightarrow> string option \<Rightarrow> bool \<Rightarrow> bool" where
  "equal_cstr lhs rhs letter = (case (lhs, rhs) of
     (Some l, Some r) \<Rightarrow> if length l \<noteq> length r then False
       else if letter then strnicmp_equal l r else l = r
   | _ \<Rightarrow> False)"

text \<open>A \<open>char\<close> is signed; only the letters of the C locale have another case.\<close>

definition char_int :: "char \<Rightarrow> int" where
  "char_int c = (if (of_char c :: nat) < 128 then of_char c else of_char c - 256)"

definition tolower :: "char \<Rightarrow> char" where
  "tolower c = (if 65 \<le> (of_char c :: nat) \<and> (of_char c :: nat) \<le> 90 then char_of ((of_char c :: nat) + 32) else c)"

definition toupper :: "char \<Rightarrow> char" where
  "toupper c = (if 97 \<le> (of_char c :: nat) \<and> (of_char c :: nat) \<le> 122 then char_of ((of_char c :: nat) - 32) else c)"

definition to_lower :: "string \<Rightarrow> string" where "to_lower str = map tolower str"
definition to_upper :: "string \<Rightarrow> string" where "to_upper str = map toupper str"

fun string_cmp_nocase :: "string \<Rightarrow> string \<Rightarrow> bool" where
  "string_cmp_nocase (p # lhs) (p2 # rhs) =
    (if char_int (toupper p) \<noteq> char_int (toupper p2) then char_int (toupper p) < char_int (toupper p2)
     else string_cmp_nocase lhs rhs)"
| "string_cmp_nocase lhs rhs = (length lhs < length rhs)"

text \<open>\<open>format\<close>: each argument, as text, replaces the first \<open>{}\<close> of what the ones before have left.\<close>

definition push2Special :: "string \<Rightarrow> string \<Rightarrow> string" where
  "push2Special strfmt val = (case str_find strfmt ''{}'' 0 of None \<Rightarrow> strfmt
     | Some pos \<Rightarrow> str_replace strfmt pos 2 val)"

fun push_args :: "string \<Rightarrow> string list \<Rightarrow> string" where
  "push_args strfmt [] = strfmt"
| "push_args strfmt (t # args) = push_args (push2Special strfmt t) args"

definition format_str :: "string \<Rightarrow> string list \<Rightarrow> string" where
  "format_str szfmt args = push_args szfmt args"

section \<open>Lemmas\<close>

lemma starts_with_iff: "starts_with s p \<longleftrightarrow> (\<exists>r. s = p @ r)"
  by (induction s p rule: starts_with.induct) auto

lemma starts_with_take: "starts_with s p \<longleftrightarrow> take (length p) s = p"
  by (induction s p rule: starts_with.induct) auto

lemma find_sub_Some: "find_sub s p = Some i \<Longrightarrow> \<exists>r. s = take i s @ p @ r \<and> i \<le> length s"
proof (induction s arbitrary: i)
  case (Cons c s)
  then show ?case by (auto simp: starts_with_iff split: if_splits)
qed (auto split: if_splits)

lemma find_sub_bound: "find_sub s p = Some i \<Longrightarrow> i + length p \<le> length s"
  using find_sub_Some [of s p i] by (metis add.commute append_take_drop_id length_append length_drop
      le_add_diff_inverse2 append_eq_append_conv nat_le_iff_add add_le_cancel_left)

lemma find_sub_prefix [simp]: "find_sub (p @ s) p = Some 0"
proof (cases "p @ s")
  case (Cons c r)
  then have "starts_with (c # r) p" by (metis starts_with_iff)
  then show ?thesis by (simp add: Cons)
qed simp

lemma find_sub_single: "find_sub s [c] = (if c \<in> set s then Some (length (takeWhile (\<lambda>x. x \<noteq> c) s)) else None)"
  by (induction s) auto

lemma of_char_digit [simp]: "d < 10 \<Longrightarrow> (of_char (digit_char d) :: nat) = 48 + d"
  by (simp add: digit_char_def of_char_of)

lemma is_digit_digit_char [simp]: "d < 10 \<Longrightarrow> is_digit (digit_char d)"
  by (simp add: is_digit_def)

lemma show_nat_digits: "c \<in> set (show_nat n) \<Longrightarrow> is_digit c"
proof (induction n rule: show_nat.induct)
  case (1 n)
  show ?case
  proof (cases "n < 10")
    case True then show ?thesis using 1(2) by (simp add: show_nat.simps [of n])
  next
    case False
    have "c = digit_char (n mod 10) \<or> c \<in> set (show_nat (n div 10))"
      using 1(2) False by (subst (asm) show_nat.simps) auto
    then show ?thesis using 1(1) False by auto
  qed
qed

lemma show_nat_not_Nil [simp]: "show_nat n \<noteq> []"
  by (subst show_nat.simps) simp

lemma digits_value_snoc: "digits_value (s @ [c]) = digits_value s * 10 + (of_char c - 48)"
  by (simp add: digits_value_def)

lemma digits_value_show [simp]: "digits_value (show_nat n) = n"
proof (induction n rule: show_nat.induct)
  case (1 n)
  show ?case
  proof (cases "n < 10")
    case True then show ?thesis by (subst show_nat.simps) (simp add: digits_value_def)
  next
    case False
    then show ?thesis using 1 by (subst show_nat.simps) (simp add: digits_value_snoc)
  qed
qed

lemma takeWhile_show_nat [simp]: "takeWhile is_digit (show_nat n) = show_nat n"
  by (simp add: takeWhile_eq_all_conv show_nat_digits)

lemma digit_not_space: "is_digit c \<Longrightarrow> \<not> is_space c \<and> c \<noteq> CHR ''-'' \<and> c \<noteq> CHR ''+''"
  by (auto simp: is_digit_def is_space_def)

lemma read_number_show_nat: "read_number (show_nat n) = Some (False, n)"
proof -
  obtain c r where s: "show_nat n = c # r" by (cases "show_nat n") auto
  then have c: "is_digit c" by (metis list.set_intros(1) show_nat_digits)
  have "dropWhile is_space (show_nat n) = show_nat n" using c by (simp add: s digit_not_space)
  moreover have "read_sign (show_nat n) = (False, show_nat n)"
    using c by (simp add: s read_sign_def digit_not_space)
  ultimately show ?thesis by (simp add: read_number_def)
qed

lemma read_number_show_int: "read_number (show_int i) = Some (i < 0, nat \<bar>i\<bar>)"
proof (cases "i < 0")
  case True
  have "\<not> is_space (CHR ''-'')" by (simp add: is_space_def)
  then have "dropWhile is_space (show_int i) = show_int i" using True by (simp add: show_int_def)
  moreover have "read_sign (show_int i) = (True, show_nat (nat (- i)))"
    using True by (simp add: read_sign_def show_int_def)
  ultimately show ?thesis using True by (simp add: read_number_def)
next
  case False
  then show ?thesis by (simp add: show_int_def read_number_show_nat)
qed

lemma read_signed_show: "- (2 ^ (w - 1)) \<le> i \<Longrightarrow> i < 2 ^ (w - 1) \<Longrightarrow> read_signed w (show_int i) = Some i"
  by (simp add: read_signed_def read_number_show_int)

lemma read_unsigned_show: "0 \<le> i \<Longrightarrow> i < 2 ^ w \<Longrightarrow> read_unsigned w (show_int i) = Some i"
  by (simp add: read_unsigned_def read_number_show_int)

section \<open>Splitting and joining\<close>

fun join_with :: "char \<Rightarrow> string list \<Rightarrow> string" where
  "join_with c [] = []"
| "join_with c [s] = s"
| "join_with c (s # ss) = s @ c # join_with c ss"

lemma find_sub_char: "c \<notin> set x \<Longrightarrow> find_sub (x @ c # r) [c] = Some (length x)"
  by (induction x) auto

lemma find_sub_no_char: "c \<notin> set x \<Longrightarrow> find_sub x [c] = None"
  by (induction x) auto

lemma split_loop_char:
  "c \<notin> set x \<Longrightarrow> x \<noteq> [] \<Longrightarrow> split_loop [c] (x @ c # r) result = split_loop [c] r (result @ [x])"
  "c \<notin> set x \<Longrightarrow> x \<noteq> [] \<Longrightarrow> split_loop [c] x result = Some (result @ [x])"
  by (subst split_loop.simps, simp add: find_sub_char find_sub_no_char Let_def)+

lemma split_join:
  "xs \<noteq> [] \<Longrightarrow> \<forall>x \<in> set xs. x \<noteq> [] \<and> c \<notin> set x \<Longrightarrow> split_loop [c] (join_with c xs) result = Some (result @ xs)"
  by (induction c xs arbitrary: result rule: join_with.induct) (simp_all add: split_loop_char)

text \<open>The loop of \<open>split\<close> ends when the delimiter is not empty.\<close>

lemma split_loop_returns: "delim \<noteq> [] \<Longrightarrow> \<exists>r. split_loop delim str result = Some r"
proof (induction "length str" arbitrary: str result rule: less_induct)
  case less
  show ?case
  proof (cases "find_sub str delim")
    case None
    then show ?thesis by (subst split_loop.simps) (simp add: Let_def)
  next
    case (Some i)
    then have b: "i + length delim \<le> length str" by (rule find_sub_bound)
    then have "length (drop (i + length delim) str) < length str" using less.prems by (cases delim) auto
    from less.hyps [OF this less.prems] show ?thesis
      using Some b less.prems by (subst split_loop.simps) (auto simp: Let_def)
  qed
qed

section \<open>Replacing\<close>

text \<open>The replacement ends when it makes the text shorter.\<close>

lemma replace_from_returns: "length s < length delim \<Longrightarrow> \<exists>r. replace_from delim s str pos = Some r"
proof (induction "length str" arbitrary: str pos rule: less_induct)
  case less
  show ?case
  proof (cases "str_find str delim pos")
    case None
    then show ?thesis by (subst replace_from.simps) simp
  next
    case (Some p)
    then obtain i where i: "find_sub (drop pos str) delim = Some i" "p = pos + i"
      by (auto simp: str_find_def split: if_splits)
    have "p + length delim \<le> length str" using find_sub_bound [OF i(1)] less.prems i(2) by simp
    then have "length (str_replace str p (length delim) s) < length str"
      using less.prems by (simp add: str_replace_def)
    from less.hyps [OF this less.prems] show ?thesis using Some by (subst replace_from.simps) simp
  qed
qed

lemma find_sub_occurs: "find_sub (a @ p @ b) p \<noteq> None"
proof (induction a)
  case (Cons x a)
  then show ?case by (auto split: if_splits)
qed simp

text \<open>It never ends when the replacement holds the delimiter.\<close>

lemma replace_from_loops:
  assumes "replace_from delim s str pos = Some r"
  shows "(\<exists>a b. s = a @ delim @ b) \<longrightarrow> str_find str delim pos = None"
proof (rule replace_from.raw_induct
    [where P = "\<lambda>d s str pos r. (\<exists>a b. s = a @ d @ b) \<longrightarrow> str_find str d pos = None", OF _ assms], intro impI)
  fix f and d s str r :: string and pos :: nat
  assume IH: "\<And>d s str pos r. f d s str pos = Some r \<Longrightarrow> (\<exists>a b. s = a @ d @ b) \<longrightarrow> str_find str d pos = None"
    and step: "(case str_find str d pos of None \<Rightarrow> Some str
      | Some p \<Rightarrow> f d s (str_replace str p (length d) s) p) = Some r"
    and "\<exists>a b. s = a @ d @ b"
  then obtain a b where s: "s = a @ d @ b" by blast
  show "str_find str d pos = None"
  proof (rule ccontr)
    assume "str_find str d pos \<noteq> None"
    then obtain p where p: "str_find str d pos = Some p" by auto
    then obtain i where i: "find_sub (drop pos str) d = Some i" "p = pos + i" by (auto simp: str_find_def split: if_splits)
    let ?new = "str_replace str p (length d) s"
    have "f d s ?new p = Some r" using step p by simp
    from IH [OF this] s have "str_find ?new d p = None" by blast
    moreover have "p \<le> length str"
      using p find_sub_bound [OF i(1)] i(2) by (auto simp: str_find_def split: if_splits)
    then have "drop p ?new = s @ drop (p + length d) str" "p \<le> length ?new" by (auto simp: str_replace_def)
    ultimately show False using find_sub_occurs [of a d "b @ drop (p + length d) str"] s
      by (auto simp: str_find_def)
  qed
qed

section \<open>Formatting\<close>

abbreviation hole :: string where "hole \<equiv> [CHR 0x7B, CHR 0x7D]"

text \<open>The reference: the text between the holes stays, each hole takes its argument.\<close>

fun fill_holes :: "string \<Rightarrow> string list \<Rightarrow> string" where
  "fill_holes tmpl [] = tmpl"
| "fill_holes tmpl (a # as) = (case find_sub tmpl hole of None \<Rightarrow> tmpl
     | Some p \<Rightarrow> take p tmpl @ a @ fill_holes (drop (p + 2) tmpl) as)"

definition brace_free :: "string \<Rightarrow> bool" where
  "brace_free a \<longleftrightarrow> a \<noteq> [] \<and> CHR 0x7B \<notin> set a \<and> CHR 0x7D \<notin> set a"

definition no_hole :: "string \<Rightarrow> bool" where
  "no_hole pre \<longleftrightarrow> find_sub pre hole = None \<and> (pre = [] \<or> last pre \<noteq> CHR 0x7B)"

lemma find_after: "no_hole pre \<Longrightarrow> find_sub (pre @ s) hole = map_option (\<lambda>i. length pre + i) (find_sub s hole)"
proof (induction pre)
  case (Cons c pre)
  have "no_hole pre" using Cons.prems by (auto simp: no_hole_def split: if_splits)
  moreover have "\<not> starts_with (c # pre @ s) hole"
    using Cons.prems by (cases pre) (auto simp: no_hole_def split: if_splits)
  ultimately show ?case using Cons.IH by (cases "find_sub s hole") auto
qed (cases "find_sub s hole"; simp)

lemma brace_free_no_hole: "CHR 0x7B \<notin> set a \<Longrightarrow> find_sub a hole = None"
  by (induction a) auto

lemma find_filled: "find_sub s hole = Some p \<Longrightarrow> brace_free a \<Longrightarrow> find_sub (take p s @ a) hole = None"
proof (induction s arbitrary: p)
  case (Cons c s)
  show ?case
  proof (cases p)
    case 0
    then show ?thesis using Cons.prems by (simp add: brace_free_def brace_free_no_hole)
  next
    case (Suc q)
    then have q: "find_sub s hole = Some q" and n: "\<not> starts_with (c # s) hole"
      using Cons.prems(1) by (auto split: if_splits)
    have "\<not> starts_with (c # take q s @ a) hole"
      using n Cons.prems(2) by (cases q; cases s; cases a) (auto simp: brace_free_def)
    then show ?thesis using Cons.IH [OF q Cons.prems(2)] Suc by auto
  qed
qed simp

lemma push_args_fill:
  "no_hole pre \<Longrightarrow> \<forall>a \<in> set as. brace_free a \<Longrightarrow> push_args (pre @ s) as = pre @ fill_holes s as"
proof (induction as arbitrary: pre s)
  case (Cons a as)
  show ?case
  proof (cases "find_sub s hole")
    case None
    then have "push_args (pre @ s) as' = pre @ s" for as'
      by (induction as') (simp_all add: push2Special_def str_find_def find_after [OF Cons.prems(1)])
    from this [of "a # as"] show ?thesis using None by simp
  next
    case (Some p)
    then have p: "p + 2 \<le> length s" using find_sub_bound by fastforce
    let ?pre = "pre @ take p s @ a"
    have a: "brace_free a" using Cons.prems(2) by simp
    have "last a \<noteq> CHR 0x7B" using a last_in_set [of a] unfolding brace_free_def by metis
    then have "no_hole ?pre"
      using find_after [OF Cons.prems(1)] find_filled [OF Some a] a by (auto simp: no_hole_def brace_free_def)
    then have "push_args (?pre @ drop (p + 2) s) as = ?pre @ fill_holes (drop (p + 2) s) as"
      using Cons.prems(2) by (intro Cons.IH) simp_all
    moreover have "push2Special (pre @ s) a = ?pre @ drop (p + 2) s"
      using Some p by (simp add: push2Special_def str_find_def find_after [OF Cons.prems(1)] str_replace_def add.assoc)
    ultimately show ?thesis using Some by simp
  qed
qed simp

section \<open>Ordering without case\<close>

text \<open>\<open>string_cmp_nocase\<close> is the lexicographic order of the upper-case texts, so it can order a map.\<close>

definition upper_key :: "string \<Rightarrow> int list" where
  "upper_key s = map (\<lambda>c. char_int (toupper c)) s"

lemma cmp_nocase_lexordp: "string_cmp_nocase a b \<longleftrightarrow> ord_class.lexordp (upper_key a) (upper_key b)"
  by (induction a b rule: string_cmp_nocase.induct) (auto simp: upper_key_def)

lemma cmp_nocase_strict:
  "\<not> string_cmp_nocase a a" "string_cmp_nocase a b \<Longrightarrow> string_cmp_nocase b c \<Longrightarrow> string_cmp_nocase a c"
  "\<not> string_cmp_nocase a b \<Longrightarrow> \<not> string_cmp_nocase b a \<Longrightarrow> upper_key a = upper_key b"
  using lexordp_irreflexive' [of "upper_key a"] lexordp_trans [of "upper_key a" "upper_key b" "upper_key c"]
    lexordp_linear [of "upper_key a" "upper_key b"]
  by (auto simp: cmp_nocase_lexordp)

section \<open>What the helpers guarantee\<close>

text \<open>
  Arguments whose text is not empty and has no braces fill the holes of a format one after the
  other, with the rest of the format unchanged.
\<close>

theorem format_fills_in_order:
  assumes "\<forall>a \<in> set as. brace_free a"
  shows "format_str fmt as = fill_holes fmt as"
  using push_args_fill [of "[]" as fmt] assms by (simp add: format_str_def no_hole_def)

theorem format_fills_in_order_witness:
  "format_str (hole @ '' of '' @ hole) [''3'', ''7''] = ''3 of 7''"
  using format_fills_in_order [of "[''3'', ''7'']" "hole @ '' of '' @ hole"] by (simp add: brace_free_def)

text \<open>An argument that itself holds a hole takes the next argument into it.\<close>

theorem format_fills_its_arguments:
  "format_str (hole @ '' of '' @ hole) [hole, ''7''] = ''7 of '' @ hole"
  by (simp add: format_str_def push2Special_def str_find_def str_replace_def)

text \<open>
  \<open>replace_all\<close> returns when the replacement is shorter than the delimiter, and never returns
  when the replacement holds the delimiter and there is one to replace.
\<close>

theorem replace_all_returns:
  "(length s < length delim \<longrightarrow> (\<exists>r. replace_all str delim s = Some r)) \<and>
   ((\<exists>a b. s = a @ delim @ b) \<longrightarrow> str_find str delim 0 \<noteq> None \<longrightarrow> replace_all str delim s = None)"
proof -
  have "replace_all str delim s = None" if "\<exists>a b. s = a @ delim @ b" "str_find str delim 0 \<noteq> None"
    using replace_from_loops [of delim s str 0] that by (cases "replace_all str delim s") (auto simp: replace_all_def)
  then show ?thesis using replace_from_returns [of s delim str 0] by (auto simp: replace_all_def)
qed

theorem replace_all_returns_witness:
  "(\<exists>r. replace_all ''a--b'' ''--'' '' '' = Some r) \<and> replace_all ''a-b'' ''-'' ''--'' = None"
proof -
  have "\<exists>a b. ''--'' = a @ ''-'' @ (b :: string)" by (intro exI [of _ "[]"] exI [of _ "''-''"]) simp
  moreover have "str_find ''a-b'' ''-'' 0 \<noteq> None" by (simp add: str_find_def)
  ultimately show ?thesis
    using replace_all_returns [of "'' ''" "''--''" "''a--b''"] replace_all_returns [of "''--''" "''-''" "''a-b''"] by simp
qed

theorem split_returns: "delim \<noteq> [] \<Longrightarrow> \<exists>r. split_str str delim = Some r"
  using split_loop_returns by (simp add: split_str_def)

text \<open>A suffix that is one longer than the text counts as its end, as both sides of the test wrap to \<open>npos\<close>.\<close>

theorem end_with_longer_suffix: "end_with ''a'' ''bc''"
  by (simp add: end_with_def str_rfind_def)

end
