(* ===== verification/Db_Message.thy ===== *)
theory Db_Message imports String_Util begin

text \<open>
  The records that go through the database layer
  (\<open>engine/src/libBaseDatabase/db_protobuf.cpp\<close>): protobuf messages seen through
  reflection, the text form of their fields (\<open>string_util.inl\<close>), and the filling of a message
  from a MySQL result set (\<open>db_record_set.cpp\<close>).  The protobuf library is not part of the
  repository: its serializers and its message pool are the fields of \<open>proto_env\<close>; the text
  form of a \<open>double\<close> and a \<open>float\<close> (the stream library at its default precision) is a
  parameter as well.
\<close>

section \<open>Messages and descriptors\<close>

datatype field_type = TYPE_DOUBLE | TYPE_FLOAT | TYPE_INT64 | TYPE_UINT64 | TYPE_INT32
  | TYPE_FIXED64 | TYPE_FIXED32 | TYPE_BOOL | TYPE_STRING | TYPE_GROUP | TYPE_MESSAGE | TYPE_BYTES
  | TYPE_UINT32 | TYPE_ENUM | TYPE_SFIXED32 | TYPE_SFIXED64 | TYPE_SINT32 | TYPE_SINT64

text \<open>The groups of \<open>case\<close> labels that every switch over the field type uses.\<close>

datatype field_class = Int32 | UInt32 | Int64 | UInt64 | Double | Float | Str | Msg | Unsupported

fun class_of :: "field_type \<Rightarrow> field_class" where
  "class_of TYPE_INT32 = Int32"
| "class_of TYPE_SINT32 = Int32"
| "class_of TYPE_SFIXED32 = Int32"
| "class_of TYPE_UINT32 = UInt32"
| "class_of TYPE_FIXED32 = UInt32"
| "class_of TYPE_INT64 = Int64"
| "class_of TYPE_SINT64 = Int64"
| "class_of TYPE_SFIXED64 = Int64"
| "class_of TYPE_UINT64 = UInt64"
| "class_of TYPE_FIXED64 = UInt64"
| "class_of TYPE_DOUBLE = Double"
| "class_of TYPE_FLOAT = Float"
| "class_of TYPE_STRING = Str"
| "class_of TYPE_BYTES = Str"
| "class_of TYPE_MESSAGE = Msg"
| "class_of _ = Unsupported"

datatype db_message = Message (type_name: string) (field_list: "(string \<times> field_value) list")
  and field_value = VInt32 u32 | VUInt32 u32 | VInt64 u64 | VUInt64 u64 | VDouble u64 | VFloat u32
  | VString string | VMessage db_message | VRepeated "db_message list"

record field_desc =
  f_name :: string
  f_type :: field_type
  f_repeated :: bool
  f_serialize :: nat       \<comment> \<open>the option \<open>serialize_type\<close>\<close>
  f_message :: string      \<comment> \<open>the type of a message field\<close>

record descriptor =
  d_fields :: "field_desc list"
  d_primary :: string      \<comment> \<open>the option \<open>primary_key\<close>, empty if it is not set\<close>

record proto_env =
  generated_pool :: "string \<Rightarrow> descriptor option"  \<comment> \<open>compiled into the process\<close>
  imported_pool :: "string \<Rightarrow> descriptor option"   \<comment> \<open>loaded from \<open>.proto\<close> files\<close>
  byte_size :: "db_message \<Rightarrow> nat"
  serialize :: "db_message \<Rightarrow> string option"
  parse :: "string \<Rightarrow> string \<Rightarrow> db_message option"
  to_json :: "db_message \<Rightarrow> string option"
  from_json :: "string \<Rightarrow> string \<Rightarrow> db_message option"
  show_double :: "u64 \<Rightarrow> string"
  show_float :: "u32 \<Rightarrow> string"
  read_double :: "string \<Rightarrow> u64 option"
  read_float :: "string \<Rightarrow> u32 option"

definition pool :: "proto_env \<Rightarrow> string \<Rightarrow> descriptor option" where
  "pool env szName = (case generated_pool env szName of Some d \<Rightarrow> Some d | None \<Rightarrow> imported_pool env szName)"

definition createMessage :: "proto_env \<Rightarrow> string \<Rightarrow> db_message option" where
  "createMessage env szName = (case pool env szName of None \<Rightarrow> None | Some _ \<Rightarrow> Some (Message szName []))"

text \<open>\<open>HasField\<close>, the getters (a field that is not set has the default value) and the setters.\<close>

definition get_field :: "db_message \<Rightarrow> string \<Rightarrow> field_value option" where
  "get_field m f = map_of (field_list m) f"

definition HasField :: "db_message \<Rightarrow> string \<Rightarrow> bool" where
  "HasField m f \<longleftrightarrow> get_field m f \<noteq> None"

definition GetInt32 :: "db_message \<Rightarrow> string \<Rightarrow> u32" where
  "GetInt32 m f = (case get_field m f of Some (VInt32 v) \<Rightarrow> v | _ \<Rightarrow> 0)"

definition GetUInt32 :: "db_message \<Rightarrow> string \<Rightarrow> u32" where
  "GetUInt32 m f = (case get_field m f of Some (VUInt32 v) \<Rightarrow> v | _ \<Rightarrow> 0)"

definition GetInt64 :: "db_message \<Rightarrow> string \<Rightarrow> u64" where
  "GetInt64 m f = (case get_field m f of Some (VInt64 v) \<Rightarrow> v | _ \<Rightarrow> 0)"

definition GetUInt64 :: "db_message \<Rightarrow> string \<Rightarrow> u64" where
  "GetUInt64 m f = (case get_field m f of Some (VUInt64 v) \<Rightarrow> v | _ \<Rightarrow> 0)"

definition GetDouble :: "db_message \<Rightarrow> string \<Rightarrow> u64" where
  "GetDouble m f = (case get_field m f of Some (VDouble v) \<Rightarrow> v | _ \<Rightarrow> 0)"

definition GetFloat :: "db_message \<Rightarrow> string \<Rightarrow> u32" where
  "GetFloat m f = (case get_field m f of Some (VFloat v) \<Rightarrow> v | _ \<Rightarrow> 0)"

definition GetString :: "db_message \<Rightarrow> string \<Rightarrow> string" where
  "GetString m f = (case get_field m f of Some (VString v) \<Rightarrow> v | _ \<Rightarrow> [])"

definition GetMessage :: "db_message \<Rightarrow> field_desc \<Rightarrow> db_message" where
  "GetMessage m fd = (case get_field m (f_name fd) of Some (VMessage v) \<Rightarrow> v
     | _ \<Rightarrow> Message (f_message fd) [])"

definition SetField :: "db_message \<Rightarrow> string \<Rightarrow> field_value \<Rightarrow> db_message" where
  "SetField m f v = Message (type_name m) (filter (\<lambda>p. fst p \<noteq> f) (field_list m) @ [(f, v)])"

definition FindFieldByName :: "descriptor \<Rightarrow> string \<Rightarrow> field_desc option" where
  "FindFieldByName d f = List.find (\<lambda>fd. f_name fd = f) (d_fields d)"

section \<open>Table names\<close>

definition DB_NAMESPACE :: string where "DB_NAMESPACE = ''proto.db.''"
definition QUERY_SET_SUFFIX :: string where "QUERY_SET_SUFFIX = ''_set''"

definition getMessageNameByTableName :: "string \<Rightarrow> string" where
  "getMessageNameByTableName szTableName = DB_NAMESPACE @ szTableName"

definition getTableNameByMessageName :: "string \<Rightarrow> string option" where
  "getTableNameByMessageName szMessageName = (case str_find szMessageName DB_NAMESPACE 0 of
     None \<Rightarrow> None | Some pos \<Rightarrow> Some (drop (pos + length DB_NAMESPACE) szMessageName))"

section \<open>From a message to the text of its fields\<close>

record SFieldInfo =
  szName :: string
  szValue :: string
  bStr :: bool

definition getBasicTypeFieldValue :: "proto_env \<Rightarrow> db_message \<Rightarrow> field_desc \<Rightarrow> string option" where
  "getBasicTypeFieldValue env m fd = (case class_of (f_type fd) of
     Int32 \<Rightarrow> Some (show_int (sint (GetInt32 m (f_name fd))))
   | UInt32 \<Rightarrow> Some (show_int (uint (GetUInt32 m (f_name fd))))
   | Int64 \<Rightarrow> Some (show_int (sint (GetInt64 m (f_name fd))))
   | UInt64 \<Rightarrow> Some (show_int (uint (GetUInt64 m (f_name fd))))
   | Double \<Rightarrow> Some (show_double env (GetDouble m (f_name fd)))
   | Float \<Rightarrow> Some (show_float env (GetFloat m (f_name fd)))
   | Str \<Rightarrow> Some (GetString m (f_name fd))
   | _ \<Rightarrow> None)"

definition sub_message_text :: "proto_env \<Rightarrow> db_message \<Rightarrow> field_desc \<Rightarrow> string option" where
  "sub_message_text env m fd =
    (if f_serialize fd = 2 then
       (if byte_size env (GetMessage m fd) = 0 then Some [] else serialize env (GetMessage m fd))
     else if f_serialize fd = 1 then to_json env (GetMessage m fd)
     else None)"

definition field_info :: "proto_env \<Rightarrow> db_message \<Rightarrow> field_desc \<Rightarrow> SFieldInfo option" where
  "field_info env m fd =
    (if f_type fd = TYPE_MESSAGE then
       map_option (\<lambda>szBuf. \<lparr>szName = f_name fd, szValue = szBuf, bStr = True\<rparr>) (sub_message_text env m fd)
     else
       map_option (\<lambda>v. \<lparr>szName = f_name fd, szValue = v,
                        bStr = (f_type fd = TYPE_STRING \<or> f_type fd = TYPE_BYTES)\<rparr>)
         (getBasicTypeFieldValue env m fd))"

fun field_infos :: "proto_env \<Rightarrow> db_message \<Rightarrow> field_desc list \<Rightarrow> SFieldInfo list option" where
  "field_infos env m [] = Some []"
| "field_infos env m (fd # fds) =
    (if \<not> HasField m (f_name fd) then field_infos env m fds
     else case field_info env m fd of None \<Rightarrow> None
       | Some info \<Rightarrow> map_option ((#) info) (field_infos env m fds))"

definition getMessageFieldInfos :: "proto_env \<Rightarrow> db_message \<Rightarrow> SFieldInfo list option" where
  "getMessageFieldInfos env m = (case pool env (type_name m) of None \<Rightarrow> None
     | Some d \<Rightarrow> field_infos env m (d_fields d))"

definition getPrimaryName :: "proto_env \<Rightarrow> db_message \<Rightarrow> string" where
  "getPrimaryName env m = (case pool env (type_name m) of None \<Rightarrow> [] | Some d \<Rightarrow> d_primary d)"

definition getPrimaryValue :: "proto_env \<Rightarrow> db_message \<Rightarrow> u64 option" where
  "getPrimaryValue env m = (case pool env (type_name m) of None \<Rightarrow> None
     | Some d \<Rightarrow> if d_primary d = [] then None else
       (case FindFieldByName d (d_primary d) of None \<Rightarrow> None
        | Some fd \<Rightarrow> (case class_of (f_type fd) of
            Int32 \<Rightarrow> Some (scast (GetInt32 m (f_name fd)))
          | UInt32 \<Rightarrow> Some (ucast (GetUInt32 m (f_name fd)))
          | Int64 \<Rightarrow> Some (GetInt64 m (f_name fd))
          | UInt64 \<Rightarrow> Some (GetUInt64 m (f_name fd))
          | _ \<Rightarrow> None)))"

section \<open>From text to the fields of a message\<close>

text \<open>
  A setter can fail, or stop the process: the reflection setter \<open>SetDouble\<close> of a \<open>float\<close>
  field is a usage error, which protobuf reports with a fatal log entry.
\<close>

datatype 'a fill = Filled 'a | Fail | Abort

fun bind_fill :: "'a fill \<Rightarrow> ('a \<Rightarrow> 'b fill) \<Rightarrow> 'b fill" where
  "bind_fill (Filled x) f = f x"
| "bind_fill Fail f = Fail"
| "bind_fill Abort f = Abort"

definition fill_or_fail :: "'a option \<Rightarrow> 'a fill" where
  "fill_or_fail x = (case x of None \<Rightarrow> Fail | Some v \<Rightarrow> Filled v)"

definition setBasicTypeFieldValue :: "proto_env \<Rightarrow> db_message \<Rightarrow> field_desc \<Rightarrow> string \<Rightarrow> db_message fill" where
  "setBasicTypeFieldValue env m fd v = (case class_of (f_type fd) of
     Int32 \<Rightarrow> fill_or_fail (map_option (\<lambda>i. SetField m (f_name fd) (VInt32 (of_int i))) (read_signed 32 v))
   | UInt32 \<Rightarrow> fill_or_fail (map_option (\<lambda>i. SetField m (f_name fd) (VUInt32 (of_int i))) (read_unsigned 32 v))
   | Int64 \<Rightarrow> fill_or_fail (map_option (\<lambda>i. SetField m (f_name fd) (VInt64 (of_int i))) (read_signed 64 v))
   | UInt64 \<Rightarrow> fill_or_fail (map_option (\<lambda>i. SetField m (f_name fd) (VUInt64 (of_int i))) (read_unsigned 64 v))
   | Double \<Rightarrow> fill_or_fail (map_option (\<lambda>d. SetField m (f_name fd) (VDouble d)) (read_double env v))
   | Float \<Rightarrow> (if read_float env v = None then Fail else Abort)
   | Str \<Rightarrow> Filled (SetField m (f_name fd) (VString v))
   | _ \<Rightarrow> Fail)"

definition setSubMessage :: "db_message \<Rightarrow> field_desc \<Rightarrow> (string \<Rightarrow> db_message option) \<Rightarrow> string \<Rightarrow> db_message fill" where
  "setSubMessage m fd parse_sub v =
    (if v = [] then Filled (SetField m (f_name fd) (VMessage (GetMessage m fd)))
     else fill_or_fail (map_option (\<lambda>sub. SetField m (f_name fd) (VMessage sub)) (parse_sub v)))"

definition setFieldValue :: "proto_env \<Rightarrow> db_message \<Rightarrow> field_desc \<Rightarrow> string \<Rightarrow> db_message fill" where
  "setFieldValue env m fd v =
    (if f_type fd = TYPE_MESSAGE then
       (if f_serialize fd = 2 then setSubMessage m fd (parse env (f_message fd)) v
        else if f_serialize fd = 1 then setSubMessage m fd (from_json env (f_message fd)) v
        else Fail)
     else setBasicTypeFieldValue env m fd v)"

section \<open>Result sets\<close>

text \<open>
  A cell is \<open>NULL\<close> or a pointer to the bytes of the value; \<open>after\<close> is what follows them in the
  row's memory.  \<open>max_length\<close> is the length of the longest value of the column in the whole
  result set, as \<open>mysql_store_result\<close> computes it.
\<close>

record cell =
  bytes_of :: string
  after :: string

record CDbRecordset =
  column_names :: "string list"
  max_length :: "nat list"
  rs_rows :: "cell option list list"

definition getRowCount :: "CDbRecordset \<Rightarrow> nat" where "getRowCount rs = length (rs_rows rs)"
definition getFieldCount :: "CDbRecordset \<Rightarrow> nat" where "getFieldCount rs = length (column_names rs)"

text \<open>\<open>getData\<close> of the current row, \<open>szData.assign(szRawData, max_length)\<close>.\<close>

definition getData :: "CDbRecordset \<Rightarrow> cell option list \<Rightarrow> nat \<Rightarrow> string" where
  "getData rs row nCol = (if nCol \<ge> getFieldCount rs then [] else
     case row ! nCol of None \<Rightarrow> [] | Some c \<Rightarrow> take (max_length rs ! nCol) (bytes_of c @ after c))"

fun fill_columns :: "proto_env \<Rightarrow> descriptor \<Rightarrow> CDbRecordset \<Rightarrow> cell option list \<Rightarrow> nat list \<Rightarrow> db_message \<Rightarrow> db_message fill" where
  "fill_columns env d rs row [] m = Filled m"
| "fill_columns env d rs row (i # is) m =
    (case FindFieldByName d (column_names rs ! i) of None \<Rightarrow> Fail
     | Some fd \<Rightarrow> bind_fill (setFieldValue env m fd (getData rs row i)) (fill_columns env d rs row is))"

definition fillNormalMessage :: "proto_env \<Rightarrow> CDbRecordset \<Rightarrow> db_message \<Rightarrow> db_message fill" where
  "fillNormalMessage env rs m =
    (if getRowCount rs > 1 then Fail
     else case rs_rows rs of [] \<Rightarrow> Filled m
       | row # _ \<Rightarrow> (case pool env (type_name m) of None \<Rightarrow> Fail
           | Some d \<Rightarrow> fill_columns env d rs row [0..<getFieldCount rs] m))"

fun fill_rows :: "proto_env \<Rightarrow> descriptor \<Rightarrow> string \<Rightarrow> CDbRecordset \<Rightarrow> cell option list list \<Rightarrow> db_message list fill" where
  "fill_rows env d szMessageName rs [] = Filled []"
| "fill_rows env d szMessageName rs (row # rows) =
    bind_fill (fill_columns env d rs row [0..<getFieldCount rs] (Message szMessageName []))
      (\<lambda>m. bind_fill (fill_rows env d szMessageName rs rows) (\<lambda>ms. Filled (m # ms)))"

text \<open>
  The set message has one repeated message field, whose type is the set's name without the suffix.
  Without a row nothing is added, so a wrong element type only shows with the first row.
\<close>

definition fillRepeatMessage :: "proto_env \<Rightarrow> CDbRecordset \<Rightarrow> db_message \<Rightarrow> db_message fill" where
  "fillRepeatMessage env rs m =
    (let szMessageName = take (length (type_name m) - length QUERY_SET_SUFFIX) (type_name m) in
     case pool env (type_name m) of None \<Rightarrow> Fail
     | Some d \<Rightarrow> (case d_fields d of
         [fd] \<Rightarrow> if \<not> f_repeated fd \<or> f_type fd \<noteq> TYPE_MESSAGE then Fail
           else if rs_rows rs = [] then Filled m
           else if f_message fd \<noteq> szMessageName then Fail
           else (case pool env szMessageName of None \<Rightarrow> Fail
             | Some sub \<Rightarrow> bind_fill (fill_rows env sub szMessageName rs (rs_rows rs))
                 (\<lambda>ms. Filled (SetField m (f_name fd) (VRepeated ms))))
       | _ \<Rightarrow> Fail))"

section \<open>Lemmas\<close>

lemma table_of_message_name [simp]: "getTableNameByMessageName (getMessageNameByTableName t) = Some t"
  by (simp add: getTableNameByMessageName_def getMessageNameByTableName_def str_find_def)

lemma get_SetField [simp]: "get_field (SetField m f v) g = (if g = f then Some v else get_field m g)"
proof -
  have "map_of (filter (\<lambda>p. fst p \<noteq> f) xs @ [(f, v)]) g = (if g = f then Some v else map_of xs g)"
    for xs :: "(string \<times> field_value) list"
    by (induction xs) (auto simp: map_add_def)
  then show ?thesis by (simp add: get_field_def SetField_def)
qed

lemma type_SetField [simp]: "type_name (SetField m f v) = type_name m"
  by (simp add: SetField_def)

lemma get_field_empty [simp]: "get_field (Message t []) f = None"
  by (simp add: get_field_def)

text \<open>A field's value fits the field, and the serializer of a sub-message reads its own output.\<close>

definition sub_codec :: "proto_env \<Rightarrow> field_desc \<Rightarrow> db_message \<Rightarrow> bool" where
  "sub_codec env fd sub \<longleftrightarrow> f_type fd = TYPE_MESSAGE \<and>
     (f_serialize fd = 2 \<and>
        (if byte_size env sub = 0 then sub = Message (f_message fd) []
         else \<exists>b. b \<noteq> [] \<and> serialize env sub = Some b \<and> parse env (f_message fd) b = Some sub)
      \<or> f_serialize fd = 1 \<and>
        (\<exists>b. b \<noteq> [] \<and> to_json env sub = Some b \<and> from_json env (f_message fd) b = Some sub))"

fun value_fits :: "proto_env \<Rightarrow> field_desc \<Rightarrow> field_value \<Rightarrow> bool" where
  "value_fits env fd (VInt32 v) = (class_of (f_type fd) = Int32)"
| "value_fits env fd (VUInt32 v) = (class_of (f_type fd) = UInt32)"
| "value_fits env fd (VInt64 v) = (class_of (f_type fd) = Int64)"
| "value_fits env fd (VUInt64 v) = (class_of (f_type fd) = UInt64)"
| "value_fits env fd (VString v) = (class_of (f_type fd) = Str)"
| "value_fits env fd (VMessage sub) = sub_codec env fd sub"
| "value_fits env fd _ = False"

lemma read_signed_sint [simp]:
  "read_signed 32 (show_int (sint (v :: u32))) = Some (sint v)"
  "read_signed 64 (show_int (sint (w :: u64))) = Some (sint w)"
  using sint_range_size [of v] sint_range_size [of w] by (auto intro!: read_signed_show simp: word_size)

lemma read_unsigned_uint [simp]:
  "read_unsigned 32 (show_int (uint (v :: u32))) = Some (uint v)"
  "read_unsigned 64 (show_int (uint (w :: u64))) = Some (uint w)"
  using uint_bounded [of v] uint_bounded [of w] by (auto intro!: read_unsigned_show)

lemmas basic_text_simps = field_info_def getBasicTypeFieldValue_def setFieldValue_def
  setBasicTypeFieldValue_def fill_or_fail_def

text \<open>The text written for a field sets the field to the same value.\<close>

lemma field_text:
  assumes v: "get_field m (f_name fd) = Some v" and ok: "value_fits env fd v"
    and free: "get_field m0 (f_name fd) = None"
  shows "\<exists>info. field_info env m fd = Some info \<and> szName info = f_name fd \<and>
           setFieldValue env m0 fd (szValue info) = Filled (SetField m0 (f_name fd) v)"
proof (cases v)
  case (VMessage sub)
  then have "sub_codec env fd sub" and g: "GetMessage m fd = sub" using v ok by (auto simp: GetMessage_def)
  moreover have "GetMessage m0 fd = Message (f_message fd) []" using free by (simp add: GetMessage_def)
  ultimately show ?thesis using VMessage
    by (auto simp: sub_codec_def field_info_def sub_message_text_def setFieldValue_def setSubMessage_def
        fill_or_fail_def split: if_splits)
next
  case (VString s)
  then have "class_of (f_type fd) = Str" "f_type fd \<noteq> TYPE_MESSAGE" using ok by auto
  then show ?thesis using VString v by (auto simp: basic_text_simps GetString_def)
next
  case (VInt32 x)
  then have "class_of (f_type fd) = Int32" "f_type fd \<noteq> TYPE_MESSAGE" using ok by auto
  then show ?thesis using VInt32 v by (auto simp: basic_text_simps GetInt32_def)
next
  case (VUInt32 x)
  then have "class_of (f_type fd) = UInt32" "f_type fd \<noteq> TYPE_MESSAGE" using ok by auto
  then show ?thesis using VUInt32 v by (auto simp: basic_text_simps GetUInt32_def)
next
  case (VInt64 x)
  then have "class_of (f_type fd) = Int64" "f_type fd \<noteq> TYPE_MESSAGE" using ok by auto
  then show ?thesis using VInt64 v by (auto simp: basic_text_simps GetInt64_def)
next
  case (VUInt64 x)
  then have "class_of (f_type fd) = UInt64" "f_type fd \<noteq> TYPE_MESSAGE" using ok by auto
  then show ?thesis using VUInt64 v by (auto simp: basic_text_simps GetUInt64_def)
qed (use ok in simp_all)

text \<open>A column by column reading, on the pairs of a name and a text.\<close>

fun fill_pairs :: "proto_env \<Rightarrow> descriptor \<Rightarrow> (string \<times> string) list \<Rightarrow> db_message \<Rightarrow> db_message fill" where
  "fill_pairs env d [] m = Filled m"
| "fill_pairs env d ((f, v) # ps) m = (case FindFieldByName d f of None \<Rightarrow> Fail
     | Some fd \<Rightarrow> bind_fill (setFieldValue env m fd v) (fill_pairs env d ps))"

lemma fill_columns_pairs:
  "fill_columns env d rs row is m = fill_pairs env d (map (\<lambda>i. (column_names rs ! i, getData rs row i)) is) m"
proof (induction "is" arbitrary: m)
  case (Cons i "is")
  have "fill_columns env d rs row is = fill_pairs env d (map (\<lambda>i. (column_names rs ! i, getData rs row i)) is)"
    using Cons by (intro ext)
  then show ?case by (simp split: option.splits)
qed simp

text \<open>The row that holds the written text, one column for each written field.\<close>

definition row_of :: "SFieldInfo list \<Rightarrow> string \<Rightarrow> CDbRecordset" where
  "row_of infos tail = \<lparr>column_names = map szName infos, max_length = map (length \<circ> szValue) infos,
     rs_rows = [map (\<lambda>i. Some \<lparr>bytes_of = szValue i, after = tail\<rparr>) infos]\<rparr>"

lemma row_of_pairs:
  "map (\<lambda>i. (column_names (row_of infos t) ! i, getData (row_of infos t) (hd (rs_rows (row_of infos t))) i))
     [0..<getFieldCount (row_of infos t)] = map (\<lambda>i. (szName i, szValue i)) infos"
  by (rule nth_equalityI) (simp_all add: row_of_def getData_def getFieldCount_def)

lemma fill_field_infos:
  assumes "distinct (map f_name fds)" and "\<forall>fd \<in> set fds. FindFieldByName d (f_name fd) = Some fd"
    and "\<forall>fd \<in> set fds. \<forall>v. get_field m (f_name fd) = Some v \<longrightarrow> value_fits env fd v"
    and "\<forall>fd \<in> set fds. get_field m0 (f_name fd) = None"
  shows "\<exists>infos m'. field_infos env m fds = Some infos \<and>
     fill_pairs env d (map (\<lambda>i. (szName i, szValue i)) infos) m0 = Filled m' \<and> type_name m' = type_name m0 \<and>
     (\<forall>f. get_field m' f = (if f \<in> f_name ` set fds \<and> HasField m f then get_field m f else get_field m0 f))"
  using assms
proof (induction fds arbitrary: m0)
  case (Cons fd fds)
  let ?v = "get_field m (f_name fd)"
  let ?m0 = "case ?v of None \<Rightarrow> m0 | Some v \<Rightarrow> SetField m0 (f_name fd) v"
  have d: "f_name fd \<notin> f_name ` set fds" "distinct (map f_name fds)" using Cons.prems(1) by auto
  have "\<forall>x \<in> set fds. get_field ?m0 (f_name x) = None"
    using Cons.prems(4) d(1) by (auto simp: image_iff split: option.splits)
  from Cons.IH [OF d(2) _ _ this] obtain infos m' where 1: "field_infos env m fds = Some infos"
    and 2: "fill_pairs env d (map (\<lambda>i. (szName i, szValue i)) infos) ?m0 = Filled m'"
    and 3: "type_name m' = type_name ?m0"
    and 4: "\<forall>f. get_field m' f = (if f \<in> f_name ` set fds \<and> HasField m f then get_field m f
                                   else get_field ?m0 f)"
    using Cons.prems(2, 3) by auto
  show ?case
  proof (cases ?v)
    case None
    then show ?thesis using 1 2 3 4 by (simp add: HasField_def)
  next
    case (Some v)
    have "value_fits env fd v" "get_field m0 (f_name fd) = None" using Cons.prems(3, 4) Some by simp_all
    from field_text [OF Some this] obtain info where info: "field_info env m fd = Some info"
      "szName info = f_name fd" "setFieldValue env m0 fd (szValue info) = Filled (SetField m0 (f_name fd) v)"
      by blast
    have "FindFieldByName d (f_name fd) = Some fd" using Cons.prems(2) by simp
    then show ?thesis using Some info 1 2 3 4 d(1) by (auto simp: HasField_def)
  qed
qed simp

end
