(* ===== verification/Db_Command.thy ===== *)
theory Db_Command imports Db_Message begin

text \<open>
  The connection to the database and the command handlers (\<open>db_connection.cpp\<close>,
  \<open>db_command_*_handler.cpp\<close>, \<open>db_command_handler_proxy.cpp\<close> of
  \<open>engine/src/libBaseDatabase\<close>).  The MySQL client library is the parameter \<open>mysql\<close>: what
  it answers to a statement in a state of the server, and its escaping of a string.
\<close>

section \<open>The connection\<close>

record mysql_answer =
  query_errno :: nat                   \<comment> \<open>\<open>mysql_errno\<close> after \<open>mysql_real_query\<close>\<close>
  store_errno :: nat                   \<comment> \<open>\<open>mysql_errno\<close> when \<open>mysql_store_result\<close> has no result\<close>
  stored :: "CDbRecordset option"
  affected :: nat                      \<comment> \<open>\<open>mysql_affected_rows\<close>\<close>

record 'db mysql =
  mysql_query :: "string \<Rightarrow> 'db \<Rightarrow> mysql_answer \<times> 'db"
  mysql_escape :: "string \<Rightarrow> string"

record 'db CDbConnection =
  m_pMysql :: bool                     \<comment> \<open>the connection is open\<close>
  last_affected :: nat
  server :: 'db

definition eMET_OK :: nat where "eMET_OK = 0"
definition eMET_LostConnection :: nat where "eMET_LostConnection = 1"
definition eMET_Deadloop :: nat where "eMET_Deadloop = 1205"
definition eMET_Unknwon :: nat where "eMET_Unknwon = 4294967295"

text \<open>\<open>execute\<close>; \<open>want\<close> says that the caller passed a place for the record set.\<close>

definition execute :: "'db mysql \<Rightarrow> string \<Rightarrow> bool \<Rightarrow> 'db CDbConnection
    \<Rightarrow> nat \<times> CDbRecordset option \<times> 'db CDbConnection" where
  "execute my szSQL want c =
    (if \<not> m_pMysql c then (eMET_Unknwon, None, c)
     else let (ans, s') = mysql_query my szSQL (server c);
              c' = c\<lparr>server := s', last_affected := affected ans\<rparr> in
       if query_errno ans \<noteq> 0 then (query_errno ans, None, c')
       else case stored ans of
           None \<Rightarrow> (store_errno ans, None, c')
         | Some rs \<Rightarrow> if \<not> want then (eMET_Unknwon, None, c') else (eMET_OK, Some rs, c'))"

definition getAffectedRow :: "'db CDbConnection \<Rightarrow> nat" where
  "getAffectedRow c = (if \<not> m_pMysql c then 0 else last_affected c)"

definition escape_str :: "'db mysql \<Rightarrow> 'db CDbConnection \<Rightarrow> string \<Rightarrow> string" where
  "escape_str my c szSQL = (if \<not> m_pMysql c then [] else if szSQL = [] then [] else mysql_escape my szSQL)"

definition autoCommit :: "'db mysql \<Rightarrow> bool \<Rightarrow> 'db CDbConnection \<Rightarrow> 'db CDbConnection" where
  "autoCommit my enable c =
    snd (snd (execute my (''set autocommit = '' @ (if enable then ''1'' else ''0'')) False c))"

section \<open>Requests, replies and result codes\<close>

datatype db_type = eDBCT_None | eDBCT_Query | eDBCT_Select | eDBCT_Insert | eDBCT_Delete
  | eDBCT_Update | eDBCT_Call | eDBCT_Flush | eDBCT_Nop

datatype db_code = eDBRC_OK | eDBRC_EmptyRecordset | eDBRC_ProtobufError | eDBRC_MysqlError
  | eDBRC_SQLArgError | eDBRC_LostConnection | eDBRC_Unknown

text \<open>A request is one of the command messages, or the record itself for an insert or an update.\<close>

datatype db_request =
    SelectReq (req_table: string) (req_id: u64)
  | DeleteReq (req_table: string) (req_id: u64)
  | QueryReq (req_table: string) (where_clause: string) (args: "string list")
  | CallReq (sql: string) (args: "string list")
  | NopReq
  | DataReq (req_data: db_message)

record result_set =
  field_name :: "string list"
  rows :: "string list list"

datatype db_response = RespMessage db_message | RespResultSet result_set

text \<open>
  What a handler returns: the code, the reply it has set and the connection afterwards; \<open>None\<close>
  when the process has been stopped by protobuf (\<open>Abort\<close>).
\<close>

type_synonym 'db outcome = "(db_code \<times> db_response option \<times> 'db CDbConnection) option"

section \<open>The text of the statements\<close>

definition szPlaceholder :: string where "szPlaceholder = ''{?}''"

definition quoted :: "(string \<Rightarrow> string) \<Rightarrow> string \<Rightarrow> string" where
  "quoted esc s = CHR 0x27 # esc s @ [CHR 0x27]"

text \<open>The loop over the placeholders: from \<open>nPos\<close> on, with the arguments that are left.\<close>

fun fill_args :: "(string \<Rightarrow> string) \<Rightarrow> string \<Rightarrow> nat \<Rightarrow> string list \<Rightarrow> string" where
  "fill_args esc szSQL nPos [] = szSQL"
| "fill_args esc szSQL nPos (szArg # szArgs) = (case str_find szSQL szPlaceholder nPos of
     None \<Rightarrow> szSQL
   | Some p \<Rightarrow> fill_args esc (str_replace szSQL p (length szPlaceholder) (quoted esc szArg))
                 (p + length (quoted esc szArg)) szArgs)"

fun join_comma :: "string list \<Rightarrow> string" where
  "join_comma [] = []"
| "join_comma [s] = s"
| "join_comma (s # ss) = s @ '','' @ join_comma ss"

definition value_text :: "(string \<Rightarrow> string) \<Rightarrow> SFieldInfo \<Rightarrow> string" where
  "value_text esc i = (if bStr i then quoted esc (szValue i) else szValue i)"

definition insert_clause :: "(string \<Rightarrow> string) \<Rightarrow> SFieldInfo list \<Rightarrow> string" where
  "insert_clause esc infos = ''('' @ join_comma (map szName infos) @ '') values (''
     @ join_comma (map (value_text esc) infos) @ '')''"

definition update_clause :: "(string \<Rightarrow> string) \<Rightarrow> SFieldInfo list \<Rightarrow> string" where
  "update_clause esc infos = join_comma (map (\<lambda>i. szName i @ ''='' @ value_text esc i) infos)"

definition insert_sql :: "(string \<Rightarrow> string) \<Rightarrow> string \<Rightarrow> SFieldInfo list \<Rightarrow> string" where
  "insert_sql esc szTableName infos = ''insert into '' @ szTableName @ insert_clause esc infos"

definition update_sql :: "(string \<Rightarrow> string) \<Rightarrow> string \<Rightarrow> SFieldInfo list \<Rightarrow> string" where
  "update_sql esc szTableName infos = ''insert into '' @ szTableName @ insert_clause esc infos
     @ '' on duplicate key update '' @ update_clause esc infos"

definition select_sql :: "string \<Rightarrow> string \<Rightarrow> u64 \<Rightarrow> string" where
  "select_sql table szPrimaryName nID = ''select * from '' @ table @ '' where '' @ szPrimaryName @ ''=''
     @ show_int (uint nID) @ '' limit 1''"

definition delete_sql :: "string \<Rightarrow> string \<Rightarrow> u64 \<Rightarrow> string" where
  "delete_sql table szPrimaryName nID = ''delete from '' @ table @ '' where '' @ szPrimaryName @ ''=''
     @ show_int (uint nID) @ '' limit 1''"

definition query_sql :: "string \<Rightarrow> string \<Rightarrow> string" where
  "query_sql table szWhere = (if szWhere \<noteq> [] then ''select * from '' @ table @ '' where '' @ szWhere
     else ''select * from '' @ table)"

section \<open>The handlers\<close>

definition mysql_code :: "nat \<Rightarrow> db_code option" where
  "mysql_code n = (if n = eMET_LostConnection then Some eDBRC_LostConnection
     else if n \<noteq> eMET_OK then Some eDBRC_MysqlError else None)"

text \<open>How a handler passes on the answer of the filling of its reply.\<close>

definition fill_reply :: "db_message fill \<Rightarrow> 'db CDbConnection \<Rightarrow> 'db outcome" where
  "fill_reply f c = (case f of Filled m \<Rightarrow> Some (eDBRC_OK, Some (RespMessage m), c)
     | Fail \<Rightarrow> Some (eDBRC_ProtobufError, None, c) | Abort \<Rightarrow> None)"

type_synonym create_fun = "string \<Rightarrow> db_message option"

fun select_handler :: "proto_env \<Rightarrow> create_fun \<Rightarrow> 'db mysql \<Rightarrow> db_request \<Rightarrow> 'db CDbConnection \<Rightarrow> 'db outcome" where
  "select_handler env create my (SelectReq table nID) c =
    (case create (getMessageNameByTableName table) of
       None \<Rightarrow> Some (eDBRC_ProtobufError, None, c)
     | Some pMessage \<Rightarrow>
         (let szPrimaryName = getPrimaryName env pMessage in
          if szPrimaryName = [] then Some (eDBRC_ProtobufError, None, c)
          else let (nErrorType, rs, c') = execute my (select_sql table szPrimaryName nID) True c in
            case mysql_code nErrorType of Some code \<Rightarrow> Some (code, None, c')
            | None \<Rightarrow> (case rs of None \<Rightarrow> Some (eDBRC_MysqlError, None, c')
                | Some r \<Rightarrow> if getRowCount r = 0 then Some (eDBRC_EmptyRecordset, None, c')
                    else fill_reply (fillNormalMessage env r pMessage) c')))"
| "select_handler env create my _ c = Some (eDBRC_ProtobufError, None, c)"

fun delete_handler :: "proto_env \<Rightarrow> create_fun \<Rightarrow> 'db mysql \<Rightarrow> db_request \<Rightarrow> 'db CDbConnection \<Rightarrow> 'db outcome" where
  "delete_handler env create my (DeleteReq table nID) c =
    (case create (getMessageNameByTableName table) of
       None \<Rightarrow> Some (eDBRC_ProtobufError, None, c)
     | Some pMessage \<Rightarrow>
         (let szPrimaryName = getPrimaryName env pMessage in
          if szPrimaryName = [] then Some (eDBRC_ProtobufError, None, c)
          else let (nErrorType, rs, c') = execute my (delete_sql table szPrimaryName nID) False c in
            case mysql_code nErrorType of Some code \<Rightarrow> Some (code, None, c')
            | None \<Rightarrow> Some (eDBRC_OK, None, c')))"
| "delete_handler env create my _ c = Some (eDBRC_ProtobufError, None, c)"

definition row_text :: "CDbRecordset \<Rightarrow> cell option list \<Rightarrow> string list" where
  "row_text rs row = map (getData rs row) [0..<getFieldCount rs]"

fun query_handler :: "proto_env \<Rightarrow> create_fun \<Rightarrow> 'db mysql \<Rightarrow> db_request \<Rightarrow> 'db CDbConnection \<Rightarrow> 'db outcome" where
  "query_handler env create my (QueryReq table szWhere as) c =
    (let szWhereClause = fill_args (escape_str my c) szWhere 0 as;
         (nErrorType, rs, c') = execute my (query_sql table szWhereClause) True c in
     case mysql_code nErrorType of Some code \<Rightarrow> Some (code, None, c')
     | None \<Rightarrow> (case rs of None \<Rightarrow> Some (eDBRC_MysqlError, None, c')
         | Some r \<Rightarrow> (case create (getMessageNameByTableName table @ QUERY_SET_SUFFIX) of
               None \<Rightarrow> Some (eDBRC_ProtobufError, None, c')
             | Some pMessage \<Rightarrow> fill_reply (fillRepeatMessage env r pMessage) c')))"
| "query_handler env create my _ c = Some (eDBRC_ProtobufError, None, c)"

definition nTryDeadloopCount :: nat where "nTryDeadloopCount = 5"

text \<open>The attempts of a call: \<open>Inl\<close> the code that ends it, \<open>Inr\<close> the result set.\<close>

fun call_loop :: "'db mysql \<Rightarrow> string \<Rightarrow> nat \<Rightarrow> 'db CDbConnection
    \<Rightarrow> (db_code + CDbRecordset option) \<times> 'db CDbConnection" where
  "call_loop my szSQL 0 c = (Inl eDBRC_MysqlError, c)"
| "call_loop my szSQL (Suc n) c =
    (let (nErrorType, rs, c') = execute my szSQL True c in
     if nErrorType = eMET_Deadloop then call_loop my szSQL n c'
     else case mysql_code nErrorType of Some code \<Rightarrow> (Inl code, c') | None \<Rightarrow> (Inr rs, c'))"

fun call_handler :: "'db mysql \<Rightarrow> db_request \<Rightarrow> 'db CDbConnection \<Rightarrow> 'db outcome" where
  "call_handler my (CallReq szSQL as) c =
    (case call_loop my (fill_args (escape_str my c) szSQL 0 as) nTryDeadloopCount c of
       (Inl code, c') \<Rightarrow> Some (code, None, c')
     | (Inr None, c') \<Rightarrow> Some (eDBRC_OK, None, c')
     | (Inr (Some r), c') \<Rightarrow> Some (eDBRC_OK,
         Some (RespResultSet \<lparr>field_name = column_names r, rows = map (row_text r) (rs_rows r)\<rparr>), c'))"
| "call_handler my _ c = Some (eDBRC_ProtobufError, None, c)"

text \<open>
  The insert and the update handler take the record itself; \<open>database.cpp\<close> sends them nothing
  else.  \<open>write_record\<close> is their common course: the statement's text and the test on the number
  of affected rows are what differs.
\<close>

definition write_record :: "proto_env \<Rightarrow> 'db mysql \<Rightarrow> (string \<Rightarrow> SFieldInfo list \<Rightarrow> string)
    \<Rightarrow> (nat \<Rightarrow> bool) \<Rightarrow> db_message \<Rightarrow> 'db CDbConnection \<Rightarrow> 'db outcome" where
  "write_record env my statement good pMessage c =
    (case getTableNameByMessageName (type_name pMessage) of
       None \<Rightarrow> Some (eDBRC_ProtobufError, None, c)
     | Some szTableName \<Rightarrow> (case getMessageFieldInfos env pMessage of
         None \<Rightarrow> Some (eDBRC_ProtobufError, None, c)
       | Some infos \<Rightarrow>
           (let (nErrorType, rs, c') = execute my (statement szTableName infos) False c in
            case mysql_code nErrorType of Some code \<Rightarrow> Some (code, None, c')
            | None \<Rightarrow> Some (if good (getAffectedRow c') then eDBRC_OK else eDBRC_MysqlError, None, c'))))"

fun insert_handler :: "proto_env \<Rightarrow> 'db mysql \<Rightarrow> db_request \<Rightarrow> 'db CDbConnection \<Rightarrow> 'db outcome" where
  "insert_handler env my (DataReq m) c =
     write_record env my (insert_sql (escape_str my c)) (\<lambda>n. n = 1) m c"
| "insert_handler env my _ c = Some (eDBRC_ProtobufError, None, c)"

fun update_handler :: "proto_env \<Rightarrow> 'db mysql \<Rightarrow> db_request \<Rightarrow> 'db CDbConnection \<Rightarrow> 'db outcome" where
  "update_handler env my (DataReq m) c =
     write_record env my (update_sql (escape_str my c)) (\<lambda>n. n \<ge> 1) m c"
| "update_handler env my _ c = Some (eDBRC_ProtobufError, None, c)"

definition nop_handler :: "db_request \<Rightarrow> 'db CDbConnection \<Rightarrow> 'db outcome" where
  "nop_handler req c = Some (eDBRC_OK, None, c)"

text \<open>\<open>CDbCommandHandlerProxy::onDbCommand\<close>: there is no handler for the other types.\<close>

fun onDbCommand :: "proto_env \<Rightarrow> create_fun \<Rightarrow> 'db mysql \<Rightarrow> db_type \<Rightarrow> db_request \<Rightarrow> 'db CDbConnection \<Rightarrow> 'db outcome" where
  "onDbCommand env create my eDBCT_Call req c = call_handler my req c"
| "onDbCommand env create my eDBCT_Delete req c = delete_handler env create my req c"
| "onDbCommand env create my eDBCT_Insert req c = insert_handler env my req c"
| "onDbCommand env create my eDBCT_Query req c = query_handler env create my req c"
| "onDbCommand env create my eDBCT_Select req c = select_handler env create my req c"
| "onDbCommand env create my eDBCT_Update req c = update_handler env my req c"
| "onDbCommand env create my eDBCT_Nop req c = nop_handler req c"
| "onDbCommand env create my _ req c = Some (eDBRC_Unknown, None, c)"

section \<open>The placeholders\<close>

text \<open>The reference: the text between the placeholders stays, each argument is quoted.\<close>

fun subst_args :: "(string \<Rightarrow> string) \<Rightarrow> string \<Rightarrow> string list \<Rightarrow> string" where
  "subst_args esc tmpl [] = tmpl"
| "subst_args esc tmpl (a # as) = (case find_sub tmpl szPlaceholder of
     None \<Rightarrow> tmpl
   | Some p \<Rightarrow> take p tmpl @ quoted esc a @ subst_args esc (drop (p + length szPlaceholder) tmpl) as)"

lemma fill_args_subst: "fill_args esc (pre @ s) (length pre) as = pre @ subst_args esc s as"
proof (induction as arbitrary: pre s)
  case (Cons a as)
  show ?case
  proof (cases "find_sub s szPlaceholder")
    case (Some p)
    then have p: "p + length szPlaceholder \<le> length s" by (rule find_sub_bound)
    let ?pre = "pre @ take p s @ quoted esc a"
    have "str_replace (pre @ s) (length pre + p) (length szPlaceholder) (quoted esc a) =
        ?pre @ drop (p + length szPlaceholder) s"
      by (simp add: str_replace_def add.assoc)
    moreover have "length pre + p + length (quoted esc a) = length ?pre" using p by simp
    ultimately have "fill_args esc (pre @ s) (length pre) (a # as) =
        fill_args esc (?pre @ drop (p + length szPlaceholder) s) (length ?pre) as"
      using Some by (simp add: str_find_def add.assoc)
    then show ?thesis using Cons.IH [of ?pre] Some by simp
  qed (simp add: str_find_def)
qed simp

section \<open>Literals in a statement\<close>

text \<open>
  MySQL's reading of a string literal after its opening quote: a backslash takes the next
  character as it is, the next quote ends the literal.
\<close>

fun skip_literal :: "string \<Rightarrow> string" where
  "skip_literal [] = []"
| "skip_literal (c # s) = (if c = CHR 0x27 then s
     else if c = CHR 0x5C then skip_literal (tl s) else skip_literal s)"

text \<open>The statement with every literal replaced by a single quote mark: its fixed shape.\<close>

function shape :: "string \<Rightarrow> string" where
  "shape [] = []"
| "shape (c # s) = (if c = CHR 0x27 then c # shape (skip_literal s) else c # shape s)"
  by pat_completeness auto

lemma skip_literal_le: "length (skip_literal s) \<le> length s"
proof (induction s rule: skip_literal.induct)
  case (2 c s)
  show ?case
  proof (cases "c = CHR 0x27 \<or> c \<noteq> CHR 0x5C")
    case True then show ?thesis using 2(2) by auto
  next
    case False
    then have "length (skip_literal (tl s)) \<le> length (tl s)" using 2(1) by blast
    then show ?thesis using False by simp
  qed
qed simp

termination shape
  by (relation "measure length") (auto simp: le_imp_less_Suc skip_literal_le)

definition no_quote :: "string \<Rightarrow> bool" where "no_quote s \<longleftrightarrow> CHR 0x27 \<notin> set s"

definition escapes_literals :: "(string \<Rightarrow> string) \<Rightarrow> bool" where
  "escapes_literals esc \<longleftrightarrow> (\<forall>s r. skip_literal (esc s @ CHR 0x27 # r) = r)"

lemma shape_append: "no_quote p \<Longrightarrow> shape (p @ s) = p @ shape s"
  by (induction p) (auto simp: no_quote_def)

lemma shape_quoted: "escapes_literals esc \<Longrightarrow> shape (quoted esc v @ s) = CHR 0x27 # shape s"
  by (simp add: quoted_def escapes_literals_def)

text \<open>The shape of a value depends on its kind only.\<close>

definition value_shape :: "SFieldInfo \<Rightarrow> string" where
  "value_shape i = (if bStr i then [CHR 0x27] else szValue i)"

definition plain_info :: "SFieldInfo \<Rightarrow> bool" where
  "plain_info i \<longleftrightarrow> no_quote (szName i) \<and> (\<not> bStr i \<longrightarrow> no_quote (szValue i))"

lemma shape_value: "escapes_literals esc \<Longrightarrow> plain_info i \<Longrightarrow>
    shape (value_text esc i @ s) = value_shape i @ shape s"
  by (simp add: value_text_def value_shape_def plain_info_def shape_quoted shape_append)

lemma shape_comma: "shape (CHR '','' # s) = CHR '','' # shape s"
  by simp

lemma shape_join:
  assumes "\<And>x s. x \<in> set xs \<Longrightarrow> shape (f x @ s) = g x @ shape s"
  shows "shape (join_comma (map f xs) @ s) = join_comma (map g xs) @ shape s"
  using assms
  by (induction xs rule: induct_list012) simp_all

text \<open>The statements with a mark for every string value.\<close>

definition insert_shape :: "string \<Rightarrow> SFieldInfo list \<Rightarrow> string" where
  "insert_shape szTableName infos = ''insert into '' @ szTableName @ ''('' @ join_comma (map szName infos)
     @ '') values ('' @ join_comma (map value_shape infos) @ '')''"

definition update_shape :: "string \<Rightarrow> SFieldInfo list \<Rightarrow> string" where
  "update_shape szTableName infos = insert_shape szTableName infos @ '' on duplicate key update ''
     @ join_comma (map (\<lambda>i. szName i @ ''='' @ value_shape i) infos)"

lemma shape_insert:
  assumes "escapes_literals esc" and "no_quote t" and "\<forall>i \<in> set infos. plain_info i"
  shows "shape (insert_sql esc t infos @ s) = insert_shape t infos @ shape s"
proof -
  have n: "shape (join_comma (map szName infos) @ r) = join_comma (map szName infos) @ shape r" for r
    using assms(3) by (intro shape_join) (simp add: shape_append plain_info_def)
  have v: "shape (join_comma (map (value_text esc) infos) @ r) = join_comma (map value_shape infos) @ shape r" for r
    using assms(1, 3) by (intro shape_join) (simp add: shape_value)
  show ?thesis
    by (simp add: insert_sql_def insert_clause_def insert_shape_def n v shape_append [OF assms(2)])
qed

lemma shape_update:
  assumes "escapes_literals esc" and "no_quote t" and "\<forall>i \<in> set infos. plain_info i"
  shows "shape (update_sql esc t infos) = update_shape t infos"
proof -
  have "shape (join_comma (map (\<lambda>i. szName i @ ''='' @ value_text esc i) infos) @ []) =
      join_comma (map (\<lambda>i. szName i @ ''='' @ value_shape i) infos) @ shape []"
    using assms(1, 3) by (intro shape_join) (simp add: shape_append shape_value plain_info_def)
  moreover have "update_sql esc t infos = insert_sql esc t infos @ '' on duplicate key update '' @ update_clause esc infos"
    by (simp add: update_sql_def insert_sql_def)
  ultimately show ?thesis
    by (simp add: shape_insert [OF assms] update_clause_def update_shape_def)
qed

section \<open>Codes and replies\<close>

text \<open>The error numbers of MySQL start at 1000.\<close>

definition mysql_errors :: "'db mysql \<Rightarrow> bool" where
  "mysql_errors my \<longleftrightarrow> (\<forall>q s. (query_errno (fst (mysql_query my q s)) = 0 \<or> query_errno (fst (mysql_query my q s)) \<ge> 1000)
     \<and> (store_errno (fst (mysql_query my q s)) = 0 \<or> store_errno (fst (mysql_query my q s)) \<ge> 1000))"

lemma execute_code: "mysql_errors my \<Longrightarrow> execute my q w c = (n, r) \<Longrightarrow> n = 0 \<or> n \<ge> 1000"
  unfolding execute_def mysql_errors_def
  by (auto simp: Let_def eMET_Unknwon_def eMET_OK_def split: if_splits prod.splits option.splits)
    (metis fst_conv not_gr_zero)+

lemma execute_not_lost: "mysql_errors my \<Longrightarrow> execute my q w c = (n, r) \<Longrightarrow> mysql_code n \<noteq> Some eDBRC_LostConnection"
  using execute_code [of my q w c n r] by (auto simp: mysql_code_def eMET_LostConnection_def)

lemma call_loop_not_lost: "mysql_errors my \<Longrightarrow> call_loop my q n c = (Inl code, c') \<Longrightarrow> code \<noteq> eDBRC_LostConnection"
  by (induction n arbitrary: c)
    (auto simp: Let_def dest: execute_not_lost split: if_splits prod.splits option.splits)

lemma fill_reply_not_lost: "fill_reply f c \<noteq> Some (eDBRC_LostConnection, r)"
  by (cases f) (auto simp: fill_reply_def)

lemmas handler_splits = if_splits option.splits prod.splits sum.splits

lemma select_not_lost: "mysql_errors my \<Longrightarrow> select_handler env create my req c \<noteq> Some (eDBRC_LostConnection, r)"
  by (cases req) (auto simp: Let_def fill_reply_not_lost dest: execute_not_lost split: handler_splits)

lemma delete_not_lost: "mysql_errors my \<Longrightarrow> delete_handler env create my req c \<noteq> Some (eDBRC_LostConnection, r)"
  by (cases req) (auto simp: Let_def dest: execute_not_lost split: handler_splits)

lemma query_not_lost: "mysql_errors my \<Longrightarrow> query_handler env create my req c \<noteq> Some (eDBRC_LostConnection, r)"
  by (cases req) (auto simp: Let_def fill_reply_not_lost dest: execute_not_lost split: handler_splits)

lemma call_not_lost: "mysql_errors my \<Longrightarrow> call_handler my req c \<noteq> Some (eDBRC_LostConnection, r)"
  by (cases req) (auto dest: call_loop_not_lost split: handler_splits)

lemma write_not_lost: "mysql_errors my \<Longrightarrow> write_record env my st good m c \<noteq> Some (eDBRC_LostConnection, r)"
  unfolding write_record_def by (auto simp: Let_def dest: execute_not_lost split: handler_splits)

lemma handlers_not_lost:
  "mysql_errors my \<Longrightarrow> onDbCommand env create my t req c \<noteq> Some (eDBRC_LostConnection, r)"
  by (cases t; cases req)
    (simp_all add: select_not_lost delete_not_lost query_not_lost call_not_lost write_not_lost nop_handler_def
      del: select_handler.simps delete_handler.simps query_handler.simps call_handler.simps)

end
