(* ===== verification/Db_Cache.thy ===== *)
theory Db_Cache imports Db_Command "HOL-Library.AList" begin

text \<open>
  The write-back cache of a database thread: \<open>CDbCache\<close> (\<open>db_cache.cpp\<close>), one per table, and
  \<open>CDbCacheMgr\<close> (\<open>db_cache_mgr.cpp\<close>).  Rows are kept as serialized messages.  \<open>cmd\<close> stands
  for \<open>CDbCommandHandlerProxy::onDbCommand\<close> on the thread's connection, \<open>create\<close> for
  \<open>CDbThread::createMessage\<close>.  A result \<open>None\<close> means that the process has been stopped inside
  a handler, as in \<open>Db_Command\<close>.
\<close>

type_synonym 's handler = "db_type \<Rightarrow> db_request \<Rightarrow> 's \<Rightarrow> (db_code \<times> db_response option \<times> 's) option"

section \<open>One table\<close>

text \<open>
  A row of the cache; \<open>ticker\<close> says that its write-back ticker is registered.  The sizes are
  signed integers whose overflow C++ leaves undefined.  \<open>m_mapCacheInfo\<close> is a hash map: the
  model does not use the order of its entries, the operations that iterate take the order as an
  argument.
\<close>

record SCacheInfo =
  szData :: string
  ticker :: bool

record CDbCache =
  m_mapCacheInfo :: "(u64 \<times> SCacheInfo) list"
  m_nDataSize :: int

definition find_row :: "CDbCache \<Rightarrow> u64 \<Rightarrow> SCacheInfo option" where
  "find_row cache nID = map_of (m_mapCacheInfo cache) nID"

definition new_cache :: CDbCache where
  "new_cache = \<lparr>m_mapCacheInfo = [], m_nDataSize = 0\<rparr>"

definition cache_getData :: "proto_env \<Rightarrow> create_fun \<Rightarrow> string \<Rightarrow> u64 \<Rightarrow> CDbCache \<Rightarrow> db_message option" where
  "cache_getData env create szDataName nID cache = (case find_row cache nID of None \<Rightarrow> None
     | Some info \<Rightarrow> (case create szDataName of None \<Rightarrow> None
         | Some pMessage \<Rightarrow> parse env (type_name pMessage) (szData info)))"

definition cache_addData :: "proto_env \<Rightarrow> u64 \<Rightarrow> db_message \<Rightarrow> CDbCache \<Rightarrow> bool \<times> CDbCache" where
  "cache_addData env nID pData cache =
    (if find_row cache nID \<noteq> None then (False, cache)
     else case serialize env pData of None \<Rightarrow> (False, cache)
       | Some data \<Rightarrow> (True, \<lparr>m_mapCacheInfo = AList.update nID \<lparr>szData = data, ticker = False\<rparr> (m_mapCacheInfo cache),
                           m_nDataSize = m_nDataSize cache + int (length data)\<rparr>))"

text \<open>The copy of one field that is set in the source.\<close>

definition copy_field :: "db_message \<Rightarrow> field_desc \<Rightarrow> string \<Rightarrow> db_message \<Rightarrow> db_message option" where
  "copy_field pData sfd dname pDst = (let f = f_name sfd in case class_of (f_type sfd) of
     Int32 \<Rightarrow> Some (SetField pDst dname (VInt32 (GetInt32 pData f)))
   | UInt32 \<Rightarrow> Some (SetField pDst dname (VUInt32 (GetUInt32 pData f)))
   | Int64 \<Rightarrow> Some (SetField pDst dname (VInt64 (GetInt64 pData f)))
   | UInt64 \<Rightarrow> Some (SetField pDst dname (VUInt64 (GetUInt64 pData f)))
   | Double \<Rightarrow> Some (SetField pDst dname (VDouble (GetDouble pData f)))
   | Float \<Rightarrow> Some (SetField pDst dname (VFloat (GetFloat pData f)))
   | Str \<Rightarrow> Some (SetField pDst dname (VString (GetString pData f)))
   | Msg \<Rightarrow> Some (SetField pDst dname (VMessage (GetMessage pData sfd)))
   | Unsupported \<Rightarrow> None)"

fun copy_fields :: "descriptor \<Rightarrow> db_message \<Rightarrow> field_desc list \<Rightarrow> db_message \<Rightarrow> db_message option" where
  "copy_fields dd pData [] pDst = Some pDst"
| "copy_fields dd pData (sfd # sfds) pDst = (case FindFieldByName dd (f_name sfd) of None \<Rightarrow> None
     | Some dfd \<Rightarrow> if \<not> HasField pData (f_name sfd) then copy_fields dd pData sfds pDst
         else (case copy_field pData sfd (f_name dfd) pDst of None \<Rightarrow> None
           | Some pDst' \<Rightarrow> copy_fields dd pData sfds pDst'))"

definition merge_into :: "proto_env \<Rightarrow> db_message \<Rightarrow> db_message \<Rightarrow> db_message option" where
  "merge_into env pData pDst = (case (pool env (type_name pData), pool env (type_name pDst)) of
     (Some sd, Some dd) \<Rightarrow> copy_fields dd pData (d_fields sd) pDst | _ \<Rightarrow> None)"

definition cache_setData :: "proto_env \<Rightarrow> create_fun \<Rightarrow> string \<Rightarrow> u64 \<Rightarrow> db_message \<Rightarrow> CDbCache \<Rightarrow> bool \<times> CDbCache" where
  "cache_setData env create szDataName nID pData cache = (case find_row cache nID of
     None \<Rightarrow> (False, snd (cache_addData env nID pData cache))
   | Some info \<Rightarrow> (case create szDataName of None \<Rightarrow> (False, cache)
     | Some pMessage \<Rightarrow> (case parse env (type_name pMessage) (szData info) of None \<Rightarrow> (False, cache)
       | Some pDst \<Rightarrow> (case merge_into env pData pDst of None \<Rightarrow> (False, cache)
         | Some pDst' \<Rightarrow> (case serialize env pDst' of None \<Rightarrow> (False, cache)
           | Some data \<Rightarrow> (True, \<lparr>
               m_mapCacheInfo = AList.update nID \<lparr>szData = data, ticker = True\<rparr> (m_mapCacheInfo cache),
               m_nDataSize = m_nDataSize cache - int (length (szData info)) + int (length data)\<rparr>))))))"

definition cache_delData :: "u64 \<Rightarrow> CDbCache \<Rightarrow> bool \<times> CDbCache" where
  "cache_delData nID cache = (case find_row cache nID of None \<Rightarrow> (False, cache)
     | Some info \<Rightarrow> (True, \<lparr>m_mapCacheInfo = AList.delete nID (m_mapCacheInfo cache),
                         m_nDataSize = m_nDataSize cache - int (length (szData info))\<rparr>))"

text \<open>\<open>onBackup\<close>: the row goes to the database; an error is only logged.\<close>

definition onBackup :: "proto_env \<Rightarrow> create_fun \<Rightarrow> 's handler \<Rightarrow> string \<Rightarrow> u64 \<Rightarrow> CDbCache \<Rightarrow> 's \<Rightarrow> 's option" where
  "onBackup env create cmd szDataName nContext cache s = (case find_row cache nContext of None \<Rightarrow> Some s
     | Some info \<Rightarrow> (case create szDataName of None \<Rightarrow> Some s
       | Some pMessage \<Rightarrow> (case parse env (type_name pMessage) (szData info) of None \<Rightarrow> Some s
         | Some m \<Rightarrow> map_option (\<lambda>(code, reply, s'). s') (cmd eDBCT_Update (DataReq m) s))))"

fun cache_flush :: "proto_env \<Rightarrow> create_fun \<Rightarrow> 's handler \<Rightarrow> string \<Rightarrow> u64 list \<Rightarrow> CDbCache \<Rightarrow> 's \<Rightarrow> 's option" where
  "cache_flush env create cmd szDataName [] cache s = Some s"
| "cache_flush env create cmd szDataName (nID # nIDs) cache s =
     Option.bind (onBackup env create cmd szDataName nID cache s)
       (cache_flush env create cmd szDataName nIDs cache)"

text \<open>
  \<open>cleanData\<close> drops one row.  Up to five random buckets are looked at and one of the rows found
  is taken: the draw is the argument \<open>pick\<close>, \<open>None\<close> when every bucket was empty.
\<close>

definition cleanData :: "proto_env \<Rightarrow> create_fun \<Rightarrow> 's handler \<Rightarrow> string \<Rightarrow> u64 option \<Rightarrow> CDbCache \<Rightarrow> 's
    \<Rightarrow> (int \<times> CDbCache \<times> 's) option" where
  "cleanData env create cmd szDataName pick cache s = (case pick of None \<Rightarrow> Some (0, cache, s)
     | Some nID \<Rightarrow> (case find_row cache nID of None \<Rightarrow> Some (0, cache, s)
       | Some info \<Rightarrow> map_option (\<lambda>s'. (int (length (szData info)),
             \<lparr>m_mapCacheInfo = AList.delete nID (m_mapCacheInfo cache),
              m_nDataSize = m_nDataSize cache - int (length (szData info))\<rparr>, s'))
           (if ticker info then onBackup env create cmd szDataName nID cache s else Some s)))"

text \<open>The ticker of a row fires: it is no longer registered, and its context is 0.\<close>

definition cache_timer :: "proto_env \<Rightarrow> create_fun \<Rightarrow> 's handler \<Rightarrow> string \<Rightarrow> u64 \<Rightarrow> CDbCache \<Rightarrow> 's
    \<Rightarrow> (CDbCache \<times> 's) option" where
  "cache_timer env create cmd szDataName nID cache s = (case find_row cache nID of None \<Rightarrow> Some (cache, s)
     | Some info \<Rightarrow> if \<not> ticker info then Some (cache, s)
         else (let cache' = cache\<lparr>m_mapCacheInfo := AList.update nID (info\<lparr>ticker := False\<rparr>) (m_mapCacheInfo cache)\<rparr> in
           map_option (\<lambda>s'. (cache', s')) (onBackup env create cmd szDataName 0 cache' s)))"

section \<open>All tables\<close>

text \<open>\<open>draws\<close> is the sequence of rows that the random generator will pick.\<close>

record CDbCacheMgr =
  m_mapCache :: "(string \<times> CDbCache) list"
  mgr_nDataSize :: int
  m_nWritebackTime :: u32
  m_nMaxCacheSize :: int
  draws :: "u64 option list"

record SDbOptions =
  nDbThreadCount :: nat
  vecCacheTable :: "string list"
  nMaxCacheSize :: u64
  nCacheWritebackTime :: u32

definition mgr_init :: "SDbOptions \<Rightarrow> u64 option list \<Rightarrow> CDbCacheMgr" where
  "mgr_init opt ds = \<lparr>
     m_mapCache = fold (\<lambda>t. AList.update (getMessageNameByTableName t) new_cache) (vecCacheTable opt) [],
     mgr_nDataSize = 0, m_nWritebackTime = nCacheWritebackTime opt,
     m_nMaxCacheSize = sint (nMaxCacheSize opt), draws = ds\<rparr>"

definition find_cache :: "CDbCacheMgr \<Rightarrow> string \<Rightarrow> CDbCache option" where
  "find_cache mgr szDataName = map_of (m_mapCache mgr) szDataName"

definition put_cache :: "string \<Rightarrow> CDbCache \<Rightarrow> CDbCacheMgr \<Rightarrow> CDbCacheMgr" where
  "put_cache szDataName cache mgr = mgr\<lparr>m_mapCache := AList.update szDataName cache (m_mapCache mgr)\<rparr>"

definition enableCache :: "CDbCacheMgr \<Rightarrow> bool" where
  "enableCache mgr \<longleftrightarrow> m_nMaxCacheSize mgr > 0"

definition mgr_getData :: "proto_env \<Rightarrow> create_fun \<Rightarrow> u64 \<Rightarrow> string \<Rightarrow> CDbCacheMgr \<Rightarrow> db_message option" where
  "mgr_getData env create nID szDataName mgr = (case find_cache mgr szDataName of None \<Rightarrow> None
     | Some cache \<Rightarrow> cache_getData env create szDataName nID cache)"

text \<open>The common end of \<open>setData\<close> and \<open>addData\<close>: the account, and the eviction when it is over the limit.\<close>

definition account :: "proto_env \<Rightarrow> create_fun \<Rightarrow> 's handler \<Rightarrow> string \<Rightarrow> int \<Rightarrow> CDbCache \<Rightarrow> CDbCacheMgr \<Rightarrow> 's
    \<Rightarrow> (bool \<times> CDbCacheMgr \<times> 's) option" where
  "account env create cmd szDataName nSize cache mgr s =
    (let mgr' = mgr\<lparr>mgr_nDataSize := mgr_nDataSize mgr - nSize + m_nDataSize cache\<rparr> in
     if mgr_nDataSize mgr' > m_nMaxCacheSize mgr' then
       map_option (\<lambda>(n, cache', s'). (True,
           put_cache szDataName cache' (mgr'\<lparr>mgr_nDataSize := mgr_nDataSize mgr' - n, draws := tl (draws mgr')\<rparr>), s'))
         (cleanData env create cmd szDataName (case draws mgr' of [] \<Rightarrow> None | d # _ \<Rightarrow> d) cache s)
     else Some (True, put_cache szDataName cache mgr', s))"

definition mgr_setData :: "proto_env \<Rightarrow> create_fun \<Rightarrow> 's handler \<Rightarrow> u64 \<Rightarrow> db_message \<Rightarrow> CDbCacheMgr \<Rightarrow> 's
    \<Rightarrow> (bool \<times> CDbCacheMgr \<times> 's) option" where
  "mgr_setData env create cmd nID pData mgr s =
    (let szDataName = type_name pData in case find_cache mgr szDataName of None \<Rightarrow> Some (False, mgr, s)
     | Some cache \<Rightarrow> (case cache_setData env create szDataName nID pData cache of
         (False, cache') \<Rightarrow> Some (False, put_cache szDataName cache' mgr, s)
       | (True, cache') \<Rightarrow> account env create cmd szDataName (m_nDataSize cache) cache' mgr s))"

definition mgr_addData :: "proto_env \<Rightarrow> create_fun \<Rightarrow> 's handler \<Rightarrow> u64 \<Rightarrow> db_message \<Rightarrow> CDbCacheMgr \<Rightarrow> 's
    \<Rightarrow> (bool \<times> CDbCacheMgr \<times> 's) option" where
  "mgr_addData env create cmd nID pData mgr s =
    (let szDataName = type_name pData in case find_cache mgr szDataName of None \<Rightarrow> Some (False, mgr, s)
     | Some cache \<Rightarrow> (case cache_addData env nID pData cache of
         (False, cache') \<Rightarrow> Some (False, put_cache szDataName cache' mgr, s)
       | (True, cache') \<Rightarrow> account env create cmd szDataName (m_nDataSize cache) cache' mgr s))"

definition mgr_delData :: "u64 \<Rightarrow> string \<Rightarrow> CDbCacheMgr \<Rightarrow> bool \<times> CDbCacheMgr" where
  "mgr_delData nID szDataName mgr = (case find_cache mgr szDataName of None \<Rightarrow> (False, mgr)
     | Some cache \<Rightarrow> (case cache_delData nID cache of
         (False, _) \<Rightarrow> (False, mgr)
       | (True, cache') \<Rightarrow> (True, put_cache szDataName cache'
           (mgr\<lparr>mgr_nDataSize := mgr_nDataSize mgr - m_nDataSize cache + m_nDataSize cache'\<rparr>))))"

text \<open>The order in which the tables and their rows are visited is the argument \<open>order\<close>.\<close>

fun flushCache :: "proto_env \<Rightarrow> create_fun \<Rightarrow> 's handler \<Rightarrow> (string \<times> u64 list) list \<Rightarrow> CDbCacheMgr \<Rightarrow> 's \<Rightarrow> 's option" where
  "flushCache env create cmd [] mgr s = Some s"
| "flushCache env create cmd ((szDataName, nIDs) # order) mgr s = (case find_cache mgr szDataName of
     None \<Rightarrow> flushCache env create cmd order mgr s
   | Some cache \<Rightarrow> Option.bind (cache_flush env create cmd szDataName nIDs cache s)
       (flushCache env create cmd order mgr))"

text \<open>\<open>update\<close>: the tickers that fire now, in the order in which \<open>CTickerMgr\<close> calls them.\<close>

fun mgr_update :: "proto_env \<Rightarrow> create_fun \<Rightarrow> 's handler \<Rightarrow> (string \<times> u64) list \<Rightarrow> CDbCacheMgr \<Rightarrow> 's
    \<Rightarrow> (CDbCacheMgr \<times> 's) option" where
  "mgr_update env create cmd [] mgr s = Some (mgr, s)"
| "mgr_update env create cmd ((szDataName, nID) # fired) mgr s = (case find_cache mgr szDataName of
     None \<Rightarrow> mgr_update env create cmd fired mgr s
   | Some cache \<Rightarrow> (case cache_timer env create cmd szDataName nID cache s of None \<Rightarrow> None
       | Some (cache', s') \<Rightarrow> mgr_update env create cmd fired (put_cache szDataName cache' mgr) s'))"

end
