(* ===== verification/Db_Thread.thy ===== *)
theory Db_Thread imports Db_Cache begin

text \<open>
  The database threads: \<open>CDbThread\<close> (\<open>db_thread.cpp\<close>) takes the commands of its queue through
  the cache to the command handlers, \<open>CDbThreadMgr\<close> (\<open>db_thread_mgr.cpp\<close>) spreads the commands
  over the threads and brings the results back, \<open>db_query\<close> (\<open>database.cpp\<close>) turns a client's
  message into a command.
\<close>

section \<open>Commands and results\<close>

text \<open>The request of a queued command: absent, an object, or an object that has been destroyed.\<close>

datatype request_ptr = NullMsg | Live db_request | Freed

record SDbCommand =
  nType :: db_type
  pMessage :: request_ptr
  callback :: "nat option"

record SDbResultInfo =
  nErrorCode :: db_code
  res_message :: "db_response option"
  res_callback :: nat

text \<open>What the thread needs of its connection (\<open>CDbConnection\<close>).\<close>

record 's conn_ops =
  is_open :: "'s \<Rightarrow> bool"
  ping :: "'s \<Rightarrow> bool"
  reopen :: "'s \<Rightarrow> 's"      \<comment> \<open>\<open>close\<close>, \<open>onDisconnect\<close> and the loop of \<open>connectDb\<close>\<close>
  shut :: "'s \<Rightarrow> 's"

text \<open>
  The connection of \<open>Db_Command\<close>: \<open>connectDb\<close> tries again every 100 ms until the server lets it
  in, and then \<open>onConnect\<close> switches auto-commit on.
\<close>

definition mysql_conn :: "'db mysql \<Rightarrow> ('db \<Rightarrow> bool) \<Rightarrow> 'db CDbConnection conn_ops" where
  "mysql_conn my mysql_ping = \<lparr>is_open = m_pMysql, ping = (\<lambda>c. m_pMysql c \<and> mysql_ping (server c)),
     reopen = (\<lambda>c. autoCommit my True (c\<lparr>m_pMysql := True\<rparr>)), shut = (\<lambda>c. c\<lparr>m_pMysql := False\<rparr>)\<rparr>"

record 's CDbThread =
  m_listCommand :: "SDbCommand list"
  m_dbCacheMgr :: CDbCacheMgr
  m_dbConnection :: 's

section \<open>The cache around a command\<close>

definition onPreCache :: "proto_env \<Rightarrow> create_fun \<Rightarrow> 's handler \<Rightarrow> db_type \<Rightarrow> db_request \<Rightarrow> CDbCacheMgr \<Rightarrow> 's
    \<Rightarrow> (bool \<times> db_response option \<times> CDbCacheMgr \<times> 's) option" where
  "onPreCache env create cmd t req mgr s =
    (if \<not> enableCache mgr then Some (False, None, mgr, s)
     else case (t, req) of
       (eDBCT_Select, SelectReq table nID) \<Rightarrow>
         (case mgr_getData env create nID (getMessageNameByTableName table) mgr of
            Some m \<Rightarrow> Some (True, Some (RespMessage m), mgr, s)
          | None \<Rightarrow> Some (False, None, mgr, s))
     | (eDBCT_Update, DataReq pData) \<Rightarrow>
         (case getPrimaryValue env pData of None \<Rightarrow> Some (False, None, mgr, s)
          | Some nID \<Rightarrow> map_option (\<lambda>(ok, mgr', s'). (ok, None, mgr', s'))
              (mgr_setData env create cmd nID pData mgr s))
     | (eDBCT_Delete, DeleteReq table nID) \<Rightarrow>
         Some (False, None, snd (mgr_delData nID (getMessageNameByTableName table) mgr), s)
     | _ \<Rightarrow> Some (False, None, mgr, s))"

definition onPostCache :: "proto_env \<Rightarrow> create_fun \<Rightarrow> 's handler \<Rightarrow> db_type \<Rightarrow> db_request \<Rightarrow> db_response option
    \<Rightarrow> CDbCacheMgr \<Rightarrow> 's \<Rightarrow> (CDbCacheMgr \<times> 's) option" where
  "onPostCache env create cmd t req reply mgr s =
    (if \<not> enableCache mgr then Some (mgr, s)
     else case (t, req, reply) of
       (eDBCT_Select, SelectReq table nID, Some (RespMessage m)) \<Rightarrow>
         map_option snd (mgr_setData env create cmd nID m mgr s)
     | (eDBCT_Insert, DataReq pData, _) \<Rightarrow>
         (case getPrimaryValue env pData of None \<Rightarrow> Some (mgr, s)
          | Some nID \<Rightarrow> map_option snd (mgr_addData env create cmd nID pData mgr s))
     | _ \<Rightarrow> Some (mgr, s))"

text \<open>One command of the list, up to its result.\<close>

definition exec_command :: "proto_env \<Rightarrow> create_fun \<Rightarrow> 's handler \<Rightarrow> db_type \<Rightarrow> db_request \<Rightarrow> CDbCacheMgr \<Rightarrow> 's
    \<Rightarrow> (db_code \<times> db_response option \<times> CDbCacheMgr \<times> 's) option" where
  "exec_command env create cmd t req mgr s =
    (case onPreCache env create cmd t req mgr s of
       None \<Rightarrow> None
     | Some (True, reply, mgr', s') \<Rightarrow> Some (eDBRC_OK, reply, mgr', s')
     | Some (False, _, mgr', s') \<Rightarrow>
         (case cmd t req s' of None \<Rightarrow> None
          | Some (code, reply, s'') \<Rightarrow>
              if code = eDBRC_OK then
                map_option (\<lambda>(mgr'', s'''). (code, reply, mgr'', s'''))
                  (onPostCache env create cmd t req reply mgr' s'')
              else Some (code, reply, mgr', s'')))"

definition result_of :: "SDbCommand \<Rightarrow> db_code \<Rightarrow> db_response option \<Rightarrow> SDbResultInfo list" where
  "result_of c code reply = (case callback c of None \<Rightarrow> []
     | Some cb \<Rightarrow> [\<lparr>nErrorCode = code, res_message = reply, res_callback = cb\<rparr>])"

text \<open>
  The loop of \<open>onProcess\<close> over the list it has taken: the results, the commands that are left
  when the connection is lost (the request of the first has already been destroyed by the
  \<open>defer\<close>), the cache and the connection.  \<open>ord\<close> is the order of a flush.
\<close>

fun process_list :: "proto_env \<Rightarrow> create_fun \<Rightarrow> 's handler \<Rightarrow> (CDbCacheMgr \<Rightarrow> (string \<times> u64 list) list)
    \<Rightarrow> SDbCommand list \<Rightarrow> CDbCacheMgr \<Rightarrow> 's
    \<Rightarrow> (SDbResultInfo list \<times> SDbCommand list \<times> CDbCacheMgr \<times> 's) option" where
  "process_list env create cmd ord [] mgr s = Some ([], [], mgr, s)"
| "process_list env create cmd ord (c # cs) mgr s =
    (if nType c = eDBCT_Flush then
       Option.bind (flushCache env create cmd (ord mgr) mgr s) (process_list env create cmd ord cs mgr)
     else case pMessage c of
       Live req \<Rightarrow> (case exec_command env create cmd (nType c) req mgr s of
           None \<Rightarrow> None
         | Some (code, reply, mgr', s') \<Rightarrow>
             if code = eDBRC_LostConnection then Some ([], c\<lparr>pMessage := Freed\<rparr> # cs, mgr', s')
             else map_option (\<lambda>(rs, left, r). (result_of c code reply @ rs, left, r))
                 (process_list env create cmd ord cs mgr' s'))
     | _ \<Rightarrow> None)"

section \<open>A thread\<close>

definition thread_query :: "SDbCommand \<Rightarrow> 's CDbThread \<Rightarrow> 's CDbThread" where
  "thread_query c th = th\<lparr>m_listCommand := m_listCommand th @ [c]\<rparr>"

text \<open>
  \<open>onProcess\<close>: \<open>fired\<close> are the tickers that fire, \<open>late\<close> the commands that other threads queue
  while this one works on the list it has taken.
\<close>

definition thread_onProcess :: "proto_env \<Rightarrow> create_fun \<Rightarrow> 's handler \<Rightarrow> 's conn_ops \<Rightarrow> (CDbCacheMgr \<Rightarrow> (string \<times> u64 list) list)
    \<Rightarrow> (string \<times> u64) list \<Rightarrow> SDbCommand list \<Rightarrow> 's CDbThread \<Rightarrow> (SDbResultInfo list \<times> 's CDbThread) option" where
  "thread_onProcess env create cmd ops ord fired late th =
    (let s = m_dbConnection th;
         s0 = (if \<not> is_open ops s \<or> \<not> ping ops s then reopen ops (shut ops s) else s) in
     case mgr_update env create cmd fired (m_dbCacheMgr th) s0 of None \<Rightarrow> None
     | Some (mgr1, s1) \<Rightarrow>
         if m_listCommand th = [] then
           Some ([], th\<lparr>m_listCommand := late, m_dbCacheMgr := mgr1, m_dbConnection := s1\<rparr>)
         else (case process_list env create cmd ord (m_listCommand th) mgr1 s1 of None \<Rightarrow> None
           | Some (rs, left, mgr2, s2) \<Rightarrow>
               Some (rs, \<lparr>m_listCommand = left @ late, m_dbCacheMgr = mgr2, m_dbConnection = s2\<rparr>)))"

definition onDestroy :: "proto_env \<Rightarrow> create_fun \<Rightarrow> 's handler \<Rightarrow> 's conn_ops \<Rightarrow> (CDbCacheMgr \<Rightarrow> (string \<times> u64 list) list)
    \<Rightarrow> 's CDbThread \<Rightarrow> 's CDbThread option" where
  "onDestroy env create cmd ops ord th = map_option (\<lambda>s. th\<lparr>m_dbConnection := shut ops s\<rparr>)
     (flushCache env create cmd (ord (m_dbCacheMgr th)) (m_dbCacheMgr th) (m_dbConnection th))"

section \<open>The threads\<close>

record 's CDbThreadMgr =
  m_vecDbThread :: "'s CDbThread list"
  m_listResultInfo :: "SDbResultInfo list"

text \<open>\<open>init\<close>: \<open>conn\<close> is the connection of a thread, \<open>None\<close> when the first attempt fails.\<close>

definition tm_init :: "SDbOptions \<Rightarrow> (nat \<Rightarrow> 's option) \<Rightarrow> (nat \<Rightarrow> u64 option list) \<Rightarrow> 's CDbThreadMgr option" where
  "tm_init opt conn ds =
    (if nDbThreadCount opt = 0 \<or> (\<exists>i \<in> {0..<nDbThreadCount opt}. conn i = None) then None
     else Some \<lparr>m_vecDbThread = map (\<lambda>i. \<lparr>m_listCommand = [], m_dbCacheMgr = mgr_init opt (ds i),
                                         m_dbConnection = the (conn i)\<rparr>) [0..<nDbThreadCount opt],
                m_listResultInfo = []\<rparr>)"

definition thread_index :: "u32 \<Rightarrow> 's CDbThreadMgr \<Rightarrow> nat" where
  "thread_index nThreadIndex tm = unat nThreadIndex mod length (m_vecDbThread tm)"

definition to_thread :: "nat \<Rightarrow> SDbCommand \<Rightarrow> 's CDbThreadMgr \<Rightarrow> 's CDbThreadMgr" where
  "to_thread i c tm = tm\<lparr>m_vecDbThread := (m_vecDbThread tm)[i := thread_query c (m_vecDbThread tm ! i)]\<rparr>"

definition tm_query :: "u32 \<Rightarrow> SDbCommand \<Rightarrow> 's CDbThreadMgr \<Rightarrow> 's CDbThreadMgr" where
  "tm_query nThreadIndex c tm =
    (if m_vecDbThread tm = [] then tm
     else if nType c \<noteq> eDBCT_Flush then to_thread (thread_index nThreadIndex tm) c tm
     else if nThreadIndex = 0 then tm\<lparr>m_vecDbThread := map (thread_query c) (m_vecDbThread tm)\<rparr>
     else to_thread (thread_index nThreadIndex tm) c tm)"

definition getThreadCount :: "'s CDbThreadMgr \<Rightarrow> nat" where
  "getThreadCount tm = length (m_vecDbThread tm)"

definition getQueueSize :: "nat \<Rightarrow> 's CDbThreadMgr \<Rightarrow> nat" where
  "getQueueSize i tm = (if i \<ge> length (m_vecDbThread tm) then 0
     else length (m_listCommand (m_vecDbThread tm ! i)))"

text \<open>A round of thread \<open>i\<close>; its results go to the manager one by one.\<close>

definition tm_process :: "proto_env \<Rightarrow> create_fun \<Rightarrow> 's handler \<Rightarrow> 's conn_ops \<Rightarrow> (CDbCacheMgr \<Rightarrow> (string \<times> u64 list) list)
    \<Rightarrow> nat \<Rightarrow> (string \<times> u64) list \<Rightarrow> SDbCommand list \<Rightarrow> 's CDbThreadMgr \<Rightarrow> 's CDbThreadMgr option" where
  "tm_process env create cmd ops ord i fired late tm =
    map_option (\<lambda>(rs, th). tm\<lparr>m_vecDbThread := (m_vecDbThread tm)[i := th],
                              m_listResultInfo := m_listResultInfo tm @ rs\<rparr>)
      (thread_onProcess env create cmd ops ord fired late (m_vecDbThread tm ! i))"

text \<open>\<open>update\<close>: the callbacks in the order of their results.\<close>

definition tm_update :: "'s CDbThreadMgr \<Rightarrow> SDbResultInfo list \<times> 's CDbThreadMgr" where
  "tm_update tm = (m_listResultInfo tm, tm\<lparr>m_listResultInfo := []\<rparr>)"

text \<open>
  \<open>exit\<close>: every thread is joined, which runs its \<open>onDestroy\<close>; then a thread whose connection is
  still open runs \<open>onProcess\<close> once more.  The threads are forgotten, the results stay.
\<close>

fun exit_threads :: "proto_env \<Rightarrow> create_fun \<Rightarrow> 's handler \<Rightarrow> 's conn_ops \<Rightarrow> (CDbCacheMgr \<Rightarrow> (string \<times> u64 list) list)
    \<Rightarrow> 's CDbThread list \<Rightarrow> (SDbResultInfo list \<times> 's CDbThread list) option" where
  "exit_threads env create cmd ops ord [] = Some ([], [])"
| "exit_threads env create cmd ops ord (th # ths) =
    (case onDestroy env create cmd ops ord th of None \<Rightarrow> None
     | Some th' \<Rightarrow> (case (if is_open ops (m_dbConnection th') then thread_onProcess env create cmd ops ord [] [] th'
                         else Some ([], th')) of None \<Rightarrow> None
         | Some (rs, th'') \<Rightarrow> map_option (\<lambda>(rs', ths'). (rs @ rs', th'' # ths'))
             (exit_threads env create cmd ops ord ths)))"

section \<open>The client interface\<close>

datatype client_request =
    UpdateCommand (message_name: string) (message_content: string)
  | InsertCommand (message_name: string) (message_content: string)
  | SelectCommand (table_name: string) (cmd_id: u64)
  | DeleteCommand (table_name: string) (cmd_id: u64)
  | QueryCommand (table_name: string) (cmd_where: string) (cmd_args: "string list") (channel_id: u32)
  | CallCommand (cmd_sql: string) (cmd_args: "string list") (channel_id: u32)
  | NopCommand (channel_id: u32)
  | FlushCommand
  | OtherMessage

text \<open>
  The command and the index that a request gives.  The command messages are copied through
  \<open>createMessage\<close> and the serializer, whose success is the argument \<open>copies\<close>.
\<close>

definition record_command :: "proto_env \<Rightarrow> create_fun \<Rightarrow> db_type \<Rightarrow> string \<Rightarrow> string \<Rightarrow> (db_type \<times> db_request \<times> u32) option" where
  "record_command env create t name content = (case create name of None \<Rightarrow> None
     | Some p \<Rightarrow> (case parse env (type_name p) content of None \<Rightarrow> None
         | Some m \<Rightarrow> (case getPrimaryValue env m of None \<Rightarrow> None
             | Some nValue \<Rightarrow> Some (t, DataReq m, ucast nValue))))"

fun command_of :: "proto_env \<Rightarrow> create_fun \<Rightarrow> (client_request \<Rightarrow> bool) \<Rightarrow> client_request
    \<Rightarrow> (db_type \<times> db_request \<times> u32) option" where
  "command_of env create copies (UpdateCommand name content) = record_command env create eDBCT_Update name content"
| "command_of env create copies (InsertCommand name content) = record_command env create eDBCT_Insert name content"
| "command_of env create copies (SelectCommand table nID) =
    (if copies (SelectCommand table nID) then Some (eDBCT_Select, SelectReq table nID, ucast nID) else None)"
| "command_of env create copies (DeleteCommand table nID) =
    (if copies (DeleteCommand table nID) then Some (eDBCT_Delete, DeleteReq table nID, ucast nID) else None)"
| "command_of env create copies (QueryCommand table w as ch) =
    (if copies (QueryCommand table w as ch) then Some (eDBCT_Query, QueryReq table w as, ch) else None)"
| "command_of env create copies (CallCommand q as ch) =
    (if copies (CallCommand q as ch) then Some (eDBCT_Call, CallReq q as, ch) else None)"
| "command_of env create copies (NopCommand ch) =
    (if copies (NopCommand ch) then Some (eDBCT_Nop, NopReq, ch) else None)"
| "command_of env create copies FlushCommand = None"
| "command_of env create copies OtherMessage = None"

definition db_query :: "proto_env \<Rightarrow> create_fun \<Rightarrow> (client_request \<Rightarrow> bool) \<Rightarrow> client_request \<Rightarrow> nat option
    \<Rightarrow> 's CDbThreadMgr \<Rightarrow> 's CDbThreadMgr" where
  "db_query env create copies req cb tm =
    (if req = FlushCommand then
       fold (\<lambda>i. tm_query (of_nat i) \<lparr>nType = eDBCT_Flush, pMessage = NullMsg, callback = cb\<rparr>)
         [0..<getThreadCount tm] tm
     else case command_of env create copies req of None \<Rightarrow> tm
       | Some (t, r, nThreadIndex) \<Rightarrow>
           tm_query nThreadIndex \<lparr>nType = t, pMessage = Live r, callback = cb\<rparr> tm)"

end
