(* ===== verification/Db_Sizes.thy ===== *)
theory Db_Sizes imports Db_Thread begin

text \<open>
  The account of the memory a cache takes: every table's \<open>m_nDataSize\<close> is the total length of
  its rows, and the manager's total never exceeds the sum of the tables, through every operation
  of \<open>Db_Cache\<close> and \<open>Db_Thread\<close>.
\<close>

section \<open>Sums over association lists\<close>

lemma sum_list_alist_update:
  fixes f :: "'k \<times> 'v \<Rightarrow> int"
  assumes "distinct (map fst xs)"
  shows "sum_list (map f (AList.update k v xs)) =
         sum_list (map f xs) - (case map_of xs k of None \<Rightarrow> 0 | Some w \<Rightarrow> f (k, w)) + f (k, v)"
  using assms by (induction xs) (auto split: option.splits)

lemma sum_list_alist_delete:
  fixes f :: "'k \<times> 'v \<Rightarrow> int"
  assumes "distinct (map fst xs)"
  shows "sum_list (map f (AList.delete k xs)) =
         sum_list (map f xs) - (case map_of xs k of None \<Rightarrow> 0 | Some w \<Rightarrow> f (k, w))"
  using assms by (induction xs) (auto split: option.splits simp: delete_id image_iff dest: map_of_SomeD)

section \<open>A table\<close>

definition rows_size :: "(u64 \<times> SCacheInfo) list \<Rightarrow> int" where
  "rows_size rs = sum_list (map (\<lambda>p. int (length (szData (snd p)))) rs)"

definition cache_ok :: "CDbCache \<Rightarrow> bool" where
  "cache_ok cache \<longleftrightarrow> distinct (map fst (m_mapCacheInfo cache)) \<and> m_nDataSize cache = rows_size (m_mapCacheInfo cache)"

lemma cache_ok_new [inv_intros]: "cache_ok new_cache"
  by (simp add: cache_ok_def new_cache_def rows_size_def)

lemma cache_ok_add [inv_intros]: "cache_ok cache \<Longrightarrow> cache_ok (snd (cache_addData env nID m cache))"
  by (auto simp: cache_ok_def cache_addData_def rows_size_def find_row_def sum_list_alist_update distinct_update
      split: option.splits)

lemma cache_ok_set [inv_intros]: "cache_ok cache \<Longrightarrow> cache_ok (snd (cache_setData env create n nID m cache))"
  using cache_ok_add [of cache env nID m]
  by (auto simp: cache_ok_def cache_setData_def rows_size_def find_row_def sum_list_alist_update distinct_update
      split: option.splits)

lemma cache_ok_del [inv_intros]: "cache_ok cache \<Longrightarrow> cache_ok (snd (cache_delData nID cache))"
  by (auto simp: cache_ok_def cache_delData_def rows_size_def find_row_def sum_list_alist_delete distinct_delete
      split: option.splits)

lemma cleanData_size:
  assumes "cleanData env create cmd n pick cache s = Some (k, cache', s')" and "cache_ok cache"
  shows "cache_ok cache' \<and> m_nDataSize cache' = m_nDataSize cache - k"
  using assms
  by (auto simp: cleanData_def cache_ok_def rows_size_def find_row_def sum_list_alist_delete distinct_delete
      split: option.splits if_splits)

lemma timer_size:
  assumes "cache_timer env create cmd n nID cache s = Some (cache', s')" and "cache_ok cache"
  shows "cache_ok cache' \<and> m_nDataSize cache' = m_nDataSize cache"
  using assms
  by (auto simp: cache_timer_def cache_ok_def rows_size_def find_row_def sum_list_alist_update distinct_update Let_def
      split: option.splits if_splits)

section \<open>All tables\<close>

definition total_size :: "CDbCacheMgr \<Rightarrow> int" where
  "total_size mgr = sum_list (map (\<lambda>p. m_nDataSize (snd p)) (m_mapCache mgr))"

definition caches_ok :: "CDbCacheMgr \<Rightarrow> bool" where
  "caches_ok mgr \<longleftrightarrow> distinct (map fst (m_mapCache mgr)) \<and>
     (\<forall>n cache. find_cache mgr n = Some cache \<longrightarrow> cache_ok cache)"

definition sizes_ok :: "CDbCacheMgr \<Rightarrow> bool" where
  "sizes_ok mgr \<longleftrightarrow> caches_ok mgr \<and> mgr_nDataSize mgr \<le> total_size mgr"

lemma find_put [simp]: "find_cache (put_cache n cache mgr) = (find_cache mgr)(n \<mapsto> cache)"
  by (rule ext) (simp add: find_cache_def put_cache_def update_conv')

lemma caches_ok_put [inv_intros]: "caches_ok mgr \<Longrightarrow> cache_ok cache \<Longrightarrow> caches_ok (put_cache n cache mgr)"
  by (auto simp: caches_ok_def) (simp add: put_cache_def distinct_update)

lemma total_put:
  "caches_ok mgr \<Longrightarrow> find_cache mgr n = Some c \<Longrightarrow>
     total_size (put_cache n cache mgr) = total_size mgr - m_nDataSize c + m_nDataSize cache"
  by (simp add: caches_ok_def total_size_def put_cache_def find_cache_def sum_list_alist_update)

lemma mgr_size_irrelevant [simp]:
  "caches_ok (mgr\<lparr>mgr_nDataSize := x\<rparr>) = caches_ok mgr" "total_size (mgr\<lparr>mgr_nDataSize := x\<rparr>) = total_size mgr"
  "caches_ok (mgr\<lparr>draws := d\<rparr>) = caches_ok mgr" "total_size (mgr\<lparr>draws := d\<rparr>) = total_size mgr"
  "find_cache (mgr\<lparr>mgr_nDataSize := x\<rparr>) = find_cache mgr" "find_cache (mgr\<lparr>draws := d\<rparr>) = find_cache mgr"
  "mgr_nDataSize (put_cache n cache mgr) = mgr_nDataSize mgr"
  by (auto simp: caches_ok_def total_size_def find_cache_def put_cache_def)

lemma account_sizes:
  assumes "account env create cmd n (m_nDataSize c) cache mgr s = Some (ok, mgr', s')"
    and "sizes_ok mgr" and "find_cache mgr n = Some c" and "cache_ok cache"
  shows "sizes_ok mgr'"
  using assms
  by (auto simp: account_def Let_def sizes_ok_def total_put caches_ok_put dest: cleanData_size split: if_splits)

lemma cache_addData_grows: "cache_addData env nID m cache = (ok, cache') \<Longrightarrow> m_nDataSize cache' \<ge> m_nDataSize cache"
  by (auto simp: cache_addData_def split: if_splits option.splits)

lemma cache_setData_fails: "cache_setData env create n nID m cache = (False, cache') \<Longrightarrow> m_nDataSize cache' \<ge> m_nDataSize cache"
  by (auto simp: cache_setData_def split: option.splits)
    (metis cache_addData_grows prod.collapse)

text \<open>A failed \<open>setData\<close> may have added the row: the tables grow, the manager's account does not.\<close>

lemma put_grown_sizes:
  "sizes_ok mgr \<Longrightarrow> find_cache mgr n = Some c \<Longrightarrow> cache_ok cache \<Longrightarrow> m_nDataSize cache \<ge> m_nDataSize c \<Longrightarrow>
     sizes_ok (put_cache n cache mgr)"
  by (auto simp: sizes_ok_def total_put intro: caches_ok_put)

lemma found_cache_ok: "sizes_ok mgr \<Longrightarrow> find_cache mgr n = Some c \<Longrightarrow> cache_ok c"
  by (simp add: sizes_ok_def caches_ok_def)

lemma mgr_setData_sizes:
  assumes "mgr_setData env create cmd nID m mgr s = Some (ok, mgr', s')" and "sizes_ok mgr"
  shows "sizes_ok mgr'"
proof (cases "find_cache mgr (type_name m)")
  case (Some c)
  then have c: "cache_ok c" using assms(2) by (rule found_cache_ok [rotated])
  obtain b c' where e: "cache_setData env create (type_name m) nID m c = (b, c')" by force
  then have c': "cache_ok c'" using cache_ok_set [OF c, of env create "type_name m" nID m] by simp
  show ?thesis
  proof (cases b)
    case True
    then show ?thesis using assms Some e c' by (auto simp: mgr_setData_def intro: account_sizes)
  next
    case False
    then show ?thesis using assms Some e c'
      by (auto simp: mgr_setData_def intro!: put_grown_sizes dest: cache_setData_fails)
  qed
qed (use assms in \<open>simp add: mgr_setData_def\<close>)

lemma mgr_addData_sizes:
  assumes "mgr_addData env create cmd nID m mgr s = Some (ok, mgr', s')" and "sizes_ok mgr"
  shows "sizes_ok mgr'"
proof (cases "find_cache mgr (type_name m)")
  case (Some c)
  then have c: "cache_ok c" using assms(2) by (rule found_cache_ok [rotated])
  obtain b c' where e: "cache_addData env nID m c = (b, c')" by force
  then have c': "cache_ok c'" using cache_ok_add [OF c, of env nID m] by simp
  show ?thesis
  proof (cases b)
    case True
    then show ?thesis using assms Some e c' by (auto simp: mgr_addData_def intro: account_sizes)
  next
    case False
    then show ?thesis using assms Some e c'
      by (auto simp: mgr_addData_def intro!: put_grown_sizes dest: cache_addData_grows)
  qed
qed (use assms in \<open>simp add: mgr_addData_def\<close>)

lemma mgr_delData_sizes: "sizes_ok mgr \<Longrightarrow> sizes_ok (snd (mgr_delData nID n mgr))"
proof (cases "find_cache mgr n")
  case (Some c)
  assume s: "sizes_ok mgr"
  have c: "cache_ok c" using s Some by (rule found_cache_ok)
  obtain b c' where e: "cache_delData nID c = (b, c')" by force
  then have "cache_ok c'" using cache_ok_del [OF c, of nID] by simp
  then show ?thesis using s Some e
    by (cases b) (auto simp: mgr_delData_def sizes_ok_def total_put intro: caches_ok_put)
qed (simp add: mgr_delData_def)

lemma mgr_update_sizes:
  "mgr_update env create cmd fired mgr s = Some (mgr', s') \<Longrightarrow> sizes_ok mgr \<Longrightarrow> sizes_ok mgr'"
proof (induction fired arbitrary: mgr s)
  case (Cons p fired)
  obtain n nID where p: "p = (n, nID)" by force
  show ?case
  proof (cases "find_cache mgr n")
    case None then show ?thesis using Cons p by simp
  next
    case (Some c)
    with Cons.prems p obtain c1 s1 where t: "cache_timer env create cmd n nID c s = Some (c1, s1)"
      and r: "mgr_update env create cmd fired (put_cache n c1 mgr) s1 = Some (mgr', s')"
      by (auto split: option.splits)
    have "sizes_ok (put_cache n c1 mgr)"
      using timer_size [OF t found_cache_ok [OF Cons.prems(2) Some]] Cons.prems(2) Some
      by (intro put_grown_sizes) auto
    then show ?thesis by (rule Cons.IH [OF r])
  qed
qed simp

lemma pre_sizes:
  "onPreCache env create cmd t req mgr s = Some (b, reply, mgr', s') \<Longrightarrow> sizes_ok mgr \<Longrightarrow> sizes_ok mgr'"
  unfolding onPreCache_def
  by (auto intro: mgr_setData_sizes mgr_delData_sizes split: if_splits option.splits db_type.splits db_request.splits)

lemma post_sizes:
  "onPostCache env create cmd t req reply mgr s = Some (mgr', s') \<Longrightarrow> sizes_ok mgr \<Longrightarrow> sizes_ok mgr'"
  unfolding onPostCache_def
  by (auto intro: mgr_setData_sizes mgr_addData_sizes
      split: if_splits option.splits db_type.splits db_request.splits db_response.splits)

lemma exec_sizes:
  "exec_command env create cmd t req mgr s = Some (code, reply, mgr', s') \<Longrightarrow> sizes_ok mgr \<Longrightarrow> sizes_ok mgr'"
  unfolding exec_command_def
  by (auto split: option.splits bool.splits if_splits) (meson pre_sizes post_sizes)+

lemma process_sizes:
  "process_list env create cmd ord cs mgr s = Some (rs, left, mgr', s') \<Longrightarrow> sizes_ok mgr \<Longrightarrow> sizes_ok mgr'"
  by (induction cs arbitrary: mgr s rs left)
    (auto simp: bind_eq_Some_conv split: if_splits request_ptr.splits option.splits, (meson exec_sizes)+)

lemma thread_onProcess_sizes:
  "thread_onProcess env create cmd ops ord fired late th = Some (rs, th') \<Longrightarrow> sizes_ok (m_dbCacheMgr th) \<Longrightarrow>
     sizes_ok (m_dbCacheMgr th')"
  unfolding thread_onProcess_def Let_def
  by (auto split: if_splits option.splits) (meson mgr_update_sizes process_sizes)+

lemma mgr_init_sizes: "sizes_ok (mgr_init opt ds)"
proof -
  have "distinct (map fst (fold (\<lambda>t. AList.update (f t) new_cache) ts acc)) \<and>
     (\<forall>p \<in> set (fold (\<lambda>t. AList.update (f t) new_cache) ts acc). snd p = new_cache)"
    if "distinct (map fst acc) \<and> (\<forall>p \<in> set acc. snd p = new_cache)" for ts f and acc :: "(string \<times> CDbCache) list"
    using that
  proof (induction ts arbitrary: acc)
    case (Cons t ts)
    have "distinct (map fst (AList.update (f t) new_cache acc))" using Cons.prems by (simp add: distinct_update)
    moreover have "\<forall>p \<in> set (AList.update (f t) new_cache acc). snd p = new_cache"
      using Cons.prems by (induction acc) auto
    ultimately show ?case using Cons.IH by simp
  qed simp
  from this [of "[]" getMessageNameByTableName "vecCacheTable opt"]
  have d: "distinct (map fst (m_mapCache (mgr_init opt ds)))"
    and n: "\<And>p. p \<in> set (m_mapCache (mgr_init opt ds)) \<Longrightarrow> snd p = new_cache"
    by (simp_all add: mgr_init_def)
  have "cache = new_cache" if "find_cache (mgr_init opt ds) k = Some cache" for k cache
    using n [of "(k, cache)"] that by (simp add: find_cache_def map_of_SomeD)
  then have "caches_ok (mgr_init opt ds)" unfolding caches_ok_def using d cache_ok_new by metis
  moreover have "total_size (mgr_init opt ds) = 0"
  proof -
    have "m_nDataSize (snd p) = 0" if "p \<in> set (m_mapCache (mgr_init opt ds))" for p
      using n [OF that] by (simp add: new_cache_def)
    then show ?thesis unfolding total_size_def by (simp cong: map_cong)
  qed
  moreover have "mgr_nDataSize (mgr_init opt ds) = 0" by (simp add: mgr_init_def)
  ultimately show ?thesis by (simp add: sizes_ok_def)
qed

end
