(* ===== verification/Db_Coherence.thy ===== *)
theory Db_Coherence imports Db_Thread begin

text \<open>
  The cache as a refinement of the database it stands in front of.  \<open>tbl\<close> reads the rows of
  the database out of its state, \<open>view\<close> is what a client sees through the cache, \<open>spec_exec\<close>
  says what a command does to a plain store.  While every row of the cache is a good copy
  (\<open>coherent\<close>), a command run through the cache does to the view what it does to the store.
\<close>

section \<open>Well-formed records\<close>

type_synonym row = "string \<Rightarrow> field_value option"
type_synonym store = "string \<times> u64 \<Rightarrow> row option"

fun class_fits :: "field_class \<Rightarrow> field_value \<Rightarrow> bool" where
  "class_fits Int32 (VInt32 v) = True"
| "class_fits UInt32 (VUInt32 v) = True"
| "class_fits Int64 (VInt64 v) = True"
| "class_fits UInt64 (VUInt64 v) = True"
| "class_fits Double (VDouble v) = True"
| "class_fits Float (VFloat v) = True"
| "class_fits Str (VString v) = True"
| "class_fits Msg (VMessage v) = True"
| "class_fits _ _ = False"

definition fields_typed :: "descriptor \<Rightarrow> row \<Rightarrow> bool" where
  "fields_typed d r \<longleftrightarrow> distinct (map f_name (d_fields d)) \<and>
     (\<forall>f v. r f = Some v \<longrightarrow> (\<exists>fd \<in> set (d_fields d). f_name fd = f \<and> class_fits (class_of (f_type fd)) v))"

text \<open>A record of the type \<open>n\<close> whose primary field has the value \<open>i\<close>.\<close>

definition good_msg :: "proto_env \<Rightarrow> string \<Rightarrow> u64 \<Rightarrow> db_message \<Rightarrow> bool" where
  "good_msg env n i m \<longleftrightarrow> type_name m = n \<and> getPrimaryValue env m = Some i \<and>
     (\<exists>d. pool env n = Some d \<and> fields_typed d (get_field m))"

text \<open>What the model asks of protobuf: a record that is written is read back, a known type can be made.\<close>

definition codec :: "proto_env \<Rightarrow> bool" where
  "codec env \<longleftrightarrow> (\<forall>n i m. good_msg env n i m \<longrightarrow> (\<exists>b m'. serialize env m = Some b \<and> parse env n b = Some m' \<and>
     type_name m' = n \<and> get_field m' = get_field m))"

definition creates :: "proto_env \<Rightarrow> create_fun \<Rightarrow> bool" where
  "creates env create \<longleftrightarrow> (\<forall>n. pool env n \<noteq> None \<longrightarrow> (\<exists>p. create n = Some p \<and> type_name p = n))"

lemma find_field: "distinct (map f_name (d_fields d)) \<Longrightarrow> fd \<in> set (d_fields d) \<Longrightarrow>
    FindFieldByName d (f_name fd) = Some fd"
proof -
  have "List.find (\<lambda>x. f_name x = f_name fd) fds = Some fd"
    if "distinct (map f_name fds)" "fd \<in> set fds" for fds
    using that by (induction fds) auto
  then show "distinct (map f_name (d_fields d)) \<Longrightarrow> fd \<in> set (d_fields d) \<Longrightarrow> ?thesis"
    by (simp add: FindFieldByName_def)
qed

lemma copy_field_value:
  "get_field src (f_name fd) = Some v \<Longrightarrow> class_fits (class_of (f_type fd)) v \<Longrightarrow>
     copy_field src fd n dst = Some (SetField dst n v)"
  by (cases "class_of (f_type fd)"; cases v)
    (simp_all add: copy_field_def GetInt32_def GetUInt32_def GetInt64_def GetUInt64_def GetDouble_def
      GetFloat_def GetString_def GetMessage_def)

lemma typed_unique:
  "fields_typed d r \<Longrightarrow> fd \<in> set (d_fields d) \<Longrightarrow> r (f_name fd) = Some v \<Longrightarrow> class_fits (class_of (f_type fd)) v"
  unfolding fields_typed_def by (metis find_field option.inject)

lemma copy_fields_ok:
  assumes "fields_typed d (get_field src)" and "set fds \<subseteq> set (d_fields d)"
  shows "\<exists>dst'. copy_fields d src fds dst = Some dst' \<and> type_name dst' = type_name dst \<and>
     (\<forall>f. get_field dst' f = (if f \<in> f_name ` set fds \<and> get_field src f \<noteq> None then get_field src f else get_field dst f))"
  using assms(2)
proof (induction fds arbitrary: dst)
  case (Cons fd fds)
  have f: "FindFieldByName d (f_name fd) = Some fd"
    using assms(1) Cons.prems by (simp add: find_field fields_typed_def)
  show ?case
  proof (cases "get_field src (f_name fd)")
    case None
    then show ?thesis using Cons.IH [of dst] Cons.prems f by (auto simp: HasField_def)
  next
    case (Some v)
    then have "copy_field src fd (f_name fd) dst = Some (SetField dst (f_name fd) v)"
      using copy_field_value typed_unique [OF assms(1) _ Some] Cons.prems by simp
    then show ?thesis using Some Cons.IH [of "SetField dst (f_name fd) v"] Cons.prems f by (auto simp: HasField_def)
  qed
qed simp

lemma primary_value_cong:
  "type_name m' = type_name m \<Longrightarrow> pool env (type_name m) = Some d \<Longrightarrow>
     get_field m' (d_primary d) = get_field m (d_primary d) \<Longrightarrow> getPrimaryValue env m' = getPrimaryValue env m"
  by (auto simp: getPrimaryValue_def FindFieldByName_def GetInt32_def GetUInt32_def GetInt64_def GetUInt64_def
      split: option.splits field_class.splits dest!: find_Some_iff [THEN iffD1])

lemma good_cong: "good_msg env n i m \<Longrightarrow> type_name m' = n \<Longrightarrow> get_field m' = get_field m \<Longrightarrow> good_msg env n i m'"
  unfolding good_msg_def by (metis primary_value_cong)

lemma merge_good:
  assumes s: "good_msg env n i src" and t: "good_msg env n i dst"
  shows "\<exists>dst'. merge_into env src dst = Some dst' \<and> good_msg env n i dst' \<and>
     get_field dst' = get_field dst ++ get_field src"
proof -
  obtain d where d: "pool env n = Some d" "fields_typed d (get_field src)" "fields_typed d (get_field dst)"
    "type_name src = n" "type_name dst = n" using s t by (auto simp: good_msg_def)
  obtain dst' where m: "copy_fields d src (d_fields d) dst = Some dst'" "type_name dst' = n"
    and f: "\<And>f. get_field dst' f = (if f \<in> f_name ` set (d_fields d) \<and> get_field src f \<noteq> None
                                    then get_field src f else get_field dst f)"
    using copy_fields_ok [OF d(2) order_refl, of dst] d(5) by auto
  have "f \<in> f_name ` set (d_fields d)" if "get_field src f = Some v" for f v
    using d(2) that unfolding fields_typed_def by blast
  then have g: "get_field dst' = get_field dst ++ get_field src"
    by (intro ext) (auto simp: f map_add_def split: option.splits)
  have "fields_typed d (get_field dst')" using d(2, 3) unfolding g fields_typed_def by auto
  moreover have "getPrimaryValue env dst' = Some i"
  proof (cases "get_field src (d_primary d)")
    case None
    then have "getPrimaryValue env dst' = getPrimaryValue env dst"
      using m d by (intro primary_value_cong [of _ _ _ d]) (simp_all add: g map_add_def)
    then show ?thesis using t by (simp add: good_msg_def)
  next
    case (Some v)
    then have "getPrimaryValue env dst' = getPrimaryValue env src"
      using m d by (intro primary_value_cong [of _ _ _ d]) (simp_all add: g map_add_def)
    then show ?thesis using s by (simp add: good_msg_def)
  qed
  ultimately show ?thesis using m d g by (auto simp: merge_into_def good_msg_def)
qed

section \<open>The store and the view of it\<close>

definition upd :: "row option \<Rightarrow> row \<Rightarrow> row" where
  "upd old r = (case old of None \<Rightarrow> r | Some q \<Rightarrow> q ++ r)"

text \<open>
  What the commands do to the rows of a database that answers every statement: select returns the
  row, update writes the fields it has, insert takes a new key only.
\<close>

definition stores_rows :: "proto_env \<Rightarrow> ('s \<Rightarrow> store) \<Rightarrow> 's handler \<Rightarrow> bool" where
  "stores_rows env tbl cmd \<longleftrightarrow>
    (\<forall>t i s. case tbl s (getMessageNameByTableName t, i) of
       None \<Rightarrow> \<exists>s'. cmd eDBCT_Select (SelectReq t i) s = Some (eDBRC_EmptyRecordset, None, s') \<and> tbl s' = tbl s
     | Some r \<Rightarrow> \<exists>m s'. cmd eDBCT_Select (SelectReq t i) s = Some (eDBRC_OK, Some (RespMessage m), s') \<and>
         tbl s' = tbl s \<and> good_msg env (getMessageNameByTableName t) i m \<and> get_field m = r) \<and>
    (\<forall>n i m s. good_msg env n i m \<longrightarrow> (\<exists>s'. cmd eDBCT_Update (DataReq m) s = Some (eDBRC_OK, None, s') \<and>
       tbl s' = (tbl s)((n, i) \<mapsto> upd (tbl s (n, i)) (get_field m)))) \<and>
    (\<forall>n i m s. good_msg env n i m \<longrightarrow> (\<exists>s'. if tbl s (n, i) = None
       then cmd eDBCT_Insert (DataReq m) s = Some (eDBRC_OK, None, s') \<and> tbl s' = (tbl s)((n, i) \<mapsto> get_field m)
       else cmd eDBCT_Insert (DataReq m) s = Some (eDBRC_MysqlError, None, s') \<and> tbl s' = tbl s)) \<and>
    (\<forall>t i s. \<exists>s'. cmd eDBCT_Delete (DeleteReq t i) s = Some (eDBRC_OK, None, s') \<and>
       tbl s' = (tbl s)((getMessageNameByTableName t, i) := None))"

text \<open>The contract, one clause at a time.\<close>

lemma stores_select:
  assumes "stores_rows env tbl cmd"
  shows "tbl s (getMessageNameByTableName t, i) = None \<Longrightarrow>
      \<exists>s'. cmd eDBCT_Select (SelectReq t i) s = Some (eDBRC_EmptyRecordset, None, s') \<and> tbl s' = tbl s"
    and "tbl s (getMessageNameByTableName t, i) = Some r \<Longrightarrow>
      \<exists>m s'. cmd eDBCT_Select (SelectReq t i) s = Some (eDBRC_OK, Some (RespMessage m), s') \<and> tbl s' = tbl s \<and>
        good_msg env (getMessageNameByTableName t) i m \<and> get_field m = r"
proof -
  have "case tbl s (getMessageNameByTableName t, i) of
       None \<Rightarrow> \<exists>s'. cmd eDBCT_Select (SelectReq t i) s = Some (eDBRC_EmptyRecordset, None, s') \<and> tbl s' = tbl s
     | Some r \<Rightarrow> \<exists>m s'. cmd eDBCT_Select (SelectReq t i) s = Some (eDBRC_OK, Some (RespMessage m), s') \<and>
         tbl s' = tbl s \<and> good_msg env (getMessageNameByTableName t) i m \<and> get_field m = r"
    using assms unfolding stores_rows_def by (elim conjE) (erule allE)+
  then show "tbl s (getMessageNameByTableName t, i) = None \<Longrightarrow>
      \<exists>s'. cmd eDBCT_Select (SelectReq t i) s = Some (eDBRC_EmptyRecordset, None, s') \<and> tbl s' = tbl s"
    and "tbl s (getMessageNameByTableName t, i) = Some r \<Longrightarrow>
      \<exists>m s'. cmd eDBCT_Select (SelectReq t i) s = Some (eDBRC_OK, Some (RespMessage m), s') \<and> tbl s' = tbl s \<and>
        good_msg env (getMessageNameByTableName t) i m \<and> get_field m = r" by simp_all
qed

lemma stores_update:
  "stores_rows env tbl cmd \<Longrightarrow> good_msg env n i m \<Longrightarrow> \<exists>s'. cmd eDBCT_Update (DataReq m) s = Some (eDBRC_OK, None, s') \<and>
     tbl s' = (tbl s)((n, i) \<mapsto> upd (tbl s (n, i)) (get_field m))"
  unfolding stores_rows_def by (elim conjE) blast

lemma stores_insert:
  assumes "stores_rows env tbl cmd" and "good_msg env n i m"
  shows "tbl s (n, i) = None \<Longrightarrow> \<exists>s'. cmd eDBCT_Insert (DataReq m) s = Some (eDBRC_OK, None, s') \<and>
      tbl s' = (tbl s)((n, i) \<mapsto> get_field m)"
    and "tbl s (n, i) = Some r \<Longrightarrow> \<exists>s'. cmd eDBCT_Insert (DataReq m) s = Some (eDBRC_MysqlError, None, s') \<and>
      tbl s' = tbl s"
proof -
  have "\<exists>s'. if tbl s (n, i) = None
       then cmd eDBCT_Insert (DataReq m) s = Some (eDBRC_OK, None, s') \<and> tbl s' = (tbl s)((n, i) \<mapsto> get_field m)
       else cmd eDBCT_Insert (DataReq m) s = Some (eDBRC_MysqlError, None, s') \<and> tbl s' = tbl s"
    using assms unfolding stores_rows_def by (elim conjE) blast
  then show "tbl s (n, i) = None \<Longrightarrow> \<exists>s'. cmd eDBCT_Insert (DataReq m) s = Some (eDBRC_OK, None, s') \<and>
      tbl s' = (tbl s)((n, i) \<mapsto> get_field m)"
    and "tbl s (n, i) = Some r \<Longrightarrow> \<exists>s'. cmd eDBCT_Insert (DataReq m) s = Some (eDBRC_MysqlError, None, s') \<and>
      tbl s' = tbl s" by simp_all
qed

lemma stores_delete:
  "stores_rows env tbl cmd \<Longrightarrow> \<exists>s'. cmd eDBCT_Delete (DeleteReq t i) s = Some (eDBRC_OK, None, s') \<and>
     tbl s' = (tbl s)((getMessageNameByTableName t, i) := None)"
  unfolding stores_rows_def by (elim conjE) blast

fun spec_exec :: "proto_env \<Rightarrow> db_type \<Rightarrow> db_request \<Rightarrow> store \<Rightarrow> db_code \<times> row option \<times> store" where
  "spec_exec env eDBCT_Select (SelectReq t i) st = (case st (getMessageNameByTableName t, i) of
     None \<Rightarrow> (eDBRC_EmptyRecordset, None, st) | Some r \<Rightarrow> (eDBRC_OK, Some r, st))"
| "spec_exec env eDBCT_Update (DataReq m) st = (let k = (type_name m, the (getPrimaryValue env m)) in
     (eDBRC_OK, None, st(k \<mapsto> upd (st k) (get_field m))))"
| "spec_exec env eDBCT_Insert (DataReq m) st = (let k = (type_name m, the (getPrimaryValue env m)) in
     if st k = None then (eDBRC_OK, None, st(k \<mapsto> get_field m)) else (eDBRC_MysqlError, None, st))"
| "spec_exec env eDBCT_Delete (DeleteReq t i) st = (eDBRC_OK, None, st((getMessageNameByTableName t, i) := None))"
| "spec_exec env _ _ st = (eDBRC_Unknown, None, st)"

definition reply_row :: "db_response option \<Rightarrow> row option" where
  "reply_row r = (case r of Some (RespMessage m) \<Rightarrow> Some (get_field m) | _ \<Rightarrow> None)"

definition cached_row :: "CDbCacheMgr \<Rightarrow> string \<times> u64 \<Rightarrow> SCacheInfo option" where
  "cached_row mgr k = Option.bind (find_cache mgr (fst k)) (\<lambda>c. find_row c (snd k))"

definition view :: "proto_env \<Rightarrow> CDbCacheMgr \<Rightarrow> store \<Rightarrow> store" where
  "view env mgr st k = (case cached_row mgr k of None \<Rightarrow> st k
     | Some info \<Rightarrow> map_option get_field (parse env (fst k) (szData info)))"

text \<open>
  A good copy: the record of this key, with every field that the row of the database has, and the
  same as the row unless it waits to be written back.
\<close>

definition copy_ok :: "proto_env \<Rightarrow> store \<Rightarrow> string \<times> u64 \<Rightarrow> SCacheInfo \<Rightarrow> bool" where
  "copy_ok env st k info \<longleftrightarrow> (\<exists>m r. parse env (fst k) (szData info) = Some m \<and> good_msg env (fst k) (snd k) m \<and>
     st k = Some r \<and> dom r \<subseteq> dom (get_field m) \<and> (\<not> ticker info \<longrightarrow> r = get_field m))"

definition coherent :: "proto_env \<Rightarrow> CDbCacheMgr \<Rightarrow> store \<Rightarrow> bool" where
  "coherent env mgr st \<longleftrightarrow> (\<forall>k info. cached_row mgr k = Some info \<longrightarrow> copy_ok env st k info)"

lemma find_put_cache [simp]: "find_cache (put_cache n c mgr) = (find_cache mgr)(n \<mapsto> c)"
  by (rule ext) (simp add: find_cache_def put_cache_def update_conv')

lemma cached_put [simp]:
  "cached_row (put_cache n c mgr) (n', i) = (if n' = n then find_row c i else cached_row mgr (n', i))"
  by (simp add: cached_row_def)

lemma cached_cong: "find_cache mgr' = find_cache mgr \<Longrightarrow> cached_row mgr' = cached_row mgr"
  by (rule ext) (simp add: cached_row_def)

lemma coherent_cong: "cached_row mgr' = cached_row mgr \<Longrightarrow> coherent env mgr' st = coherent env mgr st"
  by (simp add: coherent_def)

lemma view_cong: "cached_row mgr' = cached_row mgr \<Longrightarrow> view env mgr' st = view env mgr st"
  by (simp add: view_def fun_eq_iff)

lemma find_row_update [simp]:
  "find_row \<lparr>m_mapCacheInfo = AList.update i v xs, m_nDataSize = z\<rparr> j = (if j = i then Some v else map_of xs j)"
  by (simp add: find_row_def update_conv)

lemma find_row_delete [simp]:
  "find_row \<lparr>m_mapCacheInfo = AList.delete i xs, m_nDataSize = z\<rparr> j = (if j = i then None else map_of xs j)"
  by (simp add: find_row_def delete_conv)

lemma map_add_dom_le: "dom q \<subseteq> dom r \<Longrightarrow> q ++ r = r"
  by (rule ext) (auto simp: map_add_def subset_iff dom_def split: option.splits)

lemma find_cache_upd [simp]:
  "find_cache (mgr\<lparr>mgr_nDataSize := x\<rparr>) = find_cache mgr" "find_cache (mgr\<lparr>draws := d\<rparr>) = find_cache mgr"
  by (simp_all add: find_cache_def fun_eq_iff)

lemma create_ok: "creates env create \<Longrightarrow> good_msg env n i m \<Longrightarrow> \<exists>p. create n = Some p \<and> type_name p = n"
  unfolding creates_def good_msg_def by (metis option.distinct(1))

text \<open>Two views that agree on every key.\<close>

lemma coherentI: "(\<And>n i info. cached_row mgr (n, i) = Some info \<Longrightarrow> copy_ok env st (n, i) info) \<Longrightarrow> coherent env mgr st"
  by (auto simp: coherent_def)

lemma coherentD: "coherent env mgr st \<Longrightarrow> cached_row mgr (n, i) = Some info \<Longrightarrow> copy_ok env st (n, i) info"
  by (auto simp: coherent_def)

section \<open>Write-back and eviction\<close>

lemma backup_ok:
  assumes "stores_rows env tbl cmd" and "creates env create"
    and "find_row c i = Some info" and "copy_ok env (tbl s) (n, i) info"
  shows "\<exists>s' m. onBackup env create cmd n i c s = Some s' \<and> parse env n (szData info) = Some m \<and>
     tbl s' = (tbl s)((n, i) \<mapsto> get_field m)"
proof -
  obtain m r where m: "parse env n (szData info) = Some m" "good_msg env n i m" "tbl s (n, i) = Some r"
    "dom r \<subseteq> dom (get_field m)" using assms(4) by (auto simp: copy_ok_def)
  obtain p where p: "create n = Some p" "type_name p = n" using create_ok [OF assms(2) m(2)] by auto
  obtain s' where "cmd eDBCT_Update (DataReq m) s = Some (eDBRC_OK, None, s')"
    "tbl s' = (tbl s)((n, i) \<mapsto> upd (tbl s (n, i)) (get_field m))"
    using stores_update [OF assms(1) m(2)] by blast
  then show ?thesis using m p assms(3) by (simp add: onBackup_def upd_def map_add_dom_le)
qed

lemma clean_ok:
  assumes "stores_rows env tbl cmd" and "creates env create" and co: "coherent env (put_cache n c mgr) (tbl s)"
  shows "\<exists>k c' s'. cleanData env create cmd n pick c s = Some (k, c', s') \<and>
     coherent env (put_cache n c' mgr) (tbl s') \<and>
     view env (put_cache n c' mgr) (tbl s') = view env (put_cache n c mgr) (tbl s)"
proof (cases "Option.bind pick (\<lambda>i. map_option (Pair i) (find_row c i))")
  case None
  then have "cleanData env create cmd n pick c s = Some (0, c, s)"
    by (cases pick) (auto simp: cleanData_def split: option.splits)
  then show ?thesis using co by blast
next
  case (Some p)
  then obtain i info where pick: "pick = Some i" and i: "find_row c i = Some info"
    by (auto simp: bind_eq_Some_conv)
  have ok: "copy_ok env (tbl s) (n, i) info" using i by (intro coherentD [OF co]) simp
  let ?c = "\<lparr>m_mapCacheInfo = AList.delete i (m_mapCacheInfo c), m_nDataSize = m_nDataSize c - int (length (szData info))\<rparr>"
  obtain s' m where b: "(if ticker info then onBackup env create cmd n i c s else Some s) = Some s'"
    and m: "parse env n (szData info) = Some m" "tbl s' = (tbl s)((n, i) \<mapsto> get_field m)"
  proof (cases "ticker info")
    case True
    then show ?thesis using that backup_ok [OF assms(1, 2) i ok] by auto
  next
    case False
    then obtain m where "parse env n (szData info) = Some m" "tbl s (n, i) = Some (get_field m)"
      using ok by (auto simp: copy_ok_def)
    then show ?thesis using that [of s m] False by (simp add: fun_upd_idem)
  qed
  have "coherent env (put_cache n ?c mgr) (tbl s')"
  proof (rule coherentI)
    fix n' j info'
    assume a: "cached_row (put_cache n ?c mgr) (n', j) = Some info'"
    then have c: "cached_row (put_cache n c mgr) (n', j) = Some info'" and "(n', j) \<noteq> (n, i)"
      by (auto simp: find_row_def delete_conv split: if_splits)
    then have "tbl s' (n', j) = tbl s (n', j)" unfolding m(2) by (intro fun_upd_other)
    then show "copy_ok env (tbl s') (n', j) info'" using coherentD [OF co c] by (simp add: copy_ok_def)
  qed
  moreover have "view env (put_cache n ?c mgr) (tbl s') k = view env (put_cache n c mgr) (tbl s) k" for k
    using i m by (cases k) (auto simp: view_def find_row_def delete_conv split: option.splits)
  ultimately show ?thesis using b pick i by (auto simp: cleanData_def)
qed

lemma account_ok:
  assumes "stores_rows env tbl cmd" and "creates env create" and co: "coherent env (put_cache n c mgr) (tbl s)"
  shows "\<exists>mgr' s'. account env create cmd n z c mgr s = Some (True, mgr', s') \<and> coherent env mgr' (tbl s') \<and>
     view env mgr' (tbl s') = view env (put_cache n c mgr) (tbl s) \<and> m_nMaxCacheSize mgr' = m_nMaxCacheSize mgr"
proof -
  have same: "cached_row (put_cache n c' (mgr\<lparr>mgr_nDataSize := x, draws := d\<rparr>)) = cached_row (put_cache n c' mgr)"
    "cached_row (put_cache n c' (mgr\<lparr>mgr_nDataSize := x\<rparr>)) = cached_row (put_cache n c' mgr)" for c' x d
    by (rule cached_cong, simp)+
  let ?mgr = "mgr\<lparr>mgr_nDataSize := mgr_nDataSize mgr - z + m_nDataSize c\<rparr>"
  obtain k c' s' where cl: "cleanData env create cmd n (case draws mgr of [] \<Rightarrow> None | d # _ \<Rightarrow> d) c s = Some (k, c', s')"
    "coherent env (put_cache n c' mgr) (tbl s')"
    "view env (put_cache n c' mgr) (tbl s') = view env (put_cache n c mgr) (tbl s)"
    using clean_ok [OF assms] by blast
  show ?thesis
  proof (cases "mgr_nDataSize ?mgr > m_nMaxCacheSize ?mgr")
    case True
    then show ?thesis using cl coherent_cong [OF same(1)] view_cong [OF same(1)]
      by (auto simp: account_def Let_def) (simp_all add: put_cache_def)
  next
    case False
    then show ?thesis using co coherent_cong [OF same(2)] view_cong [OF same(2)]
      by (auto simp: account_def Let_def) (simp_all add: put_cache_def)
  qed
qed

section \<open>Commands through the cache\<close>

text \<open>A row read through the cache is the view's, when it is cached at all.\<close>

lemma getData_cached:
  assumes "creates env create" and "coherent env mgr st"
  shows "mgr_getData env create i n mgr = (case cached_row mgr (n, i) of None \<Rightarrow> None
           | Some info \<Rightarrow> parse env n (szData info))"
proof (cases "cached_row mgr (n, i)")
  case (Some info)
  then obtain m where "good_msg env n i m" using coherentD [OF assms(2)] by (fastforce simp: copy_ok_def)
  then obtain p where "create n = Some p" "type_name p = n" using create_ok [OF assms(1)] by blast
  then show ?thesis using Some by (auto simp: mgr_getData_def cache_getData_def cached_row_def bind_eq_Some_conv)
qed (auto simp: mgr_getData_def cache_getData_def cached_row_def split: option.splits)

text \<open>A new row that is the same as the database's.\<close>

lemma add_row_ok:
  assumes "codec env" and "good_msg env n i m" and "find_cache mgr n = Some c" and "find_row c i = None"
  shows "\<exists>data m'. cache_addData env i m c = (True, \<lparr>m_mapCacheInfo = AList.update i \<lparr>szData = data, ticker = False\<rparr> (m_mapCacheInfo c),
             m_nDataSize = m_nDataSize c + int (length data)\<rparr>) \<and>
     parse env n data = Some m' \<and> good_msg env n i m' \<and> get_field m' = get_field m"
proof -
  obtain data m' where "serialize env m = Some data" "parse env n data = Some m'" "type_name m' = n"
    "get_field m' = get_field m" using assms(1, 2) unfolding codec_def by blast
  then show ?thesis using assms good_cong by (auto simp: cache_addData_def)
qed

lemma coherent_put_new:
  assumes co: "\<And>k info. k \<noteq> (n, i) \<Longrightarrow> cached_row mgr k = Some info \<Longrightarrow> copy_ok env st k info"
    and c: "find_cache mgr n = Some c" and new: "copy_ok env st (n, i) info"
    and c': "\<And>j. find_row c' j = (if j = i then Some info else find_row c j)"
  shows "coherent env (put_cache n c' mgr) st"
proof (rule coherentI)
  fix n' j info'
  assume "cached_row (put_cache n c' mgr) (n', j) = Some info'"
  then show "copy_ok env st (n', j) info'"
    using new co [of "(n', j)" info'] c by (auto simp: c' cached_row_def split: if_splits)
qed

lemma view_put_new:
  assumes "find_cache mgr n = Some c" and "\<And>j. find_row c' j = (if j = i then Some info else find_row c j)"
    and "parse env n (szData info) = Some m"
    and "\<And>k. k \<noteq> (n, i) \<Longrightarrow> cached_row mgr k = None \<Longrightarrow> st' k = st k"
  shows "view env (put_cache n c' mgr) st' = (view env mgr st)((n, i) \<mapsto> get_field m)"
proof
  fix k
  show "view env (put_cache n c' mgr) st' k = ((view env mgr st)((n, i) \<mapsto> get_field m)) k"
    using assms by (cases k) (auto simp: view_def cached_row_def split: option.splits)
qed

lemma view_miss: "cached_row mgr k = None \<Longrightarrow> view env mgr st k = st k"
  by (simp add: view_def)

lemma coherent_row: "coherent env mgr st \<Longrightarrow> st k = None \<Longrightarrow> cached_row mgr k = None"
  unfolding coherent_def copy_ok_def by (metis not_None_eq option.distinct(1))

lemma coherent_other:
  assumes "coherent env mgr st" and "\<And>k. cached_row mgr k \<noteq> None \<Longrightarrow> st' k = st k"
  shows "coherent env mgr st'"
  using assms by (auto simp: coherent_def copy_ok_def)

text \<open>The row of a select or of an insert goes into the cache of its table, if the table has one.\<close>

lemma cache_row_ok:
  assumes sr: "stores_rows env tbl cmd" and cr: "creates env create" and cd: "codec env"
    and co: "coherent env mgr (tbl s)" and none: "cached_row mgr (n, i) = None"
    and m: "good_msg env n i m" and r: "tbl s (n, i) = Some (get_field m)"
  shows "\<exists>ok mgr' s'. mgr_setData env create cmd i m mgr s = Some (ok, mgr', s') \<and> coherent env mgr' (tbl s') \<and>
      view env mgr' (tbl s') = view env mgr (tbl s) \<and> m_nMaxCacheSize mgr' = m_nMaxCacheSize mgr"
    and "\<exists>ok mgr' s'. mgr_addData env create cmd i m mgr s = Some (ok, mgr', s') \<and> coherent env mgr' (tbl s') \<and>
      view env mgr' (tbl s') = view env mgr (tbl s) \<and> m_nMaxCacheSize mgr' = m_nMaxCacheSize mgr"
proof -
  have n: "type_name m = n" using m by (simp add: good_msg_def)
  have "(\<exists>ok mgr' s'. mgr_setData env create cmd i m mgr s = Some (ok, mgr', s') \<and> coherent env mgr' (tbl s') \<and>
      view env mgr' (tbl s') = view env mgr (tbl s) \<and> m_nMaxCacheSize mgr' = m_nMaxCacheSize mgr) \<and>
    (\<exists>ok mgr' s'. mgr_addData env create cmd i m mgr s = Some (ok, mgr', s') \<and> coherent env mgr' (tbl s') \<and>
      view env mgr' (tbl s') = view env mgr (tbl s) \<and> m_nMaxCacheSize mgr' = m_nMaxCacheSize mgr)"
  proof (cases "find_cache mgr n")
    case None
    then show ?thesis using co n by (simp add: mgr_setData_def mgr_addData_def exI [of Not False])
  next
    case (Some c)
    then have f: "find_row c i = None" using none by (simp add: cached_row_def)
    obtain data m' where a: "cache_addData env i m c = (True, \<lparr>m_mapCacheInfo = AList.update i \<lparr>szData = data, ticker = False\<rparr> (m_mapCacheInfo c),
             m_nDataSize = m_nDataSize c + int (length data)\<rparr>)" (is "_ = (True, ?c)")
      and p: "parse env n data = Some m'" "good_msg env n i m'" "get_field m' = get_field m"
      using add_row_ok [OF cd m Some f] by blast
    have c': "find_row ?c j = (if j = i then Some \<lparr>szData = data, ticker = False\<rparr> else find_row c j)" for j
      by (simp add: find_row_def update_conv)
    have co': "coherent env (put_cache n ?c mgr) (tbl s)"
      using co p r by (intro coherent_put_new [OF _ Some _ c']) (auto simp: coherent_def copy_ok_def)
    have v: "view env (put_cache n ?c mgr) (tbl s) = view env mgr (tbl s)"
      using view_put_new [OF Some c', of env m' "tbl s" "tbl s"] p r none by (auto simp: view_miss fun_upd_idem)
    have "cache_setData env create n i m c = (False, ?c)" using f a by (simp add: cache_setData_def)
    then have "mgr_setData env create cmd i m mgr s = Some (False, put_cache n ?c mgr, s)"
      using n Some by (simp add: mgr_setData_def)
    moreover have "m_nMaxCacheSize (put_cache n ?c mgr) = m_nMaxCacheSize mgr" by (simp add: put_cache_def)
    moreover have "mgr_addData env create cmd i m mgr s = account env create cmd n (m_nDataSize c) ?c mgr s"
      using n Some a by (simp add: mgr_addData_def)
    ultimately show ?thesis using co' v account_ok [OF sr cr co', of "m_nDataSize c"] by metis
  qed
  then show "\<exists>ok mgr' s'. mgr_setData env create cmd i m mgr s = Some (ok, mgr', s') \<and> coherent env mgr' (tbl s') \<and>
      view env mgr' (tbl s') = view env mgr (tbl s) \<and> m_nMaxCacheSize mgr' = m_nMaxCacheSize mgr"
    and "\<exists>ok mgr' s'. mgr_addData env create cmd i m mgr s = Some (ok, mgr', s') \<and> coherent env mgr' (tbl s') \<and>
      view env mgr' (tbl s') = view env mgr (tbl s) \<and> m_nMaxCacheSize mgr' = m_nMaxCacheSize mgr"
    by blast+
qed

text \<open>
  An update is complete when it does not leave out a field that the row of the database has; for
  a row that is not in the cache this is what the cache needs.
\<close>

definition complete :: "proto_env \<Rightarrow> CDbCacheMgr \<Rightarrow> store \<Rightarrow> db_type \<Rightarrow> db_request \<Rightarrow> bool" where
  "complete env mgr st t req \<longleftrightarrow> (\<forall>m i r. t = eDBCT_Update \<longrightarrow> req = DataReq m \<longrightarrow> getPrimaryValue env m = Some i \<longrightarrow>
     cached_row mgr (type_name m, i) = None \<longrightarrow> find_cache mgr (type_name m) \<noteq> None \<longrightarrow>
     st (type_name m, i) = Some r \<longrightarrow> dom r \<subseteq> dom (get_field m))"

fun row_command :: "proto_env \<Rightarrow> db_type \<Rightarrow> db_request \<Rightarrow> bool" where
  "row_command env eDBCT_Select (SelectReq t i) = True"
| "row_command env eDBCT_Delete (DeleteReq t i) = True"
| "row_command env eDBCT_Update (DataReq m) = (\<exists>i. good_msg env (type_name m) i m)"
| "row_command env eDBCT_Insert (DataReq m) = (\<exists>i. good_msg env (type_name m) i m)"
| "row_command env _ _ = False"

text \<open>What a command has to do: the code and the row that the store gives, and its effect on the view.\<close>

definition refines :: "proto_env \<Rightarrow> create_fun \<Rightarrow> ('s \<Rightarrow> store) \<Rightarrow> 's handler \<Rightarrow> db_type \<Rightarrow> db_request \<Rightarrow> CDbCacheMgr \<Rightarrow> 's \<Rightarrow> bool" where
  "refines env create tbl cmd t req mgr s \<longleftrightarrow> (\<exists>code re mgr' s'.
     exec_command env create cmd t req mgr s = Some (code, re, mgr', s') \<and> coherent env mgr' (tbl s') \<and>
     spec_exec env t req (view env mgr (tbl s)) = (code, reply_row re, view env mgr' (tbl s')) \<and>
     enableCache mgr')"

lemma select_refines:
  assumes sr: "stores_rows env tbl cmd" and cr: "creates env create" and cd: "codec env"
    and co: "coherent env mgr (tbl s)" and en: "enableCache mgr"
  shows "refines env create tbl cmd eDBCT_Select (SelectReq t i) mgr s"
proof -
  let ?n = "getMessageNameByTableName t"
  note g = getData_cached [OF cr co, of i ?n]
  show ?thesis
  proof (cases "cached_row mgr (?n, i)")
    case (Some info)
    then obtain m where "parse env ?n (szData info) = Some m" using coherentD [OF co] by (fastforce simp: copy_ok_def)
    then show ?thesis using Some co en g
      by (simp add: refines_def exec_command_def onPreCache_def reply_row_def view_def)
  next
    case None
    then have pre: "onPreCache env create cmd eDBCT_Select (SelectReq t i) mgr s = Some (False, None, mgr, s)"
      using g en by (simp add: onPreCache_def)
    have v: "view env mgr (tbl s) (?n, i) = tbl s (?n, i)" using None by (rule view_miss)
    show ?thesis
    proof (cases "tbl s (?n, i)")
      case empty: None
      obtain s' where "cmd eDBCT_Select (SelectReq t i) s = Some (eDBRC_EmptyRecordset, None, s')" "tbl s' = tbl s"
        using stores_select(1) [OF sr empty] by blast
      then show ?thesis using pre co en v empty by (simp add: refines_def exec_command_def reply_row_def)
    next
      case (Some r)
      obtain m s1 where c: "cmd eDBCT_Select (SelectReq t i) s = Some (eDBRC_OK, Some (RespMessage m), s1)"
        and m: "tbl s1 = tbl s" "good_msg env ?n i m" "get_field m = r"
        using stores_select(2) [OF sr Some] by blast
      have "coherent env mgr (tbl s1)" "tbl s1 (?n, i) = Some (get_field m)" using co m Some by simp_all
      then obtain ok mgr' s' where "mgr_setData env create cmd i m mgr s1 = Some (ok, mgr', s')"
        "coherent env mgr' (tbl s')" "view env mgr' (tbl s') = view env mgr (tbl s1)"
        "m_nMaxCacheSize mgr' = m_nMaxCacheSize mgr"
        using cache_row_ok(1) [OF sr cr cd _ None m(2)] by blast
      then show ?thesis using pre c v Some m en
        by (simp add: refines_def exec_command_def onPostCache_def reply_row_def enableCache_def)
    qed
  qed
qed

lemma insert_refines:
  assumes sr: "stores_rows env tbl cmd" and cr: "creates env create" and cd: "codec env"
    and co: "coherent env mgr (tbl s)" and en: "enableCache mgr" and m: "good_msg env (type_name m) i m"
  shows "refines env create tbl cmd eDBCT_Insert (DataReq m) mgr s"
proof -
  let ?k = "(type_name m, i)"
  have i: "getPrimaryValue env m = Some i" using m by (simp add: good_msg_def)
  have pre: "onPreCache env create cmd eDBCT_Insert (DataReq m) mgr s = Some (False, None, mgr, s)"
    by (simp add: onPreCache_def)
  show ?thesis
  proof (cases "tbl s ?k")
    case None
    then have none: "cached_row mgr ?k = None" using co coherent_row by blast
    obtain s1 where c: "cmd eDBCT_Insert (DataReq m) s = Some (eDBRC_OK, None, s1)"
      and t: "tbl s1 = (tbl s)(?k \<mapsto> get_field m)" using stores_insert(1) [OF sr m None] by blast
    have co1: "coherent env mgr (tbl s1)" using co by (rule coherent_other) (use none t in auto)
    have "tbl s1 ?k = Some (get_field m)" by (simp add: t)
    then obtain ok mgr' s' where r: "mgr_addData env create cmd i m mgr s1 = Some (ok, mgr', s')"
      "coherent env mgr' (tbl s')" "view env mgr' (tbl s') = view env mgr (tbl s1)"
      "m_nMaxCacheSize mgr' = m_nMaxCacheSize mgr"
      using cache_row_ok(2) [OF sr cr cd co1 none m] by blast
    have "view env mgr (tbl s1) = (view env mgr (tbl s))(?k \<mapsto> get_field m)"
      using none by (auto simp: view_def t fun_eq_iff split: option.splits)
    then show ?thesis using pre c r i en None none
      by (simp add: refines_def exec_command_def onPostCache_def reply_row_def enableCache_def view_miss)
  next
    case (Some r)
    obtain s' where "cmd eDBCT_Insert (DataReq m) s = Some (eDBRC_MysqlError, None, s')" "tbl s' = tbl s"
      using stores_insert(2) [OF sr m Some] by blast
    moreover have "view env mgr (tbl s) ?k \<noteq> None"
    proof (cases "cached_row mgr ?k")
      case None then show ?thesis using Some by (simp add: view_miss)
    next
      case c: (Some info)
      show ?thesis using coherentD [OF co c] c by (auto simp: view_def copy_ok_def)
    qed
    ultimately show ?thesis using pre co en i by (auto simp: refines_def exec_command_def reply_row_def)
  qed
qed

lemma delete_refines:
  assumes sr: "stores_rows env tbl cmd" and co: "coherent env mgr (tbl s)" and en: "enableCache mgr"
  shows "refines env create tbl cmd eDBCT_Delete (DeleteReq t i) mgr s"
proof -
  let ?n = "getMessageNameByTableName t"
  let ?mgr = "snd (mgr_delData i ?n mgr)"
  obtain s' where c: "cmd eDBCT_Delete (DeleteReq t i) s = Some (eDBRC_OK, None, s')"
    and t: "tbl s' = (tbl s)((?n, i) := None)" using stores_delete [OF sr] by blast
  have r: "cached_row ?mgr (n, j) = (if (n, j) = (?n, i) then None else cached_row mgr (n, j))" for n j
    by (auto simp: mgr_delData_def cache_delData_def cached_row_def find_row_def delete_conv split: option.splits)
  have "coherent env ?mgr (tbl s')"
    using co by (intro coherentI) (auto simp: r t copy_ok_def split: if_splits dest!: coherentD)
  moreover have "view env ?mgr (tbl s') = (view env mgr (tbl s))((?n, i) := None)"
  proof
    fix k
    show "view env ?mgr (tbl s') k = ((view env mgr (tbl s))((?n, i) := None)) k"
      by (cases k) (auto simp: view_def r t split: option.splits)
  qed
  moreover have "m_nMaxCacheSize ?mgr = m_nMaxCacheSize mgr"
    by (auto simp: mgr_delData_def cache_delData_def put_cache_def split: option.splits)
  ultimately show ?thesis using c en
    by (simp add: refines_def exec_command_def onPreCache_def onPostCache_def reply_row_def enableCache_def)
qed

text \<open>An update of a cached row changes the copy, to be written back later.\<close>

lemma update_hit:
  assumes sr: "stores_rows env tbl cmd" and cr: "creates env create" and cd: "codec env"
    and co: "coherent env mgr (tbl s)" and m: "good_msg env n i m"
    and f: "find_cache mgr n = Some c" "find_row c i = Some info"
  shows "\<exists>mgr' s'. mgr_setData env create cmd i m mgr s = Some (True, mgr', s') \<and> coherent env mgr' (tbl s') \<and>
     view env mgr' (tbl s') = (view env mgr (tbl s))((n, i) \<mapsto> upd (view env mgr (tbl s) (n, i)) (get_field m)) \<and>
     m_nMaxCacheSize mgr' = m_nMaxCacheSize mgr"
proof -
  have n: "type_name m = n" using m by (simp add: good_msg_def)
  have row: "cached_row mgr (n, i) = Some info" using f by (simp add: cached_row_def)
  obtain dst r where d: "parse env n (szData info) = Some dst" "good_msg env n i dst" "tbl s (n, i) = Some r"
    "dom r \<subseteq> dom (get_field dst)" using coherentD [OF co row] by (auto simp: copy_ok_def)
  obtain p where p: "create n = Some p" "type_name p = n" using create_ok [OF cr m] by blast
  obtain dst' where g: "merge_into env m dst = Some dst'" "good_msg env n i dst'"
    "get_field dst' = get_field dst ++ get_field m" using merge_good [OF m d(2)] by blast
  obtain data m' where w: "serialize env dst' = Some data" "parse env n data = Some m'" "type_name m' = n"
    "get_field m' = get_field dst'" using cd g(2) unfolding codec_def by blast
  let ?c = "\<lparr>m_mapCacheInfo = AList.update i \<lparr>szData = data, ticker = True\<rparr> (m_mapCacheInfo c),
     m_nDataSize = m_nDataSize c - int (length (szData info)) + int (length data)\<rparr>"
  have set: "cache_setData env create n i m c = (True, ?c)"
    using f p d g w by (simp add: cache_setData_def)
  have c': "find_row ?c j = (if j = i then Some \<lparr>szData = data, ticker = True\<rparr> else find_row c j)" for j
    by (simp add: find_row_def update_conv)
  have "copy_ok env (tbl s) (n, i) \<lparr>szData = data, ticker = True\<rparr>"
    using w g d good_cong [OF g(2), of m'] by (auto simp: copy_ok_def)
  then have co': "coherent env (put_cache n ?c mgr) (tbl s)"
    using co by (intro coherent_put_new [OF _ f(1) _ c']) (auto simp: coherent_def)
  have "view env (put_cache n ?c mgr) (tbl s) = (view env mgr (tbl s))((n, i) \<mapsto> get_field m')"
    by (rule view_put_new [OF f(1) c']) (simp_all add: w)
  moreover have "view env mgr (tbl s) (n, i) = Some (get_field dst)" using row d by (simp add: view_def)
  ultimately have v: "view env (put_cache n ?c mgr) (tbl s) =
      (view env mgr (tbl s))((n, i) \<mapsto> upd (view env mgr (tbl s) (n, i)) (get_field m))"
    by (simp add: upd_def w g)
  have "mgr_setData env create cmd i m mgr s = account env create cmd n (m_nDataSize c) ?c mgr s"
    using n f set by (simp add: mgr_setData_def)
  then show ?thesis using account_ok [OF sr cr co', of "m_nDataSize c"] v by metis
qed

text \<open>An update of a row that is not cached goes to the database, and into the cache of its table.\<close>

lemma update_miss:
  assumes sr: "stores_rows env tbl cmd" and cr: "creates env create" and cd: "codec env"
    and co: "coherent env mgr (tbl s)" and m: "good_msg env n i m" and none: "cached_row mgr (n, i) = None"
    and full: "find_cache mgr n \<noteq> None \<Longrightarrow> \<forall>r. tbl s (n, i) = Some r \<longrightarrow> dom r \<subseteq> dom (get_field m)"
  shows "\<exists>mgr' s'. mgr_setData env create cmd i m mgr s = Some (False, mgr', s) \<and>
     cmd eDBCT_Update (DataReq m) s = Some (eDBRC_OK, None, s') \<and> coherent env mgr' (tbl s') \<and>
     view env mgr' (tbl s') = (view env mgr (tbl s))((n, i) \<mapsto> upd (view env mgr (tbl s) (n, i)) (get_field m)) \<and>
     m_nMaxCacheSize mgr' = m_nMaxCacheSize mgr"
proof -
  have n: "type_name m = n" using m by (simp add: good_msg_def)
  obtain s' where s': "cmd eDBCT_Update (DataReq m) s = Some (eDBRC_OK, None, s')"
    and t: "tbl s' = (tbl s)((n, i) \<mapsto> upd (tbl s (n, i)) (get_field m))" using stores_update [OF sr m] by blast
  have v: "view env mgr (tbl s) (n, i) = tbl s (n, i)" using none by (rule view_miss)
  show ?thesis
  proof (cases "find_cache mgr n")
    case None
    then have "mgr_setData env create cmd i m mgr s = Some (False, mgr, s)" using n by (simp add: mgr_setData_def)
    moreover have "coherent env mgr (tbl s')" using co by (rule coherent_other) (use none t in auto)
    moreover have "view env mgr (tbl s') = (view env mgr (tbl s))((n, i) \<mapsto> upd (tbl s (n, i)) (get_field m))"
      using none by (auto simp: view_def t fun_eq_iff split: option.splits)
    ultimately show ?thesis using s' v by auto
  next
    case (Some c)
    then have f: "find_row c i = None" using none by (simp add: cached_row_def)
    have t': "tbl s' = (tbl s)((n, i) \<mapsto> get_field m)"
      using t full Some by (auto simp: upd_def map_add_dom_le split: option.splits)
    obtain data m' where a: "cache_addData env i m c = (True, \<lparr>m_mapCacheInfo = AList.update i \<lparr>szData = data, ticker = False\<rparr> (m_mapCacheInfo c),
             m_nDataSize = m_nDataSize c + int (length data)\<rparr>)" (is "_ = (True, ?c)")
      and p: "parse env n data = Some m'" "good_msg env n i m'" "get_field m' = get_field m"
      using add_row_ok [OF cd m Some f] by blast
    have c': "find_row ?c j = (if j = i then Some \<lparr>szData = data, ticker = False\<rparr> else find_row c j)" for j
      by (simp add: find_row_def update_conv)
    have "coherent env (put_cache n ?c mgr) (tbl s')"
      using co p t' by (intro coherent_put_new [OF _ Some _ c']) (auto simp: coherent_def copy_ok_def)
    moreover have "view env (put_cache n ?c mgr) (tbl s') = (view env mgr (tbl s))((n, i) \<mapsto> get_field m')"
      by (rule view_put_new [OF Some c']) (simp_all add: p t')
    moreover have "upd (tbl s (n, i)) (get_field m) = get_field m"
      using fun_cong [OF t, of "(n, i)"] t' by simp
    moreover have "mgr_setData env create cmd i m mgr s = Some (False, put_cache n ?c mgr, s)"
      using n Some f a by (simp add: mgr_setData_def cache_setData_def)
    ultimately show ?thesis using s' v p by (auto simp: put_cache_def)
  qed
qed

lemma update_refines:
  assumes sr: "stores_rows env tbl cmd" and cr: "creates env create" and cd: "codec env"
    and co: "coherent env mgr (tbl s)" and en: "enableCache mgr" and m: "good_msg env (type_name m) i m"
    and full: "complete env mgr (tbl s) eDBCT_Update (DataReq m)"
  shows "refines env create tbl cmd eDBCT_Update (DataReq m) mgr s"
proof -
  let ?k = "(type_name m, i)"
  have i: "getPrimaryValue env m = Some i" using m by (simp add: good_msg_def)
  show ?thesis
  proof (cases "cached_row mgr ?k")
    case None
    obtain mgr' s' where "mgr_setData env create cmd i m mgr s = Some (False, mgr', s)"
      "cmd eDBCT_Update (DataReq m) s = Some (eDBRC_OK, None, s')" "coherent env mgr' (tbl s')"
      "view env mgr' (tbl s') = (view env mgr (tbl s))(?k \<mapsto> upd (view env mgr (tbl s) ?k) (get_field m))"
      "m_nMaxCacheSize mgr' = m_nMaxCacheSize mgr"
      using update_miss [OF sr cr cd co m None] full None i by (auto simp: complete_def)
    then show ?thesis using en i
      by (simp add: refines_def exec_command_def onPreCache_def onPostCache_def reply_row_def enableCache_def Let_def)
  next
    case (Some info)
    then obtain c where "find_cache mgr (type_name m) = Some c" "find_row c i = Some info"
      by (auto simp: cached_row_def bind_eq_Some_conv)
    from update_hit [OF sr cr cd co m this] obtain mgr' s' where
      "mgr_setData env create cmd i m mgr s = Some (True, mgr', s')" "coherent env mgr' (tbl s')"
      "view env mgr' (tbl s') = (view env mgr (tbl s))(?k \<mapsto> upd (view env mgr (tbl s) ?k) (get_field m))"
      "m_nMaxCacheSize mgr' = m_nMaxCacheSize mgr" by blast
    then show ?thesis using en i
      by (simp add: refines_def exec_command_def onPreCache_def reply_row_def enableCache_def Let_def)
  qed
qed

lemma exec_refines:
  assumes "stores_rows env tbl cmd" and "creates env create" and "codec env"
    and "coherent env mgr (tbl s)" and "enableCache mgr" and "row_command env t req"
    and "complete env mgr (tbl s) t req"
  shows "refines env create tbl cmd t req mgr s"
  using assms select_refines insert_refines delete_refines update_refines
  by (cases "(env, t, req)" rule: row_command.cases) auto

section \<open>The flush\<close>

lemma backup_keeps:
  assumes sr: "stores_rows env tbl cmd" and cr: "creates env create" and co: "coherent env mgr (tbl s)"
    and c: "find_cache mgr n = Some c"
  shows "\<exists>s'. onBackup env create cmd n i c s = Some s' \<and> coherent env mgr (tbl s') \<and>
     view env mgr (tbl s') = view env mgr (tbl s) \<and> tbl s' = (tbl s)((n, i) := view env mgr (tbl s) (n, i))"
proof (cases "find_row c i")
  case None
  then have "cached_row mgr (n, i) = None" using c by (simp add: cached_row_def)
  then show ?thesis using None co by (simp add: onBackup_def view_miss)
next
  case (Some info)
  then have row: "cached_row mgr (n, i) = Some info" using c by (simp add: cached_row_def)
  note ok = coherentD [OF co row]
  obtain s' m where b: "onBackup env create cmd n i c s = Some s'" and m: "parse env n (szData info) = Some m"
    and t: "tbl s' = (tbl s)((n, i) \<mapsto> get_field m)" using backup_ok [OF sr cr Some ok] by blast
  have "coherent env mgr (tbl s')"
  proof (rule coherentI)
    fix n' j info'
    assume a: "cached_row mgr (n', j) = Some info'"
    show "copy_ok env (tbl s') (n', j) info'"
      using coherentD [OF co a] a row m by (cases "(n', j) = (n, i)") (auto simp: copy_ok_def t)
  qed
  moreover have "view env mgr (tbl s') = view env mgr (tbl s)"
    using row by (auto simp: view_def t fun_eq_iff split: option.splits)
  moreover have "view env mgr (tbl s) (n, i) = Some (get_field m)" using row m by (simp add: view_def)
  ultimately show ?thesis using b t by simp
qed

lemma cache_flush_ok:
  assumes "stores_rows env tbl cmd" and "creates env create" and "coherent env mgr (tbl s)"
    and "find_cache mgr n = Some c"
  shows "\<exists>s'. cache_flush env create cmd n ids c s = Some s' \<and> coherent env mgr (tbl s') \<and>
     view env mgr (tbl s') = view env mgr (tbl s) \<and>
     (\<forall>k. tbl s' k = (if fst k = n \<and> snd k \<in> set ids then view env mgr (tbl s) k else tbl s k))"
  using assms(3)
proof (induction ids arbitrary: s)
  case (Cons i ids)
  obtain s1 where b: "onBackup env create cmd n i c s = Some s1" "coherent env mgr (tbl s1)"
    "view env mgr (tbl s1) = view env mgr (tbl s)" "tbl s1 = (tbl s)((n, i) := view env mgr (tbl s) (n, i))"
    using backup_keeps [OF assms(1, 2) Cons.prems assms(4)] by blast
  have t: "tbl s1 (n', j) = (if n' = n \<and> j = i then view env mgr (tbl s) (n', j) else tbl s (n', j))" for n' j
    by (simp add: b(4))
  obtain s' where "cache_flush env create cmd n ids c s1 = Some s'" "coherent env mgr (tbl s')"
    "view env mgr (tbl s') = view env mgr (tbl s1)"
    "\<forall>k. tbl s' k = (if fst k = n \<and> snd k \<in> set ids then view env mgr (tbl s1) k else tbl s1 k)"
    using Cons.IH [OF b(2)] by blast
  then show ?case using b(1, 3) by (auto simp: t)
qed simp

definition covered :: "(string \<times> u64 list) list \<Rightarrow> string \<times> u64 \<Rightarrow> bool" where
  "covered order k \<longleftrightarrow> (\<exists>ids. (fst k, ids) \<in> set order \<and> snd k \<in> set ids)"

lemma flush_ok:
  assumes "stores_rows env tbl cmd" and "creates env create" and "coherent env mgr (tbl s)"
  shows "\<exists>s'. flushCache env create cmd order mgr s = Some s' \<and> coherent env mgr (tbl s') \<and>
     view env mgr (tbl s') = view env mgr (tbl s) \<and>
     (\<forall>k. tbl s' k = (if covered order k then view env mgr (tbl s) k else tbl s k))"
  using assms(3)
proof (induction order arbitrary: s)
  case Nil
  then show ?case by (simp add: covered_def)
next
  case (Cons p order)
  obtain n ids where p: "p = (n, ids)" by force
  show ?case
  proof (cases "find_cache mgr n")
    case None
    then have v: "view env mgr st (n, i) = st (n, i)" for st i by (simp add: view_def cached_row_def)
    obtain s' where "flushCache env create cmd order mgr s = Some s'" "coherent env mgr (tbl s')"
      "view env mgr (tbl s') = view env mgr (tbl s)"
      "\<forall>k. tbl s' k = (if covered order k then view env mgr (tbl s) k else tbl s k)"
      using Cons.IH [OF Cons.prems] by blast
    then show ?thesis using None p v by (auto simp: covered_def)
  next
    case (Some c)
    obtain s1 where 1: "cache_flush env create cmd n ids c s = Some s1" "coherent env mgr (tbl s1)"
      "view env mgr (tbl s1) = view env mgr (tbl s)"
      "\<forall>k. tbl s1 k = (if fst k = n \<and> snd k \<in> set ids then view env mgr (tbl s) k else tbl s k)"
      using cache_flush_ok [OF assms(1, 2) Cons.prems Some] by blast
    obtain s' where "flushCache env create cmd order mgr s1 = Some s'" "coherent env mgr (tbl s')"
      "view env mgr (tbl s') = view env mgr (tbl s1)"
      "\<forall>k. tbl s' k = (if covered order k then view env mgr (tbl s1) k else tbl s1 k)"
      using Cons.IH [OF 1(2)] by blast
    then show ?thesis using Some p 1 by (auto simp: covered_def)
  qed
qed

lemma flush_all:
  assumes "stores_rows env tbl cmd" and "creates env create" and "coherent env mgr (tbl s)"
    and "\<And>k. cached_row mgr k \<noteq> None \<Longrightarrow> covered order k"
  shows "\<exists>s'. flushCache env create cmd order mgr s = Some s' \<and> coherent env mgr (tbl s') \<and>
     view env mgr (tbl s') = view env mgr (tbl s) \<and> tbl s' = view env mgr (tbl s)"
proof -
  obtain s' where "flushCache env create cmd order mgr s = Some s'" "coherent env mgr (tbl s')"
    "view env mgr (tbl s') = view env mgr (tbl s)"
    and t: "\<forall>k. tbl s' k = (if covered order k then view env mgr (tbl s) k else tbl s k)"
    using flush_ok [OF assms(1-3)] by blast
  moreover have "tbl s' = view env mgr (tbl s)"
    using assms(4) by (intro ext) (auto simp: t view_def split: option.splits)
  ultimately show ?thesis by auto
qed

end
