(* ===== verification/Db_Example.thy ===== *)
theory Db_Example imports Db_Coherence begin

text \<open>
  A database that keeps its promises, to show that the hypotheses about protobuf and MySQL can be
  met: one table \<open>player\<close> with a key and a name, a text encoding of its records, and the commands
  on a map from keys to records.
\<close>

section \<open>The record type\<close>

definition player :: string where "player = getMessageNameByTableName ''player''"

definition player_desc :: descriptor where
  "player_desc = \<lparr>d_fields =
     [\<lparr>f_name = ''id'', f_type = TYPE_UINT64, f_repeated = False, f_serialize = 0, f_message = []\<rparr>,
      \<lparr>f_name = ''name'', f_type = TYPE_STRING, f_repeated = False, f_serialize = 0, f_message = []\<rparr>],
     d_primary = ''id''\<rparr>"

definition encode_player :: "db_message \<Rightarrow> string" where
  "encode_player m = (case get_field m ''id'' of Some (VUInt64 v) \<Rightarrow> show_int (uint v) | _ \<Rightarrow> [])
     @ (case get_field m ''name'' of Some (VString s) \<Rightarrow> CHR '','' # s | _ \<Rightarrow> [])"

definition decode_player :: "string \<Rightarrow> string \<Rightarrow> db_message" where
  "decode_player n s = (let ds = takeWhile (\<lambda>c. c \<noteq> CHR '','') s; r = dropWhile (\<lambda>c. c \<noteq> CHR '','') s in
     Message n ((if ds = [] then [] else [(''id'', VUInt64 (of_int (the (read_unsigned 64 ds))))])
       @ (if r = [] then [] else [(''name'', VString (tl r))])))"

definition player_env :: proto_env where
  "player_env = \<lparr>generated_pool = (\<lambda>n. None), imported_pool = (\<lambda>n. if n = player then Some player_desc else None),
     byte_size = (\<lambda>m. length (encode_player m)), serialize = Some \<circ> encode_player,
     parse = (\<lambda>n s. Some (decode_player n s)), to_json = (\<lambda>m. None), from_json = (\<lambda>n s. None),
     show_double = (\<lambda>_. []), show_float = (\<lambda>_. []), read_double = (\<lambda>_. None), read_float = (\<lambda>_. None)\<rparr>"

lemma player_pool [simp]: "pool player_env n = (if n = player then Some player_desc else None)"
  by (simp add: pool_def player_env_def)

lemma player_fields: "fields_typed player_desc r \<longleftrightarrow>
    (\<forall>f v. r f = Some v \<longrightarrow> (f = ''id'' \<and> (\<exists>w. v = VUInt64 w)) \<or> (f = ''name'' \<and> (\<exists>s. v = VString s)))"
proof -
  have "class_fits UInt64 v \<longleftrightarrow> (\<exists>w. v = VUInt64 w)" "class_fits Str v \<longleftrightarrow> (\<exists>s. v = VString s)" for v
    by (cases v; simp)+
  then show ?thesis by (auto simp: fields_typed_def player_desc_def)
qed

lemma show_no_comma: "CHR '','' \<notin> set (show_int (uint (v :: u64)))"
  using show_nat_digits [of "CHR '',''" "nat (uint v)"] by (auto simp: show_int_def is_digit_def)

lemma take_id: "takeWhile (\<lambda>c. c \<noteq> CHR '','') (show_int (uint (v :: u64)) @ CHR '','' # s) = show_int (uint v)"
  "takeWhile (\<lambda>c. c \<noteq> CHR '','') (show_int (uint v)) = show_int (uint v)"
  "dropWhile (\<lambda>c. c \<noteq> CHR '','') (show_int (uint v) @ CHR '','' # s) = CHR '','' # s"
  "dropWhile (\<lambda>c. c \<noteq> CHR '','') (show_int (uint v)) = []"
proof -
  have "\<forall>c \<in> set (show_int (uint v)). c \<noteq> CHR '',''" using show_no_comma [of v] by auto
  then show "takeWhile (\<lambda>c. c \<noteq> CHR '','') (show_int (uint v) @ CHR '','' # s) = show_int (uint v)"
    "takeWhile (\<lambda>c. c \<noteq> CHR '','') (show_int (uint v)) = show_int (uint v)"
    "dropWhile (\<lambda>c. c \<noteq> CHR '','') (show_int (uint v) @ CHR '','' # s) = CHR '','' # s"
    "dropWhile (\<lambda>c. c \<noteq> CHR '','') (show_int (uint v)) = []"
    by (simp_all add: takeWhile_eq_all_conv)
qed

lemma show_int_not_Nil [simp]: "show_int i \<noteq> []"
  by (simp add: show_int_def)

lemma player_codec: "codec player_env"
  unfolding codec_def
proof (intro allI impI)
  fix n i m
  assume m: "good_msg player_env n i m"
  then have n: "n = player" and t: "fields_typed player_desc (get_field m)"
    by (auto simp: good_msg_def split: if_splits)
  have other: "get_field m f = None" if "f \<noteq> ''id''" "f \<noteq> ''name''" for f
    using t that by (cases "get_field m f") (auto simp: player_fields)
  have "get_field m ''id'' = None \<or> (\<exists>w. get_field m ''id'' = Some (VUInt64 w))"
    using t by (cases "get_field m ''id''") (auto simp: player_fields)
  then obtain a where a: "get_field m ''id'' = map_option VUInt64 a" by (metis option.map)
  have "get_field m ''name'' = None \<or> (\<exists>s. get_field m ''name'' = Some (VString s))"
    using t by (cases "get_field m ''name''") (auto simp: player_fields)
  then obtain b where b: "get_field m ''name'' = map_option VString b" by (metis option.map)
  have "encode_player m = (case a of None \<Rightarrow> [] | Some v \<Rightarrow> show_int (uint v)) @ (case b of None \<Rightarrow> [] | Some s \<Rightarrow> CHR '','' # s)"
    by (cases a; cases b) (simp_all add: encode_player_def a b)
  then have d: "decode_player n (encode_player m) = Message n ((case a of None \<Rightarrow> [] | Some v \<Rightarrow> [(''id'', VUInt64 v)])
      @ (case b of None \<Rightarrow> [] | Some s \<Rightarrow> [(''name'', VString s)]))"
    by (cases a; cases b) (simp_all add: decode_player_def take_id Let_def)
  have "get_field (decode_player n (encode_player m)) f = get_field m f" for f
  proof (cases "f = ''id'' \<or> f = ''name''")
    case True
    have "get_field (decode_player n (encode_player m)) ''id'' = map_option VUInt64 a"
      "get_field (decode_player n (encode_player m)) ''name'' = map_option VString b"
      unfolding d by (cases a; cases b; simp add: get_field_def)+
    then show ?thesis using True a b by (elim disjE) simp_all
  next
    case False
    then have "get_field m f = None" using other by simp
    then show ?thesis unfolding d using False by (cases a; cases b) (auto simp: get_field_def)
  qed
  then have "get_field (decode_player n (encode_player m)) = get_field m" by (rule ext)
  moreover have "type_name (decode_player n s) = n" for s by (simp add: decode_player_def Let_def)
  moreover have "serialize player_env m = Some (encode_player m)" "parse player_env n s = Some (decode_player n s)" for s
    by (simp_all add: player_env_def)
  ultimately show "\<exists>b m'. serialize player_env m = Some b \<and> parse player_env n b = Some m' \<and> type_name m' = n \<and>
      get_field m' = get_field m" by blast
qed

lemma player_creates: "creates player_env (createMessage player_env)"
  by (auto simp: creates_def createMessage_def)

section \<open>The database\<close>

type_synonym player_db = "string \<times> u64 \<Rightarrow> db_message option"

definition player_rows :: "player_db \<Rightarrow> store" where
  "player_rows s k = (case s k of None \<Rightarrow> None | Some m \<Rightarrow> if good_msg player_env (fst k) (snd k) m then Some (get_field m) else None)"

definition player_key :: "db_message \<Rightarrow> string \<times> u64" where
  "player_key m = (type_name m, the (getPrimaryValue player_env m))"

fun player_cmd :: "player_db handler" where
  "player_cmd eDBCT_Select (SelectReq t i) s = (let k = (getMessageNameByTableName t, i) in
     if player_rows s k = None then Some (eDBRC_EmptyRecordset, None, s)
     else Some (eDBRC_OK, map_option RespMessage (s k), s))"
| "player_cmd eDBCT_Update (DataReq m) s = (let k = player_key m in
     Some (eDBRC_OK, None, s(k := if player_rows s k = None then Some m else merge_into player_env m (the (s k)))))"
| "player_cmd eDBCT_Insert (DataReq m) s = (let k = player_key m in
     if player_rows s k = None then Some (eDBRC_OK, None, s(k \<mapsto> m)) else Some (eDBRC_MysqlError, None, s))"
| "player_cmd eDBCT_Delete (DeleteReq t i) s = Some (eDBRC_OK, None, s((getMessageNameByTableName t, i) := None))"
| "player_cmd _ _ s = Some (eDBRC_Unknown, None, s)"

lemma player_rows_upd [simp]:
  "player_rows (s(k := v)) = (player_rows s)(k := (case v of None \<Rightarrow> None
     | Some m \<Rightarrow> if good_msg player_env (fst k) (snd k) m then Some (get_field m) else None))"
  by (auto simp: player_rows_def fun_eq_iff)

lemma player_rows_Some: "player_rows s k = Some r \<Longrightarrow> \<exists>m. s k = Some m \<and> good_msg player_env (fst k) (snd k) m \<and> get_field m = r"
  by (auto simp: player_rows_def split: option.splits if_splits)

lemma player_key_good: "good_msg player_env n i m \<Longrightarrow> player_key m = (n, i)"
  by (auto simp: player_key_def good_msg_def)

lemma player_update:
  assumes "good_msg player_env n i m"
  shows "\<exists>s'. player_cmd eDBCT_Update (DataReq m) s = Some (eDBRC_OK, None, s') \<and>
     player_rows s' = (player_rows s)((n, i) \<mapsto> upd (player_rows s (n, i)) (get_field m))"
proof (cases "player_rows s (n, i)")
  case None
  then show ?thesis using assms by (simp add: player_key_good [OF assms] upd_def)
next
  case (Some r)
  then obtain old where o: "s (n, i) = Some old" "good_msg player_env n i old" "get_field old = r"
    using player_rows_Some by fastforce
  obtain new where "merge_into player_env m old = Some new" "good_msg player_env n i new"
    "get_field new = get_field old ++ get_field m" using merge_good [OF assms o(2)] by blast
  then show ?thesis using Some o by (simp add: player_key_good [OF assms] upd_def)
qed

lemma player_stores: "stores_rows player_env player_rows player_cmd"
  unfolding stores_rows_def
proof (intro conjI allI impI)
  fix t i and s :: player_db
  show "case player_rows s (getMessageNameByTableName t, i) of
       None \<Rightarrow> \<exists>s'. player_cmd eDBCT_Select (SelectReq t i) s = Some (eDBRC_EmptyRecordset, None, s') \<and> player_rows s' = player_rows s
     | Some r \<Rightarrow> \<exists>m s'. player_cmd eDBCT_Select (SelectReq t i) s = Some (eDBRC_OK, Some (RespMessage m), s') \<and>
         player_rows s' = player_rows s \<and> good_msg player_env (getMessageNameByTableName t) i m \<and> get_field m = r"
    by (auto split: option.split dest!: player_rows_Some)
next
  fix n i m and s :: player_db
  assume g: "good_msg player_env n i m"
  show "\<exists>s'. if player_rows s (n, i) = None
       then player_cmd eDBCT_Insert (DataReq m) s = Some (eDBRC_OK, None, s') \<and> player_rows s' = (player_rows s)((n, i) \<mapsto> get_field m)
       else player_cmd eDBCT_Insert (DataReq m) s = Some (eDBRC_MysqlError, None, s') \<and> player_rows s' = player_rows s"
    using g by (cases "player_rows s (n, i) = None") (auto simp: player_key_good [OF g] Let_def)
qed (simp_all add: player_update del: player_cmd.simps(2))

definition player_msg :: "u64 \<Rightarrow> string \<Rightarrow> db_message" where
  "player_msg i s = Message player [(''id'', VUInt64 i), (''name'', VString s)]"

lemma player_msg_fields: "get_field (player_msg i s) = [''id'' \<mapsto> VUInt64 i, ''name'' \<mapsto> VString s]"
  by (auto simp: player_msg_def get_field_def fun_eq_iff)

lemma player_msg_type: "type_name (player_msg i s) = player"
  by (simp add: player_msg_def)

lemma player_msg_good: "good_msg player_env player i (player_msg i s)"
proof -
  have "fields_typed player_desc (get_field (player_msg i s))"
    unfolding player_fields player_msg_fields by (auto split: if_splits)
  then show ?thesis
    by (simp add: good_msg_def player_msg_def getPrimaryValue_def player_desc_def FindFieldByName_def
        GetUInt64_def get_field_def)
qed

lemma player_msg_text: "decode_player player (show_int (uint i) @ CHR '','' # s) = player_msg i s"
  by (simp add: decode_player_def take_id Let_def player_msg_def)

definition alice :: db_message where "alice = player_msg 7 ''alice''"

lemma alice_good: "good_msg player_env player 7 alice"
  by (simp add: alice_def player_msg_good)

definition player_mgr :: CDbCacheMgr where
  "player_mgr = mgr_init \<lparr>nDbThreadCount = 1, vecCacheTable = [''player''], nMaxCacheSize = 100, nCacheWritebackTime = 60\<rparr> []"

lemma player_mgr_empty: "find_cache player_mgr n = (if n = player then Some new_cache else None)"
  "cached_row player_mgr k = None" "m_nMaxCacheSize player_mgr = 100"
  by (auto simp: player_mgr_def mgr_init_def find_cache_def cached_row_def player_def new_cache_def find_row_def)

lemma player_coherent: "coherent player_env player_mgr st"
  by (simp add: coherent_def player_mgr_empty)

end
