(* ===== verification/Db_Props.thy ===== *)
theory Db_Props imports Db_Sizes Db_Coherence Db_Example begin

text \<open>
  What the database layer guarantees: the order of the commands, the cache as a refinement of the
  database, the account of its memory, the text of the statements and of the records; and the
  faults that the model shows.
\<close>

section \<open>Order\<close>

definition callbacks :: "SDbCommand list \<Rightarrow> nat list" where
  "callbacks cs = concat (map (\<lambda>c. if nType c = eDBCT_Flush then [] else case callback c of None \<Rightarrow> [] | Some cb \<Rightarrow> [cb]) cs)"

lemma callbacks_simps [simp]:
  "callbacks [] = []" "callbacks (cs @ ds) = callbacks cs @ callbacks ds"
  "callbacks (c # cs) = (if nType c = eDBCT_Flush then [] else case callback c of None \<Rightarrow> [] | Some cb \<Rightarrow> [cb]) @ callbacks cs"
  by (simp_all add: callbacks_def)

lemma result_callbacks: "map res_callback (result_of c code re) = (case callback c of None \<Rightarrow> [] | Some cb \<Rightarrow> [cb])"
  by (simp add: result_of_def split: option.split)

lemma exec_not_lost:
  assumes "mysql_errors my" and "exec_command env create (onDbCommand env create my) t req mgr s = Some (code, r)"
  shows "code \<noteq> eDBRC_LostConnection"
  using assms handlers_not_lost [OF assms(1)]
  by (auto simp: exec_command_def split: option.splits bool.splits if_splits)

lemma process_in_order:
  assumes "mysql_errors my" and "process_list env create (onDbCommand env create my) ord cs mgr s = Some (rs, left, r)"
  shows "left = [] \<and> map res_callback rs = callbacks cs"
  using assms(2)
proof (induction cs arbitrary: mgr s rs left)
  case (Cons c cs)
  show ?case
  proof (cases "nType c = eDBCT_Flush")
    case True
    then show ?thesis using Cons by (auto simp: bind_eq_Some_conv)
  next
    case False
    then obtain req where q: "pMessage c = Live req" using Cons.prems by (auto split: request_ptr.splits)
    with False Cons.prems obtain code re mgr1 s1 where
      e: "exec_command env create (onDbCommand env create my) (nType c) req mgr s = Some (code, re, mgr1, s1)"
      by (auto split: option.splits)
    have "code \<noteq> eDBRC_LostConnection" using exec_not_lost [OF assms(1) e] by simp
    then obtain rs1 where "process_list env create (onDbCommand env create my) ord cs mgr1 s1 = Some (rs1, left, r)"
      and "rs = result_of c code re @ rs1" using Cons.prems False q e by auto
    then show ?thesis using Cons.IH False by (simp add: result_callbacks)
  qed
qed simp

text \<open>A history of a thread: other threads queue commands, it runs its rounds.\<close>

datatype thread_event = Query SDbCommand | Process "(string \<times> u64) list" "SDbCommand list"

fun queried :: "thread_event list \<Rightarrow> SDbCommand list" where
  "queried [] = []"
| "queried (Query c # es) = c # queried es"
| "queried (Process fired late # es) = late @ queried es"

fun thread_run :: "proto_env \<Rightarrow> create_fun \<Rightarrow> 's handler \<Rightarrow> 's conn_ops \<Rightarrow> (CDbCacheMgr \<Rightarrow> (string \<times> u64 list) list)
    \<Rightarrow> thread_event list \<Rightarrow> 's CDbThread \<Rightarrow> (SDbResultInfo list \<times> 's CDbThread) option" where
  "thread_run env create cmd ops ord [] th = Some ([], th)"
| "thread_run env create cmd ops ord (Query c # es) th = thread_run env create cmd ops ord es (thread_query c th)"
| "thread_run env create cmd ops ord (Process fired late # es) th =
    (case thread_onProcess env create cmd ops ord fired late th of None \<Rightarrow> None
     | Some (rs, th') \<Rightarrow> map_option (\<lambda>(rs', th''). (rs @ rs', th'')) (thread_run env create cmd ops ord es th'))"

lemma thread_onProcess_in_order:
  assumes "mysql_errors my"
    and "thread_onProcess env create (onDbCommand env create my) ops ord fired late th = Some (rs, th')"
  shows "map res_callback rs @ callbacks (m_listCommand th') = callbacks (m_listCommand th @ late)"
  using assms(2)
  by (auto simp: thread_onProcess_def Let_def split: option.splits if_splits dest!: process_in_order [OF assms(1)])

lemma thread_run_in_order:
  assumes "mysql_errors my"
    and "thread_run env create (onDbCommand env create my) ops ord es th = Some (rs, th')"
  shows "map res_callback rs @ callbacks (m_listCommand th') = callbacks (m_listCommand th @ queried es)"
  using assms(2)
proof (induction es arbitrary: th rs)
  case (Cons e es)
  show ?case
  proof (cases e)
    case (Query c)
    then show ?thesis using Cons.IH [of "thread_query c th" rs] Cons.prems by (simp add: thread_query_def)
  next
    case (Process fired late)
    then obtain rs1 th1 rs2 where p: "thread_onProcess env create (onDbCommand env create my) ops ord fired late th = Some (rs1, th1)"
      and r: "thread_run env create (onDbCommand env create my) ops ord es th1 = Some (rs2, th')" "rs = rs1 @ rs2"
      using Cons.prems by (auto split: option.splits)
    show ?thesis using thread_onProcess_in_order [OF assms(1) p] Cons.IH [OF r(1)] r(2) Process by simp
  qed
qed simp


text \<open>
  The record of a request, and the thread it goes to: the lower half of its key, modulo the number
  of threads.
\<close>

definition request_key :: "proto_env \<Rightarrow> db_request \<Rightarrow> u64 option" where
  "request_key env r = (case r of SelectReq t i \<Rightarrow> Some i | DeleteReq t i \<Rightarrow> Some i
     | DataReq m \<Rightarrow> getPrimaryValue env m | _ \<Rightarrow> None)"

lemma command_index:
  "command_of env create copies req = Some (t, r, k) \<Longrightarrow> request_key env r = Some nID \<Longrightarrow> k = ucast nID \<and> t \<noteq> eDBCT_Flush"
  by (cases req) (auto simp: record_command_def request_key_def split: if_splits option.splits)

text \<open>
  Every request for a record goes to the end of the queue of the thread that its key names,
  whatever the operation, so the operations on a record run in the order of their requests.
\<close>

theorem record_has_one_thread:
  assumes "command_of env create copies req = Some (t, r, k)" and "request_key env r = Some nID"
    and "m_vecDbThread tm \<noteq> []"
  shows "db_query env create copies req cb tm =
    to_thread (unat (ucast nID :: u32) mod length (m_vecDbThread tm)) \<lparr>nType = t, pMessage = Live r, callback = cb\<rparr> tm"
proof -
  have "req \<noteq> FlushCommand" using assms(1) by auto
  then show ?thesis using assms command_index [OF assms(1, 2)] by (simp add: db_query_def tm_query_def thread_index_def)
qed

text \<open>A server that answers every statement with an empty success, for the witnesses.\<close>

definition quiet_mysql :: "unit mysql" where
  "quiet_mysql = \<lparr>mysql_query = (\<lambda>q s. (\<lparr>query_errno = 0, store_errno = 0, stored = None, affected = 1\<rparr>, s)),
     mysql_escape = (\<lambda>s. s)\<rparr>"

definition quiet_conn :: "unit CDbConnection" where
  "quiet_conn = \<lparr>m_pMysql = True, last_affected = 0, server = ()\<rparr>"

lemma quiet_errors: "mysql_errors quiet_mysql"
  by (simp add: mysql_errors_def quiet_mysql_def)

definition nop_for :: "nat \<Rightarrow> SDbCommand" where
  "nop_for cb = \<lparr>nType = eDBCT_Nop, pMessage = Live NopReq, callback = Some cb\<rparr>"

lemma nop_round:
  "thread_run player_env (createMessage player_env) (onDbCommand player_env (createMessage player_env) quiet_mysql)
      (mysql_conn quiet_mysql (\<lambda>_. True)) (\<lambda>_. []) [Query (nop_for 3), Query (nop_for 4), Process [] [nop_for 5]]
      \<lparr>m_listCommand = [], m_dbCacheMgr = player_mgr, m_dbConnection = quiet_conn\<rparr> =
    Some ([\<lparr>nErrorCode = eDBRC_OK, res_message = None, res_callback = 3\<rparr>,
           \<lparr>nErrorCode = eDBRC_OK, res_message = None, res_callback = 4\<rparr>],
      \<lparr>m_listCommand = [nop_for 5], m_dbCacheMgr = player_mgr, m_dbConnection = quiet_conn\<rparr>)"
  by (simp add: thread_query_def thread_onProcess_def Let_def mysql_conn_def quiet_conn_def nop_for_def exec_command_def
      onPreCache_def onPostCache_def nop_handler_def result_of_def)


definition two_threads :: "unit CDbThreadMgr" where
  "two_threads = \<lparr>m_vecDbThread = [\<lparr>m_listCommand = [], m_dbCacheMgr = player_mgr, m_dbConnection = ()\<rparr>,
       \<lparr>m_listCommand = [], m_dbCacheMgr = player_mgr, m_dbConnection = ()\<rparr>],
     m_listResultInfo = []\<rparr>"

theorem record_has_one_thread_witness:
  "m_listCommand (m_vecDbThread (db_query player_env (createMessage player_env) (\<lambda>_. True)
      (SelectCommand ''player'' 7) None two_threads) ! 1) =
    [\<lparr>nType = eDBCT_Select, pMessage = Live (SelectReq ''player'' 7), callback = None\<rparr>]"
proof -
  have n: "length (m_vecDbThread two_threads) = 2" "m_vecDbThread two_threads \<noteq> []" by (simp_all add: two_threads_def)
  have i: "unat (ucast (7 :: u64) :: u32) mod 2 = 1" by simp
  have c: "command_of player_env (createMessage player_env) (\<lambda>_. True) (SelectCommand ''player'' 7) =
      Some (eDBCT_Select, SelectReq ''player'' 7, ucast (7 :: u64))" by simp
  show ?thesis
    unfolding record_has_one_thread [OF c _ n(2), of 7, unfolded request_key_def, simplified db_request.case, OF refl] n i
    by (simp add: to_thread_def thread_query_def two_threads_def)
qed

section \<open>The cache\<close>



text \<open>
  A flush that visits every cached row leaves the database with exactly the view of the
  clients, and does not change the view.
\<close>

theorem flush_writes_everything:
  assumes "stores_rows env tbl cmd" and "creates env create" and "coherent env mgr (tbl s)"
    and "\<And>k. cached_row mgr k \<noteq> None \<Longrightarrow> covered order k"
  shows "\<exists>s'. flushCache env create cmd order mgr s = Some s' \<and> coherent env mgr (tbl s') \<and>
     view env mgr (tbl s') = view env mgr (tbl s) \<and> tbl s' = view env mgr (tbl s)"
  using assms by (rule flush_all)

text \<open>A cache with a changed name that waits to be written back.\<close>

definition dirty_info :: SCacheInfo where
  "dirty_info = \<lparr>szData = show_int (uint (7 :: u64)) @ '',alice'', ticker = True\<rparr>"

definition dirty_mgr :: CDbCacheMgr where
  "dirty_mgr = put_cache player \<lparr>m_mapCacheInfo = [(7, dirty_info)], m_nDataSize = 7\<rparr> player_mgr"

definition old_db :: player_db where "old_db = [(player, 7) \<mapsto> player_msg 7 ''al'']"

lemma dirty_row: "cached_row dirty_mgr k = (if k = (player, 7) then Some dirty_info else None)"
  by (cases k) (auto simp: dirty_mgr_def find_row_def player_mgr_empty)

lemma dirty_parse: "parse player_env player (szData dirty_info) = Some alice"
  using player_msg_text [of 7 "''alice''"] by (simp add: player_env_def dirty_info_def alice_def)

lemma dirty_waits [simp]: "ticker dirty_info"
  by (simp add: dirty_info_def)

lemma old_row: "player_rows old_db (player, 7) = Some (get_field (player_msg 7 ''al''))"
  by (simp add: player_rows_def old_db_def player_msg_good)

lemma dirty_coherent: "coherent player_env dirty_mgr (player_rows old_db)"
proof (rule coherentI)
  fix n i info
  assume "cached_row dirty_mgr (n, i) = Some info"
  then have k: "n = player" "i = 7" "info = dirty_info" by (auto simp: dirty_row split: if_splits)
  have "dom (get_field (player_msg 7 ''al'')) \<subseteq> dom (get_field alice)"
    by (simp add: alice_def player_msg_fields)
  then show "copy_ok player_env (player_rows old_db) (n, i) info"
    unfolding copy_ok_def k fst_conv snd_conv using dirty_parse alice_good old_row by auto
qed

theorem flush_writes_everything_witness:
  "\<exists>s'. flushCache player_env (createMessage player_env) player_cmd [(player, [7])] dirty_mgr old_db = Some s' \<and>
     player_rows s' (player, 7) = Some (get_field alice)"
proof -
  have "covered [(player, [7])] k" if "cached_row dirty_mgr k \<noteq> None" for k
    using that by (auto simp: dirty_row covered_def split: if_splits)
  then obtain s' where "flushCache player_env (createMessage player_env) player_cmd [(player, [7])] dirty_mgr old_db = Some s'"
    "player_rows s' = view player_env dirty_mgr (player_rows old_db)"
    using flush_writes_everything [where tbl = player_rows and s = old_db, OF player_stores player_creates dirty_coherent] by blast
  then show ?thesis by (simp add: view_def dirty_row dirty_parse)
qed

text \<open>
  Through every history of a database thread the size of each table's cache is the total
  length of its rows, and the size that the manager compares with the limit is never more than
  the sum of the tables.
\<close>

theorem cache_sizes_exact:
  assumes "thread_run env create cmd ops ord es
      \<lparr>m_listCommand = [], m_dbCacheMgr = mgr_init opt ds, m_dbConnection = c\<rparr> = Some (rs, th)"
  shows "(\<forall>n cache. find_cache (m_dbCacheMgr th) n = Some cache \<longrightarrow>
       m_nDataSize cache = rows_size (m_mapCacheInfo cache)) \<and>
     mgr_nDataSize (m_dbCacheMgr th) \<le> total_size (m_dbCacheMgr th)"
proof -
  have "sizes_ok (m_dbCacheMgr th)" if "thread_run env create cmd ops ord es t = Some (rs, th)" "sizes_ok (m_dbCacheMgr t)"
    for t es rs using that
  proof (induction es arbitrary: t rs)
    case (Cons e es)
    then show ?case
      by (cases e) (auto simp: thread_query_def split: option.splits dest: thread_onProcess_sizes)
  qed simp
  from this [OF assms] have "sizes_ok (m_dbCacheMgr th)" by (simp add: mgr_init_sizes)
  then show ?thesis by (auto simp: sizes_ok_def caches_ok_def cache_ok_def)
qed

theorem cache_sizes_exact_witness:
  "mgr_nDataSize player_mgr \<le> total_size player_mgr"
proof -
  have "mgr_init \<lparr>nDbThreadCount = 1, vecCacheTable = [''player''], nMaxCacheSize = 100, nCacheWritebackTime = 60\<rparr> [] = player_mgr"
    by (simp add: player_mgr_def)
  from cache_sizes_exact [OF nop_round [folded this]] this show ?thesis by simp
qed

section \<open>The text of records and statements\<close>

text \<open>
  C21: A record whose set fields are integers, strings or sub-messages is written as text and read
  back from the row that holds this text with the same fields, whatever follows the values in
  memory.
\<close>

theorem record_text_roundtrip:
  assumes "pool env (type_name m) = Some d" and "distinct (map f_name (d_fields d))"
    and "\<And>f v. get_field m f = Some v \<Longrightarrow> \<exists>fd \<in> set (d_fields d). f_name fd = f \<and> value_fits env fd v"
  shows "\<exists>infos m'. getMessageFieldInfos env m = Some infos \<and>
     fillNormalMessage env (row_of infos tail) (Message (type_name m) []) = Filled m' \<and>
     type_name m' = type_name m \<and> get_field m' = get_field m"
proof -
  have find: "\<forall>fd \<in> set (d_fields d). FindFieldByName d (f_name fd) = Some fd"
    using assms(2) by (simp add: find_field)
  have fit: "\<forall>fd \<in> set (d_fields d). \<forall>v. get_field m (f_name fd) = Some v \<longrightarrow> value_fits env fd v"
    using assms(3) find by (metis option.inject)
  obtain infos m' where i: "field_infos env m (d_fields d) = Some infos"
    and f: "fill_pairs env d (map (\<lambda>i. (szName i, szValue i)) infos) (Message (type_name m) []) = Filled m'"
    and t: "type_name m' = type_name m"
    and g: "\<forall>f. get_field m' f = (if f \<in> f_name ` set (d_fields d) \<and> HasField m f then get_field m f
                                   else get_field (Message (type_name m) []) f)"
    using fill_field_infos [OF assms(2) find fit, of "Message (type_name m) []"] by auto
  have "get_field m' f = get_field m f" for f
    using assms(3) [of f] g by (cases "get_field m f") (auto simp: HasField_def)
  moreover have "fillNormalMessage env (row_of infos tail) (Message (type_name m) []) = Filled m'"
    using f row_of_pairs [of infos tail] assms(1)
    by (simp add: fillNormalMessage_def fill_columns_pairs getRowCount_def row_of_def)
  ultimately show ?thesis using i t assms(1) by (auto simp: getMessageFieldInfos_def fun_eq_iff)
qed

lemma alice_fits:
  "get_field alice f = Some v \<Longrightarrow> \<exists>fd \<in> set (d_fields player_desc). f_name fd = f \<and> value_fits player_env fd v"
  by (auto simp: alice_def player_msg_fields player_desc_def split: if_splits)

theorem record_text_roundtrip_witness:
  "\<exists>infos m'. getMessageFieldInfos player_env alice = Some infos \<and>
     fillNormalMessage player_env (row_of infos ''xyz'') (Message player []) = Filled m' \<and> get_field m' = get_field alice"
proof -
  have a: "type_name alice = player" by (simp add: alice_def player_msg_def)
  have "pool player_env (type_name alice) = Some player_desc" by (simp add: a)
  moreover have "distinct (map f_name (d_fields player_desc))" by (simp add: player_desc_def)
  ultimately show ?thesis using record_text_roundtrip [where tail = "''xyz''" and m = alice, OF _ _ alice_fits] by (auto simp: a)
qed

text \<open>
  C22: The statements for a record have a shape that does not depend on its strings: read as MySQL
  reads literals, every string value is one literal, so no value can end its literal early and
  become part of the statement.
\<close>

theorem statements_keep_shape:
  assumes "escapes_literals esc" and "no_quote t" and "pool env (type_name m) = Some d"
    and "\<And>fd. fd \<in> set (d_fields d) \<Longrightarrow> no_quote (f_name fd)"
    and "\<And>x. no_quote (show_double env x)" and "\<And>x. no_quote (show_float env x)"
    and "getMessageFieldInfos env m = Some infos"
  shows "shape (insert_sql esc t infos) = insert_shape t infos \<and> shape (update_sql esc t infos) = update_shape t infos"
proof -
  have int: "no_quote (show_int i)" for i
    using show_nat_digits [of "CHR 0x27" "nat i"] show_nat_digits [of "CHR 0x27" "nat (- i)"]
    by (auto simp: no_quote_def show_int_def is_digit_def)
  have one: "plain_info i" if "field_info env m fd = Some i" "fd \<in> set (d_fields d)" for fd i
    using that(1) assms(4) [OF that(2)]
    by (cases "f_type fd") (auto simp: plain_info_def field_info_def getBasicTypeFieldValue_def int assms(5, 6))
  have "\<forall>i \<in> set infos. plain_info i" if "field_infos env m fds = Some infos" "set fds \<subseteq> set (d_fields d)" for fds infos
    using that
  proof (induction fds arbitrary: infos)
    case (Cons fd fds)
    then show ?case using one by (auto split: if_splits option.splits)
  qed simp
  then have "\<forall>i \<in> set infos. plain_info i" using assms(3, 7) by (simp add: getMessageFieldInfos_def)
  from shape_insert [OF assms(1, 2) this, of "[]"] shape_update [OF assms(1, 2) this] show ?thesis by simp
qed

text \<open>An escaping that keeps the promise: a backslash before every quote and every backslash.\<close>

definition backslashes :: "string \<Rightarrow> string" where
  "backslashes s = concat (map (\<lambda>c. if c = CHR 0x27 \<or> c = CHR 0x5C then [CHR 0x5C, c] else [c]) s)"

lemma backslashes_ok: "escapes_literals backslashes"
proof -
  have "skip_literal (backslashes s @ CHR 0x27 # r) = r" for s r
    by (induction s) (auto simp: backslashes_def)
  then show ?thesis by (simp add: escapes_literals_def)
qed

theorem statements_keep_shape_witness:
  "\<exists>infos. getMessageFieldInfos player_env (player_msg 7 (CHR 0x27 # ''; drop table'')) = Some infos \<and>
     shape (update_sql backslashes ''player'' infos) = update_shape ''player'' infos"
proof -
  let ?m = "player_msg 7 (CHR 0x27 # ''; drop table'')"
  have p: "pool player_env (type_name ?m) = Some player_desc" by (simp add: player_msg_type)
  obtain infos where i: "getMessageFieldInfos player_env ?m = Some infos"
    by (auto simp: getMessageFieldInfos_def p player_desc_def player_msg_type HasField_def player_msg_fields field_info_def
        getBasicTypeFieldValue_def)
  have "no_quote (f_name fd)" if "fd \<in> set (d_fields player_desc)" for fd
    using that by (auto simp: player_desc_def no_quote_def)
  moreover have "no_quote (show_double player_env x)" "no_quote (show_float player_env y)" "no_quote ''player''" for x y
    by (simp_all add: player_env_def no_quote_def)
  ultimately show ?thesis using statements_keep_shape [OF backslashes_ok _ p _ _ _ i] i by blast
qed

text \<open>
  The arguments of a call or a query replace the placeholders of the template one after the
  other, and what an argument holds is never taken for a placeholder.
\<close>

theorem placeholders_filled_once: "fill_args esc tmpl 0 as = subst_args esc tmpl as"
  using fill_args_subst [of esc "[]" tmpl as] by simp

section \<open>Faults\<close>

text \<open>
  The write-back ticker of a row is registered with the context 0, so when it fires the row
  with the key 0 is written and this row is not; it then counts as written, and an eviction drops
  the update.
\<close>

theorem timer_then_eviction_loses_update:
  assumes "find_row cache nID = Some info" and "ticker info" and "find_row cache 0 = None"
  shows "\<exists>cache' cache''. cache_timer env create cmd n nID cache s = Some (cache', s) \<and>
     cleanData env create cmd n (Some nID) cache' s = Some (int (length (szData info)), cache'', s) \<and>
     find_row cache'' nID = None"
proof -
  have "nID \<noteq> 0" using assms by auto
  then show ?thesis using assms
    by (auto simp: cache_timer_def Let_def onBackup_def cleanData_def find_row_def update_conv delete_conv)
qed

theorem timer_then_eviction_loses_update_witness:
  "\<exists>c c'. cache_timer player_env (createMessage player_env) player_cmd player 7
       \<lparr>m_mapCacheInfo = [(7, dirty_info)], m_nDataSize = 7\<rparr> old_db = Some (c, old_db) \<and>
     cleanData player_env (createMessage player_env) player_cmd player (Some 7) c old_db = Some (7, c', old_db)"
proof -
  have "find_row \<lparr>m_mapCacheInfo = [(7, dirty_info)], m_nDataSize = 7\<rparr> 7 = Some dirty_info"
    "find_row \<lparr>m_mapCacheInfo = [(7, dirty_info)], m_nDataSize = 7\<rparr> 0 = None" by (simp_all add: find_row_def)
  moreover have "int (length (szData dirty_info)) = 7"
    by (simp add: dirty_info_def show_int_def show_nat.simps)
  ultimately show ?thesis using timer_then_eviction_loses_update [of _ 7 dirty_info] dirty_waits by metis
qed

text \<open>
  A row that is cached because a select missed it grows its table but not the account of the
  manager, so rows that are only read are never evicted, whatever the limit.
\<close>

theorem read_rows_unaccounted:
  assumes "find_cache mgr (type_name m) = Some c" and "find_row c nID = None" and "serialize env m = Some data"
    and "caches_ok mgr"
  shows "\<exists>mgr'. mgr_setData env create cmd nID m mgr s = Some (False, mgr', s) \<and>
     mgr_nDataSize mgr' = mgr_nDataSize mgr \<and> total_size mgr' = total_size mgr + int (length data)"
  using assms total_put [OF assms(4, 1)]
  by (auto simp: mgr_setData_def cache_setData_def cache_addData_def Let_def put_cache_def total_size_def)

text \<open>
  An update that leaves fields out and misses the cache puts the partial record into the cache:
  a select then returns it without the fields that the database has.
\<close>

theorem partial_update_hides_fields:
  assumes "find_cache mgr (type_name m) = Some c" and "find_row c nID = None" and "serialize env m = Some data"
    and "create (type_name m) = Some p" and "parse env (type_name p) data = Some m" and "enableCache mgr"
    and "getPrimaryValue env m = Some nID" and "type_name m = getMessageNameByTableName t"
    and "cmd eDBCT_Update (DataReq m) s = Some (eDBRC_OK, None, s1)"
  shows "\<exists>mgr'. exec_command env create cmd eDBCT_Update (DataReq m) mgr s = Some (eDBRC_OK, None, mgr', s1) \<and>
     exec_command env create cmd eDBCT_Select (SelectReq t nID) mgr' s1 = Some (eDBRC_OK, Some (RespMessage m), mgr', s1)"
proof -
  let ?c = "snd (cache_addData env nID m c)"
  let ?mgr = "put_cache (type_name m) ?c mgr"
  have "mgr_setData env create cmd nID m mgr s = Some (False, ?mgr, s)"
    using assms(1, 2) by (simp add: mgr_setData_def cache_setData_def)
  moreover have "enableCache ?mgr" using assms(6) by (simp add: enableCache_def put_cache_def)
  moreover have "mgr_getData env create nID (type_name m) ?mgr = Some m"
    using assms(2-5) by (simp add: mgr_getData_def cache_getData_def cache_addData_def)
  ultimately show ?thesis using assms(6-9) by (simp add: exec_command_def onPreCache_def onPostCache_def)
qed

text \<open>
  A command that finds the connection lost goes back into the queue with its request destroyed; the
  next round uses the request.  No handler reports a lost connection, since MySQL has no error 1, so
  the commands that meet a closed connection are answered with an error instead.
\<close>

theorem requeued_request_is_destroyed:
  assumes "exec_command env create cmd (nType c) req mgr s = Some (eDBRC_LostConnection, re, mgr', s')"
    and "nType c \<noteq> eDBCT_Flush" and "pMessage c = Live req"
  shows "process_list env create cmd ord (c # cs) mgr s = Some ([], c\<lparr>pMessage := Freed\<rparr> # cs, mgr', s') \<and>
     process_list env create cmd ord (c\<lparr>pMessage := Freed\<rparr> # cs) mgr' s'' = None"
  using assms by simp

theorem lost_connection_never_reported:
  "mysql_errors my \<Longrightarrow> onDbCommand env create my t req c \<noteq> Some (eDBRC_LostConnection, r)"
  by (rule handlers_not_lost)

text \<open>
  At exit the threads are joined first, which closes their connections, and only a thread with an
  open connection processes what is left: the queued commands are dropped.
\<close>

theorem exit_drops_commands:
  assumes "\<And>s. \<not> is_open ops (shut ops s)"
    and "exit_threads env create cmd ops ord ths = Some (rs, ths')"
  shows "rs = [] \<and> map m_listCommand ths' = map m_listCommand ths"
  using assms(2)
proof (induction ths arbitrary: rs ths')
  case (Cons th ths)
  then show ?case using assms(1) by (auto simp: onDestroy_def split: option.splits if_splits)
qed simp

text \<open>A flush request is queued on the first thread once and on every other thread twice.\<close>

theorem flush_queued_twice:
  "map (length \<circ> m_listCommand) (m_vecDbThread (db_query env create copies FlushCommand None two_threads)) = [1, 2]"
  by (simp add: db_query_def getThreadCount_def two_threads_def tm_query_def to_thread_def thread_query_def
      thread_index_def upt_rec)

text \<open>A value that is shorter than the longest of its column is read together with what follows it.\<close>

theorem short_values_read_past_their_end:
  "getData \<lparr>column_names = [''name''], max_length = [5], rs_rows = []\<rparr>
     [Some \<lparr>bytes_of = ''al'', after = CHR 0x00 # ''8bob''\<rparr>] 0 = ''al'' @ CHR 0x00 # ''8b''"
  by (simp add: getData_def getFieldCount_def)

text \<open>A \<open>float\<close> column stops the process.\<close>

theorem float_column_aborts:
  assumes "f_type fd = TYPE_FLOAT" and "read_float env v \<noteq> None"
  shows "setFieldValue env m fd v = Abort"
  using assms by (simp add: setFieldValue_def setBasicTypeFieldValue_def)

end
