(* ===== verification/Text_Parsers.thy ===== *)
theory Text_Parsers imports String_Util begin

text \<open>
  The token parser (\<open>token_parser.cpp\<close>) and the CSV reader (\<open>csv_parser.cpp\<close>) of
  \<open>engine/src/libBaseCommon\<close>, over the helpers of \<open>String_Util\<close>, and what text they read back.
\<close>

section \<open>Tokens\<close>

text \<open>The elements of a parser; \<open>None\<close> when the loop of \<open>split\<close> does not end.\<close>

definition token_parse :: "string \<Rightarrow> string \<Rightarrow> string list option" where
  "token_parse szBuf szDelim = split_str szBuf szDelim"

definition token_text :: "string list \<Rightarrow> nat \<Rightarrow> string" where
  "token_text els nIndex = trim (els ! nIndex) '' ''"

definition getInt32Element :: "string list \<Rightarrow> nat \<Rightarrow> int option" where
  "getInt32Element els nIndex = (if nIndex \<ge> length els then None else read_signed 32 (token_text els nIndex))"

definition getUint32Element :: "string list \<Rightarrow> nat \<Rightarrow> int option" where
  "getUint32Element els nIndex = (if nIndex \<ge> length els then None else read_unsigned 32 (token_text els nIndex))"

definition getInt64Element :: "string list \<Rightarrow> nat \<Rightarrow> int option" where
  "getInt64Element els nIndex = (if nIndex \<ge> length els then None else read_signed 64 (token_text els nIndex))"

definition getUint64Element :: "string list \<Rightarrow> nat \<Rightarrow> int option" where
  "getUint64Element els nIndex = (if nIndex \<ge> length els then None else read_unsigned 64 (token_text els nIndex))"

definition getStringElement :: "string list \<Rightarrow> nat \<Rightarrow> nat \<Rightarrow> string option" where
  "getStringElement els nIndex nBufSize = (if nIndex \<ge> length els then None
     else if length (els ! nIndex) \<ge> nBufSize then None else Some (els ! nIndex))"

section \<open>CSV\<close>

record SCSVParserInfo =
  szName :: string
  cDelim :: char
  vecHeader :: "string list"
  vecRow :: "string list list"

text \<open>\<open>std::getline\<close> with a delimiter, until the text is used up.\<close>

function getlines :: "char \<Rightarrow> string \<Rightarrow> string list" where
  "getlines c s = (if s = [] then [] else (let x = takeWhile (\<lambda>d. d \<noteq> c) s in x # getlines c (drop (length x + 1) s)))"
  by auto

termination
  by (relation "measure (\<lambda>(c, s). length s)") auto

declare getlines.simps [simp del]

definition parseCSVHeader :: "char \<Rightarrow> string \<Rightarrow> string list" where
  "parseCSVHeader d szHeader = getlines d szHeader"

text \<open>The loop over a line: whether it is inside quotes, and the value so far.\<close>

fun row_values :: "char \<Rightarrow> bool \<Rightarrow> string \<Rightarrow> string \<Rightarrow> string list" where
  "row_values d bQuoted cur [] = [trim cur [CHR 0x22]]"
| "row_values d bQuoted cur (c # s) =
    (if c = CHR 0x22 then row_values d (\<not> bQuoted) (cur @ [c]) s
     else if c = d \<and> \<not> bQuoted then trim cur [CHR 0x22] # row_values d bQuoted [] s
     else row_values d bQuoted (cur @ [c]) s)"

fun parseCSVRow :: "char \<Rightarrow> nat \<Rightarrow> string list \<Rightarrow> string list list option" where
  "parseCSVRow d n [] = Some []"
| "parseCSVRow d n (szLine # lines) =
    (let vals = row_values d False [] szLine in
     if length vals \<noteq> n then None else map_option ((#) vals) (parseCSVRow d n lines))"

text \<open>
  \<open>load\<close>: the parser may hold a table already, \<open>file\<close> is the content of the file, \<open>None\<close> when it
  does not open.
\<close>

definition file_lines :: "string \<Rightarrow> string list" where
  "file_lines content = filter (\<lambda>l. l \<noteq> []) (map (\<lambda>l. rtrim l [CHR 0x0D]) (getlines (CHR 0x0A) content))"

definition csv_load :: "SCSVParserInfo option \<Rightarrow> string \<Rightarrow> string option \<Rightarrow> char \<Rightarrow> bool \<times> SCSVParserInfo option" where
  "csv_load m name file d =
    (case (m, file) of
       (None, Some content) \<Rightarrow>
         (case file_lines content of [] \<Rightarrow> (False, None)
          | h # lines \<Rightarrow> (let hd = parseCSVHeader d h in
              case parseCSVRow d (length hd) lines of None \<Rightarrow> (False, None)
              | Some rs \<Rightarrow> (True, Some \<lparr>szName = name, cDelim = d, vecHeader = hd, vecRow = rs\<rparr>)))
     | _ \<Rightarrow> (False, m))"

fun find_column :: "string list \<Rightarrow> string \<Rightarrow> int \<Rightarrow> int" where
  "find_column [] szColumn i = - 1"
| "find_column (h # hs) szColumn i = (if equal_cstr (Some h) (Some szColumn) False then i else find_column hs szColumn (i + 1))"

definition findColumn :: "SCSVParserInfo \<Rightarrow> string \<Rightarrow> int" where
  "findColumn p szColumn = find_column (vecHeader p) szColumn 0"

definition getValue :: "SCSVParserInfo \<Rightarrow> nat \<Rightarrow> nat \<Rightarrow> string option" where
  "getValue p nRow nColumn = (if nRow \<ge> length (vecRow p) then None
     else if nColumn \<ge> length (vecRow p ! nRow) then None else Some (vecRow p ! nRow ! nColumn))"

definition getValueByName :: "SCSVParserInfo \<Rightarrow> nat \<Rightarrow> string \<Rightarrow> string option" where
  "getValueByName p nRow szColumn = (let nColumn = findColumn p szColumn in
     if nColumn < 0 then None else getValue p nRow (nat nColumn))"

definition getCsvRowCount :: "SCSVParserInfo \<Rightarrow> nat" where "getCsvRowCount p = length (vecRow p)"
definition getColumnCount :: "SCSVParserInfo \<Rightarrow> nat" where "getColumnCount p = length (vecHeader p)"
definition getHeaderElement :: "SCSVParserInfo \<Rightarrow> nat \<Rightarrow> string option" where
  "getHeaderElement p i = (if i \<ge> length (vecHeader p) then None else Some (vecHeader p ! i))"

section \<open>Reading back\<close>

lemma dropWhile_clean: "c \<notin> set s \<Longrightarrow> dropWhile (\<lambda>x. x \<in> set [c]) s = s"
  by (cases s) auto

lemma trim_clean [simp]: "c \<notin> set s \<Longrightarrow> trim s [c] = s"
  using dropWhile_clean [of c s] dropWhile_clean [of c "rev s"] by (simp add: trim_def ltrim_def rtrim_def)

lemma rtrim_last: "l \<noteq> [] \<Longrightarrow> last l \<noteq> c \<Longrightarrow> rtrim l [c] = l"
  by (cases l rule: rev_cases) (simp_all add: rtrim_def)

definition quote :: "string \<Rightarrow> string" where
  "quote v = CHR 0x22 # v @ [CHR 0x22]"

lemma trim_quote [simp]:
  assumes "CHR 0x22 \<notin> set v"
  shows "trim (quote v) [CHR 0x22] = v"
proof (cases "v = []")
  case False
  have 1: "dropWhile (\<lambda>x. x \<in> set [CHR 0x22]) (v @ [CHR 0x22]) = v @ [CHR 0x22]"
    using assms False by (cases v) auto
  have 2: "dropWhile (\<lambda>x. x \<in> set [CHR 0x22]) (rev v) = rev v" using assms by (intro dropWhile_clean) simp
  have "ltrim (quote v) [CHR 0x22] = v @ [CHR 0x22]" using 1 by (simp add: ltrim_def quote_def)
  then show ?thesis using 2 by (simp add: trim_def rtrim_def)
qed (simp add: trim_def ltrim_def rtrim_def quote_def)

lemma row_values_quoted:
  "CHR 0x22 \<notin> set v \<Longrightarrow> row_values d True cur (v @ CHR 0x22 # s) = row_values d False (cur @ v @ [CHR 0x22]) s"
  by (induction v arbitrary: cur) auto

lemma row_values_quote:
  assumes "CHR 0x22 \<notin> set v" and "d \<noteq> CHR 0x22"
  shows "row_values d False [] (quote v @ d # s) = v # row_values d False [] s"
    and "row_values d False [] (quote v) = [v]"
proof -
  have "row_values d False [] (quote v @ s) = row_values d False (quote v) s" for s
    using row_values_quoted [OF assms(1), of d "[CHR 0x22]" s] by (simp add: quote_def)
  from this [of "d # s"] this [of "[]"]
  show "row_values d False [] (quote v @ d # s) = v # row_values d False [] s"
    and "row_values d False [] (quote v) = [v]" using assms by simp_all
qed

lemma row_values_join:
  "vals \<noteq> [] \<Longrightarrow> \<forall>v \<in> set vals. CHR 0x22 \<notin> set v \<Longrightarrow> d \<noteq> CHR 0x22 \<Longrightarrow>
     row_values d False [] (join_with d (map quote vals)) = vals"
  by (induction vals rule: induct_list012) (simp_all add: row_values_quote)

lemma getlines_step: "c \<notin> set x \<Longrightarrow> getlines c (x @ c # s) = x # getlines c s"
  by (subst getlines.simps) (simp add: Let_def takeWhile_append)

lemma getlines_one:
  assumes "c \<notin> set x" and "x \<noteq> []"
  shows "getlines c x = [x]"
proof -
  have tw: "takeWhile (\<lambda>d. d \<noteq> c) x = x" using assms(1) by (auto simp: takeWhile_eq_all_conv)
  have "getlines c x = x # getlines c (drop (length x + 1) x)"
    using assms(2) by (subst getlines.simps) (simp only: Let_def tw if_False)
  then show ?thesis by (simp add: getlines.simps [of c "[]"])
qed

lemma getlines_join:
  "xs \<noteq> [] \<Longrightarrow> \<forall>x \<in> set xs. c \<notin> set x \<Longrightarrow> last xs \<noteq> [] \<Longrightarrow> getlines c (join_with c xs) = xs"
  by (induction xs rule: induct_list012) (simp_all add: getlines_step getlines_one)

lemma set_join: "x \<in> set (join_with d xs) \<Longrightarrow> x = d \<or> (\<exists>y \<in> set xs. x \<in> set y)"
  by (induction d xs rule: join_with.induct) auto

lemma join_last: "xs \<noteq> [] \<Longrightarrow> last xs \<noteq> [] \<Longrightarrow> join_with d xs \<noteq> [] \<and> last (join_with d xs) = last (last xs)"
  by (induction d xs rule: join_with.induct) auto

lemma parse_rows:
  "\<forall>r \<in> set rs. length r = n \<and> r \<noteq> [] \<and> (\<forall>v \<in> set r. CHR 0x22 \<notin> set v) \<Longrightarrow> d \<noteq> CHR 0x22 \<Longrightarrow>
     parseCSVRow d n (map (\<lambda>r. join_with d (map quote r)) rs) = Some rs"
  by (induction rs) (simp_all add: row_values_join)

text \<open>A file with a header line and rows of quoted values.\<close>

definition csv_file :: "char \<Rightarrow> string list \<Rightarrow> string list list \<Rightarrow> string" where
  "csv_file d hdr rs = join_with (CHR 0x0A) (join_with d hdr # map (\<lambda>r. join_with d (map quote r)) rs)"

definition plain_name :: "char \<Rightarrow> string \<Rightarrow> bool" where
  "plain_name d h \<longleftrightarrow> h \<noteq> [] \<and> d \<notin> set h \<and> CHR 0x0A \<notin> set h \<and> CHR 0x0D \<notin> set h"

definition plain_value :: "string \<Rightarrow> bool" where
  "plain_value v \<longleftrightarrow> CHR 0x22 \<notin> set v \<and> CHR 0x0A \<notin> set v"

lemma file_lines_csv:
  assumes d: "d \<noteq> CHR 0x22" "d \<noteq> CHR 0x0A" "d \<noteq> CHR 0x0D"
    and h: "hdr \<noteq> []" "\<forall>h \<in> set hdr. plain_name d h"
    and r: "\<forall>r \<in> set rs. r \<noteq> [] \<and> (\<forall>v \<in> set r. plain_value v)"
  shows "file_lines (csv_file d hdr rs) = join_with d hdr # map (\<lambda>r. join_with d (map quote r)) rs"
proof -
  let ?ls = "join_with d hdr # map (\<lambda>r. join_with d (map quote r)) rs"
  have last_h: "last hdr \<in> set hdr" "last hdr \<noteq> []" using h by (auto simp: plain_name_def)
  have cr: "last (last hdr) \<noteq> CHR 0x0D" using last_h h(2) last_in_set [OF last_h(2)] by (metis plain_name_def)
  have hl: "join_with d hdr \<noteq> []" "last (join_with d hdr) \<noteq> CHR 0x0D" "CHR 0x0A \<notin> set (join_with d hdr)"
    using join_last [OF h(1) last_h(2), of d] cr h(2) d(2)
    by (auto simp: plain_name_def dest!: set_join)
  have rl: "join_with d (map quote r) \<noteq> []" "last (join_with d (map quote r)) \<noteq> CHR 0x0D"
    "CHR 0x0A \<notin> set (join_with d (map quote r))" if "r \<in> set rs" for r
    using join_last [of "map quote r" d] r that d(2)
    by (auto simp: last_map quote_def plain_value_def dest!: set_join)
  have ok: "l \<noteq> [] \<and> last l \<noteq> CHR 0x0D \<and> CHR 0x0A \<notin> set l" if "l \<in> set ?ls" for l
    using that hl rl by auto
  have "last ?ls \<noteq> []" using ok last_in_set [of ?ls] by blast
  then have "getlines (CHR 0x0A) (csv_file d hdr rs) = ?ls"
    unfolding csv_file_def using ok by (intro getlines_join) blast+
  moreover have "map (\<lambda>l. rtrim l [CHR 0x0D]) ?ls = ?ls" using ok by (intro map_idI rtrim_last) blast+
  moreover have "filter (\<lambda>l. l \<noteq> []) ?ls = ?ls" using ok by (intro filter_True) blast
  ultimately show ?thesis by (simp only: file_lines_def)
qed

text \<open>
  A file of a header and rows of quoted values, as many as the header has names, is read back
  as written; the values may hold the delimiter.
\<close>

theorem csv_roundtrip:
  assumes "d \<noteq> CHR 0x22" "d \<noteq> CHR 0x0A" "d \<noteq> CHR 0x0D"
    and "hdr \<noteq> []" and "\<forall>h \<in> set hdr. plain_name d h"
    and "\<forall>r \<in> set rs. length r = length hdr \<and> (\<forall>v \<in> set r. plain_value v)"
  shows "csv_load None name (Some (csv_file d hdr rs)) d = (True, Some \<lparr>szName = name, cDelim = d, vecHeader = hdr, vecRow = rs\<rparr>)"
proof -
  have r: "\<forall>r \<in> set rs. r \<noteq> [] \<and> (\<forall>v \<in> set r. plain_value v)" using assms(4, 6) by auto
  have "getlines d (join_with d hdr) = hdr"
    using assms(4, 5) last_in_set [OF assms(4)] by (intro getlines_join) (auto simp: plain_name_def)
  moreover have "parseCSVRow d (length hdr) (map (\<lambda>r. join_with d (map quote r)) rs) = Some rs"
    using assms(1, 6) r by (intro parse_rows) (auto simp: plain_value_def)
  ultimately show ?thesis
    by (simp add: csv_load_def file_lines_csv [OF assms(1-5) r] parseCSVHeader_def Let_def)
qed

theorem csv_roundtrip_witness:
  "csv_load None ''t'' (Some (csv_file (CHR '','') [''id'', ''name''] [[''7'', ''a,b'']])) (CHR '','') =
     (True, Some \<lparr>szName = ''t'', cDelim = CHR '','', vecHeader = [''id'', ''name''], vecRow = [[''7'', ''a,b'']]\<rparr>)"
  by (rule csv_roundtrip) (simp_all add: plain_name_def plain_value_def)

text \<open>
  A list of words, none empty and none with the delimiter in it, is split again into these
  words, and integers written with spaces between them are read back by their index.
\<close>

theorem tokens_roundtrip:
  assumes "\<forall>i \<in> set is. - (2 ^ 31) \<le> i \<and> i < 2 ^ 31" and "is \<noteq> []"
  shows "\<exists>els. token_parse (join_with (CHR '' '') (map show_int is)) '' '' = Some els \<and>
     (\<forall>k < length is. getInt32Element els k = Some (is ! k)) \<and> getInt32Element els (length is) = None"
proof -
  have no: "CHR '' '' \<notin> set (show_int i)" "show_int i \<noteq> []" for i
    using show_nat_digits [of "CHR '' ''" "nat i"] show_nat_digits [of "CHR '' ''" "nat (- i)"]
    by (auto simp: show_int_def is_digit_def)
  have e: "token_parse (join_with (CHR '' '') (map show_int is)) '' '' = Some (map show_int is)"
  proof -
    have "join_with (CHR '' '') (map show_int is) \<noteq> []"
      using join_last [of "map show_int is" "CHR '' ''"] assms(2) no(2) by (simp add: last_map)
    then show ?thesis
      unfolding token_parse_def split_str_def using split_join [of "map show_int is" "CHR '' ''" "[]"] assms(2) no by simp
  qed
  have "getInt32Element (map show_int is) k = Some (is ! k)" if "k < length is" for k
  proof -
    have "- (2 ^ (32 - 1)) \<le> is ! k" "is ! k < 2 ^ (32 - 1)" using assms(1) that by simp_all
    then show ?thesis using that no(1) read_signed_show [of 32 "is ! k"] by (simp add: getInt32Element_def token_text_def)
  qed
  then show ?thesis using e by (auto simp: getInt32Element_def)
qed

theorem tokens_roundtrip_witness:
  "\<exists>els. token_parse (join_with (CHR '' '') (map show_int [- 5, 12])) '' '' = Some els \<and>
     (\<forall>k < length [- 5, 12 :: int]. getInt32Element els k = Some ([- 5, 12] ! k)) \<and>
     getInt32Element els (length [- 5, 12 :: int]) = None"
  by (rule tokens_roundtrip) simp_all

end
