(* ===== verification/Encodings.thy ===== *)
theory Encodings imports Prelude begin

text \<open>
  The byte encodings of \<open>engine/src/libBaseCommon\<close>: base 64 (\<open>base64.cpp\<close>), the checksum
  (\<open>crc32.cpp\<close>), the stream cipher (\<open>encryptor.cpp\<close>) and UTF-8 strings (\<open>utf8.cpp\<close>).  Buffers
  are lists of bytes; a result that C++ reports as \<open>-1\<close> is \<open>None\<close>.
\<close>

section \<open>Base 64\<close>

definition base64_chars :: "u8 list" where
  "base64_chars = map of_nat ([65..<91] @ [97..<123] @ [48..<58] @ [43, 47])"

definition is_base64 :: "u8 \<Rightarrow> bool" where
  "is_base64 c \<longleftrightarrow> (48 \<le> c \<and> c \<le> 57) \<or> (65 \<le> c \<and> c \<le> 90) \<or> (97 \<le> c \<and> c \<le> 122) \<or> c = 43 \<or> c = 47"

definition equals_sign :: u8 where "equals_sign = 61"

text \<open>The four indices of three bytes.\<close>

definition quad :: "u8 \<Rightarrow> u8 \<Rightarrow> u8 \<Rightarrow> u8 list" where
  "quad a b c = [drop_bit 2 (a AND 0xfc),
     push_bit 4 (a AND 0x03) + drop_bit 4 (b AND 0xf0),
     push_bit 2 (b AND 0x0f) + drop_bit 6 (c AND 0xc0),
     c AND 0x3f]"

definition to_chars :: "u8 list \<Rightarrow> u8 list" where
  "to_chars is = map (\<lambda>i. base64_chars ! unat i) is"

fun encode_text :: "u8 list \<Rightarrow> u8 list" where
  "encode_text [] = []"
| "encode_text [a] = to_chars (take 2 (quad a 0 0)) @ [equals_sign, equals_sign]"
| "encode_text [a, b] = to_chars (take 3 (quad a b 0)) @ [equals_sign]"
| "encode_text (a # b # c # r) = to_chars (quad a b c) @ encode_text r"

definition base64_encode :: "u8 list \<Rightarrow> nat \<Rightarrow> u8 list option" where
  "base64_encode szData nBufSize = (let ret = encode_text szData in
     if length ret > nBufSize \<or> ret = [] then None else Some ret)"

text \<open>\<open>(unsigned char)base64_chars.find(c)\<close>: 255 for a character that is not in the table.\<close>

fun index_in :: "u8 list \<Rightarrow> u8 \<Rightarrow> u8 \<Rightarrow> u8" where
  "index_in [] c i = 255"
| "index_in (x # xs) c i = (if x = c then i else index_in xs c (i + 1))"

definition base64_index :: "u8 \<Rightarrow> u8" where
  "base64_index c = index_in base64_chars c 0"

definition trio :: "u8 \<Rightarrow> u8 \<Rightarrow> u8 \<Rightarrow> u8 \<Rightarrow> u8 list" where
  "trio p q r s = [push_bit 2 p + drop_bit 4 (q AND 0x30),
     push_bit 4 (q AND 0xf) + drop_bit 2 (r AND 0x3c),
     push_bit 6 (r AND 0x3) + s]"

text \<open>
  The characters up to the first that is no base 64 character; a last group that is not full is
  filled with 0 before the indices are looked up.
\<close>

fun decode_chars :: "u8 list \<Rightarrow> u8 list" where
  "decode_chars (p # q # r # s # rest) =
     trio (base64_index p) (base64_index q) (base64_index r) (base64_index s) @ decode_chars rest"
| "decode_chars [] = []"
| "decode_chars [p] = []"
| "decode_chars [p, q] = take 1 (trio (base64_index p) (base64_index q) (base64_index 0) (base64_index 0))"
| "decode_chars [p, q, r] = take 2 (trio (base64_index p) (base64_index q) (base64_index r) (base64_index 0))"

definition base64_decode :: "u8 list \<Rightarrow> nat \<Rightarrow> u8 list option" where
  "base64_decode szData nBufSize = (let ret = decode_chars (takeWhile (\<lambda>c. c \<noteq> equals_sign \<and> is_base64 c) szData) in
     if length ret > nBufSize \<or> ret = [] then None else Some ret)"

section \<open>CRC 32\<close>

definition s_zCrctable :: "u32 list" where
  "s_zCrctable =
    [0x00000000, 0x04c11db7, 0x09823b6e, 0x0d4326d9, 0x130476dc, 0x17c56b6b, 0x1a864db2, 0x1e475005,
     0x2608edb8, 0x22c9f00f, 0x2f8ad6d6, 0x2b4bcb61, 0x350c9b64, 0x31cd86d3, 0x3c8ea00a, 0x384fbdbd,
     0x4c11db70, 0x48d0c6c7, 0x4593e01e, 0x4152fda9, 0x5f15adac, 0x5bd4b01b, 0x569796c2, 0x52568b75,
     0x6a1936c8, 0x6ed82b7f, 0x639b0da6, 0x675a1011, 0x791d4014, 0x7ddc5da3, 0x709f7b7a, 0x745e66cd,
     0x9823b6e0, 0x9ce2ab57, 0x91a18d8e, 0x95609039, 0x8b27c03c, 0x8fe6dd8b, 0x82a5fb52, 0x8664e6e5,
     0xbe2b5b58, 0xbaea46ef, 0xb7a96036, 0xb3687d81, 0xad2f2d84, 0xa9ee3033, 0xa4ad16ea, 0xa06c0b5d,
     0xd4326d90, 0xd0f37027, 0xddb056fe, 0xd9714b49, 0xc7361b4c, 0xc3f706fb, 0xceb42022, 0xca753d95,
     0xf23a8028, 0xf6fb9d9f, 0xfbb8bb46, 0xff79a6f1, 0xe13ef6f4, 0xe5ffeb43, 0xe8bccd9a, 0xec7dd02d,
     0x34867077, 0x30476dc0, 0x3d044b19, 0x39c556ae, 0x278206ab, 0x23431b1c, 0x2e003dc5, 0x2ac12072,
     0x128e9dcf, 0x164f8078, 0x1b0ca6a1, 0x1fcdbb16, 0x018aeb13, 0x054bf6a4, 0x0808d07d, 0x0cc9cdca,
     0x7897ab07, 0x7c56b6b0, 0x71159069, 0x75d48dde, 0x6b93dddb, 0x6f52c06c, 0x6211e6b5, 0x66d0fb02,
     0x5e9f46bf, 0x5a5e5b08, 0x571d7dd1, 0x53dc6066, 0x4d9b3063, 0x495a2dd4, 0x44190b0d, 0x40d816ba,
     0xaca5c697, 0xa864db20, 0xa527fdf9, 0xa1e6e04e, 0xbfa1b04b, 0xbb60adfc, 0xb6238b25, 0xb2e29692,
     0x8aad2b2f, 0x8e6c3698, 0x832f1041, 0x87ee0df6, 0x99a95df3, 0x9d684044, 0x902b669d, 0x94ea7b2a,
     0xe0b41de7, 0xe4750050, 0xe9362689, 0xedf73b3e, 0xf3b06b3b, 0xf771768c, 0xfa325055, 0xfef34de2,
     0xc6bcf05f, 0xc27dede8, 0xcf3ecb31, 0xcbffd686, 0xd5b88683, 0xd1799b34, 0xdc3abded, 0xd8fba05a,
     0x690ce0ee, 0x6dcdfd59, 0x608edb80, 0x644fc637, 0x7a089632, 0x7ec98b85, 0x738aad5c, 0x774bb0eb,
     0x4f040d56, 0x4bc510e1, 0x46863638, 0x42472b8f, 0x5c007b8a, 0x58c1663d, 0x558240e4, 0x51435d53,
     0x251d3b9e, 0x21dc2629, 0x2c9f00f0, 0x285e1d47, 0x36194d42, 0x32d850f5, 0x3f9b762c, 0x3b5a6b9b,
     0x0315d626, 0x07d4cb91, 0x0a97ed48, 0x0e56f0ff, 0x1011a0fa, 0x14d0bd4d, 0x19939b94, 0x1d528623,
     0xf12f560e, 0xf5ee4bb9, 0xf8ad6d60, 0xfc6c70d7, 0xe22b20d2, 0xe6ea3d65, 0xeba91bbc, 0xef68060b,
     0xd727bbb6, 0xd3e6a601, 0xdea580d8, 0xda649d6f, 0xc423cd6a, 0xc0e2d0dd, 0xcda1f604, 0xc960ebb3,
     0xbd3e8d7e, 0xb9ff90c9, 0xb4bcb610, 0xb07daba7, 0xae3afba2, 0xaafbe615, 0xa7b8c0cc, 0xa379dd7b,
     0x9b3660c6, 0x9ff77d71, 0x92b45ba8, 0x9675461f, 0x8832161a, 0x8cf30bad, 0x81b02d74, 0x857130c3,
     0x5d8a9099, 0x594b8d2e, 0x5408abf7, 0x50c9b640, 0x4e8ee645, 0x4a4ffbf2, 0x470cdd2b, 0x43cdc09c,
     0x7b827d21, 0x7f436096, 0x7200464f, 0x76c15bf8, 0x68860bfd, 0x6c47164a, 0x61043093, 0x65c52d24,
     0x119b4be9, 0x155a565e, 0x18197087, 0x1cd86d30, 0x029f3d35, 0x065e2082, 0x0b1d065b, 0x0fdc1bec,
     0x3793a651, 0x3352bbe6, 0x3e119d3f, 0x3ad08088, 0x2497d08d, 0x2056cd3a, 0x2d15ebe3, 0x29d4f654,
     0xc5a92679, 0xc1683bce, 0xcc2b1d17, 0xc8ea00a0, 0xd6ad50a5, 0xd26c4d12, 0xdf2f6bcb, 0xdbee767c,
     0xe3a1cbc1, 0xe760d676, 0xea23f0af, 0xeee2ed18, 0xf0a5bd1d, 0xf464a0aa, 0xf9278673, 0xfde69bc4,
     0x89b8fd09, 0x8d79e0be, 0x803ac667, 0x84fbdbd0, 0x9abc8bd5, 0x9e7d9662, 0x933eb0bb, 0x97ffad0c,
     0xafb010b1, 0xab710d06, 0xa6322bdf, 0xa2f33668, 0xbcb4666d, 0xb8757bda, 0xb5365d03, 0xb1f740b4]"

text \<open>
  A step of \<open>encode\<close>; the byte is a \<open>char\<close>, which is signed, so one above 127 gives an index far
  behind the table: \<open>None\<close>.
\<close>

definition crc_index :: "u32 \<Rightarrow> u8 \<Rightarrow> u32" where
  "crc_index nRet b = drop_bit 24 nRet XOR scast b"

fun crc_loop :: "u8 list \<Rightarrow> u32 \<Rightarrow> u32 option" where
  "crc_loop [] nRet = Some nRet"
| "crc_loop (b # bs) nRet = (let nTableIndex = crc_index nRet b in
     if unat nTableIndex < length s_zCrctable then crc_loop bs (push_bit 8 nRet XOR s_zCrctable ! unat nTableIndex)
     else None)"

definition crc32_encode :: "u8 list option \<Rightarrow> u32 option" where
  "crc32_encode szBuf = (case szBuf of None \<Rightarrow> Some 0 | Some bs \<Rightarrow> crc_loop bs 0)"

section \<open>The stream cipher\<close>

definition nKeyBufSize :: nat where "nKeyBufSize = 256"

record CEncryptor =
  m_bInit :: bool
  m_nPos1 :: nat
  m_nPos2 :: nat
  m_zEncryptKey1 :: "u8 list"
  m_zEncryptKey2 :: "u8 list"

definition new_encryptor :: CEncryptor where
  "new_encryptor = \<lparr>m_bInit = False, m_nPos1 = 0, m_nPos2 = 0,
     m_zEncryptKey1 = replicate nKeyBufSize 0, m_zEncryptKey2 = replicate nKeyBufSize 0\<rparr>"

text \<open>The key: a quadratic recurrence, taken modulo 256 by the assignment to a byte.\<close>

fun key_bytes :: "nat \<Rightarrow> u8 \<Rightarrow> u8 \<Rightarrow> u8 \<Rightarrow> u8 \<Rightarrow> u8 list" where
  "key_bytes 0 a b c nCode = []"
| "key_bytes (Suc n) a b c nCode = nCode # key_bytes n a b c (a * nCode * nCode + b * nCode + c)"

definition initWithKey :: "u8 \<Rightarrow> u8 \<Rightarrow> u8 \<Rightarrow> u8 \<Rightarrow> u8 \<Rightarrow> u8 \<Rightarrow> u8 \<Rightarrow> u8 \<Rightarrow> CEncryptor \<Rightarrow> CEncryptor" where
  "initWithKey a1 b1 c1 x1 a2 b2 c2 x2 e = e\<lparr>m_bInit := True, m_nPos1 := 0, m_nPos2 := 0,
     m_zEncryptKey1 := key_bytes nKeyBufSize a1 b1 c1 x1, m_zEncryptKey2 := key_bytes nKeyBufSize a2 b2 c2 x2\<rparr>"

definition advance :: "CEncryptor \<Rightarrow> CEncryptor" where
  "advance e = (if m_nPos1 e + 1 \<ge> nKeyBufSize
     then e\<lparr>m_nPos1 := 0, m_nPos2 := if m_nPos2 e + 1 \<ge> nKeyBufSize then 0 else m_nPos2 e + 1\<rparr>
     else e\<lparr>m_nPos1 := m_nPos1 e + 1\<rparr>)"

fun encrypt_loop :: "u8 list \<Rightarrow> CEncryptor \<Rightarrow> u8 list \<times> CEncryptor" where
  "encrypt_loop [] e = ([], e)"
| "encrypt_loop (b # bs) e =
    (let b' = b XOR m_zEncryptKey1 e ! m_nPos1 e XOR m_zEncryptKey2 e ! m_nPos2 e;
         (bs', e') = encrypt_loop bs (advance e)
     in (b' # bs', e'))"

definition encrypt :: "u8 list \<Rightarrow> CEncryptor \<Rightarrow> u8 list \<times> CEncryptor" where
  "encrypt szBuf e = (if \<not> m_bInit e then (szBuf, e) else encrypt_loop szBuf e)"

definition decrypt :: "u8 list \<Rightarrow> CEncryptor \<Rightarrow> u8 list \<times> CEncryptor" where
  "decrypt szBuf e = (if \<not> m_bInit e then (szBuf, e) else encrypt szBuf e)"

definition encryptBuf :: "u8 list \<Rightarrow> u8 \<Rightarrow> u8 list" where
  "encryptBuf pBuf nKey = map (\<lambda>b. b XOR nKey) pBuf"

section \<open>UTF-8\<close>

text \<open>How many bytes follow a lead byte; \<open>None\<close> for one that cannot start a character.\<close>

definition utf8_extra :: "u8 \<Rightarrow> nat option" where
  "utf8_extra c = (if c \<le> 127 then Some 0
     else if c AND 0xE0 = 0xC0 then Some 1
     else if c AND 0xF0 = 0xE0 then Some 2
     else if c AND 0xF8 = 0xF0 then Some 3
     else if c AND 0xFC = 0xF8 then Some 4
     else if c AND 0xFE = 0xFC then Some 5
     else None)"

function check_utf8 :: "u8 list \<Rightarrow> bool" where
  "check_utf8 [] = True"
| "check_utf8 (c # s) = (case utf8_extra c of None \<Rightarrow> False | Some n \<Rightarrow> check_utf8 (drop n s))"
  by pat_completeness auto
termination by (relation "measure length") (auto simp: less_Suc_eq_le)

definition utf8_init :: "u8 list \<Rightarrow> u8 list \<Rightarrow> bool \<times> u8 list" where
  "utf8_init utf8 old = (if check_utf8 utf8 then (True, utf8) else (False, old))"

function utf8_count :: "u8 list \<Rightarrow> nat \<Rightarrow> nat" where
  "utf8_count [] count = count"
| "utf8_count (c # s) count = (case utf8_extra c of None \<Rightarrow> 0 | Some n \<Rightarrow> utf8_count (drop n s) (count + 1))"
  by pat_completeness auto
termination by (relation "measure (\<lambda>(s, _). length s)") (auto simp: less_Suc_eq_le)

definition utf8_length :: "u8 list \<Rightarrow> nat" where
  "utf8_length s = utf8_count s 0"

text \<open>
  The loop of \<open>substr\<close>: the text from \<open>native_pos\<close> on, the two positions, and the first and the last
  position of the part.  The sum \<open>pos + count\<close> is a \<open>size_t\<close>; \<open>npos\<close> is its largest value.  The
  result is \<open>None\<close> for an invalid lead byte.
\<close>

definition npos :: nat where "npos = 2 ^ 64 - 1"

definition in_part :: "nat \<Rightarrow> nat \<Rightarrow> nat \<Rightarrow> bool" where
  "in_part utf8_pos pos count \<longleftrightarrow> utf8_pos \<le> (pos + count) mod 2 ^ 64 \<or> count = npos"

function substr_loop :: "u8 list \<Rightarrow> nat \<Rightarrow> nat \<Rightarrow> nat \<Rightarrow> nat \<Rightarrow> nat option \<Rightarrow> nat option \<Rightarrow> (nat option \<times> nat option) option" where
  "substr_loop [] native_pos utf8_pos pos count min_pos max_pos =
     Some (min_pos, if in_part utf8_pos pos count then Some native_pos else max_pos)"
| "substr_loop (c # s) native_pos utf8_pos pos count min_pos max_pos =
     (let min' = (if utf8_pos = pos then Some native_pos else min_pos);
          max' = (if in_part utf8_pos pos count then Some native_pos else max_pos)
      in case utf8_extra c of None \<Rightarrow> None
        | Some n \<Rightarrow> substr_loop (drop n s) (native_pos + n + 1) (utf8_pos + 1) pos count min' max')"
  by pat_completeness auto
termination by (relation "measure (\<lambda>(s, _). length s)") (auto simp: less_Suc_eq_le)

definition utf8_substr :: "u8 list \<Rightarrow> nat \<Rightarrow> nat \<Rightarrow> u8 list" where
  "utf8_substr s pos count = (if count = 0 then []
     else case substr_loop s 0 0 pos count None None of
         Some (Some min_pos, Some max_pos) \<Rightarrow> take (max_pos - min_pos) (drop min_pos s)
       | _ \<Rightarrow> [])"

definition utf8_at :: "u8 list \<Rightarrow> nat \<Rightarrow> u8 list" where
  "utf8_at s pos = utf8_substr s pos 1"

end
