(* ===== verification/Encoding_Props.thy ===== *)
theory Encoding_Props imports Encodings begin

text \<open>
  What the encodings of \<open>Encodings\<close> guarantee: base 64 gives back what was encoded, the checksum is
  the polynomial remainder, the cipher undoes itself over any chunking, and the operations on UTF-8
  work on characters.
\<close>

section \<open>Base 64\<close>

text \<open>The masks of the code as runs of ones, so that their bits are inequalities.\<close>

lemma u8_masks:
  "(0xfc :: u8) = push_bit 2 (mask 6)" "(0x03 :: u8) = mask 2" "(0xf0 :: u8) = push_bit 4 (mask 4)"
  "(0x0f :: u8) = mask 4" "(0xc0 :: u8) = push_bit 6 (mask 2)" "(0x3f :: u8) = mask 6"
  "(0x30 :: u8) = push_bit 4 (mask 2)" "(0x3c :: u8) = push_bit 2 (mask 4)"
  by (simp_all add: mask_eq_exp_minus_1 push_bit_eq_mult)

lemma u8_bits: "(\<And>n. n < 8 \<Longrightarrow> bit (x :: u8) n = bit y n) \<Longrightarrow> x = y"
  by (rule bit_word_eqI) simp

lemma u8_each_bit:
  assumes "bit (x :: u8) 0 = bit y 0" "bit x 1 = bit y 1" "bit x 2 = bit y 2" "bit x 3 = bit y 3"
    "bit x 4 = bit y 4" "bit x 5 = bit y 5" "bit x 6 = bit y 6" "bit x 7 = bit y 7"
  shows "x = y"
proof (rule u8_bits)
  fix n :: nat
  assume "n < 8"
  then have "n = 0 \<or> n = 1 \<or> n = 2 \<or> n = 3 \<or> n = 4 \<or> n = 5 \<or> n = 6 \<or> n = 7" by auto
  then show "bit x n = bit y n" using assms by auto
qed

lemma quad_or:
  "push_bit 4 (a AND 0x03) + drop_bit 4 (b AND 0xf0) = (push_bit 4 (a AND 0x03) OR drop_bit 4 (b AND 0xf0) :: u8)"
  "push_bit 2 (b AND 0x0f) + drop_bit 6 (c AND 0xc0) = (push_bit 2 (b AND 0x0f) OR drop_bit 6 (c AND 0xc0) :: u8)"
  by (intro disjunctive_add_eq_or u8_bits; auto simp: u8_masks bit_simps)+

lemma trio_or:
  "push_bit 2 (p AND 0x3f) + drop_bit 4 (q AND 0x30) = (push_bit 2 (p AND 0x3f) OR drop_bit 4 (q AND 0x30) :: u8)"
  "push_bit 4 (q AND 0xf) + drop_bit 2 (r AND 0x3c) = (push_bit 4 (q AND 0xf) OR drop_bit 2 (r AND 0x3c) :: u8)"
  "push_bit 6 (r AND 0x3) + (s AND 0x3f) = (push_bit 6 (r AND 0x3) OR (s AND 0x3f) :: u8)"
  by (intro disjunctive_add_eq_or u8_bits; auto simp: u8_masks bit_simps)+

lemma quad_small: "\<forall>x \<in> set (quad a b c). x AND 0x3f = x"
  unfolding quad_def quad_or
  by (auto intro!: u8_bits simp: u8_masks bit_simps)

lemma trio_quad: "quad a b c = [p, q, r, s] \<Longrightarrow> trio p q r s = [a, b, c]"
proof -
  assume e: "quad a b c = [p, q, r, s]"
  then have s: "p AND 0x3f = p" "s AND 0x3f = s" using quad_small [of a b c] by auto
  have "trio p q r s = [push_bit 2 p OR drop_bit 4 (q AND 0x30),
     push_bit 4 (q AND 0xf) OR drop_bit 2 (r AND 0x3c), push_bit 6 (r AND 0x3) OR s]"
    using trio_or(1) [of p q] trio_or(2) [of q r] trio_or(3) [of r s] unfolding s by (simp add: trio_def)
  moreover have "push_bit 2 p OR drop_bit 4 (q AND 0x30) = a"
    using e unfolding quad_def quad_or by (intro u8_each_bit) (auto simp: u8_masks bit_simps)
  moreover have "push_bit 4 (q AND 0xf) OR drop_bit 2 (r AND 0x3c) = b"
    using e unfolding quad_def quad_or by (intro u8_each_bit) (auto simp: u8_masks bit_simps)
  moreover have "push_bit 6 (r AND 0x3) OR s = c"
    using e unfolding quad_def quad_or by (intro u8_each_bit) (auto simp: u8_masks bit_simps)
  ultimately show ?thesis by simp
qed

lemma index_nth: "distinct xs \<Longrightarrow> n < length xs \<Longrightarrow> index_in xs (xs ! n) i = i + of_nat n"
proof (induction xs arbitrary: n i)
  case (Cons x xs)
  then show ?case by (cases n) (auto simp: algebra_simps)
qed simp

abbreviation char_codes :: "nat list" where
  "char_codes \<equiv> [65..<91] @ [97..<123] @ [48..<58] @ [43, 47]"

lemma char_codes_cases:
  "n \<in> set char_codes \<longleftrightarrow> 65 \<le> n \<and> n < 91 \<or> 97 \<le> n \<and> n < 123 \<or> 48 \<le> n \<and> n < 58 \<or> n = 43 \<or> n = 47"
  by (auto simp del: upt_rec_numeral)

lemma base64_chars_distinct: "distinct base64_chars" "length base64_chars = 64"
proof -
  have "n < 256" if "n \<in> set char_codes" for n using that unfolding char_codes_cases by linarith
  then have "inj_on (of_nat :: nat \<Rightarrow> u8) (set char_codes)"
    by (intro inj_onI) (simp add: word_unat_eq_iff unat_of_nat del: set_append)
  moreover have "distinct char_codes" by (auto simp del: upt_rec_numeral)
  ultimately show "distinct base64_chars" unfolding base64_chars_def by (simp only: distinct_map)
  show "length base64_chars = 64" by (simp add: base64_chars_def del: upt_rec_numeral)
qed

lemma base64_chars_set:
  assumes "c \<in> set base64_chars"
  shows "is_base64 c \<and> c \<noteq> equals_sign"
proof -
  obtain n where c: "c = of_nat n" and n: "n \<in> set char_codes"
    using assms unfolding base64_chars_def set_map by blast
  then have "n < 256" unfolding char_codes_cases by linarith
  then have "unat c = n" by (simp add: c unat_of_nat)
  then show ?thesis using n unfolding char_codes_cases is_base64_def equals_sign_def
    by (auto simp: word_le_nat_alt word_unat_eq_iff)
qed

lemma index_char:
  assumes "i AND 0x3f = i"
  shows "base64_index (base64_chars ! unat i) = i" "is_base64 (base64_chars ! unat i)" "base64_chars ! unat i \<noteq> equals_sign"
proof -
  have "i \<le> 0x3f" using assms word_and_le1 [of i "0x3f"] by (simp add: and.commute)
  then have n: "unat i < length base64_chars" by (simp add: word_le_nat_alt base64_chars_distinct)
  show "base64_index (base64_chars ! unat i) = i"
    using index_nth [OF base64_chars_distinct(1) n, of 0] by (simp add: base64_index_def)
  show "is_base64 (base64_chars ! unat i)" "base64_chars ! unat i \<noteq> equals_sign"
    using base64_chars_set nth_mem [OF n] by blast+
qed

lemma index_quad:
  assumes "x \<in> set (quad a b c)"
  shows "base64_index (base64_chars ! unat x) = x" "is_base64 (base64_chars ! unat x)" "base64_chars ! unat x \<noteq> equals_sign"
  using index_char quad_small [of a b c] assms by blast+

definition text_char :: "u8 \<Rightarrow> bool" where
  "text_char c \<longleftrightarrow> c \<noteq> equals_sign \<and> is_base64 c"

lemma to_chars_quad: "\<forall>c \<in> set (to_chars (quad a b c')). text_char c"
  by (auto simp: to_chars_def text_char_def dest: index_quad)

lemma takeWhile_full: "\<forall>c \<in> set xs. P c \<Longrightarrow> takeWhile P (xs @ ys) = xs @ takeWhile P ys"
  by (simp add: takeWhile_append)

text \<open>Decoding the text of a group and of the two groups that are not full.\<close>

lemma quad_4: "\<exists>p q r s. quad a b c = [p, q, r, s]"
  by (simp add: quad_def)

lemma decode_group: "decode_chars (to_chars (quad a b c) @ cs) = a # b # c # decode_chars cs"
proof -
  obtain p q r s where e: "quad a b c = [p, q, r, s]" using quad_4 by blast
  then have i: "base64_index (base64_chars ! unat x) = x" if "x \<in> {p, q, r, s}" for x
    using index_quad(1) [of x a b c] that by auto
  show ?thesis using trio_quad [OF e] by (simp add: e to_chars_def i)
qed

lemma trio_take:
  "take 2 (trio p q r s) = take 2 (trio p q r s')" "take 1 (trio p q r s) = take 1 (trio p q r' s')"
  by (simp_all add: trio_def)

lemma decode_last:
  "decode_chars (to_chars (take 2 (quad a 0 0))) = [a]"
  "decode_chars (to_chars (take 3 (quad a b 0))) = [a, b]"
proof -
  show "decode_chars (to_chars (take 2 (quad a 0 0))) = [a]"
  proof -
    obtain p q r s where e: "quad a 0 0 = [p, q, r, s]" using quad_4 by blast
    then have i: "base64_index (base64_chars ! unat x) = x" if "x \<in> {p, q}" for x
      using index_quad(1) [of x a 0 0] that by auto
    have "take 1 (trio p q (base64_index 0) (base64_index 0)) = take 1 (trio p q r s)" by (rule trio_take)
    then show ?thesis using trio_quad [OF e] by (simp add: e to_chars_def i)
  qed
  show "decode_chars (to_chars (take 3 (quad a b 0))) = [a, b]"
  proof -
    obtain p q r s where e: "quad a b 0 = [p, q, r, s]" using quad_4 by blast
    then have i: "base64_index (base64_chars ! unat x) = x" if "x \<in> {p, q, r}" for x
      using index_quad(1) [of x a b 0] that by auto
    have "take 2 (trio p q r (base64_index 0)) = take 2 (trio p q r s)" by (rule trio_take)
    then show ?thesis using trio_quad [OF e] by (simp add: e to_chars_def i numeral_3_eq_3 numeral_2_eq_2)
  qed
qed

definition text_part :: "u8 list \<Rightarrow> u8 list" where
  "text_part cs = takeWhile text_char cs"

lemma text_part_encode: "decode_chars (text_part (encode_text bs)) = bs"
proof (induction bs rule: encode_text.induct)
  case (2 a)
  have "\<forall>c \<in> set (to_chars (take 2 (quad a 0 0))). text_char c"
    using to_chars_quad [of a 0 0] by (auto simp: to_chars_def dest!: in_set_takeD)
  then show ?case by (simp add: text_part_def takeWhile_full text_char_def decode_last del: take_Suc_Cons)
next
  case (3 a b)
  have "\<forall>c \<in> set (to_chars (take 3 (quad a b 0))). text_char c"
    using to_chars_quad [of a b 0] by (auto simp: to_chars_def dest!: in_set_takeD)
  then show ?case by (simp add: text_part_def takeWhile_full text_char_def decode_last)
next
  case (4 a b c r)
  then show ?case using to_chars_quad [of a b c] by (simp add: text_part_def takeWhile_full decode_group)
qed (simp add: text_part_def)

lemma encode_text_length: "length (encode_text bs) = 4 * ((length bs + 2) div 3)"
proof (induction bs rule: encode_text.induct)
  case (4 a b c r)
  have "(length (a # b # c # r) + 2) div 3 = (length r + 2) div 3 + 1" by simp
  then show ?case using 4 by (simp add: to_chars_def quad_def)
qed (simp_all add: to_chars_def quad_def)

text \<open>
  What \<open>encode\<close> writes for a text that is not empty has four characters for every three bytes
  begun, and \<open>decode\<close> gives the text back; both fail when their buffer is too small, and \<open>encode\<close>
  fails on an empty text.
\<close>

theorem base64_roundtrip:
  "base64_encode bs n = (if bs = [] \<or> n < 4 * ((length bs + 2) div 3) then None else Some (encode_text bs)) \<and>
   base64_decode (encode_text bs) m = (if bs = [] \<or> m < length bs then None else Some bs)"
proof -
  have "encode_text bs = [] \<longleftrightarrow> bs = []"
    using encode_text_length [of bs] by (cases bs) (auto simp flip: length_0_conv)
  moreover have "decode_chars (takeWhile (\<lambda>c. c \<noteq> equals_sign \<and> is_base64 c) (encode_text bs)) = bs"
    using text_part_encode [of bs] by (simp add: text_part_def text_char_def [abs_def])
  ultimately show ?thesis by (auto simp: base64_encode_def base64_decode_def Let_def encode_text_length)
qed

section \<open>The stream cipher\<close>

definition cipher_pos :: "CEncryptor \<Rightarrow> bool" where
  "cipher_pos e \<longleftrightarrow> m_nPos1 e < nKeyBufSize \<and> m_nPos2 e < nKeyBufSize \<and>
     length (m_zEncryptKey1 e) = nKeyBufSize \<and> length (m_zEncryptKey2 e) = nKeyBufSize"

lemma advance_pos: "cipher_pos e \<Longrightarrow> cipher_pos (advance e)"
  by (auto simp: cipher_pos_def advance_def nKeyBufSize_def)

lemma encrypt_loop_state: "snd (encrypt_loop bs e) = (advance ^^ length bs) e"
  by (induction bs arbitrary: e) (simp_all add: Let_def case_prod_beta funpow_swap1)

lemma encrypt_loop_length [simp]: "length (fst (encrypt_loop bs e)) = length bs"
  by (induction bs arbitrary: e) (simp_all add: Let_def case_prod_beta)

lemma encrypt_loop_twice: "fst (encrypt_loop (fst (encrypt_loop bs e)) e) = bs"
  by (induction bs arbitrary: e) (simp_all add: Let_def case_prod_beta xor.assoc)

lemma encrypt_loop_append:
  "encrypt_loop (as @ bs) e = (fst (encrypt_loop as e) @ fst (encrypt_loop bs (snd (encrypt_loop as e))),
     snd (encrypt_loop bs (snd (encrypt_loop as e))))"
  by (induction as arbitrary: e) (simp_all add: Let_def case_prod_beta)

text \<open>A stream that is sent in chunks.\<close>

fun chunks :: "(u8 list \<Rightarrow> CEncryptor \<Rightarrow> u8 list \<times> CEncryptor) \<Rightarrow> u8 list list \<Rightarrow> CEncryptor \<Rightarrow> u8 list list \<times> CEncryptor" where
  "chunks f [] e = ([], e)"
| "chunks f (b # bs) e = (let (c, e') = f b e; (cs, e'') = chunks f bs e' in (c # cs, e''))"

lemma chunks_encrypt:
  "m_bInit e \<Longrightarrow> concat (fst (chunks encrypt bss e)) = fst (encrypt_loop (concat bss) e) \<and>
     snd (chunks encrypt bss e) = snd (encrypt_loop (concat bss) e)"
proof (induction bss arbitrary: e)
  case (Cons b bss)
  have i: "m_bInit ((advance ^^ n) e)" for n
    by (induction n) (use Cons.prems in \<open>simp_all add: advance_def\<close>)
  then show ?case using Cons.IH [OF i [of "length b"]] Cons.prems
    by (simp add: encrypt_def Let_def case_prod_beta encrypt_loop_append encrypt_loop_state)
qed simp

lemma decrypt_is_encrypt: "decrypt = encrypt"
  by (intro ext) (simp add: decrypt_def encrypt_def)

lemma advance_closed:
  assumes "m_nPos1 e = 0" "m_nPos2 e = 0"
  shows "m_nPos1 ((advance ^^ n) e) = n mod 256 \<and> m_nPos2 ((advance ^^ n) e) = (n div 256) mod 256 \<and>
     m_zEncryptKey1 ((advance ^^ n) e) = m_zEncryptKey1 e \<and> m_zEncryptKey2 ((advance ^^ n) e) = m_zEncryptKey2 e"
proof (induction n)
  case (Suc n)
  have d: "Suc n mod 256 = (if Suc (n mod 256) = 256 then 0 else Suc (n mod 256))"
    "Suc n div 256 = (if Suc (n mod 256) = 256 then Suc (n div 256) else n div 256)"
    by (simp_all add: mod_Suc div_Suc)
  have m: "Suc (n div 256) mod 256 = (if Suc (n div 256 mod 256) = 256 then 0 else Suc (n div 256 mod 256))"
    by (rule mod_Suc)
  have "n mod 256 < 256" "n div 256 mod 256 < 256" by simp_all
  then show ?case using Suc by (auto simp: advance_def nKeyBufSize_def d m)
qed (use assms in simp)

lemma encrypt_loop_nth:
  "i < length bs \<Longrightarrow> fst (encrypt_loop bs e) ! i =
     (let f = (advance ^^ i) e in bs ! i XOR m_zEncryptKey1 f ! m_nPos1 f XOR m_zEncryptKey2 f ! m_nPos2 f)"
proof (induction bs arbitrary: i e)
  case (Cons b bs)
  then show ?case by (cases i) (simp_all add: Let_def case_prod_beta funpow_swap1)
qed simp

definition keyed :: "(u8 \<times> u8 \<times> u8 \<times> u8) \<Rightarrow> (u8 \<times> u8 \<times> u8 \<times> u8) \<Rightarrow> CEncryptor \<Rightarrow> CEncryptor" where
  "keyed k1 k2 e = (case (k1, k2) of ((a1, b1, c1, x1), (a2, b2, c2, x2)) \<Rightarrow> initWithKey a1 b1 c1 x1 a2 b2 c2 x2 e)"

definition key_stream :: "(u8 \<times> u8 \<times> u8 \<times> u8) \<Rightarrow> nat \<Rightarrow> u8" where
  "key_stream k n = (case k of (a, b, c, x) \<Rightarrow> key_bytes nKeyBufSize a b c x ! (n mod nKeyBufSize))"

lemma keyed_simps:
  "m_bInit (keyed k1 k2 e)" "m_nPos1 (keyed k1 k2 e) = 0" "m_nPos2 (keyed k1 k2 e) = 0"
  "m_zEncryptKey1 (keyed k1 k2 e) = (case k1 of (a, b, c, x) \<Rightarrow> key_bytes nKeyBufSize a b c x)"
  "m_zEncryptKey2 (keyed k1 k2 e) = (case k2 of (a, b, c, x) \<Rightarrow> key_bytes nKeyBufSize a b c x)"
  by (cases k1; cases k2; simp add: keyed_def initWithKey_def)+

lemma keyed_any: "keyed k1 k2 e = keyed k1 k2 e'"
  by (cases k1; cases k2) (simp add: keyed_def initWithKey_def)

lemma keyed_nth:
  assumes "i < length bs"
  shows "fst (encrypt_loop bs (keyed k1 k2 e)) ! i = bs ! i XOR key_stream k1 i XOR key_stream k2 (i div nKeyBufSize)"
  using assms advance_closed [of "keyed k1 k2 e" i]
  by (simp add: encrypt_loop_nth Let_def keyed_simps key_stream_def nKeyBufSize_def split: prod.splits)

text \<open>
  The cipher of a stream does not depend on how it is cut into chunks: byte \<open>i\<close> is combined with
  byte \<open>i\<close> of the first key and byte \<open>i div 256\<close> of the second, both taken modulo 256; a peer with
  the same keys reads the stream back under any other cut.
\<close>

theorem cipher_stream_roundtrip:
  assumes "concat dss = concat (fst (chunks encrypt bss (keyed k1 k2 e)))"
  shows "concat (fst (chunks decrypt dss (keyed k1 k2 e'))) = concat bss \<and>
    length (concat dss) = length (concat bss) \<and>
    (\<forall>i < length (concat bss). concat dss ! i =
       concat bss ! i XOR key_stream k1 i XOR key_stream k2 (i div nKeyBufSize))"
proof -
  let ?k = "keyed k1 k2 e"
  have d: "concat dss = fst (encrypt_loop (concat bss) ?k)"
    using chunks_encrypt [OF keyed_simps(1)] assms by metis
  moreover have "concat (fst (chunks decrypt dss (keyed k1 k2 e'))) = concat bss"
    using chunks_encrypt [OF keyed_simps(1)] encrypt_loop_twice [of "concat bss" ?k] d keyed_any
    by (metis decrypt_is_encrypt)
  ultimately show ?thesis using keyed_nth by (metis encrypt_loop_length)
qed

theorem cipher_stream_roundtrip_witness:
  "\<exists>c. concat [c] = concat (fst (chunks encrypt [[1, 2], [3]] (keyed (1, 2, 3, 4) (5, 6, 7, 8) new_encryptor))) \<and>
     concat (fst (chunks decrypt [c] (keyed (1, 2, 3, 4) (5, 6, 7, 8) new_encryptor))) = [1, 2, 3]"
  using cipher_stream_roundtrip [of "[concat (fst (chunks encrypt [[1, 2], [3]] (keyed (1, 2, 3, 4) (5, 6, 7, 8) new_encryptor)))]"
      "[[1, 2], [3]]" "(1, 2, 3, 4)" "(5, 6, 7, 8)" new_encryptor new_encryptor] by simp

section \<open>CRC 32\<close>

text \<open>The reference: the remainder is shifted out one bit at a time.\<close>

definition crc_bit :: "u32 \<Rightarrow> u32" where
  "crc_bit r = (if bit r 31 then push_bit 1 r XOR 0x04c11db7 else push_bit 1 r)"

fun crc_bytes :: "u8 list \<Rightarrow> u32 \<Rightarrow> u32" where
  "crc_bytes [] r = r"
| "crc_bytes (b # bs) r = crc_bytes bs ((crc_bit ^^ 8) (r XOR push_bit 24 (ucast b)))"

lemma crc_bit_xor: "crc_bit (x XOR y) = crc_bit x XOR crc_bit y"
  by (auto simp: crc_bit_def bit_simps intro!: bit_word_eqI)

lemma crc_bits_xor: "(crc_bit ^^ n) (x XOR y) = (crc_bit ^^ n) x XOR (crc_bit ^^ n) y"
  by (induction n) (simp_all add: crc_bit_xor)

lemma crc_bits_low: "n \<le> 8 \<Longrightarrow> (crc_bit ^^ n) (x AND mask 24) = push_bit n (x AND mask 24)"
proof (induction n)
  case (Suc n)
  then have "\<not> bit (push_bit n (x AND mask 24)) 31" by (auto simp: bit_simps)
  then show ?case using Suc by (simp add: crc_bit_def push_bit_push_bit)
qed simp

text \<open>A table that is linear in its index is built by doubling.\<close>

fun doubled :: "(nat \<Rightarrow> u32) \<Rightarrow> nat \<Rightarrow> u32 list" where
  "doubled f 0 = [0]"
| "doubled f (Suc k) = doubled f k @ map (\<lambda>x. x XOR f (2 ^ k)) (doubled f k)"

lemma doubled_length [simp]: "length (doubled f k) = 2 ^ k"
  by (induction k) simp_all

lemma power_xor: "(n :: nat) < 2 ^ k \<Longrightarrow> n XOR 2 ^ k = n + 2 ^ k"
proof -
  assume "n < 2 ^ k"
  then have "\<not> bit n k" by (simp add: bit_iff_odd)
  then have "n AND 2 ^ k = 0" by (intro bit_eqI) (auto simp: bit_simps)
  then show ?thesis by (simp add: disjunctive_add_eq_xor)
qed

lemma doubled_nth:
  assumes lin: "\<And>m n. f (m XOR n) = f m XOR f n"
  shows "n < 2 ^ k \<Longrightarrow> doubled f k ! n = f n"
proof (induction k arbitrary: n)
  case 0
  then show ?case using lin [of 0 0] by simp
next
  case (Suc k)
  show ?case
  proof (cases "n < 2 ^ k")
    case True then show ?thesis using Suc.IH by (simp add: nth_append)
  next
    case False
    then have m: "n - 2 ^ k < 2 ^ k" using Suc.prems by simp
    then have "n = (n - 2 ^ k) XOR 2 ^ k" using False by (simp add: power_xor)
    then have "f n = f (n - 2 ^ k) XOR f (2 ^ k)" using lin by metis
    then show ?thesis using False m Suc.IH [OF m] by (simp add: nth_append)
  qed
qed

definition crc_entry :: "nat \<Rightarrow> u32" where
  "crc_entry n = (crc_bit ^^ 8) (push_bit 24 (of_nat n))"

lemma crc_entry_xor: "crc_entry (m XOR n) = crc_entry m XOR crc_entry n"
  by (simp add: crc_entry_def of_nat_xor_eq push_bit_xor crc_bits_xor)

lemma crc_bit_8:
  "(crc_bit ^^ 8) r = crc_bit (crc_bit (crc_bit (crc_bit (crc_bit (crc_bit (crc_bit (crc_bit r)))))))"
  by (simp add: eval_nat_numeral)

lemma doubled_8:
  "doubled f 8 = (let t1 = [0, f 1]; t2 = t1 @ map (\<lambda>x. x XOR f 2) t1; t3 = t2 @ map (\<lambda>x. x XOR f 4) t2;
     t4 = t3 @ map (\<lambda>x. x XOR f 8) t3; t5 = t4 @ map (\<lambda>x. x XOR f 16) t4; t6 = t5 @ map (\<lambda>x. x XOR f 32) t5;
     t7 = t6 @ map (\<lambda>x. x XOR f 64) t6 in t7 @ map (\<lambda>x. x XOR f 128) t7)"
proof -
  have "doubled f 8 = doubled f (Suc (Suc (Suc (Suc (Suc (Suc (Suc (Suc 0))))))))" by (simp add: numeral_eq_Suc)
  then show ?thesis by (simp only: doubled.simps Let_def) simp
qed

lemma crc_table: "s_zCrctable = doubled crc_entry 8"
proof -
  have e: "crc_entry (Suc 0) = 0x04c11db7" "crc_entry 2 = 0x09823b6e" "crc_entry 4 = 0x130476dc" "crc_entry 8 = 0x2608edb8"
    "crc_entry 16 = 0x4c11db70" "crc_entry 32 = 0x9823b6e0" "crc_entry 64 = 0x34867077" "crc_entry 128 = 0x690ce0ee"
    by (simp_all add: crc_entry_def crc_bit_8 crc_bit_def push_bit_eq_mult)
  show ?thesis unfolding s_zCrctable_def by (simp add: doubled_8 Let_def e)
qed

lemma crc_step: "(crc_bit ^^ 8) r = push_bit 8 r XOR crc_entry (unat (drop_bit 24 r))"
proof -
  have "r = (r AND mask 24) XOR push_bit 24 (drop_bit 24 r)"
    by (rule bit_word_eqI) (auto simp: bit_simps)
  then have "(crc_bit ^^ 8) r = (crc_bit ^^ 8) (r AND mask 24) XOR (crc_bit ^^ 8) (push_bit 24 (drop_bit 24 r))"
    using crc_bits_xor by metis
  moreover have "push_bit 8 (r AND mask 24) = push_bit 8 r" by (rule bit_word_eqI) (auto simp: bit_simps)
  ultimately show ?thesis using crc_bits_low [of 8 r] by (simp add: crc_entry_def)
qed

lemma crc_entry_nth: "n < 256 \<Longrightarrow> s_zCrctable ! n = crc_entry n"
  unfolding crc_table using doubled_nth [of crc_entry n 8] by (simp add: crc_entry_xor)

lemma unat_bit: "bit (unat (w :: 'a::len word)) n \<longleftrightarrow> bit w n"
  by (auto simp: bit_simps dest: bit_imp_le_length)

lemma crc_index_low:
  assumes "b < 128"
  shows "crc_index r b = drop_bit 24 (r XOR push_bit 24 (ucast b))" "unat (crc_index r b) < 256"
proof -
  have "unat b < 128" using assms by (simp add: word_less_nat_alt)
  then have "\<not> bit (unat b) 7" by (simp add: bit_iff_odd)
  then have b: "\<not> bit b 7" by (simp add: unat_bit)
  show e: "crc_index r b = drop_bit 24 (r XOR push_bit 24 (ucast b))"
    unfolding crc_index_def using b by (intro bit_word_eqI) (auto simp: bit_simps min_def le_less dest: bit_imp_le_length)
  have "unat w div 2 ^ 24 < 256" for w :: u32
  proof -
    have "unat w < 2 ^ LENGTH(32)" by (rule unsigned_less)
    then show ?thesis by (simp add: less_mult_imp_div_less)
  qed
  then show "unat (crc_index r b) < 256" unfolding e unat_drop_bit_eq by (simp only: drop_bit_eq_div)
qed

lemma crc_index_high:
  assumes "128 \<le> b"
  shows "\<not> unat (crc_index r b) < 256"
proof
  have "128 \<le> unat b" "unat b < 256" using assms unsigned_less [of b] by (simp_all add: word_le_nat_alt)
  then have "unat b div 128 = 1" by auto
  then have "bit (unat b) 7" by (simp add: bit_iff_odd)
  then have b: "bit b 7" by (simp add: unat_bit)
  have "bit (crc_index r b) 31" using b by (auto simp: crc_index_def bit_simps dest: bit_imp_le_length)
  then have "odd (unat (crc_index r b) div 2 ^ 31)" by (simp flip: unat_bit add: bit_iff_odd)
  moreover assume "unat (crc_index r b) < 256"
  ultimately show False by simp
qed

lemma crc_loop_reference: "crc_loop bs r = (if list_all (\<lambda>b. b < 128) bs then Some (crc_bytes bs r) else None)"
proof (induction bs arbitrary: r)
  case (Cons b bs)
  have len: "length s_zCrctable = 256" by (simp add: crc_table)
  show ?case
  proof (cases "b < 128")
    case True
    have "push_bit 8 (r XOR push_bit 24 (ucast b)) = push_bit 8 r" by (rule bit_word_eqI) (auto simp: bit_simps)
    then have "(crc_bit ^^ 8) (r XOR push_bit 24 (ucast b)) = push_bit 8 r XOR s_zCrctable ! unat (crc_index r b)"
      using crc_step [of "r XOR push_bit 24 (ucast b)"] crc_index_low [OF True, of r] by (simp add: crc_entry_nth)
    then show ?thesis using True Cons.IH crc_index_low(2) [OF True, of r] by (simp add: Let_def len)
  next
    case False
    then show ?thesis using crc_index_high [of b r] by (simp add: Let_def len not_less)
  qed
qed simp

text \<open>
  C23: On bytes below 128 the checksum is the remainder of the CRC-32 polynomial, shifted out bit by
  bit; a text with any other byte reads outside the table, as \<open>char\<close> is signed.
\<close>

theorem crc32_is_remainder:
  "crc32_encode (Some bs) = (if list_all (\<lambda>b. b < 128) bs then Some (crc_bytes bs 0) else None)"
  by (simp add: crc32_encode_def crc_loop_reference)

section \<open>UTF-8\<close>

text \<open>A character: a lead byte and as many bytes as it announces.\<close>

definition utf8_char :: "u8 list \<Rightarrow> bool" where
  "utf8_char ch \<longleftrightarrow> ch \<noteq> [] \<and> utf8_extra (hd ch) = Some (length ch - 1)"

lemma utf8_char_Cons: "utf8_char ch \<longleftrightarrow> (\<exists>c r. ch = c # r \<and> utf8_extra c = Some (length r))"
  by (cases ch) (auto simp: utf8_char_def)

lemma check_characters: "list_all utf8_char chs \<Longrightarrow> check_utf8 (concat chs)"
  by (induction chs) (auto simp: utf8_char_Cons)

lemma count_characters: "list_all utf8_char chs \<Longrightarrow> utf8_count (concat chs) n = n + length chs"
  by (induction chs arbitrary: n) (auto simp: utf8_char_Cons)

lemma substr_loop_characters:
  assumes "list_all utf8_char chs" and "\<forall>u \<le> utf8_pos + length chs. in_part u pos count \<longleftrightarrow> u \<le> k"
  shows "substr_loop (concat chs) native_pos utf8_pos pos count min_pos max_pos =
    Some (if utf8_pos \<le> pos \<and> pos < utf8_pos + length chs
            then Some (native_pos + length (concat (take (pos - utf8_pos) chs))) else min_pos,
          if utf8_pos \<le> k then Some (native_pos + length (concat (take (k - utf8_pos) chs))) else max_pos)"
  using assms
proof (induction chs arbitrary: native_pos utf8_pos min_pos max_pos)
  case (Cons ch chs)
  from Cons.prems(1) obtain c r where c: "ch = c # r" "utf8_extra c = Some (length r)" by (auto simp: utf8_char_Cons)
  have k: "in_part utf8_pos pos count \<longleftrightarrow> utf8_pos \<le> k" using Cons.prems(2) by simp
  have IH: "substr_loop (concat chs) np (utf8_pos + 1) pos count mi ma =
    Some (if utf8_pos + 1 \<le> pos \<and> pos < utf8_pos + 1 + length chs
            then Some (np + length (concat (take (pos - (utf8_pos + 1)) chs))) else mi,
          if utf8_pos + 1 \<le> k then Some (np + length (concat (take (k - (utf8_pos + 1)) chs))) else ma)" for np mi ma
    using Cons.prems by (intro Cons.IH) simp_all
  have t: "length (concat (take (m - utf8_pos) (ch # chs))) = 1 + length r + length (concat (take (m - (utf8_pos + 1)) chs))"
    if "utf8_pos < m" for m
  proof -
    have "m - utf8_pos = Suc (m - (utf8_pos + 1))" using that by simp
    then show ?thesis by (simp add: c(1))
  qed
  show ?case
    using IH t [of pos] t [of k] by (auto simp: c k Let_def)
qed auto

lemma drop_concat_characters: "drop (length (concat (take n chs))) (concat chs) = concat (drop n chs)"
  by (metis append_eq_conv_conj append_take_drop_id concat_append)

lemma substr_characters:
  assumes chs: "list_all utf8_char chs" and k: "\<forall>u \<le> length chs. in_part u pos count \<longleftrightarrow> u \<le> k" and "pos \<le> k" "count \<noteq> 0"
  shows "utf8_substr (concat chs) pos count = concat (take (k - pos) (drop pos chs))"
proof (cases "pos < length chs")
  case True
  have "take k chs = take pos chs @ take (k - pos) (drop pos chs)"
    using assms(3) by (metis le_add_diff_inverse take_add)
  then have len: "length (concat (take k chs)) - length (concat (take pos chs)) = length (concat (take (k - pos) (drop pos chs)))"
    by simp
  have "concat (drop pos chs) = concat (take (k - pos) (drop pos chs)) @ concat (drop (k - pos) (drop pos chs))"
    by (metis append_take_drop_id concat_append)
  then have "take (length (concat (take (k - pos) (drop pos chs)))) (concat (drop pos chs)) = concat (take (k - pos) (drop pos chs))"
    by simp
  then show ?thesis
    using substr_loop_characters [OF chs, of 0 pos count k 0 None None] True k assms(4) len
    by (simp add: utf8_substr_def drop_concat_characters)
next
  case False
  then show ?thesis
    using substr_loop_characters [OF chs, of 0 pos count k 0 None None] k assms(4)
    by (simp add: utf8_substr_def split: option.splits)
qed

text \<open>
  On a text of whole characters \<open>length\<close> counts the characters, \<open>substr\<close> takes \<open>count\<close> of them
  from \<open>pos\<close> on, up to the end for \<open>npos\<close> or when fewer are left, and \<open>init\<close> accepts the text.
\<close>

theorem utf8_counts_characters:
  assumes "list_all utf8_char chs" and "pos + count < npos"
  shows "utf8_init (concat chs) old = (True, concat chs) \<and> utf8_length (concat chs) = length chs \<and>
    utf8_substr (concat chs) pos count = concat (take count (drop pos chs)) \<and>
    utf8_substr (concat chs) pos npos = concat (drop pos chs)"
proof (intro conjI)
  show "utf8_init (concat chs) old = (True, concat chs)" by (simp add: utf8_init_def check_characters [OF assms(1)])
  show "utf8_length (concat chs) = length chs" by (simp add: utf8_length_def count_characters [OF assms(1)])
  have "\<forall>u \<le> length chs. in_part u pos count \<longleftrightarrow> u \<le> pos + count"
    using assms(2) by (auto simp: in_part_def npos_def)
  then show "utf8_substr (concat chs) pos count = concat (take count (drop pos chs))"
    using substr_characters [OF assms(1), of pos count "pos + count"] by (cases "count = 0") (simp_all add: utf8_substr_def)
  have "\<forall>u \<le> length chs. in_part u pos npos \<longleftrightarrow> u \<le> pos + length chs" by (auto simp: in_part_def)
  then show "utf8_substr (concat chs) pos npos = concat (drop pos chs)"
    using substr_characters [OF assms(1), of pos npos "pos + length chs"] by (simp add: npos_def)
qed

theorem utf8_counts_characters_witness:
  "utf8_length [0x61, 0xE4, 0xBD, 0xA0, 0xE5, 0xA5, 0xBD] = 3 \<and>
   utf8_substr [0x61, 0xE4, 0xBD, 0xA0, 0xE5, 0xA5, 0xBD] 1 1 = [0xE4, 0xBD, 0xA0]"
proof -
  have c: "list_all utf8_char [[0x61], [0xE4, 0xBD, 0xA0], [0xE5, 0xA5, 0xBD]]"
    by (simp add: utf8_char_def utf8_extra_def)
  show ?thesis using utf8_counts_characters [OF c, of 1 1 "[]"] by (simp add: npos_def)
qed

text \<open>Only the lead bytes are looked at: bytes that should continue a character may be anything, or missing.\<close>

theorem utf8_accepts_truncated: "fst (utf8_init [0xE4, 0x61] []) \<and> utf8_length [0xE4, 0x61] = 1"
  by (simp add: utf8_init_def utf8_length_def utf8_extra_def)

end
