(* ===== verification/Time_Util.thy ===== *)
theory Time_Util imports String_Util begin

text \<open>
  The times of \<open>engine/src/libBaseCommon/time_util.cpp\<close>: the clock of the process, and the conversions between
  milliseconds, broken-down times and text. The calendar functions of the C library for the time of Greenwich,
  \<open>gmtime_r\<close> and \<open>timegm\<close>, are here; the local ones, which depend on the zone files of the machine, are parameters.
\<close>

section \<open>The calendar\<close>

record tm =
  tm_sec :: int
  tm_min :: int
  tm_hour :: int
  tm_mday :: int
  tm_mon :: int
  tm_year :: int
  tm_wday :: int

definition leap_year :: "int \<Rightarrow> bool" where
  "leap_year y \<longleftrightarrow> 4 dvd y \<and> (\<not> 100 dvd y \<or> 400 dvd y)"

definition year_days :: "int \<Rightarrow> int" where
  "year_days y = (if leap_year y then 366 else 365)"

definition month_days :: "int \<Rightarrow> int list" where
  "month_days y = [31, if leap_year y then 29 else 28, 31, 30, 31, 30, 31, 31, 30, 31, 30, 31]"

text \<open>The days from the first of January 1970 to that of a year, and from that to the first of a month.\<close>

definition days_before_year :: "int \<Rightarrow> int" where
  "days_before_year y = 365 * (y - 1970) + ((y - 1) div 4 - (y - 1) div 100 + (y - 1) div 400) - 477"

definition days_before_month :: "int \<Rightarrow> nat \<Rightarrow> int" where
  "days_before_month y m = sum_list (take m (month_days y))"

text \<open>\<open>timegm\<close>: the fields may lie outside of their ranges.\<close>

definition timegm :: "tm \<Rightarrow> int" where
  "timegm t = (let y = tm_year t + 1900 + tm_mon t div 12;
       d = days_before_year y + days_before_month y (nat (tm_mon t mod 12)) + tm_mday t - 1
     in ((d * 24 + tm_hour t) * 60 + tm_min t) * 60 + tm_sec t)"

text \<open>\<open>gmtime_r\<close>, of a time that is not negative: the year, then the month, of a day.\<close>

function year_of :: "int \<Rightarrow> int \<Rightarrow> int \<times> int" where
  "year_of y d = (if d < year_days y then (y, d) else year_of (y + 1) (d - year_days y))"
  by auto
termination by (relation "measure (\<lambda>(y, d). nat d)") (auto simp: year_days_def split: if_splits)

declare year_of.simps [simp del]

fun month_of :: "int list \<Rightarrow> nat \<Rightarrow> int \<Rightarrow> nat \<times> int" where
  "month_of [] m d = (m, d)"
| "month_of (n # ns) m d = (if d < n then (m, d) else month_of ns (Suc m) (d - n))"

definition gmtime :: "int \<Rightarrow> tm" where
  "gmtime t = (let d = t div 86400; s = t mod 86400; (y, yd) = year_of 1970 d; (m, md) = month_of (month_days y) 0 yd
     in \<lparr>tm_sec = s mod 60, tm_min = s div 60 mod 60, tm_hour = s div 3600, tm_mday = md + 1, tm_mon = int m,
         tm_year = y - 1900, tm_wday = (d + 4) mod 7\<rparr>)"

section \<open>The clock\<close>

text \<open>\<open>start\<close>: \<open>nGmtStartProcessTime\<close>; \<open>pass\<close>: \<open>getProcessPassTime\<close>, in microseconds; \<open>now\<close>: \<open>time\<close>, in seconds.\<close>

definition start_time :: "int \<Rightarrow> int \<Rightarrow> int" where
  "start_time now pass = now * 1000 - pass div 1000"

definition getGmtTime :: "int \<Rightarrow> int \<Rightarrow> int" where
  "getGmtTime start pass = start + pass div 1000"

definition setGmtTime :: "int \<Rightarrow> int \<Rightarrow> int" where
  "setGmtTime nTime pass = nTime - pass div 1000"

definition gmt2LocalTime :: "int \<Rightarrow> int \<Rightarrow> int" where
  "gmt2LocalTime zone nTime = nTime - zone"

definition local2GmtTime :: "int \<Rightarrow> int \<Rightarrow> int" where
  "local2GmtTime zone nTime = nTime + zone"

definition getLocalTime :: "int \<Rightarrow> int \<Rightarrow> int \<Rightarrow> int" where
  "getLocalTime zone start pass = getGmtTime start pass - zone"

text \<open>\<open>CTimeElapse\<close>.\<close>

definition getElapse :: "int \<Rightarrow> int \<Rightarrow> int \<Rightarrow> int" where
  "getElapse nBeginTime start pass = getGmtTime start pass - nBeginTime"

section \<open>Broken-down times\<close>

record STime =
  nYear :: u32
  nMon :: u32
  nDay :: u32
  nWDay :: u32
  nHour :: u32
  nMin :: u32
  nSec :: u32
  nMSec :: u32

definition stime_of :: "tm \<Rightarrow> int \<Rightarrow> STime" where
  "stime_of t nTime = \<lparr>nYear = of_int ((1900 + tm_year t) mod 2 ^ 16), nMon = of_int (tm_mon t + 1), nDay = of_int (tm_mday t),
     nWDay = of_int (tm_wday t), nHour = of_int (tm_hour t), nMin = of_int (tm_min t), nSec = of_int (tm_sec t),
     nMSec = of_int (nTime mod 1000)\<rparr>"

definition tm_of :: "STime \<Rightarrow> tm" where
  "tm_of s = \<lparr>tm_sec = sint (nSec s), tm_min = sint (nMin s), tm_hour = sint (nHour s), tm_mday = sint (nDay s),
     tm_mon = sint (nMon s - 1), tm_year = sint (nYear s - 1900), tm_wday = 0\<rparr>"

definition getGmtTimeTM :: "int \<Rightarrow> int \<Rightarrow> STime" where
  "getGmtTimeTM now nTime = (let nTime = (if nTime \<le> 0 then now else nTime) in stime_of (gmtime (nTime div 1000)) nTime)"

definition getGmtTimeByTM :: "STime \<Rightarrow> int" where
  "getGmtTimeByTM s = timegm (tm_of s) * 1000 + uint (nMSec s)"

text \<open>\<open>localtime\<close>, \<open>mktime\<close>: those of the C library.\<close>

definition getLocalTimeTM :: "(int \<Rightarrow> tm) \<Rightarrow> int \<Rightarrow> int \<Rightarrow> int \<Rightarrow> STime" where
  "getLocalTimeTM localtime zone now nTime = (let nTime = (if nTime \<le> 0 then now else local2GmtTime zone nTime)
     in stime_of (localtime (nTime div 1000)) nTime)"

definition getLocalTimeByTM :: "(tm \<Rightarrow> int) \<Rightarrow> int \<Rightarrow> STime \<Rightarrow> int" where
  "getLocalTimeByTM mktime zone s = gmt2LocalTime zone (mktime (tm_of s) * 1000 + uint (nMSec s))"

definition getLocalSpanTime :: "(tm \<Rightarrow> int) \<Rightarrow> int \<Rightarrow> int \<Rightarrow> int \<Rightarrow> STime \<Rightarrow> int" where
  "getLocalSpanTime mktime zone start pass s = (let nEndTime = getLocalTimeByTM mktime zone s; nCurTime = getLocalTime zone start pass
     in if nEndTime > nCurTime then nEndTime - nCurTime else 0)"

section \<open>Text\<close>

text \<open>A number with leading zeros to a width, \<open>%0wd\<close>.\<close>

definition padded :: "nat \<Rightarrow> int \<Rightarrow> string" where
  "padded w i = (if i < 0 then CHR ''-'' # (let s = show_nat (nat (- i)) in replicate (w - 1 - length s) CHR ''0'' @ s)
     else (let s = show_nat (nat i) in replicate (w - length s) CHR ''0'' @ s))"

definition tm_text :: "tm \<Rightarrow> string" where
  "tm_text t = padded 4 (tm_year t + 1900) @ ''-'' @ padded 2 (tm_mon t + 1) @ ''-'' @ padded 2 (tm_mday t) @ '' '' @
     padded 2 (tm_hour t) @ '':'' @ padded 2 (tm_min t) @ '':'' @ padded 2 (tm_sec t)"

text \<open>\<open>snprintf\<close>: what the buffer holds and the length of the whole text; without a buffer of a size it is -1 as a \<open>size_t\<close>.\<close>

definition print_to :: "nat \<Rightarrow> string \<Rightarrow> string \<times> u64" where
  "print_to nBufSize s = (if nBufSize = 0 then ([], -1) else (take (nBufSize - 1) s, of_nat (length s)))"

definition formatGmtTime :: "nat \<Rightarrow> int \<Rightarrow> int \<Rightarrow> string \<times> u64" where
  "formatGmtTime nBufSize now nTime = (let nTime = (if nTime \<le> 0 then now else nTime) in print_to nBufSize (tm_text (gmtime (nTime div 1000))))"

definition formatLocalTime :: "(int \<Rightarrow> tm) \<Rightarrow> int \<Rightarrow> nat \<Rightarrow> int \<Rightarrow> int \<Rightarrow> string \<times> u64" where
  "formatLocalTime localtime zone nBufSize now nTime = (let nTime = (if nTime \<le> 0 then now else local2GmtTime zone nTime)
     in print_to nBufSize (tm_text (localtime (nTime div 1000))))"

text \<open>The separators of a text, in order, and whether they are those of a time.\<close>

definition separators :: "string \<Rightarrow> string" where
  "separators s = filter (\<lambda>c. c \<in> set ''-: '') s"

text \<open>
  \<open>sscanf\<close>: the numbers that are read until the format and the text part; white space before a number is skipped and a
  blank in the format takes any, a number may have a sign. The rest keep the value 0. \<open>None\<close>: the text ends before the first.
\<close>

definition scan_int :: "string \<Rightarrow> (int \<times> string) option" where
  "scan_int s = (let (neg, r) = read_sign (dropWhile is_space s); ds = takeWhile is_digit r in
     if ds = [] then None else Some ((if neg then - int (digits_value ds) else int (digits_value ds)), dropWhile is_digit r))"

fun scan_fields :: "string \<Rightarrow> string \<Rightarrow> int list" where
  "scan_fields seps s = (case scan_int s of None \<Rightarrow> [] | Some (i, r) \<Rightarrow> i # (case seps of [] \<Rightarrow> []
     | c # cs \<Rightarrow> if c = CHR '' '' then scan_fields cs (dropWhile is_space r)
         else (case r of x # r' \<Rightarrow> if x = c then scan_fields cs r' else [] | [] \<Rightarrow> [])))"

declare scan_fields.simps [simp del]

definition field_at :: "int list \<Rightarrow> nat \<Rightarrow> u32" where
  "field_at xs i = (if i < length xs then of_int (xs ! i) else 0)"

definition getTMByBuf :: "string \<Rightarrow> STime option" where
  "getTMByBuf s = (if \<not> list_all (\<lambda>c. is_digit c \<or> c \<in> set ''-: '') s then None
     else if separators s \<noteq> ''-- ::'' then None
     else if dropWhile is_space s = [] then None
     else (let xs = scan_fields ''-- ::'' s in
       Some \<lparr>nYear = field_at xs 0, nMon = field_at xs 1, nDay = field_at xs 2, nWDay = 0, nHour = field_at xs 3,
         nMin = field_at xs 4, nSec = field_at xs 5, nMSec = 0\<rparr>))"

definition getGmtTimeByBuf :: "string \<Rightarrow> int" where
  "getGmtTimeByBuf s = (case getTMByBuf s of None \<Rightarrow> -1 | Some t \<Rightarrow> getGmtTimeByTM t)"

definition getLocalTimeByBuf :: "(tm \<Rightarrow> int) \<Rightarrow> int \<Rightarrow> string \<Rightarrow> int" where
  "getLocalTimeByBuf mktime zone s = (case getTMByBuf s of None \<Rightarrow> -1 | Some t \<Rightarrow> getLocalTimeByTM mktime zone t)"

end
