(* ===== verification/Time_Props.thy ===== *)
theory Time_Props imports Time_Util begin

text \<open>
  The conversions of times: a time that is broken down or written as text is found again, and what a text that
  only has the separators of a time gives.
\<close>

section \<open>The calendar\<close>

lemma year_days_range: "365 \<le> year_days y" "year_days y \<le> 366"
  by (simp_all add: year_days_def)

lemma year_step: "days_before_year (y + 1) = days_before_year y + year_days y"
proof -
  have step: "(y :: int) div k = (y - 1) div k + (if k dvd y then 1 else 0)" if k: "0 < k" for k
  proof (cases "k dvd y")
    case True
    then have "y - 1 = k * (y div k - 1) + (k - 1)" by (simp add: algebra_simps)
    then have "(y - 1) div k = y div k - 1" using k int_div_pos_eq [of "y - 1" k "y div k - 1" "k - 1"] by simp
    then show ?thesis using True by simp
  next
    case False
    have "0 < y mod k" "y mod k < k" using False k pos_mod_sign [of k y] pos_mod_bound [of k y] by (simp_all add: dvd_eq_mod_eq_0 order.strict_iff_order)
    moreover have "y - 1 = k * (y div k) + (y mod k - 1)" by simp
    ultimately have "(y - 1) div k = y div k" using int_div_pos_eq [of "y - 1" k "y div k" "y mod k - 1"] by simp
    then show ?thesis using False by simp
  qed
  have d: "400 dvd y \<Longrightarrow> 100 dvd y" "100 dvd y \<Longrightarrow> 4 dvd y" by (erule dvd_trans [rotated], simp)+
  define a b c where abc: "a = (y - 1) div 4" "b = (y - 1) div 100" "c = (y - 1) div 400"
  have e: "days_before_year (y + 1) = 365 * (y + 1 - 1970) + (y div 4 - y div 100 + y div 400) - 477"
    "days_before_year y = 365 * (y - 1970) + (a - b + c) - 477" by (simp_all add: days_before_year_def abc)
  have "y div 4 = a + (if 4 dvd y then 1 else 0)" "y div 100 = b + (if 100 dvd y then 1 else 0)" "y div 400 = c + (if 400 dvd y then 1 else 0)"
    using step [of 4] step [of 100] step [of 400] by (simp_all only: abc)
  then show ?thesis unfolding e year_days_def leap_year_def using d
    by (cases "4 dvd y"; cases "100 dvd y"; cases "400 dvd y"; simp)
qed

lemma year_mono: "y \<le> y' \<Longrightarrow> days_before_year y \<le> days_before_year y'"
proof (induction y' rule: int_ge_induct)
  case (step z)
  then show ?case using year_step [of z] year_days_range(1) [of z] by simp
qed simp

lemma year_of_splits:
  "year_of y d = (y', r) \<Longrightarrow> 0 \<le> d \<Longrightarrow> days_before_year y + d = days_before_year y' + r \<and> 0 \<le> r \<and> r < year_days y' \<and> y \<le> y'"
proof (induction y d arbitrary: y' r rule: year_of.induct)
  case (1 y d)
  show ?case
  proof (cases "d < year_days y")
    case True
    then show ?thesis using 1(2,3) by (subst (asm) year_of.simps) simp
  next
    case False
    then have "year_of (y + 1) (d - year_days y) = (y', r)" using 1(2) by (subst (asm) year_of.simps) simp
    then show ?thesis using 1(1) [OF False] False year_step [of y] by fastforce
  qed
qed

lemma month_of_splits:
  "month_of ns m d = (m', r) \<Longrightarrow> 0 \<le> d \<Longrightarrow> d < sum_list ns \<Longrightarrow>
     m \<le> m' \<and> m' < m + length ns \<and> d = sum_list (take (m' - m) ns) + r \<and> 0 \<le> r \<and> r < ns ! (m' - m)"
proof (induction ns m d rule: month_of.induct)
  case (2 n ns m d)
  show ?case
  proof (cases "d < n")
    case False
    then have "Suc m \<le> m' \<and> m' < Suc m + length ns \<and> d - n = sum_list (take (m' - Suc m) ns) + r \<and> 0 \<le> r \<and> r < ns ! (m' - Suc m)"
      using 2 by simp
    moreover from this obtain k where "m' = Suc (m + k)" by (metis add_Suc less_eqE)
    ultimately show ?thesis by simp
  qed (use 2 in auto)
qed simp

lemma month_sum: "sum_list (month_days y) = year_days y"
  by (simp add: month_days_def year_days_def)

lemma gmtime_fields:
  assumes "0 \<le> t"
  shows "timegm (gmtime t) = t" "0 \<le> tm_sec (gmtime t)" "tm_sec (gmtime t) < 60" "0 \<le> tm_min (gmtime t)" "tm_min (gmtime t) < 60"
    "0 \<le> tm_hour (gmtime t)" "tm_hour (gmtime t) < 24" "1 \<le> tm_mday (gmtime t)" "tm_mday (gmtime t) \<le> 31"
    "0 \<le> tm_mon (gmtime t)" "tm_mon (gmtime t) < 12" "70 \<le> tm_year (gmtime t)"
    "t < 253402300800 \<Longrightarrow> tm_year (gmtime t) < 8100"
proof -
  define d where "d = t div 86400"
  define s where "s = t mod 86400"
  obtain y yd where y: "year_of 1970 d = (y, yd)" by fastforce
  obtain m md where m: "month_of (month_days y) 0 yd = (m, md)" by fastforce
  have d0: "0 \<le> d" using assms by (simp add: d_def)
  have s: "0 \<le> s" "s < 86400" by (simp_all add: s_def)
  have g: "gmtime t = \<lparr>tm_sec = s mod 60, tm_min = s div 60 mod 60, tm_hour = s div 3600, tm_mday = md + 1, tm_mon = int m,
         tm_year = y - 1900, tm_wday = (d + 4) mod 7\<rparr>"
    using y m by (simp add: gmtime_def d_def [symmetric] s_def [symmetric] Let_def)
  have ys: "d = days_before_year y + yd" "0 \<le> yd" "yd < year_days y" "1970 \<le> y"
    using year_of_splits [OF y d0] by (auto simp: days_before_year_def)
  have ms: "m < 12" "yd = days_before_month y m + md" "0 \<le> md" "md < month_days y ! m"
    using month_of_splits [OF m ys(2) ys(3) [folded month_sum]] by (simp_all add: days_before_month_def) (simp add: month_days_def)
  have "month_days y ! m \<le> 31"
  proof -
    have "list_all (\<lambda>n. n \<le> 31) (month_days y)" by (simp add: month_days_def)
    then show ?thesis using ms(1) by (simp add: list_all_length month_days_def)
  qed
  then show "1 \<le> tm_mday (gmtime t)" "tm_mday (gmtime t) \<le> 31" using ms g by simp_all
  have hms: "(s div 3600 * 60 + s div 60 mod 60) * 60 + s mod 60 = s"
    using zdiv_zmult2_eq [of 60 s 60] by simp
  have "((d * 24 + s div 3600) * 60 + s div 60 mod 60) * 60 + s mod 60 = d * 86400 + s" using hms by (simp add: algebra_simps)
  also have "\<dots> = t" by (simp add: d_def s_def)
  finally show "timegm (gmtime t) = t" using ms(1,2) ys(1) by (simp add: timegm_def g Let_def)
  show "0 \<le> tm_sec (gmtime t)" "tm_sec (gmtime t) < 60" "0 \<le> tm_min (gmtime t)" "tm_min (gmtime t) < 60"
    "0 \<le> tm_hour (gmtime t)" "tm_hour (gmtime t) < 24" "0 \<le> tm_mon (gmtime t)" "tm_mon (gmtime t) < 12" "70 \<le> tm_year (gmtime t)"
    using g s ms ys by (simp_all add: pos_imp_zdiv_nonneg_iff)
  show "tm_year (gmtime t) < 8100" if "t < 253402300800"
  proof (rule ccontr)
    assume "\<not> tm_year (gmtime t) < 8100"
    then have "days_before_year 10000 \<le> days_before_year y" by (intro year_mono) (simp add: g)
    moreover have "d < 2932897" using that by (simp add: d_def)
    ultimately show False using ys by (simp add: days_before_year_def)
  qed
qed

section \<open>Times and broken-down times\<close>

lemma small_word [simp]: "0 \<le> i \<Longrightarrow> i < 2 ^ 31 \<Longrightarrow> sint (word_of_int i :: u32) = i"
  by (simp add: signed_of_int signed_take_bit_int_eq_self)

lemma stime_back:
  assumes "0 \<le> tm_sec t" "tm_sec t < 60" "0 \<le> tm_min t" "tm_min t < 60" "0 \<le> tm_hour t" "tm_hour t < 24" "1 \<le> tm_mday t" "tm_mday t \<le> 31"
    "0 \<le> tm_mon t" "tm_mon t < 12" "70 \<le> tm_year t" "tm_year t < 8100"
  shows "tm_of (stime_of t n) = t\<lparr>tm_wday := 0\<rparr>"
proof -
  have "word_of_int (tm_mon t + 1) - 1 = (word_of_int (tm_mon t) :: u32)" by (simp add: of_int_add)
  moreover have "word_of_int (1900 + tm_year t) - 1900 = (word_of_int (tm_year t) :: u32)" by (simp add: of_int_add)
  moreover have "(1900 + tm_year t) mod 2 ^ 16 = 1900 + tm_year t" using assms by simp
  ultimately show ?thesis using assms by (simp add: tm_of_def stime_of_def)
qed

lemma timegm_wday: "timegm (t\<lparr>tm_wday := 0\<rparr>) = timegm t"
  by (simp add: timegm_def)

lemma broken_down_back:
  assumes "0 < nTime" and "nTime < 253402300800000"
  shows "getGmtTimeByTM (getGmtTimeTM now nTime) = nTime"
proof -
  have t: "0 \<le> nTime div 1000" "nTime div 1000 < 253402300800" using assms by simp_all
  note f = gmtime_fields [OF t(1)]
  have "uint (nMSec (stime_of (gmtime (nTime div 1000)) nTime)) = nTime mod 1000"
    by (simp add: stime_of_def uint_word_of_int)
  then show ?thesis using assms stime_back [OF f(2-12) f(13) [OF t(2)]] f(1) timegm_wday [of "gmtime (nTime div 1000)"]
    by (simp add: getGmtTimeByTM_def getGmtTimeTM_def)
qed

section \<open>Times and text\<close>

lemma padded_digits:
  assumes "0 \<le> i" and "0 < w"
  shows "padded w i \<noteq> []" "\<forall>c \<in> set (padded w i). is_digit c" "digits_value (padded w i) = nat i"
proof -
  let ?s = "show_nat (nat i)"
  have p: "padded w i = replicate (w - length ?s) CHR ''0'' @ ?s" using assms by (simp add: padded_def Let_def)
  have z: "foldl (\<lambda>n c. n * 10 + (of_char c - 48)) (0 :: nat) (replicate k CHR ''0'') = 0" for k by (induction k) auto
  show "padded w i \<noteq> []" by (simp add: p)
  show "\<forall>c \<in> set (padded w i). is_digit c" using show_nat_digits by (auto simp: p is_digit_def)
  show "digits_value (padded w i) = nat i"
    using digits_value_show [of "nat i"] by (simp add: p digits_value_def z)
qed

lemma scan_padded:
  assumes "0 \<le> i" and "0 < w" and "case s of [] \<Rightarrow> True | c # _ \<Rightarrow> \<not> is_digit c"
  shows "scan_int (padded w i @ s) = Some (i, s)"
proof -
  note p = padded_digits [OF assms(1,2)]
  obtain c r where c: "padded w i = c # r" using p(1) by (cases "padded w i") auto
  then have "is_digit c" using p(2) by simp
  then have a: "dropWhile is_space (padded w i @ s) = padded w i @ s" "read_sign (padded w i @ s) = (False, padded w i @ s)"
    by (simp_all add: c digit_not_space read_sign_def)
  have b: "takeWhile is_digit (padded w i @ s) = padded w i" "dropWhile is_digit (padded w i @ s) = s"
    using p(2) assms(3) by (simp_all add: takeWhile_append2 dropWhile_append2 split: list.splits)
  show ?thesis using a b p(1,3) assms(1) by (simp add: scan_int_def)
qed

lemma separators_digits: "\<forall>c \<in> set s. is_digit c \<Longrightarrow> separators s = []"
  by (auto simp: separators_def filter_empty_conv is_digit_def)

lemma separators_Cons: "separators [] = []" "separators (c # s) = (if c = CHR ''-'' \<or> c = CHR '':'' \<or> c = CHR '' '' then c # separators s else separators s)"
  by (simp_all add: separators_def)

lemma separators_append: "separators (s @ t) = separators s @ separators t"
  by (simp add: separators_def)

lemma text_fields:
  assumes "0 \<le> tm_year t + 1900" "0 \<le> tm_mon t + 1" "0 \<le> tm_mday t" "0 \<le> tm_hour t" "0 \<le> tm_min t" "0 \<le> tm_sec t"
  shows "scan_fields ''-- ::'' (tm_text t) = [tm_year t + 1900, tm_mon t + 1, tm_mday t, tm_hour t, tm_min t, tm_sec t]"
    and "separators (tm_text t) = ''-- ::''" and "list_all (\<lambda>c. is_digit c \<or> c \<in> set ''-: '') (tm_text t)"
    and "dropWhile is_space (tm_text t) \<noteq> []"
proof -
  have nd: "\<not> is_digit CHR ''-''" "\<not> is_digit CHR '' ''" "\<not> is_digit CHR '':''" "is_space CHR '' ''" by (simp_all add: is_digit_def is_space_def)
  have sp: "dropWhile is_space (padded 2 (tm_hour t) @ x) = padded 2 (tm_hour t) @ x" for x
    using padded_digits [OF assms(4), of 2] by (cases "padded 2 (tm_hour t)") (auto simp: digit_not_space)
  have last: "scan_int (padded 2 (tm_sec t)) = Some (tm_sec t, [])" using scan_padded [OF assms(6), of 2 "[]"] by simp
  show "scan_fields ''-- ::'' (tm_text t) = [tm_year t + 1900, tm_mon t + 1, tm_mday t, tm_hour t, tm_min t, tm_sec t]"
    using assms nd sp last by (simp add: tm_text_def scan_fields.simps scan_padded)
  have d: "\<forall>c \<in> set (padded w i). is_digit c" if "0 \<le> i" "0 < w" for w i using padded_digits(2) [OF that] .
  have sep: "separators (padded w i) = []" if "0 \<le> i" "0 < w" for w i using d [OF that] by (rule separators_digits)
  show "separators (tm_text t) = ''-- ::''"
    using assms sep by (simp add: tm_text_def separators_append separators_Cons)
  show "list_all (\<lambda>c. is_digit c \<or> c \<in> set ''-: '') (tm_text t)"
  proof -
    have "list_all (\<lambda>c. is_digit c \<or> c \<in> set ''-: '') (padded w i)" if "0 \<le> i" "0 < w" for w i
      unfolding list_all_iff using d [OF that] by blast
    then show ?thesis using assms by (simp add: tm_text_def)
  qed
  show "dropWhile is_space (tm_text t) \<noteq> []"
    by (auto simp: tm_text_def dropWhile_eq_Nil_conv is_space_def intro!: bexI [of _ "CHR ''-''"])
qed

lemma text_length:
  assumes "0 \<le> i" and "i < 10 ^ w" and "0 < w"
  shows "length (padded w i) = w"
proof -
  have "length (show_nat n) \<le> w" if "n < 10 ^ w" "0 < w" for n w
    using that
  proof (induction n arbitrary: w rule: show_nat.induct)
    case (1 n)
    show ?case
    proof (cases "n < 10")
      case True then show ?thesis using 1(3) by (subst show_nat.simps) simp
    next
      case False
      obtain v where w: "w = Suc v" using 1(3) by (cases w) auto
      then have v: "0 < v" using 1(2) False by (cases v) auto
      moreover have "n div 10 < 10 ^ v" using 1(2) w by (simp add: less_mult_imp_div_less mult.commute)
      ultimately have "length (show_nat (n div 10)) \<le> v" using 1(1) False by blast
      then show ?thesis using False w by (subst show_nat.simps) simp
    qed
  qed
  moreover have "nat i < 10 ^ w" using assms(1,2) by (metis nat_less_iff of_nat_numeral of_nat_power)
  ultimately show ?thesis using assms by (simp add: padded_def Let_def)
qed

lemma text_back:
  assumes "0 < nTime" and "nTime < 253402300800000" and "20 \<le> nBufSize"
  shows "getGmtTimeByBuf (fst (formatGmtTime nBufSize now nTime)) = nTime - nTime mod 1000" and "snd (formatGmtTime nBufSize now nTime) = 19"
proof -
  let ?t = "nTime div 1000"
  have t: "0 \<le> ?t" "?t < 253402300800" using assms by simp_all
  note f = gmtime_fields [OF t(1)]
  have y: "tm_year (gmtime ?t) + 1900 < 10000" using f(13) [OF t(2)] by simp
  note r = f(2-12) y
  have len: "length (tm_text (gmtime ?t)) = 19" using r by (simp add: tm_text_def text_length)
  have pos: "0 \<le> tm_year (gmtime ?t) + 1900" "0 \<le> tm_mon (gmtime ?t) + 1" "0 \<le> tm_mday (gmtime ?t)" using r by simp_all
  note fields = text_fields [OF pos f(6,4,2)]
  have form: "formatGmtTime nBufSize now nTime = (tm_text (gmtime ?t), 19)"
    using assms len by (simp add: formatGmtTime_def print_to_def)
  have "getTMByBuf (tm_text (gmtime ?t)) = Some ((stime_of (gmtime ?t) 0)\<lparr>nWDay := 0\<rparr>)"
    using fields r by (simp add: getTMByBuf_def field_at_def stime_of_def Let_def add.commute)
  moreover have "tm_of (s\<lparr>nWDay := 0\<rparr>) = tm_of s" for s by (simp add: tm_of_def)
  ultimately have "getGmtTimeByBuf (tm_text (gmtime ?t)) = ?t * 1000"
    using stime_back [OF f(2-12) f(13) [OF t(2)], of 0] f(1) timegm_wday [of "gmtime ?t"]
    by (simp add: getGmtTimeByBuf_def getGmtTimeByTM_def) (simp add: stime_of_def)
  then show "getGmtTimeByBuf (fst (formatGmtTime nBufSize now nTime)) = nTime - nTime mod 1000"
    using form by (simp add: minus_mod_eq_div_mult)
  show "snd (formatGmtTime nBufSize now nTime) = 19" using form by simp
qed

text \<open>
  Up to the year 9999 a time breaks down and is composed again to the millisecond, and its text, in any buffer that holds
  it with its end, is read back to the second.
\<close>

lemma times_read_back:
  assumes "0 < nTime" and "nTime < 253402300800000"
  shows "getGmtTimeByTM (getGmtTimeTM now nTime) = nTime \<and> (20 \<le> nBufSize \<longrightarrow>
    getGmtTimeByBuf (fst (formatGmtTime nBufSize now nTime)) = nTime - nTime mod 1000 \<and> snd (formatGmtTime nBufSize now nTime) = 19)"
  using assms broken_down_back text_back by blast

section \<open>The clock\<close>

lemma clock_set: "getGmtTime (setGmtTime nTime pass) pass' = nTime + (pass' div 1000 - pass div 1000)"
  by (simp add: getGmtTime_def setGmtTime_def)

lemma local_gmt_local: "gmt2LocalTime zone (local2GmtTime zone nTime) = nTime"
  by (simp add: gmt2LocalTime_def local2GmtTime_def)

text \<open>A text of separators alone is taken for a time, the last of November of the year -1.\<close>

lemma separators_alone: "getGmtTimeByBuf ''-- ::'' = -62169984000000"
proof -
  have "scan_fields ''-- ::'' ''-- ::'' = []"
    by (simp add: scan_fields.simps scan_int_def is_space_def is_digit_def read_sign_def)
  then show ?thesis
    by (simp add: getGmtTimeByBuf_def getTMByBuf_def separators_Cons is_space_def field_at_def getGmtTimeByTM_def tm_of_def timegm_def
        days_before_year_def days_before_month_def month_days_def leap_year_def Let_def)
qed

text \<open>The first of January 1970 cannot be broken down: the time 0 stands for now.\<close>

lemma epoch_is_now: "getGmtTimeTM now 0 = getGmtTimeTM now now"
  by (simp add: getGmtTimeTM_def)

end
