(* ===== verification/Conn_Bridge.thy ===== *)
theory Conn_Bridge imports Core_Connection Ordered_Map begin

text \<open>
  The connections between the network thread and the services (\<open>libCoreCommon\<close>): the network thread owns
  the core connections (\<open>core_connection_mgr.cpp\<close>, \<open>net_runnable.cpp\<close>), each service the base
  connections made for them (\<open>base_connection.cpp\<close>, \<open>base_connection_mgr.cpp\<close>,
  \<open>base_connection_mgr_impl.cpp\<close>, the socket part of \<open>logic_runnable.cpp\<close>), and the two sides only talk
  through their message queues.

  A pointer to a core connection is its id, and \<open>None\<close> as a result stands for the use of one that is
  destroyed.  The ids count up from 1; that \<open>2 ^ 64\<close> of them are used up is not considered.  Core
  connections show here only what the two sides exchange; what they do with bytes is in
  \<open>Core_Connection\<close>.  Names of types and contexts are byte strings.
\<close>

section \<open>State\<close>

datatype logic_cmd =
    Notify_connect nat
  | Notify_disconnect nat
  | Notify_connect_fail bstr
  | Notify_listen_fail bstr
  | Recv_socket_data nat u8 "u8 list"

text \<open>
  The data of a broadcast is the buffer as it is sent; that of the two sends is the part behind their
  header, whose size is 16 bytes for both on a 64-bit machine.
\<close>

datatype net_cmd =
    Request_listen nat bstr bstr bstr u32 u32   \<comment> \<open>service, address, type, context, buffer sizes\<close>
  | Request_connect nat bstr bstr bstr u32 u32
  | Request_shutdown nat bool
  | Connect_ack nat bool
  | Disconnect_ack nat
  | Send_data1 nat u8 "u8 list"
  | Send_data2 nat u8 "u8 list"
  | Broadcast_data1 "u8 list"
  | Broadcast_data2 "u8 list"

record core_link =
  cl_type :: bstr
  cl_context :: bstr
  cl_service :: nat
  cl_state :: cc_state
  cl_live :: bool                         \<comment> \<open>\<open>m_pNetConnecter\<close> is not null\<close>
  cl_sent :: "(u8 \<times> u8 list) list"        \<comment> \<open>what was given to the connecter, not in the code\<close>
  cl_shut :: "bool list"                  \<comment> \<open>the shutdowns asked of the connecter, not in the code\<close>

datatype conn_call = On_connect nat | On_disconnect nat | On_dispatch nat u8 "u8 list"
  | Connect_callback bstr nat | Disconnect_callback bstr nat | Fail_callback bstr bstr | Do_quit

record base_mgr =
  m_mapBaseConnectionByID :: "(nat, bool) omap"        \<comment> \<open>\<open>m_bClosing\<close> of each\<close>
  m_mapBaseConnectionByType :: "(bstr, nat list) omap"
  m_mapBaseConnectionFactory :: "(bstr, bool) omap"    \<comment> \<open>whether the factory creates a connection\<close>
  m_mapConnectCalback :: "bstr list"
  m_mapDisconnectCallback :: "bstr list"
  m_mapConnectFailCallback :: "bstr list"
  calls :: "conn_call list"                            \<comment> \<open>not in the code\<close>

definition new_base_mgr :: base_mgr where
  "new_base_mgr = \<lparr>m_mapBaseConnectionByID = [], m_mapBaseConnectionByType = [], m_mapBaseConnectionFactory = [],
     m_mapConnectCalback = [], m_mapDisconnectCallback = [], m_mapConnectFailCallback = [], calls = []\<rparr>"

record bridge =
  m_nNextCoreConnectionID :: nat
  m_mapCoreConnectionByID :: "(nat, core_link) omap"
  m_mapCoreConnectionByTypeID :: "(bstr, nat list) omap"
  active_waits :: "(nat \<times> bstr \<times> bstr) list"    \<comment> \<open>service, type, context\<close>
  accepters :: "(nat \<times> bstr \<times> bstr) list"
  netq :: "net_cmd list"
  logicq :: "nat \<Rightarrow> logic_cmd list"
  mgrs :: "nat \<Rightarrow> base_mgr"

definition new_bridge :: bridge where
  "new_bridge = \<lparr>m_nNextCoreConnectionID = 1, m_mapCoreConnectionByID = [], m_mapCoreConnectionByTypeID = [],
     active_waits = [], accepters = [], netq = [], logicq = (\<lambda>_. []), mgrs = (\<lambda>_. new_base_mgr)\<rparr>"

definition to_logic :: "nat \<Rightarrow> logic_cmd \<Rightarrow> bridge \<Rightarrow> bridge" where
  "to_logic svc x b = b\<lparr>logicq := (logicq b)(svc := logicq b svc @ [x])\<rparr>"

definition to_net :: "net_cmd \<Rightarrow> bridge \<Rightarrow> bridge" where
  "to_net x b = b\<lparr>netq := netq b @ [x]\<rparr>"

definition on_mgr :: "nat \<Rightarrow> (base_mgr \<Rightarrow> base_mgr) \<Rightarrow> bridge \<Rightarrow> bridge" where
  "on_mgr svc f b = b\<lparr>mgrs := (mgrs b)(svc := f (mgrs b svc))\<rparr>"

abbreviation link :: "bridge \<Rightarrow> nat \<Rightarrow> core_link option" where
  "link b \<equiv> om_get (m_mapCoreConnectionByID b)"

definition set_link :: "nat \<Rightarrow> (core_link \<Rightarrow> core_link) \<Rightarrow> bridge \<Rightarrow> bridge" where
  "set_link k f b = (case link b k of None \<Rightarrow> b
     | Some c \<Rightarrow> b\<lparr>m_mapCoreConnectionByID := om_put k (f c) (m_mapCoreConnectionByID b)\<rparr>)"

section \<open>The network thread\<close>

definition createCoreConnection :: "nat \<Rightarrow> bstr \<Rightarrow> bstr \<Rightarrow> bridge \<Rightarrow> nat \<times> bridge" where
  "createCoreConnection svc ty cx b = (let k = m_nNextCoreConnectionID b in
     (k, b\<lparr>m_nNextCoreConnectionID := k + 1,
           m_mapCoreConnectionByID := om_put k \<lparr>cl_type = ty, cl_context = cx, cl_service = svc, cl_state = CCS_None,
             cl_live = True, cl_sent = [], cl_shut = []\<rparr> (m_mapCoreConnectionByID b),
           m_mapCoreConnectionByTypeID := om_put ty (om_at [] (m_mapCoreConnectionByTypeID b) ty @ [k]) (m_mapCoreConnectionByTypeID b)\<rparr>))"

definition destroyCoreConnection :: "nat \<Rightarrow> bridge \<Rightarrow> bridge" where
  "destroyCoreConnection k b = (case link b k of None \<Rightarrow> b
     | Some c \<Rightarrow> b\<lparr>m_mapCoreConnectionByID := om_del k (m_mapCoreConnectionByID b),
         m_mapCoreConnectionByTypeID := (case om_get (m_mapCoreConnectionByTypeID b) (cl_type c) of
              None \<Rightarrow> m_mapCoreConnectionByTypeID b
            | Some ks \<Rightarrow> om_put (cl_type c) (filter (\<lambda>j. j \<noteq> k) ks) (m_mapCoreConnectionByTypeID b))\<rparr>)"

definition getCoreConnectionCount :: "bridge \<Rightarrow> bstr \<Rightarrow> nat" where
  "getCoreConnectionCount b ty = length (om_at [] (m_mapCoreConnectionByTypeID b) ty)"

text \<open>\<open>onConnect\<close>, \<open>onDisconnect\<close>, \<open>onConnectAck\<close>, \<open>send\<close> and \<open>shutdown\<close> of a core connection.\<close>

definition core_onConnect :: "nat \<Rightarrow> bridge \<Rightarrow> bridge" where
  "core_onConnect k b = (case link b k of None \<Rightarrow> b
     | Some c \<Rightarrow> set_link k (cl_state_update (\<lambda>_. CCS_Connectting)) (to_logic (cl_service c) (Notify_connect k) b))"

definition core_onDisconnect :: "nat \<Rightarrow> bridge \<Rightarrow> bridge" where
  "core_onDisconnect k b = (case link b k of None \<Rightarrow> b
     | Some c \<Rightarrow> set_link k (\<lambda>c. c\<lparr>cl_state := CCS_Disconnecting, cl_live := False\<rparr>) (to_logic (cl_service c) (Notify_disconnect k) b))"

definition core_shutdown :: "nat \<Rightarrow> bool \<Rightarrow> bridge \<Rightarrow> bridge" where
  "core_shutdown k force = set_link k (\<lambda>c. if cl_live c then c\<lparr>cl_shut := cl_shut c @ [force]\<rparr> else c)"

definition core_onConnectAck :: "nat \<Rightarrow> bridge \<Rightarrow> bridge" where
  "core_onConnectAck k b = (case link b k of None \<Rightarrow> b
     | Some c \<Rightarrow> if cl_state c \<noteq> CCS_Connectting then core_shutdown k True b else set_link k (cl_state_update (\<lambda>_. CCS_Connected)) b)"

definition core_send :: "nat \<Rightarrow> u8 \<Rightarrow> u8 list \<Rightarrow> bridge \<Rightarrow> bridge" where
  "core_send k ty d = set_link k (\<lambda>c. if d = [] \<or> \<not> cl_live c then c else c\<lparr>cl_sent := cl_sent c @ [(ty, d)]\<rparr>)"

text \<open>The layout of the two broadcasts: what the sender writes and what the network thread reads.\<close>

definition overlay :: "nat \<Rightarrow> u8 list \<Rightarrow> u8 list \<Rightarrow> u8 list" where
  "overlay off xs buf = take off buf @ xs @ drop (off + length xs) buf"

definition id_bytes :: "nat list \<Rightarrow> u8 list" where "id_bytes ids = concat (map (le_bytes 8) ids)"

definition read_ids :: "nat \<Rightarrow> nat \<Rightarrow> u8 list \<Rightarrow> nat list" where
  "read_ids off n raw = map (\<lambda>i. field (off + 8 * i) 8 raw) [0..<n]"

definition broadcast1_raw :: "nat list \<Rightarrow> u8 \<Rightarrow> u8 list \<Rightarrow> u8 list" where
  "broadcast1_raw ids ty d =
     overlay (4 + 8 * (length ids mod 65536)) d
       (overlay 4 (id_bytes ids)
         (overlay 2 (le_bytes 2 (length ids))
           (overlay 0 [ty] (replicate (4 + length d + 8 * length ids) 0))))"

definition broadcast2_raw :: "bstr \<Rightarrow> u8 \<Rightarrow> u8 list \<Rightarrow> nat list \<Rightarrow> u8 list" where
  "broadcast2_raw szType ty d excl =
     overlay (8 + length szType + 8 * (length excl mod 65536)) d
       (overlay (8 + length szType) (id_bytes excl)
         (overlay 2 (le_bytes 2 (length excl))
           (overlay 0 [ty]
             (overlay 6 (szType @ [0])
               (overlay 4 (le_bytes 2 (length szType))
                 (replicate (8 + length d + 8 * length excl + length szType) 0))))))"

definition broadcast_ids :: "nat list \<Rightarrow> u8 \<Rightarrow> u8 list \<Rightarrow> bridge \<Rightarrow> bridge" where
  "broadcast_ids ids ty d b = fold (\<lambda>k. core_send k ty d) ids b"

definition core_broadcast :: "bstr \<Rightarrow> u8 \<Rightarrow> u8 list \<Rightarrow> nat list \<Rightarrow> bridge \<Rightarrow> bridge" where
  "core_broadcast szType ty d excl b = (case om_get (m_mapCoreConnectionByTypeID b) szType of None \<Rightarrow> b
     | Some ks \<Rightarrow> broadcast_ids (filter (\<lambda>k. k \<notin> set excl) ks) ty d b)"

definition net_broadcast1 :: "u8 list \<Rightarrow> bridge \<Rightarrow> bridge" where
  "net_broadcast1 raw b = (let n = field 2 2 raw; off = 4 + 8 * n in
     broadcast_ids (read_ids 4 n raw) (raw ! 0) (take ((length raw - off) mod 65536) (drop off raw)) b)"

definition net_broadcast2 :: "u8 list \<Rightarrow> bridge \<Rightarrow> bridge" where
  "net_broadcast2 raw b = (let n = field 2 2 raw; nTypeLen = field 4 2 raw; off = 8 + 8 * n + nTypeLen in
     core_broadcast (cstr (drop 6 raw)) (raw ! 0) (take ((length raw - off) mod 65536) (drop off raw))
       (read_ids (8 + nTypeLen) n raw) b)"

text \<open>\<open>listen\<close> and \<open>connect\<close> of the connection manager; \<open>opened\<close>: whether the event loop could.\<close>

definition core_listen :: "bool \<Rightarrow> nat \<Rightarrow> bstr \<Rightarrow> bstr \<Rightarrow> bridge \<Rightarrow> bool \<times> bridge" where
  "core_listen opened svc ty cx b = (if \<not> opened then (False, b) else (True, b\<lparr>accepters := accepters b @ [(svc, ty, cx)]\<rparr>))"

definition core_connect :: "bool \<Rightarrow> nat \<Rightarrow> bstr \<Rightarrow> bstr \<Rightarrow> bridge \<Rightarrow> bool \<times> bridge" where
  "core_connect opened svc ty cx b = (if \<not> opened then (False, b) else (True, b\<lparr>active_waits := active_waits b @ [(svc, ty, cx)]\<rparr>))"

text \<open>
  One command of a batch.  \<open>opens\<close>: whether the event loop can listen or connect.  The result \<open>None\<close>
  is the use of a destroyed connection; the flag tells whether the loop over the batch goes on.
\<close>

definition net_command :: "(net_cmd \<Rightarrow> bool) \<Rightarrow> net_cmd \<Rightarrow> bridge \<Rightarrow> (bool \<times> bridge) option" where
  "net_command opens x b = (case x of
     Request_listen svc addr ty cx ns nr \<Rightarrow> Some (True,
       case core_listen (opens (Request_listen svc addr ty cx ns ns)) svc ty cx b of (True, b') \<Rightarrow> b'
       | (False, b') \<Rightarrow> to_logic svc (Notify_listen_fail cx) b')
   | Request_connect svc addr ty cx ns nr \<Rightarrow> Some (True,
       case core_connect (opens (Request_connect svc addr ty cx ns ns)) svc ty cx b of (True, b') \<Rightarrow> b'
       | (False, b') \<Rightarrow> to_logic svc (Notify_connect_fail cx) b')
   | Request_shutdown k force \<Rightarrow> Some (True, core_shutdown k force b)
   | Connect_ack k ok \<Rightarrow> (case link b k of None \<Rightarrow> None
       | Some c \<Rightarrow> Some (True, if ok then core_onConnectAck k b else core_shutdown k True b))
   | Disconnect_ack k \<Rightarrow> Some (True, destroyCoreConnection k b)
   | Send_data1 k ty d \<Rightarrow> (case link b k of None \<Rightarrow> None
       | Some c \<Rightarrow> Some (True, core_send k ty (take (length d mod 65536) d) b))
   | Send_data2 k ty d \<Rightarrow> (case link b k of None \<Rightarrow> Some (False, b)
       | Some c \<Rightarrow> Some (True, core_send k ty (take (length d mod 65536) d) b))
   | Broadcast_data1 raw \<Rightarrow> Some (True, net_broadcast1 raw b)
   | Broadcast_data2 raw \<Rightarrow> Some (True, net_broadcast2 raw b))"

fun net_loop :: "(net_cmd \<Rightarrow> bool) \<Rightarrow> net_cmd list \<Rightarrow> bridge \<Rightarrow> bridge option" where
  "net_loop opens [] b = Some b"
| "net_loop opens (x # xs) b = (case net_command opens x b of None \<Rightarrow> None
     | Some (True, b') \<Rightarrow> net_loop opens xs b'
     | Some (False, b') \<Rightarrow> Some b')"

text \<open>\<open>onProcess\<close>: the batch is everything that is queued.\<close>

definition net_onProcess :: "(net_cmd \<Rightarrow> bool) \<Rightarrow> bridge \<Rightarrow> bridge option" where
  "net_onProcess opens b = net_loop opens (netq b) (b\<lparr>netq := []\<rparr>)"

text \<open>The events of the event loop: a socket that was accepted, the outcomes of a connect, the end of a connection, a message.\<close>

definition net_accept :: "nat \<Rightarrow> bridge \<Rightarrow> bridge" where
  "net_accept i b = (if i < length (accepters b) then case accepters b ! i of (svc, ty, cx) \<Rightarrow> snd (createCoreConnection svc ty cx b)
     else b)"

definition net_connected :: "nat \<Rightarrow> bridge \<Rightarrow> bridge" where
  "net_connected i b = (if i < length (active_waits b)
     then case active_waits b ! i of (svc, ty, cx) \<Rightarrow> (case createCoreConnection svc ty cx b of (k, b') \<Rightarrow>
       core_onConnect k (b'\<lparr>active_waits := take i (active_waits b) @ drop (i + 1) (active_waits b)\<rparr>))
     else b)"

definition net_connect_failed :: "nat \<Rightarrow> bridge \<Rightarrow> bridge" where
  "net_connect_failed i b = (if i < length (active_waits b)
     then case active_waits b ! i of (svc, ty, cx) \<Rightarrow>
       to_logic svc (Notify_connect_fail cx) (b\<lparr>active_waits := take i (active_waits b) @ drop (i + 1) (active_waits b)\<rparr>)
     else b)"

section \<open>The services\<close>

definition addConnectCallback :: "bstr \<Rightarrow> base_mgr \<Rightarrow> base_mgr" where
  "addConnectCallback key m = m\<lparr>m_mapConnectCalback := insort_insert key (m_mapConnectCalback m)\<rparr>"
definition delConnectCallback :: "bstr \<Rightarrow> base_mgr \<Rightarrow> base_mgr" where
  "delConnectCallback key m = m\<lparr>m_mapConnectCalback := filter (\<lambda>x. x \<noteq> key) (m_mapConnectCalback m)\<rparr>"
definition addDisconnectCallback :: "bstr \<Rightarrow> base_mgr \<Rightarrow> base_mgr" where
  "addDisconnectCallback key m = m\<lparr>m_mapDisconnectCallback := insort_insert key (m_mapDisconnectCallback m)\<rparr>"
definition delDisconnectCallback :: "bstr \<Rightarrow> base_mgr \<Rightarrow> base_mgr" where
  "delDisconnectCallback key m = m\<lparr>m_mapDisconnectCallback := filter (\<lambda>x. x \<noteq> key) (m_mapDisconnectCallback m)\<rparr>"
definition addConnectFailCallback :: "bstr \<Rightarrow> base_mgr \<Rightarrow> base_mgr" where
  "addConnectFailCallback key m = m\<lparr>m_mapConnectFailCallback := insort_insert key (m_mapConnectFailCallback m)\<rparr>"
definition delConnectFailCallback :: "bstr \<Rightarrow> base_mgr \<Rightarrow> base_mgr" where
  "delConnectFailCallback key m = m\<lparr>m_mapConnectFailCallback := filter (\<lambda>x. x \<noteq> key) (m_mapConnectFailCallback m)\<rparr>"

definition setBaseConnectionFactory :: "bstr \<Rightarrow> bool option \<Rightarrow> base_mgr \<Rightarrow> base_mgr" where
  "setBaseConnectionFactory ty f m = (case f of
     None \<Rightarrow> m\<lparr>m_mapBaseConnectionFactory := om_del ty (m_mapBaseConnectionFactory m)\<rparr>
   | Some g \<Rightarrow> m\<lparr>m_mapBaseConnectionFactory := om_put ty g (m_mapBaseConnectionFactory m)\<rparr>)"

definition getBaseConnectionBySocketID :: "base_mgr \<Rightarrow> nat \<Rightarrow> bool option" where
  "getBaseConnectionBySocketID m k = om_get (m_mapBaseConnectionByID m) k"

definition getBaseConnectionCount :: "base_mgr \<Rightarrow> bstr \<Rightarrow> nat" where
  "getBaseConnectionCount m ty = length (om_at [] (m_mapBaseConnectionByType m) ty)"

text \<open>The connections an enumeration calls back for, in the order of their ids, until \<open>goon\<close> is false.\<close>

fun enum_until :: "(nat \<Rightarrow> bool) \<Rightarrow> nat list \<Rightarrow> nat list" where
  "enum_until goon [] = []"
| "enum_until goon (k # ks) = k # (if goon k then enum_until goon ks else [])"

definition enumBaseConnection :: "base_mgr \<Rightarrow> bstr \<Rightarrow> (nat \<Rightarrow> bool) \<Rightarrow> nat list" where
  "enumBaseConnection m ty goon = enum_until goon (om_at [] (m_mapBaseConnectionByType m) ty)"

definition call :: "conn_call list \<Rightarrow> base_mgr \<Rightarrow> base_mgr" where
  "call xs m = m\<lparr>calls := calls m @ xs\<rparr>"

text \<open>\<open>onConnect\<close>: the acknowledgment is sent before the connection is told, and on an error by the caller.\<close>

definition mgr_onConnect :: "nat \<Rightarrow> nat \<Rightarrow> bridge \<Rightarrow> bridge option" where
  "mgr_onConnect svc k b = (case link b k of None \<Rightarrow> None
     | Some c \<Rightarrow> Some (case om_get (m_mapBaseConnectionFactory (mgrs b svc)) (cl_type c) of
         Some True \<Rightarrow> to_net (Connect_ack k True) (on_mgr svc (\<lambda>m. call (On_connect k # map (\<lambda>cb. Connect_callback cb k) (m_mapConnectCalback m))
           (m\<lparr>m_mapBaseConnectionByID := om_put k False (m_mapBaseConnectionByID m),
             m_mapBaseConnectionByType := om_put (cl_type c) (insort_insert k (om_at [] (m_mapBaseConnectionByType m) (cl_type c)))
               (m_mapBaseConnectionByType m)\<rparr>)) b)
       | _ \<Rightarrow> to_net (Connect_ack k False) b))"

definition mgr_onDisconnect :: "nat \<Rightarrow> nat \<Rightarrow> bridge \<Rightarrow> bridge option" where
  "mgr_onDisconnect svc k b = (case om_get (m_mapBaseConnectionByID (mgrs b svc)) k of None \<Rightarrow> Some b
     | Some _ \<Rightarrow> (case link b k of None \<Rightarrow> None
         | Some c \<Rightarrow> Some (on_mgr svc (\<lambda>m. call (On_disconnect k # map (\<lambda>cb. Disconnect_callback cb k) (m_mapDisconnectCallback m))
             (m\<lparr>m_mapBaseConnectionByID := om_del k (m_mapBaseConnectionByID m),
               m_mapBaseConnectionByType := om_put (cl_type c) (filter (\<lambda>j. j \<noteq> k) (om_at [] (m_mapBaseConnectionByType m) (cl_type c)))
                 (m_mapBaseConnectionByType m)\<rparr>)) b)))"

definition mgr_onConnectFail :: "bstr \<Rightarrow> base_mgr \<Rightarrow> base_mgr" where
  "mgr_onConnectFail cx m = call (map (\<lambda>cb. Fail_callback cb cx) (m_mapConnectFailCallback m)) m"

text \<open>The packets of sockets in \<open>CLogicRunnable::dispatch\<close>.\<close>

definition logic_dispatch :: "nat \<Rightarrow> logic_cmd \<Rightarrow> bridge \<Rightarrow> bridge option" where
  "logic_dispatch svc x b = (case x of
     Notify_connect k \<Rightarrow> mgr_onConnect svc k b
   | Notify_disconnect k \<Rightarrow> map_option (to_net (Disconnect_ack k)) (mgr_onDisconnect svc k b)
   | Notify_connect_fail cx \<Rightarrow> Some (on_mgr svc (mgr_onConnectFail cx) b)
   | Notify_listen_fail cx \<Rightarrow> Some (on_mgr svc (call [Do_quit]) b)
   | Recv_socket_data k ty d \<Rightarrow> (case getBaseConnectionBySocketID (mgrs b svc) k of None \<Rightarrow> Some b
       | Some _ \<Rightarrow> Some (on_mgr svc (call [On_dispatch k ty d]) b)))"

text \<open>One packet of a service; the batch that \<open>onProcess\<close> takes is as many of these steps.\<close>

definition logic_onProcess :: "nat \<Rightarrow> bridge \<Rightarrow> bridge option" where
  "logic_onProcess svc b = (case logicq b svc of [] \<Rightarrow> Some b
     | x # xs \<Rightarrow> logic_dispatch svc x (b\<lparr>logicq := (logicq b)(svc := xs)\<rparr>))"

text \<open>What a service does with a base connection it has: \<open>send\<close>, with or without a second part, and \<open>shutdown\<close>.\<close>

definition base_send :: "nat \<Rightarrow> nat \<Rightarrow> u8 \<Rightarrow> u8 list \<Rightarrow> u8 list \<Rightarrow> bridge \<Rightarrow> bridge" where
  "base_send svc k ty d extra b = (case getBaseConnectionBySocketID (mgrs b svc) k of None \<Rightarrow> b
     | Some _ \<Rightarrow> to_net (Send_data1 k ty (d @ extra)) b)"

definition base_shutdown :: "nat \<Rightarrow> nat \<Rightarrow> bool \<Rightarrow> bridge \<Rightarrow> bridge option" where
  "base_shutdown svc k force b = (case getBaseConnectionBySocketID (mgrs b svc) k of None \<Rightarrow> Some b
     | Some closing \<Rightarrow> if closing then Some b
         else (case link b k of None \<Rightarrow> None
           | Some _ \<Rightarrow> Some (to_net (Request_shutdown k force)
               (on_mgr svc (\<lambda>m. m\<lparr>m_mapBaseConnectionByID := om_put k True (m_mapBaseConnectionByID m)\<rparr>) b))))"

text \<open>The requests that name sockets by id or by type.\<close>

definition mgr_connect :: "nat \<Rightarrow> bstr \<Rightarrow> bstr \<Rightarrow> bstr \<Rightarrow> u32 \<Rightarrow> u32 \<Rightarrow> bridge \<Rightarrow> bridge" where
  "mgr_connect svc addr ty cx ns nr = to_net (Request_connect svc addr ty cx ns nr)"
definition mgr_listen :: "nat \<Rightarrow> bstr \<Rightarrow> bstr \<Rightarrow> bstr \<Rightarrow> u32 \<Rightarrow> u32 \<Rightarrow> bridge \<Rightarrow> bridge" where
  "mgr_listen svc addr ty cx ns nr = to_net (Request_listen svc addr ty cx ns nr)"
definition mgr_send :: "nat \<Rightarrow> u8 \<Rightarrow> u8 list \<Rightarrow> u8 list \<Rightarrow> bridge \<Rightarrow> bridge" where
  "mgr_send k ty d extra = to_net (Send_data2 k ty (d @ extra))"
definition mgr_broadcast_type :: "bstr \<Rightarrow> u8 \<Rightarrow> u8 list \<Rightarrow> nat list option \<Rightarrow> bridge \<Rightarrow> bridge" where
  "mgr_broadcast_type szType ty d excl = to_net (Broadcast_data2 (broadcast2_raw szType ty d (case excl of None \<Rightarrow> [] | Some e \<Rightarrow> e)))"
definition mgr_broadcast_ids :: "nat list \<Rightarrow> u8 \<Rightarrow> u8 list \<Rightarrow> bridge \<Rightarrow> bridge" where
  "mgr_broadcast_ids ids ty d b = (if ids = [] then b else to_net (Broadcast_data1 (broadcast1_raw ids ty d)) b)"

section \<open>The two sides together\<close>

datatype bridge_event =
    Net_accept nat
  | Net_accepted_connects nat
  | Net_connected nat
  | Net_connect_failed nat
  | Net_disconnect nat
  | Net_recv nat u8 "u8 list"
  | Net_process
  | Logic_process nat
  | Do_send nat nat u8 "u8 list" "u8 list"
  | Do_shutdown nat nat bool
  | Do_request net_cmd
  | Do_mgr nat "base_mgr \<Rightarrow> base_mgr"

text \<open>
  A connecter tells its handler once that it is connected and, afterwards or not, once that it is not
  any more.  \<open>Do_request\<close> is a request that names no pointer, \<open>Do_mgr\<close> a change of factories or callbacks.
\<close>

definition by_id_request :: "net_cmd \<Rightarrow> bool" where
  "by_id_request x = (case x of Connect_ack _ _ \<Rightarrow> False | Disconnect_ack _ \<Rightarrow> False | Send_data1 _ _ _ \<Rightarrow> False | _ \<Rightarrow> True)"

definition if_link :: "nat \<Rightarrow> (core_link \<Rightarrow> bool) \<Rightarrow> (bridge \<Rightarrow> bridge) \<Rightarrow> bridge \<Rightarrow> bridge" where
  "if_link k P f b = (case link b k of None \<Rightarrow> b | Some c \<Rightarrow> if P c then f b else b)"

fun bridge_step :: "(net_cmd \<Rightarrow> bool) \<Rightarrow> bridge_event \<Rightarrow> bridge \<Rightarrow> bridge option" where
  "bridge_step opens (Net_accept i) b = Some (net_accept i b)"
| "bridge_step opens (Net_accepted_connects k) b = Some (if_link k (\<lambda>c. cl_live c \<and> cl_state c = CCS_None) (core_onConnect k) b)"
| "bridge_step opens (Net_connected i) b = Some (net_connected i b)"
| "bridge_step opens (Net_connect_failed i) b = Some (net_connect_failed i b)"
| "bridge_step opens (Net_disconnect k) b = Some (if_link k cl_live (core_onDisconnect k) b)"
| "bridge_step opens (Net_recv k ty d) b =
     Some (case link b k of None \<Rightarrow> b | Some c \<Rightarrow> if cl_live c \<and> cl_state c \<noteq> CCS_None then to_logic (cl_service c) (Recv_socket_data k ty d) b else b)"
| "bridge_step opens Net_process b = net_onProcess opens b"
| "bridge_step opens (Logic_process svc) b = logic_onProcess svc b"
| "bridge_step opens (Do_send svc k ty d extra) b = Some (base_send svc k ty d extra b)"
| "bridge_step opens (Do_shutdown svc k force) b = base_shutdown svc k force b"
| "bridge_step opens (Do_request x) b = Some (if by_id_request x then to_net x b else b)"
| "bridge_step opens (Do_mgr svc f) b = Some (on_mgr svc (\<lambda>m. (f m)\<lparr>m_mapBaseConnectionByID := m_mapBaseConnectionByID m,
     m_mapBaseConnectionByType := m_mapBaseConnectionByType m, calls := calls m\<rparr>) b)"

fun bridge_run :: "(net_cmd \<Rightarrow> bool) \<Rightarrow> bridge_event list \<Rightarrow> bridge \<Rightarrow> bridge option" where
  "bridge_run opens [] b = Some b"
| "bridge_run opens (e # es) b = Option.bind (bridge_step opens e b) (bridge_run opens es)"

end
