(* ===== verification/Conn_Bridge_Props.thy ===== *)
theory Conn_Bridge_Props imports Conn_Bridge begin

text \<open>
  What holds between the two sides: neither uses a connection that the other has destroyed, every
  connection that a service is told of it is told of once, and of its end once, and a broadcast reaches
  the connections it names; and the batch that is lost after a message for a closed socket.
\<close>

section \<open>What concerns one connection\<close>

fun about :: "nat \<Rightarrow> logic_cmd \<Rightarrow> bool" where
  "about k (Notify_connect j) = (j = k)"
| "about k (Notify_disconnect j) = (j = k)"
| "about k (Recv_socket_data j ty d) = (j = k)"
| "about k _ = False"

fun points :: "nat \<Rightarrow> net_cmd \<Rightarrow> bool" where
  "points k (Connect_ack j ok) = (j = k)"
| "points k (Disconnect_ack j) = (j = k)"
| "points k (Send_data1 j ty d) = (j = k)"
| "points k _ = False"

fun tells :: "nat \<Rightarrow> conn_call \<Rightarrow> bool" where
  "tells k (On_connect j) = (j = k)"
| "tells k (On_disconnect j) = (j = k)"
| "tells k _ = False"

definition evs :: "bridge \<Rightarrow> nat \<Rightarrow> nat \<Rightarrow> logic_cmd list" where "evs b k s = filter (about k) (logicq b s)"
definition told :: "bridge \<Rightarrow> nat \<Rightarrow> nat \<Rightarrow> conn_call list" where "told b k s = filter (tells k) (calls (mgrs b s))"
definition base :: "bridge \<Rightarrow> nat \<Rightarrow> nat \<Rightarrow> bool" where "base b k s \<longleftrightarrow> getBaseConnectionBySocketID (mgrs b s) k \<noteq> None"
definition lv :: "bridge \<Rightarrow> nat \<Rightarrow> (nat \<times> bool \<times> cc_state) option" where
  "lv b k = map_option (\<lambda>c. (cl_service c, cl_live c, cl_state c)) (link b k)"

text \<open>
  The packets of one connection on their way to its service (\<open>L\<close>) and to the network thread (\<open>N\<close>), whether
  the service has a base connection for it (\<open>B\<close>) and what it was told (\<open>T\<close>): the notifications are sent
  once and in order, and the acknowledgment of the end is the last packet there is.
\<close>

definition phase_ok :: "nat \<Rightarrow> bool \<Rightarrow> cc_state \<Rightarrow> logic_cmd list \<Rightarrow> net_cmd list \<Rightarrow> bool \<Rightarrow> conn_call list \<Rightarrow> bool" where
  "phase_ok k live st L N B T \<longleftrightarrow>
     (Disconnect_ack k \<in> set N \<longrightarrow> L = [] \<and> \<not> live \<and> \<not> B) \<and> Disconnect_ack k \<notin> set (butlast N) \<and>
     (Notify_connect k \<in> set L \<longrightarrow> \<not> B \<and> N = [] \<and> T = []) \<and> Notify_connect k \<notin> set (tl L) \<and>
     (Notify_disconnect k \<in> set L \<longrightarrow> \<not> live) \<and> Notify_disconnect k \<notin> set (butlast L) \<and>
     (st = CCS_None \<longrightarrow> L = [] \<and> N = [] \<and> \<not> B \<and> T = []) \<and>
     T \<in> {[], [On_connect k], [On_connect k, On_disconnect k]} \<and> (T = [On_connect k] \<longleftrightarrow> B)"

definition link_ok :: "net_cmd list \<Rightarrow> bridge \<Rightarrow> nat \<Rightarrow> bool" where
  "link_ok xs b k \<longleftrightarrow> (case lv b k of
     None \<Rightarrow> (\<forall>s. evs b k s = [] \<and> \<not> base b k s \<and> told b k s \<in> {[], [On_connect k, On_disconnect k]}) \<and> filter (points k) xs = [] \<and>
       (m_nNextCoreConnectionID b \<le> k \<longrightarrow> (\<forall>s. told b k s = []))
   | Some (svc, live, st) \<Rightarrow> k < m_nNextCoreConnectionID b \<and>
       (\<forall>s. s \<noteq> svc \<longrightarrow> evs b k s = [] \<and> \<not> base b k s \<and> told b k s = []) \<and>
       phase_ok k live st (evs b k svc) (filter (points k) xs) (base b k svc) (told b k svc))"

definition bridge_inv :: "net_cmd list \<Rightarrow> bridge \<Rightarrow> bool" where
  "bridge_inv xs b \<longleftrightarrow> om_ok (m_mapCoreConnectionByID b) \<and> (\<forall>s. om_ok (m_mapBaseConnectionByID (mgrs b s))) \<and> (\<forall>k. link_ok xs b k)"

lemma invD: "bridge_inv xs b \<Longrightarrow> om_ok (m_mapCoreConnectionByID b)" "bridge_inv xs b \<Longrightarrow> om_ok (m_mapBaseConnectionByID (mgrs b s))"
  "bridge_inv xs b \<Longrightarrow> link_ok xs b k"
  by (simp_all add: bridge_inv_def)

text \<open>A step that concerns the connection \<open>k\<close> only.\<close>

lemma inv_local:
  assumes inv: "bridge_inv xs b" and ok: "om_ok (m_mapCoreConnectionByID b')" "\<And>s. om_ok (m_mapBaseConnectionByID (mgrs b' s))"
    and next_id: "m_nNextCoreConnectionID b \<le> m_nNextCoreConnectionID b'"
    and same: "\<And>j. j \<noteq> k \<Longrightarrow> lv b' j = lv b j \<and> evs b' j = evs b j \<and> base b' j = base b j \<and> told b' j = told b j \<and>
      filter (points j) xs' = filter (points j) xs"
    and here: "link_ok xs' b' k"
  shows "bridge_inv xs' b'"
proof -
  have "link_ok xs' b' j" for j
  proof (cases "j = k")
    case False
    with same [of j] invD(3) [OF inv, of j] next_id show ?thesis by (auto simp: link_ok_def split: option.splits)
  qed (use here in simp)
  with ok show ?thesis by (simp add: bridge_inv_def)
qed

text \<open>A step that changes nothing the invariant speaks of.\<close>

definition quiet :: "bridge \<Rightarrow> bridge \<Rightarrow> bool" where
  "quiet b b' \<longleftrightarrow> lv b' = lv b \<and> logicq b' = logicq b \<and> mgrs b' = mgrs b \<and> netq b' = netq b \<and>
     m_nNextCoreConnectionID b' = m_nNextCoreConnectionID b \<and>
     (om_ok (m_mapCoreConnectionByID b) \<longrightarrow> om_ok (m_mapCoreConnectionByID b'))"

lemma quiet_refl [simp]: "quiet b b" by (simp add: quiet_def)
lemma quiet_trans: "quiet b b' \<Longrightarrow> quiet b' b'' \<Longrightarrow> quiet b b''" by (simp add: quiet_def)

lemma quiet_inv: "quiet b b' \<Longrightarrow> bridge_inv xs b \<Longrightarrow> bridge_inv xs b'"
proof -
  assume q: "quiet b b'" and inv: "bridge_inv xs b"
  have "evs b' = evs b" "told b' = told b" "base b' = base b"
    using q by (simp_all add: quiet_def evs_def told_def base_def fun_eq_iff)
  then have "link_ok xs b' = link_ok xs b" using q by (simp add: quiet_def link_ok_def fun_eq_iff split: option.split)
  with q inv show ?thesis by (simp add: quiet_def bridge_inv_def)
qed

lemma set_link_other [simp]:
  "logicq (set_link k f b) = logicq b" "mgrs (set_link k f b) = mgrs b" "netq (set_link k f b) = netq b"
  "m_nNextCoreConnectionID (set_link k f b) = m_nNextCoreConnectionID b"
  "m_mapCoreConnectionByTypeID (set_link k f b) = m_mapCoreConnectionByTypeID b"
  "om_ok (m_mapCoreConnectionByID b) \<Longrightarrow> om_ok (m_mapCoreConnectionByID (set_link k f b))"
  by (auto simp: set_link_def split: option.splits)

lemma link_set_link: "om_ok (m_mapCoreConnectionByID b) \<Longrightarrow> link (set_link k f b) = (link b)(k := map_option f (link b k))"
  by (auto simp: set_link_def fun_eq_iff split: option.splits)

lemma quiet_set_link:
  "om_ok (m_mapCoreConnectionByID b) \<Longrightarrow> (\<And>c. (cl_service (f c), cl_live (f c), cl_state (f c)) = (cl_service c, cl_live c, cl_state c)) \<Longrightarrow>
     quiet b (set_link k f b)"
  by (auto simp: quiet_def lv_def link_set_link fun_eq_iff option.map_comp comp_def)

lemma quiet_send: "om_ok (m_mapCoreConnectionByID b) \<Longrightarrow> quiet b (core_send k ty d b)"
  unfolding core_send_def by (rule quiet_set_link) auto

lemma quiet_shutdown: "om_ok (m_mapCoreConnectionByID b) \<Longrightarrow> quiet b (core_shutdown k force b)"
  unfolding core_shutdown_def by (rule quiet_set_link) auto

lemma quiet_ok: "quiet b b' \<Longrightarrow> om_ok (m_mapCoreConnectionByID b) \<Longrightarrow> om_ok (m_mapCoreConnectionByID b')"
  by (simp add: quiet_def)

lemma quiet_broadcast: "om_ok (m_mapCoreConnectionByID b) \<Longrightarrow> quiet b (broadcast_ids ids ty d b)"
proof (induction ids arbitrary: b)
  case (Cons k ids)
  have q: "quiet b (core_send k ty d b)" using Cons.prems by (rule quiet_send)
  from Cons.IH [OF quiet_ok [OF q Cons.prems]] have "quiet (core_send k ty d b) (broadcast_ids ids ty d (core_send k ty d b))" .
  with q show ?case by (auto simp: broadcast_ids_def intro: quiet_trans)
qed (simp add: broadcast_ids_def)

lemma quiet_broadcasts:
  "om_ok (m_mapCoreConnectionByID b) \<Longrightarrow> quiet b (net_broadcast1 raw b)" "om_ok (m_mapCoreConnectionByID b) \<Longrightarrow> quiet b (net_broadcast2 raw b)"
  by (simp_all add: net_broadcast1_def net_broadcast2_def core_broadcast_def Let_def quiet_broadcast split: option.splits)


section \<open>The steps of the network thread\<close>

text \<open>The views of the elementary changes.\<close>

lemma views_to_logic [simp]:
  "lv (to_logic s x b) = lv b" "base (to_logic s x b) = base b" "told (to_logic s x b) = told b" "mgrs (to_logic s x b) = mgrs b"
  "m_mapCoreConnectionByID (to_logic s x b) = m_mapCoreConnectionByID b" "netq (to_logic s x b) = netq b"
  "m_nNextCoreConnectionID (to_logic s x b) = m_nNextCoreConnectionID b"
  by (simp_all add: to_logic_def lv_def base_def told_def fun_eq_iff)

lemma evs_to_logic: "evs (to_logic s x b) k = (evs b k)(s := evs b k s @ (if about k x then [x] else []))"
  by (auto simp: to_logic_def evs_def fun_eq_iff)

lemma views_set_link [simp]:
  "base (set_link k f b) = base b" "told (set_link k f b) = told b" "evs (set_link k f b) = evs b"
  by (simp_all add: base_def told_def evs_def fun_eq_iff)

lemma lv_set_link:
  "om_ok (m_mapCoreConnectionByID b) \<Longrightarrow> link b k = Some c \<Longrightarrow>
     lv (set_link k f b) = (lv b)(k \<mapsto> (cl_service (f c), cl_live (f c), cl_state (f c)))"
  by (auto simp: lv_def link_set_link fun_eq_iff)

lemma lv_Some: "link b k = Some c \<Longrightarrow> lv b k = Some (cl_service c, cl_live c, cl_state c)"
  by (simp add: lv_def)

lemma lv_None: "lv b k = None \<longleftrightarrow> link b k = None"
  by (simp add: lv_def)

text \<open>A packet about a connection is queued last for its service.\<close>

lemma inv_notify:
  assumes inv: "bridge_inv xs b" and l: "link b k = Some c" and x: "about k x"
    and b': "om_ok (m_mapCoreConnectionByID b')" "mgrs b' = mgrs b" "m_nNextCoreConnectionID b' = m_nNextCoreConnectionID b"
      "lv b' = (lv b)(k \<mapsto> (cl_service c, live, st))" "logicq b' = logicq (to_logic (cl_service c) x b)"
    and ph: "\<And>L N B T. phase_ok k (cl_live c) (cl_state c) L N B T \<Longrightarrow> phase_ok k live st (L @ [x]) N B T"
  shows "bridge_inv xs b'"
proof -
  note m = invD [OF inv]
  have a: "\<not> about j x" if "j \<noteq> k" for j using x that by (cases x) auto
  have v: "base b' = base b" "told b' = told b" using b'(2) by (simp_all add: base_def told_def fun_eq_iff)
  have e: "evs b' j = (evs b j)(cl_service c := evs b j (cl_service c) @ (if about j x then [x] else []))" for j
    using b'(5) evs_to_logic [of "cl_service c" x b j] by (simp add: evs_def fun_eq_iff)
  show ?thesis
  proof (rule inv_local [OF inv, where k = k])
    show "link_ok xs b' k" using m(3) [of k] ph x l b' v e by (simp add: link_ok_def lv_Some)
  qed (use m a b' v e in auto)
qed

lemma inv_core_onConnect:
  "bridge_inv xs b \<Longrightarrow> link b k = Some c \<Longrightarrow> cl_live c \<Longrightarrow> cl_state c = CCS_None \<Longrightarrow> bridge_inv xs (core_onConnect k b)"
  unfolding core_onConnect_def
  by (simp, rule inv_notify) (auto simp: phase_ok_def invD lv_set_link)

lemma inv_core_onDisconnect:
  "bridge_inv xs b \<Longrightarrow> link b k = Some c \<Longrightarrow> cl_live c \<Longrightarrow> bridge_inv xs (core_onDisconnect k b)"
  unfolding core_onDisconnect_def
  by (simp, rule inv_notify) (auto simp: phase_ok_def invD lv_set_link tl_append split: list.splits)

lemma inv_recv:
  "bridge_inv xs b \<Longrightarrow> link b k = Some c \<Longrightarrow> cl_live c \<Longrightarrow> cl_state c \<noteq> CCS_None \<Longrightarrow>
     bridge_inv xs (to_logic (cl_service c) (Recv_socket_data k ty d) b)"
  by (rule inv_notify [where live = "cl_live c" and st = "cl_state c"])
    (auto simp: phase_ok_def invD lv_Some fun_eq_iff tl_append split: list.splits)

text \<open>Packets that concern no connection.\<close>

lemma inv_to_logic_other: "bridge_inv xs b \<Longrightarrow> (\<And>k. \<not> about k x) \<Longrightarrow> bridge_inv xs (to_logic s x b)"
proof -
  assume inv: "bridge_inv xs b" and x: "\<And>k. \<not> about k x"
  have "evs (to_logic s x b) = evs b" by (simp add: evs_to_logic fun_eq_iff x)
  then have "link_ok xs (to_logic s x b) = link_ok xs b" by (simp add: link_ok_def fun_eq_iff split: option.split)
  then show ?thesis using inv by (simp add: bridge_inv_def)
qed

lemma views_other_fields [simp]:
  "lv (b\<lparr>accepters := w\<rparr>) = lv b" "evs (b\<lparr>accepters := w\<rparr>) = evs b" "base (b\<lparr>accepters := w\<rparr>) = base b" "told (b\<lparr>accepters := w\<rparr>) = told b"
  "lv (b\<lparr>active_waits := w\<rparr>) = lv b" "evs (b\<lparr>active_waits := w\<rparr>) = evs b" "base (b\<lparr>active_waits := w\<rparr>) = base b" "told (b\<lparr>active_waits := w\<rparr>) = told b"
  "lv (b\<lparr>netq := q\<rparr>) = lv b" "evs (b\<lparr>netq := q\<rparr>) = evs b" "base (b\<lparr>netq := q\<rparr>) = base b" "told (b\<lparr>netq := q\<rparr>) = told b"
  by (simp_all add: lv_def evs_def base_def told_def fun_eq_iff)

lemma inv_other_fields:
  "bridge_inv xs (b\<lparr>accepters := w\<rparr>) = bridge_inv xs b" "bridge_inv xs (b\<lparr>active_waits := w'\<rparr>) = bridge_inv xs b"
  "bridge_inv xs (b\<lparr>netq := q\<rparr>) = bridge_inv xs b"
  by (simp_all add: bridge_inv_def link_ok_def split: option.split)

lemmas net_command_defs = net_command_def core_listen_def core_connect_def

lemma inv_create:
  assumes inv: "bridge_inv xs b" and c: "createCoreConnection svc ty cx b = (k, b')"
  shows "bridge_inv xs b' \<and> (\<exists>l. link b' k = Some l \<and> cl_live l \<and> cl_state l = CCS_None)"
proof -
  note m = invD [OF inv]
  have k: "k = m_nNextCoreConnectionID b" and no: "lv b k = None" using c m(3) [of k]
    by (auto simp: createCoreConnection_def Let_def link_ok_def split: option.splits)
  have b': "mgrs b' = mgrs b" "m_nNextCoreConnectionID b' = k + 1" "om_ok (m_mapCoreConnectionByID b')" "logicq b' = logicq b"
      "lv b' = (lv b)(k \<mapsto> (svc, True, CCS_None))" "\<exists>l. link b' k = Some l \<and> cl_live l \<and> cl_state l = CCS_None"
    using c m(1) by (auto simp: createCoreConnection_def Let_def lv_def fun_eq_iff)
  have v: "base b' = base b" "told b' = told b" "evs b' = evs b" using b' by (simp_all add: base_def told_def evs_def fun_eq_iff)
  have "bridge_inv xs b'"
  proof (rule inv_local [OF inv, where k = k])
    show "link_ok xs b' k" using m(3) [of k] no k b' v by (auto simp: link_ok_def phase_ok_def)
  qed (use m b' v k in auto)
  with b' show ?thesis by blast
qed

lemma inv_destroy:
  assumes inv: "bridge_inv (Disconnect_ack k # xs) b"
  shows "bridge_inv xs (destroyCoreConnection k b)"
proof (cases "link b k")
  case None
  then have "lv b k = None" by (simp add: lv_def)
  with invD(3) [OF inv, of k] show ?thesis by (simp add: link_ok_def)
next
  case (Some c)
  let ?b = "destroyCoreConnection k b"
  note m = invD [OF inv]
  have b': "mgrs ?b = mgrs b" "m_nNextCoreConnectionID ?b = m_nNextCoreConnectionID b" "om_ok (m_mapCoreConnectionByID ?b)"
      "logicq ?b = logicq b" "lv ?b = (lv b)(k := None)"
    using Some m(1) by (auto simp: destroyCoreConnection_def lv_def fun_eq_iff)
  have v: "base ?b = base b" "told ?b = told b" "evs ?b = evs b" using b' by (simp_all add: base_def told_def evs_def fun_eq_iff)
  show ?thesis
  proof (rule inv_local [OF inv, where k = k])
    have ph: "phase_ok k (cl_live c) (cl_state c) (evs b k (cl_service c)) (Disconnect_ack k # filter (points k) xs)
        (base b k (cl_service c)) (told b k (cl_service c))" "k < m_nNextCoreConnectionID b"
      "\<And>s. s \<noteq> cl_service c \<Longrightarrow> evs b k s = [] \<and> \<not> base b k s \<and> told b k s = []"
      using m(3) [of k] Some by (simp_all add: link_ok_def lv_Some)
    have "evs b k s = [] \<and> \<not> base b k s \<and> told b k s \<in> {[], [On_connect k, On_disconnect k]}" for s
      using ph by (cases "s = cl_service c") (auto simp: phase_ok_def)
    moreover have "filter (points k) xs = []" using ph(1) by (auto simp: phase_ok_def split: if_splits)
    ultimately show "link_ok xs ?b k" using ph(2) b' v by (simp add: link_ok_def)
  qed (use m b' v in auto)
qed

text \<open>A command that is taken off the batch and changes no view.\<close>

lemma phase_tl: "phase_ok k l st L (x # N) B T \<Longrightarrow> phase_ok k l st L N B T"
  by (auto simp: phase_ok_def split: if_splits)

lemma link_tl: "link_ok (x # xs) b k \<Longrightarrow> link_ok xs b k"
  by (cases "lv b k") (auto simp: link_ok_def intro: phase_tl split: if_splits)

lemma inv_tl: "bridge_inv (x # xs) b \<Longrightarrow> bridge_inv xs b"
  unfolding bridge_inv_def using link_tl by blast

lemma inv_ack:
  assumes inv: "bridge_inv (Connect_ack k ok # xs) b"
  shows "bridge_inv xs (core_onConnectAck k b)"
proof (cases "link b k")
  case None
  then show ?thesis using inv_tl [OF inv] by (simp add: core_onConnectAck_def)
next
  case (Some c)
  note m = invD [OF inv]
  have i: "bridge_inv xs b" by (rule inv_tl [OF inv])
  show ?thesis
  proof (cases "cl_state c = CCS_Connectting")
    case True
    let ?b = "set_link k (cl_state_update (\<lambda>_. CCS_Connected)) b"
    have "bridge_inv xs ?b"
    proof (rule inv_local [OF i, where k = k])
      show "link_ok xs ?b k" using invD(3) [OF i, of k] Some True m(1) by (auto simp: link_ok_def phase_ok_def lv_set_link lv_Some)
    qed (use m Some in \<open>auto simp: lv_set_link\<close>)
    then show ?thesis using Some True by (simp add: core_onConnectAck_def)
  next
    case False
    then show ?thesis using Some quiet_inv [OF quiet_shutdown [OF m(1)] i] by (simp add: core_onConnectAck_def)
  qed
qed

lemma pointed_exists: "bridge_inv (x # xs) b \<Longrightarrow> points k x \<Longrightarrow> \<exists>c. link b k = Some c"
proof -
  assume "bridge_inv (x # xs) b" "points k x"
  then have "lv b k \<noteq> None" using invD(3) [of "x # xs" b k] by (cases "lv b k") (auto simp: link_ok_def)
  then show ?thesis by (simp add: lv_def)
qed

lemma net_command_inv:
  assumes inv: "bridge_inv (x # xs) b"
  shows "\<exists>b'. (net_command opens x b = Some (True, b') \<or> net_command opens x b = Some (False, b')) \<and> bridge_inv xs b'"
proof -
  have i: "bridge_inv xs b" by (rule inv_tl [OF inv])
  note m = invD [OF i] and q = quiet_inv [OF _ i]
  show ?thesis
  proof (cases x)
    case (Connect_ack k ok)
    then obtain c where "link b k = Some c" using pointed_exists [OF inv, of k] by auto
    then show ?thesis using Connect_ack inv_ack [of k ok xs b] inv q [OF quiet_shutdown [OF m(1)]] by (simp add: net_command_def)
  next
    case (Disconnect_ack k)
    then show ?thesis using inv_destroy inv by (simp add: net_command_def)
  next
    case (Send_data1 k ty d)
    then obtain c where "link b k = Some c" using pointed_exists [OF inv, of k] by auto
    then show ?thesis using Send_data1 q [OF quiet_send [OF m(1)]] by (simp add: net_command_def)
  next
    case (Send_data2 k ty d)
    show ?thesis using Send_data2 i q [OF quiet_send [OF m(1)]] by (cases "link b k") (simp_all add: net_command_def)
  qed (use i q [OF quiet_shutdown [OF m(1)]] q [OF quiet_broadcasts(1) [OF m(1)]] q [OF quiet_broadcasts(2) [OF m(1)]] in
      \<open>simp_all add: net_command_defs inv_to_logic_other inv_other_fields\<close>)
qed


lemma net_loop_inv: "bridge_inv (xs @ ys) b \<Longrightarrow> \<exists>b'. net_loop opens xs b = Some b' \<and> bridge_inv ys b'"
proof (induction xs arbitrary: b)
  case (Cons x xs)
  have drop: "bridge_inv (zs @ ys) b' \<Longrightarrow> bridge_inv ys b'" for zs b'
    by (induction zs) (auto dest: inv_tl)
  from net_command_inv [of x "xs @ ys" b opens] Cons.prems obtain b'
    where b': "net_command opens x b = Some (True, b') \<or> net_command opens x b = Some (False, b')" "bridge_inv (xs @ ys) b'" by auto
  then show ?case using Cons.IH [of b'] drop [of xs b'] by auto
qed simp

lemma netq_kept:
  "netq (core_send k ty d b) = netq b" "netq (core_shutdown k f b) = netq b" "netq (core_onConnectAck k b) = netq b"
  "netq (destroyCoreConnection k b) = netq b"
  by (simp_all add: core_send_def core_shutdown_def core_onConnectAck_def destroyCoreConnection_def split: option.splits)

lemma netq_broadcast: "netq (broadcast_ids ids ty d b) = netq b"
proof -
  have "netq (fold (\<lambda>k. core_send k ty d) ids b) = netq b" by (induction ids arbitrary: b) (simp_all add: netq_kept)
  then show ?thesis by (simp add: broadcast_ids_def)
qed

lemma netq_command: "net_command opens x b = Some (go, b') \<Longrightarrow> netq b' = netq b"
  by (auto simp: net_command_defs netq_kept netq_broadcast net_broadcast1_def net_broadcast2_def core_broadcast_def Let_def
    split: net_cmd.splits option.splits if_splits)

lemma netq_loop: "net_loop opens xs b = Some b' \<Longrightarrow> netq b' = netq b"
  by (induction xs arbitrary: b) (auto dest!: netq_command split: option.splits bool.splits)

text \<open>The invariant with the queue as it stands.\<close>

definition queue_inv :: "bridge \<Rightarrow> bool" where "queue_inv b \<longleftrightarrow> bridge_inv (netq b) b"

lemma net_onProcess_inv: "queue_inv b \<Longrightarrow> \<exists>b'. net_onProcess opens b = Some b' \<and> queue_inv b'"
proof -
  assume "queue_inv b"
  then have "bridge_inv (netq b @ []) (b\<lparr>netq := []\<rparr>)" by (simp add: queue_inv_def inv_other_fields)
  from net_loop_inv [OF this] obtain b' where "net_loop opens (netq b) (b\<lparr>netq := []\<rparr>) = Some b'" "bridge_inv [] b'" by blast
  then show ?thesis using netq_loop by (fastforce simp: net_onProcess_def queue_inv_def)
qed

section \<open>The steps of a service\<close>

lemma views_on_mgr:
  "lv (on_mgr s f b) = lv b" "evs (on_mgr s f b) = evs b"
  "base (on_mgr s f b) k = (base b k)(s := (getBaseConnectionBySocketID (f (mgrs b s)) k \<noteq> None))"
  "told (on_mgr s f b) k = (told b k)(s := filter (tells k) (calls (f (mgrs b s))))"
  "m_mapCoreConnectionByID (on_mgr s f b) = m_mapCoreConnectionByID b" "m_nNextCoreConnectionID (on_mgr s f b) = m_nNextCoreConnectionID b"
  by (auto simp: on_mgr_def lv_def evs_def base_def told_def fun_eq_iff)

lemma views_to_net [simp]:
  "lv (to_net x b) = lv b" "evs (to_net x b) = evs b" "base (to_net x b) = base b" "told (to_net x b) = told b"
  "m_mapCoreConnectionByID (to_net x b) = m_mapCoreConnectionByID b" "m_nNextCoreConnectionID (to_net x b) = m_nNextCoreConnectionID b"
  "mgrs (to_net x b) = mgrs b"
  by (simp_all add: to_net_def lv_def evs_def base_def told_def fun_eq_iff)

text \<open>A request that names no pointer.\<close>

lemma inv_request: "bridge_inv xs b \<Longrightarrow> (\<And>k. \<not> points k x) \<Longrightarrow> bridge_inv (xs @ [x]) (to_net x b)"
proof -
  assume inv: "bridge_inv xs b" and x: "\<And>k. \<not> points k x"
  have "link_ok (xs @ [x]) (to_net x b) = link_ok xs b" by (simp add: link_ok_def fun_eq_iff x split: option.split)
  with inv show ?thesis by (simp add: bridge_inv_def)
qed

definition popped :: "nat \<Rightarrow> logic_cmd list \<Rightarrow> bridge \<Rightarrow> bridge" where
  "popped svc ys b = b\<lparr>logicq := (logicq b)(svc := ys)\<rparr>"

lemma views_popped [simp]:
  "lv (popped svc ys b) = lv b" "base (popped svc ys b) = base b" "told (popped svc ys b) = told b" "mgrs (popped svc ys b) = mgrs b"
  "m_mapCoreConnectionByID (popped svc ys b) = m_mapCoreConnectionByID b" "netq (popped svc ys b) = netq b"
  "m_nNextCoreConnectionID (popped svc ys b) = m_nNextCoreConnectionID b"
  by (simp_all add: popped_def lv_def base_def told_def fun_eq_iff)

lemma evs_popped:
  "logicq b svc = x # ys \<Longrightarrow> evs b k = (evs (popped svc ys b) k)(svc := (if about k x then [x] else []) @ evs (popped svc ys b) k svc)"
  by (auto simp: evs_def popped_def fun_eq_iff)

lemma about_same: "about k x \<Longrightarrow> about j x \<Longrightarrow> j = k"
  by (cases x) auto

text \<open>A packet about a connection is in the queue of its service only.\<close>

lemma queued_service:
  assumes "bridge_inv xs b" "logicq b svc = x # ys" "about k x"
  shows "\<exists>live st. lv b k = Some (svc, live, st) \<and> st \<noteq> CCS_None"
proof -
  have e: "evs b k svc \<noteq> []" using assms(2,3) by (simp add: evs_def)
  note l = invD(3) [OF assms(1), of k]
  then obtain svc' live st where v: "lv b k = Some (svc', live, st)" using e by (cases "lv b k") (auto simp: link_ok_def)
  with l e have "svc' = svc" by (auto simp: link_ok_def)
  with l e v show ?thesis by (auto simp: link_ok_def phase_ok_def)
qed

text \<open>A service takes the first packet and changes what concerns its connection.\<close>

lemma inv_dispatch:
  assumes inv: "bridge_inv xs b" and pop: "logicq b svc = x # ys" and x: "about k x"
    and b': "m_mapCoreConnectionByID b' = m_mapCoreConnectionByID b" "m_nNextCoreConnectionID b' = m_nNextCoreConnectionID b"
      "lv b' = lv b" "evs b' = evs (popped svc ys b)" "\<And>s. om_ok (m_mapBaseConnectionByID (mgrs b' s))"
      "base b' k = (base b k)(svc := B')" "told b' k = (told b k)(svc := T')" "filter (points k) xs' = N'"
    and others: "\<And>j. j \<noteq> k \<Longrightarrow> base b' j = base b j \<and> told b' j = told b j \<and> filter (points j) xs' = filter (points j) xs"
    and ph: "\<And>live st L. phase_ok k live st (x # L) (filter (points k) xs) (base b k svc) (told b k svc) \<Longrightarrow> phase_ok k live st L N' B' T'"
  shows "bridge_inv xs' b'"
proof -
  note m = invD [OF inv]
  obtain live st where l: "lv b k = Some (svc, live, st)" using queued_service [OF inv pop x] by blast
  have e: "evs b j = (evs (popped svc ys b) j)(svc := (if about j x then [x] else []) @ evs (popped svc ys b) j svc)" for j
    by (rule evs_popped [OF pop])
  have same: "evs (popped svc ys b) j = evs b j" if "j \<noteq> k" for j
    using e [of j] about_same [OF x, of j] that by auto
  show ?thesis
  proof (rule inv_local [OF inv, where k = k])
    have "phase_ok k live st (x # evs (popped svc ys b) k svc) (filter (points k) xs) (base b k svc) (told b k svc)"
      using m(3) [of k] l e [of k] x by (simp add: link_ok_def)
    then have "phase_ok k live st (evs (popped svc ys b) k svc) N' B' T'" by (rule ph)
    moreover have "evs b' k s = []" if "s \<noteq> svc" for s
      using m(3) [of k] l e [of k] that b'(4) by (simp add: link_ok_def)
    ultimately show "link_ok xs' b' k" using m(3) [of k] l b' by (simp add: link_ok_def)
  qed (use m b' others same in auto)
qed

lemma in_set_tlD: "x \<in> set (tl xs) \<Longrightarrow> x \<in> set xs"
  by (cases xs) auto

lemma phase_connect:
  "phase_ok k live st (Notify_connect k # L) N B T \<Longrightarrow> phase_ok k live st L (N @ [Connect_ack k True]) True (T @ [On_connect k])"
  "phase_ok k live st (Notify_connect k # L) N B T \<Longrightarrow> phase_ok k live st L (N @ [Connect_ack k False]) B T"
  by (auto simp: phase_ok_def split: if_splits dest: in_set_butlastD in_set_tlD)

lemma phase_disconnect:
  "phase_ok k live st (Notify_disconnect k # L) N True T \<Longrightarrow> phase_ok k live st L (N @ [Disconnect_ack k]) False (T @ [On_disconnect k])"
  "phase_ok k live st (Notify_disconnect k # L) N False T \<Longrightarrow> phase_ok k live st L (N @ [Disconnect_ack k]) False T"
  by (auto simp: phase_ok_def split: if_splits dest: in_set_butlastD in_set_tlD)

lemma phase_recv: "phase_ok k live st (Recv_socket_data k ty d # L) N B T \<Longrightarrow> phase_ok k live st L N B T"
  by (auto simp: phase_ok_def split: if_splits dest: in_set_butlastD in_set_tlD)

lemma no_callback_tells: "filter (tells k) (map (\<lambda>cb. Connect_callback cb j) cbs) = []" "filter (tells k) (map (\<lambda>cb. Disconnect_callback cb j) cbs) = []"
  "filter (tells k) (map (\<lambda>cb. Fail_callback cb cx) cbs) = []"
  by (simp_all add: filter_empty_conv)

lemma told_mgr: "told b k svc = filter (tells k) (calls (mgrs b svc))" by (simp add: told_def)

lemma mgrs_on_mgr: "mgrs (on_mgr s f b) = (mgrs b)(s := f (mgrs b s))" by (simp add: on_mgr_def)

lemma base_view: "base (on_mgr s f b) k t = (if t = s then om_get (m_mapBaseConnectionByID (f (mgrs b s))) k \<noteq> None else base b k t)"
  by (simp add: views_on_mgr getBaseConnectionBySocketID_def)

lemma told_view: "told (on_mgr s f b) k t = (if t = s then filter (tells k) (calls (f (mgrs b s))) else told b k t)"
  by (simp add: views_on_mgr)

lemma base_mgr_view: "(\<exists>y. om_get (m_mapBaseConnectionByID (mgrs b s)) k = Some y) = base b k s"
  by (simp add: base_def getBaseConnectionBySocketID_def)

lemmas mgr_views = mgrs_on_mgr views_on_mgr(1,2,5,6) call_def no_callback_tells base_mgr_view told_mgr [symmetric]

lemma notify_connect_inv:
  assumes inv: "bridge_inv xs b" and pop: "logicq b svc = Notify_connect k # ys"
  shows "\<exists>b' ok. mgr_onConnect svc k (popped svc ys b) = Some b' \<and> bridge_inv (xs @ [Connect_ack k ok]) b' \<and>
    netq b' = netq b @ [Connect_ack k ok]"
proof -
  note m = invD [OF inv]
  obtain c where c: "link b k = Some c" using queued_service [OF inv pop, of k] by (auto simp: lv_def)
  let ?p = "popped svc ys b"
  show ?thesis
  proof (cases "om_get (m_mapBaseConnectionFactory (mgrs b svc)) (cl_type c) = Some True")
    case True
    let ?f = "\<lambda>m. call (On_connect k # map (\<lambda>cb. Connect_callback cb k) (m_mapConnectCalback m))
           (m\<lparr>m_mapBaseConnectionByID := om_put k False (m_mapBaseConnectionByID m),
             m_mapBaseConnectionByType := om_put (cl_type c) (insort_insert k (om_at [] (m_mapBaseConnectionByType m) (cl_type c)))
               (m_mapBaseConnectionByType m)\<rparr>)"
    have "bridge_inv (xs @ [Connect_ack k True]) (to_net (Connect_ack k True) (on_mgr svc ?f ?p))"
      by (rule inv_dispatch [OF inv pop, where k = k and B' = True and T' = "told b k svc @ [On_connect k]"])
        (use m in \<open>auto simp: mgr_views base_view told_view fun_eq_iff intro: phase_connect\<close>)
    then show ?thesis using c True by (auto simp: mgr_onConnect_def to_net_def on_mgr_def)
  next
    case False
    have "bridge_inv (xs @ [Connect_ack k False]) (to_net (Connect_ack k False) ?p)"
      by (rule inv_dispatch [OF inv pop, where k = k and B' = "base b k svc" and T' = "told b k svc"])
        (use m in \<open>auto intro: phase_connect\<close>)
    moreover have "mgr_onConnect svc k ?p = Some (to_net (Connect_ack k False) ?p)"
      using c False by (auto simp: mgr_onConnect_def split: option.split bool.splits)
    ultimately show ?thesis by (auto simp: to_net_def)
  qed
qed

lemma notify_disconnect_inv:
  assumes inv: "bridge_inv xs b" and pop: "logicq b svc = Notify_disconnect k # ys"
  shows "\<exists>b'. mgr_onDisconnect svc k (popped svc ys b) = Some b' \<and> bridge_inv (xs @ [Disconnect_ack k]) (to_net (Disconnect_ack k) b') \<and>
    netq b' = netq b"
proof -
  note m = invD [OF inv]
  obtain c where c: "link b k = Some c" using queued_service [OF inv pop, of k] by (auto simp: lv_def)
  let ?p = "popped svc ys b"
  show ?thesis
  proof (cases "base b k svc")
    case True
    let ?f = "\<lambda>m. call (On_disconnect k # map (\<lambda>cb. Disconnect_callback cb k) (m_mapDisconnectCallback m))
             (m\<lparr>m_mapBaseConnectionByID := om_del k (m_mapBaseConnectionByID m),
               m_mapBaseConnectionByType := om_put (cl_type c) (filter (\<lambda>j. j \<noteq> k) (om_at [] (m_mapBaseConnectionByType m) (cl_type c)))
                 (m_mapBaseConnectionByType m)\<rparr>)"
    have "bridge_inv (xs @ [Disconnect_ack k]) (to_net (Disconnect_ack k) (on_mgr svc ?f ?p))"
      by (rule inv_dispatch [OF inv pop, where k = k and B' = False and T' = "told b k svc @ [On_disconnect k]"])
        (use m True in \<open>auto simp: mgr_views base_view told_view fun_eq_iff intro: phase_disconnect\<close>)
    moreover have "mgr_onDisconnect svc k ?p = Some (on_mgr svc ?f ?p)"
      using c True by (auto simp: mgr_onDisconnect_def base_def getBaseConnectionBySocketID_def)
    ultimately show ?thesis by (auto simp: on_mgr_def)
  next
    case False
    have "bridge_inv (xs @ [Disconnect_ack k]) (to_net (Disconnect_ack k) ?p)"
      by (rule inv_dispatch [OF inv pop, where k = k and B' = False and T' = "told b k svc"])
        (use m False in \<open>auto simp: fun_eq_iff intro: phase_disconnect\<close>)
    moreover have "mgr_onDisconnect svc k ?p = Some ?p"
      using False by (auto simp: mgr_onDisconnect_def base_def getBaseConnectionBySocketID_def)
    ultimately show ?thesis by auto
  qed
qed

text \<open>A change of a service that keeps its connections and tells of none.\<close>

lemma inv_on_mgr_kept:
  assumes inv: "bridge_inv xs b"
    and f: "om_ok (m_mapBaseConnectionByID (f (mgrs b s)))"
      "\<And>k. (om_get (m_mapBaseConnectionByID (f (mgrs b s))) k \<noteq> None) = (om_get (m_mapBaseConnectionByID (mgrs b s)) k \<noteq> None)"
      "\<And>k. filter (tells k) (calls (f (mgrs b s))) = filter (tells k) (calls (mgrs b s))"
  shows "bridge_inv xs (on_mgr s f b)"
proof -
  have "base (on_mgr s f b) = base b" "told (on_mgr s f b) = told b"
    using f by (simp_all add: fun_eq_iff base_view told_view base_mgr_view told_mgr [symmetric])
  then have "link_ok xs (on_mgr s f b) = link_ok xs b" by (simp add: link_ok_def fun_eq_iff views_on_mgr(1,2,6) split: option.split)
  with inv f(1) show ?thesis by (simp add: bridge_inv_def mgrs_on_mgr views_on_mgr(5))
qed

lemma inv_popped_other:
  assumes inv: "bridge_inv xs b" and pop: "logicq b svc = x # ys" and x: "\<And>k. \<not> about k x"
  shows "bridge_inv xs (popped svc ys b)"
proof -
  have "evs (popped svc ys b) = evs b" using evs_popped [OF pop] x by (simp add: fun_eq_iff)
  then have "link_ok xs (popped svc ys b) = link_ok xs b" by (simp add: link_ok_def fun_eq_iff split: option.split)
  with inv show ?thesis by (simp add: bridge_inv_def)
qed

lemma inv_popped_recv:
  "bridge_inv xs b \<Longrightarrow> logicq b svc = Recv_socket_data k ty d # ys \<Longrightarrow> bridge_inv xs (popped svc ys b)"
  by (rule inv_dispatch [where k = k and B' = "base b k svc" and T' = "told b k svc"])
    (auto simp: invD intro: phase_recv)

lemma netq_on_mgr [simp]: "netq (on_mgr s f b) = netq b"
  by (simp add: on_mgr_def)

lemma netq_to_net [simp]: "netq (to_net x b) = netq b @ [x]"
  by (simp add: to_net_def)

lemma logic_onProcess_inv: "queue_inv b \<Longrightarrow> \<exists>b'. logic_onProcess svc b = Some b' \<and> queue_inv b'"
proof (cases "logicq b svc")
  case (Cons x ys)
  assume "queue_inv b"
  then have inv: "bridge_inv (netq b) b" by (simp add: queue_inv_def)
  have eq: "logic_onProcess svc b = logic_dispatch svc x (popped svc ys b)" using Cons by (simp add: logic_onProcess_def popped_def)
  note m = invD [OF inv]
  show ?thesis
  proof (cases x)
    case (Notify_connect k)
    then show ?thesis using notify_connect_inv [OF inv, of svc k ys] Cons eq by (auto simp: logic_dispatch_def queue_inv_def)
  next
    case (Notify_disconnect k)
    then show ?thesis using notify_disconnect_inv [OF inv, of svc k ys] Cons eq by (auto simp: logic_dispatch_def queue_inv_def)
  next
    case (Notify_connect_fail cx)
    then have "bridge_inv (netq b) (popped svc ys b)" using inv_popped_other [OF inv Cons] by simp
    then have "bridge_inv (netq b) (on_mgr svc (mgr_onConnectFail cx) (popped svc ys b))"
      by (rule inv_on_mgr_kept) (use m in \<open>simp_all add: mgr_onConnectFail_def call_def no_callback_tells\<close>)
    then show ?thesis using Notify_connect_fail eq by (simp add: logic_dispatch_def queue_inv_def)
  next
    case (Notify_listen_fail cx)
    then have "bridge_inv (netq b) (popped svc ys b)" using inv_popped_other [OF inv Cons] by simp
    then have "bridge_inv (netq b) (on_mgr svc (call [Do_quit]) (popped svc ys b))"
      by (rule inv_on_mgr_kept) (use m in \<open>simp_all add: call_def\<close>)
    then show ?thesis using Notify_listen_fail eq by (simp add: logic_dispatch_def queue_inv_def)
  next
    case (Recv_socket_data k ty d)
    then have p: "bridge_inv (netq b) (popped svc ys b)" using inv_popped_recv [OF inv, of svc k ty d ys] Cons by simp
    then have "bridge_inv (netq b) (on_mgr svc (call [On_dispatch k ty d]) (popped svc ys b))"
      by (rule inv_on_mgr_kept) (use m in \<open>simp_all add: call_def\<close>)
    then show ?thesis using p Recv_socket_data eq by (cases "getBaseConnectionBySocketID (mgrs b svc) k") (simp_all add: logic_dispatch_def queue_inv_def)
  qed
qed (simp add: logic_onProcess_def)

text \<open>A base connection has its core connection, and its service can send to it.\<close>

lemma base_has_link:
  assumes "bridge_inv xs b" "getBaseConnectionBySocketID (mgrs b svc) k \<noteq> None"
  shows "\<exists>live st. lv b k = Some (svc, live, st) \<and> Disconnect_ack k \<notin> set xs \<and> st \<noteq> CCS_None"
proof -
  have bk: "base b k svc" using assms(2) by (simp add: base_def)
  note l = invD(3) [OF assms(1), of k]
  then obtain svc' live st where v: "lv b k = Some (svc', live, st)" using bk by (cases "lv b k") (auto simp: link_ok_def)
  with l bk have "svc' = svc" by (auto simp: link_ok_def)
  with l v bk show ?thesis by (auto simp: link_ok_def phase_ok_def)
qed

lemma base_send_inv: "queue_inv b \<Longrightarrow> queue_inv (base_send svc k ty d extra b)"
proof (cases "getBaseConnectionBySocketID (mgrs b svc) k")
  case (Some closing)
  assume "queue_inv b"
  then have inv: "bridge_inv (netq b) b" by (simp add: queue_inv_def)
  let ?x = "Send_data1 k ty (d @ extra)"
  obtain live st where v: "lv b k = Some (svc, live, st)" "Disconnect_ack k \<notin> set (netq b)" "st \<noteq> CCS_None"
    using base_has_link [OF inv, of svc k] Some by auto
  have bk: "base b k svc" using Some by (simp add: base_def)
  have "bridge_inv (netq b @ [?x]) (to_net ?x b)"
  proof (rule inv_local [OF inv, where k = k])
    show "link_ok (netq b @ [?x]) (to_net ?x b) k" using invD(3) [OF inv, of k] v bk
      by (auto simp: link_ok_def phase_ok_def dest: in_set_butlastD split: if_splits)
  qed (use invD [OF inv] in auto)
  then show ?thesis using Some by (simp add: base_send_def queue_inv_def)
qed (simp add: base_send_def)

lemma base_shutdown_inv: "queue_inv b \<Longrightarrow> \<exists>b'. base_shutdown svc k force b = Some b' \<and> queue_inv b'"
proof (cases "getBaseConnectionBySocketID (mgrs b svc) k")
  case (Some closing)
  assume "queue_inv b"
  then have inv: "bridge_inv (netq b) b" by (simp add: queue_inv_def)
  obtain c where c: "link b k = Some c" using base_has_link [OF inv, of svc k] Some by (auto simp: lv_def)
  let ?b = "on_mgr svc (\<lambda>m. m\<lparr>m_mapBaseConnectionByID := om_put k True (m_mapBaseConnectionByID m)\<rparr>) b"
  have "bridge_inv (netq b) ?b"
    by (rule inv_on_mgr_kept [OF inv]) (use invD [OF inv] Some in \<open>auto simp: getBaseConnectionBySocketID_def\<close>)
  then have "bridge_inv (netq b @ [Request_shutdown k force]) (to_net (Request_shutdown k force) ?b)"
    by (rule inv_request) simp
  then show ?thesis using Some c \<open>queue_inv b\<close> by (simp add: base_shutdown_def queue_inv_def)
qed (simp add: base_shutdown_def)

section \<open>Every step\<close>

lemma netq_net_steps:
  "netq (core_onConnect k b) = netq b" "netq (core_onDisconnect k b) = netq b" "createCoreConnection svc ty cx b = (k, b') \<Longrightarrow> netq b' = netq b"
  by (auto simp: core_onConnect_def core_onDisconnect_def createCoreConnection_def Let_def split: option.splits)

lemma if_link_inv:
  "queue_inv b \<Longrightarrow> (\<And>c. link b k = Some c \<Longrightarrow> P c \<Longrightarrow> queue_inv (f b)) \<Longrightarrow> queue_inv (if_link k P f b)"
  by (auto simp: if_link_def split: option.split)

lemma net_accept_inv: "queue_inv b \<Longrightarrow> queue_inv (net_accept i b)"
proof (cases "i < length (accepters b)")
  case True
  assume "queue_inv b"
  obtain svc ty cx where a: "accepters b ! i = (svc, ty, cx)" by (cases "accepters b ! i")
  obtain k b' where c: "createCoreConnection svc ty cx b = (k, b')" by (cases "createCoreConnection svc ty cx b")
  from inv_create [OF _ c, of "netq b"] \<open>queue_inv b\<close> have "queue_inv b'" using netq_net_steps(3) [OF c] by (simp add: queue_inv_def)
  then show ?thesis using True a c by (simp add: net_accept_def)
qed (simp add: net_accept_def)

lemma onConnect_inv: "queue_inv b \<Longrightarrow> link b k = Some c \<Longrightarrow> cl_live c \<Longrightarrow> cl_state c = CCS_None \<Longrightarrow> queue_inv (core_onConnect k b)"
  by (simp add: queue_inv_def netq_net_steps inv_core_onConnect)

lemma queue_inv_waits: "queue_inv (b\<lparr>active_waits := w\<rparr>) = queue_inv b"
  by (simp add: queue_inv_def inv_other_fields)

lemma net_connected_inv: "queue_inv b \<Longrightarrow> queue_inv (net_connected i b)"
proof (cases "i < length (active_waits b)")
  case True
  assume q: "queue_inv b"
  obtain svc ty cx where a: "active_waits b ! i = (svc, ty, cx)" by (cases "active_waits b ! i")
  obtain k b' where c: "createCoreConnection svc ty cx b = (k, b')" by (cases "createCoreConnection svc ty cx b")
  from inv_create [OF _ c, of "netq b"] q obtain l
    where l: "queue_inv b'" "link b' k = Some l" "cl_live l" "cl_state l = CCS_None" using netq_net_steps(3) [OF c] by (auto simp: queue_inv_def)
  have "queue_inv (core_onConnect k (b'\<lparr>active_waits := w\<rparr>))" for w
    by (rule onConnect_inv) (use l in \<open>simp_all add: queue_inv_waits\<close>)
  then show ?thesis using True a c by (simp add: net_connected_def)
qed (simp add: net_connected_def)

lemma net_connect_failed_inv: "queue_inv b \<Longrightarrow> queue_inv (net_connect_failed i b)"
proof (cases "i < length (active_waits b)")
  case True
  assume "queue_inv b"
  then have "queue_inv (to_logic s (Notify_connect_fail cx) (b\<lparr>active_waits := w\<rparr>))" for s cx w
    by (simp add: queue_inv_def inv_to_logic_other inv_other_fields)
  then show ?thesis using True by (simp add: net_connect_failed_def split: prod.split)
qed (simp add: net_connect_failed_def)

lemma bridge_step_inv: "queue_inv b \<Longrightarrow> \<exists>b'. bridge_step opens e b = Some b' \<and> queue_inv b'"
proof (cases e)
  case (Net_accepted_connects k)
  assume "queue_inv b"
  then have "queue_inv (if_link k (\<lambda>c. cl_live c \<and> cl_state c = CCS_None) (core_onConnect k) b)"
    by (rule if_link_inv) (erule onConnect_inv [OF \<open>queue_inv b\<close>], simp_all)
  with Net_accepted_connects show ?thesis by simp
next
  case (Net_disconnect k)
  assume q: "queue_inv b"
  then have "queue_inv (if_link k cl_live (core_onDisconnect k) b)"
    by (rule if_link_inv) (use q in \<open>simp add: queue_inv_def netq_net_steps inv_core_onDisconnect\<close>)
  with Net_disconnect show ?thesis by simp
next
  case (Net_recv k ty d)
  assume q: "queue_inv b"
  with Net_recv show ?thesis by (auto simp: queue_inv_def inv_recv split: option.split)
next
  case (Do_request x)
  assume q: "queue_inv b"
  have "queue_inv (to_net x b)" if "by_id_request x"
    using inv_request [of "netq b" b x] q that by (cases x) (auto simp: queue_inv_def by_id_request_def)
  with Do_request q show ?thesis by simp
next
  case (Do_mgr svc f)
  assume q: "queue_inv b"
  then have "bridge_inv (netq b) (on_mgr svc (\<lambda>m. (f m)\<lparr>m_mapBaseConnectionByID := m_mapBaseConnectionByID m,
     m_mapBaseConnectionByType := m_mapBaseConnectionByType m, calls := calls m\<rparr>) b)"
    by (intro inv_on_mgr_kept) (simp_all add: queue_inv_def invD)
  with Do_mgr show ?thesis by (simp add: queue_inv_def)
qed (simp_all add: net_accept_inv net_connected_inv net_connect_failed_inv net_onProcess_inv logic_onProcess_inv base_send_inv base_shutdown_inv)

lemma new_bridge_inv: "queue_inv new_bridge"
  by (simp add: queue_inv_def bridge_inv_def link_ok_def new_bridge_def new_base_mgr_def lv_def evs_def base_def told_def
      getBaseConnectionBySocketID_def)

lemma bridge_run_inv: "queue_inv b \<Longrightarrow> \<exists>b'. bridge_run opens es b = Some b' \<and> queue_inv b'"
proof (induction es arbitrary: b)
  case (Cons e es)
  from bridge_step_inv [OF Cons.prems, of opens e] obtain b' where "bridge_step opens e b = Some b'" "queue_inv b'" by blast
  with Cons.IH [of b'] show ?case by simp
qed simp

lemma told_base:
  assumes l: "link_ok xs b k"
  shows "told b k svc \<in> {[], [On_connect k], [On_connect k, On_disconnect k]} \<and> base b k svc = (told b k svc = [On_connect k])"
proof (cases "lv b k")
  case None
  with l have "told b k svc \<in> {[], [On_connect k, On_disconnect k]}" "\<not> base b k svc" by (simp_all add: link_ok_def)
  then show ?thesis by auto
next
  case (Some v)
  obtain svc' live st where v: "v = (svc', live, st)" by (cases v)
  show ?thesis
  proof (cases "svc = svc'")
    case True
    with l Some v have "phase_ok k live st (evs b k svc) (filter (points k) xs) (base b k svc) (told b k svc)" by (simp add: link_ok_def)
    then show ?thesis unfolding phase_ok_def by blast
  qed (use l Some v in \<open>simp add: link_ok_def\<close>)
qed

text \<open>
  C31: Whatever the event loop and the services do, and in whatever order the two sides take their packets, no
  destroyed core connection is ever used, and every base connection of a service has its core
  connection, which is of that service.
\<close>

theorem bridge_never_dangles:
  "\<exists>b. bridge_run opens es new_bridge = Some b \<and>
     {(svc, k). getBaseConnectionBySocketID (mgrs b svc) k \<noteq> None} \<subseteq> {(svc, k). \<exists>c. link b k = Some c \<and> cl_service c = svc}"
proof -
  obtain b where b: "bridge_run opens es new_bridge = Some b" "queue_inv b" using bridge_run_inv [OF new_bridge_inv] by blast
  then show ?thesis using base_has_link [of "netq b" b] by (fastforce simp: queue_inv_def lv_def)
qed

text \<open>
  C32: A service is told of a connection at most once, of its end at most once and only after that, and it has a
  base connection exactly between the two.
\<close>

theorem connect_disconnect_paired:
  "\<exists>b. bridge_run opens es new_bridge = Some b \<and>
     (\<forall>svc k. filter (tells k) (calls (mgrs b svc)) \<in> {[], [On_connect k], [On_connect k, On_disconnect k]} \<and>
        (getBaseConnectionBySocketID (mgrs b svc) k \<noteq> None) = (filter (tells k) (calls (mgrs b svc)) = [On_connect k]))"
proof -
  obtain b where b: "bridge_run opens es new_bridge = Some b" "queue_inv b" using bridge_run_inv [OF new_bridge_inv] by blast
  then have "told b k svc \<in> {[], [On_connect k], [On_connect k, On_disconnect k]} \<and> base b k svc = (told b k svc = [On_connect k])" for k svc
    by (intro told_base [of "netq b"]) (simp add: queue_inv_def invD(3))
  with b(1) show ?thesis by (simp add: told_def base_def)
qed

end
