(* ===== verification/Conn_Broadcast.thy ===== *)
theory Conn_Broadcast imports Conn_Bridge_Props begin

text \<open>
  Broadcasts between the services and the network thread: the buffer that a service writes is read back by
  the network thread, and the message goes once to each connection it is for and to no other.  For this,
  the lists of connections by type hold exactly the core connections there are.
\<close>

section \<open>The layout of the two buffers\<close>

lemma length_id_bytes [simp]: "length (id_bytes ids) = 8 * length ids"
  by (induction ids) (simp_all add: id_bytes_def)

lemma overlay_append: "length pre = off \<Longrightarrow> length ys = length xs \<Longrightarrow> overlay off xs (pre @ ys @ zs) = pre @ xs @ zs"
  by (simp add: overlay_def)

lemma overlay_zeros:
  "length pre = off \<Longrightarrow> length xs \<le> n \<Longrightarrow> overlay off xs (pre @ replicate n 0) = (pre @ xs) @ replicate (n - length xs) 0"
  by (simp add: overlay_def)

lemma broadcast1_layout:
  assumes "length ids < 65536"
  shows "broadcast1_raw ids ty d = ([ty, 0] @ le_bytes 2 (length ids)) @ id_bytes ids @ d"
proof -
  let ?m = "length d + 8 * length ids"
  have 0: "overlay 0 [ty] (replicate (4 + ?m) 0) = [ty, 0] @ replicate (2 + ?m) 0"
    by (simp add: overlay_def numeral_3_eq_3)
  have 1: "overlay 2 (le_bytes 2 (length ids)) ([ty, 0] @ replicate (2 + ?m) 0) = ([ty, 0] @ le_bytes 2 (length ids)) @ replicate ?m 0"
    by (subst overlay_zeros) simp_all
  have 2: "overlay 4 (id_bytes ids) (([ty, 0] @ le_bytes 2 (length ids)) @ replicate ?m 0) =
      (([ty, 0] @ le_bytes 2 (length ids)) @ id_bytes ids) @ replicate (length d) 0"
    by (subst overlay_zeros) simp_all
  have 3: "overlay (4 + 8 * length ids) d ((([ty, 0] @ le_bytes 2 (length ids)) @ id_bytes ids) @ replicate (length d) 0) =
      ((([ty, 0] @ le_bytes 2 (length ids)) @ id_bytes ids) @ d) @ replicate 0 0"
    by (subst overlay_zeros) simp_all
  have "4 + length d + 8 * length ids = 4 + ?m" "length ids mod 65536 = length ids" using assms by simp_all
  then show ?thesis unfolding broadcast1_raw_def by (simp only: 0 1 2 3) simp
qed

lemma broadcast2_layout:
  assumes "length excl < 65536"
  shows "broadcast2_raw szType ty d excl =
    ([ty, 0] @ le_bytes 2 (length excl) @ le_bytes 2 (length szType) @ szType @ [0, 0]) @ id_bytes excl @ d"
proof -
  let ?s = "length szType" and ?e = "8 * length excl" and ?n = "le_bytes 2 (length excl)" and ?l = "le_bytes 2 (length szType)"
  let ?h = "[ty, 0] @ ?n @ ?l @ szType @ [0, 0]"
  have z: "replicate (8 + length d + ?e + ?s) 0 = [0, 0, 0, 0] @ replicate (4 + (length d + ?e + ?s)) (0 :: u8)"
    using replicate_add [of 4 "4 + (length d + ?e + ?s)" "0 :: u8"] by (simp add: numeral_eq_Suc)
  have 0: "overlay 4 ?l (replicate (8 + length d + ?e + ?s) 0) = ([0, 0, 0, 0] @ ?l) @ replicate (2 + (length d + ?e + ?s)) 0"
    unfolding z by (subst overlay_zeros) simp_all
  have 1: "overlay 6 (szType @ [0]) (([0, 0, 0, 0] @ ?l) @ replicate (2 + (length d + ?e + ?s)) 0) =
      (([0, 0, 0, 0] @ ?l) @ szType @ [0]) @ replicate (1 + (length d + ?e)) 0"
    by (subst overlay_zeros) simp_all
  have 2: "overlay 0 [ty] ((([0, 0, 0, 0] @ ?l) @ szType @ [0]) @ replicate (1 + (length d + ?e)) 0) =
      (([ty, 0, 0, 0] @ ?l) @ szType @ [0]) @ replicate (1 + (length d + ?e)) 0"
    by (simp add: overlay_def)
  have 3: "overlay 2 ?n ((([ty, 0, 0, 0] @ ?l) @ szType @ [0]) @ replicate (1 + (length d + ?e)) 0) = ?h @ replicate (length d + ?e) 0"
    by (simp add: overlay_def)
  have 4: "overlay (8 + ?s) (id_bytes excl) (?h @ replicate (length d + ?e) 0) = (?h @ id_bytes excl) @ replicate (length d) 0"
    by (subst overlay_zeros) simp_all
  have 5: "overlay (8 + ?s + ?e) d ((?h @ id_bytes excl) @ replicate (length d) 0) = ((?h @ id_bytes excl) @ d) @ replicate 0 0"
    by (subst overlay_zeros) simp_all
  show ?thesis using assms unfolding broadcast2_raw_def
    by (simp only: 0 1 2 3 4 5 mod_less) simp
qed

text \<open>What is read back.\<close>

lemma field_at: "length pre = off \<Longrightarrow> field off n (pre @ le_bytes n x @ zs) = x mod 256 ^ n"
  by (simp add: field_skip field_here)

lemma id_bytes_nth:
  "i < length ids \<Longrightarrow> field (8 * i) 8 (id_bytes ids @ zs) = ids ! i mod 2 ^ 64"
proof (induction ids arbitrary: i)
  case (Cons k ids)
  show ?case
  proof (cases i)
    case 0
    have "id_bytes (k # ids) @ zs = le_bytes 8 k @ (id_bytes ids @ zs)" by (simp add: id_bytes_def)
    then show ?thesis using field_here [of 8 k "id_bytes ids @ zs"] 0 by simp
  next
    case (Suc j)
    have "field (8 * i) 8 (id_bytes (k # ids) @ zs) = field (8 * i) 8 (le_bytes 8 k @ (id_bytes ids @ zs))" by (simp add: id_bytes_def)
    also have "\<dots> = field (8 * j) 8 (id_bytes ids @ zs)" using Suc by (subst field_skip) simp_all
    finally show ?thesis using Cons Suc by simp
  qed
qed simp

lemma read_ids_back:
  assumes "\<forall>k \<in> set ids. k < 2 ^ 64" "length pre = off"
  shows "read_ids off (length ids) (pre @ id_bytes ids @ zs) = ids"
proof (rule nth_equalityI)
  fix i assume "i < length (read_ids off (length ids) (pre @ id_bytes ids @ zs))"
  then have i: "i < length ids" by (simp add: read_ids_def)
  have "field (off + 8 * i) 8 (pre @ id_bytes ids @ zs) = field (8 * i) 8 (id_bytes ids @ zs)" using assms(2) by (subst field_skip) simp_all
  also have "\<dots> = ids ! i" using id_bytes_nth [OF i] assms(1) i by (simp add: nth_mem)
  finally show "read_ids off (length ids) (pre @ id_bytes ids @ zs) ! i = ids ! i" using i by (simp add: read_ids_def)
qed (simp add: read_ids_def)

lemma drop_both: "length pre + length xs = n \<Longrightarrow> drop n (pre @ xs @ zs) = zs"
  by auto

lemma broadcast1_back:
  assumes ids: "length ids < 65536" "\<forall>k \<in> set ids. k < 2 ^ 64" and d: "length d < 65536"
  shows "net_broadcast1 (broadcast1_raw ids ty d) b = broadcast_ids ids ty d b"
proof -
  let ?raw = "([ty, 0] @ le_bytes 2 (length ids)) @ id_bytes ids @ d"
  have n: "field 2 2 ?raw = length ids" using ids(1) field_at [of "[ty, 0]" 2 2 "length ids" "id_bytes ids @ d"] by simp
  have r: "read_ids 4 (length ids) ?raw = ids" by (rule read_ids_back [OF ids(2)]) simp
  have t: "take ((length ?raw - (4 + 8 * length ids)) mod 65536) (drop (4 + 8 * length ids) ?raw) = d"
    using d by (subst drop_both) simp_all
  have "net_broadcast1 ?raw b = broadcast_ids ids ty d b" unfolding net_broadcast1_def Let_def n r t by simp
  then show ?thesis using broadcast1_layout [OF ids(1)] by simp
qed

lemma broadcast2_back:
  assumes ids: "length excl < 65536" "\<forall>k \<in> set excl. k < 2 ^ 64" and d: "length d < 65536" and s: "length szType < 65536" "0 \<notin> set szType"
  shows "net_broadcast2 (broadcast2_raw szType ty d excl) b = core_broadcast szType ty d excl b"
proof -
  let ?h = "[ty, 0] @ le_bytes 2 (length excl) @ le_bytes 2 (length szType) @ szType @ [0, 0]"
  let ?raw = "?h @ id_bytes excl @ d"
  let ?off = "8 + 8 * length excl + length szType"
  have n: "field 2 2 ?raw = length excl" using ids(1)
      field_at [of "[ty, 0]" 2 2 "length excl" "le_bytes 2 (length szType) @ szType @ [0, 0] @ id_bytes excl @ d"] by simp
  have l: "field 4 2 ?raw = length szType" using s(1)
      field_at [of "[ty, 0] @ le_bytes 2 (length excl)" 4 2 "length szType" "szType @ [0, 0] @ id_bytes excl @ d"] by simp
  have r: "read_ids (8 + length szType) (length excl) ?raw = excl" by (rule read_ids_back [OF ids(2)]) simp
  have c: "cstr (drop 6 ?raw) = szType" using cstr_stop [OF s(2), of "0 # id_bytes excl @ d"] by simp
  have t: "take ((length ?raw - ?off) mod 65536) (drop ?off ?raw) = d" using d by (subst drop_both) simp_all
  have "net_broadcast2 ?raw b = core_broadcast szType ty d excl b" unfolding net_broadcast2_def Let_def n l r c t by simp
  then show ?thesis using broadcast2_layout [OF ids(1)] by simp
qed

section \<open>The lists of connections by type\<close>

definition types_ok :: "bridge \<Rightarrow> bool" where
  "types_ok b \<longleftrightarrow> om_ok (m_mapCoreConnectionByID b) \<and> om_ok (m_mapCoreConnectionByTypeID b) \<and>
     (\<forall>k c. link b k = Some c \<longrightarrow> k < m_nNextCoreConnectionID b) \<and>
     (\<forall>ty. distinct (om_at [] (m_mapCoreConnectionByTypeID b) ty) \<and>
        set (om_at [] (m_mapCoreConnectionByTypeID b) ty) = {k. map_option cl_type (link b k) = Some ty})"

text \<open>A step that keeps which connections there are and their types.\<close>

definition same_types :: "bridge \<Rightarrow> bridge \<Rightarrow> bool" where
  "same_types b b' \<longleftrightarrow> m_mapCoreConnectionByTypeID b' = m_mapCoreConnectionByTypeID b \<and>
     m_nNextCoreConnectionID b' = m_nNextCoreConnectionID b \<and>
     (om_ok (m_mapCoreConnectionByID b) \<longrightarrow> om_ok (m_mapCoreConnectionByID b') \<and>
        (\<forall>k. map_option cl_type (link b' k) = map_option cl_type (link b k)))"

lemma same_types_ok: "same_types b b' \<Longrightarrow> types_ok b \<Longrightarrow> types_ok b'"
proof -
  assume s: "same_types b b'" and t: "types_ok b"
  have l: "map_option cl_type (link b' k) = map_option cl_type (link b k)" for k using s t by (simp add: same_types_def types_ok_def)
  have "k < m_nNextCoreConnectionID b'" if "link b' k = Some c" for k c
    using l [of k] that s t by (cases "link b k") (auto simp: same_types_def types_ok_def)
  with l s t show ?thesis by (simp add: same_types_def types_ok_def)
qed

lemma same_types_refl [simp]: "same_types b b" by (simp add: same_types_def)
lemma same_types_trans: "same_types b b' \<Longrightarrow> same_types b' b'' \<Longrightarrow> same_types b b''" by (simp add: same_types_def)

lemma same_types_fields [simp]:
  "same_types b (to_logic s x b')= same_types b b'" "same_types b (to_net y b') = same_types b b'" "same_types b (on_mgr s f b') = same_types b b'"
  "same_types b (b'\<lparr>accepters := w\<rparr>) = same_types b b'" "same_types b (b'\<lparr>active_waits := w'\<rparr>) = same_types b b'"
  "same_types b (b'\<lparr>netq := q\<rparr>) = same_types b b'" "same_types b (b'\<lparr>logicq := q'\<rparr>) = same_types b b'"
  by (simp_all add: same_types_def to_logic_def to_net_def on_mgr_def)

lemma same_types_set_link: "(\<And>c. cl_type (f c) = cl_type c) \<Longrightarrow> same_types b (set_link k f b)"
  by (auto simp: same_types_def link_set_link fun_eq_iff split: option.split)
    (simp add: option.map_comp comp_def)

lemma same_types_core:
  "same_types b (core_shutdown k force b)" "same_types b (core_send k ty d b)" "same_types b (core_onConnectAck k b)"
  "same_types b (core_onConnect k b)" "same_types b (core_onDisconnect k b)"
proof -
  have s: "same_types b (set_link k f b')" if "\<And>c. cl_type (f c) = cl_type c" "same_types b b'" for f b'
    using same_types_trans [OF that(2) same_types_set_link [of f b' k]] that(1) by simp
  show "same_types b (core_shutdown k force b)" "same_types b (core_send k ty d b)" by (simp_all add: core_shutdown_def core_send_def s)
  then show "same_types b (core_onConnectAck k b)" by (simp add: core_onConnectAck_def s core_shutdown_def split: option.split)
  show "same_types b (core_onConnect k b)" "same_types b (core_onDisconnect k b)"
    by (simp_all add: core_onConnect_def core_onDisconnect_def s split: option.split)
qed

lemma same_types_broadcast: "same_types b (broadcast_ids ids ty d b)"
proof (induction ids arbitrary: b)
  case (Cons k ids)
  from same_types_trans [OF same_types_core(2) Cons.IH] show ?case by (simp add: broadcast_ids_def)
qed (simp add: broadcast_ids_def)

lemma types_create:
  assumes t: "types_ok b" shows "types_ok (snd (createCoreConnection svc ty cx b))"
proof -
  have no: "link b (m_nNextCoreConnectionID b) = None" using t by (cases "link b (m_nNextCoreConnectionID b)") (auto simp: types_ok_def)
  show ?thesis using t no
    by (auto simp: types_ok_def createCoreConnection_def Let_def om_at_def less_Suc_eq split: option.splits if_splits)
qed

lemma types_destroy:
  assumes t: "types_ok b" shows "types_ok (destroyCoreConnection k b)"
proof (cases "link b k")
  case (Some c)
  let ?b = "destroyCoreConnection k b"
  have L: "om_at [] (m_mapCoreConnectionByTypeID ?b) ty =
      (if ty = cl_type c then filter (\<lambda>j. j \<noteq> k) (om_at [] (m_mapCoreConnectionByTypeID b) ty) else om_at [] (m_mapCoreConnectionByTypeID b) ty)" for ty
    using t Some by (auto simp: destroyCoreConnection_def om_at_def types_ok_def split: option.splits)
  have l: "link ?b = (link b)(k := None)" "om_ok (m_mapCoreConnectionByID ?b)" "om_ok (m_mapCoreConnectionByTypeID ?b)"
      "m_nNextCoreConnectionID ?b = m_nNextCoreConnectionID b"
    using t Some by (auto simp: destroyCoreConnection_def types_ok_def split: option.splits)
  have "distinct (om_at [] (m_mapCoreConnectionByTypeID ?b) ty) \<and>
      set (om_at [] (m_mapCoreConnectionByTypeID ?b) ty) = {j. map_option cl_type (link ?b j) = Some ty}" for ty
    unfolding L l(1) using t Some by (auto simp: types_ok_def)
  with l t show ?thesis by (simp add: types_ok_def)
qed (simp add: destroyCoreConnection_def t)

lemma types_command: "types_ok b \<Longrightarrow> net_command opens x b = Some (go, b') \<Longrightarrow> types_ok b'"
proof (cases x)
  case (Disconnect_ack k)
  assume "types_ok b" "net_command opens x b = Some (go, b')"
  with Disconnect_ack show ?thesis by (auto simp: net_command_def types_destroy)
qed (auto simp: net_command_defs net_broadcast1_def net_broadcast2_def core_broadcast_def Let_def
      split: option.splits if_splits elim!: same_types_ok [rotated] intro: same_types_core same_types_broadcast)

lemma types_loop: "types_ok b \<Longrightarrow> net_loop opens xs b = Some b' \<Longrightarrow> types_ok b'"
  by (induction xs arbitrary: b) (auto dest: types_command split: option.splits bool.splits)

lemma same_types_logic: "logic_onProcess svc b = Some b' \<Longrightarrow> same_types b b'"
  by (auto simp: logic_onProcess_def logic_dispatch_def mgr_onConnect_def mgr_onDisconnect_def
      split: list.splits logic_cmd.splits option.splits bool.splits)

lemma types_connected: "types_ok b \<Longrightarrow> types_ok (net_connected i b)"
proof (cases "i < length (active_waits b)")
  case True
  assume t: "types_ok b"
  obtain svc ty cx where a: "active_waits b ! i = (svc, ty, cx)" by (cases "active_waits b ! i")
  obtain k b' where c: "createCoreConnection svc ty cx b = (k, b')" by (cases "createCoreConnection svc ty cx b")
  let ?w = "take i (active_waits b) @ drop (i + 1) (active_waits b)"
  have "same_types b' (core_onConnect k (b'\<lparr>active_waits := ?w\<rparr>))"
    using same_types_trans [OF _ same_types_core(4), of b' "b'\<lparr>active_waits := ?w\<rparr>" k] by simp
  then show ?thesis using same_types_ok types_create [OF t, of svc ty cx] True a c by (simp add: net_connected_def)
qed (simp add: net_connected_def)

lemma types_step: "types_ok b \<Longrightarrow> bridge_step opens e b = Some b' \<Longrightarrow> types_ok b'"
proof (cases e)
  case Net_process
  assume "types_ok b" "bridge_step opens e b = Some b'"
  moreover have "types_ok (b\<lparr>netq := []\<rparr>)" using \<open>types_ok b\<close> by (rule same_types_ok [rotated]) simp
  ultimately show ?thesis using Net_process by (auto simp: net_onProcess_def dest: types_loop)
next
  case (Net_accept i)
  assume "types_ok b" "bridge_step opens e b = Some b'"
  with Net_accept show ?thesis by (auto simp: net_accept_def types_create split: prod.splits)
next
  case (Net_connected i)
  assume "types_ok b" "bridge_step opens e b = Some b'"
  with Net_connected show ?thesis by (auto simp: types_connected)
next
  case (Logic_process svc)
  assume "types_ok b" "bridge_step opens e b = Some b'"
  with Logic_process show ?thesis by (auto dest: same_types_logic intro: same_types_ok)
qed (auto simp: if_link_def net_connect_failed_def base_send_def base_shutdown_def
    split: option.splits if_splits prod.splits elim!: same_types_ok [rotated] intro: same_types_core)

lemma types_run: "types_ok b \<Longrightarrow> bridge_run opens es b = Some b' \<Longrightarrow> types_ok b'"
  by (induction es arbitrary: b) (auto dest: types_step split: bind_splits)

lemma types_new: "types_ok new_bridge"
  by (simp add: types_ok_def new_bridge_def om_at_def)

section \<open>Who gets a broadcast\<close>

definition got :: "u8 \<Rightarrow> u8 list \<Rightarrow> nat \<Rightarrow> core_link \<Rightarrow> core_link" where
  "got ty d n c = (if cl_live c then c\<lparr>cl_sent := cl_sent c @ replicate n (ty, d)\<rparr> else c)"

lemma got_0 [simp]: "got ty d 0 = (\<lambda>c. c)" by (simp add: got_def fun_eq_iff)

lemma count_distinct: "distinct xs \<Longrightarrow> count_list xs k = (if k \<in> set xs then 1 else 0)"
  by (induction xs) auto

lemma broadcast_ids_links:
  "om_ok (m_mapCoreConnectionByID b) \<Longrightarrow> d \<noteq> [] \<Longrightarrow>
     link (broadcast_ids ids ty d b) k = map_option (got ty d (count_list ids k)) (link b k)"
proof (induction ids arbitrary: b)
  case (Cons j ids)
  let ?b = "core_send j ty d b"
  have ok: "om_ok (m_mapCoreConnectionByID ?b)" using Cons.prems by (simp add: core_send_def)
  have l: "link ?b k = map_option (got ty d (if j = k then 1 else 0)) (link b k)"
    using Cons.prems by (auto simp: core_send_def link_set_link got_def option.map_ident intro!: option.map_cong)
  have "link (broadcast_ids (j # ids) ty d b) k = link (broadcast_ids ids ty d ?b) k" by (simp add: broadcast_ids_def)
  also have "\<dots> = map_option (got ty d (count_list ids k)) (map_option (got ty d (if j = k then 1 else 0)) (link b k))"
    using Cons.IH [OF ok Cons.prems(2)] l by simp
  also have "\<dots> = map_option (got ty d (count_list (j # ids) k)) (link b k)" by (cases "link b k") (auto simp: got_def)
  finally show ?case .
qed (simp add: broadcast_ids_def option.map_ident)

lemma core_broadcast_links:
  assumes t: "types_ok b" and d: "d \<noteq> []"
  shows "link (core_broadcast szType ty d excl b) k =
    map_option (\<lambda>c. got ty d (if cl_type c = szType \<and> k \<notin> set excl then 1 else 0) c) (link b k)"
proof -
  let ?ks = "om_at [] (m_mapCoreConnectionByTypeID b) szType"
  have eq: "core_broadcast szType ty d excl b = broadcast_ids (filter (\<lambda>k. k \<notin> set excl) ?ks) ty d b"
    by (simp add: core_broadcast_def om_at_def broadcast_ids_def split: option.split)
  have "count_list (filter (\<lambda>k. k \<notin> set excl) ?ks) k = (if k \<in> set ?ks \<and> k \<notin> set excl then 1 else 0)"
    using t by (simp add: types_ok_def count_distinct)
  then show ?thesis using t by (cases "link b k") (simp_all add: eq broadcast_ids_links d types_ok_def)
qed


text \<open>Three connections of two types, of which the second is excluded.\<close>

definition three_links :: "bridge_event list" where
  "three_links = [Do_request (Request_listen 3 [49] [97] [] 0 0), Do_request (Request_listen 4 [50] [98] [] 0 0), Net_process,
     Net_accept 0, Net_accept 0, Net_accept 1, Net_accepted_connects 1, Net_accepted_connects 3]"

lemma three_links_run: "\<exists>b. bridge_run (\<lambda>_. True) three_links new_bridge = Some b"
  using bridge_run_inv [OF new_bridge_inv] by blast

lemma three_links_types:
  "map_option (\<lambda>b. map (\<lambda>k. map_option cl_type (link b k)) [1, 2, 3, 4]) (bridge_run (\<lambda>_. True) three_links new_bridge) =
     Some [Some [97], Some [97], Some [98], None]"
  by code_simp


section \<open>A lost batch\<close>

text \<open>
  The network thread leaves a batch at a message for a socket that is gone, and the rest of the batch is
  lost.  Here it is the acknowledgment of the end of connection 1, which then stays in the maps for
  good: nothing is queued any more that would remove it.
\<close>

definition lost_ack :: "bridge_event list" where
  "lost_ack = [Do_request (Request_listen 3 [49] [97] [] 0 0), Net_process, Net_accept 0, Net_accepted_connects 1,
     Do_mgr 3 (setBaseConnectionFactory [97] (Some True)), Logic_process 3, Net_process, Net_disconnect 1,
     Do_request (Send_data2 99 0 [1]), Logic_process 3, Net_process]"

lemma lost_ack_leaks:
  "map_option (\<lambda>b. (map_option cl_live (link b 1), netq b, logicq b 3, getBaseConnectionBySocketID (mgrs b 3) 1,
       getCoreConnectionCount b [97])) (bridge_run (\<lambda>_. True) lost_ack new_bridge) =
     Some (Some False, [], [], None, 1)"
  by code_simp

end
