(* ===== verification/Http.thy ===== *)
theory Http imports Bytes Ordered_Map String_Util begin

text \<open>
  HTTP for the handshake of websockets (\<open>libCoreCommon/http_request.cpp\<close>, \<open>http_request_parser.cpp\<close>,
  \<open>http_response.cpp\<close>): requests are parsed from what has been received, which may be a part.
  A parse gives \<open>Bad_access\<close> where the code reads outside of what it was given, and \<open>Parsed\<close>
  with the value returned otherwise; a parser that is called again after it has finished does not
  return, which is \<open>None\<close>.
\<close>

datatype EHttpMethodType = eHMT_Unknown | eHMT_Get | eHMT_Post | eHMT_Put | eHMT_Delete
datatype EHttpVersion = eHV_Unknown | eHV_Http10 | eHV_Http11
datatype EHttpParseState = eHPS_RequestLine | eHPS_Headers | eHPS_Body | eHPS_Finish

record CHttpRequest =
  m_eMethod :: EHttpMethodType
  m_eVersion :: EHttpVersion
  m_szRequestURI :: bstr
  m_szQuery :: bstr
  m_szBody :: bstr
  m_mapHeader :: "(bstr, bstr) omap"

definition new_request :: CHttpRequest where
  "new_request = \<lparr>m_eMethod = eHMT_Unknown, m_eVersion = eHV_Unknown, m_szRequestURI = [], m_szQuery = [], m_szBody = [], m_mapHeader = []\<rparr>"

record CHttpRequestParser =
  m_eParseState :: EHttpParseState
  m_nParseDataCount :: nat
  m_request :: CHttpRequest

definition new_parser :: CHttpRequestParser where
  "new_parser = \<lparr>m_eParseState = eHPS_RequestLine, m_nParseDataCount = 0, m_request = new_request\<rparr>"

section \<open>Requests\<close>

definition lower :: "u8 \<Rightarrow> u8" where
  "lower c = (if 65 \<le> c \<and> c \<le> 90 then c + 32 else c)"

text \<open>\<open>_strnicmp(text, word, length of word) = 0\<close>.\<close>

definition starts_nocase :: "bstr \<Rightarrow> bstr \<Rightarrow> bool" where
  "starts_nocase word txt \<longleftrightarrow> length word \<le> length txt \<and> map lower (take (length word) txt) = map lower word"

definition setMethod :: "bstr \<Rightarrow> CHttpRequest \<Rightarrow> bool \<times> CHttpRequest" where
  "setMethod szMethod r = (let m = (if starts_nocase (ascii ''GET'') szMethod then eHMT_Get
     else if starts_nocase (ascii ''POST'') szMethod then eHMT_Post
     else if starts_nocase (ascii ''PUT'') szMethod then eHMT_Put
     else if starts_nocase (ascii ''DELETE'') szMethod then eHMT_Delete
     else eHMT_Unknown)
   in (m \<noteq> eHMT_Unknown, r\<lparr>m_eMethod := m\<rparr>))"

definition isspace :: "u8 \<Rightarrow> bool" where
  "isspace c \<longleftrightarrow> (9 \<le> c \<and> c \<le> 13) \<or> c = 32"

text \<open>
  The loop at the end of the value goes through all of it and takes one character off its end for each
  white space it meets, wherever that is.
\<close>

fun shorten :: "nat \<Rightarrow> bstr \<Rightarrow> bstr" where
  "shorten 0 v = v"
| "shorten (Suc i) v = shorten i (if isspace (v ! i) then take (length v - 1) v else v)"

definition addHeader :: "bstr \<Rightarrow> bstr \<Rightarrow> CHttpRequest \<Rightarrow> CHttpRequest" where
  "addHeader szName szValue r = (let v = dropWhile isspace szValue
     in r\<lparr>m_mapHeader := om_put szName (shorten (length v) v) (m_mapHeader r)\<rparr>)"

definition getHeader :: "bstr \<Rightarrow> CHttpRequest \<Rightarrow> bstr option" where
  "getHeader szName r = map_option cstr (om_get (m_mapHeader r) szName)"

section \<open>The parser\<close>

text \<open>\<open>std::find\<close> and \<open>std::search\<close> for CR LF: the position, or none.\<close>

fun find_byte :: "u8 \<Rightarrow> bstr \<Rightarrow> nat option" where
  "find_byte c [] = None"
| "find_byte c (x # xs) = (if x = c then Some 0 else map_option Suc (find_byte c xs))"

fun find_crlf :: "bstr \<Rightarrow> nat option" where
  "find_crlf (x # y # xs) = (if x = 13 \<and> y = 10 then Some 0 else map_option Suc (find_crlf (y # xs)))"
| "find_crlf _ = None"

text \<open>The version is looked at behind the URI; the query is given two characters too many.\<close>

definition parseRequestLine :: "bstr \<Rightarrow> nat \<Rightarrow> CHttpRequest \<Rightarrow> bool \<times> CHttpRequest" where
  "parseRequestLine szData nDataSize r = (let line = take nDataSize szData in
     case find_byte 32 line of None \<Rightarrow> (False, r)
     | Some m \<Rightarrow> (case setMethod szData r of (False, r) \<Rightarrow> (False, r)
       | (True, r) \<Rightarrow> (let nURIBegin = m + 1 in
           case find_byte 32 (drop nURIBegin line) of None \<Rightarrow> (False, r)
           | Some u \<Rightarrow> (let szURI = take u (drop nURIBegin line);
               r = (case find_byte 63 szURI of
                      Some q \<Rightarrow> r\<lparr>m_szRequestURI := take q szURI, m_szQuery := take (u - q + 1) (drop (nURIBegin + q + 1) szData)\<rparr>
                    | None \<Rightarrow> r\<lparr>m_szRequestURI := szURI\<rparr>);
               szVersion = drop (nURIBegin + u + 1) line
             in if length szVersion \<noteq> 8 then (False, r)
                else if \<not> starts_nocase (ascii ''HTTP/1.'') szVersion then (False, r)
                else if last szVersion = 49 then (True, r\<lparr>m_eVersion := eHV_Http11\<rparr>)
                else if last szVersion = 48 then (True, r\<lparr>m_eVersion := eHV_Http10\<rparr>)
                else (False, r)))))"

datatype parse_result = Parsed bool CHttpRequestParser | Bad_access

text \<open>One turn of the loop: \<open>Inl\<close> ends it, \<open>Inr\<close> goes on.  The size of a body is compared in 32 bits.\<close>

definition content_length :: "bstr \<Rightarrow> u32 option" where
  "content_length v = map_option of_int (read_unsigned 32 (map (\<lambda>b. char_of (unat b)) v))"

definition parse_turn :: "bstr \<Rightarrow> CHttpRequestParser \<Rightarrow> parse_result + CHttpRequestParser" where
  "parse_turn szData p = (case m_eParseState p of
     eHPS_RequestLine \<Rightarrow> (case find_crlf szData of None \<Rightarrow> Inl (Parsed True p)
       | Some n \<Rightarrow> (case parseRequestLine szData n (m_request p) of
           (False, r) \<Rightarrow> Inl (Parsed False (p\<lparr>m_request := r\<rparr>))
         | (True, r) \<Rightarrow> Inr (p\<lparr>m_request := r, m_nParseDataCount := n + 2, m_eParseState := eHPS_Headers\<rparr>)))
   | eHPS_Headers \<Rightarrow> (if m_nParseDataCount p > length szData then Inl Bad_access
       else case find_crlf (drop (m_nParseDataCount p) szData) of None \<Rightarrow> Inl (Parsed True p)
         | Some n \<Rightarrow> (let line = take n (drop (m_nParseDataCount p) szData) in
             case find_byte 58 line of
               Some k \<Rightarrow> Inr (p\<lparr>m_request := addHeader (take k line) (drop (k + 1) line) (m_request p), m_nParseDataCount := m_nParseDataCount p + (n + 2)\<rparr>)
             | None \<Rightarrow> if n \<noteq> 0 then Inl (Parsed False p)
                       else Inr (p\<lparr>m_eParseState := eHPS_Body, m_nParseDataCount := m_nParseDataCount p + (n + 2)\<rparr>)))
   | eHPS_Body \<Rightarrow> (if m_eMethod (m_request p) = eHMT_Get then Inl (Parsed True (p\<lparr>m_eParseState := eHPS_Finish\<rparr>))
       else case getHeader (ascii ''Content-Length'') (m_request p) of None \<Rightarrow> Inl (Parsed True (p\<lparr>m_eParseState := eHPS_Finish\<rparr>))
         | Some szContentLength \<Rightarrow> (case content_length szContentLength of None \<Rightarrow> Inl (Parsed False p)
             | Some nContentLength \<Rightarrow>
                 if unat (nContentLength + of_nat (m_nParseDataCount p)) > length szData then Inl (Parsed True p)
                 else if m_nParseDataCount p + unat nContentLength > length szData then Inl Bad_access
                 else Inl (Parsed True (p\<lparr>m_request := (m_request p)\<lparr>m_szBody := take (unat nContentLength) (drop (m_nParseDataCount p) szData)\<rparr>,
                   m_nParseDataCount := m_nParseDataCount p + unat nContentLength, m_eParseState := eHPS_Finish\<rparr>))))
   | eHPS_Finish \<Rightarrow> Inr p)"

partial_function (option) parseRequest :: "bstr \<Rightarrow> CHttpRequestParser \<Rightarrow> parse_result option" where
  "parseRequest szData p = (case parse_turn szData p of Inl res \<Rightarrow> Some res | Inr p \<Rightarrow> parseRequest szData p)"

declare parseRequest.simps [code]

definition parser_reset :: "CHttpRequestParser \<Rightarrow> CHttpRequestParser" where
  "parser_reset p = new_parser"

section \<open>Responses\<close>

record CHttpResponse =
  rs_mapHeader :: "(bstr, bstr) omap"
  m_nStatusCode :: int
  m_szStatusMessage :: bstr
  rs_szBody :: bstr
  m_bKeepAlive :: bool

definition new_response :: CHttpResponse where
  "new_response = \<lparr>rs_mapHeader = [], m_nStatusCode = 0, m_szStatusMessage = [], rs_szBody = [], m_bKeepAlive = True\<rparr>"

definition rs_addHeader :: "bstr \<Rightarrow> bstr \<Rightarrow> CHttpResponse \<Rightarrow> CHttpResponse" where
  "rs_addHeader szKey szValue r = r\<lparr>rs_mapHeader := om_put szKey szValue (rs_mapHeader r)\<rparr>"

definition setContentType :: "bstr \<Rightarrow> CHttpResponse \<Rightarrow> CHttpResponse" where
  "setContentType = rs_addHeader (ascii ''Content-Type'')"

definition rs_write :: "bstr \<Rightarrow> CHttpResponse \<Rightarrow> CHttpResponse" where
  "rs_write szData r = r\<lparr>rs_szBody := rs_szBody r @ szData\<rparr>"

definition crlf :: bstr where "crlf = [13, 10]"

definition header_line :: "bstr \<times> bstr \<Rightarrow> bstr" where
  "header_line kv = fst kv @ ascii '': '' @ snd kv @ crlf"

definition serialize :: "CHttpResponse \<Rightarrow> bstr" where
  "serialize r = ascii ''HTTP/1.1 '' @ ascii (show_int (m_nStatusCode r)) @ [32] @ m_szStatusMessage r @ crlf @
     concat (map header_line (rs_mapHeader r)) @
     ascii (if m_bKeepAlive r then ''Connection: Keep-Alive'' else ''Connection: close'') @ crlf @
     (if rs_szBody r \<noteq> [] then ascii ''Content-Length: '' @ ascii (show_int (int (length (rs_szBody r)))) @ crlf else []) @
     crlf @ rs_szBody r"

end
