(* ===== verification/Block_Hash.thy ===== *)
theory Block_Hash imports Bytes begin

text \<open>
  Hashes that work on blocks of 64 bytes, as \<open>sha1.cpp\<close> and \<open>md5.cpp\<close> do: the digest of a message as a
  whole, and the interface of a machine that is given the message in pieces of any size and keeps
  what does not fill a block.  The interface gives that the pieces do not matter.
\<close>

section \<open>Blocks\<close>

function blocks :: "u8 list \<Rightarrow> u8 list list" where
  "blocks xs = (if length xs < 64 then [] else take 64 xs # blocks (drop 64 xs))"
  by auto
termination by (relation "measure length") auto

declare blocks.simps [simp del]

definition left_over :: "u8 list \<Rightarrow> u8 list" where
  "left_over xs = drop (64 * (length xs div 64)) xs"

lemma blocks_short [simp]: "length xs < 64 \<Longrightarrow> blocks xs = []"
  by (simp add: blocks.simps)

lemma left_over_short [simp]: "length xs < 64 \<Longrightarrow> left_over xs = xs"
  by (simp add: left_over_def)

lemma blocks_block: "length xs = 64 \<Longrightarrow> blocks (xs @ ys) = xs # blocks ys"
  by (subst blocks.simps) simp

lemma left_over_block: "length xs = 64 \<Longrightarrow> left_over (xs @ ys) = left_over ys"
proof -
  assume "length xs = 64"
  moreover have "64 * ((64 + length ys) div 64) = 64 + 64 * (length ys div 64)" by (simp add: div_add_self1)
  ultimately show ?thesis by (simp add: left_over_def)
qed

lemma left_over_length: "length (left_over xs) = length xs mod 64"
  by (simp add: left_over_def minus_mult_div_eq_mod)

lemma blocks_append:
  "blocks (xs @ ys) = blocks xs @ blocks (left_over xs @ ys) \<and> left_over (xs @ ys) = left_over (left_over xs @ ys)"
proof (induction xs rule: blocks.induct)
  case (1 xs)
  show ?case
  proof (cases "length xs < 64")
    case False
    have l: "length (take 64 xs) = 64" using False by simp
    have e: "take 64 xs @ drop 64 xs @ ys = xs @ ys" "take 64 xs @ drop 64 xs = xs" using append_take_drop_id [of 64 xs]
      by (simp_all add: append_assoc [symmetric] del: append_assoc)
    have "blocks (xs @ ys) = take 64 xs # blocks (drop 64 xs @ ys)" "left_over (xs @ ys) = left_over (drop 64 xs @ ys)"
      using blocks_block [OF l, of "drop 64 xs @ ys"] left_over_block [OF l, of "drop 64 xs @ ys"] unfolding e by simp_all
    moreover have "blocks xs = take 64 xs # blocks (drop 64 xs)" "left_over xs = left_over (drop 64 xs)"
      using blocks_block [OF l, of "drop 64 xs"] left_over_block [OF l, of "drop 64 xs"] unfolding e by simp_all
    ultimately show ?thesis using 1 [OF False] by simp
  qed simp
qed

section \<open>The digest of a message\<close>

text \<open>A byte 128, zeros up to 8 bytes before the end of a block, and the length of the message in bits.\<close>

definition padding :: "(nat \<Rightarrow> u8 list) \<Rightarrow> nat \<Rightarrow> u8 list" where
  "padding len n = 128 # replicate ((119 - n mod 64) mod 64) 0 @ len (8 * n)"

definition digest :: "('h \<Rightarrow> u8 list \<Rightarrow> 'h) \<Rightarrow> (nat \<Rightarrow> u8 list) \<Rightarrow> 'h \<Rightarrow> u8 list \<Rightarrow> 'h" where
  "digest cf len iv msg = foldl cf iv (blocks (msg @ padding len (length msg)))"

lemma padding_split:
  assumes "k = n mod 64"
  shows "k > 55 \<Longrightarrow> padding len n = (128 # replicate (64 - (k + 1)) 0) @ replicate 56 0 @ len (8 * n)"
    "k \<le> 55 \<Longrightarrow> padding len n = (128 # replicate (56 - (k + 1)) 0) @ len (8 * n)"
proof -
  have k: "k < 64" using assms by simp
  show "k > 55 \<Longrightarrow> padding len n = (128 # replicate (64 - (k + 1)) 0) @ replicate 56 0 @ len (8 * n)"
  proof -
    assume "k > 55"
    then have "(119 - k) mod 64 = (64 - (k + 1)) + 56" using k by simp
    then have "replicate ((119 - n mod 64) mod 64) (0 :: u8) = replicate (64 - (k + 1)) 0 @ replicate 56 0"
      using assms replicate_add [of "64 - (k + 1)" 56 "0 :: u8"] by simp
    then show ?thesis by (simp add: padding_def)
  qed
  assume "k \<le> 55"
  then obtain j where j: "k + j = 55" by (metis le_add_diff_inverse)
  then have e: "119 - k = 64 + j" "56 - (k + 1) = j" "j < 64" by linarith+
  have "(119 - k) mod 64 = 56 - (k + 1)" unfolding e(1,2) using e(3) by simp
  then show "padding len n = (128 # replicate (56 - (k + 1)) 0) @ len (8 * n)" using assms by (simp add: padding_def)
qed

lemma blocks_one: "length xs = 64 \<Longrightarrow> blocks xs = [xs]"
  using blocks_block [of xs "[]"] by simp

lemma le_bytes_add: "le_bytes (m + n) x = le_bytes m x @ le_bytes n (x div 256 ^ m)"
  by (induction m arbitrary: x) (simp_all add: div_mult2_eq)

lemma le_bytes_mod: "le_bytes n (x mod 256 ^ n) = le_bytes n x"
  by (induction n arbitrary: x) (simp_all add: mod_mult2_eq)

lemma le_bytes_map: "le_bytes n x = map (\<lambda>k. word_of_nat (x div 256 ^ k mod 256)) [0..<n]"
proof (induction n arbitrary: x)
  case (Suc n)
  have "[0..<Suc n] = 0 # map Suc [0..<n]" by (simp add: map_Suc_upt upt_conv_Cons)
  then show ?case by (simp add: Suc div_mult2_eq)
qed simp

section \<open>The interface of a machine that is fed in pieces\<close>

locale streaming_hash =
  fixes cf :: "'h \<Rightarrow> u8 list \<Rightarrow> 'h" and len :: "nat \<Rightarrow> u8 list" and iv :: 'h and fits :: "nat \<Rightarrow> bool"
    and good :: "nat \<Rightarrow> 's \<Rightarrow> bool" and hsh :: "'s \<Rightarrow> 'h" and buffered :: "'s \<Rightarrow> u8 list"
    and feed :: "u8 list \<Rightarrow> 's \<Rightarrow> 's" and finish :: "'s \<Rightarrow> 'h"
  assumes shorter: "fits n \<Longrightarrow> k \<le> n \<Longrightarrow> fits k"
    and fed: "good n s \<Longrightarrow> fits (n + length d) \<Longrightarrow> good (n + length d) (feed d s) \<and>
        hsh (feed d s) = foldl cf (hsh s) (blocks (buffered s @ d)) \<and> buffered (feed d s) = left_over (buffered s @ d)"
    and finished: "good n s \<Longrightarrow> fits n \<Longrightarrow> length (buffered s) = n mod 64 \<Longrightarrow>
        finish s = foldl cf (hsh s) (blocks (buffered s @ padding len n))"
begin

lemma after_feeds:
  assumes start: "good 0 start" "hsh start = iv" "buffered start = []"
  shows "fits (length (concat ds)) \<Longrightarrow> (let s = foldl (\<lambda>s d. feed d s) start ds in
     good (length (concat ds)) s \<and> hsh s = foldl cf iv (blocks (concat ds)) \<and> buffered s = left_over (concat ds))"
proof (induction ds rule: rev_induct)
  case (snoc d ds)
  let ?s = "foldl (\<lambda>s d. feed d s) start ds"
  have s: "good (length (concat ds)) ?s" "hsh ?s = foldl cf iv (blocks (concat ds))" "buffered ?s = left_over (concat ds)"
    using snoc shorter [of "length (concat (ds @ [d]))" "length (concat ds)"] by (simp_all add: Let_def)
  have "fits (length (concat ds) + length d)" using snoc.prems by simp
  from fed [OF s(1) this] s blocks_append [of "concat ds" d] show ?case by (simp add: Let_def)
qed (simp add: start)

theorem pieces_do_not_matter:
  assumes start: "good 0 start" "hsh start = iv" "buffered start = []" and lim: "fits (length (concat ds))"
  shows "finish (foldl (\<lambda>s d. feed d s) start ds) = digest cf len iv (concat ds)"
proof -
  let ?s = "foldl (\<lambda>s d. feed d s) start ds" and ?n = "length (concat ds)"
  have s: "good ?n ?s" "hsh ?s = foldl cf iv (blocks (concat ds))" "buffered ?s = left_over (concat ds)"
    using after_feeds [OF assms] by (simp_all add: Let_def)
  have "finish ?s = foldl cf (hsh ?s) (blocks (buffered ?s @ padding len ?n))"
    by (rule finished [OF s(1) lim]) (simp add: s left_over_length)
  then show ?thesis using blocks_append [of "concat ds" "padding len ?n"] s by (simp add: digest_def)
qed

end

end
