(* ===== verification/Sha1.thy ===== *)
theory Sha1 imports Block_Hash begin

text \<open>
  The hash \<open>CSHA1\<close> of \<open>engine/src/libBaseCommon/sha1.cpp\<close>: its block function, its writes byte by byte and
  its padding, and that the digest is that of the padded message however it was written.
\<close>

type_synonym sha1_hash = "u32 \<times> u32 \<times> u32 \<times> u32 \<times> u32"

record CSHA1 =
  m_zH :: sha1_hash
  m_nLengthLow :: u32
  m_nLengthHigh :: u32
  m_zMessageBlock :: "u8 list"
  m_nMessageBlockIndex :: nat
  m_bComputed :: bool
  m_bCorrupted :: bool

section \<open>The block function\<close>

definition circularShift :: "nat \<Rightarrow> u32 \<Rightarrow> u32" where
  "circularShift n w = push_bit n w OR drop_bit (32 - n) w"

definition sha1_word :: "u8 list \<Rightarrow> nat \<Rightarrow> u32" where
  "sha1_word m i = push_bit 24 (ucast (m ! (i * 4))) OR push_bit 16 (ucast (m ! (i * 4 + 1))) OR
     push_bit 8 (ucast (m ! (i * 4 + 2))) OR ucast (m ! (i * 4 + 3))"

definition sha1_words :: "u8 list \<Rightarrow> u32 list" where
  "sha1_words m = foldl (\<lambda>W i. W @ [circularShift 1 (W ! (i - 3) XOR W ! (i - 8) XOR W ! (i - 14) XOR W ! (i - 16))])
     (map (sha1_word m) [0..<16]) [16..<80]"

fun sha1_round :: "(u32 \<Rightarrow> u32 \<Rightarrow> u32 \<Rightarrow> u32) \<Rightarrow> u32 \<Rightarrow> sha1_hash \<Rightarrow> u32 \<Rightarrow> sha1_hash" where
  "sha1_round f k (A, B, C, D, E) w = (circularShift 5 A + f B C D + E + w + k, A, circularShift 30 B, C, D)"

fun sha1_add :: "sha1_hash \<Rightarrow> sha1_hash \<Rightarrow> sha1_hash" where
  "sha1_add (p, q, r, s, t) (A, B, C, D, E) = (p + A, q + B, r + C, s + D, t + E)"

definition sha1_block :: "sha1_hash \<Rightarrow> u8 list \<Rightarrow> sha1_hash" where
  "sha1_block h m = (let W = sha1_words m;
     h1 = foldl (sha1_round (\<lambda>B C D. (B AND C) OR (NOT B AND D)) 0x5A827999) h (take 20 W);
     h2 = foldl (sha1_round (\<lambda>B C D. B XOR C XOR D) 0x6ED9EBA1) h1 (take 20 (drop 20 W));
     h3 = foldl (sha1_round (\<lambda>B C D. (B AND C) OR (B AND D) OR (C AND D)) 0x8F1BBCDC) h2 (take 20 (drop 40 W));
     h4 = foldl (sha1_round (\<lambda>B C D. B XOR C XOR D) 0xCA62C1D6) h3 (take 20 (drop 60 W))
   in sha1_add h h4)"

section \<open>The operations\<close>

text \<open>\<open>reset\<close> does not touch the message block.\<close>

definition sha1_iv :: sha1_hash where
  "sha1_iv = (0x67452301, 0xEFCDAB89, 0x98BADCFE, 0x10325476, 0xC3D2E1F0)"

definition sha1_reset :: "CSHA1 \<Rightarrow> CSHA1" where
  "sha1_reset s = s\<lparr>m_nLengthLow := 0, m_nLengthHigh := 0, m_nMessageBlockIndex := 0, m_zH := sha1_iv,
     m_bComputed := False, m_bCorrupted := False\<rparr>"

definition new_sha1 :: "u8 list \<Rightarrow> CSHA1" where
  "new_sha1 junk = sha1_reset \<lparr>m_zH = (0, 0, 0, 0, 0), m_nLengthLow = 0, m_nLengthHigh = 0, m_zMessageBlock = junk,
     m_nMessageBlockIndex = 0, m_bComputed = False, m_bCorrupted = False\<rparr>"

definition processMessageBlock :: "CSHA1 \<Rightarrow> CSHA1" where
  "processMessageBlock s = s\<lparr>m_zH := sha1_block (m_zH s) (m_zMessageBlock s), m_nMessageBlockIndex := 0\<rparr>"

definition put_byte :: "u8 \<Rightarrow> CSHA1 \<Rightarrow> CSHA1" where
  "put_byte x s = s\<lparr>m_zMessageBlock := (m_zMessageBlock s)[m_nMessageBlockIndex s := x], m_nMessageBlockIndex := m_nMessageBlockIndex s + 1\<rparr>"

definition write_byte :: "u8 \<Rightarrow> CSHA1 \<Rightarrow> CSHA1" where
  "write_byte x s = (let
     s = put_byte x s;
     s = s\<lparr>m_nLengthLow := m_nLengthLow s + 8\<rparr>;
     s = (if m_nLengthLow s = 0 then let s = s\<lparr>m_nLengthHigh := m_nLengthHigh s + 1\<rparr>
            in if m_nLengthHigh s = 0 then s\<lparr>m_bCorrupted := True\<rparr> else s
          else s)
   in if m_nMessageBlockIndex s = 64 then processMessageBlock s else s)"

fun write_loop :: "u8 list \<Rightarrow> CSHA1 \<Rightarrow> CSHA1" where
  "write_loop [] s = s"
| "write_loop (x # xs) s = (if m_bCorrupted s then s else write_loop xs (write_byte x s))"

definition sha1_write :: "u8 list \<Rightarrow> CSHA1 \<Rightarrow> CSHA1" where
  "sha1_write d s = (if d = [] then s
     else if m_bComputed s \<or> m_bCorrupted s then s\<lparr>m_bCorrupted := True\<rparr>
     else write_loop d s)"

text \<open>\<open>fill_to\<close>: the loops that put zeros up to an index.\<close>

definition fill_to :: "nat \<Rightarrow> CSHA1 \<Rightarrow> CSHA1" where
  "fill_to n s = (put_byte 0 ^^ (n - m_nMessageBlockIndex s)) s"

definition length_bytes :: "u32 \<Rightarrow> u8 list" where
  "length_bytes w = [ucast (drop_bit 24 w), ucast (drop_bit 16 w), ucast (drop_bit 8 w), ucast w]"

definition padMessage :: "CSHA1 \<Rightarrow> CSHA1" where
  "padMessage s = (let
     s = (if m_nMessageBlockIndex s > 55 then fill_to 56 (processMessageBlock (fill_to 64 (put_byte 128 s)))
          else fill_to 56 (put_byte 128 s))
   in processMessageBlock (s\<lparr>m_zMessageBlock := take 56 (m_zMessageBlock s) @ length_bytes (m_nLengthHigh s) @ length_bytes (m_nLengthLow s)\<rparr>))"

definition sha1_result :: "CSHA1 \<Rightarrow> sha1_hash option \<times> CSHA1" where
  "sha1_result s = (if m_bCorrupted s then (None, s)
     else let s' = (if m_bComputed s then s else (padMessage s)\<lparr>m_bComputed := True\<rparr>) in (Some (m_zH s'), s'))"

section \<open>Writing in pieces\<close>

definition sha1_bits :: "CSHA1 \<Rightarrow> nat" where
  "sha1_bits s = 2 ^ 32 * unat (m_nLengthHigh s) + unat (m_nLengthLow s)"

definition sha1_good :: "nat \<Rightarrow> CSHA1 \<Rightarrow> bool" where
  "sha1_good n s \<longleftrightarrow> length (m_zMessageBlock s) = 64 \<and> m_nMessageBlockIndex s = n mod 64 \<and> sha1_bits s = 8 * n \<and>
     \<not> m_bComputed s \<and> \<not> m_bCorrupted s"

definition sha1_buffered :: "CSHA1 \<Rightarrow> u8 list" where
  "sha1_buffered s = take (m_nMessageBlockIndex s) (m_zMessageBlock s)"

text \<open>The length in two words counts in eights, and carries exactly when the low word is zero.\<close>

lemma length_carry:
  fixes lo hi :: u32
  assumes n: "2 ^ 32 * unat hi + unat lo = 8 * n" and lim: "n + 1 < 2 ^ 61"
  shows "if lo + 8 = 0 then hi + 1 \<noteq> 0 \<and> 2 ^ 32 * unat (hi + 1) + unat (lo + 8) = 8 * (n + 1)
         else 2 ^ 32 * unat hi + unat (lo + 8) = 8 * (n + 1)"
proof -
  have lo: "unat lo < 2 ^ 32" and hi: "unat hi < 2 ^ 32" using unsigned_less [of lo] unsigned_less [of hi] by simp_all
  have p: "unat (lo + 8) = (unat lo + 8) mod 2 ^ 32" by (simp add: unat_word_ariths)
  have "unat lo = 8 * (n - 536870912 * unat hi)" using n by simp
  then have "8 dvd unat lo" by simp
  show ?thesis
  proof (cases "unat lo + 8 = 2 ^ 32")
    case True
    then have z: "lo + 8 = 0" using p by (simp add: unat_eq_zero [symmetric] del: unat_eq_zero)
    have h: "unat hi + 1 < 2 ^ 32" using n lim True by simp
    then have "unat (hi + 1) = unat hi + 1" by (simp add: unat_word_ariths)
    moreover have "hi + 1 \<noteq> 0" using calculation by auto
    ultimately show ?thesis using n z True by simp
  next
    case False
    then have "unat lo + 8 < 2 ^ 32" using lo \<open>8 dvd unat lo\<close> by (auto elim!: dvdE)
    then have u: "unat (lo + 8) = unat lo + 8" using p by simp
    then have "lo + 8 \<noteq> 0" by auto
    with u n show ?thesis by simp
  qed
qed

lemma write_byte_good:
  assumes g: "sha1_good n s" and lim: "n + 1 < 2 ^ 61"
  shows "sha1_good (n + 1) (write_byte x s) \<and>
    m_zH (write_byte x s) = foldl sha1_block (m_zH s) (blocks (sha1_buffered s @ [x])) \<and>
    sha1_buffered (write_byte x s) = left_over (sha1_buffered s @ [x])"
proof -
  let ?i = "m_nMessageBlockIndex s" and ?m = "m_zMessageBlock s"
  have i: "?i < 64" "?i = n mod 64" "length ?m = 64" using g by (simp_all add: sha1_good_def)
  have len: "length (sha1_buffered s @ [x]) = ?i + 1" using i by (simp add: sha1_buffered_def)
  have t: "take (Suc ?i) (?m[?i := x]) = take ?i ?m @ [x]" using i by (simp add: take_Suc_conv_app_nth)
  note c = length_carry [of "m_nLengthHigh s" "m_nLengthLow s" n]
  show ?thesis
  proof (cases "?i = 63")
    case True
    have w: "?m[?i := x] = take ?i ?m @ [x]" using t i True by simp
    have "blocks (sha1_buffered s @ [x]) = [sha1_buffered s @ [x]]" "left_over (sha1_buffered s @ [x]) = []"
      using blocks_block [of "sha1_buffered s @ [x]" "[]"] left_over_block [of "sha1_buffered s @ [x]" "[]"] len True by simp_all
    moreover have "(n + 1) mod 64 = 0" using i True by (simp add: mod_Suc)
    ultimately show ?thesis using g c lim True w
      by (auto simp: sha1_good_def write_byte_def put_byte_def Let_def processMessageBlock_def sha1_buffered_def sha1_bits_def)
  next
    case False
    have l: "length (sha1_buffered s @ [x]) < 64" using len i False by simp
    have "(n + 1) mod 64 = n mod 64 + 1" using i False by (simp add: mod_Suc)
    then show ?thesis using g c lim False t blocks_short [OF l] left_over_short [OF l] i
      by (auto simp: sha1_good_def write_byte_def put_byte_def Let_def sha1_buffered_def sha1_bits_def)
  qed
qed

lemma write_loop_good:
  "sha1_good n s \<Longrightarrow> n + length d < 2 ^ 61 \<Longrightarrow> sha1_good (n + length d) (write_loop d s) \<and>
    m_zH (write_loop d s) = foldl sha1_block (m_zH s) (blocks (sha1_buffered s @ d)) \<and>
    sha1_buffered (write_loop d s) = left_over (sha1_buffered s @ d)"
proof (induction d arbitrary: s n)
  case Nil
  then have "length (sha1_buffered s) < 64" by (simp add: sha1_good_def sha1_buffered_def)
  with Nil show ?case by simp
next
  case (Cons x d)
  have lim: "n + 1 < 2 ^ 61" using Cons.prems(2) by simp
  note w = write_byte_good [OF Cons.prems(1) lim, of x]
  have "n + 1 + length d < 2 ^ 61" using Cons.prems(2) by simp
  from Cons.IH [OF conjunct1 [OF w] this] w blocks_append [of "sha1_buffered s @ [x]" d] Cons.prems(1) show ?case
    by (simp add: sha1_good_def)
qed

lemma sha1_write_good:
  "sha1_good n s \<Longrightarrow> n + length d < 2 ^ 61 \<Longrightarrow> sha1_good (n + length d) (sha1_write d s) \<and>
    m_zH (sha1_write d s) = foldl sha1_block (m_zH s) (blocks (sha1_buffered s @ d)) \<and>
    sha1_buffered (sha1_write d s) = left_over (sha1_buffered s @ d)"
  using write_loop_good [of n s d] by (auto simp: sha1_write_def sha1_good_def)

section \<open>Padding\<close>

lemma put_byte_all:
  assumes "m_nMessageBlockIndex s < 64" "length (m_zMessageBlock s) = 64"
  shows "length (m_zMessageBlock (put_byte x s)) = 64" "m_nMessageBlockIndex (put_byte x s) = m_nMessageBlockIndex s + 1"
    "sha1_buffered (put_byte x s) = sha1_buffered s @ [x]"
    "m_zH (put_byte x s) = m_zH s" "m_nLengthHigh (put_byte x s) = m_nLengthHigh s" "m_nLengthLow (put_byte x s) = m_nLengthLow s"
  using assms by (simp_all add: put_byte_def sha1_buffered_def take_Suc_conv_app_nth)

lemma fill_steps:
  "m_nMessageBlockIndex s + k \<le> 64 \<Longrightarrow> length (m_zMessageBlock s) = 64 \<Longrightarrow>
     (let s' = (put_byte 0 ^^ k) s in length (m_zMessageBlock s') = 64 \<and> m_nMessageBlockIndex s' = m_nMessageBlockIndex s + k \<and>
       sha1_buffered s' = sha1_buffered s @ replicate k 0 \<and> m_zH s' = m_zH s \<and>
       m_nLengthHigh s' = m_nLengthHigh s \<and> m_nLengthLow s' = m_nLengthLow s)"
proof (induction k)
  case (Suc k)
  let ?t = "(put_byte 0 ^^ k) s"
  have t: "length (m_zMessageBlock ?t) = 64" "m_nMessageBlockIndex ?t = m_nMessageBlockIndex s + k"
      "sha1_buffered ?t = sha1_buffered s @ replicate k 0"
    using Suc by (simp_all add: Let_def)
  have i: "m_nMessageBlockIndex ?t < 64" using t Suc.prems by simp
  have r: "sha1_buffered s @ replicate k 0 @ [0] = sha1_buffered s @ replicate (Suc k) (0 :: u8)"
    by (simp add: replicate_append_same)
  from put_byte_all [OF i t(1), of 0] Suc t r show ?case by (simp add: Let_def)
qed (simp add: Let_def)

lemma fill_to_all:
  assumes "m_nMessageBlockIndex s \<le> n" "n \<le> 64" "length (m_zMessageBlock s) = 64"
  shows "length (m_zMessageBlock (fill_to n s)) = 64" "m_nMessageBlockIndex (fill_to n s) = n"
    "sha1_buffered (fill_to n s) = sha1_buffered s @ replicate (n - m_nMessageBlockIndex s) 0"
    "m_zH (fill_to n s) = m_zH s" "m_nLengthHigh (fill_to n s) = m_nLengthHigh s" "m_nLengthLow (fill_to n s) = m_nLengthLow s"
  using fill_steps [of s "n - m_nMessageBlockIndex s"] assms by (simp_all add: Let_def fill_to_def)

definition be_bytes :: "nat \<Rightarrow> nat \<Rightarrow> u8 list" where
  "be_bytes n x = rev (le_bytes n x)"

lemma byte_of_shift: "ucast (drop_bit k w) = (word_of_nat (unat w div 2 ^ k mod 256) :: u8)" for w :: u32
proof -
  have "unat (drop_bit k w) = unat w div 2 ^ k" unfolding unat_drop_bit_eq by (simp add: drop_bit_eq_div)
  then show ?thesis by (simp add: word_unat_eq_iff unsigned_ucast_eq take_bit_eq_mod unat_of_nat)
qed

lemma length_bytes_le: "length_bytes w = rev (le_bytes 4 (unat w))"
proof -
  have "le_bytes (Suc (Suc (Suc (Suc 0)))) (unat w) = [word_of_nat (unat w mod 256), word_of_nat (unat w div 256 mod 256),
      word_of_nat (unat w div 65536 mod 256), word_of_nat (unat w div 16777216 mod 256)]"
    by (simp add: div_mult2_eq [symmetric])
  moreover have "(4 :: nat) = Suc (Suc (Suc (Suc 0)))" by simp
  ultimately show ?thesis using byte_of_shift [of 0 w] byte_of_shift [of 8 w] byte_of_shift [of 16 w] byte_of_shift [of 24 w]
    by (simp only: length_bytes_def drop_bit_0 power_0 div_by_1) simp
qed

lemma length_bytes_be:
  assumes "2 ^ 32 * unat hi + unat lo = N"
  shows "length_bytes hi @ length_bytes lo = be_bytes 8 N"
proof -
  have lo: "unat lo < 256 ^ 4" using unsigned_less [of lo] by simp
  have N: "N = unat lo + unat hi * 256 ^ 4" using assms by simp
  have d: "N div 256 ^ 4 = unat hi" "N mod 256 ^ 4 = unat lo" unfolding N using lo by simp_all
  have "le_bytes (4 + 4) N = le_bytes 4 N @ le_bytes 4 (N div 256 ^ 4)" by (rule le_bytes_add)
  also have "le_bytes 4 N = le_bytes 4 (unat lo)" using le_bytes_mod [of 4 N] d by simp
  finally have "le_bytes 8 N = le_bytes 4 (unat lo) @ le_bytes 4 (unat hi)" using d by simp
  then show ?thesis by (simp add: be_bytes_def length_bytes_le)
qed

lemma padMessage_blocks:
  assumes g: "sha1_good n s"
  shows "m_zH (padMessage s) = foldl sha1_block (m_zH s) (blocks (sha1_buffered s @ padding (be_bytes 8) n))"
proof -
  let ?k = "m_nMessageBlockIndex s" and ?b = "sha1_buffered s"
  have k: "?k = n mod 64" "?k < 64" "length (m_zMessageBlock s) = 64" and bl: "length ?b = ?k"
    using g by (simp_all add: sha1_good_def sha1_buffered_def)
  have len: "length_bytes (m_nLengthHigh s) @ length_bytes (m_nLengthLow s) = be_bytes 8 (8 * n)"
    by (rule length_bytes_be) (use g in \<open>simp add: sha1_good_def sha1_bits_def\<close>)
  have be: "length (be_bytes 8 (8 * n)) = 8" by (simp add: be_bytes_def)
  note p = put_byte_all [OF k(2,3), of 128]
  have all: "sha1_buffered t = m_zMessageBlock t" if "m_nMessageBlockIndex t = 64" "length (m_zMessageBlock t) = 64" for t
    using that by (simp add: sha1_buffered_def)
  show ?thesis
  proof (cases "?k > 55")
    case True
    let ?f = "fill_to 64 (put_byte 128 s)"
    note f = fill_to_all [of "put_byte 128 s" 64]
    have f: "length (m_zMessageBlock ?f) = 64" "m_nMessageBlockIndex ?f = 64" "m_zMessageBlock ?f = ?b @ 128 # replicate (64 - (?k + 1)) 0"
        "m_zH ?f = m_zH s" "m_nLengthHigh ?f = m_nLengthHigh s" "m_nLengthLow ?f = m_nLengthLow s"
      using f p k all [of ?f] by simp_all
    let ?q = "processMessageBlock ?f"
    note q = fill_to_all [of ?q 56]
    have q: "take 56 (m_zMessageBlock (fill_to 56 ?q)) = replicate 56 0" "m_zH (fill_to 56 ?q) = sha1_block (m_zH s) (m_zMessageBlock ?f)"
        "m_nLengthHigh (fill_to 56 ?q) = m_nLengthHigh s" "m_nLengthLow (fill_to 56 ?q) = m_nLengthLow s"
      using q f by (simp_all add: processMessageBlock_def sha1_buffered_def)
    have "m_zH (padMessage s) = sha1_block (sha1_block (m_zH s) (m_zMessageBlock ?f)) (replicate 56 0 @ be_bytes 8 (8 * n))"
      using True q len by (simp add: padMessage_def Let_def processMessageBlock_def)
    moreover have "blocks (?b @ padding (be_bytes 8) n) = [m_zMessageBlock ?f, replicate 56 0 @ be_bytes 8 (8 * n)]"
      using blocks_block [OF f(1), of "replicate 56 0 @ be_bytes 8 (8 * n)"] blocks_one [of "replicate 56 0 @ be_bytes 8 (8 * n)"]
        padding_split(1) [OF k(1) True] f(3) be by simp
    ultimately show ?thesis by simp
  next
    case False
    let ?f = "fill_to 56 (put_byte 128 s)"
    note f = fill_to_all [of "put_byte 128 s" 56]
    have f: "take 56 (m_zMessageBlock ?f) = ?b @ 128 # replicate (56 - (?k + 1)) 0"
        "m_zH ?f = m_zH s" "m_nLengthHigh ?f = m_nLengthHigh s" "m_nLengthLow ?f = m_nLengthLow s"
      using f p k False by (simp_all add: sha1_buffered_def)
    let ?l = "?b @ (128 # replicate (56 - (?k + 1)) 0) @ be_bytes 8 (8 * n)"
    have "length ?l = 64" using False bl be by simp
    then have "blocks ?l = [?l]" by (rule blocks_one)
    moreover have "m_zH (padMessage s) = sha1_block (m_zH s) ?l"
      using False f len by (simp add: padMessage_def Let_def processMessageBlock_def)
    ultimately show ?thesis using padding_split(2) [OF k(1), of "be_bytes 8"] False by simp
  qed
qed

lemma new_sha1_good: "length junk = 64 \<Longrightarrow> sha1_good 0 (new_sha1 junk) \<and> m_zH (new_sha1 junk) = sha1_iv \<and> sha1_buffered (new_sha1 junk) = []"
  by (simp add: sha1_good_def new_sha1_def sha1_reset_def sha1_buffered_def sha1_bits_def)

interpretation sha1: streaming_hash sha1_block "be_bytes 8" sha1_iv "\<lambda>n. n < 2 ^ 61" sha1_good m_zH sha1_buffered
  sha1_write "\<lambda>s. m_zH (padMessage s)"
  by unfold_locales (simp_all add: sha1_write_good padMessage_blocks)

lemma sha1_pieces:
  assumes junk: "length junk = 64" and lim: "length (concat ds) < 2 ^ 61"
  shows "fst (sha1_result (foldl (\<lambda>s d. sha1_write d s) (new_sha1 junk) ds)) = Some (digest sha1_block (be_bytes 8) sha1_iv (concat ds))"
proof -
  note n = new_sha1_good [OF junk]
  let ?s = "foldl (\<lambda>s d. sha1_write d s) (new_sha1 junk) ds"
  have "sha1_good (length (concat ds)) ?s" using sha1.after_feeds [OF _ _ _ lim, of "new_sha1 junk"] n by (simp add: Let_def)
  moreover have "m_zH (padMessage ?s) = digest sha1_block (be_bytes 8) sha1_iv (concat ds)"
    using sha1.pieces_do_not_matter [OF _ _ _ lim, of "new_sha1 junk"] n by simp
  ultimately show ?thesis by (simp add: sha1_result_def sha1_good_def Let_def)
qed

lemma sha1_once: "length junk = 64 \<Longrightarrow> length d < 2 ^ 61 \<Longrightarrow>
    fst (sha1_result (sha1_write d (new_sha1 junk))) = Some (digest sha1_block (be_bytes 8) sha1_iv d)"
  using sha1_pieces [of junk "[d]"] by simp

text \<open>
  C38: However a message of less than \<open>2 ^ 61\<close> bytes is written, and whatever the uninitialised block of a new
  object holds, the result is the digest of the message with its padding.
\<close>

theorem sha1_of_pieces:
  assumes "length junk = 64" "length (concat ds) < 2 ^ 61"
  shows "fst (sha1_result (foldl (\<lambda>s d. sha1_write d s) (new_sha1 junk) ds)) = Some (digest sha1_block (be_bytes 8) sha1_iv (concat ds))"
  using assms by (rule sha1_pieces)

theorem sha1_of_pieces_witness:
  "fst (sha1_result (sha1_write [98, 99] (sha1_write [] (sha1_write [97] (new_sha1 (replicate 64 7)))))) =
     Some (digest sha1_block (be_bytes 8) sha1_iv [97, 98, 99])"
  using sha1_of_pieces [of "replicate 64 7" "[[97], [], [98, 99]]"] by simp

end
