(* ===== verification/Websocket.thy ===== *)
theory Websocket imports Http Sha1 Encodings Core_Connection begin

text \<open>
  Connections of websockets (\<open>libCoreCommon/core_websocket_connection.cpp\<close>): the handshake, the frames
  that are received and sent.  A result \<open>None\<close> of a loop stands for one that never returns, \<open>Bad_read\<close>
  for a read outside of the data.  The shared buffer has the capacity it was reserved with.
\<close>

datatype EWebSocketState = eWSS_None | eWSS_Connectting | eWSS_Connected | eWSS_Disconnectting | eWSS_Disconnected

datatype EWebsocketFrameType = eWFT_INCOMPLETE_FRAME | eWFT_INCOMPLETE_TEXT_FRAME | eWFT_INCOMPLETE_BINARY_FRAME
  | eWFT_TEXT_FRAME | eWFT_BINARY_FRAME | eWFT_CLOSE_FRAME | eWFT_PING_FRAME | eWFT_PONG_FRAME

definition eWO_OPCODE_CONTINUE :: u8 where "eWO_OPCODE_CONTINUE = 0"
definition eWO_OPCODE_TEXT :: u8 where "eWO_OPCODE_TEXT = 1"
definition eWO_OPCODE_BINARY :: u8 where "eWO_OPCODE_BINARY = 2"
definition eWO_OPCODE_CLOSE :: u8 where "eWO_OPCODE_CLOSE = 8"
definition eWO_OPCODE_PING :: u8 where "eWO_OPCODE_PING = 9"
definition eWO_OPCODE_PONG :: u8 where "eWO_OPCODE_PONG = 10"

definition buf_capacity :: nat where "buf_capacity = 65535"
definition kPayloadSizeBasic :: nat where "kPayloadSizeBasic = 125"
definition kPayloadSizeExtended :: nat where "kPayloadSizeExtended = 65535"

record SWebsocketHeader =
  bFin :: bool
  nOpcode :: u8
  bMasked :: bool
  nPayloadLength :: nat
  zMaskingKey :: "u8 list"

datatype ws_event = Ws_notify_connect | Ws_recv_data nat bstr

record ws_conn =
  m_eWebSocketState :: EWebSocketState
  m_pHttpRequestParser :: CHttpRequestParser
  ws_core_state :: cc_state
  ws_live :: bool                \<comment> \<open>\<open>m_pNetConnecter\<close> is not null\<close>
  ws_passive :: bool             \<comment> \<open>its mode\<close>
  ws_out :: "bstr list"          \<comment> \<open>what was given to the connecter, not in the code\<close>
  ws_shut :: "bool list"         \<comment> \<open>the shutdowns asked of it, not in the code\<close>
  ws_events :: "ws_event list"   \<comment> \<open>what was queued for the service\<close>

definition new_ws :: "bool \<Rightarrow> ws_conn" where
  "new_ws passive = \<lparr>m_eWebSocketState = eWSS_None, m_pHttpRequestParser = new_parser, ws_core_state = CCS_None, ws_live = True,
     ws_passive = passive, ws_out = [], ws_shut = [], ws_events = []\<rparr>"

section \<open>Frames\<close>

definition mask_bytes :: "u8 list \<Rightarrow> bstr \<Rightarrow> bstr" where
  "mask_bytes key d = map (\<lambda>i. d ! i XOR key ! (i mod 4)) [0..<length d]"

text \<open>What \<open>unserializeFrame\<close> returns: the number, and the type and the payload when it sets them.\<close>

datatype ws_frame_result = Frame nat EWebsocketFrameType bstr | Frame_error | Frame_bad_read

definition frame_opcode :: "bool \<Rightarrow> u8 \<Rightarrow> nat \<Rightarrow> bstr \<Rightarrow> ws_frame_result" where
  "frame_opcode fin op nFrameSize buf =
     (if op = eWO_OPCODE_CONTINUE then (if fin then Frame nFrameSize eWFT_TEXT_FRAME buf else Frame 0 eWFT_INCOMPLETE_TEXT_FRAME buf)
      else if op = eWO_OPCODE_TEXT then (if fin then Frame nFrameSize eWFT_TEXT_FRAME buf else Frame 0 eWFT_INCOMPLETE_TEXT_FRAME buf)
      else if op = eWO_OPCODE_BINARY then (if fin then Frame nFrameSize eWFT_BINARY_FRAME buf else Frame 0 eWFT_INCOMPLETE_BINARY_FRAME buf)
      else if op = eWO_OPCODE_CLOSE then Frame nFrameSize eWFT_CLOSE_FRAME buf
      else if op = eWO_OPCODE_PING then Frame nFrameSize eWFT_PING_FRAME buf
      else if op = eWO_OPCODE_PONG then Frame nFrameSize eWFT_PONG_FRAME buf
      else Frame_error)"

definition frame_body :: "bstr \<Rightarrow> nat \<Rightarrow> nat \<Rightarrow> ws_frame_result" where
  "frame_body pData nPayload nPos = (let fin = bit (pData ! 0) 7; op = pData ! 0 AND 0x0F; masked = bit (pData ! 1) 7;
     nFrameSize = nPayload + nPos + (if masked then 4 else 0) in
     if length pData < nFrameSize then Frame 0 eWFT_INCOMPLETE_FRAME []
     else if nPayload > buf_capacity then Frame_error
     else frame_opcode fin op nFrameSize
       (if masked \<and> nPayload > 0 then mask_bytes (take 4 (drop nPos pData)) (take nPayload (drop (nPos + 4) pData)) else []))"

definition unserializeFrame :: "bstr \<Rightarrow> ws_frame_result" where
  "unserializeFrame pData = (if length pData < 3 then Frame 0 eWFT_INCOMPLETE_FRAME []
     else let nLengthField = unat (pData ! 1 AND 0x7F) in
       if nLengthField \<le> kPayloadSizeBasic then frame_body pData nLengthField 2
       else if nLengthField = 126 then (if length pData < 4 then Frame_bad_read
         else frame_body pData (unat (pData ! 2) * 256 + unat (pData ! 3)) 4)
       else Frame_error)"

text \<open>With a mask, the bytes that are changed are the first ones of the frame and not those of the payload.\<close>

definition xor_first :: "u8 list \<Rightarrow> nat \<Rightarrow> bstr \<Rightarrow> bstr" where
  "xor_first key n buf = mask_bytes key (take n buf) @ drop n buf"

definition serializeFrame :: "SWebsocketHeader \<Rightarrow> bstr \<Rightarrow> bstr option" where
  "serializeFrame h pData = (let n = nPayloadLength h in
     if n + 10 \<ge> buf_capacity then None
     else let b0 = (if bFin h then 0x80 else 0) OR nOpcode h; m = (if bMasked h then 0x80 else 0 :: u8) in
       if n > kPayloadSizeExtended then None
       else let head = b0 # (if n \<le> kPayloadSizeBasic then [m OR of_nat n]
                 else [m OR 126, of_nat (n div 256 mod 256), of_nat (n mod 256)]) in
         Some (if bMasked h then xor_first (zMaskingKey h) n (head @ zMaskingKey h @ pData) else head @ pData))"

section \<open>Sending\<close>

definition ws_shutdown :: "bool \<Rightarrow> ws_conn \<Rightarrow> ws_conn" where
  "ws_shutdown force w = w\<lparr>ws_shut := ws_shut w @ [force]\<rparr>"

definition ws_put :: "bstr \<Rightarrow> ws_conn \<Rightarrow> ws_conn" where
  "ws_put d w = w\<lparr>ws_out := ws_out w @ [d]\<rparr>"

definition sendFrame :: "u8 \<Rightarrow> bstr \<Rightarrow> ws_conn \<Rightarrow> ws_conn" where
  "sendFrame op d w = (if \<not> ws_live w then w else if m_eWebSocketState w \<noteq> eWSS_Connected then w
     else case serializeFrame \<lparr>bFin = True, nOpcode = op, bMasked = False, nPayloadLength = length d, zMaskingKey = []\<rparr> d of
       None \<Rightarrow> ws_shutdown True w
     | Some f \<Rightarrow> ws_put f w)"

definition ws_send :: "u8 \<Rightarrow> bstr \<Rightarrow> ws_conn \<Rightarrow> ws_conn" where
  "ws_send nMessageType d w = sendFrame eWO_OPCODE_BINARY d w"

section \<open>The handshake\<close>

definition kWebSocketMagic :: bstr where "kWebSocketMagic = ascii ''258EAFA5-E914-47DA-95CA-C5AB0DC85B11''"

text \<open>The digest as the words are stored, in the order of the network.\<close>

fun digest_bytes :: "sha1_hash \<Rightarrow> bstr" where
  "digest_bytes (a, b, c, d, e) = length_bytes a @ length_bytes b @ length_bytes c @ length_bytes d @ length_bytes e"

definition handshark :: "u8 list \<Rightarrow> CHttpRequest \<Rightarrow> ws_conn \<Rightarrow> bool \<times> ws_conn" where
  "handshark junk r w = (if m_eMethod r \<noteq> eHMT_Get then (False, w)
     else case getHeader (ascii ''Sec-WebSocket-Key'') r of None \<Rightarrow> (False, w)
     | Some szServerKey \<Rightarrow> (case fst (sha1_result (sha1_write (szServerKey @ kWebSocketMagic) (new_sha1 junk))) of None \<Rightarrow> (False, w)
       | Some zMessageDigest \<Rightarrow> (case base64_encode (digest_bytes zMessageDigest) 256 of None \<Rightarrow> (False, w)
         | Some szAccept \<Rightarrow>
           let rs = rs_addHeader (ascii ''Sec-WebSocket-Accept'') szAccept (rs_addHeader (ascii ''Sec-WebSocket-Version'') (ascii ''13'')
               (rs_addHeader (ascii ''Upgrade'') (ascii ''WebSocket'') (rs_addHeader (ascii ''Connection'') (ascii ''Upgrade'')
                 (new_response\<lparr>m_nStatusCode := 101, m_szStatusMessage := ascii ''Switching Protocols''\<rparr>))))
           in if \<not> ws_live w then (False, w) else (True, ws_put (serialize rs) w))))"

definition bad_request :: bstr where
  "bad_request = ascii ''HTTP/1.1 400 Bad Request'' @ crlf @ ascii ''Content-Type: text/plain'' @ crlf @ ascii ''Connection: close'' @ crlf @ crlf @
     ascii ''400 Bad Request'' @ [10, 0]"

definition bad_handshark :: bstr where
  "bad_handshark = ascii ''HTTP/1.1 400 Bad Handshark'' @ crlf @ ascii ''Content-Type: text/plain'' @ crlf @ ascii ''Connection: close'' @ crlf @ crlf @
     ascii ''400 Bad Handshark'' @ [10, 0]"

definition ws_onConnect :: "ws_conn \<Rightarrow> ws_conn" where
  "ws_onConnect w = w\<lparr>m_eWebSocketState := eWSS_Connectting\<rparr>"

section \<open>Receiving\<close>

datatype ws_result = Returned nat ws_conn | Bad_read

definition ws_handshake_recv :: "u8 list \<Rightarrow> bstr \<Rightarrow> ws_conn \<Rightarrow> ws_result option" where
  "ws_handshake_recv junk d w = (if \<not> ws_passive w then Some (Returned (length d) (ws_shutdown True w))
     else case parseRequest d (m_pHttpRequestParser w) of None \<Rightarrow> None
     | Some Bad_access \<Rightarrow> Some Bad_read
     | Some (Parsed False p) \<Rightarrow> Some (Returned (length d) (ws_shutdown False (ws_put bad_request (w\<lparr>m_pHttpRequestParser := p\<rparr>))))
     | Some (Parsed True p) \<Rightarrow> (let w = w\<lparr>m_pHttpRequestParser := p\<rparr>; nRecvSize = m_nParseDataCount p in
         if m_eParseState p = eHPS_Finish then
           (case handshark junk (m_request p) w of
              (False, w) \<Rightarrow> Some (Returned (length d) (ws_shutdown False (ws_put bad_handshark w)))
            | (True, w) \<Rightarrow> Some (Returned nRecvSize (w\<lparr>m_eWebSocketState := eWSS_Connected, ws_core_state := CCS_Connectting,
                ws_events := ws_events w @ [Ws_notify_connect], m_pHttpRequestParser := parser_reset p\<rparr>)))
         else Some (Returned nRecvSize w)))"

partial_function (option) ws_loop :: "bstr \<Rightarrow> nat \<Rightarrow> ws_conn \<Rightarrow> ws_result option" where
  "ws_loop pData nRecvSize w = (if nRecvSize \<ge> length pData then Some (Returned nRecvSize w)
     else case unserializeFrame (drop nRecvSize pData) of
       Frame_bad_read \<Rightarrow> Some Bad_read
     | Frame_error \<Rightarrow> Some (Returned (length pData) (ws_shutdown True w))
     | Frame n ty buf \<Rightarrow>
         if ty = eWFT_CLOSE_FRAME then Some (Returned (nRecvSize + n) ((sendFrame eWO_OPCODE_CLOSE [] w)\<lparr>m_eWebSocketState := eWSS_Disconnectting\<rparr>))
         else if ty = eWFT_PONG_FRAME then
           Some (Returned (nRecvSize + n) (if m_eWebSocketState w \<noteq> eWSS_Connected then sendFrame eWO_OPCODE_PONG [] w else w))
         else ws_loop pData (nRecvSize + n)
           (if ty = eWFT_TEXT_FRAME \<or> ty = eWFT_BINARY_FRAME
            then w\<lparr>ws_events := ws_events w @ [Ws_recv_data MT_CLIENT buf]\<rparr> else w))"

declare ws_loop.simps [code]

definition ws_onRecv :: "u8 list \<Rightarrow> bstr \<Rightarrow> ws_conn \<Rightarrow> ws_result option" where
  "ws_onRecv junk d w = (if m_eWebSocketState w = eWSS_Connectting then ws_handshake_recv junk d w else ws_loop d 0 w)"

end
