(* ===== verification/Websocket_Props.thy ===== *)
theory Websocket_Props imports Websocket begin

text \<open>
  What holds of the frames: whole frames are delivered in order, a read that ends within a frame is the
  end of the network thread, and the frames that are sent are those of the protocol.
\<close>

section \<open>The frames of a client\<close>

text \<open>A frame as a client sends it: final, with a mask, and the length in one byte or in three.\<close>

type_synonym client_message = "u8 \<times> u8 list \<times> bstr"

definition size_bytes :: "u8 \<Rightarrow> nat \<Rightarrow> bstr" where
  "size_bytes m n = (if n \<le> 125 then [m OR of_nat n] else [m OR 126, of_nat (n div 256 mod 256), of_nat (n mod 256)])"

fun client_frame :: "client_message \<Rightarrow> bstr" where
  "client_frame (op, key, d) = (0x80 OR op) # size_bytes 0x80 (length d) @ key @ mask_bytes key d"

fun message_ok :: "client_message \<Rightarrow> bool" where
  "message_ok (op, key, d) \<longleftrightarrow> (op = eWO_OPCODE_TEXT \<or> op = eWO_OPCODE_BINARY) \<and> length key = 4 \<and> d \<noteq> [] \<and> length d \<le> 65535"

fun message_data :: "client_message \<Rightarrow> bstr" where
  "message_data (op, key, d) = d"

lemma mask_length [simp]: "length (mask_bytes key d) = length d"
  by (simp add: mask_bytes_def)

lemma mask_twice [simp]: "mask_bytes key (mask_bytes key d) = d"
  by (rule nth_equalityI) (simp_all add: mask_bytes_def xor.assoc)

lemma small_size: "n \<le> 125 \<Longrightarrow> unat ((0x80 OR of_nat n) AND 0x7F :: u8) = n \<and> bit (0x80 OR of_nat n :: u8) 7 \<and>
    unat (of_nat n AND 0x7F :: u8) = n \<and> \<not> bit (of_nat n :: u8) 7"
proof -
  have "\<forall>n \<in> set [0..<126]. unat ((0x80 OR of_nat n) AND 0x7F :: u8) = n \<and> bit (0x80 OR of_nat n :: u8) 7 \<and>
    unat (of_nat n AND 0x7F :: u8) = n \<and> \<not> bit (of_nat n :: u8) 7" by code_simp
  then show "n \<le> 125 \<Longrightarrow> ?thesis" by simp
qed

lemma opcode_bits:
  "op = eWO_OPCODE_TEXT \<or> op = eWO_OPCODE_BINARY \<Longrightarrow> bit (0x80 OR op) 7 \<and> (0x80 OR op) AND 0x0F = op"
  by (auto simp: eWO_OPCODE_TEXT_def eWO_OPCODE_BINARY_def bit_or_iff)

lemma big_size: "n \<le> 65535 \<Longrightarrow> unat (of_nat (n div 256 mod 256) :: u8) * 256 + unat (of_nat (n mod 256) :: u8) = n"
  by (simp add: unat_of_nat)

definition frame_type :: "u8 \<Rightarrow> EWebsocketFrameType" where
  "frame_type op = (if op = eWO_OPCODE_TEXT then eWFT_TEXT_FRAME else eWFT_BINARY_FRAME)"

lemma unserialize_client:
  assumes ok: "message_ok (op, key, d)"
  shows "unserializeFrame (client_frame (op, key, d) @ more_data) = Frame (length (client_frame (op, key, d))) (frame_type op) d"
proof -
  have a: "op = eWO_OPCODE_TEXT \<or> op = eWO_OPCODE_BINARY" "length key = 4" "d \<noteq> []" "length d \<le> 65535" using ok by simp_all
  note b = opcode_bits [OF a(1)]
  have t: "frame_opcode True op n d = Frame n (frame_type op) d" for n
    using a(1) by (auto simp: frame_opcode_def frame_type_def eWO_OPCODE_TEXT_def eWO_OPCODE_BINARY_def eWO_OPCODE_CONTINUE_def)
  show ?thesis
  proof (cases "length d \<le> 125")
    case True
    then show ?thesis using a b t small_size [OF True]
      by (simp add: unserializeFrame_def frame_body_def Let_def size_bytes_def kPayloadSizeBasic_def buf_capacity_def)
  next
    case False
    have s: "unat ((0x80 OR 126) AND 0x7F :: u8) = 126" "bit (0x80 OR 126 :: u8) 7" by code_simp+
    show ?thesis using a b t s big_size [OF a(4)] False
      by (simp add: unserializeFrame_def frame_body_def Let_def size_bytes_def kPayloadSizeBasic_def buf_capacity_def)
  qed
qed

lemma client_frame_length:
  "message_ok (op, key, d) \<Longrightarrow> length (client_frame (op, key, d)) = length d + (if length d \<le> 125 then 6 else 8)"
  by (simp add: size_bytes_def)

text \<open>A part of a frame: nothing is taken, or a byte behind the data is read.\<close>

lemma unserialize_short: "length p < 3 \<Longrightarrow> unserializeFrame p = Frame 0 eWFT_INCOMPLETE_FRAME []"
  by (simp add: unserializeFrame_def)

lemma unserialize_part:
  assumes ok: "message_ok (op, key, d)" and k: "k < length (client_frame (op, key, d))"
  shows "unserializeFrame (take k (client_frame (op, key, d))) \<in> {Frame 0 eWFT_INCOMPLETE_FRAME [], Frame_bad_read}"
proof -
  have a: "length key = 4" "length d \<le> 65535" using ok by simp_all
  note l = k [unfolded client_frame_length [OF ok]]
  show ?thesis
  proof (cases "k < 3")
    case False
    let ?p = "take k (client_frame (op, key, d))"
    have n: "?p ! 1 = client_frame (op, key, d) ! 1" "length ?p = k" using False k by simp_all
    show ?thesis
    proof (cases "length d \<le> 125")
      case True
      then have "?p ! 1 = 0x80 OR of_nat (length d)" using n by (simp add: size_bytes_def)
      then show ?thesis using True False n l small_size [OF True]
        by (simp add: unserializeFrame_def frame_body_def Let_def kPayloadSizeBasic_def del: client_frame.simps)
    next
      case big: False
      have s: "unat ((0x80 OR 126) AND 0x7F :: u8) = 126" "bit (0x80 OR 126 :: u8) 7" by code_simp+
      have p1: "?p ! 1 = 0x80 OR 126" using big n by (simp add: size_bytes_def)
      show ?thesis
      proof (cases "k = 3")
        case True
        then show ?thesis using p1 n s by (simp add: unserializeFrame_def Let_def kPayloadSizeBasic_def del: client_frame.simps)
      next
        case k4: False
        have "?p ! 2 = of_nat (length d div 256 mod 256)" "?p ! 3 = of_nat (length d mod 256)"
          using big False k4 k by (simp_all add: size_bytes_def numeral_3_eq_3 numeral_2_eq_2)
        then have z: "unat (?p ! 2) * 256 + unat (?p ! 3) = length d" using big_size [OF a(2)] by (simp only:)
        have "unserializeFrame ?p = frame_body ?p (length d) 4"
          using p1 n(2) s z False k4 by (simp only: unserializeFrame_def Let_def kPayloadSizeBasic_def) simp
        moreover have "frame_body ?p (length d) 4 = Frame 0 eWFT_INCOMPLETE_FRAME []"
          using p1 n(2) s l big by (simp only: frame_body_def Let_def) simp
        ultimately show ?thesis by simp
      qed
    qed
  next
    case True
    then have "length (take k (client_frame (op, key, d))) < 3" by (simp add: min_def del: client_frame.simps)
    from unserialize_short [OF this] show ?thesis by (simp only: insert_iff simp_thms)
  qed
qed

section \<open>Reads\<close>

definition delivered :: "client_message list \<Rightarrow> ws_conn \<Rightarrow> ws_conn" where
  "delivered ms w = w\<lparr>ws_events := ws_events w @ map (\<lambda>m. Ws_recv_data MT_CLIENT (message_data m)) ms\<rparr>"

lemma ws_loop_frames:
  "\<forall>m \<in> set ms. message_ok m \<Longrightarrow> d = pre @ concat (map client_frame ms) @ tail \<Longrightarrow>
     ws_loop d (length pre) w = ws_loop d (length pre + length (concat (map client_frame ms))) (delivered ms w)"
proof (induction ms arbitrary: pre w)
  case (Cons m ms)
  obtain op key x where m: "m = (op, key, x)" by (cases m)
  then have ok: "message_ok (op, key, x)" using Cons.prems(1) by simp
  let ?f = "client_frame (op, key, x)"
  have d: "drop (length pre) d = ?f @ (concat (map client_frame ms) @ tail)" and l: "length pre < length d"
    using Cons.prems(2) m by simp_all
  have ty: "frame_type op = eWFT_TEXT_FRAME \<or> frame_type op = eWFT_BINARY_FRAME" "frame_type op \<noteq> eWFT_CLOSE_FRAME" "frame_type op \<noteq> eWFT_PONG_FRAME"
    by (simp_all add: frame_type_def)
  have "ws_loop d (length pre) w = ws_loop d (length pre + length ?f) (delivered [m] w)"
    using unserialize_client [OF ok, of "concat (map client_frame ms) @ tail"] l ty
    by (subst ws_loop.simps) (simp add: d m delivered_def del: client_frame.simps)
  also have "\<dots> = ws_loop d (length (pre @ ?f)) (delivered [m] w)" by (simp del: client_frame.simps)
  also have "\<dots> = ws_loop d (length (pre @ ?f) + length (concat (map client_frame ms))) (delivered ms (delivered [m] w))"
    by (rule Cons.IH) (use Cons.prems m in \<open>simp_all del: client_frame.simps\<close>)
  also have "delivered ms (delivered [m] w) = delivered (m # ms) w" by (simp add: delivered_def)
  finally show ?case using m by (simp add: add.assoc del: client_frame.simps)
qed (simp add: delivered_def)

lemma ws_stuck:
  "ws_loop d n w = Some r \<Longrightarrow> \<not> (n < length d \<and> unserializeFrame (drop n d) = Frame 0 eWFT_INCOMPLETE_FRAME [])"
proof (rule ws_loop.raw_induct [where P = "\<lambda>d n w r. \<not> (n < length d \<and> unserializeFrame (drop n d) = Frame 0 eWFT_INCOMPLETE_FRAME [])"])
  fix f d n w r
  assume ih: "\<And>d n w r. f d n w = Some r \<Longrightarrow> \<not> (n < length d \<and> unserializeFrame (drop n d) = Frame 0 eWFT_INCOMPLETE_FRAME [])"
    and body: "(if length d \<le> n then Some (Returned n w)
     else case unserializeFrame (drop n d) of
       Frame k ty buf \<Rightarrow>
         if ty = eWFT_CLOSE_FRAME then Some (Returned (n + k) ((sendFrame eWO_OPCODE_CLOSE [] w)\<lparr>m_eWebSocketState := eWSS_Disconnectting\<rparr>))
         else if ty = eWFT_PONG_FRAME then
           Some (Returned (n + k) (if m_eWebSocketState w \<noteq> eWSS_Connected then sendFrame eWO_OPCODE_PONG [] w else w))
         else f d (n + k)
           (if ty = eWFT_TEXT_FRAME \<or> ty = eWFT_BINARY_FRAME
            then w\<lparr>ws_events := ws_events w @ [Ws_recv_data MT_CLIENT buf]\<rparr> else w)
     | Frame_error \<Rightarrow> Some (Returned (length d) (ws_shutdown True w))
     | Frame_bad_read \<Rightarrow> Some Bad_read) = Some r"
  show "\<not> (n < length d \<and> unserializeFrame (drop n d) = Frame 0 eWFT_INCOMPLETE_FRAME [])"
  proof
    assume a: "n < length d \<and> unserializeFrame (drop n d) = Frame 0 eWFT_INCOMPLETE_FRAME []"
    then have "f d n w = Some r" using body by simp
    from ih [OF this] a show False by blast
  qed
qed

lemma ws_loop_whole:
  assumes "\<forall>m \<in> set ms. message_ok m"
  shows "ws_loop (concat (map client_frame ms)) 0 w = Some (Returned (length (concat (map client_frame ms))) (delivered ms w))"
proof -
  let ?d = "concat (map client_frame ms)"
  have "ws_loop ?d 0 w = ws_loop ?d (length ?d) (delivered ms w)" using ws_loop_frames [OF assms, of ?d "[]" "[]" w] by simp
  also have "\<dots> = Some (Returned (length ?d) (delivered ms w))" by (subst ws_loop.simps) simp
  finally show ?thesis .
qed



text \<open>Two frames and a half.\<close>

definition two_messages :: "client_message list" where
  "two_messages = [(eWO_OPCODE_TEXT, [1, 2, 3, 4], [104, 105]), (eWO_OPCODE_BINARY, [9, 8, 7, 6], replicate 200 5)]"

definition open_ws :: ws_conn where
  "open_ws = (new_ws True)\<lparr>m_eWebSocketState := eWSS_Connected\<rparr>"



section \<open>The frames that are sent\<close>

text \<open>The frames of the protocol, with all three sizes: the end flag, the code, the mask flag, the payload and what follows.\<close>

definition be_nat :: "bstr \<Rightarrow> nat" where
  "be_nat xs = foldl (\<lambda>a b. 256 * a + unat b) 0 xs"

definition rfc_frame :: "bstr \<Rightarrow> (bool \<times> u8 \<times> bool \<times> bstr \<times> bstr) option" where
  "rfc_frame f = (if length f < 2 then None
     else let n = unat (f ! 1 AND 0x7F); masked = bit (f ! 1) 7;
       off = (if n = 126 then 4 else if n = 127 then 10 else 2);
       len = (if n = 126 then be_nat (take 2 (drop 2 f)) else if n = 127 then be_nat (take 8 (drop 2 f)) else n);
       start = off + (if masked then 4 else 0);
       d = take len (drop start f)
     in if length f < start + len then None
        else Some (bit (f ! 0) 7, f ! 0 AND 0x0F, masked, if masked then mask_bytes (take 4 (drop off f)) d else d, drop (start + len) f))"

lemma serialize_decodes:
  assumes op: "op = eWO_OPCODE_TEXT \<or> op = eWO_OPCODE_BINARY" and n: "length d + 10 < 65535"
  shows "\<exists>f. serializeFrame \<lparr>bFin = True, nOpcode = op, bMasked = False, nPayloadLength = length d, zMaskingKey = []\<rparr> d = Some f \<and>
    rfc_frame (f @ more_data) = Some (True, op, False, d, more_data)"
proof (cases "length d \<le> 125")
  case True
  note s = small_size [OF True]
  show ?thesis using True n s opcode_bits [OF op]
    by (simp add: serializeFrame_def Let_def buf_capacity_def kPayloadSizeBasic_def kPayloadSizeExtended_def rfc_frame_def)
next
  case False
  obtain x y :: u8 where xy: "x = of_nat (length d div 256 mod 256)" "y = of_nat (length d mod 256)" by blast
  have b: "unat x * 256 + unat y = length d" unfolding xy by (rule big_size) (use n in simp)
  have s: "unat ((0 OR 126) AND 0x7F :: u8) = 126" "\<not> bit (0 OR 126 :: u8) 7" by code_simp+
  obtain f where f: "f = (0x80 OR op) # (0 OR 126) # x # y # d" by blast
  have "be_nat [x, y] = length d" using b by (simp add: be_nat_def)
  moreover have p: "take 2 (drop 2 (f @ more_data)) = [x, y]" "(f @ more_data) ! 0 = 0x80 OR op" "(f @ more_data) ! 1 = 0 OR 126"
      "drop 4 (f @ more_data) = d @ more_data" "length f = 4 + length d"
    by (simp_all add: f)
  moreover have "drop (4 + length d) (f @ more_data) = more_data" using p(5) by simp
  ultimately have "rfc_frame (f @ more_data) = Some (True, op, False, d, more_data)" using s opcode_bits [OF op]
    by (simp add: rfc_frame_def Let_def)
  moreover have "serializeFrame \<lparr>bFin = True, nOpcode = op, bMasked = False, nPayloadLength = length d, zMaskingKey = []\<rparr> d = Some f"
    using False n by (simp only: f xy serializeFrame_def Let_def buf_capacity_def kPayloadSizeBasic_def kPayloadSizeExtended_def) simp
  ultimately show ?thesis by blast
qed

text \<open>
  C37: On an open connection a message is sent as one frame, from which a peer reads the message back; one that
  does not fit into the shared buffer closes the connection.
\<close>

theorem sent_frames_decode:
  assumes "ws_live w" "m_eWebSocketState w = eWSS_Connected"
  shows "if length d + 10 < 65535
    then \<exists>f. ws_send nMessageType d w = ws_put f w \<and> (\<forall>more_data. rfc_frame (f @ more_data) = Some (True, eWO_OPCODE_BINARY, False, d, more_data))
    else ws_send nMessageType d w = ws_shutdown True w"
proof (cases "length d + 10 < 65535")
  case True
  have op: "eWO_OPCODE_BINARY = eWO_OPCODE_TEXT \<or> eWO_OPCODE_BINARY = eWO_OPCODE_BINARY" by simp
  obtain f where f: "serializeFrame \<lparr>bFin = True, nOpcode = eWO_OPCODE_BINARY, bMasked = False, nPayloadLength = length d, zMaskingKey = []\<rparr> d = Some f"
    using serialize_decodes [OF op True] by blast
  then have "rfc_frame (f @ more_data) = Some (True, eWO_OPCODE_BINARY, False, d, more_data)" for more_data
    using serialize_decodes [OF op True, of more_data] by simp
  with True f assms show ?thesis by (auto simp: ws_send_def sendFrame_def)
next
  case False
  then show ?thesis using assms by (simp add: ws_send_def sendFrame_def serializeFrame_def Let_def buf_capacity_def)
qed

definition big_message :: bstr where "big_message = replicate 65525 0"

lemma big_message_length: "length big_message = 65525"
  unfolding big_message_def by (rule length_replicate)

theorem sent_frames_decode_witness:
  "(\<exists>f. ws_send 0 [104, 105] open_ws = ws_put f open_ws \<and> (\<forall>more_data. rfc_frame (f @ more_data) = Some (True, eWO_OPCODE_BINARY, False, [104, 105], more_data))) \<and>
   ws_send 0 big_message open_ws = ws_shutdown True open_ws"
proof -
  have a: "ws_live open_ws" "m_eWebSocketState open_ws = eWSS_Connected" by (simp_all add: open_ws_def new_ws_def)
  have l: "length [104, 105 :: u8] + 10 < 65535" "\<not> length big_message + 10 < 65535" by (simp_all add: big_message_length)
  show ?thesis
    using sent_frames_decode [OF a, of "[104, 105]" 0, unfolded if_P [OF l(1)]] sent_frames_decode [OF a, of big_message 0, unfolded if_not_P [OF l(2)]]
    by blast
qed

lemmas frame_computes = unserializeFrame_def frame_body_def frame_opcode_def Let_def kPayloadSizeBasic_def buf_capacity_def
  eWO_OPCODE_CONTINUE_def eWO_OPCODE_TEXT_def eWO_OPCODE_BINARY_def eWO_OPCODE_CLOSE_def eWO_OPCODE_PING_def eWO_OPCODE_PONG_def

text \<open>The parser of the code itself takes no payload from a frame without a mask.\<close>

lemma unmasked_payload_dropped: "unserializeFrame [0x82, 2, 104, 105] = Frame 4 eWFT_BINARY_FRAME []"
  by (simp add: frame_computes)

text \<open>A ping is not answered, nor is a pong of a connection that is closing.\<close>

lemma ping_unanswered:
  "ws_onRecv [] [0x89, 0x80, 1, 2, 3, 4] open_ws = Some (Returned 6 open_ws)"
  "ws_onRecv [] [0x8A, 0x80, 1, 2, 3, 4] (open_ws\<lparr>m_eWebSocketState := eWSS_Disconnectting\<rparr>) = Some (Returned 6 (open_ws\<lparr>m_eWebSocketState := eWSS_Disconnectting\<rparr>))"
proof -
  have u: "unserializeFrame [0x89, 0x80, 1, 2, 3, 4] = Frame 6 eWFT_PING_FRAME []" "unserializeFrame [0x8A, 0x80, 1, 2, 3, 4] = Frame 6 eWFT_PONG_FRAME []"
    by (simp_all add: frame_computes)
  have e: "ws_loop d 6 w = Some (Returned 6 w)" if "length d = 6" for d w using that by (subst ws_loop.simps) simp
  show "ws_onRecv [] [0x89, 0x80, 1, 2, 3, 4] open_ws = Some (Returned 6 open_ws)"
    by (simp add: ws_onRecv_def open_ws_def, subst ws_loop.simps, simp add: u e)
  show "ws_onRecv [] [0x8A, 0x80, 1, 2, 3, 4] (open_ws\<lparr>m_eWebSocketState := eWSS_Disconnectting\<rparr>) = Some (Returned 6 (open_ws\<lparr>m_eWebSocketState := eWSS_Disconnectting\<rparr>))"
    by (simp add: ws_onRecv_def open_ws_def, subst ws_loop.simps, simp add: u sendFrame_def)
qed

end
