(* ===== verification/Http_Props.thy ===== *)
theory Http_Props imports Http begin

text \<open>
  The request parser: a GET request that arrives whole is parsed to its lines; what goes wrong with one that
  arrives in two parts, with spaces in values and with queries.
\<close>

section \<open>Finding\<close>

lemma find_byte_at: "c \<notin> set xs \<Longrightarrow> find_byte c (xs @ c # ys) = Some (length xs)"
  by (induction xs) auto

lemma find_byte_none: "c \<notin> set xs \<Longrightarrow> find_byte c xs = None"
  by (induction xs) auto

lemma find_crlf_at: "13 \<notin> set xs \<Longrightarrow> find_crlf (xs @ 13 # 10 # ys) = Some (length xs)"
proof (induction xs)
  case (Cons x xs)
  then show ?case by (cases xs) auto
qed simp

lemma shorten_id: "\<forall>c \<in> set v. \<not> isspace c \<Longrightarrow> i \<le> length v \<Longrightarrow> shorten i v = v"
  by (induction i) auto

section \<open>Requests\<close>

text \<open>A request as a client sends it, and the requests that are considered: no white space within names and values.\<close>

type_synonym http_headers = "(bstr \<times> bstr) list"

definition get_request :: "bstr \<Rightarrow> http_headers \<Rightarrow> bstr" where
  "get_request uri hs = ascii ''GET '' @ uri @ ascii '' HTTP/1.1'' @ crlf @ concat (map header_line hs) @ crlf"

definition header_ok :: "bstr \<times> bstr \<Rightarrow> bool" where
  "header_ok kv \<longleftrightarrow> 13 \<notin> set (fst kv) \<and> 58 \<notin> set (fst kv) \<and> (\<forall>c \<in> set (snd kv). \<not> isspace c)"

definition uri_ok :: "bstr \<Rightarrow> bool" where
  "uri_ok uri \<longleftrightarrow> 13 \<notin> set uri \<and> 32 \<notin> set uri \<and> 63 \<notin> set uri"

lemma isspace_chars: "isspace 13" "isspace 32" by (simp_all add: isspace_def)

lemma request_line:
  assumes "uri_ok uri"
  shows "parseRequestLine (ascii ''GET '' @ uri @ ascii '' HTTP/1.1'' @ zs) (length uri + 13) r =
    (True, r\<lparr>m_eMethod := eHMT_Get, m_szRequestURI := uri, m_eVersion := eHV_Http11\<rparr>)"
proof -
  have a: "ascii ''GET '' = [71, 69, 84, 32]" "ascii '' HTTP/1.1'' = 32 # [72, 84, 84, 80, 47, 49, 46, 49]" by code_simp+
  have g: "ascii ''GET'' = [71, 69, 84]" "ascii ''HTTP/1.'' = [72, 84, 84, 80, 47, 49, 46]" by code_simp+
  have l: "take (length uri + 13) (ascii ''GET '' @ uri @ ascii '' HTTP/1.1'' @ zs) = [71, 69, 84] @ 32 # (uri @ 32 # [72, 84, 84, 80, 47, 49, 46, 49])"
  proof -
    let ?l = "[71, 69, 84] @ 32 # (uri @ 32 # [72, 84, 84, 80, 47, 49, 46, 49])"
    have "ascii ''GET '' @ uri @ ascii '' HTTP/1.1'' @ zs = ?l @ zs" "length ?l = length uri + 13" by (simp_all add: a)
    then show ?thesis by (metis append_eq_conv_conj)
  qed
  have m: "find_byte 32 ([71, 69, 84] @ 32 # (uri @ 32 # [72, 84, 84, 80, 47, 49, 46, 49])) = Some 3"
    using find_byte_at [of 32 "[71, 69, 84]"] by simp
  have u: "find_byte 32 (uri @ 32 # [72, 84, 84, 80, 47, 49, 46, 49]) = Some (length uri)" by (rule find_byte_at) (use assms in \<open>simp add: uri_ok_def\<close>)
  have q: "find_byte 63 uri = None" by (rule find_byte_none) (use assms in \<open>simp add: uri_ok_def\<close>)
  have s: "setMethod (ascii ''GET '' @ uri @ ascii '' HTTP/1.1'' @ zs) r = (True, r\<lparr>m_eMethod := eHMT_Get\<rparr>)" for r
    by (simp add: setMethod_def starts_nocase_def a g lower_def)
  have "drop (5 + length uri) (pre @ zs) = zs" if "length pre = 5 + length uri" for pre zs :: bstr using that by simp
  from this [of "[71, 69, 84, 32] @ uri @ [32]" "[72, 84, 84, 80, 47, 49, 46, 49]"]
  have v: "drop (5 + length uri) (71 # 69 # 84 # 32 # uri @ [32, 72, 84, 84, 80, 47, 49, 46, 49]) = [72, 84, 84, 80, 47, 49, 46, 49 :: u8]"
    by simp
  show ?thesis unfolding parseRequestLine_def Let_def l m s
    by (simp add: u q g v starts_nocase_def lower_def)
qed

lemma ascii_parts: "ascii ''GET '' = [71, 69, 84, 32]" "ascii '' HTTP/1.1'' = [32, 72, 84, 84, 80, 47, 49, 46, 49]" "ascii '': '' = [58, 32]"
  by code_simp+

section \<open>The loop\<close>

definition with_headers :: "http_headers \<Rightarrow> CHttpRequest \<Rightarrow> CHttpRequest" where
  "with_headers hs r = r\<lparr>m_mapHeader := foldl (\<lambda>m kv. om_put (fst kv) (snd kv) m) (m_mapHeader r) hs\<rparr>"

lemma parse_header:
  assumes h: "header_ok (k, v)" and p: "m_eParseState p = eHPS_Headers" "m_nParseDataCount p = length pre" and d: "d = pre @ header_line (k, v) @ zs"
  shows "parse_turn d p = Inr (p\<lparr>m_request := with_headers [(k, v)] (m_request p), m_nParseDataCount := length (pre @ header_line (k, v))\<rparr>)"
proof -
  have v: "\<forall>c \<in> set v. \<not> isspace c" "13 \<notin> set v" using h isspace_chars by (auto simp: header_ok_def)
  have k: "13 \<notin> set k" "58 \<notin> set k" using h by (simp_all add: header_ok_def)
  have dr: "drop (length pre) d = (k @ 58 # 32 # v) @ 13 # 10 # zs" using d by (simp add: header_line_def crlf_def ascii_parts)
  have f: "find_crlf ((k @ 58 # 32 # v) @ 13 # 10 # zs) = Some (length (k @ 58 # 32 # v))" by (rule find_crlf_at) (use k v in simp)
  have c: "find_byte 58 (k @ 58 # 32 # v) = Some (length k)" by (rule find_byte_at) (rule k)
  have "dropWhile isspace (32 # v) = v" using v(1) by (cases v) (auto simp: isspace_chars)
  then have a: "addHeader k (32 # v) r = with_headers [(k, v)] r" for r
    using shorten_id [OF v(1)] by (simp add: addHeader_def with_headers_def)
  show ?thesis unfolding parse_turn_def p dr f using d
    by (simp add: c a) (simp add: header_line_def crlf_def ascii_parts)
qed

lemma parse_headers:
  "\<forall>h \<in> set hs. header_ok h \<Longrightarrow> m_eParseState p = eHPS_Headers \<Longrightarrow> m_nParseDataCount p = length pre \<Longrightarrow> d = pre @ concat (map header_line hs) @ zs \<Longrightarrow>
     parseRequest d p = parseRequest d (p\<lparr>m_request := with_headers hs (m_request p), m_nParseDataCount := length (pre @ concat (map header_line hs))\<rparr>)"
proof (induction hs arbitrary: p pre)
  case Nil
  then have "p\<lparr>m_request := with_headers [] (m_request p), m_nParseDataCount := length pre\<rparr> = p" by (simp add: with_headers_def)
  then show ?case by simp
next
  case (Cons h hs)
  obtain k v where h: "h = (k, v)" by (cases h)
  let ?p = "p\<lparr>m_request := with_headers [(k, v)] (m_request p), m_nParseDataCount := length (pre @ header_line (k, v))\<rparr>"
  have "parse_turn d p = Inr ?p" by (rule parse_header) (use Cons.prems h in simp_all)
  then have "parseRequest d p = parseRequest d ?p" by (subst parseRequest.simps) simp
  also have "\<dots> = parseRequest d (?p\<lparr>m_request := with_headers hs (m_request ?p), m_nParseDataCount := length ((pre @ header_line (k, v)) @ concat (map header_line hs))\<rparr>)"
    by (rule Cons.IH) (use Cons.prems h in simp_all)
  finally show ?case using h by (simp add: with_headers_def)
qed

lemma parse_get_request:
  assumes "uri_ok uri" "\<forall>h \<in> set hs. header_ok h"
  shows "parseRequest (get_request uri hs) new_parser = Some (Parsed True \<lparr>m_eParseState = eHPS_Finish, m_nParseDataCount = length (get_request uri hs),
    m_request = with_headers hs (new_request\<lparr>m_eMethod := eHMT_Get, m_szRequestURI := uri, m_eVersion := eHV_Http11\<rparr>)\<rparr>)"
proof -
  let ?line = "ascii ''GET '' @ uri @ ascii '' HTTP/1.1''" and ?d = "get_request uri hs"
  let ?r = "new_request\<lparr>m_eMethod := eHMT_Get, m_szRequestURI := uri, m_eVersion := eHV_Http11\<rparr>"
  have d: "?d = ?line @ 13 # 10 # (concat (map header_line hs) @ crlf)" by (simp add: get_request_def crlf_def)
  have l: "length ?line = length uri + 13" by (simp add: ascii_parts)
  have "find_crlf ?d = Some (length ?line)" unfolding d by (rule find_crlf_at) (use assms in \<open>simp add: ascii_parts uri_ok_def\<close>)
  then have f: "find_crlf ?d = Some (length uri + 13)" unfolding l .
  have "parseRequestLine ?d (length uri + 13) new_request = (True, ?r)"
    using request_line [OF assms(1), of "13 # 10 # (concat (map header_line hs) @ crlf)" new_request] d by simp
  then have t1: "parse_turn ?d new_parser = Inr \<lparr>m_eParseState = eHPS_Headers, m_nParseDataCount = length (?line @ crlf), m_request = ?r\<rparr>"
    using f l by (simp add: parse_turn_def new_parser_def crlf_def)
  let ?p = "\<lparr>m_eParseState = eHPS_Headers, m_nParseDataCount = length (?line @ crlf @ concat (map header_line hs)), m_request = with_headers hs ?r\<rparr>"
  have "parseRequest ?d new_parser = parseRequest ?d \<lparr>m_eParseState = eHPS_Headers, m_nParseDataCount = length (?line @ crlf), m_request = ?r\<rparr>"
    by (subst parseRequest.simps) (simp add: t1)
  also have "\<dots> = parseRequest ?d ?p"
    using parse_headers [OF assms(2), of "\<lparr>m_eParseState = eHPS_Headers, m_nParseDataCount = length (?line @ crlf), m_request = ?r\<rparr>" "?line @ crlf" ?d crlf]
    by (simp add: get_request_def)
  also have "\<dots> = Some (Parsed True \<lparr>m_eParseState = eHPS_Finish, m_nParseDataCount = length ?d, m_request = with_headers hs ?r\<rparr>)"
  proof -
    have dr: "drop (length (?line @ crlf @ concat (map header_line hs))) ?d = [13, 10]" by (simp add: get_request_def crlf_def)
    have "parse_turn ?d ?p = Inr (?p\<lparr>m_eParseState := eHPS_Body, m_nParseDataCount := length ?d\<rparr>)"
      using dr by (simp add: parse_turn_def) (simp add: get_request_def crlf_def)
    then show ?thesis by (subst parseRequest.simps, simp, subst parseRequest.simps) (simp add: parse_turn_def with_headers_def)
  qed
  finally show ?thesis .
qed

section \<open>What goes wrong\<close>

text \<open>
  A request in two parts: the first part is used up by its reader, but the parser counts it again in the
  second read, and looks for the next header behind the end of it.
\<close>

lemma split_request_bad:
  "\<exists>p. parseRequest (ascii ''GET / HTTP/1.1'' @ crlf) new_parser = Some (Parsed True p) \<and> m_nParseDataCount p = 16 \<and>
    parseRequest (ascii ''A: b'' @ crlf @ crlf) p = Some Bad_access"
proof -
  let ?d = "ascii ''GET / HTTP/1.1'' @ crlf"
  obtain p where p: "p = \<lparr>m_eParseState = eHPS_Headers, m_nParseDataCount = 16,
    m_request = new_request\<lparr>m_eMethod := eHMT_Get, m_szRequestURI := [47], m_eVersion := eHV_Http11\<rparr>\<rparr>" by blast
  have t: "parse_turn ?d new_parser = Inr p" "find_crlf (drop 16 ?d) = None" "16 \<le> length ?d" unfolding p by code_simp+
  have "parseRequest ?d new_parser = Some (Parsed True p)"
    by (subst parseRequest.simps, simp only: t(1) sum.case, subst parseRequest.simps) (use t in \<open>simp add: parse_turn_def p\<close>)
  moreover have "length (ascii ''A: b'' @ crlf @ crlf) = 8" by code_simp
  then have "parseRequest (ascii ''A: b'' @ crlf @ crlf) p = Some Bad_access"
    by (subst parseRequest.simps) (simp add: parse_turn_def p)
  ultimately show ?thesis using p by auto
qed

text \<open>Each space within a value costs it a character at its end.\<close>

lemma header_value_cut:
  "om_get (m_mapHeader (addHeader (ascii ''A'') (ascii '' a b c'') new_request)) (ascii ''A'') = Some (ascii ''a b'')"
  by code_simp

text \<open>The query is followed by the space behind it and the first letter of the version.\<close>

lemma query_too_long:
  "m_szQuery (snd (parseRequestLine (ascii ''GET /a?b=1 HTTP/1.1'') 19 new_request)) = ascii ''b=1 H''"
  by code_simp

text \<open>A length that passes \<open>2 ^ 32\<close> with what has been read is taken for one that has arrived.\<close>

lemma body_length_wraps:
  "parse_turn [1, 2, 3] (new_parser\<lparr>m_eParseState := eHPS_Body, m_nParseDataCount := 3,
     m_request := new_request\<lparr>m_eMethod := eHMT_Post, m_mapHeader := [(ascii ''Content-Length'', ascii ''-1'')]\<rparr>\<rparr>) = Inl Bad_access"
proof -
  have r: "content_length (ascii ''-1'') = Some 0xFFFFFFFF" by code_simp
  have c: "cstr (ascii ''-1'') = ascii ''-1''" by code_simp
  show ?thesis using r c by (simp add: parse_turn_def new_parser_def getHeader_def)
qed

end
