(* ===== verification/Websocket_Handshake.thy ===== *)
theory Websocket_Handshake imports Websocket_Props Http_Props Encoding_Props begin

text \<open>The handshake of a websocket: what a client that sends a request of the protocol is answered.\<close>

lemma headers_get: "om_ok m \<Longrightarrow> om_get (foldl (\<lambda>m kv. om_put (fst kv) (snd kv) m) m hs) = om_get m ++ map_of (rev hs)"
proof (induction hs arbitrary: m)
  case (Cons kv hs)
  then show ?case by (cases kv) (simp add: fun_eq_iff map_add_def split: option.split)
qed simp

definition accept_key :: "bstr \<Rightarrow> bstr" where
  "accept_key key = encode_text (digest_bytes (digest sha1_block (be_bytes 8) sha1_iv (key @ kWebSocketMagic)))"

definition handshake_response :: "bstr \<Rightarrow> bstr" where
  "handshake_response key = ascii ''HTTP/1.1 101 Switching Protocols'' @ crlf @ ascii ''Connection: Upgrade'' @ crlf @
     ascii ''Sec-WebSocket-Accept: '' @ accept_key key @ crlf @ ascii ''Sec-WebSocket-Version: 13'' @ crlf @
     ascii ''Upgrade: WebSocket'' @ crlf @ ascii ''Connection: Keep-Alive'' @ crlf @ crlf"

lemma digest_bytes_length: "length (digest_bytes h) = 20"
  by (cases h) (simp add: length_bytes_def)

lemma accept_encodes: "base64_encode (digest_bytes h) 256 = Some (encode_text (digest_bytes h))"
proof -
  have "length (encode_text (digest_bytes h)) = 28" by (simp add: encode_text_length digest_bytes_length)
  then show ?thesis by (auto simp: base64_encode_def Let_def)
qed

definition response_of :: "bstr \<Rightarrow> CHttpResponse" where
  "response_of acc = rs_addHeader (ascii ''Sec-WebSocket-Accept'') acc (rs_addHeader (ascii ''Sec-WebSocket-Version'') (ascii ''13'')
     (rs_addHeader (ascii ''Upgrade'') (ascii ''WebSocket'') (rs_addHeader (ascii ''Connection'') (ascii ''Upgrade'')
       (new_response\<lparr>m_nStatusCode := 101, m_szStatusMessage := ascii ''Switching Protocols''\<rparr>))))"

lemma response_text:
  "serialize (response_of acc) = ascii ''HTTP/1.1 101 Switching Protocols'' @ crlf @ ascii ''Connection: Upgrade'' @ crlf @
     ascii ''Sec-WebSocket-Accept: '' @ acc @ crlf @ ascii ''Sec-WebSocket-Version: 13'' @ crlf @
     ascii ''Upgrade: WebSocket'' @ crlf @ ascii ''Connection: Keep-Alive'' @ crlf @ crlf"
  by code_simp simp

lemma handshark_answers:
  assumes "m_eMethod r = eHMT_Get" "getHeader (ascii ''Sec-WebSocket-Key'') r = Some key" "length junk = 64" "length key < 2 ^ 60" "ws_live w"
  shows "handshark junk r w = (True, ws_put (handshake_response key) w)"
proof -
  have m: "length kWebSocketMagic = 36" by code_simp
  have "fst (sha1_result (sha1_write (key @ kWebSocketMagic) (new_sha1 junk))) = Some (digest sha1_block (be_bytes 8) sha1_iv (key @ kWebSocketMagic))"
    using sha1_once [OF assms(3), of "key @ kWebSocketMagic"] assms(4) m by simp
  then show ?thesis using assms unfolding handshark_def
    by (simp add: accept_encodes Let_def response_of_def [symmetric] response_text handshake_response_def accept_key_def)
qed


definition sample_headers :: http_headers where
  "sample_headers = [(ascii ''Host'', ascii ''localhost''), (ascii ''Sec-WebSocket-Key'', ascii ''dGhlIHNhbXBsZSBub25jZQ=='')]"


end
