(* ===== verification/Md5.thy ===== *)
theory Md5 imports Block_Hash begin

text \<open>
  The hash of \<open>engine/src/libBaseCommon/md5.cpp\<close>: its block function, the processing of pieces, its padding,
  and that the digest is that of the padded message; and the hexadecimal text and the second base 64
  encoder of the file.  The \<open>unsigned long\<close> words of the state are kept at 32 bits: that is all that is read of them.
\<close>

type_synonym md5_hash = "u32 \<times> u32 \<times> u32 \<times> u32"

record md5_state =
  md5_length :: u64
  md5_words :: md5_hash
  curlen :: nat
  md5_buf :: "u8 list"

section \<open>The block function\<close>

definition ROL :: "u32 \<Rightarrow> nat \<Rightarrow> u32" where
  "ROL x y = push_bit (y mod 32) x OR drop_bit (32 - y mod 32) x"

definition LOAD32L :: "u8 list \<Rightarrow> u32" where
  "LOAD32L y = push_bit 24 (ucast (y ! 3)) OR push_bit 16 (ucast (y ! 2)) OR push_bit 8 (ucast (y ! 1)) OR ucast (y ! 0)"

definition md5_F :: "u32 \<Rightarrow> u32 \<Rightarrow> u32 \<Rightarrow> u32" where "md5_F x y z = z XOR (x AND (y XOR z))"
definition md5_G :: "u32 \<Rightarrow> u32 \<Rightarrow> u32 \<Rightarrow> u32" where "md5_G x y z = y XOR (z AND (y XOR x))"
definition md5_H :: "u32 \<Rightarrow> u32 \<Rightarrow> u32 \<Rightarrow> u32" where "md5_H x y z = x XOR y XOR z"
definition md5_I :: "u32 \<Rightarrow> u32 \<Rightarrow> u32 \<Rightarrow> u32" where "md5_I x y z = y XOR (x OR NOT z)"

definition Worder :: "nat list" where
  "Worder = [
     0, 1, 2, 3, 4, 5, 6, 7, 8, 9, 10, 11, 12, 13, 14, 15,
     1, 6, 11, 0, 5, 10, 15, 4, 9, 14, 3, 8, 13, 2, 7, 12,
     5, 8, 11, 14, 1, 4, 7, 10, 13, 0, 3, 6, 9, 12, 15, 2,
     0, 7, 14, 5, 12, 3, 10, 1, 8, 15, 6, 13, 4, 11, 2, 9]"

definition Rorder :: "nat list" where
  "Rorder = [
     7, 12, 17, 22, 7, 12, 17, 22, 7, 12, 17, 22, 7, 12, 17, 22,
     5, 9, 14, 20, 5, 9, 14, 20, 5, 9, 14, 20, 5, 9, 14, 20,
     4, 11, 16, 23, 4, 11, 16, 23, 4, 11, 16, 23, 4, 11, 16, 23,
     6, 10, 15, 21, 6, 10, 15, 21, 6, 10, 15, 21, 6, 10, 15, 21]"

definition Korder :: "u32 list" where
  "Korder = [
     0xD76AA478, 0xE8C7B756, 0x242070DB, 0xC1BDCEEE, 0xF57C0FAF, 0x4787C62A, 0xA8304613, 0xFD469501,
     0x698098D8, 0x8B44F7AF, 0xFFFF5BB1, 0x895CD7BE, 0x6B901122, 0xFD987193, 0xA679438E, 0x49B40821,
     0xF61E2562, 0xC040B340, 0x265E5A51, 0xE9B6C7AA, 0xD62F105D, 0x02441453, 0xD8A1E681, 0xE7D3FBC8,
     0x21E1CDE6, 0xC33707D6, 0xF4D50D87, 0x455A14ED, 0xA9E3E905, 0xFCEFA3F8, 0x676F02D9, 0x8D2A4C8A,
     0xFFFA3942, 0x8771F681, 0x6D9D6122, 0xFDE5380C, 0xA4BEEA44, 0x4BDECFA9, 0xF6BB4B60, 0xBEBFBC70,
     0x289B7EC6, 0xEAA127FA, 0xD4EF3085, 0x04881D05, 0xD9D4D039, 0xE6DB99E5, 0x1FA27CF8, 0xC4AC5665,
     0xF4292244, 0x432AFF97, 0xAB9423A7, 0xFC93A039, 0x655B59C3, 0x8F0CCC92, 0xFFEFF47D, 0x85845DD1,
     0x6FA87E4F, 0xFE2CE6E0, 0xA3014314, 0x4E0811A1, 0xF7537E82, 0xBD3AF235, 0x2AD7D2BB, 0xEB86D391]"

text \<open>One step: \<open>FF\<close>, \<open>GG\<close>, \<open>HH\<close> or \<open>II\<close>, and the rotation of the four words.\<close>

fun md5_step :: "(u32 \<Rightarrow> u32 \<Rightarrow> u32 \<Rightarrow> u32) \<Rightarrow> u32 list \<Rightarrow> md5_hash \<Rightarrow> nat \<Rightarrow> md5_hash" where
  "md5_step f W (a, b, c, d) i = (d, ROL (a + f b c d + W ! (Worder ! i) + Korder ! i) (Rorder ! i) + b, b, c)"

fun md5_add :: "md5_hash \<Rightarrow> md5_hash \<Rightarrow> md5_hash" where
  "md5_add (p, q, r, s) (a, b, c, d) = (p + a, q + b, r + c, s + d)"

definition md5_compress :: "md5_hash \<Rightarrow> u8 list \<Rightarrow> md5_hash" where
  "md5_compress h m = (let W = map (\<lambda>i. LOAD32L (drop (4 * i) m)) [0..<16];
     h1 = foldl (md5_step md5_F W) h [0..<16];
     h2 = foldl (md5_step md5_G W) h1 [16..<32];
     h3 = foldl (md5_step md5_H W) h2 [32..<48];
     h4 = foldl (md5_step md5_I W) h3 [48..<64]
   in md5_add h h4)"

section \<open>The operations\<close>

definition md5_iv :: md5_hash where
  "md5_iv = (0x67452301, 0xEFCDAB89, 0x98BADCFE, 0x10325476)"

definition md5_init :: "u8 list \<Rightarrow> md5_state" where
  "md5_init junk = \<lparr>md5_length = 0, md5_words = md5_iv, curlen = 0, md5_buf = junk\<rparr>"

definition copy_in :: "u8 list \<Rightarrow> md5_state \<Rightarrow> md5_state" where
  "copy_in xs s = s\<lparr>md5_buf := take (curlen s) (md5_buf s) @ xs @ drop (curlen s + length xs) (md5_buf s), curlen := curlen s + length xs\<rparr>"

definition md5_take_in :: "u8 list \<Rightarrow> md5_state \<Rightarrow> md5_state" where
  "md5_take_in xs s = (let s' = copy_in xs s in if curlen s' = 64
     then s'\<lparr>md5_words := md5_compress (md5_words s') (md5_buf s'), md5_length := md5_length s' + 512, curlen := 0\<rparr> else s')"

text \<open>The loop of \<open>md5_process\<close>, which is not entered with more than 64 bytes in the buffer.\<close>

function process_loop :: "u8 list \<Rightarrow> md5_state \<Rightarrow> md5_state" where
  "process_loop xs s = (if xs = [] \<or> curlen s > 64 then s
     else if curlen s = 0 \<and> length xs \<ge> 64
     then process_loop (drop 64 xs) (s\<lparr>md5_words := md5_compress (md5_words s) (take 64 xs), md5_length := md5_length s + 512\<rparr>)
     else let n = min (length xs) (64 - curlen s) in process_loop (drop n xs) (md5_take_in (take n xs) s))"
  by auto
termination
  by (relation "measure (\<lambda>(xs, s). 2 * length xs + (if curlen s = 64 then 1 else 0))")
    (auto simp: Let_def copy_in_def md5_take_in_def min_def split: if_splits)

declare process_loop.simps [simp del]

definition md5_process :: "u8 list \<Rightarrow> md5_state \<Rightarrow> md5_state option" where
  "md5_process xs s = (if curlen s > 64 then None else Some (process_loop xs s))"

definition md5_fill :: "nat \<Rightarrow> md5_state \<Rightarrow> md5_state" where
  "md5_fill n s = copy_in (replicate (n - curlen s) 0) s"

definition STORE64L :: "u64 \<Rightarrow> u8 list" where
  "STORE64L x = map (\<lambda>k. ucast (drop_bit (8 * k) x)) [0..<8]"

definition STORE32L :: "u32 \<Rightarrow> u8 list" where
  "STORE32L x = map (\<lambda>k. ucast (drop_bit (8 * k) x)) [0..<4]"

definition md5_last :: "md5_state \<Rightarrow> md5_hash" where
  "md5_last s = (let
     s = (if curlen s > 56 then (md5_fill 64 s)\<lparr>md5_words := md5_compress (md5_words s) (md5_buf (md5_fill 64 s)), curlen := 0\<rparr> else s);
     s = md5_fill 56 s
   in md5_compress (md5_words s) (take 56 (md5_buf s) @ STORE64L (md5_length s)))"

definition md5_finish :: "md5_state \<Rightarrow> md5_hash" where
  "md5_finish s = md5_last (copy_in [128] (s\<lparr>md5_length := md5_length s + of_nat (curlen s * 8)\<rparr>))"

fun md5_output :: "md5_hash \<Rightarrow> u8 list" where
  "md5_output (a, b, c, d) = STORE32L a @ STORE32L b @ STORE32L c @ STORE32L d"

definition md5_done :: "md5_state \<Rightarrow> u8 list option" where
  "md5_done s = (if curlen s \<ge> 64 then None else Some (md5_output (md5_finish s)))"

text \<open>\<open>md5\<close> of a string; \<open>None\<close> when more than the 16 bytes there are is copied.\<close>

definition md5 :: "u8 list \<Rightarrow> u8 list \<Rightarrow> nat \<Rightarrow> u8 list option" where
  "md5 junk szSrc nOutLen = Option.bind (md5_process szSrc (md5_init junk)) (\<lambda>s. Option.bind (md5_done s)
     (\<lambda>out. if nOutLen \<le> 16 then Some (take nOutLen out) else None))"

section \<open>Processing in pieces\<close>

definition md5_good :: "nat \<Rightarrow> md5_state \<Rightarrow> bool" where
  "md5_good n s \<longleftrightarrow> length (md5_buf s) = 64 \<and> curlen s = n mod 64 \<and> md5_length s = of_nat (512 * (n div 64))"

definition md5_buffered :: "md5_state \<Rightarrow> u8 list" where
  "md5_buffered s = take (curlen s) (md5_buf s)"

lemma copy_in_all:
  assumes "curlen s + length xs \<le> 64" "length (md5_buf s) = 64"
  shows "length (md5_buf (copy_in xs s)) = 64" "curlen (copy_in xs s) = curlen s + length xs"
    "md5_buffered (copy_in xs s) = md5_buffered s @ xs" "md5_words (copy_in xs s) = md5_words s" "md5_length (copy_in xs s) = md5_length s"
  using assms by (simp_all add: copy_in_def md5_buffered_def)

lemma next_block: "(n + 64) mod 64 = n mod 64" "of_nat (512 * ((n + 64) div 64)) = (of_nat (512 * (n div 64)) + 512 :: u64)"
  for n :: nat
proof -
  have "(n + 64) div 64 = Suc (n div 64)" by simp
  then show "(n + 64) mod 64 = n mod 64" "of_nat (512 * ((n + 64) div 64)) = (of_nat (512 * (n div 64)) + 512 :: u64)"
    by (simp_all only: mod_add_self2) (simp add: algebra_simps)
qed

lemma process_Nil: "process_loop [] s = s"
  by (simp add: process_loop.simps)

lemma process_direct:
  "curlen s = 0 \<Longrightarrow> length xs \<ge> 64 \<Longrightarrow> process_loop xs s =
     process_loop (drop 64 xs) (s\<lparr>md5_words := md5_compress (md5_words s) (take 64 xs), md5_length := md5_length s + 512\<rparr>)"
  by (subst process_loop.simps) auto

lemma process_copy:
  "xs \<noteq> [] \<Longrightarrow> curlen s \<le> 64 \<Longrightarrow> \<not> (curlen s = 0 \<and> length xs \<ge> 64) \<Longrightarrow>
     process_loop xs s = process_loop (drop (min (length xs) (64 - curlen s)) xs) (md5_take_in (take (min (length xs) (64 - curlen s)) xs) s)"
  by (subst process_loop.simps) (auto simp: Let_def)

lemma take_in_full:
  assumes g: "md5_good n s" and k: "curlen s + length xs = 64"
  shows "md5_good (n + length xs) (md5_take_in xs s) \<and> md5_words (md5_take_in xs s) = md5_compress (md5_words s) (md5_buffered s @ xs) \<and>
    md5_buffered (md5_take_in xs s) = []"
proof -
  have l: "length (md5_buf s) = 64" "curlen s = n mod 64" "curlen s + length xs \<le> 64" using g k by (simp_all add: md5_good_def)
  note c = copy_in_all [OF l(3,1)]
  have "n + length xs = 64 * (n div 64) + (n mod 64 + length xs)" by simp
  also have "n mod 64 + length xs = 64" using k l by simp
  finally have "n + length xs = 64 * (n div 64) + 64" .
  then have m: "(n + length xs) mod 64 = 0" "(n + length xs) div 64 = Suc (n div 64)" by simp_all
  have b: "md5_buf (copy_in xs s) = md5_buffered s @ xs" using c k by (simp add: md5_buffered_def)
  show ?thesis using g c m b k by (simp add: md5_take_in_def Let_def md5_good_def md5_buffered_def algebra_simps)
qed

lemma take_in_part:
  assumes g: "md5_good n s" and k: "curlen s + length xs < 64"
  shows "md5_good (n + length xs) (md5_take_in xs s) \<and> md5_words (md5_take_in xs s) = md5_words s \<and>
    md5_buffered (md5_take_in xs s) = md5_buffered s @ xs"
proof -
  have l: "length (md5_buf s) = 64" "curlen s = n mod 64" "curlen s + length xs \<le> 64" using g k by (simp_all add: md5_good_def)
  note c = copy_in_all [OF l(3,1)]
  have "n + length xs = 64 * (n div 64) + (n mod 64 + length xs)" by simp
  moreover have "n mod 64 + length xs < 64" using k l by simp
  ultimately have m: "(n + length xs) mod 64 = n mod 64 + length xs" "(n + length xs) div 64 = n div 64"
    by (metis mod_less mod_mult_self4, metis div_less div_mult_self4 add.right_neutral zero_neq_numeral)
  show ?thesis using g c m k by (simp add: md5_take_in_def Let_def md5_good_def)
qed

lemma process_loop_good:
  "md5_good n s \<Longrightarrow> md5_good (n + length xs) (process_loop xs s) \<and>
    md5_words (process_loop xs s) = foldl md5_compress (md5_words s) (blocks (md5_buffered s @ xs)) \<and>
    md5_buffered (process_loop xs s) = left_over (md5_buffered s @ xs)"
proof (induction xs s arbitrary: n rule: process_loop.induct)
  case (1 xs s)
  note g = 1(3)
  have c: "curlen s < 64" "length (md5_buffered s) = curlen s" using g by (simp_all add: md5_good_def md5_buffered_def)
  consider "xs = []" | "xs \<noteq> []" "curlen s = 0 \<and> length xs \<ge> 64" | "xs \<noteq> []" "\<not> (curlen s = 0 \<and> length xs \<ge> 64)" by argo
  then show ?case
  proof cases
    case 1
    then show ?thesis using g c by (simp add: process_Nil)
  next
    case 2
    let ?s = "s\<lparr>md5_words := md5_compress (md5_words s) (take 64 xs), md5_length := md5_length s + 512\<rparr>"
    have n: "\<not> (xs = [] \<or> 64 < curlen s)" using 2 by simp
    have "md5_good (n + 64) ?s" using g next_block [of n] by (simp add: md5_good_def)
    note ih = "1.IH"(1) [OF n 2(2) this]
    have l: "length (take 64 xs) = 64" using 2 by simp
    have "blocks xs = take 64 xs # blocks (drop 64 xs)" "left_over xs = left_over (drop 64 xs)"
      using blocks_block [OF l, of "drop 64 xs"] left_over_block [OF l, of "drop 64 xs"] by simp_all
    moreover have "md5_buffered s = []" "md5_buffered ?s = []" using 2 by (simp_all add: md5_buffered_def)
    moreover have "n + 64 + length (drop 64 xs) = n + length xs" using 2 by simp
    ultimately show ?thesis using ih process_direct [of s xs] 2 by simp
  next
    case 3
    let ?k = "min (length xs) (64 - curlen s)"
    let ?xs = "take ?k xs"
    have n: "\<not> (xs = [] \<or> 64 < curlen s)" using 3 c by simp
    have e: "process_loop xs s = process_loop (drop ?k xs) (md5_take_in ?xs s)" using process_copy [OF 3(1) _ 3(2)] c by simp
    note ih = "1.IH"(2) [OF n 3(2) refl]
    show ?thesis
    proof (cases "curlen s + ?k = 64")
      case True
      then have k: "curlen s + length ?xs = 64" by simp
      note t = take_in_full [OF g k]
      have l: "length (md5_buffered s @ ?xs) = 64" using c k by simp
      have x: "md5_buffered s @ xs = (md5_buffered s @ ?xs) @ drop ?k xs" by simp
      have "blocks (md5_buffered s @ xs) = (md5_buffered s @ ?xs) # blocks (drop ?k xs)"
          "left_over (md5_buffered s @ xs) = left_over (drop ?k xs)"
        unfolding x by (rule blocks_block [OF l], rule left_over_block [OF l])
      moreover have "n + length ?xs + length (drop ?k xs) = n + length xs" by simp
      ultimately show ?thesis using ih [OF conjunct1 [OF t]] t unfolding e by simp
    next
      case False
      then have kk: "?xs = xs" "drop ?k xs = []" and l: "curlen s + length xs < 64" using c by auto
      have e: "process_loop xs s = md5_take_in xs s" using e unfolding kk process_Nil .
      then show ?thesis using take_in_part [OF g l] l c unfolding e by simp
    qed
  qed
qed

section \<open>Padding\<close>

lemma STORE64L_le: "STORE64L (of_nat N) = le_bytes 8 N"
proof -
  have "ucast (drop_bit (8 * k) w) = (word_of_nat (unat w div 256 ^ k mod 256) :: u8)" for k and w :: u64
  proof -
    have "unat (drop_bit (8 * k) w) = unat w div 2 ^ (8 * k)" unfolding unat_drop_bit_eq by (simp add: drop_bit_eq_div)
    then show ?thesis by (simp add: word_unat_eq_iff unsigned_ucast_eq take_bit_eq_mod unat_of_nat power_mult)
  qed
  then have "STORE64L (of_nat N) = le_bytes 8 (unat (of_nat N :: u64))" by (simp add: STORE64L_def le_bytes_map)
  also have "unat (of_nat N :: u64) = N mod 256 ^ 8" by (simp add: unat_of_nat)
  finally show ?thesis by (simp only: le_bytes_mod)
qed

lemma md5_fill_all:
  assumes "curlen s \<le> n" "n \<le> 64" "length (md5_buf s) = 64"
  shows "length (md5_buf (md5_fill n s)) = 64" "curlen (md5_fill n s) = n"
    "md5_buffered (md5_fill n s) = md5_buffered s @ replicate (n - curlen s) 0"
    "md5_words (md5_fill n s) = md5_words s" "md5_length (md5_fill n s) = md5_length s"
  using copy_in_all [of s "replicate (n - curlen s) 0"] assms by (simp_all add: md5_fill_def)

lemma md5_last_blocks:
  assumes t: "length (md5_buf t) = 64" "curlen t = k + 1" "md5_buffered t = b @ [128]" "md5_length t = of_nat (8 * n)"
    and k: "k = n mod 64" "length b = k"
  shows "md5_last t = foldl md5_compress (md5_words t) (blocks (b @ padding (le_bytes 8) n))"
proof (cases "k > 55")
  case True
  have k64: "k < 64" using k by simp
  let ?f = "md5_fill 64 t"
  note f = md5_fill_all [of t 64]
  have f: "length (md5_buf ?f) = 64" "md5_buf ?f = b @ 128 # replicate (64 - (k + 1)) 0" "md5_words ?f = md5_words t" "md5_length ?f = of_nat (8 * n)"
    using f t k64 by (simp_all add: md5_buffered_def)
  let ?q = "?f\<lparr>md5_words := md5_compress (md5_words t) (md5_buf ?f), curlen := 0\<rparr>"
  note q = md5_fill_all [of ?q 56]
  have q: "take 56 (md5_buf (md5_fill 56 ?q)) = replicate 56 0" "md5_words (md5_fill 56 ?q) = md5_compress (md5_words t) (md5_buf ?f)"
      "md5_length (md5_fill 56 ?q) = of_nat (8 * n)"
    using q f by (simp_all add: md5_buffered_def)
  have "curlen t > 56" using True t by simp
  then have "md5_last t = md5_compress (md5_compress (md5_words t) (md5_buf ?f)) (replicate 56 0 @ le_bytes 8 (8 * n))"
    using q STORE64L_le [of "8 * n"] unfolding md5_last_def Let_def by simp
  moreover have "blocks (b @ padding (le_bytes 8) n) = [md5_buf ?f, replicate 56 0 @ le_bytes 8 (8 * n)]"
    using blocks_block [OF f(1), of "replicate 56 0 @ le_bytes 8 (8 * n)"] blocks_one [of "replicate 56 0 @ le_bytes 8 (8 * n)"]
      padding_split(1) [OF k(1) True] f(2) by simp
  ultimately show ?thesis by simp
next
  case False
  let ?f = "md5_fill 56 t"
  note f = md5_fill_all [of t 56]
  have f: "take 56 (md5_buf ?f) = b @ 128 # replicate (56 - (k + 1)) 0" "md5_words ?f = md5_words t" "md5_length ?f = of_nat (8 * n)"
    using f t False by (simp_all add: md5_buffered_def)
  let ?l = "b @ (128 # replicate (56 - (k + 1)) 0) @ le_bytes 8 (8 * n)"
  have "length ?l = 64" using False k(2) by simp
  then have "blocks ?l = [?l]" by (rule blocks_one)
  moreover have "\<not> curlen t > 56" using False t by simp
  then have "md5_last t = md5_compress (md5_words t) ?l"
    using f STORE64L_le [of "8 * n"] unfolding md5_last_def Let_def by simp
  ultimately show ?thesis using padding_split(2) [OF k(1), of "le_bytes 8"] False by simp
qed

lemma md5_finish_blocks:
  assumes g: "md5_good n s"
  shows "md5_finish s = foldl md5_compress (md5_words s) (blocks (md5_buffered s @ padding (le_bytes 8) n))"
proof -
  let ?k = "curlen s"
  have k: "?k = n mod 64" "length (md5_buffered s) = ?k" using g by (simp_all add: md5_good_def md5_buffered_def)
  have "md5_length s + of_nat (?k * 8) = of_nat (512 * (n div 64) + 8 * (n mod 64))" using g by (simp add: md5_good_def)
  also have "512 * (n div 64) + 8 * (n mod 64) = 8 * n" using div_mult_mod_eq [of n 64] by linarith
  finally have len: "md5_length s + of_nat (?k * 8) = of_nat (8 * n)" .
  obtain s' where s': "s' = s\<lparr>md5_length := md5_length s + of_nat (?k * 8)\<rparr>" by blast
  have p: "curlen s' + length [128 :: u8] \<le> 64" "length (md5_buf s') = 64" using g by (simp_all add: s' md5_good_def Suc_le_eq)
  from md5_last_blocks [of "copy_in [128] s'" ?k "md5_buffered s" n] copy_in_all [OF p] len k
  show ?thesis by (simp add: md5_finish_def s' md5_buffered_def)
qed

interpretation md5: streaming_hash md5_compress "le_bytes 8" md5_iv "\<lambda>_. True" md5_good md5_words md5_buffered
  process_loop md5_finish
  by unfold_locales (simp_all add: process_loop_good md5_finish_blocks)

text \<open>However a message is processed, and whatever the buffer held, the digest is that of the message.\<close>

lemma md5_of_pieces:
  assumes junk: "length junk = 64"
  shows "md5_done (foldl (\<lambda>s d. process_loop d s) (md5_init junk) ds) = Some (md5_output (digest md5_compress (le_bytes 8) md5_iv (concat ds)))"
proof -
  have i: "md5_good 0 (md5_init junk)" "md5_words (md5_init junk) = md5_iv" "md5_buffered (md5_init junk) = []"
    using junk by (simp_all add: md5_good_def md5_init_def md5_buffered_def)
  let ?s = "foldl (\<lambda>s d. process_loop d s) (md5_init junk) ds"
  have "md5_good (length (concat ds)) ?s" using md5.after_feeds [OF i, of ds] by (simp add: Let_def)
  then show ?thesis using md5.pieces_do_not_matter [OF i, of ds] by (simp add: md5_done_def md5_good_def)
qed

lemma md5_output_length: "length (md5_output h) = 16"
  by (cases h) (simp add: STORE32L_def)

lemma md5_is_digest:
  "length junk = 64 \<Longrightarrow> md5 junk szSrc 16 = Some (md5_output (digest md5_compress (le_bytes 8) md5_iv szSrc))"
proof -
  assume "length junk = 64"
  from md5_of_pieces [OF this, of "[szSrc]"] show ?thesis using md5_output_length by (simp add: md5_def md5_process_def md5_init_def)
qed

section \<open>Hexadecimal text\<close>

text \<open>A buffer that is too small gives the size that is needed and no text.\<close>

definition hex_digit :: "nat \<Rightarrow> u8" where
  "hex_digit n = of_nat (if n < 10 then 48 + n else 55 + n)"

definition hexEncode :: "u8 list \<Rightarrow> nat \<Rightarrow> nat \<times> u8 list option" where
  "hexEncode xs nOutLen = (if xs = [] then (nOutLen, None)
     else if nOutLen < length xs * 2 then (length xs * 2, None)
     else (length xs * 2, Some (concat (map (\<lambda>x. [hex_digit (unat x div 16 mod 16), hex_digit (unat x mod 16)]) xs))))"

text \<open>The tests of the letters hold of every character: all that are not digits are taken for capital letters.\<close>

definition hex_value :: "u8 \<Rightarrow> u8" where
  "hex_value ch = (if 48 \<le> ch \<and> ch \<le> 57 then ch - 48 else 10 + (ch - 65))"

fun hex_pairs :: "u8 list \<Rightarrow> u8 list" where
  "hex_pairs (p # q # xs) = (push_bit 4 (hex_value p) + hex_value q) # hex_pairs xs"
| "hex_pairs _ = []"

definition hexDecode :: "u8 list \<Rightarrow> nat \<Rightarrow> nat \<times> u8 list option" where
  "hexDecode xs nOutLen = (if xs = [] \<or> length xs mod 2 \<noteq> 0 then (nOutLen, None)
     else if nOutLen < length xs div 2 then (length xs div 2, None)
     else (length xs div 2, Some (hex_pairs xs)))"

lemma hex_digit_value: "n < 16 \<Longrightarrow> hex_value (hex_digit n) = of_nat n"
proof -
  assume "n < 16"
  moreover have "\<forall>n \<in> set [0..<16]. hex_value (hex_digit n) = of_nat n" by code_simp
  ultimately show ?thesis by simp
qed

lemma hex_byte: "push_bit 4 (of_nat (unat x div 16 mod 16)) + of_nat (unat x mod 16) = x" for x :: u8
proof -
  have "unat x < 256" using unsigned_less [of x] by simp
  then have "unat x div 16 < 16" by simp
  then have "unat x div 16 mod 16 = unat x div 16" by simp
  moreover have "push_bit 4 (of_nat p) + of_nat q = (of_nat (16 * p + q) :: u8)" for p q by (simp add: push_bit_eq_mult)
  ultimately have "push_bit 4 (of_nat (unat x div 16 mod 16)) + of_nat (unat x mod 16) = (of_nat (16 * (unat x div 16) + unat x mod 16) :: u8)"
    by (simp only:)
  also have "16 * (unat x div 16) + unat x mod 16 = unat x" by simp
  finally show ?thesis by simp
qed

lemma hex_roundtrip:
  assumes "xs \<noteq> []" "length xs * 2 \<le> n" "length xs \<le> m"
  shows "\<exists>hs. hexEncode xs n = (length xs * 2, Some hs) \<and> hexDecode hs m = (length xs, Some xs)"
proof -
  let ?hs = "concat (map (\<lambda>x. [hex_digit (unat x div 16 mod 16), hex_digit (unat x mod 16)]) xs)"
  have "hex_pairs ?hs = xs" by (induction xs) (simp_all add: hex_digit_value hex_byte)
  moreover have "length ?hs = length xs * 2" by (induction xs) simp_all
  ultimately show ?thesis using assms by (auto simp: hexEncode_def hexDecode_def)
qed

text \<open>Small letters decode to other bytes than capital ones, and what is no digit at all is accepted.\<close>

lemma hex_small_letters: "hexDecode [54, 65] 1 = (1, Some [0x6A])" "hexDecode [54, 97] 1 = (1, Some [0x8A])" "hexDecode [33, 126] 1 \<noteq> (1, None)"
  by code_simp+

section \<open>The second base 64 encoder\<close>

text \<open>
  Here the bytes are signed characters: a byte of 128 or more is extended with ones over the bytes before it,
  and the sum of the three borrows from them.
\<close>

definition encoding_table :: "u8 list" where
  "encoding_table = map of_nat ([65..<91] @ [97..<123] @ [48..<58] @ [43, 47])"

definition octet :: "u8 list \<Rightarrow> nat \<Rightarrow> u32" where
  "octet xs i = (if i < length xs then scast (xs ! i) else 0)"

fun triples :: "u8 list \<Rightarrow> u8 list" where
  "triples [] = []"
| "triples (x # xs) = (let ys = x # xs; triple = push_bit 16 (octet ys 0) + push_bit 8 (octet ys 1) + octet ys 2 in
     map (\<lambda>k. encoding_table ! unat (drop_bit (k * 6) triple AND 63)) [3, 2, 1, 0] @ triples (drop 2 xs))"

definition base64Encode :: "u8 list \<Rightarrow> nat \<Rightarrow> nat \<times> u8 list option" where
  "base64Encode xs nOutLen = (let req_len = 4 * ((length xs + 2) div 3) in
     if xs = [] then (nOutLen, None)
     else if nOutLen < req_len then (req_len, None)
     else (req_len, Some (take (req_len - [0, 2, 1] ! (length xs mod 3)) (triples xs) @ replicate ([0, 2, 1] ! (length xs mod 3)) 61)))"

text \<open>\<open>TWFu\<close>, and what becomes of the first letter when the last byte is large.\<close>

lemma base64Encode_signed:
  "base64Encode [77, 97, 110] 4 = (4, Some [84, 87, 70, 117])"
  "base64Encode [0, 0, 128] 4 = (4, Some [47, 47, 43, 65])" "base64Encode [0, 0, 127] 4 = (4, Some [65, 65, 66, 47])"
  by code_simp+

end
