(* ===== verification/Coroutines.thy ===== *)
theory Coroutines imports Ordered_Map begin

text \<open>
  The coroutines of \<open>libCoreCommon\<close> (\<open>coroutine.cpp\<close>, \<open>coroutine_mgr.cpp\<close>, \<open>coroutine_impl.cpp\<close>,
  \<open>coroutine_thread.cpp\<close>): their creation, what a resume, a yield and the end of one do to their state, and the list
  of finished ones that are used again.  The switch of the stack itself is assembler and not modelled: a
  thread that resumes a coroutine runs it until it yields or ends and then does what \<open>resume\<close> does
  after the switch.  A coroutine is named by its id, which a reused one keeps; \<open>None\<close> as a result stands for
  the use of one that is deleted.
\<close>

datatype ECoroutineState = eCS_NONE | eCS_DEAD | eCS_READY | eCS_RUNNING | eCS_SUSPEND

record coro =
  m_eState :: ECoroutineState
  m_nStackSize :: u32
  m_nContext :: nat
  m_mapLocalData :: "(bstr, nat) omap"
  m_callback :: "nat option"

text \<open>What a thread is at: its own stack, a coroutine, or the part of \<open>coroutine::resume\<close> behind the switch.\<close>

datatype co_phase = At_root | In_coroutine nat | After_switch nat

record co_pool =
  m_nTotalStackSize :: int
  m_nNextCoroutineID :: nat
  m_mapCoroutine :: "nat list"            \<comment> \<open>the keys, in order\<close>
  m_listRecycleCoroutine :: "nat list"
  co_object :: "nat \<Rightarrow> coro option"
  co_thread :: "nat \<Rightarrow> co_phase"

definition new_pool :: co_pool where
  "new_pool = \<lparr>m_nTotalStackSize = 0, m_nNextCoroutineID = 1, m_mapCoroutine = [], m_listRecycleCoroutine = [],
     co_object = (\<lambda>_. None), co_thread = (\<lambda>_. At_root)\<rparr>"

definition MAX_CO_RECYCLE_COUNT :: nat where "MAX_CO_RECYCLE_COUNT = 100"
definition MIN_CO_STACK :: u32 where "MIN_CO_STACK = 64 * 1024"

definition set_object :: "nat \<Rightarrow> coro option \<Rightarrow> co_pool \<Rightarrow> co_pool" where
  "set_object k c p = p\<lparr>co_object := (co_object p)(k := c)\<rparr>"

definition set_thread :: "nat \<Rightarrow> co_phase \<Rightarrow> co_pool \<Rightarrow> co_pool" where
  "set_thread t x p = p\<lparr>co_thread := (co_thread p)(t := x)\<rparr>"

definition stack_of :: "co_pool \<Rightarrow> nat \<Rightarrow> u32" where
  "stack_of p k = (case co_object p k of None \<Rightarrow> 0 | Some c \<Rightarrow> m_nStackSize c)"

section \<open>The manager\<close>

definition round_stack :: "u32 \<Rightarrow> u32 \<Rightarrow> u32" where
  "round_stack nPageSize n = (n + nPageSize - 1) div nPageSize * nPageSize"

definition near_size :: "u32 \<Rightarrow> u32 \<Rightarrow> u32 \<Rightarrow> bool" where
  "near_size nPageSize a b \<longleftrightarrow> abs (sint a - sint b) \<le> sint (10 * nPageSize)"

text \<open>\<open>createCoroutine\<close>: the id, or 0; \<open>alloc\<close>: whether the stack could be allocated.\<close>

definition createCoroutine :: "u32 \<Rightarrow> u32 \<Rightarrow> bool \<Rightarrow> u32 \<Rightarrow> nat \<Rightarrow> co_pool \<Rightarrow> nat \<times> co_pool" where
  "createCoroutine nPageSize nDefault alloc nStackSize callback p = (let
     n = round_stack nPageSize (if nStackSize = 0 then nDefault else nStackSize) in
     case find (\<lambda>k. near_size nPageSize (stack_of p k) n) (m_listRecycleCoroutine p) of
       Some k \<Rightarrow> (k, (case co_object p k of None \<Rightarrow> p
         | Some c \<Rightarrow> set_object k (Some (c\<lparr>m_callback := Some callback, m_eState := eCS_SUSPEND\<rparr>))
             (p\<lparr>m_listRecycleCoroutine := remove1 k (m_listRecycleCoroutine p), m_mapCoroutine := insort_insert k (m_mapCoroutine p),
                m_nTotalStackSize := m_nTotalStackSize p + uint (m_nStackSize c)\<rparr>)))
     | None \<Rightarrow> (let k = m_nNextCoroutineID p; p = p\<lparr>m_nNextCoroutineID := k + 1\<rparr> in
         if n < MIN_CO_STACK \<or> \<not> alloc then (0, p)
         else (k, set_object k (Some \<lparr>m_eState = eCS_READY, m_nStackSize = n, m_nContext = 0, m_mapLocalData = [], m_callback = Some callback\<rparr>)
             (p\<lparr>m_mapCoroutine := insort_insert k (m_mapCoroutine p), m_nTotalStackSize := m_nTotalStackSize p + uint n\<rparr>))))"

definition getCoroutine :: "nat \<Rightarrow> co_pool \<Rightarrow> bool" where
  "getCoroutine k p \<longleftrightarrow> k \<in> set (m_mapCoroutine p)"

definition getCoroutineCount :: "co_pool \<Rightarrow> nat" where
  "getCoroutineCount p = length (m_mapCoroutine p)"

definition addRecycleCoroutine :: "nat \<Rightarrow> co_pool \<Rightarrow> bool \<times> co_pool" where
  "addRecycleCoroutine k p = (let p' = p\<lparr>m_mapCoroutine := filter (\<lambda>j. j \<noteq> k) (m_mapCoroutine p),
       m_nTotalStackSize := m_nTotalStackSize p - uint (stack_of p k)\<rparr> in
     if length (m_listRecycleCoroutine p') > MAX_CO_RECYCLE_COUNT then (False, p')
     else (True, p'\<lparr>m_listRecycleCoroutine := m_listRecycleCoroutine p' @ [k]\<rparr>))"

section \<open>Running\<close>

text \<open>\<open>coroutine::resume\<close> up to the switch; one that is not ready or suspended is left alone.\<close>

definition co_resume :: "nat \<Rightarrow> nat \<Rightarrow> nat \<Rightarrow> co_pool \<Rightarrow> co_pool option" where
  "co_resume t k nContext p = (if \<not> getCoroutine k p then Some p
     else case co_object p k of None \<Rightarrow> None
     | Some c \<Rightarrow> if m_eState c \<noteq> eCS_READY \<and> m_eState c \<noteq> eCS_SUSPEND then Some (set_thread t (After_switch k) p)
         else Some (set_thread t (In_coroutine k) (set_object k (Some (c\<lparr>m_eState := eCS_RUNNING, m_nContext := nContext\<rparr>)) p)))"

text \<open>What a resume does when it is back: a coroutine that has ended is kept for later or deleted.\<close>

definition co_after :: "nat \<Rightarrow> co_pool \<Rightarrow> co_pool option" where
  "co_after t p = (case co_thread p t of After_switch k \<Rightarrow> (case co_object p k of None \<Rightarrow> None
       | Some c \<Rightarrow> Some (set_thread t At_root (if m_eState c = eCS_DEAD
           then (case addRecycleCoroutine k p of (True, p) \<Rightarrow> p | (False, p) \<Rightarrow> set_object k None p)
           else p)))
     | _ \<Rightarrow> Some p)"

definition co_yield :: "nat \<Rightarrow> co_pool \<Rightarrow> co_pool option" where
  "co_yield t p = (case co_thread p t of In_coroutine k \<Rightarrow> (case co_object p k of None \<Rightarrow> None
       | Some c \<Rightarrow> if m_eState c \<noteq> eCS_RUNNING then Some p
           else Some (set_thread t (After_switch k) (set_object k (Some (c\<lparr>m_eState := eCS_SUSPEND\<rparr>)) p)))
     | _ \<Rightarrow> Some p)"

text \<open>The end of the function that a coroutine runs.\<close>

definition co_return :: "nat \<Rightarrow> co_pool \<Rightarrow> co_pool option" where
  "co_return t p = (case co_thread p t of In_coroutine k \<Rightarrow> (case co_object p k of None \<Rightarrow> None
       | Some c \<Rightarrow> Some (set_thread t (After_switch k) (set_object k (Some (c\<lparr>m_callback := None, m_eState := eCS_DEAD\<rparr>)) p)))
     | _ \<Rightarrow> Some p)"

definition getCurrentID :: "nat \<Rightarrow> co_pool \<Rightarrow> nat" where
  "getCurrentID t p = (case co_thread p t of In_coroutine k \<Rightarrow> k | _ \<Rightarrow> 0)"

definition getState :: "nat \<Rightarrow> co_pool \<Rightarrow> ECoroutineState" where
  "getState k p = (if \<not> getCoroutine k p then eCS_DEAD else case co_object p k of None \<Rightarrow> eCS_DEAD | Some c \<Rightarrow> m_eState c)"

text \<open>Data under a name, of a coroutine that there is.\<close>

definition on_coroutine :: "nat \<Rightarrow> (coro \<Rightarrow> coro) \<Rightarrow> co_pool \<Rightarrow> co_pool" where
  "on_coroutine k f p = (if \<not> getCoroutine k p then p else case co_object p k of None \<Rightarrow> p | Some c \<Rightarrow> set_object k (Some (f c)) p)"

definition setLocalData :: "nat \<Rightarrow> bstr \<Rightarrow> nat \<Rightarrow> co_pool \<Rightarrow> co_pool" where
  "setLocalData k szName nData = on_coroutine k (\<lambda>c. c\<lparr>m_mapLocalData := om_put szName nData (m_mapLocalData c)\<rparr>)"

definition delLocalData :: "nat \<Rightarrow> bstr \<Rightarrow> co_pool \<Rightarrow> co_pool" where
  "delLocalData k szName = on_coroutine k (\<lambda>c. c\<lparr>m_mapLocalData := om_del szName (m_mapLocalData c)\<rparr>)"

definition getLocalData :: "nat \<Rightarrow> bstr \<Rightarrow> co_pool \<Rightarrow> nat option" where
  "getLocalData k szName p = (if \<not> getCoroutine k p then None else case co_object p k of None \<Rightarrow> None | Some c \<Rightarrow> om_get (m_mapLocalData c) szName)"

text \<open>\<open>close\<close> only asserts that the coroutine is dead.\<close>

definition co_close :: "nat \<Rightarrow> co_pool \<Rightarrow> co_pool" where
  "co_close k p = p"

section \<open>Threads\<close>

datatype co_event =
    Co_create u32 u32 bool u32 nat
  | Co_resume nat nat nat
  | Co_yield nat
  | Co_return nat
  | Co_after nat
  | Co_set_local nat bstr nat
  | Co_del_local nat bstr

text \<open>
  A coroutine is resumed from the stack of a thread, and by one thread at a time: it belongs to a service, whose
  messages are dispatched by one thread at a time.
\<close>

definition resume_allowed :: "nat \<Rightarrow> nat \<Rightarrow> co_pool \<Rightarrow> bool" where
  "resume_allowed t k p \<longleftrightarrow> co_thread p t = At_root \<and> (\<forall>u. co_thread p u \<noteq> In_coroutine k \<and> co_thread p u \<noteq> After_switch k)"

inductive co_step :: "co_pool \<Rightarrow> co_event \<Rightarrow> co_pool option \<Rightarrow> bool" where
  create: "co_step p (Co_create pg df al n cb) (Some (snd (createCoroutine pg df al n cb p)))"
| resume: "resume_allowed t k p \<Longrightarrow> co_step p (Co_resume t k cx) (co_resume t k cx p)"
| yield: "co_step p (Co_yield t) (co_yield t p)"
| return: "co_step p (Co_return t) (co_return t p)"
| after: "co_step p (Co_after t) (co_after t p)"
| set_local: "co_step p (Co_set_local k nm d) (Some (setLocalData k nm d p))"
| del_local: "co_step p (Co_del_local k nm) (Some (delLocalData k nm p))"

inductive co_reachable :: "co_pool option \<Rightarrow> bool" where
  start: "co_reachable (Some new_pool)"
| further: "co_reachable (Some p) \<Longrightarrow> co_step p e p' \<Longrightarrow> co_reachable p'"

inductive_cases co_stepE: "co_step p e p'"

end
