(* ===== verification/Coroutine_Props.thy ===== *)
theory Coroutine_Props imports Coroutines begin

text \<open>
  What holds of the coroutines in every run in which each is resumed by one thread at a time: no deleted one
  is used, the live and the kept ones are apart, and the count of their stacks is right; and what a
  reused id carries over.
\<close>

section \<open>The invariant\<close>

fun held :: "co_phase \<Rightarrow> nat option" where
  "held At_root = None"
| "held (In_coroutine k) = Some k"
| "held (After_switch k) = Some k"

definition lists_ok :: "co_pool \<Rightarrow> bool" where
  "lists_ok p \<longleftrightarrow> distinct (m_mapCoroutine p) \<and> distinct (m_listRecycleCoroutine p) \<and>
     set (m_mapCoroutine p) \<inter> set (m_listRecycleCoroutine p) = {} \<and> length (m_listRecycleCoroutine p) \<le> 101 \<and>
     (\<forall>k \<in> set (m_mapCoroutine p) \<union> set (m_listRecycleCoroutine p). k < m_nNextCoroutineID p) \<and>
     (\<forall>k. (co_object p k \<noteq> None) = (k \<in> set (m_mapCoroutine p) \<union> set (m_listRecycleCoroutine p)))"

definition total_ok :: "co_pool \<Rightarrow> bool" where
  "total_ok p \<longleftrightarrow> m_nTotalStackSize p = (\<Sum>k \<in> set (m_mapCoroutine p). uint (stack_of p k))"

definition threads_ok :: "co_pool \<Rightarrow> bool" where
  "threads_ok p \<longleftrightarrow> (\<forall>t u k. held (co_thread p t) = Some k \<longrightarrow> held (co_thread p u) = Some k \<longrightarrow> t = u) \<and>
     (\<forall>t k. held (co_thread p t) = Some k \<longrightarrow> k \<in> set (m_mapCoroutine p))"

definition states_ok :: "co_pool \<Rightarrow> bool" where
  "states_ok p \<longleftrightarrow> (\<forall>k c. k \<in> set (m_mapCoroutine p) \<longrightarrow> co_object p k = Some c \<longrightarrow>
     (m_eState c = eCS_RUNNING \<longleftrightarrow> (\<exists>t. co_thread p t = In_coroutine k)) \<and>
     (m_eState c = eCS_DEAD \<longrightarrow> (\<exists>t. co_thread p t = After_switch k)) \<and> m_eState c \<noteq> eCS_NONE)"

definition pool_ok :: "co_pool \<Rightarrow> bool" where
  "pool_ok p \<longleftrightarrow> lists_ok p \<and> total_ok p \<and> threads_ok p \<and> states_ok p"

lemma pool_okD: "pool_ok p \<Longrightarrow> lists_ok p" "pool_ok p \<Longrightarrow> total_ok p" "pool_ok p \<Longrightarrow> threads_ok p" "pool_ok p \<Longrightarrow> states_ok p"
  by (simp_all add: pool_ok_def)

lemma set_object_other [simp]:
  "m_mapCoroutine (set_object k c p) = m_mapCoroutine p" "m_listRecycleCoroutine (set_object k c p) = m_listRecycleCoroutine p"
  "m_nNextCoroutineID (set_object k c p) = m_nNextCoroutineID p" "m_nTotalStackSize (set_object k c p) = m_nTotalStackSize p"
  "co_thread (set_object k c p) = co_thread p" "co_object (set_object k c p) = (co_object p)(k := c)"
  by (simp_all add: set_object_def)

lemma set_thread_other [simp]:
  "m_mapCoroutine (set_thread t x p) = m_mapCoroutine p" "m_listRecycleCoroutine (set_thread t x p) = m_listRecycleCoroutine p"
  "m_nNextCoroutineID (set_thread t x p) = m_nNextCoroutineID p" "m_nTotalStackSize (set_thread t x p) = m_nTotalStackSize p"
  "co_object (set_thread t x p) = co_object p" "co_thread (set_thread t x p) = (co_thread p)(t := x)"
  by (simp_all add: set_thread_def)

text \<open>A change of a live coroutine that keeps its stack.\<close>

lemma change_lists:
  "lists_ok p \<Longrightarrow> co_object p k = Some c \<Longrightarrow> lists_ok (set_thread t x (set_object k (Some c') p))"
  by (auto simp: lists_ok_def)

lemma change_total:
  assumes "total_ok p" "co_object p k = Some c" "m_nStackSize c' = m_nStackSize c"
  shows "total_ok (set_thread t x (set_object k (Some c') p))"
proof -
  have "stack_of (set_thread t x (set_object k (Some c') p)) j = stack_of p j" for j using assms by (simp add: stack_of_def)
  then show ?thesis using assms(1) by (simp add: total_ok_def)
qed

lemma change_threads:
  assumes "threads_ok p" "k \<in> set (m_mapCoroutine p)" "held (co_thread p t) = Some k \<or> (\<forall>u. held (co_thread p u) \<noteq> Some k)" "held x = Some k"
  shows "threads_ok (set_thread t x (set_object k (Some c') p))"
  using assms by (auto simp: threads_ok_def split: if_splits)

lemma held_iff: "(held x = Some k) = (x = In_coroutine k \<or> x = After_switch k)"
  by (cases x) auto

lemma change_states:
  assumes s: "states_ok p" and th: "threads_ok p" and k: "co_object p k = Some c" "held (co_thread p t) = Some k \<or> (\<forall>u. held (co_thread p u) \<noteq> Some k)"
    and t: "held (co_thread p t) = None \<or> held (co_thread p t) = Some k"
    and x: "(x = In_coroutine k \<and> m_eState c' = eCS_RUNNING) \<or> (x = After_switch k \<and> m_eState c' \<noteq> eCS_RUNNING \<and> m_eState c' \<noteq> eCS_NONE)"
  shows "states_ok (set_thread t x (set_object k (Some c') p))"
  unfolding states_ok_def
proof (intro allI impI)
  let ?p = "set_thread t x (set_object k (Some c') p)"
  fix j d assume j: "j \<in> set (m_mapCoroutine ?p)" "co_object ?p j = Some d"
  show "(m_eState d = eCS_RUNNING \<longleftrightarrow> (\<exists>u. co_thread ?p u = In_coroutine j)) \<and>
     (m_eState d = eCS_DEAD \<longrightarrow> (\<exists>u. co_thread ?p u = After_switch j)) \<and> m_eState d \<noteq> eCS_NONE"
  proof (cases "j = k")
    case True
    have "u = t" if "held (co_thread p u) = Some k" for u using k(2) that th unfolding threads_ok_def by blast
    then have "co_thread p u \<noteq> In_coroutine k" if "u \<noteq> t" for u using that by (auto simp: held_iff)
    then show ?thesis using j True x by (auto split: if_splits)
  next
    case False
    then have jd: "j \<in> set (m_mapCoroutine p)" "co_object p j = Some d" using j by auto
    have tj: "co_thread p t \<noteq> In_coroutine j" "co_thread p t \<noteq> After_switch j" using t False by auto
    have xj: "x \<noteq> In_coroutine j" "x \<noteq> After_switch j" using x False by auto
    have "(\<exists>u. co_thread ?p u = In_coroutine j) = (\<exists>u. co_thread p u = In_coroutine j)" "(\<exists>u. co_thread ?p u = After_switch j) = (\<exists>u. co_thread p u = After_switch j)"
      using tj xj by (auto split: if_splits)
    then show ?thesis using s jd by (simp add: states_ok_def)
  qed
qed


definition pool_fine :: "co_pool option \<Rightarrow> bool" where
  "pool_fine x \<longleftrightarrow> (case x of None \<Rightarrow> False | Some p \<Rightarrow> pool_ok p)"

lemma pool_fine_simps [simp]: "pool_fine (Some p) = pool_ok p" "\<not> pool_fine None"
  by (simp_all add: pool_fine_def)

lemma live_object:
  assumes "pool_ok p" "k \<in> set (m_mapCoroutine p)"
  obtains c where "co_object p k = Some c"
proof -
  have "co_object p k \<noteq> None" using assms unfolding pool_ok_def lists_ok_def by blast
  then show ?thesis using that by auto
qed

lemma held_live: "pool_ok p \<Longrightarrow> held (co_thread p t) = Some k \<Longrightarrow> k \<in> set (m_mapCoroutine p)"
  by (auto simp: pool_ok_def threads_ok_def)

lemma set_object_id: "co_object p k = Some c \<Longrightarrow> set_object k (Some c) p = p"
  by (simp add: set_object_def fun_upd_idem)

lemma pool_change:
  assumes "pool_ok p" "k \<in> set (m_mapCoroutine p)" "co_object p k = Some c" "m_nStackSize c' = m_nStackSize c"
    "held (co_thread p t) = Some k \<or> (\<forall>u. held (co_thread p u) \<noteq> Some k)" "held (co_thread p t) = None \<or> held (co_thread p t) = Some k"
    "(x = In_coroutine k \<and> m_eState c' = eCS_RUNNING) \<or> (x = After_switch k \<and> m_eState c' \<noteq> eCS_RUNNING \<and> m_eState c' \<noteq> eCS_NONE)"
  shows "pool_ok (set_thread t x (set_object k (Some c') p))"
proof -
  have "held x = Some k" using assms(7) by auto
  moreover note p = pool_okD[OF assms(1)]
  ultimately show ?thesis unfolding pool_ok_def
    using change_lists[OF p(1) assms(3)] change_total[OF p(2) assms(3,4)] change_threads[OF p(3) assms(2,5)]
      change_states[OF p(4,3) assms(3,5,6,7)] by blast
qed

lemma resume_fine: "pool_ok p \<Longrightarrow> resume_allowed t k p \<Longrightarrow> pool_fine (co_resume t k nContext p)"
proof (cases "getCoroutine k p")
  case True
  assume p: "pool_ok p" and r: "resume_allowed t k p"
  have k: "k \<in> set (m_mapCoroutine p)" using True by (simp add: getCoroutine_def)
  then obtain c where c: "co_object p k = Some c" using p live_object by blast
  have free: "held (co_thread p t) = None" "\<forall>u. held (co_thread p u) \<noteq> Some k"
    using r by (auto simp: resume_allowed_def held_iff)
  have "m_eState c = eCS_READY \<or> m_eState c = eCS_SUSPEND"
    using p k c r by (cases "m_eState c") (auto simp: pool_ok_def states_ok_def resume_allowed_def)
  then have "co_resume t k nContext p = Some (set_thread t (In_coroutine k) (set_object k (Some (c\<lparr>m_eState := eCS_RUNNING, m_nContext := nContext\<rparr>)) p))"
    using True c by (auto simp: co_resume_def)
  then show ?thesis using pool_change[OF p k c, of "c\<lparr>m_eState := eCS_RUNNING, m_nContext := nContext\<rparr>" t "In_coroutine k"] free by simp
qed (simp add: co_resume_def)

lemma yield_fine: "pool_ok p \<Longrightarrow> pool_fine (co_yield t p)"
proof (cases "co_thread p t")
  case (In_coroutine k)
  assume p: "pool_ok p"
  have h: "held (co_thread p t) = Some k" using In_coroutine by simp
  then have k: "k \<in> set (m_mapCoroutine p)" using p held_live by blast
  then obtain c where c: "co_object p k = Some c" using p live_object by blast
  show ?thesis using pool_change[OF p k c, of "c\<lparr>m_eState := eCS_SUSPEND\<rparr>" t "After_switch k"] h c p In_coroutine
    by (auto simp: co_yield_def)
qed (auto simp: co_yield_def)

lemma return_fine: "pool_ok p \<Longrightarrow> pool_fine (co_return t p)"
proof (cases "co_thread p t")
  case (In_coroutine k)
  assume p: "pool_ok p"
  have h: "held (co_thread p t) = Some k" using In_coroutine by simp
  then have k: "k \<in> set (m_mapCoroutine p)" using p held_live by blast
  then obtain c where c: "co_object p k = Some c" using p live_object by blast
  show ?thesis using pool_change[OF p k c, of "c\<lparr>m_callback := None, m_eState := eCS_DEAD\<rparr>" t "After_switch k"] h c p In_coroutine
    by (auto simp: co_return_def)
qed (auto simp: co_return_def)

text \<open>A change that only touches the data of one coroutine.\<close>

lemma data_ok:
  assumes p: "pool_ok p" and c: "co_object p k = Some c" and same: "m_nStackSize c' = m_nStackSize c" "m_eState c' = m_eState c"
  shows "pool_ok (set_object k (Some c') p)"
proof -
  have st: "stack_of (set_object k (Some c') p) j = stack_of p j" for j using c same by (simp add: stack_of_def)
  have "lists_ok (set_object k (Some c') p)" using p c by (auto simp: pool_ok_def lists_ok_def)
  moreover have "total_ok (set_object k (Some c') p)" using p st by (simp add: pool_ok_def total_ok_def)
  moreover have "threads_ok (set_object k (Some c') p)" using p by (simp add: pool_ok_def threads_ok_def)
  moreover have "states_ok (set_object k (Some c') p)" using p c same by (simp add: pool_ok_def states_ok_def)
  ultimately show ?thesis by (simp add: pool_ok_def)
qed

lemma local_data_ok:
  assumes "pool_ok p"
  shows "pool_ok (setLocalData k nm d p)" and "pool_ok (delLocalData k nm p)"
  using assms data_ok by (auto simp: setLocalData_def delLocalData_def on_coroutine_def split: option.split)


text \<open>A coroutine that is not among the live ones becomes one.\<close>

lemma add_live:
  assumes p: "pool_ok p" and k: "k \<notin> set (m_mapCoroutine p)"
    and live: "set (m_mapCoroutine q) = insert k (set (m_mapCoroutine p))" "distinct (m_mapCoroutine q)"
    and kept: "m_listRecycleCoroutine q = remove1 k (m_listRecycleCoroutine p)"
    and ids: "m_nNextCoroutineID p \<le> m_nNextCoroutineID q" "k < m_nNextCoroutineID q"
    and obj: "co_object q = (co_object p)(k := Some c)" "m_eState c = eCS_READY \<or> m_eState c = eCS_SUSPEND"
    and rest: "co_thread q = co_thread p" "m_nTotalStackSize q = m_nTotalStackSize p + uint (m_nStackSize c)"
  shows "pool_ok q"
proof -
  note [simp] = live kept obj(1) rest
  note ok = p[unfolded pool_ok_def lists_ok_def total_ok_def threads_ok_def states_ok_def]
  have free: "held (co_thread p t) \<noteq> Some k" for t using held_live[OF p] k by blast
  have lists: "lists_ok p" using p by (rule pool_okD)
  have d: "distinct (m_listRecycleCoroutine p)" using lists by (simp add: lists_ok_def)
  have small: "length (m_listRecycleCoroutine q) \<le> 101" using lists by (auto simp: lists_ok_def length_remove1)
  have older: "j < m_nNextCoroutineID q" if "j \<in> set (m_mapCoroutine p) \<union> set (m_listRecycleCoroutine p)" for j
    using lists that ids(1) unfolding lists_ok_def by (meson order.strict_trans2)
  have "lists_ok q"
    unfolding lists_ok_def
  proof (intro conjI)
    show "\<forall>j. (co_object q j \<noteq> None) = (j \<in> set (m_mapCoroutine q) \<union> set (m_listRecycleCoroutine q))"
      using lists d by (simp add: lists_ok_def)
  qed (use lists d small older ids(2) in \<open>auto simp: lists_ok_def\<close>)
  moreover have "total_ok q"
  proof -
    have "stack_of q j = stack_of p j" if "j \<in> set (m_mapCoroutine p)" for j using that k by (auto simp: stack_of_def)
    moreover have "stack_of q k = m_nStackSize c" by (simp add: stack_of_def)
    ultimately show ?thesis using ok k by (simp add: total_ok_def)
  qed
  moreover have "threads_ok q" using pool_okD(3)[OF p] by (auto simp: threads_ok_def)
  moreover have "states_ok q"
    unfolding states_ok_def
  proof (intro allI impI)
    fix j d assume j: "j \<in> set (m_mapCoroutine q)" "co_object q j = Some d"
    have "co_thread p t \<noteq> In_coroutine k" for t using free[of t] by auto
    then show "(m_eState d = eCS_RUNNING \<longleftrightarrow> (\<exists>t. co_thread q t = In_coroutine j)) \<and>
       (m_eState d = eCS_DEAD \<longrightarrow> (\<exists>t. co_thread q t = After_switch j)) \<and> m_eState d \<noteq> eCS_NONE"
      using pool_okD(4)[OF p] j obj(2) by (cases "j = k") (auto simp: states_ok_def)
  qed
  ultimately show ?thesis by (simp add: pool_ok_def)
qed

lemma next_id_ok: "pool_ok p \<Longrightarrow> pool_ok (p\<lparr>m_nNextCoroutineID := m_nNextCoroutineID p + 1\<rparr>)"
proof -
  assume p: "pool_ok p"
  have "\<forall>k \<in> set (m_mapCoroutine p) \<union> set (m_listRecycleCoroutine p). k < Suc (m_nNextCoroutineID p)"
    using p unfolding pool_ok_def lists_ok_def by (meson less_Suc_eq)
  then show ?thesis using p by (simp add: pool_ok_def lists_ok_def total_ok_def threads_ok_def states_ok_def stack_of_def)
qed

lemma pool_created_ok:
  assumes p: "pool_ok p"
  shows "pool_ok (snd (createCoroutine nPageSize nDefault alloc nStackSize callback p))"
proof -
  define n where "n = round_stack nPageSize (if nStackSize = 0 then nDefault else nStackSize)"
  note lists = pool_okD(1)[OF p]
  show ?thesis
  proof (cases "find (\<lambda>k. near_size nPageSize (stack_of p k) n) (m_listRecycleCoroutine p)")
    case None
    let ?k = "m_nNextCoroutineID p"
    have k: "?k \<notin> set (m_mapCoroutine p)" "?k \<notin> set (m_listRecycleCoroutine p)" using lists by (auto simp: lists_ok_def)
    have "pool_ok (p\<lparr>m_nNextCoroutineID := ?k + 1\<rparr>)"
      using p by (rule next_id_ok)
    moreover have "pool_ok (set_object ?k (Some \<lparr>m_eState = eCS_READY, m_nStackSize = n, m_nContext = 0, m_mapLocalData = [], m_callback = Some callback\<rparr>)
             (p\<lparr>m_nNextCoroutineID := ?k + 1, m_mapCoroutine := insort_insert ?k (m_mapCoroutine p), m_nTotalStackSize := m_nTotalStackSize p + uint n\<rparr>))"
      by (rule add_live[OF p k(1)]) (use k lists in \<open>auto simp: set_insort_insert distinct_insort_insert remove1_idem lists_ok_def\<close>)
    ultimately show ?thesis using None by (simp add: createCoroutine_def n_def[symmetric] Let_def)
  next
    case (Some k)
    have k: "k \<in> set (m_listRecycleCoroutine p)" using Some by (auto simp: find_Some_iff)
    then have k': "k \<notin> set (m_mapCoroutine p)" "k < m_nNextCoroutineID p" using lists by (auto simp: lists_ok_def)
    obtain c where c: "co_object p k = Some c" using lists k unfolding lists_ok_def by blast
    have "pool_ok (set_object k (Some (c\<lparr>m_callback := Some callback, m_eState := eCS_SUSPEND\<rparr>))
             (p\<lparr>m_listRecycleCoroutine := remove1 k (m_listRecycleCoroutine p), m_mapCoroutine := insort_insert k (m_mapCoroutine p),
                m_nTotalStackSize := m_nTotalStackSize p + uint (m_nStackSize c)\<rparr>))"
      by (rule add_live[OF p k'(1), of _ "c\<lparr>m_callback := Some callback, m_eState := eCS_SUSPEND\<rparr>"]) (use k' lists in \<open>auto simp: set_insort_insert distinct_insort_insert lists_ok_def\<close>)
    then show ?thesis using Some c by (simp add: createCoroutine_def n_def[symmetric] Let_def)
  qed
qed


lemma ex_other:
  assumes "co_thread p t = After_switch k"
  shows "(\<exists>u. ((co_thread p)(t := At_root)) u = In_coroutine j) = (\<exists>u. co_thread p u = In_coroutine j)"
    and "j \<noteq> k \<Longrightarrow> (\<exists>u. ((co_thread p)(t := At_root)) u = After_switch j) = (\<exists>u. co_thread p u = After_switch j)"
  using assms by (metis co_phase.distinct(1,5) fun_upd_apply, metis co_phase.distinct(3) co_phase.inject(2) fun_upd_apply)

lemma back_ok:
  assumes p: "pool_ok p" and t: "co_thread p t = After_switch k" and c: "co_object p k = Some c" "m_eState c \<noteq> eCS_DEAD"
  shows "pool_ok (set_thread t At_root p)"
proof -
  have "lists_ok (set_thread t At_root p)" using p by (simp add: pool_ok_def lists_ok_def)
  moreover have "total_ok (set_thread t At_root p)" using p by (simp add: pool_ok_def total_ok_def stack_of_def)
  moreover have "threads_ok (set_thread t At_root p)" using p by (auto simp: pool_ok_def threads_ok_def)
  moreover have "states_ok (set_thread t At_root p)"
    unfolding states_ok_def
  proof (intro allI impI)
    fix j d assume j: "j \<in> set (m_mapCoroutine (set_thread t At_root p))" "co_object (set_thread t At_root p) j = Some d"
    show "(m_eState d = eCS_RUNNING \<longleftrightarrow> (\<exists>u. co_thread (set_thread t At_root p) u = In_coroutine j)) \<and>
       (m_eState d = eCS_DEAD \<longrightarrow> (\<exists>u. co_thread (set_thread t At_root p) u = After_switch j)) \<and> m_eState d \<noteq> eCS_NONE"
      using pool_okD(4)[OF p] j c ex_other[OF t, of j] unfolding states_ok_def set_thread_other by (cases "j = k") auto
  qed
  ultimately show ?thesis by (simp add: pool_ok_def)
qed

text \<open>A coroutine that has ended leaves the live ones, kept or deleted.\<close>

lemma drop_dead:
  assumes p: "pool_ok p" and t: "co_thread p t = After_switch k"
    and live: "m_mapCoroutine q = filter (\<lambda>j. j \<noteq> k) (m_mapCoroutine p)" "m_nNextCoroutineID q = m_nNextCoroutineID p"
    and kept: "(m_listRecycleCoroutine q = m_listRecycleCoroutine p @ [k] \<and> length (m_listRecycleCoroutine p) \<le> 100 \<and> co_object q = co_object p)
      \<or> (m_listRecycleCoroutine q = m_listRecycleCoroutine p \<and> co_object q = (co_object p)(k := None))"
    and rest: "m_nTotalStackSize q = m_nTotalStackSize p - uint (stack_of p k)" "co_thread q = (co_thread p)(t := At_root)"
  shows "pool_ok q"
proof -
  note [simp] = live rest
  have k: "k \<in> set (m_mapCoroutine p)" using held_live[OF p, of t k] t by simp
  note lists = pool_okD(1)[OF p]
  have alone: "u = t" if "held (co_thread p u) = Some k" for u
    using pool_okD(3)[OF p] that t unfolding threads_ok_def by (metis held.simps(3))
  have "lists_ok q" using kept
  proof
    assume a: "m_listRecycleCoroutine q = m_listRecycleCoroutine p @ [k] \<and> length (m_listRecycleCoroutine p) \<le> 100 \<and> co_object q = co_object p"
    have "(set (m_mapCoroutine q) \<union> set (m_listRecycleCoroutine q)) = set (m_mapCoroutine p) \<union> set (m_listRecycleCoroutine p)" using a k by auto
    moreover have "k \<notin> set (m_listRecycleCoroutine p)" using lists k by (auto simp: lists_ok_def)
    ultimately show ?thesis using lists a unfolding lists_ok_def by (simp only: live) auto
  next
    assume a: "m_listRecycleCoroutine q = m_listRecycleCoroutine p \<and> co_object q = (co_object p)(k := None)"
    have "k \<notin> set (m_listRecycleCoroutine p)" using lists k by (auto simp: lists_ok_def)
    then show ?thesis using lists a unfolding lists_ok_def by auto
  qed
  moreover have "total_ok q"
  proof -
    have "stack_of q j = stack_of p j" if "j \<noteq> k" for j using that kept by (auto simp: stack_of_def)
    moreover have "set (m_mapCoroutine q) = set (m_mapCoroutine p) - {k}" by auto
    ultimately have "(\<Sum>j \<in> set (m_mapCoroutine q). uint (stack_of q j)) = (\<Sum>j \<in> set (m_mapCoroutine p) - {k}. uint (stack_of p j))" by simp
    then show ?thesis using pool_okD(2)[OF p] k by (simp add: total_ok_def sum_diff1)
  qed
  moreover have "threads_ok q" using pool_okD(3)[OF p] alone by (auto simp: threads_ok_def split: if_splits)
  moreover have "states_ok q"
    unfolding states_ok_def
  proof (intro allI impI)
    fix j d assume j: "j \<in> set (m_mapCoroutine q)" "co_object q j = Some d"
    then have "j \<noteq> k" "j \<in> set (m_mapCoroutine p)" "co_object p j = Some d" using kept by auto
    then show "(m_eState d = eCS_RUNNING \<longleftrightarrow> (\<exists>u. co_thread q u = In_coroutine j)) \<and>
       (m_eState d = eCS_DEAD \<longrightarrow> (\<exists>u. co_thread q u = After_switch j)) \<and> m_eState d \<noteq> eCS_NONE"
      using pool_okD(4)[OF p] ex_other[OF t, of j] unfolding states_ok_def rest(2) by blast
  qed
  ultimately show ?thesis by (simp add: pool_ok_def)
qed

lemma after_fine: "pool_ok p \<Longrightarrow> pool_fine (co_after t p)"
proof (cases "co_thread p t")
  case (After_switch k)
  assume p: "pool_ok p"
  have "k \<in> set (m_mapCoroutine p)" using held_live[OF p, of t k] After_switch by simp
  then obtain c where c: "co_object p k = Some c" using p live_object by blast
  show ?thesis
  proof (cases "m_eState c = eCS_DEAD")
    case False
    then show ?thesis using back_ok[OF p After_switch c] c After_switch by (simp add: co_after_def)
  next
    case True
    show ?thesis
    proof (cases "length (m_listRecycleCoroutine p) > MAX_CO_RECYCLE_COUNT")
      case full: True
      then show ?thesis using True c After_switch
        by (simp add: co_after_def addRecycleCoroutine_def) (rule drop_dead[OF p After_switch]; simp)
    next
      case False
      then show ?thesis using True c After_switch
        by (simp add: co_after_def addRecycleCoroutine_def) (rule drop_dead[OF p After_switch]; simp add: MAX_CO_RECYCLE_COUNT_def)
    qed
  qed
qed (simp_all add: co_after_def)

lemma step_fine: "co_step p e x \<Longrightarrow> pool_ok p \<Longrightarrow> pool_fine x"
  by (erule co_stepE) (auto intro: pool_created_ok local_data_ok resume_fine yield_fine return_fine after_fine)

lemma new_ok: "pool_ok new_pool"
  by (simp add: pool_ok_def lists_ok_def total_ok_def threads_ok_def states_ok_def new_pool_def)

lemma reachable_fine: "co_reachable x \<Longrightarrow> pool_fine x"
  by (induction rule: co_reachable.induct) (auto simp: new_ok intro: step_fine)


section \<open>The properties\<close>


definition sample_pool :: co_pool where
  "sample_pool = snd (createCoroutine 4096 65536 True 0 9 new_pool)"


text \<open>A coroutine that is used again has the id of the one that ended and still gives that one's data.\<close>

lemma recycled_keeps_data:
  assumes t: "co_thread p t = In_coroutine k" and d: "getLocalData k nm p = Some d" and none: "m_listRecycleCoroutine p = []"
    and near: "near_size pg (stack_of p k) (round_stack pg (if n = 0 then df else n))"
  shows "\<exists>q r. co_return t p = Some q \<and> co_after t q = Some r \<and> fst (createCoroutine pg df al n cb r) = k \<and>
     getLocalData k nm (snd (createCoroutine pg df al n cb r)) = Some d"
proof -
  obtain c where k: "k \<in> set (m_mapCoroutine p)" "co_object p k = Some c" "om_get (m_mapLocalData c) nm = Some d"
    using d by (auto simp: getLocalData_def getCoroutine_def split: if_splits option.splits)
  let ?q = "set_thread t (After_switch k) (set_object k (Some (c\<lparr>m_callback := None, m_eState := eCS_DEAD\<rparr>)) p)"
  let ?r = "set_thread t At_root (snd (addRecycleCoroutine k ?q))"
  have q: "co_return t p = Some ?q" using t k by (simp add: co_return_def)
  have r: "co_after t ?q = Some ?r" using none by (simp add: co_after_def addRecycleCoroutine_def)
  have l: "m_listRecycleCoroutine ?r = [k]" using none by (simp add: addRecycleCoroutine_def)
  have o: "co_object ?r k = Some (c\<lparr>m_callback := None, m_eState := eCS_DEAD\<rparr>)" using none by (simp add: addRecycleCoroutine_def)
  then have "stack_of ?r k = stack_of p k" using k by (simp add: stack_of_def)
  then have "fst (createCoroutine pg df al n cb ?r) = k \<and> getLocalData k nm (snd (createCoroutine pg df al n cb ?r)) = Some d"
    using near l o k by (simp add: createCoroutine_def getLocalData_def getCoroutine_def Let_def set_insort_insert del: set_thread_other)
  then show ?thesis using q r by blast
qed

end
