(* ===== verification/Native_Message.thy ===== *)
theory Native_Message imports Transporter begin

text \<open>
  Native messages (\<open>libCoreCommon/native_message.h\<close>, \<open>native_message.cpp\<close>, \<open>native_serializer.cpp\<close>) and those of
  the database services (\<open>db_native_message.h\<close>): the registry that makes a message of a name, and how
  each packs itself into a buffer and is unpacked.
\<close>

section \<open>The messages of the database services\<close>

datatype native_command =
    Call_command u32 bstr "bstr list"
  | Delete_command u64 bstr
  | Flush_command
  | Insert_command bstr bstr
  | Nop_command u32
  | Query_command u32 bstr bstr "bstr list"
  | Select_command u64 bstr
  | Update_command bstr bstr

fun getMessageName :: "native_command \<Rightarrow> bstr" where
  "getMessageName (Call_command _ _ _) = ascii ''call_command''"
| "getMessageName (Delete_command _ _) = ascii ''delete_command''"
| "getMessageName Flush_command = ascii ''flush_command''"
| "getMessageName (Insert_command _ _) = ascii ''insert_command''"
| "getMessageName (Nop_command _) = ascii ''nop_command''"
| "getMessageName (Query_command _ _ _ _) = ascii ''query_command''"
| "getMessageName (Select_command _ _) = ascii ''select_command''"
| "getMessageName (Update_command _ _) = ascii ''update_command''"

fun pack :: "native_command \<Rightarrow> (wbuf, unit) state" where
  "pack (Call_command ch q as) = do { wb_clear; wr_num 4 (unat ch); wr_str q; wr_list wr_str as }"
| "pack (Delete_command nID table) = do { wb_clear; wr_num 8 (unat nID); wr_str table }"
| "pack Flush_command = wb_clear"
| "pack (Insert_command name content) = do { wb_clear; wr_str name; wr_str content }"
| "pack (Nop_command ch) = do { wb_clear; wr_num 4 (unat ch) }"
| "pack (Query_command ch table w as) = do { wb_clear; wr_num 4 (unat ch); wr_str table; wr_str w; wr_list wr_str as }"
| "pack (Select_command nID table) = do { wb_clear; wr_num 8 (unat nID); wr_str table }"
| "pack (Update_command name content) = do { wb_clear; wr_str name; wr_str content }"

text \<open>Of a message just made, whose numbers are 0 and whose strings are empty; the results of the reads are ignored.\<close>

fun unpack :: "native_command \<Rightarrow> (rbuf, native_command) state" where
  "unpack (Call_command _ _ _) = do { ch \<leftarrow> rd_num 4 0; q \<leftarrow> rd_str []; as \<leftarrow> rd_list (rd_str []);
     State_Monad.return (Call_command (of_nat ch) q as) }"
| "unpack (Delete_command _ _) = do { nID \<leftarrow> rd_num 8 0; table \<leftarrow> rd_str []; State_Monad.return (Delete_command (of_nat nID) table) }"
| "unpack Flush_command = State_Monad.return Flush_command"
| "unpack (Insert_command _ _) = do { name \<leftarrow> rd_str []; content \<leftarrow> rd_str []; State_Monad.return (Insert_command name content) }"
| "unpack (Nop_command _) = do { ch \<leftarrow> rd_num 4 0; State_Monad.return (Nop_command (of_nat ch)) }"
| "unpack (Query_command _ _ _ _) = do { ch \<leftarrow> rd_num 4 0; table \<leftarrow> rd_str []; w \<leftarrow> rd_str []; as \<leftarrow> rd_list (rd_str []);
     State_Monad.return (Query_command (of_nat ch) table w as) }"
| "unpack (Select_command _ _) = do { nID \<leftarrow> rd_num 8 0; table \<leftarrow> rd_str []; State_Monad.return (Select_command (of_nat nID) table) }"
| "unpack (Update_command _ _) = do { name \<leftarrow> rd_str []; content \<leftarrow> rd_str []; State_Monad.return (Update_command name content) }"

section \<open>The registry\<close>

text \<open>What is kept for a name: the message that \<open>fnCreate\<close> makes.\<close>

type_synonym native_registry = "(bstr, native_command) omap"

definition registerNativeMessage :: "bstr \<Rightarrow> native_command \<Rightarrow> native_registry \<Rightarrow> native_registry" where
  "registerNativeMessage szName made reg = om_put szName made reg"

definition createNativeMessage :: "native_registry \<Rightarrow> bstr \<Rightarrow> native_command option" where
  "createNativeMessage reg szName = om_get reg szName"

text \<open>The static objects of the header register the eight messages.\<close>

definition fresh_commands :: "native_command list" where
  "fresh_commands = [Call_command 0 [] [], Delete_command 0 [], Flush_command, Insert_command [] [], Nop_command 0,
     Query_command 0 [] [] [], Select_command 0 [], Update_command [] []]"

definition s_mapNativeMessageInfo :: native_registry where
  "s_mapNativeMessageInfo = fold (\<lambda>m. registerNativeMessage (getMessageName m) m) fresh_commands []"

section \<open>The serializer\<close>

text \<open>The messages of the service: native ones and others, which are not handed to this serializer.\<close>

datatype 'r message = Native native_command | Other 'r

text \<open>What \<open>pack\<close> leaves in the buffer of the serializer, which starts with 65535 bytes and grows.\<close>

definition pack_into :: "wbuf \<Rightarrow> native_command \<Rightarrow> u8 list" where
  "pack_into b m = wb_out (snd (run_state (pack m) b))"

definition unpack_from :: "native_command \<Rightarrow> u8 list \<Rightarrow> native_command" where
  "unpack_from made d = fst (run_state (unpack made) (rd_init d))"

definition CNativeSerializer :: "'r message serializer" where
  "CNativeSerializer = native_serializer
     (\<lambda>m. case m of Native c \<Rightarrow> Some (getMessageName c) | Other _ \<Rightarrow> None)
     (\<lambda>m. case m of Native c \<Rightarrow> pack_into (wb_new 65535) c | Other _ \<Rightarrow> [])
     (\<lambda>szName. map_option (\<lambda>made d. Some (Native (unpack_from made d))) (createNativeMessage s_mapNativeMessageInfo szName))"

section \<open>What is packed is unpacked\<close>

text \<open>A string on the wire: its length, then its bytes.\<close>

definition enc_text :: "bstr \<Rightarrow> u8 list" where
  "enc_text s = le_bytes 2 (length s) @ s"

abbreviation short_text :: "bstr \<Rightarrow> bool" where "short_text s \<equiv> length s < 65535"

interpretation text16: codec wr_str rd_str enc_text short_text
  unfolding enc_text_def by unfold_locales auto

fun enc_command :: "native_command \<Rightarrow> u8 list" where
  "enc_command (Call_command ch q as) = le_bytes 4 (unat ch) @ enc_text q @ enc_list enc_text as"
| "enc_command (Delete_command nID table) = le_bytes 8 (unat nID) @ enc_text table"
| "enc_command Flush_command = []"
| "enc_command (Insert_command name content) = enc_text name @ enc_text content"
| "enc_command (Nop_command ch) = le_bytes 4 (unat ch)"
| "enc_command (Query_command ch table w as) = le_bytes 4 (unat ch) @ enc_text table @ enc_text w @ enc_list enc_text as"
| "enc_command (Select_command nID table) = le_bytes 8 (unat nID) @ enc_text table"
| "enc_command (Update_command name content) = enc_text name @ enc_text content"

text \<open>The strings that \<open>write\<close> takes, and the arguments that a count of 16 bits tells.\<close>

definition args_fit :: "bstr list \<Rightarrow> bool" where
  "args_fit as \<longleftrightarrow> list_all short_text as \<and> length as < 65536"

fun command_fits :: "native_command \<Rightarrow> bool" where
  "command_fits (Call_command _ q as) \<longleftrightarrow> short_text q \<and> args_fit as"
| "command_fits (Delete_command _ table) \<longleftrightarrow> short_text table"
| "command_fits Flush_command \<longleftrightarrow> True"
| "command_fits (Insert_command name content) \<longleftrightarrow> short_text name \<and> short_text content"
| "command_fits (Nop_command _) \<longleftrightarrow> True"
| "command_fits (Query_command _ table w as) \<longleftrightarrow> short_text table \<and> short_text w \<and> args_fit as"
| "command_fits (Select_command _ table) \<longleftrightarrow> short_text table"
| "command_fits (Update_command name content) \<longleftrightarrow> short_text name \<and> short_text content"

definition appends :: "(wbuf, unit) state \<Rightarrow> u8 list \<Rightarrow> bool" where
  "appends m bs \<longleftrightarrow> (\<forall>b. wb_out (snd (run_state m b)) = bs)"

lemma clear_then:
  assumes "emits m bs"
  shows "appends (wb_clear \<bind> (\<lambda>_. m)) bs"
  unfolding appends_def
proof
  fix b :: wbuf
  let ?b = "b\<lparr>wb_pos := 0\<rparr>"
  have "wb_ok ?b" "wb_out ?b = []" by (simp_all add: wb_ok_def wb_out_def getCurSize_def)
  then have "wb_out (snd (run_state m ?b)) = bs" using assms by (simp add: emits_def Let_def)
  then show "wb_out (snd (run_state (wb_clear \<bind> (\<lambda>_. m)) b)) = bs"
    by (simp add: wb_clear_def State_Monad.bind_def)
qed

lemma clear_only: "appends wb_clear []"
  by (simp add: appends_def wb_clear_def wb_out_def getCurSize_def)

lemma args_io:
  assumes "args_fit as"
  shows "emits (wr_list wr_str as) (enc_list enc_text as)" and "reads (rd_list (rd_str old)) (enc_list enc_text as) as"
  using assms text16.list_emits text16.list_reads by (simp_all add: args_fit_def)

lemmas packs = clear_then clear_only emits_bind emits_num text16.wr_emits args_io(1)
lemmas unpacks = reads_bind reads_last reads_num text16.rd_reads args_io(2)

lemma pack_appends: "command_fits m \<Longrightarrow> appends (pack m) (enc_command m)"
  by (induction m, simp_all only: pack.simps enc_command.simps command_fits.simps) (rule packs | (simp; fail))+

lemma pack_bytes: "command_fits m \<Longrightarrow> pack_into b m = enc_command m"
  using pack_appends unfolding appends_def pack_into_def by blast

lemma u32_fits: "unat (x :: u32) < 256 ^ 4" and u64_fits: "unat (y :: u64) < 256 ^ 8"
  using unsigned_less [of x, where 'a = nat] unsigned_less [of y, where 'a = nat] by simp_all

text \<open>The message that is made for a name.\<close>

fun made_for :: "native_command \<Rightarrow> native_command" where
  "made_for (Call_command _ _ _) = Call_command 0 [] []"
| "made_for (Delete_command _ _) = Delete_command 0 []"
| "made_for Flush_command = Flush_command"
| "made_for (Insert_command _ _) = Insert_command [] []"
| "made_for (Nop_command _) = Nop_command 0"
| "made_for (Query_command _ _ _ _) = Query_command 0 [] [] []"
| "made_for (Select_command _ _) = Select_command 0 []"
| "made_for (Update_command _ _) = Update_command [] []"

lemma create_made: "createNativeMessage s_mapNativeMessageInfo (getMessageName m) = Some (made_for m)"
  by (cases m) (simp_all add: createNativeMessage_def s_mapNativeMessageInfo_def fresh_commands_def registerNativeMessage_def
      del: om_put.simps)

lemma unpack_reads: "command_fits m \<Longrightarrow> reads (unpack (made_for m)) (enc_command m) m"
  by (induction m, simp_all only: made_for.simps unpack.simps enc_command.simps command_fits.simps)
    (rule unpacks reads_return u32_fits u64_fits | (simp; fail))+

lemma unpack_bytes: "command_fits m \<Longrightarrow> unpack_from (made_for m) (enc_command m) = m"
  using readsD [OF unpack_reads, of m "rd_init (enc_command m)" "[]" "[]"] by (simp add: unpack_from_def rd_init_def)

text \<open>What the serializer makes of a message that fits, it makes the message of again.\<close>

lemma native_decodes:
  assumes "command_fits m" and "sz_encode CNativeSerializer (Native m) BUF_SIZE = Some d"
  shows "sz_decode CNativeSerializer (getMessageName m) d = Some (Native m)"
proof -
  have "d = enc_command m" "length d < 2 ^ 16"
    using assms by (auto simp: CNativeSerializer_def native_serializer_def pack_bytes BUF_SIZE_def split: if_splits)
  then show ?thesis using assms(1)
    by (simp add: CNativeSerializer_def native_serializer_def create_made unpack_bytes)
qed

text \<open>A string of 65535 bytes or more is left out, and what is unpacked then has none.\<close>

lemma long_content_lost:
  assumes "short_text name" and "\<not> short_text content"
  shows "unpack_from (made_for (Update_command name content)) (pack_into b (Update_command name content)) = Update_command name []"
proof -
  have skip: "run_state (wr_str content) b' = ((), b')" for b' using assms(2) by (simp add: wr_str_def)
  have "pack_into b (Update_command name content) = enc_text name"
  proof -
    have "appends (wb_clear \<bind> (\<lambda>_. wr_str name)) (enc_text name)" using assms(1) by (intro packs)
    moreover have "snd (run_state (pack (Update_command name content)) b) = snd (run_state (wb_clear \<bind> (\<lambda>_. wr_str name)) b)"
      by (simp add: State_Monad.bind_def skip split: prod.split)
    ultimately show ?thesis by (simp add: pack_into_def appends_def)
  qed
  moreover have "run_state (rd_str []) (rd_init (enc_text name)) = (name, (rd_init (enc_text name))\<lparr>rd_pos := int (length (enc_text name))\<rparr>)"
    using readsD [OF text16.rd_reads [OF assms(1)], of "rd_init (enc_text name)" "[]" "[]"] by (simp add: rd_init_def)
  ultimately show ?thesis by (simp add: unpack_from_def State_Monad.bind_def rd_str_def rd_init_def)
qed

lemma many_arguments_lost: "length as = 65536 \<Longrightarrow> short_text q \<Longrightarrow>
    unpack_from (made_for (Call_command ch q as)) (pack_into b (Call_command ch q as)) = Call_command ch q []"
proof -
  assume as: "length as = 65536" and q: "short_text q"
  have "pack (Call_command ch q as) = pack (Call_command ch q [])" using as by (simp add: wr_list_def)
  then have "pack_into b (Call_command ch q as) = enc_command (Call_command ch q [])"
    using pack_bytes [of "Call_command ch q []" b] q by (simp add: pack_into_def args_fit_def)
  then show ?thesis using unpack_bytes [of "Call_command ch q []"] q by (simp add: args_fit_def)
qed

end
