(* ===== verification/Db_Service.thy ===== *)
theory Db_Service imports Native_Message Transport_Props Db_Thread begin

text \<open>
  A service that asks a database service, and that service: the functions of \<open>CDbServiceInvokeHolder\<close>
  (\<open>db_service_invoke_holder.inl\<close>) make native messages of their arguments and send them;
  \<open>service/dbs/db_service_message_handler.cpp\<close> hands each to \<open>base::db::query\<close> with a callback that answers
  the caller; \<open>service/dbs/db_service.cpp\<close> runs the callbacks.
\<close>

section \<open>Asking\<close>

text \<open>What a call takes from around it: the default time-out, the time, a random number, the coroutine that calls.\<close>

record call_context =
  cc_timeout :: nat
  cc_now :: int
  cc_rand :: nat
  cc_coroutine :: nat

record CDbServiceInvokeHolder =
  m_nDbServiceID :: nat
  m_nHolderID :: nat

type_synonym proto_message = "bstr \<times> bstr"    \<comment> \<open>\<open>GetTypeName\<close>, \<open>SerializeAsString\<close>\<close>
type_synonym 'r asked = "'r message call option \<times> sent list \<times> 'r message site"
type_synonym 'r waited = "nat option \<times> sent list \<times> 'r message site"

definition args_of :: "bstr list option \<Rightarrow> bstr list" where
  "args_of vecArg = (case vecArg of None \<Rightarrow> [] | Some as \<Rightarrow> as)"

definition holder_send :: "call_context \<Rightarrow> nat \<Rightarrow> native_command \<Rightarrow> 'r message site \<Rightarrow> bool \<times> sent list" where
  "holder_send C nServiceID c S = invoker_send True (cc_rand C) nServiceID (Some (Native c)) (Some (0, 3)) S"

definition holder_async :: "call_context \<Rightarrow> CDbServiceInvokeHolder \<Rightarrow> nat \<Rightarrow> native_command \<Rightarrow> nat \<Rightarrow> nat \<Rightarrow> 'r message site \<Rightarrow> 'r asked" where
  "holder_async C h nServiceID c cb nTimeout S =
     async_invoke (cc_timeout C) (cc_now C) True (cc_rand C) nServiceID (Some (Native c)) cb (Some (nTimeout, 3)) (m_nHolderID h) S"

text \<open>\<open>cb\<close>: the function that keeps the answer and resumes the coroutine.\<close>

definition holder_sync :: "call_context \<Rightarrow> CDbServiceInvokeHolder \<Rightarrow> nat \<Rightarrow> native_command \<Rightarrow> nat \<Rightarrow> nat \<Rightarrow> 'r message site \<Rightarrow> 'r waited" where
  "holder_sync C h nServiceID c cb nTimeout S =
     sync_invoke (cc_timeout C) (cc_now C) (cc_coroutine C) True (cc_rand C) nServiceID (Some (Native c)) cb (Some (nTimeout, 3)) (m_nHolderID h) S"

subsection \<open>Without an answer\<close>

definition service_update :: "call_context \<Rightarrow> nat \<Rightarrow> proto_message option \<Rightarrow> 'r message site \<Rightarrow> bool \<times> sent list" where
  "service_update C nDb pMsg S = (case pMsg of None \<Rightarrow> (False, [])
     | Some (name, dat) \<Rightarrow> holder_send C nDb (Update_command name dat) S)"

definition service_remove :: "call_context \<Rightarrow> nat \<Rightarrow> u64 \<Rightarrow> bstr \<Rightarrow> 'r message site \<Rightarrow> bool \<times> sent list" where
  "service_remove C nDb nPrimaryID szTable S = holder_send C nDb (Delete_command nPrimaryID szTable) S"

definition service_insert :: "call_context \<Rightarrow> nat \<Rightarrow> proto_message option \<Rightarrow> 'r message site \<Rightarrow> bool \<times> sent list" where
  "service_insert C nDb pMsg S = (case pMsg of None \<Rightarrow> (False, [])
     | Some (name, dat) \<Rightarrow> holder_send C nDb (Insert_command name dat) S)"

definition service_call :: "call_context \<Rightarrow> nat \<Rightarrow> u32 \<Rightarrow> bstr \<Rightarrow> bstr list option \<Rightarrow> 'r message site \<Rightarrow> bool \<times> sent list" where
  "service_call C nDb nChannelID szSQL vecArg S = holder_send C nDb (Call_command nChannelID szSQL (args_of vecArg)) S"

definition service_flush :: "call_context \<Rightarrow> nat \<Rightarrow> 'r message site \<Rightarrow> bool \<times> sent list" where
  "service_flush C nDb S = holder_send C nDb Flush_command S"

subsection \<open>With a callback\<close>

definition service_async_select :: "call_context \<Rightarrow> CDbServiceInvokeHolder \<Rightarrow> nat \<Rightarrow> u64 \<Rightarrow> bstr \<Rightarrow> nat \<Rightarrow> nat \<Rightarrow> 'r message site \<Rightarrow> 'r asked" where
  "service_async_select C h nDb nPrimaryID szTable cb nTimeout S =
     holder_async C h nDb (Select_command nPrimaryID szTable) cb nTimeout S"

definition service_async_update :: "call_context \<Rightarrow> CDbServiceInvokeHolder \<Rightarrow> nat \<Rightarrow> proto_message option \<Rightarrow> nat \<Rightarrow> nat \<Rightarrow> 'r message site \<Rightarrow> 'r asked" where
  "service_async_update C h nDb pMsg cb nTimeout S = (case pMsg of None \<Rightarrow> (None, [], S)
     | Some (name, dat) \<Rightarrow> holder_async C h nDb (Update_command name dat) cb nTimeout S)"

definition service_async_remove :: "call_context \<Rightarrow> CDbServiceInvokeHolder \<Rightarrow> nat \<Rightarrow> u64 \<Rightarrow> bstr \<Rightarrow> nat \<Rightarrow> nat \<Rightarrow> 'r message site \<Rightarrow> 'r asked" where
  "service_async_remove C h nDb nPrimaryID szTable cb nTimeout S =
     holder_async C h nDb (Delete_command nPrimaryID szTable) cb nTimeout S"

definition service_async_insert :: "call_context \<Rightarrow> CDbServiceInvokeHolder \<Rightarrow> nat \<Rightarrow> proto_message option \<Rightarrow> nat \<Rightarrow> nat \<Rightarrow> 'r message site \<Rightarrow> 'r asked" where
  "service_async_insert C h nDb pMsg cb nTimeout S = (case pMsg of None \<Rightarrow> (None, [], S)
     | Some (name, dat) \<Rightarrow> holder_async C h nDb (Insert_command name dat) cb nTimeout S)"

definition service_async_query :: "call_context \<Rightarrow> CDbServiceInvokeHolder \<Rightarrow> nat \<Rightarrow> u32 \<Rightarrow> bstr \<Rightarrow> bstr \<Rightarrow> bstr list option \<Rightarrow> nat \<Rightarrow> nat
    \<Rightarrow> 'r message site \<Rightarrow> 'r asked" where
  "service_async_query C h nDb nChannelID szTable szWhere vecArg cb nTimeout S =
     holder_async C h nDb (Query_command nChannelID szTable szWhere (args_of vecArg)) cb nTimeout S"

definition service_async_call :: "call_context \<Rightarrow> CDbServiceInvokeHolder \<Rightarrow> nat \<Rightarrow> u32 \<Rightarrow> bstr \<Rightarrow> bstr list option \<Rightarrow> nat \<Rightarrow> nat
    \<Rightarrow> 'r message site \<Rightarrow> 'r asked" where
  "service_async_call C h nDb nChannelID szSQL vecArg cb nTimeout S =
     holder_async C h nDb (Call_command nChannelID szSQL (args_of vecArg)) cb nTimeout S"

definition service_async_nop :: "call_context \<Rightarrow> CDbServiceInvokeHolder \<Rightarrow> nat \<Rightarrow> u32 \<Rightarrow> nat \<Rightarrow> nat \<Rightarrow> 'r message site \<Rightarrow> 'r asked" where
  "service_async_nop C h nDb nChannelID cb nTimeout S = holder_async C h nDb (Nop_command nChannelID) cb nTimeout S"

subsection \<open>In a coroutine that waits\<close>

definition service_sync_select :: "call_context \<Rightarrow> CDbServiceInvokeHolder \<Rightarrow> nat \<Rightarrow> u64 \<Rightarrow> bstr \<Rightarrow> nat \<Rightarrow> nat \<Rightarrow> 'r message site \<Rightarrow> 'r waited" where
  "service_sync_select C h nDb nPrimaryID szTable cb nTimeout S =
     holder_sync C h nDb (Select_command nPrimaryID szTable) cb nTimeout S"

definition service_sync_update :: "call_context \<Rightarrow> CDbServiceInvokeHolder \<Rightarrow> nat \<Rightarrow> proto_message option \<Rightarrow> nat \<Rightarrow> nat \<Rightarrow> 'r message site \<Rightarrow> 'r waited" where
  "service_sync_update C h nDb pMsg cb nTimeout S = (case pMsg of None \<Rightarrow> (Some RRT_ERROR, [], S)
     | Some (name, dat) \<Rightarrow> holder_sync C h nDb (Update_command name dat) cb nTimeout S)"

definition service_sync_remove :: "call_context \<Rightarrow> CDbServiceInvokeHolder \<Rightarrow> nat \<Rightarrow> u64 \<Rightarrow> bstr \<Rightarrow> nat \<Rightarrow> nat \<Rightarrow> 'r message site \<Rightarrow> 'r waited" where
  "service_sync_remove C h nDb nPrimaryID szTable cb nTimeout S =
     holder_sync C h nDb (Delete_command nPrimaryID szTable) cb nTimeout S"

definition service_sync_insert :: "call_context \<Rightarrow> CDbServiceInvokeHolder \<Rightarrow> nat \<Rightarrow> proto_message option \<Rightarrow> nat \<Rightarrow> nat \<Rightarrow> 'r message site \<Rightarrow> 'r waited" where
  "service_sync_insert C h nDb pMsg cb nTimeout S = (case pMsg of None \<Rightarrow> (Some RRT_ERROR, [], S)
     | Some (name, dat) \<Rightarrow> holder_sync C h nDb (Insert_command name dat) cb nTimeout S)"

definition service_sync_query :: "call_context \<Rightarrow> CDbServiceInvokeHolder \<Rightarrow> nat \<Rightarrow> u32 \<Rightarrow> bstr \<Rightarrow> bstr \<Rightarrow> bstr list option \<Rightarrow> nat \<Rightarrow> nat
    \<Rightarrow> 'r message site \<Rightarrow> 'r waited" where
  "service_sync_query C h nDb nChannelID szTable szWhere vecArg cb nTimeout S =
     holder_sync C h nDb (Query_command nChannelID szTable szWhere (args_of vecArg)) cb nTimeout S"

definition service_sync_call :: "call_context \<Rightarrow> CDbServiceInvokeHolder \<Rightarrow> nat \<Rightarrow> u32 \<Rightarrow> bstr \<Rightarrow> bstr list option \<Rightarrow> nat \<Rightarrow> nat
    \<Rightarrow> 'r message site \<Rightarrow> 'r waited" where
  "service_sync_call C h nDb nChannelID szSQL vecArg cb nTimeout S =
     holder_sync C h nDb (Call_command nChannelID szSQL (args_of vecArg)) cb nTimeout S"

definition service_sync_nop :: "call_context \<Rightarrow> CDbServiceInvokeHolder \<Rightarrow> nat \<Rightarrow> u32 \<Rightarrow> nat \<Rightarrow> nat \<Rightarrow> 'r message site \<Rightarrow> 'r waited" where
  "service_sync_nop C h nDb nChannelID cb nTimeout S = holder_sync C h nDb (Nop_command nChannelID) cb nTimeout S"

section \<open>The database service\<close>

text \<open>Each handler makes the command of \<open>libBaseDatabase\<close> of the native one.\<close>

definition chars :: "bstr \<Rightarrow> string" where
  "chars s = map (\<lambda>b. char_of (unat b)) s"

fun command_handler :: "native_command \<Rightarrow> client_request" where
  "command_handler (Call_command ch q as) = CallCommand (chars q) (map chars as) ch"
| "command_handler (Delete_command nID table) = DeleteCommand (chars table) nID"
| "command_handler Flush_command = FlushCommand"
| "command_handler (Insert_command name content) = InsertCommand (chars name) (chars content)"
| "command_handler (Nop_command ch) = NopCommand ch"
| "command_handler (Query_command ch table w as) = QueryCommand (chars table) (chars w) (map chars as) ch"
| "command_handler (Select_command nID table) = SelectCommand (chars table) nID"
| "command_handler (Update_command name content) = UpdateCommand (chars name) (chars content)"

text \<open>The callback that captures the session, and the session of a callback. Sessions are below \<open>2 ^ 64\<close>.\<close>

definition session_callback :: "nat \<Rightarrow> nat \<Rightarrow> nat" where
  "session_callback nFrom nSessionID = nFrom * 2 ^ 64 + nSessionID"

definition callback_session :: "nat \<Rightarrow> nat \<times> nat" where
  "callback_session k = (k div 2 ^ 64, k mod 2 ^ 64)"

definition normal_command_handler :: "proto_env \<Rightarrow> create_fun \<Rightarrow> (client_request \<Rightarrow> bool) \<Rightarrow> nat \<times> nat \<Rightarrow> client_request
    \<Rightarrow> 's CDbThreadMgr \<Rightarrow> 's CDbThreadMgr" where
  "normal_command_handler env create copies sSessionInfo pRequest tm =
     db_query env create copies pRequest (Some (session_callback (fst sSessionInfo) (snd sSessionInfo))) tm"

text \<open>The handlers by number, in the order they are registered.\<close>

fun handler_no :: "native_command \<Rightarrow> nat" where
  "handler_no (Select_command _ _) = 1"
| "handler_no (Update_command _ _) = 2"
| "handler_no (Delete_command _ _) = 3"
| "handler_no (Insert_command _ _) = 4"
| "handler_no (Call_command _ _ _) = 5"
| "handler_no (Query_command _ _ _ _) = 6"
| "handler_no Flush_command = 7"
| "handler_no (Nop_command _) = 8"

definition CDbServiceMessageHandler :: "'s core_service \<Rightarrow> 's core_service" where
  "CDbServiceMessageHandler cs = fold (\<lambda>m. registerServiceMessageHandler (getMessageName m) (handler_no m))
     [Select_command 0 [], Update_command [] [], Delete_command 0 [], Insert_command [] [], Call_command 0 [] [],
      Query_command 0 [] [] [], Flush_command, Nop_command 0] cs"

text \<open>\<open>onInit\<close> up to the configuration file, then what \<open>CCoreService::onInit\<close> adds.\<close>

definition db_onInit :: "'r message serializer \<Rightarrow> 'r message serializer core_service \<Rightarrow> 'r message serializer core_service" where
  "db_onInit protobuf cs = addServiceMessageSerializer 3 CNativeSerializer
     (setServiceMessageSerializer [] 1 (addServiceMessageSerializer 1 protobuf (CDbServiceMessageHandler cs)))"

text \<open>A call of a handler; \<open>None\<close>: it would take the message for one of another type.\<close>

definition db_dispatch :: "proto_env \<Rightarrow> create_fun \<Rightarrow> (client_request \<Rightarrow> bool) \<Rightarrow> 'r message call
    \<Rightarrow> 's CDbThreadMgr \<Rightarrow> 's CDbThreadMgr option" where
  "db_dispatch env create copies call tm = (case call of
       HandleRequest h nFrom nSessionID (Native c) \<Rightarrow>
         if h = handler_no c then Some (normal_command_handler env create copies (nFrom, nSessionID) (command_handler c) tm) else None
     | _ \<Rightarrow> None)"

fun code_number :: "db_code \<Rightarrow> nat" where
  "code_number eDBRC_OK = 1"
| "code_number eDBRC_EmptyRecordset = 10"
| "code_number eDBRC_ProtobufError = 11"
| "code_number eDBRC_MysqlError = 12"
| "code_number eDBRC_SQLArgError = 13"
| "code_number eDBRC_LostConnection = 14"
| "code_number eDBRC_Unknown = 15"

definition db_answer :: "SDbResultInfo \<Rightarrow> db_response message site \<Rightarrow> sent list option" where
  "db_answer r S = (case callback_session (res_callback r) of (nFrom, nSessionID) \<Rightarrow>
     if nSessionID \<noteq> 0 then invoker_response (nFrom, nSessionID) (map_option Other (res_message r)) (code_number (nErrorCode r)) 0 S
     else Some [])"

text \<open>\<open>onFrame\<close>: the callbacks of all results, in order; what each sends.\<close>

definition db_onFrame :: "db_response message site \<Rightarrow> 's CDbThreadMgr \<Rightarrow> sent list option list \<times> 's CDbThreadMgr" where
  "db_onFrame S tm = (case tm_update tm of (rs, tm') \<Rightarrow> (map (\<lambda>r. db_answer r S) rs, tm'))"

end
