(* ===== verification/Db_Service_Props.thy ===== *)
theory Db_Service_Props imports Db_Service begin

text \<open>
  What a service asks of a database service is queued there as the same command that a call of
  \<open>base::db::query\<close> in the database service would queue, and what the database answers comes
  back to the service that asked.
\<close>

section \<open>The database service once it runs\<close>

definition db_ready :: "'r message serializer \<Rightarrow> 'r message serializer core_service \<Rightarrow> bool" where
  "db_ready protobuf cs \<longleftrightarrow> getServiceMessageSerializerByType 3 cs = Some CNativeSerializer \<and>
     getServiceMessageSerializerByType 1 cs = Some protobuf \<and>
     (\<forall>c. getServiceMessageHandler (getMessageName c) cs = Some (handler_no c))"

lemma onInit_ready:
  assumes "cs_messageHandler cs = []" and "om_ok (cs_serializer cs)"
  shows "db_ready protobuf (db_onInit protobuf cs)"
proof -
  have h: "cs_messageHandler (registerServiceMessageHandler x n cs') =
      (if om_get (cs_messageHandler cs') x = None then om_put x n (cs_messageHandler cs') else cs_messageHandler cs')"
    "cs_serializer (registerServiceMessageHandler x n cs') = cs_serializer cs'"
    for x n and cs' :: "'r message serializer core_service" by (simp_all add: registerServiceMessageHandler_def)
  have "getServiceMessageHandler (getMessageName c) (db_onInit protobuf cs) = Some (handler_no c)" for c
    using assms(1) by (cases c)
      (simp_all add: getServiceMessageHandler_def db_onInit_def addServiceMessageSerializer_def setServiceMessageSerializer_def
        CDbServiceMessageHandler_def h del: om_put.simps)
  then show ?thesis using assms(2) by (simp add: db_ready_def getServiceMessageSerializerByType_def db_onInit_def
        addServiceMessageSerializer_def setServiceMessageSerializer_def CDbServiceMessageHandler_def h del: om_put.simps)
qed

lemma session_of_callback: "nSessionID < 2 ^ 64 \<Longrightarrow> callback_session (session_callback nFrom nSessionID) = (nFrom, nSessionID)"
  by (simp add: callback_session_def session_callback_def)

lemma native_type [simp]: "sz_type CNativeSerializer = 3"
  by (simp add: CNativeSerializer_def native_serializer_def)

lemma native_carried:
  assumes "getServiceMessageSerializerByType 3 cs = Some CNativeSerializer" and "command_fits c"
  shows "carried_by CNativeSerializer cs (Native c) (getMessageName c)"
proof -
  have "n = getMessageName c" if "sz_name CNativeSerializer (Native c) = Some n" for n
  proof -
    have z: "0 \<notin> set (getMessageName c)" by (cases c) (simp_all add: ascii_def)
    show ?thesis using that cstr_id [OF z] by (simp add: CNativeSerializer_def native_serializer_def split: if_splits)
  qed
  then show ?thesis using assms native_decodes by (auto simp: carried_by_def)
qed

section \<open>An answer without a message\<close>

lemma null_response_handled:
  assumes "site_ok B" and "transport_response B nTo nSessionID nResult None nSer = Some (True, out)"
    and "nSessionID < 2 ^ 64" and "convert_id B nTo < 2 ^ 32" and "nResult < 2 ^ 32" and "svc (convert_id B nTo)"
    and "om_get (cs_pending cs) nSessionID = Some p" and "nSessionID \<noteq> 0" and "pi_callback p \<noteq> 0"
  obtains s pk cs' where "out = [s]" "arrives svc s = Some pk"
    "md_dispatch tg bc pk cs = Some (Some (HandleResponse (pi_coroutine p) (pi_callback p) None nResult), cs')"
proof -
  let ?to = "convert_id B nTo"
  have ne: "\<not> (si_convert B \<noteq> None \<and> ?to = 0)" using assms(2) by (auto simp: transport_response_def Let_def split: if_splits)
  obtain z where z: "pick_serializer B ?to nSer = Some z"
    using assms(2) ne by (cases "pick_serializer B ?to nSer") (auto simp: transport_response_def Let_def split: option.splits if_splits)
  have ty: "sz_type z < 256" using site_okD(1) [OF assms(1) z] by (rule message_serializer.type_byte)
  have id: "cs_id (si_self B) < 2 ^ 32" using assms(1) by (simp add: site_ok_def)
  let ?pk = "PResponse ?to nSessionID (cs_id (si_self B)) (sz_type z) nResult [] []"
  obtain s where s: "out = [s]" "arrives svc s = Some ?pk"
  proof (cases "si_local B ?to")
    case None
    have "out = [ToSocket (getOtherNodeSocketIDByServiceID ?to (si_proxy B)) MT_RESPONSE
        (response_bytes nSessionID (cs_id (si_self B)) ?to nResult (sz_type z) [] [])]"
      using assms(2) ne z None by (auto simp: transport_response_def Let_def split: if_splits)
    moreover have "arrives svc (ToSocket k MT_RESPONSE (response_bytes nSessionID (cs_id (si_self B)) ?to nResult (sz_type z) [] [])) = Some ?pk" for k
      using dispatch_response_bytes [where svc = svc, OF assms(3) id assms(4,5) ty _ _ assms(6), of "[]" "[]"]
      by (simp add: arrives_def MT_REQUEST_def MT_RESPONSE_def)
    ultimately show thesis using that by blast
  next
    case (Some to)
    then have "out = [ToQueue ?pk]" using assms(2) ne z by (auto simp: transport_response_def Let_def split: if_splits)
    then show thesis using that by (simp add: arrives_def)
  qed
  define cs1 where "cs1 = snd (getPendingResponseInfo nSessionID (incQPS cs))"
  have get: "getPendingResponseInfo nSessionID (incQPS cs) = (Some p, cs1)"
    using assms(7) by (simp add: cs1_def getPendingResponseInfo_def incQPS_def Let_def split: option.split)
  show thesis
    by (rule that [OF s]) (use assms(8,9) get in \<open>simp add: md_dispatch_def dispatch_to_caller_def Let_def\<close>)
qed

lemma response_sent: "transport_response B nTo nSessionID nResult m t = Some (ok, out) \<Longrightarrow> out \<noteq> [] \<Longrightarrow> ok"
  by (auto simp: transport_response_def Let_def split: if_splits option.splits)

lemma callbacks_answered:
  assumes "db_answer r B = Some out" and "out \<noteq> []" and "res_callback r = session_callback nFrom nSessionID" and "nSessionID < 2 ^ 64"
  shows "transport_response B nFrom nSessionID (code_number (nErrorCode r)) (map_option Other (res_message r)) 0 = Some (True, out)"
proof -
  have "invoker_response (nFrom, nSessionID) (map_option Other (res_message r)) (code_number (nErrorCode r)) 0 B = Some out" "nSessionID \<noteq> 0"
    using assms(1,2) session_of_callback [OF assms(4)] assms(3) by (auto simp: db_answer_def split: if_splits)
  then obtain ok where ok: "transport_response B nFrom nSessionID (code_number (nErrorCode r)) (map_option Other (res_message r)) 0 = Some (ok, out)"
    by (auto simp: invoker_response_def)
  then show ?thesis using response_sent [OF ok assms(2)] by simp
qed

section \<open>A request and its answer\<close>

text \<open>The functions of the holder that wait for an answer have sent the command when they give no result at once.\<close>

lemma holder_sent:
  assumes "(nCo = 0 \<and> holder_async C h nDb c cb nTimeout A = (None, out, A')) \<or>
      (nCo = cc_coroutine C \<and> holder_sync C h nDb c cb nTimeout A = (None, out, A'))" and "cb \<noteq> 0"
  shows "invoker_invoke (cc_timeout C) (cc_now C) True (cc_rand C) nDb (Some (Native c)) nCo cb (Some (nTimeout, 3)) (m_nHolderID h) A = (True, out, A')"
  using assms by (auto simp: holder_async_def holder_sync_def async_invoke_def sync_invoke_def Let_def split: prod.splits if_splits)

lemma codes_small: "code_number c < 2 ^ 32"
  by (cases c) simp_all

text \<open>What is documented of protobuf: a message is parsed from its own bytes.\<close>

definition parses_back :: "'r message serializer \<Rightarrow> bool" where
  "parses_back protobuf \<longleftrightarrow> sz_type protobuf = 1 \<and> (\<forall>x n d. sz_name protobuf (Other x) = Some n \<longrightarrow>
     sz_encode protobuf (Other x) BUF_SIZE = Some d \<longrightarrow> sz_decode protobuf n d = Some (Other x))"

lemma request_queued:
  fixes A1 :: "'r message site" and cs :: "'r message serializer core_service"
  assumes "site_ok A1" and "transport_invoke A1 nDb nSessionID (Some (Native c)) (Some (nTimeout, 3)) = (True, out)" and "nSessionID < 2 ^ 64"
    and "convert_id A1 nDb = i" and "i < 2 ^ 32" and "svc i" and "command_fits c"
    and "getServiceMessageSerializerByType 3 (si_self A1) = Some CNativeSerializer" and "db_ready protobuf cs"
  obtains s pk nc where "out = [s]" "arrives svc s = Some pk" "pk_to pk = i" "md_dispatch None None pk cs = Some (Some nc, incQPS cs)"
    "\<And>env create copies tm. db_dispatch env create copies nc tm =
       Some (db_query env create copies (command_handler c) (Some (session_callback (cs_id (si_self A1)) nSessionID)) tm)"
proof -
  have carried: "carried_by z cs (Native c) (getMessageName c)" if "pick_serializer A1 (convert_id A1 nDb) (case Some (nTimeout, 3) of None \<Rightarrow> 0 | Some (_, t) \<Rightarrow> t) = Some z" for z
    using that assms(7-9) native_carried by (auto simp: pick_serializer_def db_ready_def)
  have h: "getServiceMessageHandler (getMessageName c) cs = Some (handler_no c)" using assms(9) by (simp add: db_ready_def)
  have to: "convert_id A1 nDb < 2 ^ 32" "svc (convert_id A1 nDb)" using assms(4-6) by simp_all
  obtain s pk where r: "out = [s]" "arrives svc s = Some pk" "pk_to pk = convert_id A1 nDb"
    "md_dispatch None None pk cs = Some (Some (HandleRequest (handler_no c) (cs_id (si_self A1)) nSessionID (Native c)), incQPS cs)"
    by (rule request_handled [where svc = svc and tg = None and bc = None, OF assms(1,2,3) to carried h])
  show thesis by (rule that [OF r(1,2) r(3) [unfolded assms(4)] r(4)]) (simp add: db_dispatch_def normal_command_handler_def)
qed

lemma answer_handled:
  assumes "site_ok B" and "db_answer r B = Some out" and "out \<noteq> []" and "res_callback r = session_callback nFrom nSessionID"
    and "nSessionID < 2 ^ 64" and "nSessionID \<noteq> 0" and "convert_id B nFrom = nFrom" and "nFrom < 2 ^ 32" and "svc nFrom"
    and "\<And>z. pick_serializer B nFrom 0 = Some z \<Longrightarrow> z = protobuf" and "parses_back protobuf"
    and "getServiceMessageSerializerByType 1 cs = Some protobuf"
    and "om_get (cs_pending cs) nSessionID = Some p" and "pi_callback p \<noteq> 0" and "om_ok (cs_pending cs)"
  obtains s pk cs' where "out = [s]" "arrives svc s = Some pk"
    "md_dispatch None None pk cs = Some (Some (HandleResponse (pi_coroutine p) (pi_callback p)
       (map_option Other (res_message r)) (code_number (nErrorCode r))), cs')"
proof -
  note sent = callbacks_answered [OF assms(2-5)]
  have to: "convert_id B nFrom < 2 ^ 32" "svc (convert_id B nFrom)" using assms(7-9) by simp_all
  show thesis
  proof (cases "res_message r")
    case None
    then show thesis
      using null_response_handled [where svc = svc and tg = None and bc = None, OF assms(1) _ assms(5) to(1) codes_small to(2) assms(13,6,14)] sent that
      by (simp, metis)
  next
    case (Some x)
    have "pick_serializer B nFrom 0 = Some protobuf"
      using sent Some assms(7,10) by (cases "pick_serializer B nFrom 0") (auto simp: transport_response_def Let_def split: if_splits option.splits)
    then obtain name where name: "sz_name protobuf (Other x) = Some name"
      using sent Some assms(7) by (cases "sz_name protobuf (Other x)") (auto simp: transport_response_def Let_def split: if_splits option.splits)
    have "carried_by z cs (Other x) name" if "pick_serializer B (convert_id B nFrom) 0 = Some z" for z
      using assms(7,10-12) that name by (auto simp: carried_by_def parses_back_def)
    note res = response_handled [where svc = svc and tg = None and bc = None, OF assms(1) _ assms(5) to(1) codes_small to(2) this assms(13,6,14,15)]
    show thesis using res sent Some that by (simp, metis)
  qed
qed


text \<open>A record of a kind the database service does not know is not queued, and no callback is ever called for it.\<close>

lemma unknown_record_unanswered:
  "create (chars name) = None \<Longrightarrow> normal_command_handler env create copies s (command_handler (Insert_command name content)) tm = tm"
  by (simp add: normal_command_handler_def db_query_def record_command_def)

section \<open>Two services\<close>

definition demo_rows :: db_response where
  "demo_rows = RespResultSet \<lparr>field_name = [], rows = []\<rparr>"

text \<open>A serializer that only has room for this message.\<close>

definition demo_protobuf :: "db_response message serializer" where
  "demo_protobuf = protobuf_serializer (\<lambda>_. [114]) (\<lambda>m. if m = Other demo_rows then [9] else replicate 65536 0) (\<lambda>_ _. Some (Other demo_rows))"

definition demo_db_service :: "nat \<Rightarrow> db_response message serializer core_service" where
  "demo_db_service i = db_onInit demo_protobuf (cs_start i 0)"

definition demo_db_site :: "nat \<Rightarrow> nat \<Rightarrow> db_response message site" where
  "demo_db_site i j = \<lparr>si_self = demo_db_service i, si_local = (\<lambda>k. if k = i then Some (demo_db_service i) else None),
     si_types = (\<lambda>_. None), si_proxy = demo_lp j, si_convert = None\<rparr>"

lemma demo_parses: "parses_back demo_protobuf"
  by (auto simp: parses_back_def demo_protobuf_def protobuf_serializer_def BUF_SIZE_def split: if_splits)

lemma handlers_keep:
  "cs_serializer (CDbServiceMessageHandler cs) = cs_serializer cs" "cs_id (CDbServiceMessageHandler cs) = cs_id cs"
  "cs_pending (CDbServiceMessageHandler cs) = cs_pending cs" "cs_health (CDbServiceMessageHandler cs) = cs_health cs"
  "cs_nextSession (CDbServiceMessageHandler cs) = cs_nextSession cs" "cs_serializerType (CDbServiceMessageHandler cs) = cs_serializerType cs"
proof -
  have "cs_serializer (registerServiceMessageHandler x n cs') = cs_serializer cs'" "cs_id (registerServiceMessageHandler x n cs') = cs_id cs'"
    "cs_pending (registerServiceMessageHandler x n cs') = cs_pending cs'" "cs_health (registerServiceMessageHandler x n cs') = cs_health cs'"
    "cs_nextSession (registerServiceMessageHandler x n cs') = cs_nextSession cs'"
    "cs_serializerType (registerServiceMessageHandler x n cs') = cs_serializerType cs'"
    for x n and cs' :: "'a core_service" by (simp_all add: registerServiceMessageHandler_def)
  then show "cs_serializer (CDbServiceMessageHandler cs) = cs_serializer cs" "cs_id (CDbServiceMessageHandler cs) = cs_id cs"
    "cs_pending (CDbServiceMessageHandler cs) = cs_pending cs" "cs_health (CDbServiceMessageHandler cs) = cs_health cs"
    "cs_nextSession (CDbServiceMessageHandler cs) = cs_nextSession cs" "cs_serializerType (CDbServiceMessageHandler cs) = cs_serializerType cs"
    by (simp_all add: CDbServiceMessageHandler_def)
qed

lemmas demo_db_defs = demo_db_service_def db_onInit_def cs_start_def addServiceMessageSerializer_def setServiceMessageSerializer_def handlers_keep

lemma demo_serializers: "getServiceMessageSerializerByType t (demo_db_service i) =
    (if t = 3 then Some CNativeSerializer else if t = 1 then Some demo_protobuf else None)"
  by (simp add: getServiceMessageSerializerByType_def demo_db_defs)

lemma demo_parts: "cs_id (demo_db_service i) = i" "cs_pending (demo_db_service i) = []" "cs_health (demo_db_service i) = []"
    "cs_nextSession (demo_db_service i) = 0" "cs_defaultType (demo_db_service i) = 1" "cs_serializerType (demo_db_service i) = []"
  by (simp_all add: demo_db_defs)

lemma demo_ready: "db_ready demo_protobuf (demo_db_service i)"
  unfolding demo_db_service_def by (rule onInit_ready) (simp_all add: cs_start_def)

lemma demo_names: "sz_name demo_protobuf m = Some [114]"
  by (simp add: demo_protobuf_def protobuf_serializer_def Transporter.message_name_def MAX_MESSAGE_NAME_LEN_def cstr_def)

lemma demo_db_ok: "i < 2 ^ 32 \<Longrightarrow> site_ok (demo_db_site i j)"
proof -
  assume i: "i < 2 ^ 32"
  have "engine_serializer demo_protobuf" unfolding demo_protobuf_def by (rule engine_serializer.intros)
  moreover have "engine_serializer (CNativeSerializer :: db_response message serializer)" unfolding CNativeSerializer_def by (rule engine_serializer.intros)
  moreover have "sz_name CNativeSerializer m \<noteq> Some []" for m :: "db_response message"
  proof (cases m)
    case (Native c)
    then show ?thesis by (cases c) (auto simp: CNativeSerializer_def native_serializer_def ascii_def cstr_def split: if_splits)
  qed (simp add: CNativeSerializer_def native_serializer_def)
  moreover have "sz_type demo_protobuf = 1" by (simp add: demo_protobuf_def protobuf_serializer_def)
  ultimately show ?thesis using i demo_names by (simp add: site_ok_def demo_db_site_def demo_serializers demo_parts)
qed


lemma demo_db_gen: "genSessionID (demo_db_service i) = (1, (demo_db_service i)\<lparr>cs_nextSession := 1\<rparr>)"
  by (simp add: genSessionID_def demo_parts)

definition demo_context :: call_context where
  "demo_context = \<lparr>cc_timeout = 500, cc_now = 0, cc_rand = 0, cc_coroutine = 4\<rparr>"

definition demo_holder :: CDbServiceInvokeHolder where
  "demo_holder = \<lparr>m_nDbServiceID = 2, m_nHolderID = 0\<rparr>"

definition demo_request :: "u8 list" where
  "demo_request = request_bytes 1 1 2 3 (ascii ''nop_command'') (enc_command (Nop_command 7))"

definition demo_asked :: "db_response asked" where
  "demo_asked = holder_async demo_context demo_holder 2 (Nop_command 7) 33 0 (demo_db_site 1 2)"

lemma demo_nop:
  "sz_name CNativeSerializer (Native (Nop_command ch)) = Some (ascii ''nop_command'')"
  "sz_encode CNativeSerializer (Native (Nop_command ch)) n = (if n < 4 then None else Some (enc_command (Nop_command ch)))"
  using pack_bytes [of "Nop_command ch" "wb_new 65535"]
  by (simp_all add: CNativeSerializer_def native_serializer_def MAX_MESSAGE_NAME_LEN_def cstr_def ascii_def)

lemma demo_invoke: "transport_invoke ((demo_db_site 1 2)\<lparr>si_self := (demo_db_service 1)\<lparr>cs_nextSession := 1\<rparr>\<rparr>) 2 1 (Some (Native (Nop_command 7))) (Some (0, 3)) =
    (True, [ToSocket 50 MT_REQUEST demo_request])"
proof -
  have "getServiceMessageSerializerByType 3 ((demo_db_service 1)\<lparr>cs_nextSession := 1\<rparr>) = Some CNativeSerializer"
    using demo_serializers [of 3 1] by (simp add: getServiceMessageSerializerByType_def)
  then show ?thesis
    by (simp add: transport_invoke_def convert_id_def pick_serializer_def getOtherNodeSocketIDByServiceID_def demo_db_site_def demo_nop
        demo_lp_def demo_parts BUF_SIZE_def request_cookice_size_def om_at_def Let_def demo_request_def ascii_def)
qed

lemma demo_asked_eval: "demo_asked = (None, [ToSocket 50 MT_REQUEST demo_request], snd (snd demo_asked))"
proof -
  have s: "si_self (demo_db_site 1 2) = demo_db_service 1" by (simp add: demo_db_site_def)
  have h: "self_healthy 0 2 (demo_db_site 1 2)"
    by (simp add: self_healthy_def isServiceHealth_def isValidService_def demo_db_site_def demo_lp_def demo_parts)
  show ?thesis unfolding demo_asked_def holder_async_def async_invoke_def invoker_invoke_def s demo_db_gen
    using h demo_invoke by (simp add: Let_def addPendingResponseInfo_def demo_parts demo_context_def demo_holder_def)
qed

definition demo_result :: SDbResultInfo where
  "demo_result = \<lparr>nErrorCode = eDBRC_OK, res_message = Some demo_rows, res_callback = session_callback 1 1\<rparr>"

lemma demo_db_answer: "db_answer demo_result (demo_db_site 2 1) = Some [ToSocket 50 MT_RESPONSE (response_bytes 1 2 1 1 1 [114] [9])]"
proof -
  have "getServiceMessageSerializer x (demo_db_service 2) = Some demo_protobuf" for x
    using demo_serializers [of 1 2] by (simp add: getServiceMessageSerializer_def getServiceMessageSerializerByType_def om_at_def demo_parts)
  moreover have "sz_encode demo_protobuf (Other demo_rows) n = (if n < 1 then None else Some [9])" "sz_type demo_protobuf = 1" for n
    by (simp_all add: demo_protobuf_def protobuf_serializer_def)
  ultimately show ?thesis
    using session_of_callback [of 1 1]
    by (simp add: db_answer_def demo_result_def invoker_response_def transport_response_def convert_id_def pick_serializer_def
        getOtherNodeSocketIDByServiceID_def demo_db_site_def demo_names demo_lp_def demo_parts BUF_SIZE_def response_cookice_size_def
        om_at_def Let_def)
qed


end
