(* ===== verification/Service_Messages.thy ===== *)
theory Service_Messages imports Ordered_Map begin

text \<open>
  What the services of the game tell each other (\<open>service/proto/server_proto\<close>), the error codes
  (\<open>service/common/error_code.h\<close>) and what a handler of a service does to the outside.
\<close>

datatype server_message =
    D2u_player_login_request u64 u32
  | D2u_player_login_response u64 u32
  | S2u_player_heartbeat_request u64
  | S2u_player_heartbeat_response
  | S2u_player_leave_notify u64
  | U2s_kick_player_notify u64
  | U2d_active_count_notify u32
  | G2s_player_enter_request u64
  | G2s_player_enter_response u64 nat
  | G2s_player_leave_notify u64
  | G2s_player_heartbeat_notify u64
  | S2g_kick_player_notify u64
  | S2d_online_count_notify u32
  | G2d_online_count_notify u32
  | G2d_addr_notify string
  | D2g_player_token_notify u64 u32 string
  | L2d_validate_login_request string u32
  | L2d_validate_login_response string nat string

definition eEC_Sucess :: nat where "eEC_Sucess = 0"
definition eEC_Login_QueryGlobalDbError :: nat where "eEC_Login_QueryGlobalDbError = 100"
definition eEC_Login_GetSuitableUCIDError :: nat where "eEC_Login_GetSuitableUCIDError = 101"
definition eEC_Login_InsertGameDbError :: nat where "eEC_Login_InsertGameDbError = 102"
definition eEC_Login_InsertGbloalDbError :: nat where "eEC_Login_InsertGbloalDbError = 103"
definition eEC_Login_InvokeUCError :: nat where "eEC_Login_InvokeUCError = 104"
definition eEC_Login_InvokeDispatchError :: nat where "eEC_Login_InvokeDispatchError = 105"
definition eEC_Login_InvokeGasError :: nat where "eEC_Login_InvokeGasError = 106"
definition eEC_Login_CreatePlayerError :: nat where "eEC_Login_CreatePlayerError = 107"
definition eEC_GM_NameError :: nat where "eEC_GM_NameError = 200"
definition eEC_GM_ArgError :: nat where "eEC_GM_ArgError = 201"
definition eEC_Hero_NotFoundHeroConfig :: nat where "eEC_Hero_NotFoundHeroConfig = 300"
definition eEC_Hero_HeroDoubleActive :: nat where "eEC_Hero_HeroDoubleActive = 301"
definition eEC_Hero_ReqLvError :: nat where "eEC_Hero_ReqLvError = 302"
definition eEC_Hero_ReqPatchError :: nat where "eEC_Hero_ReqPatchError = 303"
definition eEC_Hero_ReqResourceError :: nat where "eEC_Hero_ReqResourceError = 304"
definition eEC_Hero_NotFoundHeroPatchConfig :: nat where "eEC_Hero_NotFoundHeroPatchConfig = 305"
definition eEC_Hero_HeroPatchDoubleActive :: nat where "eEC_Hero_HeroPatchDoubleActive = 306"
definition eEC_Hero_ReqHeroError :: nat where "eEC_Hero_ReqHeroError = 307"
definition eEC_Hero_ReqItemError :: nat where "eEC_Hero_ReqItemError = 308"

lemmas error_codes = eEC_Sucess_def eEC_Login_QueryGlobalDbError_def eEC_Login_GetSuitableUCIDError_def
  eEC_Login_InsertGameDbError_def eEC_Login_InsertGbloalDbError_def eEC_Login_InvokeUCError_def
  eEC_Login_InvokeDispatchError_def eEC_Login_InvokeGasError_def eEC_Login_CreatePlayerError_def
  eEC_GM_NameError_def eEC_GM_ArgError_def eEC_Hero_NotFoundHeroConfig_def eEC_Hero_HeroDoubleActive_def
  eEC_Hero_ReqLvError_def eEC_Hero_ReqPatchError_def eEC_Hero_ReqResourceError_def
  eEC_Hero_NotFoundHeroPatchConfig_def eEC_Hero_HeroPatchDoubleActive_def eEC_Hero_ReqHeroError_def eEC_Hero_ReqItemError_def

record SSessionInfo =
  nFromServiceID :: u32
  nSessionID :: u64

text \<open>\<open>send\<close>, \<open>response\<close>, \<open>async_invoke\<close> or the start of \<open>sync_invoke\<close>, and \<open>broadcast\<close> of the invoker; \<open>Local\<close> is what is left to the service.\<close>

datatype 'a service_out =
    Send u32 server_message
  | Respond SSessionInfo server_message
  | Invoke u32 server_message
  | Broadcast string server_message
  | Local 'a

end
