(* ===== verification/Uc_Service.thy ===== *)
theory Uc_Service imports Service_Messages begin

text \<open>
  The user center (\<open>service/usercenter_service\<close>): which game service a player belongs to
  (\<open>user_info.cpp\<close>, \<open>user_info_mgr.cpp\<close>, \<open>uc_service_message_handler.cpp\<close>, \<open>uc_service.cpp\<close>).
  The game service 0 stands for none.
\<close>

record CUserInfo =
  ui_m_nPlayerID :: u64
  ui_m_nGasID :: u32
  m_tickerTimeout :: bool     \<comment> \<open>is the ticker registered\<close>

type_synonym uc_state = "(u64, CUserInfo) omap"
type_synonym uc_out = "unit service_out"

definition getUserInfo :: "uc_state \<Rightarrow> u64 \<Rightarrow> CUserInfo option" where
  "getUserInfo uc nPlayerID = om_get uc nPlayerID"

definition createUserInfo :: "u64 \<Rightarrow> u32 \<Rightarrow> uc_state \<Rightarrow> (CUserInfo \<times> uc_state) option" where
  "createUserInfo nPlayerID nGasID uc = (if getUserInfo uc nPlayerID \<noteq> None then None
     else let i = \<lparr>ui_m_nPlayerID = nPlayerID, ui_m_nGasID = nGasID, m_tickerTimeout = False\<rparr> in Some (i, om_put nPlayerID i uc))"

definition destroyUserInfo :: "u64 \<Rightarrow> uc_state \<Rightarrow> uc_state" where
  "destroyUserInfo nPlayerID uc = om_del nPlayerID uc"

definition getUserCount :: "uc_state \<Rightarrow> u32" where
  "getUserCount uc = of_nat (length uc)"

definition set_info :: "u64 \<Rightarrow> (CUserInfo \<Rightarrow> CUserInfo) \<Rightarrow> uc_state \<Rightarrow> uc_state" where
  "set_info nPlayerID f uc = (case om_get uc nPlayerID of None \<Rightarrow> uc | Some i \<Rightarrow> om_put nPlayerID (f i) uc)"

definition ui_setGasID :: "u32 \<Rightarrow> CUserInfo \<Rightarrow> CUserInfo" where
  "ui_setGasID nGasID i = i\<lparr>ui_m_nGasID := nGasID\<rparr>"

definition ui_onHeartbeat :: "CUserInfo \<Rightarrow> CUserInfo" where
  "ui_onHeartbeat i = (if m_tickerTimeout i then i\<lparr>m_tickerTimeout := False\<rparr> else i)"

definition startTimout :: "CUserInfo \<Rightarrow> CUserInfo" where
  "startTimout i = i\<lparr>m_tickerTimeout := True\<rparr>"

text \<open>The ticker of a player fires while it is registered only.\<close>

definition ui_onTimeout :: "u64 \<Rightarrow> uc_state \<Rightarrow> uc_state" where
  "ui_onTimeout nPlayerID uc = (case getUserInfo uc nPlayerID of None \<Rightarrow> uc
     | Some i \<Rightarrow> if m_tickerTimeout i then destroyUserInfo nPlayerID uc else uc)"

definition d2u_player_login_request_handler :: "SSessionInfo \<Rightarrow> u64 \<Rightarrow> u32 \<Rightarrow> uc_state \<Rightarrow> uc_state \<times> uc_out list" where
  "d2u_player_login_request_handler s nPlayerID nGasID uc =
    (let uc' = (case getUserInfo uc nPlayerID of
         None \<Rightarrow> (case createUserInfo nPlayerID nGasID uc of None \<Rightarrow> uc
            | Some (i, uc1) \<Rightarrow> set_info nPlayerID startTimout uc1)
       | Some i \<Rightarrow> if ui_m_nGasID i = 0 then set_info nPlayerID (startTimout \<circ> ui_setGasID nGasID) uc else uc)
     in (uc', case getUserInfo uc' nPlayerID of None \<Rightarrow> []
          | Some i \<Rightarrow> [Respond s (D2u_player_login_response (ui_m_nPlayerID i) (ui_m_nGasID i))]))"

definition s2u_player_heartbeat_request_handler :: "SSessionInfo \<Rightarrow> u64 \<Rightarrow> uc_state \<Rightarrow> uc_state \<times> uc_out list" where
  "s2u_player_heartbeat_request_handler s nPlayerID uc =
    (case getUserInfo uc nPlayerID of
       None \<Rightarrow> (uc, [Respond s S2u_player_heartbeat_response, Send (nFromServiceID s) (U2s_kick_player_notify nPlayerID)])
     | Some i \<Rightarrow> if ui_m_nGasID i \<noteq> nFromServiceID s
         then (set_info nPlayerID (ui_setGasID 0) uc,
               [Respond s S2u_player_heartbeat_response, Send (nFromServiceID s) (U2s_kick_player_notify nPlayerID)])
         else (set_info nPlayerID ui_onHeartbeat uc, [Respond s S2u_player_heartbeat_response]))"

text \<open>The sender of the notification is not looked at.\<close>

definition s2u_player_leave_notify_handler :: "u64 \<Rightarrow> uc_state \<Rightarrow> uc_state \<times> uc_out list" where
  "s2u_player_leave_notify_handler nPlayerID uc =
    (case getUserInfo uc nPlayerID of None \<Rightarrow> (uc, []) | Some i \<Rightarrow> (set_info nPlayerID (ui_setGasID 0) uc, []))"

definition uc_onServiceConnect :: "string \<Rightarrow> u32 \<Rightarrow> uc_state \<Rightarrow> uc_state \<times> uc_out list" where
  "uc_onServiceConnect szType nServiceID uc =
     (uc, if szType = ''dispatch'' then [Send nServiceID (U2d_active_count_notify (getUserCount uc))] else [])"

definition onNotifyActiveCount :: "uc_state \<Rightarrow> uc_state \<times> uc_out list" where
  "onNotifyActiveCount uc = (uc, [Broadcast ''dispatch'' (U2d_active_count_notify (getUserCount uc))])"

datatype uc_event = Uc_login SSessionInfo u64 u32 | Uc_heartbeat SSessionInfo u64 | Uc_leave u32 u64 | Uc_timeout u64
  | Uc_connect string u32 | Uc_count

fun uc_step :: "uc_event \<Rightarrow> uc_state \<Rightarrow> uc_state \<times> uc_out list" where
  "uc_step (Uc_login s nPlayerID nGasID) uc = d2u_player_login_request_handler s nPlayerID nGasID uc"
| "uc_step (Uc_heartbeat s nPlayerID) uc = s2u_player_heartbeat_request_handler s nPlayerID uc"
| "uc_step (Uc_leave nFrom nPlayerID) uc = s2u_player_leave_notify_handler nPlayerID uc"
| "uc_step (Uc_timeout nPlayerID) uc = (ui_onTimeout nPlayerID uc, [])"
| "uc_step (Uc_connect szType nServiceID) uc = uc_onServiceConnect szType nServiceID uc"
| "uc_step Uc_count uc = onNotifyActiveCount uc"

fun uc_run :: "uc_event list \<Rightarrow> uc_state \<Rightarrow> uc_state \<times> uc_out list" where
  "uc_run [] uc = (uc, [])"
| "uc_run (e # es) uc = (let (uc', out) = uc_step e uc; (uc'', out') = uc_run es uc' in (uc'', out @ out'))"

section \<open>Who owns a player\<close>

text \<open>The owner and whether the timeout is running, as a function of the events of this player alone.\<close>

fun owner_step :: "u64 \<Rightarrow> uc_event \<Rightarrow> (u32 \<times> bool) option \<Rightarrow> (u32 \<times> bool) option" where
  "owner_step pid (Uc_login s p gas) o1 = (if p \<noteq> pid then o1 else case o1 of
      None \<Rightarrow> Some (gas, True) | Some (cur, t) \<Rightarrow> if cur = 0 then Some (gas, True) else o1)"
| "owner_step pid (Uc_heartbeat s p) o1 = (if p \<noteq> pid then o1 else case o1 of
      None \<Rightarrow> None | Some (cur, t) \<Rightarrow> if cur \<noteq> nFromServiceID s then Some (0, t) else Some (cur, False))"
| "owner_step pid (Uc_leave from p) o1 = (if p \<noteq> pid then o1 else map_option (\<lambda>(cur, t). (0, t)) o1)"
| "owner_step pid (Uc_timeout p) o1 = (if p \<noteq> pid then o1 else case o1 of Some (cur, True) \<Rightarrow> None | _ \<Rightarrow> o1)"
| "owner_step pid _ o1 = o1"

definition owner_of :: "uc_state \<Rightarrow> u64 \<Rightarrow> (u32 \<times> bool) option" where
  "owner_of uc pid = map_option (\<lambda>i. (ui_m_nGasID i, m_tickerTimeout i)) (om_get uc pid)"

definition uc_ok :: "uc_state \<Rightarrow> bool" where
  "uc_ok uc \<longleftrightarrow> om_ok uc \<and> (\<forall>pid i. om_get uc pid = Some i \<longrightarrow> ui_m_nPlayerID i = pid)"

lemma uc_ok_init [simp]: "uc_ok []" by (simp add: uc_ok_def)

lemma uc_ok_put: "uc_ok uc \<Longrightarrow> ui_m_nPlayerID i = pid \<Longrightarrow> uc_ok (om_put pid i uc)"
  by (auto simp: uc_ok_def)

lemma uc_ok_set_info: "uc_ok uc \<Longrightarrow> (\<And>i. ui_m_nPlayerID (f i) = ui_m_nPlayerID i) \<Longrightarrow> uc_ok (set_info pid f uc)"
  by (auto simp: set_info_def intro!: uc_ok_put split: option.splits) (simp add: uc_ok_def)

lemma info_updates [simp]:
  "ui_m_nPlayerID (startTimout i) = ui_m_nPlayerID i" "ui_m_nPlayerID (ui_setGasID n i) = ui_m_nPlayerID i"
  "ui_m_nPlayerID (ui_onHeartbeat i) = ui_m_nPlayerID i" "ui_m_nGasID (startTimout i) = ui_m_nGasID i"
  "ui_m_nGasID (ui_onHeartbeat i) = ui_m_nGasID i" "ui_m_nGasID (ui_setGasID n i) = n"
  "m_tickerTimeout (startTimout i)" "\<not> m_tickerTimeout (ui_onHeartbeat i)" "m_tickerTimeout (ui_setGasID n i) = m_tickerTimeout i"
  by (auto simp: startTimout_def ui_setGasID_def ui_onHeartbeat_def)

lemma get_set_info: "uc_ok uc \<Longrightarrow> om_get (set_info p f uc) = (om_get uc)(p := map_option f (om_get uc p))"
  by (auto simp: set_info_def uc_ok_def fun_eq_iff split: option.splits)

lemmas uc_handlers = d2u_player_login_request_handler_def s2u_player_heartbeat_request_handler_def
  s2u_player_leave_notify_handler_def ui_onTimeout_def uc_onServiceConnect_def onNotifyActiveCount_def
  getUserInfo_def createUserInfo_def destroyUserInfo_def

lemma uc_ok_step: "uc_ok uc \<Longrightarrow> uc_ok (fst (uc_step e uc))"
proof (cases e)
  case (Uc_login s p gas)
  assume "uc_ok uc"
  then show ?thesis using Uc_login
    by (auto simp: uc_handlers Let_def intro!: uc_ok_set_info uc_ok_put split: option.splits)
next
  case (Uc_timeout p)
  assume "uc_ok uc"
  then show ?thesis using Uc_timeout by (auto simp: uc_handlers uc_ok_def split: option.splits)
qed (auto simp: uc_handlers intro!: uc_ok_set_info split: option.splits)

lemma owner_step_refines: "uc_ok uc \<Longrightarrow> owner_of (fst (uc_step e uc)) pid = owner_step pid e (owner_of uc pid)"
proof (cases e)
  case (Uc_login s p gas)
  assume ok: "uc_ok uc"
  have put: "uc_ok (om_put q \<lparr>ui_m_nPlayerID = q, ui_m_nGasID = gas, m_tickerTimeout = False\<rparr> uc)" for q
    using ok by (intro uc_ok_put) simp_all
  from ok show ?thesis using Uc_login
    by (auto simp: uc_handlers Let_def owner_of_def get_set_info get_set_info [OF put] split: option.splits)
      (auto simp: uc_ok_def)
next
  case (Uc_timeout p)
  assume "uc_ok uc"
  then show ?thesis using Uc_timeout
    by (auto simp: uc_handlers owner_of_def uc_ok_def split: option.splits bool.splits)
qed (auto simp: uc_handlers get_set_info owner_of_def split: option.splits)

lemma uc_run_ok: "uc_ok uc \<Longrightarrow> uc_ok (fst (uc_run es uc))"
proof (induction es arbitrary: uc)
  case (Cons e es)
  from Cons.IH [OF uc_ok_step [OF Cons.prems]] show ?case by (simp add: Let_def case_prod_beta)
qed simp

lemma owner_run: "uc_ok uc \<Longrightarrow> owner_of (fst (uc_run es uc)) pid = fold (owner_step pid) es (owner_of uc pid)"
proof (induction es arbitrary: uc)
  case (Cons e es)
  from Cons.IH [OF uc_ok_step [OF Cons.prems]] show ?case
    by (simp add: Let_def case_prod_beta owner_step_refines [OF Cons.prems])
qed simp

lemma uc_run_append: "uc_run (es @ es') uc = (let (uc', out) = uc_run es uc; (uc'', out') = uc_run es' uc' in (uc'', out @ out'))"
  by (induction es arbitrary: uc) (simp_all add: Let_def case_prod_beta)

lemma login_answer:
  "uc_ok uc \<Longrightarrow> snd (uc_step (Uc_login s pid gas) uc) =
     [Respond s (D2u_player_login_response pid (fst (the (owner_step pid (Uc_login s pid gas) (owner_of uc pid)))))]"
proof -
  assume ok: "uc_ok uc"
  obtain i where i: "om_get (fst (uc_step (Uc_login s pid gas) uc)) pid = Some i"
    and o: "owner_step pid (Uc_login s pid gas) (owner_of uc pid) = Some (ui_m_nGasID i, m_tickerTimeout i)"
    using owner_step_refines [OF ok, of "Uc_login s pid gas" pid]
    by (cases "owner_of uc pid"; cases "om_get (fst (uc_step (Uc_login s pid gas) uc)) pid")
      (auto simp: owner_of_def split: if_splits)
  moreover have "ui_m_nPlayerID i = pid" using uc_ok_step [OF ok, of "Uc_login s pid gas"] i by (simp add: uc_ok_def)
  ultimately show ?thesis by (simp add: d2u_player_login_request_handler_def getUserInfo_def Let_def)
qed

section \<open>What the user center guarantees\<close>

text \<open>
  C29: After any history the user center knows, for every player, exactly the owner that the events of
  this player alone determine, and it answers a login with this owner: the game service of the first
  login as long as nothing gave the player free.
\<close>

theorem uc_owner_exact:
  "owner_of (fst (uc_run es [])) pid = fold (owner_step pid) es None \<and>
   snd (uc_step (Uc_login s pid gas) (fst (uc_run es []))) =
     [Respond s (D2u_player_login_response pid
        (fst (the (owner_step pid (Uc_login s pid gas) (fold (owner_step pid) es None)))))]"
  using owner_run [OF uc_ok_init, of es pid] login_answer [OF uc_run_ok [OF uc_ok_init], of s pid gas es]
  by (simp add: owner_of_def)

text \<open>An event that takes the player from its owner.\<close>

fun frees :: "u64 \<Rightarrow> u32 \<Rightarrow> uc_event \<Rightarrow> bool" where
  "frees pid gas (Uc_heartbeat s p) = (p = pid \<and> nFromServiceID s \<noteq> gas)"
| "frees pid gas (Uc_leave from p) = (p = pid)"
| "frees pid gas _ = False"

lemma owner_kept:
  "gas \<noteq> 0 \<Longrightarrow> list_all (\<lambda>e. \<not> frees pid gas e) es \<Longrightarrow> fold (owner_step pid) es (Some (gas, False)) = Some (gas, False)"
proof (induction es)
  case (Cons e es)
  then have "owner_step pid e (Some (gas, False)) = Some (gas, False)" by (cases e) auto
  then show ?case using Cons by simp
qed simp

text \<open>
  Once a game service has sent a heartbeat for its player, no timeout and no login takes the player
  from it: when the service stops without a notification, every later login is still sent to it.
\<close>

theorem owner_survives_its_service:
  assumes "owner_of uc pid = Some (gas, False)" "uc_ok uc" "gas \<noteq> 0"
    and "list_all (\<lambda>e. \<not> frees pid gas e) es"
  shows "owner_of (fst (uc_run es uc)) pid = Some (gas, False) \<and>
    snd (uc_step (Uc_login s pid gas') (fst (uc_run es uc))) = [Respond s (D2u_player_login_response pid gas)]"
  using owner_run [OF assms(2), of es pid] owner_kept [OF assms(3,4)] assms
    login_answer [OF uc_run_ok [OF assms(2)], of s pid gas' es] by simp

theorem owner_survives_its_service_witness:
  "snd (uc_step (Uc_login \<lparr>nFromServiceID = 9, nSessionID = 4\<rparr> 7 31)
      (fst (uc_run [Uc_login \<lparr>nFromServiceID = 9, nSessionID = 3\<rparr> 7 31, Uc_timeout 7]
         [(7, \<lparr>ui_m_nPlayerID = 7, ui_m_nGasID = 30, m_tickerTimeout = False\<rparr>)]))) =
    [Respond \<lparr>nFromServiceID = 9, nSessionID = 4\<rparr> (D2u_player_login_response 7 30)]"
  using owner_survives_its_service [of "[(7, \<lparr>ui_m_nPlayerID = 7, ui_m_nGasID = 30, m_tickerTimeout = False\<rparr>)]" 7 30
      "[Uc_login \<lparr>nFromServiceID = 9, nSessionID = 3\<rparr> 7 31, Uc_timeout 7]" "\<lparr>nFromServiceID = 9, nSessionID = 4\<rparr>" 31]
  by (simp add: owner_of_def uc_ok_def om_ok_def)

text \<open>
  A leave that the old service of a player sends late takes the player from its new service, which the
  next heartbeat then kicks.
\<close>

theorem late_leave_frees_new_owner:
  assumes "uc_ok uc" "owner_of uc pid = Some (gas, t)"
  shows "owner_of (fst (uc_step (Uc_leave old pid) uc)) pid = Some (0, t)"
  using owner_step_refines [OF assms(1), of "Uc_leave old pid" pid] assms(2) by simp

end
