(* ===== verification/Gate_Service.thy ===== *)
theory Gate_Service imports Text_Parsers Service_Messages begin

text \<open>
  The gate (\<open>service/gate\<close>), which stands between the clients and the game services: the sessions
  (\<open>gate_client_session.cpp\<close>, \<open>gate_client_session_mgr.cpp\<close>), the handshake of a client
  (\<open>gate_client_message_handler.cpp\<close>), the messages of the other services
  (\<open>gate_service_message_handler.cpp\<close>), the connections of the clients
  (\<open>gate_connection_from_client.cpp\<close>) and the forwarding between clients and game services
  (\<open>gate_client_message_dispatcher.cpp\<close>, \<open>gate_service.cpp\<close>).

  \<open>enterGas\<close> waits in its coroutine for the answer of the game service; it is cut there, and \<open>entering\<close>
  are the players whose coroutine waits.  The request belongs to the session: when the session is
  deleted, the answer is dropped and the coroutine is never resumed.  \<open>connections\<close> are the sockets that
  \<open>getBaseConnectionBySocketID\<close> finds; a shutdown is a request to the network, the socket stays until
  the disconnect is reported.
\<close>

section \<open>Sessions\<close>

definition eCSS_None :: u32 where "eCSS_None = 0"
definition eCSS_ClientEnter :: u32 where "eCSS_ClientEnter = push_bit 1 1"
definition eCSS_TokenEnter :: u32 where "eCSS_TokenEnter = push_bit 2 1"
definition eCSS_Normal :: u32 where "eCSS_Normal = 1000"

lemmas eCSS_defs = eCSS_None_def eCSS_ClientEnter_def eCSS_TokenEnter_def eCSS_Normal_def

record CGateClientSession =
  gs_nSessionID :: u64
  gs_nSocketID :: u64
  gs_szToken :: string
  gs_nGasID :: u32
  gs_nPlayerID :: u64
  gs_nState :: u32
  gs_bKick :: bool
  gs_tickerTokenTimeout :: bool

record CGateService =
  m_nNextSessionID :: u32
  m_mapClientSessionByPlayerID :: "(u64, CGateClientSession) omap"
  m_mapPlayerIDBySocketID :: "(u64, u64) omap"
  connections :: "u64 list"
  entering :: "u64 list"

definition new_gate :: CGateService where
  "new_gate = \<lparr>m_nNextSessionID = 1, m_mapClientSessionByPlayerID = [], m_mapPlayerIDBySocketID = [], connections = [], entering = []\<rparr>"

text \<open>What the gate does to its clients and, for them, to the game services.\<close>

datatype 'd gate_local = Handshake_response u64 u64 nat | Shutdown u64 bool | Forward u64 u32 'd | To_socket u64 'd

type_synonym 'd gate_out = "'d gate_local service_out"

definition getSessionByPlayerID :: "CGateService \<Rightarrow> u64 \<Rightarrow> CGateClientSession option" where
  "getSessionByPlayerID g nPlayerID = om_get (m_mapClientSessionByPlayerID g) nPlayerID"

definition getSessionBySocketID :: "CGateService \<Rightarrow> u64 \<Rightarrow> CGateClientSession option" where
  "getSessionBySocketID g nSocketID = Option.bind (om_get (m_mapPlayerIDBySocketID g) nSocketID) (getSessionByPlayerID g)"

definition put_session :: "CGateClientSession \<Rightarrow> CGateService \<Rightarrow> CGateService" where
  "put_session cs g = g\<lparr>m_mapClientSessionByPlayerID := om_put (gs_nPlayerID cs) cs (m_mapClientSessionByPlayerID g)\<rparr>"

text \<open>\<open>createSession\<close>; \<open>random\<close> is the random number below 1000000000.\<close>

definition createSession :: "u64 \<Rightarrow> string \<Rightarrow> u64 \<Rightarrow> CGateService \<Rightarrow> (CGateClientSession \<times> CGateService) option" where
  "createSession nPlayerID szToken random g = (if getSessionByPlayerID g nPlayerID \<noteq> None then None
     else let nSessionID = push_bit 32 random OR ucast (m_nNextSessionID g);
              cs = \<lparr>gs_nSessionID = nSessionID, gs_nSocketID = 0, gs_szToken = szToken, gs_nGasID = 0, gs_nPlayerID = nPlayerID,
                gs_nState = eCSS_None, gs_bKick = False, gs_tickerTokenTimeout = True\<rparr>
          in Some (cs, put_session cs (g\<lparr>m_nNextSessionID := m_nNextSessionID g + 1\<rparr>)))"

definition destroySession :: "u64 \<Rightarrow> CGateService \<Rightarrow> CGateService \<times> 'd gate_out list" where
  "destroySession nPlayerID g = (case getSessionByPlayerID g nPlayerID of None \<Rightarrow> (g, [])
     | Some cs \<Rightarrow>
        (g\<lparr>m_mapClientSessionByPlayerID := om_del nPlayerID (m_mapClientSessionByPlayerID g),
           m_mapPlayerIDBySocketID := om_del (gs_nSocketID cs) (m_mapPlayerIDBySocketID g),
           entering := filter (\<lambda>p. p \<noteq> nPlayerID) (entering g)\<rparr>,
         (if gs_nSocketID cs \<noteq> 0 \<and> gs_nSocketID cs \<in> set (connections g) then [Local (Shutdown (gs_nSocketID cs) True)] else []) @
         (if gs_bKick cs then [] else [Send (gs_nGasID cs) (G2s_player_leave_notify nPlayerID)])))"

definition bindSocketID :: "u64 \<Rightarrow> u64 \<Rightarrow> CGateService \<Rightarrow> CGateService" where
  "bindSocketID nPlayerID nSocketID g = (case getSessionByPlayerID g nPlayerID of None \<Rightarrow> g
     | Some cs \<Rightarrow> put_session (cs\<lparr>gs_nSocketID := nSocketID\<rparr>)
         (g\<lparr>m_mapPlayerIDBySocketID := om_put nSocketID nPlayerID (m_mapPlayerIDBySocketID g)\<rparr>))"

definition unbindSocketID :: "u64 \<Rightarrow> CGateService \<Rightarrow> CGateService" where
  "unbindSocketID nPlayerID g = (case getSessionByPlayerID g nPlayerID of None \<Rightarrow> g
     | Some cs \<Rightarrow> put_session (cs\<lparr>gs_nSocketID := 0\<rparr>)
         (g\<lparr>m_mapPlayerIDBySocketID := om_del (gs_nSocketID cs) (m_mapPlayerIDBySocketID g)\<rparr>))"

definition set_session :: "u64 \<Rightarrow> (CGateClientSession \<Rightarrow> CGateClientSession) \<Rightarrow> CGateService \<Rightarrow> CGateService" where
  "set_session nPlayerID f g = (case getSessionByPlayerID g nPlayerID of None \<Rightarrow> g | Some cs \<Rightarrow> put_session (f cs) g)"

definition getSessionCount :: "CGateService \<Rightarrow> u32" where
  "getSessionCount g = of_nat (length (m_mapClientSessionByPlayerID g))"

section \<open>Entering the game service\<close>

text \<open>\<open>enterGas\<close> up to its call.\<close>

definition enterGas :: "u64 \<Rightarrow> CGateService \<Rightarrow> CGateService \<times> 'd gate_out list" where
  "enterGas nPlayerID g = (case getSessionByPlayerID g nPlayerID of None \<Rightarrow> (g, [])
     | Some cs \<Rightarrow> if gs_nState cs \<noteq> eCSS_ClientEnter OR eCSS_TokenEnter then (g, [])
         else ((put_session (cs\<lparr>gs_tickerTokenTimeout := False\<rparr>) g)\<lparr>entering := entering g @ [nPlayerID]\<rparr>,
               [Invoke (gs_nGasID cs) (G2s_player_enter_request nPlayerID)]))"

datatype enter_answer = Enter_error | Enter_empty | Enter_result nat

text \<open>\<open>enterGas\<close> from the answer on; the session exists, as its request is answered.\<close>

definition enterGas_resumed :: "u64 \<Rightarrow> enter_answer \<Rightarrow> CGateService \<Rightarrow> CGateService \<times> 'd gate_out list" where
  "enterGas_resumed nPlayerID answer g = (case getSessionByPlayerID g nPlayerID of None \<Rightarrow> (g, [])
     | Some cs \<Rightarrow> let nSocketID = gs_nSocketID cs in
         if nSocketID \<notin> set (connections g) then (g, [])
         else (case answer of
            Enter_result nResult \<Rightarrow>
              if nResult \<noteq> eEC_Sucess
              then (g, [Local (Handshake_response nSocketID nPlayerID nResult), Local (Shutdown nSocketID False)])
              else (set_session nPlayerID (gs_nState_update (\<lambda>_. eCSS_Normal)) g, [Local (Handshake_response nSocketID nPlayerID nResult)])
          | _ \<Rightarrow> (let (g', out) = destroySession nPlayerID g in
              (g', Local (Handshake_response nSocketID nPlayerID eEC_Login_InvokeGasError) # out))))"

definition enter_answered :: "nat \<Rightarrow> enter_answer \<Rightarrow> CGateService \<Rightarrow> CGateService \<times> 'd gate_out list" where
  "enter_answered i answer g = (if i \<ge> length (entering g) then (g, [])
     else enterGas_resumed (entering g ! i) answer (g\<lparr>entering := take i (entering g) @ drop (i + 1) (entering g)\<rparr>))"

section \<open>The handshake of a client\<close>

text \<open>The player and the token in a key.\<close>

definition parse_key :: "string \<Rightarrow> (u64 \<times> string) option" where
  "parse_key szKey = (case token_parse szKey ''|'' of None \<Rightarrow> None
     | Some els \<Rightarrow> if length els \<noteq> 2 then None
         else (case (getUint64Element els 0, getStringElement els 1 256) of
            (Some nPlayerID, Some szToken) \<Rightarrow> Some (of_int nPlayerID, szToken)
          | _ \<Rightarrow> None))"

definition handshake :: "u64 \<Rightarrow> string \<Rightarrow> u64 \<Rightarrow> CGateService \<Rightarrow> CGateService \<times> 'd gate_out list" where
  "handshake nSocketID szKey random g = (case parse_key szKey of None \<Rightarrow> (g, [Local (Shutdown nSocketID True)])
     | Some (nPlayerID, szToken) \<Rightarrow>
       (case getSessionByPlayerID g nPlayerID of
          Some cs \<Rightarrow>
            if gs_nState cs AND eCSS_TokenEnter \<noteq> 0 then
              (if gs_szToken cs \<noteq> szToken then (g, [Local (Shutdown nSocketID True)])
               else enterGas nPlayerID (set_session nPlayerID (gs_nState_update (\<lambda>_. eCSS_ClientEnter OR eCSS_TokenEnter))
                      (bindSocketID nPlayerID nSocketID g)))
            else if gs_nState cs \<noteq> eCSS_Normal then (g, [Local (Shutdown nSocketID True)])
            else (bindSocketID nPlayerID nSocketID
                    (set_session nPlayerID (\<lambda>cs. cs\<lparr>gs_nState := eCSS_ClientEnter, gs_szToken := szToken\<rparr>) (unbindSocketID nPlayerID g)),
                  if gs_nSocketID cs \<in> set (connections g) then [Local (Shutdown (gs_nSocketID cs) True)] else [])
        | None \<Rightarrow> (case createSession nPlayerID szToken random g of None \<Rightarrow> (g, [Local (Shutdown nSocketID True)])
            | Some (cs, g') \<Rightarrow> (set_session nPlayerID (gs_nState_update (\<lambda>_. eCSS_ClientEnter)) (bindSocketID nPlayerID nSocketID g'), []))))"

section \<open>The messages of the other services\<close>

text \<open>The common end of two branches: the client of the session is shut down, or the session destroyed when it has none.\<close>

definition shut_or_destroy :: "CGateClientSession \<Rightarrow> CGateService \<Rightarrow> CGateService \<times> 'd gate_out list" where
  "shut_or_destroy cs g = (if gs_nSocketID cs \<in> set (connections g) then (g, [Local (Shutdown (gs_nSocketID cs) True)])
     else destroySession (gs_nPlayerID cs) g)"

definition d2g_player_token_notify_handler ::
    "u64 \<Rightarrow> u32 \<Rightarrow> string \<Rightarrow> u64 \<Rightarrow> CGateService \<Rightarrow> CGateService \<times> 'd gate_out list" where
  "d2g_player_token_notify_handler nPlayerID nGasID szToken random g =
    (case getSessionByPlayerID g nPlayerID of
       Some cs \<Rightarrow>
         if gs_nState cs AND eCSS_ClientEnter \<noteq> 0 then
           (if gs_szToken cs \<noteq> szToken then shut_or_destroy cs g
            else enterGas nPlayerID (set_session nPlayerID
                   (\<lambda>cs. cs\<lparr>gs_nGasID := nGasID, gs_nState := eCSS_TokenEnter OR eCSS_ClientEnter\<rparr>) g))
         else if gs_nState cs \<noteq> eCSS_Normal then shut_or_destroy cs g
         else (set_session nPlayerID (\<lambda>cs. cs\<lparr>gs_szToken := szToken, gs_nState := eCSS_TokenEnter\<rparr>) (unbindSocketID nPlayerID g),
               if gs_nSocketID cs \<in> set (connections g) then [Local (Shutdown (gs_nSocketID cs) True)] else [])
     | None \<Rightarrow> (case createSession nPlayerID szToken random g of None \<Rightarrow> (g, [])
         | Some (cs, g') \<Rightarrow> (set_session nPlayerID (\<lambda>cs. cs\<lparr>gs_nGasID := nGasID, gs_nState := eCSS_TokenEnter\<rparr>) g', [])))"

definition s2g_kick_player_notify_handler :: "u64 \<Rightarrow> CGateService \<Rightarrow> CGateService \<times> 'd gate_out list" where
  "s2g_kick_player_notify_handler nPlayerID g = (case getSessionByPlayerID g nPlayerID of None \<Rightarrow> (g, [])
     | Some cs \<Rightarrow> destroySession nPlayerID (set_session nPlayerID (gs_bKick_update (\<lambda>_. True)) g))"

section \<open>Timers, connections and forwarding\<close>

definition onTokenTimeout :: "u64 \<Rightarrow> CGateService \<Rightarrow> CGateService \<times> 'd gate_out list" where
  "onTokenTimeout nPlayerID g = (case getSessionByPlayerID g nPlayerID of None \<Rightarrow> (g, [])
     | Some cs \<Rightarrow> if gs_tickerTokenTimeout cs then destroySession nPlayerID g else (g, []))"

definition gate_onHeartbeat :: "u64 \<Rightarrow> CGateService \<Rightarrow> CGateService \<times> 'd gate_out list" where
  "gate_onHeartbeat nPlayerID g = (case getSessionByPlayerID g nPlayerID of None \<Rightarrow> (g, [])
     | Some cs \<Rightarrow> (g, [Send (gs_nGasID cs) (G2s_player_heartbeat_notify nPlayerID)]))"

fun destroy_sessions :: "u64 list \<Rightarrow> CGateService \<Rightarrow> CGateService \<times> 'd gate_out list" where
  "destroy_sessions [] g = (g, [])"
| "destroy_sessions (p # ps) g = (let (g', out) = destroySession p g; (g'', out') = destroy_sessions ps g' in (g'', out @ out'))"

definition onGasDisconnect :: "u32 \<Rightarrow> CGateService \<Rightarrow> CGateService \<times> 'd gate_out list" where
  "onGasDisconnect nGasID g =
     destroy_sessions (map (gs_nPlayerID \<circ> snd) (filter (\<lambda>(k, cs). gs_nGasID cs = nGasID) (m_mapClientSessionByPlayerID g))) g"

definition client_onConnect :: "u64 \<Rightarrow> CGateService \<Rightarrow> CGateService \<times> 'd gate_out list" where
  "client_onConnect nSocketID g = (g\<lparr>connections := List.insert nSocketID (connections g)\<rparr>, [])"

definition client_onDisconnect :: "u64 \<Rightarrow> CGateService \<Rightarrow> CGateService \<times> 'd gate_out list" where
  "client_onDisconnect nSocketID g = (let g1 = g\<lparr>connections := filter (\<lambda>s. s \<noteq> nSocketID) (connections g)\<rparr> in
     case getSessionBySocketID g1 nSocketID of None \<Rightarrow> (g1, [])
     | Some cs \<Rightarrow> if gs_nSocketID cs = nSocketID
         then destroySession (gs_nPlayerID cs) (unbindSocketID (gs_nPlayerID cs) g1) else (g1, []))"

text \<open>\<open>dispatch\<close>: a message with a handler (only the handshake has one) or one to forward; \<open>None\<close> is a handshake that cannot be read.\<close>

datatype 'd from_client = Handshake_request "string option" | Other_message 'd

definition gate_dispatch :: "u64 \<Rightarrow> 'd from_client \<Rightarrow> u64 \<Rightarrow> CGateService \<Rightarrow> CGateService \<times> 'd gate_out list" where
  "gate_dispatch nSocketID msg random g = (case msg of
     Handshake_request None \<Rightarrow> (g, [])
   | Handshake_request (Some szKey) \<Rightarrow> handshake nSocketID szKey random g
   | Other_message d \<Rightarrow> (case getSessionBySocketID g nSocketID of None \<Rightarrow> (g, [Local (Shutdown nSocketID True)])
       | Some cs \<Rightarrow> if gs_nState cs \<noteq> eCSS_Normal then (g, [Local (Shutdown nSocketID True)])
           else (g, [Local (Forward (gs_nPlayerID cs) (gs_nGasID cs) d)])))"

definition client_socket :: "CGateService \<Rightarrow> u64 \<Rightarrow> u64 option" where
  "client_socket g nSession = (case getSessionByPlayerID g nSession of None \<Rightarrow> None
     | Some cs \<Rightarrow> if gs_nState cs \<noteq> eCSS_Normal \<or> gs_nSocketID cs \<notin> set (connections g) then None else Some (gs_nSocketID cs))"

definition onToGateMessage :: "u64 \<Rightarrow> 'd \<Rightarrow> CGateService \<Rightarrow> CGateService \<times> 'd gate_out list" where
  "onToGateMessage nSession d g = (g, case client_socket g nSession of None \<Rightarrow> [] | Some s \<Rightarrow> [Local (To_socket s d)])"

text \<open>The loop returns at the first player without a client.\<close>

fun broadcast_loop :: "u64 list \<Rightarrow> 'd \<Rightarrow> CGateService \<Rightarrow> 'd gate_out list" where
  "broadcast_loop [] d g = []"
| "broadcast_loop (p # ps) d g = (case client_socket g p of None \<Rightarrow> [] | Some s \<Rightarrow> Local (To_socket s d) # broadcast_loop ps d g)"

definition onToGateBroadcastMessage :: "u64 list \<Rightarrow> 'd \<Rightarrow> CGateService \<Rightarrow> CGateService \<times> 'd gate_out list" where
  "onToGateBroadcastMessage sessions d g = (g, broadcast_loop sessions d g)"

definition gate_onServiceConnect :: "string \<Rightarrow> string \<Rightarrow> u32 \<Rightarrow> CGateService \<Rightarrow> CGateService \<times> 'd gate_out list" where
  "gate_onServiceConnect szAddr szType nServiceID g = (g, if szType = ''dispatch'' then
     [Send nServiceID (G2d_addr_notify szAddr), Send nServiceID (G2d_online_count_notify (getSessionCount g))] else [])"

definition gate_onServiceDisconnect :: "string \<Rightarrow> u32 \<Rightarrow> CGateService \<Rightarrow> CGateService \<times> 'd gate_out list" where
  "gate_onServiceDisconnect szType nServiceID g = (if szType = ''gas'' then onGasDisconnect nServiceID g else (g, []))"

definition gate_onNotifyOnlineCount :: "CGateService \<Rightarrow> CGateService \<times> 'd gate_out list" where
  "gate_onNotifyOnlineCount g = (g, [Broadcast ''dispatch'' (G2d_online_count_notify (getSessionCount g))])"

section \<open>The service\<close>

datatype 'd gate_event =
    Client_connect u64
  | Client_disconnect u64
  | Client_message u64 "'d from_client" u64
  | Token_notify u64 u32 string u64
  | Kick_notify u64
  | Enter_answered nat enter_answer
  | Token_timeout u64
  | Heartbeat_tick u64
  | Service_connect string u32
  | Service_disconnect string u32
  | Count_tick
  | To_client u64 'd
  | To_clients "u64 list" 'd

text \<open>\<open>szAddr\<close>: \<open>m_szAddr\<close>, the address of the gate for its clients.\<close>

fun gate_step :: "string \<Rightarrow> 'd gate_event \<Rightarrow> CGateService \<Rightarrow> CGateService \<times> 'd gate_out list" where
  "gate_step szAddr (Client_connect s) g = client_onConnect s g"
| "gate_step szAddr (Client_disconnect s) g = client_onDisconnect s g"
| "gate_step szAddr (Client_message s msg random) g = gate_dispatch s msg random g"
| "gate_step szAddr (Token_notify p gas token random) g = d2g_player_token_notify_handler p gas token random g"
| "gate_step szAddr (Kick_notify p) g = s2g_kick_player_notify_handler p g"
| "gate_step szAddr (Enter_answered i answer) g = enter_answered i answer g"
| "gate_step szAddr (Token_timeout p) g = onTokenTimeout p g"
| "gate_step szAddr (Heartbeat_tick p) g = gate_onHeartbeat p g"
| "gate_step szAddr (Service_connect szType s) g = gate_onServiceConnect szAddr szType s g"
| "gate_step szAddr (Service_disconnect szType s) g = gate_onServiceDisconnect szType s g"
| "gate_step szAddr Count_tick g = gate_onNotifyOnlineCount g"
| "gate_step szAddr (To_client p d) g = onToGateMessage p d g"
| "gate_step szAddr (To_clients ps d) g = onToGateBroadcastMessage ps d g"

end
