(* ===== verification/Player_Modules.thy ===== *)
theory Player_Modules imports Ordered_Map String_Util begin

text \<open>
  The modules of a player of the game service (\<open>service/game_service\<close>): attributes
  (\<open>player_attribute_module.cpp\<close>), items (\<open>player_item_module.cpp\<close>) and heroes
  (\<open>player_hero_module.cpp\<close>), with the requests of the clients that use them
  (\<open>player_hero_message_handler.cpp\<close>, \<open>player_message_handler.cpp\<close>, \<open>gm_command_mgr.cpp\<close>).

  An operation takes a player and returns it changed, with what it sends.  An \<open>int64_t\<close> is a word
  that is read with \<open>sint\<close>; a signed overflow, undefined in C++, wraps.  No handler is ever registered
  with the event dispatcher of a player, so raising an event is the output \<open>Raise\<close> and no more.
\<close>

section \<open>Messages and records\<close>

datatype s2c_message =
    S2c_player_attribute_notify string u32 u32 u64 u64 u64 u64
  | S2c_update_player_attribute_notify u32 u64
  | S2c_player_item_notify "(u32 \<times> u32) list"
  | S2c_add_player_item_notify u32 u32 u32
  | S2c_del_player_item_notify u32 u32 u32
  | S2c_player_hero_notify "u32 list" "u32 list"
  | S2c_active_player_hero_notify u32
  | S2c_active_player_hero_patch_notify u32
  | S2c_player_login_complete_notify
  | C2s_active_hero_response u32 nat
  | C2s_active_hero_patch_response u32 nat
  | C2s_update_name_response string
  | C2s_gm_command_response string nat

datatype player_event = CPlayerLvupEvent | CPlayerAddItemEvent u32 u32 | CPlayerDelItemEvent u32 u32
  | CPlayerActiveHeroEvent u32 | CPlayerActiveHeroPatchEvent u32

text \<open>The records of the database; an optional field that is not set is \<open>None\<close>.\<close>

record player_base =
  pb_player_id :: u64
  pb_account_name :: "string option"
  pb_server_id :: "u32 option"
  pb_last_login_time :: u64
  pb_last_logout_time :: u64
  pb_name :: string
  pb_face :: u32
  pb_lv :: u32
  pb_exp :: u64
  pb_gold :: u64
  pb_money :: u64
  pb_vitality :: u64

record player_item =
  pi_player_id :: u64
  pi_data :: "(u32 \<times> u32) list option"

record player_hero =
  ph_player_id :: u64
  ph_hero_data :: "u32 list option"
  ph_patch_data :: "u32 list option"

datatype db_record = Db_player_base player_base | Db_player_item player_item | Db_player_hero player_hero

datatype player_out = Client u32 u64 s2c_message | Raise player_event | Update u32 db_record

datatype EPlayerStatusType = ePST_None | ePST_Init | ePST_LoadData | ePST_Login | ePST_Normal | ePST_Logout | ePST_Destroy

datatype EPlayerModuleType = ePMT_Attribute | ePMT_Item | ePMT_Hero

record CPlayerAttributeModule =
  m_nLastLoginTime :: u64
  m_nLastLogoutTime :: u64
  m_szAccountName :: string
  m_nServerID :: u32
  m_szName :: string
  m_nFace :: u32
  m_nLv :: u32
  m_nExp :: u64
  m_nGold :: u64
  m_nMoney :: u64
  m_nVitality :: u64

definition new_attributes :: CPlayerAttributeModule where
  "new_attributes = \<lparr>m_nLastLoginTime = 0, m_nLastLogoutTime = 0, m_szAccountName = [], m_nServerID = 0,
     m_szName = [], m_nFace = 0, m_nLv = 0, m_nExp = 0, m_nGold = 0, m_nMoney = 0, m_nVitality = 0\<rparr>"

text \<open>
  A player with its three modules.  \<open>loading\<close>: the selects of this player that are not answered; they
  go away with the player.  A set of ids is a map to \<open>()\<close>, in the order of the ids.
\<close>

record CPlayer =
  m_nPlayerID :: u64
  m_eStatus :: EPlayerStatusType
  m_nGateServiceID :: u32
  m_tickHeartbeat :: bool
  m_tickerBackup :: bool
  m_setModuleLoadDataError :: "EPlayerModuleType list"
  loading :: "EPlayerModuleType list"
  attribute_module :: CPlayerAttributeModule
  m_mapItem :: "(u32, u32) omap"
  m_setActiveHeroID :: "(u32, unit) omap"
  m_setActivePatchID :: "(u32, unit) omap"

definition new_player :: "u64 \<Rightarrow> u32 \<Rightarrow> CPlayer" where
  "new_player nPlayerID nGateServiceID = \<lparr>m_nPlayerID = nPlayerID, m_eStatus = ePST_None, m_nGateServiceID = nGateServiceID,
     m_tickHeartbeat = False, m_tickerBackup = False, m_setModuleLoadDataError = [], loading = [],
     attribute_module = new_attributes, m_mapItem = [], m_setActiveHeroID = [], m_setActivePatchID = []\<rparr>"

text \<open>The services of a player follow from the upper ten bits of its id.\<close>

definition UC_SERVICE_DELTA :: u32 where "UC_SERVICE_DELTA = 80000"
definition GAME_DB_SERVICE_DELTA :: u32 where "GAME_DB_SERVICE_DELTA = 70000"

definition getDbID :: "u64 \<Rightarrow> u32" where "getDbID nPlayerID = ucast (drop_bit 54 nPlayerID)"
definition getUCServiceID :: "u64 \<Rightarrow> u32" where "getUCServiceID nPlayerID = getDbID nPlayerID + UC_SERVICE_DELTA"
definition getDbServiceID :: "u64 \<Rightarrow> u32" where "getDbServiceID nPlayerID = getDbID nPlayerID + GAME_DB_SERVICE_DELTA"

definition sendClientMessage :: "CPlayer \<Rightarrow> s2c_message \<Rightarrow> player_out list" where
  "sendClientMessage p msg = (if m_eStatus p \<in> {ePST_None, ePST_Init, ePST_LoadData} then []
     else [Client (m_nGateServiceID p) (m_nPlayerID p) msg])"

section \<open>Attributes\<close>

definition eAT_Lv :: u32 where "eAT_Lv = 1"
definition eAT_Gold :: u32 where "eAT_Gold = 2"
definition eAT_Money :: u32 where "eAT_Money = 3"
definition eAT_Vitality :: u32 where "eAT_Vitality = 4"
definition eAT_Exp :: u32 where "eAT_Exp = 5"
definition eAT_Face :: u32 where "eAT_Face = 6"
definition eAT_Count :: u32 where "eAT_Count = 7"

lemmas eAT_defs = eAT_Lv_def eAT_Gold_def eAT_Money_def eAT_Vitality_def eAT_Exp_def eAT_Face_def eAT_Count_def

definition syncAttribute :: "CPlayer \<Rightarrow> u32 \<Rightarrow> u64 \<Rightarrow> player_out list" where
  "syncAttribute p nType nData = sendClientMessage p (S2c_update_player_attribute_notify nType nData)"

text \<open>The sum of an amount and a difference; \<open>None\<close> when it is not positive, where the operation stops.\<close>

definition added :: "u64 \<Rightarrow> u64 \<Rightarrow> u64 option" where
  "added nOld nData = (if 0 < sint (nOld + nData) then Some (nOld + nData) else None)"

definition set_attr :: "(CPlayerAttributeModule \<Rightarrow> CPlayerAttributeModule) \<Rightarrow> CPlayer \<Rightarrow> CPlayer" where
  "set_attr f p = p\<lparr>attribute_module := f (attribute_module p)\<rparr>"

definition addLv :: "u64 \<Rightarrow> CPlayer \<Rightarrow> CPlayer \<times> player_out list" where
  "addLv nData p = (case added (ucast (m_nLv (attribute_module p))) nData of None \<Rightarrow> (p, [])
     | Some n \<Rightarrow> (set_attr (m_nLv_update (\<lambda>_. ucast n)) p,
         syncAttribute p eAT_Lv (ucast (ucast n :: u32)) @ [Raise CPlayerLvupEvent]))"

definition addExp :: "u64 \<Rightarrow> CPlayer \<Rightarrow> CPlayer \<times> player_out list" where
  "addExp nData p = (case added (m_nExp (attribute_module p)) nData of None \<Rightarrow> (p, [])
     | Some n \<Rightarrow> (set_attr (m_nExp_update (\<lambda>_. n)) p, syncAttribute p eAT_Exp n))"

definition addGold :: "u64 \<Rightarrow> CPlayer \<Rightarrow> CPlayer \<times> player_out list" where
  "addGold nData p = (case added (m_nGold (attribute_module p)) nData of None \<Rightarrow> (p, [])
     | Some n \<Rightarrow> (set_attr (m_nGold_update (\<lambda>_. n)) p, syncAttribute p eAT_Gold n))"

definition addMoney :: "u64 \<Rightarrow> CPlayer \<Rightarrow> CPlayer \<times> player_out list" where
  "addMoney nData p = (case added (m_nMoney (attribute_module p)) nData of None \<Rightarrow> (p, [])
     | Some n \<Rightarrow> (set_attr (m_nMoney_update (\<lambda>_. n)) p, syncAttribute p eAT_Money n))"

definition addVitality :: "u64 \<Rightarrow> CPlayer \<Rightarrow> CPlayer \<times> player_out list" where
  "addVitality nData p = (case added (m_nVitality (attribute_module p)) nData of None \<Rightarrow> (p, [])
     | Some n \<Rightarrow> (set_attr (m_nVitality_update (\<lambda>_. n)) p, syncAttribute p eAT_Vitality n))"

text \<open>The tables \<open>m_zGetFunc\<close> and \<open>m_zAddFunc\<close>; type 0 has no entry and the face cannot be added to.\<close>

definition getAttribute :: "CPlayer \<Rightarrow> u32 \<Rightarrow> u64" where
  "getAttribute p nType = (let a = attribute_module p in
     if nType = eAT_Lv then ucast (m_nLv a) else if nType = eAT_Gold then m_nGold a
     else if nType = eAT_Money then m_nMoney a else if nType = eAT_Vitality then m_nVitality a
     else if nType = eAT_Exp then m_nExp a else if nType = eAT_Face then ucast (m_nFace a) else 0)"

definition addAttribute :: "u32 \<Rightarrow> u64 \<Rightarrow> CPlayer \<Rightarrow> CPlayer \<times> player_out list" where
  "addAttribute nType nData p =
     (if nType = eAT_Lv then addLv nData p else if nType = eAT_Gold then addGold nData p
      else if nType = eAT_Money then addMoney nData p else if nType = eAT_Vitality then addVitality nData p
      else if nType = eAT_Exp then addExp nData p else (p, []))"

definition setAttribute :: "u32 \<Rightarrow> u64 \<Rightarrow> CPlayer \<Rightarrow> CPlayer \<times> player_out list" where
  "setAttribute nType nData p = (if nType \<ge> eAT_Count then (p, [])
     else let nOldData = getAttribute p nType; nModifyData = nOldData - nData in addAttribute nType nModifyData p)"

text \<open>The answer of the database; \<open>None\<close> is an error, \<open>Some None\<close> an empty result.\<close>

definition load_attributes :: "player_base option option \<Rightarrow> CPlayer \<Rightarrow> CPlayer" where
  "load_attributes answer p = (case answer of
     Some None \<Rightarrow> p
   | None \<Rightarrow> p\<lparr>m_setModuleLoadDataError := ePMT_Attribute # m_setModuleLoadDataError p\<rparr>
   | Some (Some b) \<Rightarrow> p\<lparr>attribute_module :=
       \<lparr>m_nLastLoginTime = pb_last_login_time b, m_nLastLogoutTime = pb_last_logout_time b,
        m_szAccountName = (case pb_account_name b of None \<Rightarrow> [] | Some s \<Rightarrow> s),
        m_nServerID = (case pb_server_id b of None \<Rightarrow> 0 | Some n \<Rightarrow> n),
        m_szName = (if pb_name b = [] then show_int (uint (m_nPlayerID p)) else pb_name b),
        m_nFace = pb_face b, m_nLv = pb_lv b, m_nExp = pb_exp b, m_nGold = pb_gold b, m_nMoney = pb_money b,
        m_nVitality = pb_vitality b\<rparr>\<rparr>)"

definition backup_attributes :: "CPlayer \<Rightarrow> player_base" where
  "backup_attributes p = (let a = attribute_module p in
     \<lparr>pb_player_id = m_nPlayerID p, pb_account_name = None, pb_server_id = None,
      pb_last_login_time = m_nLastLoginTime a, pb_last_logout_time = m_nLastLogoutTime a, pb_name = m_szName a,
      pb_face = m_nFace a, pb_lv = m_nLv a, pb_exp = m_nExp a, pb_gold = m_nGold a, pb_money = m_nMoney a,
      pb_vitality = m_nVitality a\<rparr>)"

definition login_attributes :: "u64 \<Rightarrow> CPlayer \<Rightarrow> CPlayer \<times> player_out list" where
  "login_attributes gmt p = (let p' = set_attr (m_nLastLoginTime_update (\<lambda>_. gmt)) p; a = attribute_module p' in
     (p', sendClientMessage p' (S2c_player_attribute_notify (m_szName a) (m_nFace a) (m_nLv a) (m_nExp a) (m_nGold a)
        (m_nMoney a) (m_nVitality a))))"

definition logout_attributes :: "u64 \<Rightarrow> CPlayer \<Rightarrow> CPlayer" where
  "logout_attributes gmt p = set_attr (m_nLastLogoutTime_update (\<lambda>_. gmt)) p"

section \<open>Items\<close>

definition getItemCount :: "CPlayer \<Rightarrow> u32 \<Rightarrow> u32" where
  "getItemCount p nID = (case om_get (m_mapItem p) nID of None \<Rightarrow> 0 | Some n \<Rightarrow> n)"

text \<open>\<open>known_item\<close>: the items of the static configuration.\<close>

definition addItem :: "(u32 \<Rightarrow> bool) \<Rightarrow> u32 \<Rightarrow> u32 \<Rightarrow> CPlayer \<Rightarrow> CPlayer \<times> player_out list" where
  "addItem known_item nID nCount p = (if \<not> known_item nID then (p, [])
     else let nTotalCount = getItemCount p nID + nCount; p' = p\<lparr>m_mapItem := om_put nID nTotalCount (m_mapItem p)\<rparr> in
       (p', sendClientMessage p' (S2c_add_player_item_notify nID nCount nTotalCount) @ [Raise (CPlayerAddItemEvent nID nCount)]))"

definition delItem :: "u32 \<Rightarrow> u32 \<Rightarrow> CPlayer \<Rightarrow> CPlayer \<times> player_out list" where
  "delItem nID nCount p = (case om_get (m_mapItem p) nID of None \<Rightarrow> (p, [])
     | Some nOld \<Rightarrow> let (p', nTotalCount) = (if nOld \<le> nCount then (p\<lparr>m_mapItem := om_del nID (m_mapItem p)\<rparr>, 0)
           else (p\<lparr>m_mapItem := om_put nID (nOld - nCount) (m_mapItem p)\<rparr>, nOld - nCount)) in
         (p', sendClientMessage p' (S2c_del_player_item_notify nID nCount nTotalCount) @ [Raise (CPlayerDelItemEvent nID nCount)]))"

definition load_items :: "player_item option option \<Rightarrow> CPlayer \<Rightarrow> CPlayer" where
  "load_items answer p = (case answer of
     Some None \<Rightarrow> p
   | None \<Rightarrow> p\<lparr>m_setModuleLoadDataError := ePMT_Item # m_setModuleLoadDataError p\<rparr>
   | Some (Some r) \<Rightarrow> p\<lparr>m_mapItem := fold (\<lambda>(k, v). om_put k v) (case pi_data r of None \<Rightarrow> [] | Some d \<Rightarrow> d) (m_mapItem p)\<rparr>)"

text \<open>\<open>mutable_data\<close> is called for each entry only, so an empty map leaves the field unset.\<close>

definition backup_items :: "CPlayer \<Rightarrow> player_item" where
  "backup_items p = \<lparr>pi_player_id = m_nPlayerID p, pi_data = (if m_mapItem p = [] then None else Some (m_mapItem p))\<rparr>"

definition login_items :: "CPlayer \<Rightarrow> player_out list" where
  "login_items p = sendClientMessage p (S2c_player_item_notify (m_mapItem p))"

section \<open>Heroes\<close>

definition isPatchActive :: "CPlayer \<Rightarrow> u32 \<Rightarrow> bool" where
  "isPatchActive p nID = (om_get (m_setActivePatchID p) nID \<noteq> None)"
definition isHeroActive :: "CPlayer \<Rightarrow> u32 \<Rightarrow> bool" where
  "isHeroActive p nID = (om_get (m_setActiveHeroID p) nID \<noteq> None)"

definition activePatch :: "u32 \<Rightarrow> CPlayer \<Rightarrow> CPlayer \<times> player_out list" where
  "activePatch nID p = (if isPatchActive p nID then (p, [])
     else let p' = p\<lparr>m_setActivePatchID := om_put nID () (m_setActivePatchID p)\<rparr> in
       (p', sendClientMessage p' (S2c_active_player_hero_patch_notify nID) @ [Raise (CPlayerActiveHeroPatchEvent nID)]))"

definition activeHero :: "u32 \<Rightarrow> CPlayer \<Rightarrow> CPlayer \<times> player_out list" where
  "activeHero nID p = (if isHeroActive p nID then (p, [])
     else let p' = p\<lparr>m_setActiveHeroID := om_put nID () (m_setActiveHeroID p)\<rparr> in
       (p', sendClientMessage p' (S2c_active_player_hero_notify nID) @ [Raise (CPlayerActiveHeroEvent nID)]))"

definition insert_all :: "u32 list option \<Rightarrow> (u32, unit) omap \<Rightarrow> (u32, unit) omap" where
  "insert_all d m = fold (\<lambda>k. om_put k ()) (case d of None \<Rightarrow> [] | Some ks \<Rightarrow> ks) m"

definition load_heroes :: "player_hero option option \<Rightarrow> CPlayer \<Rightarrow> CPlayer" where
  "load_heroes answer p = (case answer of
     Some None \<Rightarrow> p
   | None \<Rightarrow> p\<lparr>m_setModuleLoadDataError := ePMT_Hero # m_setModuleLoadDataError p\<rparr>
   | Some (Some r) \<Rightarrow> p\<lparr>m_setActiveHeroID := insert_all (ph_hero_data r) (m_setActiveHeroID p),
       m_setActivePatchID := insert_all (ph_patch_data r) (m_setActivePatchID p)\<rparr>)"

definition ids_field :: "(u32, unit) omap \<Rightarrow> u32 list option" where
  "ids_field m = (if m = [] then None else Some (map fst m))"

definition backup_heroes :: "CPlayer \<Rightarrow> player_hero" where
  "backup_heroes p = \<lparr>ph_player_id = m_nPlayerID p, ph_hero_data = ids_field (m_setActiveHeroID p),
     ph_patch_data = ids_field (m_setActivePatchID p)\<rparr>"

definition login_heroes :: "CPlayer \<Rightarrow> player_out list" where
  "login_heroes p = sendClientMessage p (S2c_player_hero_notify (map fst (m_setActiveHeroID p)) (map fst (m_setActivePatchID p)))"

end
