(* ===== verification/Dispatch_Service.thy ===== *)
theory Dispatch_Service imports Text_Parsers Service_Messages Player_Modules begin

text \<open>
  The dispatch service (\<open>service/dispatch_service\<close>): the load of the other services
  (\<open>online_count_mgr.cpp\<close>) and the validation of a login (\<open>dispatch_service_message_handler.cpp\<close>).

  The handler of a login waits for four answers in its coroutine: the account, the new player, the
  new account and the user center.  It is cut at these calls; \<open>logins\<close> are the coroutines that wait,
  each with the variables it still needs.
\<close>

section \<open>Online counts\<close>

record COnlineCountMgr =
  m_mapGasOnline :: "(u32, u32) omap"
  m_mapGateOnline :: "(u32, u32) omap"
  m_mapUCActive :: "(u32, u32) omap"
  m_mapGateAddr :: "(u32, string) omap"

definition new_counts :: COnlineCountMgr where
  "new_counts = \<lparr>m_mapGasOnline = [], m_mapGateOnline = [], m_mapUCActive = [], m_mapGateAddr = []\<rparr>"

fun least_loaded :: "(u32, u32) omap \<Rightarrow> u32 \<Rightarrow> u32 \<Rightarrow> u32" where
  "least_loaded [] nMinCount nSuitable = nSuitable"
| "least_loaded ((nID, nCount) # m) nMinCount nSuitable =
     (if nCount < nMinCount then least_loaded m nCount nID else least_loaded m nMinCount nSuitable)"

definition UINT32_MAX :: u32 where "UINT32_MAX = - 1"

definition getSuitableGasID :: "COnlineCountMgr \<Rightarrow> u32" where "getSuitableGasID c = least_loaded (m_mapGasOnline c) UINT32_MAX 0"
definition getSuitableGateID :: "COnlineCountMgr \<Rightarrow> u32" where "getSuitableGateID c = least_loaded (m_mapGateOnline c) UINT32_MAX 0"
definition getSuitableUCID :: "COnlineCountMgr \<Rightarrow> u32" where "getSuitableUCID c = least_loaded (m_mapUCActive c) UINT32_MAX 0"

definition setGasOnlineCount :: "u32 \<Rightarrow> u32 \<Rightarrow> COnlineCountMgr \<Rightarrow> COnlineCountMgr" where
  "setGasOnlineCount nID nCount c = c\<lparr>m_mapGasOnline := om_put nID nCount (m_mapGasOnline c)\<rparr>"
definition setGateOnlineCount :: "u32 \<Rightarrow> u32 \<Rightarrow> COnlineCountMgr \<Rightarrow> COnlineCountMgr" where
  "setGateOnlineCount nID nCount c = c\<lparr>m_mapGateOnline := om_put nID nCount (m_mapGateOnline c)\<rparr>"
definition setUCActiveCount :: "u32 \<Rightarrow> u32 \<Rightarrow> COnlineCountMgr \<Rightarrow> COnlineCountMgr" where
  "setUCActiveCount nID nCount c = c\<lparr>m_mapUCActive := om_put nID nCount (m_mapUCActive c)\<rparr>"
definition setGateAddr :: "u32 \<Rightarrow> string \<Rightarrow> COnlineCountMgr \<Rightarrow> COnlineCountMgr" where
  "setGateAddr nGateID szAddr c = c\<lparr>m_mapGateAddr := om_put nGateID szAddr (m_mapGateAddr c)\<rparr>"
definition getGateAddr :: "COnlineCountMgr \<Rightarrow> u32 \<Rightarrow> string" where
  "getGateAddr c nGateID = (case om_get (m_mapGateAddr c) nGateID of None \<Rightarrow> [] | Some a \<Rightarrow> a)"

section \<open>Validating a login\<close>

text \<open>\<open>function_util::hash\<close> of a C string; a \<open>char\<close> is signed.\<close>

fun hash_loop :: "string \<Rightarrow> u32 \<Rightarrow> u32" where
  "hash_loop [] nHash = nHash"
| "hash_loop (c # s) nHash = hash_loop s (nHash XOR (push_bit 5 nHash + of_int (char_int c) + drop_bit 2 nHash))"

definition hash_str :: "string \<Rightarrow> u32" where
  "hash_str szKey = hash_loop (takeWhile (\<lambda>c. c \<noteq> CHR 0x00) szKey) 1315423911 AND 0x7FFFFFFF"

definition ACCOUNT_TBL_PREFIX :: string where "ACCOUNT_TBL_PREFIX = ''account_base_''"

definition show_word :: "'a::len word \<Rightarrow> string" where "show_word w = show_int (uint w)"

datatype db_call = Db_call u32 u32 string "string list"

type_synonym dispatch_out = "db_call service_out"

text \<open>What a call of the database gives: an error, a message that is no \<open>result_set\<close>, or its rows.\<close>

datatype db_answer = Db_error | Db_other | Db_rows "string list list"

record login_call =
  lc_session :: SSessionInfo
  lc_account :: string
  lc_server :: u32
  lc_table :: u32

datatype login_stage =
    Stage_select login_call
  | Stage_create login_call u32
  | Stage_insert login_call u32 u64
  | Stage_uc login_call u64

record CDispatchService =
  m_nGlobalDbServiceID :: u32
  m_nAccountTblCount :: u32
  m_pOnlineCountMgr :: COnlineCountMgr
  logins :: "login_stage list"

definition login_failed :: "login_call \<Rightarrow> nat \<Rightarrow> dispatch_out list" where
  "login_failed lc nResult = [Respond (lc_session lc) (L2d_validate_login_response [] nResult [])]"

definition wait_for :: "login_stage \<Rightarrow> dispatch_out list \<Rightarrow> CDispatchService \<Rightarrow> CDispatchService \<times> dispatch_out list" where
  "wait_for st out d = (d\<lparr>logins := logins d @ [st]\<rparr>, out)"

definition l2d_validate_login_request_handler ::
    "SSessionInfo \<Rightarrow> string \<Rightarrow> u32 \<Rightarrow> CDispatchService \<Rightarrow> CDispatchService \<times> dispatch_out list" where
  "l2d_validate_login_request_handler s szAccountName nServerID d =
    (let nTblIndex = hash_str szAccountName mod m_nAccountTblCount d;
         szSelectSQL = format_str (''select player_id from '' @ hole @ hole @ '' where account_name = {?} and server_id = '' @ hole)
           [ACCOUNT_TBL_PREFIX, show_word nTblIndex, show_word nServerID]
     in wait_for (Stage_select \<lparr>lc_session = s, lc_account = szAccountName, lc_server = nServerID, lc_table = nTblIndex\<rparr>)
          [Local (Db_call (m_nGlobalDbServiceID d) nTblIndex szSelectSQL [szAccountName])] d)"

text \<open>The common end of the first part: the user center is asked for the game service.\<close>

definition ask_uc :: "login_call \<Rightarrow> u32 \<Rightarrow> u64 \<Rightarrow> CDispatchService \<Rightarrow> CDispatchService \<times> dispatch_out list" where
  "ask_uc lc nUCServiceID nPlayerID d =
    (let nGasID = getSuitableGasID (m_pOnlineCountMgr d) in
     wait_for (Stage_uc lc nPlayerID) [Invoke nUCServiceID (D2u_player_login_request nPlayerID nGasID)] d)"

text \<open>The id in the first column of a row; the values of a row are never empty lists in what the database sends.\<close>

definition row_id :: "string list \<Rightarrow> u64 option" where
  "row_id row = (case row of [] \<Rightarrow> None | v # vs \<Rightarrow> map_option of_int (read_unsigned 64 v))"

text \<open>
  After the account was looked up.  Where the code asserts, the coroutine ends without an answer.
\<close>

definition after_select :: "login_call \<Rightarrow> db_answer \<Rightarrow> CDispatchService \<Rightarrow> CDispatchService \<times> dispatch_out list" where
  "after_select lc answer d = (case answer of
     Db_rows rows \<Rightarrow>
       (case rows of
          [row] \<Rightarrow> (case row_id row of None \<Rightarrow> (d, [])
            | Some nPlayerID \<Rightarrow> let nUCServiceID = getUCServiceID nPlayerID in
                if nUCServiceID = 0 then (d, []) else ask_uc lc nUCServiceID nPlayerID d)
        | [] \<Rightarrow> (let nUCServiceID = getSuitableUCID (m_pOnlineCountMgr d) in
            if nUCServiceID = 0 then (d, login_failed lc eEC_Login_GetSuitableUCIDError)
            else let nDBID = nUCServiceID - UC_SERVICE_DELTA; nDbsID = nDBID + GAME_DB_SERVICE_DELTA in
              if nDBID = 0 \<or> nDbsID = 0 then (d, [])
              else wait_for (Stage_create lc nUCServiceID)
                [Local (Db_call nDbsID (lc_table lc)
                   (format_str (''call sp_create_player_base({?}, '' @ hole @ '', '' @ hole @ '')'') [show_word (lc_server lc), show_word nDBID])
                   [lc_account lc])] d)
        | _ \<Rightarrow> (d, []))
   | _ \<Rightarrow> (d, login_failed lc eEC_Login_QueryGlobalDbError))"

definition after_create :: "login_call \<Rightarrow> u32 \<Rightarrow> u64 \<Rightarrow> db_answer \<Rightarrow> CDispatchService \<Rightarrow> CDispatchService \<times> dispatch_out list" where
  "after_create lc nUCServiceID gmt answer d = (case answer of
     Db_rows rows \<Rightarrow>
       (case rows of
          [row] \<Rightarrow> (case row_id row of None \<Rightarrow> (d, [])
            | Some nPlayerID \<Rightarrow> wait_for (Stage_insert lc nUCServiceID nPlayerID)
                [Local (Db_call (m_nGlobalDbServiceID d) (lc_table lc)
                   (format_str (''insert into '' @ hole @ hole @ ''(account_name, server_id, player_id, create_time) values({?}, '' @ hole @ '', '' @ hole @ '', '' @ hole @ '')'')
                      [ACCOUNT_TBL_PREFIX, show_word (lc_table lc), show_word (lc_server lc), show_word nPlayerID, show_word gmt])
                   [lc_account lc])] d)
        | _ \<Rightarrow> (d, []))
   | _ \<Rightarrow> (d, login_failed lc eEC_Login_InsertGameDbError))"

definition after_insert :: "login_call \<Rightarrow> u32 \<Rightarrow> u64 \<Rightarrow> db_answer \<Rightarrow> CDispatchService \<Rightarrow> CDispatchService \<times> dispatch_out list" where
  "after_insert lc nUCServiceID nPlayerID answer d =
     (if answer = Db_error then (d, login_failed lc eEC_Login_InsertGbloalDbError) else ask_uc lc nUCServiceID nPlayerID d)"

text \<open>After the user center: \<open>None\<close> is an error or no answer.  \<open>token\<close> is the random number below a million.\<close>

definition login_key :: "u64 \<Rightarrow> string \<Rightarrow> string" where
  "login_key nPlayerID szToken = format_str (hole @ ''|'' @ hole) [show_word nPlayerID, szToken]"

definition after_uc :: "login_call \<Rightarrow> u64 \<Rightarrow> nat \<Rightarrow> u32 option \<Rightarrow> CDispatchService \<Rightarrow> CDispatchService \<times> dispatch_out list" where
  "after_uc lc nPlayerID token answer d = (case answer of
     None \<Rightarrow> (d, login_failed lc eEC_Login_InvokeUCError)
   | Some nGasID \<Rightarrow> if nGasID = 0 then (d, login_failed lc eEC_Login_InvokeUCError)
       else let nGateID = getSuitableGateID (m_pOnlineCountMgr d); szToken = show_int (int token) in
         (d, [Send nGateID (D2g_player_token_notify nPlayerID nGasID szToken),
              Respond (lc_session lc) (L2d_validate_login_response (login_key nPlayerID szToken) eEC_Sucess
                (getGateAddr (m_pOnlineCountMgr d) nGateID))]))"

section \<open>The service\<close>

datatype dispatch_event =
    Login_request SSessionInfo string u32
  | Db_result nat u64 db_answer
  | Uc_result nat nat "u32 option"
  | Gas_count u32 u32
  | Gate_count u32 u32
  | Uc_active u32 u32
  | Gate_addr u32 string

text \<open>An answer resumes the coroutine at its place of \<open>logins\<close>; one of the wrong kind does not exist.\<close>

definition take_login :: "nat \<Rightarrow> CDispatchService \<Rightarrow> (login_stage \<times> CDispatchService) option" where
  "take_login i d = (if i < length (logins d) then Some (logins d ! i, d\<lparr>logins := take i (logins d) @ drop (i + 1) (logins d)\<rparr>) else None)"

fun dispatch_step :: "dispatch_event \<Rightarrow> CDispatchService \<Rightarrow> CDispatchService \<times> dispatch_out list" where
  "dispatch_step (Login_request s account server) d = l2d_validate_login_request_handler s account server d"
| "dispatch_step (Db_result i gmt answer) d = (case take_login i d of
     Some (Stage_select lc, d') \<Rightarrow> after_select lc answer d'
   | Some (Stage_create lc uc, d') \<Rightarrow> after_create lc uc gmt answer d'
   | Some (Stage_insert lc uc pid, d') \<Rightarrow> after_insert lc uc pid answer d'
   | _ \<Rightarrow> (d, []))"
| "dispatch_step (Uc_result i token answer) d = (case take_login i d of
     Some (Stage_uc lc pid, d') \<Rightarrow> after_uc lc pid token answer d'
   | _ \<Rightarrow> (d, []))"
| "dispatch_step (Gas_count nFrom nCount) d = (d\<lparr>m_pOnlineCountMgr := setGasOnlineCount nFrom nCount (m_pOnlineCountMgr d)\<rparr>, [])"
| "dispatch_step (Gate_count nFrom nCount) d = (d\<lparr>m_pOnlineCountMgr := setGateOnlineCount nFrom nCount (m_pOnlineCountMgr d)\<rparr>, [])"
| "dispatch_step (Uc_active nFrom nCount) d = (d\<lparr>m_pOnlineCountMgr := setUCActiveCount nFrom nCount (m_pOnlineCountMgr d)\<rparr>, [])"
| "dispatch_step (Gate_addr nFrom szAddr) d = (d\<lparr>m_pOnlineCountMgr := setGateAddr nFrom szAddr (m_pOnlineCountMgr d)\<rparr>, [])"

end
