(* ===== verification/Gate_Props.thy ===== *)
theory Gate_Props imports Gate_Service Dispatch_Service begin

text \<open>
  What the gate guarantees: a client enters the game only with the token that the dispatch service
  issued for its player, the key of a login leads to that session, and the sessions stay well formed;
  and the ways in which a session can be taken over or left behind.
\<close>

section \<open>Well-formed sessions\<close>

definition session_state :: "u32 \<Rightarrow> bool" where
  "session_state s \<longleftrightarrow> s = eCSS_ClientEnter \<or> s = eCSS_TokenEnter \<or> s = eCSS_ClientEnter OR eCSS_TokenEnter \<or> s = eCSS_Normal"

lemma session_states: "session_state s \<longleftrightarrow> s = 2 \<or> s = 4 \<or> s = 6 \<or> s = 1000"
  by (simp add: session_state_def eCSS_defs)

definition gate_ok :: "CGateService \<Rightarrow> bool" where
  "gate_ok g \<longleftrightarrow> om_ok (m_mapClientSessionByPlayerID g) \<and> om_ok (m_mapPlayerIDBySocketID g) \<and>
     (\<forall>p cs. getSessionByPlayerID g p = Some cs \<longrightarrow> gs_nPlayerID cs = p \<and> session_state (gs_nState cs)) \<and>
     (\<forall>p \<in> set (entering g). getSessionByPlayerID g p \<noteq> None)"

lemma gate_okD:
  "gate_ok g \<Longrightarrow> getSessionByPlayerID g p = Some cs \<Longrightarrow> gs_nPlayerID cs = p"
  "gate_ok g \<Longrightarrow> getSessionByPlayerID g p = Some cs \<Longrightarrow> session_state (gs_nState cs)"
  "gate_ok g \<Longrightarrow> p \<in> set (entering g) \<Longrightarrow> \<exists>cs. getSessionByPlayerID g p = Some cs"
  by (auto simp: gate_ok_def)

lemma gate_ok_new [simp]: "gate_ok new_gate"
  by (simp add: gate_ok_def new_gate_def getSessionByPlayerID_def)

text \<open>The sessions after an operation, as a function from the players.\<close>

abbreviation sess :: "CGateService \<Rightarrow> u64 \<Rightarrow> CGateClientSession option" where
  "sess \<equiv> getSessionByPlayerID"

lemma sess_put: "om_ok (m_mapClientSessionByPlayerID g) \<Longrightarrow> sess (put_session cs g) = (sess g)(gs_nPlayerID cs \<mapsto> cs)"
  by (auto simp: getSessionByPlayerID_def put_session_def fun_eq_iff)

lemma put_ok: "om_ok (m_mapClientSessionByPlayerID g) \<Longrightarrow> om_ok (m_mapClientSessionByPlayerID (put_session cs g))"
  by (simp add: put_session_def)

lemma sess_set:
  "gate_ok g \<Longrightarrow> (\<And>cs. gs_nPlayerID (f cs) = gs_nPlayerID cs) \<Longrightarrow> sess (set_session p f g) = (sess g)(p := map_option f (sess g p))"
  by (auto simp: set_session_def sess_put gate_ok_def fun_eq_iff split: option.splits)

lemma sess_bind: "gate_ok g \<Longrightarrow> sess (bindSocketID p s g) = (sess g)(p := map_option (gs_nSocketID_update (\<lambda>_. s)) (sess g p))"
  unfolding bindSocketID_def
  by (auto simp: getSessionByPlayerID_def put_session_def gate_ok_def fun_eq_iff split: option.splits)

lemma sess_unbind: "gate_ok g \<Longrightarrow> sess (unbindSocketID p g) = (sess g)(p := map_option (gs_nSocketID_update (\<lambda>_. 0)) (sess g p))"
  unfolding unbindSocketID_def
  by (auto simp: getSessionByPlayerID_def put_session_def gate_ok_def fun_eq_iff split: option.splits)

definition destroyed :: "u64 \<Rightarrow> CGateService \<Rightarrow> CGateService" where
  "destroyed p g = (case sess g p of None \<Rightarrow> g
     | Some cs \<Rightarrow> g\<lparr>m_mapClientSessionByPlayerID := om_del p (m_mapClientSessionByPlayerID g),
         m_mapPlayerIDBySocketID := om_del (gs_nSocketID cs) (m_mapPlayerIDBySocketID g),
         entering := filter (\<lambda>q. q \<noteq> p) (entering g)\<rparr>)"

lemma fst_destroy [simp]: "fst (destroySession p g) = destroyed p g"
  by (simp add: destroySession_def destroyed_def split: option.splits)

lemma sess_destroy: "sess (destroyed p g) = (sess g)(p := None)"
  by (auto simp: destroyed_def getSessionByPlayerID_def fun_eq_iff split: option.splits)

lemma sess_other_fields [simp]:
  "sess (g\<lparr>entering := e\<rparr>) = sess g" "sess (g\<lparr>connections := c\<rparr>) = sess g" "sess (g\<lparr>m_nNextSessionID := n\<rparr>) = sess g"
  "sess (g\<lparr>m_mapPlayerIDBySocketID := m\<rparr>) = sess g"
  by (simp_all add: getSessionByPlayerID_def fun_eq_iff)

text \<open>Where the requests to enter stand.\<close>

lemma entering_simps [simp]:
  "entering (put_session cs g) = entering g" "entering (set_session p f g) = entering g"
  "entering (bindSocketID p s g) = entering g" "entering (unbindSocketID p g) = entering g"
  by (auto simp: put_session_def set_session_def bindSocketID_def unbindSocketID_def split: option.splits)

lemma conns_simps [simp]:
  "connections (put_session cs g) = connections g" "connections (set_session p f g) = connections g"
  "connections (bindSocketID p s g) = connections g" "connections (unbindSocketID p g) = connections g"
  by (auto simp: put_session_def set_session_def bindSocketID_def unbindSocketID_def split: option.splits)

section \<open>Preservation\<close>

text \<open>
  The part of the invariant that holds between the parts of a handler, where a new session may still
  have the state \<open>eCSS_None\<close>.
\<close>

lemma gate_ok_maps: "gate_ok g \<Longrightarrow> om_ok (m_mapClientSessionByPlayerID g)" "gate_ok g \<Longrightarrow> om_ok (m_mapPlayerIDBySocketID g)"
  by (simp_all add: gate_ok_def)

lemma maps_simps:
  "om_ok (m_mapClientSessionByPlayerID g) \<Longrightarrow> om_ok (m_mapClientSessionByPlayerID (set_session p f g))"
  "om_ok (m_mapPlayerIDBySocketID g) \<Longrightarrow> om_ok (m_mapPlayerIDBySocketID (set_session p f g))"
  "om_ok (m_mapClientSessionByPlayerID g) \<Longrightarrow> om_ok (m_mapClientSessionByPlayerID (bindSocketID p s g))"
  "om_ok (m_mapPlayerIDBySocketID g) \<Longrightarrow> om_ok (m_mapPlayerIDBySocketID (bindSocketID p s g))"
  "om_ok (m_mapClientSessionByPlayerID g) \<Longrightarrow> om_ok (m_mapClientSessionByPlayerID (unbindSocketID p g))"
  "om_ok (m_mapPlayerIDBySocketID g) \<Longrightarrow> om_ok (m_mapPlayerIDBySocketID (unbindSocketID p g))"
  by (auto simp: set_session_def bindSocketID_def unbindSocketID_def put_session_def split: option.splits)

lemma set_ok:
  assumes "gate_ok g" and "\<And>cs. gs_nPlayerID (f cs) = gs_nPlayerID cs"
    and "\<And>cs. session_state (gs_nState cs) \<Longrightarrow> session_state (gs_nState (f cs))"
  shows "gate_ok (set_session p f g)"
  using assms unfolding gate_ok_def [of "set_session p f g"] sess_set [OF assms(1,2)]
  by (auto simp: gate_ok_maps maps_simps dest: gate_okD split: if_splits)

lemma bind_ok: "gate_ok g \<Longrightarrow> gate_ok (bindSocketID p s g)"
  unfolding gate_ok_def [of "bindSocketID p s g"]
  by (auto simp: sess_bind gate_ok_maps maps_simps dest: gate_okD split: if_splits)

lemma unbind_ok: "gate_ok g \<Longrightarrow> gate_ok (unbindSocketID p g)"
  unfolding gate_ok_def [of "unbindSocketID p g"]
  by (auto simp: sess_unbind gate_ok_maps maps_simps dest: gate_okD split: if_splits)

lemma destroy_ok: "gate_ok g \<Longrightarrow> gate_ok (destroyed p g)"
proof -
  assume ok: "gate_ok g"
  have "q \<noteq> p" if "q \<in> set (entering g)" "sess g p = None" for q using gate_okD(3) [OF ok that(1)] that(2) by auto
  then have "filter (\<lambda>q. q \<noteq> p) (entering g) = entering g" if "sess g p = None" using that by simp
  then have "entering (destroyed p g) = filter (\<lambda>q. q \<noteq> p) (entering g)"
    by (auto simp: destroyed_def split: option.splits)
  moreover have "om_ok (m_mapClientSessionByPlayerID (destroyed p g))" "om_ok (m_mapPlayerIDBySocketID (destroyed p g))"
    using gate_ok_maps [OF ok] by (auto simp: destroyed_def split: option.splits)
  ultimately show ?thesis using ok unfolding gate_ok_def [of "destroyed p g"]
    by (auto simp: sess_destroy dest: gate_okD split: if_splits)
qed

lemma more_entering: "gate_ok g \<Longrightarrow> sess g p \<noteq> None \<Longrightarrow> entering g' = entering g @ [p] \<Longrightarrow> sess g' = sess g \<Longrightarrow>
    m_mapClientSessionByPlayerID g' = m_mapClientSessionByPlayerID g \<Longrightarrow>
    m_mapPlayerIDBySocketID g' = m_mapPlayerIDBySocketID g \<Longrightarrow> gate_ok g'"
  by (simp add: gate_ok_def)

lemma enterGas_ok: "gate_ok g \<Longrightarrow> gate_ok (fst (enterGas p g))"
proof (cases "sess g p")
  case (Some cs)
  assume ok: "gate_ok g"
  let ?g = "set_session p (gs_tickerTokenTimeout_update (\<lambda>_. False)) g"
  have e: "put_session (cs\<lparr>gs_tickerTokenTimeout := False\<rparr>) g = ?g" using Some by (simp add: set_session_def)
  have "gate_ok ?g" using ok by (intro set_ok) simp_all
  then have "gate_ok (?g\<lparr>entering := entering g @ [p]\<rparr>)"
    by (rule more_entering [of ?g p]) (simp_all add: sess_set [OF ok] Some)
  then show ?thesis using Some ok by (simp add: enterGas_def e)
qed (simp add: enterGas_def)

lemma resumed_ok: "gate_ok g \<Longrightarrow> gate_ok (fst (enterGas_resumed p a g))"
  by (auto simp: enterGas_resumed_def Let_def case_prod_beta session_states eCSS_defs
      intro!: set_ok destroy_ok split: option.splits enter_answer.splits)

lemma created:
  "createSession p tok rnd g = Some (cs, g') \<Longrightarrow> gate_ok g \<Longrightarrow>
     sess g p = None \<and> sess g' = (sess g)(p \<mapsto> cs) \<and> om_ok (m_mapClientSessionByPlayerID g') \<and>
     om_ok (m_mapPlayerIDBySocketID g') \<and> entering g' = entering g \<and> connections g' = connections g \<and>
     gs_nPlayerID cs = p \<and> gs_szToken cs = tok \<and> gs_nGasID cs = 0 \<and> gs_nState cs = eCSS_None \<and> gs_nSocketID cs = 0"
  unfolding createSession_def Let_def
  by (auto simp: getSessionByPlayerID_def put_session_def gate_ok_maps fun_eq_iff split: if_splits)

text \<open>A session just created gets a state, and for a client its socket, before the handler ends.\<close>

lemma created_ok:
  assumes "createSession p tok rnd g = Some (cs, g')" and ok: "gate_ok g"
    and f: "\<And>cs. gs_nPlayerID (f cs) = gs_nPlayerID cs" "\<And>cs. session_state (gs_nState (f cs))"
  shows "gate_ok (set_session p f g')" "gate_ok (set_session p f (bindSocketID p s g'))"
    "sess (set_session p f g') = (sess g)(p \<mapsto> f cs)"
    "sess (set_session p f (bindSocketID p s g')) = (sess g)(p \<mapsto> f (cs\<lparr>gs_nSocketID := s\<rparr>))"
proof -
  note c = created [OF assms(1,2)]
  show 1: "sess (set_session p f g') = (sess g)(p \<mapsto> f cs)"
    using c f(1) by (simp add: set_session_def sess_put)
  have b: "bindSocketID p s g' = put_session (cs\<lparr>gs_nSocketID := s\<rparr>) (g'\<lparr>m_mapPlayerIDBySocketID := om_put s p (m_mapPlayerIDBySocketID g')\<rparr>)"
    using c by (simp add: bindSocketID_def)
  have sb: "sess (bindSocketID p s g') = (sess g)(p \<mapsto> cs\<lparr>gs_nSocketID := s\<rparr>)"
    unfolding b using c by (auto simp: getSessionByPlayerID_def put_session_def fun_eq_iff)
  have mb: "om_ok (m_mapClientSessionByPlayerID (bindSocketID p s g'))" using c by (simp add: maps_simps)
  show 2: "sess (set_session p f (bindSocketID p s g')) = (sess g)(p \<mapsto> f (cs\<lparr>gs_nSocketID := s\<rparr>))"
    using sb mb c f(1) by (simp add: set_session_def sess_put)
  show "gate_ok (set_session p f g')" unfolding gate_ok_def 1
    using c f ok by (auto simp: maps_simps dest: gate_okD split: if_splits)
  show "gate_ok (set_session p f (bindSocketID p s g'))" unfolding gate_ok_def 2
    using c f ok by (auto simp: maps_simps dest: gate_okD split: if_splits)
qed

lemma set_conns_ok: "gate_ok g \<Longrightarrow> gate_ok (g\<lparr>connections := c\<rparr>)"
  by (simp add: gate_ok_def)

lemma fewer_ok: "gate_ok g \<Longrightarrow> set e \<subseteq> set (entering g) \<Longrightarrow> gate_ok (g\<lparr>entering := e\<rparr>)"
  by (auto simp: gate_ok_def)

section \<open>Where the tokens come from\<close>

definition issued :: "'d gate_event list \<Rightarrow> u64 \<Rightarrow> string \<Rightarrow> bool" where
  "issued H p tok \<longleftrightarrow> (\<exists>gas rnd. Token_notify p gas tok rnd \<in> set H)"

definition presented :: "'d gate_event list \<Rightarrow> u64 \<Rightarrow> u64 \<Rightarrow> string \<Rightarrow> bool" where
  "presented H s p tok \<longleftrightarrow> (\<exists>key rnd. Client_message s (Handshake_request (Some key)) rnd \<in> set H \<and> parse_key key = Some (p, tok))"

definition assigned :: "'d gate_event list \<Rightarrow> u64 \<Rightarrow> u32 \<Rightarrow> bool" where
  "assigned H p gas \<longleftrightarrow> gas = 0 \<or> (\<exists>tok rnd. Token_notify p gas tok rnd \<in> set H)"

definition good :: "'d gate_event list \<Rightarrow> u64 \<Rightarrow> CGateClientSession \<Rightarrow> bool" where
  "good H p cs \<longleftrightarrow> (gs_nState cs AND eCSS_TokenEnter \<noteq> 0 \<longrightarrow> issued H p (gs_szToken cs)) \<and>
     (gs_nState cs AND eCSS_ClientEnter \<noteq> 0 \<longrightarrow> presented H (gs_nSocketID cs) p (gs_szToken cs)) \<and>
     assigned H p (gs_nGasID cs)"

definition prov :: "'d gate_event list \<Rightarrow> CGateService \<Rightarrow> bool" where
  "prov H g \<longleftrightarrow> gate_ok g \<and> (\<forall>p cs. sess g p = Some cs \<longrightarrow> good H p cs)"

lemma prov_ok: "prov H g \<Longrightarrow> gate_ok g" by (simp add: prov_def)
lemma provD: "prov H g \<Longrightarrow> sess g p = Some cs \<Longrightarrow> good H p cs" by (simp add: prov_def)

lemma prov_more: "prov H g \<Longrightarrow> prov (H @ [e]) g"
  unfolding prov_def good_def issued_def presented_def assigned_def by auto blast+

lemma prov_upd:
  "prov H g \<Longrightarrow> gate_ok g' \<Longrightarrow> sess g' = (sess g)(p := x) \<Longrightarrow> (\<And>cs. x = Some cs \<Longrightarrow> good H p cs) \<Longrightarrow> prov H g'"
  by (auto simp: prov_def split: if_splits)

lemma prov_same: "prov H g \<Longrightarrow> gate_ok g' \<Longrightarrow> sess g' = sess g \<Longrightarrow> prov H g'"
  by (simp add: prov_def)

lemma prov_destroy: "prov H g \<Longrightarrow> prov H (destroyed p g)"
  by (rule prov_upd [OF _ destroy_ok sess_destroy]) (auto simp: prov_ok)

lemma prov_set:
  assumes "prov H g" "\<And>cs. gs_nPlayerID (f cs) = gs_nPlayerID cs"
    and "\<And>cs. session_state (gs_nState cs) \<Longrightarrow> session_state (gs_nState (f cs))"
    and "\<And>cs. sess g p = Some cs \<Longrightarrow> good H p (f cs)"
  shows "prov H (set_session p f g)"
  using assms by (intro prov_upd [OF assms(1) set_ok sess_set]) (auto simp: prov_ok)

lemma good_timer: "good H p (cs\<lparr>gs_tickerTokenTimeout := t\<rparr>) = good H p cs"
  by (simp add: good_def)

text \<open>What a request to enter says about the session it is sent for.\<close>

definition enters :: "'d gate_out list \<Rightarrow> CGateService \<Rightarrow> bool" where
  "enters out g \<longleftrightarrow> (\<forall>gas p. Invoke gas (G2s_player_enter_request p) \<in> set out \<longrightarrow>
     (\<exists>cs. sess g p = Some cs \<and> gs_nState cs = eCSS_ClientEnter OR eCSS_TokenEnter \<and> gs_nGasID cs = gas))"

lemma enters_none [simp]: "enters [] g" by (simp add: enters_def)

lemma enters_enterGas: "gate_ok g \<Longrightarrow> enters (snd (enterGas p g)) (fst (enterGas p g))"
  by (auto simp: enters_def enterGas_def sess_put gate_ok_maps dest: gate_okD split: option.splits)

lemma prov_enterGas: "prov H g \<Longrightarrow> prov H (fst (enterGas p g))"
proof (cases "sess g p")
  case (Some cs)
  assume a: "prov H g"
  have "sess (fst (enterGas p g)) = (sess g)(p := Some (if gs_nState cs = eCSS_ClientEnter OR eCSS_TokenEnter
      then cs\<lparr>gs_tickerTokenTimeout := False\<rparr> else cs))"
    using Some gate_okD(1) [OF prov_ok [OF a] Some] gate_ok_maps [OF prov_ok [OF a]]
    by (auto simp: enterGas_def sess_put fun_eq_iff)
  then show ?thesis
    by (rule prov_upd [OF a enterGas_ok [OF prov_ok [OF a]]])
      (use provD [OF a Some] in \<open>simp split: if_splits; auto simp: good_timer\<close>)
qed (simp add: enterGas_def)

lemma destroy_no_enter: "Invoke gas (G2s_player_enter_request q) \<notin> set (snd (destroySession p g))"
  by (auto simp: destroySession_def split: option.splits)

definition step_good :: "'d gate_event list \<Rightarrow> CGateService \<times> 'd gate_out list \<Rightarrow> bool" where
  "step_good H r \<longleftrightarrow> prov H (fst r) \<and> enters (snd r) (fst r)"

lemma step_goodI: "prov H g \<Longrightarrow> enters out g \<Longrightarrow> step_good H (g, out)"
  by (simp add: step_good_def)

lemma good_destroy: "prov H g \<Longrightarrow> step_good H (destroySession p g)"
  by (simp add: step_good_def prov_destroy enters_def destroy_no_enter)

lemma good_enterGas: "prov H g \<Longrightarrow> step_good H (enterGas p g)"
  by (simp add: step_good_def prov_enterGas enters_enterGas prov_ok)

lemma good_shut: "prov H g \<Longrightarrow> step_good H (shut_or_destroy cs g)"
  by (cases "gs_nSocketID cs \<in> set (connections g)")
    (simp_all add: shut_or_destroy_def good_destroy, simp add: step_good_def enters_def)

lemma good_resumed: "prov H g \<Longrightarrow> step_good H (enterGas_resumed p a g)"
proof -
  assume a: "prov H g"
  have n: "prov H (set_session p (gs_nState_update (\<lambda>_. eCSS_Normal)) g)"
    using a by (rule prov_set) (auto simp: session_states eCSS_defs good_def dest: provD [OF a])
  have "enters (Local m # snd (destroySession p g)) (destroyed p g)" for m
    by (simp add: enters_def destroy_no_enter)
  then show ?thesis using a n
    by (auto simp: enterGas_resumed_def Let_def case_prod_beta step_good_def enters_def prov_destroy
        split: option.splits enter_answer.splits)
qed

lemma enters_locals: "list_all (\<lambda>x. case x of Local _ \<Rightarrow> True | _ \<Rightarrow> False) out \<Longrightarrow> enters out g"
  by (auto simp: enters_def list_all_iff split: service_out.splits)

lemma good_handshake:
  assumes "prov H g" and "Client_message s (Handshake_request (Some key)) rnd \<in> set H"
  shows "step_good H (handshake s key rnd' g)"
proof (cases "parse_key key")
  case None
  then show ?thesis using assms by (simp add: handshake_def step_good_def enters_def)
next
  case (Some pt)
  then obtain p tok where k: "parse_key key = Some (p, tok)" by (cases pt) simp
  have pr: "presented H s p tok" using assms(2) k unfolding presented_def by blast
  note ok = prov_ok [OF assms(1)]
  show ?thesis
  proof (cases "sess g p")
    case None
    show ?thesis
    proof (cases "createSession p tok rnd' g")
      case None then show ?thesis using \<open>sess g p = None\<close> k assms by (simp add: handshake_def step_good_def enters_def)
    next
      case (Some r)
      then obtain cs g' where c: "createSession p tok rnd' g = Some (cs, g')" by (cases r) simp
      note cr = created [OF c ok]
      let ?f = "gs_nState_update (\<lambda>_. eCSS_ClientEnter)"
      have f: "gs_nPlayerID (?f cs) = gs_nPlayerID cs" "session_state (gs_nState (?f cs))" for cs
        by (simp_all add: session_states eCSS_defs)
      have "good H p (?f (cs\<lparr>gs_nSocketID := s\<rparr>))"
        using pr cr by (simp add: good_def eCSS_defs assigned_def)
      then have "prov H (set_session p ?f (bindSocketID p s g'))"
        by (intro prov_upd [OF assms(1) created_ok(2) [OF c ok f] created_ok(4) [OF c ok f]]) simp_all
      then show ?thesis using c k \<open>sess g p = None\<close> by (simp add: handshake_def step_good_def)
    qed
  next
    case (Some cs)
    note gd = provD [OF assms(1) Some]
    show ?thesis
    proof (cases "gs_nState cs AND eCSS_TokenEnter \<noteq> 0")
      case True
      show ?thesis
      proof (cases "gs_szToken cs = tok")
        case False
        then show ?thesis using assms k Some True by (simp add: handshake_def step_good_def enters_def)
      next
        case eq: True
        let ?f = "gs_nState_update (\<lambda>_. eCSS_ClientEnter OR eCSS_TokenEnter)"
        let ?g = "set_session p ?f (bindSocketID p s g)"
        have "gate_ok ?g" using ok by (intro set_ok bind_ok) (simp_all add: session_states eCSS_defs)
        moreover have "sess ?g = (sess g)(p := Some (?f (cs\<lparr>gs_nSocketID := s\<rparr>)))"
          using Some by (simp add: sess_set [OF bind_ok [OF ok]] sess_bind [OF ok])
        moreover have "good H p (?f (cs\<lparr>gs_nSocketID := s\<rparr>))"
          using gd pr True eq by (simp add: good_def)
        ultimately have "prov H ?g" using prov_upd [OF assms(1)] by auto
        from good_enterGas [OF this, of p] show ?thesis using k Some True eq by (simp add: handshake_def)
      qed
    next
      case False
      show ?thesis
      proof (cases "gs_nState cs = eCSS_Normal")
        case False
        then show ?thesis using assms k Some \<open>\<not> gs_nState cs AND eCSS_TokenEnter \<noteq> 0\<close>
          by (simp add: handshake_def step_good_def enters_def)
      next
        case True
        let ?f = "\<lambda>cs. cs\<lparr>gs_nState := eCSS_ClientEnter, gs_szToken := tok\<rparr>"
        let ?g = "bindSocketID p s (set_session p ?f (unbindSocketID p g))"
        have ok': "gate_ok (set_session p ?f (unbindSocketID p g))"
          using ok by (intro set_ok unbind_ok) (simp_all add: session_states eCSS_defs)
        have "sess ?g = (sess g)(p := Some ((?f (cs\<lparr>gs_nSocketID := 0\<rparr>))\<lparr>gs_nSocketID := s\<rparr>))"
          using Some by (simp add: sess_bind [OF ok'] sess_set [OF unbind_ok [OF ok]] sess_unbind [OF ok])
        moreover have "good H p ((?f (cs\<lparr>gs_nSocketID := 0\<rparr>))\<lparr>gs_nSocketID := s\<rparr>)"
          using gd pr by (simp add: good_def eCSS_defs)
        ultimately have "prov H ?g" using prov_upd [OF assms(1) bind_ok [OF ok']] by auto
        then show ?thesis using k Some True \<open>\<not> gs_nState cs AND eCSS_TokenEnter \<noteq> 0\<close>
          by (auto simp: handshake_def step_good_def enters_def)
      qed
    qed
  qed
qed

lemma good_token:
  assumes "prov H g" and "Token_notify p gas tok rnd \<in> set H"
  shows "step_good H (d2g_player_token_notify_handler p gas tok rnd' g)"
proof -
  note ok = prov_ok [OF assms(1)]
  have iss: "issued H p tok" "assigned H p gas" using assms(2) unfolding issued_def assigned_def by blast+
  show ?thesis
  proof (cases "sess g p")
    case None
    show ?thesis
    proof (cases "createSession p tok rnd' g")
      case None then show ?thesis using \<open>sess g p = None\<close> assms by (simp add: d2g_player_token_notify_handler_def step_good_def)
    next
      case (Some r)
      then obtain cs g' where c: "createSession p tok rnd' g = Some (cs, g')" by (cases r) simp
      note cr = created [OF c ok]
      let ?f = "\<lambda>cs. cs\<lparr>gs_nGasID := gas, gs_nState := eCSS_TokenEnter\<rparr>"
      have f: "gs_nPlayerID (?f cs) = gs_nPlayerID cs" "session_state (gs_nState (?f cs))" for cs
        by (simp_all add: session_states eCSS_defs)
      have "good H p (?f cs)" using iss cr by (simp add: good_def eCSS_defs)
      then have "prov H (set_session p ?f g')"
        by (intro prov_upd [OF assms(1) created_ok(1) [OF c ok f] created_ok(3) [OF c ok f]]) simp_all
      then show ?thesis using c \<open>sess g p = None\<close> by (simp add: d2g_player_token_notify_handler_def step_good_def)
    qed
  next
    case (Some cs)
    note gd = provD [OF assms(1) Some]
    consider (other) "gs_nState cs AND eCSS_ClientEnter \<noteq> 0" "gs_szToken cs \<noteq> tok"
      | (enter) "gs_nState cs AND eCSS_ClientEnter \<noteq> 0" "gs_szToken cs = tok"
      | (dup) "gs_nState cs AND eCSS_ClientEnter = 0" "gs_nState cs \<noteq> eCSS_Normal"
      | (again) "gs_nState cs AND eCSS_ClientEnter = 0" "gs_nState cs = eCSS_Normal" by blast
    then show ?thesis
    proof cases
      case other
      then show ?thesis using good_shut [OF assms(1), of cs] Some by (simp add: d2g_player_token_notify_handler_def)
    next
      case dup
      then show ?thesis using good_shut [OF assms(1), of cs] Some by (simp add: d2g_player_token_notify_handler_def)
    next
      case enter
      let ?f = "\<lambda>cs. cs\<lparr>gs_nGasID := gas, gs_nState := eCSS_TokenEnter OR eCSS_ClientEnter\<rparr>"
      have "good H p (?f cs)" using gd iss enter by (simp add: good_def)
      then have "prov H (set_session p ?f g)"
        using Some by (intro prov_set [OF assms(1)]) (simp_all add: session_states eCSS_defs)
      from good_enterGas [OF this, of p] show ?thesis using enter Some by (simp add: d2g_player_token_notify_handler_def)
    next
      case again
      let ?f = "\<lambda>cs. cs\<lparr>gs_szToken := tok, gs_nState := eCSS_TokenEnter\<rparr>"
      let ?g = "set_session p ?f (unbindSocketID p g)"
      have "gate_ok ?g" using ok by (intro set_ok unbind_ok) (simp_all add: session_states eCSS_defs)
      moreover have "sess ?g = (sess g)(p := Some (?f (cs\<lparr>gs_nSocketID := 0\<rparr>)))"
        using Some by (simp add: sess_set [OF unbind_ok [OF ok]] sess_unbind [OF ok])
      moreover have "good H p (?f (cs\<lparr>gs_nSocketID := 0\<rparr>))" using gd iss by (simp add: good_def eCSS_defs)
      ultimately have "prov H ?g" using prov_upd [OF assms(1)] by auto
      then show ?thesis using again Some by (auto simp: d2g_player_token_notify_handler_def step_good_def enters_def)
    qed
  qed
qed

lemma good_kick: "prov H g \<Longrightarrow> step_good H (s2g_kick_player_notify_handler p g)"
  unfolding s2g_kick_player_notify_handler_def
  by (auto intro!: good_destroy prov_set step_goodI dest: provD simp: good_def split: option.splits)

lemma good_timeout: "prov H g \<Longrightarrow> step_good H (onTokenTimeout p g)"
  by (auto simp: onTokenTimeout_def intro: good_destroy step_goodI split: option.splits)

lemma good_sessions: "prov H g \<Longrightarrow> step_good H (destroy_sessions ps g)"
proof (induction ps arbitrary: g)
  case (Cons p ps)
  have "step_good H (destroy_sessions ps (destroyed p g))" using Cons.IH [OF prov_destroy [OF Cons.prems]] .
  then show ?case by (auto simp: step_good_def enters_def Let_def case_prod_beta destroy_no_enter)
qed (simp add: step_good_def)

lemma prov_conns: "prov H g \<Longrightarrow> prov H (g\<lparr>connections := c\<rparr>)"
  by (simp add: prov_def set_conns_ok)

lemma good_disconnect: "prov H g \<Longrightarrow> step_good H (client_onDisconnect s g)"
proof -
  assume a: "prov H g"
  let ?g = "g\<lparr>connections := filter (\<lambda>s'. s' \<noteq> s) (connections g)\<rparr>"
  have b: "prov H ?g" using a by (rule prov_conns)
  show ?thesis
  proof (cases "getSessionBySocketID ?g s")
    case None then show ?thesis using b by (simp add: client_onDisconnect_def step_goodI)
  next
    case (Some cs)
    let ?p = "gs_nPlayerID cs"
    have d: "destroyed ?p (unbindSocketID ?p ?g) = destroyed ?p (unbindSocketID ?p ?g)" ..
    have ok: "gate_ok (unbindSocketID ?p ?g)" using prov_ok [OF b] by (rule unbind_ok)
    have "sess (destroyed ?p (unbindSocketID ?p ?g)) = (sess ?g)(?p := None)"
      by (simp add: sess_destroy sess_unbind [OF prov_ok [OF b]])
    then have "prov H (destroyed ?p (unbindSocketID ?p ?g))"
      by (rule prov_upd [OF b destroy_ok [OF ok]]) simp
    then show ?thesis using Some b
      by (auto simp: client_onDisconnect_def Let_def step_good_def enters_def destroy_no_enter)
  qed
qed

lemma good_dispatch:
  "prov H g \<Longrightarrow> Client_message s msg rnd \<in> set H \<Longrightarrow> step_good H (gate_dispatch s msg rnd g)"
  unfolding gate_dispatch_def
  by (auto intro!: good_handshake split: from_client.splits option.splits)
    (auto intro!: step_goodI simp: enters_def split: option.splits)

lemma broadcast_no_enter: "Invoke gas m \<notin> set (broadcast_loop ps d g)"
  by (induction ps) (auto split: option.splits)

lemma step_preserves: "prov H g \<Longrightarrow> step_good (H @ [e]) (gate_step addr e g)"
proof -
  assume "prov H g"
  then have a: "prov (H @ [e]) g" by (rule prov_more)
  show ?thesis
  proof (cases e)
    case (Client_connect s)
    then show ?thesis using a by (auto simp: client_onConnect_def intro: step_goodI prov_conns)
  next
    case (Enter_answered i answer)
    let ?g = "g\<lparr>entering := take i (entering g) @ drop (i + 1) (entering g)\<rparr>"
    have "set (take i (entering g) @ drop (i + 1) (entering g)) \<subseteq> set (entering g)"
      by (auto dest: in_set_takeD in_set_dropD)
    then have "prov (H @ [e]) ?g" using a fewer_ok [OF prov_ok [OF a]] by (simp add: prov_def)
    then show ?thesis using good_resumed [of "H @ [e]" ?g "entering g ! i" answer] a Enter_answered
      by (simp add: enter_answered_def step_goodI)
  next
    case (Service_disconnect t s)
    then show ?thesis using a good_sessions [OF a]
      by (auto simp: gate_onServiceDisconnect_def onGasDisconnect_def intro: step_goodI)
  next
    case (Client_message s msg rnd)
    then show ?thesis using good_dispatch [OF a, of s msg rnd] by simp
  next
    case (Token_notify p gas tok rnd)
    then show ?thesis using good_token [OF a, of p gas tok rnd rnd] by simp
  qed (use a in \<open>auto simp: gate_onHeartbeat_def gate_onServiceConnect_def gate_onNotifyOnlineCount_def onToGateMessage_def
      onToGateBroadcastMessage_def broadcast_no_enter enters_def intro!: good_disconnect good_kick good_timeout step_goodI
      split: option.splits\<close>)
qed

fun gate_run :: "string \<Rightarrow> 'd gate_event list \<Rightarrow> CGateService \<Rightarrow> CGateService" where
  "gate_run addr [] g = g"
| "gate_run addr (e # es) g = gate_run addr es (fst (gate_step addr e g))"

lemma prov_run: "prov H g \<Longrightarrow> prov (H @ es) (gate_run addr es g)"
proof (induction es arbitrary: H g)
  case (Cons e es)
  have "prov (H @ [e]) (fst (gate_step addr e g))" using step_preserves [OF Cons.prems] by (simp add: step_good_def)
  from Cons.IH [OF this] show ?case by simp
qed simp

lemma prov_new: "prov [] new_gate"
  by (simp add: prov_def new_gate_def getSessionByPlayerID_def) (simp add: gate_ok_def getSessionByPlayerID_def)

section \<open>The key of a login\<close>

lemma show_nat_length: "n < 10 ^ Suc k \<Longrightarrow> length (show_nat n) \<le> Suc k"
proof (induction k arbitrary: n)
  case 0 then show ?case by (subst show_nat.simps) simp
next
  case (Suc k)
  have "n div 10 < 10 ^ Suc k" using Suc.prems by (simp add: less_mult_imp_div_less)
  then have "length (show_nat (n div 10)) \<le> Suc k" by (rule Suc.IH)
  then show ?case by (subst show_nat.simps) simp
qed

lemma digit_chars: "is_digit c \<Longrightarrow> c \<noteq> CHR ''|'' \<and> c \<noteq> CHR '' '' \<and> c \<noteq> CHR 0x7B \<and> c \<noteq> CHR 0x7D"
  by (auto simp: is_digit_def)

lemma show_int_nat: "show_int (int n) = show_nat n"
  by (simp add: show_int_def)

lemma show_word_nat: "show_word w = show_nat (unat w)"
  by (simp add: show_word_def show_int_def)

lemma show_nat_plain: "CHR ''|'' \<notin> set (show_nat n)" "brace_free (show_nat n)" "CHR '' '' \<notin> set (show_nat n)"
  using show_nat_digits digit_chars by (auto simp: brace_free_def)

lemma login_key_text: "login_key p (show_nat n) = join_with (CHR ''|'') [show_nat (unat p), show_nat n]"
proof -
  have "login_key p (show_nat n) = fill_holes (hole @ ''|'' @ hole) [show_nat (unat p), show_nat n]"
    using push_args_fill [of "[]" "[show_nat (unat p), show_nat n]" "hole @ ''|'' @ hole"]
    by (simp add: login_key_def format_str_def no_hole_def show_nat_plain show_word_nat)
  then show ?thesis by simp
qed

lemma parse_login_key:
  assumes "n < 1000000"
  shows "parse_key (login_key p (show_nat n)) = Some (p, show_nat n)"
proof -
  let ?els = "[show_nat (unat p), show_nat n]"
  have t: "token_parse (login_key p (show_nat n)) ''|'' = Some ?els"
    unfolding login_key_text token_parse_def split_str_def
    using split_join [of ?els "CHR ''|''" "[]"] by (simp add: show_nat_plain)
  have "getUint64Element ?els 0 = Some (uint p)"
    using read_unsigned_show [of "uint p" 64] unsigned_less [of p]
    by (simp add: getUint64Element_def token_text_def show_nat_plain show_int_def uint_lt2p [of p, simplified])
  moreover have "length (show_nat n) < 256" using show_nat_length [of n 5] assms by simp
  then have "getStringElement ?els 1 256 = Some (show_nat n)" by (simp add: getStringElement_def)
  ultimately show ?thesis using t by (simp add: parse_key_def)
qed

section \<open>What the gate guarantees\<close>

text \<open>
  C27: A game service is asked to let a player enter only for a session whose client presented, on the
  socket it is bound to, the very token that the dispatch service issued for this player, and the
  service asked is one that the dispatch service named for the player.
\<close>

theorem enter_needs_matching_tokens:
  assumes "Invoke gas (G2s_player_enter_request p) \<in> set (snd (gate_step addr e (gate_run addr es new_gate)))"
  shows "\<exists>cs. sess (fst (gate_step addr e (gate_run addr es new_gate))) p = Some cs \<and> gs_nGasID cs = gas \<and>
    issued (es @ [e]) p (gs_szToken cs) \<and> presented (es @ [e]) (gs_nSocketID cs) p (gs_szToken cs) \<and>
    assigned (es @ [e]) p gas"
proof -
  have g: "step_good (es @ [e]) (gate_step addr e (gate_run addr es new_gate))"
    using prov_run [OF prov_new, of es addr] by (intro step_preserves) simp
  then obtain cs where cs: "sess (fst (gate_step addr e (gate_run addr es new_gate))) p = Some cs"
      "gs_nState cs = eCSS_ClientEnter OR eCSS_TokenEnter" "gs_nGasID cs = gas"
    using assms unfolding step_good_def enters_def by blast
  moreover have "good (es @ [e]) p cs" using g cs(1) by (auto simp: step_good_def dest: provD)
  ultimately show ?thesis by (auto simp: good_def eCSS_defs)
qed

text \<open>The two orders in which the token and the client reach the gate.\<close>

lemma token_then_client:
  assumes ok: "gate_ok g" and no: "sess g p = None" and key: "parse_key key = Some (p, tok)"
    and g1: "g1 = fst (d2g_player_token_notify_handler p gas tok r1 g :: CGateService \<times> 'd gate_out list)"
  shows "\<exists>g2 cs. (handshake s key r2 g1 :: CGateService \<times> 'd gate_out list) = (g2, [Invoke gas (G2s_player_enter_request p)]) \<and>
    gate_ok g2 \<and> sess g2 p = Some cs \<and> gs_nSocketID cs = s \<and> entering g2 = entering g @ [p] \<and> connections g2 = connections g"
proof -
  obtain cs g' where c: "createSession p tok r1 g = Some (cs, g')" using no by (auto simp: createSession_def Let_def)
  note cr = created [OF c ok]
  let ?f = "\<lambda>cs. cs\<lparr>gs_nGasID := gas, gs_nState := eCSS_TokenEnter\<rparr>"
  have f: "gs_nPlayerID (?f cs) = gs_nPlayerID cs" "session_state (gs_nState (?f cs))" for cs
    by (simp_all add: session_states eCSS_defs)
  have e: "g1 = set_session p ?f g'" using no c by (simp add: g1 d2g_player_token_notify_handler_def)
  have ok1: "gate_ok g1" unfolding e by (rule created_ok(1) [OF c ok f])
  have s1: "sess g1 p = Some (?f cs)" unfolding e by (simp add: created_ok(3) [OF c ok f])
  let ?h = "gs_nState_update (\<lambda>_. eCSS_ClientEnter OR eCSS_TokenEnter)"
  let ?g = "set_session p ?h (bindSocketID p s g1)"
  have "gate_ok ?g" using ok1 by (intro set_ok bind_ok) (simp_all add: session_states eCSS_defs)
  moreover have "sess ?g p = Some (?h ((?f cs)\<lparr>gs_nSocketID := s\<rparr>))"
    by (simp add: sess_set [OF bind_ok [OF ok1]] sess_bind [OF ok1] s1)
  moreover have "entering ?g = entering g" "connections ?g = connections g" using cr by (simp_all add: e)
  moreover have "(handshake s key r2 g1 :: CGateService \<times> 'd gate_out list) = enterGas p ?g"
    using s1 key cr by (simp add: handshake_def eCSS_defs)
  moreover have "gs_nPlayerID cs = p" using cr by simp
  ultimately show ?thesis using enterGas_ok [of ?g p, where ?'a = 'd]
    by (simp add: enterGas_def eCSS_defs sess_put gate_ok_maps)
qed

lemma client_then_token:
  assumes ok: "gate_ok g" and no: "sess g p = None" and key: "parse_key key = Some (p, tok)"
    and g1: "g1 = fst (handshake s key r2 g :: CGateService \<times> 'd gate_out list)"
  shows "\<exists>g2 cs. (d2g_player_token_notify_handler p gas tok r1 g1 :: CGateService \<times> 'd gate_out list) = (g2, [Invoke gas (G2s_player_enter_request p)]) \<and>
    gate_ok g2 \<and> sess g2 p = Some cs \<and> gs_nSocketID cs = s \<and> entering g2 = entering g @ [p] \<and> connections g2 = connections g"
proof -
  obtain cs g' where c: "createSession p tok r2 g = Some (cs, g')" using no by (auto simp: createSession_def Let_def)
  note cr = created [OF c ok]
  let ?f = "gs_nState_update (\<lambda>_. eCSS_ClientEnter)"
  have f: "gs_nPlayerID (?f cs) = gs_nPlayerID cs" "session_state (gs_nState (?f cs))" for cs
    by (simp_all add: session_states eCSS_defs)
  have e: "g1 = set_session p ?f (bindSocketID p s g')" using no c key by (simp add: g1 handshake_def)
  have ok1: "gate_ok g1" unfolding e by (rule created_ok(2) [OF c ok f])
  have s1: "sess g1 p = Some (?f (cs\<lparr>gs_nSocketID := s\<rparr>))" unfolding e by (simp add: created_ok(4) [OF c ok f])
  let ?h = "\<lambda>cs. cs\<lparr>gs_nGasID := gas, gs_nState := eCSS_TokenEnter OR eCSS_ClientEnter\<rparr>"
  let ?g = "set_session p ?h g1"
  have "gate_ok ?g" using ok1 by (intro set_ok) (simp_all add: session_states eCSS_defs)
  moreover have "sess ?g p = Some (?h (?f (cs\<lparr>gs_nSocketID := s\<rparr>)))"
    using s1 by (subst sess_set [OF ok1]) simp_all
  moreover have "entering ?g = entering g" "connections ?g = connections g" using cr by (simp_all add: e)
  moreover have "(d2g_player_token_notify_handler p gas tok r1 g1 :: CGateService \<times> 'd gate_out list) = enterGas p ?g"
    using s1 cr by (simp add: d2g_player_token_notify_handler_def eCSS_defs)
  moreover have "gs_nPlayerID cs = p" using cr by simp
  ultimately show ?thesis using enterGas_ok [of ?g p, where ?'a = 'd]
    by (simp add: enterGas_def eCSS_defs sess_put gate_ok_maps)
qed

lemma enter_accepted:
  assumes "sess g p = Some cs" "gs_nSocketID cs = s" "s \<in> set (connections g)" "gate_ok g"
  shows "snd (enterGas_resumed p (Enter_result eEC_Sucess) g :: CGateService \<times> 'd gate_out list) = [Local (Handshake_response s p eEC_Sucess)]"
    "client_socket (fst (enterGas_resumed p (Enter_result eEC_Sucess) g :: CGateService \<times> 'd gate_out list)) p = Some s"
proof -
  have c: "connections (set_session p (gs_nState_update (\<lambda>_. eCSS_Normal)) g) = connections g" by simp
  show "snd (enterGas_resumed p (Enter_result eEC_Sucess) g :: CGateService \<times> 'd gate_out list) = [Local (Handshake_response s p eEC_Sucess)]"
    using assms by (simp add: enterGas_resumed_def Let_def)
  show "client_socket (fst (enterGas_resumed p (Enter_result eEC_Sucess) g :: CGateService \<times> 'd gate_out list)) p = Some s"
    using assms by (simp add: enterGas_resumed_def Let_def client_socket_def sess_set)
qed

lemma enter_answered_last:
  assumes "entering g2 = es @ [p]"
  shows "enter_answered (length es) a g2 = enterGas_resumed p a (g2\<lparr>entering := es\<rparr>)"
  using assms by (simp add: enter_answered_def nth_append)

lemma admitted:
  assumes g2: "gate_ok g2" "sess g2 p = Some cs" "gs_nSocketID cs = s" "entering g2 = entering g @ [p]"
      "connections g2 = connections g" "s \<in> set (connections g)"
  shows "client_socket (fst (enter_answered (length (entering g)) (Enter_result eEC_Sucess) g2 :: CGateService \<times> 'd gate_out list)) p = Some s"
proof -
  have "gate_ok (g2\<lparr>entering := entering g\<rparr>)" using g2(1,4) by (intro fewer_ok) auto
  then show ?thesis unfolding enter_answered_last [OF g2(4)]
    using g2 by (intro enter_accepted(2)) simp_all
qed


text \<open>A concrete login: player 7, token 42, game service 3, socket 5.\<close>

abbreviation example_dispatch :: CDispatchService where
  "example_dispatch \<equiv> \<lparr>m_nGlobalDbServiceID = 1, m_nAccountTblCount = 1, m_pOnlineCountMgr = new_counts, logins = []\<rparr>"

abbreviation example_call :: login_call where
  "example_call \<equiv> \<lparr>lc_session = \<lparr>nFromServiceID = 8, nSessionID = 1\<rparr>, lc_account = ''alice'', lc_server = 1, lc_table = 0\<rparr>"

abbreviation token_event :: "string \<Rightarrow> unit gate_event" where "token_event tok \<equiv> Token_notify 7 3 tok 0"
abbreviation client_event :: "u64 \<Rightarrow> string \<Rightarrow> unit gate_event" where
  "client_event s tok \<equiv> Client_message s (Handshake_request (Some (login_key 7 tok))) 0"

definition waiting_room :: CGateService where
  "waiting_room = fst (client_onConnect 5 new_gate :: CGateService \<times> unit gate_out list)"

lemma waiting_room: "gate_ok waiting_room" "sess waiting_room 7 = None" "5 \<in> set (connections waiting_room)" "entering waiting_room = []"
  by (simp_all add: waiting_room_def client_onConnect_def set_conns_ok) (simp_all add: new_gate_def getSessionByPlayerID_def)


theorem enter_needs_matching_tokens_witness:
  "\<exists>cs :: CGateClientSession. issued [Client_connect 5, token_event (show_nat 42), client_event 5 (show_nat 42)] 7 (gs_szToken cs) \<and>
     presented [Client_connect 5, token_event (show_nat 42), client_event 5 (show_nat 42)] (gs_nSocketID cs) 7 (gs_szToken cs)"
proof -
  let ?g1 = "fst (d2g_player_token_notify_handler 7 3 (show_nat 42) 0 waiting_room :: CGateService \<times> unit gate_out list)"
  have k: "parse_key (login_key 7 (show_nat 42)) = Some (7, show_nat 42)" by (rule parse_login_key) simp
  obtain g2 where h: "(handshake 5 (login_key 7 (show_nat 42)) 0 ?g1 :: CGateService \<times> unit gate_out list) = (g2, [Invoke 3 (G2s_player_enter_request 7)])"
    using token_then_client [OF waiting_room(1,2) k refl, where gas = 3 and s = 5 and ?r1.0 = 0 and ?r2.0 = 0 and ?'d = unit] by blast
  have "Invoke 3 (G2s_player_enter_request 7) \<in> set (snd (gate_step [] (client_event 5 (show_nat 42))
      (gate_run [] [Client_connect 5, token_event (show_nat 42)] new_gate)))"
    using h by (simp add: gate_dispatch_def waiting_room_def)
  from enter_needs_matching_tokens [OF this] show ?thesis unfolding append.simps by blast
qed

section \<open>How a session can be taken over or left behind\<close>

text \<open>
  A client that knows no more than the id of a player who is in the game disconnects this player: the
  token of the handshake is not looked at.
\<close>

theorem handshake_disconnects_player:
  assumes "gate_ok g" "sess g p = Some cs" "gs_nState cs = eCSS_Normal" "gs_nSocketID cs \<in> set (connections g)"
    and "parse_key key = Some (p, tok)"
  shows "snd (handshake s key r g) = [Local (Shutdown (gs_nSocketID cs) True)] \<and>
    client_socket (fst (handshake s key r g)) p = None"
proof -
  let ?f = "\<lambda>cs. cs\<lparr>gs_nState := eCSS_ClientEnter, gs_szToken := tok\<rparr>"
  have ok': "gate_ok (set_session p ?f (unbindSocketID p g))"
    using assms(1) by (intro set_ok unbind_ok) (simp_all add: session_states eCSS_defs)
  have "sess (bindSocketID p s (set_session p ?f (unbindSocketID p g))) p = Some ((?f (cs\<lparr>gs_nSocketID := 0\<rparr>))\<lparr>gs_nSocketID := s\<rparr>)"
    using assms(1,2) by (simp add: sess_bind [OF ok'] sess_set [OF unbind_ok [OF assms(1)]] sess_unbind [OF assms(1)])
  then show ?thesis using assms by (simp add: handshake_def eCSS_defs client_socket_def)
qed

text \<open>
  When the dispatch service sends a token for a player who is in the game, the game service it names
  is not taken over: the player is sent to the old one again.
\<close>

theorem token_keeps_old_service:
  assumes "gate_ok g" "sess g p = Some cs" "gs_nState cs = eCSS_Normal"
  shows "\<exists>cs'. sess (fst (d2g_player_token_notify_handler p gas tok r g)) p = Some cs' \<and> gs_nGasID cs' = gs_nGasID cs \<and>
    gs_nState cs' = eCSS_TokenEnter \<and> gs_szToken cs' = tok"
proof -
  let ?f = "\<lambda>cs. cs\<lparr>gs_szToken := tok, gs_nState := eCSS_TokenEnter\<rparr>"
  have "sess (set_session p ?f (unbindSocketID p g)) p = Some (?f (cs\<lparr>gs_nSocketID := 0\<rparr>))"
    using assms by (simp add: sess_set [OF unbind_ok [OF assms(1)]] sess_unbind [OF assms(1)])
  then show ?thesis using assms by (simp add: d2g_player_token_notify_handler_def eCSS_defs)
qed

text \<open>
  Two clients present the token of player 7; the game service answers both requests to enter.  Between
  the answers a third client gives a token that nobody issued; the second answer connects it to the player.
\<close>

lemma example_keys: "parse_key (login_key 7 (show_nat 42)) = Some (7, show_nat 42)" "parse_key (login_key 7 (show_nat 43)) = Some (7, show_nat 43)"
  by (rule parse_login_key; simp)+

lemma example_tokens: "show_nat 42 \<noteq> show_nat 43"
  by (metis digits_value_show numeral_eq_iff num.distinct num.inject)

definition two_clients :: "unit gate_event list" where
  "two_clients = [Client_connect 5, Client_connect 6, Client_connect 9, token_event (show_nat 42), client_event 5 (show_nat 42),
     client_event 6 (show_nat 42), Enter_answered 0 (Enter_result eEC_Sucess)]"

lemmas gate_eval = new_gate_def client_onConnect_def gate_dispatch_def handshake_def d2g_player_token_notify_handler_def
  enter_answered_def enterGas_resumed_def enterGas_def createSession_def bindSocketID_def unbindSocketID_def set_session_def put_session_def
  getSessionByPlayerID_def getSessionBySocketID_def example_keys eCSS_defs error_codes Let_def

theorem late_answer_admits_stranger:
  "client_socket (gate_run [] (two_clients @ [client_event 9 (show_nat 43), Enter_answered 0 (Enter_result eEC_Sucess)]) new_gate) 7 = Some 9"
  by (simp add: two_clients_def client_socket_def gate_eval)

text \<open>The first of two clients with the same token stays bound to the player: what it sends is forwarded.\<close>

theorem old_client_keeps_session:
  "client_socket (gate_run [] two_clients new_gate) 7 = Some 6 \<and>
   snd (gate_step [] (Client_message 5 (Other_message ()) 0) (gate_run [] two_clients new_gate)) = [Local (Forward 7 3 ())]"
  by (simp add: two_clients_def client_socket_def gate_eval)

text \<open>A message for several players is not sent to those behind the first that has no client.\<close>

theorem broadcast_stops_early: "client_socket g p = None \<Longrightarrow> broadcast_loop (p # ps) d g = []"
  by simp

end
