(* ===== verification/Dispatch_Props.thy ===== *)
theory Dispatch_Props imports Dispatch_Service "HOL-Library.Multiset" begin

text \<open>
  The choice of the least loaded service, and the answers to the logins: none is answered twice, and each
  ends after at most four answers of the database and the user center.
\<close>

section \<open>The least loaded service\<close>

lemma least_loaded_none: "\<forall>x \<in> set m. n \<le> snd x \<Longrightarrow> least_loaded m n d = d"
  by (induction m n d rule: least_loaded.induct) auto

lemma least_loaded_some:
  "\<exists>x \<in> set m. snd x < n \<Longrightarrow> \<exists>k. (least_loaded m n d, k) \<in> set m \<and> (\<forall>x \<in> set m. k \<le> snd x)"
proof (induction m n d rule: least_loaded.induct)
  case (2 nID nCount m n d)
  show ?case
  proof (cases "nCount < n")
    case less: True
    show ?thesis
    proof (cases "\<exists>x \<in> set m. snd x < nCount")
      case True
      then obtain x k where x: "x \<in> set m" "snd x < nCount"
        and k: "(least_loaded m nCount nID, k) \<in> set m" "\<forall>x \<in> set m. k \<le> snd x" using 2(1) [OF less] by blast
      have "k \<le> nCount" using x k(2) by (meson less_imp_le order.trans)
      then show ?thesis using less k by auto
    next
      case False
      then have "least_loaded m nCount nID = nID" by (intro least_loaded_none) (auto simp: not_less)
      then show ?thesis using less False by (auto simp: not_less)
    qed
  next
    case more: False
    with 2(3) obtain x where x: "x \<in> set m" "snd x < n" by auto
    then obtain k where k: "(least_loaded m n d, k) \<in> set m" "\<forall>x \<in> set m. k \<le> snd x" using 2(2) [OF more] by blast
    have "k \<le> nCount" using x k(2) more by (meson less_imp_le not_less order.trans)
    then show ?thesis using more k by auto
  qed
qed simp

text \<open>No service, or only services with the largest count there is, or one whose count no other is below.\<close>

definition is_suitable :: "(u32, u32) omap \<Rightarrow> u32 \<Rightarrow> bool" where
  "is_suitable m n \<longleftrightarrow> (if list_all (\<lambda>x. snd x = UINT32_MAX) m then n = 0
     else list_ex (\<lambda>y. fst y = n \<and> list_all (\<lambda>x. snd y \<le> snd x) m) m)"

lemma below_max: "(k :: u32) < UINT32_MAX \<longleftrightarrow> k \<noteq> UINT32_MAX"
  by (simp add: UINT32_MAX_def word_order.not_eq_extremum)

lemma least_loaded_suitable: "is_suitable m (least_loaded m UINT32_MAX 0)"
proof (cases "\<exists>x \<in> set m. snd x < UINT32_MAX")
  case True
  then obtain k where k: "(least_loaded m UINT32_MAX 0, k) \<in> set m" "\<forall>x \<in> set m. k \<le> snd x"
    using least_loaded_some [of m UINT32_MAX 0] by blast
  have "\<not> list_all (\<lambda>x. snd x = UINT32_MAX) m" using True by (auto simp: below_max list_all_iff)
  moreover have "list_ex (\<lambda>y. fst y = least_loaded m UINT32_MAX 0 \<and> list_all (\<lambda>x. snd y \<le> snd x) m) m"
    unfolding list_ex_iff list_all_iff using k by (intro bexI [of _ "(least_loaded m UINT32_MAX 0, k)"]) simp_all
  ultimately show ?thesis by (simp add: is_suitable_def)
next
  case False
  then have "list_all (\<lambda>x. snd x = UINT32_MAX) m" by (auto simp: list_all_iff below_max)
  moreover have "least_loaded m UINT32_MAX 0 = 0" by (rule least_loaded_none) (use False in \<open>auto simp: not_less\<close>)
  ultimately show ?thesis by (simp add: is_suitable_def)
qed

text \<open>
  The game service, the gate and the user center that a login is given are those with the fewest
  players; 0 is given only when no service has reported a count (below the largest number).
\<close>

theorem suitable_is_least_loaded:
  "is_suitable (m_mapGasOnline c) (getSuitableGasID c) \<and> is_suitable (m_mapGateOnline c) (getSuitableGateID c) \<and>
   is_suitable (m_mapUCActive c) (getSuitableUCID c)"
  by (simp add: getSuitableGasID_def getSuitableGateID_def getSuitableUCID_def least_loaded_suitable)

section \<open>The answers to the logins\<close>

fun login_of :: "login_stage \<Rightarrow> SSessionInfo" where
  "login_of (Stage_select lc) = lc_session lc"
| "login_of (Stage_create lc uc) = lc_session lc"
| "login_of (Stage_insert lc uc p) = lc_session lc"
| "login_of (Stage_uc lc p) = lc_session lc"

text \<open>How many answers a login still needs at most.\<close>

fun rank :: "login_stage \<Rightarrow> nat" where
  "rank (Stage_select lc) = 4"
| "rank (Stage_create lc uc) = 3"
| "rank (Stage_insert lc uc p) = 2"
| "rank (Stage_uc lc p) = 1"

definition work :: "CDispatchService \<Rightarrow> nat" where "work d = sum_list (map rank (logins d))"

fun answered :: "dispatch_out \<Rightarrow> SSessionInfo list" where
  "answered (Respond s m) = [s]"
| "answered _ = []"

definition login_responses :: "dispatch_out list \<Rightarrow> SSessionInfo list" where
  "login_responses out = concat (map answered out)"

lemma login_responses_simps [simp]:
  "login_responses [] = []" "login_responses (x # out) = answered x @ login_responses out"
  "login_responses (out @ out') = login_responses out @ login_responses out'" "login_responses (login_failed lc e) = [lc_session lc]"
  by (simp_all add: login_responses_def login_failed_def)

text \<open>A part of a login gives one answer, waits again with a smaller rank, or ends without an answer.\<close>

definition ends_or_waits :: "SSessionInfo \<Rightarrow> nat \<Rightarrow> CDispatchService \<Rightarrow> CDispatchService \<times> dispatch_out list \<Rightarrow> bool" where
  "ends_or_waits s n d r \<longleftrightarrow>
     logins (fst r) = logins d \<and> login_responses (snd r) \<in> {[], [s]} \<or>
     login_responses (snd r) = [] \<and> (\<exists>st. logins (fst r) = logins d @ [st] \<and> login_of st = s \<and> rank st < n)"

lemma ask_uc_waits: "n > 1 \<Longrightarrow> ends_or_waits (lc_session lc) n d (ask_uc lc uc p d)"
  by (simp add: ends_or_waits_def ask_uc_def wait_for_def Let_def)

lemma after_select_ends: "ends_or_waits (lc_session lc) 4 d (after_select lc a d)"
  using ask_uc_waits [of 4 lc d] unfolding after_select_def
  by (auto simp: Let_def wait_for_def split: db_answer.splits list.splits option.splits)
    (auto simp: ends_or_waits_def)

lemma after_create_ends: "ends_or_waits (lc_session lc) 3 d (after_create lc uc gmt a d)"
  unfolding after_create_def
  by (auto simp: Let_def wait_for_def ends_or_waits_def split: db_answer.splits list.splits option.splits)

lemma after_insert_ends: "ends_or_waits (lc_session lc) 2 d (after_insert lc uc p a d)"
  using ask_uc_waits [of 2 lc d] by (auto simp: after_insert_def) (auto simp: ends_or_waits_def)

lemma after_uc_ends: "ends_or_waits (lc_session lc) 1 d (after_uc lc p tok a d)"
  by (auto simp: after_uc_def ends_or_waits_def Let_def split: option.splits)

text \<open>What an event asks for and what it answers.\<close>

fun login_requested :: "dispatch_event \<Rightarrow> SSessionInfo list" where
  "login_requested (Login_request s a n) = [s]"
| "login_requested _ = []"

lemma without: "i < length xs \<Longrightarrow> mset xs = add_mset (xs ! i) (mset (take i xs @ drop (Suc i) xs))"
  by (metis id_take_nth_drop mset.simps(2) mset_append union_mset_add_mset_right)

lemma work_mset: "work d = sum_mset (image_mset rank (mset (logins d)))"
  by (simp add: work_def flip: sum_mset_sum_list)

text \<open>One step never makes more answers than were asked for, and an answer to a waiting login is progress.\<close>

definition sound_step :: "SSessionInfo list \<Rightarrow> CDispatchService \<Rightarrow> CDispatchService \<times> dispatch_out list \<Rightarrow> bool" where
  "sound_step req d r \<longleftrightarrow>
     mset (login_responses (snd r)) + image_mset login_of (mset (logins (fst r))) \<subseteq># mset req + image_mset login_of (mset (logins d))"

lemma resumed_sound:
  assumes t: "take_login i d = Some (st, d')" and r: "ends_or_waits (login_of st) (rank st) d' r"
  shows "sound_step [] d r \<and> work (fst r) < work d"
proof -
  have m: "mset (logins d) = add_mset st (mset (logins d'))"
    using t without [of i "logins d"] by (auto simp: take_login_def split: if_splits)
  have w: "0 < rank st" by (cases st) auto
  from r show ?thesis unfolding ends_or_waits_def sound_step_def work_mset m using w
    by (auto simp: work_def)
qed

lemma db_result_sound:
  "take_login i d = Some (st, d') \<Longrightarrow> rank st \<noteq> 1 \<Longrightarrow>
     sound_step [] d (dispatch_step (Db_result i gmt a) d) \<and> work (fst (dispatch_step (Db_result i gmt a) d)) < work d"
  by (cases st) (auto intro!: resumed_sound simp: after_select_ends after_create_ends after_insert_ends)

lemma uc_result_sound:
  "take_login i d = Some (st, d') \<Longrightarrow> rank st = 1 \<Longrightarrow>
     sound_step [] d (dispatch_step (Uc_result i tok u) d) \<and> work (fst (dispatch_step (Uc_result i tok u) d)) < work d"
  by (cases st) (auto intro!: resumed_sound simp: after_uc_ends simp flip: One_nat_def)

lemma step_sound: "sound_step (login_requested e) d (dispatch_step e d)"
proof (cases e)
  case (Db_result i gmt a)
  show ?thesis
  proof (cases "take_login i d")
    case (Some x)
    then show ?thesis using Db_result db_result_sound [of i d "fst x" "snd x" gmt a]
      by (cases "fst x"; cases x) (auto simp: sound_step_def)
  qed (simp add: Db_result sound_step_def)
next
  case (Uc_result i tok u)
  show ?thesis
  proof (cases "take_login i d")
    case (Some x)
    then show ?thesis using Uc_result uc_result_sound [of i d "fst x" "snd x" tok u]
      by (cases "fst x"; cases x) (auto simp: sound_step_def)
  qed (simp add: Uc_result sound_step_def)
qed (simp_all add: sound_step_def l2d_validate_login_request_handler_def wait_for_def Let_def)

fun dispatch_run :: "dispatch_event list \<Rightarrow> CDispatchService \<Rightarrow> CDispatchService \<times> dispatch_out list" where
  "dispatch_run [] d = (d, [])"
| "dispatch_run (e # es) d = (let (d1, out1) = dispatch_step e d; (d2, out2) = dispatch_run es d1 in (d2, out1 @ out2))"

definition login_requests :: "dispatch_event list \<Rightarrow> SSessionInfo list" where
  "login_requests es = concat (map login_requested es)"

lemma run_sound: "sound_step (login_requests es) d (dispatch_run es d)"
proof (induction es arbitrary: d)
  case (Cons e es)
  let ?d = "fst (dispatch_step e d)"
  have "mset (login_responses (snd (dispatch_step e d))) + (mset (login_responses (snd (dispatch_run es ?d))) +
      image_mset login_of (mset (logins (fst (dispatch_run es ?d))))) \<subseteq>#
    mset (login_responses (snd (dispatch_step e d))) + (mset (login_requests es) + image_mset login_of (mset (logins ?d)))"
    using Cons.IH [of ?d] by (simp add: sound_step_def)
  also have "\<dots> \<subseteq># mset (login_requests es) + (mset (login_requested e) + image_mset login_of (mset (logins d)))"
    using step_sound [of e d] by (simp add: sound_step_def ac_simps)
  finally show ?case by (simp add: sound_step_def login_requests_def case_prod_beta ac_simps)
qed (simp add: sound_step_def login_requests_def)

text \<open>
  C30: No login is answered more often than it was asked for, whatever the database and the user center
  answer and in whatever order; and each answer that a waiting coroutine gets takes it closer to its end,
  which is at most four answers away.
\<close>

theorem login_ends_once:
  "case dispatch_run es \<lparr>m_nGlobalDbServiceID = g, m_nAccountTblCount = n, m_pOnlineCountMgr = new_counts, logins = []\<rparr> of (d, out) \<Rightarrow>
     mset (login_responses out) + image_mset login_of (mset (logins d)) \<subseteq># mset (login_requests es) \<and>
     work d \<le> 4 * length (logins d) \<and>
     (case take_login i d of None \<Rightarrow> True
      | Some (st, _) \<Rightarrow> work (fst (dispatch_step (if rank st = 1 then Uc_result i tok u else Db_result i gmt a) d)) < work d)"
proof -
  let ?d = "\<lparr>m_nGlobalDbServiceID = g, m_nAccountTblCount = n, m_pOnlineCountMgr = new_counts, logins = []\<rparr>"
  have le: "sum_list (map rank xs) \<le> 4 * length xs" for xs
  proof (induction xs)
    case (Cons st xs)
    then show ?case by (cases st) auto
  qed simp
  have progress: "case take_login i d of None \<Rightarrow> True
      | Some (st, _) \<Rightarrow> work (fst (dispatch_step (if rank st = 1 then Uc_result i tok u else Db_result i gmt a) d)) < work d" for d
  proof (cases "take_login i d")
    case (Some x)
    then show ?thesis using db_result_sound [of i d "fst x" "snd x"] uc_result_sound [of i d "fst x" "snd x"]
      by (cases x) (simp del: dispatch_step.simps)
  qed simp
  show ?thesis using run_sound [of es ?d] le [of "logins (fst (dispatch_run es ?d))"] progress [of "fst (dispatch_run es ?d)"]
    unfolding case_prod_beta by (simp add: sound_step_def work_def [of "fst (dispatch_run es ?d)"] del: dispatch_step.simps)
qed

end
