(* ===== verification/Static_Config.thy ===== *)
theory Static_Config imports Text_Parsers Ordered_Map begin

text \<open>
  The static tables of the game service (\<open>item_\<close>, \<open>lv_\<close>, \<open>hero_\<close> and \<open>hero_patch_static_config.cpp\<close>,
  \<open>base_static_config_mgr.cpp\<close>), loaded from CSV files with the parser of \<open>Text_Parsers\<close>.  The text of
  floating-point numbers is a parameter \<open>read_float\<close>.
\<close>

section \<open>Reading a cell\<close>

text \<open>
  \<open>CCSVParser::getValue<T>\<close>; the callers ignore its result, so what counts is the value the stream
  leaves: 0 when there is no number, the largest value when it is out of range, the old value when
  the cell does not exist.
\<close>

definition stream_unsigned :: "nat \<Rightarrow> string \<Rightarrow> nat" where
  "stream_unsigned w s = (case read_number s of None \<Rightarrow> 0
     | Some (neg, n) \<Rightarrow> if n < 2 ^ w then (if neg then (2 ^ w - n) mod 2 ^ w else n) else 2 ^ w - 1)"

definition stream_word :: "string \<Rightarrow> string" where
  "stream_word s = takeWhile (\<lambda>c. \<not> is_space c) (dropWhile is_space s)"

definition cell_unsigned :: "nat \<Rightarrow> SCSVParserInfo \<Rightarrow> nat \<Rightarrow> string \<Rightarrow> nat \<Rightarrow> nat" where
  "cell_unsigned w p nRow szColumn old = (case getValueByName p nRow szColumn of None \<Rightarrow> old
     | Some s \<Rightarrow> stream_unsigned w (if s = [] then ''0'' else s))"

definition cell_word :: "SCSVParserInfo \<Rightarrow> nat \<Rightarrow> string \<Rightarrow> string" where
  "cell_word p nRow szColumn = (case getValueByName p nRow szColumn of None \<Rightarrow> [] | Some s \<Rightarrow> stream_word s)"

definition cell_float :: "(string \<Rightarrow> 'f) \<Rightarrow> 'f \<Rightarrow> SCSVParserInfo \<Rightarrow> nat \<Rightarrow> string \<Rightarrow> 'f" where
  "cell_float read_float zero p nRow szColumn =
     (case getValueByName p nRow szColumn of None \<Rightarrow> zero | Some s \<Rightarrow> read_float s)"

abbreviation cell_u32 :: "SCSVParserInfo \<Rightarrow> nat \<Rightarrow> string \<Rightarrow> u32" where
  "cell_u32 p nRow szColumn \<equiv> of_nat (cell_unsigned 32 p nRow szColumn 0)"
abbreviation cell_u16 :: "SCSVParserInfo \<Rightarrow> nat \<Rightarrow> string \<Rightarrow> u16" where
  "cell_u16 p nRow szColumn \<equiv> of_nat (cell_unsigned 16 p nRow szColumn 0)"

section \<open>Costs and skills\<close>

record SAttributeValue =
  av_nType :: u32
  av_nValue :: u32

text \<open>
  Parts such as \<open>2:500\<close> with \<open>;\<close> between them; a part that is no pair of numbers stops the loading.
  (\<open>split\<close> ends, as its delimiters are not empty.)
\<close>

fun parse_costs :: "string list \<Rightarrow> SAttributeValue list option" where
  "parse_costs [] = Some []"
| "parse_costs (c # cs) = (case split_str c '':'' of
     Some [t, v] \<Rightarrow> (case (read_unsigned 32 t, read_unsigned 32 v) of
        (Some i, Some j) \<Rightarrow> map_option ((#) \<lparr>av_nType = of_int i, av_nValue = of_int j\<rparr>) (parse_costs cs)
      | _ \<Rightarrow> None)
   | _ \<Rightarrow> None)"

definition parse_cost_cell :: "string \<Rightarrow> SAttributeValue list option" where
  "parse_cost_cell szCost = Option.bind (split_str szCost '';'') parse_costs"

fun parse_ids :: "string list \<Rightarrow> u32 list option" where
  "parse_ids [] = Some []"
| "parse_ids (s # ss) = (case read_unsigned 32 s of None \<Rightarrow> None
     | Some i \<Rightarrow> map_option ((#) (of_int i)) (parse_ids ss))"

section \<open>The tables\<close>

record SItemConfigInfo =
  item_nID :: u32
  item_szName :: string
  item_nType :: u32
  item_nSubType :: u32

record SLvConfigInfo =
  lv_nID :: u32
  nBaseWorkGold :: u32
  nBaseAdventureGold :: u32

record SHeroPatchConfigInfo =
  patch_nID :: u32
  patch_szName :: string
  patch_nActiveReqItemID :: u32
  patch_nActiveReqPatchID :: u32
  patch_nActiveReqHeroID :: u32
  patch_nActiveReqLv :: u16
  patch_vecActiveCost :: "SAttributeValue list"

record 'f SHeroConfigInfo =
  hero_nID :: u32
  hero_szName :: string
  nQuality :: u16
  nOccupation :: u16
  nSex :: u16
  nLevel :: u16
  nActiveReqLv :: u16
  nActiveReqPatchID :: u32
  vecActiveCost :: "SAttributeValue list"
  nBaseHP :: u32
  nGrowupHP :: u32
  nBaseDef :: u32
  nGrowupDef :: u32
  nBaseAtk :: u32
  nGrowupAtk :: u32
  nAtkCD :: 'f
  nCrit :: 'f
  nDodge :: 'f
  nAvoidInjury :: 'f
  nNormalSkillID :: u32
  vecSkillID :: "u32 list"

definition item_row :: "SCSVParserInfo \<Rightarrow> nat \<Rightarrow> SItemConfigInfo option" where
  "item_row p i = Some \<lparr>item_nID = cell_u32 p i ''id'', item_szName = cell_word p i ''name'',
     item_nType = cell_u32 p i ''type'', item_nSubType = cell_u32 p i ''sub_type''\<rparr>"

definition lv_row :: "SCSVParserInfo \<Rightarrow> nat \<Rightarrow> SLvConfigInfo option" where
  "lv_row p i = Some \<lparr>lv_nID = cell_u32 p i ''lv'', nBaseWorkGold = cell_u32 p i ''base_work_gold'',
     nBaseAdventureGold = cell_u32 p i ''base_adventure_gold''\<rparr>"

definition patch_row :: "SCSVParserInfo \<Rightarrow> nat \<Rightarrow> SHeroPatchConfigInfo option" where
  "patch_row p i = map_option (\<lambda>cost. \<lparr>patch_nID = cell_u32 p i ''id'', patch_szName = cell_word p i ''name'',
     patch_nActiveReqItemID = cell_u32 p i ''req_item_id'', patch_nActiveReqPatchID = cell_u32 p i ''req_patch_id'',
     patch_nActiveReqHeroID = cell_u32 p i ''req_hero_id'', patch_nActiveReqLv = cell_u16 p i ''req_lv'',
     patch_vecActiveCost = cost\<rparr>) (parse_cost_cell (cell_word p i ''cost''))"

definition hero_row :: "(string \<Rightarrow> 'f) \<Rightarrow> 'f \<Rightarrow> SCSVParserInfo \<Rightarrow> nat \<Rightarrow> 'f SHeroConfigInfo option" where
  "hero_row rf z p i = (case (parse_cost_cell (cell_word p i ''cost''), Option.bind (split_str (cell_word p i ''skill'') '';'') parse_ids) of
     (Some cost, Some skills) \<Rightarrow> Some
      \<lparr>hero_nID = cell_u32 p i ''id'', hero_szName = cell_word p i ''name'', nQuality = cell_u16 p i ''quality'',
       nOccupation = cell_u16 p i ''occupation'', nSex = cell_u16 p i ''sex'', nLevel = cell_u16 p i ''level'',
       nActiveReqLv = cell_u16 p i ''req_lv'', nActiveReqPatchID = cell_u32 p i ''req_patch_id'', vecActiveCost = cost,
       nBaseHP = cell_u32 p i ''base_hp'', nGrowupHP = cell_u32 p i ''grow_up_hp'', nBaseDef = cell_u32 p i ''base_def'',
       nGrowupDef = cell_u32 p i ''grow_up_def'', nBaseAtk = cell_u32 p i ''base_atk'', nGrowupAtk = cell_u32 p i ''grow_up_atk'',
       nAtkCD = cell_float rf z p i ''atk_cd'', nCrit = cell_float rf z p i ''crit'', nDodge = cell_float rf z p i ''dodge'',
       nAvoidInjury = cell_float rf z p i ''avoid_injury'', nNormalSkillID = cell_u32 p i ''normal_skill'', vecSkillID = skills\<rparr>
   | _ \<Rightarrow> None)"

text \<open>
  The constructor of \<open>SHeroConfigInfo\<close> leaves \<open>nNormalSkillID\<close> unset; it is 0 here when the file has no
  such column.
\<close>

text \<open>
  \<open>init\<close> of a table: its file is read into the map by id, a later row over an earlier one; a row that
  cannot be read ends the loading with an error.
\<close>

fun load_rows :: "(nat \<Rightarrow> 'r option) \<Rightarrow> ('r \<Rightarrow> u32) \<Rightarrow> nat list \<Rightarrow> (u32, 'r) omap \<Rightarrow> (u32, 'r) omap option" where
  "load_rows row key [] m = Some m"
| "load_rows row key (i # is) m = (case row i of None \<Rightarrow> None | Some r \<Rightarrow> load_rows row key is (om_put (key r) r m))"

definition table_init :: "(SCSVParserInfo \<Rightarrow> nat \<Rightarrow> 'r option) \<Rightarrow> ('r \<Rightarrow> u32) \<Rightarrow> string \<Rightarrow> string option \<Rightarrow> (u32, 'r) omap option" where
  "table_init row key name file = (case csv_load None name file (CHR '','') of
     (True, Some p) \<Rightarrow> load_rows (row p) key [0..<getCsvRowCount p] []
   | _ \<Rightarrow> None)"

definition CItemStaticConfig_init :: "string option \<Rightarrow> (u32, SItemConfigInfo) omap option" where
  "CItemStaticConfig_init = table_init item_row item_nID ''csv/item.csv''"
definition CLvStaticConfig_init :: "string option \<Rightarrow> (u32, SLvConfigInfo) omap option" where
  "CLvStaticConfig_init = table_init lv_row lv_nID ''csv/lv.csv''"
definition CHeroPatchStaticConfig_init :: "string option \<Rightarrow> (u32, SHeroPatchConfigInfo) omap option" where
  "CHeroPatchStaticConfig_init = table_init patch_row patch_nID ''csv/hero_patch.csv''"
definition CHeroStaticConfig_init :: "(string \<Rightarrow> 'f) \<Rightarrow> 'f \<Rightarrow> string option \<Rightarrow> (u32, 'f SHeroConfigInfo) omap option" where
  "CHeroStaticConfig_init rf z = table_init (hero_row rf z) hero_nID ''csv/hero.csv''"

record 'f CBaseStaticConfigMgr =
  mapLvConfigInfo :: "(u32, SLvConfigInfo) omap"
  mapItemConfigInfo :: "(u32, SItemConfigInfo) omap"
  mapHeroConfigInfo :: "(u32, 'f SHeroConfigInfo) omap"
  mapHeroPatchConfigInfo :: "(u32, SHeroPatchConfigInfo) omap"

text \<open>\<open>file\<close>: the files by name.  In a release build the first table that does not load ends the start.\<close>

definition static_config_init :: "(string \<Rightarrow> 'f) \<Rightarrow> 'f \<Rightarrow> (string \<Rightarrow> string option) \<Rightarrow> 'f CBaseStaticConfigMgr option" where
  "static_config_init rf z file =
    (case (CLvStaticConfig_init (file ''csv/lv.csv''), CItemStaticConfig_init (file ''csv/item.csv''),
           CHeroStaticConfig_init rf z (file ''csv/hero.csv''), CHeroPatchStaticConfig_init (file ''csv/hero_patch.csv'')) of
       (Some l, Some i, Some h, Some q) \<Rightarrow> Some \<lparr>mapLvConfigInfo = l, mapItemConfigInfo = i, mapHeroConfigInfo = h,
         mapHeroPatchConfigInfo = q\<rparr>
     | _ \<Rightarrow> None)"

definition getItemConfigInfo :: "'f CBaseStaticConfigMgr \<Rightarrow> u32 \<Rightarrow> SItemConfigInfo option" where
  "getItemConfigInfo cfg nID = om_get (mapItemConfigInfo cfg) nID"
definition getLvConfigInfo :: "'f CBaseStaticConfigMgr \<Rightarrow> u32 \<Rightarrow> SLvConfigInfo option" where
  "getLvConfigInfo cfg nID = om_get (mapLvConfigInfo cfg) nID"
definition getHeroConfigInfo :: "'f CBaseStaticConfigMgr \<Rightarrow> u32 \<Rightarrow> 'f SHeroConfigInfo option" where
  "getHeroConfigInfo cfg nID = om_get (mapHeroConfigInfo cfg) nID"
definition getHeroPatchConfigInfo :: "'f CBaseStaticConfigMgr \<Rightarrow> u32 \<Rightarrow> SHeroPatchConfigInfo option" where
  "getHeroPatchConfigInfo cfg nID = om_get (mapHeroPatchConfigInfo cfg) nID"

end
