(* ===== verification/Game_Service.thy ===== *)
theory Game_Service imports Player_Modules Static_Config Service_Messages begin

text \<open>
  The game service (\<open>service/game_service\<close>): a player from its creation to its end (\<open>player.cpp\<close>), the
  players (\<open>player_mgr.cpp\<close>), the messages of the other services (\<open>game_service_message_handler.cpp\<close>)
  and the requests of the clients (\<open>player_hero_message_handler.cpp\<close>, \<open>player_message_handler.cpp\<close>,
  \<open>gm_command_mgr.cpp\<close>).

  \<open>createPlayer\<close> waits in its coroutine for the answer of the database service to a NOP; it is cut there
  into the part before and the part after, and \<open>waiting\<close> are the coroutines that wait.
\<close>

type_synonym game_out = "player_out service_out"

abbreviation local_out :: "player_out list \<Rightarrow> game_out list" where "local_out \<equiv> map Local"

text \<open>A \<open>let\<close> for an operation that returns a player and what it sends.\<close>

definition then_do :: "CPlayer \<times> player_out list \<Rightarrow> (CPlayer \<Rightarrow> CPlayer \<times> player_out list) \<Rightarrow> CPlayer \<times> player_out list" where
  "then_do r f = (case r of (p, out) \<Rightarrow> case f p of (p', out') \<Rightarrow> (p', out @ out'))"

section \<open>A player\<close>

text \<open>\<open>onInit\<close> sends the first heartbeat, \<open>onLoadData\<close> the selects of the modules.\<close>

definition onInit :: "CPlayer \<Rightarrow> CPlayer \<times> game_out list" where
  "onInit p = (p\<lparr>m_eStatus := ePST_Init, m_tickHeartbeat := True\<rparr>,
     [Invoke (getUCServiceID (m_nPlayerID p)) (S2u_player_heartbeat_request (m_nPlayerID p))])"

definition onLoadData :: "CPlayer \<Rightarrow> CPlayer" where
  "onLoadData p = (if m_eStatus p \<noteq> ePST_Init then p
     else p\<lparr>m_eStatus := ePST_LoadData, loading := [ePMT_Attribute, ePMT_Item, ePMT_Hero]\<rparr>)"

definition onBackupPlayer :: "CPlayer \<Rightarrow> player_out list" where
  "onBackupPlayer p = (let db = getDbServiceID (m_nPlayerID p) in
     [Update db (Db_player_base (backup_attributes p)), Update db (Db_player_item (backup_items p)),
      Update db (Db_player_hero (backup_heroes p))])"

definition onPlayerLogin :: "u64 \<Rightarrow> CPlayer \<Rightarrow> CPlayer \<times> player_out list" where
  "onPlayerLogin gmt p =
    (let p1 = p\<lparr>m_eStatus := ePST_Login\<rparr>; (p2, out) = login_attributes gmt p1 in
     (p2\<lparr>m_eStatus := ePST_Normal, m_tickerBackup := True\<rparr>,
      out @ login_items p2 @ login_heroes p2 @ sendClientMessage p2 S2c_player_login_complete_notify))"

definition onPlayerLogout :: "u64 \<Rightarrow> CPlayer \<Rightarrow> CPlayer \<times> player_out list" where
  "onPlayerLogout gmt p =
    (let p' = (logout_attributes gmt (p\<lparr>m_eStatus := ePST_Logout\<rparr>))\<lparr>m_tickerBackup := False\<rparr> in (p', onBackupPlayer p'))"

section \<open>The players of the service\<close>

record CGameService =
  m_mapPlayer :: "(u64, CPlayer) omap"
  waiting :: "(u64 \<times> SSessionInfo) list"

definition new_game :: CGameService where "new_game = \<lparr>m_mapPlayer = [], waiting = []\<rparr>"

definition getPlayer :: "CGameService \<Rightarrow> u64 \<Rightarrow> CPlayer option" where
  "getPlayer g nPlayerID = (case om_get (m_mapPlayer g) nPlayerID of None \<Rightarrow> None
     | Some p \<Rightarrow> if m_eStatus p \<noteq> ePST_Normal then None else Some p)"

definition put_player :: "CPlayer \<Rightarrow> CGameService \<Rightarrow> CGameService" where
  "put_player p g = g\<lparr>m_mapPlayer := om_put (m_nPlayerID p) p (m_mapPlayer g)\<rparr>"

definition destroyPlayer :: "u64 \<Rightarrow> CGameService \<Rightarrow> CGameService" where
  "destroyPlayer nPlayerID g = g\<lparr>m_mapPlayer := om_del nPlayerID (m_mapPlayer g)\<rparr>"

definition getPlayerCount :: "CGameService \<Rightarrow> u32" where
  "getPlayerCount g = of_nat (length (m_mapPlayer g))"

text \<open>\<open>createPlayer\<close> up to the NOP; \<open>None\<close> when the player is there already.\<close>

definition createPlayer :: "u64 \<Rightarrow> u32 \<Rightarrow> CGameService \<Rightarrow> (CGameService \<times> game_out list) option" where
  "createPlayer nPlayerID nGateServiceID g =
    (case om_get (m_mapPlayer g) nPlayerID of Some p \<Rightarrow> None
     | None \<Rightarrow> let (p, out) = onInit (new_player nPlayerID nGateServiceID) in
         Some (put_player (onLoadData p) g, out))"

text \<open>\<open>createPlayer\<close> after the answer: the player that is in the map now, unless there is an error.\<close>

definition createPlayer_resumed :: "u64 \<Rightarrow> bool \<Rightarrow> CGameService \<Rightarrow> CPlayer option \<times> CGameService" where
  "createPlayer_resumed nPlayerID ok g =
    (case om_get (m_mapPlayer g) nPlayerID of None \<Rightarrow> (None, g)
     | Some p \<Rightarrow> if \<not> ok then (None, destroyPlayer nPlayerID g)
         else if m_setModuleLoadDataError p \<noteq> [] then (None, destroyPlayer nPlayerID g)
         else (Some p, g))"

section \<open>The messages of the other services\<close>

definition g2s_player_enter_request_handler ::
    "SSessionInfo \<Rightarrow> u64 \<Rightarrow> u64 \<Rightarrow> CGameService \<Rightarrow> CGameService \<times> game_out list" where
  "g2s_player_enter_request_handler s nPlayerID gmt g =
    (case getPlayer g nPlayerID of
       None \<Rightarrow> (case createPlayer nPlayerID (nFromServiceID s) g of
           None \<Rightarrow> (g, [Respond s (G2s_player_enter_response nPlayerID eEC_Login_CreatePlayerError)])
         | Some (g', out) \<Rightarrow> (g'\<lparr>waiting := waiting g' @ [(nPlayerID, s)]\<rparr>, out))
     | Some p \<Rightarrow>
         (let nGateID = m_nGateServiceID p; (p1, out1) = onPlayerLogout gmt p;
              kick = (if nGateID \<noteq> nFromServiceID s then [Send nGateID (S2g_kick_player_notify nPlayerID)] else []);
              (p2, out2) = onPlayerLogin gmt (p1\<lparr>m_nGateServiceID := nFromServiceID s\<rparr>)
          in (put_player p2 g,
              local_out out1 @ kick @ [Respond s (G2s_player_enter_response nPlayerID eEC_Sucess)] @ local_out out2)))"

text \<open>The answer to the NOP of the coroutine at this place of \<open>waiting\<close>.\<close>

definition nop_answer :: "nat \<Rightarrow> bool \<Rightarrow> u64 \<Rightarrow> CGameService \<Rightarrow> CGameService \<times> game_out list" where
  "nop_answer i ok gmt g = (if i \<ge> length (waiting g) then (g, [])
     else let (nPlayerID, s) = waiting g ! i; g' = g\<lparr>waiting := take i (waiting g) @ drop (i + 1) (waiting g)\<rparr> in
       (case createPlayer_resumed nPlayerID ok g' of
          (None, g'') \<Rightarrow> (g'', [Respond s (G2s_player_enter_response nPlayerID eEC_Login_CreatePlayerError)])
        | (Some p, g'') \<Rightarrow> (let (p', out) = onPlayerLogin gmt p in
            (put_player p' g'', Respond s (G2s_player_enter_response nPlayerID eEC_Sucess) # local_out out))))"

datatype load_answer = Attributes "player_base option option" | Items "player_item option option" | Heroes "player_hero option option"

fun answer_type :: "load_answer \<Rightarrow> EPlayerModuleType" where
  "answer_type (Attributes _) = ePMT_Attribute"
| "answer_type (Items _) = ePMT_Item"
| "answer_type (Heroes _) = ePMT_Hero"

fun load_module :: "load_answer \<Rightarrow> CPlayer \<Rightarrow> CPlayer" where
  "load_module (Attributes a) p = load_attributes a p"
| "load_module (Items a) p = load_items a p"
| "load_module (Heroes a) p = load_heroes a p"

text \<open>The answer to a select of a player; it is dropped when no such select is waiting.\<close>

definition select_answer :: "u64 \<Rightarrow> load_answer \<Rightarrow> CGameService \<Rightarrow> CGameService \<times> game_out list" where
  "select_answer nPlayerID a g = (case om_get (m_mapPlayer g) nPlayerID of None \<Rightarrow> (g, [])
     | Some p \<Rightarrow> if answer_type a \<notin> set (loading p) then (g, [])
         else (put_player (load_module a (p\<lparr>loading := remove1 (answer_type a) (loading p)\<rparr>)) g, []))"

definition g2s_player_leave_notify_handler :: "u64 \<Rightarrow> u64 \<Rightarrow> CGameService \<Rightarrow> CGameService \<times> game_out list" where
  "g2s_player_leave_notify_handler nPlayerID gmt g = (destroyPlayer nPlayerID g,
     case getPlayer g nPlayerID of None \<Rightarrow> []
     | Some p \<Rightarrow> local_out (snd (onPlayerLogout gmt p)) @ [Send (getUCServiceID nPlayerID) (S2u_player_leave_notify nPlayerID)])"

definition u2s_kick_player_notify_handler :: "u64 \<Rightarrow> u64 \<Rightarrow> CGameService \<Rightarrow> CGameService \<times> game_out list" where
  "u2s_kick_player_notify_handler nPlayerID gmt g = (destroyPlayer nPlayerID g,
     case getPlayer g nPlayerID of None \<Rightarrow> []
     | Some p \<Rightarrow> local_out (snd (onPlayerLogout gmt p)) @ [Send (m_nGateServiceID p) (S2g_kick_player_notify nPlayerID)])"

definition g2s_player_heartbeat_notify_handler :: "SSessionInfo \<Rightarrow> u64 \<Rightarrow> CGameService \<Rightarrow> CGameService \<times> game_out list" where
  "g2s_player_heartbeat_notify_handler s nPlayerID g =
    (case getPlayer g nPlayerID of
       None \<Rightarrow> (g, [Send (nFromServiceID s) (S2g_kick_player_notify nPlayerID)])
     | Some p \<Rightarrow> if m_nGateServiceID p \<noteq> nFromServiceID s then (g, [Send (nFromServiceID s) (S2g_kick_player_notify nPlayerID)])
         else (g, []))"

text \<open>\<open>onGateDisconnect\<close>: every player of the gate, whatever its status, is logged out and destroyed.\<close>

definition onGateDisconnect :: "u32 \<Rightarrow> u64 \<Rightarrow> CGameService \<Rightarrow> CGameService \<times> game_out list" where
  "onGateDisconnect nGateServiceID gmt g =
    (let gone = filter (\<lambda>(k, p). m_nGateServiceID p = nGateServiceID) (m_mapPlayer g) in
     (fold (\<lambda>(k, p). destroyPlayer (m_nPlayerID p)) gone g,
      concat (map (\<lambda>(k, p). local_out (snd (onPlayerLogout gmt p)) @
        [Send (getUCServiceID (m_nPlayerID p)) (S2u_player_leave_notify (m_nPlayerID p))]) gone)))"

definition heartbeat_tick :: "u64 \<Rightarrow> CGameService \<Rightarrow> CGameService \<times> game_out list" where
  "heartbeat_tick nPlayerID g = (case om_get (m_mapPlayer g) nPlayerID of None \<Rightarrow> (g, [])
     | Some p \<Rightarrow> (g, [Invoke (getUCServiceID nPlayerID) (S2u_player_heartbeat_request nPlayerID)]))"

definition heartbeat_answer :: "u64 \<Rightarrow> bool \<Rightarrow> CGameService \<Rightarrow> CGameService \<times> game_out list" where
  "heartbeat_answer nPlayerID ok g = (if ok then g else destroyPlayer nPlayerID g, [])"

definition backup_tick :: "u64 \<Rightarrow> CGameService \<Rightarrow> CGameService \<times> game_out list" where
  "backup_tick nPlayerID g = (case om_get (m_mapPlayer g) nPlayerID of None \<Rightarrow> (g, [])
     | Some p \<Rightarrow> (g, if m_tickerBackup p then local_out (onBackupPlayer p) else []))"

definition game_onServiceConnect :: "string \<Rightarrow> u32 \<Rightarrow> CGameService \<Rightarrow> CGameService \<times> game_out list" where
  "game_onServiceConnect szType nServiceID g =
     (g, if szType = ''dispatch'' then [Send nServiceID (S2d_online_count_notify (getPlayerCount g))] else [])"

definition game_onServiceDisconnect :: "string \<Rightarrow> u32 \<Rightarrow> u64 \<Rightarrow> CGameService \<Rightarrow> CGameService \<times> game_out list" where
  "game_onServiceDisconnect szType nServiceID gmt g = (if szType = ''gate'' then onGateDisconnect nServiceID gmt g else (g, []))"

definition game_onNotifyOnlineCount :: "CGameService \<Rightarrow> CGameService \<times> game_out list" where
  "game_onNotifyOnlineCount g = (g, [Broadcast ''dispatch'' (S2d_online_count_notify (getPlayerCount g))])"

section \<open>The requests of the clients\<close>

text \<open>The checks of \<open>c2s_active_hero_request_handler\<close> in their order, the price paid and the hero activated.\<close>

definition can_pay :: "CPlayer \<Rightarrow> SAttributeValue list \<Rightarrow> bool" where
  "can_pay p cost = list_all (\<lambda>c. \<not> sint (getAttribute p (av_nType c)) < uint (av_nValue c)) cost"

text \<open>The price is an \<open>int32_t\<close> when its sign is changed.\<close>

fun pay :: "SAttributeValue list \<Rightarrow> CPlayer \<Rightarrow> CPlayer \<times> player_out list" where
  "pay [] p = (p, [])"
| "pay (c # cs) p = then_do (addAttribute (av_nType c) (scast (- av_nValue c)) p) (pay cs)"

definition hero_refused :: "'f SHeroConfigInfo option \<Rightarrow> CPlayer \<Rightarrow> nat option" where
  "hero_refused info p = (case info of None \<Rightarrow> Some eEC_Hero_NotFoundHeroConfig
     | Some h \<Rightarrow> if isHeroActive p (hero_nID h) then Some eEC_Hero_HeroDoubleActive
         else if m_nLv (attribute_module p) < ucast (nActiveReqLv h) then Some eEC_Hero_ReqLvError
         else if nActiveReqPatchID h \<noteq> 0 \<and> \<not> isPatchActive p (nActiveReqPatchID h) then Some eEC_Hero_ReqPatchError
         else if \<not> can_pay p (vecActiveCost h) then Some eEC_Hero_ReqResourceError
         else None)"

definition answer_client :: "s2c_message \<Rightarrow> CPlayer \<Rightarrow> CPlayer \<times> player_out list" where
  "answer_client msg p = (p, sendClientMessage p msg)"

definition c2s_active_hero_request_handler ::
    "'f CBaseStaticConfigMgr \<Rightarrow> u32 \<Rightarrow> CPlayer \<Rightarrow> CPlayer \<times> player_out list" where
  "c2s_active_hero_request_handler cfg nID p =
    (let info = getHeroConfigInfo cfg nID in
     case hero_refused info p of Some e \<Rightarrow> answer_client (C2s_active_hero_response nID e) p
     | None \<Rightarrow> (case info of None \<Rightarrow> (p, [])
         | Some h \<Rightarrow> then_do (then_do (pay (vecActiveCost h) p) (activeHero (hero_nID h)))
             (answer_client (C2s_active_hero_response nID eEC_Sucess))))"

definition patch_refused :: "SHeroPatchConfigInfo option \<Rightarrow> CPlayer \<Rightarrow> nat option" where
  "patch_refused info p = (case info of None \<Rightarrow> Some eEC_Hero_NotFoundHeroPatchConfig
     | Some q \<Rightarrow> if isPatchActive p (patch_nID q) then Some eEC_Hero_HeroPatchDoubleActive
         else if m_nLv (attribute_module p) < ucast (patch_nActiveReqLv q) then Some eEC_Hero_ReqLvError
         else if patch_nActiveReqPatchID q \<noteq> 0 \<and> \<not> isPatchActive p (patch_nActiveReqPatchID q) then Some eEC_Hero_ReqPatchError
         else if patch_nActiveReqHeroID q \<noteq> 0 \<and> \<not> isHeroActive p (patch_nActiveReqHeroID q) then Some eEC_Hero_ReqHeroError
         else if patch_nActiveReqItemID q \<noteq> 0 \<and> getItemCount p (patch_nActiveReqItemID q) = 0 then Some eEC_Hero_ReqItemError
         else None)"

definition c2s_active_hero_patch_request_handler ::
    "'f CBaseStaticConfigMgr \<Rightarrow> u32 \<Rightarrow> CPlayer \<Rightarrow> CPlayer \<times> player_out list" where
  "c2s_active_hero_patch_request_handler cfg nID p =
    (let info = getHeroPatchConfigInfo cfg nID in
     case patch_refused info p of Some e \<Rightarrow> answer_client (C2s_active_hero_patch_response nID e) p
     | None \<Rightarrow> (case info of None \<Rightarrow> (p, [])
         | Some q \<Rightarrow> then_do (then_do (if patch_nActiveReqItemID q \<noteq> 0 then delItem (patch_nActiveReqItemID q) 1 p else (p, []))
               (activePatch (patch_nID q)))
             (answer_client (C2s_active_hero_patch_response nID eEC_Sucess))))"

text \<open>The commands of a game master; the arguments are two numbers.\<close>

definition gm_numbers :: "string list \<Rightarrow> (u32 \<times> u32) option" where
  "gm_numbers vecArg = (case vecArg of
     [a, b] \<Rightarrow> (case (read_unsigned 32 a, read_unsigned 32 b) of (Some i, Some j) \<Rightarrow> Some (of_int i, of_int j) | _ \<Rightarrow> None)
   | _ \<Rightarrow> None)"

definition gm_add_item :: "'f CBaseStaticConfigMgr \<Rightarrow> string list \<Rightarrow> CPlayer \<Rightarrow> (CPlayer \<times> player_out list) option" where
  "gm_add_item cfg vecArg p = map_option (\<lambda>(nID, nCount). addItem (\<lambda>i. getItemConfigInfo cfg i \<noteq> None) nID nCount p) (gm_numbers vecArg)"

definition gm_add_attr :: "string list \<Rightarrow> CPlayer \<Rightarrow> (CPlayer \<times> player_out list) option" where
  "gm_add_attr vecArg p = map_option (\<lambda>(nID, nCount). addAttribute nID (ucast nCount) p) (gm_numbers vecArg)"

definition dispatchCommand :: "'f CBaseStaticConfigMgr \<Rightarrow> string \<Rightarrow> string \<Rightarrow> CPlayer \<Rightarrow> nat \<times> CPlayer \<times> player_out list" where
  "dispatchCommand cfg szCommand szArg p =
    (case split_str szArg '' '' of None \<Rightarrow> (eEC_GM_NameError, p, [])
     | Some vecArg \<Rightarrow>
        if szCommand = ''add_item'' then (case gm_add_item cfg vecArg p of None \<Rightarrow> (eEC_GM_ArgError, p, []) | Some r \<Rightarrow> (eEC_Sucess, r))
        else if szCommand = ''add_attr'' then (case gm_add_attr vecArg p of None \<Rightarrow> (eEC_GM_ArgError, p, []) | Some r \<Rightarrow> (eEC_Sucess, r))
        else (eEC_GM_NameError, p, []))"

definition c2s_gm_command_request_handler :: "'f CBaseStaticConfigMgr \<Rightarrow> string \<Rightarrow> string \<Rightarrow> CPlayer \<Rightarrow> CPlayer \<times> player_out list" where
  "c2s_gm_command_request_handler cfg szCommand szArg p =
    (let (nRet, r) = dispatchCommand cfg szCommand szArg p in then_do r (answer_client (C2s_gm_command_response szCommand nRet)))"

definition c2s_update_name_request_handler :: "string \<Rightarrow> CPlayer \<Rightarrow> CPlayer \<times> player_out list" where
  "c2s_update_name_request_handler szCommand p = answer_client (C2s_update_name_response szCommand) p"

datatype player_request = C2s_active_hero_request u32 | C2s_active_hero_patch_request u32 | C2s_gm_command_request string string
  | C2s_update_name_request string

fun client_handler :: "'f CBaseStaticConfigMgr \<Rightarrow> player_request \<Rightarrow> CPlayer \<Rightarrow> CPlayer \<times> player_out list" where
  "client_handler cfg (C2s_active_hero_request nID) = c2s_active_hero_request_handler cfg nID"
| "client_handler cfg (C2s_active_hero_patch_request nID) = c2s_active_hero_patch_request_handler cfg nID"
| "client_handler cfg (C2s_gm_command_request szCommand szArg) = c2s_gm_command_request_handler cfg szCommand szArg"
| "client_handler cfg (C2s_update_name_request szCommand) = c2s_update_name_request_handler szCommand"

text \<open>Each handler looks the player up first; only a player that is logged in is served.\<close>

definition on_client_request :: "'f CBaseStaticConfigMgr \<Rightarrow> u64 \<Rightarrow> player_request \<Rightarrow> CGameService \<Rightarrow> CGameService \<times> game_out list" where
  "on_client_request cfg nSession r g = (case getPlayer g nSession of None \<Rightarrow> (g, [])
     | Some p \<Rightarrow> let (p', out) = client_handler cfg r p in (put_player p' g, local_out out))"

end
