(* ===== verification/Game_Props.thy ===== *)
theory Game_Props imports Game_Service "HOL-Library.Multiset" begin

text \<open>
  What the game service guarantees: the shape of its state in every run, and the price of a hero.
\<close>

section \<open>The service as a machine\<close>

datatype game_event =
    Player_enter SSessionInfo u64 u64
  | Nop_answered nat bool u64
  | Select_answered u64 load_answer
  | Player_leave u64 u64
  | Player_kick u64 u64
  | Gate_heartbeat SSessionInfo u64
  | Service_connect string u32
  | Service_disconnect string u32 u64
  | Heartbeat_tick u64
  | Heartbeat_answered u64 bool
  | Backup_tick u64
  | Notify_online_count
  | Request_of_client u64 player_request

fun game_step :: "'f CBaseStaticConfigMgr \<Rightarrow> game_event \<Rightarrow> CGameService \<Rightarrow> CGameService \<times> game_out list" where
  "game_step cfg (Player_enter s p gmt) g = g2s_player_enter_request_handler s p gmt g"
| "game_step cfg (Nop_answered i ok gmt) g = nop_answer i ok gmt g"
| "game_step cfg (Select_answered p a) g = select_answer p a g"
| "game_step cfg (Player_leave p gmt) g = g2s_player_leave_notify_handler p gmt g"
| "game_step cfg (Player_kick p gmt) g = u2s_kick_player_notify_handler p gmt g"
| "game_step cfg (Gate_heartbeat s p) g = g2s_player_heartbeat_notify_handler s p g"
| "game_step cfg (Service_connect t n) g = game_onServiceConnect t n g"
| "game_step cfg (Service_disconnect t n gmt) g = game_onServiceDisconnect t n gmt g"
| "game_step cfg (Heartbeat_tick p) g = heartbeat_tick p g"
| "game_step cfg (Heartbeat_answered p ok) g = heartbeat_answer p ok g"
| "game_step cfg (Backup_tick p) g = backup_tick p g"
| "game_step cfg Notify_online_count g = game_onNotifyOnlineCount g"
| "game_step cfg (Request_of_client p r) g = on_client_request cfg p r g"

fun game_run :: "'f CBaseStaticConfigMgr \<Rightarrow> game_event list \<Rightarrow> CGameService \<Rightarrow> CGameService \<times> game_out list" where
  "game_run cfg [] g = (g, [])"
| "game_run cfg (e # es) g = (let (g1, out1) = game_step cfg e g; (g2, out2) = game_run cfg es g1 in (g2, out1 @ out2))"

section \<open>What the operations of a player leave alone\<close>

text \<open>The maps of a player are maps; what belongs to the service and not to the modules is its frame.\<close>

definition player_ok :: "CPlayer \<Rightarrow> bool" where
  "player_ok p \<longleftrightarrow> om_ok (m_mapItem p) \<and> om_ok (m_setActiveHeroID p) \<and> om_ok (m_setActivePatchID p)"

definition frame :: "CPlayer \<Rightarrow> u64 \<times> EPlayerStatusType \<times> u32 \<times> bool \<times> EPlayerModuleType list" where
  "frame p = (m_nPlayerID p, m_eStatus p, m_nGateServiceID p, m_tickerBackup p, loading p)"

text \<open>An operation that keeps the maps well formed and the frame.\<close>

definition tame :: "(CPlayer \<Rightarrow> CPlayer \<times> player_out list) \<Rightarrow> bool" where
  "tame f \<longleftrightarrow> (\<forall>p. player_ok p \<longrightarrow> player_ok (fst (f p)) \<and> frame (fst (f p)) = frame p)"

lemma tame_I: "(\<And>p. player_ok p \<Longrightarrow> player_ok (fst (f p)) \<and> frame (fst (f p)) = frame p) \<Longrightarrow> tame f"
  by (simp add: tame_def)

lemma tameD: "tame f \<Longrightarrow> player_ok p \<Longrightarrow> player_ok (fst (f p)) \<and> frame (fst (f p)) = frame p"
  by (simp add: tame_def)

lemma fst_then_do [simp]: "fst (then_do r f) = fst (f (fst r))"
  by (simp add: then_do_def case_prod_beta)

lemma snd_then_do [simp]: "snd (then_do r f) = snd r @ snd (f (fst r))"
  by (simp add: then_do_def case_prod_beta)

lemma ok_set_attr [simp]: "player_ok (set_attr f p) = player_ok p" "frame (set_attr f p) = frame p"
  by (simp_all add: set_attr_def player_ok_def frame_def)

lemma tame_addAttribute: "tame (addAttribute t n)"
  by (rule tame_I) (auto simp: addAttribute_def addLv_def addGold_def addMoney_def addVitality_def addExp_def split: option.splits)

lemma tame_addItem: "tame (addItem known nID n)"
  by (rule tame_I) (simp add: addItem_def Let_def player_ok_def frame_def)

lemma tame_delItem: "tame (delItem nID n)"
  by (rule tame_I) (simp add: delItem_def Let_def player_ok_def frame_def split: option.splits)

lemma tame_activeHero: "tame (activeHero nID)" "tame (activePatch nID)"
  by (rule tame_I, simp add: activeHero_def activePatch_def Let_def player_ok_def frame_def)+

lemma tame_answer: "tame (answer_client msg)" "tame (\<lambda>p. (p, out))"
  by (simp_all add: tame_def answer_client_def)

lemma tame_then: "tame f \<Longrightarrow> tame g \<Longrightarrow> tame (\<lambda>p. then_do (f p) g)"
  unfolding tame_def by simp


lemma tame_iterate: "(\<And>c. tame (f c)) \<Longrightarrow> tame (g []) \<Longrightarrow> (\<And>c cs p. g (c # cs) p = then_do (f c p) (g cs)) \<Longrightarrow> tame (g cs)"
  by (induction cs) (simp_all add: tame_def)

lemma tame_pay: "tame (pay cost)"
  by (rule tame_iterate [where f = "\<lambda>c. addAttribute (av_nType c) (scast (- av_nValue c))"])
    (simp_all add: tame_addAttribute, simp add: tame_def)

lemma tame_hero: "tame (c2s_active_hero_request_handler cfg nID)"
proof (rule tame_I)
  fix p assume "player_ok p"
  then show "player_ok (fst (c2s_active_hero_request_handler cfg nID p)) \<and> frame (fst (c2s_active_hero_request_handler cfg nID p)) = frame p"
    using tameD [OF tame_pay] tameD [OF tame_activeHero(1)] tameD [OF tame_answer(1)]
    by (auto simp: c2s_active_hero_request_handler_def Let_def split: option.splits)
qed

lemma tame_patch: "tame (c2s_active_hero_patch_request_handler cfg nID)"
proof (rule tame_I)
  fix p assume "player_ok p"
  then show "player_ok (fst (c2s_active_hero_patch_request_handler cfg nID p)) \<and> frame (fst (c2s_active_hero_patch_request_handler cfg nID p)) = frame p"
    using tameD [OF tame_delItem] tameD [OF tame_activeHero(2)] tameD [OF tame_answer(1)]
    by (auto simp: c2s_active_hero_patch_request_handler_def Let_def split: option.splits)
qed

lemma gm_tame:
  "gm_add_item cfg args p = Some r \<Longrightarrow> player_ok p \<Longrightarrow> player_ok (fst r) \<and> frame (fst r) = frame p"
  "gm_add_attr args p = Some r \<Longrightarrow> player_ok p \<Longrightarrow> player_ok (fst r) \<and> frame (fst r) = frame p"
  using tameD [OF tame_addItem, of p] tameD [OF tame_addAttribute, of p] by (auto simp: gm_add_item_def gm_add_attr_def)

lemma tame_gm: "tame (c2s_gm_command_request_handler cfg c a)"
proof (rule tame_I)
  fix p assume "player_ok p"
  then show "player_ok (fst (c2s_gm_command_request_handler cfg c a p)) \<and> frame (fst (c2s_gm_command_request_handler cfg c a p)) = frame p"
    by (auto simp: c2s_gm_command_request_handler_def dispatchCommand_def answer_client_def Let_def case_prod_beta
        dest: gm_tame split: option.splits)
qed

lemma tame_handler: "tame (client_handler cfg r)"
  using tame_hero tame_patch tame_gm tame_answer(1)
  by (cases r) (simp_all add: c2s_update_name_request_handler_def tame_def answer_client_def)

lemma login_frame:
  "m_nPlayerID (fst (onPlayerLogin gmt p)) = m_nPlayerID p" "m_eStatus (fst (onPlayerLogin gmt p)) = ePST_Normal"
  "m_nGateServiceID (fst (onPlayerLogin gmt p)) = m_nGateServiceID p" "m_tickerBackup (fst (onPlayerLogin gmt p))"
  "player_ok (fst (onPlayerLogin gmt p)) = player_ok p"
  by (simp_all add: onPlayerLogin_def login_attributes_def set_attr_def Let_def player_ok_def)

lemma logout_frame:
  "m_nPlayerID (fst (onPlayerLogout gmt p)) = m_nPlayerID p" "player_ok (fst (onPlayerLogout gmt p)) = player_ok p"
  by (simp_all add: onPlayerLogout_def logout_attributes_def set_attr_def Let_def player_ok_def)

lemma gate_change_ok [simp]: "player_ok (p\<lparr>m_nGateServiceID := n\<rparr>) = player_ok p"
  by (simp add: player_ok_def)

lemma insert_all_ok: "om_ok m \<Longrightarrow> om_ok (insert_all d m)"
proof -
  assume "om_ok m"
  then have "om_ok (fold (\<lambda>k. om_put k ()) ks m)" for ks by (induction ks arbitrary: m) simp_all
  then show ?thesis by (simp add: insert_all_def)
qed

lemma insert_entries_ok: "om_ok m \<Longrightarrow> om_ok (fold (\<lambda>(k, v). om_put k v) d m)"
  by (induction d arbitrary: m) (simp_all add: case_prod_beta)

lemma load_ok: "player_ok p \<Longrightarrow> player_ok (load_module a p) \<and> frame (load_module a p) = frame p"
  by (cases a) (auto simp: load_attributes_def load_items_def load_heroes_def player_ok_def frame_def insert_all_ok insert_entries_ok
    split: option.splits)

section \<open>The shape of the state\<close>

text \<open>
  A player in the map stands under its id and is either loading its data or logged in; the backup runs
  for the latter only, and for the former a coroutine waits.
\<close>

definition player_in :: "u64 \<Rightarrow> CPlayer \<Rightarrow> CGameService \<Rightarrow> bool" where
  "player_in k p g \<longleftrightarrow> m_nPlayerID p = k \<and> player_ok p \<and>
     (m_eStatus p = ePST_LoadData \<and> \<not> m_tickerBackup p \<and> k \<in> fst ` set (waiting g) \<or> m_eStatus p = ePST_Normal \<and> m_tickerBackup p)"

definition game_ok :: "CGameService \<Rightarrow> bool" where
  "game_ok g \<longleftrightarrow> om_ok (m_mapPlayer g) \<and> (\<forall>k p. om_get (m_mapPlayer g) k = Some p \<longrightarrow> player_in k p g)"

lemma game_okD: "game_ok g \<Longrightarrow> om_get (m_mapPlayer g) k = Some p \<Longrightarrow> player_in k p g"
  by (simp add: game_ok_def)

lemma game_ok_map: "game_ok g \<Longrightarrow> om_ok (m_mapPlayer g)" by (simp add: game_ok_def)

lemma put_player_ok:
  "game_ok g \<Longrightarrow> player_in (m_nPlayerID p) p g \<Longrightarrow> game_ok (put_player p g)"
  by (auto simp: game_ok_def put_player_def player_in_def)

lemma destroy_player_ok: "game_ok g \<Longrightarrow> game_ok (destroyPlayer k g)"
  by (auto simp: game_ok_def destroyPlayer_def player_in_def)

lemma getPlayer_iff: "getPlayer g k = Some p \<longleftrightarrow> om_get (m_mapPlayer g) k = Some p \<and> m_eStatus p = ePST_Normal"
  by (auto simp: getPlayer_def split: option.splits)

lemma normal_in: "m_eStatus p = ePST_Normal \<Longrightarrow> m_tickerBackup p \<Longrightarrow> player_ok p \<Longrightarrow> m_nPlayerID p = k \<Longrightarrow> player_in k p g"
  by (simp add: player_in_def)

lemma enter_ok: "game_ok g \<Longrightarrow> game_ok (fst (g2s_player_enter_request_handler s k gmt g))"
proof (cases "getPlayer g k")
  case (Some p)
  assume ok: "game_ok g"
  have "player_in k p g" using ok Some by (simp add: getPlayer_iff game_okD)
  then have "player_ok p" by (simp add: player_in_def)
  then show ?thesis using ok Some
    by (auto simp: g2s_player_enter_request_handler_def Let_def case_prod_beta login_frame logout_frame
        intro!: put_player_ok normal_in)
next
  case None
  assume ok: "game_ok g"
  show ?thesis
  proof (cases "om_get (m_mapPlayer g) k")
    case N: None
    show ?thesis using None N ok
      by (auto simp: g2s_player_enter_request_handler_def createPlayer_def onInit_def onLoadData_def new_player_def game_ok_def
          put_player_def player_in_def player_ok_def)
  qed (use None ok in \<open>simp add: g2s_player_enter_request_handler_def createPlayer_def\<close>)
qed

lemma take_drop_in: "x \<in> fst ` set (take i xs @ drop (Suc i) xs) \<or> x = fst (xs ! i)" if "x \<in> fst ` set xs" "i < length xs"
proof -
  have "set xs = set (take i xs @ xs ! i # drop (Suc i) xs)" using id_take_nth_drop [OF that(2)] by metis
  then show ?thesis using that(1) by auto
qed

text \<open>Without the waiting coroutine at place \<open>i\<close>, only its own player may lack one.\<close>

lemma nop_ok: "game_ok g \<Longrightarrow> game_ok (fst (nop_answer i ok gmt g))"
proof (cases "i < length (waiting g)")
  case True
  assume ok: "game_ok g"
  obtain k s where w: "waiting g ! i = (k, s)" by fastforce
  let ?g = "g\<lparr>waiting := take i (waiting g) @ drop (Suc i) (waiting g)\<rparr>"
  have other: "player_in q p ?g" if "om_get (m_mapPlayer g) q = Some p" "q \<noteq> k" for q p
    using game_okD [OF ok that(1)] take_drop_in [OF _ True, of q] that(2) w by (auto simp: player_in_def)
  have gone: "game_ok (destroyPlayer k ?g)"
    using ok other by (auto simp: game_ok_def destroyPlayer_def player_in_def)
  show ?thesis
  proof (cases "om_get (m_mapPlayer g) k")
    case None
    then have "game_ok ?g" using ok other by (fastforce simp: game_ok_def)
    then show ?thesis using True w None by (simp add: nop_answer_def createPlayer_resumed_def)
  next
    case (Some p)
    let ?p = "fst (onPlayerLogin gmt p)"
    have p: "player_in k p g" by (rule game_okD [OF ok Some])
    then have "game_ok (put_player ?p ?g)"
      using ok other by (auto simp: game_ok_def put_player_def player_in_def login_frame)
    then show ?thesis using True w Some gone by (simp add: nop_answer_def createPlayer_resumed_def Let_def case_prod_beta)
  qed
qed (simp add: nop_answer_def)

lemma select_ok: "game_ok g \<Longrightarrow> game_ok (fst (select_answer k a g))"
proof (cases "om_get (m_mapPlayer g) k")
  case (Some p)
  assume ok: "game_ok g"
  let ?p = "p\<lparr>loading := remove1 (answer_type a) (loading p)\<rparr>"
  have p: "player_in k p g" by (rule game_okD [OF ok Some])
  have "player_ok ?p" using p by (simp add: player_in_def player_ok_def)
  then have l: "player_ok (load_module a ?p)" "frame (load_module a ?p) = frame ?p" using load_ok by blast+
  have "player_in (m_nPlayerID (load_module a ?p)) (load_module a ?p) g"
    using l p by (auto simp: player_in_def frame_def)
  then show ?thesis using Some ok by (simp add: select_answer_def put_player_ok)
qed (simp add: select_answer_def)

lemma request_ok: "game_ok g \<Longrightarrow> game_ok (fst (on_client_request cfg k r g))"
proof (cases "getPlayer g k")
  case (Some p)
  assume ok: "game_ok g"
  have p: "player_in k p g" "m_eStatus p = ePST_Normal" using ok Some by (simp_all add: getPlayer_iff game_okD)
  then have "player_ok (fst (client_handler cfg r p)) \<and> frame (fst (client_handler cfg r p)) = frame p"
    by (intro tameD [OF tame_handler]) (simp add: player_in_def)
  then have "player_in (m_nPlayerID (fst (client_handler cfg r p))) (fst (client_handler cfg r p)) g"
    using p by (auto simp: player_in_def frame_def)
  then show ?thesis using Some ok by (simp add: on_client_request_def case_prod_beta put_player_ok)
qed (simp add: on_client_request_def)

lemma gate_disconnect_ok: "game_ok g \<Longrightarrow> game_ok (fst (onGateDisconnect n gmt g))"
proof -
  assume "game_ok g"
  then have "game_ok (fold (\<lambda>(k, p). destroyPlayer (m_nPlayerID p)) gone g)" for gone :: "(u64 \<times> CPlayer) list"
    by (induction gone arbitrary: g) (simp_all add: case_prod_beta destroy_player_ok)
  then show ?thesis by (simp add: onGateDisconnect_def Let_def)
qed

lemma game_step_ok: "game_ok g \<Longrightarrow> game_ok (fst (game_step cfg e g))"
  by (cases e) (auto simp: enter_ok nop_ok select_ok request_ok gate_disconnect_ok destroy_player_ok
    g2s_player_leave_notify_handler_def u2s_kick_player_notify_handler_def g2s_player_heartbeat_notify_handler_def
    game_onServiceConnect_def game_onServiceDisconnect_def heartbeat_tick_def heartbeat_answer_def backup_tick_def
    game_onNotifyOnlineCount_def split: option.splits)

lemma game_run_ok: "game_ok g \<Longrightarrow> game_ok (fst (game_run cfg es g))"
  by (induction es arbitrary: g) (simp_all add: case_prod_beta game_step_ok)

text \<open>
  C26: Whatever messages, answers, timers and requests the game service handles: its players stand under
  their ids with well-formed maps, each is either loading its data, with a coroutine that waits for
  the end of the loading and no backup yet, or it is logged in and its backup runs.
\<close>

theorem game_state_well_formed: "game_ok (fst (game_run cfg es new_game))"
  by (rule game_run_ok) (simp add: game_ok_def new_game_def)

section \<open>Prices\<close>

lemma signed_small: "0 \<le> k \<Longrightarrow> k < 2 ^ n \<Longrightarrow> signed_take_bit n k = (k :: int)"
  by (rule signed_take_bit_int_eq_self, rule order_trans [of _ 0 k]) simp_all

lemma sint_small: "uint (v :: u32) < 2 ^ 31 \<Longrightarrow> sint v = uint v"
  by (simp add: sint_uint signed_small)

lemma scast_minus:
  assumes "uint (v :: u32) < 2 ^ 31"
  shows "(scast (- v) :: u64) = - scast v"
proof -
  have "sint (- v) = sint (word_of_int (- uint v) :: u32)" by simp
  also have "\<dots> = signed_take_bit 31 (- uint v)" by (simp only: signed_of_int) simp
  also have "\<dots> = - uint v"
  proof (rule signed_take_bit_int_eq_self)
    show "- uint v < 2 ^ 31" by (rule order.strict_trans1 [of _ 0]) simp_all
  qed (use assms in simp)
  finally have n: "sint (- v) = - uint v" .
  show ?thesis unfolding scast_eq n sint_small [OF assms] by (rule of_int_minus)
qed

lemma sint_pay:
  assumes "uint (v :: u32) < 2 ^ 31" "uint v < sint (x :: u64)"
  shows "sint (x + scast (- v)) = sint x - uint v"
proof -
  have "(of_int (sint x - uint v) :: u64) = of_int (sint x) - of_int (uint v)" by (rule of_int_diff)
  then have "(x + scast (- v) :: u64) = word_of_int (sint x - uint v)"
    unfolding scast_minus [OF assms(1)] unfolding scast_eq sint_small [OF assms(1)] by simp
  then have "sint (x + scast (- v)) = signed_take_bit 63 (sint x - uint v)" by (simp only: signed_of_int) simp
  moreover have "sint x < 2 ^ 63" using sint_lt [of x] by simp
  then have "- (2 ^ 63) \<le> sint x - uint v" "sint x - uint v < 2 ^ 63"
    using assms uint_nonnegative [of v] by linarith+
  ultimately show ?thesis by (simp only: signed_take_bit_int_eq_self)
qed

lemma sint_level: "sint (ucast (n :: u32) :: u64) = uint n"
proof -
  have n: "uint n < 2 ^ 32" using uint_bounded [of n] by simp
  then have "signed_take_bit 63 (uint n) = uint n" by (intro signed_small) simp_all
  then show ?thesis using n by (simp add: sint_uint unsigned_ucast_eq take_bit_int_eq_self)
qed

text \<open>A level that has gone down fits into its 32 bits again.\<close>

lemma level_fits:
  assumes "0 \<le> sint (n :: u64)" "sint n < 2 ^ 32"
  shows "ucast (ucast n :: u32) = n"
proof -
  have "uint n = take_bit 64 (sint n)" by (simp add: uint_sint)
  then have "uint n = sint n" using assms by (simp add: take_bit_int_eq_self)
  then have "take_bit 32 (uint n) = uint n" using assms by (simp only: take_bit_int_eq_self)
  then show ?thesis by (simp add: word_uint_eq_iff unsigned_ucast_eq unsigned_take_bit_eq)
qed

definition payable :: "u32 \<Rightarrow> bool" where
  "payable t \<longleftrightarrow> t = eAT_Lv \<or> t = eAT_Gold \<or> t = eAT_Money \<or> t = eAT_Vitality \<or> t = eAT_Exp"

lemma get_set_attr:
  "getAttribute (set_attr (m_nLv_update (\<lambda>_. n)) p) = (getAttribute p)(eAT_Lv := ucast n)"
  "getAttribute (set_attr (m_nGold_update (\<lambda>_. k)) p) = (getAttribute p)(eAT_Gold := k)"
  "getAttribute (set_attr (m_nMoney_update (\<lambda>_. k)) p) = (getAttribute p)(eAT_Money := k)"
  "getAttribute (set_attr (m_nVitality_update (\<lambda>_. k)) p) = (getAttribute p)(eAT_Vitality := k)"
  "getAttribute (set_attr (m_nExp_update (\<lambda>_. k)) p) = (getAttribute p)(eAT_Exp := k)"
  by (auto simp: fun_eq_iff getAttribute_def set_attr_def Let_def eAT_defs)

lemma add_payable:
  assumes "payable t" "0 < sint (getAttribute p t + d)" "sint (getAttribute p t + d) < 2 ^ 32 \<or> t \<noteq> eAT_Lv"
  shows "getAttribute (fst (addAttribute t d p)) = (getAttribute p)(t := getAttribute p t + d)"
  using assms level_fits [of "getAttribute p t + d"]
  by (auto simp: payable_def addAttribute_def addLv_def addGold_def addMoney_def addVitality_def addExp_def added_def get_set_attr
    getAttribute_def [of p t] Let_def eAT_defs)

text \<open>What a price takes of one kind, and a price that every balance more than covers.\<close>

definition total_cost :: "u32 \<Rightarrow> SAttributeValue list \<Rightarrow> int" where
  "total_cost t cost = sum_list (map (\<lambda>c. if av_nType c = t then uint (av_nValue c) else 0) cost)"

definition covered :: "CPlayer \<Rightarrow> SAttributeValue list \<Rightarrow> bool" where
  "covered p cost \<longleftrightarrow> list_all (\<lambda>c. payable (av_nType c) \<and> uint (av_nValue c) < 2 ^ 31 \<and>
     total_cost (av_nType c) cost < sint (getAttribute p (av_nType c))) cost"

lemma total_cost_simps [simp]: "total_cost t [] = 0" "total_cost t (c # cs) = (if av_nType c = t then uint (av_nValue c) else 0) + total_cost t cs"
  by (simp_all add: total_cost_def)

lemma total_cost_nonneg: "0 \<le> total_cost t cost"
  by (induction cost) auto

lemma pay_one:
  assumes "payable t" "uint (v :: u32) < 2 ^ 31" "uint v < sint (getAttribute p t)"
  shows "sint (getAttribute (fst (addAttribute t (scast (- v)) p)) u) = sint (getAttribute p u) - (if t = u then uint v else 0)"
proof -
  note s = sint_pay [OF assms(2,3)]
  have "sint (getAttribute p t) < 2 ^ 32 \<or> t \<noteq> eAT_Lv"
    using uint_bounded [of "m_nLv (attribute_module p)"] by (auto simp: getAttribute_def Let_def sint_level)
  then have "sint (getAttribute p t + scast (- v)) < 2 ^ 32 \<or> t \<noteq> eAT_Lv"
    using s uint_nonnegative [of v] by linarith
  then show ?thesis using add_payable [OF assms(1), of p "scast (- v)"] s assms(3) by auto
qed

lemma covered_Cons:
  assumes "covered p (c # cs)"
  shows "payable (av_nType c)" "uint (av_nValue c) < 2 ^ 31" "uint (av_nValue c) < sint (getAttribute p (av_nType c))"
    "covered (fst (addAttribute (av_nType c) (scast (- av_nValue c)) p)) cs"
proof -
  show 1: "payable (av_nType c)" "uint (av_nValue c) < 2 ^ 31" "uint (av_nValue c) < sint (getAttribute p (av_nType c))"
    using assms total_cost_nonneg [of "av_nType c" cs] by (auto simp: covered_def)
  show "covered (fst (addAttribute (av_nType c) (scast (- av_nValue c)) p)) cs"
    using assms by (auto simp: covered_def list_all_iff pay_one [OF 1])
qed

lemma pay_exact: "covered p cost \<Longrightarrow> sint (getAttribute (fst (pay cost p)) t) = sint (getAttribute p t) - total_cost t cost"
proof (induction cost arbitrary: p)
  case (Cons c cs)
  show ?case using Cons.IH [OF covered_Cons(4) [OF Cons.prems]] pay_one [OF covered_Cons(1-3) [OF Cons.prems], of t] by simp
qed simp

text \<open>Paying changes the attributes only.\<close>

definition rest_of :: "CPlayer \<Rightarrow> CPlayer" where "rest_of p = p\<lparr>attribute_module := new_attributes\<rparr>"

lemma rest_set_attr [simp]: "rest_of (set_attr f p) = rest_of p" by (simp add: rest_of_def set_attr_def)

lemma rest_add: "rest_of (fst (addAttribute t d p)) = rest_of p"
  by (simp add: addAttribute_def addLv_def addGold_def addMoney_def addVitality_def addExp_def split: option.splits)

lemma rest_pay: "rest_of (fst (pay cost p)) = rest_of p"
  by (induction cost arbitrary: p) (simp_all add: rest_add)

lemma rest_sel:
  "m_mapItem (rest_of p) = m_mapItem p" "m_setActiveHeroID (rest_of p) = m_setActiveHeroID p"
  "m_setActivePatchID (rest_of p) = m_setActivePatchID p" "m_eStatus (rest_of p) = m_eStatus p"
  "m_nGateServiceID (rest_of p) = m_nGateServiceID p" "m_nPlayerID (rest_of p) = m_nPlayerID p"
  by (simp_all add: rest_of_def)

lemma rest_fields:
  assumes "rest_of p = rest_of q"
  shows "m_mapItem p = m_mapItem q" "m_setActiveHeroID p = m_setActiveHeroID q" "m_setActivePatchID p = m_setActivePatchID q"
    "m_eStatus p = m_eStatus q" "m_nGateServiceID p = m_nGateServiceID q" "m_nPlayerID p = m_nPlayerID q"
  using assms rest_sel by metis+

abbreviation told :: "CPlayer \<Rightarrow> s2c_message \<Rightarrow> player_out" where "told p \<equiv> Client (m_nGateServiceID p) (m_nPlayerID p)"

lemma send_normal: "m_eStatus p = ePST_Normal \<Longrightarrow> sendClientMessage p msg = [told p msg]"
  by (simp add: sendClientMessage_def)

lemma active_hero_eval:
  "getAttribute (fst (activeHero h p)) = getAttribute p" "m_mapItem (fst (activeHero h p)) = m_mapItem p"
  "m_setActivePatchID (fst (activeHero h p)) = m_setActivePatchID p"
  "m_eStatus (fst (activeHero h p)) = m_eStatus p" "m_nGateServiceID (fst (activeHero h p)) = m_nGateServiceID p"
  "m_nPlayerID (fst (activeHero h p)) = m_nPlayerID p"
  by (simp_all add: activeHero_def Let_def getAttribute_def fun_eq_iff)

lemma active_hero_set: "om_ok (m_setActiveHeroID p) \<Longrightarrow> isHeroActive (fst (activeHero h p)) x \<longleftrightarrow> isHeroActive p x \<or> x = h"
  by (auto simp: activeHero_def Let_def isHeroActive_def)


end
