(* ===== verification/Game_Flow.thy ===== *)
theory Game_Flow imports Game_Props begin

text \<open>
  The bag of a player as a function, the round trip of a player through the database, the answers to
  the requests to enter, and where the game service loses or grants what it should not.
\<close>

section \<open>The bag\<close>

datatype bag_op = Add_item u32 u32 | Del_item u32 u32

fun bag_spec :: "(u32 \<Rightarrow> bool) \<Rightarrow> bag_op \<Rightarrow> (u32 \<Rightarrow> u32) \<Rightarrow> u32 \<Rightarrow> u32" where
  "bag_spec known (Add_item nID n) b = (if known nID then b(nID := b nID + n) else b)"
| "bag_spec known (Del_item nID n) b = b(nID := b nID - min (b nID) n)"

fun bag_do :: "(u32 \<Rightarrow> bool) \<Rightarrow> bag_op \<Rightarrow> CPlayer \<Rightarrow> CPlayer" where
  "bag_do known (Add_item nID n) p = fst (addItem known nID n p)"
| "bag_do known (Del_item nID n) p = fst (delItem nID n p)"

lemma bag_do_ok: "player_ok p \<Longrightarrow> player_ok (bag_do known x p)"
  using tameD [OF tame_addItem, of p] tameD [OF tame_delItem, of p] by (cases x) auto

lemma bag_step: "player_ok p \<Longrightarrow> getItemCount (bag_do known x p) = bag_spec known x (getItemCount p)"
  by (cases x) (auto simp: addItem_def delItem_def getItemCount_def Let_def player_ok_def fun_eq_iff min_def split: option.splits)

text \<open>
  Adding and taking items is what a function from the items to 32-bit counts does: an item of the
  configuration is added modulo \<open>2^32\<close>, another is not added, and what is taken stops at zero.
\<close>

theorem items_refine:
  assumes "player_ok p"
  shows "getItemCount (fold (bag_do known) ops p) = fold (bag_spec known) ops (getItemCount p)"
  using assms
proof (induction ops arbitrary: p)
  case (Cons x ops)
  show ?case using Cons.IH [OF bag_do_ok [OF Cons.prems]] by (simp add: bag_step [OF Cons.prems])
qed simp

theorem items_refine_witness:
  "getItemCount (fold (bag_do (\<lambda>i. i = 3)) [Add_item 3 5, Add_item 4 1, Del_item 3 9] (new_player 7 1)) = (\<lambda>_. 0)"
proof -
  have empty: "getItemCount (new_player 7 1) = (\<lambda>_. 0)" by (simp add: getItemCount_def new_player_def fun_eq_iff)
  have "player_ok (new_player 7 1)" by (simp add: player_ok_def new_player_def)
  from items_refine [OF this, of "\<lambda>i. i = 3" "[Add_item 3 5, Add_item 4 1, Del_item 3 9]"]
  have "getItemCount (fold (bag_do (\<lambda>i. i = 3)) [Add_item 3 5, Add_item 4 1, Del_item 3 9] (new_player 7 1)) =
      fold (bag_spec (\<lambda>i. i = 3)) [Add_item 3 5, Add_item 4 1, Del_item 3 9] (\<lambda>_. 0)"
    by (simp only: empty)
  also have "\<dots> = (\<lambda>_. 0)" by (simp add: fun_eq_iff min_def)
  finally show ?thesis .
qed

text \<open>The client is told the count that the bag has afterwards.\<close>

lemma items_told:
  assumes "player_ok p" "m_eStatus p = ePST_Normal"
  shows "known nID \<Longrightarrow> snd (addItem known nID n p) =
      [told p (S2c_add_player_item_notify nID n (getItemCount (fst (addItem known nID n p)) nID)), Raise (CPlayerAddItemEvent nID n)]"
    "om_get (m_mapItem p) nID \<noteq> None \<Longrightarrow> snd (delItem nID n p) =
      [told p (S2c_del_player_item_notify nID n (getItemCount (fst (delItem nID n p)) nID)), Raise (CPlayerDelItemEvent nID n)]"
  using assms by (auto simp: addItem_def delItem_def getItemCount_def sendClientMessage_def player_ok_def Let_def)

section \<open>The round trip through the database\<close>

text \<open>
  The row after an update: an optional field that is not set in the record keeps what the row had
  (only the fields that are set become columns of the statement).
\<close>

definition unset :: "'a option \<Rightarrow> 'a option \<Rightarrow> 'a option" where
  "unset old new = (case new of None \<Rightarrow> old | Some x \<Rightarrow> Some x)"

definition stored_base :: "player_base \<Rightarrow> player_base \<Rightarrow> player_base" where
  "stored_base old new = new\<lparr>pb_account_name := unset (pb_account_name old) (pb_account_name new),
     pb_server_id := unset (pb_server_id old) (pb_server_id new)\<rparr>"

definition stored_items :: "player_item \<Rightarrow> player_item \<Rightarrow> player_item" where
  "stored_items old new = new\<lparr>pi_data := unset (pi_data old) (pi_data new)\<rparr>"

definition stored_heroes :: "player_hero \<Rightarrow> player_hero \<Rightarrow> player_hero" where
  "stored_heroes old new = new\<lparr>ph_hero_data := unset (ph_hero_data old) (ph_hero_data new),
     ph_patch_data := unset (ph_patch_data old) (ph_patch_data new)\<rparr>"

definition reload :: "player_base \<Rightarrow> player_item \<Rightarrow> player_hero \<Rightarrow> CPlayer \<Rightarrow> CPlayer" where
  "reload b i h p = load_heroes (Some (Some h)) (load_items (Some (Some i)) (load_attributes (Some (Some b)) p))"

definition after_backup :: "player_base \<Rightarrow> player_item \<Rightarrow> player_hero \<Rightarrow> CPlayer \<Rightarrow> CPlayer \<Rightarrow> CPlayer" where
  "after_backup b i h p = reload (stored_base b (backup_attributes p)) (stored_items i (backup_items p)) (stored_heroes h (backup_heroes p))"

lemma insert_all_ids: "om_ok m \<Longrightarrow> insert_all (Some (map fst m)) [] = m"
proof -
  assume "om_ok m"
  then have "fold (\<lambda>(k, v). om_put k v) m [] = m" using om_rebuild [of "[]" m] by simp
  moreover have "fold (\<lambda>k. om_put k ()) (map fst m) m' = fold (\<lambda>(k, v). om_put k v) m m'" for m'
    by (induction m arbitrary: m') auto
  ultimately show ?thesis by (simp add: insert_all_def)
qed

lemma ids_reload: "om_ok m \<Longrightarrow> insert_all (unset old (ids_field m)) [] = (if m = [] then insert_all old [] else m)"
  by (simp add: ids_field_def unset_def insert_all_ids)

text \<open>
  A player that is backed up and loaded again, later and at whatever gate, has its attributes, and
  its items, heroes and patches; an empty collection is not written, and then what the row had comes back.
\<close>

theorem backup_load_roundtrip:
  assumes q: "q = after_backup b i h p (new_player (m_nPlayerID p) gate)"
    and ok: "player_ok p" and name: "m_szName (attribute_module p) \<noteq> []"
    and row: "m_szAccountName (attribute_module p) = (case pb_account_name b of None \<Rightarrow> [] | Some s \<Rightarrow> s)"
      "m_nServerID (attribute_module p) = (case pb_server_id b of None \<Rightarrow> 0 | Some n \<Rightarrow> n)"
  shows "attribute_module q = attribute_module p \<and>
    m_mapItem q = (if m_mapItem p = [] then fold (\<lambda>(k, v). om_put k v) (case pi_data i of None \<Rightarrow> [] | Some d \<Rightarrow> d) [] else m_mapItem p) \<and>
    m_setActiveHeroID q = (if m_setActiveHeroID p = [] then insert_all (ph_hero_data h) [] else m_setActiveHeroID p) \<and>
    m_setActivePatchID q = (if m_setActivePatchID p = [] then insert_all (ph_patch_data h) [] else m_setActivePatchID p)"
proof -
  note defs = q after_backup_def reload_def load_attributes_def load_items_def load_heroes_def stored_base_def stored_items_def
    stored_heroes_def backup_attributes_def backup_items_def backup_heroes_def new_player_def Let_def
  have "attribute_module q = attribute_module p" using name row by (simp add: defs unset_def)
  moreover have "m_mapItem q = (if m_mapItem p = [] then fold (\<lambda>(k, v). om_put k v) (case pi_data i of None \<Rightarrow> [] | Some d \<Rightarrow> d) [] else m_mapItem p)"
    using ok om_rebuild [of "[]" "m_mapItem p"] by (simp add: defs unset_def player_ok_def)
  moreover have "m_setActiveHeroID q = (if m_setActiveHeroID p = [] then insert_all (ph_hero_data h) [] else m_setActiveHeroID p)"
    "m_setActivePatchID q = (if m_setActivePatchID p = [] then insert_all (ph_patch_data h) [] else m_setActivePatchID p)"
    using ok by (simp_all add: defs player_ok_def ids_reload)
  ultimately show ?thesis by blast
qed

definition old_row :: player_base where
  "old_row = \<lparr>pb_player_id = 7, pb_account_name = Some ''alice'', pb_server_id = Some 1, pb_last_login_time = 1,
     pb_last_logout_time = 2, pb_name = ''Al'', pb_face = 0, pb_lv = 1, pb_exp = 0, pb_gold = 100, pb_money = 0, pb_vitality = 0\<rparr>"

definition old_items :: player_item where "old_items = \<lparr>pi_player_id = 7, pi_data = Some [(3, 1)]\<rparr>"
definition old_heroes :: player_hero where "old_heroes = \<lparr>ph_player_id = 7, ph_hero_data = None, ph_patch_data = None\<rparr>"

text \<open>A player that is loaded from these rows, and the same one that has used its last item.\<close>

definition example_player :: CPlayer where
  "example_player = (reload old_row old_items old_heroes (new_player 7 1))\<lparr>m_eStatus := ePST_Normal, m_tickerBackup := True\<rparr>"

lemmas example_eval = example_player_def reload_def load_attributes_def load_items_def load_heroes_def insert_all_def
  old_row_def old_items_def old_heroes_def new_player_def

lemma example_ok: "player_ok example_player"
  by (simp add: example_eval player_ok_def om_ok_def)

theorem backup_load_roundtrip_witness:
  "m_mapItem (after_backup old_row old_items old_heroes (fst (addItem (\<lambda>_. True) 4 2 example_player)) (new_player 7 2)) = [(3, 1), (4, 2)]"
proof -
  let ?p = "fst (addItem (\<lambda>_. True) 4 2 example_player)"
  have p: "player_ok ?p" using tameD [OF tame_addItem example_ok] by simp
  have e: "m_nPlayerID ?p = 7" "m_mapItem ?p = [(3, 1), (4, 2)]" by (simp_all add: addItem_def example_eval getItemCount_def Let_def)
  have a: "attribute_module ?p = attribute_module example_player" by (simp add: addItem_def Let_def)
  show ?thesis
    using backup_load_roundtrip [OF refl p, of old_row old_items old_heroes 2] unfolding a e by (simp add: example_eval)
qed

text \<open>The last item that is used comes back: the empty bag is not written.\<close>

lemma last_item_comes_back:
  "m_mapItem (fst (delItem 3 1 example_player)) = [] \<and>
   m_mapItem (after_backup old_row old_items old_heroes (fst (delItem 3 1 example_player)) (new_player 7 1)) = [(3, 1)]"
  by (simp add: delItem_def example_eval after_backup_def stored_items_def backup_items_def stored_heroes_def backup_heroes_def
    stored_base_def backup_attributes_def unset_def om_del_def Let_def)

section \<open>The answers to the requests to enter\<close>

fun response_of :: "game_out \<Rightarrow> (u64 \<times> SSessionInfo) list" where
  "response_of (Respond s (G2s_player_enter_response p e)) = [(p, s)]"
| "response_of _ = []"

definition enter_responses :: "game_out list \<Rightarrow> (u64 \<times> SSessionInfo) list" where
  "enter_responses out = concat (map response_of out)"

fun request_of :: "game_event \<Rightarrow> (u64 \<times> SSessionInfo) list" where
  "request_of (Player_enter s p gmt) = [(p, s)]"
| "request_of _ = []"

definition enter_requests :: "game_event list \<Rightarrow> (u64 \<times> SSessionInfo) list" where
  "enter_requests es = concat (map request_of es)"

lemma responses_simps [simp]:
  "enter_responses [] = []" "enter_responses (x # out) = response_of x @ enter_responses out"
  "enter_responses (out @ out') = enter_responses out @ enter_responses out'" "enter_responses (local_out o') = []"
  by (simp_all add: enter_responses_def comp_def)

lemma waiting_simps [simp]: "waiting (put_player p g) = waiting g" "waiting (destroyPlayer k g) = waiting g"
  by (simp_all add: put_player_def destroyPlayer_def)

lemma waiting_gate: "waiting (fst (onGateDisconnect n gmt g)) = waiting g"
proof -
  have "waiting (fold (\<lambda>(k, p). destroyPlayer (m_nPlayerID p)) gone g) = waiting g" for gone :: "(u64 \<times> CPlayer) list"
    by (induction gone arbitrary: g) (simp_all add: case_prod_beta)
  then show ?thesis by (simp add: onGateDisconnect_def Let_def)
qed

lemma responses_gate: "enter_responses (snd (onGateDisconnect n gmt g)) = []"
proof -
  have "enter_responses (concat (map (\<lambda>(k, p). local_out (snd (onPlayerLogout gmt p)) @
      [Send (getUCServiceID (m_nPlayerID p)) (S2u_player_leave_notify (m_nPlayerID p))]) gone)) = []" for gone :: "(u64 \<times> CPlayer) list"
    by (induction gone) (simp_all add: case_prod_beta)
  then show ?thesis by (simp add: onGateDisconnect_def Let_def)
qed

lemma enter_waits:
  "mset (enter_responses (snd (g2s_player_enter_request_handler s k gmt g))) + mset (waiting (fst (g2s_player_enter_request_handler s k gmt g))) =
   add_mset (k, s) (mset (waiting g))"
  by (auto simp: g2s_player_enter_request_handler_def createPlayer_def onInit_def Let_def case_prod_beta split: option.splits)

lemma mset_without: "i < length xs \<Longrightarrow> add_mset (xs ! i) (mset (take i xs) + mset (drop (Suc i) xs)) = mset xs"
  by (metis id_take_nth_drop mset.simps(2) mset_append union_mset_add_mset_right)

lemma resumed_waits: "waiting (snd (createPlayer_resumed k ok g)) = waiting g"
  by (simp add: createPlayer_resumed_def split: option.splits)

lemma nop_waits:
  "mset (enter_responses (snd (nop_answer i ok gmt g))) + mset (waiting (fst (nop_answer i ok gmt g))) = mset (waiting g)"
  using mset_without [of i "waiting g"] resumed_waits
  by (cases "waiting g ! i") (auto simp: nop_answer_def Let_def case_prod_beta resumed_waits split: option.splits)

lemma step_waits:
  "mset (enter_responses (snd (game_step cfg e g))) + mset (waiting (fst (game_step cfg e g))) = mset (request_of e) + mset (waiting g)"
  by (cases e) (auto simp: enter_waits nop_waits waiting_gate responses_gate select_answer_def on_client_request_def
    g2s_player_leave_notify_handler_def u2s_kick_player_notify_handler_def g2s_player_heartbeat_notify_handler_def
    game_onServiceConnect_def game_onServiceDisconnect_def heartbeat_tick_def heartbeat_answer_def backup_tick_def
    game_onNotifyOnlineCount_def case_prod_beta split: option.splits)

lemma run_waits:
  "mset (enter_responses (snd (game_run cfg es g))) + mset (waiting (fst (game_run cfg es g))) = mset (enter_requests es) + mset (waiting g)"
proof (induction es arbitrary: g)
  case (Cons e es)
  show ?case using Cons.IH [of "fst (game_step cfg e g)"] step_waits [of cfg e g]
    by (simp add: case_prod_beta enter_requests_def ac_simps)
qed (simp add: enter_requests_def)

lemma nop_shrinks: "waiting g = w # ws \<Longrightarrow> waiting (fst (nop_answer 0 ok gmt g)) = ws"
  using resumed_waits by (cases w) (auto simp: nop_answer_def Let_def case_prod_beta resumed_waits split: option.splits)

lemma nops_drain: "waiting (fst (game_run cfg (replicate (length (waiting g)) (Nop_answered 0 ok gmt)) g)) = []"
proof (induction "waiting g" arbitrary: g)
  case (Cons w ws)
  then have w: "waiting g = w # ws" by simp
  show ?case using Cons.hyps(1) [of "fst (nop_answer 0 ok gmt g)"] by (simp add: w nop_shrinks [OF w] case_prod_beta)
qed simp

text \<open>
  C25: Every request of a gate to let a player enter is answered once: what is answered and what still
  waits for the database are together the requests, and when the database has answered as many NOPs
  as coroutines wait, none waits any more.
\<close>

theorem enter_answered_once:
  "case game_run cfg es new_game of (g, out) \<Rightarrow>
     mset (enter_responses out) + mset (waiting g) = mset (enter_requests es) \<and>
     waiting (fst (game_run cfg (replicate (length (waiting g)) (Nop_answered 0 ok gmt)) g)) = []"
  using run_waits [of cfg es new_game] nops_drain [of cfg "fst (game_run cfg es new_game)"]
  by (simp add: case_prod_beta new_game_def)

section \<open>Where a player loses or gains what it should not\<close>

text \<open>The price of a hero, in a table with one hero that costs \<open>n\<close> gold, for a player with 100 gold.\<close>

definition hero_for :: "u32 \<Rightarrow> unit SHeroConfigInfo" where
  "hero_for n = \<lparr>hero_nID = 5, hero_szName = ''H'', nQuality = 0, nOccupation = 0, nSex = 0, nLevel = 0, nActiveReqLv = 1,
     nActiveReqPatchID = 0, vecActiveCost = [\<lparr>av_nType = eAT_Gold, av_nValue = n\<rparr>], nBaseHP = 0, nGrowupHP = 0, nBaseDef = 0,
     nGrowupDef = 0, nBaseAtk = 0, nGrowupAtk = 0, nAtkCD = (), nCrit = (), nDodge = (), nAvoidInjury = (), nNormalSkillID = 0,
     vecSkillID = []\<rparr>"

definition tables_for :: "u32 \<Rightarrow> unit CBaseStaticConfigMgr" where
  "tables_for n = \<lparr>mapLvConfigInfo = [], mapItemConfigInfo = [], mapHeroConfigInfo = [(5, hero_for n)], mapHeroPatchConfigInfo = []\<rparr>"

lemmas price_eval = tables_for_def hero_for_def getHeroConfigInfo_def hero_refused_def isHeroActive_def can_pay_def
  getAttribute_def covered_def payable_def total_cost_def eAT_defs example_eval


text \<open>A balance that is equal to the price passes the check and is not taken.\<close>

lemma exact_price_is_free:
  assumes "uint (v :: u32) < 2 ^ 31" "getAttribute p t = scast v"
  shows "addAttribute t (scast (- v)) p = (p, [])"
  using assms(2) unfolding scast_minus [OF assms(1)]
  by (auto simp: addAttribute_def addLv_def addGold_def addMoney_def addVitality_def addExp_def added_def getAttribute_def Let_def
    eAT_defs)

text \<open>A price of more than \<open>2^31\<close> is a gift: here a player with 3000000000 gold has more afterwards.\<close>

lemma large_price_is_a_gift:
  "getAttribute (fst (pay [\<lparr>av_nType = eAT_Gold, av_nValue = 2147483649\<rparr>] (set_attr (m_nGold_update (\<lambda>_. 3000000000)) example_player))) eAT_Gold
     = 5147483647"
  by (simp add: addAttribute_def addGold_def added_def set_attr_def getAttribute_def eAT_defs example_eval Let_def)

text \<open>Setting an attribute adds the old value less the new one.\<close>

lemma set_attribute_mirrors:
  assumes "0 < sint (m_nGold (attribute_module p) + (m_nGold (attribute_module p) - n))"
  shows "m_nGold (attribute_module (fst (setAttribute eAT_Gold n p))) = m_nGold (attribute_module p) + (m_nGold (attribute_module p) - n)"
  using assms by (simp add: setAttribute_def addAttribute_def addGold_def added_def set_attr_def getAttribute_def eAT_defs Let_def)

text \<open>The price of a patch is not taken: no attribute changes.\<close>

lemma patch_costs_nothing: "attribute_module (fst (c2s_active_hero_patch_request_handler cfg nID p)) = attribute_module p"
  by (auto simp: c2s_active_hero_patch_request_handler_def answer_client_def delItem_def activePatch_def Let_def case_prod_beta
    split: option.splits)

text \<open>
  When the gate goes away while the data of a player are being loaded, the records of a player without
  name, level and gold are written to the database.
\<close>

lemma gate_loss_wipes_player:
  "Local (Update (getDbServiceID 7) (Db_player_base (backup_attributes
      (logout_attributes t (new_player 7 1))))) \<in> set (snd (game_run cfg
     [Player_enter \<lparr>nFromServiceID = 1, nSessionID = 3\<rparr> 7 t, Service_disconnect ''gate'' 1 t] new_game))"
  by (simp add: g2s_player_enter_request_handler_def getPlayer_def createPlayer_def new_game_def onInit_def onLoadData_def new_player_def
    put_player_def game_onServiceDisconnect_def onGateDisconnect_def onPlayerLogout_def onBackupPlayer_def backup_attributes_def
    logout_attributes_def set_attr_def Let_def)

text \<open>
  A player that leaves while it is loading and enters again through another gate: the answer for the
  first coroutine, which the first gate gets, logs in the second player, none of whose data are loaded.
\<close>

lemma stale_answer_logs_in:
  "case game_run cfg [Player_enter \<lparr>nFromServiceID = 1, nSessionID = 3\<rparr> 7 t, Player_leave 7 t,
      Player_enter \<lparr>nFromServiceID = 2, nSessionID = 4\<rparr> 7 t, Nop_answered 0 True t] new_game of (g, out) \<Rightarrow>
    Respond \<lparr>nFromServiceID = 1, nSessionID = 3\<rparr> (G2s_player_enter_response 7 eEC_Sucess) \<in> set out \<and>
    map_option loading (getPlayer g 7) = Some [ePMT_Attribute, ePMT_Item, ePMT_Hero] \<and>
    map_option m_nGateServiceID (getPlayer g 7) = Some 2"
  by (simp add: g2s_player_enter_request_handler_def getPlayer_def createPlayer_def new_game_def onInit_def onLoadData_def new_player_def
    put_player_def g2s_player_leave_notify_handler_def destroyPlayer_def om_del_def nop_answer_def createPlayer_resumed_def
    onPlayerLogin_def login_attributes_def set_attr_def Let_def)

end
