(* ===== verification/Spec2Isabelle.thy ===== *)
theory Spec2Isabelle imports Circle_Queue Ticker_Props Core_Connection Message_Queue Core_Service Proxy_Props Transport_Props Db_Props Text_Parsers Encoding_Props Time_Props
  Conn_Broadcast Websocket_Handshake Md5 Coroutine_Props Db_Service_Props Uc_Service Gate_Props Dispatch_Props Game_Flow begin

text \<open>
  A verification library for realtime_ex, a distributed game server in C++: an engine (\<open>src/engine\<close>) of nodes
  that run services and carry the messages between them, and the services of a game on top of it (\<open>src/service\<close>).

  \<^bold>\<open>The program.\<close> A node is a process with a network thread and several logic threads. The network thread
  owns the sockets (\<open>libBaseNetwork\<close>); what it reads is cut into messages and put into the queue of a service; what
  services send comes back to it through a queue. Each service is dispatched by one logic thread at a time: its
  handlers run in coroutines, may call other services and wait for the answer, and set timers on a timer wheel. A master
  process knows which node runs which service and tells all nodes. On this stand the services: a client logs in through
  the dispatch service, gets a token for a gate, and the gate carries its messages to the game service that holds
  its player; the user center remembers which game service that is; the database services keep the records
  behind a write-back cache.

  \<^bold>\<open>How the code is modelled.\<close> A class is a record with the names of its members, an operation a function from the
  state to the result and the new state, with every branch and early return of the code. A failed assertion
  (\<open>DebugAst\<close>) returns as it does in the release build. Pointers that may dangle, reads outside of a buffer and calls that do
  not return are values (\<open>None\<close>, \<open>Bad_read\<close>, \<open>Freed\<close>) that the theorems exclude or show to happen. Integers
  are words where they can wrap, \<open>std::map\<close> is the ordered list of \<open>Ordered_Map\<close>, strings are byte lists on the wire and
  character lists in the text helpers. Threads interleave as the steps of a relation or the events of a run; the code's locks
  make each step atomic.

  \<^bold>\<open>The theories.\<close> \<open>Prelude\<close> has the machine types, the shared lemmas and the interface \<open>stream\<close> of a buffer; \<open>Bytes\<close> the
  memory image of numbers; \<open>Ordered_Map\<close> the maps; \<open>Message_Types\<close> the constants of \<open>core_common.h\<close>.

  \<^item> Containers and timers (\<open>libBaseCommon\<close>): \<open>Circle_Queue\<close> (\<open>circle_queue.inl\<close>) is a first-in first-out queue.
    \<open>Ticker_Mgr\<close> (\<open>ticker_mgr_impl.cpp\<close>, \<open>ticker.cpp\<close>) is the timer wheel; \<open>Ticker_Wheel\<close> has its linking and placement
    invariants, \<open>Ticker_Tick\<close> one tick, \<open>Ticker_Term\<close> the end of its loops, \<open>Ticker_Exact\<close> the life of one timer and \<open>Ticker_Props\<close>
    what a client may rely on.
  \<^item> Text and encodings (\<open>libBaseCommon\<close>): \<open>String_Util\<close> (\<open>string_util.inl\<close>, \<open>string_format.inl\<close>), \<open>Text_Parsers\<close>
    (\<open>token_parser.cpp\<close>, \<open>csv_parser.cpp\<close>), \<open>Encodings\<close> and \<open>Encoding_Props\<close> (\<open>base64.cpp\<close>, \<open>crc32.cpp\<close>, \<open>encryptor.cpp\<close>, \<open>utf8.cpp\<close>),
    \<open>Block_Hash\<close>, \<open>Sha1\<close> and \<open>Md5\<close> (\<open>sha1.cpp\<close>, \<open>md5.cpp\<close>): round trips, and that a hash does not depend on how its
    input is cut; \<open>Time_Util\<close> and \<open>Time_Props\<close> (\<open>time_util.cpp\<close>): times are found again from their fields and their text.
  \<^item> Network (\<open>libBaseNetwork\<close>, \<open>libCoreCommon\<close>): \<open>Net_Buffer\<close> (\<open>net_buffer.cpp\<close>), \<open>Net_Connecter\<close> (\<open>net_connecter.cpp\<close>,
    \<open>net_socket.cpp\<close>) with the kernel as an oracle, \<open>Core_Connection\<close> (\<open>core_connection.cpp\<close>), which frames the byte stream;
    \<open>Conn_Bridge\<close>, \<open>Conn_Bridge_Props\<close> and \<open>Conn_Broadcast\<close> (\<open>core_connection_mgr.cpp\<close>, \<open>net_runnable.cpp\<close>,
    \<open>base_connection.cpp\<close>, \<open>base_connection_mgr.cpp\<close>), the hand-over between the network thread and the services; \<open>Http\<close>,
    \<open>Http_Props\<close>, \<open>Websocket\<close>, \<open>Websocket_Props\<close>, \<open>Websocket_Handshake\<close> (\<open>http_*.cpp\<close>, \<open>core_websocket_connection.cpp\<close>).
  \<^item> Scheduling: \<open>Message_Queue\<close> (\<open>logic_message_queue*.cpp\<close>, \<open>logic_runnable.cpp\<close>), one thread per service and no
    message left behind; \<open>Coroutines\<close> and \<open>Coroutine_Props\<close> (\<open>coroutine*.cpp\<close>), the pool of coroutines.
  \<^item> Messages between services (\<open>libCoreCommon\<close>): \<open>Buf_File\<close> (\<open>buf_file.cpp\<close>) with the interface \<open>codec\<close>, \<open>Proto_System\<close>
    (\<open>proto_system.h\<close>), \<open>Core_Service\<close> (\<open>core_service.cpp\<close>: sessions, waiting requests, health), \<open>Transporter\<close> and
    \<open>Transport_Props\<close> (\<open>transporter.cpp\<close>, \<open>message_dispatcher.cpp\<close>, \<open>service_invoker.cpp\<close>): a call and its answer, within a node
    or between two, with the interface \<open>message_serializer\<close>; \<open>Native_Message\<close> (\<open>native_message.h\<close>, \<open>native_serializer.cpp\<close>).
  \<^item> Nodes: \<open>Service_Registry\<close> (\<open>service/master\<close>), \<open>Registry_Proxy\<close>, \<open>Proxy_Steps\<close>, \<open>Proxy_Run\<close>, \<open>Proxy_Props\<close>
    (\<open>global_\<close> and \<open>local_service_registry_proxy.cpp\<close>, \<open>base_connection_to_master.cpp\<close>, the selectors): what the master and every
    node know agrees.
  \<^item> Database (\<open>libBaseDatabase\<close>): \<open>Db_Message\<close> (\<open>db_protobuf.cpp\<close>), \<open>Db_Command\<close> (the command handlers), \<open>Db_Cache\<close>
    (\<open>db_cache*.cpp\<close>), \<open>Db_Thread\<close> (\<open>db_thread*.cpp\<close>, \<open>database.cpp\<close>), \<open>Db_Sizes\<close>, \<open>Db_Coherence\<close>, \<open>Db_Props\<close>: the cache refines
    the database behind it; \<open>Db_Example\<close> is a database that meets the hypotheses. \<open>Db_Service\<close> and \<open>Db_Service_Props\<close>
    (\<open>db_service_invoke_holder.inl\<close>, \<open>service/dbs\<close>) put the transport and the database threads together.
  \<^item> The game (\<open>src/service\<close>): \<open>Service_Messages\<close>; \<open>Uc_Service\<close> (\<open>usercenter_service\<close>), a register of the owner of each player;
    \<open>Dispatch_Service\<close>, \<open>Dispatch_Props\<close> (\<open>dispatch_service\<close>), the login as a coroutine with four waits; \<open>Gate_Service\<close>,
    \<open>Gate_Props\<close> (\<open>gate\<close>), sessions and tokens; \<open>Static_Config\<close>, \<open>Player_Modules\<close>, \<open>Game_Service\<close>, \<open>Game_Props\<close>, \<open>Game_Flow\<close>
    (\<open>game_service\<close>), the players.

  \<^bold>\<open>What the lemmas show.\<close> Each component has an invariant that its operations keep, the meaning of its operations on every
  branch, and where it promises something to others, an abstract account that it refines: a list for the queues, a byte stream
  for the buffers and connections, due times for the wheel, the set of registered nodes for the proxies, a plain store for the
  cache, a register for the user center. The interfaces are locales interpreted on the code's own definitions: \<open>stream\<close>,
  \<open>connecter_handler\<close>, \<open>codec\<close>, \<open>message_serializer\<close>, \<open>streaming_hash\<close>. Lemmas about faults state what the code
  does where that is not what it means to do: a request never times out, a part of a websocket frame stops the network
  thread, a byte of 128 or more reads outside of the table of the checksum, a long string is left out of a message.

  \<^bold>\<open>Bounds.\<close> No model runs on fuel. Loops that end are \<open>function\<close>s with a measure or recursions on a list; those that may not
  (filling a send buffer, replacing and splitting in a string, the frames and the requests of a websocket) are \<open>partial_function (option)\<close>, and
  theorems say when they return. The number of steps until all messages are dispatched is given exactly (\<open>Message_Queue\<close>).
  Timers are shown for delays below \<open>2 ^ 40\<close> milliseconds, the span of the wheel; 64-bit times and positions in buffers, which
  the program does not reach the ends of, are unbounded.

  \<^bold>\<open>Parameters.\<close> The kernel (what reads and writes give), protobuf and JSON (names, bytes and parsers of messages), MySQL (what it
  answers to a statement), the clock and the zone of local times, random numbers and the text of floating-point numbers are arguments of the
  definitions; what the code relies on of them are hypotheses, with examples that meet them.

  \<^bold>\<open>Not modelled.\<close> Pure calls of the system or of libraries: the event loop and the socket functions, configuration files, start
  and end of the processes, the logger, profiling, crash handling, memory management. The switch of stacks, which is assembler. The bindings for Lua and the tagged values, which no service uses, and the
  futures, which only tests use. The login service, which passes on requests whose handling is in \<open>Dispatch_Service\<close>.
  Generated code, tests, the sample client and third-party sources.
\<close>

end
